(* ===== verification/NSM_Prelude.thy ===== *)
theory NSM_Prelude
  imports Main "HOL-Library.Word"
begin

text \<open>
  Shared vocabulary of the development: the widths of Go's integers, the lemma collections the
  component theories fill, and the generic facts on options, lists and machine words that more than
  one component needs.
\<close>

type_synonym u8 = "8 word"
type_synonym u32 = "32 word"
type_synonym u64 = "64 word"

named_theorems range_simps \<open>arithmetic reading of the address and range operations\<close>
named_theorems tree_simps \<open>in-order reading of the tree operations\<close>

section \<open>Options as Go's nil results\<close>

lemma bind_eq_Some_iff: "Option.bind m f = Some y \<longleftrightarrow> (\<exists>x. m = Some x \<and> f x = Some y)"
  by (cases m) auto

section \<open>Lists\<close>

lemma find_append: "find P (xs @ ys) = (case find P xs of None \<Rightarrow> find P ys | Some x \<Rightarrow> Some x)"
  by (induction xs) auto

section \<open>64-bit words\<close>

lemma unat_u64_less: "unat (x :: u64) < 18446744073709551616"
  using unsigned_less [of x] by simp

lemma unat_u64_le: "unat (x :: u64) \<le> 18446744073709551615"
  using unat_u64_less [of x] by simp

lemma u64_max_iff: "(x :: u64) = 0xFFFFFFFFFFFFFFFF \<longleftrightarrow> unat x = 18446744073709551615"
  by (simp add: word_unat_eq_iff)

lemma u64_less_max_iff: "(x :: u64) < 0xFFFFFFFFFFFFFFFF \<longleftrightarrow> unat x \<noteq> 18446744073709551615"
  using unat_u64_le [of x] by (auto simp: word_less_nat_alt)

lemma unat_u64_Suc: "(x :: u64) \<noteq> 0xFFFFFFFFFFFFFFFF \<Longrightarrow> unat (x + 1) = Suc (unat x)"
  using unat_u64_le [of x] by (simp add: unat_word_ariths u64_max_iff)

lemma unat_u64_pred: "(x :: u64) \<noteq> 0 \<Longrightarrow> unat (x - 1) = unat x - 1"
  by (simp add: unat_minus_one)

end
