(* ===== verification/Go_Net.thy ===== *)
theory Go_Net
  imports NSM_Prelude
begin

text \<open>
  The part of Go's standard packages \<^verbatim>\<open>net\<close> and \<^verbatim>\<open>encoding/binary\<close> that the SDK uses on addresses:
  \<^verbatim>\<open>net.IP\<close> and \<^verbatim>\<open>net.IPMask\<close> are byte slices (a nil slice is the empty list), \<^verbatim>\<open>net.IPNet\<close> a pair of
  them. A slice expression out of range panics in Go; here it is \<open>None\<close>.
\<close>

unbundle bit_operations_syntax

section \<open>Addresses, masks, networks\<close>

type_synonym IP = "u8 list"
type_synonym IPMask = "u8 list"

record IPNet =
  IP :: IP
  Mask :: IPMask

abbreviation IPv4len :: nat where "IPv4len \<equiv> 4"
abbreviation IPv6len :: nat where "IPv6len \<equiv> 16"

definition v4InV6Prefix :: "u8 list" where
  "v4InV6Prefix = [0, 0, 0, 0, 0, 0, 0, 0, 0, 0, 0xff, 0xff]"

definition To4 :: "IP \<Rightarrow> IP" where
  "To4 ip = (if length ip = IPv4len then ip
     else if length ip = IPv6len \<and> take 12 ip = v4InV6Prefix then drop 12 ip else [])"

definition To16 :: "IP \<Rightarrow> IP" where
  "To16 ip = (if length ip = IPv4len then v4InV6Prefix @ ip
     else if length ip = IPv6len then ip else [])"

definition IP_Mask :: "IP \<Rightarrow> IPMask \<Rightarrow> IP" where
  "IP_Mask ip m =
     (let m = (if length m = IPv6len \<and> length ip = IPv4len \<and> take 12 m = replicate 12 0xff
               then drop 12 m else m);
          ip = (if length m = IPv4len \<and> length ip = IPv6len \<and> take 12 ip = v4InV6Prefix
                then drop 12 ip else ip)
      in if length ip \<noteq> length m then [] else map2 (AND) ip m)"

text \<open>One byte of a mask with the first \<open>n\<close> bits set, \<open>n \<le> 8\<close>.\<close>

definition maskByte :: "nat \<Rightarrow> u8" where
  "maskByte n = push_bit (8 - n) 0xff"

definition CIDRMask :: "int \<Rightarrow> int \<Rightarrow> IPMask" where
  "CIDRMask ones bits =
     (if bits \<noteq> 8 * int IPv4len \<and> bits \<noteq> 8 * int IPv6len \<or> ones < 0 \<or> bits < ones then []
      else map (\<lambda>i. maskByte (min 8 (nat ones - 8 * i))) [0..<nat (bits div 8)])"

text \<open>\<^verbatim>\<open>simpleMaskLength\<close>: the number of leading ones, if nothing but zeros follows.\<close>

fun byteLength :: "u8 \<Rightarrow> nat option" where
  "byteLength b = find (\<lambda>n. maskByte n = b) [0..<9]"

fun simpleMaskLength :: "IPMask \<Rightarrow> nat option" where
  "simpleMaskLength [] = Some 0"
| "simpleMaskLength (b # bs) =
     (if b = 0xff then map_option ((+) 8) (simpleMaskLength bs)
      else if list_all (\<lambda>x. x = 0) bs then byteLength b else None)"

definition Mask_Size :: "IPMask \<Rightarrow> nat \<times> nat" where
  "Mask_Size m = (case simpleMaskLength m of None \<Rightarrow> (0, 0) | Some n \<Rightarrow> (n, 8 * length m))"

definition networkNumberAndMask :: "IPNet \<Rightarrow> IP \<times> IPMask" where
  "networkNumberAndMask n =
     (let ip = (if To4 (IP n) \<noteq> [] then To4 (IP n) else IP n) in
      if To4 (IP n) = [] \<and> length ip \<noteq> IPv6len then ([], [])
      else if length (Mask n) = IPv4len then (if length ip \<noteq> IPv4len then ([], []) else (ip, Mask n))
      else if length (Mask n) = IPv6len then
        (ip, if length ip = IPv4len then drop 12 (Mask n) else Mask n)
      else ([], []))"

definition IPNet_Contains :: "IPNet \<Rightarrow> IP \<Rightarrow> bool" where
  "IPNet_Contains n ip =
     (let (nn, m) = networkNumberAndMask n;
          ip = (if To4 ip \<noteq> [] then To4 ip else ip)
      in length ip = length nn \<and> list_all (\<lambda>i. nn ! i AND m ! i = ip ! i AND m ! i) [0..<length ip])"

definition cidr_bytes :: "nat \<Rightarrow> nat \<Rightarrow> u8 list" where
  "cidr_bytes n L = map (\<lambda>i. maskByte (min 8 (n - 8 * i))) [0..<L]"

lemma cidr_bytes_Suc: "cidr_bytes n (Suc L) = maskByte (min 8 n) # cidr_bytes (n - 8) L"
  by (simp add: cidr_bytes_def map_upt_Suc del: upt_Suc)

lemma cidr_bytes_0: "cidr_bytes 0 L = replicate L 0"
  by (simp add: cidr_bytes_def maskByte_def map_replicate_const)

lemma length_cidr_bytes [simp]: "length (cidr_bytes n L) = L"
  by (simp add: cidr_bytes_def)

lemma CIDRMask_cidr_bytes:
  "bits \<in> {32, 128} \<Longrightarrow> 0 \<le> ones \<Longrightarrow> ones \<le> bits \<Longrightarrow> CIDRMask ones bits = cidr_bytes (nat ones) (nat (bits div 8))"
  by (auto simp: CIDRMask_def cidr_bytes_def)

section \<open>Big-endian bytes\<close>

definition Uint64 :: "u8 list \<Rightarrow> u64" where
  "Uint64 bs = foldl (\<lambda>a b. push_bit 8 a OR ucast b) 0 bs"

definition PutUint64 :: "u64 \<Rightarrow> u8 list" where
  "PutUint64 w = map (\<lambda>i. ucast (drop_bit (56 - 8 * i) w)) [0..<8]"

text \<open>The number a byte string stands for.\<close>

fun bytes_val :: "u8 list \<Rightarrow> nat" where
  "bytes_val [] = 0"
| "bytes_val (b # bs) = unat b * 256 ^ length bs + bytes_val bs"

lemma bytes_val_append: "bytes_val (xs @ ys) = bytes_val xs * 256 ^ length ys + bytes_val ys"
  by (induction xs) (auto simp: power_add algebra_simps)

lemma unat_u8_less: "unat (b :: u8) < 256"
  using unsigned_less [of b] by simp

lemma bytes_val_bound: "bytes_val bs < 256 ^ length bs"
proof (induction bs)
  case (Cons b bs)
  have "unat b * 256 ^ length bs + bytes_val bs < Suc (unat b) * 256 ^ length bs"
    using Cons by simp
  also have "\<dots> \<le> 256 * 256 ^ length bs"
    using unat_u8_less [of b] by (intro mult_right_mono) auto
  finally show ?case by simp
qed simp

lemma bytes_val_mono: "list_all2 (\<lambda>x y. x \<le> y) xs ys \<Longrightarrow> bytes_val xs \<le> bytes_val ys"
  by (induction rule: list_all2_induct)
    (auto simp: list_all2_lengthD word_le_nat_alt intro!: add_mono mult_right_mono)

lemma bytes_val_inject:
  "length xs = length ys \<Longrightarrow> bytes_val xs = bytes_val ys \<longleftrightarrow> xs = ys"
proof (induction xs ys rule: list_induct2)
  case (Cons x xs y ys)
  have "unat a = bytes_val (a # as) div 256 ^ length as" "bytes_val as = bytes_val (a # as) mod 256 ^ length as"
    for a :: u8 and as
    using bytes_val_bound [of as] by simp_all
  with Cons show ?case by (metis list.inject word_unat_eq_iff)
qed simp

lemma push_bit_or_ucast:
  assumes "unat a < 2 ^ 56"
  shows "unat (push_bit 8 a OR ucast (b :: u8) :: u64) = unat a * 256 + unat b"
proof -
  have "push_bit 8 a AND (ucast b :: u64) = 0"
    by (rule bit_word_eqI) (auto simp: bit_simps dest: bit_imp_le_length)
  then have "push_bit 8 a OR ucast b = push_bit 8 a + (ucast b :: u64)"
    by (simp add: disjunctive_add [symmetric] bit_eq_iff bit_simps)
  moreover have "unat (push_bit 8 a) = unat a * 256"
    using assms by (simp add: push_bit_eq_mult unat_word_ariths)
  moreover have "unat (ucast b :: u64) = unat b"
    using unat_u8_less [of b] by (simp add: unsigned_ucast_eq take_bit_nat_eq_self_iff)
  ultimately show ?thesis
    using assms unat_u8_less [of b] by (simp add: unat_word_ariths)
qed

lemma unat_Uint64_foldl:
  "length bs \<le> 8 \<Longrightarrow> unat a < 256 ^ (8 - length bs) \<Longrightarrow>
    unat (foldl (\<lambda>a b. push_bit 8 a OR ucast b) (a :: u64) bs) = unat a * 256 ^ length bs + bytes_val bs"
proof (induction bs arbitrary: a)
  case (Cons b bs)
  have "(256 :: nat) ^ (8 - length (b # bs)) \<le> 256 ^ 7" by (intro power_increasing) auto
  with Cons.prems have "unat a < 2 ^ 56" by simp
  note step = push_bit_or_ucast [OF this, of b]
  have "256 ^ (8 - length bs) = (256 :: nat) * 256 ^ (8 - length (b # bs))"
    using Cons.prems(1) by (simp flip: power_Suc)
  then have "unat a * 256 + unat b < 256 ^ (8 - length bs)"
    using Cons.prems(2) unat_u8_less [of b] by simp
  then show ?case
    using Cons.IH [of "push_bit 8 a OR ucast b"] Cons.prems(1) step by (simp add: algebra_simps)
qed simp

lemma unat_Uint64: "length bs = 8 \<Longrightarrow> unat (Uint64 bs) = bytes_val bs"
  using unat_Uint64_foldl [of bs 0] by (simp add: Uint64_def)

text \<open>The \<open>k\<close> low bytes of a number, big end first.\<close>

fun be_bytes :: "nat \<Rightarrow> nat \<Rightarrow> u8 list" where
  "be_bytes 0 n = []"
| "be_bytes (Suc k) n = be_bytes k (n div 256) @ [word_of_nat n]"

lemma length_be_bytes [simp]: "length (be_bytes k n) = k"
  by (induction k arbitrary: n) auto

lemma bytes_val_be_bytes: "bytes_val (be_bytes k n) = n mod 256 ^ k"
proof (induction k arbitrary: n)
  case (Suc k)
  have "n mod (256 * 256 ^ k) = 256 * (n div 256 mod 256 ^ k) + n mod 256"
    by (rule mod_mult2_eq)
  then show ?case by (simp add: Suc bytes_val_append unsigned_of_nat take_bit_eq_mod)
qed simp

lemma be_bytes_map: "be_bytes k n = map (\<lambda>i. word_of_nat (n div 256 ^ (k - 1 - i))) [0..<k]"
proof (induction k arbitrary: n)
  case (Suc k)
  have "n div 256 div 256 ^ (k - 1 - i) = n div 256 ^ (k - i)" if "i < k" for i
    using that by (simp add: div_mult2_eq [symmetric] Suc_diff_Suc flip: power_Suc)
  then show ?case by (auto simp: Suc)
qed simp

lemma PutUint64_be_bytes: "PutUint64 w = be_bytes 8 (unat w)"
proof -
  have "unat (drop_bit k w) = unat w div 2 ^ k" for k
    by (simp add: unat_drop_bit_eq drop_bit_eq_div [where 'a = nat])
  then have "(ucast (drop_bit k w) :: u8) = word_of_nat (unat w div 2 ^ k)" for k
    by (simp add: word_unat_eq_iff unsigned_ucast_eq unsigned_of_nat)
  moreover have "(2 :: nat) ^ (56 - 8 * i) = 256 ^ (8 - 1 - i)" if "i < 8" for i
  proof -
    have "56 - 8 * i = 8 * (8 - 1 - i)" using that by simp
    then have "(2 :: nat) ^ (56 - 8 * i) = (2 ^ 8) ^ (8 - 1 - i)" by (metis power_mult)
    then show ?thesis by simp
  qed
  ultimately show ?thesis by (simp add: PutUint64_def be_bytes_map)
qed

lemma length_PutUint64 [simp]: "length (PutUint64 w) = 8"
  by (simp add: PutUint64_be_bytes)

lemma bytes_val_PutUint64: "bytes_val (PutUint64 w) = unat w"
  using unat_u64_less [of w] by (simp add: PutUint64_be_bytes bytes_val_be_bytes)

end
