(* ===== verification/IP_Range.thy ===== *)
theory IP_Range
  imports NSM_Prelude
begin

text \<open>
  Addresses and address ranges of the IP pool (\<^verbatim>\<open>src/pkg/tools/ippool/types.go\<close>).

  An address is a pair of 64-bit words, a range a pair of addresses. \<open>aval\<close> reads an address as
  the 128-bit number it stands for and \<open>range_set\<close> a range as the set of numbers between its
  bounds; the lemmas say what every operation computes in that reading. Go passes pointers to
  these structures but never writes through a shared one (\<^verbatim>\<open>Clone\<close> first, then assign), so they
  are values here; a nil \<^verbatim>\<open>*ipRange\<close> is \<open>None\<close>.
\<close>

section \<open>Data\<close>

record ipAddress =
  high :: u64
  low :: u64

record ipRange =
  start :: ipAddress
  finish :: ipAddress

abbreviation MaxUint64 :: u64 where
  "MaxUint64 \<equiv> 0xFFFFFFFFFFFFFFFF"

section \<open>Operations on addresses\<close>

definition ipAddress_Clone :: "ipAddress \<Rightarrow> ipAddress" where
  "ipAddress_Clone b = \<lparr>high = high b, low = low b\<rparr>"

definition ipAddress_Compare :: "ipAddress \<Rightarrow> ipAddress \<Rightarrow> int" where
  "ipAddress_Compare b ip =
     (if high ip > high b then 1
      else if high ip < high b then -1
      else if low ip > low b then 1
      else if low ip < low b then -1
      else 0)"

definition ipAddress_Equal :: "ipAddress \<Rightarrow> ipAddress \<Rightarrow> bool" where
  "ipAddress_Equal b ip \<longleftrightarrow> high b = high ip \<and> low b = low ip"

definition IsFirst :: "ipAddress \<Rightarrow> bool" where
  "IsFirst b \<longleftrightarrow> high b = 0 \<and> low b = 0"

definition IsLast :: "ipAddress \<Rightarrow> bool" where
  "IsLast b \<longleftrightarrow> high b = MaxUint64 \<and> low b = MaxUint64"

definition Prev :: "ipAddress \<Rightarrow> ipAddress" where
  "Prev b =
     (let r = ipAddress_Clone b in
      if low r > 0 then r\<lparr>low := low r - 1\<rparr>
      else r\<lparr>low := MaxUint64, high := high r - 1\<rparr>)"

definition Next :: "ipAddress \<Rightarrow> ipAddress" where
  "Next b =
     (let r = ipAddress_Clone b in
      if low r < MaxUint64 then r\<lparr>low := low r + 1\<rparr>
      else r\<lparr>low := 0, high := high r + 1\<rparr>)"

section \<open>Operations on ranges\<close>

definition ipRange_Clone :: "ipRange \<Rightarrow> ipRange" where
  "ipRange_Clone b = \<lparr>start = ipAddress_Clone (start b), finish = ipAddress_Clone (finish b)\<rparr>"

definition ipRange_Compare :: "ipRange \<Rightarrow> ipAddress \<Rightarrow> int" where
  "ipRange_Compare b ip =
     (if high ip > high (finish b) then 1
      else if high ip < high (start b) then -1
      else if high ip = high (finish b) \<and> low ip > low (finish b) then 1
      else if high ip = high (start b) \<and> low ip < low (start b) then -1
      else 0)"

definition CompareRange :: "ipRange \<Rightarrow> ipRange \<Rightarrow> int" where
  "CompareRange b ipR =
     (if ipRange_Compare b (start ipR) < 0 \<and> ipRange_Compare b (finish ipR) < 0 then
        if \<not> IsLast (finish ipR) \<and> ipRange_Compare b (Next (finish ipR)) = 0 then -1 else -2
      else if ipRange_Compare b (start ipR) > 0 \<and> ipRange_Compare b (finish ipR) > 0 then
        if \<not> IsFirst (finish ipR) \<and> ipRange_Compare b (Prev (start ipR)) = 0 then 1 else 2
      else 0)"

definition Unite :: "ipRange \<Rightarrow> ipRange \<Rightarrow> ipRange" where
  "Unite b ipR =
     (let r = ipRange_Clone b;
          r = (if ipRange_Compare r (start ipR) < 0
               then r\<lparr>start := ipAddress_Clone (start ipR)\<rparr> else r);
          r = (if ipRange_Compare r (finish ipR) > 0
               then r\<lparr>finish := ipAddress_Clone (finish ipR)\<rparr> else r)
      in r)"

definition Intersect :: "ipRange \<Rightarrow> ipRange \<Rightarrow> ipRange option" where
  "Intersect b ipR =
     (if CompareRange b ipR \<noteq> 0 then None
      else
        let r = ipRange_Clone b;
            r = (if ipRange_Compare r (start ipR) > 0
                 then r\<lparr>start := ipAddress_Clone (start ipR)\<rparr> else r);
            r = (if ipRange_Compare r (finish ipR) < 0
                 then r\<lparr>finish := ipAddress_Clone (finish ipR)\<rparr> else r)
        in Some r)"

definition Sub :: "ipRange \<Rightarrow> ipRange \<Rightarrow> ipRange option \<times> ipRange option" where
  "Sub b ipR =
     (if CompareRange b ipR \<noteq> 0 then (Some (ipRange_Clone b), None)
      else
        (if ipAddress_Compare (start b) (start ipR) > 0
         then Some \<lparr>start = ipAddress_Clone (start b), finish = Prev (start ipR)\<rparr> else None,
         if ipAddress_Compare (finish b) (finish ipR) < 0
         then Some \<lparr>start = Next (finish ipR), finish = ipAddress_Clone (finish b)\<rparr> else None))"

section \<open>The reading as numbers and sets of numbers\<close>

definition aval :: "ipAddress \<Rightarrow> nat" where
  "aval a = unat (high a) * 18446744073709551616 + unat (low a)"

definition wf_range :: "ipRange \<Rightarrow> bool" where
  "wf_range r \<longleftrightarrow> aval (start r) \<le> aval (finish r)"

definition range_set :: "ipRange \<Rightarrow> nat set" where
  "range_set r = {aval (start r) .. aval (finish r)}"

text \<open>The range at most ends right before the other one starts: it neither overlaps nor adjoins it.\<close>

definition range_below :: "ipRange \<Rightarrow> ipRange \<Rightarrow> bool" where
  "range_below r s \<longleftrightarrow> Suc (aval (finish r)) < aval (start s)"

lemma aval_inject [simp]: "aval a = aval b \<longleftrightarrow> a = b"
proof
  assume eq: "aval a = aval b"
  have "unat (high a) = aval a div 18446744073709551616" "unat (high b) = aval b div 18446744073709551616"
    using unat_u64_less by (simp_all add: aval_def)
  then have h: "high a = high b" using eq by (simp add: word_unat_eq_iff)
  then have "low a = low b" using eq by (simp add: aval_def word_unat_eq_iff)
  with h show "a = b" by simp
qed simp

lemma aval_less_iff: "aval a < aval b \<longleftrightarrow> high a < high b \<or> high a = high b \<and> low a < low b"
  using unat_u64_less [of "low a"] unat_u64_less [of "low b"]
  by (auto simp: aval_def word_less_nat_alt word_unat_eq_iff)

lemma aval_bound: "aval a < 340282366920938463463374607431768211456"
  using unat_u64_less [of "low a"] unat_u64_less [of "high a"] by (simp add: aval_def)

lemma Clone_eq [simp, range_simps]: "ipAddress_Clone a = a" "ipRange_Clone r = r"
  by (simp_all add: ipAddress_Clone_def ipRange_Clone_def)

lemma ipAddress_Compare_eq [range_simps]:
  "ipAddress_Compare b ip = (if aval b < aval ip then 1 else if aval ip < aval b then -1 else 0)"
  by (auto simp: ipAddress_Compare_def aval_less_iff)

lemma ipAddress_Equal_iff [range_simps]: "ipAddress_Equal a b \<longleftrightarrow> a = b"
  by (auto simp: ipAddress_Equal_def)

lemma IsFirst_iff [range_simps]: "IsFirst a \<longleftrightarrow> aval a = 0"
  by (auto simp: IsFirst_def aval_def unat_eq_zero)

lemma aval_last: "aval \<lparr>high = MaxUint64, low = MaxUint64\<rparr> = 340282366920938463463374607431768211455"
  by (simp add: aval_def)

lemma IsLast_iff [range_simps]: "IsLast a \<longleftrightarrow> aval a = 340282366920938463463374607431768211455"
proof -
  have "IsLast a \<longleftrightarrow> a = \<lparr>high = MaxUint64, low = MaxUint64\<rparr>"
    by (cases a) (simp add: IsLast_def)
  then show ?thesis by (metis aval_inject aval_last)
qed

lemma aval_Next [range_simps]: "\<not> IsLast a \<Longrightarrow> aval (Next a) = Suc (aval a)"
proof (cases "low a = MaxUint64")
  case True
  assume "\<not> IsLast a"
  with True have "high a \<noteq> MaxUint64" by (simp add: IsLast_def)
  with True show ?thesis by (simp add: Next_def aval_def Let_def unat_u64_Suc)
next
  case False
  then show ?thesis by (simp add: Next_def aval_def Let_def unat_u64_Suc u64_less_max_iff u64_max_iff)
qed

lemma aval_Prev [range_simps]: "\<not> IsFirst a \<Longrightarrow> aval (Prev a) = aval a - 1"
proof (cases "low a = 0")
  case True
  assume "\<not> IsFirst a"
  with True have "high a \<noteq> 0" by (simp add: IsFirst_def)
  then have "unat (high a) = Suc (unat (high a - 1))"
    by (simp add: unat_u64_pred unat_gt_0)
  with True show ?thesis by (simp add: Prev_def aval_def Let_def)
next
  case False
  then have "unat (low a) = Suc (unat (low a - 1))"
    by (simp add: unat_u64_pred unat_gt_0)
  with False show ?thesis by (simp add: Prev_def aval_def Let_def word_gt_0)
qed

section \<open>What the range operations compute\<close>

lemma ipRange_Compare_eq [range_simps]:
  "wf_range b \<Longrightarrow> ipRange_Compare b ip =
     (if aval (finish b) < aval ip then 1 else if aval ip < aval (start b) then -1 else 0)"
  by (auto simp: ipRange_Compare_def wf_range_def aval_less_iff not_less [symmetric])

lemma not_last_if_less: "aval a < aval b \<Longrightarrow> \<not> IsLast a"
  using aval_bound [of b] by (simp add: IsLast_iff)

lemma CompareRange_eq [range_simps]:
  assumes "wf_range b" "wf_range r"
  shows "CompareRange b r =
     (if aval (finish r) < aval (start b) then
        if Suc (aval (finish r)) = aval (start b) then -1 else -2
      else if aval (finish b) < aval (start r) then
        if aval (start r) = Suc (aval (finish b)) then 1 else 2
      else 0)"
proof -
  have n: "aval (finish r) < aval (start b) \<Longrightarrow> aval (Next (finish r)) = Suc (aval (finish r))"
    by (simp add: aval_Next not_last_if_less)
  have p: "aval (finish b) < aval (start r) \<Longrightarrow> aval (Prev (start r)) = aval (start r) - 1"
    by (simp add: aval_Prev IsFirst_iff)
  show ?thesis
    using assms not_last_if_less [of "finish r" "start b"]
    by (auto simp: CompareRange_def ipRange_Compare_eq n p IsFirst_iff wf_range_def)
qed

lemma CompareRange_zero_iff:
  "wf_range b \<Longrightarrow> wf_range r \<Longrightarrow> CompareRange b r = 0 \<longleftrightarrow> range_set b \<inter> range_set r \<noteq> {}"
  by (auto simp: CompareRange_eq range_set_def wf_range_def)

lemma CompareRange_below_iff:
  "wf_range b \<Longrightarrow> wf_range r \<Longrightarrow> CompareRange b r < -1 \<longleftrightarrow> range_below r b"
  by (auto simp: CompareRange_eq range_below_def wf_range_def)

lemma CompareRange_above_iff:
  "wf_range b \<Longrightarrow> wf_range r \<Longrightarrow> CompareRange b r > 1 \<longleftrightarrow> range_below b r"
  by (auto simp: CompareRange_eq range_below_def wf_range_def)

lemma Unite_bounds [range_simps]:
  assumes "wf_range b" "wf_range r"
  shows "aval (start (Unite b r)) = min (aval (start b)) (aval (start r))"
    and "aval (finish (Unite b r)) = max (aval (finish b)) (aval (finish r))"
proof -
  define c where "c = (if ipRange_Compare b (start r) < 0 then b\<lparr>start := start r\<rparr> else b)"
  have U: "Unite b r = (if ipRange_Compare c (finish r) > 0 then c\<lparr>finish := finish r\<rparr> else c)"
    by (simp add: Unite_def c_def Let_def)
  have c: "aval (start c) = min (aval (start b)) (aval (start r))" "finish c = finish b" "wf_range c"
    using assms by (auto simp: c_def ipRange_Compare_eq wf_range_def)
  show "aval (start (Unite b r)) = min (aval (start b)) (aval (start r))"
    "aval (finish (Unite b r)) = max (aval (finish b)) (aval (finish r))"
    using c assms by (auto simp: U ipRange_Compare_eq wf_range_def)
qed

lemma wf_Unite [simp]: "wf_range b \<Longrightarrow> wf_range r \<Longrightarrow> wf_range (Unite b r)"
  using Unite_bounds [of b r] by (simp add: wf_range_def)

lemma range_set_Unite:
  assumes "wf_range b" "wf_range r" "-1 \<le> CompareRange b r" "CompareRange b r \<le> 1"
  shows "range_set (Unite b r) = range_set b \<union> range_set r"
  using assms by (auto simp: range_set_def Unite_bounds CompareRange_eq wf_range_def split: if_splits)

lemma Sub_left:
  assumes "wf_range b" "wf_range r" "CompareRange b r = 0" "Sub b r = (Some l, u)"
  shows "start l = start b \<and> Suc (aval (finish l)) = aval (start r) \<and> wf_range l \<and>
    aval (start b) < aval (start r)"
  using assms by (auto simp: Sub_def ipAddress_Compare_eq aval_Prev IsFirst_iff wf_range_def split: if_splits)

lemma Sub_right:
  assumes "wf_range b" "wf_range r" "CompareRange b r = 0" "Sub b r = (l, Some u)"
  shows "finish u = finish b \<and> aval (start u) = Suc (aval (finish r)) \<and> wf_range u \<and>
    aval (finish r) < aval (finish b)"
  using assms
  by (auto simp: Sub_def ipAddress_Compare_eq aval_Next not_last_if_less wf_range_def split: if_splits)

lemma Sub_left_None:
  assumes "CompareRange b r = 0" "Sub b r = (None, u)"
  shows "aval (start r) \<le> aval (start b)"
  using assms by (auto simp: Sub_def ipAddress_Compare_eq split: if_splits)

lemma Sub_right_None:
  assumes "CompareRange b r = 0" "Sub b r = (l, None)"
  shows "aval (finish b) \<le> aval (finish r)"
  using assms by (auto simp: Sub_def ipAddress_Compare_eq split: if_splits)

end
