(* ===== verification/IP_Convert.thy ===== *)
theory IP_Convert
  imports Go_Net IP_Range
begin

text \<open>
  Conversions between Go's byte-slice addresses and the pool's pairs of words
  (\<^verbatim>\<open>src/pkg/tools/ippool/tools.go\<close>). \<open>None\<close> is the panic of a slice or index out of range.
\<close>

section \<open>Definitions\<close>

definition ipAddressFromIP :: "IP \<Rightarrow> ipAddress option" where
  "ipAddressFromIP ip =
     (if length (To16 ip) < 16 then None
      else Some \<lparr>high = Uint64 (take 8 (To16 ip)), low = Uint64 (drop 8 (To16 ip))\<rparr>)"

definition ipFromIPAddress :: "ipAddress \<Rightarrow> nat \<Rightarrow> IP" where
  "ipFromIPAddress addr sz =
     (let ip = PutUint64 (high addr) @ PutUint64 (low addr) in
      if sz = IPv4len then To4 ip else ip)"

definition getStartIP :: "IPNet \<Rightarrow> IP" where
  "getStartIP ipNet = IP_Mask (IP ipNet) (Mask ipNet)"

definition getEndIP :: "IPNet \<Rightarrow> IP option" where
  "getEndIP ipNet =
     (if length (Mask ipNet) < length (IP ipNet) then None
      else Some (map2 (\<lambda>b m. b OR NOT m) (IP ipNet) (Mask ipNet)))"

definition ipRangeFromIPNet :: "IPNet \<Rightarrow> ipRange option" where
  "ipRangeFromIPNet ipNet =
     (case ipAddressFromIP (getStartIP ipNet) of
        None \<Rightarrow> None
      | Some s \<Rightarrow>
          (case getEndIP ipNet of
             None \<Rightarrow> None
           | Some e \<Rightarrow> map_option (\<lambda>e. \<lparr>start = s, finish = e\<rparr>) (ipAddressFromIP e)))"

text \<open>
  A network as \<^verbatim>\<open>net.ParseCIDR\<close> and the composite literals of the SDK build it: address and mask of
  the same family.
\<close>

definition valid_IPNet :: "IPNet \<Rightarrow> bool" where
  "valid_IPNet n \<longleftrightarrow> length (IP n) = length (Mask n) \<and> length (IP n) \<in> {IPv4len, IPv6len}"

definition valid_IP :: "IP \<Rightarrow> bool" where
  "valid_IP ip \<longleftrightarrow> length ip \<in> {IPv4len, IPv6len}"

section \<open>Addresses\<close>

lemma length_To16: "valid_IP ip \<Longrightarrow> length (To16 ip) = 16"
  by (auto simp: To16_def valid_IP_def v4InV6Prefix_def)

lemma ipAddressFromIP_Some:
  assumes "valid_IP ip"
  obtains a where "ipAddressFromIP ip = Some a" "aval a = bytes_val (To16 ip)"
proof
  have l: "length (To16 ip) = 16" using assms by (rule length_To16)
  then show "ipAddressFromIP ip = Some \<lparr>high = Uint64 (take 8 (To16 ip)), low = Uint64 (drop 8 (To16 ip))\<rparr>"
    by (simp add: ipAddressFromIP_def)
  have "bytes_val (To16 ip) = bytes_val (take 8 (To16 ip) @ drop 8 (To16 ip))" by simp
  then show "aval \<lparr>high = Uint64 (take 8 (To16 ip)), low = Uint64 (drop 8 (To16 ip))\<rparr> = bytes_val (To16 ip)"
    using l by (simp only: bytes_val_append) (simp add: aval_def unat_Uint64)
qed

lemma ipAddressFromIP_None: "\<not> valid_IP ip \<Longrightarrow> ipAddressFromIP ip = None"
  by (auto simp: ipAddressFromIP_def To16_def valid_IP_def)

lemma aval_ipAddressFromIP: "ipAddressFromIP ip = Some a \<Longrightarrow> aval a = bytes_val (To16 ip)"
  by (metis ipAddressFromIP_Some ipAddressFromIP_None option.inject option.distinct(1))

lemma bytes_val_words: "bytes_val (PutUint64 (high a) @ PutUint64 (low a)) = aval a"
  by (simp add: bytes_val_append bytes_val_PutUint64 aval_def)

lemma To16_16 [simp]: "length ip = 16 \<Longrightarrow> To16 ip = ip"
  by (simp add: To16_def)

lemma words_bytes:
  assumes "ipAddressFromIP ip = Some a"
  shows "PutUint64 (high a) @ PutUint64 (low a) = To16 ip"
proof -
  have v: "valid_IP ip" using assms ipAddressFromIP_None by fastforce
  then show ?thesis
    using bytes_val_words [of a] aval_ipAddressFromIP [OF assms] length_To16 [OF v]
    by (simp add: bytes_val_inject [symmetric] del: bytes_val.simps)
qed

lemma bytes_words:
  assumes "length ip = 16" "bytes_val ip = aval a"
  shows "ipAddressFromIP ip = Some a"
  using assms ipAddressFromIP_Some [of ip] by (auto simp: valid_IP_def)

lemma ipAddress_roundtrip_v6: "ipAddressFromIP (ipFromIPAddress a IPv6len) = Some a"
  by (simp add: ipFromIPAddress_def Let_def bytes_words bytes_val_words)

lemma IP_roundtrip_v6:
  "length ip = IPv6len \<Longrightarrow> ipAddressFromIP ip = Some a \<Longrightarrow> ipFromIPAddress a IPv6len = ip"
  using words_bytes [of ip a] by (simp add: ipFromIPAddress_def Let_def)

lemma IP_roundtrip_v4:
  "length ip = IPv4len \<Longrightarrow> ipAddressFromIP ip = Some a \<Longrightarrow> ipFromIPAddress a IPv4len = ip"
  using words_bytes [of ip a]
  by (simp add: ipFromIPAddress_def Let_def To4_def To16_def v4InV6Prefix_def)

text \<open>The addresses an IPv4 pool holds: those of the block \<^verbatim>\<open>::ffff:0:0/96\<close>.\<close>

definition is_v4 :: "ipAddress \<Rightarrow> bool" where
  "is_v4 a \<longleftrightarrow> 0xFFFF00000000 \<le> aval a \<and> aval a \<le> 0xFFFFFFFFFFFF"

lemma bytes_val_v4: "length ip = 4 \<Longrightarrow> bytes_val (v4InV6Prefix @ ip) = 0xFFFF00000000 + bytes_val ip"
  by (simp add: bytes_val_append v4InV6Prefix_def)

lemma is_v4_ipAddressFromIP:
  assumes "length ip = IPv4len" "ipAddressFromIP ip = Some a"
  shows "is_v4 a"
  using aval_ipAddressFromIP [OF assms(2)] assms(1) bytes_val_bound [of ip] bytes_val_v4 [of ip]
  by (simp add: is_v4_def To16_def)

lemma ipAddress_roundtrip_v4:
  assumes "is_v4 a"
  shows "length (ipFromIPAddress a IPv4len) = IPv4len" "ipAddressFromIP (ipFromIPAddress a IPv4len) = Some a"
proof -
  define ip where "ip = be_bytes 4 (aval a - 0xFFFF00000000)"
  have "aval a - 0xFFFF00000000 < 4294967296" "0xFFFF00000000 \<le> aval a"
    using assms unfolding is_v4_def by linarith+
  then have "bytes_val (v4InV6Prefix @ ip) = aval a"
    by (simp add: ip_def bytes_val_v4 bytes_val_be_bytes)
  then have w: "PutUint64 (high a) @ PutUint64 (low a) = v4InV6Prefix @ ip"
    using bytes_val_inject [of "PutUint64 (high a) @ PutUint64 (low a)" "v4InV6Prefix @ ip"]
    by (simp add: bytes_val_words v4InV6Prefix_def ip_def)
  have f: "ipFromIPAddress a IPv4len = ip"
    by (simp add: ipFromIPAddress_def w To4_def ip_def v4InV6Prefix_def)
  then show "length (ipFromIPAddress a IPv4len) = IPv4len" by (simp add: ip_def)
  obtain b where "ipAddressFromIP ip = Some b" "aval b = bytes_val (To16 ip)"
    using ipAddressFromIP_Some [of ip] by (auto simp: valid_IP_def ip_def)
  with \<open>bytes_val (v4InV6Prefix @ ip) = aval a\<close> f
  show "ipAddressFromIP (ipFromIPAddress a IPv4len) = Some a"
    by (simp add: To16_def ip_def)
qed

section \<open>Networks\<close>

lemma byte_and_le_or: "(b AND m :: u8) \<le> b OR NOT m"
  by (rule order_trans [OF word_and_le2 le_word_or2])

lemma start_le_end:
  assumes "length ip = length m"
  shows "list_all2 (\<le>) (map2 (AND) ip m) (map2 (\<lambda>b m. b OR NOT m) ip (m :: u8 list))"
  using assms by (induction ip m rule: list_induct2) (auto simp: byte_and_le_or)

lemma ipRangeFromIPNet_Some:
  assumes "valid_IPNet n"
  obtains r where "ipRangeFromIPNet n = Some r" "wf_range r"
    "ipAddressFromIP (map2 (AND) (IP n) (Mask n)) = Some (start r)"
    "ipAddressFromIP (map2 (\<lambda>b m. b OR NOT m) (IP n) (Mask n)) = Some (finish r)"
proof -
  let ?s = "map2 (AND) (IP n) (Mask n)" and ?e = "map2 (\<lambda>b m. b OR NOT m) (IP n) (Mask n)"
  have s: "getStartIP n = ?s" using assms by (auto simp: getStartIP_def IP_Mask_def valid_IPNet_def)
  have e: "getEndIP n = Some ?e" using assms by (auto simp: getEndIP_def valid_IPNet_def)
  have v: "valid_IP ?s" "valid_IP ?e" using assms by (auto simp: valid_IPNet_def valid_IP_def)
  obtain a where a: "ipAddressFromIP ?s = Some a" "aval a = bytes_val (To16 ?s)"
    using ipAddressFromIP_Some [OF v(1)] .
  obtain b where b: "ipAddressFromIP ?e = Some b" "aval b = bytes_val (To16 ?e)"
    using ipAddressFromIP_Some [OF v(2)] .
  have "list_all2 (\<le>) ?s ?e" using assms by (intro start_le_end) (simp add: valid_IPNet_def)
  then have "list_all2 (\<le>) (To16 ?s) (To16 ?e)"
    using assms by (auto simp: To16_def valid_IPNet_def v4InV6Prefix_def)
  then have "aval a \<le> aval b" unfolding a(2) b(2) by (rule bytes_val_mono)
  then show thesis
    using that [of "\<lparr>start = a, finish = b\<rparr>"] a b s e by (simp add: ipRangeFromIPNet_def wf_range_def)
qed

end
