(* ===== verification/RB_Tree.thy ===== *)
theory RB_Tree
  imports NSM_Prelude
begin

text \<open>
  The red-black tree under the IP pool: the node type and the rebalancing of
  \<^verbatim>\<open>src/pkg/tools/ippool/ippool.go\<close> (from \<^verbatim>\<open>grandparent\<close> to \<^verbatim>\<open>nodeColor\<close>, and \<^verbatim>\<open>removeNode\<close>).

  The Go nodes carry a \<^verbatim>\<open>Parent\<close> pointer, and the code walks up through it. A pointer to a node is
  modelled by its location: the subtree below it and the list of steps up to the root, each step
  holding what hangs off the parent on the other side. \<^verbatim>\<open>node.Parent\<close>, \<^verbatim>\<open>node.sibling()\<close> and
  \<^verbatim>\<open>node == node.Parent.Left\<close> read the first step, assigning \<^verbatim>\<open>tree.root\<close> is plugging the location
  back together. A dereference of a nil pointer, which panics in Go, is the result \<open>None\<close>.

  \<open>insertCase\<close> functions return the tree that results; \<open>deleteCase\<close> functions never touch the
  subtree below their node, so they map the steps above the node to the new steps above it.
\<close>

section \<open>Nodes and locations\<close>

datatype color = Black | Red

datatype 'v treeNode =
  Nil
| Node (node_color: color) (Left: "'v treeNode") (Value: 'v) (Right: "'v treeNode")

text \<open>
  \<open>LeftOf c v r\<close>: the node is the left child of a parent of colour \<open>c\<close> and value \<open>v\<close> whose right
  child is \<open>r\<close>; \<open>RightOf c l v\<close> mirrors it.
\<close>

datatype 'v crumb =
  LeftOf color 'v "'v treeNode"
| RightOf color "'v treeNode" 'v

type_synonym 'v location = "'v treeNode \<times> 'v crumb list"

fun attach :: "'v treeNode \<Rightarrow> 'v crumb \<Rightarrow> 'v treeNode" where
  "attach t (LeftOf c v r) = Node c t v r"
| "attach t (RightOf c l v) = Node c l v t"

fun plug :: "'v treeNode \<Rightarrow> 'v crumb list \<Rightarrow> 'v treeNode" where
  "plug t [] = t"
| "plug t (k # ks) = plug (attach t k) ks"

fun nodeColor :: "'v treeNode \<Rightarrow> color" where
  "nodeColor Nil = Black"
| "nodeColor (Node c l v r) = c"

fun setColor :: "color \<Rightarrow> 'v treeNode \<Rightarrow> 'v treeNode" where
  "setColor c Nil = Nil"
| "setColor c (Node _ l v r) = Node c l v r"

fun parentColor :: "'v crumb \<Rightarrow> color" where
  "parentColor (LeftOf c v r) = c"
| "parentColor (RightOf c l v) = c"

fun setParentColor :: "color \<Rightarrow> 'v crumb \<Rightarrow> 'v crumb" where
  "setParentColor c (LeftOf _ v r) = LeftOf c v r"
| "setParentColor c (RightOf _ l v) = RightOf c l v"

fun crumbSibling :: "'v crumb \<Rightarrow> 'v treeNode" where
  "crumbSibling (LeftOf c v r) = r"
| "crumbSibling (RightOf c l v) = l"

fun setSibling :: "'v treeNode \<Rightarrow> 'v crumb \<Rightarrow> 'v crumb" where
  "setSibling s (LeftOf c v r) = LeftOf c v s"
| "setSibling s (RightOf c l v) = RightOf c s v"

text \<open>\<^verbatim>\<open>sibling\<close> and \<^verbatim>\<open>uncle\<close> return nil where there is no parent or no grandparent.\<close>

fun sibling :: "'v crumb list \<Rightarrow> 'v treeNode" where
  "sibling [] = Nil"
| "sibling (k # ks) = crumbSibling k"

fun uncle :: "'v crumb list \<Rightarrow> 'v treeNode" where
  "uncle [] = Nil"
| "uncle [k] = Nil"
| "uncle (k # g # ks) = sibling (g # ks)"

section \<open>Rotations\<close>

text \<open>The rotated subtree stands where the node stood (\<^verbatim>\<open>replaceNode\<close>); a missing child is a nil dereference.\<close>

fun rotateLeft :: "'v treeNode \<Rightarrow> 'v treeNode option" where
  "rotateLeft (Node c l v (Node c' rl v' rr)) = Some (Node c' (Node c l v rl) v' rr)"
| "rotateLeft _ = None"

fun rotateRight :: "'v treeNode \<Rightarrow> 'v treeNode option" where
  "rotateRight (Node c (Node c' ll v' lr) v r) = Some (Node c' ll v' (Node c lr v r))"
| "rotateRight _ = None"

section \<open>Rebalancing after an insertion\<close>

fun insertCase5 :: "'v location \<Rightarrow> 'v treeNode option" where
  "insertCase5 (t, k # g # ks) =
     (let k = setParentColor Black k; g = setParentColor Red g in
      case (k, g) of
        (LeftOf _ _ _, LeftOf _ _ _) \<Rightarrow>
          map_option (\<lambda>s. plug s ks) (rotateRight (attach (attach t k) g))
      | (RightOf _ _ _, RightOf _ _ _) \<Rightarrow>
          map_option (\<lambda>s. plug s ks) (rotateLeft (attach (attach t k) g))
      | _ \<Rightarrow> Some (plug t (k # g # ks)))"
| "insertCase5 _ = None"

fun insertCase4 :: "'v location \<Rightarrow> 'v treeNode option" where
  "insertCase4 (t, RightOf c l v # LeftOf gc gv gr # ks) =
     (case rotateLeft (attach t (RightOf c l v)) of
        Some (Node c' l' v' r') \<Rightarrow> insertCase5 (l', LeftOf c' v' r' # LeftOf gc gv gr # ks)
      | _ \<Rightarrow> None)"
| "insertCase4 (t, LeftOf c v r # RightOf gc gl gv # ks) =
     (case rotateRight (attach t (LeftOf c v r)) of
        Some (Node c' l' v' r') \<Rightarrow> insertCase5 (r', RightOf c' l' v' # RightOf gc gl gv # ks)
      | _ \<Rightarrow> None)"
| "insertCase4 (t, k # g # ks) = insertCase5 (t, k # g # ks)"
| "insertCase4 _ = None"

function (sequential) insertCase1 :: "'v location \<Rightarrow> 'v treeNode option"
  and insertCase2 :: "'v location \<Rightarrow> 'v treeNode option"
  and insertCase3 :: "'v location \<Rightarrow> 'v treeNode option" where
  "insertCase1 (t, []) = Some (setColor Black t)"
| "insertCase1 (t, k # ks) = insertCase2 (t, k # ks)"
| "insertCase2 (t, []) = insertCase3 (t, [])"
| "insertCase2 (t, k # ks) =
     (if parentColor k = Black then Some (plug t (k # ks)) else insertCase3 (t, k # ks))"
| "insertCase3 (t, k # g # ks) =
     (if nodeColor (uncle (k # g # ks)) = Red then
        let k = setParentColor Black k;
            g = setParentColor Red (setSibling (setColor Black (crumbSibling g)) g)
        in insertCase1 (attach (attach t k) g, ks)
      else insertCase4 (t, k # g # ks))"
| "insertCase3 (t, ks) = insertCase4 (t, ks)"
  by pat_completeness auto
termination
  by (relation "measure (\<lambda>x. case x of
        Inl (t, ks) \<Rightarrow> 3 * length ks + 2
      | Inr (Inl (t, ks)) \<Rightarrow> 3 * length ks + 1
      | Inr (Inr (t, ks)) \<Rightarrow> 3 * length ks)") auto

section \<open>Rebalancing after a removal\<close>

text \<open>
  \<^verbatim>\<open>deleteCase3\<close> recurses to the parent while the caller still holds the node to be cut out below it,
  so a position here is a pair: the steps from the current node down to the node to be removed, and
  the steps from the current node up to the root. The result is the whole list of steps above the
  node to be removed.
\<close>

type_synonym 'v position = "'v crumb list \<times> 'v crumb list"

fun deleteCase6 :: "'v position \<Rightarrow> 'v crumb list option" where
  "deleteCase6 (ds, LeftOf c v s # ks) =
     (case setColor c s of
        Nil \<Rightarrow> None
      | Node sc sl sv sr \<Rightarrow>
          if nodeColor sr = Red then
            Some (rev ds @ LeftOf Black v sl # LeftOf sc sv (setColor Black sr) # ks)
          else if nodeColor sl = Red then
            \<comment> \<open>the parent is rotated right, so the node itself takes its place\<close>
            (let p = (\<lambda>t. Node Black t v (Node sc (setColor Black sl) sv sr)) in
             case ds of
               [] \<Rightarrow> Some ks
             | LeftOf nc nv nr # ds' \<Rightarrow> Some (rev ds' @ LeftOf nc nv (p nr) # ks)
             | RightOf nc nl nv # ds' \<Rightarrow>
                 Some (rev ds' @ LeftOf Black v (Node sc (setColor Black sl) sv sr) # RightOf nc nl nv # ks))
          else Some (rev ds @ LeftOf Black v (Node sc sl sv sr) # ks))"
| "deleteCase6 (ds, RightOf c s v # ks) =
     (case setColor c s of
        Nil \<Rightarrow> None
      | Node sc sl sv sr \<Rightarrow>
          if nodeColor sl = Red then
            Some (rev ds @ RightOf Black sr v # RightOf sc (setColor Black sl) sv # ks)
          else Some (rev ds @ RightOf Black (Node sc sl sv sr) v # ks))"
| "deleteCase6 (ds, []) = None"

fun deleteCase5 :: "'v position \<Rightarrow> 'v crumb list option" where
  "deleteCase5 (ds, LeftOf c v s # ks) =
     (if nodeColor s = Black then
        case s of
          Nil \<Rightarrow> None
        | Node sc sl sv sr \<Rightarrow>
            if nodeColor sl = Red \<and> nodeColor sr = Black then
              case rotateRight (Node Red (setColor Black sl) sv sr) of
                None \<Rightarrow> None
              | Some s' \<Rightarrow> deleteCase6 (ds, LeftOf c v s' # ks)
            else deleteCase6 (ds, LeftOf c v s # ks)
      else deleteCase6 (ds, LeftOf c v s # ks))"
| "deleteCase5 (ds, RightOf c s v # ks) =
     (if nodeColor s = Black then
        case s of
          Nil \<Rightarrow> None
        | Node sc sl sv sr \<Rightarrow>
            if nodeColor sr = Red \<and> nodeColor sl = Black then
              case rotateLeft (Node Red sl sv (setColor Black sr)) of
                None \<Rightarrow> None
              | Some s' \<Rightarrow> deleteCase6 (ds, RightOf c s' v # ks)
            else deleteCase6 (ds, RightOf c s v # ks)
      else deleteCase6 (ds, RightOf c s v # ks))"
| "deleteCase5 (ds, []) = None"

fun deleteCase4 :: "'v position \<Rightarrow> 'v crumb list option" where
  "deleteCase4 (ds, k # ks) =
     (if parentColor k = Red \<and> nodeColor (crumbSibling k) = Black then
        case crumbSibling k of
          Nil \<Rightarrow> None
        | Node sc sl sv sr \<Rightarrow>
            if nodeColor sl = Black \<and> nodeColor sr = Black
            then Some (rev ds @ setParentColor Black (setSibling (Node Red sl sv sr) k) # ks)
            else deleteCase5 (ds, k # ks)
      else deleteCase5 (ds, k # ks))"
| "deleteCase4 (ds, []) = None"

function (sequential) deleteCase1 :: "'v position \<Rightarrow> 'v crumb list option"
  and deleteCase2 :: "'v position \<Rightarrow> 'v crumb list option"
  and deleteCase3 :: "'v position \<Rightarrow> 'v crumb list option" where
  "deleteCase1 (ds, []) = Some (rev ds)"
| "deleteCase1 (ds, k # ks) = deleteCase2 (ds, k # ks)"
| "deleteCase2 (ds, LeftOf c v (Node Red sl sv sr) # ks) =
     deleteCase3 (ds, LeftOf Red v sl # LeftOf Black sv sr # ks)"
| "deleteCase2 (ds, RightOf c (Node Red sl sv sr) v # ks) =
     deleteCase3 (ds, RightOf Red sr v # RightOf Black sl sv # ks)"
| "deleteCase2 (ds, ks) = deleteCase3 (ds, ks)"
| "deleteCase3 (ds, k # ks) =
     (if parentColor k = Black \<and> nodeColor (crumbSibling k) = Black then
        case crumbSibling k of
          Nil \<Rightarrow> None
        | Node sc sl sv sr \<Rightarrow>
            if nodeColor sl = Black \<and> nodeColor sr = Black
            then deleteCase1 (setSibling (Node Red sl sv sr) k # ds, ks)
            else deleteCase4 (ds, k # ks)
      else deleteCase4 (ds, k # ks))"
| "deleteCase3 (ds, []) = None"
  by pat_completeness auto
termination
  by (relation "measure (\<lambda>x. case x of
        Inl (ds, ks) \<Rightarrow> 3 * length ks + 2
      | Inr (Inl (ds, ks)) \<Rightarrow> 3 * length ks + 1
      | Inr (Inr (ds, ks)) \<Rightarrow>
          (case ks of [] \<Rightarrow> 0 | k # _ \<Rightarrow> if parentColor k = Red then 0 else 3 * length ks))")
    (auto split: list.splits)

text \<open>The location of the rightmost node below a location.\<close>

fun maximumNode :: "'v location \<Rightarrow> 'v location" where
  "maximumNode (Node c l v (Node c' l' v' r'), ks) =
     maximumNode (Node c' l' v' r', RightOf c l v # ks)"
| "maximumNode (t, ks) = (t, ks)"

text \<open>
  Cutting out a node that has at most one child, then \<^verbatim>\<open>removeNode\<close> itself, which first moves the
  value of the predecessor into a node with two children.
\<close>

fun cutNode :: "'v location \<Rightarrow> 'v treeNode option" where
  "cutNode (Nil, ks) = None"
| "cutNode (Node c l v r, ks) =
     (let child = (if r = Nil then l else r) in
      case (if c = Black then deleteCase1 ([], ks) else Some ks) of
        None \<Rightarrow> None
      | Some ks' \<Rightarrow> Some (plug (if ks' = [] then setColor Black child else child) ks'))"

fun removeNode :: "'v location \<Rightarrow> 'v treeNode option" where
  "removeNode (Nil, ks) = Some (plug Nil ks)"
| "removeNode (Node c l v r, ks) =
     (if l \<noteq> Nil \<and> r \<noteq> Nil then
        case maximumNode (l, []) of
          (Nil, ps) \<Rightarrow> None
        | (Node pc pl pv pr, ps) \<Rightarrow> cutNode (Node pc pl pv pr, ps @ LeftOf c pv r # ks)
      else cutNode (Node c l v r, ks))"

end
