(* ===== verification/RB_Invariants.thy ===== *)
theory RB_Invariants
  imports RB_Tree
begin

text \<open>
  What the rebalancing of the red-black tree keeps: the in-order sequence of values, and the
  colour and height invariants. The invariants are stated for locations, so that they pass through
  the functions that walk up: \<open>path_inv ks n\<close> says that the steps \<open>ks\<close> become a red-black tree
  when a subtree of black height \<open>n\<close> is plugged into them.
\<close>

section \<open>In-order reading\<close>

fun inorder :: "'v treeNode \<Rightarrow> 'v list" where
  "inorder Nil = []"
| "inorder (Node c l v r) = inorder l @ v # inorder r"

fun lefts :: "'v crumb list \<Rightarrow> 'v list" where
  "lefts [] = []"
| "lefts (LeftOf c v r # ks) = lefts ks"
| "lefts (RightOf c l v # ks) = lefts ks @ inorder l @ [v]"

fun rights :: "'v crumb list \<Rightarrow> 'v list" where
  "rights [] = []"
| "rights (LeftOf c v r # ks) = v # inorder r @ rights ks"
| "rights (RightOf c l v # ks) = rights ks"

fun count_nodes :: "'v treeNode \<Rightarrow> nat" where
  "count_nodes Nil = 0"
| "count_nodes (Node c l v r) = Suc (count_nodes l + count_nodes r)"

lemma count_nodes_inorder: "count_nodes t = length (inorder t)"
  by (induction t) auto

lemma inorder_plug [tree_simps]: "inorder (plug t ks) = lefts ks @ inorder t @ rights ks"
proof (induction ks arbitrary: t)
  case (Cons k ks)
  then show ?case by (cases k) auto
qed simp

lemma lefts_append [tree_simps]: "lefts (ks @ ks') = lefts ks' @ lefts ks"
  by (induction ks rule: lefts.induct) auto

lemma rights_append [tree_simps]: "rights (ks @ ks') = rights ks @ rights ks'"
  by (induction ks rule: rights.induct) auto

lemma inorder_setColor [simp]: "inorder (setColor c t) = inorder t"
  by (cases t) auto

lemma lefts_setParentColor [simp]: "lefts (setParentColor c k # ks) = lefts (k # ks)"
  by (cases k) auto

lemma rights_setParentColor [simp]: "rights (setParentColor c k # ks) = rights (k # ks)"
  by (cases k) auto

lemma lefts_setSibling [simp]:
  "inorder s = inorder (crumbSibling k) \<Longrightarrow> lefts (setSibling s k # ks) = lefts (k # ks)"
  by (cases k) auto

lemma rights_setSibling [simp]:
  "inorder s = inorder (crumbSibling k) \<Longrightarrow> rights (setSibling s k # ks) = rights (k # ks)"
  by (cases k) auto

section \<open>Colour and height invariants\<close>

fun bheight :: "'v treeNode \<Rightarrow> nat" where
  "bheight Nil = 0"
| "bheight (Node c l v r) = (if c = Black then Suc (bheight l) else bheight l)"

fun inv_color :: "'v treeNode \<Rightarrow> bool" where
  "inv_color Nil \<longleftrightarrow> True"
| "inv_color (Node c l v r) \<longleftrightarrow>
     (c = Red \<longrightarrow> nodeColor l = Black \<and> nodeColor r = Black) \<and> inv_color l \<and> inv_color r"

fun inv_height :: "'v treeNode \<Rightarrow> bool" where
  "inv_height Nil \<longleftrightarrow> True"
| "inv_height (Node c l v r) \<longleftrightarrow> bheight l = bheight r \<and> inv_height l \<and> inv_height r"

definition subtree_inv :: "'v treeNode \<Rightarrow> bool" where
  "subtree_inv t \<longleftrightarrow> inv_color t \<and> inv_height t"

definition rb_inv :: "'v treeNode \<Rightarrow> bool" where
  "rb_inv t \<longleftrightarrow> subtree_inv t \<and> nodeColor t = Black"

text \<open>The parent is there and black: a red node may stand below it.\<close>

fun black_parent :: "'v crumb list \<Rightarrow> bool" where
  "black_parent [] \<longleftrightarrow> False"
| "black_parent (k # ks) \<longleftrightarrow> parentColor k = Black"

fun path_inv :: "'v crumb list \<Rightarrow> nat \<Rightarrow> bool" where
  "path_inv [] n \<longleftrightarrow> True"
| "path_inv (k # ks) n \<longleftrightarrow>
     subtree_inv (crumbSibling k) \<and> bheight (crumbSibling k) = n \<and>
     (parentColor k = Red \<longrightarrow> nodeColor (crumbSibling k) = Black \<and> black_parent ks) \<and>
     path_inv ks (if parentColor k = Black then Suc n else n)"

lemma subtree_inv_simps [simp]:
  "subtree_inv Nil"
  "subtree_inv (Node c l v r) \<longleftrightarrow>
     (c = Red \<longrightarrow> nodeColor l = Black \<and> nodeColor r = Black) \<and> bheight l = bheight r \<and>
     subtree_inv l \<and> subtree_inv r"
  by (auto simp: subtree_inv_def)

lemma rb_inv_plug:
  "rb_inv (plug t ks) \<longleftrightarrow>
     subtree_inv t \<and> path_inv ks (bheight t) \<and> (nodeColor t = Red \<longrightarrow> black_parent ks)"
proof (induction ks arbitrary: t)
  case Nil
  then show ?case by (cases "nodeColor t") (auto simp: rb_inv_def)
next
  case (Cons k ks)
  have "subtree_inv (attach t k) \<and> path_inv ks (bheight (attach t k)) \<and>
        (nodeColor (attach t k) = Red \<longrightarrow> black_parent ks) \<longleftrightarrow>
      subtree_inv t \<and> path_inv (k # ks) (bheight t) \<and> (nodeColor t = Red \<longrightarrow> black_parent (k # ks))"
    by (cases k; cases "nodeColor t"; cases "parentColor k") auto
  with Cons show ?case by simp
qed

lemma subtree_inv_setColor_Black [simp]: "subtree_inv t \<Longrightarrow> subtree_inv (setColor Black t)"
  by (cases t) auto

lemma nodeColor_setColor_Black [simp]: "nodeColor (setColor Black t) = Black"
  by (cases t) auto

lemma color_not_Black [simp]: "c \<noteq> Black \<longleftrightarrow> c = Red" "c \<noteq> Red \<longleftrightarrow> c = Black"
  by (cases c; simp)+

lemma setColor_same: "nodeColor t = c \<Longrightarrow> setColor c t = t"
  by (cases t) auto

section \<open>Insertion\<close>

lemma insertCase4_inv:
  assumes "subtree_inv t" "t \<noteq> Nil" "nodeColor t = Red" "path_inv (k # g # ks) (bheight t)"
    "parentColor k = Red" "nodeColor (crumbSibling g) = Black"
  shows "\<exists>t'. insertCase4 (t, k # g # ks) = Some t' \<and> rb_inv t' \<and>
    inorder t' = lefts (k # g # ks) @ inorder t @ rights (k # g # ks)"
proof -
  obtain l v r where t: "t = Node Red l v r" using assms by (cases t) auto
  show ?thesis
    using assms unfolding t
    by (cases k; cases g; simp add: rb_inv_plug inorder_plug)
qed

lemma path_inv_recolour:
  assumes "path_inv (k # g # ks) n" "subtree_inv t" "bheight t = n" "parentColor k = Red"
    "nodeColor (crumbSibling g) = Red"
  defines "s \<equiv> attach (attach t (setParentColor Black k))
      (setParentColor Red (setSibling (setColor Black (crumbSibling g)) g))"
  shows "subtree_inv s" "path_inv ks (bheight s)" "nodeColor s = Red" "s \<noteq> Nil"
    "lefts ks @ inorder s @ rights ks = lefts (k # g # ks) @ inorder t @ rights (k # g # ks)"
proof -
  obtain sl sv sr where "crumbSibling g = Node Red sl sv sr"
    using assms(5) by (cases "crumbSibling g") auto
  then show "subtree_inv s" "path_inv ks (bheight s)" "nodeColor s = Red" "s \<noteq> Nil"
    "lefts ks @ inorder s @ rights ks = lefts (k # g # ks) @ inorder t @ rights (k # g # ks)"
    using assms(1-4) unfolding s_def by (cases k; cases g; simp)+
qed

theorem insertCase1_inv:
  assumes "subtree_inv t" "t \<noteq> Nil" "nodeColor t = Red" "path_inv ks (bheight t)"
  shows "\<exists>t'. insertCase1 (t, ks) = Some t' \<and> rb_inv t' \<and>
    inorder t' = lefts ks @ inorder t @ rights ks"
  using assms
proof (induction "length ks" arbitrary: t ks rule: less_induct)
  case less
  consider "ks = []" | k ks' where "ks = k # ks'" "parentColor k = Black"
    | k g ks' where "ks = k # g # ks'" "parentColor k = Red" "nodeColor (crumbSibling g) = Red"
    | k g ks' where "ks = k # g # ks'" "parentColor k = Red" "nodeColor (crumbSibling g) = Black"
    using less.prems(4) by (cases ks; cases "tl ks"; auto) (metis color.exhaust)+
  then show ?case
  proof cases
    case 1
    then show ?thesis using less.prems by (cases t) (auto simp: rb_inv_def)
  next
    case 2
    then show ?thesis
      using less.prems rb_inv_plug [of t ks] inorder_plug [of t ks] by (simp del: plug.simps)
  next
    case 3
    note r = path_inv_recolour [OF less.prems(4) [unfolded 3] less.prems(1) refl 3(2,3)]
    from less.hyps [OF _ r(1,4,3,2)] 3 show ?thesis by (simp add: r(5) Let_def)
  next
    case 4
    from insertCase4_inv [OF less.prems(1-3) less.prems(4) [unfolded 4(1)] 4(2,3)] 4
    show ?thesis by simp
  qed
qed

section \<open>Removal\<close>

text \<open>
  The steps after a removal: they take a subtree one black node shorter, keep the order of the
  values around it, and start at a black parent, so that even a red child may be plugged in.
\<close>

definition rebalanced :: "'v crumb list \<Rightarrow> nat \<Rightarrow> 'v crumb list \<Rightarrow> bool" where
  "rebalanced ks n ks' \<longleftrightarrow> path_inv ks' n \<and> (ks \<noteq> [] \<longrightarrow> black_parent ks') \<and> (ks = [] \<longleftrightarrow> ks' = []) \<and>
     lefts ks' = lefts ks \<and> rights ks' = rights ks"

lemma bheight_Black_Suc:
  assumes "bheight t = Suc n" "nodeColor t = Black"
  obtains l v r where "t = Node Black l v r"
  using assms by (cases t) auto

lemma bheight_Black_0: "bheight t = 0 \<Longrightarrow> nodeColor t = Black \<Longrightarrow> t = Nil"
  by (cases t) auto

lemma deleteCase4_inv:
  assumes "path_inv (k # ks) (Suc n)" "nodeColor (crumbSibling k) = Black"
    "\<not> (parentColor k = Black \<and> nodeColor (Left (crumbSibling k)) = Black \<and>
        nodeColor (Right (crumbSibling k)) = Black)"
  shows "\<exists>ks'. deleteCase4 (ds, k # ks) = Some (rev ds @ ks') \<and> rebalanced (k # ks) n ks'"
proof -
  obtain sl sv sr where s: "crumbSibling k = Node Black sl sv sr"
    using assms(1,2) by (auto elim: bheight_Black_Suc)
  show ?thesis
  proof (cases k)
    case (LeftOf c v x)
    then show ?thesis using assms s
      by (cases sl; cases sr; cases c; auto simp: rebalanced_def split: if_splits)
  next
    case (RightOf c x v)
    then show ?thesis using assms s
      by (cases sl; cases sr; cases c; auto simp: rebalanced_def split: if_splits)
  qed
qed

lemma setSibling_inv:
  assumes "path_inv (k # ks) (Suc n)" "parentColor k = Black" "crumbSibling k = Node Black sl sv sr"
    "nodeColor sl = Black" "nodeColor sr = Black"
  shows "path_inv ks (Suc (Suc n))" "subtree_inv (Node Red sl sv sr)" "bheight (Node Red sl sv sr) = n"
    "parentColor (setSibling (Node Red sl sv sr) k) = Black"
    "crumbSibling (setSibling (Node Red sl sv sr) k) = Node Red sl sv sr"
  using assms by (cases k; auto)+

theorem deleteCase1_inv:
  assumes "path_inv ks (Suc n)"
  shows "\<exists>ks'. deleteCase1 (ds, ks) = Some (rev ds @ ks') \<and> rebalanced ks n ks'"
  using assms
proof (induction ks arbitrary: ds n)
  case Nil
  then show ?case by (simp add: rebalanced_def)
next
  case (Cons k ks)
  show ?case
  proof (cases "nodeColor (crumbSibling k) = Red")
    case True
    then obtain sl sv sr where s: "crumbSibling k = Node Red sl sv sr"
      by (cases "crumbSibling k") auto
    have black: "parentColor k = Black" using Cons.prems s by (cases "parentColor k") auto
    show ?thesis
    proof (cases k)
      case (LeftOf c v x)
      have "\<exists>ks'. deleteCase4 (ds, LeftOf Red v sl # LeftOf Black sv sr # ks) = Some (rev ds @ ks') \<and>
          rebalanced (LeftOf Red v sl # LeftOf Black sv sr # ks) n ks'"
        using Cons.prems s black LeftOf by (intro deleteCase4_inv) auto
      then show ?thesis using s LeftOf by (auto simp: rebalanced_def)
    next
      case (RightOf c x v)
      have "\<exists>ks'. deleteCase4 (ds, RightOf Red sr v # RightOf Black sl sv # ks) = Some (rev ds @ ks') \<and>
          rebalanced (RightOf Red sr v # RightOf Black sl sv # ks) n ks'"
        using Cons.prems s black RightOf by (intro deleteCase4_inv) auto
      then show ?thesis using s RightOf by (auto simp: rebalanced_def)
    qed
  next
    case False
    then obtain sl sv sr where s: "crumbSibling k = Node Black sl sv sr"
      using Cons.prems by (auto elim: bheight_Black_Suc)
    have d: "deleteCase1 (ds, k # ks) = deleteCase3 (ds, k # ks)"
      using s by (cases k) auto
    show ?thesis
    proof (cases "parentColor k = Black \<and> nodeColor sl = Black \<and> nodeColor sr = Black")
      case True
      note inv = setSibling_inv [OF Cons.prems _ s]
      from Cons.IH [of "Suc n" "setSibling (Node Red sl sv sr) k # ds"] inv True
      obtain ks' where ks': "deleteCase1 (setSibling (Node Red sl sv sr) k # ds, ks) =
          Some (rev ds @ setSibling (Node Red sl sv sr) k # ks')" "rebalanced ks (Suc n) ks'"
        by auto
      have "rebalanced (k # ks) n (setSibling (Node Red sl sv sr) k # ks')"
        using ks'(2) inv True s by (cases k) (auto simp: rebalanced_def)
      with ks'(1) d s True show ?thesis by auto
    next
      case no: False
      with deleteCase4_inv [OF Cons.prems, of ds] s d False show ?thesis by auto
    qed
  qed
qed

lemma maximumNode_plug: "plug (fst (maximumNode (t, ks))) (snd (maximumNode (t, ks))) = plug t ks"
  by (induction "(t, ks)" arbitrary: t ks rule: maximumNode.induct) auto

lemma maximumNode_Right: "t \<noteq> Nil \<Longrightarrow> \<exists>c l v. fst (maximumNode (t, ks)) = Node c l v Nil"
  by (induction "(t, ks)" arbitrary: t ks rule: maximumNode.induct) auto

lemma maximumNode_append: "maximumNode (t, ks @ ks') =
    (fst (maximumNode (t, ks)), snd (maximumNode (t, ks)) @ ks')"
  by (induction "(t, ks)" arbitrary: t ks rule: maximumNode.induct) auto

lemma maximumNode_rights: "rights (snd (maximumNode (t, ks))) = rights ks"
  by (induction "(t, ks)" arbitrary: t ks rule: maximumNode.induct) auto

lemma maximumNode_obtain:
  assumes "l \<noteq> Nil"
  obtains pc pl pv ps where "maximumNode (l, []) = (Node pc pl pv Nil, ps)" "rights ps = []"
    "\<And>ks. plug (Node pc pl pv Nil) (ps @ ks) = plug l ks"
proof -
  obtain pc pl pv where "fst (maximumNode (l, [])) = Node pc pl pv Nil"
    using maximumNode_Right [OF assms, of "[]"] by blast
  moreover have "rights (snd (maximumNode (l, []))) = []"
    by (simp add: maximumNode_rights)
  moreover have "plug (fst (maximumNode (l, []))) (snd (maximumNode (l, [])) @ ks) = plug l ks" for ks
    using maximumNode_plug [of l ks] maximumNode_append [of l "[]" ks] by simp
  ultimately show thesis
    using that [of pc pl pv "snd (maximumNode (l, []))"] by (metis prod.collapse)
qed

lemma cutNode_inv:
  assumes inv: "rb_inv (plug (Node c l v r) ks)" and one: "l = Nil \<or> r = Nil"
  shows "\<exists>t'. cutNode (Node c l v r, ks) = Some t' \<and> rb_inv t' \<and>
    inorder t' = lefts ks @ inorder l @ inorder r @ rights ks"
proof -
  define child where "child = (if r = Nil then l else r)"
  have child: "subtree_inv child" "bheight child = bheight l" "inorder child = inorder l @ inorder r"
    using inv one by (auto simp: child_def rb_inv_plug)
  have p: "path_inv ks (bheight (Node c l v r))" using inv by (simp add: rb_inv_plug)
  show ?thesis
  proof (cases c)
    case Black
    with deleteCase1_inv [of ks "bheight l" "[]"] p
    obtain ks' where ks': "deleteCase1 ([], ks) = Some ks'" "rebalanced ks (bheight l) ks'" by auto
    have "rb_inv (plug (if ks' = [] then setColor Black child else child) ks')"
      using ks'(2) child by (auto simp: rb_inv_plug rebalanced_def)
    then show ?thesis using ks' child
      by (simp add: Black child_def [symmetric] Let_def inorder_plug rebalanced_def)
  next
    case Red
    with inv one have n: "l = Nil" "r = Nil" "ks \<noteq> []"
      by (auto simp: rb_inv_plug dest: bheight_Black_0)
    then show ?thesis using p Red by (simp add: rb_inv_plug inorder_plug)
  qed
qed

theorem removeNode_inv:
  assumes inv: "rb_inv (plug (Node c l v r) ks)"
  shows "\<exists>t'. removeNode (Node c l v r, ks) = Some t' \<and> rb_inv t' \<and>
    inorder t' = lefts ks @ inorder l @ inorder r @ rights ks"
proof (cases "l \<noteq> Nil \<and> r \<noteq> Nil")
  case True
  then obtain pc pl pv ps where m: "maximumNode (l, []) = (Node pc pl pv Nil, ps)" "rights ps = []"
    "\<And>ks. plug (Node pc pl pv Nil) (ps @ ks) = plug l ks"
    using maximumNode_obtain by blast
  have "inorder l = lefts ps @ inorder pl @ [pv]"
    using m(2) m(3) [of "[]"] inorder_plug [of "Node pc pl pv Nil" ps] by simp
  moreover have "rb_inv (plug (Node pc pl pv Nil) (ps @ LeftOf c pv r # ks))"
    using inv unfolding m(3) by (simp add: rb_inv_plug)
  ultimately show ?thesis
    using cutNode_inv [of pc pl pv Nil "ps @ LeftOf c pv r # ks"] True m(1,2)
    by (simp add: lefts_append rights_append)
next
  case False
  then show ?thesis using cutNode_inv [OF inv] by auto
qed

section \<open>Removal makes any tree smaller\<close>

text \<open>
  Whatever the tree looks like, \<^verbatim>\<open>removeNode\<close> leaves fewer nodes: the recursions of the pool that
  remove a node and start again from the root end.
\<close>

definition weight :: "'v crumb list \<Rightarrow> nat" where
  "weight ks = length (lefts ks) + length (rights ks)"

lemma weight_simps [simp]:
  "weight [] = 0"
  "weight (k # ks) = Suc (length (inorder (crumbSibling k)) + weight ks)"
  "weight (ks @ ks') = weight ks + weight ks'"
  by (simp_all add: weight_def lefts_append rights_append) (cases k; simp)

lemma weight_rev [simp]: "weight (rev ks) = weight ks"
  by (induction ks) auto

lemma crumbSibling_set [simp]:
  "crumbSibling (setParentColor c k) = crumbSibling k"
  "crumbSibling (setSibling s k) = s"
  by (cases k; simp)+

lemma deleteCase6_weight:
  assumes "deleteCase6 (ds, k # ks) = Some ks'"
  shows "weight ks' \<le> weight ds + weight (k # ks)"
proof (cases k)
  case (LeftOf c v s)
  then show ?thesis using assms
    by (cases s) (auto simp: Let_def split: if_splits list.splits crumb.splits)
next
  case (RightOf c s v)
  then show ?thesis using assms
    by (cases s) (auto split: if_splits)
qed

lemma rotate_inorder:
  "rotateLeft t = Some s \<Longrightarrow> inorder s = inorder t"
  "rotateRight t = Some s \<Longrightarrow> inorder s = inorder t"
  by (auto elim: rotateLeft.elims rotateRight.elims)

lemma deleteCase5_weight:
  assumes "deleteCase5 (ds, k # ks) = Some ks'"
  shows "weight ks' \<le> weight ds + weight (k # ks)"
proof (cases k)
  case (LeftOf c v s)
  then show ?thesis using assms
    by (auto dest!: deleteCase6_weight rotate_inorder simp del: deleteCase6.simps
        split: if_splits treeNode.splits option.splits)
next
  case (RightOf c s v)
  then show ?thesis using assms
    by (auto dest!: deleteCase6_weight rotate_inorder simp del: deleteCase6.simps
        split: if_splits treeNode.splits option.splits)
qed

lemma deleteCase4_weight:
  assumes "deleteCase4 (ds, k # ks) = Some ks'"
  shows "weight ks' \<le> weight ds + weight (k # ks)"
  using assms
  by (auto dest!: deleteCase5_weight simp del: deleteCase5.simps split: if_splits treeNode.splits)

lemma deleteCase_weight:
  "deleteCase1 p = Some ks' \<Longrightarrow> weight ks' \<le> weight (fst p) + weight (snd p)"
  "deleteCase2 p = Some ks' \<Longrightarrow> weight ks' \<le> weight (fst p) + weight (snd p)"
  "deleteCase3 p = Some ks' \<Longrightarrow> weight ks' \<le> weight (fst p) + weight (snd p)"
proof (induction p and p and p arbitrary: ks' and ks' and ks'
    rule: deleteCase1_deleteCase2_deleteCase3.induct)
  case (6 ds k ks)
  then show ?case
    by (auto dest!: deleteCase4_weight simp del: deleteCase4.simps split: if_splits treeNode.splits)
qed auto

lemma length_inorder_plug: "length (inorder (plug t ks)) = length (inorder t) + weight ks"
  by (simp add: inorder_plug weight_def)

lemma cutNode_smaller:
  assumes "cutNode (Node c l v r, ks) = Some t'"
  shows "length (inorder t') < length (inorder (plug (Node c l v r) ks))"
  using assms deleteCase_weight(1) [of "([], ks)"]
  by (fastforce simp: length_inorder_plug Let_def split: option.splits if_splits)

lemma removeNode_smaller:
  assumes "removeNode (Node c l v r, ks) = Some t'"
  shows "length (inorder t') < length (inorder (plug (Node c l v r) ks))"
proof (cases "l \<noteq> Nil \<and> r \<noteq> Nil")
  case True
  then obtain pc pl pv ps where m: "maximumNode (l, []) = (Node pc pl pv Nil, ps)" "rights ps = []"
    "\<And>ks. plug (Node pc pl pv Nil) (ps @ ks) = plug l ks"
    using maximumNode_obtain by blast
  from assms True m(1) have "cutNode (Node pc pl pv Nil, ps @ LeftOf c pv r # ks) = Some t'" by simp
  from cutNode_smaller [OF this] show ?thesis unfolding m(3) by (simp add: length_inorder_plug)
next
  case False
  then have "cutNode (Node c l v r, ks) = Some t'" using assms by (simp del: cutNode.simps split: if_splits)
  then show ?thesis by (rule cutNode_smaller)
qed

section \<open>Height\<close>

fun height :: "'v treeNode \<Rightarrow> nat" where
  "height Nil = 0"
| "height (Node c l v r) = Suc (max (height l) (height r))"

lemma bheight_count: "inv_height t \<Longrightarrow> 2 ^ bheight t \<le> Suc (count_nodes t)"
proof (induction t)
  case (Node c l v r)
  then have "2 ^ bheight l \<le> Suc (count_nodes l)" "2 ^ bheight l \<le> Suc (count_nodes r)" by auto
  then show ?case by (cases c) auto
qed simp

lemma height_bheight:
  "inv_color t \<Longrightarrow> inv_height t \<Longrightarrow> height t \<le> 2 * bheight t + (if nodeColor t = Red then 1 else 0)"
  by (induction t) (auto split: if_splits)

declare removeNode.simps [simp del] cutNode.simps [simp del]

end
