(* ===== verification/IP_Pool.thy ===== *)
theory IP_Pool
  imports IP_Convert RB_Invariants "HOL-Library.Monad_Syntax"
begin

text \<open>
  The IP pool itself (\<^verbatim>\<open>src/pkg/tools/ippool/ippool.go\<close>): disjoint, non-adjacent address ranges in a
  red-black tree. Every exported method takes the pool's mutex for its whole body, so a method is
  one state transformer. \<open>None\<close> at the outside is a panic (a nil dereference in the tree, a slice
  out of range in a conversion); the error results of \<^verbatim>\<open>Pull\<close>, \<^verbatim>\<open>PullIP\<close> and \<^verbatim>\<open>PullP2PAddrs\<close> are
  values of a sum type.
\<close>

section \<open>State\<close>

record IPPool =
  root :: "ipRange treeNode"
  psize :: u64
  ipLength :: nat

datatype pool_error = PoolEmpty | NotInPool

definition New :: "nat \<Rightarrow> IPPool" where
  "New n = \<lparr>root = Nil, psize = 0, ipLength = n\<rparr>"

definition Empty :: "IPPool \<Rightarrow> bool" where
  "Empty tree \<longleftrightarrow> root tree = Nil"

definition Clear :: "IPPool \<Rightarrow> IPPool" where
  "Clear tree = tree\<lparr>root := Nil\<rparr>"

fun cloneNode :: "ipRange treeNode \<Rightarrow> ipRange treeNode" where
  "cloneNode Nil = Nil"
| "cloneNode (Node c l v r) = Node c (cloneNode l) (ipRange_Clone v) (cloneNode r)"

definition clone :: "IPPool \<Rightarrow> IPPool" where
  "clone tree = (let newPool = \<lparr>root = Nil, psize = psize tree, ipLength = ipLength tree\<rparr> in
     if root tree = Nil then newPool else newPool\<lparr>root := cloneNode (root tree)\<rparr>)"

text \<open>\<^verbatim>\<open>tree.removeNode\<close>: the tree operation and the counter.\<close>

definition removePoolNode :: "IPPool \<Rightarrow> ipRange location \<Rightarrow> IPPool option" where
  "removePoolNode tree loc =
     map_option (\<lambda>t. tree\<lparr>root := t, psize := psize tree - 1\<rparr>) (removeNode loc)"

section \<open>Adding a range\<close>

text \<open>
  The descent of \<^verbatim>\<open>addRange\<close> ends either at a node whose range overlaps or adjoins the new one, or
  at a fresh red node. The fresh root of an empty tree is the second case with no steps above it.
\<close>

datatype descent = Meets "ipRange location" | Inserts "ipRange location"

fun addLoop :: "ipRange location \<Rightarrow> ipRange \<Rightarrow> descent" where
  "addLoop (Nil, ks) ipR = Inserts (Node Red Nil ipR Nil, ks)"
| "addLoop (Node c l v r, ks) ipR =
     (let compare = CompareRange v ipR in
      if -1 \<le> compare \<and> compare \<le> 1 then Meets (Node c l v r, ks)
      else if compare < -1 then addLoop (l, LeftOf c v r # ks) ipR
      else addLoop (r, RightOf c l v # ks) ipR)"

lemma addLoop_Meets:
  "addLoop (t, ks) ipR = Meets (t', ks') \<Longrightarrow> plug t' ks' = plug t ks \<and> (\<exists>c l v r. t' = Node c l v r)"
  by (induction "(t, ks)" ipR arbitrary: t ks rule: addLoop.induct) (auto simp: Let_def split: if_splits)

lemma removePoolNode_smaller:
  "removePoolNode tree (Node c l v r, ks) = Some tree' \<Longrightarrow>
    count_nodes (root tree') < count_nodes (plug (Node c l v r) ks)"
  by (auto simp: removePoolNode_def count_nodes_inorder dest: removeNode_smaller)

function addRange :: "IPPool \<Rightarrow> ipRange \<Rightarrow> IPPool option" where
  "addRange tree ipR =
     (case addLoop (root tree, []) ipR of
        Meets (t, ks) \<Rightarrow>
          (case removePoolNode tree (t, ks) of
             None \<Rightarrow> None
           | Some tree' \<Rightarrow> addRange tree' (Unite (ipRange_Clone (Value t)) ipR))
      | Inserts loc \<Rightarrow>
          map_option (\<lambda>t. tree\<lparr>root := t, psize := psize tree + 1\<rparr>) (insertCase1 loc))"
  by pat_completeness auto
termination
proof (relation "measure (\<lambda>(tree, ipR). count_nodes (root tree))", goal_cases)
  case (2 tree ipR x t ks tree')
  then show ?case
    using addLoop_Meets [of "root tree" "[]" ipR t ks] removePoolNode_smaller [of tree _ _ _ _ ks tree']
    by fastforce
qed simp

declare addRange.simps [simp del]

definition add :: "IPPool \<Rightarrow> ipAddress \<Rightarrow> IPPool option" where
  "add tree ip = addRange tree \<lparr>start = ipAddress_Clone ip, finish = ipAddress_Clone ip\<rparr>"

section \<open>Removing a range\<close>

fun deleteLoop :: "ipRange location \<Rightarrow> ipRange \<Rightarrow> ipRange location option" where
  "deleteLoop (Nil, ks) ipR = None"
| "deleteLoop (Node c l v r, ks) ipR =
     (let compare = CompareRange v ipR in
      if compare < 0 then deleteLoop (l, LeftOf c v r # ks) ipR
      else if compare > 0 then deleteLoop (r, RightOf c l v # ks) ipR
      else Some (Node c l v r, ks))"

lemma deleteLoop_Some:
  "deleteLoop (t, ks) ipR = Some (t', ks') \<Longrightarrow>
    plug t' ks' = plug t ks \<and> (\<exists>c l v r. t' = Node c l v r \<and> CompareRange v ipR = 0)"
  by (induction "(t, ks)" ipR arbitrary: t ks rule: deleteLoop.induct) (auto simp: Let_def split: if_splits)

definition addOptRange :: "IPPool \<Rightarrow> ipRange option \<Rightarrow> IPPool option" where
  "addOptRange tree r = (case r of None \<Rightarrow> Some tree | Some x \<Rightarrow> addRange tree x)"

function deleteRange :: "IPPool \<Rightarrow> ipRange \<Rightarrow> IPPool option" where
  "deleteRange tree ipR =
     (case deleteLoop (root tree, []) ipR of
        None \<Rightarrow> Some tree
      | Some (t, ks) \<Rightarrow>
          (case removePoolNode tree (t, ks) of
             None \<Rightarrow> None
           | Some tree' \<Rightarrow>
               (case deleteRange tree' ipR of
                  None \<Rightarrow> None
                | Some tree'' \<Rightarrow>
                    (case Sub (Value t) ipR of (lRange, rRange) \<Rightarrow>
                       (case addOptRange tree'' lRange of
                          None \<Rightarrow> None
                        | Some tree3 \<Rightarrow> addOptRange tree3 rRange)))))"
  by pat_completeness auto
termination
proof (relation "measure (\<lambda>(tree, ipR). count_nodes (root tree))", goal_cases)
  case (2 tree ipR x t ks tree')
  then show ?case
    using deleteLoop_Some [of "root tree" "[]" ipR t ks] removePoolNode_smaller [of tree _ _ _ _ ks tree']
    by fastforce
qed simp

declare deleteRange.simps [simp del]

section \<open>Lookup and the leftmost node\<close>

fun lookup :: "ipRange treeNode \<Rightarrow> ipAddress \<Rightarrow> ipRange treeNode" where
  "lookup Nil ip = Nil"
| "lookup (Node c l v r) ip =
     (let compare = ipRange_Compare v ip in
      if compare = 0 then Node c l v r
      else if compare < 0 then lookup l ip
      else lookup r ip)"

fun leftNode :: "ipRange location \<Rightarrow> ipRange location" where
  "leftNode (Node c (Node c' l' v' r') v r, ks) = leftNode (Node c' l' v' r', LeftOf c v r # ks)"
| "leftNode (t, ks) = (t, ks)"

fun rightNode :: "ipRange location \<Rightarrow> ipRange location" where
  "rightNode (Node c l v (Node c' l' v' r'), ks) = rightNode (Node c' l' v' r', RightOf c l v # ks)"
| "rightNode (t, ks) = (t, ks)"

definition pull :: "IPPool \<Rightarrow> (ipAddress option \<times> IPPool) option" where
  "pull tree =
     (case leftNode (root tree, []) of
        (Nil, ks) \<Rightarrow> Some (None, tree)
      | (Node c l v r, ks) \<Rightarrow>
          if ipAddress_Equal (start v) (finish v) then
            map_option (\<lambda>tree'. (Some (start v), tree')) (removePoolNode tree (Node c l v r, ks))
          else
            Some (Some (start v),
              tree\<lparr>root := plug (Node c l (v\<lparr>start := Next (start v)\<rparr>) r) ks\<rparr>))"

section \<open>Exported operations\<close>

definition Add :: "IPPool \<Rightarrow> IP \<Rightarrow> IPPool option" where
  "Add tree ip =
     (if ip = [] \<or> ipLength tree \<noteq> length ip then Some tree
      else do { a \<leftarrow> ipAddressFromIP ip; add tree a })"

definition AddNet :: "IPPool \<Rightarrow> IPNet option \<Rightarrow> IPPool option" where
  "AddNet tree ipNet =
     (case ipNet of
        None \<Rightarrow> Some tree
      | Some n \<Rightarrow>
          if ipLength tree \<noteq> length (IP n) then Some tree
          else do { r \<leftarrow> ipRangeFromIPNet n; addRange tree r })"

definition NewWithNet :: "IPNet \<Rightarrow> IPPool option" where
  "NewWithNet ipNet = AddNet (New (length (IP ipNet))) (Some ipNet)"

fun containsLoop :: "ipRange treeNode \<Rightarrow> ipRange \<Rightarrow> bool" where
  "containsLoop Nil r = False"
| "containsLoop (Node c l v rt) r =
     (let compare = CompareRange v r in
      if compare < 0 then containsLoop l r
      else if compare > 0 then containsLoop rt r
      else (case Sub r v of (lRange, rRange) \<Rightarrow> lRange = None \<and> rRange = None))"

definition ContainsNet :: "IPPool \<Rightarrow> IPNet option \<Rightarrow> bool option" where
  "ContainsNet tree ipNet =
     (case ipNet of
        None \<Rightarrow> Some False
      | Some n \<Rightarrow> do { r \<leftarrow> ipRangeFromIPNet n; Some (containsLoop (root tree) r) })"

definition Contains :: "IPPool \<Rightarrow> IP \<Rightarrow> bool option" where
  "Contains tree ip =
     (if ip = [] then Some False
      else do { a \<leftarrow> ipAddressFromIP ip; Some (lookup (root tree) a \<noteq> Nil) })"

definition Exclude :: "IPPool \<Rightarrow> IPNet option \<Rightarrow> IPPool option" where
  "Exclude tree ipNet =
     (case ipNet of
        None \<Rightarrow> Some tree
      | Some n \<Rightarrow> do { r \<leftarrow> ipRangeFromIPNet n; deleteRange tree r })"

definition Pull :: "IPPool \<Rightarrow> ((pool_error + IP) \<times> IPPool) option" where
  "Pull tree = do {
     (ip, tree') \<leftarrow> pull tree;
     Some (case ip of None \<Rightarrow> Inl PoolEmpty | Some a \<Rightarrow> Inr (ipFromIPAddress a (ipLength tree')), tree') }"

fun excludeNode :: "IPPool \<Rightarrow> ipRange treeNode \<Rightarrow> IPPool option" where
  "excludeNode tree Nil = Some tree"
| "excludeNode tree (Node c l v r) = do {
     tree \<leftarrow> excludeNode tree l;
     tree \<leftarrow> deleteRange tree v;
     excludeNode tree r }"

definition excludePool :: "IPPool \<Rightarrow> IPPool option \<Rightarrow> IPPool option" where
  "excludePool tree ex = (case ex of None \<Rightarrow> Some tree | Some p \<Rightarrow> excludeNode tree (root p))"

fun excludePools :: "IPPool \<Rightarrow> IPPool option list \<Rightarrow> IPPool option" where
  "excludePools tree [] = Some tree"
| "excludePools tree (ex # exs) = do { tree \<leftarrow> excludePool tree ex; excludePools tree exs }"

text \<open>The host network \<^verbatim>\<open>ip/32\<close> or \<^verbatim>\<open>ip/128\<close> of an address.\<close>

definition hostNet :: "IPPool \<Rightarrow> IP \<Rightarrow> IPNet" where
  "hostNet tree ip = \<lparr>IP = ip, Mask = CIDRMask (int (ipLength tree) * 8) (int (ipLength tree) * 8)\<rparr>"

definition PullIP :: "IPPool \<Rightarrow> IP \<Rightarrow> IPPool option list \<Rightarrow> ((pool_error + IPNet) \<times> IPPool) option" where
  "PullIP tree ip exclude = do {
     c \<leftarrow> excludePools (clone tree) exclude;
     b \<leftarrow> Contains c ip;
     if b then do {
       a \<leftarrow> ipAddressFromIP ip;
       tree \<leftarrow> deleteRange tree \<lparr>start = a, finish = a\<rparr>;
       Some (Inr (hostNet tree ip), tree) }
     else Some (Inl NotInPool, tree) }"

definition PullP2PAddrs ::
  "IPPool \<Rightarrow> IPPool option list \<Rightarrow> ((pool_error + IPNet \<times> IPNet) \<times> IPPool) option" where
  "PullP2PAddrs tree exclude = do {
     c \<leftarrow> excludePools (clone tree) exclude;
     (srcIP, c) \<leftarrow> pull c;
     case srcIP of
       None \<Rightarrow> Some (Inl PoolEmpty, tree)
     | Some src \<Rightarrow> do {
         (dstIP, c) \<leftarrow> pull c;
         case dstIP of
           None \<Rightarrow> Some (Inl PoolEmpty, tree)
         | Some dst \<Rightarrow> do {
             tree \<leftarrow> deleteRange tree \<lparr>start = ipAddress_Clone src, finish = ipAddress_Clone src\<rparr>;
             tree \<leftarrow> deleteRange tree \<lparr>start = ipAddress_Clone dst, finish = ipAddress_Clone dst\<rparr>;
             Some (Inr (hostNet tree (ipFromIPAddress src (ipLength tree)),
                        hostNet tree (ipFromIPAddress dst (ipLength tree))), tree) } } }"

end
