(* ===== verification/IP_Pool_Props.thy ===== *)
theory IP_Pool_Props
  imports IP_Pool
begin

text \<open>
  Correctness of the pool's tree operations: with the ranges of the tree read in order as a sorted
  list of separated ranges, and the pool as the set of addresses they cover, adding is union,
  deleting is difference, and pulling takes the least address. Under the invariant no operation
  panics, and every operation keeps it.
\<close>

section \<open>Invariant and abstraction\<close>

definition ranges_ok :: "ipRange list \<Rightarrow> bool" where
  "ranges_ok rs \<longleftrightarrow> (\<forall>r\<in>set rs. wf_range r) \<and> sorted_wrt range_below rs"

definition ranges_set :: "ipRange list \<Rightarrow> nat set" where
  "ranges_set rs = (\<Union>r\<in>set rs. range_set r)"

definition pool_inv :: "IPPool \<Rightarrow> bool" where
  "pool_inv p \<longleftrightarrow> rb_inv (root p) \<and> ranges_ok (inorder (root p)) \<and>
     psize p = word_of_nat (count_nodes (root p))"

definition pool_set :: "IPPool \<Rightarrow> nat set" where
  "pool_set p = ranges_set (inorder (root p))"

lemma ranges_set_simps [simp]:
  "ranges_set [] = {}"
  "ranges_set (r # rs) = range_set r \<union> ranges_set rs"
  "ranges_set (rs @ rs') = ranges_set rs \<union> ranges_set rs'"
  by (auto simp: ranges_set_def)

lemma ranges_ok_append:
  "ranges_ok (rs @ rs') \<longleftrightarrow> ranges_ok rs \<and> ranges_ok rs' \<and> (\<forall>x\<in>set rs. \<forall>y\<in>set rs'. range_below x y)"
  by (auto simp: ranges_ok_def sorted_wrt_append)

lemma ranges_ok_Cons:
  "ranges_ok (r # rs) \<longleftrightarrow> wf_range r \<and> ranges_ok rs \<and> (\<forall>y\<in>set rs. range_below r y)"
  by (auto simp: ranges_ok_def)

lemma ranges_ok_Nil [simp]: "ranges_ok []"
  by (simp add: ranges_ok_def)

lemma range_below_trans:
  "range_below r s \<Longrightarrow> range_below s u \<Longrightarrow> wf_range s \<Longrightarrow> range_below r u"
  by (simp add: range_below_def wf_range_def)

lemma pool_inv_New [simp]: "pool_inv (New n)" "pool_set (New n) = {}"
  by (simp_all add: pool_inv_def pool_set_def New_def rb_inv_def)

lemma cloneNode_eq [simp]: "cloneNode t = t"
  by (induction t) auto

lemma clone_eq [simp]: "clone p = p"
  by (cases p) (simp add: clone_def Let_def)

section \<open>Removing a node\<close>

lemma removePoolNode_inv:
  assumes inv: "pool_inv p" and t: "plug (Node c l v r) ks = root p"
  obtains p' where "removePoolNode p (Node c l v r, ks) = Some p'" "pool_inv p'"
    "inorder (root p') = lefts ks @ inorder l @ inorder r @ rights ks" "ipLength p' = ipLength p"
    "inorder (root p) = lefts ks @ inorder l @ v # inorder r @ rights ks"
proof -
  have i: "inorder (root p) = lefts ks @ inorder l @ v # inorder r @ rights ks"
    using inorder_plug [of "Node c l v r" ks] t by simp
  obtain t' where t': "removeNode (Node c l v r, ks) = Some t'" "rb_inv t'"
    "inorder t' = lefts ks @ inorder l @ inorder r @ rights ks"
    using removeNode_inv [of c l v r ks] inv t by (auto simp: pool_inv_def)
  have "ranges_ok (inorder t')"
    using inv i t'(3) by (auto simp: pool_inv_def ranges_ok_append ranges_ok_Cons)
  then have "pool_inv (p\<lparr>root := t', psize := psize p - 1\<rparr>)"
    using inv t' i by (simp add: pool_inv_def count_nodes_inorder)
  then show thesis
    using that [of "p\<lparr>root := t', psize := psize p - 1\<rparr>"] t' i by (simp add: removePoolNode_def)
qed

section \<open>Adding\<close>

lemma addLoop_Meets_compare:
  "addLoop (t, ks) ipR = Meets (Node c l v r, ks') \<Longrightarrow> -1 \<le> CompareRange v ipR \<and> CompareRange v ipR \<le> 1"
  by (induction "(t, ks)" ipR arbitrary: t ks rule: addLoop.induct) (auto simp: Let_def split: if_splits)

lemma addLoop_Inserts:
  assumes "addLoop (t, ks) ipR = Inserts (t', ks')" "wf_range ipR" "ranges_ok (inorder t)"
    "\<forall>x\<in>set (lefts ks). range_below x ipR" "\<forall>x\<in>set (rights ks). range_below ipR x"
  shows "t' = Node Red Nil ipR Nil \<and> plug Nil ks' = plug t ks \<and>
    (\<forall>x\<in>set (lefts ks'). range_below x ipR) \<and> (\<forall>x\<in>set (rights ks'). range_below ipR x)"
  using assms
proof (induction "(t, ks)" ipR arbitrary: t ks rule: addLoop.induct)
  case (2 c l v r ks ipR)
  from "2.prems"(3) have ok: "wf_range v" "ranges_ok (inorder l)" "ranges_ok (inorder r)"
    by (auto simp: ranges_ok_append ranges_ok_Cons)
  consider "CompareRange v ipR < -1" | "CompareRange v ipR > 1"
    using "2.prems"(1) by (fastforce simp: Let_def split: if_splits)
  then show ?case
  proof cases
    case 1
    then have b: "range_below ipR v" using ok "2.prems"(2) by (simp add: CompareRange_below_iff)
    have "\<forall>x\<in>set (rights (LeftOf c v r # ks)). range_below ipR x"
      using b "2.prems"(3,5) ok
      by (auto simp: ranges_ok_append ranges_ok_Cons intro: range_below_trans [OF b])
    with 1 show ?thesis using "2.hyps"(1) [OF refl] "2.prems" ok by (simp add: Let_def)
  next
    case 2
    then have b: "range_below v ipR" using ok "2.prems"(2) by (simp add: CompareRange_above_iff)
    have "\<forall>x\<in>set (lefts (RightOf c l v # ks)). range_below x ipR"
      using b "2.prems"(3,4) ok
      by (auto simp: ranges_ok_append ranges_ok_Cons intro: range_below_trans [OF _ b])
    with 2 show ?thesis using "2.hyps"(2) [OF refl] "2.prems" ok by (simp add: Let_def)
  qed
qed auto

text \<open>Adding a range is union, from any pool that satisfies the invariant.\<close>

lemma addRange_correct:
  "pool_inv p \<Longrightarrow> wf_range ipR \<Longrightarrow>
    \<exists>p'. addRange p ipR = Some p' \<and> pool_inv p' \<and> pool_set p' = pool_set p \<union> range_set ipR \<and>
      ipLength p' = ipLength p"
proof (induction p ipR rule: addRange.induct)
  case (1 p ipR)
  show ?case
  proof (cases "addLoop (root p, []) ipR")
    case (Meets loc)
    then obtain c l v r ks where loc: "loc = (Node c l v r, ks)" "plug (Node c l v r) ks = root p"
      using addLoop_Meets [of "root p" "[]" ipR] by (cases loc) fastforce
    obtain p' where p': "removePoolNode p (Node c l v r, ks) = Some p'" "pool_inv p'"
      "inorder (root p') = lefts ks @ inorder l @ inorder r @ rights ks" "ipLength p' = ipLength p"
      "inorder (root p) = lefts ks @ inorder l @ v # inorder r @ rights ks"
      using removePoolNode_inv [OF "1.prems"(1) loc(2)] .
    have wf: "wf_range v" using "1.prems"(1) p'(5) by (auto simp: pool_inv_def ranges_ok_def)
    have u: "range_set (Unite v ipR) = range_set v \<union> range_set ipR"
      using addLoop_Meets_compare Meets loc wf "1.prems"(2) by (simp add: range_set_Unite)
    from "1.IH" [OF Meets loc(1) [symmetric]] p'(1,2) wf "1.prems"(2) obtain q where
      "addRange p' (Unite v ipR) = Some q" "pool_inv q" "pool_set q = pool_set p' \<union> range_set (Unite v ipR)"
      "ipLength q = ipLength p'" by auto
    then show ?thesis
      using Meets loc p' u by (auto simp: addRange.simps [of p] pool_set_def)
  next
    case (Inserts loc)
    then obtain t ks where loc: "loc = (t, ks)" by (cases loc)
    have ins: "t = Node Red Nil ipR Nil" "plug Nil ks = root p"
      "\<forall>x\<in>set (lefts ks). range_below x ipR" "\<forall>x\<in>set (rights ks). range_below ipR x"
      using addLoop_Inserts [of "root p" "[]" ipR t ks] Inserts loc "1.prems" by (auto simp: pool_inv_def)
    have i: "inorder (root p) = lefts ks @ rights ks" using inorder_plug [of Nil ks] ins(2) by simp
    have "path_inv ks 0" using "1.prems"(1) ins(2) rb_inv_plug [of Nil ks] by (simp add: pool_inv_def)
    then obtain t' where t': "insertCase1 (t, ks) = Some t'" "rb_inv t'"
      "inorder t' = lefts ks @ ipR # rights ks"
      using insertCase1_inv [of t ks] ins(1) by auto
    have "pool_inv (p\<lparr>root := t', psize := psize p + 1\<rparr>)"
      using "1.prems" t' i ins(3,4)
      by (auto simp: pool_inv_def ranges_ok_append ranges_ok_Cons count_nodes_inorder)
    then show ?thesis using Inserts loc t' i by (auto simp: addRange.simps [of p] pool_set_def)
  qed
qed

section \<open>Deleting\<close>

lemma deleteLoop_None:
  assumes "deleteLoop (t, ks) ipR = None" "wf_range ipR" "ranges_ok (inorder t)"
  shows "ranges_set (inorder t) \<inter> range_set ipR = {}"
  using assms
proof (induction "(t, ks)" ipR arbitrary: t ks rule: deleteLoop.induct)
  case (2 c l v r ks ipR)
  from "2.prems"(3) have ok: "wf_range v" "ranges_ok (inorder l)" "ranges_ok (inorder r)"
    "\<forall>x\<in>set (inorder l). range_below x v \<and> wf_range x" "\<forall>x\<in>set (inorder r). range_below v x"
    by (auto simp: ranges_ok_def sorted_wrt_append)
  consider "CompareRange v ipR < 0" | "CompareRange v ipR > 0"
    using "2.prems"(1) by (fastforce simp: Let_def split: if_splits)
  then show ?case
  proof cases
    case 1
    then have "aval (finish ipR) < aval (start v)"
      using ok(1) "2.prems"(2) by (auto simp: CompareRange_eq split: if_splits)
    with ok have "range_set x \<inter> range_set ipR = {}" if "x \<in> insert v (set (inorder r))" for x
      using that by (fastforce simp: range_set_def range_below_def wf_range_def)
    then have "ranges_set (v # inorder r) \<inter> range_set ipR = {}" by (auto simp: ranges_set_def)
    with 1 show ?thesis using "2.hyps"(1) [OF refl] "2.prems" ok by (auto simp: Let_def)
  next
    case 2
    then have "aval (finish v) < aval (start ipR)"
      using ok(1) "2.prems"(2) by (auto simp: CompareRange_eq split: if_splits)
    with ok have "range_set x \<inter> range_set ipR = {}" if "x \<in> insert v (set (inorder l))" for x
      using that by (fastforce simp: range_set_def range_below_def wf_range_def)
    then have "ranges_set (inorder l @ [v]) \<inter> range_set ipR = {}" by (auto simp: ranges_set_def)
    with 2 show ?thesis using "2.hyps"(2) [OF refl] "2.prems" ok by (auto simp: Let_def)
  qed
qed simp

definition opt_range_set :: "ipRange option \<Rightarrow> nat set" where
  "opt_range_set r = (case r of None \<Rightarrow> {} | Some x \<Rightarrow> range_set x)"

lemma addOptRange_correct:
  "pool_inv p \<Longrightarrow> (\<And>x. r = Some x \<Longrightarrow> wf_range x) \<Longrightarrow>
    \<exists>p'. addOptRange p r = Some p' \<and> pool_inv p' \<and> pool_set p' = pool_set p \<union> opt_range_set r \<and>
      ipLength p' = ipLength p"
  using addRange_correct by (cases r) (auto simp: addOptRange_def opt_range_set_def)

lemma Sub_correct:
  assumes "wf_range b" "wf_range r" "CompareRange b r = 0" "Sub b r = (l, u)"
  shows "opt_range_set l \<union> opt_range_set u = range_set b - range_set r"
    and "\<And>x. l = Some x \<Longrightarrow> wf_range x" and "\<And>x. u = Some x \<Longrightarrow> wf_range x"
proof -
  have "opt_range_set l = {aval (start b) ..< aval (start r)}"
    using Sub_left [OF assms(1-3)] Sub_left_None [OF assms(3)] assms(4)
    by (cases l) (fastforce simp: opt_range_set_def range_set_def)+
  moreover have "opt_range_set u = {Suc (aval (finish r)) .. aval (finish b)}"
    using Sub_right [OF assms(1-3)] Sub_right_None [OF assms(3)] assms(4)
    by (cases u) (fastforce simp: opt_range_set_def range_set_def)+
  ultimately show "opt_range_set l \<union> opt_range_set u = range_set b - range_set r"
    using assms(1-3) by (auto simp: range_set_def CompareRange_eq wf_range_def split: if_splits)
  show "\<And>x. l = Some x \<Longrightarrow> wf_range x" "\<And>x. u = Some x \<Longrightarrow> wf_range x"
    using Sub_left [OF assms(1-3)] Sub_right [OF assms(1-3)] assms(4) by auto
qed

lemma deleteRange_correct:
  "pool_inv p \<Longrightarrow> wf_range ipR \<Longrightarrow>
    \<exists>p'. deleteRange p ipR = Some p' \<and> pool_inv p' \<and> pool_set p' = pool_set p - range_set ipR \<and>
      ipLength p' = ipLength p"
proof (induction p ipR rule: deleteRange.induct)
  case (1 p ipR)
  show ?case
  proof (cases "deleteLoop (root p, []) ipR")
    case None
    then have "pool_set p \<inter> range_set ipR = {}"
      using deleteLoop_None [of "root p" "[]"] "1.prems" by (simp add: pool_inv_def pool_set_def)
    then show ?thesis using None "1.prems" by (auto simp: deleteRange.simps [of p])
  next
    case (Some loc)
    then obtain c l v r ks where loc: "loc = (Node c l v r, ks)" "plug (Node c l v r) ks = root p"
      "CompareRange v ipR = 0"
      using deleteLoop_Some [of "root p" "[]" ipR] by (cases loc) fastforce
    obtain p' where p': "removePoolNode p (Node c l v r, ks) = Some p'" "pool_inv p'"
      "inorder (root p') = lefts ks @ inorder l @ inorder r @ rights ks" "ipLength p' = ipLength p"
      "inorder (root p) = lefts ks @ inorder l @ v # inorder r @ rights ks"
      using removePoolNode_inv [OF "1.prems"(1) loc(2)] .
    have wf: "wf_range v" using "1.prems"(1) p'(5) by (auto simp: pool_inv_def ranges_ok_def)
    obtain lR rR where sub: "Sub v ipR = (lR, rR)" by (cases "Sub v ipR")
    note S = Sub_correct [OF wf "1.prems"(2) loc(3) sub]
    from "1.IH" [OF Some loc(1) [symmetric] p'(1,2) "1.prems"(2)] obtain q where
      q: "deleteRange p' ipR = Some q" "pool_inv q" "pool_set q = pool_set p' - range_set ipR"
      "ipLength q = ipLength p'" by auto
    obtain q1 where q1: "addOptRange q lR = Some q1" "pool_inv q1"
      "pool_set q1 = pool_set q \<union> opt_range_set lR" "ipLength q1 = ipLength q"
      using addOptRange_correct [OF q(2) S(2)] by blast
    obtain q2 where q2: "addOptRange q1 rR = Some q2" "pool_inv q2"
      "pool_set q2 = pool_set q1 \<union> opt_range_set rR" "ipLength q2 = ipLength q1"
      using addOptRange_correct [OF q1(2) S(3)] by blast
    have "pool_set p = pool_set p' \<union> range_set v" using p'(3,5) by (auto simp: pool_set_def)
    then have "pool_set q2 = pool_set p - range_set ipR" using q(3) q1(3) q2(3) S(1) by auto
    then show ?thesis
      using Some loc p' q q1 q2 sub by (simp add: deleteRange.simps [of p])
  qed
qed

section \<open>Membership\<close>

lemma ranges_ok_node:
  assumes "ranges_ok (inorder (Node c l v r))"
  shows "wf_range v" "ranges_ok (inorder l)" "ranges_ok (inorder r)"
    "\<And>n. n \<in> ranges_set (inorder l) \<Longrightarrow> Suc n < aval (start v)"
    "\<And>n. n \<in> ranges_set (inorder r) \<Longrightarrow> Suc (aval (finish v)) < n"
  using assms
  by (auto simp: ranges_ok_def sorted_wrt_append ranges_set_def range_set_def range_below_def)

lemma ranges_ok_Cons_less: "ranges_ok (v # rs) \<Longrightarrow> n \<in> ranges_set rs \<Longrightarrow> Suc (aval (finish v)) < n"
  by (auto simp: ranges_ok_def ranges_set_def range_set_def range_below_def)

lemma lookup_correct:
  "ranges_ok (inorder t) \<Longrightarrow> lookup t a \<noteq> Nil \<longleftrightarrow> aval a \<in> ranges_set (inorder t)"
proof (induction t)
  case (Node c l v r)
  note ok = ranges_ok_node [OF Node.prems]
  have "aval a \<in> range_set v \<longleftrightarrow> ipRange_Compare v a = 0"
    using ok(1) by (auto simp: ipRange_Compare_eq range_set_def)
  moreover have "ipRange_Compare v a < 0 \<longleftrightarrow> aval a < aval (start v)"
    "ipRange_Compare v a > 0 \<longleftrightarrow> aval (finish v) < aval a"
    using ok(1) by (auto simp: ipRange_Compare_eq wf_range_def)
  ultimately show ?case
    using Node.IH ok by (auto simp: Let_def range_set_def) (fastforce simp: wf_range_def)+
qed simp

text \<open>
  A range that meets a node is covered by the pool only if it lies inside that node, since the
  addresses next to the node's range are in no other.
\<close>

lemma covered_inside:
  assumes "ranges_ok (inorder (Node c l v rt))" "wf_range r" "CompareRange v r = 0"
  shows "range_set r \<subseteq> ranges_set (inorder (Node c l v rt)) \<longleftrightarrow>
    aval (start v) \<le> aval (start r) \<and> aval (finish r) \<le> aval (finish v)"
proof -
  note ok = ranges_ok_node [OF assms(1)]
  have o: "aval (start r) \<le> aval (finish v)" "aval (start v) \<le> aval (finish r)"
    using assms(2,3) ok(1) by (auto simp: CompareRange_eq split: if_splits)
  have "aval (start v) \<le> aval (start r)" if "range_set r \<subseteq> ranges_set (inorder (Node c l v rt))"
  proof (rule ccontr)
    assume "\<not> aval (start v) \<le> aval (start r)"
    with o have "aval (start v) - 1 \<in> range_set r" "0 < aval (start v)"
      by (auto simp: range_set_def)
    with that have "aval (start v) - 1 \<in> ranges_set (inorder (Node c l v rt))" "0 < aval (start v)"
      by blast+
    then show False
      using ok(1) ok(4) [of "aval (start v) - 1"] ok(5) [of "aval (start v) - 1"]
      by (auto simp: range_set_def wf_range_def)
  qed
  moreover have "aval (finish r) \<le> aval (finish v)"
    if "range_set r \<subseteq> ranges_set (inorder (Node c l v rt))"
  proof (rule ccontr)
    assume "\<not> aval (finish r) \<le> aval (finish v)"
    with o have "Suc (aval (finish v)) \<in> range_set r" by (auto simp: range_set_def)
    with that have "Suc (aval (finish v)) \<in> ranges_set (inorder (Node c l v rt))" by blast
    then show False
      using ok(1) ok(4) [of "Suc (aval (finish v))"] ok(5) [of "Suc (aval (finish v))"]
      by (auto simp: range_set_def wf_range_def)
  qed
  ultimately show ?thesis by (auto simp: range_set_def)
qed

lemma containsLoop_correct:
  "ranges_ok (inorder t) \<Longrightarrow> wf_range r \<Longrightarrow> containsLoop t r \<longleftrightarrow> range_set r \<subseteq> ranges_set (inorder t)"
proof (induction t)
  case Nil
  then show ?case by (auto simp: range_set_def wf_range_def)
next
  case (Node c l v rt)
  note ok = ranges_ok_node [OF Node.prems(1)]
  consider "aval (finish r) < aval (start v)" | "aval (finish v) < aval (start r)"
    | "\<not> aval (finish r) < aval (start v)" "\<not> aval (finish v) < aval (start r)"
    by blast
  then show ?case
  proof cases
    case 1
    then have "n \<notin> range_set v" "n \<notin> ranges_set (inorder rt)" if "n \<in> range_set r" for n
      using that ok(1) ok(5) [of n] by (auto simp: range_set_def wf_range_def)
    moreover have "CompareRange v r < 0" using 1 ok(1) Node.prems(2) by (simp add: CompareRange_eq)
    ultimately show ?thesis using Node.IH(1) Node.prems(2) ok(2) by (auto simp: Let_def)
  next
    case 2
    then have "n \<notin> range_set v" "n \<notin> ranges_set (inorder l)" if "n \<in> range_set r" for n
      using that ok(1) ok(4) [of n] by (auto simp: range_set_def wf_range_def)
    moreover have "CompareRange v r > 0"
      using 2 ok(1) Node.prems(2) by (simp add: CompareRange_eq wf_range_def)
    ultimately show ?thesis using Node.IH(2) Node.prems(2) ok(3) by (auto simp: Let_def)
  next
    case 3
    then have 3: "CompareRange v r = 0" "CompareRange r v = 0"
      using ok(1) Node.prems(2) by (auto simp: CompareRange_eq)
    then have "containsLoop (Node c l v rt) r \<longleftrightarrow>
        aval (start v) \<le> aval (start r) \<and> aval (finish r) \<le> aval (finish v)"
      by (auto simp: Let_def Sub_def ipAddress_Compare_eq)
    with covered_inside [OF Node.prems 3(1)] show ?thesis by simp
  qed
qed

section \<open>Pulling\<close>

lemma leftNode_plug: "plug (fst (leftNode (t, ks))) (snd (leftNode (t, ks))) = plug t ks"
  by (induction "(t, ks)" arbitrary: t ks rule: leftNode.induct) auto

lemma leftNode_lefts: "lefts (snd (leftNode (t, ks))) = lefts ks"
  by (induction "(t, ks)" arbitrary: t ks rule: leftNode.induct) auto

lemma leftNode_Left: "t \<noteq> Nil \<Longrightarrow> \<exists>c v r. fst (leftNode (t, ks)) = Node c Nil v r"
  by (induction "(t, ks)" arbitrary: t ks rule: leftNode.induct) auto

lemma rb_inv_value: "rb_inv (plug (Node c l v r) ks) \<longleftrightarrow> rb_inv (plug (Node c l v' r) ks)"
  by (simp add: rb_inv_plug)

lemma pull_empty: "root p = Nil \<Longrightarrow> pull p = Some (None, p)"
  by (simp add: pull_def)

lemma pull_correct:
  assumes inv: "pool_inv p" and ne: "pool_set p \<noteq> {}"
  shows "\<exists>a p'. pull p = Some (Some a, p') \<and> aval a \<in> pool_set p \<and> (\<forall>n\<in>pool_set p. aval a \<le> n) \<and>
    pool_inv p' \<and> pool_set p' = pool_set p - {aval a} \<and> ipLength p' = ipLength p"
proof -
  have "root p \<noteq> Nil" using ne by (auto simp: pool_set_def)
  then obtain c v r ks where loc: "leftNode (root p, []) = (Node c Nil v r, ks)"
    using leftNode_Left [of "root p" "[]"] by (metis prod.collapse)
  then have pl: "plug (Node c Nil v r) ks = root p" "lefts ks = []"
    using leftNode_plug [of "root p" "[]"] leftNode_lefts [of "root p" "[]"] by auto
  have i: "inorder (root p) = v # inorder r @ rights ks"
    using inorder_plug [of "Node c Nil v r" ks] pl by simp
  with inv have ro: "ranges_ok (v # inorder r @ rights ks)" by (simp add: pool_inv_def)
  have ok: "aval (finish v) < n" if "n \<in> ranges_set (inorder r @ rights ks)" for n
    using ranges_ok_Cons_less [OF ro that] by linarith
  have wf: "wf_range v" using ro by (simp add: ranges_ok_Cons)
  have least: "aval (start v) \<in> pool_set p" "\<forall>n\<in>pool_set p. aval (start v) \<le> n"
    using ok wf i by (fastforce simp: pool_set_def range_set_def wf_range_def simp del: ranges_set_simps(3))+
  show ?thesis
  proof (cases "start v = finish v")
    case True
    obtain p' where p': "removePoolNode p (Node c Nil v r, ks) = Some p'" "pool_inv p'"
      "inorder (root p') = lefts ks @ inorder Nil @ inorder r @ rights ks" "ipLength p' = ipLength p"
      using removePoolNode_inv [OF inv pl(1)] by metis
    have "pool_set p' = pool_set p - {aval (start v)}"
      using ok p'(3) i True pl(2) by (auto simp: pool_set_def range_set_def simp del: ranges_set_simps(3))
    then show ?thesis using True loc p' least by (auto simp: pull_def ipAddress_Equal_iff)
  next
    case False
    define v' where "v' = v\<lparr>start := Next (start v)\<rparr>"
    define p' where "p' = p\<lparr>root := plug (Node c Nil v' r) ks\<rparr>"
    have lt: "aval (start v) < aval (finish v)"
      using False wf by (metis aval_inject wf_range_def le_neq_implies_less)
    then have nx: "aval (Next (start v)) = Suc (aval (start v))"
      by (simp add: aval_Next not_last_if_less)
    have i': "inorder (root p') = v' # inorder r @ rights ks"
      using pl(2) by (simp add: p'_def inorder_plug)
    have "pool_inv p'"
      using inv i lt nx pl(1) rb_inv_value [of c Nil v r ks v'] i'
      by (simp add: pool_inv_def ranges_ok_Cons v'_def wf_range_def range_below_def p'_def
          count_nodes_inorder)
    moreover have "pool_set p' = pool_set p - {aval (start v)}"
      using ok [of "aval (start v)"] i i' lt nx
      by (auto simp: pool_set_def range_set_def v'_def simp del: ranges_set_simps(3))
    ultimately show ?thesis
      using False loc least by (auto simp: pull_def ipAddress_Equal_iff v'_def p'_def)
  qed
qed

section \<open>The contract of a pool\<close>

text \<open>
  What the IPAM servers rely on. A pool stands for a set of addresses; adding and deleting a range
  of addresses and pulling the next address are total under the invariant. The lemmas below use
  nothing else of the pool.
\<close>

locale address_pool =
  fixes inv :: "'p \<Rightarrow> bool"
    and addrs :: "'p \<Rightarrow> nat set"
    and wf :: "'r \<Rightarrow> bool"
    and covers :: "'r \<Rightarrow> nat set"
    and addr :: "'a \<Rightarrow> nat"
    and host :: "'a \<Rightarrow> 'r"
    and add_range :: "'p \<Rightarrow> 'r \<Rightarrow> 'p option"
    and delete_range :: "'p \<Rightarrow> 'r \<Rightarrow> 'p option"
    and take_next :: "'p \<Rightarrow> ('a option \<times> 'p) option"
  assumes wf_host: "wf (host a)" and covers_host: "covers (host a) = {addr a}"
    and add_law: "inv p \<Longrightarrow> wf r \<Longrightarrow>
      \<exists>p'. add_range p r = Some p' \<and> inv p' \<and> addrs p' = addrs p \<union> covers r"
    and delete_law: "inv p \<Longrightarrow> wf r \<Longrightarrow>
      \<exists>p'. delete_range p r = Some p' \<and> inv p' \<and> addrs p' = addrs p - covers r"
    and take_empty_law: "inv p \<Longrightarrow> addrs p = {} \<Longrightarrow> take_next p = Some (None, p)"
    and take_law: "inv p \<Longrightarrow> addrs p \<noteq> {} \<Longrightarrow>
      \<exists>a p'. take_next p = Some (Some a, p') \<and> addr a \<in> addrs p \<and> (\<forall>n\<in>addrs p. addr a \<le> n) \<and>
        inv p' \<and> addrs p' = addrs p - {addr a}"
begin

fun delete_ranges :: "'p \<Rightarrow> 'r list \<Rightarrow> 'p option" where
  "delete_ranges p [] = Some p"
| "delete_ranges p (r # rs) = Option.bind (delete_range p r) (\<lambda>p. delete_ranges p rs)"

lemma delete_ranges_law:
  "inv p \<Longrightarrow> \<forall>r\<in>set rs. wf r \<Longrightarrow>
    \<exists>p'. delete_ranges p rs = Some p' \<and> inv p' \<and> addrs p' = addrs p - (\<Union>r\<in>set rs. covers r)"
proof (induction rs arbitrary: p)
  case (Cons r rs)
  obtain q where q: "delete_range p r = Some q" "inv q" "addrs q = addrs p - covers r"
    using delete_law Cons.prems by force
  with Cons.IH [of q] Cons.prems show ?case by fastforce
qed simp

lemma take_SomeE:
  assumes "inv p" "take_next p = Some (Some a, p')"
  shows "addr a \<in> addrs p" "inv p'" "addrs p' = addrs p - {addr a}" "\<forall>n\<in>addrs p. addr a \<le> n"
  using assms take_empty_law [of p] take_law [of p] by (cases "addrs p = {}"; fastforce)+

lemma take_NoneE: "inv p \<Longrightarrow> take_next p = Some (None, p') \<Longrightarrow> addrs p = {} \<and> p' = p"
  using take_empty_law [of p] take_law [of p] by (cases "addrs p = {}") fastforce+

lemma take_total: "inv p \<Longrightarrow> \<exists>a p'. take_next p = Some (a, p') \<and> inv p'"
  using take_empty_law [of p] take_law [of p] by (cases "addrs p = {}") fastforce+

text \<open>What is taken out and put back leaves the pool as it was.\<close>

lemma take_add_restores:
  assumes "inv p" "take_next p = Some (Some a, p')"
  shows "\<exists>p''. add_range p' (host a) = Some p'' \<and> inv p'' \<and> addrs p'' = addrs p"
proof -
  note t = take_SomeE [OF assms]
  obtain p'' where "add_range p' (host a) = Some p''" "inv p''" "addrs p'' = addrs p' \<union> {addr a}"
    using add_law [OF t(2) wf_host] by (auto simp: covers_host)
  then show ?thesis using t by auto
qed

text \<open>Two addresses taken in a row differ, and the second is the next larger one.\<close>

lemma take_twice:
  assumes "inv p" "take_next p = Some (Some a, p')" "take_next p' = Some (Some b, p'')"
  shows "addr a < addr b" "addr b \<in> addrs p" "\<forall>n\<in>addrs p. n = addr a \<or> addr b \<le> n"
    "addrs p'' = addrs p - {addr a, addr b}"
proof -
  note a = take_SomeE [OF assms(1,2)]
  note b = take_SomeE [OF a(2) assms(3)]
  have "addr b \<noteq> addr a" "addr b \<in> addrs p" using a b by auto
  moreover have "addr a \<le> addr b" using a(4) calculation by blast
  ultimately show "addr a < addr b" "addr b \<in> addrs p" by auto
  show "\<forall>n\<in>addrs p. n = addr a \<or> addr b \<le> n" using a(3) b(4) by blast
  show "addrs p'' = addrs p - {addr a, addr b}" using a(3) b(3) by auto
qed

end

abbreviation host_range :: "ipAddress \<Rightarrow> ipRange" where
  "host_range a \<equiv> \<lparr>start = a, finish = a\<rparr>"

lemma pool_set_empty_iff: "pool_inv p \<Longrightarrow> pool_set p = {} \<longleftrightarrow> root p = Nil"
  by (cases "root p") (auto simp: pool_set_def pool_inv_def range_set_def ranges_ok_append ranges_ok_Cons wf_range_def)

interpretation ippool: address_pool pool_inv pool_set wf_range range_set aval host_range addRange deleteRange pull
proof (unfold_locales, goal_cases)
  case (3 p r)
  then show ?case using addRange_correct by blast
next
  case (4 p r)
  then show ?case using deleteRange_correct by blast
next
  case (5 p)
  then show ?case by (simp add: pull_empty pool_set_empty_iff)
next
  case (6 p)
  then show ?case using pull_correct by blast
qed (simp_all add: wf_range_def range_set_def)

end
