(* ===== verification/IP_Pool_Ops.thy ===== *)
theory IP_Pool_Ops
  imports IP_Pool_Props
begin

text \<open>
  What the exported methods of the pool do, on byte-slice addresses and networks. The proofs rest on
  the interpretation of the pool's contract.
\<close>

section \<open>Addresses and networks as sets of numbers\<close>

definition ip_val :: "IP \<Rightarrow> nat" where
  "ip_val ip = bytes_val (To16 ip)"

definition net_set :: "IPNet \<Rightarrow> nat set" where
  "net_set n = (case ipRangeFromIPNet n of None \<Rightarrow> {} | Some r \<Rightarrow> range_set r)"

definition excluded :: "IPPool option list \<Rightarrow> nat set" where
  "excluded exs = (\<Union>p\<in>set exs. case p of None \<Rightarrow> {} | Some q \<Rightarrow> pool_set q)"

definition pools_inv :: "IPPool option list \<Rightarrow> bool" where
  "pools_inv exs \<longleftrightarrow> (\<forall>q. Some q \<in> set exs \<longrightarrow> pool_inv q)"

lemma valid_IPNet_range:
  assumes "valid_IPNet n"
  obtains r where "ipRangeFromIPNet n = Some r" "wf_range r" "range_set r = net_set n"
  using ipRangeFromIPNet_Some [OF assms] by (metis net_set_def option.simps(5))

section \<open>Excluding pools\<close>

lemma excludeNode_delete_ranges: "excludeNode p t = ippool.delete_ranges p (inorder t)"
proof (induction t arbitrary: p)
  case (Node c l v r)
  have "ippool.delete_ranges p (xs @ ys) =
      Option.bind (ippool.delete_ranges p xs) (\<lambda>p. ippool.delete_ranges p ys)" for p xs ys
    by (induction xs arbitrary: p) (simp_all split: Option.bind_split)
  with Node show ?case by (auto split: Option.bind_split)
qed simp

lemma deleteRange_ipLength:
  "pool_inv p \<Longrightarrow> wf_range r \<Longrightarrow> deleteRange p r = Some q \<Longrightarrow> ipLength q = ipLength p"
  using deleteRange_correct by fastforce

lemma excludePools_correct:
  "pool_inv p \<Longrightarrow> pools_inv exs \<Longrightarrow>
    \<exists>p'. excludePools p exs = Some p' \<and> pool_inv p' \<and> pool_set p' = pool_set p - excluded exs"
proof (induction exs arbitrary: p)
  case Nil
  then show ?case by (simp add: excluded_def)
next
  case (Cons ex exs)
  have "\<exists>q. excludePool p ex = Some q \<and> pool_inv q \<and> pool_set q = pool_set p - excluded [ex]"
  proof (cases ex)
    case None
    then show ?thesis using Cons.prems by (simp add: excludePool_def excluded_def)
  next
    case (Some e)
    then have "pool_inv e" using Cons.prems(2) by (simp add: pools_inv_def)
    then have "\<forall>r\<in>set (inorder (root e)). wf_range r" by (simp add: pool_inv_def ranges_ok_def)
    from ippool.delete_ranges_law [OF Cons.prems(1) this] obtain q where
      "excludePool p ex = Some q" "pool_inv q"
      "pool_set q = pool_set p - (\<Union>r\<in>set (inorder (root e)). range_set r)"
      unfolding Some excludePool_def excludeNode_delete_ranges option.case by blast
    then show ?thesis
      by (simp add: Some excluded_def pool_set_def [of e] ranges_set_def [of "inorder (root e)"])
  qed
  then obtain q where q: "excludePool p ex = Some q" "pool_inv q" "pool_set q = pool_set p - excluded [ex]"
    by blast
  have "pools_inv exs" using Cons.prems(2) by (simp add: pools_inv_def)
  from Cons.IH [OF q(2) this] obtain p' where p': "excludePools q exs = Some p'" "pool_inv p'"
    "pool_set p' = pool_set q - excluded exs" by blast
  have "excluded (ex # exs) = excluded [ex] \<union> excluded exs" by (simp add: excluded_def)
  with q(3) p'(3) have "pool_set p' = pool_set p - excluded (ex # exs)" by blast
  with q(1) p'(1,2) show ?case by simp
qed

section \<open>Adding, excluding, asking\<close>

lemma AddNet_correct:
  assumes "pool_inv p" "valid_IPNet n"
  shows "\<exists>p'. AddNet p (Some n) = Some p' \<and> pool_inv p' \<and> ipLength p' = ipLength p \<and>
    pool_set p' = (if ipLength p = length (IP n) then pool_set p \<union> net_set n else pool_set p)"
proof -
  obtain r where r: "ipRangeFromIPNet n = Some r" "wf_range r" "range_set r = net_set n"
    using valid_IPNet_range [OF assms(2)] .
  then show ?thesis using addRange_correct [OF assms(1) r(2)] assms(1) by (auto simp: AddNet_def)
qed

lemma NewWithNet_correct:
  assumes "valid_IPNet n"
  shows "\<exists>p. NewWithNet n = Some p \<and> pool_inv p \<and> pool_set p = net_set n \<and> ipLength p = length (IP n)"
  using AddNet_correct [OF pool_inv_New(1) [of "length (IP n)"] assms]
  by (auto simp: NewWithNet_def New_def) (simp add: pool_set_def)+

lemma Exclude_correct:
  assumes "pool_inv p" "valid_IPNet n"
  shows "\<exists>p'. Exclude p (Some n) = Some p' \<and> pool_inv p' \<and> pool_set p' = pool_set p - net_set n \<and>
    ipLength p' = ipLength p"
proof -
  obtain r where r: "ipRangeFromIPNet n = Some r" "wf_range r" "range_set r = net_set n"
    using valid_IPNet_range [OF assms(2)] .
  then show ?thesis using deleteRange_correct [OF assms(1) r(2)] by (auto simp: Exclude_def)
qed

lemma Contains_correct:
  assumes "pool_inv p" "valid_IP ip"
  shows "Contains p ip = Some (ip_val ip \<in> pool_set p)"
proof -
  obtain a where "ipAddressFromIP ip = Some a" "aval a = ip_val ip"
    using ipAddressFromIP_Some [OF assms(2)] unfolding ip_val_def by metis
  then show ?thesis
    using assms lookup_correct [of "root p" a]
    by (auto simp: Contains_def pool_inv_def pool_set_def valid_IP_def)
qed

lemma ContainsNet_correct:
  assumes "pool_inv p" "valid_IPNet n"
  shows "ContainsNet p (Some n) = Some (net_set n \<subseteq> pool_set p)"
proof -
  obtain r where r: "ipRangeFromIPNet n = Some r" "wf_range r" "range_set r = net_set n"
    using valid_IPNet_range [OF assms(2)] .
  then show ?thesis
    using assms containsLoop_correct [of "root p" r] by (simp add: ContainsNet_def pool_inv_def pool_set_def)
qed

section \<open>Pulling\<close>

text \<open>The network of exactly one address, as the pulling operations return it.\<close>

lemma Pull_correct:
  assumes "pool_inv p"
  shows "\<exists>res p'. Pull p = Some (res, p') \<and> pool_inv p' \<and> ipLength p' = ipLength p \<and>
    (case res of
       Inl e \<Rightarrow> e = PoolEmpty \<and> pool_set p = {} \<and> p' = p
     | Inr ip \<Rightarrow> \<exists>a. ip = ipFromIPAddress a (ipLength p) \<and> aval a \<in> pool_set p \<and>
         (\<forall>n\<in>pool_set p. aval a \<le> n) \<and> pool_set p' = pool_set p - {aval a})"
proof (cases "pool_set p = {}")
  case True
  then show ?thesis using assms by (auto simp: Pull_def pull_empty pool_set_empty_iff)
next
  case False
  from pull_correct [OF assms False] show ?thesis by (auto simp: Pull_def)
qed

lemma PullIP_correct:
  assumes "pool_inv p" "pools_inv exs" "valid_IP ip"
  shows "\<exists>p'. PullIP p ip exs =
      Some (if ip_val ip \<in> pool_set p - excluded exs then Inr (hostNet p ip) else Inl NotInPool, p') \<and>
    pool_inv p' \<and> ipLength p' = ipLength p \<and>
    pool_set p' = (if ip_val ip \<in> pool_set p - excluded exs then pool_set p - {ip_val ip} else pool_set p)"
proof -
  obtain c where c: "excludePools p exs = Some c" "pool_inv c" "pool_set c = pool_set p - excluded exs"
    using excludePools_correct [OF assms(1,2)] by blast
  obtain a where a: "ipAddressFromIP ip = Some a" "aval a = ip_val ip"
    using ipAddressFromIP_Some [OF assms(3)] unfolding ip_val_def by metis
  have "wf_range (host_range a)" "range_set (host_range a) = {ip_val ip}"
    using a by (auto simp: wf_range_def range_set_def)
  with deleteRange_correct [OF assms(1), of "host_range a"] obtain q where
    "deleteRange p (host_range a) = Some q" "pool_inv q" "pool_set q = pool_set p - {ip_val ip}"
    "ipLength q = ipLength p" by auto
  then show ?thesis
    using Contains_correct [OF c(2) assms(3)] a c assms by (auto simp: PullIP_def hostNet_def)
qed

lemma PullP2PAddrs_correct:
  assumes "pool_inv p" "pools_inv exs"
  shows "\<exists>res p'. PullP2PAddrs p exs = Some (res, p') \<and> pool_inv p' \<and> ipLength p' = ipLength p \<and>
    (case res of
       Inl e \<Rightarrow> e = PoolEmpty \<and> p' = p \<and> (\<exists>n. pool_set p - excluded exs \<subseteq> {n})
     | Inr (src, dst) \<Rightarrow> \<exists>a b. src = hostNet p (ipFromIPAddress a (ipLength p)) \<and>
         dst = hostNet p (ipFromIPAddress b (ipLength p)) \<and> aval a < aval b \<and>
         {aval a, aval b} \<subseteq> pool_set p - excluded exs \<and>
         (\<forall>n\<in>pool_set p - excluded exs. n = aval a \<or> aval b \<le> n) \<and>
         pool_set p' = pool_set p - {aval a, aval b})"
proof -
  obtain c where c: "excludePools p exs = Some c" "pool_inv c" "pool_set c = pool_set p - excluded exs"
    using excludePools_correct [OF assms] by blast
  obtain x c' where x: "pull c = Some (x, c')" "pool_inv c'" using ippool.take_total [OF c(2)] by blast
  obtain y c'' where y: "pull c' = Some (y, c'')" using ippool.take_total [OF x(2)] by blast
  show ?thesis
  proof (cases x)
    case None
    then have "pool_set c = {}" using ippool.take_NoneE [OF c(2)] x by blast
    then show ?thesis using None x c assms by (auto simp: PullP2PAddrs_def)
  next
    case (Some a)
    note ta = ippool.take_SomeE [OF c(2) x(1) [unfolded Some]]
    show ?thesis
    proof (cases y)
      case None
      then have "pool_set c' = {}" using ippool.take_NoneE [OF x(2)] y by blast
      then show ?thesis using None Some x y c ta assms by (auto simp: PullP2PAddrs_def)
    next
      case (Some b)
      note tb = ippool.take_twice [OF c(2) x(1) [unfolded \<open>x = Some a\<close>] y [unfolded Some]]
      have h: "wf_range (host_range z)" "range_set (host_range z) = {aval z}" for z
        by (auto simp: wf_range_def range_set_def)
      obtain q where q: "deleteRange p (host_range a) = Some q" "pool_inv q"
        "pool_set q = pool_set p - {aval a}" "ipLength q = ipLength p"
        using deleteRange_correct [OF assms(1) h(1) [of a]] h(2) by auto
      obtain q' where q': "deleteRange q (host_range b) = Some q'" "pool_inv q'"
        "pool_set q' = pool_set q - {aval b}" "ipLength q' = ipLength q"
        using deleteRange_correct [OF q(2) h(1) [of b]] h(2) by auto
      show ?thesis
        using \<open>x = Some a\<close> Some x y c q q' ta(1) tb(1-3)
        by (auto simp: PullP2PAddrs_def hostNet_def)
    qed
  qed
qed

end
