(* ===== verification/IP_Prefixes.thy ===== *)
theory IP_Prefixes
  imports IP_Pool_Ops
begin

text \<open>
  Listing a pool as CIDR prefixes: \<^verbatim>\<open>getPrefixes\<close>, \<^verbatim>\<open>trailingZeros\<close>, the in-order iterator and
  \<^verbatim>\<open>GetPrefixes\<close> of \<^verbatim>\<open>src/pkg/tools/ippool/ippool.go\<close>. The loops run on 64-bit words, with the
  wrap-around of the Go code.
\<close>

section \<open>Definitions\<close>

abbreviation prefixBitsSize :: nat where "prefixBitsSize \<equiv> 64"

lemma unat_div_2: "unat (n div 2 :: u64) = unat n div 2"
  by (simp add: unat_div)

function tzLoop :: "u64 \<Rightarrow> nat \<Rightarrow> nat" where
  "tzLoop num pow = (if num \<noteq> 0 \<and> num mod 2 = 0 then tzLoop (num div 2) (pow + 1) else pow)"
  by pat_completeness auto
termination
proof (relation "measure (\<lambda>(num, pow). unat num)", goal_cases)
  case (2 num pow)
  then have "unat num \<noteq> 0" by (simp add: unat_eq_zero)
  then show ?case by (simp add: unat_div_2)
qed simp

declare tzLoop.simps [simp del]

definition trailingZeros :: "u64 \<Rightarrow> nat" where
  "trailingZeros num = (if num = 0 then prefixBitsSize else tzLoop num 1 - 1)"

text \<open>\<^verbatim>\<open>for z > 0 && last-first+1 < uint64(1)<<z { z-- }\<close>, with \<^verbatim>\<open>n = last-first+1\<close>.\<close>

fun shrink :: "u64 \<Rightarrow> nat \<Rightarrow> nat" where
  "shrink n 0 = 0"
| "shrink n (Suc z) = (if n < push_bit (Suc z) 1 then shrink n z else Suc z)"

lemma tzLoop_dvd:
  "num \<noteq> 0 \<Longrightarrow> pow \<le> tzLoop num pow \<and> 2 ^ (tzLoop num pow - pow) dvd unat num"
proof (induction num pow rule: tzLoop.induct)
  case (1 num pow)
  show ?case
  proof (cases "num mod 2 = 0")
    case True
    then have even: "unat num = 2 * unat (num div 2)"
    proof -
      have "unat num mod 2 = unat (num mod 2)" by (simp add: unat_mod)
      then have "unat num mod 2 = 0" using True by simp
      then show ?thesis unfolding unat_div_2 by presburger
    qed
    then have "num div 2 \<noteq> 0" using "1.prems" by (metis mult_0_right unat_0 unat_eq_zero)
    with "1.IH" "1.prems" True have ih: "pow + 1 \<le> tzLoop (num div 2) (pow + 1)"
      "2 ^ (tzLoop (num div 2) (pow + 1) - (pow + 1)) dvd unat (num div 2)" by auto
    have "2 ^ (tzLoop (num div 2) (pow + 1) - pow) =
        2 * (2 :: nat) ^ (tzLoop (num div 2) (pow + 1) - (pow + 1))"
      using ih(1) by (metis Suc_diff_le Suc_eq_plus1 diff_Suc_Suc power_Suc)
    with ih even True "1.prems" show ?thesis by (simp add: tzLoop.simps [of num])
  next
    case False
    then show ?thesis by (simp add: tzLoop.simps [of num])
  qed
qed

lemma trailingZeros_dvd:
  assumes "num \<noteq> 0"
  shows "2 ^ trailingZeros num dvd unat num" "trailingZeros num < 64"
proof -
  show dvd: "2 ^ trailingZeros num dvd unat num"
    using tzLoop_dvd [OF assms, of 1] assms by (simp add: trailingZeros_def)
  have "unat num \<noteq> 0" using assms by (simp add: unat_eq_zero)
  with dvd have "(2 :: nat) ^ trailingZeros num \<le> unat num" by (simp add: dvd_imp_le)
  also have "\<dots> < 2 ^ 64" using unat_u64_less [of num] by simp
  finally show "trailingZeros num < 64" by (rule power_less_imp_less_exp [rotated]) simp
qed

lemma unat_2_power: "z < 64 \<Longrightarrow> unat (2 ^ z :: u64) = 2 ^ z"
  using unsigned_of_nat [of "2 ^ z", where 'b = 64, where 'a = nat]
    power_strict_increasing [of z 64 "2 :: nat"]
  by (simp add: take_bit_nat_eq_self)

lemma unat_push_bit_1: "z < 64 \<Longrightarrow> unat (push_bit z 1 :: u64) = 2 ^ z"
  by (simp add: unat_2_power)

lemma unat_block_step:
  assumes "z < 64" "unat n + 2 ^ z \<le> 2 ^ 64"
  shows "unat (n + push_bit z 1 :: u64) = (if unat n + 2 ^ z = 2 ^ 64 then 0 else unat n + 2 ^ z)"
  using assms by (auto simp: unat_word_ariths unat_2_power)

lemma tz_step:
  assumes "n \<noteq> 0"
  shows "unat n + 2 ^ trailingZeros n \<le> 2 ^ 64"
    "unat (n + push_bit (trailingZeros n) 1) =
      (if unat n + 2 ^ trailingZeros n = 2 ^ 64 then 0 else unat n + 2 ^ trailingZeros n)"
proof -
  note d = trailingZeros_dvd [OF assms]
  obtain k where k: "unat n = 2 ^ trailingZeros n * k" using d(1) by (auto elim: dvdE)
  have e: "(2 :: nat) ^ 64 = 2 ^ trailingZeros n * 2 ^ (64 - trailingZeros n)"
    using d(2) by (simp flip: power_add)
  have "2 ^ trailingZeros n * k < 2 ^ trailingZeros n * 2 ^ (64 - trailingZeros n)"
    using unat_u64_less [of n] k e by simp
  then have "Suc k \<le> 2 ^ (64 - trailingZeros n)" by simp
  then have "2 ^ trailingZeros n * Suc k \<le> 2 ^ trailingZeros n * 2 ^ (64 - trailingZeros n)"
    by (rule mult_le_mono2)
  then show le: "unat n + 2 ^ trailingZeros n \<le> 2 ^ 64" using k e by (simp add: algebra_simps)
  show "unat (n + push_bit (trailingZeros n) 1) =
      (if unat n + 2 ^ trailingZeros n = 2 ^ 64 then 0 else unat n + 2 ^ trailingZeros n)"
    by (rule unat_block_step [OF d(2) le])
qed

lemma shrink_le: "shrink n z \<le> z"
  by (induction z) auto

lemma shrink_fits: "n \<noteq> 0 \<Longrightarrow> z < 64 \<Longrightarrow> 2 ^ shrink n z \<le> unat n"
proof (induction z)
  case 0
  then show ?case using unat_eq_zero [of n] by simp
next
  case (Suc z)
  then show ?case
    using unat_push_bit_1 [of "Suc z"] by (auto simp: not_less word_le_nat_alt simp del: power_Suc)
qed

lemma block_step:
  assumes "n \<le> m" "\<not> (n = 0 \<and> m = MaxUint64)" "z0 < 64"
  defines "z \<equiv> shrink (m - n + 1) z0"
  shows "z < 64" "unat n + 2 ^ z \<le> Suc (unat m)"
    "unat (n + push_bit z 1) = (if unat n + 2 ^ z = 2 ^ 64 then 0 else unat n + 2 ^ z)"
proof -
  show z: "z < 64" unfolding z_def using shrink_le [of "m - n + 1" z0] assms(3) by simp
  have d: "unat (m - n) = unat m - unat n" using assms(1) by (simp add: unat_sub)
  have "m - n \<noteq> MaxUint64"
  proof
    assume "m - n = MaxUint64"
    then have "unat m - unat n = 18446744073709551615" using d by (metis u64_max_iff)
    then have "unat n = 0" "unat m = 18446744073709551615" using unat_u64_le [of m] by linarith+
    then show False using assms(2) by (simp add: u64_max_iff unat_eq_zero)
  qed
  then have s: "unat (m - n + 1) = Suc (unat m - unat n)" using d by (simp add: unat_u64_Suc)
  then have "m - n + 1 \<noteq> 0" by (metis nat.distinct(1) unat_0)
  from shrink_fits [OF this assms(3)] s show le: "unat n + 2 ^ z \<le> Suc (unat m)"
    using assms(1) by (simp add: z_def word_le_nat_alt)
  show "unat (n + push_bit z 1) = (if unat n + 2 ^ z = 2 ^ 64 then 0 else unat n + 2 ^ z)"
    using le unat_u64_le [of m] by (intro unat_block_step [OF z]) simp
qed

lemma trailingZeros_64_iff: "trailingZeros n = 64 \<longleftrightarrow> n = 0"
  using trailingZeros_dvd(2) [of n] by (cases "n = 0") (auto simp: trailingZeros_def)

text \<open>The exponent of the next block, as both block loops choose it.\<close>

definition block_exp :: "u64 \<Rightarrow> u64 \<Rightarrow> nat" where
  "block_exp n m = shrink (m - n + 1) (if trailingZeros n = 64 then trailingZeros n - 1 else trailingZeros n)"

lemma block_exp_step:
  assumes "n \<le> m" "\<not> (n = 0 \<and> m = MaxUint64)"
  shows "block_exp n m < 64" "unat n + 2 ^ block_exp n m \<le> Suc (unat m)"
    "unat (n + push_bit (block_exp n m) 1) =
      (if unat n + 2 ^ block_exp n m = 2 ^ 64 then 0 else unat n + 2 ^ block_exp n m)"
    "2 ^ block_exp n m dvd unat n"
proof -
  let ?z = "if trailingZeros n = 64 then trailingZeros n - 1 else trailingZeros n"
  have "?z < 64" using trailingZeros_dvd(2) [of n] trailingZeros_64_iff [of n] by auto
  note b = block_step [OF assms this, folded block_exp_def]
  show "block_exp n m < 64" "unat n + 2 ^ block_exp n m \<le> Suc (unat m)"
    "unat (n + push_bit (block_exp n m) 1) =
      (if unat n + 2 ^ block_exp n m = 2 ^ 64 then 0 else unat n + 2 ^ block_exp n m)"
    using b by blast+
  show "2 ^ block_exp n m dvd unat n"
  proof (cases "n = 0")
    case False
    then have "2 ^ block_exp n m dvd (2 :: nat) ^ trailingZeros n"
      using shrink_le [of "m - n + 1" "trailingZeros n"]
      by (auto simp: block_exp_def trailingZeros_64_iff intro: le_imp_power_dvd)
    also note trailingZeros_dvd(1) [OF False]
    finally show ?thesis .
  qed simp
qed

definition loop_measure :: "u64 \<Rightarrow> u64 \<Rightarrow> nat" where
  "loop_measure n m =
     (if n \<le> m then (if n = 0 \<and> m = MaxUint64 then 1 else Suc (2 ^ 64 - unat n)) else 0)"

lemma loop_measure_less:
  assumes "n \<le> m" "\<not> (trailingZeros n = 64 \<and> m = MaxUint64)"
  shows "loop_measure (n + push_bit (block_exp n m) 1) m < loop_measure n m"
proof -
  have a: "\<not> (n = 0 \<and> m = MaxUint64)" using assms(2) by (simp add: trailingZeros_64_iff)
  note b = block_exp_step [OF assms(1) a]
  let ?n = "n + push_bit (block_exp n m) 1"
  have lt: "unat n < 2 ^ 64" using unat_u64_less [of n] by simp
  show ?thesis
  proof (cases "unat n + 2 ^ block_exp n m = 2 ^ 64")
    case True
    then have "?n = 0" using b(3) by (simp add: unat_eq_zero)
    moreover have "m = MaxUint64" using True b(2) unat_u64_le [of m] by (simp add: u64_max_iff)
    ultimately show ?thesis using assms(1) a lt by (simp add: loop_measure_def)
  next
    case False
    then have u: "unat ?n = unat n + 2 ^ block_exp n m" using b(3) by simp
    then have "?n \<noteq> 0" by (metis add_is_0 power_not_zero unat_0 zero_neq_numeral)
    moreover have "(2 :: nat) ^ 64 - unat ?n < 2 ^ 64 - unat n"
      using lt unfolding u by (intro diff_less_mono2) simp_all
    ultimately show ?thesis using assms(1) a unfolding loop_measure_def by (simp only: if_split) simp
  qed
qed

definition prefixNet :: "nat \<Rightarrow> ipAddress \<Rightarrow> int \<Rightarrow> IPNet" where
  "prefixNet len a ones = \<lparr>IP = ipFromIPAddress a len, Mask = CIDRMask ones (int len * 8)\<rparr>"

text \<open>The first loop: the rest of the /64 network the range starts in.\<close>

function firstLoop :: "nat \<Rightarrow> ipAddress \<Rightarrow> IPNet list" where
  "firstLoop len s =
     (if low s \<noteq> 0 then
        let z = trailingZeros (low s) in
        prefixNet len s (int len * 8 - int z) # firstLoop len (s\<lparr>low := low s + push_bit z 1\<rparr>)
      else [])"
  by pat_completeness auto
termination
proof (relation "measure (\<lambda>(len, s). if low s = 0 then 0 else 2 ^ 64 - unat (low s))", goal_cases)
  case (2 len s z)
  have "(0 :: nat) < 2 ^ z" by simp
  then show ?case using 2 tz_step [of "low s"] unat_u64_less [of "low s"]
    by (auto simp: unat_eq_zero [symmetric] split: if_splits intro!: diff_less_mono2)
qed simp

declare firstLoop.simps [simp del]

text \<open>
  The second loop: whole /64 networks. The flag says that the function returns inside the loop,
  which happens when the block is the whole address space.
\<close>

function highLoop :: "nat \<Rightarrow> u64 \<Rightarrow> ipAddress \<Rightarrow> IPNet list \<times> bool" where
  "highLoop len endHigh s =
     (if high s \<le> endHigh then
        let z = trailingZeros (high s) in
        if z = prefixBitsSize \<and> endHigh = MaxUint64 then ([prefixNet len s 0], True)
        else
          let z = (if z = prefixBitsSize then z - 1 else z);
              z = shrink (endHigh - high s + 1) z;
              (ns, returned) = highLoop len endHigh (s\<lparr>high := high s + push_bit z 1\<rparr>)
          in (prefixNet len s (int len * 8 - int z - 64) # ns, returned)
      else ([], False))"
  by pat_completeness auto
termination
proof (relation "measure (\<lambda>(len, m, s). loop_measure (high s) m)", goal_cases)
  case (2 len m s z za zb)
  then have "zb = block_exp (high s) m" by (simp only: block_exp_def)
  then show ?case using loop_measure_less [of "high s" m] 2 by (simp del: push_bit_of_1)
qed simp

text \<open>The third loop: addresses of the last /64 network.\<close>

function lowLoop :: "nat \<Rightarrow> u64 \<Rightarrow> ipAddress \<Rightarrow> IPNet list" where
  "lowLoop len endLow s =
     (if low s \<le> endLow then
        let z = trailingZeros (low s) in
        if z = prefixBitsSize \<and> endLow = MaxUint64 then [prefixNet len s (int len * 8 - 64)]
        else
          let z = (if z = prefixBitsSize then z - 1 else z);
              z = shrink (endLow - low s + 1) z
          in prefixNet len s (int len * 8 - int z) #
             lowLoop len endLow (s\<lparr>low := low s + push_bit z 1\<rparr>)
      else [])"
  by pat_completeness auto
termination
proof (relation "measure (\<lambda>(len, m, s). loop_measure (low s) m)", goal_cases)
  case (2 len m s z za zb)
  then have "zb = block_exp (low s) m" by (simp only: block_exp_def)
  then show ?case using loop_measure_less [of "low s" m] 2 by (simp del: push_bit_of_1)
qed simp

declare highLoop.simps [simp del] lowLoop.simps [simp del]

definition getPrefixes :: "ipRange \<Rightarrow> nat \<Rightarrow> IPNet list" where
  "getPrefixes v len =
     (let s = ipAddress_Clone (start v); e = ipAddress_Clone (finish v) in
      if high s \<noteq> high e then
        let (pre, s) = (if low s \<noteq> 0 then (firstLoop len s, \<lparr>high = high s + 1, low = 0\<rparr>) else ([], s));
            endHigh = (if low e \<noteq> MaxUint64 then high e - 1 else high e);
            (mid, returned) = highLoop len endHigh s
        in if returned then pre @ mid
           else if low e = MaxUint64 then pre @ mid
           else pre @ mid @ lowLoop len (low e) \<lparr>high = endHigh + 1, low = 0\<rparr>
      else lowLoop len (low e) s)"

end
