(* ===== verification/IP_Prefixes_Props.thy ===== *)
theory IP_Prefixes_Props
  imports IP_Prefixes
begin

text \<open>
  The prefixes \<^verbatim>\<open>getPrefixes\<close> lists for a range tile the range exactly, as long as no block loop
  reaches the last address of its 64-bit word from a start other than zero.
\<close>

section \<open>CIDR masks on bytes\<close>

lemma maskByte_not: "n \<le> 8 \<Longrightarrow> maskByte n = NOT (mask (8 - n))"
proof -
  have "(0xff :: u8) = - 1" by simp
  then show "maskByte n = NOT (mask (8 - n))" unfolding maskByte_def
    by (simp only:) (rule bit_word_eqI, auto simp: bit_simps)
qed

lemma byte_and_maskByte:
  assumes "n \<le> 8"
  shows "unat (b AND maskByte n) = unat b div 2 ^ (8 - n) * 2 ^ (8 - n)"
proof -
  have "b AND maskByte n = push_bit (8 - n) (drop_bit (8 - n) b)"
    by (rule bit_word_eqI) (auto simp: maskByte_not [OF assms] bit_simps)
  then have "unat (b AND maskByte n) = take_bit 8 (push_bit (8 - n) (drop_bit (8 - n) (unat b)))"
    using unat_u8_less [of b] by (simp add: unsigned_push_bit_eq unsigned_drop_bit_eq take_bit_nat_eq_self)
  also have "\<dots> = unat b div 2 ^ (8 - n) * 2 ^ (8 - n)"
  proof -
    have "unat b div 2 ^ (8 - n) * 2 ^ (8 - n) \<le> unat b" by (rule div_times_less_eq_dividend)
    also note unat_u8_less [of b]
    finally show ?thesis
      by (simp add: push_bit_eq_mult drop_bit_eq_div take_bit_nat_eq_self mult.commute)
  qed
  finally show ?thesis .
qed

lemma byte_or_maskByte:
  assumes "n \<le> 8"
  shows "unat (b OR NOT (maskByte n)) = unat (b AND maskByte n) + (2 ^ (8 - n) - 1)"
proof -
  have "b OR NOT (maskByte n) = (b AND maskByte n) OR mask (8 - n)"
    by (rule bit_word_eqI) (auto simp: maskByte_not [OF assms] bit_simps)
  also have "\<dots> = (b AND maskByte n) + mask (8 - n)"
    by (rule disjunctive_add [symmetric]) (auto simp: maskByte_not [OF assms] bit_simps)
  finally have e: "b OR NOT (maskByte n) = (b AND maskByte n) + mask (8 - n)" .
  have "unat (mask (8 - n) :: u8) = take_bit 8 (mask (8 - n))"
    using unsigned_of_nat [where 'a = nat and 'b = 8, of "mask (8 - n)"] by (simp add: of_nat_mask_eq)
  also have "\<dots> = mask (8 - n)"
  proof -
    have "min 8 (8 - n) = 8 - n" by simp
    then show ?thesis by (simp only: take_bit_of_mask)
  qed
  also have "\<dots> = (2 :: nat) ^ (8 - n) - 1" by (rule mask_eq_exp_minus_1)
  finally have "unat (mask (8 - n) :: u8) = 2 ^ (8 - n) - 1" .
  moreover have "unat b div 2 ^ (8 - n) * 2 ^ (8 - n) + (2 ^ (8 - n) - 1) < 256"
  proof -
    have "unat b < 2 ^ n * 2 ^ (8 - n)" using unat_u8_less [of b] assms by (simp flip: power_add)
    then have "Suc (unat b div 2 ^ (8 - n)) \<le> 2 ^ n" by (simp add: less_mult_imp_div_less Suc_leI)
    then have "Suc (unat b div 2 ^ (8 - n)) * 2 ^ (8 - n) \<le> 2 ^ n * 2 ^ (8 - n)" by (rule mult_le_mono1)
    also have "\<dots> = 256" using assms by (simp flip: power_add)
    finally show ?thesis by (simp add: less_le_trans)
  qed
  ultimately show ?thesis
    unfolding e by (simp add: unat_word_ariths byte_and_maskByte [OF assms])
qed

text \<open>
  Masking the first \<open>n\<close> bits clears the rest of the number; filling the rest adds the size of the
  block less one.
\<close>

lemma bytes_val_zeros: "bytes_val (map2 (AND) bs (replicate (length bs) 0)) = 0"
  by (induction bs) auto

lemma bytes_val_ones: "bytes_val (map2 (\<lambda>b m. b OR NOT m) bs (replicate (length bs) 0)) = 256 ^ length bs - 1"
proof (induction bs)
  case (Cons b bs)
  have "unat (- 1 :: u8) = 255" by (simp add: unsigned_minus_1_eq_mask mask_eq_exp_minus_1)
  then have "bytes_val (map2 (\<lambda>b m. b OR NOT m) (b # bs) (replicate (length (b # bs)) 0)) =
      255 * 256 ^ length bs + (256 ^ length bs - 1)"
    using Cons by simp
  moreover have "(1 :: nat) \<le> 256 ^ length bs" by simp
  ultimately show ?case by simp
qed simp

lemma div_mult_block:
  fixes a c k :: nat
  assumes "m = k * j"
  shows "(a * m + c) div k * k = a * m + c div k * k"
proof (cases "k = 0")
  case False
  have "(a * m + c) div k = a * j + c div k"
    using False unfolding assms by (metis div_mult_self3 mult.commute mult.left_commute add.commute)
  then have "(a * m + c) div k * k = a * j * k + c div k * k" by (simp only: distrib_right)
  then show ?thesis by (simp only: assms mult.assoc mult.commute [of j k])
qed (simp add: assms)

lemma maskByte_8: "maskByte 8 = - 1"
  by (simp add: maskByte_def)

lemma bytes_val_masked:
  "n \<le> 8 * length bs \<Longrightarrow>
    bytes_val (map2 (AND) bs (cidr_bytes n (length bs))) =
      bytes_val bs div 2 ^ (8 * length bs - n) * 2 ^ (8 * length bs - n)"
proof (induction bs arbitrary: n)
  case (Cons b bs)
  let ?M = "256 ^ length bs :: nat"
  have M: "?M = 2 ^ (8 * length bs)" by (simp add: power_mult)
  show ?case
  proof (cases "n < 8")
    case True
    then have e: "8 * length (b # bs) - n = 8 * length bs + (8 - n)" by simp
    have "bytes_val (b # bs) div 2 ^ (8 * length (b # bs) - n) = unat b div 2 ^ (8 - n)"
      unfolding e power_add div_mult2_eq M [symmetric] using bytes_val_bound [of bs] by simp
    moreover have "bytes_val (map2 (AND) (b # bs) (cidr_bytes n (length (b # bs)))) =
        unat b div 2 ^ (8 - n) * 2 ^ (8 - n) * ?M"
      using True by (simp add: cidr_bytes_Suc cidr_bytes_0 byte_and_maskByte bytes_val_zeros)
    ultimately show ?thesis unfolding e power_add M [symmetric] by simp
  next
    case False
    let ?k = "8 * length bs - (n - 8)"
    have e: "8 * length (b # bs) - n = ?k" using False by simp
    have "?M = 2 ^ ?k * 2 ^ (n - 8)" using Cons.prems False unfolding M by (simp flip: power_add)
    from div_mult_block [OF this] have "bytes_val (b # bs) div 2 ^ ?k * 2 ^ ?k =
        unat b * ?M + bytes_val bs div 2 ^ ?k * 2 ^ ?k" by simp
    moreover have "bytes_val (map2 (AND) (b # bs) (cidr_bytes n (length (b # bs)))) =
        unat b * ?M + bytes_val (map2 (AND) bs (cidr_bytes (n - 8) (length bs)))"
      using False by (simp add: cidr_bytes_Suc min_def maskByte_8)
    moreover have "n - 8 \<le> 8 * length bs" using Cons.prems by simp
    ultimately show ?thesis unfolding e using Cons.IH [of "n - 8"] by (simp only:)
  qed
qed simp

lemma bytes_val_filled:
  "n \<le> 8 * length bs \<Longrightarrow>
    Suc (bytes_val (map2 (\<lambda>b m. b OR NOT m) bs (cidr_bytes n (length bs)))) =
      bytes_val (map2 (AND) bs (cidr_bytes n (length bs))) + 2 ^ (8 * length bs - n)"
proof (induction bs arbitrary: n)
  case (Cons b bs)
  let ?x = "unat (b AND maskByte n)" and ?M = "256 ^ length bs :: nat"
  have M: "?M = 2 ^ (8 * length bs)" by (simp add: power_mult)
  show ?case
  proof (cases "n < 8")
    case True
    then have e: "8 * length (b # bs) - n = (8 - n) + 8 * length bs" by simp
    have n: "min 8 n = n" "n - 8 = 0" "n \<le> 8" using True by simp_all
    have "(2 ^ (8 - n) - 1) * ?M + ?M = (2 :: nat) ^ (8 - n) * ?M"
      by (simp add: diff_mult_distrib)
    then have "(?x + (2 ^ (8 - n) - 1)) * ?M + ?M = ?x * ?M + 2 ^ (8 - n) * ?M"
      by (simp only: distrib_right add.assoc)
    moreover have "bytes_val (map2 (AND) (b # bs) (cidr_bytes n (length (b # bs)))) = ?x * ?M"
      by (simp add: n cidr_bytes_Suc cidr_bytes_0 bytes_val_zeros)
    moreover have "Suc (bytes_val (map2 (\<lambda>b m. b OR NOT m) (b # bs) (cidr_bytes n (length (b # bs))))) =
        (?x + (2 ^ (8 - n) - 1)) * ?M + ?M"
      by (simp add: n cidr_bytes_Suc cidr_bytes_0 byte_or_maskByte bytes_val_ones)
    ultimately show ?thesis unfolding e power_add M by (simp only:)
  next
    case False
    then have "8 * length (b # bs) - n = 8 * length bs - (n - 8)" by simp
    moreover have "n - 8 \<le> 8 * length bs" using Cons.prems by simp
    ultimately show ?thesis using Cons.IH [of "n - 8"] False
      by (simp add: cidr_bytes_Suc min_def maskByte_8)
  qed
qed simp

lemma aligned_masked:
  assumes "n \<le> 8 * length bs" "2 ^ (8 * length bs - n) dvd bytes_val bs"
  shows "map2 (AND) bs (cidr_bytes n (length bs)) = bs"
    "Suc (bytes_val (map2 (\<lambda>b m. b OR NOT m) bs (cidr_bytes n (length bs)))) = bytes_val bs + 2 ^ (8 * length bs - n)"
proof -
  have v: "bytes_val (map2 (AND) bs (cidr_bytes n (length bs))) = bytes_val bs"
    using bytes_val_masked [OF assms(1)] assms(2) by simp
  then show "map2 (AND) bs (cidr_bytes n (length bs)) = bs"
    by (subst (asm) bytes_val_inject) auto
  then show "Suc (bytes_val (map2 (\<lambda>b m. b OR NOT m) bs (cidr_bytes n (length bs)))) =
      bytes_val bs + 2 ^ (8 * length bs - n)"
    using bytes_val_filled [OF assms(1)] by simp
qed

section \<open>The network of a block\<close>

text \<open>
  A block of \<open>2 ^ k\<close> addresses that starts at a multiple of its size is the network with \<open>k\<close> host
  bits.
\<close>

lemma net_set_aligned:
  assumes "length bs = L" "L \<in> {IPv4len, IPv6len}" "k \<le> 8 * L" "2 ^ k dvd bytes_val bs"
  shows "net_set \<lparr>IP = bs, Mask = CIDRMask (int L * 8 - int k) (int L * 8)\<rparr> = {ip_val bs..<ip_val bs + 2 ^ k}"
proof -
  let ?n = "\<lparr>IP = bs, Mask = cidr_bytes (8 * L - k) L\<rparr>"
  have "CIDRMask (int L * 8 - int k) (int L * 8) = cidr_bytes (nat (int L * 8 - int k)) (nat (int L * 8 div 8))"
    using assms(2,3) by (intro CIDRMask_cidr_bytes) auto
  moreover have "nat (int L * 8 - int k) = 8 * L - k" by simp
  moreover have "nat (int L * 8 div 8) = L" by simp
  ultimately have m: "CIDRMask (int L * 8 - int k) (int L * 8) = cidr_bytes (8 * L - k) L" by (simp only:)
  have v: "valid_IPNet ?n" using assms(1,2) by (simp add: valid_IPNet_def)
  obtain r where r: "ipRangeFromIPNet ?n = Some r"
    "ipAddressFromIP (map2 (AND) bs (cidr_bytes (8 * L - k) L)) = Some (start r)"
    "ipAddressFromIP (map2 (\<lambda>b m. b OR NOT m) bs (cidr_bytes (8 * L - k) L)) = Some (finish r)"
    using ipRangeFromIPNet_Some [OF v] by auto
  have k: "8 * L - (8 * L - k) = k" using assms(3) by simp
  note a = aligned_masked [of "8 * L - k" bs, unfolded assms(1) k, OF diff_le_self assms(4)]
  let ?e = "map2 (\<lambda>b m. b OR NOT m) bs (cidr_bytes (8 * L - k) L)"
  have s: "aval (start r) = ip_val bs"
    using aval_ipAddressFromIP [OF r(2)] by (simp add: a(1) ip_val_def)
  have "aval (finish r) = bytes_val (To16 ?e)" by (rule aval_ipAddressFromIP [OF r(3)])
  moreover have "Suc (bytes_val (To16 ?e)) = bytes_val (To16 bs) + 2 ^ k"
    using a(2) assms(1,2) bytes_val_v4 [of bs] bytes_val_v4 [of ?e] by (auto simp: To16_def)
  ultimately have "Suc (aval (finish r)) = ip_val bs + 2 ^ k" by (simp add: ip_val_def)
  then have "{aval (start r)..aval (finish r)} = {ip_val bs..<ip_val bs + 2 ^ k}"
    unfolding s by (metis atLeastLessThanSuc_atLeastAtMost)
  then show ?thesis unfolding m net_set_def r(1) by (simp add: range_set_def)
qed

text \<open>When the printed network of a block is the block.\<close>

definition exact_block :: "nat \<Rightarrow> ipAddress \<Rightarrow> nat \<Rightarrow> bool" where
  "exact_block len a k \<longleftrightarrow>
     net_set (prefixNet len a (int len * 8 - int k)) = {aval a..<aval a + 2 ^ k}"

lemma exact_block_v6:
  assumes "k \<le> 128" "2 ^ k dvd aval a"
  shows "exact_block IPv6len a k"
proof -
  have "bytes_val (ipFromIPAddress a IPv6len) = aval a" "length (ipFromIPAddress a IPv6len) = IPv6len"
    by (simp_all add: ipFromIPAddress_def Let_def bytes_val_words)
  then show ?thesis
    using net_set_aligned [of "ipFromIPAddress a IPv6len" IPv6len k] assms
    by (simp add: exact_block_def prefixNet_def ip_val_def)
qed

lemma exact_block_v4:
  assumes "is_v4 a" "k \<le> 32" "2 ^ k dvd aval a"
  shows "exact_block IPv4len a k"
proof -
  let ?bs = "ipFromIPAddress a IPv4len"
  have v: "ip_val ?bs = aval a"
    using aval_ipAddressFromIP [OF ipAddress_roundtrip_v4(2)] assms(1) by (simp add: ip_val_def)
  have l: "length ?bs = IPv4len" using assms(1) by (rule ipAddress_roundtrip_v4)
  then have b: "bytes_val ?bs = aval a - 0xFFFF00000000"
    using v bytes_val_v4 [of ?bs] by (simp add: ip_val_def To16_def)
  have "(2 :: nat) ^ k dvd 2 ^ 32" using assms(2) by (rule le_imp_power_dvd)
  also have "(2 :: nat) ^ 32 dvd 0xFFFF00000000" by simp
  finally have "2 ^ k dvd bytes_val ?bs" unfolding b using assms(3) by (intro dvd_diff_nat)
  then show ?thesis
    using net_set_aligned [of ?bs IPv4len k] l v assms(2) by (simp add: exact_block_def prefixNet_def)
qed

section \<open>Tilings\<close>

text \<open>The networks cover the numbers from \<open>lo\<close> up to \<open>hi\<close> (excluded), in order and without overlap.\<close>

fun nets_tile :: "nat \<Rightarrow> nat \<Rightarrow> IPNet list \<Rightarrow> bool" where
  "nets_tile lo hi [] \<longleftrightarrow> lo = hi"
| "nets_tile lo hi (n # ns) \<longleftrightarrow> (\<exists>mid>lo. net_set n = {lo..<mid} \<and> nets_tile mid hi ns)"

lemma nets_tile_append: "nets_tile lo mid xs \<Longrightarrow> nets_tile mid hi ys \<Longrightarrow> nets_tile lo hi (xs @ ys)"
  by (induction xs arbitrary: lo) auto

lemma nets_tile_le: "nets_tile lo hi ns \<Longrightarrow> lo \<le> hi"
  by (induction ns arbitrary: lo) fastforce+

lemma nets_tile_union: "nets_tile lo hi ns \<Longrightarrow> (\<Union>n\<in>set ns. net_set n) = {lo..<hi}"
proof (induction ns arbitrary: lo)
  case (Cons n ns)
  then obtain mid where m: "lo < mid" "net_set n = {lo..<mid}" "nets_tile mid hi ns" by auto
  then have "mid \<le> hi" by (blast dest: nets_tile_le)
  with m Cons.IH [OF m(3)] show ?case by (auto simp: not_less)
qed simp

lemma nets_tile_disjoint:
  "nets_tile lo hi ns \<Longrightarrow> i < j \<Longrightarrow> j < length ns \<Longrightarrow> net_set (ns ! i) \<inter> net_set (ns ! j) = {}"
proof (induction ns arbitrary: lo i j)
  case (Cons n ns)
  then obtain mid where m: "net_set n = {lo..<mid}" "nets_tile mid hi ns" by auto
  obtain j' where j: "j = Suc j'" using Cons.prems(2) by (cases j) auto
  show ?case
  proof (cases i)
    case 0
    have "ns ! j' \<in> set ns" using Cons.prems(3) j by simp
    then have "net_set (ns ! j') \<subseteq> {mid..<hi}" unfolding nets_tile_union [OF m(2), symmetric] by blast
    with 0 j m(1) show ?thesis by auto
  next
    case (Suc i')
    with Cons j m show ?thesis by auto
  qed
qed simp

lemma exact_tile:
  "exact_block len a k \<Longrightarrow> nets_tile (aval a + 2 ^ k) hi ns \<Longrightarrow>
    nets_tile (aval a) hi (prefixNet len a (int len * 8 - int k) # ns)"
  unfolding exact_block_def by (auto intro!: exI [of _ "aval a + 2 ^ k"])

section \<open>The block loops\<close>

abbreviation word_base :: "u64 \<Rightarrow> nat" where
  "word_base h \<equiv> unat h * 2 ^ 64"

lemma aval_base: "aval a = word_base (high a) + unat (low a)"
  by (simp add: aval_def)

lemma firstLoop_tile:
  "low s \<noteq> 0 \<Longrightarrow> nets_tile (aval s) (word_base (high s) + 2 ^ 64) (firstLoop IPv6len s)"
proof (induction IPv6len s rule: firstLoop.induct)
  case (1 s)
  let ?z = "trailingZeros (low s)"
  let ?s = "s\<lparr>low := low s + push_bit ?z 1\<rparr>"
  note d = trailingZeros_dvd [OF \<open>low s \<noteq> 0\<close>] and t = tz_step [OF \<open>low s \<noteq> 0\<close>]
  have "2 ^ ?z dvd aval s"
    unfolding aval_base using d by (intro dvd_add dvd_mult le_imp_power_dvd) simp_all
  then have x: "exact_block IPv6len s ?z" using d(2) by (intro exact_block_v6) simp_all
  have "nets_tile (aval s + 2 ^ ?z) (word_base (high s) + 2 ^ 64) (firstLoop IPv6len ?s)"
  proof (cases "low ?s = 0")
    case True
    then have "unat (low s) + 2 ^ ?z = 2 ^ 64" using t(2) by (auto split: if_splits)
    then have "aval s + 2 ^ ?z = word_base (high s) + 2 ^ 64" unfolding aval_base by (simp only: add.assoc)
    moreover have "firstLoop IPv6len ?s = []" using True by (subst firstLoop.simps) simp
    ultimately show ?thesis by simp
  next
    case False
    then have "unat (low ?s) \<noteq> 0" by (simp add: unat_eq_zero)
    then have "unat (low ?s) = unat (low s) + 2 ^ ?z" using t(2) by (simp split: if_splits)
    then have "aval ?s = aval s + 2 ^ ?z" by (simp add: aval_base)
    with 1 False show ?thesis by (simp add: Let_def)
  qed
  from exact_tile [OF x this] show ?case using \<open>low s \<noteq> 0\<close> by (subst firstLoop.simps) (simp add: Let_def)
qed

lemma lowLoop_block:
  assumes "low s \<le> e" "\<not> (low s = 0 \<and> e = MaxUint64)"
  shows "lowLoop len e s = prefixNet len s (int len * 8 - int (block_exp (low s) e)) #
    lowLoop len e (s\<lparr>low := low s + push_bit (block_exp (low s) e) 1\<rparr>)"
  unfolding lowLoop.simps [of len e s] trailingZeros_64_iff block_exp_def Let_def
  using assms by (simp only: if_True if_False)

lemma lowLoop_tile:
  assumes "e \<noteq> MaxUint64 \<or> low s = 0" "unat (low s) \<le> Suc (unat e)"
    "\<And>a k. \<lbrakk>high a = high s; unat (low s) \<le> unat (low a); unat (low a) + 2 ^ k \<le> Suc (unat e);
       2 ^ k dvd unat (low a)\<rbrakk> \<Longrightarrow> exact_block len a k"
  shows "nets_tile (aval s) (Suc (word_base (high s) + unat e)) (lowLoop len e s)"
  using assms
proof (induction len e s rule: lowLoop.induct)
  case (1 len e s)
  show ?case
  proof (cases "low s \<le> e")
    case False
    then have "unat (low s) = Suc (unat e)" using "1.prems"(2) by (simp add: word_le_nat_alt)
    with False show ?thesis by (simp add: lowLoop.simps aval_base)
  next
    case le: True
    show ?thesis
    proof (cases "low s = 0 \<and> e = MaxUint64")
      case True
      then have "unat e = 2 ^ 64 - 1" by (simp add: u64_max_iff)
      with True "1.prems"(3) [of s 64] have "exact_block len s 64" by simp
      moreover have "lowLoop len e s = [prefixNet len s (int len * 8 - int 64)]"
        using True by (subst lowLoop.simps) (simp add: trailingZeros_64_iff)
      moreover have "nets_tile (aval s + 2 ^ 64) (Suc (word_base (high s) + unat e)) []"
        using True by (simp add: aval_base u64_max_iff)
      ultimately show ?thesis using exact_tile by metis
    next
      case False
      let ?z = "block_exp (low s) e"
      let ?s = "s\<lparr>low := low s + push_bit ?z 1\<rparr>"
      note b = block_exp_step [OF le False]
      have max: "e \<noteq> MaxUint64" using False "1.prems"(1) by blast
      then have "unat e \<noteq> 2 ^ 64 - 1" by (simp add: u64_max_iff)
      then have u: "unat (low ?s) = unat (low s) + 2 ^ ?z" using b(2,3) unat_u64_le [of e] by auto
      have x: "exact_block len s ?z" using "1.prems"(3) [of s ?z] b(2,4) by simp
      have "lowLoop len e s = prefixNet len s (int len * 8 - int ?z) # lowLoop len e ?s"
        by (rule lowLoop_block [OF le False])
      moreover have "nets_tile (aval ?s) (Suc (word_base (high ?s) + unat e)) (lowLoop len e ?s)"
      proof (rule "1.IH" [OF le refl, unfolded block_exp_def [symmetric]])
        show "\<not> (trailingZeros (low s) = 64 \<and> e = MaxUint64)" using max by simp
      qed (use max u b(2) "1.prems"(3) in \<open>auto simp: block_exp_def\<close>)
      moreover have "aval ?s = aval s + 2 ^ ?z" using u by (simp add: aval_base)
      ultimately show ?thesis using exact_tile [OF x] by simp
    qed
  qed
qed

lemma highLoop_block:
  assumes "high s \<le> e" "\<not> (high s = 0 \<and> e = MaxUint64)"
  shows "highLoop len e s =
    apfst ((#) (prefixNet len s (int len * 8 - int (64 + block_exp (high s) e))))
      (highLoop len e (s\<lparr>high := high s + push_bit (block_exp (high s) e) 1\<rparr>))"
proof -
  have "int len * 8 - int k - 64 = int len * 8 - int (64 + k)" for k by simp
  then show ?thesis
    unfolding highLoop.simps [of len e s] trailingZeros_64_iff block_exp_def Let_def
    using assms by (simp only: if_True if_False apfst_def map_prod_def case_prod_beta id_def)
qed

lemma highLoop_tile:
  assumes "e \<noteq> MaxUint64 \<or> high s = 0" "unat (high s) \<le> Suc (unat e)" "low s = 0"
  shows "nets_tile (aval s) (word_base e + 2 ^ 64) (fst (highLoop IPv6len e s)) \<and>
    snd (highLoop IPv6len e s) = (e = MaxUint64)"
  using assms
proof (induction IPv6len e s rule: highLoop.induct)
  case (1 e s)
  show ?case
  proof (cases "high s \<le> e")
    case False
    then have u: "unat (high s) = Suc (unat e)" using "1.prems"(2) by (simp add: word_le_nat_alt)
    then have "e \<noteq> MaxUint64" using unat_u64_less [of "high s"] by (auto simp: u64_max_iff)
    with u False "1.prems"(3) show ?thesis by (simp add: highLoop.simps aval_base)
  next
    case le: True
    show ?thesis
    proof (cases "high s = 0 \<and> e = MaxUint64")
      case True
      have "aval s = 0" using True "1.prems"(3) by (simp add: aval_base)
      then have "exact_block IPv6len s 128" by (intro exact_block_v6) simp_all
      moreover have "highLoop IPv6len e s = ([prefixNet IPv6len s (int IPv6len * 8 - int 128)], True)"
        using True by (subst highLoop.simps) (simp add: trailingZeros_64_iff)
      moreover have "nets_tile (aval s + 2 ^ 128) (word_base e + 2 ^ 64) []"
        using True \<open>aval s = 0\<close> by (simp add: u64_max_iff)
      ultimately show ?thesis using exact_tile True by (metis fst_conv snd_conv)
    next
      case False
      let ?z = "block_exp (high s) e"
      let ?s = "s\<lparr>high := high s + push_bit ?z 1\<rparr>"
      note b = block_exp_step [OF le False]
      have max: "e \<noteq> MaxUint64" using False "1.prems"(1) by blast
      then have "unat e \<noteq> 2 ^ 64 - 1" by (simp add: u64_max_iff)
      then have u: "unat (high ?s) = unat (high s) + 2 ^ ?z" using b(2,3) unat_u64_le [of e] by auto
      have "2 ^ (64 + ?z) dvd aval s"
        using b(4) "1.prems"(3) unfolding aval_base power_add by (simp add: mult.commute)
      then have x: "exact_block IPv6len s (64 + ?z)" using b(1) by (intro exact_block_v6) simp_all
      have "nets_tile (aval ?s) (word_base e + 2 ^ 64) (fst (highLoop IPv6len e ?s)) \<and>
          snd (highLoop IPv6len e ?s) = (e = MaxUint64)"
      proof (rule "1.hyps" [OF le refl, unfolded block_exp_def [symmetric]])
        show "\<not> (trailingZeros (high s) = 64 \<and> e = MaxUint64)" using max by simp
      qed (use max u b(2) "1.prems"(3) in \<open>auto simp: block_exp_def\<close>)
      moreover have "aval ?s = aval s + 2 ^ (64 + ?z)"
        using u unfolding aval_base power_add by (simp add: algebra_simps)
      ultimately show ?thesis using exact_tile [OF x] unfolding highLoop_block [OF le False]
        by (simp del: nets_tile.simps)
    qed
  qed
qed

section \<open>The whole listing\<close>

text \<open>
  The ranges on which a block loop wraps around: it reaches the last address of its word without
  having started at zero.
\<close>

definition prefix_wraps :: "ipRange \<Rightarrow> bool" where
  "prefix_wraps v \<longleftrightarrow> low (finish v) = MaxUint64 \<and>
     (if high (start v) = high (finish v) then low (start v) \<noteq> 0
      else high (finish v) = MaxUint64 \<and> \<not> (high (start v) = 0 \<and> low (start v) = 0))"

lemma low_block_v6:
  assumes "unat (low a) + 2 ^ k \<le> Suc (unat (e :: u64))" "2 ^ k dvd unat (low a)"
  shows "exact_block IPv6len a k"
proof (rule exact_block_v6)
  have "(2 :: nat) ^ k \<le> 2 ^ 64" using assms(1) unat_u64_le [of e] by simp
  then have k: "k \<le> 64" by (rule power_le_imp_le_exp [rotated]) simp
  then show "k \<le> 128" by simp
  show "2 ^ k dvd aval a" unfolding aval_base using k assms(2)
    by (intro dvd_add dvd_mult le_imp_power_dvd)
qed

lemma low_block_v4:
  assumes "is_v4 r" "is_v4 s" "high a = high r" "unat (low r) \<le> unat (low a)" "high s = high r"
    "unat (low a) + 2 ^ k \<le> Suc (unat (low s))" "2 ^ k dvd unat (low a)"
  shows "exact_block IPv4len a k"
proof (rule exact_block_v4)
  have "aval r \<le> aval a" "aval a + 2 ^ k \<le> Suc (aval s)" using assms(3-6) by (simp_all add: aval_base)
  moreover have "(1 :: nat) \<le> 2 ^ k" by simp
  ultimately show "is_v4 a" using assms(1,2) unfolding is_v4_def by linarith
  have "(2 :: nat) ^ k \<le> 2 ^ 32"
    using \<open>aval a + 2 ^ k \<le> Suc (aval s)\<close> \<open>is_v4 a\<close> assms(2) unfolding is_v4_def by simp
  then show k: "k \<le> 32" by (rule power_le_imp_le_exp [rotated]) simp
  show "2 ^ k dvd aval a" unfolding aval_base using k assms(7)
    by (intro dvd_add dvd_mult le_imp_power_dvd) simp_all
qed

lemma is_v4_high: "is_v4 a \<Longrightarrow> high a = 0"
  using unat_eq_zero [of "high a"] by (auto simp: is_v4_def aval_def)

lemma getPrefixes_tile_v4:
  assumes "wf_range v" "is_v4 (start v)" "is_v4 (finish v)"
  shows "nets_tile (aval (start v)) (Suc (aval (finish v))) (getPrefixes v IPv4len)"
proof -
  let ?s = "start v" and ?e = "finish v"
  have h: "high ?s = 0" "high ?e = 0" using assms(2,3) by (auto dest: is_v4_high)
  have "unat (low ?e) \<noteq> 2 ^ 64 - 1" using assms(3) h by (auto simp: is_v4_def aval_def)
  then have m: "low ?e \<noteq> MaxUint64" by (simp add: u64_max_iff)
  have "nets_tile (aval ?s) (Suc (word_base (high ?s) + unat (low ?e))) (lowLoop IPv4len (low ?e) ?s)"
    using m assms(1) h low_block_v4 [OF assms(2,3)]
    by (intro lowLoop_tile) (auto simp: wf_range_def aval_base)
  then show ?thesis using h by (simp add: getPrefixes_def ipAddress_Clone_def aval_base)
qed

lemma getPrefixes_far:
  assumes "high (start v) \<noteq> high (finish v)"
    "p = (if low (start v) \<noteq> 0 then (firstLoop len (start v), \<lparr>high = high (start v) + 1, low = 0\<rparr>)
      else ([], start v))"
    "h = (if low (finish v) \<noteq> MaxUint64 then high (finish v) - 1 else high (finish v))"
    "highLoop len h (snd p) = (mid, ret)" "ret \<Longrightarrow> low (finish v) = MaxUint64"
  shows "getPrefixes v len = fst p @ mid @
    (if low (finish v) = MaxUint64 then [] else lowLoop len (low (finish v)) \<lparr>high = h + 1, low = 0\<rparr>)"
proof -
  have c: "ipAddress_Clone a = a" for a by (simp add: ipAddress_Clone_def)
  show ?thesis
    unfolding getPrefixes_def c Let_def assms(2) [symmetric] assms(3) [symmetric]
    using assms(1,4,5) by (simp only: split_beta) auto
qed

lemma getPrefixes_tile_v6:
  assumes "wf_range v" "\<not> prefix_wraps v"
  shows "nets_tile (aval (start v)) (Suc (aval (finish v))) (getPrefixes v IPv6len)"
proof (cases "high (start v) = high (finish v)")
  case True
  have "nets_tile (aval (start v)) (Suc (word_base (high (start v)) + unat (low (finish v))))
      (lowLoop IPv6len (low (finish v)) (start v))"
    using assms True low_block_v6
    by (intro lowLoop_tile) (auto simp: wf_range_def aval_base prefix_wraps_def)
  then show ?thesis using True by (simp add: getPrefixes_def ipAddress_Clone_def aval_base)
next
  case False
  let ?s = "start v" and ?e = "finish v"
  let ?p = "if low ?s \<noteq> 0 then (firstLoop IPv6len ?s, \<lparr>high = high ?s + 1, low = 0\<rparr>) else ([], ?s)"
  let ?h = "if low ?e \<noteq> MaxUint64 then high ?e - 1 else high ?e"
  let ?m = "highLoop IPv6len ?h (snd ?p)"
  let ?r = "if low ?e = MaxUint64 then [] else lowLoop IPv6len (low ?e) \<lparr>high = ?h + 1, low = 0\<rparr>"
  have "aval ?s \<le> aval ?e" using assms(1) by (simp add: wf_range_def)
  have "unat (high ?s) \<noteq> unat (high ?e)" using False by (simp add: word_unat_eq_iff)
  with \<open>aval ?s \<le> aval ?e\<close> have lt: "unat (high ?s) < unat (high ?e)"
    using unat_u64_less [of "low ?e"] by (simp add: aval_base)
  then have "high ?s \<noteq> MaxUint64" using unat_u64_le [of "high ?e"] by (auto simp: u64_max_iff)
  then have n: "unat (high ?s + 1) = Suc (unat (high ?s))" by (rule unat_u64_Suc)
  have "high ?e \<noteq> 0" using lt by auto
  then have e: "unat (high ?e - 1) = unat (high ?e) - 1" by (rule unat_u64_pred)
  have pre: "nets_tile (aval ?s) (aval (snd ?p)) (fst ?p)"
  proof (cases "low ?s = 0")
    case False
    have "aval \<lparr>high = high ?s + 1, low = 0\<rparr> = word_base (high ?s) + 2 ^ 64"
      using n by (simp add: aval_base)
    with firstLoop_tile [OF False] False show ?thesis by simp
  qed simp
  have mid: "nets_tile (aval (snd ?p)) (word_base ?h + 2 ^ 64) (fst ?m) \<and> snd ?m = (?h = MaxUint64)"
  proof (rule highLoop_tile)
    show "?h \<noteq> MaxUint64 \<or> high (snd ?p) = 0"
      using assms(2) False e unat_u64_le [of "high ?e"] by (auto simp: prefix_wraps_def u64_max_iff)
    show "unat (high (snd ?p)) \<le> Suc (unat ?h)" using lt n e by auto
  qed simp
  have post: "nets_tile (word_base ?h + 2 ^ 64) (Suc (aval ?e)) ?r"
  proof (cases "low ?e = MaxUint64")
    case True
    then show ?thesis by (simp add: aval_base u64_max_iff)
  next
    case l: False
    have "nets_tile (aval \<lparr>high = high ?e, low = 0\<rparr>) (Suc (word_base (high \<lparr>high = high ?e, low = 0\<rparr>) + unat (low ?e)))
        (lowLoop IPv6len (low ?e) \<lparr>high = high ?e, low = 0\<rparr>)"
      using l low_block_v6 by (intro lowLoop_tile) auto
    moreover have "word_base (high ?e - 1) + 2 ^ 64 = aval \<lparr>high = high ?e, low = 0\<rparr>"
      unfolding e aval_base using lt by (simp add: diff_mult_distrib)
    ultimately show ?thesis using l by (simp add: aval_base)
  qed
  have ret: "snd ?m \<Longrightarrow> low ?e = MaxUint64"
    using mid e unat_u64_le [of "high ?e"] \<open>high ?e \<noteq> 0\<close> by (auto simp: u64_max_iff split: if_splits)
  have "getPrefixes v IPv6len = fst ?p @ fst ?m @ ?r"
    by (rule getPrefixes_far [OF False refl refl prod.collapse [symmetric] ret])
  then show ?thesis using nets_tile_append [OF pre nets_tile_append [OF conjunct1 [OF mid] post]]
    by (simp only:)
qed

text \<open>
  A block loop that runs up to the largest word ends only when the word wraps to zero, and then
  prints the whole block.
\<close>

lemma lowLoop_wraps: "prefixNet len (s\<lparr>low := 0\<rparr>) (int len * 8 - 64) \<in> set (lowLoop len MaxUint64 s)"
proof (induction len "MaxUint64 :: u64" s rule: lowLoop.induct)
  case (1 len s)
  have le: "low s \<le> MaxUint64" using unat_u64_le [of "low s"] by (simp add: word_le_nat_alt)
  show ?case
  proof (cases "low s = 0")
    case True
    then have "lowLoop len MaxUint64 s = [prefixNet len s (int len * 8 - 64)]"
      using le by (subst lowLoop.simps) (simp add: trailingZeros_64_iff)
    moreover have "s\<lparr>low := 0\<rparr> = s" using True by (cases s) simp
    ultimately show ?thesis by simp
  next
    case False
    have "prefixNet len (s\<lparr>low := low s + push_bit (block_exp (low s) MaxUint64) 1, low := 0\<rparr>) (int len * 8 - 64)
        \<in> set (lowLoop len MaxUint64 (s\<lparr>low := low s + push_bit (block_exp (low s) MaxUint64) 1\<rparr>))"
      by (rule "1.hyps" [OF le refl, unfolded block_exp_def [symmetric]])
        (use False in \<open>simp_all add: trailingZeros_64_iff block_exp_def\<close>)
    then show ?thesis
      using lowLoop_block [OF le, of len] False by simp
  qed
qed

end
