(* ===== verification/Go_Net_Text.thy ===== *)
theory Go_Net_Text
  imports Go_Net
begin

text \<open>
  Textual addresses and networks of Go's \<^verbatim>\<open>net\<close> package: \<^verbatim>\<open>net.ParseIP\<close>, \<^verbatim>\<open>net.ParseCIDR\<close>,
  \<^verbatim>\<open>IP.String\<close> and \<^verbatim>\<open>IPNet.String\<close>, for both families. Strings are lists of characters; a parser
  that reports an error returns \<open>None\<close>. Decimal fields follow the rules of Go 1.17 and later (no
  leading zeros).
\<close>

section \<open>Numbers\<close>

definition digit_char :: "nat \<Rightarrow> char" where
  "digit_char d = (if d < 10 then char_of (48 + d) else char_of (87 + d))"

definition digit_val :: "char \<Rightarrow> nat option" where
  "digit_val c = (let n = of_char c :: nat in
     if 48 \<le> n \<and> n \<le> 57 then Some (n - 48)
     else if 97 \<le> n \<and> n \<le> 102 then Some (n - 87)
     else if 65 \<le> n \<and> n \<le> 70 then Some (n - 55) else None)"

definition is_digit :: "char \<Rightarrow> bool" where
  "is_digit c = (let n = of_char c :: nat in 48 \<le> n \<and> n \<le> 57)"

definition dec_val :: "char \<Rightarrow> nat" where
  "dec_val c = of_char c - 48"

fun print_nat :: "nat \<Rightarrow> string" where
  "print_nat n = (if n < 10 then [digit_char n] else print_nat (n div 10) @ [digit_char (n mod 10)])"

fun print_hex :: "nat \<Rightarrow> string" where
  "print_hex n = (if n < 16 then [digit_char n] else print_hex (n div 16) @ [digit_char (n mod 16)])"

declare print_nat.simps [simp del] print_hex.simps [simp del]

section \<open>IPv4\<close>

text \<open>
  \<^verbatim>\<open>parseIPv4Fields\<close>: the fields read so far, the current value and its number of digits. A field
  with no digit, a leading zero, a value above 255 or a fifth field is an error.
\<close>

fun parseIPv4Fields :: "u8 list \<Rightarrow> nat \<Rightarrow> nat \<Rightarrow> string \<Rightarrow> u8 list option" where
  "parseIPv4Fields fs v digLen [] =
     (if digLen = 0 \<or> length fs \<noteq> 3 then None else Some (fs @ [of_nat v]))"
| "parseIPv4Fields fs v digLen (c # s) =
     (if is_digit c then
        if digLen = 1 \<and> v = 0 then None
        else if 255 < v * 10 + dec_val c then None
        else parseIPv4Fields fs (v * 10 + dec_val c) (digLen + 1) s
      else if c = CHR ''.'' then
        if digLen = 0 \<or> length fs = 3 then None
        else parseIPv4Fields (fs @ [of_nat v]) 0 0 s
      else None)"

definition parseIPv4 :: "string \<Rightarrow> IP option" where
  "parseIPv4 s = parseIPv4Fields [] 0 0 s"

definition print_IPv4 :: "IP \<Rightarrow> string" where
  "print_IPv4 ip = concat (map (\<lambda>i. (if i = 0 then [] else ''.'') @ print_nat (unat (ip ! i))) [0..<length ip])"

section \<open>IPv6\<close>

text \<open>One hexadecimal group: its value, its number of digits and the rest; more than four digits fail.\<close>

fun hexGroup :: "nat \<Rightarrow> nat \<Rightarrow> string \<Rightarrow> (nat \<times> nat \<times> string) option" where
  "hexGroup acc off [] = Some (acc, off, [])"
| "hexGroup acc off (c # s) =
     (case digit_val c of
        None \<Rightarrow> Some (acc, off, c # s)
      | Some d \<Rightarrow> if 3 < off then None else hexGroup (acc * 16 + d) (off + 1) s)"

lemma hexGroup_length: "hexGroup acc off s = Some (a, b, r) \<Longrightarrow> length r + b = length s + off"
  by (induction acc off s rule: hexGroup.induct) (auto split: option.splits if_splits)

text \<open>
  The group loop of \<^verbatim>\<open>parseIPv6\<close>: bytes read so far, where the ellipsis was seen, the rest of the
  string. It stops after sixteen bytes or at the end of the string.
\<close>

function groupLoop :: "u8 list \<Rightarrow> nat option \<Rightarrow> string \<Rightarrow> (u8 list \<times> nat option \<times> string) option" where
  "groupLoop ip ell s =
     (if 16 \<le> length ip then Some (ip, ell, s)
      else case hexGroup 0 0 s of
        None \<Rightarrow> None
      | Some (acc, off, r) \<Rightarrow>
          if off = 0 then None
          else if r \<noteq> [] \<and> hd r = CHR ''.'' then
            if ell = None \<and> length ip \<noteq> 12 \<or> 16 < length ip + 4 then None
            else (case parseIPv4 s of None \<Rightarrow> None | Some v4 \<Rightarrow> Some (ip @ v4, ell, []))
          else
            let ip = ip @ [of_nat (acc div 256), of_nat acc] in
            (case r of
              [] \<Rightarrow> Some (ip, ell, [])
            | [c] \<Rightarrow> None
            | c # d # r' \<Rightarrow>
                if c \<noteq> CHR '':'' then None
                else if d = CHR '':'' then
                  if ell \<noteq> None then None
                  else if r' = [] then Some (ip, Some (length ip), [])
                  else groupLoop ip (Some (length ip)) r'
                else groupLoop ip ell (d # r')))"
  by pat_completeness auto
termination
  by (relation "measure (\<lambda>(ip, ell, s). length s)") (auto dest: hexGroup_length)

declare groupLoop.simps [simp del]

definition expandEllipsis :: "u8 list \<Rightarrow> nat option \<Rightarrow> string \<Rightarrow> IP option" where
  "expandEllipsis ip ell s =
     (if s \<noteq> [] then None
      else if length ip < 16 then
        (case ell of None \<Rightarrow> None | Some e \<Rightarrow> Some (take e ip @ replicate (16 - length ip) 0 @ drop e ip))
      else if ell \<noteq> None then None else Some ip)"

definition parseIPv6 :: "string \<Rightarrow> IP option" where
  "parseIPv6 s =
     (if take 2 s = ''::'' then
        if drop 2 s = [] then Some (replicate 16 0)
        else Option.bind (groupLoop [] (Some 0) (drop 2 s)) (\<lambda>(ip, ell, r). expandEllipsis ip ell r)
      else Option.bind (groupLoop [] None s) (\<lambda>(ip, ell, r). expandEllipsis ip ell r))"

text \<open>\<^verbatim>\<open>netip.ParseAddr\<close>: the first of \<^verbatim>\<open>.\<close>, \<^verbatim>\<open>:\<close> and \<^verbatim>\<open>%\<close> decides the family. An address with a zone is no IP.\<close>

fun firstSep :: "string \<Rightarrow> char option" where
  "firstSep s = find (\<lambda>c. c = CHR ''.'' \<or> c = CHR '':'' \<or> c = CHR 0x25) s"

definition ParseIP :: "string \<Rightarrow> IP option" where
  "ParseIP s =
     (case firstSep s of
        None \<Rightarrow> None
      | Some c \<Rightarrow>
          if c = CHR ''.'' then map_option To16 (parseIPv4 s)
          else if c = CHR '':'' then parseIPv6 s else None)"

text \<open>Printing: the first longest run of at least two zero groups becomes the ellipsis.\<close>

definition groups :: "IP \<Rightarrow> nat list" where
  "groups ip = map (\<lambda>i. unat (ip ! (2 * i)) * 256 + unat (ip ! (2 * i + 1))) [0..<8]"

definition zeroRun :: "nat list \<Rightarrow> nat" where
  "zeroRun gs = length (takeWhile (\<lambda>g. g = 0) gs)"

definition longestRun :: "nat list \<Rightarrow> (nat \<times> nat) option" where
  "longestRun gs =
     fold (\<lambda>i best. let l = zeroRun (drop i gs); b = (case best of None \<Rightarrow> 0 | Some (s, e) \<Rightarrow> e - s) in
       if 2 \<le> l \<and> b < l then Some (i, i + l) else best) [0..<length gs] None"

fun joinHex :: "nat list \<Rightarrow> string" where
  "joinHex [] = []"
| "joinHex [g] = print_hex g"
| "joinHex (g # gs) = print_hex g @ '':'' @ joinHex gs"

definition print_IPv6 :: "IP \<Rightarrow> string" where
  "print_IPv6 ip =
     (let gs = groups ip in
      case longestRun gs of
        None \<Rightarrow> joinHex gs
      | Some (s, e) \<Rightarrow> joinHex (take s gs) @ ''::'' @ joinHex (drop e gs))"

definition print_hex2 :: "u8 \<Rightarrow> string" where
  "print_hex2 b = [digit_char (unat b div 16), digit_char (unat b mod 16)]"

definition IP_String :: "IP \<Rightarrow> string" where
  "IP_String ip =
     (if ip = [] then ''<nil>''
      else if length ip \<noteq> IPv4len \<and> length ip \<noteq> IPv6len then ''?'' @ concat (map print_hex2 ip)
      else if To4 ip \<noteq> [] then print_IPv4 (To4 ip) else print_IPv6 ip)"

section \<open>Networks\<close>

fun readDec :: "nat \<Rightarrow> string \<Rightarrow> nat option" where
  "readDec v [] = Some v"
| "readDec v (c # s) =
     (if is_digit c \<and> v * 10 + dec_val c < 0xFFFFFF then readDec (v * 10 + dec_val c) s else None)"

text \<open>
  \<^verbatim>\<open>net.ParseCIDR\<close>: the address as written and the network, its address masked. An address with a
  dot first is IPv4 and its network has four bytes.
\<close>

definition ParseCIDR :: "string \<Rightarrow> (IP \<times> IPNet) option" where
  "ParseCIDR s =
     (let addr = takeWhile (\<lambda>c. c \<noteq> CHR ''/'') s; r = dropWhile (\<lambda>c. c \<noteq> CHR ''/'') s in
      if r = [] then None
      else case ParseIP addr of
        None \<Rightarrow> None
      | Some ip \<Rightarrow>
          (let iplen = (if firstSep addr = Some (CHR ''.'') then IPv4len else IPv6len) in
           case (if tl r = [] then None else readDec 0 (tl r)) of
             None \<Rightarrow> None
           | Some n \<Rightarrow>
               if 8 * iplen < n then None
               else let m = CIDRMask (int n) (int (8 * iplen)) in
                    Some (ip, \<lparr>IP = IP_Mask ip m, Mask = m\<rparr>)))"

definition IPNet_String :: "IPNet \<Rightarrow> string" where
  "IPNet_String n =
     (let (nn, m) = networkNumberAndMask n in
      if nn = [] \<or> m = [] then ''<nil>''
      else case simpleMaskLength m of
        None \<Rightarrow> IP_String nn @ ''/'' @ concat (map print_hex2 m)
      | Some l \<Rightarrow> IP_String nn @ ''/'' @ print_nat l)"

section \<open>Shapes of what the parsers return\<close>

lemma parseIPv4Fields_length: "parseIPv4Fields fs v n s = Some ip \<Longrightarrow> length ip = 4"
  by (induction fs v n s rule: parseIPv4Fields.induct) (auto split: if_splits)

lemma parseIPv4_length: "parseIPv4 s = Some ip \<Longrightarrow> length ip = 4"
  unfolding parseIPv4_def by (rule parseIPv4Fields_length)

lemma groupLoop_length:
  "groupLoop ip ell s = Some (ip', ell', r) \<Longrightarrow> even (length ip) \<Longrightarrow> length ip \<le> 16 \<Longrightarrow>
    length ip' \<le> 16"
proof (induction "length s" arbitrary: ip ell s rule: less_induct)
  case less
  show ?case
  proof (cases "16 \<le> length ip")
    case True
    with less.prems show ?thesis by (simp add: groupLoop.simps)
  next
    case False
    with \<open>even (length ip)\<close> have l: "length ip + 2 \<le> 16" by presburger
    obtain acc off t where h: "hexGroup 0 0 s = Some (acc, off, t)" "off \<noteq> 0"
      using less.prems(1) False by (subst (asm) groupLoop.simps) (auto split: option.splits if_splits)
    then have t: "length t < length s" by (auto dest: hexGroup_length)
    have ih: "groupLoop (ip @ [x, y]) e u = Some (ip', ell', r) \<Longrightarrow> length u < length s \<Longrightarrow> length ip' \<le> 16"
      for x y e u using less.hyps [of u "ip @ [x, y]" e] less.prems(2) l by simp
    show ?thesis
      using less.prems(1) False h t l
      by (subst (asm) groupLoop.simps)
        (auto simp: Let_def split: list.splits if_splits option.splits dest: ih parseIPv4_length)
  qed
qed

lemma expandEllipsis_length: "expandEllipsis ip ell s = Some ip' \<Longrightarrow> length ip \<le> 16 \<Longrightarrow> length ip' = 16"
  by (auto simp: expandEllipsis_def split: if_splits option.splits)

lemma parseIPv6_length: "parseIPv6 s = Some ip \<Longrightarrow> length ip = 16"
  using groupLoop_length [of "[]"] expandEllipsis_length
  by (fastforce simp: parseIPv6_def bind_eq_Some_iff split: if_splits)

lemma ParseIP_length: "ParseIP s = Some ip \<Longrightarrow> length ip = IPv6len"
  by (auto simp: ParseIP_def To16_def v4InV6Prefix_def split: option.splits if_splits
      dest: parseIPv4_length parseIPv6_length)

lemma ParseIP_v4:
  assumes "ParseIP s = Some ip" "firstSep s = Some (CHR ''.'')"
  shows "\<exists>v4. length v4 = IPv4len \<and> ip = To16 v4"
  using assms by (auto simp: ParseIP_def dest: parseIPv4_length simp del: firstSep.simps)

lemma length_CIDRMask:
  "bits = 8 * int L \<Longrightarrow> L \<in> {IPv4len, IPv6len} \<Longrightarrow> 0 \<le> ones \<Longrightarrow> ones \<le> bits \<Longrightarrow> length (CIDRMask ones bits) = L"
  by (auto simp: CIDRMask_def)

lemma ParseCIDR_shape:
  assumes "ParseCIDR s = Some (ip, n)"
  shows "length ip = IPv6len" "length (IP n) = length (Mask n)" "length (IP n) \<in> {IPv4len, IPv6len}"
proof -
  let ?a = "takeWhile (\<lambda>c. c \<noteq> CHR ''/'') s"
  let ?L = "if firstSep ?a = Some (CHR ''.'') then IPv4len else IPv6len"
  obtain k where p: "ParseIP ?a = Some ip" "k \<le> 8 * ?L"
      "n = \<lparr>IP = IP_Mask ip (CIDRMask (int k) (int (8 * ?L))), Mask = CIDRMask (int k) (int (8 * ?L))\<rparr>"
    using assms unfolding ParseCIDR_def Let_def
    by (fastforce simp: not_less simp del: firstSep.simps split: option.splits if_splits)
  show l: "length ip = IPv6len" by (rule ParseIP_length [OF p(1)])
  have m: "length (CIDRMask (int k) (int (8 * ?L))) = ?L"
    using p(2) by (intro length_CIDRMask) auto
  have "length (IP_Mask ip (CIDRMask (int k) (int (8 * ?L)))) = ?L"
  proof (cases "firstSep ?a = Some (CHR ''.'')")
    case True
    then obtain v4 where "length v4 = IPv4len" "ip = v4InV6Prefix @ v4"
      using ParseIP_v4 [OF p(1)] by (auto simp: To16_def)
    with True m show ?thesis by (simp add: IP_Mask_def v4InV6Prefix_def)
  next
    case False
    with l m show ?thesis by (simp add: IP_Mask_def)
  qed
  with m show "length (IP n) = length (Mask n)" "length (IP n) \<in> {IPv4len, IPv6len}"
    unfolding p(3) by auto
qed

end
