(* ===== verification/IP_Pool_Text.thy ===== *)
theory IP_Pool_Text
  imports IP_Prefixes_Props Go_Net_Text
begin

text \<open>
  The textual face of the pool: the in-order iterator and \<^verbatim>\<open>GetPrefixes\<close>, the methods that take
  strings (\<^verbatim>\<open>src/pkg/tools/ippool/ippool.go\<close>), and the two-family pool of
  \<^verbatim>\<open>src/pkg/tools/ippool/prefixpool.go\<close>.
\<close>

section \<open>The iterator\<close>

text \<open>Climb while the node is a right child, then once more; \<open>None\<close> above the root.\<close>

fun ascend :: "'v location \<Rightarrow> 'v location option" where
  "ascend (t, []) = None"
| "ascend (t, RightOf c l v # ks) = ascend (Node c l v t, ks)"
| "ascend (t, LeftOf c v r # ks) = Some (Node c t v r, ks)"

fun iterator_Next :: "ipRange location option \<Rightarrow> ipRange treeNode \<times> ipRange location option" where
  "iterator_Next None = (Nil, None)"
| "iterator_Next (Some (Nil, ks)) = (Nil, None)"
| "iterator_Next (Some (Node c l v r, ks)) =
     (Node c l v r,
      if r = Nil then ascend (Node c l v r, ks) else Some (leftNode (r, RightOf c l v # ks)))"

text \<open>The values the iterator has still to visit.\<close>

fun to_visit :: "ipRange location option \<Rightarrow> ipRange list" where
  "to_visit None = []"
| "to_visit (Some (Nil, ks)) = []"
| "to_visit (Some (Node c l v r, ks)) = v # inorder r @ rights ks"

lemma to_visit_leftNode: "t \<noteq> Nil \<Longrightarrow> to_visit (Some (leftNode (t, ks))) = inorder t @ rights ks"
  by (induction "(t, ks)" arbitrary: t ks rule: leftNode.induct) auto

lemma to_visit_ascend: "to_visit (ascend (t, ks)) = rights ks"
  by (induction "(t, ks)" arbitrary: t ks rule: ascend.induct) auto

lemma to_visit_Next:
  "to_visit it = (case iterator_Next it of (Nil, it') \<Rightarrow> [] | (Node c l v r, it') \<Rightarrow> v # to_visit it')"
  by (cases it rule: iterator_Next.cases) (auto simp: to_visit_leftNode to_visit_ascend)

function prefixesLoop :: "ipRange location option \<Rightarrow> nat \<Rightarrow> string list" where
  "prefixesLoop it len =
     (case iterator_Next it of
        (Nil, it') \<Rightarrow> []
      | (Node c l v r, it') \<Rightarrow> map IPNet_String (getPrefixes v len) @ prefixesLoop it' len)"
  by pat_completeness auto
termination
proof (relation "measure (\<lambda>(it, len). length (to_visit it))", goal_cases)
  case (2 it len x it' c l v r)
  then have "iterator_Next it = (Node c l v r, it')" by simp
  then have "to_visit it = v # to_visit it'" by (subst to_visit_Next) simp
  then show ?case by simp
qed simp

declare prefixesLoop.simps [simp del]

definition GetPrefixes :: "IPPool \<Rightarrow> string list" where
  "GetPrefixes tree =
     (let c = clone tree in
      if root c = Nil then []
      else prefixesLoop (Some (leftNode (root c, []))) (ipLength c))"

lemma prefixesLoop_visits:
  "prefixesLoop it len = map IPNet_String (concat (map (\<lambda>v. getPrefixes v len) (to_visit it)))"
proof (induction it len rule: prefixesLoop.induct)
  case (1 it len)
  show ?case
  proof (cases "iterator_Next it")
    case (Pair t it')
    then show ?thesis using 1 [of t it']
      by (cases t) (auto simp: prefixesLoop.simps [of it] to_visit_Next [of it])
  qed
qed

definition pool_nets :: "IPPool \<Rightarrow> IPNet list" where
  "pool_nets p = concat (map (\<lambda>v. getPrefixes v (ipLength p)) (inorder (root p)))"

lemma cloneNode_id [simp]: "cloneNode t = t"
  by (induction t) (auto simp: ipRange_Clone_def ipAddress_Clone_def)

lemma GetPrefixes_nets: "GetPrefixes p = map IPNet_String (pool_nets p)"
  by (auto simp: GetPrefixes_def clone_def Let_def pool_nets_def prefixesLoop_visits to_visit_leftNode)

text \<open>The ranges of a pool whose listing is exact.\<close>

definition exact_range :: "nat \<Rightarrow> ipRange \<Rightarrow> bool" where
  "exact_range len v \<longleftrightarrow>
     (if len = IPv4len then is_v4 (start v) \<and> is_v4 (finish v) else len = IPv6len \<and> \<not> prefix_wraps v)"

lemma exact_range_tile:
  "wf_range v \<Longrightarrow> exact_range len v \<Longrightarrow> nets_tile (aval (start v)) (Suc (aval (finish v))) (getPrefixes v len)"
  by (auto simp: exact_range_def getPrefixes_tile_v4 getPrefixes_tile_v6 split: if_splits)

lemma pool_nets_cover:
  assumes "pool_inv p" "\<forall>v\<in>set (inorder (root p)). exact_range (ipLength p) v"
  shows "(\<Union>n\<in>set (pool_nets p). net_set n) = pool_set p"
proof -
  have "(\<Union>n\<in>set (getPrefixes v (ipLength p)). net_set n) = range_set v" if "v \<in> set (inorder (root p))" for v
  proof -
    have "wf_range v" using assms(1) that by (simp add: pool_inv_def ranges_ok_def)
    from nets_tile_union [OF exact_range_tile [OF this]] assms(2) that show ?thesis
      by (simp add: range_set_def atLeastLessThanSuc_atLeastAtMost)
  qed
  then show ?thesis by (simp add: pool_nets_def pool_set_def ranges_set_def)
qed

section \<open>Methods on strings\<close>

definition NewWithNetString :: "string \<Rightarrow> IPPool option option" where
  "NewWithNetString s = (case ParseCIDR s of None \<Rightarrow> Some None | Some (_, n) \<Rightarrow> map_option Some (NewWithNet n))"

text \<open>\<^verbatim>\<open>net.ParseIP\<close> returns the nil slice on an error; the methods go on with it.\<close>

definition ParseIP_nil :: "string \<Rightarrow> IP" where
  "ParseIP_nil s = (case ParseIP s of None \<Rightarrow> [] | Some ip \<Rightarrow> ip)"

definition AddString :: "IPPool \<Rightarrow> string \<Rightarrow> IPPool option" where
  "AddString tree s =
     (let ip = ParseIP_nil s; ip = (if ipLength tree = IPv4len then To4 ip else ip) in Add tree ip)"

definition AddNetString :: "IPPool \<Rightarrow> string \<Rightarrow> IPPool option" where
  "AddNetString tree s = (case ParseCIDR s of None \<Rightarrow> Some tree | Some (_, n) \<Rightarrow> AddNet tree (Some n))"

definition ContainsNetString :: "IPPool \<Rightarrow> string \<Rightarrow> bool option" where
  "ContainsNetString tree s = (case ParseCIDR s of None \<Rightarrow> Some False | Some (_, n) \<Rightarrow> ContainsNet tree (Some n))"

definition ContainsString :: "IPPool \<Rightarrow> string \<Rightarrow> bool option" where
  "ContainsString tree s = Contains tree (ParseIP_nil s)"

definition ExcludeString :: "IPPool \<Rightarrow> string \<Rightarrow> IPPool option" where
  "ExcludeString tree s = (case ParseCIDR s of None \<Rightarrow> Some tree | Some (_, n) \<Rightarrow> Exclude tree (Some n))"

datatype pull_error = ParseFailed | PoolError pool_error

definition PullIPString ::
  "IPPool \<Rightarrow> string \<Rightarrow> IPPool option list \<Rightarrow> ((pull_error + IPNet) \<times> IPPool) option" where
  "PullIPString tree s exclude =
     (case ParseCIDR s of
        None \<Rightarrow> Some (Inl ParseFailed, tree)
      | Some (ip, _) \<Rightarrow>
          map_option (\<lambda>(r, tree'). (case r of Inl e \<Rightarrow> Inl (PoolError e) | Inr n \<Rightarrow> Inr n, tree'))
            (PullIP tree ip exclude))"

lemma ParseCIDR_valid: "ParseCIDR s = Some (ip, n) \<Longrightarrow> valid_IPNet n \<and> valid_IP ip"
  using ParseCIDR_shape [of s ip n] by (simp add: valid_IPNet_def valid_IP_def)

text \<open>The addresses a CIDR string stands for; none if it does not parse.\<close>

definition cidr_set :: "string \<Rightarrow> nat set" where
  "cidr_set s = (case ParseCIDR s of None \<Rightarrow> {} | Some (_, n) \<Rightarrow> net_set n)"

definition cidr_family :: "string \<Rightarrow> nat option" where
  "cidr_family s = map_option (\<lambda>(_, n). length (IP n)) (ParseCIDR s)"

lemma AddNetString_correct:
  "pool_inv p \<Longrightarrow> \<exists>p'. AddNetString p s = Some p' \<and> pool_inv p' \<and> ipLength p' = ipLength p \<and>
    pool_set p' = (if cidr_family s = Some (ipLength p) then pool_set p \<union> cidr_set s else pool_set p)"
  using AddNet_correct ParseCIDR_valid
  by (fastforce simp: AddNetString_def cidr_set_def cidr_family_def split: option.splits)

lemma ExcludeString_correct:
  "pool_inv p \<Longrightarrow> \<exists>p'. ExcludeString p s = Some p' \<and> pool_inv p' \<and> ipLength p' = ipLength p \<and>
    pool_set p' = pool_set p - cidr_set s"
  using Exclude_correct ParseCIDR_valid
  by (fastforce simp: ExcludeString_def cidr_set_def split: option.splits)

section \<open>The two-family pool\<close>

record PrefixPool =
  ip4 :: IPPool
  ip6 :: IPPool

datatype prefix_error = BadCIDR string

text \<open>
  The result is the error, if any, and the pool: the prefixes before a malformed one have been
  added by the time the error is returned.
\<close>

fun AddPrefixes :: "PrefixPool \<Rightarrow> string list \<Rightarrow> (prefix_error option \<times> PrefixPool) option" where
  "AddPrefixes pool [] = Some (None, pool)"
| "AddPrefixes pool (prefix # ps) =
     (case ParseCIDR prefix of
        None \<Rightarrow> Some (Some (BadCIDR prefix), pool)
      | Some (_, ipNet) \<Rightarrow> do {
          p4 \<leftarrow> AddNet (ip4 pool) (Some ipNet);
          p6 \<leftarrow> AddNet (ip6 pool) (Some ipNet);
          AddPrefixes (pool\<lparr>ip4 := p4, ip6 := p6\<rparr>) ps })"

fun ExcludePrefixes :: "PrefixPool \<Rightarrow> string list \<Rightarrow> (prefix_error option \<times> PrefixPool) option" where
  "ExcludePrefixes pool [] = Some (None, pool)"
| "ExcludePrefixes pool (prefix # ps) =
     (case ParseCIDR prefix of
        None \<Rightarrow> Some (Some (BadCIDR prefix), pool)
      | Some (_, ipNet) \<Rightarrow> do {
          p4 \<leftarrow> Exclude (ip4 pool) (Some ipNet);
          p6 \<leftarrow> Exclude (ip6 pool) (Some ipNet);
          ExcludePrefixes (pool\<lparr>ip4 := p4, ip6 := p6\<rparr>) ps })"

definition NewPool :: "string list \<Rightarrow> (prefix_error + PrefixPool) option" where
  "NewPool prefixes = do {
     (err, pool) \<leftarrow> AddPrefixes \<lparr>ip4 = New IPv4len, ip6 = New IPv6len\<rparr> prefixes;
     Some (case err of Some e \<Rightarrow> Inl e | None \<Rightarrow> Inr pool) }"

definition PrefixPool_GetPrefixes :: "PrefixPool \<Rightarrow> string list" where
  "PrefixPool_GetPrefixes pool = GetPrefixes (ip4 pool) @ GetPrefixes (ip6 pool)"

definition prefix_pool_inv :: "PrefixPool \<Rightarrow> bool" where
  "prefix_pool_inv pool \<longleftrightarrow> pool_inv (ip4 pool) \<and> pool_inv (ip6 pool) \<and>
     ipLength (ip4 pool) = IPv4len \<and> ipLength (ip6 pool) = IPv6len"

text \<open>The prefixes handled before the first malformed one, and the error it causes.\<close>

definition wellformed_part :: "string list \<Rightarrow> string list" where
  "wellformed_part ps = takeWhile (\<lambda>s. ParseCIDR s \<noteq> None) ps"

definition first_error :: "string list \<Rightarrow> prefix_error option" where
  "first_error ps = map_option BadCIDR (find (\<lambda>s. ParseCIDR s = None) ps)"

definition family_set :: "nat \<Rightarrow> string list \<Rightarrow> nat set" where
  "family_set len ps = (\<Union>s\<in>set ps. if cidr_family s = Some len then cidr_set s else {})"

lemma AddPrefixes_correct:
  "prefix_pool_inv pool \<Longrightarrow>
    \<exists>pool'. AddPrefixes pool ps = Some (first_error ps, pool') \<and> prefix_pool_inv pool' \<and>
      pool_set (ip4 pool') = pool_set (ip4 pool) \<union> family_set IPv4len (wellformed_part ps) \<and>
      pool_set (ip6 pool') = pool_set (ip6 pool) \<union> family_set IPv6len (wellformed_part ps)"
proof (induction ps arbitrary: pool)
  case Nil
  then show ?case by (simp add: first_error_def wellformed_part_def family_set_def)
next
  case (Cons s ps)
  show ?case
  proof (cases "ParseCIDR s")
    case None
    then show ?thesis using Cons.prems
      by (simp add: first_error_def wellformed_part_def family_set_def)
  next
    case (Some r)
    then obtain a n where n: "ParseCIDR s = Some (a, n)" by (cases r) auto
    have v: "valid_IPNet n" using ParseCIDR_valid [OF n] by simp
    have i: "pool_inv (ip4 pool)" "ipLength (ip4 pool) = IPv4len" "pool_inv (ip6 pool)"
      "ipLength (ip6 pool) = IPv6len" using Cons.prems by (simp_all add: prefix_pool_inv_def)
    have s: "cidr_set s = net_set n" "cidr_family s = Some (length (IP n))"
      using n by (simp_all add: cidr_set_def cidr_family_def)
    obtain p4 where p4: "AddNet (ip4 pool) (Some n) = Some p4" "pool_inv p4" "ipLength p4 = IPv4len"
      "pool_set p4 = pool_set (ip4 pool) \<union> family_set IPv4len [s]"
      using AddNet_correct [OF i(1) v] i(2) s by (auto simp: family_set_def)
    obtain p6 where p6: "AddNet (ip6 pool) (Some n) = Some p6" "pool_inv p6" "ipLength p6 = IPv6len"
      "pool_set p6 = pool_set (ip6 pool) \<union> family_set IPv6len [s]"
      using AddNet_correct [OF i(3) v] i(4) s by (auto simp: family_set_def)
    let ?pool = "pool\<lparr>ip4 := p4, ip6 := p6\<rparr>"
    have "prefix_pool_inv ?pool" using p4 p6 by (simp add: prefix_pool_inv_def)
    from Cons.IH [OF this] obtain pool' where
      "AddPrefixes ?pool ps = Some (first_error ps, pool')" "prefix_pool_inv pool'"
      "pool_set (ip4 pool') = pool_set p4 \<union> family_set IPv4len (wellformed_part ps)"
      "pool_set (ip6 pool') = pool_set p6 \<union> family_set IPv6len (wellformed_part ps)" by auto
    moreover have "AddPrefixes pool (s # ps) = AddPrefixes ?pool ps" using n p4(1) p6(1) by simp
    moreover have "first_error (s # ps) = first_error ps"
      "wellformed_part (s # ps) = s # wellformed_part ps"
      using n by (simp_all add: first_error_def wellformed_part_def)
    moreover have "family_set L (s # ws) = family_set L [s] \<union> family_set L ws" for L ws
      by (auto simp: family_set_def)
    ultimately show ?thesis unfolding p4(4) p6(4) Un_assoc by metis
  qed
qed

lemma ExcludePrefixes_correct:
  "prefix_pool_inv pool \<Longrightarrow>
    \<exists>pool'. ExcludePrefixes pool ps = Some (first_error ps, pool') \<and> prefix_pool_inv pool' \<and>
      pool_set (ip4 pool') = pool_set (ip4 pool) - (\<Union>s\<in>set (wellformed_part ps). cidr_set s) \<and>
      pool_set (ip6 pool') = pool_set (ip6 pool) - (\<Union>s\<in>set (wellformed_part ps). cidr_set s)"
proof (induction ps arbitrary: pool)
  case Nil
  then show ?case by (simp add: first_error_def wellformed_part_def)
next
  case (Cons s ps)
  show ?case
  proof (cases "ParseCIDR s")
    case None
    then show ?thesis using Cons.prems by (simp add: first_error_def wellformed_part_def)
  next
    case (Some r)
    then obtain a n where n: "ParseCIDR s = Some (a, n)" by (cases r) auto
    have v: "valid_IPNet n" using ParseCIDR_valid [OF n] by simp
    have i: "pool_inv (ip4 pool)" "ipLength (ip4 pool) = IPv4len" "pool_inv (ip6 pool)"
      "ipLength (ip6 pool) = IPv6len" using Cons.prems by (simp_all add: prefix_pool_inv_def)
    have s: "cidr_set s = net_set n" using n by (simp add: cidr_set_def)
    obtain p4 where p4: "Exclude (ip4 pool) (Some n) = Some p4" "pool_inv p4" "ipLength p4 = IPv4len"
      "pool_set p4 = pool_set (ip4 pool) - cidr_set s"
      using Exclude_correct [OF i(1) v] i(2) s by auto
    obtain p6 where p6: "Exclude (ip6 pool) (Some n) = Some p6" "pool_inv p6" "ipLength p6 = IPv6len"
      "pool_set p6 = pool_set (ip6 pool) - cidr_set s"
      using Exclude_correct [OF i(3) v] i(4) s by auto
    let ?pool = "pool\<lparr>ip4 := p4, ip6 := p6\<rparr>"
    have "prefix_pool_inv ?pool" using p4 p6 by (simp add: prefix_pool_inv_def)
    from Cons.IH [OF this] obtain pool' where
      "ExcludePrefixes ?pool ps = Some (first_error ps, pool')" "prefix_pool_inv pool'"
      "pool_set (ip4 pool') = pool_set p4 - (\<Union>s\<in>set (wellformed_part ps). cidr_set s)"
      "pool_set (ip6 pool') = pool_set p6 - (\<Union>s\<in>set (wellformed_part ps). cidr_set s)" by auto
    moreover have "ExcludePrefixes pool (s # ps) = ExcludePrefixes ?pool ps" using n p4(1) p6(1) by simp
    moreover have "first_error (s # ps) = first_error ps"
      "wellformed_part (s # ps) = s # wellformed_part ps"
      using n by (simp_all add: first_error_def wellformed_part_def)
    ultimately show ?thesis using p4(4) p6(4) by (auto simp: Diff_eq)
  qed
qed

end
