(* ===== verification/IP_Pool_Theorems.thy ===== *)
theory IP_Pool_Theorems
  imports IP_Pool_Text
begin

text \<open>
  What the address pool promises (\<^verbatim>\<open>src/pkg/tools/ippool\<close>), stated over its own definitions, each
  property with an instance at a concrete pool.
\<close>

section \<open>A concrete pool\<close>

text \<open>The pool of \<^verbatim>\<open>10.0.0.0/30\<close> and \<^verbatim>\<open>10.0.0.16/31\<close>, as two insertions leave it.\<close>

definition addr4 :: "u64 \<Rightarrow> ipAddress" where
  "addr4 n = \<lparr>high = 0, low = 0xFFFF0A000000 + n\<rparr>"

definition span4 :: "u64 \<Rightarrow> u64 \<Rightarrow> ipRange" where
  "span4 a b = \<lparr>start = addr4 a, finish = addr4 b\<rparr>"

definition pool4 :: IPPool where
  "pool4 = \<lparr>root = Node Black Nil (span4 0 3) (Node Red Nil (span4 16 17) Nil), psize = 2, ipLength = IPv4len\<rparr>"

lemma pool4_inv: "pool_inv pool4"
  by (simp add: pool4_def span4_def addr4_def pool_inv_def rb_inv_def subtree_inv_def ranges_ok_def
      wf_range_def range_below_def aval_def)

lemma aval_addr4: "aval (addr4 0) = 281470849515520" "aval (addr4 1) = 281470849515521"
  "aval (addr4 2) = 281470849515522" "aval (addr4 3) = 281470849515523" "aval (addr4 16) = 281470849515536"
  "aval (addr4 17) = 281470849515537"
  by (simp_all add: addr4_def aval_def)

lemma wf_span4: "wf_range (span4 2 16)"
  by (simp add: span4_def addr4_def wf_range_def aval_def)

lemma pool4_set: "pool_set pool4 = {281470849515520..281470849515523} \<union> {281470849515536..281470849515537}"
  by (simp add: pool4_def pool_set_def ranges_set_def range_set_def span4_def aval_addr4)

section \<open>Ranges\<close>

text \<open>
  Subtracting one range from another leaves the addresses of the first that are not in the second,
  as at most one range on each side; the ranges that come out are well-formed.
\<close>

lemma Sub_difference:
  assumes "wf_range b" "wf_range r" "Sub b r = (lRange, rRange)"
  shows "opt_range_set lRange \<union> opt_range_set rRange = range_set b - range_set r \<and>
    pred_option wf_range lRange \<and> pred_option wf_range rRange"
proof (cases "CompareRange b r = 0")
  case True
  note c = Sub_correct [OF assms(1,2) True assms(3)]
  from c(1) show ?thesis using c(2,3) by (auto simp: pred_option_def elem_set)
next
  case False
  then have "range_set b \<inter> range_set r = {}" using CompareRange_zero_iff [OF assms(1,2)] by blast
  with False assms(1,3) show ?thesis by (auto simp: Sub_def opt_range_set_def)
qed

theorem Sub_difference_witness:
  "opt_range_set (fst (Sub (span4 0 3) (span4 1 2))) \<union> opt_range_set (snd (Sub (span4 0 3) (span4 1 2))) =
    range_set (span4 0 3) - range_set (span4 1 2)"
proof -
  have "wf_range (span4 0 3)" "wf_range (span4 1 2)"
    by (simp_all add: span4_def addr4_def wf_range_def aval_def)
  from Sub_difference [OF this prod.collapse [symmetric]] show ?thesis by simp
qed

section \<open>The tree\<close>

text \<open>
  Removing a node never dereferences nil, keeps the red-black invariant and takes exactly that node's
  value out of the in-order sequence.
\<close>

lemma removeNode_correct:
  assumes "rb_inv (plug (Node c l v r) ks)"
  shows "\<exists>t'. removeNode (Node c l v r, ks) = Some t' \<and> rb_inv t' \<and>
    inorder t' = lefts ks @ inorder l @ inorder r @ rights ks"
  by (rule removeNode_inv [OF assms])

theorem removeNode_correct_witness:
  "\<exists>t'. removeNode (Node Red Nil (span4 16 17) Nil, [RightOf Black Nil (span4 0 3)]) = Some t' \<and>
    rb_inv t' \<and> inorder t' = [span4 0 3]"
proof -
  have "rb_inv (plug (Node Red Nil (span4 16 17) Nil) [RightOf Black Nil (span4 0 3)])"
    by (simp add: rb_inv_def subtree_inv_def)
  from removeNode_correct [OF this] show ?thesis by simp
qed

text \<open>
  Rebalancing after an insertion at any position of a red-black tree never dereferences nil, gives a
  red-black tree again and leaves the in-order sequence as it is.
\<close>

lemma insertCase1_correct:
  assumes "path_inv ks 0"
  shows "\<exists>t'. insertCase1 (Node Red Nil v Nil, ks) = Some t' \<and> rb_inv t' \<and>
    inorder t' = lefts ks @ v # rights ks"
  using insertCase1_inv [of "Node Red Nil v Nil" ks] assms by (simp add: subtree_inv_def)

theorem insertCase1_correct_witness:
  "\<exists>t'. insertCase1 (Node Red Nil (3 :: nat) Nil, [LeftOf Red 4 Nil, RightOf Black Nil 2]) = Some t' \<and>
    rb_inv t' \<and> inorder t' = [2, 3, 4]"
proof -
  have "path_inv [LeftOf Red 4 Nil, RightOf Black Nil (2 :: nat)] 0" by (simp add: subtree_inv_def)
  from insertCase1_correct [OF this, of 3] show ?thesis by simp
qed



section \<open>Adding and removing addresses\<close>

text \<open>
  C31. Adding a range never panics and keeps the pool's invariant (a red-black tree of ordered ranges that
  neither overlap nor adjoin, with its counter); the pool then holds its old addresses and those of the
  range.
\<close>

theorem addRange_union:
  assumes "pool_inv p" "wf_range r"
  shows "\<exists>p'. addRange p r = Some p' \<and> pool_inv p' \<and> pool_set p' = pool_set p \<union> range_set r \<and>
    ipLength p' = ipLength p"
  by (rule addRange_correct [OF assms])

theorem addRange_union_witness:
  "\<exists>p'. addRange pool4 (span4 2 16) = Some p' \<and> pool_inv p' \<and>
    pool_set p' = {281470849515520..281470849515537}"
proof -
  have "pool_set pool4 \<union> range_set (span4 2 16) = {281470849515520..281470849515537}"
    unfolding pool4_set by (auto simp: range_set_def span4_def aval_addr4)
  with addRange_union [OF pool4_inv wf_span4] show ?thesis by auto
qed

text \<open>
  C32. Removing a range never panics and keeps the invariant; the pool then holds its old addresses less
  those of the range, however many of its ranges it cut.
\<close>

theorem deleteRange_difference:
  assumes "pool_inv p" "wf_range r"
  shows "\<exists>p'. deleteRange p r = Some p' \<and> pool_inv p' \<and> pool_set p' = pool_set p - range_set r \<and>
    ipLength p' = ipLength p"
  by (rule deleteRange_correct [OF assms])

theorem deleteRange_difference_witness:
  "\<exists>p'. deleteRange pool4 (span4 2 16) = Some p' \<and> pool_inv p' \<and>
    pool_set p' = {281470849515520, 281470849515521, 281470849515537}"
proof -
  have "pool_set pool4 - range_set (span4 2 16) = {281470849515520, 281470849515521, 281470849515537}"
    unfolding pool4_set by (auto simp: range_set_def span4_def aval_addr4)
  with deleteRange_difference [OF pool4_inv wf_span4] show ?thesis by auto
qed

text \<open>
  \<^verbatim>\<open>Pull\<close> hands out the least address of the pool and takes it out; it fails exactly on the empty
  pool, which it leaves alone.
\<close>

lemma Pull_least:
  assumes "pool_inv p"
  shows "\<exists>res p'. Pull p = Some (res, p') \<and> pool_inv p' \<and> ipLength p' = ipLength p \<and>
    (case res of
       Inl e \<Rightarrow> e = PoolEmpty \<and> pool_set p = {} \<and> p' = p
     | Inr ip \<Rightarrow> \<exists>a. ip = ipFromIPAddress a (ipLength p) \<and> aval a \<in> pool_set p \<and>
         (\<forall>n\<in>pool_set p. aval a \<le> n) \<and> pool_set p' = pool_set p - {aval a})"
  by (rule Pull_correct [OF assms])

theorem Pull_least_witness: "\<exists>res p'. Pull pool4 = Some (res, p') \<and> pool_inv p' \<and> ipLength p' = IPv4len"
  using Pull_least [OF pool4_inv] by (auto simp: pool4_def)

text \<open>
  \<^verbatim>\<open>PullIP\<close> hands out the address asked for exactly when it is in the pool and in none of the excluded
  pools, as a host network, and takes only that address out; otherwise the pool is unchanged.
\<close>

lemma PullIP_exact:
  assumes "pool_inv p" "pools_inv exs" "valid_IP ip"
  shows "\<exists>p'. PullIP p ip exs =
      Some (if ip_val ip \<in> pool_set p - excluded exs then Inr (hostNet p ip) else Inl NotInPool, p') \<and>
    pool_inv p' \<and> ipLength p' = ipLength p \<and>
    pool_set p' = (if ip_val ip \<in> pool_set p - excluded exs then pool_set p - {ip_val ip} else pool_set p)"
  by (rule PullIP_correct [OF assms])

theorem PullIP_exact_witness:
  "\<exists>p'. PullIP pool4 [10, 0, 0, 2] [None] = Some (Inr (hostNet pool4 [10, 0, 0, 2]), p') \<and>
    pool_set p' = pool_set pool4 - {281470849515522}"
proof -
  have v: "valid_IP [10, 0, 0, 2]" by (simp add: valid_IP_def)
  have i: "ip_val [10, 0, 0, 2] = 281470849515522" by (simp add: ip_val_def To16_def v4InV6Prefix_def)
  have e: "excluded [None] = {}" "pools_inv [None]" by (simp_all add: excluded_def pools_inv_def)
  have "(281470849515522 :: nat) \<in> pool_set pool4" by (simp add: pool4_set)
  with PullIP_exact [OF pool4_inv e(2) v] show ?thesis unfolding i e(1) by auto
qed

text \<open>
  \<^verbatim>\<open>PullP2PAddrs\<close> hands out the two least addresses that no excluded pool holds, distinct and in order,
  and takes exactly these two out; it fails exactly when fewer than two are left, and then the pool is
  unchanged.
\<close>

lemma PullP2PAddrs_least:
  assumes "pool_inv p" "pools_inv exs"
  shows "\<exists>res p'. PullP2PAddrs p exs = Some (res, p') \<and> pool_inv p' \<and> ipLength p' = ipLength p \<and>
    (case res of
       Inl e \<Rightarrow> e = PoolEmpty \<and> p' = p \<and> (\<exists>n. pool_set p - excluded exs \<subseteq> {n})
     | Inr (src, dst) \<Rightarrow> \<exists>a b. src = hostNet p (ipFromIPAddress a (ipLength p)) \<and>
         dst = hostNet p (ipFromIPAddress b (ipLength p)) \<and> aval a < aval b \<and>
         {aval a, aval b} \<subseteq> pool_set p - excluded exs \<and>
         (\<forall>n\<in>pool_set p - excluded exs. n = aval a \<or> aval b \<le> n) \<and>
         pool_set p' = pool_set p - {aval a, aval b})"
  by (rule PullP2PAddrs_correct [OF assms])

theorem PullP2PAddrs_least_witness:
  "\<exists>src dst p'. PullP2PAddrs pool4 [] = Some (Inr (src, dst), p') \<and> pool_inv p'"
proof -
  have "pools_inv []" by (simp add: pools_inv_def)
  from PullP2PAddrs_least [OF pool4_inv this] obtain res p' where
    r: "PullP2PAddrs pool4 [] = Some (res, p')" "pool_inv p'"
      "isl res \<Longrightarrow> \<exists>n. pool_set pool4 - excluded [] \<subseteq> {n}"
    unfolding sum.case_eq_if by (auto split: if_splits)
  have "281470849515520 \<in> pool_set pool4 - excluded []" "281470849515521 \<in> pool_set pool4 - excluded []"
    by (simp_all add: pool4_set excluded_def)
  moreover have "(281470849515520 :: nat) \<noteq> 281470849515521" by simp
  ultimately have "\<not> pool_set pool4 - excluded [] \<subseteq> {n}" for n by (metis singletonD subsetD)
  with r show ?thesis by (cases res) auto
qed

text \<open>
  \<^verbatim>\<open>ContainsNet\<close> is true exactly when every address of the network is in the pool.
\<close>

lemma ContainsNet_subset:
  assumes "pool_inv p" "valid_IPNet n"
  shows "ContainsNet p (Some n) = Some (net_set n \<subseteq> pool_set p)"
  by (rule ContainsNet_correct [OF assms])

theorem ContainsNet_subset_witness:
  "ContainsNet pool4 (Some \<lparr>IP = [10, 0, 0, 0], Mask = [255, 255, 255, 254]\<rparr>) =
    Some (net_set \<lparr>IP = [10, 0, 0, 0], Mask = [255, 255, 255, 254]\<rparr> \<subseteq> pool_set pool4)"
  by (rule ContainsNet_subset [OF pool4_inv]) (simp add: valid_IPNet_def)

text \<open>
  \<^verbatim>\<open>Contains\<close> decides membership of an address of either family, and panics on nothing but a
  byte slice of another length.
\<close>

lemma Contains_member:
  assumes "pool_inv p"
  shows "Contains p ip = (if valid_IP ip then Some (ip_val ip \<in> pool_set p) else if ip = [] then Some False else None)"
  using Contains_correct [OF assms] ipAddressFromIP_None [of ip] by (auto simp: Contains_def)

theorem Contains_member_witness: "Contains pool4 [10, 0, 0, 4] = Some False \<and> Contains pool4 [10, 0] = None"
proof -
  have i: "ip_val [10, 0, 0, 4] = 281470849515524" by (simp add: ip_val_def To16_def v4InV6Prefix_def)
  show ?thesis using Contains_member [OF pool4_inv, of "[10, 0, 0, 4]"] Contains_member [OF pool4_inv, of "[10, 0]"]
    by (simp add: valid_IP_def i pool4_set)
qed

section \<open>Addresses and their bytes\<close>

text \<open>
  The conversion between byte slices and pairs of words loses nothing: an IPv6 address survives the
  way through the pool, an IPv4 address too in an IPv4 pool, and every pair of words survives the way
  through sixteen bytes.
\<close>

lemma address_roundtrip:
  "ipAddressFromIP (ipFromIPAddress a IPv6len) = Some a \<and>
   (length ip = L \<and> L \<in> {IPv4len, IPv6len} \<longrightarrow>
      (\<exists>b. ipAddressFromIP ip = Some b \<and> ipFromIPAddress b L = ip))"
proof -
  have "\<exists>b. ipAddressFromIP ip = Some b \<and> ipFromIPAddress b L = ip" if "length ip = L" "L \<in> {IPv4len, IPv6len}"
  proof -
    have "valid_IP ip" using that by (simp add: valid_IP_def)
    from ipAddressFromIP_Some [OF this] that show ?thesis
      using IP_roundtrip_v4 [of ip] IP_roundtrip_v6 [of ip] by (metis insertE singletonD)
  qed
  then show ?thesis using ipAddress_roundtrip_v6 by blast
qed

theorem address_roundtrip_witness:
  "\<exists>b. ipAddressFromIP [10, 0, 0, 2] = Some b \<and> ipFromIPAddress b IPv4len = [10, 0, 0, 2]"
  using address_roundtrip [of undefined "[10, 0, 0, 2]" IPv4len] by simp

section \<open>Listing a pool\<close>

text \<open>
  \<^verbatim>\<open>GetPrefixes\<close> lists exactly the addresses of the pool: the networks it prints for a range tile that
  range in order without overlap, and those of all ranges together are the pool. IPv4 pools are always
  listed exactly; in IPv6 pools a range must not end at the last address of its /64 (or of the address
  space) unless it also starts at the first.
\<close>

lemma GetPrefixes_exact:
  assumes "pool_inv p" "\<forall>v\<in>set (inorder (root p)). exact_range (ipLength p) v"
  shows "GetPrefixes p = map IPNet_String (pool_nets p) \<and> (\<Union>n\<in>set (pool_nets p). net_set n) = pool_set p \<and>
    (\<forall>v\<in>set (inorder (root p)).
       nets_tile (aval (start v)) (Suc (aval (finish v))) (getPrefixes v (ipLength p)))"
proof -
  have "wf_range v" if "v \<in> set (inorder (root p))" for v
    using assms(1) that by (simp add: pool_inv_def ranges_ok_def)
  then show ?thesis
    using GetPrefixes_nets pool_nets_cover [OF assms] exact_range_tile assms(2) by blast
qed

theorem GetPrefixes_exact_witness:
  "(\<Union>n\<in>set (pool_nets pool4). net_set n) = pool_set pool4"
proof -
  have "\<forall>v\<in>set (inorder (root pool4)). exact_range (ipLength pool4) v"
    by (simp add: pool4_def exact_range_def is_v4_def span4_def aval_addr4)
  from GetPrefixes_exact [OF pool4_inv this] show ?thesis by blast
qed

text \<open>
  Outside that condition the listing is wrong: for every range that ends at the last address of the
  /64 it starts in, wherever it starts, the block loop wraps around and the whole /64 is listed too, with
  addresses that are not in the range.
\<close>

lemma getPrefixes_wraps:
  assumes "high (start v) = high (finish v)" "low (finish v) = MaxUint64"
  shows "prefixNet IPv6len \<lparr>high = high (start v), low = 0\<rparr> 64 \<in> set (getPrefixes v IPv6len) \<and>
    net_set (prefixNet IPv6len \<lparr>high = high (start v), low = 0\<rparr> 64) =
      {word_base (high (start v))..<word_base (high (start v)) + 2 ^ 64}"
proof -
  let ?a = "\<lparr>high = high (start v), low = 0\<rparr>"
  have "getPrefixes v IPv6len = lowLoop IPv6len MaxUint64 (start v)"
    using assms by (simp add: getPrefixes_def)
  then have "prefixNet IPv6len ?a 64 \<in> set (getPrefixes v IPv6len)"
    using lowLoop_wraps [of IPv6len "start v"] by (cases "start v") simp
  moreover have "exact_block IPv6len ?a 64" by (rule exact_block_v6) (simp_all add: aval_def)
  then have "net_set (prefixNet IPv6len ?a 64) = {word_base (high (start v))..<word_base (high (start v)) + 2 ^ 64}"
    by (simp add: exact_block_def aval_def)
  ultimately show ?thesis ..
qed

theorem getPrefixes_wraps_witness:
  "prefixNet IPv6len \<lparr>high = 0x20010DB800000000, low = 0\<rparr> 64 \<in>
    set (getPrefixes \<lparr>start = \<lparr>high = 0x20010DB800000000, low = 1\<rparr>,
      finish = \<lparr>high = 0x20010DB800000000, low = MaxUint64\<rparr>\<rparr> IPv6len)"
  using getPrefixes_wraps [of "\<lparr>start = \<lparr>high = 0x20010DB800000000, low = 1\<rparr>,
    finish = \<lparr>high = 0x20010DB800000000, low = MaxUint64\<rparr>\<rparr>"] by simp

section \<open>Pools of both families\<close>

text \<open>
  \<^verbatim>\<open>AddPrefixes\<close> adds each prefix to the pool of its family, up to the first one that does not parse,
  which it reports; neither pool panics and both keep their invariants.
\<close>

lemma AddPrefixes_union:
  assumes "prefix_pool_inv pool"
  shows "\<exists>pool'. AddPrefixes pool ps = Some (first_error ps, pool') \<and> prefix_pool_inv pool' \<and>
    pool_set (ip4 pool') = pool_set (ip4 pool) \<union> family_set IPv4len (wellformed_part ps) \<and>
    pool_set (ip6 pool') = pool_set (ip6 pool) \<union> family_set IPv6len (wellformed_part ps)"
  by (rule AddPrefixes_correct [OF assms])

theorem AddPrefixes_union_witness:
  "\<exists>pool'. AddPrefixes \<lparr>ip4 = pool4, ip6 = New IPv6len\<rparr> [''10.0.0.4/30'', ''junk''] =
      Some (first_error [''10.0.0.4/30'', ''junk''], pool') \<and> prefix_pool_inv pool'"
proof -
  have "prefix_pool_inv \<lparr>ip4 = pool4, ip6 = New IPv6len\<rparr>"
    using pool4_inv by (simp add: prefix_pool_inv_def New_def pool_inv_New [unfolded New_def]) (simp add: pool4_def)
  from AddPrefixes_union [OF this] show ?thesis by blast
qed

end
