(* ===== verification/Go_Net_Roundtrip.thy ===== *)
theory Go_Net_Roundtrip
  imports Go_Net_Text
begin

text \<open>
  Printing an address or a network and parsing the text gives it back, for IPv4 and IPv6, with the
  zero-run compression of IPv6 included.
\<close>

section \<open>Digits\<close>

lemma digit_less_16_cases:
  assumes "d < 16"
  shows "d \<in> {0, 1, 2, 3, 4, 5, 6, 7, 8, 9, 10, 11, 12, 13, 14, 15 :: nat}"
  using assms by (simp add: insert_iff) arith

lemma digit_val_char: "d < 16 \<Longrightarrow> digit_val (digit_char d) = Some d"
  by (drule digit_less_16_cases) (auto simp: digit_val_def digit_char_def)

lemma is_digit_char: "d < 10 \<Longrightarrow> is_digit (digit_char d) \<and> dec_val (digit_char d) = d"
  by (auto simp: is_digit_def digit_char_def dec_val_def)

lemma digit_char_not_sep:
  assumes "d < 16"
  shows "digit_char d \<notin> {CHR ''.'', CHR '':'', CHR 0x25, CHR ''/''}"
proof
  assume "digit_char d \<in> {CHR ''.'', CHR '':'', CHR 0x25, CHR ''/''}"
  then have "digit_val (digit_char d) = None" by (auto simp: digit_val_def)
  with digit_val_char [OF assms] show False by simp
qed

lemma digit_val_sep: "digit_val (CHR '':'') = None" "digit_val (CHR ''.'') = None"
  by (simp_all add: digit_val_def)

lemma is_digit_sep: "\<not> is_digit (CHR ''.'')" "\<not> is_digit (CHR ''/'')"
  by (simp_all add: is_digit_def)

section \<open>Decimal fields\<close>

lemma print_nat_digits: "c \<in> set (print_nat n) \<Longrightarrow> \<exists>d<10. c = digit_char d"
proof (induction n rule: print_nat.induct)
  case (1 n)
  have "n mod 10 < 10" by simp
  then show ?case using 1
    by (subst (asm) (2) print_nat.simps) (auto split: if_splits intro: exI [of _ "n mod 10"])
qed

lemma print_nat_not_Nil [simp]: "print_nat n \<noteq> []"
  by (subst print_nat.simps) simp

lemma parse_field:
  assumes "n < 256"
  shows "parseIPv4Fields fs 0 0 (print_nat n @ r) = parseIPv4Fields fs n (length (print_nat n)) r"
  using assms
proof (induction n arbitrary: r rule: print_nat.induct)
  case (1 n)
  show ?case
  proof (cases "n < 10")
    case True
    then show ?thesis using is_digit_char [of n] by (simp add: print_nat.simps [of n])
  next
    case False
    have "n mod 10 < 10" by simp
    note d = is_digit_char [OF this]
    have "parseIPv4Fields fs 0 0 (print_nat n @ r) =
        parseIPv4Fields fs 0 0 (print_nat (n div 10) @ digit_char (n mod 10) # r)"
      using False by (simp add: print_nat.simps [of n])
    also have "\<dots> = parseIPv4Fields fs (n div 10) (length (print_nat (n div 10))) (digit_char (n mod 10) # r)"
      using 1 False by simp
    also have "\<dots> = parseIPv4Fields fs n (Suc (length (print_nat (n div 10)))) r"
    proof -
      have "n div 10 \<noteq> 0" "n div 10 * 10 + n mod 10 = n" using False by simp_all
      with d "1.prems" show ?thesis by (simp only: parseIPv4Fields.simps) simp
    qed
    finally show ?thesis using False by (simp add: print_nat.simps [of n])
  qed
qed

lemma print_IPv4_4: "print_IPv4 [a, b, c, d] =
    print_nat (unat a) @ ''.'' @ print_nat (unat b) @ ''.'' @ print_nat (unat c) @ ''.'' @ print_nat (unat d)"
  by (simp add: print_IPv4_def upt_rec)

lemma parse_print_IPv4:
  assumes "length ip = 4"
  shows "parseIPv4 (print_IPv4 ip) = Some ip"
proof -
  obtain a b c d where ip: "ip = [a, b, c, d]"
    using assms by (auto simp: numeral_eq_Suc length_Suc_conv)
  have u: "unat (x :: u8) < 256" for x by (rule unat_u8_less)
  have l: "0 < length (print_nat n)" for n by simp
  have w: "word_of_nat (unat (x :: u8)) = x" for x by simp
  have step: "length fs < 3 \<Longrightarrow> parseIPv4Fields fs 0 0 (print_nat (unat x) @ CHR ''.'' # r) =
      parseIPv4Fields (fs @ [x]) 0 0 r" for fs and x :: u8 and r
    using l [of "unat x"] by (simp add: parse_field [OF u] is_digit_sep)
  show ?thesis
    unfolding ip print_IPv4_4 parseIPv4_def using l [of "unat d"] parse_field [OF u, of "[a, b, c]" d "[]"]
    by (simp add: step)
qed

section \<open>Hexadecimal groups\<close>

lemma print_hex_digits: "c \<in> set (print_hex n) \<Longrightarrow> \<exists>d<16. c = digit_char d"
proof (induction n rule: print_hex.induct)
  case (1 n)
  have "n mod 16 < 16" by simp
  then show ?case using 1
    by (subst (asm) (2) print_hex.simps) (auto split: if_splits intro: exI [of _ "n mod 16"])
qed

lemma length_print_hex: "n < 16 ^ Suc k \<Longrightarrow> length (print_hex n) \<le> Suc k"
proof (induction k arbitrary: n)
  case 0
  then show ?case by (simp add: print_hex.simps)
next
  case (Suc k)
  have "n div 16 < 16 ^ Suc k" using Suc.prems by (simp add: less_mult_imp_div_less mult.commute)
  from Suc.IH [OF this] show ?case by (simp add: print_hex.simps [of n])
qed

lemma print_hex_not_Nil [simp]: "print_hex n \<noteq> []"
  by (subst print_hex.simps) simp

lemma hexGroup_stop: "r = [] \<or> digit_val (hd r) = None \<Longrightarrow> hexGroup acc off r = Some (acc, off, r)"
  by (cases r) auto

lemma hexGroup_digits:
  "off + length (print_hex n) \<le> 4 \<Longrightarrow>
    hexGroup acc off (print_hex n @ r) =
      hexGroup (acc * 16 ^ length (print_hex n) + n) (off + length (print_hex n)) r"
proof (induction n arbitrary: r rule: print_hex.induct)
  case (1 n)
  show ?case
  proof (cases "n < 16")
    case True
    then show ?thesis using "1.prems" digit_val_char [of n] by (simp add: print_hex.simps [of n])
  next
    case False
    let ?l = "length (print_hex (n div 16))"
    have l: "off + ?l \<le> 3" using "1.prems" False by (simp add: print_hex.simps [of n])
    have d: "digit_val (digit_char (n mod 16)) = Some (n mod 16)" by (rule digit_val_char) simp
    have "hexGroup acc off (print_hex n @ r) = hexGroup acc off (print_hex (n div 16) @ digit_char (n mod 16) # r)"
      using False by (simp add: print_hex.simps [of n])
    also have "\<dots> = hexGroup (acc * 16 ^ ?l + n div 16) (off + ?l) (digit_char (n mod 16) # r)"
      using "1.IH" False l by simp
    also have "\<dots> = hexGroup ((acc * 16 ^ ?l + n div 16) * 16 + n mod 16) (Suc (off + ?l)) r"
      using l d by simp
    also have "(acc * 16 ^ ?l + n div 16) * 16 + n mod 16 = acc * 16 ^ Suc ?l + n"
      by (simp add: algebra_simps)
    finally show ?thesis using False by (simp add: print_hex.simps [of n])
  qed
qed

lemma hexGroup_print:
  assumes "n < 65536" "r = [] \<or> digit_val (hd r) = None"
  shows "hexGroup 0 0 (print_hex n @ r) = Some (n, length (print_hex n), r)"
  using hexGroup_digits [of 0 n 0 r] length_print_hex [of n 3] assms hexGroup_stop [OF assms(2)] by simp

section \<open>IPv6 texts\<close>

definition group_bytes :: "nat list \<Rightarrow> u8 list" where
  "group_bytes gs = concat (map (\<lambda>g. [of_nat (g div 256), of_nat g]) gs)"

lemma group_bytes_simps [simp]:
  "group_bytes [] = []"
  "group_bytes (g # gs) = of_nat (g div 256) # of_nat g # group_bytes gs"
  "group_bytes (gs @ hs) = group_bytes gs @ group_bytes hs"
  "length (group_bytes gs) = 2 * length gs"
  by (auto simp: group_bytes_def length_concat comp_def sum_list_triv)

lemma group_bytes_replicate: "group_bytes (replicate n 0) = replicate (2 * n) 0"
  by (induction n) auto

lemma group_bytes_groups:
  assumes "length ip = 16"
  shows "group_bytes (groups ip) = ip"
proof -
  obtain a b c d e f g h i j k l m n p q where ip: "ip = [a, b, c, d, e, f, g, h, i, j, k, l, m, n, p, q]"
    using assms by (auto simp: numeral_eq_Suc length_Suc_conv)
  have "(word_of_nat ((unat x * 256 + unat y) div 256) :: u8) = x" for x y :: u8
    using unat_u8_less [of y] by simp
  moreover have "(word_of_nat (unat x * 256 + unat y) :: u8) = y" for x y :: u8
  proof -
    have "(word_of_nat 256 :: u8) = 0" by (simp add: word_unat_eq_iff)
    then show ?thesis by (simp only: of_nat_add of_nat_mult mult_zero_right) simp
  qed
  ultimately show ?thesis by (simp add: ip groups_def upt_rec)
qed

lemma groups_bound: "g \<in> set (groups ip) \<Longrightarrow> g < 65536"
proof -
  have "unat (x :: u8) * 256 + unat (y :: u8) < 65536" for x y
    using unat_u8_less [of x] unat_u8_less [of y] by simp
  then show "g \<in> set (groups ip) \<Longrightarrow> g < 65536" by (auto simp: groups_def)
qed

text \<open>One turn of the group loop on a printed group.\<close>

lemma groupLoop_group:
  assumes "length ip < 16" "g < 65536" "r = [] \<or> hd r = CHR '':''"
  shows "groupLoop ip ell (print_hex g @ r) =
    (let ip = ip @ [of_nat (g div 256), of_nat g] in
     case r of
       [] \<Rightarrow> Some (ip, ell, [])
     | [c] \<Rightarrow> None
     | c # d # r' \<Rightarrow>
         if d = CHR '':'' then
           if ell \<noteq> None then None
           else if r' = [] then Some (ip, Some (length ip), [])
           else groupLoop ip (Some (length ip)) r'
         else groupLoop ip ell (d # r'))"
proof -
  have h: "hexGroup 0 0 (print_hex g @ r) = Some (g, length (print_hex g), r)"
    using assms(3) digit_val_sep by (intro hexGroup_print [OF assms(2)]) auto
  have "\<not> (r \<noteq> [] \<and> hd r = CHR ''.'')" using assms(3) by auto
  then show ?thesis
    using assms(1,3) by (subst groupLoop.simps) (auto simp: h Let_def split: list.splits)
qed

lemma joinHex_Cons: "gs \<noteq> [] \<Longrightarrow> joinHex (g # gs) = print_hex g @ CHR '':'' # joinHex gs"
  by (cases gs) auto

lemma joinHex_start:
  assumes "gs \<noteq> []"
  obtains c r where "joinHex gs = c # r" "c \<noteq> CHR '':''"
proof -
  obtain g gs' where "gs = g # gs'" using assms by (cases gs) auto
  moreover obtain c r where c: "print_hex g = c # r" using print_hex_not_Nil [of g] by (cases "print_hex g") auto
  moreover have "c \<noteq> CHR '':''" using print_hex_digits [of c g] digit_char_not_sep c by fastforce
  ultimately show thesis using that by (cases gs') auto
qed

lemma groupLoop_joinHex:
  "gs \<noteq> [] \<Longrightarrow> \<forall>g\<in>set gs. g < 65536 \<Longrightarrow> length ip + 2 * length gs \<le> 16 \<Longrightarrow>
    groupLoop ip ell (joinHex gs) = Some (ip @ group_bytes gs, ell, [])"
proof (induction gs arbitrary: ip)
  case (Cons g gs)
  show ?case
  proof (cases "gs = []")
    case True
    then show ?thesis using groupLoop_group [of ip g "[]" ell] Cons.prems by simp
  next
    case False
    obtain c r where cr: "joinHex gs = c # r" "c \<noteq> CHR '':''" using joinHex_start [OF False] .
    have "groupLoop ip ell (joinHex (g # gs)) =
        groupLoop (ip @ [of_nat (g div 256), of_nat g]) ell (joinHex gs)"
      using groupLoop_group [of ip g "CHR '':'' # joinHex gs" ell] Cons.prems cr False
      by (simp add: joinHex_Cons)
    then show ?thesis using Cons.IH [OF False] Cons.prems by simp
  qed
qed simp

lemma groupLoop_ellipsis:
  "gs \<noteq> [] \<Longrightarrow> \<forall>g\<in>set gs. g < 65536 \<Longrightarrow> length ip + 2 * length gs \<le> 16 \<Longrightarrow>
    groupLoop ip None (joinHex gs @ ''::'' @ t) =
      (if t = [] then Some (ip @ group_bytes gs, Some (length ip + 2 * length gs), [])
       else groupLoop (ip @ group_bytes gs) (Some (length ip + 2 * length gs)) t)"
proof (induction gs arbitrary: ip)
  case (Cons g gs)
  show ?case
  proof (cases "gs = []")
    case True
    then show ?thesis using groupLoop_group [of ip g "''::'' @ t" None] Cons.prems by simp
  next
    case False
    obtain c r where cr: "joinHex gs = c # r" "c \<noteq> CHR '':''" using joinHex_start [OF False] .
    have "groupLoop ip None (joinHex (g # gs) @ ''::'' @ t) =
        groupLoop (ip @ [of_nat (g div 256), of_nat g]) None (joinHex gs @ ''::'' @ t)"
      using groupLoop_group [of ip g "CHR '':'' # joinHex gs @ ''::'' @ t" None] Cons.prems cr False
      by (simp add: joinHex_Cons)
    then show ?thesis using Cons.IH [OF False] Cons.prems by simp
  qed
qed simp

text \<open>The run chosen for the ellipsis consists of zeros and has at least two of them.\<close>

lemma takeWhile_zeros: "takeWhile (\<lambda>g. g = (0 :: nat)) gs = replicate (zeroRun gs) 0"
  by (induction gs) (auto simp: zeroRun_def)

lemma zeroRun_le: "zeroRun gs \<le> length gs"
  unfolding zeroRun_def by (rule length_takeWhile_le)

lemma longestRun_zeros:
  assumes "longestRun gs = Some (s, e)"
  shows "s + 2 \<le> e" "e \<le> length gs" "gs = take s gs @ replicate (e - s) 0 @ drop e gs"
proof -
  let ?ok = "\<lambda>b. case b of None \<Rightarrow> True | Some (s, e) \<Rightarrow>
    s + 2 \<le> e \<and> e \<le> length gs \<and> gs = take s gs @ replicate (e - s) 0 @ drop e gs"
  let ?f = "\<lambda>i best. let l = zeroRun (drop i gs); b = (case best of None \<Rightarrow> 0 | Some (s, e) \<Rightarrow> e - s) in
    if 2 \<le> l \<and> b < l then Some (i, i + l) else best"
  have run: "gs = take i gs @ replicate (zeroRun (drop i gs)) 0 @ drop (i + zeroRun (drop i gs)) gs" for i
  proof -
    let ?z = "zeroRun (drop i gs)"
    have "drop i gs = takeWhile (\<lambda>g. g = 0) (drop i gs) @ drop ?z (drop i gs)"
      unfolding zeroRun_def by (metis append_take_drop_id takeWhile_eq_take)
    then have "drop i gs = replicate ?z 0 @ drop (i + ?z) gs"
      by (simp add: takeWhile_zeros add.commute)
    then show ?thesis by (metis append_take_drop_id)
  qed
  have "i < length gs \<Longrightarrow> ?ok b \<Longrightarrow> ?ok (?f i b)" for i b
    using run [of i] zeroRun_le [of "drop i gs"] by (auto simp: Let_def)
  then have "(\<forall>i\<in>set is. i < length gs) \<Longrightarrow> ?ok b \<Longrightarrow> ?ok (fold ?f is b)" for "is" b
    by (induction "is" arbitrary: b) (auto simp del: Let_def)
  from this [of "[0..<length gs]" None] assms
  have "?ok (Some (s, e))" unfolding longestRun_def by simp
  then show "s + 2 \<le> e" "e \<le> length gs" "gs = take s gs @ replicate (e - s) 0 @ drop e gs" by auto
qed

lemma parseIPv6_joinHex:
  assumes "\<forall>g\<in>set gs. g < 65536" "length gs = 8"
  shows "parseIPv6 (joinHex gs) = Some (group_bytes gs)"
proof -
  have "gs \<noteq> []" using assms(2) by auto
  then obtain c r where "joinHex gs = c # r" "c \<noteq> CHR '':''" using joinHex_start by metis
  then have "take 2 (joinHex gs) \<noteq> ''::''" by (auto simp: numeral_2_eq_2)
  with groupLoop_joinHex [OF \<open>gs \<noteq> []\<close> assms(1), of "[]" None] assms(2) show ?thesis
    by (simp add: parseIPv6_def expandEllipsis_def)
qed

lemma parseIPv6_compressed:
  assumes "\<forall>g\<in>set gs. g < 65536" "\<forall>g\<in>set hs. g < 65536" "length gs + length hs + 1 \<le> 8"
  shows "parseIPv6 (joinHex gs @ ''::'' @ joinHex hs) =
    Some (group_bytes (gs @ replicate (8 - length gs - length hs) 0 @ hs))"
proof -
  have tail: "groupLoop ip (Some e) (joinHex hs) = Some (ip @ group_bytes hs, Some e, [])"
    if "hs \<noteq> []" "length ip + 2 * length hs \<le> 16" for ip e
    using groupLoop_joinHex [OF that(1) assms(2) that(2)] .
  have J: "joinHex hs = [] \<longleftrightarrow> hs = []" by (cases hs rule: joinHex.cases) auto
  have m: "16 - (2 * length gs + 2 * length hs) = 2 * (8 - length gs - length hs)" by simp
  show ?thesis
  proof (cases "gs = []")
    case True
    show ?thesis
    proof (cases "hs = []")
      case True
      with \<open>gs = []\<close> show ?thesis using group_bytes_replicate [of 8] by (simp add: parseIPv6_def)
    next
      case False
      then show ?thesis using True J tail [OF False, of "[]" 0] assms(3) m
        by (simp add: parseIPv6_def expandEllipsis_def group_bytes_replicate)
    qed
  next
    case False
    then obtain c r where cr: "joinHex gs = c # r" "c \<noteq> CHR '':''" using joinHex_start by metis
    then have t: "take 2 (joinHex gs @ ''::'' @ joinHex hs) \<noteq> ''::''" by (auto simp: numeral_2_eq_2)
    have "groupLoop [] None (joinHex gs @ ''::'' @ joinHex hs) =
        Some (group_bytes gs @ group_bytes hs, Some (2 * length gs), [])"
      using groupLoop_ellipsis [OF False assms(1), of "[]" "joinHex hs"] assms(3) J
        tail [of "group_bytes gs" "2 * length gs"] by (cases "hs = []") simp_all
    with t show ?thesis using assms(3) m
      unfolding parseIPv6_def by (simp add: expandEllipsis_def group_bytes_replicate)
  qed
qed

lemma parse_print_IPv6:
  assumes "length ip = 16"
  shows "parseIPv6 (print_IPv6 ip) = Some ip"
proof -
  let ?gs = "groups ip"
  have l: "length ?gs = 8" by (simp add: groups_def)
  have b: "\<forall>g\<in>set ?gs. g < 65536" using groups_bound by blast
  show ?thesis
  proof (cases "longestRun ?gs")
    case None
    then show ?thesis using parseIPv6_joinHex [OF b l] group_bytes_groups [OF assms]
      by (simp add: print_IPv6_def)
  next
    case (Some se)
    then obtain s e where se: "longestRun ?gs = Some (s, e)" by (cases se) auto
    note r = longestRun_zeros [OF se]
    have "8 - length (take s ?gs) - length (drop e ?gs) = e - s" using r(1,2) l by simp
    moreover have "\<forall>g\<in>set (take s ?gs). g < 65536" "\<forall>g\<in>set (drop e ?gs). g < 65536"
      using b by (auto dest: in_set_takeD in_set_dropD)
    ultimately have "parseIPv6 (joinHex (take s ?gs) @ ''::'' @ joinHex (drop e ?gs)) = Some (group_bytes ?gs)"
      using parseIPv6_compressed [of "take s ?gs" "drop e ?gs"] r l by simp
    then show ?thesis using group_bytes_groups [OF assms] se by (simp add: print_IPv6_def Let_def)
  qed
qed

section \<open>Addresses\<close>

definition seps :: "char set" where
  "seps = {CHR ''.'', CHR '':'', CHR 0x25}"

lemma firstSep_skip: "set xs \<inter> seps = {} \<Longrightarrow> c \<in> seps \<Longrightarrow> firstSep (xs @ c # r) = Some c"
  by (induction xs) (auto simp: seps_def)

lemma firstSep_only:
  assumes "c \<in> set xs" "set xs \<inter> seps = {c}"
  shows "firstSep xs = Some c"
proof -
  obtain ys zs where xs: "xs = ys @ c # zs" "c \<notin> set ys" using split_list_first [OF assms(1)] by blast
  have "set ys \<inter> seps = {}" using xs assms(2) by auto
  with xs(1) assms(2) show ?thesis using firstSep_skip by blast
qed

lemma joinHex_chars: "c \<in> set (joinHex gs) \<Longrightarrow> c = CHR '':'' \<or> (\<exists>d<16. c = digit_char d)"
  by (induction gs rule: joinHex.induct) (auto dest: print_hex_digits)

lemma hex_chars_seps:
  assumes "\<forall>c\<in>set xs. c = CHR '':'' \<or> (\<exists>d<16. c = digit_char d)"
  shows "set xs \<inter> seps \<subseteq> {CHR '':''}" "CHR ''/'' \<notin> set xs"
  using assms digit_char_not_sep by (fastforce simp: seps_def)+

lemma print_IPv4_seps:
  assumes "length ip = 4"
  shows "firstSep (print_IPv4 ip) = Some (CHR ''.'')" "CHR ''/'' \<notin> set (print_IPv4 ip)"
proof -
  obtain a b c d where ip: "ip = [a, b, c, d]"
    using assms by (auto simp: numeral_eq_Suc length_Suc_conv)
  have n: "set (print_nat n) \<inter> insert (CHR ''/'') seps = {}" for n
  proof -
    have "c \<notin> insert (CHR ''/'') seps" if "c \<in> set (print_nat n)" for c
    proof -
      obtain d where "d < 10" "c = digit_char d" using print_nat_digits [OF \<open>c \<in> set (print_nat n)\<close>] by blast
      then show ?thesis using digit_char_not_sep [of d] by (simp add: seps_def)
    qed
    then show ?thesis by blast
  qed
  then have "firstSep (print_nat (unat a) @ CHR ''.'' # r) = Some (CHR ''.'')" for r
    by (intro firstSep_skip) (auto simp: seps_def)
  then show "firstSep (print_IPv4 ip) = Some (CHR ''.'')" unfolding ip print_IPv4_4 append_Cons append_Nil by blast
  show "CHR ''/'' \<notin> set (print_IPv4 ip)" unfolding ip print_IPv4_4 using n by auto
qed

lemma print_IPv6_seps:
  assumes "length ip = 16"
  shows "firstSep (print_IPv6 ip) = Some (CHR '':'')" "CHR ''/'' \<notin> set (print_IPv6 ip)"
proof -
  have l: "length (groups ip) = 8" by (simp add: groups_def)
  have c: "\<forall>c\<in>set (print_IPv6 ip). c = CHR '':'' \<or> (\<exists>d<16. c = digit_char d)"
    by (auto simp: print_IPv6_def Let_def dest: joinHex_chars split: option.splits)
  obtain g h gs where "groups ip = g # h # gs" using l by (auto simp: numeral_eq_Suc length_Suc_conv)
  then have "CHR '':'' \<in> set (joinHex (groups ip))" by simp
  then have i: "CHR '':'' \<in> set (print_IPv6 ip)"
    by (auto simp: print_IPv6_def Let_def split: option.splits)
  then have "set (print_IPv6 ip) \<inter> seps = {CHR '':''}"
    using hex_chars_seps(1) [OF c] by (auto simp: seps_def)
  then show "firstSep (print_IPv6 ip) = Some (CHR '':'')" by (rule firstSep_only [OF i])
  show "CHR ''/'' \<notin> set (print_IPv6 ip)" by (rule hex_chars_seps(2) [OF c])
qed

lemma To4_shape:
  assumes "length ip \<in> {IPv4len, IPv6len}" "To4 ip \<noteq> []"
  shows "length (To4 ip) = 4" "To16 (To4 ip) = To16 ip"
proof -
  show "length (To4 ip) = 4" using assms by (auto simp: To4_def split: if_splits)
  show "To16 (To4 ip) = To16 ip" using assms
    by (auto simp: To4_def To16_def split: if_splits) (metis append_take_drop_id)
qed

theorem ParseIP_IP_String:
  assumes "length ip \<in> {IPv4len, IPv6len}"
  shows "ParseIP (IP_String ip) = Some (To16 ip)"
proof (cases "To4 ip = []")
  case False
  note t = To4_shape [OF assms False]
  have "IP_String ip = print_IPv4 (To4 ip)" using assms False by (auto simp: IP_String_def)
  then show ?thesis
    using parse_print_IPv4 [OF t(1)] print_IPv4_seps(1) [OF t(1)] t(2) by (simp add: ParseIP_def del: firstSep.simps)
next
  case True
  then have l: "length ip = 16" using assms by (auto simp: To4_def)
  then have "IP_String ip = print_IPv6 ip" using True by (auto simp: IP_String_def)
  then show ?thesis
    using parse_print_IPv6 [OF l] print_IPv6_seps(1) [OF l] l
    by (simp add: ParseIP_def To16_def del: firstSep.simps)
qed

section \<open>Networks\<close>

lemma maskByte_cases: "n < 9 \<Longrightarrow> byteLength (maskByte n) = Some n"
proof -
  assume "n < 9"
  then have "n \<in> {0, 1, 2, 3, 4, 5, 6, 7, 8}" by (simp add: insert_iff) arith
  then show "byteLength (maskByte n) = Some n" by (auto simp: maskByte_def upt_rec)
qed

lemma maskByte_less: "n < 8 \<Longrightarrow> maskByte n \<noteq> 0xff"
  using maskByte_cases [of n] maskByte_cases [of 8] by (auto simp: maskByte_def simp del: byteLength.simps)

lemma simpleMaskLength_cidr: "n \<le> 8 * L \<Longrightarrow> simpleMaskLength (cidr_bytes n L) = Some n"
proof (induction L arbitrary: n)
  case 0
  then show ?case by (simp add: cidr_bytes_def)
next
  case (Suc L)
  show ?case
  proof (cases "n < 8")
    case True
    then have "list_all (\<lambda>x. x = 0) (cidr_bytes (n - 8) L)" by (simp add: cidr_bytes_0 list_all_iff)
    with True show ?thesis
      using maskByte_less [OF True] maskByte_cases [of n] by (simp add: cidr_bytes_Suc del: byteLength.simps)
  next
    case False
    then show ?thesis using Suc.IH [of "n - 8"] Suc.prems
      by (simp add: cidr_bytes_Suc min_def) (simp add: maskByte_def)
  qed
qed

lemma readDec_print: "n < 0xFFFFFF \<Longrightarrow> readDec 0 (print_nat n @ r) = readDec n r"
proof (induction n arbitrary: r rule: print_nat.induct)
  case (1 n)
  show ?case
  proof (cases "n < 10")
    case True
    then show ?thesis using is_digit_char [of n] by (simp add: print_nat.simps [of n])
  next
    case False
    have "n mod 10 < 10" "n div 10 * 10 + n mod 10 = n" by simp_all
    with 1 False show ?thesis
      using is_digit_char [of "n mod 10"] by (subst print_nat.simps) (simp del: mod_less_divisor)
  qed
qed

text \<open>A network as \<^verbatim>\<open>net.ParseCIDR\<close> returns it: a prefix mask of its own family, the host bits clear.\<close>

definition canonical_net :: "IPNet \<Rightarrow> bool" where
  "canonical_net n \<longleftrightarrow> (\<exists>k L. L \<in> {IPv4len, IPv6len} \<and> k \<le> 8 * L \<and> length (IP n) = L \<and>
     Mask n = cidr_bytes k L \<and> map2 (AND) (IP n) (Mask n) = IP n \<and> (L = IPv6len \<longrightarrow> To4 (IP n) = []))"

lemma networkNumber_canonical:
  assumes "canonical_net n"
  shows "networkNumberAndMask n = (IP n, Mask n)"
  using assms
  by (auto simp: canonical_net_def networkNumberAndMask_def To4_def v4InV6Prefix_def Let_def split: if_splits)

lemma take_dropWhile_sep:
  assumes "c \<notin> set xs"
  shows "takeWhile (\<lambda>x. x \<noteq> c) (xs @ c # r) = xs" "dropWhile (\<lambda>x. x \<noteq> c) (xs @ c # r) = c # r"
  using assms by (induction xs) auto

lemma IP_String_seps:
  assumes "length ip \<in> {IPv4len, IPv6len}"
  shows "firstSep (IP_String ip) = Some (if To4 ip \<noteq> [] then CHR ''.'' else CHR '':'')"
    "CHR ''/'' \<notin> set (IP_String ip)"
proof -
  have "ip \<noteq> []" using assms by auto
  then have e: "IP_String ip = (if To4 ip \<noteq> [] then print_IPv4 (To4 ip) else print_IPv6 ip)"
    using assms by (auto simp: IP_String_def)
  have "To4 ip = [] \<Longrightarrow> length ip = 16" using assms by (auto simp: To4_def)
  then show "firstSep (IP_String ip) = Some (if To4 ip \<noteq> [] then CHR ''.'' else CHR '':'')"
    "CHR ''/'' \<notin> set (IP_String ip)"
    unfolding e using print_IPv4_seps [OF To4_shape(1) [OF assms]] print_IPv6_seps [of ip]
    by (auto simp del: firstSep.simps)
qed

text \<open>The text of an address with a prefix length parses to the address and the network it lies in.\<close>

lemma ParseCIDR_host:
  assumes "length ip = L" "L \<in> {IPv4len, IPv6len}" "k \<le> 8 * L" "L = IPv6len \<Longrightarrow> To4 ip = []"
  shows "ParseCIDR (IPNet_String \<lparr>IP = ip, Mask = cidr_bytes k L\<rparr>) =
    Some (To16 ip, \<lparr>IP = map2 (AND) ip (cidr_bytes k L), Mask = cidr_bytes k L\<rparr>)"
proof -
  let ?n = "\<lparr>IP = ip, Mask = cidr_bytes k L\<rparr>"
  have l: "length ip \<in> {IPv4len, IPv6len}" using assms(1,2) by simp
  have ne: "ip \<noteq> []" "cidr_bytes k L \<noteq> []" using assms(1,2) by (auto simp flip: length_0_conv)
  have t: "To4 ip \<noteq> [] \<longleftrightarrow> L = IPv4len" using assms ne(1) by (auto simp: To4_def)
  have "To4 ip = (if L = IPv4len then ip else [])" using assms by (auto simp: To4_def)
  then have "networkNumberAndMask ?n = (ip, cidr_bytes k L)"
    using assms(1,2) ne(1) by (auto simp: networkNumberAndMask_def)
  then have str: "IPNet_String ?n = IP_String ip @ CHR ''/'' # print_nat k"
    using ne simpleMaskLength_cidr [OF assms(3)] by (simp add: IPNet_String_def)
  note sep = IP_String_seps [OF l]
  have iplen: "(if firstSep (IP_String ip) = Some (CHR ''.'') then IPv4len else IPv6len) = L"
    using sep(1) t assms(2) by (auto simp del: firstSep.simps)
  have dec: "readDec 0 (print_nat k) = Some k"
    using readDec_print [of k "[]"] assms(2,3) by auto
  have m: "CIDRMask (int k) (int (8 * L)) = cidr_bytes k L"
    using CIDRMask_cidr_bytes [of "int (8 * L)" "int k"] assms(2,3) by auto
  have i: "IP_Mask (To16 ip) (cidr_bytes k L) = map2 (AND) ip (cidr_bytes k L)"
    using assms(1,2) by (auto simp: IP_Mask_def To16_def v4InV6Prefix_def)
  show ?thesis
    unfolding ParseCIDR_def str Let_def take_dropWhile_sep [OF sep(2)] ParseIP_IP_String [OF l] iplen
    using assms(3) by (simp add: dec m [simplified] i)
qed

theorem ParseCIDR_IPNet_String:
  assumes "canonical_net n"
  shows "ParseCIDR (IPNet_String n) = Some (To16 (IP n), n)"
proof -
  obtain k L where L: "L \<in> {IPv4len, IPv6len}" "k \<le> 8 * L" "length (IP n) = L" "Mask n = cidr_bytes k L"
    "map2 (AND) (IP n) (Mask n) = IP n" "L = IPv6len \<longrightarrow> To4 (IP n) = []"
    using assms by (auto simp: canonical_net_def)
  then have "n = \<lparr>IP = IP n, Mask = cidr_bytes k L\<rparr>" by simp
  then show ?thesis using ParseCIDR_host [OF L(3,1,2)] L(4-6) by metis
qed

end
