(* ===== verification/NSM_Api.thy ===== *)
theory NSM_Api
  imports NSM_Prelude
begin

text \<open>
  The messages of the Network Service Mesh API the chain elements pass on (generated protobuf types of
  the \<^verbatim>\<open>api\<close> module, so plain data here): connections with their path and context, requests, and the
  results of a chain call. A chain element calls the rest of its chain through \<^verbatim>\<open>next.Server(ctx)\<close>; in
  the model the rest of the chain is an argument, a function from the request and the state of the
  rest of the world to a result and a new state. A nil dereference or an index out of range ends the
  call with \<open>Panic\<close>; every returned error is an \<open>Err\<close> with the gist of its message.
\<close>

datatype nsm_error = Err string | Panic

text \<open>
  A segment of a path: who passed the connection on, the token for it, when that expires (a time in nanoseconds,
  nil if not set), and what was measured there.
\<close>

record PathSegment =
  seg_name :: string
  seg_id :: string
  seg_Token :: string
  seg_Expires :: "int option"
  seg_Metrics :: "string \<rightharpoonup> string"

abbreviation new_segment :: "string \<Rightarrow> string \<Rightarrow> PathSegment" where
  "new_segment name i \<equiv> \<lparr>seg_name = name, seg_id = i, seg_Token = [], seg_Expires = None, seg_Metrics = Map.empty\<rparr>"

record Path =
  Index :: u32
  PathSegments :: "PathSegment list"

record Route =
  Prefix :: string
  NextHop :: string

record IPContext =
  SrcIpAddrs :: "string list"
  DstIpAddrs :: "string list"
  SrcRoutes :: "Route list"
  DstRoutes :: "Route list"
  ExcludedPrefixes :: "string list"

record DNSConfig =
  DnsServerIps :: "string list"
  SearchDomains :: "string list"

text \<open>
  The DNS context is the list of its configurations. Ethernet contexts are passed on as they are, so their
  content stays opaque.
\<close>

record ConnectionContext =
  IpContext :: "IPContext option"
  EthernetContext :: "string option"
  DnsContext :: "DNSConfig list option"
  MTU :: u32
  ExtraContext :: "(string \<times> string) list"

text \<open>A mechanism: local or remote, its type and its parameters (a map, which may be nil).\<close>

record Mechanism =
  Cls :: string
  mech_Type :: string
  Parameters :: "(string \<times> string) list option"

datatype conn_state = UP | DOWN | REFRESH_REQUESTED | RESELECT_REQUESTED

record Connection =
  Id :: string
  NetworkService :: string
  NetworkServiceEndpointName :: string
  Labels :: "(string \<times> string) list"
  conn_path :: "Path option"
  Context :: "ConnectionContext option"
  Mechanism :: "Mechanism option"
  State :: conn_state
  conn_Payload :: string

record NetworkServiceRequest =
  req_connection :: "Connection option"
  MechanismPreferences :: "Mechanism list"

text \<open>The empty messages, \<^verbatim>\<open>&networkservice.Connection{}\<close> and its like.\<close>

definition empty_ip_context :: IPContext where
  "empty_ip_context = \<lparr>SrcIpAddrs = [], DstIpAddrs = [], SrcRoutes = [], DstRoutes = [], ExcludedPrefixes = []\<rparr>"

definition empty_connection :: Connection where
  "empty_connection = \<lparr>Id = [], NetworkService = [], NetworkServiceEndpointName = [], Labels = [],
     conn_path = None, Context = None, Mechanism = None, State = UP, conn_Payload = []\<rparr>"

definition empty_context :: ConnectionContext where
  "empty_context = \<lparr>IpContext = None, EthernetContext = None, DnsContext = None, MTU = 0, ExtraContext = []\<rparr>"

text \<open>What the getters read from a request without a connection.\<close>

definition conn_of :: "NetworkServiceRequest \<Rightarrow> Connection" where
  "conn_of request = (case req_connection request of None \<Rightarrow> empty_connection | Some c \<Rightarrow> c)"

type_synonym 's request_chain = "NetworkServiceRequest \<Rightarrow> 's \<Rightarrow> (nsm_error + Connection) \<times> 's"
type_synonym 's close_chain = "Connection \<Rightarrow> 's \<Rightarrow> (nsm_error + unit) \<times> 's"

section \<open>32-bit indices\<close>

lemma unat_u32_less: "unat (x :: u32) < 4294967296"
  using unsigned_less [of x] by simp

lemma unat_u32_Suc: "Suc (unat (x :: u32)) < 4294967296 \<Longrightarrow> unat (x + 1) = Suc (unat x)"
  by (simp add: unat_word_ariths)

end
