(* ===== verification/Update_Path.thy ===== *)
theory Update_Path
  imports NSM_Api
begin

text \<open>
  The path of a connection (\<^verbatim>\<open>src/pkg/networkservice/common/updatepath\<close> and \<^verbatim>\<open>trimpath\<close>): every server and
  client a request passes through moves the path's index one segment on, and gives the connection the
  id of that segment. \<^verbatim>\<open>uuid.New\<close> is an argument: the identifier it would return. One call of
  \<^verbatim>\<open>updatePath\<close> asks for at most one.
\<close>

section \<open>Definitions\<close>

definition updatePath :: "Connection option \<Rightarrow> string \<Rightarrow> string \<Rightarrow> nsm_error + Connection \<times> u32" where
  "updatePath conn segmentName uuid =
     (case conn of
        None \<Rightarrow> Inl (Err ''nil conn'')
      | Some conn \<Rightarrow>
          (let path = (case conn_path conn of None \<Rightarrow> \<lparr>Index = 0, PathSegments = []\<rparr> | Some p \<Rightarrow> p);
               segs = PathSegments path;
               i = unat (Index path);
               nextIndex = i + 1
           in
           if segs = [] then
             let id = (if Id conn = [] then uuid else Id conn) in
             Inr (conn\<lparr>Id := id,
                    conn_path := Some (path\<lparr>Index := 0,
                      PathSegments := [new_segment segmentName id]\<rparr>)\<rparr>, 0)
           else if i < length segs \<and> seg_name (segs ! i) = segmentName then
             Inr (conn\<lparr>Id := seg_id (segs ! i), conn_path := Some path\<rparr>, Index path)
           else if nextIndex > length segs then Inl (Err ''path index'')
           else if seg_id (segs ! i) \<noteq> Id conn then Inl (Err ''segment id'')
           else
             let segs = (if nextIndex < length segs \<and> seg_name (segs ! nextIndex) \<noteq> segmentName
                         then segs[nextIndex := (segs ! nextIndex)\<lparr>seg_name := segmentName, seg_id := uuid\<rparr>]
                         else segs);
                 ix = Index path + 1
             in if unat ix \<ge> length segs
                then Inr (conn\<lparr>Id := uuid,
                       conn_path := Some (path\<lparr>Index := ix,
                         PathSegments := segs @ [new_segment segmentName uuid]\<rparr>)\<rparr>, ix - 1)
                else Inr (conn\<lparr>Id := seg_id (segs ! unat ix),
                       conn_path := Some (path\<lparr>Index := ix, PathSegments := segs\<rparr>)\<rparr>, ix - 1)))"

text \<open>After the rest of the chain: \<^verbatim>\<open>conn.Id = conn.Path.PathSegments[index].Id; conn.Path.Index = index\<close>.\<close>

definition restoreIndex :: "u32 \<Rightarrow> Connection \<Rightarrow> nsm_error + Connection" where
  "restoreIndex index conn =
     (case conn_path conn of
        None \<Rightarrow> Inl Panic
      | Some p \<Rightarrow>
          if unat index < length (PathSegments p)
          then Inr (conn\<lparr>Id := seg_id (PathSegments p ! unat index), conn_path := Some (p\<lparr>Index := index\<rparr>)\<rparr>)
          else Inl Panic)"

definition updatePathServer_Request ::
  "string \<Rightarrow> string \<Rightarrow> 's request_chain \<Rightarrow> 's request_chain" where
  "updatePathServer_Request name uuid nxt request s =
     (let c = (case req_connection request of None \<Rightarrow> empty_connection | Some c \<Rightarrow> c) in
      case updatePath (Some c) name uuid of
        Inl e \<Rightarrow> (Inl e, s)
      | Inr (c, index) \<Rightarrow>
          (case nxt (request\<lparr>req_connection := Some c\<rparr>) s of
             (Inl e, s) \<Rightarrow> (Inl e, s)
           | (Inr conn, s) \<Rightarrow> (restoreIndex index conn, s)))"

definition updatePathServer_Close ::
  "string \<Rightarrow> string \<Rightarrow> 's close_chain \<Rightarrow> Connection option \<Rightarrow> 's \<Rightarrow> (nsm_error + unit) \<times> 's" where
  "updatePathServer_Close name uuid nxt conn s =
     (case updatePath conn name uuid of Inl e \<Rightarrow> (Inl e, s) | Inr (c, _) \<Rightarrow> nxt c s)"

text \<open>The client side has the same bodies over \<^verbatim>\<open>next.Client\<close>.\<close>

definition updatePathClient_Request ::
  "string \<Rightarrow> string \<Rightarrow> 's request_chain \<Rightarrow> 's request_chain" where
  "updatePathClient_Request name uuid nxt request s =
     (let c = (case req_connection request of None \<Rightarrow> empty_connection | Some c \<Rightarrow> c) in
      case updatePath (Some c) name uuid of
        Inl e \<Rightarrow> (Inl e, s)
      | Inr (c, index) \<Rightarrow>
          (case nxt (request\<lparr>req_connection := Some c\<rparr>) s of
             (Inl e, s) \<Rightarrow> (Inl e, s)
           | (Inr conn, s) \<Rightarrow> (restoreIndex index conn, s)))"

definition updatePathClient_Close ::
  "string \<Rightarrow> string \<Rightarrow> 's close_chain \<Rightarrow> Connection option \<Rightarrow> 's \<Rightarrow> (nsm_error + unit) \<times> 's" where
  "updatePathClient_Close name uuid nxt conn s =
     (case updatePath conn name uuid of Inl e \<Rightarrow> (Inl e, s) | Inr (c, _) \<Rightarrow> nxt c s)"

text \<open>
  \<^verbatim>\<open>trimpath\<close>: the server cuts the path after its own segment, unless a trimpath client ran below it in the
  same chain. The flag of the connection's metadata is the part of the state the lens reads and
  writes.
\<close>

definition trimpathServer_Request ::
  "('s \<Rightarrow> bool) \<Rightarrow> (bool \<Rightarrow> 's \<Rightarrow> 's) \<Rightarrow> 's request_chain \<Rightarrow> 's request_chain" where
  "trimpathServer_Request flag set_flag nxt request s =
     (case nxt request s of
        (Inl e, s) \<Rightarrow> (Inl e, s)
      | (Inr conn, s) \<Rightarrow>
          if flag s then (Inr conn, set_flag False s)
          else (case conn_path conn of
                  None \<Rightarrow> (Inl Panic, set_flag False s)
                | Some p \<Rightarrow>
                    let n = unat (Index p + 1) in
                    if length (PathSegments p) < n then (Inl Panic, set_flag False s)
                    else (Inr (conn\<lparr>conn_path := Some (p\<lparr>PathSegments := take n (PathSegments p)\<rparr>)\<rparr>),
                          set_flag False s)))"

definition trimpathClient_Request ::
  "(bool \<Rightarrow> 's \<Rightarrow> 's) \<Rightarrow> 's request_chain \<Rightarrow> 's request_chain" where
  "trimpathClient_Request set_flag nxt request s =
     (case nxt request s of
        (Inl e, s) \<Rightarrow> (Inl e, s)
      | (Inr conn, s) \<Rightarrow> (Inr conn, set_flag True s))"

end
