(* ===== verification/Registry_Api.thy ===== *)
theory Registry_Api
  imports NSM_Api
begin

text \<open>
  The messages of the registry API (generated protobuf types of the \<^verbatim>\<open>api\<close> module): network services with
  their matches, endpoints with their labels, queries and the events a watcher receives. Go maps from
  strings are association lists with distinct keys in ascending order, so that equal maps are equal
  lists; a nil map or slice is told apart from an empty one only where the code does so, by an option.
  A timestamp counts nanoseconds.
\<close>

type_synonym labels = "(string \<times> string) list"

definition lbl :: "labels \<Rightarrow> string \<Rightarrow> string" where
  "lbl m k = (case map_of m k of None \<Rightarrow> [] | Some v \<Rightarrow> v)"

record Destination =
  DestinationSelector :: labels

record Match =
  SourceSelector :: labels
  Routes :: "Destination list"
  Fallthrough :: bool
  Metadata :: "labels option"

record NetworkServiceMsg =
  ns_name :: string
  Payload :: string
  Matches :: "Match list"
  ns_PathIds :: "string list"

record NetworkServiceEndpoint =
  nse_name :: string
  NetworkServiceNames :: "string list option"
  NetworkServiceLabels :: "(string \<times> labels) list option"
  Url :: string
  ExpirationTime :: "int option"
  nse_PathIds :: "string list"

record NSEQuery =
  q_nse :: NetworkServiceEndpoint
  Watch :: bool

record NSEResponse =
  r_nse :: NetworkServiceEndpoint
  Deleted :: bool

definition ts_seconds :: "int \<Rightarrow> int" where
  "ts_seconds t = t div 1000000000"

text \<open>The labels an endpoint declares for a network service; none if it declares none.\<close>

definition labels_of :: "(string \<times> labels) list option \<Rightarrow> string \<Rightarrow> labels" where
  "labels_of m n = (case m of None \<Rightarrow> [] | Some l \<Rightarrow> (case map_of l n of None \<Rightarrow> [] | Some x \<Rightarrow> x))"

end
