(* ===== verification/Registry_Path.thy ===== *)
theory Registry_Path
  imports Registry_Api
begin

text \<open>
  The path of a registration (\<^verbatim>\<open>src/pkg/registry/common/updatepath\<close> and \<^verbatim>\<open>grpcmetadata/path.go\<close>). Every registry
  a registration passes puts two tokens into the path, the peer's into the segment before its own and
  its own into the next, and the identities of the tokens into the path ids of the message.

  The path is a pointer shared with the rest of the chain, so the chain takes it and gives it back. The
  JWT parser and \<^verbatim>\<open>spiffeid.FromString\<close> are arguments, and so are the peer's token of the context (empty
  if there is none) and the outcome of the token generator.
\<close>

section \<open>Paths\<close>

record TokenSegment =
  Token :: string

record RegistryPath =
  rp_Index :: u32
  rp_PathSegments :: "TokenSegment list"

definition GetCurrentPathSegment :: "RegistryPath option \<Rightarrow> TokenSegment option" where
  "GetCurrentPathSegment p =
     (case p of
        None \<Rightarrow> None
      | Some p \<Rightarrow>
          if rp_PathSegments p = [] then None
          else if unat (rp_Index p) \<ge> length (rp_PathSegments p) then None
          else Some (rp_PathSegments p ! unat (rp_Index p)))"

definition registry_updatePath :: "RegistryPath option \<Rightarrow> string \<Rightarrow> string \<Rightarrow> nsm_error + RegistryPath \<times> u32" where
  "registry_updatePath path peerTok tok =
     (case path of
        None \<Rightarrow> Inl (Err ''nil path'')
      | Some path \<Rightarrow>
          if rp_PathSegments path = [] then
            Inr (path\<lparr>rp_PathSegments := [\<lparr>Token = peerTok\<rparr>, \<lparr>Token = tok\<rparr>], rp_Index := 1\<rparr>, 1 - 1)
          else let currentIndex = unat (rp_Index path) + 1 in
            if currentIndex > length (rp_PathSegments path) then Inl (Err ''path index'')
            else (case GetCurrentPathSegment (Some path) of
                None \<Rightarrow> Inl Panic
              | Some prev \<Rightarrow>
                  let i = unat (rp_Index path);
                      path = path\<lparr>rp_Index := rp_Index path + 1,
                        rp_PathSegments := (rp_PathSegments path)[i := prev\<lparr>Token := peerTok\<rparr>]\<rparr>
                  in (case GetCurrentPathSegment (Some path) of
                       None \<Rightarrow>
                         Inr (path\<lparr>rp_PathSegments := rp_PathSegments path @ [\<lparr>Token = tok\<rparr>]\<rparr>, rp_Index path - 1)
                     | Some cur \<Rightarrow>
                         Inr (path\<lparr>rp_PathSegments := (rp_PathSegments path)[unat (rp_Index path) := cur\<lparr>Token := tok\<rparr>]\<rparr>,
                              rp_Index path - 1))))"

section \<open>Identities\<close>

text \<open>A claim of a token's payload: a string, or a value of another type.\<close>

datatype claim = ClaimString string | ClaimOther

record jwt =
  ParseUnverified :: "string \<Rightarrow> (string \<times> claim) list option"
  spiffeid_FromString :: "string \<Rightarrow> nsm_error + string"

definition getIDFromToken :: "jwt \<Rightarrow> string \<Rightarrow> nsm_error + string" where
  "getIDFromToken J tokenString =
     (case ParseUnverified J tokenString of
        None \<Rightarrow> Inl (Err ''jwt'')
      | Some claims \<Rightarrow>
          (case map_of claims ''sub'' of
             None \<Rightarrow> Inl (Err ''no sub'')
           | Some ClaimOther \<Rightarrow> Inl (Err ''sub type'')
           | Some (ClaimString subString) \<Rightarrow> spiffeid_FromString J subString))"

text \<open>An error leaves the zero identity, whose string is empty.\<close>

definition idString :: "jwt \<Rightarrow> string \<Rightarrow> string" where
  "idString J tok = (case getIDFromToken J tok of Inl e \<Rightarrow> [] | Inr i \<Rightarrow> i)"

definition updatePathIds :: "string list \<Rightarrow> nat \<Rightarrow> string \<Rightarrow> string list" where
  "updatePathIds pathIds index i = (if index \<ge> length pathIds then pathIds @ [i] else pathIds[index := i])"

section \<open>The servers\<close>

type_synonym 's nse_register = "NetworkServiceEndpoint \<Rightarrow> RegistryPath \<Rightarrow> 's \<Rightarrow> (nsm_error + NetworkServiceEndpoint) \<times> RegistryPath \<times> 's"
type_synonym 's nse_unregister = "NetworkServiceEndpoint \<Rightarrow> RegistryPath \<Rightarrow> 's \<Rightarrow> (nsm_error + unit) \<times> RegistryPath \<times> 's"
type_synonym 's ns_register = "NetworkServiceMsg \<Rightarrow> RegistryPath \<Rightarrow> 's \<Rightarrow> (nsm_error + NetworkServiceMsg) \<times> RegistryPath \<times> 's"
type_synonym 's ns_unregister = "NetworkServiceMsg \<Rightarrow> RegistryPath \<Rightarrow> 's \<Rightarrow> (nsm_error + unit) \<times> RegistryPath \<times> 's"

text \<open>
  The expiration time of the generated token goes to the rest of the chain in its context. On an error of
  the chain \<^verbatim>\<open>Register\<close> leaves the index where the chain left it; \<^verbatim>\<open>Unregister\<close> always restores it.
\<close>

definition updatePathNSEServer_Register ::
  "jwt \<Rightarrow> string \<Rightarrow> nsm_error + string \<times> int \<Rightarrow> (int \<Rightarrow> 's nse_register) \<Rightarrow> 's nse_register" where
  "updatePathNSEServer_Register J peerTok generated nxt nse path s =
     (case generated of
        Inl e \<Rightarrow> (Inl e, path, s)
      | Inr (tok, expirationTime) \<Rightarrow>
          (case registry_updatePath (Some path) peerTok tok of
             Inl e \<Rightarrow> (Inl e, path, s)
           | Inr (path, index) \<Rightarrow>
               let peerID = idString J peerTok in
               (case getIDFromToken J tok of
                  Inl e \<Rightarrow> (Inl e, path, s)
                | Inr i \<Rightarrow>
                    let ids = updatePathIds (nse_PathIds nse) (unat (rp_Index path - 1)) peerID;
                        ids = updatePathIds ids (unat (rp_Index path)) i
                    in case nxt expirationTime (nse\<lparr>nse_PathIds := ids\<rparr>) path s of
                         (Inl e, path, s) \<Rightarrow> (Inl e, path, s)
                       | (Inr nse, path, s) \<Rightarrow> (Inr nse, path\<lparr>rp_Index := index\<rparr>, s))))"

definition updatePathNSEServer_Unregister ::
  "jwt \<Rightarrow> string \<Rightarrow> nsm_error + string \<times> int \<Rightarrow> 's nse_unregister \<Rightarrow> 's nse_unregister" where
  "updatePathNSEServer_Unregister J peerTok generated nxt nse path s =
     (case generated of
        Inl e \<Rightarrow> (Inl e, path, s)
      | Inr (tok, _) \<Rightarrow>
          (case registry_updatePath (Some path) peerTok tok of
             Inl e \<Rightarrow> (Inl e, path, s)
           | Inr (path, index) \<Rightarrow>
               let peerID = idString J peerTok in
               (case getIDFromToken J tok of
                  Inl e \<Rightarrow> (Inl e, path, s)
                | Inr i \<Rightarrow>
                    let ids = updatePathIds (nse_PathIds nse) (unat (rp_Index path - 1)) peerID;
                        ids = updatePathIds ids (unat (rp_Index path)) i
                    in case nxt (nse\<lparr>nse_PathIds := ids\<rparr>) path s of
                         (resp, path, s) \<Rightarrow> (resp, path\<lparr>rp_Index := index\<rparr>, s))))"

definition updatePathNSServer_Register ::
  "jwt \<Rightarrow> string \<Rightarrow> nsm_error + string \<times> int \<Rightarrow> 's ns_register \<Rightarrow> 's ns_register" where
  "updatePathNSServer_Register J peerTok generated nxt ns path s =
     (case generated of
        Inl e \<Rightarrow> (Inl e, path, s)
      | Inr (tok, _) \<Rightarrow>
          (case registry_updatePath (Some path) peerTok tok of
             Inl e \<Rightarrow> (Inl e, path, s)
           | Inr (path, index) \<Rightarrow>
               let peerID = idString J peerTok in
               (case getIDFromToken J tok of
                  Inl e \<Rightarrow> (Inl e, path, s)
                | Inr i \<Rightarrow>
                    let ids = updatePathIds (ns_PathIds ns) (unat (rp_Index path - 1)) peerID;
                        ids = updatePathIds ids (unat (rp_Index path)) i
                    in case nxt (ns\<lparr>ns_PathIds := ids\<rparr>) path s of
                         (Inl e, path, s) \<Rightarrow> (Inl e, path, s)
                       | (Inr ns, path, s) \<Rightarrow> (Inr ns, path\<lparr>rp_Index := index\<rparr>, s))))"

definition updatePathNSServer_Unregister ::
  "jwt \<Rightarrow> string \<Rightarrow> nsm_error + string \<times> int \<Rightarrow> 's ns_unregister \<Rightarrow> 's ns_unregister" where
  "updatePathNSServer_Unregister J peerTok generated nxt ns path s =
     (case generated of
        Inl e \<Rightarrow> (Inl e, path, s)
      | Inr (tok, _) \<Rightarrow>
          (case registry_updatePath (Some path) peerTok tok of
             Inl e \<Rightarrow> (Inl e, path, s)
           | Inr (path, index) \<Rightarrow>
               let peerID = idString J peerTok in
               (case getIDFromToken J tok of
                  Inl e \<Rightarrow> (Inl e, path, s)
                | Inr i \<Rightarrow>
                    let ids = updatePathIds (ns_PathIds ns) (unat (rp_Index path - 1)) peerID;
                        ids = updatePathIds ids (unat (rp_Index path)) i
                    in case nxt (ns\<lparr>ns_PathIds := ids\<rparr>) path s of
                         (resp, path, s) \<Rightarrow> (resp, path\<lparr>rp_Index := index\<rparr>, s))))"

section \<open>One hop\<close>

abbreviation tokens :: "RegistryPath \<Rightarrow> string list" where
  "tokens p \<equiv> map Token (rp_PathSegments p)"

text \<open>The path ids that belong to a path.\<close>

definition path_ids :: "jwt \<Rightarrow> RegistryPath \<Rightarrow> string list" where
  "path_ids J p = map (idString J) (tokens p)"

lemma list_update_two: "Suc i < length xs \<Longrightarrow> xs[i := a, Suc i := b] = take i xs @ [a, b] @ drop (i + 2) xs"
proof (induction xs arbitrary: i)
  case (Cons x xs)
  then show ?case by (cases i) (auto simp: neq_Nil_conv length_Suc_conv Suc_less_eq2)
qed simp

lemma registry_updatePath_hop:
  assumes "registry_updatePath (Some p) peerTok tok = Inr (p', i)" "length (rp_PathSegments p) < 4294967295"
  shows "unat (rp_Index p') = Suc (unat i)" "rp_Index p' - 1 = i" "unat i \<le> length (rp_PathSegments p)"
    "tokens p' = take (unat i) (tokens p) @ [peerTok, tok] @ drop (unat i + 2) (tokens p)"
proof -
  let ?i = "unat (rp_Index p)" and ?n = "length (rp_PathSegments p)"
  have "unat (rp_Index p') = Suc (unat i) \<and> rp_Index p' - 1 = i \<and> unat i \<le> ?n \<and>
    tokens p' = take (unat i) (tokens p) @ [peerTok, tok] @ drop (unat i + 2) (tokens p)"
  proof (cases "rp_PathSegments p = []")
    case False
    then have le: "Suc ?i \<le> ?n" using assms(1) by (auto simp: registry_updatePath_def Let_def split: if_splits)
    then have u: "unat (rp_Index p + 1) = Suc ?i" by (intro unat_u32_Suc) (use assms(2) in simp)
    have h: "take ?i xs @ [a, b] = (xs[?i := a]) @ [b]" if "length xs = Suc ?i" for xs :: "string list" and a b
      using that by (simp add: upd_conv_take_nth_drop)
    show ?thesis
    proof (cases "Suc ?i = ?n")
      case True
      then show ?thesis using False assms(1) u h [of "tokens p"]
        by (auto simp: registry_updatePath_def Let_def GetCurrentPathSegment_def map_update)
    next
      case lt: False
      show ?thesis using False lt le assms(1) u list_update_two [of ?i "tokens p"]
        by (auto simp: registry_updatePath_def Let_def GetCurrentPathSegment_def map_update)
    qed
  qed (use assms(1) in \<open>auto simp: registry_updatePath_def\<close>)
  then show "unat (rp_Index p') = Suc (unat i)" "rp_Index p' - 1 = i" "unat i \<le> length (rp_PathSegments p)"
    "tokens p' = take (unat i) (tokens p) @ [peerTok, tok] @ drop (unat i + 2) (tokens p)" by blast+
qed

end
