(* ===== verification/Path_Theorems.thy ===== *)
theory Path_Theorems
  imports Update_Path Registry_Path
begin

text \<open>
  What the path elements keep true of a connection: the index stays on a segment, the connection's id
  is that segment's, and a request that walks the same way again finds the same path.
\<close>

section \<open>Reading a connection\<close>

definition segs_of :: "Connection \<Rightarrow> PathSegment list" where
  "segs_of c = (case conn_path c of None \<Rightarrow> [] | Some p \<Rightarrow> PathSegments p)"

definition index_of :: "Connection \<Rightarrow> nat" where
  "index_of c = (case conn_path c of None \<Rightarrow> 0 | Some p \<Rightarrow> unat (Index p))"

text \<open>The index names a segment and the connection has its id.\<close>

definition path_ok :: "Connection \<Rightarrow> bool" where
  "path_ok c \<longleftrightarrow> conn_path c \<noteq> None \<and> index_of c < length (segs_of c) \<and> seg_id (segs_of c ! index_of c) = Id c"

text \<open>The connection moved to another segment of its path.\<close>

definition rewind :: "nat \<Rightarrow> Connection \<Rightarrow> Connection" where
  "rewind i c = (case conn_path c of None \<Rightarrow> c
     | Some p \<Rightarrow> c\<lparr>Id := seg_id (PathSegments p ! i), conn_path := Some (p\<lparr>Index := of_nat i\<rparr>)\<rparr>)"

abbreviation small_path :: "Connection \<Rightarrow> bool" where
  "small_path c \<equiv> length (segs_of c) < 4294967295"

lemma rewind_rewind [simp]: "rewind i (rewind j c) = rewind i c"
  by (auto simp: rewind_def split: option.splits)

lemma segs_of_rewind [simp]: "segs_of (rewind i c) = segs_of c"
  by (auto simp: rewind_def segs_of_def split: option.splits)

lemma index_of_rewind:
  "path_ok c \<Longrightarrow> small_path c \<Longrightarrow> i < length (segs_of c) \<Longrightarrow> index_of (rewind i c) = i"
  by (auto simp: rewind_def segs_of_def index_of_def path_ok_def unsigned_of_nat take_bit_nat_eq_self)

lemma path_ok_rewind:
  "path_ok c \<Longrightarrow> small_path c \<Longrightarrow> i < length (segs_of c) \<Longrightarrow> path_ok (rewind i c)"
  by (auto simp: rewind_def segs_of_def index_of_def path_ok_def unsigned_of_nat take_bit_nat_eq_self)

lemma rewind_self: "path_ok c \<Longrightarrow> rewind (index_of c) c = c"
  by (auto simp: rewind_def segs_of_def index_of_def path_ok_def split: option.splits)

lemma restoreIndex_rewind:
  assumes "conn_path c \<noteq> None" "unat i < length (segs_of c)"
  shows "restoreIndex i c = Inr (rewind (unat i) c)"
  using assms by (auto simp: restoreIndex_def rewind_def segs_of_def)

section \<open>One step\<close>

lemma updatePath_fresh:
  assumes "segs_of c = []" "updatePath (Some c) name u = Inr (c', i)"
  shows "i = 0" "path_ok c'" "index_of c' = 0" "map seg_name (segs_of c') = [name]" "length (segs_of c') = 1"
  using assms by (auto simp: updatePath_def segs_of_def index_of_def path_ok_def Let_def split: option.splits)

lemma updatePath_here:
  assumes "path_ok c" "seg_name (segs_of c ! index_of c) = name"
  shows "updatePath (Some c) name u = Inr (c, of_nat (index_of c))"
proof -
  obtain p where p: "conn_path c = Some p" using assms(1) by (auto simp: path_ok_def)
  have "PathSegments p \<noteq> []" using assms(1) p by (auto simp: path_ok_def segs_of_def)
  moreover have "c\<lparr>Id := Id c, conn_path := Some p\<rparr> = c" using p by simp
  ultimately show ?thesis using assms p
    by (simp add: updatePath_def segs_of_def index_of_def path_ok_def Let_def)
qed

lemma updatePath_along:
  assumes "path_ok c" "small_path c" "seg_name (segs_of c ! index_of c) \<noteq> name"
    "Suc (index_of c) < length (segs_of c)" "seg_name (segs_of c ! Suc (index_of c)) = name"
  shows "updatePath (Some c) name u = Inr (rewind (Suc (index_of c)) c, of_nat (index_of c))"
proof -
  obtain p where p: "conn_path c = Some p" using assms(1) by (auto simp: path_ok_def)
  have "unat (Index p + 1) = Suc (unat (Index p))"
    using assms(2,4) p by (intro unat_u32_Suc) (simp add: segs_of_def index_of_def)
  with assms p show ?thesis
    by (auto simp: updatePath_def segs_of_def index_of_def path_ok_def rewind_def Let_def algebra_simps)
qed

lemma updatePath_extend:
  assumes "path_ok c" "small_path c" "seg_name (segs_of c ! index_of c) \<noteq> name"
    "Suc (index_of c) = length (segs_of c)" "updatePath (Some c) name u = Inr (c', i)"
  shows "i = of_nat (index_of c)" "path_ok c'" "index_of c' = Suc (index_of c)"
    "segs_of c' = segs_of c @ [new_segment name u]"
proof -
  obtain p where p: "conn_path c = Some p" using assms(1) by (auto simp: path_ok_def)
  have "unat (Index p + 1) = Suc (unat (Index p))"
    using assms(2,4) p by (intro unat_u32_Suc) (simp add: segs_of_def index_of_def)
  moreover have "PathSegments p \<noteq> []" using assms(4) p by (auto simp: segs_of_def)
  ultimately have "updatePath (Some c) name u =
      Inr (c\<lparr>Id := u, conn_path := Some (p\<lparr>Index := Index p + 1,
        PathSegments := PathSegments p @ [new_segment name u]\<rparr>)\<rparr>, Index p)"
    and n: "unat (Index p + 1) = length (PathSegments p)"
    using assms(1,3,4) p
    by (simp_all add: updatePath_def segs_of_def index_of_def path_ok_def Let_def)
  with assms(5) have "c' = c\<lparr>Id := u, conn_path := Some (p\<lparr>Index := Index p + 1,
        PathSegments := PathSegments p @ [new_segment name u]\<rparr>)\<rparr>" and i: "i = Index p"
    by auto
  then show "i = of_nat (index_of c)" "path_ok c'" "index_of c' = Suc (index_of c)"
    "segs_of c' = segs_of c @ [new_segment name u]"
    using p n assms(4) by (simp_all add: segs_of_def index_of_def path_ok_def)
qed

text \<open>
  Every successful step leaves the index on a segment with the name asked for, and touches no segment
  but that one.
\<close>

lemma updatePath_step:
  assumes "updatePath (Some c) name u = Inr (c', i)" "small_path c"
  shows "path_ok c'" "seg_name (segs_of c' ! index_of c') = name"
    "\<forall>j<length (segs_of c). j \<noteq> index_of c' \<longrightarrow> j < length (segs_of c') \<and> segs_of c' ! j = segs_of c ! j"
    "length (segs_of c') \<le> Suc (length (segs_of c))" "unat i < length (segs_of c')"
    "length (segs_of c) \<le> length (segs_of c')"
proof -
  let ?p = "case conn_path c of None \<Rightarrow> \<lparr>Index = 0, PathSegments = []\<rparr> | Some p \<Rightarrow> p"
  have s: "segs_of c = PathSegments ?p" by (simp add: segs_of_def split: option.splits)
  have i: "Suc (unat (Index ?p)) \<le> length (PathSegments ?p) \<Longrightarrow> unat (Index ?p + 1) = Suc (unat (Index ?p))"
    using assms(2) unfolding s by (intro unat_u32_Suc) simp
  have m: "Index ?p + 1 - 1 = Index ?p" by simp
  show "path_ok c'" "seg_name (segs_of c' ! index_of c') = name"
    "\<forall>j<length (segs_of c). j \<noteq> index_of c' \<longrightarrow> j < length (segs_of c') \<and> segs_of c' ! j = segs_of c ! j"
    "length (segs_of c') \<le> Suc (length (segs_of c))" "unat i < length (segs_of c')"
    "length (segs_of c) \<le> length (segs_of c')"
    using assms(1) i unfolding s
    by (auto simp: updatePath_def Let_def m path_ok_def index_of_def segs_of_def [of "_\<lparr>Id := _\<rparr>"]
        segs_of_def [of "_\<lparr>conn_path := _\<rparr>"] nth_append split: if_splits)
qed

text \<open>
  The identifier after a step: that of the segment if its name was the element's already, otherwise the new
  one, but a first element keeps the identifier the connection came with.
\<close>

lemma updatePath_id:
  assumes "updatePath (Some c) name u = Inr (c', i)" "small_path c"
  shows "Id c' = (if index_of c' < length (segs_of c) \<and> seg_name (segs_of c ! index_of c') = name
      then seg_id (segs_of c ! index_of c')
      else if segs_of c = [] \<and> Id c \<noteq> [] then Id c else u)"
proof -
  let ?p = "case conn_path c of None \<Rightarrow> \<lparr>Index = 0, PathSegments = []\<rparr> | Some p \<Rightarrow> p"
  have s: "segs_of c = PathSegments ?p" by (simp add: segs_of_def split: option.splits)
  have "Suc (unat (Index ?p)) \<le> length (PathSegments ?p) \<Longrightarrow> unat (Index ?p + 1) = Suc (unat (Index ?p))"
    using assms(2) unfolding s by (intro unat_u32_Suc) simp
  then show ?thesis
    using assms(1) unfolding s by (auto simp: updatePath_def Let_def index_of_def split: if_splits)
qed

section \<open>Walks\<close>

text \<open>A request passes a list of elements, each with its name and the identifier it would generate.\<close>

fun walk :: "(string \<times> string) list \<Rightarrow> Connection \<Rightarrow> nsm_error + Connection" where
  "walk [] c = Inr c"
| "walk ((name, u) # ws) c =
     (case updatePath (Some c) name u of Inl e \<Rightarrow> Inl e | Inr (c, _) \<Rightarrow> walk ws c)"

abbreviation at_end :: "Connection \<Rightarrow> bool" where
  "at_end c \<equiv> path_ok c \<and> Suc (index_of c) = length (segs_of c)"

abbreviation end_name :: "Connection \<Rightarrow> string" where
  "end_name c \<equiv> seg_name (segs_of c ! index_of c)"

lemma updatePath_at_end:
  assumes "at_end c" "small_path c" "end_name c \<noteq> name"
  obtains c1 where "updatePath (Some c) name u = Inr (c1, of_nat (index_of c))" "at_end c1"
    "segs_of c1 = segs_of c @ [new_segment name u]"
proof -
  have "updatePath (Some c) name u \<noteq> Inl e" for e
    using assms by (auto simp: updatePath_def path_ok_def segs_of_def index_of_def Let_def)
  then obtain c1 i where u: "updatePath (Some c) name u = Inr (c1, i)"
    by (cases "updatePath (Some c) name u") auto
  have at: "path_ok c" "Suc (index_of c) = length (segs_of c)" using assms(1) by auto
  note x = updatePath_extend [OF at(1) assms(2,3) at(2) u]
  then show thesis using that [of c1] u at by simp
qed

lemma remdups_adj_tl: "remdups_adj (n # ns) = n # tl (remdups_adj (n # ns))"
  by (metis list.collapse list.distinct(1) hd_remdups_adj list.sel(1) remdups_adj_Nil_iff)

lemma walk_at_end:
  "at_end c \<Longrightarrow> length (segs_of c) + length ws < 4294967295 \<Longrightarrow>
    \<exists>c' Q. walk ws c = Inr c' \<and> at_end c' \<and> segs_of c' = segs_of c @ Q \<and> length Q \<le> length ws \<and>
      map seg_name Q = tl (remdups_adj (end_name c # map fst ws))"
proof (induction ws arbitrary: c)
  case (Cons w ws)
  obtain name u where w: "w = (name, u)" by (cases w)
  show ?case
  proof (cases "end_name c = name")
    case True
    then have e: "walk (w # ws) c = walk ws c" using updatePath_here [of c name u] Cons.prems w by simp
    have "length (segs_of c) + length ws < 4294967295" using Cons.prems(2) by simp
    from Cons.IH [OF Cons.prems(1) this] obtain c' Q where
      "walk ws c = Inr c'" "at_end c'" "segs_of c' = segs_of c @ Q" "length Q \<le> length ws"
      "map seg_name Q = tl (remdups_adj (end_name c # map fst ws))" by blast
    with e True w show ?thesis by (intro exI [of _ c'] exI [of _ Q]) simp
  next
    case False
    have small: "small_path c" using Cons.prems by simp
    obtain c1 where c1: "updatePath (Some c) name u = Inr (c1, of_nat (index_of c))" "at_end c1"
      "segs_of c1 = segs_of c @ [new_segment name u]"
      using updatePath_at_end [OF Cons.prems(1) small False] .
    have len: "length (segs_of c1) + length ws < 4294967295" using Cons.prems(2) c1(3) by simp
    have e: "end_name c1 = name" using c1(2,3) by (simp add: nth_append)
    obtain c' Q where Q: "walk ws c1 = Inr c'" "at_end c'" "segs_of c' = segs_of c1 @ Q" "length Q \<le> length ws"
      "map seg_name Q = tl (remdups_adj (end_name c1 # map fst ws))" using Cons.IH [OF c1(2) len] by blast
    have "map seg_name (new_segment name u # Q) = tl (remdups_adj (end_name c # map fst (w # ws)))"
      using Q(5) False remdups_adj_tl [of name "map fst ws"] unfolding e w by simp
    with Q c1(1,3) w show ?thesis
      by (intro exI [of _ c'] exI [of _ "new_segment name u # Q"]) simp
  qed
qed simp

text \<open>The same walk again, from the end of the part of the path it started with.\<close>

lemma walk_again:
  "at_end c \<Longrightarrow> length (segs_of c) + length ws < 4294967295 \<Longrightarrow> walk ws c = Inr c' \<Longrightarrow>
    map fst ws' = map fst ws \<Longrightarrow> walk ws' (rewind (index_of c) c') = Inr c'"
proof (induction ws arbitrary: c ws')
  case Nil
  then show ?case by (simp add: rewind_self)
next
  case (Cons w ws)
  obtain name u where w: "w = (name, u)" by (cases w)
  obtain u' vs where ws': "ws' = (name, u') # vs" "map fst vs = map fst ws"
    using Cons.prems(4) w by (cases ws') auto
  let ?d = "rewind (index_of c) c'"
  obtain Q where Q: "at_end c'" "segs_of c' = segs_of c @ Q" "length Q \<le> Suc (length ws)"
    using walk_at_end [OF Cons.prems(1,2)] Cons.prems(3) by auto
  have small: "small_path c'" "small_path c" using Q Cons.prems(2) by simp_all
  have i: "index_of c < length (segs_of c)" using Cons.prems(1) by simp
  have d: "path_ok ?d" "index_of ?d = index_of c" "segs_of ?d = segs_of c @ Q" "small_path ?d"
    using Q small i by (simp_all add: path_ok_rewind index_of_rewind)
  have en: "end_name ?d = end_name c" using d(2,3) i by (simp add: nth_append)
  show ?case
  proof (cases "end_name c = name")
    case True
    then have "walk ws c = Inr c'" using updatePath_here [of c name u] Cons.prems(1,3) w by simp
    moreover have "walk ws' ?d = walk vs ?d"
      using updatePath_here [OF d(1), of name u'] en True ws' by simp
    ultimately show ?thesis using Cons.IH [of c vs] Cons.prems(1,2) ws'(2) by simp
  next
    case False
    obtain c1 where c1: "updatePath (Some c) name u = Inr (c1, of_nat (index_of c))" "at_end c1"
      "segs_of c1 = segs_of c @ [new_segment name u]"
      using updatePath_at_end [OF Cons.prems(1) small(2) False] .
    have wk: "walk ws c1 = Inr c'" using Cons.prems(3) c1(1) w by simp
    have len: "length (segs_of c1) + length ws < 4294967295" using Cons.prems(2) c1(3) by simp
    obtain Q' where Q': "segs_of c' = segs_of c1 @ Q'" using walk_at_end [OF c1(2) len] wk by auto
    have ix: "Suc (index_of c) = index_of c1" "index_of c1 = length (segs_of c)"
      using c1(2,3) Cons.prems(1) by simp_all
    have "segs_of ?d ! Suc (index_of ?d) = new_segment name u"
      "Suc (index_of ?d) < length (segs_of ?d)"
      using Q' c1(3) d(2) ix by (simp_all add: nth_append)
    then have "updatePath (Some ?d) name u' = Inr (rewind (index_of c1) ?d, of_nat (index_of ?d))"
      using updatePath_along [OF d(1,4), of name u'] en False ix(1) d(2) by simp
    then have "walk ws' ?d = walk vs (rewind (index_of c1) c')" using ws'(1) by simp
    then show ?thesis using Cons.IH [OF c1(2) len wk ws'(2)] by simp
  qed
qed

section \<open>A chain of path elements\<close>

text \<open>
  The elements of the list around a last one that answers with the connection it is asked for.
\<close>

fun path_chain :: "(string \<times> string) list \<Rightarrow> 's request_chain" where
  "path_chain [] request s = (case req_connection request of None \<Rightarrow> Inl Panic | Some c \<Rightarrow> Inr c, s)"
| "path_chain ((name, u) # ws) request s = updatePathServer_Request name u (path_chain ws) request s"

lemma walk_grows:
  "walk ws c = Inr c' \<Longrightarrow> length (segs_of c) + length ws < 4294967295 \<Longrightarrow>
    length (segs_of c) \<le> length (segs_of c') \<and> (ws \<noteq> [] \<or> path_ok c \<longrightarrow> path_ok c')"
proof (induction ws arbitrary: c)
  case (Cons w ws)
  obtain name u where w: "w = (name, u)" by (cases w)
  obtain c1 i where u: "updatePath (Some c) name u = Inr (c1, i)" "walk ws c1 = Inr c'"
    using Cons.prems(1) w by (auto split: sum.splits)
  have "small_path c" using Cons.prems(2) by simp
  note st = updatePath_step [OF u(1) this]
  have "length (segs_of c1) + length ws < 4294967295" using st(4) Cons.prems(2) by simp
  from Cons.IH [OF u(2) this] st(1,6) show ?case by simp
qed simp

lemma path_chain_walk:
  assumes "walk ((name, u) # ws) c = Inr c'" "updatePath (Some c) name u = Inr (c1, i)"
    "length (segs_of c) + Suc (length ws) < 4294967295"
  shows "path_chain ((name, u) # ws) \<lparr>req_connection = Some c, MechanismPreferences = []\<rparr> s = (Inr (rewind (unat i) c'), s)"
  using assms
proof (induction ws arbitrary: name u c c1 i)
  case Nil
  then show ?case using updatePath_step(1,5) [OF Nil(2)]
    by (simp add: updatePathServer_Request_def restoreIndex_rewind path_ok_def)
next
  case (Cons w ws)
  obtain n v where w: "w = (n, v)" by (cases w)
  have small: "small_path c" using Cons.prems(3) by simp
  note st = updatePath_step [OF Cons.prems(2) small]
  have wk: "walk ((n, v) # ws) c1 = Inr c'" using Cons.prems(1,2) w by simp
  then obtain c2 j where j: "updatePath (Some c1) n v = Inr (c2, j)" by (auto split: sum.splits)
  have len: "length (segs_of c1) + Suc (length ws) < 4294967295" using st(4) Cons.prems(3) by simp
  have "length (segs_of c1) \<le> length (segs_of c')" "path_ok c'" using walk_grows [OF wk] len by simp_all
  then have "unat i < length (segs_of (rewind (unat j) c'))" "conn_path (rewind (unat j) c') \<noteq> None"
    using st(5) by (simp, auto simp: path_ok_def rewind_def split: option.splits)
  with Cons.IH [OF wk j len] Cons.prems(2) w show ?case
    by (simp add: updatePathServer_Request_def [of name] restoreIndex_rewind)
qed

lemma path_chain_refresh:
  assumes "segs_of c = []" "2 * Suc (length ws) < 4294967295"
  shows "\<exists>r. path_chain ((name, u) # ws) \<lparr>req_connection = Some c, MechanismPreferences = []\<rparr> s = (Inr r, s) \<and> path_ok r \<and> index_of r = 0 \<and>
    map seg_name (segs_of r) = remdups_adj (name # map fst ws) \<and>
    (\<forall>ws' s'. map fst ws' = name # map fst ws \<longrightarrow>
      path_chain ws' \<lparr>req_connection = Some r, MechanismPreferences = []\<rparr> s' = (Inr r, s'))"
proof -
  have "updatePath (Some c) name u \<noteq> Inl e" for e
    using assms(1) by (auto simp: updatePath_def segs_of_def Let_def split: option.splits)
  then obtain c1 i where u: "updatePath (Some c) name u = Inr (c1, i)"
    by (cases "updatePath (Some c) name u") auto
  note f = updatePath_fresh [OF assms(1) u]
  have at: "at_end c1" using f by simp
  have len: "length (segs_of c1) + length ws < 4294967295" using f(5) assms(2) by simp
  have en: "end_name c1 = name" using f(3,4,5) by (cases "segs_of c1") auto
  obtain c' Q where c': "walk ws c1 = Inr c'" "at_end c'" "segs_of c' = segs_of c1 @ Q"
    "length Q \<le> length ws" "map seg_name Q = tl (remdups_adj (name # map fst ws))"
    using walk_at_end [OF at len] en by auto
  have wk: "walk ((name, u) # ws) c = Inr c'" using u c'(1) by simp
  let ?r = "rewind 0 c'"
  have small: "small_path c'" and pos: "0 < length (segs_of c')" using c'(3,4) f(5) assms(2) by simp_all
  have r: "path_ok ?r" "index_of ?r = 0" "segs_of ?r = segs_of c'"
    using path_ok_rewind [OF _ small pos] index_of_rewind [OF _ small pos] c'(2) by simp_all
  have e: "end_name ?r = name" using r(2,3) c'(3) f(3,5) en by (simp add: nth_append)
  have "path_chain ws' \<lparr>req_connection = Some ?r, MechanismPreferences = []\<rparr> s' = (Inr ?r, s')" if n: "map fst ws' = name # map fst ws" for ws' s'
  proof -
    obtain u' vs where vs: "ws' = (name, u') # vs" "map fst vs = map fst ws"
      using n by (auto simp: map_eq_Cons_conv)
    have h: "updatePath (Some ?r) name u' = Inr (?r, of_nat (index_of ?r))"
      by (rule updatePath_here [OF r(1) e])
    have "walk vs ?r = Inr c'" using walk_again [OF at len c'(1) vs(2)] f(3) by simp
    then have "walk ((name, u') # vs) ?r = Inr c'" using h by simp
    moreover have "length vs = length ws" using vs(2) by (metis length_map)
    then have "length (segs_of ?r) + Suc (length vs) < 4294967295"
      using c'(3,4) f(5) r(3) assms(2) by simp
    ultimately show ?thesis using path_chain_walk [OF _ h] r(2) vs(1) by simp
  qed
  moreover have "map seg_name (segs_of ?r) = remdups_adj (name # map fst ws)"
    using c'(3,5) f(4) r(3) remdups_adj_tl [of name "map fst ws"] by simp
  moreover have "path_chain ((name, u) # ws) \<lparr>req_connection = Some c, MechanismPreferences = []\<rparr> s = (Inr ?r, s)"
    using path_chain_walk [OF wk u] assms f(1) by (simp del: path_chain.simps)
  ultimately show ?thesis using r(1,2) by blast
qed

text \<open>
  What the path elements promise: a request names the elements it passes, a refresh passes the same way
  without a change, and the identities of a registration are those of the tokens of its path.
\<close>

section \<open>Connections\<close>

definition fresh_conn :: Connection where
  "fresh_conn = empty_connection\<lparr>NetworkService := ''ns''\<rparr>"

lemma fresh_conn_segs: "segs_of fresh_conn = []"
  by (simp add: fresh_conn_def empty_connection_def segs_of_def)

text \<open>
  C34. A first request through a chain of path elements comes back with a path that names each of them once,
  in order (adjacent elements of one name share a segment), with the index at the first segment and
  its id as the connection's id. A refresh with the returned connection passes the same elements,
  whatever identifiers would be generated now, and returns it unchanged.
\<close>

theorem path_refresh:
  assumes "segs_of c = []" "2 * Suc (length ws) < 4294967295"
  shows "\<exists>r. path_chain ((name, u) # ws) \<lparr>req_connection = Some c, MechanismPreferences = []\<rparr> (s :: 's) = (Inr r, s) \<and> path_ok r \<and> index_of r = 0 \<and>
    map seg_name (segs_of r) = remdups_adj (name # map fst ws) \<and>
    (\<forall>ws' (s' :: 's). map fst ws' = name # map fst ws \<longrightarrow>
      path_chain ws' \<lparr>req_connection = Some r, MechanismPreferences = []\<rparr> s' = (Inr r, s'))"
  by (rule path_chain_refresh [OF assms])

theorem path_refresh_witness:
  "\<exists>r. path_chain [(''nsc'', ''1''), (''mgr'', ''2''), (''nse'', ''3'')] \<lparr>req_connection = Some fresh_conn, MechanismPreferences = []\<rparr> () = (Inr r, ()) \<and>
     map seg_name (segs_of r) = [''nsc'', ''mgr'', ''nse''] \<and>
     path_chain [(''nsc'', ''4''), (''mgr'', ''5''), (''nse'', ''6'')] \<lparr>req_connection = Some r, MechanismPreferences = []\<rparr> () = (Inr r, ())"
proof -
  let ?ws = "[(''mgr'', ''2''), (''nse'', ''3'')]" and ?ws' = "[(''nsc'', ''4''), (''mgr'', ''5''), (''nse'', ''6'')]"
  obtain r where r: "path_chain ((''nsc'', ''1'') # ?ws) \<lparr>req_connection = Some fresh_conn, MechanismPreferences = []\<rparr> () = (Inr r, ())"
    "map seg_name (segs_of r) = remdups_adj (''nsc'' # map fst ?ws)"
    "\<forall>ws' (s' :: unit). map fst ws' = ''nsc'' # map fst ?ws \<longrightarrow> path_chain ws' \<lparr>req_connection = Some r, MechanismPreferences = []\<rparr> s' = (Inr r, s')"
    using path_refresh [OF fresh_conn_segs, of ?ws "''nsc''" "''1''" "()"] by auto
  have "path_chain ?ws' \<lparr>req_connection = Some r, MechanismPreferences = []\<rparr> () = (Inr r, ())" by (rule r(3) [rule_format]) simp
  with r(1,2) show ?thesis by (intro exI [of _ r] conjI) (simp_all del: path_chain.simps)
qed

text \<open>
  One step along a path: the index afterwards names a segment with the element's name, whose id is the
  connection's id; no other segment changes, and at most one is added. The id is new unless the segment was
  the element's own already or a first element meets a connection that has one.
\<close>

lemma updatePath_moves:
  assumes "updatePath (Some c) name uuid = Inr (c', i)" "length (segs_of c) < 4294967295"
  shows "path_ok c' \<and> seg_name (segs_of c' ! index_of c') = name \<and>
    (\<forall>j<length (segs_of c). j \<noteq> index_of c' \<longrightarrow> j < length (segs_of c') \<and> segs_of c' ! j = segs_of c ! j) \<and>
    length (segs_of c') \<le> Suc (length (segs_of c)) \<and> unat i < length (segs_of c') \<and>
    Id c' = (if index_of c' < length (segs_of c) \<and> seg_name (segs_of c ! index_of c') = name
      then seg_id (segs_of c ! index_of c')
      else if segs_of c = [] \<and> Id c \<noteq> [] then Id c else uuid)"
  using updatePath_step [OF assms] updatePath_id [OF assms] by blast

theorem updatePath_moves_witness:
  "\<exists>c' i. updatePath (Some fresh_conn) ''nsc'' ''1'' = Inr (c', i) \<and> path_ok c' \<and> length (segs_of c') \<le> 1"
proof -
  obtain c' i where c: "updatePath (Some fresh_conn) ''nsc'' ''1'' = Inr (c', i)"
    by (simp add: updatePath_def fresh_conn_def empty_connection_def Let_def)
  with updatePath_moves [OF c] show ?thesis using fresh_conn_segs by simp
qed

text \<open>
  The path a \<^verbatim>\<open>trimpath\<close> server returns ends with the server's own segment, unless a \<^verbatim>\<open>trimpath\<close> client ran
  below it: then the path comes back whole. Either way the mark is gone afterwards.
\<close>

lemma trimpath_cuts:
  assumes "nxt request s = (Inr conn, s')" "path_ok conn" "length (segs_of conn) < 4294967295"
    and "\<And>b t. flag (set_flag b t) = b"
  shows "\<exists>r. trimpathServer_Request flag set_flag nxt request s = (Inr r, set_flag False s') \<and> path_ok r \<and>
    index_of r = index_of conn \<and>
    segs_of r = (if flag s' then segs_of conn else take (Suc (index_of conn)) (segs_of conn)) \<and>
    trimpathServer_Request flag set_flag (trimpathClient_Request set_flag nxt) request s = (Inr conn, set_flag False (set_flag True s'))"
proof -
  obtain p where p: "conn_path conn = Some p" using assms(2) by (auto simp: path_ok_def)
  then have i: "unat (Index p) < length (PathSegments p)" and l: "length (PathSegments p) < 4294967295"
    using assms(2,3) by (simp_all add: path_ok_def index_of_def segs_of_def)
  then have "unat (Index p + 1) = Suc (unat (Index p))" by (intro unat_u32_Suc) simp
  then show ?thesis using assms p i
    by (auto simp: trimpathServer_Request_def trimpathClient_Request_def path_ok_def index_of_def segs_of_def Let_def)
qed

definition long_conn :: Connection where
  "long_conn = fresh_conn\<lparr>Id := ''1'', conn_path := Some \<lparr>Index = 0,
     PathSegments = [new_segment ''nsc'' ''1'', new_segment ''mgr'' ''2'']\<rparr>\<rparr>"

theorem trimpath_cuts_witness:
  "\<exists>r. trimpathServer_Request id (\<lambda>b _. b) (\<lambda>_ s. (Inr long_conn, s)) \<lparr>req_connection = Some fresh_conn, MechanismPreferences = []\<rparr> False = (Inr r, False) \<and>
     segs_of r = [new_segment ''nsc'' ''1'']"
proof -
  have "path_ok long_conn" "length (segs_of long_conn) < 4294967295"
    by (simp_all add: long_conn_def path_ok_def index_of_def segs_of_def)
  from trimpath_cuts [of "\<lambda>_ s. (Inr long_conn, s)" "\<lparr>req_connection = Some fresh_conn, MechanismPreferences = []\<rparr>" False, OF refl this, of id "\<lambda>b _. b"]
  show ?thesis by (auto simp: long_conn_def index_of_def segs_of_def)
qed

section \<open>Registrations\<close>

lemma updatePathIds_hop:
  assumes "unat (rp_Index p') = Suc (unat i)" "unat i \<le> length ids"
  shows "updatePathIds (updatePathIds ids (unat i) a) (unat (rp_Index p')) b = take (unat i) ids @ [a, b] @ drop (unat i + 2) ids"
proof -
  consider "unat i = length ids" | "Suc (unat i) = length ids" | "Suc (unat i) < length ids" using assms(2) by linarith
  then show ?thesis
  proof cases
    case 2
    then show ?thesis using assms(1) upd_conv_take_nth_drop [of "unat i" ids a] by (simp add: updatePathIds_def)
  next
    case 3
    then show ?thesis using assms(1) list_update_two [of "unat i" ids a b] by (simp add: updatePathIds_def)
  qed (use assms(1) in \<open>simp add: updatePathIds_def\<close>)
qed

lemma path_ids_hop:
  assumes "registry_updatePath (Some p) peerTok tok = Inr (p', i)" "length (rp_PathSegments p) < 4294967295"
    and "getIDFromToken J tok = Inr b"
  shows "updatePathIds (updatePathIds (path_ids J p) (unat (rp_Index p' - 1)) (idString J peerTok)) (unat (rp_Index p')) b = path_ids J p'"
proof -
  note h = registry_updatePath_hop [OF assms(1,2)]
  have "idString J tok = b" using assms(3) by (simp add: idString_def)
  then show ?thesis
    using updatePathIds_hop [OF h(1), of "path_ids J p"] h(2,3,4) by (simp add: path_ids_def take_map drop_map)
qed

text \<open>
  Where the path ids of a message are the identities of the tokens of its path, they still are when the
  message goes on: the registry puts the peer's token and its own into the segments before and at the
  new index and their identities into the same places, and gives the index back after a success. This
  holds of the registration of endpoints and of network services.
\<close>

lemma registry_path_ids:
  assumes "nse_PathIds nse = path_ids J p" "ns_PathIds ns = path_ids J p"
    and "registry_updatePath (Some p) peerTok tok = Inr (p', i)" "length (rp_PathSegments p) < 4294967295"
    and "getIDFromToken J tok = Inr b"
  shows "tokens p' = take (unat i) (tokens p) @ [peerTok, tok] @ drop (unat i + 2) (tokens p) \<and>
    updatePathNSEServer_Register J peerTok (Inr (tok, t)) nxt nse p s =
      (case nxt t (nse\<lparr>nse_PathIds := path_ids J p'\<rparr>) p' s of
         (Inl e, q, s) \<Rightarrow> (Inl e, q, s)
       | (Inr r, q, s) \<Rightarrow> (Inr r, q\<lparr>rp_Index := i\<rparr>, s)) \<and>
    updatePathNSServer_Register J peerTok (Inr (tok, t)) nxt' ns p s' =
      (case nxt' (ns\<lparr>ns_PathIds := path_ids J p'\<rparr>) p' s' of
         (Inl e, q, s) \<Rightarrow> (Inl e, q, s)
       | (Inr r, q, s) \<Rightarrow> (Inr r, q\<lparr>rp_Index := i\<rparr>, s))"
  using assms path_ids_hop [OF assms(3-5)] registry_updatePath_hop(4) [OF assms(3,4)]
  by (simp add: updatePathNSEServer_Register_def updatePathNSServer_Register_def Let_def)

text \<open>A concrete parser: tokens are their own subjects, the empty one is not a token.\<close>

definition plain_jwt :: jwt where
  "plain_jwt = \<lparr>ParseUnverified = (\<lambda>t. if t = [] then None else Some [(''sub'', ClaimString t)]), spiffeid_FromString = Inr\<rparr>"

definition plain_nse :: NetworkServiceEndpoint where
  "plain_nse = \<lparr>nse_name = ''nse'', NetworkServiceNames = None, NetworkServiceLabels = None, Url = [], ExpirationTime = None, nse_PathIds = []\<rparr>"

definition plain_ns :: NetworkServiceMsg where
  "plain_ns = \<lparr>ns_name = ''ns'', Payload = [], Matches = [], ns_PathIds = []\<rparr>"

theorem registry_path_ids_witness:
  "updatePathNSEServer_Register plain_jwt ''a'' (Inr (''b'', 0)) (\<lambda>_ n p s. (Inr n, p, s)) plain_nse
     \<lparr>rp_Index = 0, rp_PathSegments = []\<rparr> () =
     (Inr (plain_nse\<lparr>nse_PathIds := [''a'', ''b'']\<rparr>), \<lparr>rp_Index = 0, rp_PathSegments = [\<lparr>Token = ''a''\<rparr>, \<lparr>Token = ''b''\<rparr>]\<rparr>, ())"
proof -
  let ?p = "\<lparr>rp_Index = 0, rp_PathSegments = []\<rparr>" and ?q = "\<lparr>rp_Index = 1, rp_PathSegments = [\<lparr>Token = ''a''\<rparr>, \<lparr>Token = ''b''\<rparr>]\<rparr>"
  have "nse_PathIds plain_nse = path_ids plain_jwt ?p" "ns_PathIds plain_ns = path_ids plain_jwt ?p"
    "registry_updatePath (Some ?p) ''a'' ''b'' = Inr (?q, 0)" "length (rp_PathSegments ?p) < 4294967295"
    "getIDFromToken plain_jwt ''b'' = Inr ''b''" "path_ids plain_jwt ?q = [''a'', ''b'']"
    by (simp_all add: plain_nse_def plain_ns_def path_ids_def registry_updatePath_def getIDFromToken_def plain_jwt_def idString_def)
  from registry_path_ids [OF this(1-5), of 0 "\<lambda>_ n p s. (Inr n, p, s)" "()" "\<lambda>n p s. (Inr n, p, s)" "()"] this(6)
  show ?thesis by simp
qed

end
