(* ===== verification/Match_Utils.thy ===== *)
theory Match_Utils
  imports Registry_Api
begin

text \<open>
  Matching of endpoints and services (\<^verbatim>\<open>src/pkg/tools/matchutils/utils.go\<close>). Label templates are expanded
  by Go's \<^verbatim>\<open>text/template\<close>, which is an argument: \<open>tmpl str vars\<close> is \<open>None\<close> where parsing or executing the
  template fails.
\<close>

section \<open>Definitions\<close>

type_synonym template = "string \<Rightarrow> labels \<Rightarrow> string option"

definition processLabels :: "template \<Rightarrow> string \<Rightarrow> labels \<Rightarrow> string" where
  "processLabels tmpl str vars = (case tmpl str vars of None \<Rightarrow> str | Some r \<Rightarrow> r)"

definition IsSubset :: "template \<Rightarrow> labels \<Rightarrow> labels \<Rightarrow> labels \<Rightarrow> bool" where
  "IsSubset tmpl a b values =
     (if length a < length b then False
      else list_all (\<lambda>(k, v). lbl a k = v \<or> lbl a k = processLabels tmpl v values) b)"

text \<open>The endpoints one match selects: for each route in turn, those whose labels fit the destination.\<close>

definition routeCandidates ::
  "template \<Rightarrow> labels \<Rightarrow> string \<Rightarrow> Destination list \<Rightarrow> NetworkServiceEndpoint list \<Rightarrow> NetworkServiceEndpoint list" where
  "routeCandidates tmpl nsLabels name routes nses =
     concat (map (\<lambda>d. filter (\<lambda>nse. IsSubset tmpl (labels_of (NetworkServiceLabels nse) name) (DestinationSelector d) nsLabels) nses) routes)"

fun matchLoop ::
  "template \<Rightarrow> labels \<Rightarrow> string \<Rightarrow> Match list \<Rightarrow> NetworkServiceEndpoint list \<Rightarrow> NetworkServiceEndpoint list" where
  "matchLoop tmpl nsLabels name [] nses = []"
| "matchLoop tmpl nsLabels name (m # ms) nses =
     (if \<not> IsSubset tmpl nsLabels (SourceSelector m) nsLabels then matchLoop tmpl nsLabels name ms nses
      else let nseCandidates = routeCandidates tmpl nsLabels name (Routes m) nses in
        if Fallthrough m \<and> nseCandidates = [] then matchLoop tmpl nsLabels name ms nses
        else if Metadata m \<noteq> None \<and> Routes m = [] \<and> nseCandidates = [] then nses
        else nseCandidates)"

definition MatchEndpoint ::
  "template \<Rightarrow> labels \<Rightarrow> NetworkServiceMsg \<Rightarrow> NetworkServiceEndpoint list \<Rightarrow> NetworkServiceEndpoint list" where
  "MatchEndpoint tmpl nsLabels ns nses =
     (if Matches ns = [] then nses else matchLoop tmpl nsLabels (ns_name ns) (Matches ns) nses)"

definition MatchNetworkServices :: "NetworkServiceMsg \<Rightarrow> NetworkServiceMsg \<Rightarrow> bool" where
  "MatchNetworkServices left right \<longleftrightarrow>
     (ns_name left = [] \<or> ns_name right = ns_name left) \<and>
     (Payload left = [] \<or> Payload left = Payload right) \<and>
     (Matches left = [] \<or> Matches left = Matches right)"

definition labelsContains :: "(string \<times> labels) list \<Rightarrow> (string \<times> labels) list \<Rightarrow> bool" where
  "labelsContains where what \<longleftrightarrow>
     list_all (\<lambda>(lService, lLabels).
       case map_of where lService of
         None \<Rightarrow> False
       | Some rLabels \<Rightarrow> list_all (\<lambda>(k, v). map_of rLabels k = Some v) lLabels) what"

definition containsAll :: "string list \<Rightarrow> string list \<Rightarrow> bool" where
  "containsAll where what \<longleftrightarrow> list_all (\<lambda>s. s \<in> set where) what"

text \<open>\<^verbatim>\<open>strings.Contains\<close>\<close>

fun substring :: "string \<Rightarrow> string \<Rightarrow> bool" where
  "substring sub [] \<longleftrightarrow> sub = []"
| "substring sub (c # s) \<longleftrightarrow> take (length sub) (c # s) = sub \<or> substring sub s"

text \<open>
  The expiration times are protobuf timestamps; a query with a time compares their seconds. A candidate
  without a time is a nil dereference.
\<close>

definition MatchNetworkServiceEndpoints ::
  "NetworkServiceEndpoint \<Rightarrow> NetworkServiceEndpoint \<Rightarrow> bool option" where
  "MatchNetworkServiceEndpoints left right =
     (if \<not> (nse_name left = [] \<or> nse_name right = nse_name left) then Some False
      else if \<not> (case NetworkServiceLabels left of None \<Rightarrow> True
                 | Some l \<Rightarrow> labelsContains (case NetworkServiceLabels right of None \<Rightarrow> [] | Some r \<Rightarrow> r) l)
      then Some False
      else
        let rest = (case NetworkServiceNames left of None \<Rightarrow> True
                    | Some l \<Rightarrow> containsAll (case NetworkServiceNames right of None \<Rightarrow> [] | Some r \<Rightarrow> r) l) \<and>
                   (Url left = [] \<or> substring (Url left) (Url right))
        in case ExpirationTime left of
             None \<Rightarrow> Some rest
           | Some t \<Rightarrow> (case ExpirationTime right of None \<Rightarrow> None | Some t' \<Rightarrow> Some (ts_seconds t = ts_seconds t' \<and> rest)))"

section \<open>What a match selects\<close>

lemma substring_iff: "substring sub s \<longleftrightarrow> (\<exists>pre post. s = pre @ sub @ post)"
proof (induction s)
  case (Cons c s)
  have "(\<exists>pre post. c # s = pre @ sub @ post) \<longleftrightarrow>
      (\<exists>post. c # s = sub @ post) \<or> (\<exists>pre post. s = pre @ sub @ post)"
    by (metis append_Cons append_Nil list.inject neq_Nil_conv)
  moreover have "(\<exists>post. c # s = sub @ post) \<longleftrightarrow> take (length sub) (c # s) = sub"
    by (metis append_eq_conv_conj append_take_drop_id)
  ultimately show ?case using Cons by simp
qed simp

lemma routeCandidates_set:
  "set (routeCandidates tmpl ls name routes nses) =
    {nse \<in> set nses. \<exists>d\<in>set routes. IsSubset tmpl (labels_of (NetworkServiceLabels nse) name) (DestinationSelector d) ls}"
  by (auto simp: routeCandidates_def)

text \<open>A match applies to a request: its source selector fits and it is not passed over as a fallthrough.\<close>

definition match_applies ::
  "template \<Rightarrow> labels \<Rightarrow> string \<Rightarrow> NetworkServiceEndpoint list \<Rightarrow> Match \<Rightarrow> bool" where
  "match_applies tmpl ls name nses m \<longleftrightarrow>
     IsSubset tmpl ls (SourceSelector m) ls \<and>
     \<not> (Fallthrough m \<and> routeCandidates tmpl ls name (Routes m) nses = [])"

lemma matchLoop_first:
  "matchLoop tmpl ls name ms nses =
    (case find (match_applies tmpl ls name nses) ms of
       None \<Rightarrow> []
     | Some m \<Rightarrow>
         if Metadata m \<noteq> None \<and> Routes m = [] then nses else routeCandidates tmpl ls name (Routes m) nses)"
  by (induction ms) (auto simp: match_applies_def Let_def routeCandidates_def)

end
