(* ===== verification/Memory_Registry.thy ===== *)
theory Memory_Registry
  imports Match_Utils
begin

text \<open>
  The in-memory endpoint registry (\<^verbatim>\<open>src/pkg/registry/common/memory/nse_server.go\<close>).

  The store is a concurrent map. Events go through a serializing executor, a queue of closures run one
  after the other, into one bounded channel per watcher; a send into a full channel waits. \<^verbatim>\<open>Register\<close> and
  \<^verbatim>\<open>Unregister\<close> change the store and then enqueue the event, two atomic actions between which other
  goroutines run. The step relation below has one rule per atomic action. The chain serializes calls
  for one endpoint name (\<^verbatim>\<open>begin\<close> runs above this element), which the guards on \<open>pending\<close> state.
\<close>

section \<open>State\<close>

datatype task =
  SendEvent NSEResponse
| AddChannel string NSEQuery
| DeleteChannel string

text \<open>
  What the executor is in the middle of: a loop over the channels an event still has to go to; the
  \<^verbatim>\<open>Range\<close> of \<^verbatim>\<open>allMatches\<close> for a new channel, with the names still to visit and the matches so far; or the
  matches the new channel still has to get. \<^verbatim>\<open>Range\<close> takes no snapshot: each visit reads the store as it
  is at that moment.
\<close>

datatype activity =
  Idle
| Sending NSEResponse "string list"
| Ranging string NSEQuery "string list" "NetworkServiceEndpoint list"
| Initial string "NetworkServiceEndpoint list"

text \<open>
  A watcher: its query, the events taken from its channel so far in order (those sent to the client
  are the matching ones), and whether it still receives.
\<close>

record watcher =
  w_query :: NSEQuery
  taken :: "NSEResponse list"
  receiving :: bool

record memoryNSEServer =
  networkServiceEndpoints :: "string \<rightharpoonup> NetworkServiceEndpoint"
  pending :: "string \<rightharpoonup> NSEResponse"
  executor :: "task list"
  running :: activity
  eventChannels :: "string \<rightharpoonup> NSEResponse list"
  eventChannelSize :: nat
  watchers :: "string \<rightharpoonup> watcher"

definition NewNSEServer :: "nat \<Rightarrow> memoryNSEServer" where
  "NewNSEServer n = \<lparr>networkServiceEndpoints = Map.empty, pending = Map.empty, executor = [],
     running = Idle, eventChannels = Map.empty, eventChannelSize = n, watchers = Map.empty\<rparr>"

section \<open>Atomic actions\<close>

text \<open>\<^verbatim>\<open>s.networkServiceEndpoints.Store(r.Name, r.Clone())\<close> and \<^verbatim>\<open>LoadAndDelete\<close>\<close>

definition storeNSE :: "NetworkServiceEndpoint \<Rightarrow> memoryNSEServer \<Rightarrow> memoryNSEServer" where
  "storeNSE r s = s\<lparr>networkServiceEndpoints := (networkServiceEndpoints s)(nse_name r \<mapsto> r),
     pending := (pending s)(nse_name r \<mapsto> \<lparr>r_nse = r, Deleted = False\<rparr>)\<rparr>"

definition deleteNSE :: "string \<Rightarrow> memoryNSEServer \<Rightarrow> memoryNSEServer" where
  "deleteNSE n s =
     (case networkServiceEndpoints s n of
        None \<Rightarrow> s
      | Some r \<Rightarrow> s\<lparr>networkServiceEndpoints := (networkServiceEndpoints s)(n := None),
          pending := (pending s)(n \<mapsto> \<lparr>r_nse = r, Deleted = True\<rparr>)\<rparr>)"

text \<open>\<^verbatim>\<open>s.sendEvent(event)\<close>: enqueue the closure that sends it.\<close>

definition sendEvent :: "string \<Rightarrow> NSEResponse \<Rightarrow> memoryNSEServer \<Rightarrow> memoryNSEServer" where
  "sendEvent n event s = s\<lparr>executor := executor s @ [SendEvent event], pending := (pending s)(n := None)\<rparr>"

text \<open>
  The executor starts its next closure. \<open>chans\<close> and \<open>names\<close> are the orders in which the loop over the
  channels and \<^verbatim>\<open>Range\<close> will go.
\<close>

definition startTask :: "string list \<Rightarrow> string list \<Rightarrow> memoryNSEServer \<Rightarrow> memoryNSEServer" where
  "startTask chans names s =
     (case executor s of
        [] \<Rightarrow> s
      | SendEvent e # q \<Rightarrow> s\<lparr>executor := q, running := Sending e chans\<rparr>
      | AddChannel i query # q \<Rightarrow>
          s\<lparr>executor := q, eventChannels := (eventChannels s)(i \<mapsto> []),
            running := Ranging i query names []\<rparr>
      | DeleteChannel i # q \<Rightarrow>
          s\<lparr>executor := q, eventChannels := (eventChannels s)(i := None)\<rparr>)"

text \<open>One visit of \<^verbatim>\<open>allMatches\<close>.\<close>

definition matching :: "NSEQuery \<Rightarrow> NetworkServiceEndpoint \<Rightarrow> bool" where
  "matching query nse \<longleftrightarrow> MatchNetworkServiceEndpoints (q_nse query) nse = Some True"

definition visit :: "NSEQuery \<Rightarrow> string \<Rightarrow> memoryNSEServer \<Rightarrow> NetworkServiceEndpoint list" where
  "visit query n s = (case networkServiceEndpoints s n of None \<Rightarrow> [] | Some nse \<Rightarrow> if matching query nse then [nse] else [])"

text \<open>\<^verbatim>\<open>allMatches\<close> as a whole, where nothing changes the store meanwhile.\<close>

definition allMatches :: "string list \<Rightarrow> NSEQuery \<Rightarrow> memoryNSEServer \<Rightarrow> NetworkServiceEndpoint list" where
  "allMatches names query s = concat (map (\<lambda>n. visit query n s) names)"

definition pushTo :: "string \<Rightarrow> NSEResponse \<Rightarrow> memoryNSEServer \<Rightarrow> memoryNSEServer" where
  "pushTo i e s = s\<lparr>eventChannels := (eventChannels s)(i := map_option (\<lambda>q. q @ [e]) (eventChannels s i))\<rparr>"

definition hasRoom :: "string \<Rightarrow> memoryNSEServer \<Rightarrow> bool" where
  "hasRoom i s = (case eventChannels s i of None \<Rightarrow> False | Some q \<Rightarrow> length q < eventChannelSize s)"

text \<open>One action of the running closure; a send waits while the channel is full.\<close>

definition runningStep :: "memoryNSEServer \<Rightarrow> memoryNSEServer option" where
  "runningStep s =
     (case running s of
        Idle \<Rightarrow> None
      | Sending e [] \<Rightarrow> Some (s\<lparr>running := Idle\<rparr>)
      | Sending e (i # is) \<Rightarrow> if hasRoom i s then Some (pushTo i e (s\<lparr>running := Sending e is\<rparr>)) else None
      | Ranging i query [] acc \<Rightarrow> Some (s\<lparr>running := Initial i acc\<rparr>)
      | Ranging i query (n # ns) acc \<Rightarrow> Some (s\<lparr>running := Ranging i query ns (acc @ visit query n s)\<rparr>)
      | Initial i [] \<Rightarrow> Some (s\<lparr>running := Idle\<rparr>)
      | Initial i (e # es) \<Rightarrow>
          if hasRoom i s
          then Some (pushTo i \<lparr>r_nse = e, Deleted = False\<rparr> (s\<lparr>running := Initial i es\<rparr>))
          else None)"

text \<open>\<^verbatim>\<open>receiveEvent\<close> takes the oldest event of the channel; so does the draining loop of \<^verbatim>\<open>closeEventChannel\<close>.\<close>

definition receive :: "string \<Rightarrow> memoryNSEServer \<Rightarrow> memoryNSEServer option" where
  "receive i s =
     (case (eventChannels s i, watchers s i) of
        (Some (e # q), Some w) \<Rightarrow>
          Some (s\<lparr>eventChannels := (eventChannels s)(i \<mapsto> q),
                  watchers := (watchers s)(i \<mapsto> w\<lparr>taken := taken w @ [e]\<rparr>)\<rparr>)
      | _ \<Rightarrow> None)"

text \<open>The events sent to the client: those taken that match the query.\<close>

definition sent :: "watcher \<Rightarrow> NSEResponse list" where
  "sent w = filter (\<lambda>e. matching (w_query w) (r_nse e)) (taken w)"

section \<open>The step relation\<close>

inductive step :: "memoryNSEServer \<Rightarrow> memoryNSEServer \<Rightarrow> bool" where
  register: "pending s (nse_name r) = None \<Longrightarrow> step s (storeNSE r s)"
| unregister: "pending s n = None \<Longrightarrow> step s (deleteNSE n s)"
| send: "pending s n = Some e \<Longrightarrow> step s (sendEvent n e s)"
| find: "watchers s i = None \<Longrightarrow> Watch query \<Longrightarrow>
    step s (s\<lparr>executor := executor s @ [AddChannel i query],
      watchers := (watchers s)(i \<mapsto> \<lparr>w_query = query, taken = [], receiving = True\<rparr>)\<rparr>)"
| close: "watchers s i = Some w \<Longrightarrow> receiving w \<Longrightarrow>
    step s (s\<lparr>executor := executor s @ [DeleteChannel i],
      watchers := (watchers s)(i \<mapsto> w\<lparr>receiving := False\<rparr>)\<rparr>)"
| start: "running s = Idle \<Longrightarrow> executor s \<noteq> [] \<Longrightarrow> distinct chans \<Longrightarrow>
    set chans = dom (eventChannels s) \<Longrightarrow> dom (networkServiceEndpoints s) \<subseteq> set names \<Longrightarrow>
    step s (startTask chans names s)"
| run: "runningStep s = Some s' \<Longrightarrow> step s s'"
| take: "receive i s = Some s' \<Longrightarrow> step s s'"

inductive reachable :: "nat \<Rightarrow> memoryNSEServer \<Rightarrow> bool" for n where
  init: "reachable n (NewNSEServer n)"
| next_step: "reachable n s \<Longrightarrow> step s s' \<Longrightarrow> reachable n s'"

inductive_cases stepE: "step s s'"

end
