(* ===== verification/Memory_Watch.thy ===== *)
theory Memory_Watch
  imports Memory_Registry
begin

text \<open>
  A watcher of the endpoint registry ends up with what is registered, whatever the interleaving of
  registrations, the executor and the watchers.
\<close>

section \<open>Events\<close>

abbreviation ev_name :: "NSEResponse \<Rightarrow> string" where
  "ev_name e \<equiv> nse_name (r_nse e)"

definition last_ev :: "string \<Rightarrow> NSEResponse list \<Rightarrow> NSEResponse option" where
  "last_ev n es = find (\<lambda>e. ev_name e = n) (rev es)"

lemma last_ev_simps [simp]:
  "last_ev n [] = None"
  "last_ev n (es @ [e]) = (if ev_name e = n then Some e else last_ev n es)"
  "last_ev n [e] = (if ev_name e = n then Some e else None)"
  by (simp_all add: last_ev_def)

lemma last_ev_append: "last_ev n (xs @ ys) = (case last_ev n ys of None \<Rightarrow> last_ev n xs | Some e \<Rightarrow> Some e)"
  unfolding last_ev_def rev_append find_append ..

lemma last_ev_Cons: "last_ev n (e # es) = (case last_ev n es of None \<Rightarrow> if ev_name e = n then Some e else None | Some x \<Rightarrow> Some x)"
  using last_ev_append [of n "[e]" es] by (simp add: last_ev_def split: option.splits)

lemma last_ev_name: "last_ev n es = Some e \<Longrightarrow> ev_name e = n"
  by (auto simp: last_ev_def find_Some_iff)

definition reflects :: "NSEResponse \<Rightarrow> NetworkServiceEndpoint option \<Rightarrow> bool" where
  "reflects e m \<longleftrightarrow> m = (if Deleted e then None else Some (r_nse e))"

fun queue_events :: "task list \<Rightarrow> NSEResponse list" where
  "queue_events [] = []"
| "queue_events (SendEvent e # q) = e # queue_events q"
| "queue_events (_ # q) = queue_events q"

lemma queue_events_append [simp]: "queue_events (p @ q) = queue_events p @ queue_events q"
  by (induction p rule: queue_events.induct) auto

text \<open>The events on \<open>n\<close> the executor has still to start on, and those with the one it is sending.\<close>

definition later :: "memoryNSEServer \<Rightarrow> string \<Rightarrow> NSEResponse list" where
  "later s n = queue_events (executor s) @ (case pending s n of None \<Rightarrow> [] | Some e \<Rightarrow> [e])"

definition current :: "memoryNSEServer \<Rightarrow> NSEResponse list" where
  "current s = (case running s of Sending e is \<Rightarrow> [e] | _ \<Rightarrow> [])"

text \<open>What the running closure has still to put into a channel, and all a watcher has got or is getting.\<close>

abbreviation added :: "NetworkServiceEndpoint \<Rightarrow> NSEResponse" where
  "added r \<equiv> \<lparr>r_nse = r, Deleted = False\<rparr>"

definition remainder :: "memoryNSEServer \<Rightarrow> string \<Rightarrow> NSEResponse list" where
  "remainder s i =
     (case running s of
        Idle \<Rightarrow> []
      | Sending e is \<Rightarrow> if i \<in> set is then [e] else []
      | Ranging j query ns acc \<Rightarrow> if i = j then map added acc else []
      | Initial j acc \<Rightarrow> if i = j then map added acc else [])"

definition backlog :: "memoryNSEServer \<Rightarrow> string \<Rightarrow> NSEResponse list" where
  "backlog s i =
     (case watchers s i of None \<Rightarrow> [] | Some w \<Rightarrow> taken w) @
     (case eventChannels s i of None \<Rightarrow> [] | Some q \<Rightarrow> q) @ remainder s i"

definition to_visit_name :: "memoryNSEServer \<Rightarrow> string \<Rightarrow> string \<Rightarrow> bool" where
  "to_visit_name s i n = (case running s of Ranging j query ns acc \<Rightarrow> i = j \<and> n \<in> set ns | _ \<Rightarrow> False)"

definition channel_ids :: "memoryNSEServer \<Rightarrow> string set" where
  "channel_ids s = dom (eventChannels s)"

fun added_ids :: "task list \<Rightarrow> string list" where
  "added_ids [] = []"
| "added_ids (AddChannel i query # q) = i # added_ids q"
| "added_ids (_ # q) = added_ids q"

lemma added_ids_append [simp]: "added_ids (p @ q) = added_ids p @ added_ids q"
  by (induction p rule: added_ids.induct) auto

lemma added_ids_member: "AddChannel i query \<in> set q \<Longrightarrow> i \<in> set (added_ids q)"
  by (induction q rule: added_ids.induct) auto

section \<open>The invariant\<close>

definition store_inv :: "memoryNSEServer \<Rightarrow> bool" where
  "store_inv s \<longleftrightarrow>
     (\<forall>n r. networkServiceEndpoints s n = Some r \<longrightarrow> nse_name r = n) \<and>
     (\<forall>n e. pending s n = Some e \<longrightarrow> ev_name e = n) \<and>
     (\<forall>n e. last_ev n (current s @ later s n) = Some e \<longrightarrow> reflects e (networkServiceEndpoints s n))"

definition query_of :: "memoryNSEServer \<Rightarrow> string \<Rightarrow> NSEQuery option" where
  "query_of s i = map_option w_query (watchers s i)"

definition queue_inv :: "memoryNSEServer \<Rightarrow> bool" where
  "queue_inv s \<longleftrightarrow> distinct (added_ids (executor s)) \<and>
     (\<forall>i\<in>set (added_ids (executor s)). i \<notin> channel_ids s \<and> (\<exists>w. watchers s i = Some w \<and> taken w = [])) \<and>
     (\<forall>i query. AddChannel i query \<in> set (executor s) \<longrightarrow> query_of s i = Some query)"

definition running_inv :: "memoryNSEServer \<Rightarrow> bool" where
  "running_inv s \<longleftrightarrow>
     (case running s of
        Idle \<Rightarrow> True
      | Sending e is \<Rightarrow> distinct is \<and> set is \<subseteq> channel_ids s
      | Ranging i query ns acc \<Rightarrow> i \<in> channel_ids s \<and> query_of s i = Some query
      | Initial i acc \<Rightarrow> i \<in> channel_ids s)"

definition ids_inv :: "memoryNSEServer \<Rightarrow> bool" where
  "ids_inv s \<longleftrightarrow> finite (channel_ids s) \<and> finite (dom (networkServiceEndpoints s)) \<and>
     channel_ids s \<subseteq> dom (watchers s) \<and> queue_inv s \<and> running_inv s"

text \<open>What the watcher \<open>i\<close> knows about \<open>n\<close> is right once no event on \<open>n\<close> is on its way.\<close>

definition knows :: "memoryNSEServer \<Rightarrow> string \<Rightarrow> string \<Rightarrow> bool" where
  "knows s i n \<longleftrightarrow>
     (\<forall>e. last_ev n (backlog s i) = Some e \<longrightarrow> \<not> Deleted e \<longrightarrow> networkServiceEndpoints s n = Some (r_nse e)) \<and>
     (\<forall>r query. networkServiceEndpoints s n = Some r \<longrightarrow> query_of s i = Some query \<longrightarrow> matching query r \<longrightarrow>
        to_visit_name s i n \<or> last_ev n (backlog s i) = Some (added r))"

definition watch_inv :: "memoryNSEServer \<Rightarrow> bool" where
  "watch_inv s \<longleftrightarrow> (\<forall>i\<in>channel_ids s. \<forall>n. last_ev n (later s n) = None \<longrightarrow> knows s i n)"

section \<open>The store and the events on their way\<close>

lemmas state_defs = storeNSE_def deleteNSE_def sendEvent_def startTask_def pushTo_def

lemma store_inv_frame:
  assumes "store_inv s" "networkServiceEndpoints s' = networkServiceEndpoints s" "pending s' = pending s"
    "queue_events (executor s') = queue_events (executor s)" "current s' = current s"
  shows "store_inv s'"
  using assms(1) unfolding store_inv_def later_def assms(2-) .

text \<open>A change of the store at \<open>n\<close> together with the pending event that reports it.\<close>

lemma store_inv_change:
  assumes "store_inv s" "ev_name e = n" "reflects e m" "\<And>r. m = Some r \<Longrightarrow> nse_name r = n"
  shows "store_inv (s\<lparr>networkServiceEndpoints := (networkServiceEndpoints s)(n := m), pending := (pending s)(n \<mapsto> e)\<rparr>)"
    (is "store_inv ?s")
proof -
  have c: "current ?s = current s" by (simp add: current_def)
  have "reflects x (networkServiceEndpoints ?s k)" if l: "last_ev k (current ?s @ later ?s k) = Some x" for k x
  proof (cases "k = n")
    case True
    then have "x = e" using l assms(2) by (simp add: later_def flip: append_assoc)
    then show ?thesis using True assms(3) by simp
  next
    case False
    then have "later ?s k = later s k" by (simp add: later_def)
    then have "last_ev k (current s @ later s k) = Some x" using l unfolding c by simp
    then show ?thesis using False assms(1) by (simp add: store_inv_def)
  qed
  then show ?thesis using assms unfolding store_inv_def by simp
qed

lemma store_inv_storeNSE: "store_inv s \<Longrightarrow> store_inv (storeNSE r s)"
  unfolding storeNSE_def by (rule store_inv_change) (auto simp: reflects_def)

lemma store_inv_deleteNSE:
  assumes "store_inv s"
  shows "store_inv (deleteNSE n s)"
proof (cases "networkServiceEndpoints s n")
  case None
  then show ?thesis using assms by (simp add: deleteNSE_def)
next
  case (Some r)
  then have "nse_name r = n" using assms by (simp add: store_inv_def)
  with store_inv_change [OF assms, of "\<lparr>r_nse = r, Deleted = True\<rparr>" n None] Some show ?thesis
    by (simp add: deleteNSE_def reflects_def)
qed

lemma later_sendEvent:
  assumes "store_inv s" "pending s n = Some e"
  shows "last_ev m (later (sendEvent n e s) m) = last_ev m (later s m)"
    "last_ev m (current (sendEvent n e s) @ later (sendEvent n e s) m) = last_ev m (current s @ later s m)"
proof -
  have "ev_name e = n" using assms by (simp add: store_inv_def)
  then show "last_ev m (later (sendEvent n e s) m) = last_ev m (later s m)"
    using assms(2) by (cases "m = n") (auto simp: sendEvent_def later_def last_ev_append last_ev_Cons split: option.splits)
  moreover have "current (sendEvent n e s) = current s" by (simp add: sendEvent_def current_def)
  ultimately show "last_ev m (current (sendEvent n e s) @ later (sendEvent n e s) m) = last_ev m (current s @ later s m)"
    by (simp add: last_ev_append [of m "current _"])
qed

lemma store_inv_sendEvent:
  assumes "store_inv s" "pending s n = Some e"
  shows "store_inv (sendEvent n e s)"
  using assms(1) unfolding store_inv_def later_sendEvent(2) [OF assms]
  by (auto simp: sendEvent_def)

lemma store_inv_startTask:
  assumes "store_inv s" "running s = Idle"
  shows "store_inv (startTask chans names s)"
proof -
  have c: "last_ev n (current (startTask chans names s) @ later (startTask chans names s) n) = last_ev n (current s @ later s n)" for n
    using assms(2) by (auto simp: startTask_def current_def later_def split: list.split task.split)
  have "networkServiceEndpoints (startTask chans names s) = networkServiceEndpoints s"
    "pending (startTask chans names s) = pending s"
    by (auto simp: startTask_def split: list.split task.split)
  with assms(1) c show ?thesis unfolding store_inv_def by simp
qed

lemma runningStep_cases:
  assumes "runningStep s = Some s'"
  obtains e where "running s = Sending e []" "s' = s\<lparr>running := Idle\<rparr>"
  | e i "is" q where "running s = Sending e (i # is)" "eventChannels s i = Some q" "length q < eventChannelSize s"
      "s' = s\<lparr>running := Sending e is, eventChannels := (eventChannels s)(i \<mapsto> q @ [e])\<rparr>"
  | i query acc where "running s = Ranging i query [] acc" "s' = s\<lparr>running := Initial i acc\<rparr>"
  | i query n ns acc where "running s = Ranging i query (n # ns) acc"
      "s' = s\<lparr>running := Ranging i query ns (acc @ visit query n s)\<rparr>"
  | i where "running s = Initial i []" "s' = s\<lparr>running := Idle\<rparr>"
  | i r rs q where "running s = Initial i (r # rs)" "eventChannels s i = Some q" "length q < eventChannelSize s"
      "s' = s\<lparr>running := Initial i rs, eventChannels := (eventChannels s)(i \<mapsto> q @ [added r])\<rparr>"
  using assms
  by (auto simp: runningStep_def pushTo_def hasRoom_def split: activity.splits list.splits if_splits option.splits)

lemma store_inv_runningStep:
  assumes "store_inv s" "runningStep s = Some s'"
  shows "store_inv s'"
proof -
  have f: "networkServiceEndpoints s' = networkServiceEndpoints s" "pending s' = pending s" "executor s' = executor s"
    using assms(2) by (auto elim!: runningStep_cases)
  have "current s' = current s \<or> current s' = []"
    using assms(2) by (auto elim!: runningStep_cases simp: current_def)
  moreover have "later s' n = later s n" for n by (simp add: later_def f)
  ultimately have "last_ev n (current s' @ later s' n) = Some e \<Longrightarrow> last_ev n (current s @ later s n) = Some e" for n e
    by (auto simp: last_ev_append split: option.splits)
  with assms(1) show ?thesis unfolding store_inv_def f by blast
qed

lemma store_inv_step:
  assumes "step s s'" "store_inv s"
  shows "store_inv s'"
  using assms
proof (cases rule: step.cases)
  case (find i query)
  then show ?thesis by (intro store_inv_frame [OF assms(2)]) (simp_all add: current_def)
next
  case (close i w)
  then show ?thesis by (intro store_inv_frame [OF assms(2)]) (simp_all add: current_def)
next
  case (take i)
  then show ?thesis
    by (intro store_inv_frame [OF assms(2)]) (auto simp: receive_def current_def split: option.splits list.splits)
qed (auto intro: store_inv_storeNSE store_inv_deleteNSE store_inv_sendEvent store_inv_startTask store_inv_runningStep)

section \<open>Channels and watchers\<close>

lemmas ids_defs = ids_inv_def queue_inv_def running_inv_def channel_ids_def

lemma ids_inv_frame:
  assumes "ids_inv s" "dom (eventChannels s') = dom (eventChannels s)" "executor s' = executor s"
    "watchers s' = watchers s" "running s' = running s" "finite (dom (networkServiceEndpoints s'))"
  shows "ids_inv s'"
  using assms(1,6) unfolding ids_defs query_of_def assms(2-5) by simp

lemma ids_inv_task:
  assumes "ids_inv s" "executor s' = executor s @ [t]" "\<And>i query. t \<noteq> AddChannel i query"
    "eventChannels s' = eventChannels s" "watchers s' = watchers s" "running s' = running s"
    "networkServiceEndpoints s' = networkServiceEndpoints s"
  shows "ids_inv s'"
proof -
  have "added_ids (executor s') = added_ids (executor s)" using assms(2,3) by (cases t) auto
  moreover have "AddChannel i query \<in> set (executor s') \<longleftrightarrow> AddChannel i query \<in> set (executor s)" for i query
    using assms(2,3) by auto
  ultimately show ?thesis using assms(1) unfolding ids_defs query_of_def assms(4-7) by simp
qed

lemma ids_inv_watcher:
  assumes "ids_inv s" "watchers s i = Some w" "w_query w' = w_query w" "i \<in> channel_ids s \<or> taken w' = taken w"
  shows "ids_inv (s\<lparr>watchers := (watchers s)(i \<mapsto> w')\<rparr>)" (is "ids_inv ?s")
proof -
  have c: "channel_ids ?s = channel_ids s" by (simp add: channel_ids_def)
  have "queue_inv s" "running_inv s" "channel_ids s \<subseteq> dom (watchers s)" using assms(1) by (simp_all add: ids_inv_def)
  have "\<exists>v. watchers ?s j = Some v \<and> taken v = []" if "j \<in> set (added_ids (executor s))" for j
  proof (cases "j = i")
    case True
    then have "i \<notin> channel_ids s" "taken w = []"
      using \<open>queue_inv s\<close> that assms(2) by (auto simp: queue_inv_def)
    with True assms(4) show ?thesis by simp
  next
    case False
    then show ?thesis using \<open>queue_inv s\<close> that by (simp add: queue_inv_def)
  qed
  moreover have q: "query_of ?s j = query_of s j" for j using assms(2,3) by (simp add: query_of_def)
  ultimately have "queue_inv ?s" using \<open>queue_inv s\<close> unfolding queue_inv_def c q by simp
  moreover have "running_inv ?s" using \<open>running_inv s\<close> unfolding running_inv_def c q by simp
  ultimately show ?thesis using assms(1) c by (auto simp: ids_inv_def)
qed

lemma ids_inv_find:
  assumes "ids_inv s" "watchers s i = None"
  shows "ids_inv (s\<lparr>executor := executor s @ [AddChannel i query],
    watchers := (watchers s)(i \<mapsto> \<lparr>w_query = query, taken = [], receiving = True\<rparr>)\<rparr>)" (is "ids_inv ?s")
proof -
  have c: "channel_ids ?s = channel_ids s" by (simp add: channel_ids_def)
  have inv: "queue_inv s" "running_inv s" "channel_ids s \<subseteq> dom (watchers s)" using assms(1) by (simp_all add: ids_inv_def)
  have i: "i \<notin> channel_ids s" "i \<notin> set (added_ids (executor s))"
    using inv assms(2) by (auto simp: queue_inv_def)
  then have "AddChannel i q \<notin> set (executor s)" for q using added_ids_member by blast
  moreover have q: "query_of ?s j = (if j = i then Some query else query_of s j)" for j by (simp add: query_of_def)
  ultimately have "queue_inv ?s" using i inv(1) unfolding queue_inv_def c q by auto
  moreover have "running_inv ?s" using inv(2) i(1) unfolding running_inv_def c q by (cases "running s") auto
  ultimately show ?thesis using assms(1) c by (auto simp: ids_inv_def)
qed

lemma ids_inv_startTask:
  assumes "ids_inv s" "running s = Idle" "executor s \<noteq> []" "distinct chans" "set chans = dom (eventChannels s)"
  shows "ids_inv (startTask chans names s)"
proof -
  obtain t q where q: "executor s = t # q" using assms(3) by (cases "executor s") auto
  have inv: "queue_inv s" "channel_ids s \<subseteq> dom (watchers s)" using assms(1) by (simp_all add: ids_inv_def)
  show ?thesis
  proof (cases t)
    case (SendEvent e)
    then show ?thesis using assms q by (auto simp: startTask_def ids_defs query_of_def)
  next
    case (AddChannel i query)
    let ?s = "startTask chans names s"
    have s: "?s = s\<lparr>executor := q, eventChannels := (eventChannels s)(i \<mapsto> []), running := Ranging i query names []\<rparr>"
      using q AddChannel by (simp add: startTask_def)
    have i: "i \<notin> set (added_ids q)" "\<exists>w. watchers s i = Some w" using inv(1) q AddChannel by (auto simp: queue_inv_def)
    have "running_inv ?s" using inv(1) q AddChannel unfolding s by (auto simp: running_inv_def queue_inv_def channel_ids_def query_of_def)
    moreover have "queue_inv ?s" using inv(1) i q AddChannel unfolding s by (auto simp: queue_inv_def channel_ids_def query_of_def)
    ultimately show ?thesis using assms(1) i(2) unfolding s by (auto simp: ids_inv_def channel_ids_def)
  next
    case (DeleteChannel i)
    then show ?thesis using assms q by (auto simp: startTask_def ids_defs query_of_def)
  qed
qed

lemma ids_inv_runningStep: "ids_inv s \<Longrightarrow> runningStep s = Some s' \<Longrightarrow> ids_inv s'"
  by (erule runningStep_cases) (auto simp: ids_defs query_of_def insert_absorb)

lemma receive_cases:
  assumes "receive i s = Some s'"
  obtains e q w where "eventChannels s i = Some (e # q)" "watchers s i = Some w"
    "s' = s\<lparr>eventChannels := (eventChannels s)(i \<mapsto> q), watchers := (watchers s)(i \<mapsto> w\<lparr>taken := taken w @ [e]\<rparr>)\<rparr>"
  using assms by (auto simp: receive_def split: option.splits list.splits)

lemma ids_inv_step:
  assumes "step s s'" "ids_inv s"
  shows "ids_inv s'"
  using assms
proof (cases rule: step.cases)
  case (register r)
  then show ?thesis by (intro ids_inv_frame [OF assms(2)]) (use assms(2) in \<open>auto simp: storeNSE_def ids_inv_def\<close>)
next
  case (unregister n)
  then show ?thesis
    by (intro ids_inv_frame [OF assms(2)]) (use assms(2) in \<open>auto simp: deleteNSE_def ids_inv_def split: option.splits\<close>)
next
  case (send n e)
  then show ?thesis by (intro ids_inv_task [OF assms(2), of _ "SendEvent e"]) (simp_all add: sendEvent_def)
next
  case (find i query)
  then show ?thesis using ids_inv_find [OF assms(2)] by simp
next
  case (close i w)
  have "ids_inv (s\<lparr>watchers := (watchers s)(i \<mapsto> w\<lparr>receiving := False\<rparr>)\<rparr>)"
    by (rule ids_inv_watcher [OF assms(2) close(2)]) simp_all
  then show ?thesis unfolding close(1) by (rule ids_inv_task [of _ _ "DeleteChannel i"]) simp_all
next
  case (start chans names)
  then show ?thesis using ids_inv_startTask [OF assms(2)] by simp
next
  case run
  then show ?thesis using ids_inv_runningStep [OF assms(2)] by simp
next
  case (take i)
  from take(1) show ?thesis
  proof (cases rule: receive_cases)
    case (1 e q w)
    have "ids_inv (s\<lparr>watchers := (watchers s)(i \<mapsto> w\<lparr>taken := taken w @ [e]\<rparr>)\<rparr>)"
      by (rule ids_inv_watcher [OF assms(2) 1(2)]) (use 1(1) in \<open>auto simp: channel_ids_def\<close>)
    then show ?thesis unfolding 1(3)
      by (rule ids_inv_frame) (use 1(1) assms(2) in \<open>auto simp: ids_inv_def\<close>)
  qed
qed

section \<open>What a watcher knows\<close>

lemma knows_cong:
  assumes "knows s i n" "networkServiceEndpoints s' n = networkServiceEndpoints s n"
    "last_ev n (backlog s' i) = last_ev n (backlog s i)"
    "query_of s' i = query_of s i"
    "to_visit_name s i n \<Longrightarrow> to_visit_name s' i n"
  shows "knows s' i n"
  using assms(1,5) unfolding knows_def assms(2-4) by blast

text \<open>The event on \<open>n\<close> that arrived last reports what is stored.\<close>

lemma knows_reflects:
  assumes "last_ev n (backlog s i) = Some e" "reflects e (networkServiceEndpoints s n)"
  shows "knows s i n"
  using assms by (cases e) (auto simp: knows_def reflects_def split: if_splits)

lemma watch_inv_frame:
  assumes "watch_inv s" "channel_ids s' \<subseteq> channel_ids s"
    "\<And>n. last_ev n (later s' n) = None \<Longrightarrow>
      last_ev n (later s n) = None \<and> networkServiceEndpoints s' n = networkServiceEndpoints s n"
    "\<And>i n. i \<in> channel_ids s' \<Longrightarrow> last_ev n (backlog s' i) = last_ev n (backlog s i)"
    "\<And>i. i \<in> channel_ids s' \<Longrightarrow> query_of s' i = query_of s i"
    "\<And>i n. to_visit_name s i n \<Longrightarrow> to_visit_name s' i n"
  shows "watch_inv s'"
  unfolding watch_inv_def
proof (intro ballI allI impI)
  fix i n assume i: "i \<in> channel_ids s'" and l: "last_ev n (later s' n) = None"
  then have "knows s i n" using assms(1-3) by (auto simp: watch_inv_def)
  then show "knows s' i n" using assms(3) [OF l] assms(4-6) i by (intro knows_cong [of s i n s']) auto
qed

lemma watch_inv_change:
  assumes "watch_inv s" "ev_name e = n"
  shows "watch_inv (s\<lparr>networkServiceEndpoints := (networkServiceEndpoints s)(n := m), pending := (pending s)(n \<mapsto> e)\<rparr>)"
proof (rule watch_inv_frame [OF assms(1)], goal_cases)
  case (2 k)
  then have "k \<noteq> n" using assms(2) by (auto simp: later_def last_ev_append split: option.splits)
  with 2 show ?case by (simp add: later_def)
qed (simp_all add: channel_ids_def backlog_def remainder_def query_of_def to_visit_name_def)

lemma watch_inv_startTask:
  assumes "watch_inv s" "store_inv s" "ids_inv s" "running s = Idle" "executor s \<noteq> []"
    "set chans = dom (eventChannels s)" "dom (networkServiceEndpoints s) \<subseteq> set names"
  shows "watch_inv (startTask chans names s)"
proof -
  obtain t q where q: "executor s = t # q" using assms(5) by (cases "executor s") auto
  let ?s = "startTask chans names s"
  show ?thesis
  proof (cases t)
    case (SendEvent e)
    have s: "?s = s\<lparr>executor := q, running := Sending e chans\<rparr>" using q SendEvent by (simp add: startTask_def)
    have l: "later s n = e # later ?s n" for n using q SendEvent unfolding s by (simp add: later_def)
    have b: "backlog ?s i = backlog s i @ [e]" if "i \<in> channel_ids s" for i
      using that assms(4,6) unfolding s by (simp add: backlog_def remainder_def channel_ids_def)
    show ?thesis unfolding watch_inv_def
    proof (intro ballI allI impI)
      fix i n assume "i \<in> channel_ids ?s" and n: "last_ev n (later ?s n) = None"
      then have i: "i \<in> channel_ids s" unfolding s by (simp add: channel_ids_def)
      show "knows ?s i n"
      proof (cases "ev_name e = n")
        case True
        have "current s = []" using assms(4) by (simp add: current_def)
        then have "last_ev n (current s @ later s n) = Some e" using l n True by (simp add: last_ev_Cons)
        then have "reflects e (networkServiceEndpoints s n)" using assms(2) by (simp add: store_inv_def)
        then show ?thesis using b [OF i] True unfolding s by (intro knows_reflects [of _ _ _ e]) simp_all
      next
        case False
        then have "knows s i n" using assms(1) i l n by (simp add: watch_inv_def last_ev_Cons)
        then show ?thesis using b [OF i] False assms(4) unfolding s
          by (elim knows_cong) (simp_all add: query_of_def to_visit_name_def)
      qed
    qed
  next
    case (AddChannel i query)
    have s: "?s = s\<lparr>executor := q, eventChannels := (eventChannels s)(i \<mapsto> []), running := Ranging i query names []\<rparr>"
      using q AddChannel by (simp add: startTask_def)
    have inv: "queue_inv s" "channel_ids s \<subseteq> dom (watchers s)" using assms(3) by (simp_all add: ids_inv_def)
    obtain w where w: "watchers s i = Some w" "taken w = []" using inv(1) q AddChannel by (auto simp: queue_inv_def)
    have l: "later ?s n = later s n" for n using q AddChannel unfolding s by (simp add: later_def)
    show ?thesis unfolding watch_inv_def
    proof (intro ballI allI impI)
      fix j n assume j: "j \<in> channel_ids ?s" and n: "last_ev n (later ?s n) = None"
      show "knows ?s j n"
      proof (cases "j = i")
        case True
        have "backlog ?s i = []" using w unfolding s by (simp add: backlog_def remainder_def)
        moreover have "to_visit_name ?s i n" if "networkServiceEndpoints s n = Some r" for r
          using that assms(7) unfolding s by (auto simp: to_visit_name_def)
        ultimately show ?thesis using True unfolding knows_def s by simp
      next
        case False
        then have "j \<in> channel_ids s" using j unfolding s by (auto simp: channel_ids_def)
        then have "knows s j n" using assms(1) n l by (simp add: watch_inv_def)
        then show ?thesis using False assms(4) unfolding s
          by (elim knows_cong) (simp_all add: query_of_def to_visit_name_def backlog_def remainder_def)
      qed
    qed
  next
    case (DeleteChannel i)
    then have "?s = s\<lparr>executor := q, eventChannels := (eventChannels s)(i := None)\<rparr>"
      using q by (simp add: startTask_def)
    then show ?thesis using q DeleteChannel assms(4)
      by (intro watch_inv_frame [OF assms(1)])
        (auto simp: channel_ids_def later_def backlog_def remainder_def query_of_def to_visit_name_def)
  qed
qed

lemma watch_inv_visit:
  assumes "watch_inv s" "store_inv s" "ids_inv s" "running s = Ranging i query (n # ns) acc"
  shows "watch_inv (s\<lparr>running := Ranging i query ns (acc @ visit query n s)\<rparr>)" (is "watch_inv ?s")
  unfolding watch_inv_def
proof (intro ballI allI impI)
  fix j m assume "j \<in> channel_ids ?s" and "last_ev m (later ?s m) = None"
  then have k: "knows s j m" using assms(1) by (simp add: watch_inv_def channel_ids_def later_def)
  have q: "query_of s i = Some query" using assms(3,4) by (simp add: ids_inv_def running_inv_def)
  have b: "backlog ?s i = backlog s i @ map added (visit query n s)" "j \<noteq> i \<Longrightarrow> backlog ?s j = backlog s j"
    using assms(4) by (simp_all add: backlog_def remainder_def)
  have f: "networkServiceEndpoints ?s = networkServiceEndpoints s" "query_of ?s = query_of s"
    by (simp_all add: query_of_def fun_eq_iff)
  have name: "networkServiceEndpoints s n = Some r \<Longrightarrow> nse_name r = n" for r
    using assms(2) by (simp add: store_inv_def)
  show "knows ?s j m"
  proof (cases "j = i")
    case False
    then show ?thesis using k b(2) f assms(4) by (elim knows_cong) (simp_all add: to_visit_name_def)
  next
    case True
    show ?thesis
    proof (cases "visit query n s")
      case Nil
      then have "networkServiceEndpoints s n = Some r \<Longrightarrow> \<not> matching query r" for r
        by (simp add: visit_def split: if_splits)
      moreover have "last_ev m (backlog ?s i) = last_ev m (backlog s i)" using b(1) Nil by simp
      ultimately show ?thesis using k True q f assms(4)
        unfolding knows_def by (auto simp: to_visit_name_def)
    next
      case (Cons r rs)
      then have r: "networkServiceEndpoints s n = Some r" "rs = []"
        by (auto simp: visit_def split: option.splits if_splits)
      show ?thesis
      proof (cases "m = n")
        case True
        then have "last_ev m (backlog ?s i) = Some (added r)" using b(1) Cons r name by simp
        then show ?thesis using True \<open>j = i\<close> r(1)
          by (intro knows_reflects [of _ _ _ "added r"]) (simp_all add: reflects_def)
      next
        case False
        then have "last_ev m (backlog ?s i) = last_ev m (backlog s i)" using b(1) Cons r name by simp
        then show ?thesis using k True f False assms(4) by (elim knows_cong) (auto simp: to_visit_name_def)
      qed
    qed
  qed
qed

lemma watch_inv_runningStep:
  assumes "watch_inv s" "store_inv s" "ids_inv s" "runningStep s = Some s'"
  shows "watch_inv s'"
  using assms(4)
proof (cases rule: runningStep_cases)
  case (4 i query n ns acc)
  then show ?thesis using watch_inv_visit [OF assms(1-3)] by simp
next
  case (2 e i "is" q)
  then have "i \<notin> set is" using assms(3) by (simp add: ids_inv_def running_inv_def)
  with 2 show ?thesis
    by (intro watch_inv_frame [OF assms(1)])
      (auto simp: channel_ids_def later_def backlog_def remainder_def query_of_def to_visit_name_def)
qed (intro watch_inv_frame [OF assms(1)];
     auto simp: channel_ids_def later_def backlog_def remainder_def query_of_def to_visit_name_def)+

lemma watch_inv_step:
  assumes "step s s'" "watch_inv s" "store_inv s" "ids_inv s"
  shows "watch_inv s'"
  using assms(1)
proof (cases rule: step.cases)
  case (register r)
  then show ?thesis using watch_inv_change [OF assms(2)] by (simp add: storeNSE_def)
next
  case (unregister n)
  show ?thesis
  proof (cases "networkServiceEndpoints s n")
    case None
    then show ?thesis using unregister assms(2) by (simp add: deleteNSE_def)
  next
    case (Some r)
    then have "nse_name r = n" using assms(3) by (simp add: store_inv_def)
    with Some show ?thesis
      using watch_inv_change [OF assms(2), of "\<lparr>r_nse = r, Deleted = True\<rparr>" n None] unregister
      by (simp add: deleteNSE_def)
  qed
next
  case (send n e)
  show ?thesis unfolding send(1)
    by (rule watch_inv_frame [OF assms(2)])
      (simp_all add: later_sendEvent(1) [OF assms(3) send(2)] channel_ids_def backlog_def remainder_def query_of_def
        to_visit_name_def, simp_all add: sendEvent_def)
next
  case (find i query)
  have "i \<notin> channel_ids s" using find(2) assms(4) by (auto simp: ids_inv_def)
  then show ?thesis unfolding find(1)
    by (intro watch_inv_frame [OF assms(2)])
      (auto simp: channel_ids_def later_def backlog_def remainder_def query_of_def to_visit_name_def)
next
  case (close i w)
  then show ?thesis
    by (intro watch_inv_frame [OF assms(2)])
      (auto simp: channel_ids_def later_def backlog_def remainder_def query_of_def to_visit_name_def)
next
  case (start chans names)
  then show ?thesis using watch_inv_startTask [OF assms(2-4)] by simp
next
  case run
  then show ?thesis using watch_inv_runningStep [OF assms(2-4)] by simp
next
  case (take i)
  from take(1) show ?thesis
    by (cases rule: receive_cases) (intro watch_inv_frame [OF assms(2)];
      auto simp: channel_ids_def later_def backlog_def remainder_def query_of_def to_visit_name_def)
qed

lemma reachable_inv: "reachable m s \<Longrightarrow> store_inv s \<and> ids_inv s \<and> watch_inv s \<and> eventChannelSize s = m"
proof (induction rule: reachable.induct)
  case init
  then show ?case
    by (simp add: NewNSEServer_def store_inv_def current_def later_def ids_defs watch_inv_def)
next
  case (next_step s s')
  have "eventChannelSize s' = eventChannelSize s" using next_step.hyps(2)
    by cases (auto simp: state_defs receive_def elim!: runningStep_cases split: option.splits list.splits task.splits)
  with next_step show ?case using store_inv_step ids_inv_step watch_inv_step by metis
qed

section \<open>Settling\<close>

text \<open>The steps that need no new call: enqueueing, the executor, the watchers.\<close>

inductive internal :: "memoryNSEServer \<Rightarrow> memoryNSEServer \<Rightarrow> bool" where
  i_send: "pending s n = Some e \<Longrightarrow> internal s (sendEvent n e s)"
| i_start: "running s = Idle \<Longrightarrow> executor s \<noteq> [] \<Longrightarrow> distinct chans \<Longrightarrow>
    set chans = dom (eventChannels s) \<Longrightarrow> dom (networkServiceEndpoints s) \<subseteq> set names \<Longrightarrow>
    internal s (startTask chans names s)"
| i_run: "runningStep s = Some s' \<Longrightarrow> internal s s'"
| i_take: "receive i s = Some s' \<Longrightarrow> internal s s'"

definition settled :: "memoryNSEServer \<Rightarrow> bool" where
  "settled s \<longleftrightarrow> (\<forall>n. pending s n = None) \<and> executor s = [] \<and> running s = Idle \<and>
     (\<forall>i q. eventChannels s i = Some q \<longrightarrow> q = [])"

lemma internal_step: "internal s s' \<Longrightarrow> step s s'"
  by (induction rule: internal.induct) (auto intro: step.intros)

lemma internal_store: "internal s s' \<Longrightarrow> networkServiceEndpoints s' = networkServiceEndpoints s"
  by (induction rule: internal.induct)
    (auto simp: sendEvent_def startTask_def elim!: runningStep_cases receive_cases split: list.splits task.splits)

text \<open>No deadlock: a full channel can be received from, so something can always move.\<close>

lemma internal_progress:
  assumes "ids_inv s" "0 < eventChannelSize s" "\<not> settled s"
  shows "\<exists>s'. internal s s'"
proof -
  have d: "channel_ids s \<subseteq> dom (watchers s)" "running_inv s" "finite (dom (eventChannels s))"
    "finite (dom (networkServiceEndpoints s))" using assms(1) by (simp_all add: ids_inv_def channel_ids_def)
  have take: "\<exists>s'. internal s s'" if c: "eventChannels s i = Some q" "q \<noteq> []" for i q
  proof -
    obtain w where "watchers s i = Some w" using d(1) c by (auto simp: channel_ids_def)
    with c have "receive i s \<noteq> None" by (cases q) (auto simp: receive_def)
    then show ?thesis using i_take by blast
  qed
  have push: "hasRoom i s \<or> (\<exists>s'. internal s s')" if "i \<in> channel_ids s" for i
  proof -
    obtain q where q: "eventChannels s i = Some q" using \<open>i \<in> channel_ids s\<close> by (auto simp: channel_ids_def)
    then show ?thesis using take [OF q] assms(2) by (cases "q = []") (auto simp: hasRoom_def)
  qed
  consider n e where "pending s n = Some e" | "running s \<noteq> Idle" | "running s = Idle" "executor s \<noteq> []"
    | i q where "eventChannels s i = Some q" "q \<noteq> []"
    using assms(3) by (auto simp: settled_def)
  then show ?thesis
  proof cases
    case 2
    then have "runningStep s \<noteq> None \<or> (\<exists>s'. internal s s')"
      using d(2) by (auto simp: running_inv_def runningStep_def split: activity.splits list.splits dest: push)
    then show ?thesis using i_run by blast
  next
    case 3
    obtain chans where "distinct chans" "set chans = dom (eventChannels s)"
      using finite_distinct_list [OF d(3)] by blast
    moreover obtain names where "set names = dom (networkServiceEndpoints s)"
      using finite_list [OF d(4)] by blast
    ultimately show ?thesis using i_start [OF 3] by blast
  qed (use i_send take in blast)+
qed

fun activity_size :: "activity \<Rightarrow> nat" where
  "activity_size Idle = 0"
| "activity_size (Sending e is) = Suc (length is)"
| "activity_size (Ranging i query ns acc) = 2 * length ns + length acc + 2"
| "activity_size (Initial i acc) = Suc (length acc)"

definition settle_measure :: "memoryNSEServer \<Rightarrow> nat \<times> nat \<times> nat \<times> nat" where
  "settle_measure s = (card (dom (pending s)), length (executor s), activity_size (running s),
     \<Sum>i\<in>dom (eventChannels s). length (the (eventChannels s i)))"

abbreviation lex4 :: "((nat \<times> nat \<times> nat \<times> nat) \<times> (nat \<times> nat \<times> nat \<times> nat)) set" where
  "lex4 \<equiv> less_than <*lex*> less_than <*lex*> less_than <*lex*> less_than"

lemma visit_length: "length (visit query n s) \<le> 1"
  by (simp add: visit_def split: option.splits)

lemma internal_decreases:
  assumes "internal s s'" "finite (dom (pending s))" "finite (dom (eventChannels s))"
  shows "(settle_measure s', settle_measure s) \<in> lex4"
  using assms
proof (induction rule: internal.induct)
  case (i_send s n e)
  then have "card (dom (pending s) - {n}) < card (dom (pending s))" by (intro card_Diff1_less) auto
  then show ?case by (simp add: settle_measure_def sendEvent_def)
next
  case (i_start s chans names)
  then show ?case by (auto simp: settle_measure_def startTask_def split: list.splits task.splits)
next
  case (i_run s s')
  from i_run(1) show ?case
  proof (cases rule: runningStep_cases)
    case (4 i query n ns acc)
    then show ?thesis using visit_length [of query n s] by (simp add: settle_measure_def)
  qed (simp_all add: settle_measure_def)
next
  case (i_take i s s')
  from i_take(1) show ?case
  proof (cases rule: receive_cases)
    case (1 e q w)
    let ?f = "\<lambda>s j. length (the (eventChannels s j))"
    have d: "dom (eventChannels s') = dom (eventChannels s)" and i: "i \<in> dom (eventChannels s)" using 1 by auto
    have "sum (?f s') (dom (eventChannels s)) < sum (?f s) (dom (eventChannels s))"
      by (rule sum_strict_mono_ex1 [OF i_take(3)]) (use 1 i in auto)
    then show ?thesis using 1(3) d by (simp add: settle_measure_def)
  qed
qed

lemma reachable_finite: "reachable m s \<Longrightarrow> finite (dom (pending s))"
proof (induction rule: reachable.induct)
  case (next_step s s')
  then have "dom (pending s') \<subseteq> dom (pending s) \<or> (\<exists>n. dom (pending s') \<subseteq> insert n (dom (pending s)))"
    by (elim step.cases; fastforce simp: storeNSE_def deleteNSE_def sendEvent_def startTask_def
        elim!: runningStep_cases receive_cases split: list.splits task.splits option.splits)
  with next_step.IH show ?case using finite_subset by auto
qed (simp add: NewNSEServer_def)

lemma settles:
  assumes "reachable m s" "0 < m"
  shows "\<exists>s'. internal\<^sup>*\<^sup>* s s' \<and> settled s' \<and> reachable m s' \<and> networkServiceEndpoints s' = networkServiceEndpoints s"
proof -
  have wf: "wf lex4" by (intro wf_lex_prod wf_less_than)
  show ?thesis using assms(1)
  proof (induction "settle_measure s" arbitrary: s rule: wf_induct_rule [OF wf])
    case (1 s)
    note inv = reachable_inv [OF 1(2)]
    show ?case
    proof (cases "settled s")
      case True
      then show ?thesis using 1(2) by blast
    next
      case False
      then obtain s1 where s1: "internal s s1" using internal_progress inv assms(2) by blast
      have "finite (dom (eventChannels s))" using inv by (simp add: ids_inv_def channel_ids_def)
      then have "(settle_measure s1, settle_measure s) \<in> lex4"
        using internal_decreases [OF s1] reachable_finite [OF 1(2)] by blast
      moreover have "reachable m s1" using 1(2) internal_step [OF s1] next_step by blast
      ultimately obtain s' where "internal\<^sup>*\<^sup>* s1 s'" "settled s'" "reachable m s'"
        "networkServiceEndpoints s' = networkServiceEndpoints s1" using 1(1) by blast
      then show ?thesis using s1 internal_store [OF s1] by (metis converse_rtranclp_into_rtranclp)
    qed
  qed
qed

lemma settled_knows:
  assumes "reachable m s" "settled s" "eventChannels s i \<noteq> None" "watchers s i = Some w"
  shows "\<And>e. last_ev n (taken w) = Some e \<Longrightarrow> \<not> Deleted e \<Longrightarrow> networkServiceEndpoints s n = Some (r_nse e)"
    "\<And>r. networkServiceEndpoints s n = Some r \<Longrightarrow> matching (w_query w) r \<Longrightarrow> last_ev n (taken w) = Some (added r)"
proof -
  have "last_ev n (later s n) = None" using assms(2) by (simp add: settled_def later_def)
  moreover have "i \<in> channel_ids s" using assms(3) by (auto simp: channel_ids_def)
  ultimately have k: "knows s i n" using reachable_inv [OF assms(1)] by (simp add: watch_inv_def)
  obtain q where "eventChannels s i = Some q" using assms(3) by auto
  then have b: "backlog s i = taken w" using assms(2,4) by (auto simp: settled_def backlog_def remainder_def)
  show "\<And>e. last_ev n (taken w) = Some e \<Longrightarrow> \<not> Deleted e \<Longrightarrow> networkServiceEndpoints s n = Some (r_nse e)"
    using k unfolding knows_def b by blast
  have "\<not> to_visit_name s i n" "query_of s i = Some (w_query w)"
    using assms(2,4) by (simp_all add: to_visit_name_def query_of_def settled_def)
  then show "\<And>r. networkServiceEndpoints s n = Some r \<Longrightarrow> matching (w_query w) r \<Longrightarrow> last_ev n (taken w) = Some (added r)"
    using k unfolding knows_def b by blast
qed

text \<open>The last event on \<open>n\<close> that was taken is the last one sent, if it matches.\<close>

lemma last_ev_None: "last_ev n es = None \<longleftrightarrow> (\<forall>e\<in>set es. ev_name e \<noteq> n)"
  by (auto simp: last_ev_def find_None_iff)

lemma last_ev_filter:
  assumes "last_ev n es = Some e" "P e"
  shows "last_ev n (filter P es) = Some e"
  using assms(1)
proof (induction es rule: rev_induct)
  case (snoc x es)
  then show ?case using assms(2) by (auto split: if_splits)
qed simp

end
