(* ===== verification/Memory_Handlers.thy ===== *)
theory Memory_Handlers
  imports Memory_Watch
begin

text \<open>
  The handlers of the in-memory registries as whole calls (\<^verbatim>\<open>src/pkg/registry/common/memory\<close>). Those of the
  endpoint registry are compositions of the atomic actions of the step relation. \<^verbatim>\<open>server.Send\<close> is an
  argument that gives an error or none and the client's new state; \<open>names\<close> is the order \<^verbatim>\<open>Range\<close> goes in.
\<close>

section \<open>Endpoints\<close>

definition memoryNSEServer_Register ::
  "(NetworkServiceEndpoint \<Rightarrow> 's \<Rightarrow> (nsm_error + NetworkServiceEndpoint) \<times> 's) \<Rightarrow> NetworkServiceEndpoint \<Rightarrow>
     memoryNSEServer \<Rightarrow> 's \<Rightarrow> (nsm_error + NetworkServiceEndpoint) \<times> memoryNSEServer \<times> 's" where
  "memoryNSEServer_Register nxt nse s w =
     (case nxt nse w of
        (Inl e, w) \<Rightarrow> (Inl e, s, w)
      | (Inr r, w) \<Rightarrow>
          let s = storeNSE r s;
              s = sendEvent (nse_name r) \<lparr>r_nse = r, Deleted = False\<rparr> s
          in (Inr r, s, w))"

definition memoryNSEServer_Unregister ::
  "(NetworkServiceEndpoint \<Rightarrow> 's \<Rightarrow> (nsm_error + unit) \<times> 's) \<Rightarrow> NetworkServiceEndpoint \<Rightarrow>
     memoryNSEServer \<Rightarrow> 's \<Rightarrow> (nsm_error + unit) \<times> memoryNSEServer \<times> 's" where
  "memoryNSEServer_Unregister nxt nse s w =
     (let n = nse_name nse;
          s = (case networkServiceEndpoints s n of
                 None \<Rightarrow> s
               | Some unregisterNSE \<Rightarrow> sendEvent n \<lparr>r_nse = unregisterNSE, Deleted = True\<rparr> (deleteNSE n s))
      in case nxt nse w of (res, w) \<Rightarrow> (res, s, w))"

fun sendAll :: "('r \<Rightarrow> 'c \<Rightarrow> nsm_error option \<times> 'c) \<Rightarrow> 'r list \<Rightarrow> 'c \<Rightarrow> nsm_error option \<times> 'c" where
  "sendAll send [] c = (None, c)"
| "sendAll send (r # rs) c =
     (case send r c of (Some e, c) \<Rightarrow> (Some e, c) | (None, c) \<Rightarrow> sendAll send rs c)"

text \<open>
  \<^verbatim>\<open>Find\<close>: a query that watches asks the rest of the chain first, then enqueues its channel under the fresh
  identifier \<open>i\<close>; what it receives from there on is the step relation's.
\<close>

definition memoryNSEServer_Find ::
  "string list \<Rightarrow> string \<Rightarrow> (NSEResponse \<Rightarrow> 'c \<Rightarrow> nsm_error option \<times> 'c) \<Rightarrow> (NSEQuery \<Rightarrow> 'c \<Rightarrow> nsm_error option \<times> 'c) \<Rightarrow>
     NSEQuery \<Rightarrow> memoryNSEServer \<Rightarrow> 'c \<Rightarrow> nsm_error option \<times> memoryNSEServer \<times> 'c" where
  "memoryNSEServer_Find names i send nxt query s c =
     (if \<not> Watch query then
        (case sendAll send (map added (allMatches names query s)) c of
           (Some e, c) \<Rightarrow> (Some e, s, c)
         | (None, c) \<Rightarrow> (case nxt query c of (e, c) \<Rightarrow> (e, s, c)))
      else
        (case nxt query c of
           (Some e, c) \<Rightarrow> (Some e, s, c)
         | (None, c) \<Rightarrow>
             (None, s\<lparr>executor := executor s @ [AddChannel i query],
                watchers := (watchers s)(i \<mapsto> \<lparr>w_query = query, taken = [], receiving = True\<rparr>)\<rparr>, c)))"

section \<open>Network services\<close>

record NSQuery =
  q_ns :: NetworkServiceMsg
  ns_Watch :: bool

datatype ns_task =
  SendNS NetworkServiceMsg
| AddNSChannel string NSQuery

record memoryNSServer =
  networkServices :: "string \<rightharpoonup> NetworkServiceMsg"
  ns_executor :: "ns_task list"

definition memoryNSServer_Register ::
  "(NetworkServiceMsg \<Rightarrow> 's \<Rightarrow> (nsm_error + NetworkServiceMsg) \<times> 's) \<Rightarrow> NetworkServiceMsg \<Rightarrow>
     memoryNSServer \<Rightarrow> 's \<Rightarrow> (nsm_error + NetworkServiceMsg) \<times> memoryNSServer \<times> 's" where
  "memoryNSServer_Register nxt ns s w =
     (case nxt ns w of
        (Inl e, w) \<Rightarrow> (Inl e, s, w)
      | (Inr r, w) \<Rightarrow>
          (Inr r, s\<lparr>networkServices := (networkServices s)(ns_name r \<mapsto> r), ns_executor := ns_executor s @ [SendNS r]\<rparr>, w))"

definition memoryNSServer_Unregister ::
  "(NetworkServiceMsg \<Rightarrow> 's \<Rightarrow> (nsm_error + unit) \<times> 's) \<Rightarrow> NetworkServiceMsg \<Rightarrow>
     memoryNSServer \<Rightarrow> 's \<Rightarrow> (nsm_error + unit) \<times> memoryNSServer \<times> 's" where
  "memoryNSServer_Unregister nxt ns s w =
     (let s = s\<lparr>networkServices := (networkServices s)(ns_name ns := None)\<rparr>
      in case nxt ns w of (res, w) \<Rightarrow> (res, s, w))"

definition ns_allMatches :: "string list \<Rightarrow> NSQuery \<Rightarrow> memoryNSServer \<Rightarrow> NetworkServiceMsg list" where
  "ns_allMatches names query s =
     concat (map (\<lambda>n. case networkServices s n of
         None \<Rightarrow> [] | Some ns \<Rightarrow> if MatchNetworkServices (q_ns query) ns then [ns] else []) names)"

definition memoryNSServer_Find ::
  "string list \<Rightarrow> string \<Rightarrow> (NetworkServiceMsg \<Rightarrow> 'c \<Rightarrow> nsm_error option \<times> 'c) \<Rightarrow> (NSQuery \<Rightarrow> 'c \<Rightarrow> nsm_error option \<times> 'c) \<Rightarrow>
     NSQuery \<Rightarrow> memoryNSServer \<Rightarrow> 'c \<Rightarrow> nsm_error option \<times> memoryNSServer \<times> 'c" where
  "memoryNSServer_Find names i send nxt query s c =
     (if \<not> ns_Watch query then
        (case sendAll send (ns_allMatches names query s) c of
           (Some e, c) \<Rightarrow> (Some e, s, c)
         | (None, c) \<Rightarrow> (case nxt query c of (e, c) \<Rightarrow> (e, s, c)))
      else (None, s\<lparr>ns_executor := ns_executor s @ [AddNSChannel i query]\<rparr>, c))"

section \<open>The handlers are runs of the step relation\<close>

lemma Register_steps:
  assumes "memoryNSEServer_Register nxt nse s w = (Inr r, s', w')" "\<And>n. pending s n = None"
  shows "step\<^sup>*\<^sup>* s s'"
proof -
  have "s' = sendEvent (nse_name r) (added r) (storeNSE r s)"
    using assms(1) by (auto simp: memoryNSEServer_Register_def Let_def split: prod.splits sum.splits)
  moreover have "pending (storeNSE r s) (nse_name r) = Some (added r)" by (simp add: storeNSE_def)
  ultimately show ?thesis
    using step.register [OF assms(2)] step.send by (metis converse_rtranclp_into_rtranclp rtranclp.rtrancl_refl)
qed

lemma Unregister_steps:
  assumes "memoryNSEServer_Unregister nxt nse s w = (res, s', w')" "\<And>n. pending s n = None"
  shows "step\<^sup>*\<^sup>* s s'"
proof (cases "networkServiceEndpoints s (nse_name nse)")
  case None
  then show ?thesis using assms(1) by (auto simp: memoryNSEServer_Unregister_def Let_def split: prod.splits)
next
  case (Some r)
  let ?n = "nse_name nse"
  have "s' = sendEvent ?n \<lparr>r_nse = r, Deleted = True\<rparr> (deleteNSE ?n s)"
    using assms(1) Some by (auto simp: memoryNSEServer_Unregister_def Let_def split: prod.splits)
  moreover have "pending (deleteNSE ?n s) ?n = Some \<lparr>r_nse = r, Deleted = True\<rparr>" using Some by (simp add: deleteNSE_def)
  ultimately show ?thesis
    using step.unregister [OF assms(2)] step.send by (metis converse_rtranclp_into_rtranclp rtranclp.rtrancl_refl)
qed

lemma reachable_rtranclp: "step\<^sup>*\<^sup>* s s' \<Longrightarrow> reachable m s \<Longrightarrow> reachable m s'"
  by (induction rule: rtranclp_induct) (auto intro: next_step)

text \<open>A client that takes everything, as a list of what it got.\<close>

lemma sendAll_collect: "sendAll (\<lambda>r c. (None, c @ [r])) rs c = (None, c @ rs)"
  by (induction rs arbitrary: c) auto

lemma set_allMatches:
  "set (allMatches names query s) =
    {nse. \<exists>n\<in>set names. networkServiceEndpoints s n = Some nse \<and> matching query nse}"
  by (auto simp: allMatches_def visit_def split: option.splits if_splits)

lemma set_ns_allMatches:
  "set (ns_allMatches names query s) = {ns. \<exists>n\<in>set names. networkServices s n = Some ns \<and> MatchNetworkServices (q_ns query) ns}"
  by (auto simp: ns_allMatches_def split: option.splits if_splits)

end
