(* ===== verification/Registry_Theorems.thy ===== *)
theory Registry_Theorems
  imports Memory_Handlers
begin

text \<open>
  What the registry promises: a query gets the endpoints that match it, a watcher converges to them
  whatever the interleaving, and the choice of endpoints for a request follows the first match of the
  network service that applies.
\<close>

section \<open>Concrete endpoints\<close>

definition nse_of :: "string \<Rightarrow> string \<Rightarrow> NetworkServiceEndpoint" where
  "nse_of n app = \<lparr>nse_name = n, NetworkServiceNames = Some [''ns''], NetworkServiceLabels = Some [(''ns'', [(''app'', app)])],
     Url = [], ExpirationTime = None, nse_PathIds = []\<rparr>"

definition any_query :: "bool \<Rightarrow> NSEQuery" where
  "any_query w = \<lparr>q_nse = \<lparr>nse_name = [], NetworkServiceNames = Some [''ns''], NetworkServiceLabels = None,
     Url = [], ExpirationTime = None, nse_PathIds = []\<rparr>, Watch = w\<rparr>"

lemma matching_any: "matching (any_query w) (nse_of n app)"
  by (simp add: matching_def any_query_def nse_of_def MatchNetworkServiceEndpoints_def containsAll_def Let_def)

text \<open>One endpoint registered and its event on the way.\<close>

definition one_nse :: memoryNSEServer where
  "one_nse = storeNSE (nse_of ''a'' ''x'') (NewNSEServer 10)"

lemma one_nse_reachable: "reachable 10 one_nse"
  unfolding one_nse_def by (rule next_step [OF init step.register]) (simp add: NewNSEServer_def)

section \<open>Watching\<close>

text \<open>
  C2. When the executor is idle and the channels are drained, a watcher has been sent, for every registered
  endpoint that matches its query, that endpoint as it is now, last of all events with its name; and an
  endpoint it was last told is there is registered as it was told, unless a later event with that name
  did not match the query. This holds after every interleaving of registrations, removals, new and
  closing watchers, the executor and the receivers, for every channel size.
\<close>

theorem watcher_consistent:
  assumes "reachable m s" "settled s" "eventChannels s i \<noteq> None" "watchers s i = Some w"
  shows "(\<forall>n r. networkServiceEndpoints s n = Some r \<longrightarrow> matching (w_query w) r \<longrightarrow> last_ev n (sent w) = Some (added r)) \<and>
    (\<forall>n e. last_ev n (sent w) = Some e \<longrightarrow> \<not> Deleted e \<longrightarrow>
      networkServiceEndpoints s n = Some (r_nse e) \<or>
      (\<exists>e'. last_ev n (taken w) = Some e' \<and> \<not> matching (w_query w) (r_nse e')))"
proof (intro conjI allI impI)
  fix n r
  assume "networkServiceEndpoints s n = Some r" "matching (w_query w) r"
  then show "last_ev n (sent w) = Some (added r)"
    unfolding sent_def using settled_knows(2) [OF assms] by (intro last_ev_filter) auto
next
  fix n e
  assume e: "last_ev n (sent w) = Some e" "\<not> Deleted e"
  then have "last_ev n (sent w) \<noteq> None" by simp
  then have "last_ev n (taken w) \<noteq> None" unfolding last_ev_None sent_def by auto
  then obtain e' where e': "last_ev n (taken w) = Some e'" by blast
  show "networkServiceEndpoints s n = Some (r_nse e) \<or>
      (\<exists>e'. last_ev n (taken w) = Some e' \<and> \<not> matching (w_query w) (r_nse e'))"
  proof (cases "matching (w_query w) (r_nse e')")
    case True
    then have "last_ev n (sent w) = Some e'" unfolding sent_def by (intro last_ev_filter [OF e'])
    then show ?thesis using e settled_knows(1) [OF assms e'] by simp
  qed (use e' in blast)
qed

text \<open>The registry after a watcher came to one endpoint and took the event.\<close>

definition watched :: memoryNSEServer where
  "watched = \<lparr>networkServiceEndpoints = [''a'' \<mapsto> nse_of ''a'' ''x''], pending = Map.empty, executor = [], running = Idle,
     eventChannels = [''w'' \<mapsto> []], eventChannelSize = 10,
     watchers = [''w'' \<mapsto> \<lparr>w_query = any_query True, taken = [added (nse_of ''a'' ''x'')], receiving = True\<rparr>]\<rparr>"

lemma watched_reachable: "reachable 10 watched"
proof -
  let ?a = "nse_of ''a'' ''x''" and ?q = "any_query True"
  let ?w = "\<lparr>w_query = ?q, taken = [], receiving = True\<rparr>"
  let ?s1 = "sendEvent ''a'' (added ?a) one_nse"
  let ?s2 = "startTask [] [''a''] ?s1"
  let ?s3 = "?s2\<lparr>running := Idle\<rparr>"
  let ?s4 = "?s3\<lparr>executor := [AddChannel ''w'' ?q], watchers := [''w'' \<mapsto> ?w]\<rparr>"
  let ?s5 = "startTask [] [''a''] ?s4"
  let ?s6 = "?s5\<lparr>running := Ranging ''w'' ?q [] [?a]\<rparr>"
  let ?s7 = "?s5\<lparr>running := Initial ''w'' [?a]\<rparr>"
  let ?s8 = "pushTo ''w'' (added ?a) (?s5\<lparr>running := Initial ''w'' []\<rparr>)"
  let ?s9 = "?s8\<lparr>running := Idle\<rparr>"
  note d = one_nse_def storeNSE_def NewNSEServer_def sendEvent_def startTask_def nse_of_def
  have r1: "reachable 10 ?s1" by (rule next_step [OF one_nse_reachable step.send]) (simp add: d)
  have r2: "reachable 10 ?s2" by (rule next_step [OF r1 step.start]) (simp_all add: d)
  have r3: "reachable 10 ?s3" by (rule next_step [OF r2 step.run]) (simp add: d runningStep_def)
  have "?s4 = ?s3\<lparr>executor := executor ?s3 @ [AddChannel ''w'' ?q], watchers := (watchers ?s3)(''w'' \<mapsto> ?w)\<rparr>"
    by (simp add: d)
  then have r4: "reachable 10 ?s4" using next_step [OF r3 step.find [of ?s3 "''w''" ?q]] by (simp add: d any_query_def)
  have r5: "reachable 10 ?s5" by (rule next_step [OF r4 step.start]) (simp_all add: d)
  have "visit ?q ''a'' ?s5 = [?a]" using matching_any [of True "''a''" "''x''"] by (simp add: visit_def d)
  then have r6: "reachable 10 ?s6" by (intro next_step [OF r5 step.run]) (simp add: d runningStep_def)
  have r7: "reachable 10 ?s7" by (rule next_step [OF r6 step.run]) (simp add: d runningStep_def)
  have r8: "reachable 10 ?s8" by (rule next_step [OF r7 step.run]) (simp add: d runningStep_def hasRoom_def)
  have r9: "reachable 10 ?s9" by (rule next_step [OF r8 step.run]) (simp add: d runningStep_def pushTo_def)
  show ?thesis by (rule next_step [OF r9 step.take [of "''w''"]]) (simp add: watched_def d receive_def pushTo_def)
qed

theorem watcher_consistent_witness:
  "\<exists>w. watchers watched ''w'' = Some w \<and> last_ev ''a'' (sent w) = Some (added (nse_of ''a'' ''x''))"
proof -
  have "settled watched" "eventChannels watched ''w'' \<noteq> None" by (simp_all add: watched_def settled_def)
  from watcher_consistent [OF watched_reachable this] show ?thesis
    by (simp add: watched_def matching_any)
qed

text \<open>
  C37. Nothing gets stuck on a full channel. From every reachable state, if no new call comes, no run of the
  executor and the receivers goes on forever, and every one that can go no further has settled, with
  the registered endpoints as they were.
\<close>

theorem registry_settles:
  assumes "reachable m s" "0 < m"
  shows "\<not> (\<exists>f. f 0 = s \<and> (\<forall>k. internal (f k) (f (Suc k)))) \<and>
    (\<forall>t. internal\<^sup>*\<^sup>* s t \<and> \<not> (\<exists>u. internal t u) \<longrightarrow> settled t \<and> networkServiceEndpoints t = networkServiceEndpoints s)"
proof (intro conjI allI impI notI)
  assume "\<exists>f. f 0 = s \<and> (\<forall>k. internal (f k) (f (Suc k)))"
  then obtain f where f: "f 0 = s" "\<And>k. internal (f k) (f (Suc k))" by blast
  have r: "reachable m (f k)" for k
    by (induction k) (use f assms(1) internal_step next_step in \<open>metis+\<close>)
  have "(settle_measure (f (Suc k)), settle_measure (f k)) \<in> lex4" for k
    using internal_decreases [OF f(2)] reachable_finite [OF r] reachable_inv [OF r] by (simp add: ids_inv_def channel_ids_def)
  then have "\<exists>g. \<forall>k. (g (Suc k), g k) \<in> lex4" by (intro exI [of _ "settle_measure \<circ> f"]) (simp add: comp_def)
  moreover have "wf lex4" by (intro wf_lex_prod wf_less_than)
  ultimately show False by (simp add: wf_iff_no_infinite_down_chain)
next
  fix t
  assume t: "internal\<^sup>*\<^sup>* s t \<and> \<not> (\<exists>u. internal t u)"
  then have "step\<^sup>*\<^sup>* s t" using mono_rtranclp [of internal step] internal_step by blast
  then have "reachable m t" by (rule reachable_rtranclp [OF _ assms(1)])
  then show "settled t" using t internal_progress reachable_inv assms(2) by blast
  from t have "internal\<^sup>*\<^sup>* s t" by blast
  then show "networkServiceEndpoints t = networkServiceEndpoints s"
    by (induction rule: rtranclp_induct) (simp_all add: internal_store)
qed

theorem registry_settles_witness: "\<exists>t. internal one_nse t \<and> \<not> settled one_nse \<and> \<not> (\<exists>f. f 0 = one_nse \<and> (\<forall>k. internal (f k) (f (Suc k))))"
proof -
  have "pending one_nse ''a'' = Some (added (nse_of ''a'' ''x''))" by (simp add: one_nse_def storeNSE_def nse_of_def)
  then have "\<exists>t. internal one_nse t" "\<not> settled one_nse" using i_send by (blast, force simp: settled_def)
  moreover have "\<not> (\<exists>f. f 0 = one_nse \<and> (\<forall>k. internal (f k) (f (Suc k))))"
    using registry_settles [OF one_nse_reachable] by auto
  ultimately show ?thesis by blast
qed

section \<open>Finding\<close>

text \<open>
  A query that does not watch gets exactly the registered endpoints that match it: what was just
  registered if it matches, nothing that was just unregistered, and all others as before.
\<close>

lemma Find_after:
  assumes "Inr r = fst (memoryNSEServer_Register nxt nse s w)" "s1 = fst (snd (memoryNSEServer_Register nxt nse s w))"
    and "s2 = fst (snd (memoryNSEServer_Unregister nxt' nse s w))"
    and "\<not> Watch query" "dom (networkServiceEndpoints s1) \<subseteq> set names" "dom (networkServiceEndpoints s2) \<subseteq> set names"
    and "f = (\<lambda>s. set (snd (snd (memoryNSEServer_Find names i (\<lambda>x c. (None, c @ [x])) (\<lambda>q c. (None, c)) query s []))))"
  shows "f s1 = {added x |x n. ((networkServiceEndpoints s)(nse_name r \<mapsto> r)) n = Some x \<and> matching query x} \<and>
    f s2 = {added x |x n. n \<noteq> nse_name nse \<and> networkServiceEndpoints s n = Some x \<and> matching query x}"
proof -
  have f: "f t = {added x |x n. networkServiceEndpoints t n = Some x \<and> matching query x}"
    if "dom (networkServiceEndpoints t) \<subseteq> set names" for t
    using that assms(4) unfolding assms(7)
    by (auto simp: memoryNSEServer_Find_def sendAll_collect set_allMatches)
  have "networkServiceEndpoints s1 = (networkServiceEndpoints s)(nse_name r \<mapsto> r)"
    using assms(1,2) by (auto simp: memoryNSEServer_Register_def Let_def sendEvent_def storeNSE_def split: prod.splits sum.splits)
  moreover have "networkServiceEndpoints s2 n = (if n = nse_name nse then None else networkServiceEndpoints s n)" for n
    using assms(3) by (auto simp: memoryNSEServer_Unregister_def Let_def sendEvent_def deleteNSE_def split: prod.splits option.splits)
  ultimately show ?thesis using f [OF assms(5)] f [OF assms(6)] by auto
qed

theorem Find_after_witness:
  "set (snd (snd (memoryNSEServer_Find [''a''] ''i'' (\<lambda>x c. (None, c @ [x])) (\<lambda>q c. (None, c)) (any_query False)
     (fst (snd (memoryNSEServer_Register (\<lambda>n w. (Inr n, w)) (nse_of ''a'' ''x'') (NewNSEServer 10) ()))) []))) =
     {added (nse_of ''a'' ''x'')}"
proof -
  let ?reg = "memoryNSEServer_Register (\<lambda>n w. (Inr n, w)) (nse_of ''a'' ''x'') (NewNSEServer 10) ()"
    and ?unreg = "memoryNSEServer_Unregister (\<lambda>n w. (Inr (), w)) (nse_of ''a'' ''x'') (NewNSEServer 10) ()"
  have e: "Inr (nse_of ''a'' ''x'') = fst ?reg" "\<not> Watch (any_query False)"
    "dom (networkServiceEndpoints (fst (snd ?reg))) \<subseteq> set [''a'']" "dom (networkServiceEndpoints (fst (snd ?unreg))) \<subseteq> set [''a'']"
    by (simp_all add: memoryNSEServer_Register_def memoryNSEServer_Unregister_def NewNSEServer_def storeNSE_def sendEvent_def
        any_query_def nse_of_def Let_def)
  have "((networkServiceEndpoints (NewNSEServer 10))(nse_name (nse_of ''a'' ''x'') \<mapsto> nse_of ''a'' ''x'')) n = Some x \<longleftrightarrow>
      n = ''a'' \<and> x = nse_of ''a'' ''x''" for n x
    by (auto simp: NewNSEServer_def nse_of_def)
  with conjunct1 [OF Find_after [OF e(1) refl refl e(2,3,4) refl]] show ?thesis by (simp add: matching_any)
qed

text \<open>
  Network services: after a registration a query finds the new service if it matches, after a removal
  it does not, and a removal puts nothing into the event queue, so watchers are not told of it.
\<close>

lemma network_service_store:
  assumes "memoryNSServer_Register nxt ns s w = (Inr r, s1, w1)" "memoryNSServer_Unregister nxt' ns s w = (res, s2, w2)"
  shows "networkServices s1 = (networkServices s)(ns_name r \<mapsto> r) \<and> ns_executor s1 = ns_executor s @ [SendNS r] \<and>
    networkServices s2 = (networkServices s)(ns_name ns := None) \<and> ns_executor s2 = ns_executor s \<and>
    (dom (networkServices s2) \<subseteq> set names \<longrightarrow>
      set (ns_allMatches names query s2) = {x. \<exists>n. n \<noteq> ns_name ns \<and> networkServices s n = Some x \<and> MatchNetworkServices (q_ns query) x})"
proof -
  have 2: "networkServices s2 = (networkServices s)(ns_name ns := None)" "ns_executor s2 = ns_executor s"
    using assms(2) by (auto simp: memoryNSServer_Unregister_def Let_def split: prod.splits)
  have "set (ns_allMatches names query s2) = {x. \<exists>n. n \<noteq> ns_name ns \<and> networkServices s n = Some x \<and> MatchNetworkServices (q_ns query) x}"
    if "dom (networkServices s2) \<subseteq> set names"
    using that unfolding set_ns_allMatches 2(1) by (auto split: if_splits)
  with 2 show ?thesis using assms(1) by (auto simp: memoryNSServer_Register_def split: prod.splits sum.splits)
qed

definition plain_service :: NetworkServiceMsg where
  "plain_service = \<lparr>ns_name = ''ns'', Payload = ''IP'', Matches = [], ns_PathIds = []\<rparr>"

theorem network_service_store_witness:
  "ns_executor (fst (snd (memoryNSServer_Unregister (\<lambda>n w. (Inr (), w)) plain_service
     \<lparr>networkServices = [''ns'' \<mapsto> plain_service], ns_executor = []\<rparr> ()))) = []"
proof -
  let ?s = "\<lparr>networkServices = [''ns'' \<mapsto> plain_service], ns_executor = []\<rparr>"
  obtain r s1 w1 where 1: "memoryNSServer_Register (\<lambda>n w. (Inr n, w)) plain_service ?s () = (Inr r, s1, w1)"
    by (simp add: memoryNSServer_Register_def)
  obtain res s2 w2 where 2: "memoryNSServer_Unregister (\<lambda>n w. (Inr (), w)) plain_service ?s () = (res, s2, w2)"
    by (metis prod_cases3)
  from network_service_store [OF 1 2] 2 show ?thesis by simp
qed

section \<open>Matching\<close>

text \<open>
  The endpoints chosen for a request are those the first match that applies routes to: the first whose
  source selector fits the request's labels and that is not passed over as a fallthrough without
  candidates. A match with metadata and no routes chooses all endpoints, a service without matches too;
  if no match applies, none is chosen.
\<close>

lemma MatchEndpoint_first:
  "set (MatchEndpoint tmpl ls ns nses) =
    (if Matches ns = [] then set nses
     else case find (match_applies tmpl ls (ns_name ns) nses) (Matches ns) of
        None \<Rightarrow> {}
      | Some m \<Rightarrow>
          if Metadata m \<noteq> None \<and> Routes m = [] then set nses
          else {nse \<in> set nses. \<exists>d\<in>set (Routes m).
            IsSubset tmpl (labels_of (NetworkServiceLabels nse) (ns_name ns)) (DestinationSelector d) ls})"
  by (auto simp: MatchEndpoint_def matchLoop_first routeCandidates_set split: option.splits)

theorem MatchEndpoint_first_witness:
  "set (MatchEndpoint (\<lambda>str vars. None) []
     (plain_service\<lparr>Matches := [\<lparr>SourceSelector = [(''app'', ''fw'')], Routes = [], Fallthrough = False, Metadata = None\<rparr>,
       \<lparr>SourceSelector = [], Routes = [\<lparr>DestinationSelector = [(''app'', ''x'')]\<rparr>], Fallthrough = False, Metadata = None\<rparr>]\<rparr>)
     [nse_of ''a'' ''x'', nse_of ''b'' ''y'']) = {nse_of ''a'' ''x''}"
  by (subst MatchEndpoint_first)
    (auto simp: plain_service_def match_applies_def IsSubset_def routeCandidates_def labels_of_def nse_of_def lbl_def processLabels_def)

end
