(* ===== verification/Begin_Core.thy ===== *)
theory Begin_Core
  imports NSM_Api
begin

text \<open>
  The machinery the six \<^verbatim>\<open>begin\<close> chain elements share (\<^verbatim>\<open>src/pkg/networkservice/common/begin\<close> and
  \<^verbatim>\<open>src/pkg/registry/common/begin\<close>): a concurrent map from identifiers to event factories, each with a
  serializing executor. A call looks its factory up, puts a closure into its executor and waits; the
  executor runs one closure at a time, and a closure that goes on calls the rest of the chain. Several
  factories for one identifier can exist at the same time, only one of them in the map.

  What the closures decide differs between the elements. It is collected in a record, one field per
  decision; the elements fill it with the code of their files.
\<close>

section \<open>Event factories\<close>

text \<open>\<open>Zero\<close> is the state of a new factory.\<close>

datatype connectionState = Zero | Established | Closed

text \<open>The closures in an executor: calls of \<^verbatim>\<open>Request\<close> and \<^verbatim>\<open>Close\<close>, and the two events fired from mid-chain.\<close>

datatype 'm closure =
  RequestCall 'm
| CloseCall 'm
| RequestEvent bool
| CloseEvent

text \<open>A call of the rest of the chain in progress, with its argument (and the caller's message).\<close>

datatype 'm chain_call =
  InRequest 'm 'm
| InClose 'm
| InRequestEvent 'm
| InCloseEvent 'm

record 'm factory =
  fid :: string
  state :: connectionState
  request :: "'m option"
  returned :: "'m option"
  closures :: "'m closure list"
  in_chain :: "'m chain_call option"

record 'm begin_server =
  fmap :: "string \<rightharpoonup> nat"
  factories :: "nat \<rightharpoonup> 'm factory"
  fresh :: nat

datatype 'm decision = Drop | Recall | Proceed 'm

record 'm element =
  start_request :: "'m \<Rightarrow> 'm factory \<Rightarrow> 'm factory \<times> 'm"
  end_request :: "'m \<Rightarrow> nsm_error + 'm \<Rightarrow> 'm factory \<Rightarrow> 'm factory \<times> bool"
  close_stores :: bool
  start_close :: "bool \<Rightarrow> 'm \<Rightarrow> 'm factory \<Rightarrow> 'm decision"
  event_request :: "bool \<Rightarrow> 'm factory \<Rightarrow> 'm option"
  event_end :: "'m \<Rightarrow> 'm factory \<Rightarrow> 'm factory"
  event_close :: "'m factory \<Rightarrow> 'm option"

section \<open>Operations\<close>

definition empty_begin :: "'m begin_server" where
  "empty_begin = \<lparr>fmap = Map.empty, factories = Map.empty, fresh = 0\<rparr>"

definition newEventFactory :: "string \<Rightarrow> 'm factory" where
  "newEventFactory i = \<lparr>fid = i, state = Zero, request = None, returned = None, closures = [], in_chain = None\<rparr>"

definition putFactory :: "nat \<Rightarrow> 'm factory \<Rightarrow> 'm begin_server \<Rightarrow> 'm begin_server" where
  "putFactory r f b = b\<lparr>factories := (factories b)(r \<mapsto> f)\<rparr>"

text \<open>\<^verbatim>\<open>b.LoadOrStore(id, newEventFactory(...))\<close>\<close>

definition LoadOrStore :: "string \<Rightarrow> 'm begin_server \<Rightarrow> nat \<times> 'm begin_server" where
  "LoadOrStore i b =
     (case fmap b i of
        Some r \<Rightarrow> (r, b)
      | None \<Rightarrow> (fresh b, \<lparr>fmap = (fmap b)(i \<mapsto> fresh b),
                  factories = (factories b)(fresh b \<mapsto> newEventFactory i), fresh = Suc (fresh b)\<rparr>))"

text \<open>\<^verbatim>\<open>f.executor.AsyncExec(closure)\<close>\<close>

definition AsyncExec :: "nat \<Rightarrow> 'm closure \<Rightarrow> 'm begin_server \<Rightarrow> 'm begin_server" where
  "AsyncExec r c b =
     (case factories b r of None \<Rightarrow> b | Some f \<Rightarrow> putFactory r (f\<lparr>closures := closures f @ [c]\<rparr>) b)"

definition callRequest :: "string \<Rightarrow> 'm \<Rightarrow> 'm begin_server \<Rightarrow> 'm begin_server" where
  "callRequest i m b =
     (if i = [] then b else case LoadOrStore i b of (r, b) \<Rightarrow> AsyncExec r (RequestCall m) b)"

definition callClose :: "'m element \<Rightarrow> string \<Rightarrow> 'm \<Rightarrow> 'm begin_server \<Rightarrow> 'm begin_server" where
  "callClose E i m b =
     (if close_stores E then case LoadOrStore i b of (r, b) \<Rightarrow> AsyncExec r (CloseCall m) b
      else case fmap b i of None \<Rightarrow> b | Some r \<Rightarrow> AsyncExec r (CloseCall m) b)"

text \<open>
  A closure at the head of an executor starts: it returns at once, starts over with a fresh lookup, or
  enters the rest of the chain. A closure that starts over waits for the new one; letting its executor
  go on at once allows more interleavings than the code has.
\<close>

definition startClosure :: "'m element \<Rightarrow> nat \<Rightarrow> 'm factory \<Rightarrow> 'm closure \<Rightarrow> 'm begin_server \<Rightarrow> 'm begin_server" where
  "startClosure E r f c b =
     (let current = (fmap b (fid f) = Some r) in
      case c of
        RequestCall m \<Rightarrow>
          if current
          then case start_request E m f of (f, a) \<Rightarrow> putFactory r (f\<lparr>in_chain := Some (InRequest m a)\<rparr>) b
          else callRequest (fid f) m (putFactory r f b)
      | CloseCall m \<Rightarrow>
          (case start_close E current m f of
             Drop \<Rightarrow> putFactory r f b
           | Recall \<Rightarrow> callClose E (fid f) m (putFactory r f b)
           | Proceed a \<Rightarrow> putFactory r (f\<lparr>in_chain := Some (InClose a)\<rparr>) b)
      | RequestEvent reselect \<Rightarrow>
          (case event_request E reselect f of
             None \<Rightarrow> putFactory r f b
           | Some a \<Rightarrow> putFactory r (f\<lparr>in_chain := Some (InRequestEvent a)\<rparr>) b)
      | CloseEvent \<Rightarrow>
          (case event_close E f of
             None \<Rightarrow> putFactory r f b
           | Some a \<Rightarrow> putFactory r (f\<lparr>in_chain := Some (InCloseEvent a)\<rparr>) b))"

definition deleteId :: "string \<Rightarrow> 'm begin_server \<Rightarrow> 'm begin_server" where
  "deleteId i b = b\<lparr>fmap := (fmap b)(i := None)\<rparr>"

text \<open>\<^verbatim>\<open>afterCloseFunc\<close>\<close>

definition afterClose :: "nat \<Rightarrow> 'm factory \<Rightarrow> 'm begin_server \<Rightarrow> 'm begin_server" where
  "afterClose r f b = deleteId (fid f) (putFactory r (f\<lparr>state := Closed\<rparr>) b)"

text \<open>The rest of the chain returns.\<close>

definition endClosure :: "'m element \<Rightarrow> nat \<Rightarrow> 'm factory \<Rightarrow> 'm chain_call \<Rightarrow> nsm_error + 'm \<Rightarrow> 'm begin_server \<Rightarrow> 'm begin_server" where
  "endClosure E r f c res b =
     (case c of
        InRequest m a \<Rightarrow>
          (case end_request E m res f of
             (f, del) \<Rightarrow> if del then deleteId (fid f) (putFactory r f b) else putFactory r f b)
      | InClose a \<Rightarrow> afterClose r f b
      | InRequestEvent a \<Rightarrow> (case res of Inl e \<Rightarrow> putFactory r f b | Inr m \<Rightarrow> putFactory r (event_end E m f) b)
      | InCloseEvent a \<Rightarrow> afterClose r f b)"

section \<open>The step relation\<close>

text \<open>
  \<open>strict\<close> restricts the close event to established connections; without it the event runs on every
  factory that ever had a request, as the code has it. A cancelled event returns at once.
\<close>

inductive begin_step :: "bool \<Rightarrow> 'm element \<Rightarrow> 'm begin_server \<Rightarrow> 'm begin_server \<Rightarrow> bool" for strict E where
  call_request: "begin_step strict E b (callRequest i m b)"
| call_close: "begin_step strict E b (callClose E i m b)"
| fire_request: "begin_step strict E b (AsyncExec r (RequestEvent reselect) b)"
| fire_close: "begin_step strict E b (AsyncExec r CloseEvent b)"
| cancel: "factories b r = Some f \<Longrightarrow> in_chain f = None \<Longrightarrow> closures f = c # cs \<Longrightarrow>
    c = CloseEvent \<or> (\<exists>rs. c = RequestEvent rs) \<Longrightarrow> begin_step strict E b (putFactory r (f\<lparr>closures := cs\<rparr>) b)"
| start: "factories b r = Some f \<Longrightarrow> in_chain f = None \<Longrightarrow> closures f = c # cs \<Longrightarrow>
    strict \<and> c = CloseEvent \<longrightarrow> state f = Established \<Longrightarrow>
    begin_step strict E b (startClosure E r (f\<lparr>closures := cs\<rparr>) c b)"
| finish: "factories b r = Some f \<Longrightarrow> in_chain f = Some c \<Longrightarrow>
    begin_step strict E b (endClosure E r (f\<lparr>in_chain := None\<rparr>) c res b)"

inductive begin_reach :: "bool \<Rightarrow> 'm element \<Rightarrow> 'm begin_server \<Rightarrow> bool" for strict E where
  begin_init: "begin_reach strict E empty_begin"
| begin_next: "begin_reach strict E b \<Longrightarrow> begin_step strict E b b' \<Longrightarrow> begin_reach strict E b'"

section \<open>The invariant\<close>

text \<open>
  A factory is active while it is in the chain or established; only the factory in the map is.
\<close>

definition active :: "'m factory \<Rightarrow> bool" where
  "active f \<longleftrightarrow> in_chain f \<noteq> None \<or> state f = Established"

definition begin_inv :: "'m begin_server \<Rightarrow> bool" where
  "begin_inv b \<longleftrightarrow>
     (\<forall>r f. factories b r = Some f \<longrightarrow> active f \<longrightarrow> fmap b (fid f) = Some r) \<and>
     (\<forall>i r. fmap b i = Some r \<longrightarrow> (\<exists>f. factories b r = Some f \<and> fid f = i)) \<and>
     (\<forall>r f. factories b r = Some f \<longrightarrow> r < fresh b)"

section \<open>The contract of an element\<close>

text \<open>
  What the shared machinery needs of an element: its decisions leave the identifier and the executor
  alone, only the factory in the map closes, events re-request established connections only, and a
  factory taken out of the map is not established.
\<close>

locale begin_element =
  fixes E :: "'m element"
  assumes start_request_frame: "start_request E m f = (f', a) \<Longrightarrow>
      fid f' = fid f \<and> in_chain f' = in_chain f \<and> (state f' = Established \<longrightarrow> state f = Established)"
    and end_request_frame: "end_request E m res f = (f', del) \<Longrightarrow>
      fid f' = fid f \<and> in_chain f' = in_chain f \<and> (del \<longrightarrow> state f' \<noteq> Established)"
    and start_close_current: "start_close E current m f = Proceed a \<Longrightarrow> current"
    and event_request_established: "event_request E rs f = Some a \<Longrightarrow> state f = Established"
    and event_end_frame: "fid (event_end E m f) = fid f \<and> in_chain (event_end E m f) = in_chain f \<and>
      state (event_end E m f) = state f"
begin

lemma inv_put:
  assumes "begin_inv b" "factories b r = Some f" "fid f' = fid f" "active f' \<Longrightarrow> fmap b (fid f) = Some r"
  shows "begin_inv (putFactory r f' b)"
proof -
  have "fid f = i" if "fmap b i = Some r" for i using assms(1,2) that unfolding begin_inv_def by fastforce
  with assms show ?thesis unfolding begin_inv_def putFactory_def by auto
qed

lemma inv_delete:
  assumes "begin_inv b" "factories b r = Some f" "fid f = i" "fmap b i = Some r" "\<not> active f"
  shows "begin_inv (deleteId i b)"
proof -
  have "fid g \<noteq> i" if "factories b q = Some g" "active g" for q g
    using assms that unfolding begin_inv_def by (metis option.inject)
  with assms(1) show ?thesis unfolding begin_inv_def deleteId_def by auto
qed

lemma inv_LoadOrStore:
  assumes "begin_inv b" "LoadOrStore i b = (r, b')"
  shows "begin_inv b'" "\<exists>f. factories b' r = Some f \<and> fid f = i"
proof -
  have new: "\<not> active (newEventFactory j)" for j by (simp add: active_def newEventFactory_def)
  show "begin_inv b'"
  proof (cases "fmap b i")
    case None
    then have "b' = \<lparr>fmap = (fmap b)(i \<mapsto> fresh b), factories = (factories b)(fresh b \<mapsto> newEventFactory i), fresh = Suc (fresh b)\<rparr>"
      using assms(2) by (auto simp: LoadOrStore_def)
    moreover have "fid g \<noteq> i" if "factories b q = Some g" "active g" for q g
      using assms(1) that None unfolding begin_inv_def by fastforce
    moreover have "factories b (fresh b) = None" using assms(1) unfolding begin_inv_def by (metis not_None_eq less_irrefl)
    moreover from this have "fmap b j \<noteq> Some (fresh b)" for j using assms(1) unfolding begin_inv_def by fastforce
    moreover have "fid (newEventFactory i) = i" by (simp add: newEventFactory_def)
    ultimately show ?thesis using assms(1) new unfolding begin_inv_def by (auto simp: less_Suc_eq)
  next
    case (Some q)
    then show ?thesis using assms by (simp add: LoadOrStore_def)
  qed
  show "\<exists>f. factories b' r = Some f \<and> fid f = i"
    using assms unfolding begin_inv_def
    by (auto simp: LoadOrStore_def newEventFactory_def split: option.splits)
qed

lemma inv_AsyncExec:
  assumes "begin_inv b"
  shows "begin_inv (AsyncExec r c b)"
proof (cases "factories b r")
  case (Some f)
  have "active (f\<lparr>closures := cs\<rparr>) = active f" for cs by (simp add: active_def)
  then have "begin_inv (putFactory r (f\<lparr>closures := closures f @ [c]\<rparr>) b)"
    using assms Some by (intro inv_put [OF assms Some]) (auto simp: begin_inv_def)
  with Some show ?thesis by (simp add: AsyncExec_def)
qed (use assms in \<open>simp add: AsyncExec_def\<close>)

lemma inv_calls:
  assumes "begin_inv b"
  shows "begin_inv (callRequest i m b)" "begin_inv (callClose E i m b)"
  using assms
  by (auto simp: callRequest_def callClose_def split: prod.splits option.splits
      intro: inv_AsyncExec dest: inv_LoadOrStore(1) [OF assms])

lemma inv_startClosure:
  assumes "begin_inv b" "factories b r = Some f" "in_chain f = None" "c = CloseEvent \<longrightarrow> state f = Established"
  shows "begin_inv (startClosure E r (f\<lparr>closures := cs\<rparr>) c b)"
proof -
  let ?g = "f\<lparr>closures := cs\<rparr>"
  have est: "state f = Established \<Longrightarrow> fmap b (fid f) = Some r"
    using assms(1,2) unfolding begin_inv_def active_def by blast
  have keep: "begin_inv (putFactory r ?g b)"
    using assms(3) est by (intro inv_put [OF assms(1,2)]) (auto simp: active_def)
  have enter: "begin_inv (putFactory r (?g\<lparr>in_chain := Some x\<rparr>) b)" if "fmap b (fid f) = Some r" for x
    using that by (intro inv_put [OF assms(1,2)]) auto
  show ?thesis
  proof (cases c)
    case (RequestCall m)
    obtain f' a where f': "start_request E m ?g = (f', a)" by fastforce
    then have "begin_inv (putFactory r (f'\<lparr>in_chain := Some x\<rparr>) b)" if "fmap b (fid f) = Some r" for x
      using start_request_frame [OF f'] that by (intro inv_put [OF assms(1,2)]) auto
    with f' RequestCall show ?thesis using inv_calls(1) [OF keep] by (auto simp: startClosure_def Let_def)
  next
    case (CloseCall m)
    then show ?thesis
      using keep inv_calls(2) [OF keep]
      by (auto simp: startClosure_def Let_def split: decision.splits dest: start_close_current intro: enter)
  next
    case (RequestEvent rs)
    then show ?thesis using keep enter est event_request_established [of rs ?g]
      by (auto simp: startClosure_def Let_def split: option.splits)
  next
    case CloseEvent
    then show ?thesis using keep enter est assms(4) by (auto simp: startClosure_def Let_def split: option.splits)
  qed
qed

lemma inv_remove:
  assumes "begin_inv b" "factories b r = Some f" "fmap b (fid f) = Some r" "fid f' = fid f" "\<not> active f'"
  shows "begin_inv (deleteId (fid f') (putFactory r f' b))"
proof (rule inv_delete)
  show "begin_inv (putFactory r f' b)" using assms by (intro inv_put [OF assms(1,2)]) auto
qed (use assms in \<open>simp_all add: putFactory_def\<close>)

lemma inv_endClosure:
  assumes "begin_inv b" "factories b r = Some f" "in_chain f = Some c"
  shows "begin_inv (endClosure E r (f\<lparr>in_chain := None\<rparr>) c res b)"
proof -
  let ?g = "f\<lparr>in_chain := None\<rparr>"
  have cur: "fmap b (fid f) = Some r" using assms unfolding begin_inv_def active_def by blast
  have put: "begin_inv (putFactory r f' b)" if "fid f' = fid f" for f'
    using cur that by (intro inv_put [OF assms(1,2)])
  have "begin_inv (afterClose r ?g b)"
    using inv_remove [OF assms(1,2) cur, of "?g\<lparr>state := Closed\<rparr>"] by (simp add: afterClose_def active_def)
  moreover have "begin_inv (deleteId (fid f') (putFactory r f' b))" if "end_request E m res ?g = (f', True)" for m f'
    using end_request_frame [OF that] by (intro inv_remove [OF assms(1,2) cur]) (auto simp: active_def)
  moreover have "begin_inv (putFactory r f' b)" if "end_request E m res ?g = (f', False)" for m f'
    using end_request_frame [OF that] put by simp
  ultimately show ?thesis using put event_end_frame
    by (auto simp: endClosure_def split: chain_call.splits sum.splits prod.splits)
qed

lemma begin_step_inv:
  assumes "begin_step True E b b'" "begin_inv b"
  shows "begin_inv b'"
  using assms
proof (cases rule: begin_step.cases)
  case (cancel r f c cs)
  have "begin_inv (putFactory r (f\<lparr>closures := cs\<rparr>) b)"
    using assms(2) cancel(2) by (intro inv_put [OF assms(2) cancel(2)]) (auto simp: begin_inv_def active_def)
  with cancel(1) show ?thesis by simp
qed (use assms(2) in \<open>auto intro: inv_calls inv_AsyncExec inv_startClosure inv_endClosure\<close>)

theorem begin_reach_inv: "begin_reach True E b \<Longrightarrow> begin_inv b"
proof (induction rule: begin_reach.induct)
  case begin_init
  show ?case by (simp add: begin_inv_def empty_begin_def)
qed (blast intro: begin_step_inv)

text \<open>No two factories of one identifier are active, so at most one is in the chain.\<close>

theorem one_active:
  assumes "begin_reach True E b" "factories b r = Some f" "factories b q = Some g" "active f" "active g" "fid f = fid g"
  shows "r = q"
  using begin_reach_inv [OF assms(1)] assms(2-) unfolding begin_inv_def by (metis option.inject)

end

end
