(* ===== verification/Begin_Elements.thy ===== *)
theory Begin_Elements
  imports Begin_Core Registry_Api "HOL-Library.AList"
begin

text \<open>
  The six \<^verbatim>\<open>begin\<close> elements: network service server and client
  (\<^verbatim>\<open>src/pkg/networkservice/common/begin\<close>), endpoint and network service registry servers and clients
  (\<^verbatim>\<open>src/pkg/registry/common/begin\<close>), each as the decisions its closures take.
\<close>

section \<open>Merging\<close>

definition mergeMapStringString :: "labels \<Rightarrow> labels \<Rightarrow> labels \<Rightarrow> labels" where
  "mergeMapStringString returnedMap requestedMap currentMap =
     fold (\<lambda>(k, v) rv.
         case map_of requestedMap k of
           Some srcValue \<Rightarrow> if srcValue \<noteq> v then AList.update k srcValue rv else rv
         | None \<Rightarrow> AList.delete k rv) returnedMap currentMap"

text \<open>Equality of messages: maps are compared as maps.\<close>

definition same_labels :: "labels \<Rightarrow> labels \<Rightarrow> bool" where
  "same_labels a b \<longleftrightarrow> list_all (\<lambda>k. map_of a k = map_of b k) (map fst a @ map fst b)"

definition same_context :: "ConnectionContext option \<Rightarrow> ConnectionContext option \<Rightarrow> bool" where
  "same_context a b =
     (case (a, b) of
        (None, None) \<Rightarrow> True
      | (Some x, Some y) \<Rightarrow> x\<lparr>ExtraContext := []\<rparr> = y\<lparr>ExtraContext := []\<rparr> \<and> same_labels (ExtraContext x) (ExtraContext y)
      | _ \<Rightarrow> False)"

text \<open>The protobuf getters read an absent context as an empty one.\<close>

definition getContext :: "ConnectionContext option \<Rightarrow> ConnectionContext" where
  "getContext c = (case c of None \<Rightarrow> empty_context | Some x \<Rightarrow> x)"

definition mergeConnectionContext ::
  "ConnectionContext option \<Rightarrow> ConnectionContext option \<Rightarrow> ConnectionContext option \<Rightarrow> ConnectionContext option" where
  "mergeConnectionContext returnedCtx requestedCtx currentCtx =
     (case currentCtx of
        None \<Rightarrow> requestedCtx
      | Some rv \<Rightarrow>
          if \<not> same_context returnedCtx requestedCtx
          then let q = getContext requestedCtx in
            Some (rv\<lparr>IpContext := IpContext q, EthernetContext := EthernetContext q, DnsContext := DnsContext q,
              MTU := MTU q,
              ExtraContext := mergeMapStringString (ExtraContext (getContext returnedCtx)) (ExtraContext q) (ExtraContext rv)\<rparr>)
          else Some rv)"

definition mergeConnection :: "Connection option \<Rightarrow> Connection \<Rightarrow> Connection option \<Rightarrow> Connection" where
  "mergeConnection returnedConn requestedConn currentConn =
     (case (returnedConn, currentConn) of
        (Some ret, Some cur) \<Rightarrow>
          let conn = (if NetworkServiceEndpointName ret \<noteq> NetworkServiceEndpointName requestedConn
                      then cur\<lparr>NetworkServiceEndpointName := NetworkServiceEndpointName requestedConn\<rparr> else cur)
          in conn\<lparr>Context := mergeConnectionContext (Context ret) (Context requestedConn) (Context cur)\<rparr>
      | _ \<Rightarrow> requestedConn)"

definition mergeNSE :: "NetworkServiceEndpoint \<Rightarrow> NetworkServiceEndpoint \<Rightarrow> NetworkServiceEndpoint" where
  "mergeNSE left right = right\<lparr>nse_name := nse_name left, ExpirationTime := None\<rparr>"

definition mergeNS :: "NetworkServiceMsg \<Rightarrow> NetworkServiceMsg \<Rightarrow> NetworkServiceMsg" where
  "mergeNS left right = right\<lparr>ns_name := ns_name left\<rparr>"

section \<open>The network service server\<close>

text \<open>
  The closure of \<^verbatim>\<open>beginServer.Request\<close> before it calls on: a connection asked to be reselected is closed
  first, whatever that close returns.
\<close>

definition beginServer_Request_start :: "Connection \<Rightarrow> Connection factory \<Rightarrow> Connection factory \<times> Connection" where
  "beginServer_Request_start conn f =
     (if state f = Established \<and> State conn = RESELECT_REQUESTED \<and> request f \<noteq> None
      then f\<lparr>state := Closed\<rparr> else f, conn)"

definition beginServer_Request_end ::
  "Connection \<Rightarrow> nsm_error + Connection \<Rightarrow> Connection factory \<Rightarrow> Connection factory \<times> bool" where
  "beginServer_Request_end m res f =
     (case res of
        Inl e \<Rightarrow> if state f \<noteq> Established then (f\<lparr>state := Closed\<rparr>, True) else (f, False)
      | Inr conn \<Rightarrow>
          let conn = conn\<lparr>State := UP\<rparr> in
          (f\<lparr>request := Some conn, state := Established, returned := Some conn\<rparr>, False))"

definition beginServer_Close_start :: "bool \<Rightarrow> Connection \<Rightarrow> Connection factory \<Rightarrow> Connection decision" where
  "beginServer_Close_start current m f =
     (if state f \<noteq> Established \<or> request f = None then Drop
      else if \<not> current then Drop
      else Proceed (the (request f)))"

definition eventFactoryServer_Request :: "bool \<Rightarrow> Connection factory \<Rightarrow> Connection option" where
  "eventFactoryServer_Request reselect f = (if state f \<noteq> Established then None else request f)"

definition eventFactoryServer_Request_end :: "Connection \<Rightarrow> Connection factory \<Rightarrow> Connection factory" where
  "eventFactoryServer_Request_end conn f = (if request f \<noteq> None then f\<lparr>request := Some conn\<rparr> else f)"

definition eventFactoryServer_Close :: "Connection factory \<Rightarrow> Connection option" where
  "eventFactoryServer_Close f = request f"

definition beginServer :: "Connection element" where
  "beginServer = \<lparr>start_request = beginServer_Request_start, end_request = beginServer_Request_end,
     close_stores = False, start_close = beginServer_Close_start, event_request = eventFactoryServer_Request,
     event_end = eventFactoryServer_Request_end, event_close = eventFactoryServer_Close\<rparr>"

section \<open>The network service client\<close>

definition beginClient_Request_start :: "Connection \<Rightarrow> Connection factory \<Rightarrow> Connection factory \<times> Connection" where
  "beginClient_Request_start conn f = (f, mergeConnection (returned f) conn (request f))"

definition beginClient_Request_end ::
  "Connection \<Rightarrow> nsm_error + Connection \<Rightarrow> Connection factory \<Rightarrow> Connection factory \<times> bool" where
  "beginClient_Request_end m res f =
     (case res of
        Inl e \<Rightarrow> if state f \<noteq> Established then (f\<lparr>state := Closed\<rparr>, True) else (f, False)
      | Inr conn \<Rightarrow> (f\<lparr>request := Some conn, state := Established, returned := Some conn\<rparr>, False))"

definition beginClient_Close_start :: "bool \<Rightarrow> Connection \<Rightarrow> Connection factory \<Rightarrow> Connection decision" where
  "beginClient_Close_start current m f =
     (if state f \<noteq> Established \<or> request f = None then Drop
      else if \<not> current then Drop
      else Proceed (the (request f)))"

text \<open>With \<^verbatim>\<open>WithReselect\<close> the event closes the connection and asks for a new endpoint and mechanism.\<close>

definition eventFactoryClient_Request :: "bool \<Rightarrow> Connection factory \<Rightarrow> Connection option" where
  "eventFactoryClient_Request reselect f =
     (if state f \<noteq> Established then None
      else if reselect
      then map_option (\<lambda>c. c\<lparr>Mechanism := None, NetworkServiceEndpointName := [], State := RESELECT_REQUESTED\<rparr>) (request f)
      else request f)"

definition eventFactoryClient_Request_end :: "Connection \<Rightarrow> Connection factory \<Rightarrow> Connection factory" where
  "eventFactoryClient_Request_end conn f =
     (if request f \<noteq> None then f\<lparr>request := Some (conn\<lparr>State := UP\<rparr>)\<rparr> else f)"

definition eventFactoryClient_Close :: "Connection factory \<Rightarrow> Connection option" where
  "eventFactoryClient_Close f = request f"

definition beginClient :: "Connection element" where
  "beginClient = \<lparr>start_request = beginClient_Request_start, end_request = beginClient_Request_end,
     close_stores = False, start_close = beginClient_Close_start, event_request = eventFactoryClient_Request,
     event_end = eventFactoryClient_Request_end, event_close = eventFactoryClient_Close\<rparr>"

section \<open>The endpoint registry\<close>

text \<open>
  \<^verbatim>\<open>Unregister\<close> of an endpoint goes on even for a name that is not registered here, and starts over when
  its factory has left the map. In the factory \<open>request\<close> is the registration and \<open>returned\<close> the response.
\<close>

definition beginNSEServer_Register_start ::
  "NetworkServiceEndpoint \<Rightarrow> NetworkServiceEndpoint factory \<Rightarrow> NetworkServiceEndpoint factory \<times> NetworkServiceEndpoint" where
  "beginNSEServer_Register_start nse f = (f, nse)"

definition beginNSEServer_Register_end ::
  "NetworkServiceEndpoint \<Rightarrow> nsm_error + NetworkServiceEndpoint \<Rightarrow> NetworkServiceEndpoint factory \<Rightarrow>
     NetworkServiceEndpoint factory \<times> bool" where
  "beginNSEServer_Register_end nse res f =
     (case res of
        Inl e \<Rightarrow> if state f \<noteq> Established then (f\<lparr>state := Closed\<rparr>, True) else (f, False)
      | Inr resp \<Rightarrow> (f\<lparr>request := Some (mergeNSE nse resp), state := Established, returned := Some resp\<rparr>, False))"

definition beginNSEServer_Unregister_start ::
  "bool \<Rightarrow> NetworkServiceEndpoint \<Rightarrow> NetworkServiceEndpoint factory \<Rightarrow> NetworkServiceEndpoint decision" where
  "beginNSEServer_Unregister_start current nse f =
     (if \<not> current then Recall
      else Proceed (case request f of None \<Rightarrow> nse | Some r \<Rightarrow> r))"

definition eventNSEFactoryServer_Register :: "bool \<Rightarrow> NetworkServiceEndpoint factory \<Rightarrow> NetworkServiceEndpoint option" where
  "eventNSEFactoryServer_Register reselect f = (if state f \<noteq> Established then None else request f)"

definition eventNSEFactoryServer_Register_end ::
  "NetworkServiceEndpoint \<Rightarrow> NetworkServiceEndpoint factory \<Rightarrow> NetworkServiceEndpoint factory" where
  "eventNSEFactoryServer_Register_end resp f = (if request f \<noteq> None then f\<lparr>request := Some resp\<rparr> else f)"

definition eventNSEFactoryServer_Unregister :: "NetworkServiceEndpoint factory \<Rightarrow> NetworkServiceEndpoint option" where
  "eventNSEFactoryServer_Unregister f = request f"

definition beginNSEServer :: "NetworkServiceEndpoint element" where
  "beginNSEServer = \<lparr>start_request = beginNSEServer_Register_start, end_request = beginNSEServer_Register_end,
     close_stores = True, start_close = beginNSEServer_Unregister_start, event_request = eventNSEFactoryServer_Register,
     event_end = eventNSEFactoryServer_Register_end, event_close = eventNSEFactoryServer_Unregister\<rparr>"

definition beginNSEClient_Register_start ::
  "NetworkServiceEndpoint \<Rightarrow> NetworkServiceEndpoint factory \<Rightarrow> NetworkServiceEndpoint factory \<times> NetworkServiceEndpoint" where
  "beginNSEClient_Register_start nse f = (f, nse)"

definition beginNSEClient_Register_end ::
  "NetworkServiceEndpoint \<Rightarrow> nsm_error + NetworkServiceEndpoint \<Rightarrow> NetworkServiceEndpoint factory \<Rightarrow>
     NetworkServiceEndpoint factory \<times> bool" where
  "beginNSEClient_Register_end nse res f =
     (case res of
        Inl e \<Rightarrow> if state f \<noteq> Established then (f\<lparr>state := Closed\<rparr>, True) else (f, False)
      | Inr resp \<Rightarrow> (f\<lparr>state := Established, request := Some (mergeNSE nse resp), returned := Some resp\<rparr>, False))"

definition beginNSEClient_Unregister_start ::
  "bool \<Rightarrow> NetworkServiceEndpoint \<Rightarrow> NetworkServiceEndpoint factory \<Rightarrow> NetworkServiceEndpoint decision" where
  "beginNSEClient_Unregister_start current nse f =
     (if \<not> current then Recall
      else Proceed (case request f of None \<Rightarrow> nse | Some r \<Rightarrow> r))"

definition eventNSEFactoryClient_Register :: "bool \<Rightarrow> NetworkServiceEndpoint factory \<Rightarrow> NetworkServiceEndpoint option" where
  "eventNSEFactoryClient_Register reselect f = (if state f \<noteq> Established then None else request f)"

definition eventNSEFactoryClient_Register_end ::
  "NetworkServiceEndpoint \<Rightarrow> NetworkServiceEndpoint factory \<Rightarrow> NetworkServiceEndpoint factory" where
  "eventNSEFactoryClient_Register_end resp f =
     (case request f of None \<Rightarrow> f | Some r \<Rightarrow> f\<lparr>request := Some (mergeNSE r resp)\<rparr>)"

text \<open>The event unregisters the last response, not the registration.\<close>

definition eventNSEFactoryClient_Unregister :: "NetworkServiceEndpoint factory \<Rightarrow> NetworkServiceEndpoint option" where
  "eventNSEFactoryClient_Unregister f = (if request f = None then None else returned f)"

definition beginNSEClient :: "NetworkServiceEndpoint element" where
  "beginNSEClient = \<lparr>start_request = beginNSEClient_Register_start, end_request = beginNSEClient_Register_end,
     close_stores = True, start_close = beginNSEClient_Unregister_start, event_request = eventNSEFactoryClient_Register,
     event_end = eventNSEFactoryClient_Register_end, event_close = eventNSEFactoryClient_Unregister\<rparr>"

section \<open>The network service registry\<close>

definition beginNSServer_Register_start ::
  "NetworkServiceMsg \<Rightarrow> NetworkServiceMsg factory \<Rightarrow> NetworkServiceMsg factory \<times> NetworkServiceMsg" where
  "beginNSServer_Register_start ns f = (f, ns)"

definition beginNSServer_Register_end ::
  "NetworkServiceMsg \<Rightarrow> nsm_error + NetworkServiceMsg \<Rightarrow> NetworkServiceMsg factory \<Rightarrow> NetworkServiceMsg factory \<times> bool" where
  "beginNSServer_Register_end ns res f =
     (case res of
        Inl e \<Rightarrow> if state f \<noteq> Established then (f\<lparr>state := Closed\<rparr>, True) else (f, False)
      | Inr resp \<Rightarrow> (f\<lparr>request := Some (mergeNS ns resp), state := Established, returned := Some resp\<rparr>, False))"

definition beginNSServer_Unregister_start ::
  "bool \<Rightarrow> NetworkServiceMsg \<Rightarrow> NetworkServiceMsg factory \<Rightarrow> NetworkServiceMsg decision" where
  "beginNSServer_Unregister_start current ns f =
     (if state f \<noteq> Established \<or> request f = None then Drop
      else if \<not> current then Drop
      else Proceed (the (request f)))"

definition eventNSFactoryServer_Register :: "bool \<Rightarrow> NetworkServiceMsg factory \<Rightarrow> NetworkServiceMsg option" where
  "eventNSFactoryServer_Register reselect f = (if state f \<noteq> Established then None else request f)"

definition eventNSFactoryServer_Register_end :: "NetworkServiceMsg \<Rightarrow> NetworkServiceMsg factory \<Rightarrow> NetworkServiceMsg factory" where
  "eventNSFactoryServer_Register_end resp f = (if request f \<noteq> None then f\<lparr>request := Some resp\<rparr> else f)"

definition eventNSFactoryServer_Unregister :: "NetworkServiceMsg factory \<Rightarrow> NetworkServiceMsg option" where
  "eventNSFactoryServer_Unregister f = request f"

definition beginNSServer :: "NetworkServiceMsg element" where
  "beginNSServer = \<lparr>start_request = beginNSServer_Register_start, end_request = beginNSServer_Register_end,
     close_stores = False, start_close = beginNSServer_Unregister_start, event_request = eventNSFactoryServer_Register,
     event_end = eventNSFactoryServer_Register_end, event_close = eventNSFactoryServer_Unregister\<rparr>"

definition beginNSClient_Register_start ::
  "NetworkServiceMsg \<Rightarrow> NetworkServiceMsg factory \<Rightarrow> NetworkServiceMsg factory \<times> NetworkServiceMsg" where
  "beginNSClient_Register_start ns f = (f, ns)"

definition beginNSClient_Register_end ::
  "NetworkServiceMsg \<Rightarrow> nsm_error + NetworkServiceMsg \<Rightarrow> NetworkServiceMsg factory \<Rightarrow> NetworkServiceMsg factory \<times> bool" where
  "beginNSClient_Register_end ns res f =
     (case res of
        Inl e \<Rightarrow> if state f \<noteq> Established then (f\<lparr>state := Closed\<rparr>, True) else (f, False)
      | Inr resp \<Rightarrow> (f\<lparr>state := Established, request := Some (mergeNS ns resp), returned := Some resp\<rparr>, False))"

definition beginNSClient_Unregister_start ::
  "bool \<Rightarrow> NetworkServiceMsg \<Rightarrow> NetworkServiceMsg factory \<Rightarrow> NetworkServiceMsg decision" where
  "beginNSClient_Unregister_start current ns f =
     (if state f \<noteq> Established \<or> request f = None then Drop
      else if \<not> current then Drop
      else Proceed (the (request f)))"

definition eventNSFactoryClient_Register :: "bool \<Rightarrow> NetworkServiceMsg factory \<Rightarrow> NetworkServiceMsg option" where
  "eventNSFactoryClient_Register reselect f = (if state f \<noteq> Established then None else request f)"

definition eventNSFactoryClient_Register_end :: "NetworkServiceMsg \<Rightarrow> NetworkServiceMsg factory \<Rightarrow> NetworkServiceMsg factory" where
  "eventNSFactoryClient_Register_end resp f =
     (case request f of None \<Rightarrow> f | Some r \<Rightarrow> f\<lparr>request := Some (mergeNS r resp)\<rparr>)"

definition eventNSFactoryClient_Unregister :: "NetworkServiceMsg factory \<Rightarrow> NetworkServiceMsg option" where
  "eventNSFactoryClient_Unregister f = (if request f = None then None else returned f)"

definition beginNSClient :: "NetworkServiceMsg element" where
  "beginNSClient = \<lparr>start_request = beginNSClient_Register_start, end_request = beginNSClient_Register_end,
     close_stores = False, start_close = beginNSClient_Unregister_start, event_request = eventNSFactoryClient_Register,
     event_end = eventNSFactoryClient_Register_end, event_close = eventNSFactoryClient_Unregister\<rparr>"

end
