(* ===== verification/Begin_Theorems.thy ===== *)
theory Begin_Theorems
  imports Begin_Elements
begin

text \<open>
  The six elements satisfy the contract of the shared machinery, so each serializes the calls for one
  identifier; the elements that close only established connections close with the last connection they
  got.
\<close>

section \<open>Closing with the last valid message\<close>

text \<open>An established factory has a stored message, and every close in progress carries it.\<close>

definition closes_last :: "'m factory \<Rightarrow> bool" where
  "closes_last f \<longleftrightarrow> (state f = Established \<longrightarrow> request f \<noteq> None) \<and>
     (\<forall>a. in_chain f = Some (InClose a) \<longrightarrow> request f = Some a)"

definition all_close_last :: "'m begin_server \<Rightarrow> bool" where
  "all_close_last b \<longleftrightarrow> (\<forall>r f. factories b r = Some f \<longrightarrow> closes_last f)"

text \<open>Elements whose close goes on only with the message stored by the last successful request.\<close>

locale begin_closing = begin_element +
  assumes start_request_keeps: "start_request E m f = (f', a) \<Longrightarrow> request f' = request f"
    and end_request_keeps: "end_request E m res f = (f', del) \<Longrightarrow> state f' = Established \<Longrightarrow>
      request f' \<noteq> None \<or> state f = Established \<and> request f' = request f"
    and event_end_keeps: "request f \<noteq> None \<Longrightarrow> request (event_end E m f) \<noteq> None"
    and start_close_last: "start_close E current m f = Proceed a \<Longrightarrow> request f = Some a"
begin

lemma last_put: "all_close_last b \<Longrightarrow> closes_last f \<Longrightarrow> all_close_last (putFactory r f b)"
  by (auto simp: all_close_last_def putFactory_def)

lemma last_delete: "all_close_last b \<Longrightarrow> all_close_last (deleteId i b)"
  by (simp add: all_close_last_def deleteId_def)

lemma last_AsyncExec: "all_close_last b \<Longrightarrow> all_close_last (AsyncExec r c b)"
  by (auto simp: AsyncExec_def all_close_last_def putFactory_def closes_last_def split: option.splits)

lemma last_calls: "all_close_last b \<Longrightarrow> all_close_last (callRequest i m b)" "all_close_last b \<Longrightarrow> all_close_last (callClose E i m b)"
proof -
  have "all_close_last b'" if "all_close_last b" "LoadOrStore i b = (r, b')" for r b'
    using that by (auto simp: LoadOrStore_def all_close_last_def closes_last_def newEventFactory_def split: option.splits if_splits)
  then show "all_close_last b \<Longrightarrow> all_close_last (callRequest i m b)" "all_close_last b \<Longrightarrow> all_close_last (callClose E i m b)"
    by (auto simp: callRequest_def callClose_def split: prod.splits option.splits intro: last_AsyncExec)
qed

lemma last_startClosure:
  assumes "all_close_last b" "closes_last f" "in_chain f = None"
  shows "all_close_last (startClosure E r f c b)"
proof -
  have p: "all_close_last (putFactory r f b)" by (rule last_put [OF assms(1,2)])
  have q: "all_close_last (putFactory r (f\<lparr>in_chain := Some x\<rparr>) b)" if "\<And>a. x = InClose a \<Longrightarrow> request f = Some a" for x
    using that assms(2) by (intro last_put [OF assms(1)]) (auto simp: closes_last_def)
  show ?thesis
  proof (cases c)
    case (RequestCall m)
    obtain f' a where f': "start_request E m f = (f', a)" by fastforce
    have "closes_last (f'\<lparr>in_chain := Some (InRequest m a)\<rparr>)"
      using start_request_frame [OF f'] start_request_keeps [OF f'] assms(2) by (auto simp: closes_last_def)
    with f' RequestCall p show ?thesis
      using last_put [OF assms(1)] last_calls(1) by (auto simp: startClosure_def Let_def)
  next
    case (CloseCall m)
    then show ?thesis using p last_calls(2) [OF p]
      by (auto simp: startClosure_def Let_def split: decision.splits dest: start_close_last intro!: q)
  qed (use p in \<open>auto simp: startClosure_def Let_def split: option.splits intro!: q\<close>)
qed

lemma last_endClosure:
  assumes "all_close_last b" "closes_last f" "in_chain f = None"
  shows "all_close_last (endClosure E r f c res b)"
proof -
  have p: "all_close_last (putFactory r f b)" by (rule last_put [OF assms(1,2)])
  have "closes_last (f\<lparr>state := Closed\<rparr>)" using assms(3) by (simp add: closes_last_def)
  then have "all_close_last (afterClose r f b)"
    using last_put [OF assms(1)] by (auto simp: afterClose_def intro: last_delete)
  moreover have "closes_last f'" if "end_request E m res f = (f', del)" for m f' del
    using end_request_frame [OF that] end_request_keeps [OF that] assms(2,3) by (auto simp: closes_last_def)
  moreover have "closes_last (event_end E m f)" for m
    using event_end_frame [of m f] event_end_keeps [of f m] assms(2,3) by (auto simp: closes_last_def)
  ultimately show ?thesis using p last_put [OF assms(1)]
    by (auto simp: endClosure_def split: chain_call.splits sum.splits prod.splits intro!: last_delete)
qed

theorem reach_closes_last: "begin_reach strict E b \<Longrightarrow> all_close_last b"
proof (induction rule: begin_reach.induct)
  case begin_init
  show ?case by (simp add: all_close_last_def empty_begin_def)
next
  case (begin_next b b')
  from begin_next(2) show ?case
  proof (cases rule: begin_step.cases)
    case (cancel r f c cs)
    then have "closes_last (f\<lparr>closures := cs\<rparr>)" using begin_next(3) by (auto simp: all_close_last_def closes_last_def)
    then show ?thesis using cancel(1) last_put [OF begin_next(3)] by simp
  next
    case (start r f c cs)
    then have "closes_last (f\<lparr>closures := cs\<rparr>)" using begin_next(3) by (auto simp: all_close_last_def closes_last_def)
    then show ?thesis using start(1,3) last_startClosure [OF begin_next(3)] by simp
  next
    case (finish r f c res)
    then have "closes_last (f\<lparr>in_chain := None\<rparr>)" using begin_next(3) by (auto simp: all_close_last_def closes_last_def)
    then show ?thesis using finish(1) last_endClosure [OF begin_next(3)] by simp
  qed (use begin_next(3) last_calls last_AsyncExec in auto)
qed

end

section \<open>The elements meet the contract\<close>

lemmas server_defs = beginServer_def beginServer_Request_start_def beginServer_Request_end_def
  beginServer_Close_start_def eventFactoryServer_Request_def eventFactoryServer_Request_end_def eventFactoryServer_Close_def
lemmas client_defs = beginClient_def beginClient_Request_start_def beginClient_Request_end_def
  beginClient_Close_start_def eventFactoryClient_Request_def eventFactoryClient_Request_end_def eventFactoryClient_Close_def
lemmas nse_server_defs = beginNSEServer_def beginNSEServer_Register_start_def beginNSEServer_Register_end_def
  beginNSEServer_Unregister_start_def eventNSEFactoryServer_Register_def eventNSEFactoryServer_Register_end_def
lemmas nse_client_defs = beginNSEClient_def beginNSEClient_Register_start_def beginNSEClient_Register_end_def
  beginNSEClient_Unregister_start_def eventNSEFactoryClient_Register_def eventNSEFactoryClient_Register_end_def
lemmas ns_server_defs = beginNSServer_def beginNSServer_Register_start_def beginNSServer_Register_end_def
  beginNSServer_Unregister_start_def eventNSFactoryServer_Register_def eventNSFactoryServer_Register_end_def
lemmas ns_client_defs = beginNSClient_def beginNSClient_Register_start_def beginNSClient_Register_end_def
  beginNSClient_Unregister_start_def eventNSFactoryClient_Register_def eventNSFactoryClient_Register_end_def

interpretation server: begin_closing beginServer
  by unfold_locales (auto simp: server_defs Let_def split: if_splits sum.splits)

interpretation client: begin_closing beginClient
  by unfold_locales (auto simp: client_defs split: if_splits sum.splits)

interpretation nse_server: begin_element beginNSEServer
  by unfold_locales (auto simp: nse_server_defs split: if_splits sum.splits)

interpretation nse_client: begin_element beginNSEClient
  by unfold_locales (auto simp: nse_client_defs split: if_splits sum.splits option.splits)

interpretation ns_server: begin_closing beginNSServer
  by unfold_locales (auto simp: ns_server_defs split: if_splits sum.splits)

interpretation ns_client: begin_closing beginNSClient
  by unfold_locales (auto simp: ns_client_defs split: if_splits sum.splits option.splits)

text \<open>
  What the \<^verbatim>\<open>begin\<close> elements promise to the elements after them in the chain: calls for one identifier
  do not overlap, and a close carries the last message the chain returned. The close event of a
  factory that is no longer in the map breaks the first promise; a run of six calls shows it.
\<close>

section \<open>Serialization\<close>

text \<open>No two factories of the same identifier are inside the rest of the chain at once.\<close>

definition serialized :: "'m begin_server \<Rightarrow> bool" where
  "serialized b \<longleftrightarrow> (\<forall>r q f g. factories b r = Some f \<longrightarrow> factories b q = Some g \<longrightarrow>
     in_chain f \<noteq> None \<longrightarrow> in_chain g \<noteq> None \<longrightarrow> fid f = fid g \<longrightarrow> r = q)"

context begin_element
begin

lemma reach_serialized: "begin_reach True E b \<Longrightarrow> serialized b"
  unfolding serialized_def using one_active by (meson active_def)

end

lemmas reach_serialized_elements =
  server.reach_serialized client.reach_serialized nse_server.reach_serialized
  nse_client.reach_serialized ns_server.reach_serialized ns_client.reach_serialized

section \<open>Executable runs\<close>

text \<open>A schedule is a list of actions; an action that is not possible ends the run.\<close>

datatype 'm action =
  DoRequest string 'm
| DoClose string 'm
| FireRequest nat bool
| FireClose nat
| Start nat
| Finish nat "nsm_error + 'm"

definition act :: "'m element \<Rightarrow> 'm action \<Rightarrow> 'm begin_server \<Rightarrow> 'm begin_server option" where
  "act E a b =
     (case a of
        DoRequest i m \<Rightarrow> Some (callRequest i m b)
      | DoClose i m \<Rightarrow> Some (callClose E i m b)
      | FireRequest r rs \<Rightarrow> Some (AsyncExec r (RequestEvent rs) b)
      | FireClose r \<Rightarrow> Some (AsyncExec r CloseEvent b)
      | Start r \<Rightarrow>
          (case factories b r of
             None \<Rightarrow> None
           | Some f \<Rightarrow>
               (case closures f of
                  [] \<Rightarrow> None
                | c # cs \<Rightarrow> if in_chain f = None then Some (startClosure E r (f\<lparr>closures := cs\<rparr>) c b) else None))
      | Finish r res \<Rightarrow>
          (case factories b r of
             None \<Rightarrow> None
           | Some f \<Rightarrow> (case in_chain f of None \<Rightarrow> None | Some c \<Rightarrow> Some (endClosure E r (f\<lparr>in_chain := None\<rparr>) c res b))))"

fun run :: "'m element \<Rightarrow> 'm action list \<Rightarrow> 'm begin_server \<Rightarrow> 'm begin_server option" where
  "run E [] b = Some b"
| "run E (a # as) b = (case act E a b of None \<Rightarrow> None | Some b' \<Rightarrow> run E as b')"

lemma act_step: "act E a b = Some b' \<Longrightarrow> begin_step False E b b'"
  by (cases a) (auto simp: act_def split: option.splits list.splits if_splits intro: begin_step.intros)

lemma run_reach: "run E as b = Some b' \<Longrightarrow> begin_reach False E b \<Longrightarrow> begin_reach False E b'"
  by (induction as arbitrary: b) (auto split: option.splits dest: act_step intro: begin_next)

text \<open>A strict schedule fires no close event that starts on a factory that is not established.\<close>

definition strict_act :: "'m action \<Rightarrow> 'm begin_server \<Rightarrow> bool" where
  "strict_act a b =
     (case a of
        Start r \<Rightarrow>
          (case factories b r of
             None \<Rightarrow> True
           | Some f \<Rightarrow> (case closures f of CloseEvent # cs \<Rightarrow> state f = Established | _ \<Rightarrow> True))
      | _ \<Rightarrow> True)"

fun strict_run :: "'m element \<Rightarrow> 'm action list \<Rightarrow> 'm begin_server \<Rightarrow> bool" where
  "strict_run E [] b = True"
| "strict_run E (a # as) b = (strict_act a b \<and> (case act E a b of None \<Rightarrow> True | Some b' \<Rightarrow> strict_run E as b'))"

lemma act_strict_step: "act E a b = Some b' \<Longrightarrow> strict_act a b \<Longrightarrow> begin_step True E b b'"
  by (cases a) (auto simp: act_def strict_act_def split: option.splits list.splits if_splits closure.splits intro: begin_step.intros)

lemma strict_run_reach: "run E as b = Some b' \<Longrightarrow> strict_run E as b \<Longrightarrow> begin_reach True E b \<Longrightarrow> begin_reach True E b'"
  by (induction as arbitrary: b) (auto split: option.splits dest: act_strict_step intro: begin_next)

lemmas run_simps = act_def strict_act_def callRequest_def callClose_def LoadOrStore_def AsyncExec_def startClosure_def
  endClosure_def afterClose_def deleteId_def putFactory_def newEventFactory_def empty_begin_def Let_def

section \<open>The runs of the witnesses\<close>

definition conn_a :: Connection where
  "conn_a = empty_connection\<lparr>Id := ''a''\<rparr>"

text \<open>A request is answered; a second one is in the chain while a close and a close event wait.\<close>

definition busy :: "Connection action list" where
  "busy = [DoRequest ''a'' conn_a, Start 0, Finish 0 (Inr conn_a), DoRequest ''a'' conn_a, DoClose ''a'' conn_a,
     FireClose 0, Start 0]"

text \<open>
  A request is answered; its close and a close event wait together. The close runs and ends; a new
  request enters the chain, and then the waiting close event does.
\<close>

definition stale :: "Connection action list" where
  "stale = [DoRequest ''a'' conn_a, Start 0, Finish 0 (Inr conn_a), DoClose ''a'' conn_a, FireClose 0,
     Start 0, Finish 0 (Inr conn_a), DoRequest ''a'' conn_a, Start 1, Start 0]"

lemma stale_run:
  obtains b f g where "run beginServer stale empty_begin = Some b" "factories b 0 = Some f" "factories b 1 = Some g"
    "in_chain f \<noteq> None" "in_chain g \<noteq> None" "fid f = fid g"
  using that by (simp add: stale_def run_simps server_defs)

section \<open>The promises\<close>

text \<open>
  C3. Calls for one identifier are serialized: as long as close events start on established factories
  only, no interleaving of calls, closes, events, cancellations and chain results ever has two
  factories of the same identifier inside the rest of the chain. This holds of all six elements.
\<close>

theorem begin_serialized:
  "(\<forall>b. begin_reach True beginServer b \<or> begin_reach True beginClient b \<longrightarrow> serialized b) \<and>
   (\<forall>b. begin_reach True beginNSEServer b \<or> begin_reach True beginNSEClient b \<longrightarrow> serialized b) \<and>
   (\<forall>b. begin_reach True beginNSServer b \<or> begin_reach True beginNSClient b \<longrightarrow> serialized b)"
  using reach_serialized_elements by blast

theorem begin_serialized_witness:
  "\<exists>b f. run beginServer busy empty_begin = Some b \<and> factories b 0 = Some f \<and> in_chain f \<noteq> None \<and>
     length (closures f) = 2 \<and> serialized b"
proof -
  obtain b f where b: "run beginServer busy empty_begin = Some b" "factories b 0 = Some f" "in_chain f \<noteq> None"
      "length (closures f) = 2"
    by (simp add: busy_def run_simps server_defs)
  moreover have "strict_run beginServer busy empty_begin"
    by (simp add: busy_def run_simps server_defs)
  ultimately have "begin_reach True beginServer b" by (blast intro: strict_run_reach begin_init)
  with begin_serialized b show ?thesis by blast
qed

text \<open>
  C38. The code does not restrict close events, and then calls for one identifier do overlap: a close event
  that waited behind a close of the same connection enters the chain although its factory has left the
  map, while a new request for the identifier is in the chain.
\<close>

theorem stale_close_overlaps: "\<exists>b. begin_reach False beginServer b \<and> \<not> serialized b"
proof -
  obtain b f g where b: "run beginServer stale empty_begin = Some b" "factories b 0 = Some f" "factories b 1 = Some g"
      "in_chain f \<noteq> None" "in_chain g \<noteq> None" "fid f = fid g"
    by (rule stale_run)
  then have "\<not> serialized b" unfolding serialized_def by (metis zero_neq_one)
  with run_reach [OF b(1) begin_init] show ?thesis by blast
qed



section \<open>Merging\<close>

text \<open>
  The three-way merge of the client, key by key: a key of the returned map takes the requested value if
  that differs, is removed if the request lacks it, and otherwise keeps the current value. A key the
  request adds is not taken over.
\<close>

lemma mergeMap_keys:
  "map_of (mergeMapStringString ret req cur) k =
    (case map_of ret k of
       None \<Rightarrow> map_of cur k
     | Some v \<Rightarrow> (case map_of req k of None \<Rightarrow> None | Some v' \<Rightarrow> if v' \<noteq> v then Some v' else map_of cur k))"
  if "distinct (map fst ret)"
  using that
proof (induction ret arbitrary: cur)
  case (Cons p ret)
  obtain j v where p: "p = (j, v)" by (cases p)
  let ?cur = "case map_of req j of Some v' \<Rightarrow> if v' \<noteq> v then AList.update j v' cur else cur | None \<Rightarrow> AList.delete j cur"
  have "mergeMapStringString (p # ret) req cur = mergeMapStringString ret req ?cur"
    by (simp add: mergeMapStringString_def p)
  moreover have "j \<notin> fst ` set ret" using Cons.prems p by simp
  then have "map_of ret j = None" by (simp add: map_of_eq_None_iff)
  ultimately show ?case using Cons.IH [of ?cur] Cons.prems p
    by (auto simp: update_conv' delete_conv' split: option.splits)
qed (simp add: mergeMapStringString_def)

theorem mergeMap_keys_witness:
  "map_of (mergeMapStringString [(''a'', ''1''), (''b'', ''2'')] [(''a'', ''3''), (''c'', ''4'')] [(''b'', ''5'')]) ''a'' = Some ''3'' \<and>
   map_of (mergeMapStringString [(''a'', ''1''), (''b'', ''2'')] [(''a'', ''3''), (''c'', ''4'')] [(''b'', ''5'')]) ''b'' = None \<and>
   map_of (mergeMapStringString [(''a'', ''1''), (''b'', ''2'')] [(''a'', ''3''), (''c'', ''4'')] [(''b'', ''5'')]) ''c'' = None"
  by (subst (1 2 3) mergeMap_keys) simp_all

text \<open>
  A client that sends back what it was last given does not undo what events changed in between: the
  connection that goes on is the current one.
\<close>

lemma mergeConnection_unchanged:
  assumes "NetworkServiceEndpointName ret = NetworkServiceEndpointName req"
    and "same_context (Context ret) (Context req)" and "Context cur \<noteq> None"
  shows "mergeConnection (Some ret) req (Some cur) = cur"
  using assms by (auto simp: mergeConnection_def mergeConnectionContext_def)

theorem mergeConnection_unchanged_witness:
  "mergeConnection (Some conn_a) conn_a (Some (conn_a\<lparr>Context := Some empty_context, Mechanism := Some \<lparr>Cls = ''LOCAL'', mech_Type = ''MEMIF'', Parameters = None\<rparr>\<rparr>)) =
     conn_a\<lparr>Context := Some empty_context, Mechanism := Some \<lparr>Cls = ''LOCAL'', mech_Type = ''MEMIF'', Parameters = None\<rparr>\<rparr>"
  by (rule mergeConnection_unchanged) (simp_all add: conn_a_def empty_connection_def same_context_def)

end
