(* ===== verification/IP_Host.thy ===== *)
theory IP_Host
  imports IP_Pool_Text Go_Net_Roundtrip
begin

text \<open>
  Addresses handed out as text: the pools return host networks, the address managers keep their strings
  and give them back to the pool by parsing. The text of a host network parses to exactly its address,
  as long as the address is of the pool's family.
\<close>

definition v4_block :: "nat set" where
  "v4_block = {0xFFFF00000000..0xFFFFFFFFFFFF}"

text \<open>An address of the pool's family; an IPv6 pool must not hold addresses that are written as IPv4.\<close>

definition of_family :: "nat \<Rightarrow> nat \<Rightarrow> bool" where
  "of_family L n \<longleftrightarrow> (L = IPv4len \<and> n \<in> v4_block) \<or> (L = IPv6len \<and> n \<notin> v4_block)"

lemma v4_mapped_split: "take 12 ip = v4InV6Prefix \<Longrightarrow> v4InV6Prefix @ drop 12 ip = ip"
  by (metis append_take_drop_id)

lemma To4_of_v4:
  assumes "valid_IP ip" "ip_val ip \<in> v4_block"
  shows "length (To4 ip) = IPv4len" "ip_val (To4 ip) = ip_val ip" "To16 (To4 ip) = To16 ip"
proof -
  obtain a where a: "ipAddressFromIP ip = Some a" "aval a = ip_val ip"
    using ipAddressFromIP_Some [OF assms(1)] unfolding ip_val_def by metis
  then have v: "is_v4 a" using assms(2) by (simp add: is_v4_def v4_block_def)
  have "ipFromIPAddress a IPv4len = To4 (To16 ip)"
    using words_bytes [OF a(1)] by (simp add: ipFromIPAddress_def Let_def)
  then have "length (To4 (To16 ip)) = IPv4len" using ipAddress_roundtrip_v4(1) [OF v] by simp
  moreover have "To4 (To16 ip) = To4 ip"
    using assms(1) by (auto simp: To16_def To4_def valid_IP_def v4InV6Prefix_def)
  ultimately show l: "length (To4 ip) = IPv4len" by simp
  then show "To16 (To4 ip) = To16 ip"
    by (auto simp: To4_def To16_def v4_mapped_split split: if_splits)
  then show "ip_val (To4 ip) = ip_val ip" by (simp add: ip_val_def)
qed

lemma full_mask: "CIDRMask (int L * 8) (int L * 8) = cidr_bytes (8 * L) L" if "L \<in> {IPv4len, IPv6len}"
proof -
  have "CIDRMask (int L * 8) (int L * 8) = cidr_bytes (nat (int L * 8)) (nat (int L * 8 div 8))"
    using that by (intro CIDRMask_cidr_bytes) auto
  then show ?thesis by (simp add: nat_mult_distrib mult.commute)
qed

lemma net_set_host:
  assumes "length bs = L" "L \<in> {IPv4len, IPv6len}"
  shows "net_set \<lparr>IP = bs, Mask = cidr_bytes (8 * L) L\<rparr> = {ip_val bs}"
  using net_set_aligned [OF assms, of 0] full_mask [OF assms(2)] by (simp add: atLeastLessThanSuc)

lemma cidr_bytes_ones:
  assumes "length bs = L"
  shows "map2 (AND) bs (cidr_bytes (8 * L) L) = bs"
  using assms
proof (induction bs arbitrary: L)
  case (Cons b bs)
  then obtain k where L: "L = Suc k" "length bs = k" by auto
  have "b AND maskByte (min 8 (8 * Suc k)) = b"
    by (simp add: min_def maskByte_8)
  with Cons.IH [OF L(2)] show ?case unfolding L(1) cidr_bytes_Suc by simp
qed simp

lemma host_text:
  assumes "ipLength p = L" "valid_IP ip" "of_family L (ip_val ip)"
  shows "\<exists>n. ParseCIDR (IPNet_String (hostNet p ip)) = Some (To16 ip, n) \<and> net_set n = {ip_val ip} \<and> length (IP n) = L"
proof -
  let ?bs = "if L = IPv4len then To4 ip else ip"
  let ?n = "\<lparr>IP = ?bs, Mask = cidr_bytes (8 * L) L\<rparr>"
  have L: "L \<in> {IPv4len, IPv6len}" using assms(3) by (auto simp: of_family_def)
  have v4: "ip_val ip \<in> v4_block" if "length (To4 ip) = IPv4len"
  proof -
    have e: "ip_val ip = 0xFFFF00000000 + bytes_val (To4 ip)"
      using that assms(2) bytes_val_v4 [of "To4 ip"]
      by (auto simp: ip_val_def To4_def To16_def valid_IP_def v4_mapped_split split: if_splits)
    have "bytes_val (To4 ip) < 256 ^ 4" using bytes_val_bound [of "To4 ip"] that by simp
    with e show ?thesis by (simp add: v4_block_def)
  qed
  have 1: "length ?bs = L" "ip_val ?bs = ip_val ip" "To16 ?bs = To16 ip" "L = IPv6len \<longrightarrow> To4 ?bs = []"
  proof -
    have 6: "length ip = IPv6len \<and> To4 ip = []" if "L = IPv6len"
      using that assms(2,3) v4 by (auto simp: of_family_def valid_IP_def To4_def split: if_splits)
    show "length ?bs = L" "ip_val ?bs = ip_val ip" "To16 ?bs = To16 ip" "L = IPv6len \<longrightarrow> To4 ?bs = []"
      using To4_of_v4 [OF assms(2)] assms(3) 6 by (auto simp: of_family_def)
  qed
  have c: "canonical_net ?n"
    unfolding canonical_net_def using 1 L cidr_bytes_ones [OF 1(1)] by (intro exI [of _ "8 * L"] exI [of _ L]) auto
  have "networkNumberAndMask (hostNet p ip) = (?bs, cidr_bytes (8 * L) L)"
    using 1 L full_mask [OF L] assms(1)
    by (auto simp: networkNumberAndMask_def hostNet_def Let_def cidr_bytes_def)
  then have "IPNet_String (hostNet p ip) = IPNet_String ?n"
    by (simp add: IPNet_String_def networkNumber_canonical [OF c])
  then show ?thesis using ParseCIDR_IPNet_String [OF c] net_set_host [OF 1(1) L] 1 by auto
qed

end
