(* ===== verification/P2P_Ipam.thy ===== *)
theory P2P_Ipam
  imports IP_Host NSM_Api "HOL-Library.Monad_Syntax"
begin

text \<open>
  The point-to-point address manager (\<^verbatim>\<open>src/pkg/networkservice/ipam/point2pointipam\<close>): two addresses per
  connection, recovered from the request where possible and pulled from the first pool that has two
  otherwise. The pools are a list; a connection remembers the place of its pool, which stands for the
  pointer the code keeps. \<open>None\<close> is a panic: a nil connection, or one of a pool operation.
\<close>

section \<open>State\<close>

record connectionInfo =
  ci_ipPool :: nat
  srcAddr :: string
  dstAddr :: string

record ipamServer =
  connInfos :: "string \<rightharpoonup> connectionInfo"
  ipPools :: "IPPool list"
  prefixes :: "IPNet option list"
  once :: bool
  initErr :: bool

definition p2p_NewServer :: "IPNet option list \<Rightarrow> ipamServer" where
  "p2p_NewServer ps = \<lparr>connInfos = Map.empty, ipPools = [], prefixes = ps, once = False, initErr = False\<rparr>"

text \<open>The loop of \<^verbatim>\<open>init\<close>: the pools of the prefixes before the first nil one, and whether there is one.\<close>

fun initLoop :: "IPNet option list \<Rightarrow> IPPool list \<Rightarrow> (IPPool list \<times> bool) option" where
  "initLoop [] pools = Some (pools, False)"
| "initLoop (None # ps) pools = Some (pools, True)"
| "initLoop (Some prefix # ps) pools = do { p \<leftarrow> NewWithNet prefix; initLoop ps (pools @ [p]) }"

definition p2p_init :: "ipamServer \<Rightarrow> ipamServer option" where
  "p2p_init s =
     (if prefixes s = [] then Some (s\<lparr>initErr := True\<rparr>)
      else map_option (\<lambda>(pools, err). s\<lparr>ipPools := pools, initErr := err\<rparr>) (initLoop (prefixes s) (ipPools s)))"

definition p2p_once :: "ipamServer \<Rightarrow> ipamServer option" where
  "p2p_once s = (if once s then Some s else p2p_init (s\<lparr>once := True\<rparr>))"

section \<open>Excluded prefixes\<close>

fun excludeLoop :: "string list \<Rightarrow> IPPool \<Rightarrow> IPPool \<Rightarrow> (IPPool \<times> IPPool) option" where
  "excludeLoop [] ipv4exclude ipv6exclude = Some (ipv4exclude, ipv6exclude)"
| "excludeLoop (prefix # ps) ipv4exclude ipv6exclude = do {
     ipv4exclude \<leftarrow> AddNetString ipv4exclude prefix;
     ipv6exclude \<leftarrow> AddNetString ipv6exclude prefix;
     excludeLoop ps ipv4exclude ipv6exclude }"

definition p2p_exclude :: "string list \<Rightarrow> (IPPool \<times> IPPool) option" where
  "p2p_exclude ps = excludeLoop ps (New IPv4len) (New IPv6len)"

definition addrExcluded :: "IPPool \<Rightarrow> string \<Rightarrow> bool option" where
  "addrExcluded ex addr =
     (case ParseCIDR addr of None \<Rightarrow> Some False | Some (ip, _) \<Rightarrow> ContainsString ex (IP_String ip))"

definition shouldUpdate :: "connectionInfo \<Rightarrow> IPPool \<Rightarrow> bool option" where
  "shouldUpdate i ex = do {
     src \<leftarrow> addrExcluded ex (srcAddr i);
     if src then Some True else addrExcluded ex (dstAddr i) }"

section \<open>The lists of the context\<close>

fun deleteRoute :: "Route list \<Rightarrow> string \<Rightarrow> Route list" where
  "deleteRoute [] pre = []"
| "deleteRoute (route # rs) pre = (if Prefix route = pre then rs else route # deleteRoute rs pre)"

definition addRoute :: "Route list \<Rightarrow> string \<Rightarrow> Route list" where
  "addRoute routes pre =
     (if list_ex (\<lambda>r. Prefix r = pre) routes then routes else routes @ [\<lparr>Prefix = pre, NextHop = []\<rparr>])"

fun deleteAddr :: "string list \<Rightarrow> string \<Rightarrow> string list" where
  "deleteAddr [] addr = []"
| "deleteAddr (a # as) addr = (if a = addr then as else a # deleteAddr as addr)"

definition addAddr :: "string list \<Rightarrow> string \<Rightarrow> string list" where
  "addAddr addrs addr = (if list_ex (\<lambda>a. a = addr) addrs then addrs else addrs @ [addr])"

section \<open>Taking and giving back\<close>

text \<open>The first of the addresses that can be pulled; those before it leave the pool as it is.\<close>

fun pullFirst :: "string list \<Rightarrow> IPPool option list \<Rightarrow> IPPool \<Rightarrow> (IPNet option \<times> IPPool) option" where
  "pullFirst [] exs p = Some (None, p)"
| "pullFirst (addr # as) exs p = do {
     (r, p) \<leftarrow> PullIPString p addr exs;
     case r of Inr n \<Rightarrow> Some (Some n, p) | Inl e \<Rightarrow> pullFirst as exs p }"

text \<open>
  The loop of \<^verbatim>\<open>recoverAddrs\<close>, from the pool at place \<open>i\<close> on. What was pulled from a pool that has only one of
  the two addresses is not put back.
\<close>

fun recoverLoop ::
  "nat \<Rightarrow> string list \<Rightarrow> string list \<Rightarrow> IPPool option list \<Rightarrow> IPPool list \<Rightarrow> (connectionInfo option \<times> IPPool list) option" where
  "recoverLoop i srcAddrs dstAddrs exs [] = Some (None, [])"
| "recoverLoop i srcAddrs dstAddrs exs (p # ps) = do {
     (src, p) \<leftarrow> pullFirst srcAddrs exs p;
     (dst, p) \<leftarrow> pullFirst dstAddrs exs p;
     case (src, dst) of
       (Some s, Some d) \<Rightarrow> Some (Some \<lparr>ci_ipPool = i, srcAddr = IPNet_String s, dstAddr = IPNet_String d\<rparr>, p # ps)
     | _ \<Rightarrow> do { (r, ps) \<leftarrow> recoverLoop (Suc i) srcAddrs dstAddrs exs ps; Some (r, p # ps) } }"

definition recoverAddrs ::
  "string list \<Rightarrow> string list \<Rightarrow> IPPool option list \<Rightarrow> IPPool list \<Rightarrow> (connectionInfo option \<times> IPPool list) option" where
  "recoverAddrs srcAddrs dstAddrs exs pools =
     (if srcAddrs = [] \<or> dstAddrs = [] then Some (None, pools) else recoverLoop 0 srcAddrs dstAddrs exs pools)"

fun getP2PAddrs :: "nat \<Rightarrow> IPPool option list \<Rightarrow> IPPool list \<Rightarrow> (connectionInfo option \<times> IPPool list) option" where
  "getP2PAddrs i exs [] = Some (None, [])"
| "getP2PAddrs i exs (p # ps) = do {
     (r, p) \<leftarrow> PullP2PAddrs p exs;
     case r of
       Inr (d, s) \<Rightarrow> Some (Some \<lparr>ci_ipPool = i, srcAddr = IPNet_String s, dstAddr = IPNet_String d\<rparr>, p # ps)
     | Inl e \<Rightarrow> do { (r, ps) \<leftarrow> getP2PAddrs (Suc i) exs ps; Some (r, p # ps) } }"

definition p2p_free :: "connectionInfo \<Rightarrow> IPPool list \<Rightarrow> IPPool list option" where
  "p2p_free info pools = do {
     p \<leftarrow> AddNetString (pools ! ci_ipPool info) (srcAddr info);
     p \<leftarrow> AddNetString p (dstAddr info);
     Some (pools[ci_ipPool info := p]) }"

section \<open>The handlers\<close>

text \<open>
  First part of \<^verbatim>\<open>Request\<close>: the information the connection has and keeps. Addresses that have become
  excluded leave the context and go back to the pool; the entry of the map stays for now.
\<close>

definition p2p_load ::
  "string \<Rightarrow> IPPool \<Rightarrow> IPPool \<Rightarrow> IPContext \<Rightarrow> ipamServer \<Rightarrow> (connectionInfo option \<times> IPContext \<times> ipamServer) option" where
  "p2p_load i ex4 ex6 ipc s =
     (case connInfos s i of
        None \<Rightarrow> Some (None, ipc, s)
      | Some info \<Rightarrow> do {
          a \<leftarrow> shouldUpdate info ex4;
          b \<leftarrow> (if a then Some True else shouldUpdate info ex6);
          if b then do {
            pools \<leftarrow> p2p_free info (ipPools s);
            Some (None,
              ipc\<lparr>SrcIpAddrs := deleteAddr (SrcIpAddrs ipc) (srcAddr info),
                  DstIpAddrs := deleteAddr (DstIpAddrs ipc) (dstAddr info),
                  SrcRoutes := deleteRoute (SrcRoutes ipc) (dstAddr info),
                  DstRoutes := deleteRoute (DstRoutes ipc) (srcAddr info)\<rparr>,
              s\<lparr>ipPools := pools\<rparr>) }
          else Some (Some info, ipc, s) })"

text \<open>Second part: recovered or new addresses, stored under the connection's id.\<close>

definition p2p_allocate ::
  "string \<Rightarrow> IPPool \<Rightarrow> IPPool \<Rightarrow> IPContext \<Rightarrow> ipamServer \<Rightarrow> (connectionInfo option \<times> ipamServer) option" where
  "p2p_allocate i ex4 ex6 ipc s = do {
     (r, pools) \<leftarrow> recoverAddrs (SrcIpAddrs ipc) (DstIpAddrs ipc) [Some ex4, Some ex6] (ipPools s);
     case r of
       Some info \<Rightarrow> Some (Some info, s\<lparr>ipPools := pools, connInfos := (connInfos s)(i \<mapsto> info)\<rparr>)
     | None \<Rightarrow> do {
         (r, pools) \<leftarrow> getP2PAddrs 0 [Some ex4, Some ex6] pools;
         case r of
           Some info \<Rightarrow> Some (Some info, s\<lparr>ipPools := pools, connInfos := (connInfos s)(i \<mapsto> info)\<rparr>)
         | None \<Rightarrow> Some (None, s\<lparr>ipPools := pools\<rparr>) } }"

definition p2p_answer :: "connectionInfo \<Rightarrow> IPContext \<Rightarrow> IPContext" where
  "p2p_answer info ipc = ipc\<lparr>
     SrcIpAddrs := addAddr (SrcIpAddrs ipc) (srcAddr info),
     SrcRoutes := addRoute (SrcRoutes ipc) (dstAddr info),
     DstIpAddrs := addAddr (DstIpAddrs ipc) (dstAddr info),
     DstRoutes := addRoute (DstRoutes ipc) (srcAddr info)\<rparr>"

definition p2p_Request ::
  "'w request_chain \<Rightarrow> NetworkServiceRequest \<Rightarrow> ipamServer \<Rightarrow> 'w \<Rightarrow> ((nsm_error + Connection) \<times> ipamServer \<times> 'w) option" where
  "p2p_Request nxt request s w = do {
     s \<leftarrow> p2p_once s;
     if initErr s then Some (Inl (Err ''init''), s, w)
     else do {
       conn \<leftarrow> req_connection request;
       let ctx = (case Context conn of None \<Rightarrow> empty_context | Some c \<Rightarrow> c);
       let ipc = (case IpContext ctx of None \<Rightarrow> empty_ip_context | Some c \<Rightarrow> c);
       (ex4, ex6) \<leftarrow> p2p_exclude (ExcludedPrefixes ipc);
       (keep, ipc, s) \<leftarrow> p2p_load (Id conn) ex4 ex6 ipc s;
       (info, s) \<leftarrow> (case keep of Some info \<Rightarrow> Some (Some info, s) | None \<Rightarrow> p2p_allocate (Id conn) ex4 ex6 ipc s);
       case info of
         None \<Rightarrow> if ipPools s = [] then None else Some (Inl (Err ''IPPool is empty''), s, w)
       | Some info \<Rightarrow>
           let conn = conn\<lparr>Context := Some (ctx\<lparr>IpContext := Some (p2p_answer info ipc)\<rparr>)\<rparr> in
           (case nxt (request\<lparr>req_connection := Some conn\<rparr>) w of
              (Inr conn, w) \<Rightarrow> Some (Inr conn, s, w)
            | (Inl e, w) \<Rightarrow>
                if keep = None then do { pools \<leftarrow> p2p_free info (ipPools s); Some (Inl e, s\<lparr>ipPools := pools\<rparr>, w) }
                else Some (Inl e, s, w)) } }"

definition p2p_Close ::
  "'w close_chain \<Rightarrow> Connection \<Rightarrow> ipamServer \<Rightarrow> 'w \<Rightarrow> ((nsm_error + unit) \<times> ipamServer \<times> 'w) option" where
  "p2p_Close nxt conn s w = do {
     s \<leftarrow> p2p_once s;
     if initErr s then Some (Inl (Err ''init''), s, w)
     else do {
       s \<leftarrow> (case connInfos s (Id conn) of
              None \<Rightarrow> Some s
            | Some info \<Rightarrow> do {
                pools \<leftarrow> p2p_free info (ipPools s);
                Some (s\<lparr>connInfos := (connInfos s)(Id conn := None), ipPools := pools\<rparr>) });
       let (res, w) = nxt conn w;
       Some (res, s, w) } }"

end
