(* ===== verification/Address_Ledger.thy ===== *)
theory Address_Ledger
  imports Main
begin

text \<open>
  What an address manager promises, without its data structures: a ledger of the addresses that are
  spare in each pool and of those each connection holds. Addresses go from spare to held and back, or
  get lost; none is held twice or both held and spare.
\<close>

record ('p, 'a) ledger =
  spare :: "'p \<Rightarrow> 'a set"
  held :: "string \<rightharpoonup> 'p \<times> 'a set"

definition exclusive :: "('p, 'a) ledger \<Rightarrow> bool" where
  "exclusive L \<longleftrightarrow>
     (\<forall>c k A x. held L c = Some (k, A) \<longrightarrow> x \<in> A \<longrightarrow> x \<notin> spare L k) \<and>
     (\<forall>c c' k A A' x. held L c = Some (k, A) \<longrightarrow> held L c' = Some (k, A') \<longrightarrow> x \<in> A \<longrightarrow> x \<in> A' \<longrightarrow> c = c')"

inductive ledger_step :: "('p, 'a) ledger \<Rightarrow> ('p, 'a) ledger \<Rightarrow> bool" where
  grant: "held L c = None \<Longrightarrow> A \<subseteq> spare L k \<Longrightarrow>
    ledger_step L \<lparr>spare = (spare L)(k := spare L k - A), held = (held L)(c \<mapsto> (k, A))\<rparr>"
| give_back: "held L c = Some (k, A) \<Longrightarrow>
    ledger_step L \<lparr>spare = (spare L)(k := spare L k \<union> A), held = (held L)(c := None)\<rparr>"
| lose: "(\<And>k. S k \<subseteq> spare L k) \<Longrightarrow> ledger_step L (L\<lparr>spare := S\<rparr>)"

lemma exclusive_spare: "exclusive L \<Longrightarrow> held L c = Some (k, A) \<Longrightarrow> x \<in> A \<Longrightarrow> x \<notin> spare L k"
  by (simp add: exclusive_def)

lemma exclusive_held: "exclusive L \<Longrightarrow> held L c = Some (k, A) \<Longrightarrow> held L c' = Some (k, A') \<Longrightarrow> x \<in> A \<Longrightarrow> x \<in> A' \<Longrightarrow> c = c'"
  unfolding exclusive_def by metis

lemma exclusiveI:
  assumes "\<And>c k A x. held L c = Some (k, A) \<Longrightarrow> x \<in> A \<Longrightarrow> x \<notin> spare L k"
    and "\<And>c c' k A A' x. held L c = Some (k, A) \<Longrightarrow> held L c' = Some (k, A') \<Longrightarrow> x \<in> A \<Longrightarrow> x \<in> A' \<Longrightarrow> c = c'"
  shows "exclusive L"
  using assms unfolding exclusive_def by metis

lemma exclusive_grant:
  assumes "exclusive L" "held L c = None" "A \<subseteq> spare L k"
  shows "exclusive \<lparr>spare = (spare L)(k := spare L k - A), held = (held L)(c \<mapsto> (k, A))\<rparr>" (is "exclusive ?L")
proof (rule exclusiveI)
  show "x \<notin> spare ?L k'" if "held ?L d = Some (k', B)" "x \<in> B" for d k' B x
    using that exclusive_spare [OF assms(1), of d k' B x] by (cases "d = c") auto
  show "d = e" if "held ?L d = Some (k', B)" "held ?L e = Some (k', B')" "x \<in> B" "x \<in> B'" for d e k' B B' x
  proof (cases "d = c \<or> e = c")
    case True
    then show ?thesis
      using that exclusive_spare [OF assms(1), of d k' B x] exclusive_spare [OF assms(1), of e k' B' x] assms(3)
      by (auto split: if_splits)
  next
    case False
    then show ?thesis using that exclusive_held [OF assms(1), of d k' B e B' x] by simp
  qed
qed

lemma exclusive_give_back:
  assumes "exclusive L" "held L c = Some (k, A)"
  shows "exclusive \<lparr>spare = (spare L)(k := spare L k \<union> A), held = (held L)(c := None)\<rparr>" (is "exclusive ?L")
proof (rule exclusiveI)
  show "x \<notin> spare ?L k'" if "held ?L d = Some (k', B)" "x \<in> B" for d k' B x
    using that exclusive_spare [OF assms(1), of d k' B x] exclusive_held [OF assms(1,2), of d B x]
    by (auto split: if_splits)
  show "d = e" if "held ?L d = Some (k', B)" "held ?L e = Some (k', B')" "x \<in> B" "x \<in> B'" for d e k' B B' x
    using that exclusive_held [OF assms(1), of d k' B e B' x] by (auto split: if_splits)
qed

lemma ledger_step_exclusive: "ledger_step L L' \<Longrightarrow> exclusive L \<Longrightarrow> exclusive L'"
proof (induction rule: ledger_step.induct)
  case (lose S L)
  then show ?case unfolding exclusive_def by (simp add: subset_iff) metis
qed (simp_all add: exclusive_grant exclusive_give_back)

lemma ledger_steps_exclusive: "ledger_step\<^sup>*\<^sup>* L L' \<Longrightarrow> exclusive L \<Longrightarrow> exclusive L'"
  by (induction rule: rtranclp_induct) (auto dest: ledger_step_exclusive)

text \<open>An address manager whose calls are moves of a ledger never hands an address out twice.\<close>

locale ledger_client =
  fixes inv :: "'s \<Rightarrow> bool" and abs :: "'s \<Rightarrow> ('p, 'a) ledger" and call :: "'s \<Rightarrow> 's \<Rightarrow> bool"
  assumes call_inv: "inv s \<Longrightarrow> call s s' \<Longrightarrow> inv s'"
    and call_ledger: "inv s \<Longrightarrow> call s s' \<Longrightarrow> ledger_step\<^sup>*\<^sup>* (abs s) (abs s')"
begin

lemma calls_exclusive:
  assumes "call\<^sup>*\<^sup>* s s'" "inv s" "exclusive (abs s)"
  shows "inv s' \<and> exclusive (abs s')"
  using assms
proof (induction rule: rtranclp_induct)
  case (step t u)
  then show ?case using call_inv call_ledger ledger_steps_exclusive by blast
qed simp

end

end
