(* ===== verification/P2P_Props.thy ===== *)
theory P2P_Props
  imports P2P_Ipam Address_Ledger
begin

text \<open>
  The point-to-point address manager keeps a ledger: a call that succeeds moves addresses between the
  pools and the connections, and no address is held twice.
\<close>

section \<open>Pools and names of one family\<close>

definition pool_ok :: "IPPool \<Rightarrow> bool" where
  "pool_ok p \<longleftrightarrow> pool_inv p \<and> (\<forall>n\<in>pool_set p. of_family (ipLength p) n)"

text \<open>The text \<open>a\<close> names the address \<open>x\<close> of family \<open>L\<close>.\<close>

definition host_name :: "nat \<Rightarrow> string \<Rightarrow> nat \<Rightarrow> bool" where
  "host_name L a x \<longleftrightarrow> of_family L x \<and>
     (\<exists>ip n. ParseCIDR a = Some (ip, n) \<and> ip_val ip = x \<and> net_set n = {x} \<and> length (IP n) = L)"

definition info_ok :: "nat \<Rightarrow> connectionInfo \<Rightarrow> bool" where
  "info_ok L info \<longleftrightarrow> (\<exists>x y. x \<noteq> y \<and> host_name L (srcAddr info) x \<and> host_name L (dstAddr info) y)"

definition addrs :: "connectionInfo \<Rightarrow> nat set" where
  "addrs info = cidr_set (srcAddr info) \<union> cidr_set (dstAddr info)"

lemma host_name_cidr: "host_name L a x \<Longrightarrow> cidr_set a = {x} \<and> cidr_family a = Some L"
  unfolding host_name_def cidr_set_def cidr_family_def by (elim conjE exE) simp

lemma host_name_hostNet:
  assumes "ipLength p = L" "valid_IP ip" "of_family L (ip_val ip)"
  shows "host_name L (IPNet_String (hostNet p ip)) (ip_val ip)"
proof -
  obtain n where "ParseCIDR (IPNet_String (hostNet p ip)) = Some (To16 ip, n)" "net_set n = {ip_val ip}" "length (IP n) = L"
    using host_text [OF assms] by blast
  moreover have "ip_val (To16 ip) = ip_val ip"
    using assms(2) by (auto simp: ip_val_def To16_def valid_IP_def v4InV6Prefix_def)
  ultimately show ?thesis using assms(3) by (auto simp: host_name_def)
qed

lemma ip_of_address:
  assumes "of_family L (aval a)"
  shows "valid_IP (ipFromIPAddress a L)" "ip_val (ipFromIPAddress a L) = aval a"
proof -
  have "valid_IP (ipFromIPAddress a L) \<and> ip_val (ipFromIPAddress a L) = aval a"
  proof (cases "L = IPv4len")
    case True
    then have v: "is_v4 a" using assms by (simp add: of_family_def v4_block_def is_v4_def)
    show ?thesis
      using ipAddress_roundtrip_v4 [OF v] aval_ipAddressFromIP [OF ipAddress_roundtrip_v4(2) [OF v]] True
      by (simp add: valid_IP_def ip_val_def)
  next
    case False
    then have L: "L = IPv6len" using assms by (simp add: of_family_def)
    have "length (ipFromIPAddress a IPv6len) = IPv6len" by (simp add: ipFromIPAddress_def Let_def)
    then show ?thesis using aval_ipAddressFromIP [OF ipAddress_roundtrip_v6 [of a]] L by (simp add: valid_IP_def ip_val_def)
  qed
  then show "valid_IP (ipFromIPAddress a L)" "ip_val (ipFromIPAddress a L) = aval a" by blast+
qed

section \<open>One pool\<close>

lemma PullIPString_spec:
  assumes "pool_ok p" "pools_inv exs"
  obtains r p' where "PullIPString p a exs = Some (r, p')" "pool_ok p'" "ipLength p' = ipLength p"
    "\<And>e. r = Inl e \<Longrightarrow> pool_set p' = pool_set p"
    "\<And>n. r = Inr n \<Longrightarrow> \<exists>x. host_name (ipLength p) (IPNet_String n) x \<and> x \<in> pool_set p - excluded exs \<and>
      pool_set p' = pool_set p - {x}"
proof (cases "ParseCIDR a")
  case None
  then show ?thesis using that [of "Inl ParseFailed" p] assms by (simp add: PullIPString_def)
next
  case (Some ipn)
  obtain ip n where ip: "ParseCIDR a = Some (ip, n)" using Some by (cases ipn) auto
  then have v: "valid_IP ip" using ParseCIDR_valid by blast
  have inv: "pool_inv p" using assms(1) by (simp add: pool_ok_def)
  let ?r = "if ip_val ip \<in> pool_set p - excluded exs then Inr (hostNet p ip) else Inl NotInPool"
  obtain p' where p': "PullIP p ip exs = Some (?r, p')" "pool_inv p'" "ipLength p' = ipLength p"
    "pool_set p' = (if ip_val ip \<in> pool_set p - excluded exs then pool_set p - {ip_val ip} else pool_set p)"
    using PullIP_correct [OF inv assms(2) v] by blast
  have "pool_ok p'" using p' assms(1) by (auto simp: pool_ok_def)
  moreover have "host_name (ipLength p) (IPNet_String (hostNet p ip)) (ip_val ip)" if "ip_val ip \<in> pool_set p"
    using host_name_hostNet [OF refl v] that assms(1) by (simp add: pool_ok_def)
  ultimately show ?thesis using that [of "case ?r of Inl e \<Rightarrow> Inl (PoolError e) | Inr n \<Rightarrow> Inr n" p'] p' ip
    by (auto simp: PullIPString_def split: if_splits)
qed

lemma pullFirst_spec:
  assumes "pool_ok p" "pools_inv exs"
  shows "\<exists>r p'. pullFirst as exs p = Some (r, p') \<and> pool_ok p' \<and> ipLength p' = ipLength p \<and>
    (r = None \<longrightarrow> pool_set p' = pool_set p) \<and>
    (\<forall>n. r = Some n \<longrightarrow> (\<exists>x. host_name (ipLength p) (IPNet_String n) x \<and> x \<in> pool_set p - excluded exs \<and>
      pool_set p' = pool_set p - {x}))"
  using assms
proof (induction as arbitrary: p)
  case (Cons a as)
  obtain r p' where p': "PullIPString p a exs = Some (r, p')" "pool_ok p'" "ipLength p' = ipLength p"
    "\<And>e. r = Inl e \<Longrightarrow> pool_set p' = pool_set p"
    "\<And>n. r = Inr n \<Longrightarrow> \<exists>x. host_name (ipLength p) (IPNet_String n) x \<and> x \<in> pool_set p - excluded exs \<and>
      pool_set p' = pool_set p - {x}"
    using PullIPString_spec [OF Cons.prems, of a] by metis
  show ?case
  proof (cases r)
    case (Inl e)
    then show ?thesis using Cons.IH [OF p'(2) Cons.prems(2)] p'(1,3,4) by simp
  next
    case (Inr n)
    then show ?thesis using p' by simp
  qed
qed simp

lemma PullP2PAddrs_spec:
  assumes "pool_ok p" "pools_inv exs"
  obtains r p' where "PullP2PAddrs p exs = Some (r, p')" "pool_ok p'" "ipLength p' = ipLength p"
    "\<And>e. r = Inl e \<Longrightarrow> p' = p \<and> (\<exists>n. pool_set p - excluded exs \<subseteq> {n})"
    "\<And>d s. r = Inr (d, s) \<Longrightarrow> \<exists>x y. x \<noteq> y \<and> host_name (ipLength p) (IPNet_String s) x \<and>
      host_name (ipLength p) (IPNet_String d) y \<and> {x, y} \<subseteq> pool_set p - excluded exs \<and> pool_set p' = pool_set p - {x, y}"
proof -
  have inv: "pool_inv p" using assms(1) by (simp add: pool_ok_def)
  obtain r p' where p': "PullP2PAddrs p exs = Some (r, p')" "pool_inv p'" "ipLength p' = ipLength p"
    "case r of Inl e \<Rightarrow> e = PoolEmpty \<and> p' = p \<and> (\<exists>n. pool_set p - excluded exs \<subseteq> {n})
     | Inr (src, dst) \<Rightarrow> \<exists>a b. src = hostNet p (ipFromIPAddress a (ipLength p)) \<and>
         dst = hostNet p (ipFromIPAddress b (ipLength p)) \<and> aval a < aval b \<and>
         {aval a, aval b} \<subseteq> pool_set p - excluded exs \<and>
         (\<forall>n\<in>pool_set p - excluded exs. n = aval a \<or> aval b \<le> n) \<and>
         pool_set p' = pool_set p - {aval a, aval b}"
    using PullP2PAddrs_correct [OF inv assms(2)] by blast
  have h: "host_name (ipLength p) (IPNet_String (hostNet p (ipFromIPAddress a (ipLength p)))) (aval a)"
    if "aval a \<in> pool_set p" for a
  proof -
    have "of_family (ipLength p) (aval a)" using that assms(1) by (simp add: pool_ok_def)
    then show ?thesis using host_name_hostNet [OF refl, of "ipFromIPAddress a (ipLength p)" p] ip_of_address by simp
  qed
  have sub: "pool_set p' \<subseteq> pool_set p" using p'(4) by (auto split: sum.splits)
  have "\<exists>x y. x \<noteq> y \<and> host_name (ipLength p) (IPNet_String s) x \<and> host_name (ipLength p) (IPNet_String d) y \<and>
      {x, y} \<subseteq> pool_set p - excluded exs \<and> pool_set p' = pool_set p - {x, y}" if r: "r = Inr (d, s)" for d s
  proof -
    obtain a b where ab: "d = hostNet p (ipFromIPAddress a (ipLength p))" "s = hostNet p (ipFromIPAddress b (ipLength p))"
      "aval a < aval b" "{aval a, aval b} \<subseteq> pool_set p - excluded exs" "pool_set p' = pool_set p - {aval a, aval b}"
      using p'(4) r by auto
    have m: "aval a \<in> pool_set p" "aval b \<in> pool_set p" "aval b \<noteq> aval a" using ab(3,4) by auto
    show ?thesis unfolding ab(1,2)
      by (rule exI [of _ "aval b"], rule exI [of _ "aval a"], intro conjI m(3) h m(1,2))
        (use ab(4,5) in \<open>simp_all add: insert_commute\<close>)
  qed
  moreover have "pool_ok p'" using p'(2,3) sub assms(1) by (auto simp: pool_ok_def)
  ultimately show ?thesis
  proof (intro that [OF p'(1) _ p'(3)])
    show "\<And>e. r = Inl e \<Longrightarrow> p' = p \<and> (\<exists>n. pool_set p - excluded exs \<subseteq> {n})" using p'(4) by simp
  qed
qed

section \<open>All pools\<close>

text \<open>The pools after some addresses were taken.\<close>

definition shrunk :: "IPPool list \<Rightarrow> IPPool list \<Rightarrow> bool" where
  "shrunk ps ps' \<longleftrightarrow> list_all2 (\<lambda>p p'. pool_ok p' \<and> ipLength p' = ipLength p \<and> pool_set p' \<subseteq> pool_set p) ps ps'"

text \<open>What a connection is granted: two addresses of one pool that are not excluded and are gone from it.\<close>

definition granted :: "nat \<Rightarrow> IPPool option list \<Rightarrow> IPPool list \<Rightarrow> IPPool list \<Rightarrow> connectionInfo \<Rightarrow> bool" where
  "granted i exs ps ps' info \<longleftrightarrow> (\<exists>j<length ps. ci_ipPool info = i + j \<and> info_ok (ipLength (ps ! j)) info \<and>
     addrs info \<subseteq> pool_set (ps ! j) - excluded exs \<and> addrs info \<inter> pool_set (ps' ! j) = {})"

lemma shrunk_refl: "\<forall>p\<in>set ps. pool_ok p \<Longrightarrow> shrunk ps ps"
  by (auto simp: shrunk_def intro: list.rel_refl_strong)

lemma shrunk_trans: "shrunk ps qs \<Longrightarrow> shrunk qs rs \<Longrightarrow> shrunk ps rs"
  unfolding shrunk_def by (rule list_all2_trans) auto

lemma shrunk_Cons: "pool_ok p' \<Longrightarrow> ipLength p' = ipLength p \<Longrightarrow> pool_set p' \<subseteq> pool_set p \<Longrightarrow> shrunk ps ps' \<Longrightarrow> shrunk (p # ps) (p' # ps')"
  by (simp add: shrunk_def)

lemma shrunk_nth:
  "shrunk ps ps' \<Longrightarrow> j < length ps \<Longrightarrow> pool_ok (ps' ! j) \<and> ipLength (ps' ! j) = ipLength (ps ! j) \<and> pool_set (ps' ! j) \<subseteq> pool_set (ps ! j)"
  by (simp add: shrunk_def list_all2_conv_all_nth)

lemma shrunk_length: "shrunk ps ps' \<Longrightarrow> length ps' = length ps"
  by (simp add: shrunk_def list_all2_lengthD)

lemma granted_Cons: "granted (Suc i) exs ps ps' info \<Longrightarrow> granted i exs (p # ps) (p' # ps') info"
  unfolding granted_def by (elim exE) (rule_tac x = "Suc j" in exI, simp)

lemma granted_head:
  assumes "x \<noteq> y" "host_name (ipLength p) (srcAddr info) x" "host_name (ipLength p) (dstAddr info) y"
    "ci_ipPool info = i" "x \<in> pool_set p - excluded exs" "y \<in> pool_set p - excluded exs" "pool_set p' = pool_set p - {x, y}"
  shows "granted i exs (p # ps) (p' # ps') info"
proof -
  have "addrs info = {x, y}" using assms(2,3) by (simp add: addrs_def host_name_cidr insert_commute)
  then show ?thesis using assms unfolding granted_def info_ok_def by (intro exI [of _ 0]) auto
qed

lemma recoverLoop_spec:
  assumes "\<forall>p\<in>set ps. pool_ok p" "pools_inv exs"
  shows "\<exists>r ps'. recoverLoop i as bs exs ps = Some (r, ps') \<and> shrunk ps ps' \<and> (\<forall>info. r = Some info \<longrightarrow> granted i exs ps ps' info)"
  using assms
proof (induction ps arbitrary: i)
  case Nil
  show ?case by (simp add: shrunk_def)
next
  case (Cons p ps)
  have ok: "pool_ok p" "\<forall>p\<in>set ps. pool_ok p" using Cons.prems(1) by simp_all
  obtain r1 p1 where 1: "pullFirst as exs p = Some (r1, p1)" "pool_ok p1" "ipLength p1 = ipLength p"
    "r1 = None \<longrightarrow> pool_set p1 = pool_set p"
    "\<forall>n. r1 = Some n \<longrightarrow> (\<exists>x. host_name (ipLength p) (IPNet_String n) x \<and> x \<in> pool_set p - excluded exs \<and> pool_set p1 = pool_set p - {x})"
    using pullFirst_spec [OF ok(1) Cons.prems(2)] by metis
  obtain r2 p2 where 2: "pullFirst bs exs p1 = Some (r2, p2)" "pool_ok p2" "ipLength p2 = ipLength p1"
    "r2 = None \<longrightarrow> pool_set p2 = pool_set p1"
    "\<forall>n. r2 = Some n \<longrightarrow> (\<exists>x. host_name (ipLength p1) (IPNet_String n) x \<and> x \<in> pool_set p1 - excluded exs \<and> pool_set p2 = pool_set p1 - {x})"
    using pullFirst_spec [OF 1(2) Cons.prems(2)] by metis
  have sub: "pool_set p1 \<subseteq> pool_set p" "pool_set p2 \<subseteq> pool_set p1" using 1(4,5) 2(4,5) by (cases r1; cases r2; force)+
  show ?case
  proof (cases "r1 = None \<or> r2 = None")
    case True
    obtain r ps' where "recoverLoop (Suc i) as bs exs ps = Some (r, ps')" "shrunk ps ps'"
      "\<forall>info. r = Some info \<longrightarrow> granted (Suc i) exs ps ps' info"
      using Cons.IH [OF ok(2) Cons.prems(2)] by metis
    then show ?thesis using 1 2 sub True by (auto intro!: shrunk_Cons granted_Cons split: option.splits)
  next
    case False
    then obtain s d where r: "r1 = Some s" "r2 = Some d" by auto
    obtain x where x: "host_name (ipLength p) (IPNet_String s) x" "x \<in> pool_set p - excluded exs" "pool_set p1 = pool_set p - {x}"
      using 1(5) r(1) by metis
    obtain y where y: "host_name (ipLength p) (IPNet_String d) y" "y \<in> pool_set p1 - excluded exs" "pool_set p2 = pool_set p1 - {y}"
      using 2(5) r(2) 1(3) by metis
    let ?info = "\<lparr>ci_ipPool = i, srcAddr = IPNet_String s, dstAddr = IPNet_String d\<rparr>"
    have "granted i exs (p # ps) (p2 # ps) ?info"
      by (rule granted_head [of x y]) (use x y in auto)
    moreover have "shrunk (p # ps) (p2 # ps)" using 1 2 sub shrunk_refl [OF ok(2)] by (intro shrunk_Cons) auto
    ultimately show ?thesis using 1(1) 2(1) r by simp
  qed
qed

lemma recoverAddrs_spec:
  assumes "\<forall>p\<in>set ps. pool_ok p" "pools_inv exs"
  shows "\<exists>r ps'. recoverAddrs as bs exs ps = Some (r, ps') \<and> shrunk ps ps' \<and> (\<forall>info. r = Some info \<longrightarrow> granted 0 exs ps ps' info)"
  using recoverLoop_spec [OF assms] shrunk_refl [OF assms(1)] by (simp add: recoverAddrs_def)

text \<open>A pull fails only when every pool has at most one address left that is not excluded.\<close>

lemma getP2PAddrs_spec:
  assumes "\<forall>p\<in>set ps. pool_ok p" "pools_inv exs"
  shows "\<exists>r ps'. getP2PAddrs i exs ps = Some (r, ps') \<and> shrunk ps ps' \<and> (\<forall>info. r = Some info \<longrightarrow> granted i exs ps ps' info) \<and>
    (r = None \<longrightarrow> ps' = ps \<and> (\<forall>p\<in>set ps. \<exists>n. pool_set p - excluded exs \<subseteq> {n}))"
  using assms
proof (induction ps arbitrary: i)
  case Nil
  show ?case by (simp add: shrunk_def)
next
  case (Cons p ps)
  have ok: "pool_ok p" "\<forall>p\<in>set ps. pool_ok p" using Cons.prems(1) by simp_all
  obtain r p' where 1: "PullP2PAddrs p exs = Some (r, p')" "pool_ok p'" "ipLength p' = ipLength p"
    and e: "\<And>e. r = Inl e \<Longrightarrow> p' = p \<and> (\<exists>n. pool_set p - excluded exs \<subseteq> {n})"
    and g: "\<And>d s. r = Inr (d, s) \<Longrightarrow> \<exists>x y. x \<noteq> y \<and> host_name (ipLength p) (IPNet_String s) x \<and>
      host_name (ipLength p) (IPNet_String d) y \<and> {x, y} \<subseteq> pool_set p - excluded exs \<and> pool_set p' = pool_set p - {x, y}"
    by (rule PullP2PAddrs_spec [OF ok(1) Cons.prems(2)]) (rule that)
  show ?case
  proof (cases r)
    case (Inl a)
    obtain r ps' where "getP2PAddrs (Suc i) exs ps = Some (r, ps')" "shrunk ps ps'"
      "\<forall>info. r = Some info \<longrightarrow> granted (Suc i) exs ps ps' info"
      "r = None \<longrightarrow> ps' = ps \<and> (\<forall>p\<in>set ps. \<exists>n. pool_set p - excluded exs \<subseteq> {n})"
      using Cons.IH [OF ok(2) Cons.prems(2)] by metis
    then show ?thesis using 1 e [OF Inl] Inl by (auto intro!: shrunk_Cons granted_Cons)
  next
    case (Inr ds)
    then obtain d s where ds: "r = Inr (d, s)" by (cases ds) auto
    obtain x y where xy: "x \<noteq> y" "host_name (ipLength p) (IPNet_String s) x" "host_name (ipLength p) (IPNet_String d) y"
      "{x, y} \<subseteq> pool_set p - excluded exs" "pool_set p' = pool_set p - {x, y}" using g [OF ds] by metis
    let ?info = "\<lparr>ci_ipPool = i, srcAddr = IPNet_String s, dstAddr = IPNet_String d\<rparr>"
    have "granted i exs (p # ps) (p' # ps) ?info" by (rule granted_head [OF xy(1)]) (use xy in auto)
    moreover have "shrunk (p # ps) (p' # ps)" using 1 xy(5) shrunk_refl [OF ok(2)] by (intro shrunk_Cons) auto
    ultimately show ?thesis using 1(1) ds by simp
  qed
qed

end
