(* ===== verification/P2P_Refine.thy ===== *)
theory P2P_Refine
  imports P2P_Props
begin

text \<open>
  The handlers of the point-to-point address manager as moves of the ledger. A request that fails after
  it took addresses is not one: the manager then gives them back and keeps the entry.
\<close>

section \<open>Excluded prefixes\<close>

lemma excludeLoop_spec:
  assumes "pool_inv p" "pool_inv q" "ipLength p = IPv4len" "ipLength q = IPv6len"
  shows "\<exists>p' q'. excludeLoop as p q = Some (p', q') \<and> pool_inv p' \<and> pool_inv q' \<and>
    pool_set p' \<union> pool_set q' = pool_set p \<union> pool_set q \<union> (\<Union>a\<in>set as. cidr_set a)"
  using assms
proof (induction as arbitrary: p q)
  case (Cons a as)
  obtain p' where p': "AddNetString p a = Some p'" "pool_inv p'" "ipLength p' = ipLength p"
    "pool_set p' = (if cidr_family a = Some (ipLength p) then pool_set p \<union> cidr_set a else pool_set p)"
    using AddNetString_correct [OF Cons.prems(1)] by blast
  obtain q' where q': "AddNetString q a = Some q'" "pool_inv q'" "ipLength q' = ipLength q"
    "pool_set q' = (if cidr_family a = Some (ipLength q) then pool_set q \<union> cidr_set a else pool_set q)"
    using AddNetString_correct [OF Cons.prems(2)] by blast
  have "cidr_set a = {} \<or> cidr_family a = Some IPv4len \<or> cidr_family a = Some IPv6len"
    using ParseCIDR_shape(3) by (auto simp: cidr_set_def cidr_family_def split: option.splits)
  then have "pool_set p' \<union> pool_set q' = pool_set p \<union> pool_set q \<union> cidr_set a"
    using p'(4) q'(4) Cons.prems(3,4) by auto
  moreover have "ipLength p' = IPv4len" "ipLength q' = IPv6len" using p'(3) q'(3) Cons.prems(3,4) by simp_all
  ultimately show ?case using p'(1,2) q'(1,2) Cons.IH [of p' q'] by auto
qed simp

lemma p2p_exclude_spec:
  obtains ex4 ex6 where "p2p_exclude as = Some (ex4, ex6)" "pools_inv [Some ex4, Some ex6]"
    "excluded [Some ex4, Some ex6] = (\<Union>a\<in>set as. cidr_set a)"
proof -
  have "pool_inv (New n) \<and> pool_set (New n) = {} \<and> ipLength (New n) = n" for n
    using pool_inv_New by (simp add: New_def)
  then show ?thesis using excludeLoop_spec [of "New IPv4len" "New IPv6len" as] that
    by (auto simp: p2p_exclude_def pools_inv_def excluded_def)
qed

lemma addrExcluded_spec:
  assumes "pool_inv ex" "host_name L a x"
  shows "addrExcluded ex a = Some (x \<in> pool_set ex)"
proof -
  obtain ip n where ip: "ParseCIDR a = Some (ip, n)" "ip_val ip = x" using assms(2) unfolding host_name_def by metis
  have l: "length ip = IPv6len" using ParseCIDR_shape(1) [OF ip(1)] .
  then have "ParseIP_nil (IP_String ip) = ip" using ParseIP_IP_String [of ip] by (simp add: ParseIP_nil_def)
  moreover have "valid_IP ip" using l by (simp add: valid_IP_def)
  ultimately show ?thesis using Contains_correct [OF assms(1)] ip by (simp add: addrExcluded_def ContainsString_def)
qed

lemma shouldUpdate_spec:
  assumes "pool_inv ex" "info_ok L info"
  shows "shouldUpdate info ex = Some (addrs info \<inter> pool_set ex \<noteq> {})"
proof -
  obtain x y where "host_name L (srcAddr info) x" "host_name L (dstAddr info) y" using assms(2) unfolding info_ok_def by metis
  then show ?thesis using addrExcluded_spec [OF assms(1)] by (auto simp: shouldUpdate_def addrs_def host_name_cidr)
qed

section \<open>Giving back\<close>

lemma p2p_free_spec:
  assumes "k < length ps" "ci_ipPool info = k" "pool_ok (ps ! k)" "info_ok (ipLength (ps ! k)) info"
  obtains p where "p2p_free info ps = Some (ps[k := p])" "pool_ok p" "ipLength p = ipLength (ps ! k)"
    "pool_set p = pool_set (ps ! k) \<union> addrs info"
proof -
  obtain x y where h: "host_name (ipLength (ps ! k)) (srcAddr info) x" "host_name (ipLength (ps ! k)) (dstAddr info) y"
    using assms(4) unfolding info_ok_def by metis
  have inv: "pool_inv (ps ! k)" using assms(3) by (simp add: pool_ok_def)
  obtain p where p: "AddNetString (ps ! k) (srcAddr info) = Some p" "pool_inv p" "ipLength p = ipLength (ps ! k)"
    "pool_set p = pool_set (ps ! k) \<union> {x}" using AddNetString_correct [OF inv] host_name_cidr [OF h(1)] by metis
  obtain q where q: "AddNetString p (dstAddr info) = Some q" "pool_inv q" "ipLength q = ipLength (ps ! k)"
    "pool_set q = pool_set p \<union> {y}" using AddNetString_correct [OF p(2)] host_name_cidr [OF h(2)] p(3) by metis
  have a: "addrs info = {x, y}" using h by (simp add: addrs_def host_name_cidr insert_commute)
  have "of_family (ipLength (ps ! k)) x" "of_family (ipLength (ps ! k)) y" using h by (simp_all add: host_name_def)
  then have "pool_ok q" using assms(3) p(4) q by (auto simp: pool_ok_def)
  then show ?thesis using that [of q] p q a assms(2) by (auto simp: p2p_free_def)
qed

section \<open>The invariant and the ledger\<close>

definition p2p_inv :: "ipamServer \<Rightarrow> bool" where
  "p2p_inv s \<longleftrightarrow> once s \<and> \<not> initErr s \<and> ipPools s \<noteq> [] \<and> (\<forall>p\<in>set (ipPools s). pool_ok p) \<and>
     (\<forall>c info. connInfos s c = Some info \<longrightarrow>
       ci_ipPool info < length (ipPools s) \<and> info_ok (ipLength (ipPools s ! ci_ipPool info)) info)"

definition pool_spare :: "IPPool list \<Rightarrow> nat \<Rightarrow> nat set" where
  "pool_spare ps k = (if k < length ps then pool_set (ps ! k) else {})"

definition info_held :: "(string \<rightharpoonup> connectionInfo) \<Rightarrow> string \<rightharpoonup> nat \<times> nat set" where
  "info_held m c = map_option (\<lambda>info. (ci_ipPool info, addrs info)) (m c)"

definition p2p_ledger :: "ipamServer \<Rightarrow> (nat, nat) ledger" where
  "p2p_ledger s = \<lparr>spare = pool_spare (ipPools s), held = info_held (connInfos s)\<rparr>"

lemma pool_spare_update: "k < length ps \<Longrightarrow> pool_spare (ps[k := p]) = (pool_spare ps)(k := pool_set p)"
  by (rule ext) (simp add: pool_spare_def)

lemma info_held_update: "info_held (m(c := v)) = (info_held m)(c := map_option (\<lambda>info. (ci_ipPool info, addrs info)) v)"
  by (auto simp: info_held_def)

lemma pool_spare_shrunk: "shrunk ps ps' \<Longrightarrow> pool_spare ps' k \<subseteq> pool_spare ps k"
  using shrunk_nth [of ps ps' k] shrunk_length [of ps ps'] by (auto simp: pool_spare_def)

lemma shrunk_keeps_infos:
  assumes "shrunk ps ps'" "k < length ps" "info_ok (ipLength (ps ! k)) info"
  shows "k < length ps' \<and> info_ok (ipLength (ps' ! k)) info"
  using assms shrunk_nth [OF assms(1,2)] shrunk_length [OF assms(1)] by simp

text \<open>Taking addresses from shrinking pools is a loss of some addresses and a grant of others.\<close>

lemma granted_ledger:
  assumes "shrunk ps ps'" "granted 0 exs ps ps' info" "m c = None"
  shows "ledger_step\<^sup>*\<^sup>* \<lparr>spare = pool_spare ps, held = info_held m\<rparr>
    \<lparr>spare = pool_spare ps', held = info_held (m(c \<mapsto> info))\<rparr>"
proof -
  obtain k where k: "k < length ps" "ci_ipPool info = k" "addrs info \<subseteq> pool_set (ps ! k)" "addrs info \<inter> pool_set (ps' ! k) = {}"
    using assms(2) by (auto simp: granted_def)
  let ?S = "(pool_spare ps')(k := pool_spare ps' k \<union> addrs info)"
  let ?L = "\<lparr>spare = ?S, held = info_held m\<rparr>"
  have "?S j \<subseteq> pool_spare ps j" for j using pool_spare_shrunk [OF assms(1), of j] k(1,3) by (auto simp: pool_spare_def)
  then have 1: "ledger_step \<lparr>spare = pool_spare ps, held = info_held m\<rparr> ?L"
    using lose [of ?S "\<lparr>spare = pool_spare ps, held = info_held m\<rparr>"] by simp
  have "held ?L c = None" using assms(3) by (simp add: info_held_def)
  moreover have "addrs info \<subseteq> spare ?L k" by simp
  ultimately have "ledger_step ?L \<lparr>spare = (spare ?L)(k := spare ?L k - addrs info), held = (held ?L)(c \<mapsto> (k, addrs info))\<rparr>"
    by (rule grant)
  moreover have "pool_spare ps' k - addrs info = pool_spare ps' k" using k(4) by (auto simp: pool_spare_def)
  then have "(spare ?L)(k := spare ?L k - addrs info) = pool_spare ps'" by (simp add: Un_Diff fun_upd_idem)
  moreover have "(held ?L)(c \<mapsto> (k, addrs info)) = info_held (m(c \<mapsto> info))" using k(2) by (simp add: info_held_update)
  ultimately have "ledger_step ?L \<lparr>spare = pool_spare ps', held = info_held (m(c \<mapsto> info))\<rparr>" by simp
  with 1 show ?thesis by (meson converse_rtranclp_into_rtranclp r_into_rtranclp)
qed

lemma free_ledger:
  assumes "m c = Some info" "ci_ipPool info = k" "k < length ps" "pool_set p = pool_set (ps ! k) \<union> addrs info"
  shows "ledger_step \<lparr>spare = pool_spare ps, held = info_held m\<rparr>
    \<lparr>spare = pool_spare (ps[k := p]), held = info_held (m(c := None))\<rparr>"
proof -
  let ?L = "\<lparr>spare = pool_spare ps, held = info_held m\<rparr>"
  have "held ?L c = Some (k, addrs info)" using assms(1,2) by (simp add: info_held_def)
  from give_back [OF this] show ?thesis
    using assms(3,4) by (simp add: pool_spare_update info_held_update) (simp add: pool_spare_def)
qed

lemma shrunk_ledger: "shrunk ps ps' \<Longrightarrow> ledger_step \<lparr>spare = pool_spare ps, held = h\<rparr> \<lparr>spare = pool_spare ps', held = h\<rparr>"
  using lose [of "pool_spare ps'" "\<lparr>spare = pool_spare ps, held = h\<rparr>"] pool_spare_shrunk by simp

section \<open>The parts of a request\<close>

text \<open>
  Pools of the same families as before, in good order; \<open>connInfos\<close> is untouched while a request loads and
  frees, so the infos of the map stay well-formed.
\<close>

definition same_pools :: "IPPool list \<Rightarrow> IPPool list \<Rightarrow> bool" where
  "same_pools ps ps' \<longleftrightarrow> list_all2 (\<lambda>p p'. pool_ok p' \<and> ipLength p' = ipLength p) ps ps'"

lemma same_pools_nth: "same_pools ps ps' \<Longrightarrow> k < length ps \<Longrightarrow> k < length ps' \<and> pool_ok (ps' ! k) \<and> ipLength (ps' ! k) = ipLength (ps ! k)"
  by (simp add: same_pools_def list_all2_conv_all_nth)

lemma shrunk_same: "shrunk ps ps' \<Longrightarrow> same_pools ps ps'"
  by (auto simp: shrunk_def same_pools_def elim: list_all2_mono)

lemma same_pools_trans: "same_pools ps qs \<Longrightarrow> same_pools qs rs \<Longrightarrow> same_pools ps rs"
  unfolding same_pools_def by (rule list_all2_trans) auto

lemma same_pools_update:
  "\<forall>p\<in>set ps. pool_ok p \<Longrightarrow> pool_ok p \<Longrightarrow> ipLength p = ipLength (ps ! k) \<Longrightarrow> k < length ps \<Longrightarrow> same_pools ps (ps[k := p])"
  by (simp add: same_pools_def list_all2_conv_all_nth nth_list_update)

lemma same_pools_ok: "same_pools ps ps' \<Longrightarrow> \<forall>p\<in>set ps'. pool_ok p"
  by (auto simp: same_pools_def list_all2_conv_all_nth in_set_conv_nth)

lemma p2p_inv_pools:
  assumes "p2p_inv s" "same_pools (ipPools s) ps"
    and "\<And>c info. m c = Some info \<Longrightarrow> connInfos s c = Some info \<or> ci_ipPool info < length ps \<and> info_ok (ipLength (ps ! ci_ipPool info)) info"
  shows "p2p_inv (s\<lparr>ipPools := ps, connInfos := m\<rparr>)"
proof -
  have "ci_ipPool info < length ps \<and> info_ok (ipLength (ps ! ci_ipPool info)) info" if c: "m c = Some info" for c info
    using assms(3) [OF c] assms(1) same_pools_nth [OF assms(2), of "ci_ipPool info"] by (auto simp: p2p_inv_def)
  moreover have "ps \<noteq> []" using assms(1,2) by (auto simp: p2p_inv_def same_pools_def)
  ultimately show ?thesis using assms(1) same_pools_ok [OF assms(2)] by (simp add: p2p_inv_def)
qed

lemma p2p_load_spec:
  assumes "p2p_inv s" "pools_inv [Some ex4, Some ex6]"
  shows "\<exists>keep ipc' ps. p2p_load i ex4 ex6 ipc s = Some (keep, ipc', s\<lparr>ipPools := ps\<rparr>) \<and> same_pools (ipPools s) ps \<and>
    (\<forall>info. keep = Some info \<longrightarrow> connInfos s i = Some info \<and> ps = ipPools s \<and> addrs info \<inter> excluded [Some ex4, Some ex6] = {}) \<and>
    (keep = None \<longrightarrow> ledger_step\<^sup>*\<^sup>* (p2p_ledger s) \<lparr>spare = pool_spare ps, held = info_held ((connInfos s)(i := None))\<rparr>)"
proof -
  have ok: "\<forall>p\<in>set (ipPools s). pool_ok p" using assms(1) by (simp add: p2p_inv_def)
  have same: "same_pools (ipPools s) (ipPools s)" using shrunk_same [OF shrunk_refl [OF ok]] .
  show ?thesis
  proof (cases "connInfos s i")
    case None
    then have "(connInfos s)(i := None) = connInfos s" by auto
    then show ?thesis using None same by (intro exI [of _ None] exI [of _ ipc] exI [of _ "ipPools s"]) (simp add: p2p_load_def p2p_ledger_def)
  next
    case (Some info)
    let ?k = "ci_ipPool info"
    have k: "?k < length (ipPools s)" "info_ok (ipLength (ipPools s ! ?k)) info" using assms(1) Some by (auto simp: p2p_inv_def)
    have ex: "pool_inv ex4" "pool_inv ex6" using assms(2) by (simp_all add: pools_inv_def)
    note u = shouldUpdate_spec [OF ex(1) k(2)] shouldUpdate_spec [OF ex(2) k(2)]
    show ?thesis
    proof (cases "addrs info \<inter> excluded [Some ex4, Some ex6] = {}")
      case True
      then show ?thesis using Some u same by (intro exI [of _ "Some info"] exI [of _ ipc] exI [of _ "ipPools s"]) (auto simp: p2p_load_def excluded_def)
    next
      case False
      obtain p where p: "p2p_free info (ipPools s) = Some ((ipPools s)[?k := p])" "pool_ok p"
        "ipLength p = ipLength (ipPools s ! ?k)" "pool_set p = pool_set (ipPools s ! ?k) \<union> addrs info"
        using p2p_free_spec [OF k(1) refl _ k(2)] ok k(1) by (metis nth_mem)
      have l: "ledger_step (p2p_ledger s) \<lparr>spare = pool_spare ((ipPools s)[?k := p]), held = info_held ((connInfos s)(i := None))\<rparr>"
        unfolding p2p_ledger_def by (rule free_ledger [of "connInfos s", OF Some refl k(1) p(4)])
      have "addrs info \<inter> pool_set ex4 \<noteq> {} \<or> addrs info \<inter> pool_set ex6 \<noteq> {}" using False by (auto simp: excluded_def)
      then show ?thesis using Some u p l same_pools_update [OF ok p(2,3) k(1)]
        by (auto simp: p2p_load_def intro!: exI [of _ "(ipPools s)[?k := p]"])
    qed
  qed
qed

lemma p2p_allocate_spec:
  assumes "\<forall>p\<in>set (ipPools s). pool_ok p" "pools_inv exs" "exs = [Some ex4, Some ex6]"
  shows "\<exists>r ps. p2p_allocate i ex4 ex6 ipc s = Some (r, s\<lparr>ipPools := ps, connInfos := (case r of None \<Rightarrow> connInfos s | Some info \<Rightarrow> (connInfos s)(i \<mapsto> info))\<rparr>) \<and>
    same_pools (ipPools s) ps \<and>
    (r = None \<longrightarrow> (\<forall>p\<in>set ps. \<exists>n. pool_set p - excluded exs \<subseteq> {n})) \<and>
    (\<forall>info. r = Some info \<longrightarrow> ci_ipPool info < length ps \<and> info_ok (ipLength (ps ! ci_ipPool info)) info \<and> addrs info \<inter> excluded exs = {} \<and>
      ledger_step\<^sup>*\<^sup>* \<lparr>spare = pool_spare (ipPools s), held = info_held ((connInfos s)(i := None))\<rparr>
        \<lparr>spare = pool_spare ps, held = info_held ((connInfos s)(i \<mapsto> info))\<rparr>)"
proof -
  have g: "ci_ipPool info < length ps' \<and> info_ok (ipLength (ps' ! ci_ipPool info)) info \<and> addrs info \<inter> excluded exs = {} \<and>
      ledger_step\<^sup>*\<^sup>* \<lparr>spare = pool_spare ps, held = info_held ((connInfos s)(i := None))\<rparr>
        \<lparr>spare = pool_spare ps', held = info_held ((connInfos s)(i \<mapsto> info))\<rparr>"
    if "shrunk ps ps'" "granted 0 exs ps ps' info" for ps ps' info
    using granted_ledger [OF that, of "(connInfos s)(i := None)" i] that shrunk_keeps_infos [OF that(1)]
    by (auto simp: granted_def)
  obtain r ps1 where 1: "recoverAddrs (SrcIpAddrs ipc) (DstIpAddrs ipc) exs (ipPools s) = Some (r, ps1)" "shrunk (ipPools s) ps1"
    "\<forall>info. r = Some info \<longrightarrow> granted 0 exs (ipPools s) ps1 info"
    using recoverAddrs_spec [OF assms(1,2)] by metis
  show ?thesis
  proof (cases r)
    case (Some info)
    then show ?thesis using 1 g [OF 1(2), of info] shrunk_same [OF 1(2)] assms(3)
      by (intro exI [of _ r] exI [of _ ps1]) (simp add: p2p_allocate_def)
  next
    case None
    have ok1: "\<forall>p\<in>set ps1. pool_ok p" by (rule same_pools_ok [OF shrunk_same [OF 1(2)]])
    obtain r2 ps2 where 2: "getP2PAddrs 0 exs ps1 = Some (r2, ps2)" "shrunk ps1 ps2"
      "\<forall>info. r2 = Some info \<longrightarrow> granted 0 exs ps1 ps2 info"
      "r2 = None \<longrightarrow> ps2 = ps1 \<and> (\<forall>p\<in>set ps1. \<exists>n. pool_set p - excluded exs \<subseteq> {n})"
      using getP2PAddrs_spec [OF ok1 assms(2)] by metis
    have s2: "same_pools (ipPools s) ps2" by (rule same_pools_trans [OF shrunk_same [OF 1(2)] shrunk_same [OF 2(2)]])
    have l: "ledger_step\<^sup>*\<^sup>* \<lparr>spare = pool_spare ps1, held = h\<rparr> L \<Longrightarrow> ledger_step\<^sup>*\<^sup>* \<lparr>spare = pool_spare (ipPools s), held = h\<rparr> L" for h L
      by (rule converse_rtranclp_into_rtranclp [of ledger_step, OF shrunk_ledger [OF 1(2)]])
    show ?thesis
    proof (cases r2)
      case r2: None
      then show ?thesis using None 1(1) 2 s2 assms(3) by (intro exI [of _ None] exI [of _ ps2]) (simp add: p2p_allocate_def)
    next
      case (Some info)
      then show ?thesis using None 1(1) 2 s2 assms(3) g [OF 2(2), of info] l
        by (intro exI [of _ r2] exI [of _ ps2]) (simp add: p2p_allocate_def)
    qed
  qed
qed

section \<open>The handlers\<close>

text \<open>
  What a request does to a manager in good order: it never panics; when the rest of the chain accepts, the
  connection holds two addresses outside its excluded prefixes and the ledger has moved; when no pool has
  two addresses left it fails.
\<close>

definition excluded_of :: "Connection \<Rightarrow> nat set" where
  "excluded_of conn = (case Context conn of None \<Rightarrow> {} | Some ctx \<Rightarrow>
     (case IpContext ctx of None \<Rightarrow> {} | Some ipc \<Rightarrow> (\<Union>a\<in>set (ExcludedPrefixes ipc). cidr_set a)))"

lemma p2p_Request_spec:
  assumes "p2p_inv s" "req_connection request = Some conn"
  shows "\<exists>res s' w'. p2p_Request nxt request s w = Some (res, s', w') \<and>
    (\<forall>c. res = Inr c \<longrightarrow> p2p_inv s' \<and> ledger_step\<^sup>*\<^sup>* (p2p_ledger s) (p2p_ledger s') \<and>
      (\<exists>info. connInfos s' (Id conn) = Some info \<and> addrs info \<inter> excluded_of conn = {}))"
proof -
  let ?ctx = "case Context conn of None \<Rightarrow> empty_context | Some c \<Rightarrow> c"
  let ?ipc = "case IpContext ?ctx of None \<Rightarrow> empty_ip_context | Some c \<Rightarrow> c"
  have once: "p2p_once s = Some s" "\<not> initErr s" using assms(1) by (simp_all add: p2p_inv_def p2p_once_def)
  obtain ex4 ex6 where ex: "p2p_exclude (ExcludedPrefixes ?ipc) = Some (ex4, ex6)" "pools_inv [Some ex4, Some ex6]"
    "excluded [Some ex4, Some ex6] = (\<Union>a\<in>set (ExcludedPrefixes ?ipc). cidr_set a)"
    by (rule p2p_exclude_spec)
  have eo: "excluded_of conn = excluded [Some ex4, Some ex6]"
    using ex(3) by (auto simp: excluded_of_def empty_context_def empty_ip_context_def split: option.splits)
  obtain keep ipc ps where load: "p2p_load (Id conn) ex4 ex6 ?ipc s = Some (keep, ipc, s\<lparr>ipPools := ps\<rparr>)" "same_pools (ipPools s) ps"
    "\<forall>info. keep = Some info \<longrightarrow> connInfos s (Id conn) = Some info \<and> ps = ipPools s \<and> addrs info \<inter> excluded [Some ex4, Some ex6] = {}"
    "keep = None \<longrightarrow> ledger_step\<^sup>*\<^sup>* (p2p_ledger s) \<lparr>spare = pool_spare ps, held = info_held ((connInfos s)(Id conn := None))\<rparr>"
    using p2p_load_spec [OF assms(1) ex(2), of "Id conn" ?ipc] by (elim exE conjE) (rule that)
  note start = p2p_Request_def once assms(2) ex(1) load(1) Let_def
  show ?thesis
  proof (cases keep)
    case (Some info)
    obtain res w' where n: "nxt (request\<lparr>req_connection := Some (conn\<lparr>Context := Some (?ctx\<lparr>IpContext := Some (p2p_answer info ipc)\<rparr>)\<rparr>)\<rparr>) w = (res, w')"
      by fastforce
    have "p2p_Request nxt request s w = Some (res, s, w')"
      using Some n load(3) by (cases res) (simp_all add: start)
    then show ?thesis using assms(1) load(3) Some eo by simp
  next
    case None
    let ?s = "s\<lparr>ipPools := ps\<rparr>"
    have "\<forall>p\<in>set (ipPools ?s). pool_ok p" using same_pools_ok [OF load(2)] by simp
    from p2p_allocate_spec [OF this ex(2) HOL.refl, of "Id conn" ipc]
    obtain r ps2 where al: "p2p_allocate (Id conn) ex4 ex6 ipc ?s = Some (r, ?s\<lparr>ipPools := ps2,
        connInfos := (case r of None \<Rightarrow> connInfos ?s | Some info \<Rightarrow> (connInfos ?s)(Id conn \<mapsto> info))\<rparr>)" "same_pools (ipPools ?s) ps2"
      and g': "\<forall>info. r = Some info \<longrightarrow> ci_ipPool info < length ps2 \<and> info_ok (ipLength (ps2 ! ci_ipPool info)) info \<and>
        addrs info \<inter> excluded [Some ex4, Some ex6] = {} \<and>
        ledger_step\<^sup>*\<^sup>* \<lparr>spare = pool_spare (ipPools ?s), held = info_held ((connInfos ?s)(Id conn := None))\<rparr>
          \<lparr>spare = pool_spare ps2, held = info_held ((connInfos ?s)(Id conn \<mapsto> info))\<rparr>"
      by (elim exE conjE) (rule that)
    have g: "ci_ipPool info < length ps2 \<and> info_ok (ipLength (ps2 ! ci_ipPool info)) info \<and>
        addrs info \<inter> excluded [Some ex4, Some ex6] = {} \<and>
        ledger_step\<^sup>*\<^sup>* \<lparr>spare = pool_spare ps, held = info_held ((connInfos s)(Id conn := None))\<rparr>
          \<lparr>spare = pool_spare ps2, held = info_held ((connInfos s)(Id conn \<mapsto> info))\<rparr>" if "r = Some info" for info
      using g' that by simp
    have same: "same_pools (ipPools s) ps2" using same_pools_trans [OF load(2)] al(2) by simp
    have ne: "ps2 \<noteq> []" using same assms(1) by (auto simp: same_pools_def p2p_inv_def)
    show ?thesis
    proof (cases r)
      case r: None
      then show ?thesis using None al(1) ne by (simp add: start)
    next
      case (Some info)
      let ?s' = "s\<lparr>ipPools := ps2, connInfos := (connInfos s)(Id conn \<mapsto> info)\<rparr>"
      obtain res w' where n: "nxt (request\<lparr>req_connection := Some (conn\<lparr>Context := Some (?ctx\<lparr>IpContext := Some (p2p_answer info ipc)\<rparr>)\<rparr>)\<rparr>) w = (res, w')"
        by fastforce
      have inv: "p2p_inv ?s'" using g [OF Some] by (intro p2p_inv_pools [OF assms(1) same]) (auto split: if_splits)
      have led: "ledger_step\<^sup>*\<^sup>* (p2p_ledger s) (p2p_ledger ?s')"
        using load(4) None g [OF Some] by (auto simp: p2p_ledger_def intro: rtranclp_trans)
      have "\<exists>pools. p2p_free info ps2 = Some pools"
        using p2p_free_spec [of "ci_ipPool info" ps2 info] g [OF Some] same_pools_ok [OF same] by (metis nth_mem)
      then obtain pools where f: "p2p_free info ps2 = Some pools" ..
      show ?thesis
      proof (cases res)
        case (Inl e)
        then show ?thesis using None Some al(1) n f by (simp add: start)
      next
        case (Inr c)
        then have "p2p_Request nxt request s w = Some (Inr c, ?s', w')" using None Some al(1) n by (simp add: start)
        then show ?thesis using inv led g [OF Some] eo by simp
      qed
    qed
  qed
qed

text \<open>
  A connection without a context that is new to the manager: it is granted two addresses if a pool has
  two. If the chain rejects it, the addresses go back, but the entry of the map stays and names them.
\<close>

lemma p2p_Request_new:
  assumes "p2p_inv s" "req_connection request = Some conn" "Context conn = None" "connInfos s (Id conn) = None"
    and "p \<in> set (ipPools s)" "x \<in> pool_set p" "y \<in> pool_set p" "x \<noteq> y"
  obtains info ps r exs where "shrunk (ipPools s) ps" "granted 0 exs (ipPools s) ps info"
    "p2p_Request nxt request s w =
      (case nxt r w of
         (Inr c, w) \<Rightarrow> Some (Inr c, s\<lparr>ipPools := ps, connInfos := (connInfos s)(Id conn \<mapsto> info)\<rparr>, w)
       | (Inl e, w) \<Rightarrow> map_option (\<lambda>pools. (Inl e, s\<lparr>ipPools := pools, connInfos := (connInfos s)(Id conn \<mapsto> info)\<rparr>, w)) (p2p_free info ps))"
proof -
  have once: "p2p_once s = Some s" "\<not> initErr s" using assms(1) by (simp_all add: p2p_inv_def p2p_once_def)
  obtain ex4 ex6 where ex: "p2p_exclude [] = Some (ex4, ex6)" "pools_inv [Some ex4, Some ex6]" "excluded [Some ex4, Some ex6] = {}"
    by (rule p2p_exclude_spec [of "[]"]) (rule that; simp)
  let ?exs = "[Some ex4, Some ex6]"
  have ok: "\<forall>p\<in>set (ipPools s). pool_ok p" using assms(1) by (simp add: p2p_inv_def)
  obtain r ps where g: "getP2PAddrs 0 ?exs (ipPools s) = Some (r, ps)" "shrunk (ipPools s) ps"
    "\<forall>info. r = Some info \<longrightarrow> granted 0 ?exs (ipPools s) ps info"
    "r = None \<longrightarrow> ps = ipPools s \<and> (\<forall>p\<in>set (ipPools s). \<exists>n. pool_set p - excluded ?exs \<subseteq> {n})"
    using getP2PAddrs_spec [OF ok ex(2), of 0] by (elim exE conjE) (rule that)
  have "\<not> pool_set p - {} \<subseteq> {n}" for n using assms(6-8) by auto
  then have "r \<noteq> None" using g(4) ex(3) assms(5) by metis
  then obtain info where r: "r = Some info" by blast
  have "granted 0 ?exs (ipPools s) ps info" using g(3) r by simp
  then show ?thesis
  proof (rule that [OF g(2), of ?exs _ "request\<lparr>req_connection := Some (conn\<lparr>Context := Some (empty_context\<lparr>IpContext := Some (p2p_answer info empty_ip_context)\<rparr>)\<rparr>)\<rparr>"])
    show "p2p_Request nxt request s w =
      (case nxt (request\<lparr>req_connection := Some (conn\<lparr>Context := Some (empty_context\<lparr>IpContext := Some (p2p_answer info empty_ip_context)\<rparr>)\<rparr>)\<rparr>) w of
         (Inr c, w) \<Rightarrow> Some (Inr c, s\<lparr>ipPools := ps, connInfos := (connInfos s)(Id conn \<mapsto> info)\<rparr>, w)
       | (Inl e, w) \<Rightarrow> map_option (\<lambda>pools. (Inl e, s\<lparr>ipPools := pools, connInfos := (connInfos s)(Id conn \<mapsto> info)\<rparr>, w)) (p2p_free info ps))"
      using once assms(2-4) ex(1) g(1) r
      by (simp add: p2p_Request_def p2p_load_def p2p_allocate_def recoverAddrs_def Let_def empty_context_def empty_ip_context_def
          map_option_case split: prod.splits sum.splits option.splits bind_splits)
  qed
qed

lemma p2p_Close_spec:
  assumes "p2p_inv s"
  shows "\<exists>res s' w'. p2p_Close nxt conn s w = Some (res, s', w') \<and> (res, w') = nxt conn w \<and> p2p_inv s' \<and>
    ledger_step\<^sup>*\<^sup>* (p2p_ledger s) (p2p_ledger s') \<and> connInfos s' (Id conn) = None"
proof -
  have once: "p2p_once s = Some s" "\<not> initErr s" using assms(1) by (simp_all add: p2p_inv_def p2p_once_def)
  obtain res w' where n: "nxt conn w = (res, w')" by fastforce
  show ?thesis
  proof (cases "connInfos s (Id conn)")
    case None
    then show ?thesis using assms once n by (simp add: p2p_Close_def)
  next
    case (Some info)
    let ?k = "ci_ipPool info"
    have k: "?k < length (ipPools s)" "info_ok (ipLength (ipPools s ! ?k)) info" "\<forall>p\<in>set (ipPools s). pool_ok p"
      using assms(1) Some by (auto simp: p2p_inv_def)
    obtain p where p: "p2p_free info (ipPools s) = Some ((ipPools s)[?k := p])" "pool_ok p"
      "ipLength p = ipLength (ipPools s ! ?k)" "pool_set p = pool_set (ipPools s ! ?k) \<union> addrs info"
      using p2p_free_spec [OF k(1) HOL.refl _ k(2)] k(1,3) by (metis nth_mem)
    let ?s' = "s\<lparr>ipPools := (ipPools s)[?k := p], connInfos := (connInfos s)(Id conn := None)\<rparr>"
    have "p2p_inv ?s'" by (rule p2p_inv_pools [OF assms same_pools_update [OF k(3) p(2,3) k(1)]]) (auto split: if_splits)
    moreover have "ledger_step (p2p_ledger s) (p2p_ledger ?s')"
      using free_ledger [of "connInfos s", OF Some HOL.refl k(1) p(4)] by (simp add: p2p_ledger_def)
    moreover have "p2p_Close nxt conn s w = Some (res, ?s', w')" using Some once n p(1) by (simp add: p2p_Close_def)
    ultimately show ?thesis using n by auto
  qed
qed

text \<open>
  The calls that keep to the ledger: requests the rest of the chain accepts, and closes. What else the
  chain changes does not matter here, so its state is trivial.
\<close>

inductive p2p_call :: "ipamServer \<Rightarrow> ipamServer \<Rightarrow> bool" where
  request: "req_connection request \<noteq> None \<Longrightarrow> p2p_Request nxt request s () = Some (Inr c, s', ()) \<Longrightarrow> p2p_call s s'"
| close: "p2p_Close nxt conn s () = Some (res, s', ()) \<Longrightarrow> p2p_call s s'"

interpretation p2p: ledger_client p2p_inv p2p_ledger p2p_call
proof
  fix s s'
  assume inv: "p2p_inv s" and "p2p_call s s'"
  from this(2) have "p2p_inv s' \<and> ledger_step\<^sup>*\<^sup>* (p2p_ledger s) (p2p_ledger s')"
  proof cases
    case (request request nxt c)
    then show ?thesis using p2p_Request_spec [OF inv, of request _ nxt "()"] by auto
  next
    case (close nxt conn res)
    then show ?thesis using p2p_Close_spec [OF inv, of nxt conn "()"] by auto
  qed
  then show "p2p_inv s'" "ledger_step\<^sup>*\<^sup>* (p2p_ledger s) (p2p_ledger s')" by blast+
qed

end
