(* ===== verification/Ipam_Theorems.thy ===== *)
theory Ipam_Theorems
  imports P2P_Refine
begin

text \<open>
  What the address managers promise: every connection gets its own addresses, outside the prefixes it
  excludes, and gives them back. A request that fails further down the chain breaks the promise.
\<close>

section \<open>A concrete manager\<close>

lemma net_set_v4:
  assumes "valid_IPNet n" "length (IP n) = IPv4len"
  shows "net_set n \<subseteq> v4_block"
proof -
  obtain r where r: "ipRangeFromIPNet n = Some r" "ipAddressFromIP (map2 (AND) (IP n) (Mask n)) = Some (start r)"
    "ipAddressFromIP (map2 (\<lambda>b m. b OR NOT m) (IP n) (Mask n)) = Some (finish r)"
    using ipRangeFromIPNet_Some [OF assms(1)] by metis
  have l: "length (Mask n) = IPv4len" using assms by (simp add: valid_IPNet_def)
  have "is_v4 (start r)" "is_v4 (finish r)"
    by (rule is_v4_ipAddressFromIP [OF _ r(2)], use assms(2) l in simp) (rule is_v4_ipAddressFromIP [OF _ r(3)], use assms(2) l in simp)
  then show ?thesis using r(1) by (auto simp: net_set_def range_set_def is_v4_def v4_block_def)
qed

lemma initLoop_spec:
  assumes "\<forall>n\<in>set ns. valid_IPNet n \<and> (\<forall>x\<in>net_set n. of_family (length (IP n)) x)" "\<forall>p\<in>set ps. pool_ok p"
  shows "\<exists>qs. initLoop (map Some ns) ps = Some (ps @ qs, False) \<and> (\<forall>p\<in>set qs. pool_ok p) \<and> map pool_set qs = map net_set ns"
  using assms
proof (induction ns arbitrary: ps)
  case (Cons n ns)
  obtain p where p: "NewWithNet n = Some p" "pool_inv p" "pool_set p = net_set n" "ipLength p = length (IP n)"
    using NewWithNet_correct [of n] Cons.prems(1) by auto
  then have ok: "pool_ok p" using Cons.prems(1) by (simp add: pool_ok_def)
  then obtain qs where "initLoop (map Some ns) (ps @ [p]) = Some ((ps @ [p]) @ qs, False)" "\<forall>p\<in>set qs. pool_ok p" "map pool_set qs = map net_set ns"
    using Cons.IH [of "ps @ [p]"] Cons.prems by auto
  then show ?case using p ok by (intro exI [of _ "p # qs"]) simp
qed simp

lemma p2p_init_inv:
  assumes "ns \<noteq> []" "\<forall>n\<in>set ns. valid_IPNet n \<and> (\<forall>x\<in>net_set n. of_family (length (IP n)) x)"
  obtains s where "p2p_once (p2p_NewServer (map Some ns)) = Some s" "p2p_inv s" "connInfos s = Map.empty"
    "map pool_set (ipPools s) = map net_set ns"
proof -
  obtain qs where qs: "initLoop (map Some ns) [] = Some (qs, False)" "\<forall>p\<in>set qs. pool_ok p" "map pool_set qs = map net_set ns"
    using initLoop_spec [OF assms(2), of "[]"] by auto
  moreover have "qs \<noteq> []" using qs(3) assms(1) by auto
  ultimately show ?thesis using that [of "\<lparr>connInfos = Map.empty, ipPools = qs, prefixes = map Some ns, once = True, initErr = False\<rparr>"] assms(1)
    by (simp add: p2p_once_def p2p_init_def p2p_NewServer_def p2p_inv_def)
qed

text \<open>The manager of \<^verbatim>\<open>10.0.0.0/30\<close>.\<close>

definition net30 :: IPNet where
  "net30 = \<lparr>IP = [10, 0, 0, 0], Mask = cidr_bytes 30 4\<rparr>"

lemma net30_set: "net_set net30 = {281470849515520..<281470849515524}"
proof -
  have "CIDRMask 30 32 = cidr_bytes 30 4" by (simp add: CIDRMask_cidr_bytes)
  then show ?thesis using net_set_aligned [of "[10, 0, 0, 0]" IPv4len 2]
    by (simp add: net30_def ip_val_def To16_def v4InV6Prefix_def)
qed

lemma net30_ok: "valid_IPNet net30" "x \<in> net_set net30 \<Longrightarrow> of_family (length (IP net30)) x"
  using net_set_v4 [of net30] by (auto simp: valid_IPNet_def of_family_def net30_def cidr_bytes_def)

definition plain_request :: "string \<Rightarrow> NetworkServiceRequest" where
  "plain_request i = \<lparr>req_connection = Some (empty_connection\<lparr>Id := i\<rparr>), MechanismPreferences = []\<rparr>"

lemma fresh_manager:
  obtains s where "p2p_once (p2p_NewServer [Some net30]) = Some s" "p2p_inv s" "connInfos s = Map.empty"
    "map pool_set (ipPools s) = [net_set net30]" "exclusive (p2p_ledger s)"
proof -
  obtain s where "p2p_once (p2p_NewServer (map Some [net30])) = Some s" "p2p_inv s" "connInfos s = Map.empty"
    "map pool_set (ipPools s) = map net_set [net30]"
    using p2p_init_inv [of "[net30]"] net30_ok by auto
  moreover from this have "exclusive (p2p_ledger s)" by (simp add: exclusive_def p2p_ledger_def info_held_def)
  ultimately show ?thesis using that by simp
qed

lemma two_spare:
  assumes "map pool_set (ipPools s) = [net_set net30]"
  obtains p where "p \<in> set (ipPools s)" "281470849515520 \<in> pool_set p" "281470849515521 \<in> pool_set p"
proof -
  obtain p where "ipPools s = [p]" "pool_set p = net_set net30" using assms by auto
  then show ?thesis using that [of p] net30_set by simp
qed

lemma granted_manager:
  obtains s info where "p2p_inv s" "connInfos s ''a'' = Some info"
proof -
  let ?nxt = "\<lambda>r w. (Inr empty_connection, w)" and ?c = "empty_connection\<lparr>Id := ''a''\<rparr>"
  obtain s where s: "p2p_inv s" "connInfos s = Map.empty" "map pool_set (ipPools s) = [net_set net30]" by (rule fresh_manager)
  obtain p where p: "p \<in> set (ipPools s)" "281470849515520 \<in> pool_set p" "281470849515521 \<in> pool_set p" by (rule two_spare [OF s(3)])
  have c: "req_connection (plain_request ''a'') = Some ?c" "Context ?c = None" "connInfos s (Id ?c) = None"
    using s(2) by (simp_all add: plain_request_def empty_connection_def)
  obtain s' info where "p2p_Request ?nxt (plain_request ''a'') s () = Some (Inr empty_connection, s', ())" "connInfos s' ''a'' = Some info"
    by (rule p2p_Request_new [OF s(1) c p, of ?nxt "()"]) (simp_all add: empty_connection_def)
  then show ?thesis using that p2p_Request_spec [OF s(1) c(1), of ?nxt "()"] by auto
qed

section \<open>Point to point\<close>



text \<open>
  A request to a manager in good order never panics, and when the chain accepts it, the connection holds
  addresses outside the prefixes it excludes: recovered ones, kept ones or new ones.
\<close>

lemma p2p_Request_grants:
  assumes "p2p_inv s" "req_connection request = Some conn"
  shows "\<exists>res s' w'. p2p_Request nxt request s w = Some (res, s', w') \<and>
    (\<forall>c. res = Inr c \<longrightarrow> p2p_inv s' \<and> (\<exists>info. connInfos s' (Id conn) = Some info \<and> addrs info \<inter> excluded_of conn = {}))"
  using p2p_Request_spec [OF assms, of nxt w] by blast

theorem p2p_Request_grants_witness:
  "\<exists>s res s' w'. p2p_once (p2p_NewServer [Some net30]) = Some s \<and>
     p2p_Request (\<lambda>r w. (Inr empty_connection, w)) (plain_request ''a'') s () = Some (res, s', w')"
proof -
  obtain s where s: "p2p_once (p2p_NewServer [Some net30]) = Some s" "p2p_inv s" by (rule fresh_manager)
  with p2p_Request_grants [OF s(2), of "plain_request ''a''"] show ?thesis by (fastforce simp: plain_request_def)
qed

text \<open>
  A close gives the addresses back: afterwards the connection holds nothing, and the addresses it held
  are in their pool.
\<close>

lemma p2p_Close_returns:
  assumes "p2p_inv s" "connInfos s (Id conn) = Some info"
  shows "\<exists>res s' w'. p2p_Close nxt conn s w = Some (res, s', w') \<and> connInfos s' = (connInfos s)(Id conn := None) \<and>
    addrs info \<subseteq> pool_set (ipPools s' ! ci_ipPool info)"
proof -
  have k: "ci_ipPool info < length (ipPools s)" "info_ok (ipLength (ipPools s ! ci_ipPool info)) info" "pool_ok (ipPools s ! ci_ipPool info)"
    using assms by (auto simp: p2p_inv_def)
  obtain p where "p2p_free info (ipPools s) = Some ((ipPools s)[ci_ipPool info := p])" "pool_set p = pool_set (ipPools s ! ci_ipPool info) \<union> addrs info"
    using p2p_free_spec [OF k(1) refl k(3,2)] by metis
  then show ?thesis using assms k(1) by (auto simp: p2p_inv_def p2p_Close_def p2p_once_def split: prod.splits)
qed

theorem p2p_Close_returns_witness:
  "\<exists>s info res s' w'. connInfos s ''a'' = Some info \<and>
     p2p_Close (\<lambda>c w. (Inr (), w)) (empty_connection\<lparr>Id := ''a''\<rparr>) s () = Some (res, s', w') \<and> connInfos s' ''a'' = None"
proof -
  obtain s info where s: "p2p_inv s" "connInfos s ''a'' = Some info" by (rule granted_manager)
  then have i: "connInfos s (Id (empty_connection\<lparr>Id := ''a''\<rparr>)) = Some info" by simp
  from p2p_Close_returns [OF s(1) i, of "\<lambda>c w. (Inr (), w)" "()"] s(2) show ?thesis by fastforce
qed

text \<open>
  A new connection that the rest of the chain rejects leaves the manager in a state in which addresses
  are both held and spare: they went back to the pool, but the connection's entry was not removed. A
  retry of the connection and any other connection may then get the same addresses.
\<close>

lemma p2p_rejected_leaves_entry:
  assumes "p2p_inv s" "req_connection request = Some conn" "Context conn = None" "connInfos s (Id conn) = None"
    and "p \<in> set (ipPools s)" "x \<in> pool_set p" "y \<in> pool_set p" "x \<noteq> y" and "\<And>r. nxt r w = (Inl e, w')"
  shows "\<exists>s' info. p2p_Request nxt request s w = Some (Inl e, s', w') \<and> connInfos s' (Id conn) = Some info \<and>
    addrs info \<subseteq> pool_set (ipPools s' ! ci_ipPool info) \<and> \<not> exclusive (p2p_ledger s')"
proof -
  obtain info ps r exs where g: "shrunk (ipPools s) ps" "granted 0 exs (ipPools s) ps info"
    "p2p_Request nxt request s w =
      map_option (\<lambda>pools. (Inl e, s\<lparr>ipPools := pools, connInfos := (connInfos s)(Id conn \<mapsto> info)\<rparr>, w')) (p2p_free info ps)"
    by (rule p2p_Request_new [OF assms(1-8), of nxt w]) (rule that, auto simp: assms(9))
  let ?k = "ci_ipPool info"
  have k: "?k < length (ipPools s)" "info_ok (ipLength (ipPools s ! ?k)) info" using g(2) by (auto simp: granted_def)
  then have k': "?k < length ps" "info_ok (ipLength (ps ! ?k)) info" "pool_ok (ps ! ?k)"
    using shrunk_keeps_infos [OF g(1) k] shrunk_nth [OF g(1) k(1)] by auto
  obtain q where q: "p2p_free info ps = Some (ps[?k := q])" "pool_set q = pool_set (ps ! ?k) \<union> addrs info"
    using p2p_free_spec [OF k'(1) refl k'(3,2)] by metis
  let ?s' = "s\<lparr>ipPools := ps[?k := q], connInfos := (connInfos s)(Id conn \<mapsto> info)\<rparr>"
  obtain a where a: "a \<in> addrs info" using k(2) host_name_cidr by (fastforce simp: info_ok_def addrs_def)
  have "held (p2p_ledger ?s') (Id conn) = Some (?k, addrs info)" "a \<in> spare (p2p_ledger ?s') ?k"
    using k'(1) q(2) a by (simp_all add: p2p_ledger_def pool_spare_def info_held_def)
  then have "\<not> exclusive (p2p_ledger ?s')" using exclusive_spare [of "p2p_ledger ?s'" "Id conn" ?k "addrs info" a] a by blast
  then show ?thesis using g(3) q k'(1) by (intro exI [of _ ?s'] exI [of _ info]) simp
qed

theorem p2p_rejected_leaves_entry_witness:
  "\<exists>s s'. p2p_once (p2p_NewServer [Some net30]) = Some s \<and> exclusive (p2p_ledger s) \<and>
     p2p_Request (\<lambda>r w. (Inl (Err ''no''), w)) (plain_request ''a'') s () = Some (Inl (Err ''no''), s', ()) \<and> \<not> exclusive (p2p_ledger s')"
proof -
  let ?c = "empty_connection\<lparr>Id := ''a''\<rparr>"
  obtain s where s: "p2p_once (p2p_NewServer [Some net30]) = Some s" "p2p_inv s" "connInfos s = Map.empty"
    "map pool_set (ipPools s) = [net_set net30]" "exclusive (p2p_ledger s)" by (rule fresh_manager)
  obtain p where p: "p \<in> set (ipPools s)" "281470849515520 \<in> pool_set p" "281470849515521 \<in> pool_set p" by (rule two_spare [OF s(4)])
  have c: "req_connection (plain_request ''a'') = Some ?c" "Context ?c = None" "connInfos s (Id ?c) = None"
    using s(3) by (simp_all add: plain_request_def empty_connection_def)
  from p2p_rejected_leaves_entry [OF s(2) c p, of "\<lambda>r w. (Inl (Err ''no''), w)" "()"] s(1,5) show ?thesis by auto
qed

end
