(* ===== verification/Prefix_Pool.thy ===== *)
theory Prefix_Pool
  imports IP_Host NSM_Api "HOL-Library.Monad_Syntax" "HOL-Library.AList"
begin

text \<open>
  The prefix pool (\<^verbatim>\<open>src/pkg/tools/prefixpool/prefixpool.go\<close>): a list of CIDR texts from which prefixes of a
  wanted length are split off, excluded and joined again. \<^verbatim>\<open>math/big\<close> integers are natural numbers. \<open>None\<close>
  is a panic (a network that did not parse is nil); errors are \<open>Inl\<close>. Ranging over a Go map takes its
  entries in an order that is an argument.
\<close>

section \<open>Addresses as numbers\<close>

definition fromIP :: "IP \<Rightarrow> nat \<times> nat" where
  "fromIP ip = (bytes_val ip, if length ip = IPv4len then 32 else 128)"

text \<open>A number with more bytes than the address has is an index out of range.\<close>

definition toIP :: "nat \<Rightarrow> nat \<Rightarrow> IP option" where
  "toIP ipInt bits = (if ipInt < 256 ^ (bits div 8) then Some (be_bytes (bits div 8) ipInt) else None)"

definition setNetIndexInIP :: "IP \<Rightarrow> nat \<Rightarrow> nat \<Rightarrow> IP option" where
  "setNetIndexInIP ip num prefixLen =
     (let (ipInt, totalBits) = fromIP ip in
      if totalBits < prefixLen then None
      else toIP (ipInt OR push_bit (totalBits - prefixLen) num) totalBits)"

text \<open>\<^verbatim>\<open>SetBit\<close> with a negative index panics; a bit above the address is zero already.\<close>

definition clearNetIndexInIP :: "IP \<Rightarrow> int \<Rightarrow> IP option" where
  "clearNetIndexInIP ip prefixLen =
     (let (ipInt, totalBits) = fromIP ip in
      if int totalBits < prefixLen then None
      else toIP (unset_bit (nat (int totalBits - prefixLen)) ipInt) totalBits)"

text \<open>The half of a network with the given index.\<close>

definition subnet :: "IPNet \<Rightarrow> nat \<Rightarrow> (nsm_error + IPNet) option" where
  "subnet ipnet subnetIndex =
     (let (parentLen, addrLen) = Mask_Size (Mask ipnet);
          newPrefixLen = parentLen + 1
      in if newPrefixLen > addrLen then Some (Inl (Err ''insufficient address space''))
         else if subnetIndex > 2 then Some (Inl (Err ''prefix extension''))
         else do {
           ip \<leftarrow> setNetIndexInIP (IP ipnet) subnetIndex newPrefixLen;
           Some (Inr \<lparr>IP = ip, Mask = CIDRMask (int newPrefixLen) (int addrLen)\<rparr>) })"

text \<open>The bytes from the last one on, as long as they wrap.\<close>

fun incRev :: "u8 list \<Rightarrow> u8 list" where
  "incRev [] = []"
| "incRev (b # bs) = (if b + 1 \<noteq> 0 then (b + 1) # bs else (b + 1) # incRev bs)"

definition incrementIP :: "IP \<Rightarrow> IPNet \<Rightarrow> nsm_error + IP" where
  "incrementIP sourceIP ipNet =
     (let ip = rev (incRev (rev sourceIP)) in
      if \<not> IPNet_Contains ipNet ip then Inl (Err ''Overflowed CIDR'') else Inr ip)"

section \<open>Overlap\<close>

definition pp_intersect :: "IPNet \<Rightarrow> IPNet \<Rightarrow> bool \<times> bool" where
  "pp_intersect first second =
     (let (f, _) = Mask_Size (Mask first);
          (s, _) = Mask_Size (Mask second)
      in if f < s then (IPNet_Contains first (IP second), True)
         else (IPNet_Contains second (IP first), False))"

text \<open>The network of \<^verbatim>\<open>_, n, err := net.ParseCIDR(s)\<close>.\<close>

definition parsed_net :: "string \<Rightarrow> IPNet option" where
  "parsed_net s = map_option snd (ParseCIDR s)"

fun intersectLoop :: "IPNet \<Rightarrow> string list \<Rightarrow> bool option" where
  "intersectLoop n [] = Some False"
| "intersectLoop n (p # ps) = do {
     sn \<leftarrow> parsed_net p;
     if fst (pp_intersect sn n) then Some True else intersectLoop n ps }"

definition PrefixPool_Intersect :: "string list \<Rightarrow> string \<Rightarrow> (nsm_error + bool) option" where
  "PrefixPool_Intersect pool_prefixes prefix =
     (case parsed_net prefix of
        None \<Rightarrow> Some (Inl (Err ''CIDR''))
      | Some n \<Rightarrow> map_option Inr (intersectLoop n pool_prefixes))"

section \<open>Splitting\<close>

text \<open>
  The loop of \<^verbatim>\<open>extractPrefix\<close> over the halves: the first half again and again, the second halves on the
  way. Each round makes the mask longer, up to the length of the address.
\<close>

function splitLoop :: "nat \<Rightarrow> IPNet \<Rightarrow> string list \<Rightarrow> (nsm_error + IPNet \<times> string list) option" where
  "splitLoop prefixLen rootNet rightParts =
     (if fst (Mask_Size (Mask rootNet)) = prefixLen then Some (Inr (rootNet, rightParts))
      else do {
        r1 \<leftarrow> subnet rootNet 0;
        r2 \<leftarrow> subnet rootNet 1;
        case (r1, r2) of
          (Inr sub1, Inr sub2) \<Rightarrow> splitLoop prefixLen sub1 (rightParts @ [IPNet_String sub2])
        | (Inl e, _) \<Rightarrow> Some (Inl e)
        | (_, Inl e) \<Rightarrow> Some (Inl e) })"
  by pat_completeness auto

text \<open>The loop of \<^verbatim>\<open>extractSubnet\<close>: the half that has the smaller network, the other halves on both sides.\<close>

function extractLoop ::
  "nat \<Rightarrow> IPNet \<Rightarrow> IPNet \<Rightarrow> string list \<Rightarrow> string list \<Rightarrow> (nsm_error + string list) option" where
  "extractLoop prefixLen smaller rootNet leftParts rightParts =
     (if fst (Mask_Size (Mask rootNet)) = prefixLen then Some (Inr (leftParts @ rightParts))
      else do {
        r1 \<leftarrow> subnet rootNet 0;
        r2 \<leftarrow> subnet rootNet 1;
        case (r1, r2) of
          (Inr sub1, Inr sub2) \<Rightarrow>
            if IPNet_Contains sub1 (IP smaller)
            then extractLoop prefixLen smaller sub1 leftParts (rightParts @ [IPNet_String sub2])
            else if IPNet_Contains sub2 (IP smaller)
            then extractLoop prefixLen smaller sub2 (leftParts @ [IPNet_String sub1]) rightParts
            else Some (Inl (Err ''split failed''))
        | (Inl e, _) \<Rightarrow> Some (Inl e)
        | (_, Inl e) \<Rightarrow> Some (Inl e) })"
  by pat_completeness auto

lemma Mask_Size_CIDRMask:
  assumes "n \<le> b" "b = 32 \<or> b = 128"
  shows "Mask_Size (CIDRMask (int n) (int b)) = (n, b)"
proof -
  have "CIDRMask (int n) (int b) = cidr_bytes n (b div 8)"
    using assms CIDRMask_cidr_bytes [of "int b" "int n"] by (auto simp: nat_div_distrib)
  moreover have "n \<le> 8 * (b div 8)" "8 * (b div 8) = b" using assms by auto
  ultimately show ?thesis using simpleMaskLength_cidr [of n "b div 8"] by (simp add: Mask_Size_def)
qed

lemma Mask_Size_bounds: "Mask_Size (CIDRMask o1 b1) = (n, b) \<Longrightarrow> n \<le> 128"
proof -
  assume a: "Mask_Size (CIDRMask o1 b1) = (n, b)"
  show "n \<le> 128"
  proof (cases "(b1 \<noteq> 32 \<and> b1 \<noteq> 128) \<or> o1 < 0 \<or> b1 < o1")
    case True
    then have "CIDRMask o1 b1 = []" by (auto simp: CIDRMask_def)
    then show ?thesis using a by (simp add: Mask_Size_def)
  next
    case False
    then show ?thesis using a Mask_Size_CIDRMask [of "nat o1" "nat b1"] by auto
  qed
qed

text \<open>Only masks of 32 and 128 bits have a size larger than any prefix of theirs.\<close>

lemma subnet_longer:
  assumes "subnet n i = Some (Inr m)"
  shows "fst (Mask_Size (Mask n)) < snd (Mask_Size (Mask n))"
    "Mask m = CIDRMask (int (Suc (fst (Mask_Size (Mask n))))) (int (snd (Mask_Size (Mask n))))"
  using assms by (auto simp: subnet_def Let_def split: prod.splits if_splits bind_splits)

definition mask_room :: "IPNet \<Rightarrow> nat" where
  "mask_room n = (let (l, b) = Mask_Size (Mask n) in
     if b = 32 \<or> b = 128 then 2 + (b - l) else if l < b then 1 else 0)"

lemma subnet_room: "subnet n i = Some (Inr m) \<Longrightarrow> mask_room m < mask_room n"
proof -
  assume a: "subnet n i = Some (Inr m)"
  obtain l b where lb: "Mask_Size (Mask n) = (l, b)" by fastforce
  note s = subnet_longer [OF a, unfolded lb fst_conv snd_conv]
  show "mask_room m < mask_room n"
  proof (cases "b = 32 \<or> b = 128")
    case True
    then have "Mask_Size (Mask m) = (Suc l, b)" using Mask_Size_CIDRMask [of "Suc l" b] s by simp
    then show ?thesis using True s(1) lb by (auto simp: mask_room_def)
  next
    case False
    then have "Mask m = []" using s(2) by (simp add: CIDRMask_def)
    then show ?thesis using False s(1) lb by (simp add: mask_room_def Mask_Size_def)
  qed
qed

termination splitLoop
  by (relation "measure (\<lambda>(_, rootNet, _). mask_room rootNet)") (auto dest: subnet_room)

termination extractLoop
  by (relation "measure (\<lambda>(_, _, rootNet, _, _). mask_room rootNet)") (auto dest: subnet_room)

declare splitLoop.simps [simp del] extractLoop.simps [simp del]

definition extractSubnet :: "IPNet \<Rightarrow> IPNet \<Rightarrow> (nsm_error + string list) option" where
  "extractSubnet wider smaller =
     (let (prefixLen, _) = Mask_Size (Mask smaller) in extractLoop prefixLen smaller wider [] [])"

text \<open>
  The scan of \<^verbatim>\<open>extractPrefix\<close>: a prefix of the wanted length, or the place of the one to split, the longest
  that is shorter (in the way the code keeps its maximum).
\<close>

datatype scan = FoundAt nat | SplitAt nat | NoRoom

fun scanPrefixes :: "nat \<Rightarrow> nat \<Rightarrow> string list \<Rightarrow> nat \<Rightarrow> nat option \<Rightarrow> scan" where
  "scanPrefixes prefixLen idx [] maxPrefix maxPrefixIdx =
     (case maxPrefixIdx of None \<Rightarrow> NoRoom | Some i \<Rightarrow> SplitAt i)"
| "scanPrefixes prefixLen idx (prefix # ps) maxPrefix maxPrefixIdx =
     (case parsed_net prefix of
        None \<Rightarrow> scanPrefixes prefixLen (Suc idx) ps maxPrefix maxPrefixIdx
      | Some netip \<Rightarrow>
          let (parentLen, _) = Mask_Size (Mask netip) in
          if prefixLen = parentLen then FoundAt idx
          else if parentLen < prefixLen \<and> (parentLen > maxPrefix \<or> maxPrefix = 0)
          then scanPrefixes prefixLen (Suc idx) ps parentLen (Some idx)
          else scanPrefixes prefixLen (Suc idx) ps maxPrefix maxPrefixIdx)"

definition extractPrefix :: "string list \<Rightarrow> nat \<Rightarrow> (nsm_error + string \<times> string list) option" where
  "extractPrefix pool_prefixes prefixLen =
     (case scanPrefixes prefixLen 0 pool_prefixes 0 None of
        FoundAt idx \<Rightarrow> Some (Inr (pool_prefixes ! idx, take idx pool_prefixes @ drop (Suc idx) pool_prefixes))
      | NoRoom \<Rightarrow> Some (Inl (Err ''no room''))
      | SplitAt idx \<Rightarrow> do {
          rootCIDRNet \<leftarrow> parsed_net (pool_prefixes ! idx);
          r \<leftarrow> splitLoop prefixLen rootCIDRNet [];
          Some (case r of
            Inl e \<Rightarrow> Inl e
          | Inr (rootNet, rightParts) \<Rightarrow>
              Inr (IPNet_String rootNet, take idx pool_prefixes @ rev rightParts @ drop (Suc idx) pool_prefixes)) })"

section \<open>Requests for prefixes\<close>

record ExtraPrefixRequest =
  AddrFamily :: "nat option"
  PrefixLen :: nat
  RequiredNumber :: nat
  RequestedNumber :: nat

text \<open>Up to \<open>n\<close> prefixes; a failure ends the call where they are required and the loop where they are not.\<close>

fun extractN :: "nat \<Rightarrow> nat \<Rightarrow> string list \<Rightarrow> string list \<Rightarrow> (bool \<times> string list \<times> string list) option" where
  "extractN 0 prefixLen newPrefixes result = Some (True, result, newPrefixes)"
| "extractN (Suc n) prefixLen newPrefixes result = do {
     r \<leftarrow> extractPrefix newPrefixes prefixLen;
     case r of
       Inl e \<Rightarrow> Some (False, result, newPrefixes)
     | Inr (prefix, leftPrefixes) \<Rightarrow> extractN n prefixLen leftPrefixes (result @ [prefix]) }"

fun requiredLoop :: "ExtraPrefixRequest list \<Rightarrow> string list \<Rightarrow> string list \<Rightarrow> (bool \<times> string list \<times> string list) option" where
  "requiredLoop [] newPrefixes result = Some (True, result, newPrefixes)"
| "requiredLoop (q # qs) newPrefixes result = do {
     (done, result, newPrefixes) \<leftarrow> extractN (RequiredNumber q) (PrefixLen q) newPrefixes result;
     if done then requiredLoop qs newPrefixes result else Some (False, result, newPrefixes) }"

fun requestedLoop :: "ExtraPrefixRequest list \<Rightarrow> string list \<Rightarrow> string list \<Rightarrow> (string list \<times> string list) option" where
  "requestedLoop [] newPrefixes result = Some (result, newPrefixes)"
| "requestedLoop (q # qs) newPrefixes result = do {
     (_, result, newPrefixes) \<leftarrow> extractN (RequestedNumber q - RequiredNumber q) (PrefixLen q) newPrefixes result;
     requestedLoop qs newPrefixes result }"

text \<open>\<open>valid\<close> stands for the method \<^verbatim>\<open>IsValid\<close> of the API's request message.\<close>

definition pp_ExtractPrefixes ::
  "(ExtraPrefixRequest \<Rightarrow> bool) \<Rightarrow> string list \<Rightarrow> ExtraPrefixRequest list \<Rightarrow> (nsm_error + string list \<times> string list) option" where
  "pp_ExtractPrefixes valid pool_prefixes requests =
     (if \<not> list_all valid requests then Some (Inl (Err ''request is not valid''))
      else do {
        (done, result, newPrefixes) \<leftarrow> requiredLoop requests pool_prefixes [];
        if \<not> done then Some (Inl (Err ''no room''))
        else do {
          (result, newPrefixes) \<leftarrow> requestedLoop requests newPrefixes result;
          Some (if result = [] then Inl (Err ''no prefixes'') else Inr (result, newPrefixes)) } })"

end
