(* ===== verification/Prefix_Pool_Ops.thy ===== *)
theory Prefix_Pool_Ops
  imports Prefix_Pool "HOL-Library.List_Lexorder" "HOL-Library.Char_ord"
begin

text \<open>
  The prefix pool, continued: excluding and joining prefixes and the methods of the pool. The order in
  which Go ranges over a map is given by ranks: the keys go in the order of their ranks, and every
  order of distinct keys is one of some rank.
\<close>

section \<open>Excluding\<close>

text \<open>The first prefix that overlaps, and whether the excluded network is the wider one.\<close>

fun firstOverlap :: "IPNet \<Rightarrow> string list \<Rightarrow> (IPNet \<times> bool) option option" where
  "firstOverlap subnetExclude [] = Some None"
| "firstOverlap subnetExclude (prefix # ps) = do {
     subnetPrefix \<leftarrow> parsed_net prefix;
     let (intersecting, excludedIsBigger) = pp_intersect subnetExclude subnetPrefix;
     if intersecting then Some (Some (subnetPrefix, excludedIsBigger)) else firstOverlap subnetExclude ps }"

definition excludeOne :: "string \<Rightarrow> string list \<Rightarrow> string list \<Rightarrow> (nsm_error + string list \<times> string list) option" where
  "excludeOne excludedPrefix copyPrefixes removedPrefixes =
     (if copyPrefixes = [] then Some (Inr (copyPrefixes, removedPrefixes))
      else do {
        subnetExclude \<leftarrow> parsed_net excludedPrefix;
        overlap \<leftarrow> firstOverlap subnetExclude copyPrefixes;
        case overlap of
          None \<Rightarrow> Some (Inr (copyPrefixes, removedPrefixes))
        | Some (subnetPrefix, excludedIsBigger) \<Rightarrow> do {
            res \<leftarrow> (if excludedIsBigger then Some (Inr []) else extractSubnet subnetPrefix subnetExclude);
            Some (case res of
              Inl e \<Rightarrow> Inl e
            | Inr splittedEntries \<Rightarrow>
                Inr (splittedEntries @ filter (\<lambda>p. p \<noteq> IPNet_String subnetPrefix) copyPrefixes,
                     removedPrefixes @ [IPNet_String (if excludedIsBigger then subnetPrefix else subnetExclude)])) } })"

fun excludeAll :: "string list \<Rightarrow> string list \<Rightarrow> string list \<Rightarrow> (nsm_error + string list \<times> string list) option" where
  "excludeAll [] copyPrefixes removedPrefixes = Some (Inr (copyPrefixes, removedPrefixes))"
| "excludeAll (e # es) copyPrefixes removedPrefixes = do {
     r \<leftarrow> excludeOne e copyPrefixes removedPrefixes;
     case r of Inl err \<Rightarrow> Some (Inl err) | Inr (copyPrefixes, removedPrefixes) \<Rightarrow> excludeAll es copyPrefixes removedPrefixes }"

section \<open>Joining\<close>

record go_order =
  rank_string :: "string \<Rightarrow> nat"
  rank_length :: "nat \<Rightarrow> int \<Rightarrow> nat"
  rank_base :: "nat \<Rightarrow> int \<Rightarrow> string \<Rightarrow> nat"

definition getSubnets :: "string list \<Rightarrow> nsm_error + (string \<rightharpoonup> IPNet)" where
  "getSubnets ps =
     (if list_all (\<lambda>p. parsed_net p \<noteq> None) ps
      then Inr (\<lambda>p. if p \<in> set ps then parsed_net p else None) else Inl (Err ''CIDR''))"

text \<open>
  One round of \<^verbatim>\<open>removeNestedNetworks\<close>: the prefix at \<open>newIndex\<close> against all others. The set of kept prefixes
  is a list without repetition.
\<close>

fun nestInner ::
  "(string \<rightharpoonup> IPNet) \<Rightarrow> nat \<Rightarrow> string \<Rightarrow> nat \<Rightarrow> string list \<Rightarrow> bool \<Rightarrow> string list \<Rightarrow> (bool \<times> string list) option" where
  "nestInner subnets newIndex newPrefix i [] intersected kept = Some (intersected, kept)"
| "nestInner subnets newIndex newPrefix i (prefix # ps) intersected kept =
     (if i = newIndex then nestInner subnets newIndex newPrefix (Suc i) ps intersected kept
      else do {
        a \<leftarrow> subnets prefix;
        b \<leftarrow> subnets newPrefix;
        let (meets, firstIsWider) = pp_intersect a b;
        if meets
        then nestInner subnets newIndex newPrefix (Suc i) ps True
               (if firstIsWider then kept else List.insert newPrefix (removeAll prefix kept))
        else nestInner subnets newIndex newPrefix (Suc i) ps intersected kept })"

fun nestOuter :: "(string \<rightharpoonup> IPNet) \<Rightarrow> string list \<Rightarrow> nat \<Rightarrow> string list \<Rightarrow> string list \<Rightarrow> string list option" where
  "nestOuter subnets all i [] kept = Some kept"
| "nestOuter subnets all i (newPrefix # ps) kept = do {
     (intersected, kept) \<leftarrow> nestInner subnets i newPrefix 0 all False kept;
     nestOuter subnets all (Suc i) ps (if intersected then kept else List.insert newPrefix kept) }"

definition removeNestedNetworks :: "go_order \<Rightarrow> string list \<Rightarrow> (string \<rightharpoonup> IPNet) \<Rightarrow> string list option" where
  "removeNestedNetworks ord ps subnets = map_option (sort_key (rank_string ord)) (nestOuter subnets ps 0 ps [])"

type_synonym buckets = "(int \<times> IPNet list) list"

definition bucket :: "buckets \<Rightarrow> int \<Rightarrow> IPNet list" where
  "bucket b k = (case map_of b k of None \<Rightarrow> [] | Some v \<Rightarrow> v)"

fun fillBuckets :: "(string \<rightharpoonup> IPNet) \<Rightarrow> string list \<Rightarrow> buckets \<Rightarrow> buckets option" where
  "fillBuckets subnets [] b = Some b"
| "fillBuckets subnets (prefix # ps) b = do {
     ipnet \<leftarrow> subnets prefix;
     let (parentLen, _) = Mask_Size (Mask ipnet);
     fillBuckets subnets ps (AList.update (int parentLen) (bucket b (int parentLen) @ [ipnet]) b) }"

text \<open>One level: networks that differ in the last bit of their prefix only are joined.\<close>

fun joinLevel ::
  "int \<Rightarrow> IPNet list \<Rightarrow> (string \<times> IPNet) list \<Rightarrow> IPNet list \<Rightarrow> nat \<Rightarrow> ((string \<times> IPNet) list \<times> IPNet list \<times> nat) option" where
  "joinLevel basePrefix [] base parentPrefix changes = Some (base, parentPrefix, changes)"
| "joinLevel basePrefix (netValue # vs) base parentPrefix changes = do {
     ip \<leftarrow> clearNetIndexInIP (IP netValue) basePrefix;
     let baseIP = \<lparr>IP = ip, Mask = Mask netValue\<rparr>;
     let (parentLen, addrLen) = Mask_Size (Mask baseIP);
     case map_of base (IPNet_String baseIP) of
       None \<Rightarrow> joinLevel basePrefix vs (AList.update (IPNet_String baseIP) netValue base) parentPrefix changes
     | Some bv \<Rightarrow>
         joinLevel basePrefix vs (AList.delete (IPNet_String baseIP) base)
           (parentPrefix @ [\<lparr>IP = ip, Mask = CIDRMask (int parentLen - 1) (int addrLen)\<rparr>]) (Suc changes) }"

fun joinLevels :: "go_order \<Rightarrow> nat \<Rightarrow> buckets \<Rightarrow> int list \<Rightarrow> buckets \<Rightarrow> nat \<Rightarrow> (buckets \<times> nat) option" where
  "joinLevels ord round b [] newB changes = Some (newB, changes)"
| "joinLevels ord round b (basePrefix # ks) newB changes =
     (let cvalue = bucket newB basePrefix @ bucket b basePrefix in
      if length cvalue < 2 then joinLevels ord round b ks (AList.update basePrefix cvalue newB) changes
      else do {
        (base, parentPrefix, changes) \<leftarrow> joinLevel basePrefix cvalue [] [] changes;
        let leftPrefixes = map snd (sort_key (\<lambda>(k, _). rank_base ord round basePrefix k) base);
        let newB = AList.update basePrefix leftPrefixes newB;
        let newB = AList.update (basePrefix - 1) (bucket newB (basePrefix - 1) @ parentPrefix) newB;
        joinLevels ord round b ks newB changes })"

definition bucket_keys :: "go_order \<Rightarrow> nat \<Rightarrow> buckets \<Rightarrow> int list" where
  "bucket_keys ord round b = sort_key (rank_length ord round) (remdups (map fst b))"

function joinLoop :: "go_order \<Rightarrow> nat \<Rightarrow> buckets \<Rightarrow> string list option" where
  "joinLoop ord round b =
     (case joinLevels ord round b (bucket_keys ord round b) [] 0 of
        None \<Rightarrow> None
      | Some (newB, changes) \<Rightarrow>
          if changes = 0
          then Some (concat (map (\<lambda>k. map IPNet_String (bucket newB k)) (bucket_keys ord (Suc round) newB)))
          else joinLoop ord (Suc round) newB)"
  by pat_completeness auto

text \<open>A sum over the buckets, and the number of networks in them. A round that joins leaves fewer networks.\<close>

definition bucket_sum :: "(IPNet list \<Rightarrow> nat) \<Rightarrow> buckets \<Rightarrow> nat" where
  "bucket_sum f b = (\<Sum>k\<in>fst ` set b. f (bucket b k))"

abbreviation net_count :: "buckets \<Rightarrow> nat" where
  "net_count \<equiv> bucket_sum length"

lemma bucket_update: "bucket (AList.update k v b) j = (if j = k then v else bucket b j)"
  by (simp add: bucket_def update_conv')

lemma bucket_nil: "k \<notin> fst ` set b \<Longrightarrow> bucket b k = []"
  using map_of_eq_None_iff [of b k] by (simp add: bucket_def)

lemma keys_update: "fst ` set (AList.update k v b) = insert k (fst ` set b)"
  by (simp add: dom_update image_set [symmetric] del: image_set)

lemma bucket_sum_update:
  assumes "f [] = 0"
  shows "bucket_sum f (AList.update k v b) + f (bucket b k) = bucket_sum f b + f v"
proof -
  let ?F = "fst ` set b"
  have "bucket_sum f (AList.update k v b) = (\<Sum>j\<in>insert k ?F. f (if j = k then v else bucket b j))"
    by (simp add: bucket_sum_def keys_update bucket_update)
  also have "\<dots> = f v + (\<Sum>j\<in>?F - {k}. f (bucket b j))"
    by (simp add: sum.insert_remove)
  finally show ?thesis
    using sum.remove [of ?F k "\<lambda>j. f (bucket b j)"] bucket_nil [of k b] assms
    by (cases "k \<in> ?F") (auto simp: bucket_sum_def)
qed

lemmas net_count_update = bucket_sum_update [of length, simplified]

lemma length_AList_delete:
  "distinct (map fst base) \<Longrightarrow> map_of base k \<noteq> None \<Longrightarrow> Suc (length (AList.delete k base)) = length base"
proof (induction base)
  case (Cons p base)
  show ?case
  proof (cases "fst p = k")
    case True
    with Cons.prems(1) have "k \<notin> fst ` set base" by auto
    then have "AList.delete k base = base" by (simp add: delete_id)
    with True show ?thesis by (cases p) simp
  next
    case False
    with Cons show ?thesis by (cases p) simp
  qed
qed simp

lemma length_AList_update: "map_of base k = None \<Longrightarrow> length (AList.update k v base) = Suc (length base)"
  by (induction base) (auto split: if_splits)

lemma joinLevel_count:
  "joinLevel bp vs base parents changes = Some (base', parents', changes') \<Longrightarrow> distinct (map fst base) \<Longrightarrow>
    length base' + length parents' + changes' = length base + length parents + changes + length vs \<and>
    length parents' + changes = length parents + changes' \<and> distinct (map fst base')"
proof (induction vs arbitrary: base parents changes)
  case (Cons v vs)
  obtain ip where ip: "clearNetIndexInIP (IP v) bp = Some ip" using Cons.prems(1) by (auto split: bind_splits)
  let ?k = "IPNet_String \<lparr>IP = ip, Mask = Mask v\<rparr>"
  show ?case
  proof (cases "map_of base ?k")
    case None
    then show ?thesis using Cons.prems ip Cons.IH [of "AList.update ?k v base" parents changes]
      by (simp add: length_AList_update distinct_update split: prod.splits)
  next
    case (Some bv)
    then have "Suc (length (AList.delete ?k base)) = length base" using length_AList_delete [OF Cons.prems(2)] by simp
    moreover have "distinct (map fst (AList.delete ?k base))" using Cons.prems(2) by (simp add: distinct_delete)
    ultimately show ?thesis using Cons.prems ip Some Cons.IH [of "AList.delete ?k base" _ "Suc changes"]
      by (fastforce split: prod.splits)
  qed
qed simp

lemma joinLevels_count:
  "joinLevels ord round b ks newB changes = Some (newB', changes') \<Longrightarrow>
    net_count newB' + changes' = net_count newB + changes + (\<Sum>k\<leftarrow>ks. length (bucket b k)) \<and> changes \<le> changes'"
proof (induction ks arbitrary: newB changes)
  case (Cons k ks)
  let ?c = "bucket newB k @ bucket b k"
  show ?case
  proof (cases "length ?c < 2")
    case True
    then show ?thesis using Cons.prems Cons.IH [of "AList.update k ?c newB" changes] net_count_update [of k ?c newB]
      by (simp add: Let_def)
  next
    case False
    then obtain base parents ch where j: "joinLevel k ?c [] [] changes = Some (base, parents, ch)"
      using Cons.prems by (auto simp: Let_def split: bind_splits if_splits)
    define n1 where "n1 = AList.update k (map snd (sort_key (\<lambda>(k', _). rank_base ord round k k') base)) newB"
    define n2 where "n2 = AList.update (k - 1) (bucket n1 (k - 1) @ parents) n1"
    have "joinLevels ord round b ks n2 ch = Some (newB', changes')"
      using Cons.prems False j by (simp add: n1_def n2_def Let_def)
    note ih = Cons.IH [OF this]
    have "length base + length parents + ch = changes + length ?c" "length parents + changes = ch"
      using joinLevel_count [OF j] by simp_all
    moreover have "net_count n1 + length (bucket newB k) = net_count newB + length base"
      using net_count_update [of k _ newB] by (simp add: n1_def)
    moreover have "net_count n2 = net_count n1 + length parents"
      using net_count_update [of "k - 1" "bucket n1 (k - 1) @ parents" n1] by (simp add: n2_def)
    ultimately show ?thesis using ih by simp
  qed
qed simp

lemma bucket_sum_keys: "(\<Sum>k\<leftarrow>bucket_keys ord round b. f (bucket b k)) = bucket_sum f b"
proof -
  have "distinct (bucket_keys ord round b)" "set (bucket_keys ord round b) = fst ` set b" by (simp_all add: bucket_keys_def)
  then show ?thesis by (simp add: bucket_sum_def sum_list_distinct_conv_sum_set)
qed

termination joinLoop
proof (relation "measure (\<lambda>(_, _, b). net_count b)")
  fix ord :: go_order and round b p newB changes
  assume "joinLevels ord round b (bucket_keys ord round b) [] 0 = Some p" "(newB, changes) = p" "changes \<noteq> 0"
  then show "((ord, Suc round, newB), ord, round, b) \<in> measure (\<lambda>(_, _, b). net_count b)"
    using joinLevels_count [of ord round b "bucket_keys ord round b" "[]" 0 newB changes] bucket_sum_keys [where f = length and ord = ord and round = round and b = b]
    by (auto simp: bucket_sum_def)
qed simp

declare joinLoop.simps [simp del]

definition releasePrefixes :: "go_order \<Rightarrow> string list \<Rightarrow> string list \<Rightarrow> (nsm_error + string list) option" where
  "releasePrefixes ord ps released =
     (if released = [] then Some (Inr ps)
      else let allPrefixes = ps @ released in
        (case getSubnets allPrefixes of
           Inl e \<Rightarrow> Some (Inl e)
         | Inr subnets \<Rightarrow> do {
             result \<leftarrow> removeNestedNetworks ord allPrefixes subnets;
             b \<leftarrow> fillBuckets subnets result [];
             map_option Inr (joinLoop ord 0 b) }))"

section \<open>The methods\<close>

record connectionRecord =
  cr_ipNet :: "IPNet option"
  cr_prefixes :: "string list"

record prefix_pool =
  pp_prefixes :: "string list"
  pp_connections :: "string \<rightharpoonup> connectionRecord"

definition pp_New :: "string list \<Rightarrow> nsm_error + prefix_pool" where
  "pp_New ps =
     (if list_all (\<lambda>p. ParseCIDR p \<noteq> None) ps
      then Inr \<lparr>pp_prefixes = ps, pp_connections = Map.empty\<rparr> else Inl (Err ''CIDR''))"

definition pp_GetPrefixes :: "prefix_pool \<Rightarrow> string list" where
  "pp_GetPrefixes impl = pp_prefixes impl"

text \<open>The remaining prefixes are sorted as strings.\<close>

definition ReleaseExcludedPrefixes :: "go_order \<Rightarrow> string list \<Rightarrow> prefix_pool \<Rightarrow> (nsm_error option \<times> prefix_pool) option" where
  "ReleaseExcludedPrefixes ord excludedPrefixes impl = do {
     r \<leftarrow> releasePrefixes ord (pp_prefixes impl) excludedPrefixes;
     Some (case r of
       Inl e \<Rightarrow> (Some e, impl)
     | Inr remaining \<Rightarrow> (None, impl\<lparr>pp_prefixes := sort remaining\<rparr>)) }"

definition pp_ExcludePrefixes :: "string list \<Rightarrow> prefix_pool \<Rightarrow> ((nsm_error + string list) \<times> prefix_pool) option" where
  "pp_ExcludePrefixes excludedPrefixes impl = do {
     r \<leftarrow> excludeAll excludedPrefixes (pp_prefixes impl) [];
     Some (case r of
       Inl e \<Rightarrow> (Inl e, impl)
     | Inr (copyPrefixes, removedPrefixes) \<Rightarrow>
         if copyPrefixes = [] then (Inl (Err ''the available address pool is empty''), impl)
         else (Inr removedPrefixes, impl\<lparr>pp_prefixes := copyPrefixes\<rparr>)) }"

text \<open>\<open>family\<close> is the API's number of the family; 1 is IPv6.\<close>

definition pp_Extract ::
  "(ExtraPrefixRequest \<Rightarrow> bool) \<Rightarrow> string \<Rightarrow> nat \<Rightarrow> ExtraPrefixRequest list \<Rightarrow> prefix_pool \<Rightarrow>
     ((nsm_error + IPNet \<times> IPNet \<times> string list) \<times> prefix_pool) option" where
  "pp_Extract valid connectionID family requests impl = do {
     let prefixLen = (if family = 1 then 126 else 30);
     r \<leftarrow> pp_ExtractPrefixes valid (pp_prefixes impl)
       [\<lparr>AddrFamily = Some family, PrefixLen = prefixLen, RequiredNumber = 1, RequestedNumber = 1\<rparr>];
     case r of
       Inl e \<Rightarrow> Some (Inl e, impl)
     | Inr (result, remaining) \<Rightarrow>
         (case ParseCIDR (result ! 0) of
            None \<Rightarrow> Some (Inl (Err ''CIDR''), impl)
          | Some (ip, ipNet) \<Rightarrow>
              (case incrementIP ip ipNet of
                 Inl e \<Rightarrow> Some (Inl e, impl)
               | Inr src \<Rightarrow>
                   (case incrementIP src ipNet of
                      Inl e \<Rightarrow> Some (Inl e, impl)
                    | Inr dst \<Rightarrow> do {
                        r \<leftarrow> (if requests \<noteq> [] then pp_ExtractPrefixes valid remaining requests else Some (Inr ([], remaining)));
                        Some (case r of
                          Inl e \<Rightarrow> (Inl e, impl)
                        | Inr (requested, remaining) \<Rightarrow>
                            (Inr (\<lparr>IP = src, Mask = Mask ipNet\<rparr>, \<lparr>IP = dst, Mask = Mask ipNet\<rparr>, requested),
                             impl\<lparr>pp_prefixes := remaining,
                               pp_connections := (pp_connections impl)(connectionID \<mapsto> \<lparr>cr_ipNet = Some ipNet, cr_prefixes = requested\<rparr>)\<rparr>)) }))) }"

definition PrefixPool_ExtractPrefixes ::
  "(ExtraPrefixRequest \<Rightarrow> bool) \<Rightarrow> string \<Rightarrow> ExtraPrefixRequest list \<Rightarrow> prefix_pool \<Rightarrow> ((nsm_error + string list) \<times> prefix_pool) option" where
  "PrefixPool_ExtractPrefixes valid connectionID requests impl =
     (if requests = [] then Some (Inr [], impl)
      else do {
        r \<leftarrow> pp_ExtractPrefixes valid (pp_prefixes impl) requests;
        Some (case r of
          Inl e \<Rightarrow> (Inl e, impl)
        | Inr (requested, remaining) \<Rightarrow>
            (Inr requested, impl\<lparr>pp_prefixes := remaining,
               pp_connections := (pp_connections impl)(connectionID \<mapsto>
                 (case pp_connections impl connectionID of
                    None \<Rightarrow> \<lparr>cr_ipNet = None, cr_prefixes = requested\<rparr>
                  | Some rec \<Rightarrow> rec\<lparr>cr_prefixes := cr_prefixes rec @ requested\<rparr>))\<rparr>)) })"

text \<open>The string of a nil network is \<^verbatim>\<open><nil>\<close>.\<close>

definition netString :: "IPNet option \<Rightarrow> string" where
  "netString n = (case n of None \<Rightarrow> ''<nil>'' | Some n \<Rightarrow> IPNet_String n)"

definition pp_Release :: "go_order \<Rightarrow> string \<Rightarrow> prefix_pool \<Rightarrow> (nsm_error option \<times> prefix_pool) option" where
  "pp_Release ord connectionID impl =
     (case pp_connections impl connectionID of
        None \<Rightarrow> Some (Some (Err ''Failed to release''), impl)
      | Some conn \<Rightarrow> do {
          let impl = impl\<lparr>pp_connections := (pp_connections impl)(connectionID := None)\<rparr>;
          r \<leftarrow> releasePrefixes ord (pp_prefixes impl) (cr_prefixes conn);
          case r of
            Inl e \<Rightarrow> Some (Some e, impl)
          | Inr remaining \<Rightarrow> do {
              r \<leftarrow> releasePrefixes ord remaining [netString (cr_ipNet conn)];
              Some (case r of Inl e \<Rightarrow> (Some e, impl) | Inr remaining \<Rightarrow> (None, impl\<lparr>pp_prefixes := remaining\<rparr>)) } })"

definition GetConnectionInformation :: "string \<Rightarrow> prefix_pool \<Rightarrow> nsm_error + string \<times> string list" where
  "GetConnectionInformation connectionID impl =
     (case pp_connections impl connectionID of
        None \<Rightarrow> Inl (Err ''No connection'')
      | Some conn \<Rightarrow> Inr (netString (cr_ipNet conn), cr_prefixes conn))"

end
