(* ===== verification/Prefix_Pool_Props.thy ===== *)
theory Prefix_Pool_Props
  imports Prefix_Pool_Ops
begin

text \<open>
  What the operations of the prefix pool do to the addresses. A canonical network is an aligned block of
  \<open>2 ^ k\<close> addresses; two blocks are nested or disjoint. The pool is described by its cover: the
  number of prefixes that hold an address. Splitting and joining keep the cover of every address.
\<close>

section \<open>Aligned blocks\<close>

lemma blocks_nested:
  fixes a b :: nat
  assumes "2 ^ j dvd a" "2 ^ k dvd b" "j \<le> k" "a \<in> {b..<b + 2 ^ k}"
  shows "{a..<a + 2 ^ j} \<subseteq> {b..<b + 2 ^ k}"
proof -
  obtain u v where uv: "a = 2 ^ j * u" "b = 2 ^ j * v"
    using assms(1-3) by (meson dvd_def dvd_trans le_imp_power_dvd)
  have w: "(2 :: nat) ^ k = 2 ^ j * 2 ^ (k - j)" using assms(3) by (simp flip: power_add)
  have "2 ^ j * u < 2 ^ j * (v + 2 ^ (k - j))" using assms(4) uv w by (simp add: distrib_left)
  then have "u + 1 \<le> v + 2 ^ (k - j)" by simp
  then have "2 ^ j * (u + 1) \<le> 2 ^ j * (v + 2 ^ (k - j))" by (rule mult_le_mono2)
  then have "a + 2 ^ j \<le> b + 2 ^ k" using uv w by (simp add: distrib_left)
  then show ?thesis using assms(4) by auto
qed

lemma blocks_disjoint:
  fixes a b :: nat
  assumes "2 ^ j dvd a" "2 ^ k dvd b" "j \<le> k" "a \<notin> {b..<b + 2 ^ k}"
  shows "{a..<a + 2 ^ j} \<inter> {b..<b + 2 ^ k} = {}"
proof -
  have "2 ^ j dvd b" using assms(2,3) by (meson dvd_trans le_imp_power_dvd)
  then have "a < b \<Longrightarrow> a + 2 ^ j \<le> b"
    using assms(1) by (metis dvd_def mult_less_cancel1 Suc_leI mult_le_mono2 mult_Suc_right add.commute)
  then show ?thesis using assms(4) by auto
qed

lemma block_room:
  fixes a :: nat
  assumes "2 ^ k dvd a" "a < 256 ^ L" "k \<le> 8 * L"
  shows "a + 2 ^ k \<le> 256 ^ L"
proof -
  have "(256 :: nat) ^ L = 2 ^ (8 * L)" by (simp add: power_mult)
  then show ?thesis using blocks_nested [of k a "8 * L" 0] assms
    by (auto dest!: subsetD [of _ _ "a + 2 ^ k - 1"])
qed

section \<open>Canonical networks as blocks\<close>

text \<open>An IPv6 network must not hold addresses that are written as IPv4.\<close>

definition good_net :: "IPNet \<Rightarrow> bool" where
  "good_net n \<longleftrightarrow> canonical_net n \<and> (length (IP n) = IPv6len \<longrightarrow> net_set n \<inter> v4_block = {})"

definition prefix_len :: "IPNet \<Rightarrow> nat" where
  "prefix_len n = fst (Mask_Size (Mask n))"

definition host_bits :: "IPNet \<Rightarrow> nat" where
  "host_bits n = 8 * length (IP n) - prefix_len n"

lemma v4_block_dvd: "k \<le> 32 \<Longrightarrow> 2 ^ k dvd (0xFFFF00000000 :: nat)"
proof -
  assume "k \<le> 32"
  then have "(2 :: nat) ^ k dvd 2 ^ 32" by (rule le_imp_power_dvd)
  also have "(2 :: nat) ^ 32 dvd 0xFFFF00000000" by simp
  finally show "2 ^ k dvd (0xFFFF00000000 :: nat)" .
qed

lemma ip_val_16: "length bs = IPv6len \<Longrightarrow> ip_val bs = bytes_val bs"
  by (simp add: ip_val_def To16_def)

lemma ip_val_4: "length bs = IPv4len \<Longrightarrow> ip_val bs = 0xFFFF00000000 + bytes_val bs"
  using bytes_val_v4 [of bs] by (simp add: ip_val_def To16_def)

lemma block_dvd_ip_val:
  assumes "length bs \<in> {IPv4len, IPv6len}" "k \<le> 8 * length bs" "2 ^ k dvd bytes_val bs"
  shows "2 ^ k dvd ip_val bs"
  using assms v4_block_dvd [of k] by (auto simp: ip_val_16 ip_val_4 intro: dvd_add)

text \<open>The network of a block: its mask is given by the number of host bits.\<close>

lemma block_net:
  assumes "length bs = L" "L \<in> {IPv4len, IPv6len}" "k \<le> 8 * L" "2 ^ k dvd bytes_val bs"
    and n: "n = \<lparr>IP = bs, Mask = cidr_bytes (8 * L - k) L\<rparr>"
  shows "Mask_Size (Mask n) = (8 * L - k, 8 * L)" "prefix_len n = 8 * L - k" "host_bits n = k"
    "net_set n = {ip_val bs..<ip_val bs + 2 ^ k}" "2 ^ k dvd ip_val bs"
    "map2 (AND) (IP n) (Mask n) = IP n"
proof -
  show s: "Mask_Size (Mask n) = (8 * L - k, 8 * L)"
    using simpleMaskLength_cidr [of "8 * L - k" L] by (simp add: Mask_Size_def n)
  then show p: "prefix_len n = 8 * L - k" by (simp add: prefix_len_def)
  then show "host_bits n = k" using assms(1,3) by (simp add: host_bits_def n)
  have "CIDRMask (int L * 8 - int k) (int L * 8) = cidr_bytes (nat (int L * 8 - int k)) (nat (int L * 8 div 8))"
    using assms(2,3) by (intro CIDRMask_cidr_bytes) auto
  moreover have "nat (int L * 8 - int k) = 8 * L - k" "nat (int L * 8 div 8) = L" by simp_all
  ultimately have "CIDRMask (int L * 8 - int k) (int L * 8) = cidr_bytes (8 * L - k) L" by (simp only:)
  then show "net_set n = {ip_val bs..<ip_val bs + 2 ^ k}"
    using net_set_aligned [OF assms(1-4)] by (simp add: n)
  show "2 ^ k dvd ip_val bs" using block_dvd_ip_val [of bs k] assms(1-4) by simp
  have "8 * L - (8 * L - k) = k" using assms(3) by simp
  then show "map2 (AND) (IP n) (Mask n) = IP n"
    using aligned_masked(1) [of "8 * L - k" bs] assms(1,4) by (simp add: n)
qed

lemma v4_block_iff: "length bs = IPv6len \<Longrightarrow> To4 bs \<noteq> [] \<Longrightarrow> ip_val bs \<in> v4_block"
proof -
  assume l: "length bs = IPv6len" and t: "To4 bs \<noteq> []"
  then have d: "take 12 bs = v4InV6Prefix" by (auto simp: To4_def split: if_splits)
  then have "bs = v4InV6Prefix @ drop 12 bs" using v4_mapped_split by metis
  then have "bytes_val bs = 0xFFFF00000000 + bytes_val (drop 12 bs)"
    using bytes_val_v4 [of "drop 12 bs"] l by simp
  moreover have "bytes_val (drop 12 bs) < 256 ^ 4" using bytes_val_bound [of "drop 12 bs"] l by simp
  ultimately show "ip_val bs \<in> v4_block" using l by (simp add: ip_val_16 v4_block_def)
qed

lemma good_block_net:
  assumes "length bs = L" "L \<in> {IPv4len, IPv6len}" "k \<le> 8 * L" "2 ^ k dvd bytes_val bs"
    and n: "n = \<lparr>IP = bs, Mask = cidr_bytes (8 * L - k) L\<rparr>"
    and v6: "L = IPv6len \<Longrightarrow> {ip_val bs..<ip_val bs + 2 ^ k} \<inter> v4_block = {}"
  shows "good_net n"
proof -
  note b = block_net [OF assms(1-4) n]
  have "ip_val bs \<in> {ip_val bs..<ip_val bs + 2 ^ k}" by simp
  then have "L = IPv6len \<Longrightarrow> To4 bs = []" using v6 v4_block_iff [of bs] assms(1) by blast
  then have "canonical_net n"
    unfolding canonical_net_def using b(6) assms(1,2)
    by (intro exI [of _ "8 * L - k"] exI [of _ L]) (auto simp: n)
  moreover have "length (IP n) = IPv6len \<longrightarrow> net_set n \<inter> v4_block = {}"
    unfolding b(4) using v6 assms(1) n by simp
  ultimately show ?thesis unfolding good_net_def by blast
qed

lemma good_netE:
  assumes "good_net n"
  obtains L k where "L \<in> {IPv4len, IPv6len}" "length (IP n) = L" "k = host_bits n" "k \<le> 8 * L"
    "Mask n = cidr_bytes (8 * L - k) L" "2 ^ k dvd bytes_val (IP n)"
    "Mask_Size (Mask n) = (8 * L - k, 8 * L)" "prefix_len n = 8 * L - k"
    "net_set n = {ip_val (IP n)..<ip_val (IP n) + 2 ^ k}" "2 ^ k dvd ip_val (IP n)"
    "L = IPv6len \<Longrightarrow> To4 (IP n) = []"
proof -
  obtain l L where L: "L \<in> {IPv4len, IPv6len}" "l \<le> 8 * L" "length (IP n) = L" "Mask n = cidr_bytes l L"
    "map2 (AND) (IP n) (Mask n) = IP n" "L = IPv6len \<longrightarrow> To4 (IP n) = []"
    using assms by (auto simp: good_net_def canonical_net_def)
  define k where "k = 8 * L - l"
  have k: "k \<le> 8 * L" "l = 8 * L - k" using L(2) by (simp_all add: k_def)
  have "bytes_val (IP n) = bytes_val (IP n) div 2 ^ k * 2 ^ k"
    using bytes_val_masked [of l "IP n"] L by (simp add: k_def)
  then have d: "2 ^ k dvd bytes_val (IP n)" by (metis dvd_triv_right)
  have n: "n = \<lparr>IP = IP n, Mask = cidr_bytes (8 * L - k) L\<rparr>" using L(4) k(2) by simp
  note b = block_net [OF L(3,1) k(1) d n]
  show ?thesis
    by (rule that [OF L(1,3) b(3) [symmetric] k(1) _ d b(1,2,4,5)]) (use L(4,6) k(2) in auto)
qed

lemma good_v4_subset: "good_net n \<Longrightarrow> length (IP n) = IPv4len \<Longrightarrow> net_set n \<subseteq> v4_block"
proof (erule good_netE)
  fix L k assume a: "length (IP n) = IPv4len" "length (IP n) = L" "k \<le> 8 * L" "2 ^ k dvd bytes_val (IP n)"
    "net_set n = {ip_val (IP n)..<ip_val (IP n) + 2 ^ k}"
  then have "bytes_val (IP n) + 2 ^ k \<le> 256 ^ 4" using block_room [of k "bytes_val (IP n)" 4] bytes_val_bound [of "IP n"] by simp
  then show "net_set n \<subseteq> v4_block" using a by (auto simp: ip_val_4 v4_block_def)
qed

lemma good_v6_disjoint: "good_net n \<Longrightarrow> length (IP n) = IPv6len \<Longrightarrow> net_set n \<inter> v4_block = {}"
  by (simp add: good_net_def)

lemma good_net_length: "good_net n \<Longrightarrow> length (IP n) = IPv4len \<or> length (IP n) = IPv6len"
  by (erule good_netE) simp

lemma good_net_parse: "good_net n \<Longrightarrow> parsed_net (IPNet_String n) = Some n"
  by (simp add: good_net_def ParseCIDR_IPNet_String parsed_net_def)

lemma good_net_String_inject: "good_net m \<Longrightarrow> good_net n \<Longrightarrow> IPNet_String m = IPNet_String n \<Longrightarrow> m = n"
  by (metis good_net_parse option.inject)

lemma good_net_start: "good_net n \<Longrightarrow> ip_val (IP n) \<in> net_set n"
  by (erule good_netE) simp

section \<open>Membership and overlap\<close>

lemma masked_eq_iff:
  assumes "length xs = L" "length ys = L" "k \<le> 8 * L" "2 ^ k dvd bytes_val xs"
  shows "map2 (AND) xs (cidr_bytes (8 * L - k) L) = map2 (AND) ys (cidr_bytes (8 * L - k) L) \<longleftrightarrow>
    bytes_val ys \<in> {bytes_val xs..<bytes_val xs + 2 ^ k}"
proof -
  have k: "8 * L - (8 * L - k) = k" using assms(3) by simp
  have x: "bytes_val (map2 (AND) xs (cidr_bytes (8 * L - k) L)) = bytes_val xs"
    using bytes_val_masked [of "8 * L - k" xs] assms k by simp
  have y: "bytes_val (map2 (AND) ys (cidr_bytes (8 * L - k) L)) = bytes_val ys div 2 ^ k * 2 ^ k"
    using bytes_val_masked [of "8 * L - k" ys] assms k by simp
  obtain q where q: "bytes_val xs = 2 ^ k * q" using assms(4) by (rule dvdE)
  have "map2 (AND) xs (cidr_bytes (8 * L - k) L) = map2 (AND) ys (cidr_bytes (8 * L - k) L) \<longleftrightarrow>
      bytes_val xs = bytes_val ys div 2 ^ k * 2 ^ k"
    using bytes_val_inject [of "map2 (AND) xs (cidr_bytes (8 * L - k) L)" "map2 (AND) ys (cidr_bytes (8 * L - k) L)"]
      x y assms(1,2) by simp
  also have "\<dots> \<longleftrightarrow> q = bytes_val ys div 2 ^ k" unfolding q by (simp add: mult.commute)
  also have "\<dots> \<longleftrightarrow> 2 ^ k * q \<le> bytes_val ys \<and> bytes_val ys < 2 ^ k * Suc q"
    by (metis div_nat_eqI dividend_less_times_div less_mult_imp_div_less mult.commute mult_Suc_right times_div_less_eq_dividend zero_less_numeral zero_less_power)
  finally show ?thesis unfolding q by (simp add: add.commute)
qed

lemma map2_AND_eq_iff:
  fixes xs :: "u8 list"
  assumes "length ys = length xs" "length m = length xs"
  shows "map2 (AND) xs m = map2 (AND) ys m \<longleftrightarrow> (\<forall>i<length xs. xs ! i AND m ! i = ys ! i AND m ! i)"
  using assms by (simp add: list_eq_iff_nth_eq)

lemma IPNet_Contains_iff:
  assumes "good_net n" "valid_IP ip"
  shows "IPNet_Contains n ip \<longleftrightarrow> ip_val ip \<in> net_set n"
proof -
  from assms(1) show ?thesis
  proof (rule good_netE)
    fix L k
    assume b: "L \<in> {IPv4len, IPv6len}" "length (IP n) = L" "k \<le> 8 * L" "Mask n = cidr_bytes (8 * L - k) L"
      "2 ^ k dvd bytes_val (IP n)" "net_set n = {ip_val (IP n)..<ip_val (IP n) + 2 ^ k}"
    let ?ip = "if To4 ip \<noteq> [] then To4 ip else ip"
    have nn: "networkNumberAndMask n = (IP n, Mask n)" using assms(1) by (simp add: good_net_def networkNumber_canonical)
    have c: "IPNet_Contains n ip \<longleftrightarrow> length ?ip = L \<and> map2 (AND) (IP n) (Mask n) = map2 (AND) ?ip (Mask n)"
      using map2_AND_eq_iff [of ?ip "IP n" "Mask n"] b(2,4)
      unfolding IPNet_Contains_def nn Let_def prod.case list_all_iff by (metis atLeastLessThan_iff le0 set_upt length_cidr_bytes)
    have v4: "To4 ip \<noteq> [] \<Longrightarrow> ip_val ip \<in> v4_block"
      using assms(2) v4_block_iff [of ip] bytes_val_bound [of ip]
      by (auto simp: valid_IP_def ip_val_4 v4_block_def)
    have v6: "To4 ip = [] \<Longrightarrow> ip_val ip \<notin> v4_block \<and> length ip = IPv6len"
      using assms(2) To4_of_v4 [OF assms(2)] by (auto simp: valid_IP_def To4_def split: if_splits)
    have ev: "ip_val ?ip = ip_val ip" "To4 ip \<noteq> [] \<Longrightarrow> length (To4 ip) = IPv4len"
      using To4_of_v4 [OF assms(2)] v4 by auto
    show ?thesis
    proof (cases "length ?ip = L")
      case True
      have "map2 (AND) (IP n) (Mask n) = map2 (AND) ?ip (Mask n) \<longleftrightarrow> bytes_val ?ip \<in> {bytes_val (IP n)..<bytes_val (IP n) + 2 ^ k}"
        unfolding b(4) by (rule masked_eq_iff [OF b(2) True b(3,5)])
      moreover have "ip_val ?ip \<in> net_set n \<longleftrightarrow> bytes_val ?ip \<in> {bytes_val (IP n)..<bytes_val (IP n) + 2 ^ k}"
        using b(1,2,6) True ip_val_4 [of ?ip] ip_val_16 [of ?ip] ip_val_4 [of "IP n"] ip_val_16 [of "IP n"] by auto
      ultimately show ?thesis using c True ev(1) by simp
    next
      case False
      have "L = IPv4len \<Longrightarrow> net_set n \<subseteq> v4_block" "L = IPv6len \<Longrightarrow> net_set n \<inter> v4_block = {}"
        using good_v4_subset good_v6_disjoint assms(1) b(2) by auto
      then have "ip_val ip \<notin> net_set n" using False b(1) v4 v6 ev(2) by (cases "To4 ip = []") auto
      then show ?thesis using c False by simp
    qed
  qed
qed

lemma good_net_valid: "good_net n \<Longrightarrow> valid_IP (IP n)"
  by (erule good_netE) (auto simp: valid_IP_def)

text \<open>Two networks are nested, the one with fewer host bits inside, or disjoint.\<close>

lemma good_nets_nested:
  assumes "good_net m" "good_net n" "host_bits m \<le> host_bits n" "net_set m \<inter> net_set n \<noteq> {}"
  shows "net_set m \<subseteq> net_set n"
  using assms(1)
proof (rule good_netE)
  fix j assume m: "j = host_bits m" "net_set m = {ip_val (IP m)..<ip_val (IP m) + 2 ^ j}" "2 ^ j dvd ip_val (IP m)"
  show ?thesis using assms(2)
  proof (rule good_netE)
    fix k assume n: "k = host_bits n" "net_set n = {ip_val (IP n)..<ip_val (IP n) + 2 ^ k}" "2 ^ k dvd ip_val (IP n)"
    show ?thesis
      using blocks_nested [OF m(3) n(3)] blocks_disjoint [OF m(3) n(3)] assms(3,4) unfolding m(1,2) n(1,2) by blast
  qed
qed

lemma good_nets_family:
  assumes "good_net m" "good_net n" "net_set m \<inter> net_set n \<noteq> {}"
  shows "length (IP m) = length (IP n)"
proof -
  have False if "good_net a" "good_net b" "length (IP a) = IPv4len" "length (IP b) = IPv6len"
    "net_set a \<inter> net_set b \<noteq> {}" for a b
    using good_v4_subset [OF that(1,3)] good_v6_disjoint [OF that(2,4)] that(5) by blast
  then show ?thesis
    using good_net_length [OF assms(1)] good_net_length [OF assms(2)] assms by (metis Int_commute)
qed

lemma host_bits_le_iff:
  assumes "good_net m" "good_net n" "length (IP m) = length (IP n)"
  shows "host_bits m \<le> host_bits n \<longleftrightarrow> prefix_len n \<le> prefix_len m"
proof -
  have "good_net n \<Longrightarrow> prefix_len n \<le> 8 * length (IP n)" for n by (erule good_netE) simp
  then show ?thesis using assms unfolding host_bits_def by (metis diff_le_mono2 diff_diff_cancel)
qed

lemma pp_intersect_iff:
  assumes "good_net first" "good_net second"
  shows "fst (pp_intersect first second) \<longleftrightarrow> net_set first \<inter> net_set second \<noteq> {}"
    "snd (pp_intersect first second) \<longleftrightarrow> prefix_len first < prefix_len second"
proof -
  have s: "net_set m \<inter> net_set n \<noteq> {} \<longleftrightarrow> ip_val (IP m) \<in> net_set n"
    if "good_net m" "good_net n" "prefix_len n \<le> prefix_len m" for m n
    using good_nets_nested [OF that(1,2)] good_net_start [OF that(1)] host_bits_le_iff [OF that(1,2)]
      good_nets_family [OF that(1,2)] that(3) by blast
  have c: "good_net m \<Longrightarrow> good_net n \<Longrightarrow> IPNet_Contains n (IP m) \<longleftrightarrow> ip_val (IP m) \<in> net_set n" for m n
    by (simp add: IPNet_Contains_iff good_net_valid)
  have p: "pp_intersect first second = (if prefix_len first < prefix_len second
      then (IPNet_Contains first (IP second), True) else (IPNet_Contains second (IP first), False))"
    by (simp add: pp_intersect_def prefix_len_def case_prod_beta)
  show "fst (pp_intersect first second) \<longleftrightarrow> net_set first \<inter> net_set second \<noteq> {}"
  proof (cases "prefix_len first < prefix_len second")
    case True
    then show ?thesis using s [of second first] c [of second first] assms by (simp add: p Int_commute)
  next
    case False
    then show ?thesis using s [of first second] c [of first second] assms by (simp add: p)
  qed
  show "snd (pp_intersect first second) \<longleftrightarrow> prefix_len first < prefix_len second" by (simp add: p)
qed

section \<open>The cover of a pool\<close>

definition cover :: "IPNet list \<Rightarrow> nat \<Rightarrow> nat" where
  "cover ns x = length (filter (\<lambda>n. x \<in> net_set n) ns)"

lemma cover_simps [simp]:
  "cover [] x = 0" "cover (n # ns) x = (if x \<in> net_set n then Suc (cover ns x) else cover ns x)"
  "cover (ms @ ns) x = cover ms x + cover ns x" "cover (rev ns) x = cover ns x"
  by (simp_all add: cover_def rev_filter [symmetric])

definition text_set :: "string \<Rightarrow> nat set" where
  "text_set p = (case parsed_net p of None \<Rightarrow> {} | Some n \<Rightarrow> net_set n)"

definition pool_cover :: "string list \<Rightarrow> nat \<Rightarrow> nat" where
  "pool_cover ps x = length (filter (\<lambda>p. x \<in> text_set p) ps)"

lemma pool_cover_simps [simp]:
  "pool_cover [] x = 0" "pool_cover (p # ps) x = (if x \<in> text_set p then Suc (pool_cover ps x) else pool_cover ps x)"
  "pool_cover (ps @ qs) x = pool_cover ps x + pool_cover qs x" "pool_cover (rev ps) x = pool_cover ps x"
  by (simp_all add: pool_cover_def rev_filter [symmetric])

text \<open>The prefixes of the pool as the code writes them.\<close>

definition good_text :: "string \<Rightarrow> bool" where
  "good_text p \<longleftrightarrow> (\<exists>n. parsed_net p = Some n \<and> good_net n)"

lemma good_text_String [simp]: "good_net n \<Longrightarrow> good_text (IPNet_String n)"
  by (auto simp: good_text_def good_net_parse)

lemma text_set_String [simp]: "good_net n \<Longrightarrow> text_set (IPNet_String n) = net_set n"
  by (simp add: text_set_def good_net_parse)

lemma pool_cover_String: "list_all good_net ns \<Longrightarrow> pool_cover (map IPNet_String ns) x = cover ns x"
  by (induction ns) auto

section \<open>Halves\<close>

lemma toIP_256: "n < 256 ^ L \<Longrightarrow> toIP n (8 * L) = Some (be_bytes L n)"
  by (simp add: toIP_def)

lemma subnet_half:
  assumes "good_net n" "host_bits n = Suc j" "i < 2"
  shows "\<exists>m. subnet n i = Some (Inr m) \<and> good_net m \<and> host_bits m = j \<and> length (IP m) = length (IP n) \<and>
    net_set m = {ip_val (IP n) + i * 2 ^ j..<ip_val (IP n) + i * 2 ^ j + 2 ^ j}"
  using assms(1)
proof (rule good_netE)
  fix L k
  assume b: "L \<in> {IPv4len, IPv6len}" "length (IP n) = L" "k = host_bits n" "k \<le> 8 * L"
    "2 ^ k dvd bytes_val (IP n)" "Mask_Size (Mask n) = (8 * L - k, 8 * L)"
    "net_set n = {ip_val (IP n)..<ip_val (IP n) + 2 ^ k}"
  let ?a = "bytes_val (IP n)" and ?m = "\<lparr>IP = be_bytes L (bytes_val (IP n) + i * 2 ^ j), Mask = cidr_bytes (8 * L - j) L\<rparr>"
  have k: "k = Suc j" and j: "j \<le> 8 * L" "Suc (8 * L - k) = 8 * L - j" using b(3,4) assms(2) by simp_all
  have d: "2 ^ Suc j dvd ?a" using b(5) k by simp
  have room: "?a + 2 ^ Suc j \<le> 256 ^ L"
    using block_room [OF d _ b(4) [unfolded k]] bytes_val_bound [of "IP n"] b(2) by (simp only:)
  have i: "i * 2 ^ j + 2 ^ j \<le> 2 ^ Suc j" using assms(3) by (cases i) auto
  have lt: "?a + i * 2 ^ j < 256 ^ L" using room i by (meson le_less_trans less_add_same_cancel1 not_le add_mono order_refl le_trans zero_less_power zero_less_numeral add.assoc trans_le_add1 add_le_cancel_left order_less_le_trans)
  have "?a OR push_bit j i = ?a + i * 2 ^ j"
  proof -
    have "?a AND push_bit j i = 0"
    proof (rule bit_eqI)
      fix q
      have "take_bit (Suc j) ?a = 0" using d by (simp only: take_bit_eq_mod mod_eq_0_iff_dvd)
      then have "\<not> bit ?a q" if "q < Suc j" using that bit_take_bit_iff [of "Suc j" ?a q] by simp
      moreover have "bit (push_bit j i) q \<Longrightarrow> q = j"
        using assms(3) by (auto simp: bit_push_bit_iff less_2_cases_iff bit_Suc_0_iff)
      ultimately show "bit (?a AND push_bit j i) q = bit 0 q" by (auto simp: bit_and_iff)
    qed
    then have "?a OR push_bit j i = ?a + push_bit j i" by (rule disjunctive_add_eq_or [symmetric])
    then show ?thesis by (simp add: push_bit_eq_mult)
  qed
  moreover have "fromIP (IP n) = (?a, 8 * L)" using b(1,2) by (auto simp: fromIP_def)
  moreover have "CIDRMask (int (8 * L - j)) (int (8 * L)) = cidr_bytes (8 * L - j) L"
    using CIDRMask_cidr_bytes [of "int (8 * L)" "int (8 * L - j)"] b(1) by auto
  ultimately have s: "subnet n i = Some (Inr ?m)"
    using b(6) j assms(3) k b(4) toIP_256 [OF lt] by (simp add: subnet_def setNetIndexInIP_def)
  have v: "bytes_val (IP ?m) = ?a + i * 2 ^ j" using lt by (simp add: bytes_val_be_bytes)
  have dv: "2 ^ j dvd bytes_val (IP ?m)" unfolding v using d by (simp add: dvd_add power_Suc dvd_mult_right)
  have iv: "ip_val (IP ?m) = ip_val (IP n) + i * 2 ^ j"
    using v b(1,2) ip_val_4 [of "IP n"] ip_val_16 [of "IP n"] ip_val_4 [of "IP ?m"] ip_val_16 [of "IP ?m"] by auto
  note bn = block_net [OF _ b(1) j(1) dv, of ?m]
  have ns: "net_set ?m = {ip_val (IP n) + i * 2 ^ j..<ip_val (IP n) + i * 2 ^ j + 2 ^ j}" using bn(4) iv by simp
  have sub: "net_set ?m \<subseteq> net_set n" unfolding ns b(7) k using i by auto
  have "good_net ?m"
  proof (rule good_block_net [OF _ b(1) j(1) dv])
    show "{ip_val (IP ?m)..<ip_val (IP ?m) + 2 ^ j} \<inter> v4_block = {}" if "L = IPv6len"
      using good_v6_disjoint [OF assms(1)] that b(2) sub bn(4) by auto
  qed simp_all
  then show ?thesis using s bn(3) ns b(2) by auto
qed

lemma subnet_halves:
  assumes "good_net n" "host_bits n = Suc j"
  obtains m0 m1 where "subnet n 0 = Some (Inr m0)" "subnet n 1 = Some (Inr m1)" "good_net m0" "good_net m1"
    "host_bits m0 = j" "host_bits m1 = j" "length (IP m0) = length (IP n)" "length (IP m1) = length (IP n)"
    "net_set m0 \<inter> net_set m1 = {}" "net_set m0 \<union> net_set m1 = net_set n"
proof -
  obtain m0 where m0: "subnet n 0 = Some (Inr m0)" "good_net m0" "host_bits m0 = j" "length (IP m0) = length (IP n)"
    "net_set m0 = {ip_val (IP n)..<ip_val (IP n) + 2 ^ j}"
    using subnet_half [OF assms, of 0] by auto
  obtain m1 where m1: "subnet n 1 = Some (Inr m1)" "good_net m1" "host_bits m1 = j" "length (IP m1) = length (IP n)"
    "net_set m1 = {ip_val (IP n) + 2 ^ j..<ip_val (IP n) + 2 ^ j + 2 ^ j}"
    using subnet_half [OF assms, of 1] by auto
  have n: "net_set n = {ip_val (IP n)..<ip_val (IP n) + 2 ^ Suc j}"
    using assms by (auto elim: good_netE)
  show ?thesis
    by (rule that [OF m0(1) m1(1) m0(2) m1(2) m0(3) m1(3) m0(4) m1(4)]) (auto simp: m0(5) m1(5) n)
qed

lemma subnet_full: "good_net n \<Longrightarrow> host_bits n = 0 \<Longrightarrow> subnet n i = Some (Inl (Err ''insufficient address space''))"
  by (erule good_netE) (simp add: subnet_def)

lemma prefix_len_host_bits: "good_net n \<Longrightarrow> prefix_len n + host_bits n = 8 * length (IP n)"
  by (erule good_netE) (simp add: host_bits_def)

section \<open>The loops\<close>

lemma splitLoop_spec:
  assumes "good_net n" "prefix_len n \<le> len" "len \<le> 8 * length (IP n)"
  shows "\<exists>m parts. splitLoop len n rp = Some (Inr (m, rp @ map IPNet_String parts)) \<and> good_net m \<and>
    list_all good_net parts \<and> prefix_len m = len \<and> (\<forall>x. cover (m # parts) x = cover [n] x)"
  using assms
proof (induction "host_bits n" arbitrary: n rp)
  case 0
  then have "prefix_len n = len" using prefix_len_host_bits [of n] by simp
  then have "splitLoop len n rp = Some (Inr (n, rp @ map IPNet_String []))"
    by (subst splitLoop.simps) (simp add: prefix_len_def)
  with 0 \<open>prefix_len n = len\<close> show ?case by (intro exI [of _ n] exI [of _ "[]"]) simp
next
  case (Suc j)
  show ?case
  proof (cases "prefix_len n = len")
    case True
    then have "splitLoop len n rp = Some (Inr (n, rp @ map IPNet_String []))"
      by (subst splitLoop.simps) (simp add: prefix_len_def)
    with Suc.prems True show ?thesis by (intro exI [of _ n] exI [of _ "[]"]) simp
  next
    case False
    obtain m0 m1 where h: "subnet n 0 = Some (Inr m0)" "subnet n 1 = Some (Inr m1)" "good_net m0" "good_net m1"
      "host_bits m0 = j" "length (IP m0) = length (IP n)" "net_set m0 \<inter> net_set m1 = {}" "net_set m0 \<union> net_set m1 = net_set n"
      by (rule subnet_halves [OF Suc.prems(1) Suc.hyps(2) [symmetric]]) (rule that)
    have "prefix_len m0 \<le> len"
      using prefix_len_host_bits [OF h(3)] prefix_len_host_bits [OF Suc.prems(1)] h(5,6) Suc.hyps(2) Suc.prems(2) False by simp
    then obtain m parts where ih: "splitLoop len m0 (rp @ [IPNet_String m1]) = Some (Inr (m, (rp @ [IPNet_String m1]) @ map IPNet_String parts))"
      "good_net m" "list_all good_net parts" "prefix_len m = len" "\<forall>x. cover (m # parts) x = cover [m0] x"
      using Suc.hyps(1) [OF h(5) [symmetric] h(3)] Suc.prems(3) h(6) by metis
    have "splitLoop len n rp = splitLoop len m0 (rp @ [IPNet_String m1])"
      using False h(1,2) by (subst splitLoop.simps) (simp add: prefix_len_def)
    moreover have "cover (m # m1 # parts) x = cover [n] x" for x
    proof -
      have "cover (m # m1 # parts) x = cover (m # parts) x + cover [m1] x" by simp
      also have "\<dots> = cover [m0] x + cover [m1] x" using ih(5) by (simp only:)
      also have "\<dots> = cover [n] x" using h(7,8) by auto
      finally show ?thesis .
    qed
    ultimately show ?thesis using ih(1-4) h(4) by (intro exI [of _ m] exI [of _ "m1 # parts"]) simp
  qed
qed

lemma splitLoop_full:
  assumes "good_net n" "8 * length (IP n) < len"
  shows "splitLoop len n rp = Some (Inl (Err ''insufficient address space''))"
  using assms
proof (induction "host_bits n" arbitrary: n rp)
  case 0
  then show ?case using prefix_len_host_bits [of n] subnet_full [of n]
    by (subst splitLoop.simps) (simp add: prefix_len_def)
next
  case (Suc j)
  obtain m0 m1 where h: "subnet n 0 = Some (Inr m0)" "subnet n 1 = Some (Inr m1)" "good_net m0"
    "host_bits m0 = j" "length (IP m0) = length (IP n)"
    by (rule subnet_halves [OF Suc.prems(1) Suc.hyps(2) [symmetric]]) (rule that)
  have "prefix_len n \<noteq> len" using prefix_len_host_bits [OF Suc.prems(1)] Suc.prems(2) by simp
  then have "splitLoop len n rp = splitLoop len m0 (rp @ [IPNet_String m1])"
    using h(1,2) by (subst splitLoop.simps) (simp add: prefix_len_def)
  then show ?case using Suc.hyps(1) [OF h(4) [symmetric] h(3)] Suc.prems(2) h(5) by simp
qed

lemma good_nets_subset:
  assumes "good_net m" "good_net n" "net_set m \<subseteq> net_set n"
  shows "length (IP m) = length (IP n)" "host_bits m \<le> host_bits n"
proof -
  show "length (IP m) = length (IP n)"
    using good_nets_family [OF assms(1,2)] good_net_start [OF assms(1)] assms(3) by blast
  have "card (net_set m) = 2 ^ host_bits m" "card (net_set n) = 2 ^ host_bits n" "finite (net_set n)"
    using assms(1,2) by (auto elim!: good_netE)
  then have "(2 :: nat) ^ host_bits m \<le> 2 ^ host_bits n" using card_mono [OF _ assms(3)] by simp
  then show "host_bits m \<le> host_bits n" by simp
qed

text \<open>A network that is larger than a half has the whole.\<close>

lemma beyond_half:
  assumes "good_net m" "good_net n" "good_net b" "net_set m \<subseteq> net_set n" "host_bits n = Suc (host_bits m)"
    "net_set m \<subset> net_set b"
  shows "net_set n \<subseteq> net_set b"
proof -
  have ne: "net_set m \<noteq> {}" using good_net_start [OF assms(1)] by blast
  have "host_bits m \<noteq> host_bits b"
    using good_nets_nested [OF assms(3,1)] ne assms(6) by (metis Int_absorb1 inf_commute order.strict_implies_order order_refl psubset_eq subset_antisym)
  moreover have "host_bits m \<le> host_bits b" using good_nets_subset(2) [OF assms(1,3)] assms(6) by blast
  ultimately have "host_bits n \<le> host_bits b" using assms(5) by simp
  then show ?thesis using good_nets_nested [OF assms(2,3)] ne assms(4,6) by blast
qed

text \<open>
  The parts that \<^verbatim>\<open>extractSubnet\<close> leaves: the addresses of the wider network outside the smaller one. A network
  that holds such a part and more has the smaller network too: no part can be joined with what is left.
\<close>

lemma extractLoop_spec:
  assumes "good_net n" "good_net sm" "net_set sm \<subseteq> net_set n"
  shows "\<exists>ls rs. extractLoop (prefix_len sm) sm n lp rp = Some (Inr (lp @ map IPNet_String ls @ rp @ map IPNet_String rs)) \<and>
    list_all good_net (ls @ rs) \<and> (\<forall>x. cover (sm # ls @ rs) x = cover [n] x) \<and>
    (\<forall>m\<in>set (ls @ rs). \<forall>b. good_net b \<longrightarrow> net_set m \<subset> net_set b \<longrightarrow> net_set sm \<subseteq> net_set b)"
    (is "\<exists>ls rs. ?P n lp rp ls rs")
  using assms
proof (induction "host_bits n" arbitrary: n lp rp rule: less_induct)
  case less
  note n = \<open>good_net n\<close> and sm = \<open>good_net sm\<close> and sub = good_nets_subset [OF less.prems(2,1,3)]
  show ?case
  proof (cases "prefix_len n = prefix_len sm")
    case True
    then have "host_bits n \<le> host_bits sm" using sub(1) by (simp add: host_bits_def)
    then have "net_set n = net_set sm" using good_nets_nested [OF n sm] good_net_start [OF sm] less.prems(3) by blast
    moreover have "extractLoop (prefix_len sm) sm n lp rp = Some (Inr (lp @ rp))"
      using True by (subst extractLoop.simps) (simp add: prefix_len_def)
    ultimately show ?thesis by (intro exI [of _ "[]"]) simp
  next
    case False
    then have lt: "host_bits sm < host_bits n"
      using host_bits_le_iff [OF n sm sub(1) [symmetric]] host_bits_le_iff [OF sm n sub(1)] sub(2) by linarith
    then obtain j where j: "host_bits n = Suc j" by (cases "host_bits n") auto
    obtain m0 m1 where h: "subnet n 0 = Some (Inr m0)" "subnet n 1 = Some (Inr m1)" "good_net m0" "good_net m1"
      "host_bits m0 = j" "host_bits m1 = j" "net_set m0 \<inter> net_set m1 = {}" "net_set m0 \<union> net_set m1 = net_set n"
      by (rule subnet_halves [OF n j]) (rule that)
    have c: "IPNet_Contains m (IP sm) \<longleftrightarrow> ip_val (IP sm) \<in> net_set m" if "good_net m" for m
      by (rule IPNet_Contains_iff [OF that good_net_valid [OF sm]])
    have part: "\<forall>b. good_net b \<longrightarrow> net_set m \<subset> net_set b \<longrightarrow> net_set sm \<subseteq> net_set b"
      if "good_net m" "host_bits m = j" "net_set m \<subseteq> net_set n" for m
      using beyond_half [OF that(1) n _ that(3)] that(2) j less.prems(3) by auto
    have inside: "net_set sm \<subseteq> net_set m" if "ip_val (IP sm) \<in> net_set m" "good_net m" "host_bits m = j" for m
      using good_nets_nested [OF sm that(2)] good_net_start [OF sm] that lt j by auto
    show ?thesis
    proof (cases "ip_val (IP sm) \<in> net_set m0")
      case True
      have "extractLoop (prefix_len sm) sm n lp rp = extractLoop (prefix_len sm) sm m0 lp (rp @ [IPNet_String m1])"
        using False True h(1-3) c by (subst extractLoop.simps) (simp add: prefix_len_def)
      moreover obtain ls rs where ih: "?P m0 lp (rp @ [IPNet_String m1]) ls rs"
        using less.hyps [OF _ h(3) sm inside [OF True h(3,5)], of lp "rp @ [IPNet_String m1]"] h(5) j
        by (elim meta_impE exE) (simp, rule that)
      moreover have "cover (sm # ls @ m1 # rs) x = cover [n] x" for x
      proof -
        have "cover (sm # ls @ m1 # rs) x = cover (sm # ls @ rs) x + cover [m1] x" by simp
        also have "\<dots> = cover [m0] x + cover [m1] x" using ih by (simp only:)
        finally show ?thesis using h(7,8) by auto
      qed
      ultimately show ?thesis using part [OF h(4,6)] h(4,8) by (intro exI [of _ ls] exI [of _ "m1 # rs"]) auto
    next
      case out: False
      then have m1: "ip_val (IP sm) \<in> net_set m1" using good_net_start [OF sm] less.prems(3) h(8) by blast
      have "extractLoop (prefix_len sm) sm n lp rp = extractLoop (prefix_len sm) sm m1 (lp @ [IPNet_String m0]) rp"
        using False out m1 h(1-4) c by (subst extractLoop.simps) (simp add: prefix_len_def)
      moreover obtain ls rs where ih: "?P m1 (lp @ [IPNet_String m0]) rp ls rs"
        using less.hyps [OF _ h(4) sm inside [OF m1 h(4,6)], of "lp @ [IPNet_String m0]" rp] h(6) j
        by (elim meta_impE exE) (simp, rule that)
      moreover have "cover (sm # (m0 # ls) @ rs) x = cover [n] x" for x
      proof -
        have "cover (sm # (m0 # ls) @ rs) x = cover (sm # ls @ rs) x + cover [m0] x" by simp
        also have "\<dots> = cover [m1] x + cover [m0] x" using ih by (simp only:)
        finally show ?thesis using h(7,8) by auto
      qed
      ultimately show ?thesis using part [OF h(3,5)] h(3,8) by (intro exI [of _ "m0 # ls"] exI [of _ rs]) auto
    qed
  qed
qed

end
