(* ===== verification/Prefix_Pool_Extract.thy ===== *)
theory Prefix_Pool_Extract
  imports Prefix_Pool_Props
begin

text \<open>
  Taking prefixes out of the pool and excluding prefixes from it: every call that succeeds cuts the
  addresses of the pool into what it returns and what remains.
\<close>

section \<open>Extraction\<close>

definition text_len :: "string \<Rightarrow> nat" where
  "text_len p = (case parsed_net p of None \<Rightarrow> 0 | Some n \<Rightarrow> prefix_len n)"

lemma good_textE:
  assumes "good_text p"
  obtains n where "parsed_net p = Some n" "good_net n" "text_set p = net_set n" "text_len p = prefix_len n"
  using assms by (auto simp: good_text_def text_set_def text_len_def)

lemma text_len_String [simp]: "good_net n \<Longrightarrow> text_len (IPNet_String n) = prefix_len n"
  by (simp add: text_len_def good_net_parse)

lemma scanPrefixes_spec:
  assumes "list_all good_text (pre @ ps)"
    "\<And>i. mi = Some i \<Longrightarrow> i < length pre \<and> text_len (pre ! i) < len"
  shows "case scanPrefixes len (length pre) ps mp mi of
      FoundAt i \<Rightarrow> i < length (pre @ ps) \<and> text_len ((pre @ ps) ! i) = len
    | SplitAt i \<Rightarrow> i < length (pre @ ps) \<and> text_len ((pre @ ps) ! i) < len
    | NoRoom \<Rightarrow> mi = None \<and> (mp = 0 \<longrightarrow> list_all (\<lambda>p. len < text_len p) ps)"
  using assms
proof (induction ps arbitrary: pre mp mi)
  case Nil
  then show ?case by (auto split: option.splits simp: nth_append)
next
  case (Cons p ps)
  have "good_text p" using Cons.prems(1) by simp
  then obtain n where n: "parsed_net p = Some n" "text_len p = prefix_len n" by (rule good_textE)
  have l: "prefix_len n = fst (Mask_Size (Mask n))" by (simp add: prefix_len_def)
  show ?case
  proof (cases "text_len p = len")
    case True
    then show ?thesis using n l by (auto simp: case_prod_beta nth_append)
  next
    case False
    show ?thesis
    proof (cases "text_len p < len \<and> (text_len p > mp \<or> mp = 0)")
      case True
      then have "scanPrefixes len (length pre) (p # ps) mp mi =
          scanPrefixes len (length (pre @ [p])) ps (text_len p) (Some (length pre))"
        using n l False by (simp add: case_prod_beta)
      then show ?thesis using Cons.IH [of "pre @ [p]" "Some (length pre)" "text_len p"] Cons.prems(1) True
        by (auto simp: nth_append split: scan.splits)
    next
      case no: False
      then have "scanPrefixes len (length pre) (p # ps) mp mi = scanPrefixes len (length (pre @ [p])) ps mp mi"
        using n l False by (auto simp: case_prod_beta)
      moreover have "mp = 0 \<Longrightarrow> len < text_len p" using no False by auto
      moreover have "mi = Some i \<Longrightarrow> i < length (pre @ [p]) \<and> text_len ((pre @ [p]) ! i) < len" for i
        using Cons.prems(2) [of i] by (simp add: nth_append)
      ultimately show ?thesis using Cons.IH [of "pre @ [p]" mi mp] Cons.prems(1)
        by (auto split: scan.splits)
    qed
  qed
qed

lemma pool_cover_nth:
  assumes "i < length ps"
  shows "pool_cover (ps ! i # take i ps @ drop (Suc i) ps) x = pool_cover ps x"
proof -
  have "ps = take i ps @ ps ! i # drop (Suc i) ps" using assms by (rule id_take_nth_drop)
  then have "pool_cover ps x = pool_cover (take i ps @ ps ! i # drop (Suc i) ps) x" by simp
  then show ?thesis by simp
qed

text \<open>A prefix as \<^verbatim>\<open>IPNet.String\<close> writes it.\<close>

definition canon_text :: "string \<Rightarrow> bool" where
  "canon_text p \<longleftrightarrow> (\<exists>n. good_net n \<and> p = IPNet_String n)"

lemma canon_text_String [simp]: "good_net n \<Longrightarrow> canon_text (IPNet_String n)"
  by (auto simp: canon_text_def)

text \<open>
  The outcome of one extraction: a prefix of the wanted length and the rest of the pool, or an error.
  There is an error only if no prefix of the pool is as short as the wanted one, or the one to split is of
  the family with the shorter addresses.
\<close>

definition cuts :: "string list \<Rightarrow> string list \<Rightarrow> string list \<Rightarrow> bool" where
  "cuts ps result remaining \<longleftrightarrow> list_all good_text (result @ remaining) \<and>
     (\<forall>x. pool_cover (result @ remaining) x = pool_cover ps x) \<and>
     (\<forall>p\<in>set (result @ remaining). p \<in> set ps \<or> canon_text p)"

lemma cuts_trans: "cuts ps rs qs \<Longrightarrow> cuts qs rs' qs' \<Longrightarrow> cuts ps (rs @ rs') qs'"
  unfolding cuts_def by (auto simp: Ball_def)

lemma cuts_refl: "list_all good_text ps \<Longrightarrow> cuts ps [] ps"
  by (simp add: cuts_def)

lemma extractPrefix_spec:
  assumes "list_all good_text ps"
  shows "(\<exists>p rest. extractPrefix ps len = Some (Inr (p, rest)) \<and> cuts ps [p] rest \<and> text_len p = len) \<or>
    (\<exists>e. extractPrefix ps len = Some (Inl e)) \<and>
      (list_all (\<lambda>p. len < text_len p) ps \<or>
       (\<exists>p\<in>set ps. text_len p < len \<and> (\<exists>n. parsed_net p = Some n \<and> 8 * length (IP n) < len)))"
proof -
  note s = scanPrefixes_spec [where pre = "[]" and ps = ps and mi = None and mp = 0 and len = len, simplified, OF assms]
  show ?thesis
  proof (cases "scanPrefixes len 0 ps 0 None")
    case (FoundAt i)
    then have i: "i < length ps" "text_len (ps ! i) = len" using s by auto
    have "cuts ps [ps ! i] (take i ps @ drop (Suc i) ps)"
      unfolding cuts_def append.simps
    proof (intro conjI allI ballI)
      show "p \<in> set ps \<or> canon_text p" if "p \<in> set (ps ! i # take i ps @ drop (Suc i) ps)" for p
        using that i(1) by (auto dest: in_set_takeD in_set_dropD)
      show "list_all good_text (ps ! i # take i ps @ drop (Suc i) ps)"
        using assms i(1) by (auto simp: list_all_iff dest: in_set_takeD in_set_dropD)
    qed (rule pool_cover_nth [OF i(1)])
    then show ?thesis using FoundAt i(2) by (simp add: extractPrefix_def)
  next
    case NoRoom
    then show ?thesis using s by (simp add: extractPrefix_def)
  next
    case (SplitAt i)
    then have i: "i < length ps" "text_len (ps ! i) < len" using s by auto
    have "good_text (ps ! i)" using assms i(1) by (simp add: list_all_length)
    then obtain n where n: "parsed_net (ps ! i) = Some n" "good_net n" "text_set (ps ! i) = net_set n"
      "text_len (ps ! i) = prefix_len n" by (rule good_textE)
    show ?thesis
    proof (cases "len \<le> 8 * length (IP n)")
      case True
      then obtain m parts where m: "splitLoop len n [] = Some (Inr (m, map IPNet_String parts))" "good_net m"
        "list_all good_net parts" "prefix_len m = len" "\<forall>x. cover (m # parts) x = cover [n] x"
        using splitLoop_spec [OF n(2), of len "[]"] i(2) n(4) by auto
      let ?rest = "take i ps @ rev (map IPNet_String parts) @ drop (Suc i) ps"
      have e: "extractPrefix ps len = Some (Inr (IPNet_String m, ?rest))"
        using SplitAt n(1) m(1) by (simp add: extractPrefix_def)
      have "pool_cover (IPNet_String m # ?rest) x = pool_cover ps x" for x
      proof -
        have "pool_cover (IPNet_String m # ?rest) x =
            cover (m # parts) x + pool_cover (take i ps @ drop (Suc i) ps) x"
          using m(2) by (simp add: pool_cover_String [OF m(3)])
        also have "\<dots> = cover [n] x + pool_cover (take i ps @ drop (Suc i) ps) x" using m(5) by (simp only:)
        also have "\<dots> = pool_cover (ps ! i # take i ps @ drop (Suc i) ps) x" using n(3) by simp
        finally show ?thesis by (simp only: pool_cover_nth [OF i(1)])
      qed
      moreover have "list_all good_text (IPNet_String m # ?rest)"
        using assms m(2,3) by (auto simp: list_all_iff dest: in_set_takeD in_set_dropD)
      moreover have "p \<in> set ps \<or> canon_text p" if "p \<in> set (IPNet_String m # ?rest)" for p
        using that m(2,3) by (auto simp: list_all_iff dest: in_set_takeD in_set_dropD)
      ultimately have "cuts ps [IPNet_String m] ?rest" unfolding cuts_def append.simps by blast
      then show ?thesis using e m(2,4) by auto
    next
      case False
      then have "extractPrefix ps len = Some (Inl (Err ''insufficient address space''))"
        using SplitAt n(1) splitLoop_full [OF n(2)] by (simp add: extractPrefix_def)
      then show ?thesis using False n i by (metis not_le nth_mem)
    qed
  qed
qed

lemma cuts_good: "cuts ps rs qs \<Longrightarrow> list_all good_text qs"
  by (simp add: cuts_def)

lemma extractN_spec:
  assumes "cuts ps result qs"
  shows "\<exists>done rs qs'. extractN k len qs result = Some (done, result @ rs, qs') \<and> cuts ps (result @ rs) qs' \<and>
    map text_len rs = replicate (length rs) len \<and> length rs \<le> k \<and> (done \<longrightarrow> length rs = k)"
  using assms
proof (induction k arbitrary: qs result)
  case (Suc k)
  consider (found) p rest where "extractPrefix qs len = Some (Inr (p, rest))" "cuts qs [p] rest" "text_len p = len"
    | (error) e where "extractPrefix qs len = Some (Inl e)"
    using extractPrefix_spec [OF cuts_good [OF Suc.prems], of len] by blast
  then show ?case
  proof cases
    case found
    have "cuts ps (result @ [p]) rest" by (rule cuts_trans [OF Suc.prems found(2)])
    from Suc.IH [OF this] obtain d rs qs' where ih: "extractN k len rest (result @ [p]) = Some (d, (result @ [p]) @ rs, qs')"
      "cuts ps ((result @ [p]) @ rs) qs'" "map text_len rs = replicate (length rs) len" "length rs \<le> k"
      "d \<longrightarrow> length rs = k" by blast
    then show ?thesis using found by (intro exI [of _ d] exI [of _ "p # rs"] exI [of _ qs']) simp
  next
    case error
    then show ?thesis using Suc.prems by (intro exI [of _ False] exI [of _ "[]"] exI [of _ qs]) simp
  qed
qed (intro exI [of _ True], simp)

definition required_lens :: "ExtraPrefixRequest list \<Rightarrow> nat list" where
  "required_lens qs = concat (map (\<lambda>q. replicate (RequiredNumber q) (PrefixLen q)) qs)"

lemma requiredLoop_spec:
  assumes "cuts ps result qs"
  shows "\<exists>done rs qs'. requiredLoop reqs qs result = Some (done, result @ rs, qs') \<and> cuts ps (result @ rs) qs' \<and>
    (done \<longrightarrow> map text_len rs = required_lens reqs)"
  using assms
proof (induction reqs arbitrary: qs result)
  case Nil
  then show ?case by (intro exI [of _ True]) (simp add: required_lens_def)
next
  case (Cons q reqs)
  obtain d rs qs' where n: "extractN (RequiredNumber q) (PrefixLen q) qs result = Some (d, result @ rs, qs')"
    "cuts ps (result @ rs) qs'" "map text_len rs = replicate (length rs) (PrefixLen q)" "d \<longrightarrow> length rs = RequiredNumber q"
    using extractN_spec [OF Cons.prems] by blast
  obtain d' rs' qs'' where ih: "requiredLoop reqs qs' (result @ rs) = Some (d', (result @ rs) @ rs', qs'')"
    "cuts ps ((result @ rs) @ rs') qs''" "d' \<longrightarrow> map text_len rs' = required_lens reqs"
    using Cons.IH [OF n(2)] by blast
  show ?case
  proof (cases d)
    case True
    then show ?thesis using n ih
      by (intro exI [of _ d'] exI [of _ "rs @ rs'"] exI [of _ qs'']) (simp add: required_lens_def)
  next
    case False
    then show ?thesis using n by (intro exI [of _ False] exI [of _ rs] exI [of _ qs']) simp
  qed
qed

lemma requestedLoop_spec:
  assumes "cuts ps result qs"
  shows "\<exists>rs qs'. requestedLoop reqs qs result = Some (result @ rs, qs') \<and> cuts ps (result @ rs) qs' \<and>
    set (map text_len rs) \<subseteq> PrefixLen ` set reqs \<and> length rs \<le> (\<Sum>q\<leftarrow>reqs. RequestedNumber q - RequiredNumber q)"
  using assms
proof (induction reqs arbitrary: qs result)
  case (Cons q reqs)
  obtain d rs qs' where n: "extractN (RequestedNumber q - RequiredNumber q) (PrefixLen q) qs result = Some (d, result @ rs, qs')"
    "cuts ps (result @ rs) qs'" "map text_len rs = replicate (length rs) (PrefixLen q)"
    "length rs \<le> RequestedNumber q - RequiredNumber q"
    using extractN_spec [OF Cons.prems] by blast
  obtain rs' qs'' where ih: "requestedLoop reqs qs' (result @ rs) = Some ((result @ rs) @ rs', qs'')"
    "cuts ps ((result @ rs) @ rs') qs''" "set (map text_len rs') \<subseteq> PrefixLen ` set reqs"
    "length rs' \<le> (\<Sum>q\<leftarrow>reqs. RequestedNumber q - RequiredNumber q)"
    using Cons.IH [OF n(2)] by blast
  have "set (map text_len rs) \<subseteq> {PrefixLen q}" unfolding n(3) by auto
  then show ?case using n(1,4) ih by (intro exI [of _ "rs @ rs'"] exI [of _ qs'']) auto
qed simp

lemma pp_ExtractPrefixes_spec:
  assumes "list_all good_text ps"
  shows "(\<exists>e. pp_ExtractPrefixes valid ps reqs = Some (Inl e)) \<or>
    (\<exists>result remaining. pp_ExtractPrefixes valid ps reqs = Some (Inr (result, remaining)) \<and> cuts ps result remaining \<and>
       take (length (required_lens reqs)) (map text_len result) = required_lens reqs \<and>
       set (map text_len result) \<subseteq> PrefixLen ` set reqs \<and> result \<noteq> [] \<and>
       length result \<le> length (required_lens reqs) + (\<Sum>q\<leftarrow>reqs. RequestedNumber q - RequiredNumber q))"
proof (cases "list_all valid reqs")
  case True
  obtain d rs qs where r: "requiredLoop reqs ps [] = Some (d, rs, qs)" "cuts ps rs qs" "d \<longrightarrow> map text_len rs = required_lens reqs"
    using requiredLoop_spec [OF cuts_refl [OF assms], of reqs] by auto
  obtain rs' qs' where q: "requestedLoop reqs qs rs = Some (rs @ rs', qs')" "cuts ps (rs @ rs') qs'"
    "set (map text_len rs') \<subseteq> PrefixLen ` set reqs" "length rs' \<le> (\<Sum>q\<leftarrow>reqs. RequestedNumber q - RequiredNumber q)"
    using requestedLoop_spec [OF r(2)] by blast
  have s: "set (required_lens reqs) \<subseteq> PrefixLen ` set reqs" by (auto simp: required_lens_def)
  show ?thesis
  proof (cases "d \<and> rs @ rs' \<noteq> []")
    case d: True
    then have m: "map text_len rs = required_lens reqs" using r(3) by blast
    then have "length (required_lens reqs) = length rs" by (metis length_map)
    moreover have "set (map text_len (rs @ rs')) \<subseteq> PrefixLen ` set reqs"
      using m s q(3) by (metis map_append set_append Un_least)
    moreover have "pp_ExtractPrefixes valid ps reqs = Some (Inr (rs @ rs', qs'))"
      using True d r(1) q(1) by (auto simp: pp_ExtractPrefixes_def)
    ultimately show ?thesis using d q(2,4) m by (intro disjI2 exI [of _ "rs @ rs'"] exI [of _ qs']) simp
  next
    case False
    then show ?thesis using True r(1) q(1) by (auto simp: pp_ExtractPrefixes_def)
  qed
qed (simp add: pp_ExtractPrefixes_def)

text \<open>
  Excluding prefixes from a pool of disjoint networks. The code takes an excluded prefix out of the first
  network it overlaps; that is exact for a prefix that lies inside the network it overlaps (\<open>fits\<close>), and
  the parts that are left keep this for the prefixes to come.
\<close>

definition apart :: "IPNet list \<Rightarrow> bool" where
  "apart ns \<longleftrightarrow> (\<forall>x. cover ns x \<le> 1)"

definition fits :: "IPNet \<Rightarrow> IPNet list \<Rightarrow> bool" where
  "fits b ns \<longleftrightarrow> (\<forall>n\<in>set ns. net_set b \<inter> net_set n \<noteq> {} \<longrightarrow> net_set b \<subseteq> net_set n)"

lemma cover_0_iff: "cover ns x = 0 \<longleftrightarrow> (\<forall>n\<in>set ns. x \<notin> net_set n)"
  by (induction ns) auto

lemma apart_Cons:
  assumes "apart (b # bs)"
  shows "apart bs" "x \<in> net_set b \<Longrightarrow> cover bs x = 0"
proof -
  have le: "cover (b # bs) y \<le> 1" for y using assms by (simp only: apart_def)
  have "cover bs y \<le> cover (b # bs) y" for y by simp
  then show "apart bs" using le unfolding apart_def by (meson order_trans)
  show "x \<in> net_set b \<Longrightarrow> cover bs x = 0" using le [of x] by simp
qed

lemma cover_filter_out:
  assumes "apart ns" "n \<in> set ns"
  shows "cover (filter (\<lambda>m. m \<noteq> n) ns) x + cover [n] x = cover ns x"
proof -
  have s: "cover ns x = cover (filter (\<lambda>m. m \<noteq> n) ns) x + cover (filter (\<lambda>m. m = n) ns) x"
    by (induction ns) auto
  have e: "cover (filter (\<lambda>m. m = n) ns) x = (if x \<in> net_set n then length (filter (\<lambda>m. m = n) ns) else 0)"
    by (induction ns) auto
  have "filter (\<lambda>m. m = n) ns \<noteq> []" using assms(2) by (auto simp: filter_empty_conv)
  then have "1 \<le> length (filter (\<lambda>m. m = n) ns)" by (simp add: Suc_le_eq)
  moreover have "cover ns x \<le> 1" using assms(1) by (simp add: apart_def)
  ultimately show ?thesis using s e by (simp split: if_splits)
qed

lemma filter_text:
  assumes "list_all good_net ns" "good_net n"
  shows "filter (\<lambda>p. p \<noteq> IPNet_String n) (map IPNet_String ns) = map IPNet_String (filter (\<lambda>m. m \<noteq> n) ns)"
  using assms(1) by (induction ns) (auto dest: good_net_String_inject [OF _ assms(2)])

lemma firstOverlap_find:
  assumes "good_net b" "list_all good_net ns"
  shows "firstOverlap b (map IPNet_String ns) =
    Some (map_option (\<lambda>n. (n, prefix_len b < prefix_len n)) (find (\<lambda>n. net_set b \<inter> net_set n \<noteq> {}) ns))"
  using assms(2)
proof (induction ns)
  case (Cons n ns)
  then show ?case using pp_intersect_iff [OF assms(1), of n] good_net_parse [of n]
    by (cases "pp_intersect b n") auto
qed simp

lemma extractSubnet_spec:
  assumes "good_net n" "good_net b" "net_set b \<subseteq> net_set n"
  obtains parts where "extractSubnet n b = Some (Inr (map IPNet_String parts))" "list_all good_net parts"
    "\<And>x. cover (b # parts) x = cover [n] x"
    "\<And>m c. m \<in> set parts \<Longrightarrow> good_net c \<Longrightarrow> net_set m \<subset> net_set c \<Longrightarrow> net_set b \<subseteq> net_set c"
proof -
  obtain ls rs where l: "extractLoop (prefix_len b) b n [] [] = Some (Inr ([] @ map IPNet_String ls @ [] @ map IPNet_String rs))"
    "list_all good_net (ls @ rs)" "\<forall>x. cover (b # ls @ rs) x = cover [n] x"
    "\<forall>m\<in>set (ls @ rs). \<forall>c. good_net c \<longrightarrow> net_set m \<subset> net_set c \<longrightarrow> net_set b \<subseteq> net_set c"
    using extractLoop_spec [OF assms, of "[]" "[]"] by (elim exE conjE) (rule that)
  have "extractSubnet n b = extractLoop (prefix_len b) b n [] []"
    by (simp add: extractSubnet_def prefix_len_def case_prod_beta)
  then show ?thesis using l by (intro that [of "ls @ rs"]) (simp, blast+)
qed

lemma excludeOne_spec:
  assumes e: "parsed_net e = Some b" "good_net b" and ns: "list_all good_net ns" "apart ns" and f: "fits b ns"
  obtains ns' rs where "excludeOne e (map IPNet_String ns) rem = Some (Inr (map IPNet_String ns', rem @ map IPNet_String rs))"
    "list_all good_net (ns' @ rs)"
    "\<And>x. cover ns' x = (if x \<in> net_set b then 0 else cover ns x)"
    "\<And>x. cover rs x = (if x \<in> net_set b then cover ns x else 0)"
    "\<And>c. good_net c \<Longrightarrow> net_set b \<inter> net_set c = {} \<Longrightarrow> fits c ns \<Longrightarrow> fits c ns'"
proof (cases "find (\<lambda>n. net_set b \<inter> net_set n \<noteq> {}) ns")
  case None
  then have d: "\<And>n. n \<in> set ns \<Longrightarrow> net_set b \<inter> net_set n = {}" by (auto simp: find_None_iff)
  have "excludeOne e (map IPNet_String ns) rem = Some (Inr (map IPNet_String ns, rem @ map IPNet_String []))"
    using None firstOverlap_find [OF e(2) ns(1)] e(1) by (simp add: excludeOne_def)
  moreover have "x \<in> net_set b \<Longrightarrow> cover ns x = 0" for x using d by (auto simp: cover_0_iff)
  ultimately show ?thesis using ns(1) by (intro that [of ns "[]"]) auto
next
  case (Some n)
  then have n: "n \<in> set ns" "net_set b \<inter> net_set n \<noteq> {}" by (auto simp: find_Some_iff)
  then have sub: "net_set b \<subseteq> net_set n" and gn: "good_net n" using f ns(1) by (auto simp: fits_def list_all_iff)
  have "\<not> prefix_len b < prefix_len n"
    using good_nets_subset [OF e(2) gn sub] host_bits_le_iff [OF e(2) gn] by simp
  moreover obtain parts where p: "extractSubnet n b = Some (Inr (map IPNet_String parts))" "list_all good_net parts"
    "\<And>x. cover (b # parts) x = cover [n] x"
    "\<And>m c. m \<in> set parts \<Longrightarrow> good_net c \<Longrightarrow> net_set m \<subset> net_set c \<Longrightarrow> net_set b \<subseteq> net_set c"
    by (rule extractSubnet_spec [OF gn e(2) sub]) (rule that)
  let ?ns' = "parts @ filter (\<lambda>m. m \<noteq> n) ns"
  have "ns \<noteq> []" using n(1) by auto
  ultimately have "excludeOne e (map IPNet_String ns) rem = Some (Inr (map IPNet_String ?ns', rem @ map IPNet_String [b]))"
    using Some firstOverlap_find [OF e(2) ns(1)] e(1) p(1) filter_text [OF ns(1) gn] by (simp add: excludeOne_def)
  moreover have "list_all good_net (?ns' @ [b])" using p(2) ns(1) e(2) by (auto simp: list_all_iff)
  moreover have s: "cover ?ns' x + cover [b] x = cover ns x" for x
    using p(3) [of x] cover_filter_out [OF ns(2) n(1), of x] by (simp split: if_splits)
  moreover have "cover ns x \<le> 1" for x using ns(2) by (simp add: apart_def)
  moreover have "fits c ?ns'" if c: "good_net c" "net_set b \<inter> net_set c = {}" "fits c ns" for c
    unfolding fits_def
  proof (intro ballI impI)
    fix m assume m: "m \<in> set ?ns'" and i: "net_set c \<inter> net_set m \<noteq> {}"
    show "net_set c \<subseteq> net_set m"
    proof (cases "m \<in> set parts")
      case True
      then have gm: "good_net m" using p(2) by (simp add: list_all_iff)
      have "\<not> net_set m \<subset> net_set c" using p(4) [OF True c(1)] c(2) good_net_start [OF e(2)] by blast
      then show ?thesis
        using good_nets_nested [OF c(1) gm] good_nets_nested [OF gm c(1)] i nat_le_linear [of "host_bits c" "host_bits m"] by blast
    next
      case False
      then show ?thesis using m i c(3) by (auto simp: fits_def)
    qed
  qed
  ultimately show ?thesis
  proof (intro that [of ?ns' "[b]"])
    fix x
    show "cover ?ns' x = (if x \<in> net_set b then 0 else cover ns x)"
      using s [of x] \<open>cover ns x \<le> 1\<close> by (cases "x \<in> net_set b") auto
    show "cover [b] x = (if x \<in> net_set b then cover ns x else 0)"
      using s [of x] \<open>cover ns x \<le> 1\<close> by (cases "x \<in> net_set b") auto
  qed
qed

lemma excludeAll_spec:
  assumes "map parsed_net es = map Some bs" "list_all good_net bs" "apart bs"
    "list_all good_net ns" "apart ns" "\<And>b. b \<in> set bs \<Longrightarrow> fits b ns"
  shows "\<exists>ns' rs. excludeAll es (map IPNet_String ns) rem = Some (Inr (map IPNet_String ns', rem @ map IPNet_String rs)) \<and>
    list_all good_net (ns' @ rs) \<and> (\<forall>x. cover ns' x = (if cover bs x = 0 then cover ns x else 0)) \<and>
    (\<forall>x. cover rs x = (if cover bs x = 0 then 0 else cover ns x))"
  using assms
proof (induction es arbitrary: bs ns rem)
  case Nil
  then show ?case by (intro exI [of _ ns] exI [of _ "[]"]) auto
next
  case (Cons e es)
  then obtain b bs' where bs: "bs = b # bs'" "parsed_net e = Some b" "map parsed_net es = map Some bs'" by (cases bs) auto
  have b: "good_net b" "fits b ns" using Cons.prems(2,6) unfolding bs(1) by simp_all
  obtain ns1 rs1 where o: "excludeOne e (map IPNet_String ns) rem = Some (Inr (map IPNet_String ns1, rem @ map IPNet_String rs1))"
    "list_all good_net (ns1 @ rs1)" "\<And>x. cover ns1 x = (if x \<in> net_set b then 0 else cover ns x)"
    "\<And>x. cover rs1 x = (if x \<in> net_set b then cover ns x else 0)"
    "\<And>c. good_net c \<Longrightarrow> net_set b \<inter> net_set c = {} \<Longrightarrow> fits c ns \<Longrightarrow> fits c ns1"
    by (rule excludeOne_spec [OF bs(2) b(1) Cons.prems(4,5) b(2)]) (rule that)
  note d = apart_Cons(2) [OF Cons.prems(3) [unfolded bs(1)]]
  have "fits c ns1" if "c \<in> set bs'" for c
  proof (rule o(5))
    show "good_net c" "fits c ns" using that Cons.prems(2,6) unfolding bs(1) by (auto simp: list_all_iff)
    show "net_set b \<inter> net_set c = {}" using d that by (auto simp: cover_0_iff)
  qed
  moreover have "apart bs'" by (rule apart_Cons(1) [OF Cons.prems(3) [unfolded bs(1)]])
  moreover have "apart ns1" using Cons.prems(5) o(3) by (simp add: apart_def)
  ultimately obtain ns' rs where ih: "excludeAll es (map IPNet_String ns1) (rem @ map IPNet_String rs1) =
      Some (Inr (map IPNet_String ns', (rem @ map IPNet_String rs1) @ map IPNet_String rs))" "list_all good_net (ns' @ rs)"
    "\<forall>x. cover ns' x = (if cover bs' x = 0 then cover ns1 x else 0)" "\<forall>x. cover rs x = (if cover bs' x = 0 then 0 else cover ns1 x)"
    using Cons.IH [OF bs(3), of ns1 "rem @ map IPNet_String rs1"] Cons.prems(2) o(2) unfolding bs(1) by auto
  show ?case
  proof (rule exI [of _ ns'], rule exI [of _ "rs1 @ rs"], intro conjI allI)
    show "excludeAll (e # es) (map IPNet_String ns) rem = Some (Inr (map IPNet_String ns', rem @ map IPNet_String (rs1 @ rs)))"
      using o(1) ih(1) by simp
    show "list_all good_net (ns' @ rs1 @ rs)" using o(2) ih(2) by simp
    show "cover ns' x = (if cover bs x = 0 then cover ns x else 0)" for x using ih(3) o(3) d [of x] by (simp add: bs(1))
    show "cover (rs1 @ rs) x = (if cover bs x = 0 then 0 else cover ns x)" for x using ih(4) o(3,4) d [of x] by (simp add: bs(1))
  qed
qed

end
