(* ===== verification/Prefix_Pool_Release.thy ===== *)
theory Prefix_Pool_Release
  imports Prefix_Pool_Extract "HOL-Library.Multiset"
begin

text \<open>
  Giving prefixes back: the networks of the pool and the released ones are joined, level by level, with
  their siblings. For disjoint networks this ends and keeps the addresses of the pool, in whatever
  order Go ranges over its maps.
\<close>

section \<open>Siblings\<close>

definition base_net :: "IPNet \<Rightarrow> IPNet" where
  "base_net n = \<lparr>IP = be_bytes (length (IP n)) (unset_bit (host_bits n) (bytes_val (IP n))), Mask = Mask n\<rparr>"

lemma unset_bit_mult: "unset_bit k (2 ^ k * q) = 2 ^ k * (2 * (q div 2 :: nat))"
proof (induction k)
  case 0
  then show ?case by (simp add: unset_bit_0)
next
  case (Suc k)
  have "(2 ^ Suc k * q) div 2 = 2 ^ k * q" "(2 ^ Suc k * q) mod 2 = 0" by simp_all
  with Suc show ?case by (simp add: unset_bit_Suc)
qed

lemma unset_bit_block:
  fixes a :: nat
  assumes "2 ^ k dvd a"
  shows "a = unset_bit k a \<or> a = unset_bit k a + 2 ^ k" "2 ^ Suc k dvd unset_bit k a" "unset_bit k a \<le> a"
proof -
  obtain q where q: "a = 2 ^ k * q" using assms by (rule dvdE)
  have u: "unset_bit k a = 2 ^ k * (2 * (q div 2))" unfolding q by (rule unset_bit_mult)
  show "a = unset_bit k a \<or> a = unset_bit k a + 2 ^ k"
  proof (cases "even q")
    case True
    then have "2 * (q div 2) = q" by simp
    then show ?thesis unfolding u by (simp add: q)
  next
    case False
    then have "Suc (2 * (q div 2)) = q" by simp
    then have "2 ^ k * Suc (2 * (q div 2)) = a" unfolding q by (rule arg_cong)
    then show ?thesis unfolding u by simp
  qed
  then show "unset_bit k a \<le> a" by linarith
  show "2 ^ Suc k dvd unset_bit k a" unfolding u by simp
qed

lemma base_not_v4:
  fixes a :: nat
  assumes "2 ^ k dvd a" "{a..<a + 2 ^ k} \<inter> v4_block = {}"
  shows "unset_bit k a \<notin> v4_block"
proof
  let ?u = "unset_bit k a" and ?V = "0xFFFF00000000 :: nat"
  assume u: "?u \<in> v4_block"
  have v4: "v4_block = {?V..<?V + 2 ^ 32}" by (auto simp: v4_block_def)
  have out: "a \<notin> v4_block" using assms(2) by (auto simp: disjoint_iff)
  then have a: "a = ?u + 2 ^ k" using unset_bit_block(1) [OF assms(1)] u by metis
  note d = unset_bit_block(2) [OF assms(1)]
  show False
  proof (cases "Suc k \<le> 32")
    case True
    have "{?u..<?u + 2 ^ Suc k} \<subseteq> {?V..<?V + 2 ^ 32}"
      by (rule blocks_nested [OF d _ True]) (use u v4 in auto)
    moreover have "?u \<le> a" "a < ?u + 2 ^ k + 2 ^ k" using a zero_less_power [of "2 :: nat" k] by linarith+
    then have "a \<in> {?u..<?u + 2 ^ Suc k}" by simp
    ultimately have "a \<in> v4_block" unfolding v4 by blast
    then show False using out by contradiction
  next
    case False
    then have "(2 :: nat) ^ 33 dvd 2 ^ Suc k" by (intro le_imp_power_dvd) simp
    then obtain q where "?u = 2 ^ 33 * q" using d by (meson dvd_trans dvd_def)
    then show False using u unfolding v4 by simp presburger
  qed
qed

lemma clearNetIndex_base:
  assumes "good_net n"
  shows "clearNetIndexInIP (IP n) (int (prefix_len n)) = Some (IP (base_net n))" "canonical_net (base_net n)"
    "bytes_val (IP (base_net n)) = unset_bit (host_bits n) (bytes_val (IP n))"
  using assms
proof -
  let ?u = "unset_bit (host_bits n) (bytes_val (IP n))"
  obtain L k where b: "L \<in> {IPv4len, IPv6len}" "length (IP n) = L" "k = host_bits n" "k \<le> 8 * L"
    "Mask n = cidr_bytes (8 * L - k) L" "2 ^ k dvd bytes_val (IP n)" "prefix_len n = 8 * L - k"
    "net_set n = {ip_val (IP n)..<ip_val (IP n) + 2 ^ k}"
    by (rule good_netE [OF assms]) (rule that)
  have u: "?u \<le> bytes_val (IP n)" "2 ^ k dvd ?u"
    using unset_bit_block(2,3) [OF b(6)] dvd_mult_right [of 2 "2 ^ k"] unfolding b(3) by auto
  have lt: "?u < 256 ^ L" using u(1) bytes_val_bound [of "IP n"] b(2) by simp
  show v: "bytes_val (IP (base_net n)) = ?u" using lt b(2) by (simp add: base_net_def bytes_val_be_bytes)
  have "fromIP (IP n) = (bytes_val (IP n), 8 * L)" using b(1,2) by (auto simp: fromIP_def)
  moreover have "nat (int (8 * L) - int (prefix_len n)) = host_bits n" using b(3,4,7) by simp
  ultimately show "clearNetIndexInIP (IP n) (int (prefix_len n)) = Some (IP (base_net n))"
    using toIP_256 [OF lt] b(2,7) by (simp add: clearNetIndexInIP_def base_net_def)
  have "L = IPv6len \<Longrightarrow> To4 (IP (base_net n)) = []"
  proof -
    assume L: "L = IPv6len"
    then have "{bytes_val (IP n)..<bytes_val (IP n) + 2 ^ k} \<inter> v4_block = {}"
      using good_v6_disjoint [OF assms] b(2,8) ip_val_16 [of "IP n"] by simp
    then have "?u \<notin> v4_block" using base_not_v4 [OF b(6)] b(3) by simp
    moreover have "length (IP (base_net n)) = IPv6len" using b(2) L by (simp add: base_net_def)
    ultimately show "To4 (IP (base_net n)) = []" using v4_block_iff ip_val_16 v by metis
  qed
  moreover have "map2 (AND) (IP (base_net n)) (Mask (base_net n)) = IP (base_net n)"
    using block_net(6) [OF _ b(1,4), of "IP (base_net n)" "base_net n"] u(2) v b(2,5) by (simp add: base_net_def)
  ultimately show "canonical_net (base_net n)"
    unfolding canonical_net_def using b(1,2,5)
    by (intro exI [of _ "8 * L - k"] exI [of _ L]) (auto simp: base_net_def)
qed

lemma canonical_String_inject:
  "canonical_net m \<Longrightarrow> canonical_net n \<Longrightarrow> IPNet_String m = IPNet_String n \<Longrightarrow> m = n"
  by (metis ParseCIDR_IPNet_String option.inject prod.inject)

definition parent_net :: "IPNet \<Rightarrow> IPNet" where
  "parent_net n = \<lparr>IP = IP (base_net n), Mask = CIDRMask (int (prefix_len n) - 1) (int (8 * length (IP n)))\<rparr>"

text \<open>Two networks of the same length and base are the halves of their parent.\<close>

lemma siblings:
  assumes m: "good_net m" and n: "good_net n" and l: "prefix_len m = prefix_len n"
    and d: "net_set m \<inter> net_set n = {}" and e: "IPNet_String (base_net m) = IPNet_String (base_net n)"
  shows "good_net (parent_net n)" "net_set (parent_net n) = net_set m \<union> net_set n"
    "Suc (prefix_len (parent_net n)) = prefix_len n"
proof -
  have be: "base_net m = base_net n"
    by (rule canonical_String_inject [OF clearNetIndex_base(2) [OF m] clearNetIndex_base(2) [OF n] e])
  obtain L k where b: "L \<in> {IPv4len, IPv6len}" "length (IP n) = L" "k = host_bits n" "k \<le> 8 * L"
    "Mask n = cidr_bytes (8 * L - k) L" "2 ^ k dvd bytes_val (IP n)" "prefix_len n = 8 * L - k"
    "net_set n = {ip_val (IP n)..<ip_val (IP n) + 2 ^ k}"
    by (rule good_netE [OF n]) (rule that)
  have lm: "length (IP m) = L" using arg_cong [OF be, of "\<lambda>n. length (IP n)"] b(2) by (simp add: base_net_def)
  then have hm: "host_bits m = k" using l b(2,3) by (simp add: host_bits_def)
  have sm: "net_set m = {ip_val (IP m)..<ip_val (IP m) + 2 ^ k}" "2 ^ k dvd bytes_val (IP m)"
    using hm by (auto intro: good_netE [OF m])
  let ?u = "unset_bit k (bytes_val (IP n))"
  have u: "unset_bit k (bytes_val (IP m)) = ?u"
    using clearNetIndex_base(3) [OF m] clearNetIndex_base(3) [OF n] be hm b(3) by simp
  have v: "ip_val (IP n) + bytes_val (IP m) = ip_val (IP m) + bytes_val (IP n)"
    using lm b(1,2) ip_val_4 [of "IP n"] ip_val_16 [of "IP n"] ip_val_4 [of "IP m"] ip_val_16 [of "IP m"] by auto
  have ne: "bytes_val (IP m) \<noteq> bytes_val (IP n)" using d v sm(1) b(8) by (auto simp: disjoint_iff)
  have cases: "bytes_val (IP m) = ?u \<and> bytes_val (IP n) = ?u + 2 ^ k \<or> bytes_val (IP n) = ?u \<and> bytes_val (IP m) = ?u + 2 ^ k"
    using unset_bit_block(1) [OF sm(2)] unset_bit_block(1) [OF b(6)] ne unfolding u by auto
  have k: "Suc k \<le> 8 * L"
  proof (rule ccontr)
    assume "\<not> Suc k \<le> 8 * L"
    then have "k = 8 * L" using b(4) by simp
    then have "(2 :: nat) ^ k = 256 ^ L" by (simp add: power_mult)
    then show False using cases bytes_val_bound [of "IP m"] bytes_val_bound [of "IP n"] lm b(2) by auto
  qed
  let ?bs = "IP (base_net n)"
  have bl: "length ?bs = L" "bytes_val ?bs = ?u" using b(2,3) clearNetIndex_base(3) [OF n] by (simp_all add: base_net_def)
  have "CIDRMask (int (8 * L - k) - 1) (int (8 * L)) = cidr_bytes (8 * L - Suc k) L"
    using CIDRMask_cidr_bytes [of "int (8 * L)" "int (8 * L - k) - 1"] b(1) k by (auto simp: nat_diff_distrib)
  then have pn: "parent_net n = \<lparr>IP = ?bs, Mask = cidr_bytes (8 * L - Suc k) L\<rparr>"
    using b(2,7) by (simp add: parent_net_def)
  have dv: "2 ^ Suc k dvd bytes_val ?bs" unfolding bl(2) by (rule unset_bit_block(2) [OF b(6)])
  note bn = block_net [OF bl(1) b(1) k dv pn]
  have iv: "ip_val ?bs + bytes_val (IP n) = ip_val (IP n) + ?u"
    using bl b(1,2) ip_val_4 [of "IP n"] ip_val_16 [of "IP n"] ip_val_4 [of ?bs] ip_val_16 [of ?bs] by auto
  show un: "net_set (parent_net n) = net_set m \<union> net_set n"
    unfolding bn(4) sm(1) b(8) using cases v iv by auto
  show "Suc (prefix_len (parent_net n)) = prefix_len n" using bn(2) b(7) k by simp
  show "good_net (parent_net n)"
  proof (rule good_block_net [OF bl(1) b(1) k dv pn])
    show "L = IPv6len \<Longrightarrow> {ip_val ?bs..<ip_val ?bs + 2 ^ Suc k} \<inter> v4_block = {}"
      using un bn(4) good_v6_disjoint [OF m] good_v6_disjoint [OF n] lm b(2) by blast
  qed
qed

section \<open>One level\<close>

definition level :: "int \<Rightarrow> IPNet list \<Rightarrow> bool" where
  "level k ns \<longleftrightarrow> (\<forall>n\<in>set ns. good_net n \<and> int (prefix_len n) = k)"

lemma level_simps [simp]:
  "level k []" "level k (n # ns) \<longleftrightarrow> good_net n \<and> int (prefix_len n) = k \<and> level k ns"
  "level k (ms @ ns) \<longleftrightarrow> level k ms \<and> level k ns"
  by (auto simp: level_def)

definition keyed :: "(string \<times> IPNet) list \<Rightarrow> bool" where
  "keyed base \<longleftrightarrow> distinct (map fst base) \<and> (\<forall>(s, n)\<in>set base. s = IPNet_String (base_net n))"

lemma set_update_new: "map_of base k = None \<Longrightarrow> AList.update k v base = base @ [(k, v)]"
  by (induction base) (auto split: if_splits)

lemma cover_delete:
  assumes "distinct (map fst base)" "map_of base k = Some v"
  shows "cover (map snd base) x = cover (map snd (AList.delete k base)) x + cover [v] x"
  using assms
proof (induction base)
  case (Cons p base)
  show ?case
  proof (cases "fst p = k")
    case True
    with Cons.prems(1) have "AList.delete k base = base" by (auto simp: delete_id image_iff)
    with True Cons.prems(2) show ?thesis by (cases p) simp
  next
    case False
    with Cons show ?thesis by (cases p) simp
  qed
qed simp

lemma joinLevel_spec:
  assumes "level k vs" "level k (map snd base)" "keyed base" "level (k - 1) parents"
    "\<And>x. cover (map snd base @ parents @ vs) x \<le> 1"
  shows "\<exists>base' parents' ch'. joinLevel k vs base parents ch = Some (base', parents', ch') \<and>
    level k (map snd base') \<and> level (k - 1) parents' \<and>
    (\<forall>x. cover (map snd base' @ parents') x = cover (map snd base @ parents @ vs) x)"
  using assms
proof (induction vs arbitrary: base parents ch)
  case (Cons n vs)
  have n: "good_net n" "k = int (prefix_len n)" using Cons.prems(1) by simp_all
  let ?b = "base_net n"
  have c: "clearNetIndexInIP (IP n) k = Some (IP ?b)" "\<lparr>IP = IP ?b, Mask = Mask n\<rparr> = ?b"
    using clearNetIndex_base(1) [OF n(1)] n(2) by (simp_all add: base_net_def)
  have ms: "Mask_Size (Mask n) = (prefix_len n, 8 * length (IP n))" by (rule good_netE [OF n(1)]) simp
  show ?case
  proof (cases "map_of base (IPNet_String ?b)")
    case None
    let ?base = "base @ [(IPNet_String ?b, n)]"
    have "joinLevel k (n # vs) base parents ch = joinLevel k vs ?base parents ch"
      using None c ms by (simp add: set_update_new)
    moreover have "keyed ?base" using Cons.prems(3) None by (auto simp: keyed_def map_of_eq_None_iff)
    moreover have e: "cover (map snd ?base @ parents @ vs) x = cover (map snd base @ parents @ n # vs) x" for x by simp
    ultimately show ?thesis
      using Cons.IH [of ?base parents ch] Cons.prems(1,2,4) Cons.prems(5) [folded e] n unfolding e [symmetric] by auto
  next
    case (Some m)
    let ?base = "AList.delete (IPNet_String ?b) base"
    have m: "(IPNet_String ?b, m) \<in> set base" using Some by (rule map_of_SomeD)
    then have gm: "good_net m" "int (prefix_len m) = k" "IPNet_String (base_net m) = IPNet_String ?b"
      using Cons.prems(2,3) by (auto simp: level_def keyed_def)
    have s: "cover (map snd base) x = cover (map snd ?base) x + cover [m] x" for x
      using cover_delete [OF _ Some] Cons.prems(3) by (simp add: keyed_def)
    have dis: "net_set m \<inter> net_set n = {}"
    proof (rule ccontr)
      assume "net_set m \<inter> net_set n \<noteq> {}"
      then obtain x where "x \<in> net_set m" "x \<in> net_set n" by blast
      then show False using Cons.prems(5) [of x] s [of x] by simp
    qed
    have l: "prefix_len m = prefix_len n" using gm(2) n(2) by simp
    note p = siblings [OF gm(1) n(1) l dis gm(3)]
    have "joinLevel k (n # vs) base parents ch = joinLevel k vs ?base (parents @ [parent_net n]) (Suc ch)"
      using Some c ms by (simp add: parent_net_def Let_def)
    moreover have "keyed ?base"
      using Cons.prems(3) by (auto simp: keyed_def AList.delete_eq distinct_map_filter)
    moreover have e: "cover (map snd ?base @ (parents @ [parent_net n]) @ vs) x = cover (map snd base @ parents @ n # vs) x" for x
      using s [of x] p(2) dis by auto
    moreover have "level k (map snd ?base)" using Cons.prems(2) by (auto simp: level_def AList.delete_eq)
    moreover have "level (k - 1) (parents @ [parent_net n])" using Cons.prems(4) p(1,3) n(2) by simp
    ultimately show ?thesis
      using Cons.IH [of ?base "parents @ [parent_net n]" "Suc ch"] Cons.prems(1) Cons.prems(5) [folded e] unfolding e [symmetric] by auto
  qed
qed simp

section \<open>Rounds\<close>

definition levels :: "buckets \<Rightarrow> bool" where
  "levels b \<longleftrightarrow> (\<forall>k. level k (bucket b k))"

abbreviation held :: "buckets \<Rightarrow> nat \<Rightarrow> nat" where
  "held b x \<equiv> bucket_sum (\<lambda>ns. cover ns x) b"

lemmas held_update = bucket_sum_update [where f = "\<lambda>ns. cover ns x" for x, simplified]

lemma held_ge: "cover (bucket b k) x \<le> held b x"
proof (cases "k \<in> fst ` set b")
  case True
  then show ?thesis by (auto simp: bucket_sum_def intro: member_le_sum)
qed (simp add: bucket_nil)

lemma cover_perm: "mset ms = mset ns \<Longrightarrow> cover ms x = cover ns x"
  unfolding cover_def by (metis mset_filter size_mset)

lemma joinLevels_spec:
  assumes "levels b" "levels newB" "\<And>x. held newB x + (\<Sum>k\<leftarrow>ks. cover (bucket b k) x) \<le> 1"
  shows "\<exists>newB' ch'. joinLevels ord round b ks newB ch = Some (newB', ch') \<and> levels newB' \<and>
    (\<forall>x. held newB' x = held newB x + (\<Sum>k\<leftarrow>ks. cover (bucket b k) x))"
  using assms(2,3)
proof (induction ks arbitrary: newB ch)
  case (Cons k ks)
  let ?c = "bucket newB k @ bucket b k"
  show ?case
  proof (cases "length ?c < 2")
    case True
    have "levels (AList.update k ?c newB)" using assms(1) Cons.prems(1) by (simp add: levels_def bucket_update)
    moreover have e: "held (AList.update k ?c newB) x = held newB x + cover (bucket b k) x" for x
      using held_update [of x k ?c newB] by simp
    ultimately obtain newB' ch' where ih: "joinLevels ord round b ks (AList.update k ?c newB) ch = Some (newB', ch')" "levels newB'"
      "\<forall>x. held newB' x = held newB x + cover (bucket b k) x + (\<Sum>k\<leftarrow>ks. cover (bucket b k) x)"
      using Cons.IH [of "AList.update k ?c newB" ch] Cons.prems(2) by (auto simp: e add.assoc)
    then show ?thesis using True by (intro exI [of _ newB'] exI [of _ ch']) (simp add: add.assoc)
  next
    case False
    have "cover (map snd [] @ [] @ ?c) x \<le> 1" for x using Cons.prems(2) [of x] held_ge [of newB k x] by simp
    moreover have "level k ?c" using assms(1) Cons.prems(1) by (simp add: levels_def)
    ultimately obtain base parents ch1 where j: "joinLevel k ?c [] [] ch = Some (base, parents, ch1)" "level k (map snd base)"
      "level (k - 1) parents" "\<forall>x. cover (map snd base @ parents) x = cover ?c x"
      using joinLevel_spec [of k ?c "[]" "[]" ch] by (auto simp: keyed_def)
    define left where "left = map snd (sort_key (\<lambda>(k', _). rank_base ord round k k') base)"
    define n1 where "n1 = AList.update k left newB"
    define n2 where "n2 = AList.update (k - 1) (bucket n1 (k - 1) @ parents) n1"
    have step: "joinLevels ord round b (k # ks) newB ch = joinLevels ord round b ks n2 ch1"
      using False j(1) by (simp add: left_def n1_def n2_def Let_def)
    have left: "mset left = mset (map snd base)" by (simp add: left_def)
    then have "level k left" using j(2) by (metis level_def mset_eq_setD)
    then have "levels n1" using Cons.prems(1) by (simp add: levels_def n1_def bucket_update)
    then have "levels n2" using j(3) by (simp add: levels_def n2_def bucket_update)
    moreover have e: "held n2 x = held newB x + cover (bucket b k) x" for x
      using held_update [of x k left newB] held_update [of x "k - 1" "bucket n1 (k - 1) @ parents" n1]
        cover_perm [OF left, of x] j(4) [THEN spec, of x] by (simp add: n1_def n2_def)
    ultimately obtain newB' ch' where ih: "joinLevels ord round b ks n2 ch1 = Some (newB', ch')" "levels newB'"
      "\<forall>x. held newB' x = held newB x + cover (bucket b k) x + (\<Sum>k\<leftarrow>ks. cover (bucket b k) x)"
      using Cons.IH [of n2 ch1] Cons.prems(2) by (auto simp: e add.assoc)
    then show ?thesis unfolding step by (intro exI [of _ newB'] exI [of _ ch']) (simp add: add.assoc)
  qed
qed simp

lemma bucket_Nil [simp]: "bucket [] k = []"
  by (simp add: bucket_def)

lemma bucket_sum_Nil [simp]: "bucket_sum f [] = 0"
  by (simp add: bucket_sum_def)

lemma cover_concat: "cover (concat (map f ks)) x = (\<Sum>k\<leftarrow>ks. cover (f k) x)"
  by (induction ks) simp_all

lemma joinLoop_spec:
  assumes "levels b" "\<And>x. held b x \<le> 1"
  shows "\<exists>ns. joinLoop ord round b = Some (map IPNet_String ns) \<and> list_all good_net ns \<and> (\<forall>x. cover ns x = held b x)"
  using assms
proof (induction ord round b rule: joinLoop.induct)
  case (1 ord round b)
  have "levels []" by (simp add: levels_def)
  then obtain newB ch where j: "joinLevels ord round b (bucket_keys ord round b) [] 0 = Some (newB, ch)" "levels newB"
    "\<forall>x. held newB x = held b x"
    using joinLevels_spec [OF 1(2), of "[]" "bucket_keys ord round b" ord round 0] 1(3)
      bucket_sum_keys [where b = b and ord = ord and round = round and f = "\<lambda>ns. cover ns x" for x]
    by auto
  show ?case
  proof (cases "ch = 0")
    case True
    let ?ns = "concat (map (bucket newB) (bucket_keys ord (Suc round) newB))"
    have "joinLoop ord round b = Some (map IPNet_String ?ns)"
      using j(1) True by (subst joinLoop.simps) (simp add: map_concat comp_def)
    moreover have "list_all good_net ?ns" using j(2) by (auto simp: list_all_iff levels_def level_def)
    moreover have "cover ?ns x = held b x" for x
    proof -
      have "cover ?ns x = (\<Sum>k\<leftarrow>bucket_keys ord (Suc round) newB. cover (bucket newB k) x)"
        by (rule cover_concat)
      then show ?thesis
        using j(3) bucket_sum_keys [where b = newB and ord = ord and round = "Suc round" and f = "\<lambda>ns. cover ns x"] by simp
    qed
    ultimately show ?thesis by blast
  next
    case False
    then have "joinLoop ord round b = joinLoop ord (Suc round) newB" using j(1) by (subst joinLoop.simps) simp
    then show ?thesis using 1(1) [OF j(1) _ False] j(2,3) 1(3) by simp
  qed
qed

section \<open>Releasing disjoint prefixes\<close>

text \<open>Prefixes that do not overlap are all kept.\<close>

lemma nestInner_disjoint:
  assumes "\<And>p. p \<in> set ps \<Longrightarrow> subnets p \<noteq> None" "subnets q \<noteq> None"
    "\<And>j. j < length ps \<Longrightarrow> i + j \<noteq> idx \<Longrightarrow> \<not> fst (pp_intersect (the (subnets (ps ! j))) (the (subnets q)))"
  shows "nestInner subnets idx q i ps intersected kept = Some (intersected, kept)"
  using assms(1,3)
proof (induction ps arbitrary: i)
  case (Cons p ps)
  have ih: "nestInner subnets idx q (Suc i) ps intersected kept = Some (intersected, kept)"
    using Cons.prems(1) Cons.prems(2) [of "Suc j" for j] by (intro Cons.IH) auto
  obtain a b where "subnets p = Some a" "subnets q = Some b" using Cons.prems(1) [of p] assms(2) by auto
  then show ?case using ih Cons.prems(2) [of 0] by (auto split: prod.splits)
qed simp

lemma nestOuter_disjoint:
  assumes "\<And>p. p \<in> set all \<Longrightarrow> subnets p \<noteq> None" "distinct all"
    "\<And>p q. p \<in> set all \<Longrightarrow> q \<in> set all \<Longrightarrow> p \<noteq> q \<Longrightarrow> \<not> fst (pp_intersect (the (subnets p)) (the (subnets q)))"
    "all = pre @ ps" "set kept \<inter> set ps = {}"
  shows "\<exists>kept'. nestOuter subnets all (length pre) ps kept = Some kept' \<and> mset kept' = mset kept + mset ps"
  using assms(4,5)
proof (induction ps arbitrary: pre kept)
  case (Cons q ps)
  have "nestInner subnets (length pre) q 0 all False kept = Some (False, kept)"
  proof (rule nestInner_disjoint)
    fix j assume j: "j < length all" "0 + j \<noteq> length pre"
    then have "all ! j \<noteq> q" using assms(2) Cons.prems(1)
      by (metis add_0 nth_append_length nth_eq_iff_index_eq length_append list.size(4) less_add_Suc1 add_Suc_right add.right_neutral)
    then show "\<not> fst (pp_intersect (the (subnets (all ! j))) (the (subnets q)))"
      using nth_mem [OF j(1)] Cons.prems(1) by (intro assms(3)) simp_all
  qed (use assms(1) Cons.prems(1) in auto)
  moreover have "\<exists>kept'. nestOuter subnets all (length (pre @ [q])) ps (List.insert q kept) = Some kept' \<and>
      mset kept' = mset (List.insert q kept) + mset ps"
  proof (rule Cons.IH)
    have "q \<notin> set ps" using assms(2) Cons.prems(1) by simp
    then show "set (List.insert q kept) \<inter> set ps = {}" using Cons.prems(2) by auto
  qed (simp add: Cons.prems(1))
  moreover have "q \<notin> set kept" using Cons.prems(2) by auto
  ultimately show ?case by auto
qed simp

lemma fillBuckets_spec:
  assumes "\<And>n. n \<in> set ns \<Longrightarrow> subnets (IPNet_String n) = Some n" "list_all good_net ns" "levels b"
  shows "\<exists>b'. fillBuckets subnets (map IPNet_String ns) b = Some b' \<and> levels b' \<and> (\<forall>x. held b' x = held b x + cover ns x)"
  using assms
proof (induction ns arbitrary: b)
  case (Cons n ns)
  let ?b = "AList.update (int (prefix_len n)) (bucket b (int (prefix_len n)) @ [n]) b"
  have "levels ?b" using Cons.prems(2,3) by (simp add: levels_def bucket_update)
  then obtain b' where ih: "fillBuckets subnets (map IPNet_String ns) ?b = Some b'" "levels b'"
    "\<forall>x. held b' x = held ?b x + cover ns x"
    using Cons.IH [of ?b] Cons.prems(1,2) by auto
  have "fillBuckets subnets (map IPNet_String (n # ns)) b = fillBuckets subnets (map IPNet_String ns) ?b"
    using Cons.prems(1) [of n] by (simp add: prefix_len_def case_prod_beta)
  moreover have "held ?b x = held b x + cover [n] x" for x
    using held_update [of x "int (prefix_len n)" "bucket b (int (prefix_len n)) @ [n]" b] by simp
  ultimately show ?case using ih by (intro exI [of _ b']) auto
qed simp

lemma apart_distinct:
  assumes "list_all good_net ns" "apart ns"
  shows "distinct (map IPNet_String ns)"
    "m \<in> set ns \<Longrightarrow> n \<in> set ns \<Longrightarrow> m \<noteq> n \<Longrightarrow> net_set m \<inter> net_set n = {}"
proof -
  show "distinct (map IPNet_String ns)"
    using assms
  proof (induction ns)
    case (Cons n ns)
    have "n \<notin> set ns"
      using apart_Cons(2) [OF Cons.prems(2) good_net_start, of] Cons.prems(1) good_net_start [of n]
      by (auto simp: cover_0_iff)
    then have "IPNet_String n \<notin> IPNet_String ` set ns"
      using Cons.prems(1) by (auto simp: list_all_iff dest: good_net_String_inject)
    then show ?case using Cons.IH Cons.prems(1) apart_Cons(1) [OF Cons.prems(2)] by simp
  qed simp
  assume mn: "m \<in> set ns" "n \<in> set ns" "m \<noteq> n"
  show "net_set m \<inter> net_set n = {}"
  proof (rule ccontr)
    assume "net_set m \<inter> net_set n \<noteq> {}"
    then obtain x where x: "x \<in> net_set m" "x \<in> net_set n" by blast
    have "cover (filter (\<lambda>k. k \<noteq> m) ns) x = 0"
      using cover_filter_out [OF assms(2) mn(1), of x] x(1) assms(2) [unfolded apart_def, THEN spec, of x] by simp
    then show False using mn x(2) by (auto simp: cover_0_iff)
  qed
qed

lemma releasePrefixes_spec:
  assumes "list_all good_net (ns @ rs)" "apart (ns @ rs)"
  shows "\<exists>ms. releasePrefixes ord (map IPNet_String ns) (map IPNet_String rs) = Some (Inr (map IPNet_String ms)) \<and>
    list_all good_net ms \<and> (\<forall>x. cover ms x = cover (ns @ rs) x)"
proof (cases "rs = []")
  case True
  then show ?thesis using assms(1) by (intro exI [of _ ns]) (simp add: releasePrefixes_def)
next
  case False
  let ?all = "map IPNet_String (ns @ rs)"
  define subnets where "subnets = (\<lambda>p. if p \<in> set ?all then parsed_net p else None)"
  have g: "getSubnets ?all = Inr subnets"
    using assms(1) by (auto simp: getSubnets_def subnets_def list_all_iff good_net_parse)
  have sub: "n \<in> set (ns @ rs) \<Longrightarrow> subnets (IPNet_String n) = Some n" for n
    using assms(1) good_net_parse [of n] by (auto simp: subnets_def list_all_iff)
  note d = apart_distinct [OF assms]
  have "\<exists>kept'. nestOuter subnets ?all (length ([] :: string list)) ?all [] = Some kept' \<and> mset kept' = mset [] + mset ?all"
  proof (rule nestOuter_disjoint [OF _ d(1)])
    fix p q assume pq: "p \<in> set ?all" "q \<in> set ?all" "p \<noteq> q"
    then obtain m n where mn: "m \<in> set (ns @ rs)" "p = IPNet_String m" "n \<in> set (ns @ rs)" "q = IPNet_String n"
      unfolding set_map by blast
    have gmn: "good_net m" "good_net n" using assms(1) mn unfolding list_all_iff by blast+
    show "\<not> fst (pp_intersect (the (subnets p)) (the (subnets q)))"
      using pp_intersect_iff(1) [OF gmn] d(2) [OF mn(1,3)] sub mn pq(3) by auto
  qed (use sub in auto)
  then obtain kept where k: "nestOuter subnets ?all 0 ?all [] = Some kept" "mset kept = mset ?all" by auto
  define ks where "ks = map (the \<circ> subnets) (sort_key (rank_string ord) kept)"
  have set: "set kept = IPNet_String ` set (ns @ rs)" using k(2) by (metis mset_eq_setD set_map)
  have map: "map IPNet_String ks = sort_key (rank_string ord) kept"
    unfolding ks_def map_map by (rule map_idI) (use set sub in auto)
  have "mset ks = image_mset (the \<circ> subnets) (mset ?all)" by (simp add: ks_def k(2) del: map_append)
  also have "\<dots> = mset (map (the \<circ> subnets) ?all)" by (rule mset_map [symmetric])
  also have "map (the \<circ> subnets) ?all = ns @ rs" unfolding map_map by (rule map_idI) (use sub in auto)
  finally have ks: "mset ks = mset (ns @ rs)" .
  then have sk: "set ks = set (ns @ rs)" by (rule mset_eq_setD)
  have "levels []" by (simp add: levels_def)
  then obtain b where b: "fillBuckets subnets (map IPNet_String ks) [] = Some b" "levels b" "\<forall>x. held b x = cover ks x"
    using fillBuckets_spec [of ks subnets "[]"] sub sk assms(1) by (auto simp: list_all_iff)
  have h: "held b x = cover (ns @ rs) x" for x using b(3) cover_perm [OF ks] by simp
  then have "held b x \<le> 1" for x using assms(2) by (simp only: apart_def)
  then obtain ms where m: "joinLoop ord 0 b = Some (map IPNet_String ms)" "list_all good_net ms" "\<forall>x. cover ms x = held b x"
    using joinLoop_spec [OF b(2), of ord 0] by auto
  have "removeNestedNetworks ord ?all subnets = Some (map IPNet_String ks)"
    using k(1) map by (simp add: removeNestedNetworks_def)
  then have "releasePrefixes ord (map IPNet_String ns) (map IPNet_String rs) = Some (Inr (map IPNet_String ms))"
    using False g b(1) m(1) by (simp add: releasePrefixes_def)
  then show ?thesis using m(2,3) h by auto
qed

end
