(* ===== verification/Prefix_Pool_Theorems.thy ===== *)
theory Prefix_Pool_Theorems
  imports Prefix_Pool_Release
begin

text \<open>The properties of the prefix pool.\<close>

section \<open>Pools of disjoint canonical prefixes\<close>

definition good_pool :: "string list \<Rightarrow> bool" where
  "good_pool ps \<longleftrightarrow> list_all canon_text ps \<and> (\<forall>x. pool_cover ps x \<le> 1)"

lemma canon_texts_nets:
  "list_all canon_text ps \<longleftrightarrow> (\<exists>ns. ps = map IPNet_String ns \<and> list_all good_net ns)"
proof
  show "list_all canon_text ps \<Longrightarrow> \<exists>ns. ps = map IPNet_String ns \<and> list_all good_net ns"
  proof (induction ps)
    case (Cons p ps)
    then obtain ns n where "ps = map IPNet_String ns" "list_all good_net ns" "good_net n" "p = IPNet_String n"
      by (auto simp: canon_text_def)
    then show ?case by (intro exI [of _ "n # ns"]) simp
  qed simp
qed (auto simp: list_all_iff)

lemma good_pool_nets:
  "good_pool ps \<longleftrightarrow> (\<exists>ns. ps = map IPNet_String ns \<and> list_all good_net ns \<and> apart ns)"
  unfolding good_pool_def canon_texts_nets apart_def by (metis pool_cover_String)

lemma canon_good_text: "canon_text p \<Longrightarrow> good_text p"
  by (auto simp: canon_text_def)

lemma good_pool_texts: "good_pool ps \<Longrightarrow> list_all good_text ps"
  by (auto simp: good_pool_def list_all_iff canon_good_text)

lemma cuts_good_pool:
  assumes "good_pool ps" "cuts ps result remaining"
  shows "good_pool (result @ remaining)"
proof -
  have "list_all canon_text (result @ remaining)"
    using assms unfolding good_pool_def cuts_def list_all_iff by blast
  moreover have "pool_cover (result @ remaining) x \<le> 1" for x
    using assms unfolding good_pool_def cuts_def by metis
  ultimately show ?thesis by (simp only: good_pool_def simp_thms)
qed

lemma good_pool_mset: "mset ps = mset qs \<Longrightarrow> good_pool ps \<longleftrightarrow> good_pool qs"
  unfolding good_pool_def pool_cover_def list_all_iff by (metis mset_filter size_mset set_mset_mset)

lemma pool_cover_mset: "mset ps = mset qs \<Longrightarrow> pool_cover ps x = pool_cover qs x"
  unfolding pool_cover_def by (metis mset_filter size_mset)

lemma good_pool_append: "good_pool (ps @ qs) \<Longrightarrow> good_pool ps" "good_pool (ps @ qs) \<Longrightarrow> good_pool qs"
  unfolding good_pool_def list_all_append pool_cover_simps by (meson add_leE)+

lemma release_pool:
  assumes "good_pool (ps @ rs)"
  obtains ms where "releasePrefixes ord ps rs = Some (Inr ms)" "good_pool ms" "\<And>x. pool_cover ms x = pool_cover (ps @ rs) x"
proof -
  obtain ks where ks: "ps @ rs = map IPNet_String ks" "list_all good_net ks" "apart ks"
    using assms by (auto simp: good_pool_nets)
  then obtain ns ns' where n: "ks = ns @ ns'" "ps = map IPNet_String ns" "rs = map IPNet_String ns'"
    by (auto simp: append_eq_map_conv)
  obtain ms where m: "releasePrefixes ord ps rs = Some (Inr (map IPNet_String ms))" "list_all good_net ms"
    "\<forall>x. cover ms x = cover ks x"
    using releasePrefixes_spec [of ns ns' ord] ks(2,3) unfolding n by blast
  have c: "pool_cover (map IPNet_String ms) x = pool_cover (ps @ rs) x" for x
    unfolding ks(1) pool_cover_String [OF m(2)] pool_cover_String [OF ks(2)] using m(3) by simp
  have "good_pool (map IPNet_String ms)"
    using m(2,3) ks(3) unfolding good_pool_nets apart_def by metis
  with m(1) show ?thesis using c by (rule that)
qed

section \<open>Networks for the witnesses\<close>

definition pp_net24 :: IPNet where
  "pp_net24 = \<lparr>IP = [10, 0, 0, 0], Mask = [0xff, 0xff, 0xff, 0]\<rparr>"

definition pp_net30 :: IPNet where
  "pp_net30 = \<lparr>IP = [10, 0, 0, 0], Mask = [0xff, 0xff, 0xff, 0xfc]\<rparr>"

lemma pp_nets_block:
  "pp_net24 = \<lparr>IP = [10, 0, 0, 0], Mask = cidr_bytes (8 * 4 - 8) 4\<rparr>"
  "pp_net30 = \<lparr>IP = [10, 0, 0, 0], Mask = cidr_bytes (8 * 4 - 2) 4\<rparr>"
  by (code_simp, code_simp)

lemma pp_nets_good: "good_net pp_net24" "good_net pp_net30"
  by (rule good_block_net [OF _ _ _ _ pp_nets_block(1)], simp_all)
    (rule good_block_net [OF _ _ _ _ pp_nets_block(2)], simp_all)

lemmas pp_nets_parse = pp_nets_good [THEN good_net_parse]

lemma pp_nets_size: "Mask_Size (Mask pp_net24) = (24, 32)" "Mask_Size (Mask pp_net30) = (30, 32)"
  by code_simp+

lemma pp_nets_set:
  "net_set pp_net24 = {0xFFFF0A000000..<0xFFFF0A000100}" "net_set pp_net30 = {0xFFFF0A000000..<0xFFFF0A000004}"
  using block_net(4) [OF _ _ _ _ pp_nets_block(1)] block_net(4) [OF _ _ _ _ pp_nets_block(2)]
  by (simp_all add: ip_val_4)

lemma pp_nets_pool: "good_pool [IPNet_String pp_net24]" "good_pool [IPNet_String pp_net30]"
  by (simp_all add: good_pool_def pp_nets_good)

section \<open>Overlap\<close>

lemma intersectLoop_iff:
  assumes "good_net n"
  shows "list_all good_text ps \<Longrightarrow> intersectLoop n ps = Some (\<exists>x\<in>net_set n. 0 < pool_cover ps x)"
proof (induction ps)
  case (Cons p ps)
  then have "good_text p" by simp
  then obtain m where m: "parsed_net p = Some m" "good_net m" "text_set p = net_set m" by (rule good_textE)
  show ?case
  proof (cases "net_set m \<inter> net_set n = {}")
    case True
    then have "x \<in> net_set n \<Longrightarrow> pool_cover (p # ps) x = pool_cover ps x" for x using m(3) by auto
    then show ?thesis using Cons m True pp_intersect_iff(1) [OF m(2) assms] by simp
  next
    case False
    then show ?thesis using m pp_intersect_iff(1) [OF m(2) assms] by auto
  qed
qed simp

text \<open>
  \<^verbatim>\<open>Intersect\<close> answers whether the prefix and the pool share an address; it looks at one end of the wider
  network only, which is enough for aligned blocks.
\<close>

lemma PrefixPool_Intersect_iff:
  assumes "list_all good_text ps" "good_text p"
  shows "PrefixPool_Intersect ps p = Some (Inr (\<exists>x\<in>text_set p. 0 < pool_cover ps x))"
proof -
  obtain n where "parsed_net p = Some n" "good_net n" "text_set p = net_set n" by (rule good_textE [OF assms(2)])
  then show ?thesis using intersectLoop_iff [OF _ assms(1)] by (simp add: PrefixPool_Intersect_def)
qed

section \<open>Extraction\<close>

text \<open>
  A successful extraction cuts the pool: every address is in as many of the extracted and remaining
  prefixes as it was in prefixes of the pool, so no address is lost, kept or handed out twice. The required
  prefixes come first, in the order and with the lengths of the requests.
\<close>

lemma ExtractPrefixes_cut:
  assumes "list_all good_text ps" "pp_ExtractPrefixes valid ps requests = Some (Inr (result, remaining))"
  shows "(\<forall>x. pool_cover result x + pool_cover remaining x = pool_cover ps x) \<and>
    list_all good_text (result @ remaining) \<and>
    take (length (required_lens requests)) (map text_len result) = required_lens requests \<and>
    set (map text_len result) \<subseteq> PrefixLen ` set requests \<and>
    length result \<le> length (required_lens requests) + (\<Sum>q\<leftarrow>requests. RequestedNumber q - RequiredNumber q)"
  using pp_ExtractPrefixes_spec [OF assms(1), of valid requests] assms(2) by (auto simp: cuts_def)

section \<open>The addresses of a connection\<close>

lemma bytes_val_incRev: "bytes_val (rev (incRev cs)) = (bytes_val (rev cs) + 1) mod 256 ^ length cs"
proof (induction cs)
  case (Cons b cs)
  show ?case
  proof (cases "b + 1 = 0")
    case False
    then have "unat (b + 1) = unat b + 1" using unatSuc [of b] by (simp add: add.commute)
    moreover have "bytes_val (rev cs) * 256 + unat b + 1 < 256 ^ Suc (length cs)"
      using bytes_val_bound [of "rev cs @ [b + 1]"] calculation by (simp add: bytes_val_append)
    ultimately show ?thesis using False by (simp add: bytes_val_append)
  next
    case True
    then have "b = - 1" by (simp add: eq_neg_iff_add_eq_0)
    then have "unat b = 255" by (simp add: unsigned_minus_1_eq_mask mask_eq_exp_minus_1)
    moreover have "(256 * Suc (bytes_val (rev cs))) mod (256 * 256 ^ length cs) = 256 * (Suc (bytes_val (rev cs)) mod 256 ^ length cs)"
      by (rule mod_mult_mult1)
    ultimately show ?thesis using Cons True by (simp add: bytes_val_append mult.commute [of _ 256])
  qed
qed simp

lemma length_incRev [simp]: "length (incRev cs) = length cs"
  by (induction cs) auto

lemma incrementIP_next:
  assumes "length ip = IPv6len" "bytes_val ip + 1 < 256 ^ 16" "good_net n" "incrementIP ip n = Inr ip'"
  shows "length ip' = IPv6len" "bytes_val ip' = bytes_val ip + 1" "bytes_val ip' \<in> net_set n"
proof -
  have ip': "ip' = rev (incRev (rev ip))" and c: "IPNet_Contains n ip'"
    using assms(4) by (auto simp: incrementIP_def Let_def split: if_splits)
  show l: "length ip' = IPv6len" and "bytes_val ip' = bytes_val ip + 1"
    using bytes_val_incRev [of "rev ip"] assms(1,2) by (simp_all add: ip')
  show "bytes_val ip' \<in> net_set n"
    using IPNet_Contains_iff [OF assms(3), of ip'] c l by (simp add: valid_IP_def ip_val_16)
qed

lemma two_more:
  assumes "good_net n" "2 \<le> host_bits n"
  shows "ip_val (IP n) + 4 \<le> 256 ^ 16" "ip_val (IP n) + 2 \<in> net_set n"
proof -
  obtain L k where b: "L \<in> {IPv4len, IPv6len}" "length (IP n) = L" "k = host_bits n" "k \<le> 8 * L"
    "2 ^ k dvd ip_val (IP n)" "net_set n = {ip_val (IP n)..<ip_val (IP n) + 2 ^ k}"
    by (rule good_netE [OF assms(1)]) (rule that)
  have k: "2 ^ 2 \<le> (2 :: nat) ^ k" using assms(2) b(3) by (intro power_increasing) auto
  have "(2 :: nat) ^ 2 dvd 2 ^ k" using assms(2) b(3) by (intro le_imp_power_dvd) simp
  then have d: "2 ^ 2 dvd ip_val (IP n)" using b(5) by (rule dvd_trans)
  have "length (To16 (IP n)) = 16" using b(1,2) by (auto simp: To16_def v4InV6Prefix_def)
  then have "ip_val (IP n) < 256 ^ 16" using bytes_val_bound [of "To16 (IP n)"] by (simp only: ip_val_def)
  then have "ip_val (IP n) + 2 ^ 2 \<le> 256 ^ 16" using d by (intro block_room) auto
  then show "ip_val (IP n) + 4 \<le> 256 ^ 16" by simp
  show "ip_val (IP n) + 2 \<in> net_set n" using k unfolding b(6) by simp
qed

text \<open>What a successful \<^verbatim>\<open>Extract\<close> did.\<close>

definition family_len :: "nat \<Rightarrow> nat" where
  "family_len family = (if family = 1 then 126 else 30)"

lemma pp_Extract_spec:
  assumes g: "good_pool (pp_prefixes impl)"
    and e: "pp_Extract valid c family requests impl = Some (Inr (src, dst, requested), impl')"
  obtains n where "good_net n" "prefix_len n = family_len family"
    "ip_val (IP src) = ip_val (IP n) + 1" "ip_val (IP dst) = ip_val (IP n) + 2" "ip_val (IP n) + 2 \<in> net_set n"
    "impl' = impl\<lparr>pp_prefixes := pp_prefixes impl',
       pp_connections := (pp_connections impl)(c \<mapsto> \<lparr>cr_ipNet = Some n, cr_prefixes = requested\<rparr>)\<rparr>"
    "good_pool (pp_prefixes impl' @ requested @ [IPNet_String n])"
    "\<And>x. pool_cover (pp_prefixes impl' @ requested @ [IPNet_String n]) x = pool_cover (pp_prefixes impl) x"
proof -
  let ?q = "[\<lparr>AddrFamily = Some family, PrefixLen = family_len family, RequiredNumber = 1, RequestedNumber = 1\<rparr>]"
  obtain result remaining where r: "pp_ExtractPrefixes valid (pp_prefixes impl) ?q = Some (Inr (result, remaining))"
    using e by (auto simp: pp_Extract_def family_len_def Let_def split: sum.splits bind_splits)
  then have cut: "cuts (pp_prefixes impl) result remaining" "length result = 1" "map text_len result = [family_len family]"
    using pp_ExtractPrefixes_spec [OF good_pool_texts [OF g], of valid ?q]
    by (auto simp: required_lens_def le_Suc_eq)
  note gp = cuts_good_pool [OF g cut(1)]
  obtain p where p: "result = [p]" using cut(2) by (cases result) auto
  then have "canon_text p" using gp by (simp add: good_pool_def)
  then obtain n where n: "good_net n" "p = IPNet_String n" by (auto simp: canon_text_def)
  have len: "prefix_len n = family_len family" using cut(3) n by (simp add: p)
  have pc: "ParseCIDR p = Some (To16 (IP n), n)" using n by (simp add: good_net_def ParseCIDR_IPNet_String)
  obtain src' dst' r2 where i: "incrementIP (To16 (IP n)) n = Inr src'" "incrementIP src' n = Inr dst'"
      "(if requests \<noteq> [] then pp_ExtractPrefixes valid remaining requests else Some (Inr ([], remaining))) =
         Some (Inr (requested, pp_prefixes impl'))"
      "IP src = src'" "IP dst = dst'"
      "impl' = impl\<lparr>pp_prefixes := pp_prefixes impl',
         pp_connections := (pp_connections impl)(c \<mapsto> \<lparr>cr_ipNet = Some n, cr_prefixes = requested\<rparr>)\<rparr>"
    using e r pc by (auto simp: pp_Extract_def family_len_def Let_def p split: sum.splits bind_splits)
  have c2: "cuts remaining requested (pp_prefixes impl')"
  proof (cases "requests = []")
    case True
    then show ?thesis using i(3) good_pool_texts [OF good_pool_append(2) [OF gp]] by (simp add: cuts_refl)
  next
    case False
    then show ?thesis
      using i(3) pp_ExtractPrefixes_spec [OF good_pool_texts [OF good_pool_append(2) [OF gp]], of valid requests] by auto
  qed
  have all: "cuts (pp_prefixes impl) (p # requested) (pp_prefixes impl')"
    using cuts_trans [OF cut(1) c2] by (simp add: p)
  have ms: "mset (pp_prefixes impl' @ requested @ [p]) = mset ((p # requested) @ pp_prefixes impl')" by simp
  have "good_pool (pp_prefixes impl' @ requested @ [p])"
    using cuts_good_pool [OF g all] good_pool_mset [OF ms] by blast
  moreover have "pool_cover (pp_prefixes impl' @ requested @ [p]) x = pool_cover (pp_prefixes impl) x" for x
    using all unfolding pool_cover_mset [OF ms] cuts_def by blast
  moreover have h: "2 \<le> host_bits n"
    using prefix_len_host_bits [OF n(1)] good_net_length [OF n(1)] len by (auto simp: family_len_def split: if_splits)
  note tm = two_more [OF n(1) h]
  have l: "length (To16 (IP n)) = IPv6len" "bytes_val (To16 (IP n)) = ip_val (IP n)"
    using good_net_length [OF n(1)] by (auto simp: To16_def v4InV6Prefix_def ip_val_def)
  note s = incrementIP_next [OF l(1) _ n(1) i(1)]
  have s': "length src' = IPv6len" "bytes_val src' = ip_val (IP n) + 1" using s l(2) tm(1) by auto
  have d': "length dst' = IPv6len" "bytes_val dst' = ip_val (IP n) + 2"
    using incrementIP_next [OF s'(1) _ n(1) i(2)] s'(2) tm(1) by auto
  ultimately show ?thesis
    using that [OF n(1) len _ _ tm(2) i(6)] s' d' i(4,5) n(2) by (simp add: ip_val_16)
qed

text \<open>
  A connection gets the first two addresses after the start of a prefix of its own, of length 30 or 126;
  this prefix, the requested ones and what remains in the pool are together the pool as it was, and no
  address is in two of them.
\<close>

lemma Extract_own_prefix:
  assumes "good_pool (pp_prefixes impl)"
    "pp_Extract valid c family requests impl = Some (Inr (src, dst, requested), impl')"
  shows "\<exists>n. good_net n \<and> prefix_len n = (if family = 1 then 126 else 30) \<and>
    ip_val (IP src) = ip_val (IP n) + 1 \<and> ip_val (IP dst) = ip_val (IP n) + 2 \<and>
    {ip_val (IP src), ip_val (IP dst)} \<subseteq> net_set n \<and>
    (\<forall>x. cover [n] x + pool_cover requested x + pool_cover (pp_prefixes impl') x = pool_cover (pp_prefixes impl) x \<and>
       pool_cover (pp_prefixes impl) x \<le> 1)"
proof -
  obtain n where n: "good_net n" "prefix_len n = family_len family"
    "ip_val (IP src) = ip_val (IP n) + 1" "ip_val (IP dst) = ip_val (IP n) + 2" "ip_val (IP n) + 2 \<in> net_set n"
    "\<And>x. pool_cover (pp_prefixes impl' @ requested @ [IPNet_String n]) x = pool_cover (pp_prefixes impl) x"
    by (rule pp_Extract_spec [OF assms]) (rule that)
  have "net_set n = {ip_val (IP n)..<ip_val (IP n) + 2 ^ host_bits n}" by (rule good_netE [OF n(1)]) simp
  then have "{ip_val (IP src), ip_val (IP dst)} \<subseteq> net_set n" using n(3-5) by auto
  moreover have "cover [n] x + pool_cover requested x + pool_cover (pp_prefixes impl') x = pool_cover (pp_prefixes impl) x" for x
    unfolding n(6) [of x, symmetric] using n(1) by simp
  ultimately show ?thesis using n(1-4) assms(1) by (intro exI [of _ n]) (auto simp: family_len_def good_pool_def)
qed

text \<open>
  C30. \<^verbatim>\<open>Release\<close> undoes \<^verbatim>\<open>Extract\<close>: it returns no error, forgets the connection and the pool holds exactly the
  addresses it held before, in disjoint prefixes, whatever the order of the maps it ranges over.
\<close>

theorem Extract_Release_roundtrip:
  assumes "good_pool (pp_prefixes impl)"
    "pp_Extract valid c family requests impl = Some (Inr (src, dst, requested), impl')"
  shows "\<exists>impl''. pp_Release ord c impl' = Some (None, impl'') \<and> good_pool (pp_prefixes impl'') \<and>
    (\<forall>x. pool_cover (pp_prefixes impl'') x = pool_cover (pp_prefixes impl) x) \<and>
    pp_connections impl'' = (pp_connections impl)(c := None)"
proof -
  obtain n where n: "good_net n" "impl' = impl\<lparr>pp_prefixes := pp_prefixes impl',
       pp_connections := (pp_connections impl)(c \<mapsto> \<lparr>cr_ipNet = Some n, cr_prefixes = requested\<rparr>)\<rparr>"
    "good_pool (pp_prefixes impl' @ requested @ [IPNet_String n])"
    "\<And>x. pool_cover (pp_prefixes impl' @ requested @ [IPNet_String n]) x = pool_cover (pp_prefixes impl) x"
    by (rule pp_Extract_spec [OF assms]) (rule that)
  have c: "pp_connections impl' = (pp_connections impl)(c \<mapsto> \<lparr>cr_ipNet = Some n, cr_prefixes = requested\<rparr>)"
    using arg_cong [OF n(2), of pp_connections] by simp
  have "good_pool (pp_prefixes impl' @ requested)" using good_pool_append(1) [of "pp_prefixes impl' @ requested"] n(3) by simp
  then obtain ms where m: "releasePrefixes ord (pp_prefixes impl') requested = Some (Inr ms)" "good_pool ms"
    "\<And>x. pool_cover ms x = pool_cover (pp_prefixes impl' @ requested) x" by (rule release_pool) (rule that)
  have "good_pool (ms @ [IPNet_String n])"
  proof -
    have "list_all canon_text (ms @ [IPNet_String n])" using m(2) n(1) by (simp add: good_pool_def)
    moreover have "pool_cover (ms @ [IPNet_String n]) x = pool_cover (pp_prefixes impl' @ requested @ [IPNet_String n]) x" for x
      using m(3) [of x] by simp
    ultimately show ?thesis using n(3) unfolding good_pool_def by metis
  qed
  then obtain ks where k: "releasePrefixes ord ms [IPNet_String n] = Some (Inr ks)" "good_pool ks"
    "\<And>x. pool_cover ks x = pool_cover (ms @ [IPNet_String n]) x" by (rule release_pool) (rule that)
  have "pool_cover ks x = pool_cover (pp_prefixes impl) x" for x
    unfolding k(3) n(4) [of x, symmetric] using m(3) by simp
  then show ?thesis using c m(1) k(1,2) by (simp add: pp_Release_def netString_def)
qed

section \<open>Exclusion\<close>

text \<open>The prefixes to exclude do not overlap each other and lie inside the prefixes of the pool they overlap.\<close>

definition excludable :: "string list \<Rightarrow> string list \<Rightarrow> bool" where
  "excludable es ps \<longleftrightarrow> list_all good_text es \<and> (\<forall>x. pool_cover es x \<le> 1) \<and>
     (\<forall>e\<in>set es. \<forall>p\<in>set ps. text_set e \<inter> text_set p \<noteq> {} \<longrightarrow> text_set e \<subseteq> text_set p)"

lemma good_texts_nets:
  "list_all good_text es \<Longrightarrow> \<exists>bs. map parsed_net es = map Some bs \<and> list_all good_net bs"
proof (induction es)
  case (Cons e es)
  then obtain bs b where "map parsed_net es = map Some bs" "list_all good_net bs" "parsed_net e = Some b" "good_net b"
    by (auto elim!: good_textE)
  then show ?case by (intro exI [of _ "b # bs"]) simp
qed simp

lemma pool_cover_parsed: "map parsed_net es = map Some bs \<Longrightarrow> pool_cover es x = cover bs x"
proof (induction es arbitrary: bs)
  case (Cons e es)
  then obtain b bs' where "bs = b # bs'" "parsed_net e = Some b" "map parsed_net es = map Some bs'" by (cases bs) auto
  then show ?case using Cons.IH [of bs'] by (simp add: text_set_def)
qed simp

lemma pp_ExcludePrefixes_spec:
  assumes "good_pool (pp_prefixes impl)" "excludable es (pp_prefixes impl)"
  shows "\<exists>r impl'. pp_ExcludePrefixes es impl = Some (r, impl') \<and>
    (case r of
       Inl e \<Rightarrow> impl' = impl \<and> (\<forall>x. 0 < pool_cover (pp_prefixes impl) x \<longrightarrow> 0 < pool_cover es x)
     | Inr removed \<Rightarrow> impl' = impl\<lparr>pp_prefixes := pp_prefixes impl'\<rparr> \<and> good_pool (pp_prefixes impl' @ removed) \<and>
         (\<forall>x. pool_cover (pp_prefixes impl') x = (if pool_cover es x = 0 then pool_cover (pp_prefixes impl) x else 0)) \<and>
         (\<forall>x. pool_cover removed x = (if pool_cover es x = 0 then 0 else pool_cover (pp_prefixes impl) x)))"
proof -
  obtain ns where ns: "pp_prefixes impl = map IPNet_String ns" "list_all good_net ns" "apart ns"
    using assms(1) by (auto simp: good_pool_nets)
  have "list_all good_text es" using assms(2) by (simp add: excludable_def)
  then obtain bs where bs: "map parsed_net es = map Some bs" "list_all good_net bs" using good_texts_nets by blast
  have ce: "pool_cover es x = cover bs x" for x by (rule pool_cover_parsed [OF bs(1)])
  have "apart bs" using assms(2) ce by (simp add: excludable_def apart_def)
  moreover have "fits b ns" if "b \<in> set bs" for b
  proof -
    have "Some b \<in> parsed_net ` set es" using that bs(1) by (metis image_eqI list.set_map)
    then obtain e where "e \<in> set es" "parsed_net e = Some b" by (metis imageE)
    then have e: "e \<in> set es" "text_set e = net_set b" by (simp_all add: text_set_def)
    have "n \<in> set ns \<Longrightarrow> good_net n" for n using ns(2) by (simp add: list_all_iff)
    then show ?thesis using assms(2) e unfolding excludable_def ns(1) fits_def by force
  qed
  ultimately obtain ms rs where x: "excludeAll es (map IPNet_String ns) [] = Some (Inr (map IPNet_String ms, map IPNet_String rs))"
    "list_all good_net (ms @ rs)" "\<forall>x. cover ms x = (if cover bs x = 0 then cover ns x else 0)"
    "\<forall>x. cover rs x = (if cover bs x = 0 then 0 else cover ns x)"
    using excludeAll_spec [OF bs _ ns(2,3), of "[]"] by auto
  have c: "pool_cover (map IPNet_String ms) x = cover ms x" "pool_cover (map IPNet_String rs) x = cover rs x"
    "pool_cover (pp_prefixes impl) x = cover ns x" for x
    using x(2) ns(1,2) by (simp_all add: pool_cover_String)
  show ?thesis
  proof (cases "ms = []")
    case True
    then have "0 < cover ns x \<longrightarrow> 0 < cover bs x" for x using x(3) by (auto split: if_splits)
    then show ?thesis using True x(1) ns(1) c ce by (auto simp: pp_ExcludePrefixes_def)
  next
    case False
    have "apart (ms @ rs)" using ns(3) x(3,4) by (simp add: apart_def)
    then have "good_pool (map IPNet_String ms @ map IPNet_String rs)"
      using x(2) unfolding good_pool_nets by (intro exI [of _ "ms @ rs"]) simp
    then show ?thesis using False x(1,3,4) ns(1) c ce by (simp add: pp_ExcludePrefixes_def)
  qed
qed


text \<open>
  \<^verbatim>\<open>ReleaseExcludedPrefixes\<close> of the prefixes \<^verbatim>\<open>ExcludePrefixes\<close> returned gives the pool its addresses back, in
  disjoint prefixes.
\<close>

lemma Exclude_Release_roundtrip:
  assumes "good_pool (pp_prefixes impl)" "excludable es (pp_prefixes impl)"
    "pp_ExcludePrefixes es impl = Some (Inr removed, impl')"
  shows "\<exists>impl''. ReleaseExcludedPrefixes ord removed impl' = Some (None, impl'') \<and>
    good_pool (pp_prefixes impl'') \<and> (\<forall>x. pool_cover (pp_prefixes impl'') x = pool_cover (pp_prefixes impl) x) \<and>
    pp_connections impl'' = pp_connections impl"
proof -
  have i: "impl' = impl\<lparr>pp_prefixes := pp_prefixes impl'\<rparr>" and g: "good_pool (pp_prefixes impl' @ removed)"
    and c: "\<forall>x. pool_cover (pp_prefixes impl') x = (if pool_cover es x = 0 then pool_cover (pp_prefixes impl) x else 0)"
      "\<forall>x. pool_cover removed x = (if pool_cover es x = 0 then 0 else pool_cover (pp_prefixes impl) x)"
    using pp_ExcludePrefixes_spec [OF assms(1,2)] assms(3) by auto
  obtain ms where m: "releasePrefixes ord (pp_prefixes impl') removed = Some (Inr ms)" "good_pool ms"
    "\<And>x. pool_cover ms x = pool_cover (pp_prefixes impl' @ removed) x" by (rule release_pool [OF g]) (rule that)
  have "pool_cover (sort ms) x = pool_cover (pp_prefixes impl) x" for x
    using pool_cover_mset [of "sort ms" ms] m(3) c by simp
  moreover have "good_pool (sort ms)" using good_pool_mset [of "sort ms" ms] m(2) by simp
  moreover have "pp_connections impl' = pp_connections impl" using arg_cong [OF i, of pp_connections] by simp
  ultimately show ?thesis using m(1) by (simp add: ReleaseExcludedPrefixes_def)
qed

text \<open>
  Joining ends for every order in which Go ranges over its maps: releasing disjoint prefixes never panics
  and never fails, and the result is disjoint and has exactly the addresses of both lists.
\<close>

lemma releasePrefixes_total:
  assumes "good_pool (ps @ released)"
  shows "\<exists>remaining. releasePrefixes ord ps released = Some (Inr remaining) \<and> good_pool remaining \<and>
    (\<forall>x. pool_cover remaining x = pool_cover ps x + pool_cover released x)"
  using release_pool [OF assms, of ord] by (metis pool_cover_simps(3))

section \<open>Connections without a network\<close>

text \<open>
  A connection that only has prefixes from \<^verbatim>\<open>ExtractPrefixes\<close> has no network, whose text is \<^verbatim>\<open><nil>\<close>: its
  release fails, and the record is gone while its prefixes are not back in the pool.
\<close>

lemma Release_without_network:
  assumes "good_pool (pp_prefixes impl @ prefixes)"
    "pp_connections impl c = Some \<lparr>cr_ipNet = None, cr_prefixes = prefixes\<rparr>"
  shows "pp_Release ord c impl = Some (Some (Err ''CIDR''), impl\<lparr>pp_connections := (pp_connections impl)(c := None)\<rparr>)"
proof -
  obtain ms where m: "releasePrefixes ord (pp_prefixes impl) prefixes = Some (Inr ms)"
    by (rule release_pool [OF assms(1)]) (rule that)
  have "parsed_net ''<nil>'' = None" by (simp add: parsed_net_def ParseCIDR_def)
  then have "releasePrefixes ord ms [''<nil>''] = Some (Inl (Err ''CIDR''))"
    by (simp add: releasePrefixes_def getSubnets_def)
  then show ?thesis using assms(2) m by (simp add: pp_Release_def netString_def)
qed

section \<open>Nested networks\<close>

text \<open>
  Of three networks, each inside the one before, \<^verbatim>\<open>removeNestedNetworks\<close> keeps the first two: the second comes
  back when it is compared with the third.
\<close>

lemma nested_chain_kept:
  assumes "good_net a" "good_net b" "good_net c" "net_set c \<subseteq> net_set b" "net_set b \<subseteq> net_set a"
    "prefix_len a < prefix_len b" "prefix_len b < prefix_len c"
    "subnets p = Some a" "subnets q = Some b" "subnets r = Some c" "p \<noteq> q" "q \<noteq> r" "p \<noteq> r"
  shows "nestOuter subnets [p, q, r] 0 [p, q, r] [] = Some [q, p]"
proof -
  have ne: "net_set c \<noteq> {}" using good_net_start [OF assms(3)] by blast
  have "pp_intersect a b = (True, True)" "pp_intersect b a = (True, False)" "pp_intersect a c = (True, True)"
    "pp_intersect c a = (True, False)" "pp_intersect b c = (True, True)" "pp_intersect c b = (True, False)"
    using pp_intersect_iff [OF assms(1,2)] pp_intersect_iff [OF assms(2,1)] pp_intersect_iff [OF assms(1,3)]
      pp_intersect_iff [OF assms(3,1)] pp_intersect_iff [OF assms(2,3)] pp_intersect_iff [OF assms(3,2)] ne assms(4-7)
    by (auto simp: prod_eq_iff)
  then show ?thesis using assms(8-13) by (simp add: List.insert_def)
qed

section \<open>Witnesses\<close>

definition pool30 :: prefix_pool where
  "pool30 = \<lparr>pp_prefixes = [IPNet_String pp_net30], pp_connections = Map.empty\<rparr>"

definition pool24 :: prefix_pool where
  "pool24 = \<lparr>pp_prefixes = [IPNet_String pp_net24], pp_connections = Map.empty\<rparr>"

definition fixed_order :: go_order where
  "fixed_order = \<lparr>rank_string = (\<lambda>_. 0), rank_length = (\<lambda>_ _. 0), rank_base = (\<lambda>_ _ _. 0)\<rparr>"

lemma PrefixPool_Intersect_iff_witness:
  "PrefixPool_Intersect [IPNet_String pp_net24] (IPNet_String pp_net30) = Some (Inr True)"
proof -
  have "\<exists>x\<in>net_set pp_net30. 0 < pool_cover [IPNet_String pp_net24] x"
    by (rule bexI [of _ "0xFFFF0A000000"]) (simp_all add: pp_nets_good pp_nets_set)
  then show ?thesis
    using PrefixPool_Intersect_iff [of "[IPNet_String pp_net24]" "IPNet_String pp_net30"] by (simp add: pp_nets_good)
qed

lemma ExtractPrefixes_cut_witness:
  "pp_ExtractPrefixes (\<lambda>_. True) [IPNet_String pp_net30] [\<lparr>AddrFamily = None, PrefixLen = 30, RequiredNumber = 1, RequestedNumber = 2\<rparr>] =
     Some (Inr ([IPNet_String pp_net30], [])) \<and>
   take 1 (map text_len [IPNet_String pp_net30]) = [30]"
proof -
  have e: "pp_ExtractPrefixes (\<lambda>_. True) [IPNet_String pp_net30] [\<lparr>AddrFamily = None, PrefixLen = 30, RequiredNumber = 1, RequestedNumber = 2\<rparr>] =
     Some (Inr ([IPNet_String pp_net30], []))"
    by (simp add: pp_ExtractPrefixes_def extractPrefix_def pp_nets_parse pp_nets_size numeral_eq_Suc)
  show ?thesis using ExtractPrefixes_cut [OF _ e] e by (simp add: pp_nets_good required_lens_def)
qed

lemma pool30_Extract:
  "pp_Extract (\<lambda>_. True) ''c'' 0 [] pool30 =
     Some (Inr (\<lparr>IP = v4InV6Prefix @ [10, 0, 0, 1], Mask = Mask pp_net30\<rparr>, \<lparr>IP = v4InV6Prefix @ [10, 0, 0, 2], Mask = Mask pp_net30\<rparr>, []),
       \<lparr>pp_prefixes = [], pp_connections = [''c'' \<mapsto> \<lparr>cr_ipNet = Some pp_net30, cr_prefixes = []\<rparr>]\<rparr>)"
proof -
  have p: "ParseCIDR (IPNet_String pp_net30) = Some (v4InV6Prefix @ [10, 0, 0, 0], pp_net30)"
    using ParseCIDR_IPNet_String [of pp_net30] pp_nets_good(2) by (simp add: good_net_def pp_net30_def To16_def)
  have i: "incrementIP (v4InV6Prefix @ [10, 0, 0, 0]) pp_net30 = Inr (v4InV6Prefix @ [10, 0, 0, 1])"
    "incrementIP (v4InV6Prefix @ [10, 0, 0, 1]) pp_net30 = Inr (v4InV6Prefix @ [10, 0, 0, 2])"
    by code_simp+
  show ?thesis
    by (simp add: pp_Extract_def pool30_def pp_ExtractPrefixes_def extractPrefix_def pp_nets_parse pp_nets_size p i)
qed

lemma pool30_good: "good_pool (pp_prefixes pool30)"
  by (simp add: pool30_def pp_nets_pool)

lemma Extract_own_prefix_witness:
  "\<exists>n. good_net n \<and> prefix_len n = 30 \<and> ip_val (v4InV6Prefix @ [10, 0, 0, 1]) = ip_val (IP n) + 1"
  using Extract_own_prefix [OF pool30_good pool30_Extract] by auto

lemma Extract_Release_roundtrip_witness:
  "\<exists>impl''. pp_Release fixed_order ''c''
       \<lparr>pp_prefixes = [], pp_connections = [''c'' \<mapsto> \<lparr>cr_ipNet = Some pp_net30, cr_prefixes = []\<rparr>]\<rparr> = Some (None, impl'') \<and>
     pp_connections impl'' = Map.empty"
  using Extract_Release_roundtrip [OF pool30_good pool30_Extract, of fixed_order] by (auto simp: pool30_def)

lemma pool24_excludable: "good_pool (pp_prefixes pool24)" "excludable [IPNet_String pp_net30] (pp_prefixes pool24)"
  by (auto simp: pool24_def pp_nets_pool excludable_def pp_nets_good pp_nets_set)

lemma pool24_left: "\<not> (\<forall>x. 0 < pool_cover (pp_prefixes pool24) x \<longrightarrow> 0 < pool_cover [IPNet_String pp_net30] x)"
proof -
  have "0 < pool_cover (pp_prefixes pool24) 0xFFFF0A000010" "pool_cover [IPNet_String pp_net30] 0xFFFF0A000010 = 0"
    by (simp_all add: pool24_def pp_nets_good pp_nets_set)
  then show ?thesis by (metis less_irrefl)
qed

lemma pool24_Exclude: "\<exists>removed impl'. pp_ExcludePrefixes [IPNet_String pp_net30] pool24 = Some (Inr removed, impl')"
proof -
  have l: "(\<forall>x. 0 < pool_cover (pp_prefixes pool24) x \<longrightarrow> 0 < pool_cover [IPNet_String pp_net30] x) = False"
    using pool24_left by blast
  have case_Inr: "case r of Inl e \<Rightarrow> i \<and> False | Inr removed \<Rightarrow> Q removed \<Longrightarrow> \<exists>removed. r = Inr removed"
    for r :: "nsm_error + string list" and i Q by (cases r) auto
  show ?thesis
    using pp_ExcludePrefixes_spec [OF pool24_excludable] unfolding l
    by (elim exE conjE) (drule case_Inr, elim exE, simp)
qed


lemma Exclude_Release_roundtrip_witness:
  "\<exists>removed impl' impl''. pp_ExcludePrefixes [IPNet_String pp_net30] pool24 = Some (Inr removed, impl') \<and>
     ReleaseExcludedPrefixes fixed_order removed impl' = Some (None, impl'') \<and> good_pool (pp_prefixes impl'')"
proof -
  obtain removed impl' where e: "pp_ExcludePrefixes [IPNet_String pp_net30] pool24 = Some (Inr removed, impl')"
    using pool24_Exclude by (elim exE) (rule that)
  then show ?thesis using Exclude_Release_roundtrip [OF pool24_excludable e, of fixed_order] by blast
qed

lemma releasePrefixes_total_witness:
  "\<exists>remaining. releasePrefixes fixed_order [] [IPNet_String pp_net24] = Some (Inr remaining) \<and>
     (\<forall>x. pool_cover remaining x = pool_cover [IPNet_String pp_net24] x)"
  using releasePrefixes_total [of "[]" "[IPNet_String pp_net24]" fixed_order] by (auto simp: pp_nets_pool)

lemma Release_without_network_witness:
  "pp_Release fixed_order ''c'' \<lparr>pp_prefixes = [], pp_connections = [''c'' \<mapsto> \<lparr>cr_ipNet = None, cr_prefixes = [IPNet_String pp_net24]\<rparr>]\<rparr> =
     Some (Some (Err ''CIDR''), \<lparr>pp_prefixes = [], pp_connections = Map.empty\<rparr>)"
  using Release_without_network [of "\<lparr>pp_prefixes = [], pp_connections = [''c'' \<mapsto> \<lparr>cr_ipNet = None, cr_prefixes = [IPNet_String pp_net24]\<rparr>]\<rparr>"
      "[IPNet_String pp_net24]" "''c''" fixed_order]
  by (simp add: pp_nets_pool)

end
