(* ===== verification/Vl3_Ipam.thy ===== *)
theory Vl3_Ipam
  imports P2P_Props "HOL-Library.Monad_Syntax"
begin

text \<open>
  The address manager of a virtual L3 network (\<^verbatim>\<open>src/pkg/networkservice/connectioncontext/ipcontext/vl3/ipam.go\<close>):
  one pool under a lock, the set of the prefixes that are taken, and the subscribers to be told when the
  prefix changes. Every method holds the lock, so it is one transition. \<open>None\<close> is a panic (the pool is
  nil before the first \<^verbatim>\<open>Reset\<close>).
\<close>

section \<open>State\<close>

text \<open>A subscription is a list node with the action to call.\<close>

record 'a vl3_ipam =
  self :: IPNet
  vl3_pool :: "IPPool option"
  excludedPrefixes :: "string set"
  clientMask :: nat
  subscriptions :: "(nat \<times> 'a) list"
  nextNode :: nat

definition new_IPAM :: "'a vl3_ipam" where
  "new_IPAM = \<lparr>self = \<lparr>IP = [], Mask = []\<rparr>, vl3_pool = None, excludedPrefixes = {}, clientMask = 0,
     subscriptions = [], nextNode = 0\<rparr>"

section \<open>Operations\<close>

definition Subscribe :: "'a \<Rightarrow> 'a vl3_ipam \<Rightarrow> nat \<times> 'a vl3_ipam" where
  "Subscribe action p = (nextNode p,
     p\<lparr>subscriptions := subscriptions p @ [(nextNode p, action)], nextNode := Suc (nextNode p)\<rparr>)"

text \<open>The function \<^verbatim>\<open>Subscribe\<close> returns.\<close>

definition unsubscribe :: "nat \<Rightarrow> 'a vl3_ipam \<Rightarrow> 'a vl3_ipam" where
  "unsubscribe node p = p\<lparr>subscriptions := filter (\<lambda>(n, _). n \<noteq> node) (subscriptions p)\<rparr>"

text \<open>The actions that are called, in order.\<close>

definition notify :: "'a vl3_ipam \<Rightarrow> 'a list" where
  "notify p = map snd (subscriptions p)"

definition isInitialized :: "'a vl3_ipam \<Rightarrow> bool" where
  "isInitialized p \<longleftrightarrow> vl3_pool p \<noteq> None"

definition selfAddress :: "'a vl3_ipam \<Rightarrow> IPNet" where
  "selfAddress p = \<lparr>IP = IP (self p), Mask = CIDRMask (int (clientMask p)) (int (clientMask p))\<rparr>"

definition selfPrefix :: "'a vl3_ipam \<Rightarrow> IPNet" where
  "selfPrefix p = self p"

definition globalIPNet :: "'a vl3_ipam \<Rightarrow> IPNet" where
  "globalIPNet p = \<lparr>IP = IP (self p), Mask = CIDRMask (int (clientMask p div 2)) (int (clientMask p))\<rparr>"

definition allocate :: "'a vl3_ipam \<Rightarrow> ((pool_error + IPNet) \<times> 'a vl3_ipam) option" where
  "allocate p = do {
     pool \<leftarrow> vl3_pool p;
     (r, pool) \<leftarrow> Pull pool;
     Some (case r of
       Inl e \<Rightarrow> (Inl e, p\<lparr>vl3_pool := Some pool\<rparr>)
     | Inr ip \<Rightarrow>
         let r = \<lparr>IP = ip, Mask = CIDRMask (int (clientMask p)) (int (clientMask p))\<rparr> in
         (Inr r, p\<lparr>vl3_pool := Some pool, excludedPrefixes := insert (IPNet_String r) (excludedPrefixes p)\<rparr>)) }"

definition freeIfAllocated :: "string \<Rightarrow> 'a vl3_ipam \<Rightarrow> 'a vl3_ipam option" where
  "freeIfAllocated ipNet p =
     (if ipNet \<in> excludedPrefixes p then do {
        pool \<leftarrow> vl3_pool p;
        pool \<leftarrow> AddNetString pool ipNet;
        Some (p\<lparr>excludedPrefixes := excludedPrefixes p - {ipNet}, vl3_pool := Some pool\<rparr>) }
      else Some p)"

definition isExcluded :: "string \<Rightarrow> 'a vl3_ipam \<Rightarrow> bool" where
  "isExcluded ipNet p \<longleftrightarrow> ipNet \<in> excludedPrefixes p"

fun excludeStrings :: "string list \<Rightarrow> IPPool \<Rightarrow> string set \<Rightarrow> (IPPool \<times> string set) option" where
  "excludeStrings [] pool taken = Some (pool, taken)"
| "excludeStrings (e # es) pool taken = do {
     pool \<leftarrow> ExcludeString pool e;
     excludeStrings es pool (insert e taken) }"

text \<open>The result, the subscribers that are told, and the state.\<close>

definition Reset :: "string \<Rightarrow> string list \<Rightarrow> 'a vl3_ipam \<Rightarrow> ((nsm_error + unit) \<times> 'a list \<times> 'a vl3_ipam) option" where
  "Reset prefix excludePrefixes p =
     (case ParseCIDR prefix of
        None \<Rightarrow> Some (Inl (Err ''CIDR''), [], p)
      | Some (_, ipNet) \<Rightarrow> do {
          pool \<leftarrow> NewWithNet ipNet;
          let p = p\<lparr>self := ipNet, clientMask := (if length (IP ipNet) = IPv4len then IPv4len * 8 else IPv6len * 8)\<rparr>;
          pool \<leftarrow> Exclude pool (Some (selfAddress p));
          (pool, taken) \<leftarrow> excludeStrings excludePrefixes pool {IPNet_String (selfAddress p)};
          let p = p\<lparr>vl3_pool := Some pool, excludedPrefixes := taken\<rparr>;
          Some (Inr (), notify p, p) })"

text \<open>\<^verbatim>\<open>NewIPAM\<close> panics on a prefix that does not parse.\<close>

definition NewIPAM :: "string \<Rightarrow> string list \<Rightarrow> 'a vl3_ipam option" where
  "NewIPAM prefix es =
     (case Reset prefix es new_IPAM of Some (Inr _, _, p) \<Rightarrow> Some p | _ \<Rightarrow> None)"

definition vl3_ContainsNetString :: "string \<Rightarrow> 'a vl3_ipam \<Rightarrow> bool option" where
  "vl3_ContainsNetString ipNet p = do {
     pool \<leftarrow> vl3_pool p;
     b \<leftarrow> ContainsNetString pool ipNet;
     Some (b \<or> IPNet_String (selfAddress p) = ipNet) }"

section \<open>The ledger\<close>

text \<open>The addresses a taken prefix keeps from a pool of family \<open>L\<close>.\<close>

definition held_set :: "nat \<Rightarrow> string \<Rightarrow> nat set" where
  "held_set L t = (if cidr_family t = Some L then cidr_set t else {})"

definition vl3_family :: "'a vl3_ipam \<Rightarrow> nat" where
  "vl3_family p = length (IP (self p))"

definition vl3_spare :: "'a vl3_ipam \<Rightarrow> nat set" where
  "vl3_spare p = (case vl3_pool p of None \<Rightarrow> {} | Some pool \<Rightarrow> pool_set pool)"

definition vl3_ledger :: "'a vl3_ipam \<Rightarrow> (nat, nat) ledger" where
  "vl3_ledger p = \<lparr>spare = (\<lambda>k. if k = 0 then vl3_spare p else {}),
     held = (\<lambda>t. if t \<in> excludedPrefixes p then Some (0, held_set (vl3_family p) t) else None)\<rparr>"

definition vl3_wf :: "'a vl3_ipam \<Rightarrow> bool" where
  "vl3_wf p \<longleftrightarrow> (\<exists>pool. vl3_pool p = Some pool \<and> pool_ok pool \<and> ipLength pool = vl3_family p) \<and>
     vl3_family p \<in> {IPv4len, IPv6len} \<and> clientMask p = 8 * vl3_family p \<and>
     (\<forall>t\<in>excludedPrefixes p. \<forall>x\<in>held_set (vl3_family p) t. of_family (vl3_family p) x)"

text \<open>The calls: allocation, and freeing any text whatever.\<close>

definition vl3_call :: "'a vl3_ipam \<Rightarrow> 'a vl3_ipam \<Rightarrow> bool" where
  "vl3_call p p' \<longleftrightarrow> (\<exists>r. allocate p = Some (r, p')) \<or> (\<exists>t. freeIfAllocated t p = Some p')"

lemma held_set_host_name: "host_name L t x \<Longrightarrow> held_set L t = {x}"
  by (simp add: held_set_def host_name_cidr)

lemma full_mask_eq:
  "ipLength pool = L \<Longrightarrow> \<lparr>IP = ip, Mask = CIDRMask (int (8 * L)) (int (8 * L))\<rparr> = hostNet pool ip"
  by (simp add: hostNet_def mult.commute)

text \<open>
  An allocation takes the least spare address, under a name that is in no taken prefix; it fails only
  if there is none.
\<close>

lemma allocate_spec:
  assumes "vl3_wf p"
  obtains r p' where "allocate p = Some (r, p')" "vl3_wf p'"
    "\<And>e. r = Inl e \<Longrightarrow> vl3_spare p = {} \<and> p' = p"
    "\<And>n. r = Inr n \<Longrightarrow> \<exists>x. host_name (vl3_family p) (IPNet_String n) x \<and> x \<in> vl3_spare p \<and> (\<forall>y\<in>vl3_spare p. x \<le> y) \<and>
       vl3_spare p' = vl3_spare p - {x} \<and> excludedPrefixes p' = insert (IPNet_String n) (excludedPrefixes p) \<and>
       self p' = self p \<and> subscriptions p' = subscriptions p"
proof -
  let ?L = "vl3_family p"
  obtain pool where pool: "vl3_pool p = Some pool" "pool_ok pool" "ipLength pool = ?L" and
    wf: "?L \<in> {IPv4len, IPv6len}" "clientMask p = 8 * ?L"
    "\<forall>t\<in>excludedPrefixes p. \<forall>x\<in>held_set ?L t. of_family ?L x"
    using assms unfolding vl3_wf_def by blast
  have inv: "pool_inv pool" using pool(2) by (simp add: pool_ok_def)
  obtain r pool' where pl: "Pull pool = Some (r, pool')" "pool_inv pool'" "ipLength pool' = ipLength pool"
    "case r of Inl e \<Rightarrow> e = PoolEmpty \<and> pool_set pool = {} \<and> pool' = pool
     | Inr ip \<Rightarrow> \<exists>a. ip = ipFromIPAddress a (ipLength pool) \<and> aval a \<in> pool_set pool \<and>
         (\<forall>n\<in>pool_set pool. aval a \<le> n) \<and> pool_set pool' = pool_set pool - {aval a}"
    using Pull_correct [OF inv] by (elim exE conjE) (rule that)
  show ?thesis
  proof (cases r)
    case (Inl e)
    then have "allocate p = Some (Inl e, p)" "vl3_spare p = {}"
      using pl pool(1) by (simp_all add: allocate_def vl3_spare_def)
    then show ?thesis using that [of "Inl e" p] assms by simp
  next
    case (Inr ip)
    then obtain a where a: "ip = ipFromIPAddress a ?L" "aval a \<in> pool_set pool" "\<forall>n\<in>pool_set pool. aval a \<le> n"
      "pool_set pool' = pool_set pool - {aval a}" using pl(4) pool(3) by auto
    have f: "of_family ?L (aval a)" using a(2) pool(2,3) by (simp add: pool_ok_def)
    let ?n = "hostNet pool ip"
    let ?p' = "p\<lparr>vl3_pool := Some pool', excludedPrefixes := insert (IPNet_String ?n) (excludedPrefixes p)\<rparr>"
    have h: "host_name ?L (IPNet_String ?n) (aval a)"
      using host_name_hostNet [OF pool(3), of ip] ip_of_address [OF f] f unfolding a(1) by simp
    have al: "allocate p = Some (Inr ?n, ?p')"
      using pl(1) pool(1) Inr full_mask_eq [OF pool(3)] wf(2) by (simp add: allocate_def Let_def)
    have "pool_ok pool'" using pool(2,3) pl(2,3) a(4) by (auto simp: pool_ok_def)
    then have "vl3_wf ?p'"
      using pl(3) pool(3) wf held_set_host_name [OF h] f unfolding vl3_wf_def vl3_family_def by simp
    then show ?thesis
      using that [OF al] h a pool(1) by (auto simp: vl3_spare_def)
  qed
qed

lemma freeIfAllocated_spec:
  assumes "vl3_wf p"
  obtains p' where "freeIfAllocated t p = Some p'" "vl3_wf p'" "self p' = self p" "subscriptions p' = subscriptions p"
    "excludedPrefixes p' = excludedPrefixes p - {t}"
    "vl3_spare p' = (if t \<in> excludedPrefixes p then vl3_spare p \<union> held_set (vl3_family p) t else vl3_spare p)"
proof (cases "t \<in> excludedPrefixes p")
  case False
  then show ?thesis using that [of p] assms by (simp add: freeIfAllocated_def)
next
  case True
  let ?L = "vl3_family p"
  obtain pool where pool: "vl3_pool p = Some pool" "pool_ok pool" "ipLength pool = ?L" and
    wf: "?L \<in> {IPv4len, IPv6len}" "clientMask p = 8 * ?L"
    "\<forall>t\<in>excludedPrefixes p. \<forall>x\<in>held_set ?L t. of_family ?L x"
    using assms unfolding vl3_wf_def by blast
  have "pool_inv pool" using pool(2) by (simp add: pool_ok_def)
  then obtain pool' where a: "AddNetString pool t = Some pool'" "pool_inv pool'" "ipLength pool' = ?L"
    "pool_set pool' = pool_set pool \<union> held_set ?L t"
    using AddNetString_correct [of pool t] pool(3) by (auto simp: held_set_def)
  let ?p' = "p\<lparr>excludedPrefixes := excludedPrefixes p - {t}, vl3_pool := Some pool'\<rparr>"
  have "pool_ok pool'" using a pool(2,3) wf(3) True by (auto simp: pool_ok_def)
  then have "vl3_wf ?p'" using wf a(3) unfolding vl3_wf_def vl3_family_def by auto
  moreover have "freeIfAllocated t p = Some ?p'" using True pool(1) a(1) by (simp add: freeIfAllocated_def)
  ultimately show ?thesis using that [of ?p'] True a(4) pool(1) by (simp add: vl3_spare_def)
qed

text \<open>
  The server of a virtual L3 network (\<^verbatim>\<open>ipcontext/vl3/server.go\<close>): it gives every connection an address of the
  manager's pool, remembers the network it was of, and replaces it when the prefix has changed. Also
  the element of \<^verbatim>\<open>src/pkg/ipam/strictvl3ipam\<close> in front of it. The requests of one connection come one after
  the other (\<^verbatim>\<open>begin\<close>).
\<close>

section \<open>The lists of the context\<close>

definition vl3_addRoute :: "Route list \<Rightarrow> string \<Rightarrow> string \<Rightarrow> Route list" where
  "vl3_addRoute routes pre nextHop =
     (if list_ex (\<lambda>r. Prefix r = pre) routes then routes else routes @ [\<lparr>Prefix = pre, NextHop = nextHop\<rparr>])"

definition vl3_addAddr :: "string list \<Rightarrow> string \<Rightarrow> string list" where
  "vl3_addAddr xs addr = (if list_ex (\<lambda>a. a = addr) xs then xs else xs @ [addr])"

text \<open>What is not inside the pool; a method on a nil pool panics.\<close>

fun outside :: "('e \<Rightarrow> string) \<Rightarrow> IPPool option \<Rightarrow> 'e list \<Rightarrow> 'e list option" where
  "outside text pool [] = Some []"
| "outside text pool (e # es) = do {
     tree \<leftarrow> pool;
     b \<leftarrow> ContainsNetString tree (text e);
     es \<leftarrow> outside text pool es;
     Some (if b then es else e # es) }"

definition removePreviousPrefixFromIPContext :: "IPContext \<Rightarrow> string \<Rightarrow> IPContext option" where
  "removePreviousPrefixFromIPContext ipContext prevAddress = do {
     prevIPPool \<leftarrow> NewWithNetString prevAddress;
     srcIPAddrs \<leftarrow> outside id prevIPPool (SrcIpAddrs ipContext);
     dstIPAddrs \<leftarrow> outside id prevIPPool (DstIpAddrs ipContext);
     srcRoutes \<leftarrow> outside Prefix prevIPPool (SrcRoutes ipContext);
     dstRoutes \<leftarrow> outside Prefix prevIPPool (DstRoutes ipContext);
     Some (ipContext\<lparr>SrcIpAddrs := srcIPAddrs, DstIpAddrs := dstIPAddrs, SrcRoutes := srcRoutes, DstRoutes := dstRoutes\<rparr>) }"

definition countTheSameVersionSrcIps :: "IPContext \<Rightarrow> nat \<Rightarrow> nat" where
  "countTheSameVersionSrcIps ipContext selfIPLen =
     length (filter (\<lambda>ip. case ParseCIDR ip of None \<Rightarrow> False | Some (_, ipNet) \<Rightarrow> length (IP ipNet) = selfIPLen) (SrcIpAddrs ipContext))"

section \<open>The handlers\<close>

record 'a vl3Server =
  pool :: "'a vl3_ipam"
  subnetMap :: "string \<rightharpoonup> string"

definition vl3_NewServer :: "'a vl3_ipam \<Rightarrow> 'a vl3Server" where
  "vl3_NewServer p = \<lparr>pool = p, subnetMap = Map.empty\<rparr>"

text \<open>
  The address of the connection: a new one in place of those of the previous prefix, a first one, or those
  it has. An error of the pool leaves the context alone.
\<close>

definition vl3_address ::
  "string \<Rightarrow> bool \<Rightarrow> IPContext \<Rightarrow> 'a vl3Server \<Rightarrow> ((pool_error + IPContext) \<times> 'a vl3Server) option" where
  "vl3_address i noConfigs ipContext v =
     (case subnetMap v i of
        Some prevAddress \<Rightarrow>
          if IPNet_String (globalIPNet (pool v)) \<noteq> prevAddress then do {
            (r, p) \<leftarrow> allocate (pool v);
            let v = v\<lparr>pool := p\<rparr>;
            case r of
              Inl e \<Rightarrow> Some (Inl e, v)
            | Inr srcNet \<Rightarrow> do {
                ipContext \<leftarrow> removePreviousPrefixFromIPContext ipContext prevAddress;
                Some (Inr (ipContext\<lparr>SrcIpAddrs := SrcIpAddrs ipContext @ [IPNet_String srcNet]\<rparr>),
                  v\<lparr>subnetMap := (subnetMap v)(i \<mapsto> IPNet_String (globalIPNet p))\<rparr>) } }
          else Some (Inr ipContext, v)
      | None \<Rightarrow>
          if noConfigs \<or> countTheSameVersionSrcIps ipContext (length (IP (self (pool v)))) = 0 then do {
            (r, p) \<leftarrow> allocate (pool v);
            let v = v\<lparr>pool := p\<rparr>;
            Some (case r of
              Inl e \<Rightarrow> (Inl e, v)
            | Inr srcNet \<Rightarrow>
                (Inr (ipContext\<lparr>SrcIpAddrs := SrcIpAddrs ipContext @ [IPNet_String srcNet]\<rparr>),
                 v\<lparr>subnetMap := (subnetMap v)(i \<mapsto> IPNet_String (globalIPNet p))\<rparr>)) }
          else Some (Inr ipContext, v))"

definition vl3_answer :: "'a vl3_ipam \<Rightarrow> IPContext \<Rightarrow> IPContext" where
  "vl3_answer p ipContext =
     (let hop = IP_String (IP (selfAddress p));
          src = vl3_addRoute (SrcRoutes ipContext) (IPNet_String (selfAddress p)) hop;
          src = vl3_addRoute src (IPNet_String (selfPrefix p)) hop
      in ipContext\<lparr>
        SrcRoutes := src,
        DstRoutes := foldl (\<lambda>rs srcAddr. vl3_addRoute rs srcAddr []) (DstRoutes ipContext) (SrcIpAddrs ipContext),
        DstIpAddrs := vl3_addAddr (DstIpAddrs ipContext) (IPNet_String (selfAddress p))\<rparr>)"

text \<open>The route into the whole network is added to the answer, which has to have an IP context.\<close>

definition vl3_resp :: "'a vl3_ipam \<Rightarrow> Connection \<Rightarrow> Connection option" where
  "vl3_resp p resp = do {
     ctx \<leftarrow> Context resp;
     ipContext \<leftarrow> IpContext ctx;
     Some (resp\<lparr>Context := Some (ctx\<lparr>IpContext := Some (ipContext\<lparr>
       SrcRoutes := vl3_addRoute (SrcRoutes ipContext) (IPNet_String (globalIPNet p)) (IP_String (IP (selfAddress p)))\<rparr>)\<rparr>)\<rparr>) }"

definition vl3_Request ::
  "'w request_chain \<Rightarrow> NetworkServiceRequest \<Rightarrow> 'a vl3Server \<Rightarrow> 'w \<Rightarrow> ((nsm_error + Connection) \<times> 'a vl3Server \<times> 'w) option" where
  "vl3_Request nxt request v w =
     (if \<not> isInitialized (pool v) then Some (Inl (Err ''prefix pool is initializing''), v, w)
      else do {
        let conn = (case req_connection request of None \<Rightarrow> empty_connection | Some c \<Rightarrow> c);
        let ctx = (case Context conn of None \<Rightarrow> empty_context | Some c \<Rightarrow> c);
        let ipContext = (case IpContext ctx of None \<Rightarrow> empty_ip_context | Some c \<Rightarrow> c);
        let noConfigs = (case DnsContext ctx of None \<Rightarrow> True | Some cs \<Rightarrow> cs = []);
        (r, v) \<leftarrow> vl3_address (Id conn) noConfigs ipContext v;
        case r of
          Inl e \<Rightarrow> Some (Inl (Err ''IPPool is empty''), v, w)
        | Inr ipContext \<Rightarrow>
            let conn = conn\<lparr>Context := Some (ctx\<lparr>IpContext := Some (vl3_answer (pool v) ipContext)\<rparr>)\<rparr> in
            (case nxt (request\<lparr>req_connection := Some conn\<rparr>) w of
               (Inl e, w) \<Rightarrow> Some (Inl e, v, w)
             | (Inr resp, w) \<Rightarrow> do { resp \<leftarrow> vl3_resp (pool v) resp; Some (Inr resp, v, w) }) })"

fun freeAll :: "string list \<Rightarrow> 'a vl3_ipam \<Rightarrow> 'a vl3_ipam option" where
  "freeAll [] p = Some p"
| "freeAll (a # as) p = do { p \<leftarrow> freeIfAllocated a p; freeAll as p }"

definition src_addrs :: "Connection \<Rightarrow> string list" where
  "src_addrs conn = (case Context conn of None \<Rightarrow> []
     | Some ctx \<Rightarrow> (case IpContext ctx of None \<Rightarrow> [] | Some ipContext \<Rightarrow> SrcIpAddrs ipContext))"

definition vl3_Close ::
  "'w close_chain \<Rightarrow> Connection \<Rightarrow> 'a vl3Server \<Rightarrow> 'w \<Rightarrow> ((nsm_error + unit) \<times> 'a vl3Server \<times> 'w) option" where
  "vl3_Close nxt conn v w = do {
     p \<leftarrow> freeAll (src_addrs conn) (pool v);
     let v = v\<lparr>pool := p, subnetMap := (subnetMap v)(Id conn := None)\<rparr>;
     let (res, w) = nxt conn w;
     Some (res, v, w) }"

section \<open>Strict addresses\<close>

text \<open>\<^verbatim>\<open>strictvl3ipam\<close>: some address of the connection has to be of one of the managers.\<close>

fun anyContains :: "string \<Rightarrow> 'a vl3_ipam list \<Rightarrow> bool option" where
  "anyContains addr [] = Some False"
| "anyContains addr (p # ps) = do { b \<leftarrow> vl3_ContainsNetString addr p; if b then Some True else anyContains addr ps }"

fun anyAddress :: "string list \<Rightarrow> 'a vl3_ipam list \<Rightarrow> bool option" where
  "anyAddress [] ps = Some False"
| "anyAddress (a # as) ps = do { b \<leftarrow> anyContains a ps; if b then Some True else anyAddress as ps }"

definition areAddressesValid :: "string list \<Rightarrow> 'a vl3_ipam list \<Rightarrow> bool option" where
  "areAddressesValid addresses vl3IPAMs = (if addresses = [] then Some True else anyAddress addresses vl3IPAMs)"

definition dst_addrs :: "Connection \<Rightarrow> string list" where
  "dst_addrs conn = (case Context conn of None \<Rightarrow> []
     | Some ctx \<Rightarrow> (case IpContext ctx of None \<Rightarrow> [] | Some ipContext \<Rightarrow> DstIpAddrs ipContext))"

definition strictVl3_Request ::
  "'w request_chain \<Rightarrow> NetworkServiceRequest \<Rightarrow> 'a vl3_ipam list \<Rightarrow> 'w \<Rightarrow> ((nsm_error + Connection) \<times> 'w) option" where
  "strictVl3_Request nxt request vl3IPAMs w = do {
     valid \<leftarrow> areAddressesValid (case req_connection request of None \<Rightarrow> [] | Some conn \<Rightarrow> dst_addrs conn) vl3IPAMs;
     request \<leftarrow> (if valid then Some request
       else do {
         conn \<leftarrow> req_connection request;
         ctx \<leftarrow> Context conn;
         Some (request\<lparr>req_connection := Some (conn\<lparr>Context := Some (ctx\<lparr>IpContext := Some empty_ip_context\<rparr>)\<rparr>)\<rparr>) });
     Some (nxt request w) }"

end
