(* ===== verification/Vl3_Theorems.thy ===== *)
theory Vl3_Theorems
  imports Vl3_Ipam Ipam_Theorems
begin

text \<open>The properties of the virtual L3 network's address manager and server.\<close>

section \<open>The manager keeps a ledger\<close>

definition vl3_inv :: "'a vl3_ipam \<Rightarrow> bool" where
  "vl3_inv p \<longleftrightarrow> vl3_wf p \<and> exclusive (vl3_ledger p)"

lemma allocate_ledger:
  assumes "vl3_inv p" "allocate p = Some (r, p')"
  shows "vl3_inv p' \<and> ledger_step\<^sup>*\<^sup>* (vl3_ledger p) (vl3_ledger p')"
proof -
  have wf: "vl3_wf p" and ex: "exclusive (vl3_ledger p)" using assms(1) by (simp_all add: vl3_inv_def)
  obtain r0 p0 where a: "allocate p = Some (r0, p0)" "vl3_wf p0" "\<And>e. r0 = Inl e \<Longrightarrow> vl3_spare p = {} \<and> p0 = p"
    "\<And>n. r0 = Inr n \<Longrightarrow> \<exists>x. host_name (vl3_family p) (IPNet_String n) x \<and> x \<in> vl3_spare p \<and> (\<forall>y\<in>vl3_spare p. x \<le> y) \<and>
       vl3_spare p0 = vl3_spare p - {x} \<and> excludedPrefixes p0 = insert (IPNet_String n) (excludedPrefixes p) \<and>
       self p0 = self p \<and> subscriptions p0 = subscriptions p"
    by (rule allocate_spec [OF wf]) (rule that)
  then have e: "r0 = r" "p0 = p'" using assms(2) by auto
  show ?thesis
  proof (cases r)
    case (Inl err)
    then show ?thesis using a(3) e assms(1) by simp
  next
    case (Inr n)
    then obtain x where x: "host_name (vl3_family p) (IPNet_String n) x" "x \<in> vl3_spare p"
      "vl3_spare p' = vl3_spare p - {x}" "excludedPrefixes p' = insert (IPNet_String n) (excludedPrefixes p)" "self p' = self p"
      using a(4) e by auto
    let ?t = "IPNet_String n"
    have h: "held_set (vl3_family p) ?t = {x}" by (rule held_set_host_name [OF x(1)])
    have "?t \<notin> excludedPrefixes p"
      using exclusive_spare [OF ex, of ?t 0 "{x}" x] x(2) h by (auto simp: vl3_ledger_def)
    then have n: "held (vl3_ledger p) ?t = None" by (simp add: vl3_ledger_def)
    have "vl3_ledger p' = \<lparr>spare = (spare (vl3_ledger p))(0 := spare (vl3_ledger p) 0 - {x}),
        held = (held (vl3_ledger p))(?t \<mapsto> (0, {x}))\<rparr>"
      using x h by (auto simp: vl3_ledger_def vl3_family_def fun_eq_iff)
    moreover have "ledger_step (vl3_ledger p) \<dots>"
      by (rule grant [OF n]) (use x(2) in \<open>simp add: vl3_ledger_def\<close>)
    ultimately have "ledger_step (vl3_ledger p) (vl3_ledger p')" by simp
    then show ?thesis using a(2) e ex by (auto simp: vl3_inv_def dest: ledger_step_exclusive)
  qed
qed

lemma freeIfAllocated_ledger:
  assumes "vl3_inv p" "freeIfAllocated t p = Some p'"
  shows "vl3_inv p' \<and> ledger_step\<^sup>*\<^sup>* (vl3_ledger p) (vl3_ledger p')"
proof -
  have wf: "vl3_wf p" and ex: "exclusive (vl3_ledger p)" using assms(1) by (simp_all add: vl3_inv_def)
  have f: "vl3_wf p'" "self p' = self p" "excludedPrefixes p' = excludedPrefixes p - {t}"
    "vl3_spare p' = (if t \<in> excludedPrefixes p then vl3_spare p \<union> held_set (vl3_family p) t else vl3_spare p)"
    using assms(2) by (auto intro: freeIfAllocated_spec [OF wf, of t])
  show ?thesis
  proof (cases "t \<in> excludedPrefixes p")
    case False
    then show ?thesis using assms by (auto simp: freeIfAllocated_def)
  next
    case True
    then have h: "held (vl3_ledger p) t = Some (0, held_set (vl3_family p) t)" by (simp add: vl3_ledger_def)
    have "vl3_ledger p' = \<lparr>spare = (spare (vl3_ledger p))(0 := spare (vl3_ledger p) 0 \<union> held_set (vl3_family p) t),
        held = (held (vl3_ledger p))(t := None)\<rparr>"
      using f True by (auto simp: vl3_ledger_def vl3_family_def fun_eq_iff)
    moreover have "ledger_step (vl3_ledger p) \<dots>" by (rule give_back [OF h])
    ultimately have "ledger_step (vl3_ledger p) (vl3_ledger p')" by simp
    then show ?thesis using f(1) ex by (auto simp: vl3_inv_def dest: ledger_step_exclusive)
  qed
qed

interpretation vl3: ledger_client "vl3_inv" "vl3_ledger" "vl3_call"
proof unfold_locales
  fix p p' :: "'a vl3_ipam"
  assume "vl3_inv p" "vl3_call p p'"
  then show "vl3_inv p'" and "ledger_step\<^sup>*\<^sup>* (vl3_ledger p) (vl3_ledger p')"
    unfolding vl3_call_def using allocate_ledger freeIfAllocated_ledger by blast+
qed

section \<open>Reset\<close>

lemma excludeStrings_spec:
  assumes "pool_inv pl"
  shows "\<exists>pl'. excludeStrings es pl taken = Some (pl', taken \<union> set es) \<and> pool_inv pl' \<and> ipLength pl' = ipLength pl \<and>
    pool_set pl' = pool_set pl - (\<Union>e\<in>set es. cidr_set e)"
  using assms
proof (induction es arbitrary: pl taken)
  case (Cons e es)
  obtain p1 where p1: "ExcludeString pl e = Some p1" "pool_inv p1" "ipLength p1 = ipLength pl" "pool_set p1 = pool_set pl - cidr_set e"
    using ExcludeString_correct [OF Cons.prems] by blast
  then obtain p2 where "excludeStrings es p1 (insert e taken) = Some (p2, insert e taken \<union> set es)" "pool_inv p2"
    "ipLength p2 = ipLength p1" "pool_set p2 = pool_set p1 - (\<Union>e\<in>set es. cidr_set e)"
    using Cons.IH [OF p1(2), of "insert e taken"] by blast
  then show ?case using p1 by (intro exI [of _ p2]) auto
qed simp

text \<open>
  The prefixes a manager may be reset to: the network of the prefix, without IPv6 addresses that are written
  as IPv4, and excluded prefixes that overlap neither each other nor the manager's own address.
\<close>

definition own_text :: "IPNet \<Rightarrow> string" where
  "own_text n = IPNet_String \<lparr>IP = IP n, Mask = CIDRMask (8 * int (length (IP n))) (8 * int (length (IP n)))\<rparr>"

definition resettable :: "IPNet \<Rightarrow> string list \<Rightarrow> bool" where
  "resettable n es \<longleftrightarrow> (\<forall>x\<in>net_set n. of_family (length (IP n)) x) \<and> ip_val (IP n) \<in> net_set n \<and>
     (\<forall>e\<in>set es. (\<forall>x\<in>held_set (length (IP n)) e. of_family (length (IP n)) x) \<and>
       (e \<noteq> own_text n \<longrightarrow> ip_val (IP n) \<notin> held_set (length (IP n)) e)) \<and>
     (\<forall>e\<in>set es. \<forall>f\<in>set es. e \<noteq> f \<longrightarrow> held_set (length (IP n)) e \<inter> held_set (length (IP n)) f = {})"

lemma Reset_spec:
  assumes "ParseCIDR prefix = Some (ip, n)" "resettable n es"
  obtains p' where "Reset prefix es p = Some (Inr (), notify p, p')" "vl3_inv p'" "self p' = n" "subscriptions p' = subscriptions p"
    "excludedPrefixes p' = insert (own_text n) (set es)"
    "vl3_spare p' = net_set n - {ip_val (IP n)} - (\<Union>e\<in>set es. cidr_set e)"
    "host_name (length (IP n)) (own_text n) (ip_val (IP n))"
proof -
  let ?L = "length (IP n)"
  have shape: "length (IP n) = length (Mask n)" "?L \<in> {IPv4len, IPv6len}" using ParseCIDR_shape [OF assms(1)] by auto
  have v: "valid_IPNet n" "valid_IP (IP n)" using ParseCIDR_valid [OF assms(1)] shape by (auto simp: valid_IP_def)
  have r: "\<forall>x\<in>net_set n. of_family ?L x" "ip_val (IP n) \<in> net_set n"
    "\<And>e x. e \<in> set es \<Longrightarrow> x \<in> held_set ?L e \<Longrightarrow> of_family ?L x"
    "\<And>e. e \<in> set es \<Longrightarrow> e \<noteq> own_text n \<Longrightarrow> ip_val (IP n) \<notin> held_set ?L e"
    "\<And>e f. e \<in> set es \<Longrightarrow> f \<in> set es \<Longrightarrow> e \<noteq> f \<Longrightarrow> held_set ?L e \<inter> held_set ?L f = {}"
    using assms(2) unfolding resettable_def by blast+
  obtain p0 where p0: "NewWithNet n = Some p0" "pool_inv p0" "pool_set p0 = net_set n" "ipLength p0 = ?L"
    using NewWithNet_correct [OF v(1)] by blast
  let ?self = "\<lparr>IP = IP n, Mask = CIDRMask (8 * int ?L) (8 * int ?L)\<rparr>"
  have vs: "valid_IPNet ?self" using shape(2) by (auto simp: valid_IPNet_def CIDRMask_def)
  have "net_set ?self = {ip_val (IP n)}"
    using net_set_host [OF refl shape(2)] full_mask [OF shape(2)] by (simp add: mult.commute)
  then obtain p1 where p1: "Exclude p0 (Some ?self) = Some p1" "pool_inv p1" "pool_set p1 = net_set n - {ip_val (IP n)}" "ipLength p1 = ?L"
    using Exclude_correct [OF p0(2) vs] p0 by auto
  obtain p2 where p2: "excludeStrings es p1 {own_text n} = Some (p2, {own_text n} \<union> set es)" "pool_inv p2" "ipLength p2 = ?L"
    "pool_set p2 = net_set n - {ip_val (IP n)} - (\<Union>e\<in>set es. cidr_set e)"
    using excludeStrings_spec [OF p1(2), of es "{own_text n}"] p1 by auto
  let ?p = "p\<lparr>self := n, clientMask := 8 * ?L, vl3_pool := Some p2, excludedPrefixes := insert (own_text n) (set es)\<rparr>"
  have reset: "Reset prefix es p = Some (Inr (), notify p, ?p)"
    using assms(1) p0(1) p1(1) p2(1) shape(2)
    by (auto simp: Reset_def selfAddress_def own_text_def notify_def mult.commute Let_def)
  have "IPNet_String (hostNet p0 (IP n)) = own_text n" using p0(4) by (simp add: own_text_def hostNet_def mult.commute)
  then have h: "host_name ?L (own_text n) (ip_val (IP n))"
    using host_name_hostNet [OF p0(4) v(2)] r(1,2) by simp
  note hs = held_set_host_name [OF h]
  have ok: "pool_ok p2" using p2 r(1) by (auto simp: pool_ok_def)
  have wf: "vl3_wf ?p"
    using ok p2(3) shape(2) hs r(1-3) unfolding vl3_wf_def vl3_family_def by auto
  have "exclusive (vl3_ledger ?p)"
  proof (rule exclusiveI)
    fix t k A x
    assume t: "held (vl3_ledger ?p) t = Some (k, A)" "x \<in> A"
    then have "t = own_text n \<or> t \<in> set es" "k = 0" "A = held_set ?L t"
      by (auto simp: vl3_ledger_def vl3_family_def split: if_splits)
    moreover have "held_set ?L t \<subseteq> cidr_set t" by (simp add: held_set_def)
    ultimately show "x \<notin> spare (vl3_ledger ?p) k" using t(2) p2(4) hs by (auto simp: vl3_ledger_def vl3_spare_def)
  next
    fix t u k A B x
    assume t: "held (vl3_ledger ?p) t = Some (k, A)" "held (vl3_ledger ?p) u = Some (k, B)" "x \<in> A" "x \<in> B"
    then have x: "t = own_text n \<or> t \<in> set es" "u = own_text n \<or> u \<in> set es" "x \<in> held_set ?L t" "x \<in> held_set ?L u"
      by (auto simp: vl3_ledger_def vl3_family_def split: if_splits)
    show "t = u"
    proof (rule ccontr)
      assume "t \<noteq> u"
      then consider "t \<in> set es" "u \<in> set es" | "t = own_text n" "u \<in> set es" "u \<noteq> own_text n"
        | "u = own_text n" "t \<in> set es" "t \<noteq> own_text n" using x(1,2) by blast
      then show False
      proof cases
        case 1
        then show False using r(5) [OF 1 \<open>t \<noteq> u\<close>] x(3,4) by blast
      next
        case 2
        then show False using r(4) [OF 2(2,3)] x(3,4) hs by auto
      next
        case 3
        then show False using r(4) [OF 3(2,3)] x(3,4) hs by auto
      qed
    qed
  qed
  then have "vl3_inv ?p" using wf by (simp add: vl3_inv_def)
  then show ?thesis using that [OF reset] h p2(4) by (simp add: vl3_spare_def)
qed


section \<open>The server\<close>

lemma ContainsNetString_inside:
  assumes "pool_inv p"
  shows "ContainsNetString p t = Some (ParseCIDR t \<noteq> None \<and> cidr_set t \<subseteq> pool_set p)"
  using ContainsNet_correct [OF assms] ParseCIDR_valid
  by (fastforce simp: ContainsNetString_def cidr_set_def split: option.splits)

text \<open>A text that names addresses of the network only.\<close>

definition inside :: "IPNet \<Rightarrow> string \<Rightarrow> bool" where
  "inside n t \<longleftrightarrow> ParseCIDR t \<noteq> None \<and> cidr_set t \<subseteq> net_set n"

lemma outside_filter:
  assumes "pool_inv p" "pool_set p = net_set n"
  shows "outside text (Some p) es = Some (filter (\<lambda>e. \<not> inside n (text e)) es)"
  using assms(2) by (induction es) (simp_all add: ContainsNetString_inside [OF assms(1)] inside_def)

lemma removePrevious_filter:
  assumes "ParseCIDR prev = Some (ip, n)"
  shows "removePreviousPrefixFromIPContext c prev = Some (c\<lparr>
    SrcIpAddrs := filter (\<lambda>a. \<not> inside n a) (SrcIpAddrs c), DstIpAddrs := filter (\<lambda>a. \<not> inside n a) (DstIpAddrs c),
    SrcRoutes := filter (\<lambda>r. \<not> inside n (Prefix r)) (SrcRoutes c), DstRoutes := filter (\<lambda>r. \<not> inside n (Prefix r)) (DstRoutes c)\<rparr>)"
proof -
  obtain p where p: "NewWithNet n = Some p" "pool_inv p" "pool_set p = net_set n"
    using NewWithNet_correct ParseCIDR_valid [OF assms] by blast
  then show ?thesis using assms
    by (simp add: removePreviousPrefixFromIPContext_def NewWithNetString_def outside_filter [OF p(2,3)])
qed

definition ip_context_of :: "NetworkServiceRequest \<Rightarrow> IPContext" where
  "ip_context_of request = (case req_connection request of None \<Rightarrow> empty_ip_context
     | Some conn \<Rightarrow> (case Context conn of None \<Rightarrow> empty_ip_context
       | Some ctx \<Rightarrow> (case IpContext ctx of None \<Rightarrow> empty_ip_context | Some c \<Rightarrow> c)))"

definition no_dns :: "NetworkServiceRequest \<Rightarrow> bool" where
  "no_dns request = (case req_connection request of None \<Rightarrow> True
     | Some conn \<Rightarrow> (case Context conn of None \<Rightarrow> True
       | Some ctx \<Rightarrow> (case DnsContext ctx of None \<Rightarrow> True | Some cs \<Rightarrow> cs = [])))"

definition id_of :: "NetworkServiceRequest \<Rightarrow> string" where
  "id_of request = (case req_connection request of None \<Rightarrow> [] | Some conn \<Rightarrow> Id conn)"

text \<open>The connection that goes down the chain with an IP context of its own.\<close>

definition with_ip :: "NetworkServiceRequest \<Rightarrow> IPContext \<Rightarrow> Connection" where
  "with_ip request c =
     (let conn = (case req_connection request of None \<Rightarrow> empty_connection | Some conn \<Rightarrow> conn);
          ctx = (case Context conn of None \<Rightarrow> empty_context | Some ctx \<Rightarrow> ctx)
      in conn\<lparr>Context := Some (ctx\<lparr>IpContext := Some c\<rparr>)\<rparr>)"

lemma vl3_Request_eq:
  assumes "isInitialized (pool v)" "vl3_address (id_of request) (no_dns request) (ip_context_of request) v = Some (r, v')"
  shows "vl3_Request nxt request v w = (case r of
      Inl e \<Rightarrow> Some (Inl (Err ''IPPool is empty''), v', w)
    | Inr c \<Rightarrow> (case nxt (request\<lparr>req_connection := Some (with_ip request (vl3_answer (pool v') c))\<rparr>) w of
        (Inl e, w) \<Rightarrow> Some (Inl e, v', w)
      | (Inr resp, w) \<Rightarrow> do { resp \<leftarrow> vl3_resp (pool v') resp; Some (Inr resp, v', w) }))"
proof -
  let ?conn = "case req_connection request of None \<Rightarrow> empty_connection | Some c \<Rightarrow> c"
  let ?ctx = "case Context ?conn of None \<Rightarrow> empty_context | Some c \<Rightarrow> c"
  have "id_of request = Id ?conn" by (simp add: id_of_def empty_connection_def split: option.splits)
  moreover have "no_dns request = (case DnsContext ?ctx of None \<Rightarrow> True | Some cs \<Rightarrow> cs = [])"
    by (simp add: no_dns_def empty_connection_def empty_context_def split: option.splits)
  moreover have "ip_context_of request = (case IpContext ?ctx of None \<Rightarrow> empty_ip_context | Some c \<Rightarrow> c)"
    by (simp add: ip_context_of_def empty_connection_def empty_context_def split: option.splits)
  ultimately show ?thesis using assms by (simp add: vl3_Request_def Let_def with_ip_def split: sum.splits)
qed

lemma vl3_inv_initialized: "vl3_inv p \<Longrightarrow> isInitialized p"
  by (auto simp: vl3_inv_def vl3_wf_def isInitialized_def)

text \<open>An address for a connection the server does not know.\<close>

lemma vl3_address_new:
  assumes "vl3_inv (pool v)" "subnetMap v i = None" "noConfigs" "vl3_spare (pool v) \<noteq> {}"
  obtains t x p' where "vl3_address i noConfigs c v = Some (Inr (c\<lparr>SrcIpAddrs := SrcIpAddrs c @ [t]\<rparr>),
      v\<lparr>pool := p', subnetMap := (subnetMap v)(i \<mapsto> IPNet_String (globalIPNet p'))\<rparr>)"
    "vl3_inv p'" "host_name (vl3_family (pool v)) t x" "x \<in> vl3_spare (pool v)" "\<forall>y\<in>vl3_spare (pool v). x \<le> y"
    "vl3_spare p' = vl3_spare (pool v) - {x}" "t \<in> excludedPrefixes p'" "self p' = self (pool v)"
proof -
  have wf: "vl3_wf (pool v)" using assms(1) by (simp add: vl3_inv_def)
  obtain r p' where a: "allocate (pool v) = Some (r, p')" "\<And>e. r = Inl e \<Longrightarrow> vl3_spare (pool v) = {} \<and> p' = pool v"
    "\<And>n. r = Inr n \<Longrightarrow> \<exists>x. host_name (vl3_family (pool v)) (IPNet_String n) x \<and> x \<in> vl3_spare (pool v) \<and>
       (\<forall>y\<in>vl3_spare (pool v). x \<le> y) \<and> vl3_spare p' = vl3_spare (pool v) - {x} \<and>
       excludedPrefixes p' = insert (IPNet_String n) (excludedPrefixes (pool v)) \<and> self p' = self (pool v) \<and>
       subscriptions p' = subscriptions (pool v)"
    by (rule allocate_spec [OF wf]) (rule that)
  then obtain n where n: "r = Inr n" using assms(4) by (cases r) auto
  have "vl3_inv p'" using allocate_ledger [OF assms(1) a(1)] by simp
  moreover from a(3) [OF n] obtain x where "host_name (vl3_family (pool v)) (IPNet_String n) x" "x \<in> vl3_spare (pool v)"
    "\<forall>y\<in>vl3_spare (pool v). x \<le> y" "vl3_spare p' = vl3_spare (pool v) - {x}" "IPNet_String n \<in> excludedPrefixes p'" "self p' = self (pool v)"
    by auto
  moreover have "vl3_address i noConfigs c v = Some (Inr (c\<lparr>SrcIpAddrs := SrcIpAddrs c @ [IPNet_String n]\<rparr>),
      v\<lparr>pool := p', subnetMap := (subnetMap v)(i \<mapsto> IPNet_String (globalIPNet p'))\<rparr>)"
    using assms(2,3) a(1) n by (simp add: vl3_address_def)
  ultimately show ?thesis using that by blast
qed

text \<open>An address for a connection whose prefix has changed.\<close>

lemma vl3_address_changed:
  assumes "vl3_inv (pool v)" "subnetMap v i = Some prev" "IPNet_String (globalIPNet (pool v)) \<noteq> prev"
    "ParseCIDR prev = Some (ip, n)" "vl3_spare (pool v) \<noteq> {}"
  obtains t x p' where "vl3_address i noConfigs c v = Some (Inr (c\<lparr>
      SrcIpAddrs := filter (\<lambda>a. \<not> inside n a) (SrcIpAddrs c) @ [t], DstIpAddrs := filter (\<lambda>a. \<not> inside n a) (DstIpAddrs c),
      SrcRoutes := filter (\<lambda>r. \<not> inside n (Prefix r)) (SrcRoutes c), DstRoutes := filter (\<lambda>r. \<not> inside n (Prefix r)) (DstRoutes c)\<rparr>),
      v\<lparr>pool := p', subnetMap := (subnetMap v)(i \<mapsto> IPNet_String (globalIPNet p'))\<rparr>)"
    "vl3_inv p'" "host_name (vl3_family (pool v)) t x" "x \<in> vl3_spare (pool v)" "vl3_spare p' = vl3_spare (pool v) - {x}"
    "self p' = self (pool v)"
proof -
  have wf: "vl3_wf (pool v)" using assms(1) by (simp add: vl3_inv_def)
  obtain r p' where a: "allocate (pool v) = Some (r, p')" "\<And>e. r = Inl e \<Longrightarrow> vl3_spare (pool v) = {} \<and> p' = pool v"
    "\<And>n. r = Inr n \<Longrightarrow> \<exists>x. host_name (vl3_family (pool v)) (IPNet_String n) x \<and> x \<in> vl3_spare (pool v) \<and>
       (\<forall>y\<in>vl3_spare (pool v). x \<le> y) \<and> vl3_spare p' = vl3_spare (pool v) - {x} \<and>
       excludedPrefixes p' = insert (IPNet_String n) (excludedPrefixes (pool v)) \<and> self p' = self (pool v) \<and>
       subscriptions p' = subscriptions (pool v)"
    by (rule allocate_spec [OF wf]) (rule that)
  then obtain m where m: "r = Inr m" using assms(5) by (cases r) auto
  have "vl3_inv p'" using allocate_ledger [OF assms(1) a(1)] by simp
  moreover from a(3) [OF m] obtain x where "host_name (vl3_family (pool v)) (IPNet_String m) x" "x \<in> vl3_spare (pool v)"
    "vl3_spare p' = vl3_spare (pool v) - {x}" "self p' = self (pool v)"
    by auto
  moreover have "vl3_address i noConfigs c v = Some (Inr (c\<lparr>
      SrcIpAddrs := filter (\<lambda>a. \<not> inside n a) (SrcIpAddrs c) @ [IPNet_String m], DstIpAddrs := filter (\<lambda>a. \<not> inside n a) (DstIpAddrs c),
      SrcRoutes := filter (\<lambda>r. \<not> inside n (Prefix r)) (SrcRoutes c), DstRoutes := filter (\<lambda>r. \<not> inside n (Prefix r)) (DstRoutes c)\<rparr>),
      v\<lparr>pool := p', subnetMap := (subnetMap v)(i \<mapsto> IPNet_String (globalIPNet p'))\<rparr>)"
    using assms(2,3) a(1) m removePrevious_filter [OF assms(4), of c] by (simp add: vl3_address_def)
  ultimately show ?thesis using that by blast
qed

lemma src_with_ip: "src_addrs (with_ip request c) = SrcIpAddrs c"
  by (simp add: src_addrs_def with_ip_def Let_def)

lemma vl3_answer_src [simp]: "SrcIpAddrs (vl3_answer p c) = SrcIpAddrs c"
  by (simp add: vl3_answer_def Let_def)

lemma vl3_addAddr_set: "set (vl3_addAddr xs a) = insert a (set xs)"
  by (auto simp: vl3_addAddr_def list_ex_iff)

lemma vl3_answer_dst: "set (DstIpAddrs (vl3_answer p c)) = insert (IPNet_String (selfAddress p)) (set (DstIpAddrs c))"
  by (simp add: vl3_answer_def Let_def vl3_addAddr_set)

text \<open>
  The request goes on with this connection, in this state; an accepted answer gets the route into the
  network.
\<close>

definition passes_on ::
  "'a vl3Server \<Rightarrow> NetworkServiceRequest \<Rightarrow> Connection \<Rightarrow> 'a vl3Server \<Rightarrow> 'w request_chain \<Rightarrow> 'w \<Rightarrow> bool" where
  "passes_on v request conn v' nxt w \<longleftrightarrow>
     vl3_Request nxt request v w = (case nxt (request\<lparr>req_connection := Some conn\<rparr>) w of
       (Inl e, w) \<Rightarrow> Some (Inl e, v', w)
     | (Inr resp, w) \<Rightarrow> map_option (\<lambda>resp. (Inr resp, v', w)) (vl3_resp (pool v') resp))"

lemma passes_onI:
  assumes "isInitialized (pool v)" "vl3_address (id_of request) (no_dns request) (ip_context_of request) v = Some (Inr c, v')"
  shows "passes_on v request (with_ip request (vl3_answer (pool v') c)) v' nxt w"
  using vl3_Request_eq [OF assms, of nxt w]
  by (auto simp: passes_on_def map_conv_bind_option comp_def split: prod.splits sum.splits)

lemma dst_with_ip: "dst_addrs (with_ip request c) = DstIpAddrs c"
  by (simp add: dst_addrs_def with_ip_def Let_def)

text \<open>
  When the prefix of the manager has changed since the last request of a connection, the request goes on
  without the addresses of the old prefix, but with the others, a new address of the new one, and the
  manager's own address as a destination; the new address is no one else's.
\<close>

lemma vl3_prefix_change:
  assumes "vl3_inv (pool v)" "subnetMap v (id_of request) = Some prev" "IPNet_String (globalIPNet (pool v)) \<noteq> prev"
    "ParseCIDR prev = Some (ip, n)" "vl3_spare (pool v) \<noteq> {}"
  shows "\<exists>conn v' t x. (\<forall>nxt w. passes_on v request conn v' nxt w) \<and>
    src_addrs conn = filter (\<lambda>a. \<not> inside n a) (SrcIpAddrs (ip_context_of request)) @ [t] \<and>
    set (dst_addrs conn) = insert (IPNet_String (selfAddress (pool v'))) {a \<in> set (DstIpAddrs (ip_context_of request)). \<not> inside n a} \<and>
    host_name (vl3_family (pool v)) t x \<and> x \<in> vl3_spare (pool v) \<and> vl3_spare (pool v') = vl3_spare (pool v) - {x} \<and>
    subnetMap v' = (subnetMap v)(id_of request \<mapsto> IPNet_String (globalIPNet (pool v'))) \<and> exclusive (vl3_ledger (pool v'))"
proof -
  let ?c = "ip_context_of request"
  obtain t x p' where a: "vl3_address (id_of request) (no_dns request) ?c v = Some (Inr (?c\<lparr>
      SrcIpAddrs := filter (\<lambda>a. \<not> inside n a) (SrcIpAddrs ?c) @ [t], DstIpAddrs := filter (\<lambda>a. \<not> inside n a) (DstIpAddrs ?c),
      SrcRoutes := filter (\<lambda>r. \<not> inside n (Prefix r)) (SrcRoutes ?c), DstRoutes := filter (\<lambda>r. \<not> inside n (Prefix r)) (DstRoutes ?c)\<rparr>),
      v\<lparr>pool := p', subnetMap := (subnetMap v)(id_of request \<mapsto> IPNet_String (globalIPNet p'))\<rparr>)"
    "vl3_inv p'" "host_name (vl3_family (pool v)) t x" "x \<in> vl3_spare (pool v)" "vl3_spare p' = vl3_spare (pool v) - {x}"
    by (rule vl3_address_changed [OF assms]) (rule that)
  show ?thesis
    by (intro exI conjI allI) (rule passes_onI [OF vl3_inv_initialized [OF assms(1)] a(1)],
        use a(2-5) in \<open>auto simp: src_with_ip dst_with_ip vl3_answer_dst vl3_inv_def\<close>)
qed

text \<open>
  A first request that fails further on keeps its address: the address is taken from the pool and the
  server remembers the connection, so the same request tried again goes on without any address, the first
  time it can be accepted.
\<close>

lemma vl3_retry_without_address:
  assumes "vl3_inv (pool v)" "subnetMap v (id_of request) = None" "no_dns request" "vl3_spare (pool v) \<noteq> {}"
  shows "\<exists>conn v' t x conn'. (\<forall>nxt w. passes_on v request conn v' nxt w) \<and>
    src_addrs conn = SrcIpAddrs (ip_context_of request) @ [t] \<and> host_name (vl3_family (pool v)) t x \<and>
    x \<in> vl3_spare (pool v) \<and> vl3_spare (pool v') = vl3_spare (pool v) - {x} \<and> t \<in> excludedPrefixes (pool v') \<and>
    (\<forall>nxt w. passes_on v' request conn' v' nxt w) \<and> src_addrs conn' = SrcIpAddrs (ip_context_of request)"
proof -
  let ?c = "ip_context_of request"
  obtain t x p' where a: "vl3_address (id_of request) (no_dns request) ?c v = Some (Inr (?c\<lparr>SrcIpAddrs := SrcIpAddrs ?c @ [t]\<rparr>),
      v\<lparr>pool := p', subnetMap := (subnetMap v)(id_of request \<mapsto> IPNet_String (globalIPNet p'))\<rparr>)"
    "vl3_inv p'" "host_name (vl3_family (pool v)) t x" "x \<in> vl3_spare (pool v)"
    "vl3_spare p' = vl3_spare (pool v) - {x}" "t \<in> excludedPrefixes p'"
    by (rule vl3_address_new [OF assms]) (rule that)
  let ?v = "v\<lparr>pool := p', subnetMap := (subnetMap v)(id_of request \<mapsto> IPNet_String (globalIPNet p'))\<rparr>"
  have b: "vl3_address (id_of request) (no_dns request) ?c ?v = Some (Inr ?c, ?v)" by (simp add: vl3_address_def)
  have i: "isInitialized (pool ?v)" using vl3_inv_initialized [OF a(2)] by simp
  let ?conn = "with_ip request (vl3_answer p' (?c\<lparr>SrcIpAddrs := SrcIpAddrs ?c @ [t]\<rparr>))"
  let ?conn' = "with_ip request (vl3_answer p' ?c)"
  show ?thesis
  proof (rule exI [of _ ?conn], rule exI [of _ ?v], rule exI [of _ t], rule exI [of _ x], rule exI [of _ ?conn'], intro conjI allI)
    show "passes_on v request ?conn ?v nxt w" for nxt :: "'b request_chain" and w
      using passes_onI [OF vl3_inv_initialized [OF assms(1)] a(1)] by simp
    show "passes_on ?v request ?conn' ?v nxt w" for nxt :: "'c request_chain" and w
      using passes_onI [OF i b] by simp
  qed (use a(3-6) in \<open>simp_all add: src_with_ip\<close>)
qed

section \<open>Closing\<close>

text \<open>
  \<^verbatim>\<open>Close\<close> gives back every taken prefix the connection names as a source, whoever took it: a connection that
  names the manager's own address puts it into the pool, and the next connection can get it.
\<close>

lemma vl3_close_frees_own_address:
  assumes "vl3_inv (pool v)" "own_text (self (pool v)) \<in> excludedPrefixes (pool v)"
    "host_name (vl3_family (pool v)) (own_text (self (pool v))) x" "src_addrs conn = [own_text (self (pool v))]"
  shows "\<exists>v' w' res. vl3_Close nxt conn v w = Some (res, v', w') \<and> x \<in> vl3_spare (pool v') \<and>
    own_text (self (pool v')) \<notin> excludedPrefixes (pool v') \<and> vl3_inv (pool v') \<and>
    (vl3_spare (pool v) = {} \<longrightarrow> (\<exists>n p'. allocate (pool v') = Some (Inr n, p') \<and> host_name (vl3_family (pool v)) (IPNet_String n) x))"
proof -
  let ?t = "own_text (self (pool v))"
  have wf: "vl3_wf (pool v)" using assms(1) by (simp add: vl3_inv_def)
  obtain p' where f: "freeIfAllocated ?t (pool v) = Some p'" "vl3_wf p'" "self p' = self (pool v)"
    "excludedPrefixes p' = excludedPrefixes (pool v) - {?t}"
    "vl3_spare p' = (if ?t \<in> excludedPrefixes (pool v) then vl3_spare (pool v) \<union> held_set (vl3_family (pool v)) ?t else vl3_spare (pool v))"
    by (rule freeIfAllocated_spec [OF wf, of ?t]) (rule that)
  have spare: "vl3_spare p' = insert x (vl3_spare (pool v))"
    using f(5) assms(2) held_set_host_name [OF assms(3)] by simp
  have inv: "vl3_inv p'" using freeIfAllocated_ledger [OF assms(1) f(1)] by simp
  have own: "\<exists>n p2. allocate p' = Some (Inr n, p2) \<and> host_name (vl3_family (pool v)) (IPNet_String n) x" if "vl3_spare (pool v) = {}"
  proof -
    obtain r p2 where a: "allocate p' = Some (r, p2)" "\<And>e. r = Inl e \<Longrightarrow> vl3_spare p' = {} \<and> p2 = p'"
      "\<And>n. r = Inr n \<Longrightarrow> \<exists>y. host_name (vl3_family p') (IPNet_String n) y \<and> y \<in> vl3_spare p' \<and> (\<forall>z\<in>vl3_spare p'. y \<le> z) \<and>
       vl3_spare p2 = vl3_spare p' - {y} \<and> excludedPrefixes p2 = insert (IPNet_String n) (excludedPrefixes p') \<and>
       self p2 = self p' \<and> subscriptions p2 = subscriptions p'"
      by (rule allocate_spec [OF f(2)]) (rule that)
    then obtain n where n: "r = Inr n" using spare by (cases r) auto
    from a(3) [OF n] have "host_name (vl3_family (pool v)) (IPNet_String n) x"
      using spare that f(3) by (auto simp: vl3_family_def)
    then show ?thesis using a(1) n by blast
  qed
  obtain res w' where r: "nxt conn w = (res, w')" by fastforce
  have "vl3_Close nxt conn v w = Some (res, v\<lparr>pool := p', subnetMap := (subnetMap v)(Id conn := None)\<rparr>, w')"
    using f(1) assms(4) r by (simp add: vl3_Close_def)
  then show ?thesis using spare inv f(3,4) own by auto
qed

section \<open>Witnesses\<close>

lemma net30_canonical: "canonical_net net30"
  unfolding canonical_net_def by (intro exI [of _ 30] exI [of _ IPv4len]) (simp add: net30_def cidr_bytes_def maskByte_def upt_rec)

lemma net30_parse: "ParseCIDR (IPNet_String net30) = Some (To16 (IP net30), net30)"
  by (rule ParseCIDR_IPNet_String [OF net30_canonical])

lemma net30_start: "ip_val (IP net30) = 0xFFFF0A000000"
  by (simp add: net30_def ip_val_def To16_def v4InV6Prefix_def)

lemma net30_resettable: "resettable net30 []"
  using net30_ok(2) by (auto simp: resettable_def net30_set net30_start)

text \<open>A manager of \<^verbatim>\<open>10.0.0.0/30\<close>: three addresses besides its own.\<close>

lemma fresh_vl3:
  obtains p where "Reset (IPNet_String net30) [] (new_IPAM :: unit vl3_ipam) = Some (Inr (), [], p)" "vl3_inv p" "self p = net30"
    "own_text net30 \<in> excludedPrefixes p" "vl3_spare p \<noteq> {}" "host_name (vl3_family p) (own_text net30) (ip_val (IP net30))"
proof -
  obtain p where p: "Reset (IPNet_String net30) [] (new_IPAM :: unit vl3_ipam) = Some (Inr (), notify (new_IPAM :: unit vl3_ipam), p)"
    "vl3_inv p" "self p = net30" "excludedPrefixes p = insert (own_text net30) (set [])"
    "vl3_spare p = net_set net30 - {ip_val (IP net30)} - (\<Union>e\<in>set []. cidr_set e)"
    "host_name (length (IP net30)) (own_text net30) (ip_val (IP net30))"
    by (rule Reset_spec [OF net30_parse net30_resettable]) (rule that)
  have "0xFFFF0A000001 \<in> vl3_spare p" using p(5) by (simp add: net30_set net30_start)
  then have "vl3_spare p \<noteq> {}" by blast
  moreover have "notify (new_IPAM :: unit vl3_ipam) = []" by (simp add: notify_def new_IPAM_def)
  ultimately show ?thesis using that [of p] p by (simp add: vl3_family_def)
qed


lemma vl3_retry_without_address_witness:
  "\<exists>(p :: unit vl3_ipam) conn v' t conn'. Reset (IPNet_String net30) [] new_IPAM = Some (Inr (), [], p) \<and>
     passes_on (vl3_NewServer p) (plain_request ''c'') conn v' (\<lambda>r w. (Inl Panic, w)) () \<and> src_addrs conn = [t] \<and>
     passes_on v' (plain_request ''c'') conn' v' (\<lambda>r w. (Inl Panic, w)) () \<and> src_addrs conn' = []"
proof -
  obtain p where p: "Reset (IPNet_String net30) [] (new_IPAM :: unit vl3_ipam) = Some (Inr (), [], p)" "vl3_inv p" "vl3_spare p \<noteq> {}"
    by (rule fresh_vl3)
  have c: "ip_context_of (plain_request ''c'') = empty_ip_context" "no_dns (plain_request ''c'')"
    by (simp_all add: ip_context_of_def no_dns_def plain_request_def empty_connection_def)
  have v: "vl3_inv (pool (vl3_NewServer p))" "subnetMap (vl3_NewServer p) (id_of (plain_request ''c'')) = None"
    "vl3_spare (pool (vl3_NewServer p)) \<noteq> {}" using p by (simp_all add: vl3_NewServer_def)
  obtain conn v' t x conn' where r: "\<forall>nxt (w :: unit). passes_on (vl3_NewServer p) (plain_request ''c'') conn v' nxt w"
    "src_addrs conn = SrcIpAddrs (ip_context_of (plain_request ''c'')) @ [t]"
    "\<forall>nxt (w :: unit). passes_on v' (plain_request ''c'') conn' v' nxt w"
    "src_addrs conn' = SrcIpAddrs (ip_context_of (plain_request ''c''))"
    using vl3_retry_without_address [OF v(1,2) c(2) v(3)] by (elim exE conjE) (rule that)
  show ?thesis using p(1) r unfolding c(1) empty_ip_context_def
    by (intro exI [of _ p] exI [of _ conn] exI [of _ v'] exI [of _ t] exI [of _ conn']) simp
qed

definition vl3_renumbered :: "unit vl3_ipam \<Rightarrow> unit vl3Server" where
  "vl3_renumbered p = \<lparr>pool = p, subnetMap = [''c'' \<mapsto> IPNet_String net30]\<rparr>"

lemma vl3_prefix_change_witness:
  "\<exists>(p :: unit vl3_ipam) conn v' t. Reset (IPNet_String net30) [] new_IPAM = Some (Inr (), [], p) \<and>
     passes_on (vl3_renumbered p) (plain_request ''c'') conn v' (\<lambda>r w. (Inl Panic, w)) () \<and> src_addrs conn = [t]"
proof -
  obtain p where p: "Reset (IPNet_String net30) [] (new_IPAM :: unit vl3_ipam) = Some (Inr (), [], p)" "vl3_inv p" "vl3_spare p \<noteq> {}"
    "self p = net30" by (rule fresh_vl3)
  have c: "ip_context_of (plain_request ''c'') = empty_ip_context" "id_of (plain_request ''c'') = ''c''"
    by (simp_all add: ip_context_of_def id_of_def plain_request_def empty_connection_def)
  have e: "SrcIpAddrs empty_ip_context = []" by (simp add: empty_ip_context_def)
  have "clientMask p = 32" using p(2,4) by (simp add: vl3_inv_def vl3_wf_def vl3_family_def net30_def)
  then have "globalIPNet p = \<lparr>IP = [10, 0, 0, 0], Mask = CIDRMask 16 32\<rparr>" using p(4) by (simp add: globalIPNet_def net30_def)
  moreover have "IPNet_String \<lparr>IP = [10, 0, 0, 0], Mask = CIDRMask 16 32\<rparr> \<noteq> IPNet_String net30" by code_simp
  ultimately have d: "IPNet_String (globalIPNet (pool (vl3_renumbered p))) \<noteq> IPNet_String net30" by (simp add: vl3_renumbered_def)
  have v: "vl3_inv (pool (vl3_renumbered p))" "subnetMap (vl3_renumbered p) (id_of (plain_request ''c'')) = Some (IPNet_String net30)"
    "vl3_spare (pool (vl3_renumbered p)) \<noteq> {}" using p c(2) by (simp_all add: vl3_renumbered_def)
  obtain conn v' t x where r: "\<forall>nxt (w :: unit). passes_on (vl3_renumbered p) (plain_request ''c'') conn v' nxt w"
    "src_addrs conn = filter (\<lambda>a. \<not> inside net30 a) (SrcIpAddrs (ip_context_of (plain_request ''c''))) @ [t]"
    using vl3_prefix_change [OF v(1,2) d net30_parse v(3)] by (elim exE conjE) (rule that)
  show ?thesis using p(1) r unfolding c(1) empty_ip_context_def
    by (intro exI [of _ p] exI [of _ conn] exI [of _ v'] exI [of _ t]) simp
qed

lemma vl3_close_frees_own_address_witness:
  "\<exists>(p :: unit vl3_ipam) v' res. Reset (IPNet_String net30) [] new_IPAM = Some (Inr (), [], p) \<and>
     vl3_Close (\<lambda>c w. (Inr (), w)) (empty_connection\<lparr>Context := Some (empty_context\<lparr>IpContext :=
       Some (empty_ip_context\<lparr>SrcIpAddrs := [own_text net30]\<rparr>)\<rparr>)\<rparr>) (vl3_NewServer p) () = Some (res, v', ()) \<and>
     ip_val (IP net30) \<in> vl3_spare (pool v')"
proof -
  obtain p where p: "Reset (IPNet_String net30) [] (new_IPAM :: unit vl3_ipam) = Some (Inr (), [], p)" "vl3_inv p"
    "self p = net30" "own_text net30 \<in> excludedPrefixes p" "host_name (vl3_family p) (own_text net30) (ip_val (IP net30))"
    by (rule fresh_vl3)
  let ?c = "empty_connection\<lparr>Context := Some (empty_context\<lparr>IpContext := Some (empty_ip_context\<lparr>SrcIpAddrs := [own_text net30]\<rparr>)\<rparr>)\<rparr>"
  have v: "vl3_inv (pool (vl3_NewServer p))" "own_text (self (pool (vl3_NewServer p))) \<in> excludedPrefixes (pool (vl3_NewServer p))"
    "host_name (vl3_family (pool (vl3_NewServer p))) (own_text (self (pool (vl3_NewServer p)))) (ip_val (IP net30))"
    "src_addrs ?c = [own_text (self (pool (vl3_NewServer p)))]"
    using p(2-5) by (simp_all add: vl3_NewServer_def src_addrs_def)
  obtain v' w' res where "vl3_Close (\<lambda>c w. (Inr (), w)) ?c (vl3_NewServer p) () = Some (res, v', w')" "ip_val (IP net30) \<in> vl3_spare (pool v')"
    using vl3_close_frees_own_address [OF v, of "\<lambda>c w. (Inr (), w)" "()"] by (elim exE conjE) (rule that)
  then show ?thesis using p(1) by (intro exI [of _ p] exI [of _ v'] exI [of _ res]) simp
qed

end
