(* ===== verification/Vl3_Prefixes.thy ===== *)
theory Vl3_Prefixes
  imports Prefix_Pool_Props Vl3_Theorems
begin

text \<open>
  The server that gives prefixes to the endpoints of a virtual L3 network (\<^verbatim>\<open>src/pkg/ipam/vl3ipam\<close>): one pool
  under a mutex, and a stream of requests from every client. A stream is its list of prefixes, given back
  when the stream ends. \<open>None\<close> is a panic (the pool is nil if its prefix did not parse).
\<close>

section \<open>State\<close>

text \<open>\<open>clientsPrefixes\<close> of every stream, in the order they were opened; \<open>None\<close> once a stream has ended.\<close>

record vl3IPAMServer =
  vp_pool :: "IPPool option"
  vp_excludedPrefixes :: "string list"
  initalSize :: nat
  streams :: "string list option list"

datatype prefix_request = UNDEFINED | ALLOCATE string "string list" | DELETE string

definition NewIPAMServer :: "string \<Rightarrow> nat \<Rightarrow> vl3IPAMServer option" where
  "NewIPAMServer prefix initialNSEPrefixSize = do {
     p \<leftarrow> NewWithNetString prefix;
     Some \<lparr>vp_pool = p, vp_excludedPrefixes = [], initalSize = initialNSEPrefixSize, streams = []\<rparr> }"

section \<open>Operations\<close>

fun excludeStringsFrom :: "string list \<Rightarrow> IPPool \<Rightarrow> IPPool option" where
  "excludeStringsFrom [] p = Some p"
| "excludeStringsFrom (e # es) p = do { p \<leftarrow> ExcludeString p e; excludeStringsFrom es p }"

text \<open>The prefix of the response and its excluded prefixes.\<close>

definition vp_allocate ::
  "string \<Rightarrow> string list \<Rightarrow> vl3IPAMServer \<Rightarrow> ((pool_error + string \<times> string list) \<times> vl3IPAMServer) option" where
  "vp_allocate prefix es s = do {
     main \<leftarrow> vp_pool s;
     p \<leftarrow> excludeStringsFrom es (clone main);
     b \<leftarrow> (if prefix = [] then Some False else ContainsNetString main prefix);
     r \<leftarrow> (if b then Some (Inr prefix)
       else do {
         (r, _) \<leftarrow> Pull p;
         Some (case r of
           Inl e \<Rightarrow> Inl e
         | Inr ip \<Rightarrow> Inr (IPNet_String \<lparr>IP = ip, Mask = CIDRMask (int (initalSize s)) (int (length ip) * 8)\<rparr>)) });
     case r of
       Inl e \<Rightarrow> Some (Inl e, s)
     | Inr t \<Rightarrow> do {
         main \<leftarrow> ExcludeString main t;
         Some (Inr (t, es @ vp_excludedPrefixes s), s\<lparr>vp_pool := Some main\<rparr>) } }"

definition vp_delete :: "string \<Rightarrow> vl3IPAMServer \<Rightarrow> vl3IPAMServer option" where
  "vp_delete prefix s = do {
     main \<leftarrow> vp_pool s;
     main \<leftarrow> AddNetString main prefix;
     Some (s\<lparr>vp_pool := Some main\<rparr>) }"

fun addAll :: "string list \<Rightarrow> IPPool \<Rightarrow> IPPool option" where
  "addAll [] p = Some p"
| "addAll (t # ts) p = do { p \<leftarrow> AddNetString p t; addAll ts p }"

text \<open>The end of the loop: the prefixes of the stream go back to the pool.\<close>

definition vp_disconnect :: "nat \<Rightarrow> string list \<Rightarrow> vl3IPAMServer \<Rightarrow> vl3IPAMServer option" where
  "vp_disconnect i ts s =
     (if ts = [] then Some (s\<lparr>streams := (streams s)[i := None]\<rparr>)
      else do {
        main \<leftarrow> vp_pool s;
        main \<leftarrow> addAll ts main;
        Some (s\<lparr>vp_pool := Some main, streams := (streams s)[i := None]\<rparr>) })"

text \<open>
  One round of \<^verbatim>\<open>ManagePrefixes\<close> for stream \<open>i\<close>. \<open>sent\<close> tells whether the response could be sent. A request
  without a type ends the handler at once.
\<close>

definition ManagePrefixes_recv :: "nat \<Rightarrow> bool \<Rightarrow> prefix_request \<Rightarrow> vl3IPAMServer \<Rightarrow> vl3IPAMServer option" where
  "ManagePrefixes_recv i sent r s =
     (case streams s ! i of
        None \<Rightarrow> Some s
      | Some clientsPrefixes \<Rightarrow>
          (case r of
             UNDEFINED \<Rightarrow> Some (s\<lparr>streams := (streams s)[i := None]\<rparr>)
           | ALLOCATE prefix es \<Rightarrow> do {
               (res, s) \<leftarrow> vp_allocate prefix es s;
               case res of
                 Inl e \<Rightarrow> vp_disconnect i clientsPrefixes s
               | Inr (t, _) \<Rightarrow>
                   if sent then Some (s\<lparr>streams := (streams s)[i := Some (clientsPrefixes @ [t])]\<rparr>)
                   else vp_disconnect i (clientsPrefixes @ [t]) s }
           | DELETE prefix \<Rightarrow>
               if prefix \<in> set clientsPrefixes then do {
                 s \<leftarrow> vp_delete prefix s;
                 Some (s\<lparr>streams := (streams s)[i := Some (remove1 prefix clientsPrefixes)]\<rparr>) }
               else Some s))"

definition ManagePrefixes_end :: "nat \<Rightarrow> vl3IPAMServer \<Rightarrow> vl3IPAMServer option" where
  "ManagePrefixes_end i s = (case streams s ! i of None \<Rightarrow> Some s | Some ts \<Rightarrow> vp_disconnect i ts s)"

datatype stream_event = Connect | Receive nat bool prefix_request | Disconnect nat

definition vp_step :: "stream_event \<Rightarrow> vl3IPAMServer \<Rightarrow> vl3IPAMServer option" where
  "vp_step ev s =
     (case ev of
        Connect \<Rightarrow> Some (s\<lparr>streams := streams s @ [Some []]\<rparr>)
      | Receive i sent r \<Rightarrow> if i < length (streams s) then ManagePrefixes_recv i sent r s else Some s
      | Disconnect i \<Rightarrow> if i < length (streams s) then ManagePrefixes_end i s else Some s)"

fun vp_run :: "stream_event list \<Rightarrow> vl3IPAMServer \<Rightarrow> vl3IPAMServer option" where
  "vp_run [] s = Some s"
| "vp_run (ev # evs) s = do { s \<leftarrow> vp_step ev s; vp_run evs s }"

section \<open>Pools of whole blocks\<close>

text \<open>Sets of addresses made of aligned blocks of \<open>2 ^ k\<close> addresses.\<close>

definition blocky :: "nat \<Rightarrow> nat set \<Rightarrow> bool" where
  "blocky k S \<longleftrightarrow> (\<forall>x y. x \<in> S \<longrightarrow> y div 2 ^ k = x div 2 ^ k \<longrightarrow> y \<in> S)"

lemma blocky_Un: "blocky k S \<Longrightarrow> blocky k T \<Longrightarrow> blocky k (S \<union> T)"
  unfolding blocky_def by blast

lemma blocky_Diff: "blocky k S \<Longrightarrow> blocky k T \<Longrightarrow> blocky k (S - T)"
  unfolding blocky_def by (metis DiffD1 DiffD2 DiffI)

lemma blocky_UN: "(\<And>e. e \<in> A \<Longrightarrow> blocky k (f e)) \<Longrightarrow> blocky k (\<Union>e\<in>A. f e)"
  unfolding blocky_def by blast

lemma block_div: "2 ^ k dvd a \<Longrightarrow> y \<in> {a..<a + 2 ^ k} \<longleftrightarrow> y div 2 ^ k = a div (2 ^ k :: nat)"
proof -
  assume "2 ^ k dvd a"
  then obtain q where q: "a = 2 ^ k * q" by (rule dvdE)
  have "y div 2 ^ k = q \<longleftrightarrow> q * 2 ^ k \<le> y \<and> y < Suc q * 2 ^ k"
    using div_nat_eqI [of "2 ^ k" q y] div_times_less_eq_dividend [of y "2 ^ k"] dividend_less_div_times [of "2 ^ k" y]
    by (auto simp: mult.commute)
  then show ?thesis unfolding q by (auto simp: mult.commute)
qed

lemma blocky_block: "j \<ge> k \<Longrightarrow> 2 ^ j dvd a \<Longrightarrow> blocky k {a..<a + 2 ^ j :: nat}"
  unfolding blocky_def
proof (intro allI impI)
  fix x y :: nat
  assume a: "k \<le> j" "2 ^ j dvd a" "x \<in> {a..<a + 2 ^ j}" "y div 2 ^ k = x div 2 ^ k"
  have "z div 2 ^ j = z div 2 ^ k div 2 ^ (j - k)" for z :: nat
    using a(1) by (simp add: div_mult2_eq [symmetric] power_add [symmetric])
  then have "y div 2 ^ j = x div 2 ^ j" using a(4) by simp
  then show "y \<in> {a..<a + 2 ^ j}" using block_div [OF a(2)] a(3) by metis
qed

lemma blocky_least:
  assumes "blocky k S" "x \<in> S" "\<And>y. y \<in> S \<Longrightarrow> x \<le> y"
  shows "2 ^ k dvd x" "{x..<x + 2 ^ k} \<subseteq> S"
proof -
  have "x div 2 ^ k * 2 ^ k div 2 ^ k = x div 2 ^ k" by simp
  then have "x div 2 ^ k * 2 ^ k \<in> S" using assms(1,2) unfolding blocky_def by blast
  then have "x \<le> x div 2 ^ k * 2 ^ k" using assms(3) by blast
  then have "x div 2 ^ k * 2 ^ k = x" by (simp add: div_times_less_eq_dividend le_antisym)
  then show d: "2 ^ k dvd x" by (metis dvd_triv_right)
  show "{x..<x + 2 ^ k} \<subseteq> S" using assms(1,2) block_div [OF d] unfolding blocky_def by blast
qed

end
