(* ===== verification/Vl3_Prefixes_Theorems.thy ===== *)
theory Vl3_Prefixes_Theorems
  imports Vl3_Prefixes
begin

text \<open>
  The properties of the prefix server: the prefixes of the open streams overlap neither each other nor the
  pool, and nothing is lost as long as every stream ends by a disconnection.
\<close>

section \<open>The prefix of an address\<close>

lemma blocky_held: "blocky b (cidr_set t) \<Longrightarrow> blocky b (held_set L t)"
  by (simp add: held_set_def blocky_def)

lemma prefix_text:
  assumes "L \<in> {IPv4len, IPv6len}" "b \<le> 8 * L" "of_family L (aval a)"
    and t: "t = IPNet_String \<lparr>IP = ipFromIPAddress a L, Mask = CIDRMask (int (8 * L - b)) (int (length (ipFromIPAddress a L)) * 8)\<rparr>"
  shows "cidr_set t = {x. x div 2 ^ b = aval a div 2 ^ b}" "cidr_family t = Some L" "blocky b (cidr_set t)"
proof -
  let ?ip = "ipFromIPAddress a L"
  have v: "valid_IP ?ip" "ip_val ?ip = aval a" using ip_of_address [OF assms(3)] by auto
  have l: "length ?ip = L"
    using assms(1,3) ipAddress_roundtrip_v4(1) [of a]
    by (auto simp: of_family_def v4_block_def is_v4_def ipFromIPAddress_def Let_def)
  have "CIDRMask (int (8 * L - b)) (int L * 8) = cidr_bytes (nat (int (8 * L - b))) (nat (int L * 8 div 8))"
    using assms(1,2) by (intro CIDRMask_cidr_bytes) auto
  moreover have "nat (int (8 * L - b)) = 8 * L - b" "nat (int L * 8 div 8) = L" by simp_all
  ultimately have m: "CIDRMask (int (8 * L - b)) (int (length ?ip) * 8) = cidr_bytes (8 * L - b) L" unfolding l by (simp only:)
  have "L = IPv6len \<Longrightarrow> To4 ?ip = []"
    using v4_block_iff [of ?ip] l v(2) assms(3) by (auto simp: of_family_def)
  then have p: "ParseCIDR t = Some (To16 ?ip, \<lparr>IP = map2 (AND) ?ip (cidr_bytes (8 * L - b) L), Mask = cidr_bytes (8 * L - b) L\<rparr>)"
    unfolding t m using ParseCIDR_host [OF l assms(1)] by simp
  let ?bs = "map2 (AND) ?ip (cidr_bytes (8 * L - b) L)"
  have e: "8 * L - (8 * L - b) = b" using assms(2) by simp
  have bs: "length ?bs = L" "bytes_val ?bs = bytes_val ?ip div 2 ^ b * 2 ^ b"
    using bytes_val_masked [of "8 * L - b" ?ip] l e by simp_all
  note n = block_net [OF bs(1) assms(1,2) _ refl, unfolded bs(2), OF dvd_triv_right]
  have "ip_val ?bs = aval a div 2 ^ b * 2 ^ b"
  proof (cases "L = IPv4len")
    case True
    then have "b \<le> 32" using assms(2) by simp
    then have "(2 :: nat) ^ b dvd 0xFFFF00000000" by (rule v4_block_dvd)
    then obtain q where q: "(0xFFFF00000000 :: nat) = 2 ^ b * q" by (rule dvdE)
    let ?v = "bytes_val ?ip"
    have "aval a = q * 2 ^ b + ?v" using True l v(2) q by (simp add: ip_val_4 mult.commute)
    moreover have "(q * 2 ^ b + ?v) div 2 ^ b = q + ?v div 2 ^ b" by simp
    moreover have "ip_val ?bs = q * 2 ^ b + ?v div 2 ^ b * 2 ^ b" using True bs q by (simp add: ip_val_4 mult.commute)
    ultimately show ?thesis by (simp only: distrib_right)
  next
    case False
    then show ?thesis using assms(1) l bs v(2) by (simp add: ip_val_16)
  qed
  moreover have "aval a div 2 ^ b * 2 ^ b div 2 ^ b = aval a div 2 ^ b" by simp
  ultimately have "net_set \<lparr>IP = ?bs, Mask = cidr_bytes (8 * L - b) L\<rparr> = {x. x div 2 ^ b = aval a div 2 ^ b}"
    using n(4) block_div [of b "aval a div 2 ^ b * 2 ^ b"] by (auto simp del: atLeastLessThan_iff)
  then show c: "cidr_set t = {x. x div 2 ^ b = aval a div 2 ^ b}" using p by (simp add: cidr_set_def)
  show "cidr_family t = Some L" using p bs(1) by (simp add: cidr_family_def)
  show "blocky b (cidr_set t)" unfolding c blocky_def by simp
qed

section \<open>What the streams hold\<close>

definition held_count :: "string list \<Rightarrow> nat \<Rightarrow> nat" where
  "held_count ts x = (\<Sum>t\<leftarrow>ts. of_bool (x \<in> cidr_set t))"

definition stream_count :: "nat \<Rightarrow> string list option \<Rightarrow> nat" where
  "stream_count x ts = (case ts of None \<Rightarrow> 0 | Some ts \<Rightarrow> held_count ts x)"

definition spare_set :: "vl3IPAMServer \<Rightarrow> nat set" where
  "spare_set s = (case vp_pool s of None \<Rightarrow> {} | Some p \<Rightarrow> pool_set p)"

text \<open>How often an address is given out or spare.\<close>

definition vp_cover :: "vl3IPAMServer \<Rightarrow> nat \<Rightarrow> nat" where
  "vp_cover s x = sum_list (map (stream_count x) (streams s)) + of_bool (x \<in> spare_set s)"

lemma held_count_simps [simp]: "held_count [] x = 0" "held_count (t # ts) x = of_bool (x \<in> cidr_set t) + held_count ts x"
  "held_count (ts @ us) x = held_count ts x + held_count us x"
  by (simp_all add: held_count_def)

lemma held_count_remove1: "t \<in> set ts \<Longrightarrow> held_count ts x = of_bool (x \<in> cidr_set t) + held_count (remove1 t ts) x"
  by (induction ts) auto

lemma held_count_member: "t \<in> set ts \<Longrightarrow> x \<in> cidr_set t \<Longrightarrow> 0 < held_count ts x"
  by (induction ts) auto

lemma stream_update:
  assumes "i < length ss"
  shows "sum_list (map (stream_count x) (ss[i := o1])) + stream_count x (ss ! i) = sum_list (map (stream_count x) ss) + stream_count x o1"
proof -
  have "sum_list ((map (stream_count x) ss)[i := stream_count x o1]) + map (stream_count x) ss ! i =
      sum_list (map (stream_count x) ss) + stream_count x o1"
    using assms elem_le_sum_list [of i "map (stream_count x) ss"] by (simp add: sum_list_update)
  then show ?thesis using assms by (simp add: map_update)
qed

text \<open>
  The invariant for prefixes of \<open>2 ^ b\<close> addresses in the network \<open>N\<close>; with \<open>c\<close> nothing of the network is
  missing either.
\<close>

definition vp_inv :: "bool \<Rightarrow> nat \<Rightarrow> nat \<Rightarrow> nat set \<Rightarrow> vl3IPAMServer \<Rightarrow> bool" where
  "vp_inv c L b N s \<longleftrightarrow> L \<in> {IPv4len, IPv6len} \<and> b \<le> 8 * L \<and> initalSize s = 8 * L - b \<and> (\<forall>x\<in>N. of_family L x) \<and>
     (\<exists>main. vp_pool s = Some main \<and> pool_inv main \<and> ipLength main = L \<and> blocky b (pool_set main)) \<and>
     (\<forall>ts t. Some ts \<in> set (streams s) \<longrightarrow> t \<in> set ts \<longrightarrow> blocky b (cidr_set t) \<and> (c \<longrightarrow> cidr_family t = Some L)) \<and>
     (\<forall>x. vp_cover s x \<le> of_bool (x \<in> N)) \<and> (c \<longrightarrow> (\<forall>x. vp_cover s x = of_bool (x \<in> N)))"

lemma excludeStringsFrom_spec:
  assumes "pool_inv p"
  shows "\<exists>p'. excludeStringsFrom es p = Some p' \<and> pool_inv p' \<and> ipLength p' = ipLength p \<and> pool_set p' \<subseteq> pool_set p"
  using assms
proof (induction es arbitrary: p)
  case (Cons e es)
  obtain p1 where p1: "ExcludeString p e = Some p1" "pool_inv p1" "ipLength p1 = ipLength p" "pool_set p1 = pool_set p - cidr_set e"
    using ExcludeString_correct [OF Cons.prems] by blast
  then show ?case using Cons.IH [OF p1(2)] by auto
qed simp

lemma addAll_spec:
  assumes "pool_inv p" "blocky b (pool_set p)" "\<forall>t\<in>set ts. blocky b (cidr_set t)"
  shows "\<exists>p'. addAll ts p = Some p' \<and> pool_inv p' \<and> ipLength p' = ipLength p \<and> blocky b (pool_set p') \<and>
    pool_set p' = pool_set p \<union> (\<Union>t\<in>set ts. held_set (ipLength p) t)"
  using assms
proof (induction ts arbitrary: p)
  case (Cons t ts)
  obtain p1 where p1: "AddNetString p t = Some p1" "pool_inv p1" "ipLength p1 = ipLength p"
    "pool_set p1 = pool_set p \<union> held_set (ipLength p) t"
    using AddNetString_correct [OF Cons.prems(1), of t] by (auto simp: held_set_def)
  have "blocky b (pool_set p1)"
    unfolding p1(4) using Cons.prems(2,3) by (intro blocky_Un blocky_held) simp_all
  from Cons.IH [OF p1(2) this] Cons.prems(3) obtain p2 where
    "addAll ts p1 = Some p2" "pool_inv p2" "ipLength p2 = ipLength p1" "blocky b (pool_set p2)"
    "pool_set p2 = pool_set p1 \<union> (\<Union>t\<in>set ts. held_set (ipLength p1) t)" by auto
  then show ?case using p1 by auto
qed simp

section \<open>The steps\<close>

lemma allocate_prefix:
  assumes "vp_inv c L b N s" "blocky b (cidr_set t)" "c \<longrightarrow> t = [] \<or> cidr_family t = Some L"
  obtains r s' where "vp_allocate t es s = Some (r, s')" "\<And>e. r = Inl e \<Longrightarrow> s' = s"
    "\<And>u rest. r = Inr (u, rest) \<Longrightarrow> blocky b (cidr_set u) \<and> (c \<longrightarrow> cidr_family u = Some L) \<and> cidr_set u \<subseteq> spare_set s \<and>
      (\<exists>p. s' = s\<lparr>vp_pool := Some p\<rparr> \<and> pool_inv p \<and> ipLength p = L \<and> pool_set p = spare_set s - cidr_set u)"
proof -
  note finish = that
  obtain main where main: "vp_pool s = Some main" "pool_inv main" "ipLength main = L" "blocky b (pool_set main)"
    and i: "L \<in> {IPv4len, IPv6len}" "b \<le> 8 * L" "initalSize s = 8 * L - b" "\<forall>x\<in>N. of_family L x" "\<forall>x. vp_cover s x \<le> of_bool (x \<in> N)"
    using assms(1) unfolding vp_inv_def by blast
  have spare: "spare_set s = pool_set main" using main(1) by (simp add: spare_set_def)
  have fam: "of_family L x" if "x \<in> pool_set main" for x
    using i(4) i(5) [THEN spec, of x] that spare by (auto simp: vp_cover_def split: if_splits)
  have cl: "clone main = main" by (simp add: clone_def)
  obtain p where p: "excludeStringsFrom es main = Some p" "pool_inv p" "ipLength p = L" "pool_set p \<subseteq> pool_set main"
    using excludeStringsFrom_spec [OF main(2), of es] main(3) by auto
  have take: ?thesis if u: "blocky b (cidr_set u)" "c \<longrightarrow> cidr_family u = Some L" "cidr_set u \<subseteq> pool_set main"
    and al: "\<And>m. ExcludeString main u = Some m \<Longrightarrow> vp_allocate t es s = Some (Inr (u, es @ vp_excludedPrefixes s), s\<lparr>vp_pool := Some m\<rparr>)" for u
  proof -
    obtain m where m: "ExcludeString main u = Some m" "pool_inv m" "ipLength m = L" "pool_set m = pool_set main - cidr_set u"
      using ExcludeString_correct [OF main(2), of u] main(3) by auto
    show ?thesis by (rule finish [OF al [OF m(1)]]) (use u m spare in auto)
  qed
  show ?thesis
  proof (cases "t \<noteq> [] \<and> cidr_set t \<subseteq> pool_set main \<and> ParseCIDR t \<noteq> None")
    case True
    have "vp_allocate t es s = Some (Inr (t, es @ vp_excludedPrefixes s), s\<lparr>vp_pool := Some m\<rparr>)" if "ExcludeString main t = Some m" for m
      using True that main(1) cl p(1) by (simp add: vp_allocate_def ContainsNetString_inside [OF main(2)])
    then show ?thesis using take [of t] True assms(2,3) by blast
  next
    case False
    then have b: "(if t = [] then Some False else ContainsNetString main t) = Some False"
      by (auto simp: ContainsNetString_inside [OF main(2)])
    obtain r p' where pl: "Pull p = Some (r, p')"
      "case r of Inl e \<Rightarrow> e = PoolEmpty \<and> pool_set p = {} \<and> p' = p
       | Inr ip \<Rightarrow> \<exists>a. ip = ipFromIPAddress a (ipLength p) \<and> aval a \<in> pool_set p \<and>
         (\<forall>n\<in>pool_set p. aval a \<le> n) \<and> pool_set p' = pool_set p - {aval a}"
      using Pull_correct [OF p(2)] by (elim exE conjE) (rule that)
    show ?thesis
    proof (cases r)
      case (Inl e)
      then have "vp_allocate t es s = Some (Inl e, s)" using main(1) cl p(1) b pl(1) by (simp add: vp_allocate_def)
      then show ?thesis by (rule finish) simp_all
    next
      case (Inr ip)
      then obtain a where a: "ip = ipFromIPAddress a L" "aval a \<in> pool_set p" using pl(2) p(3) by auto
      let ?u = "IPNet_String \<lparr>IP = ip, Mask = CIDRMask (int (initalSize s)) (int (length ip) * 8)\<rparr>"
      have al: "vp_allocate t es s = Some (Inr (?u, es @ vp_excludedPrefixes s), s\<lparr>vp_pool := Some m\<rparr>)" if "ExcludeString main ?u = Some m" for m
        using that main(1) cl p(1) b pl(1) Inr by (simp add: vp_allocate_def)
      have am: "aval a \<in> pool_set main" using a(2) p(4) by blast
      have u: "cidr_set ?u = {x. x div 2 ^ b = aval a div 2 ^ b}" "cidr_family ?u = Some L" "blocky b (cidr_set ?u)"
        by (rule prefix_text [OF i(1,2) fam [OF am]]; simp add: a(1) i(3))+
      have "cidr_set ?u \<subseteq> pool_set main" unfolding u(1) using main(4) am unfolding blocky_def by blast
      then show ?thesis using take [of ?u] u(2,3) al by blast
    qed
  qed
qed

lemma vp_inv_move:
  assumes "vp_inv c L b N s" "initalSize s' = initalSize s"
    "vp_pool s' = Some main" "pool_inv main" "ipLength main = L" "blocky b (pool_set main)"
    "\<And>ts t. Some ts \<in> set (streams s') \<Longrightarrow> t \<in> set ts \<Longrightarrow> blocky b (cidr_set t) \<and> (c \<longrightarrow> cidr_family t = Some L)"
    "\<And>x. vp_cover s' x \<le> vp_cover s x" "\<And>x. c \<Longrightarrow> vp_cover s' x = vp_cover s x"
  shows "vp_inv c L b N s'"
  using assms(1) unfolding vp_inv_def
  apply (elim conjE)
  apply (intro conjI)
        apply simp
       apply simp
      apply (simp add: assms(2))
     apply assumption
    apply (rule exI [of _ main], simp add: assms(3-6))
   apply (use assms(7) in blast)
   apply (use assms(8) le_trans in blast)
  apply (use assms(9) in simp)
  done

lemma vp_invE:
  assumes "vp_inv c L b N s"
  obtains main where "vp_pool s = Some main" "pool_inv main" "ipLength main = L" "blocky b (pool_set main)"
    "spare_set s = pool_set main" "L \<in> {IPv4len, IPv6len}"
    "\<And>ts t. Some ts \<in> set (streams s) \<Longrightarrow> t \<in> set ts \<Longrightarrow> blocky b (cidr_set t) \<and> (c \<longrightarrow> cidr_family t = Some L)"
    "\<And>x. vp_cover s x \<le> 1"
proof -
  obtain main where main: "vp_pool s = Some main" "pool_inv main" "ipLength main = L" "blocky b (pool_set main)"
    using assms unfolding vp_inv_def by blast
  have "vp_cover s x \<le> 1" for x
  proof -
    have "vp_cover s x \<le> of_bool (x \<in> N)" using assms unfolding vp_inv_def by blast
    also have "\<dots> \<le> 1" by simp
    finally show ?thesis .
  qed
  then show ?thesis using that [OF main] main(1) assms unfolding vp_inv_def spare_set_def by auto
qed

text \<open>Giving prefixes of a stream back.\<close>

lemma give_back_cover:
  assumes "vp_inv c L b N s" "i < length (streams s)" "streams s ! i = Some ts"
    and s': "streams s' = (streams s)[i := o1]" "spare_set s' = spare_set s \<union> (\<Union>t\<in>set back. held_set L t)"
    and gb: "\<And>x. held_count ts x = held_count back x + stream_count x o1" "set back \<subseteq> set ts"
  shows "vp_cover s' x \<le> vp_cover s x" "c \<Longrightarrow> vp_cover s' x = vp_cover s x"
proof -
  obtain m where m: "\<And>ts t. Some ts \<in> set (streams s) \<Longrightarrow> t \<in> set ts \<Longrightarrow> blocky b (cidr_set t) \<and> (c \<longrightarrow> cidr_family t = Some L)"
    "\<And>x. vp_cover s x \<le> 1" by (rule vp_invE [OF assms(1)]) (rule that)
  have u: "sum_list (map (stream_count x) (streams s')) + held_count back x = sum_list (map (stream_count x) (streams s))"
    using stream_update [OF assms(2), of x o1] assms(3) gb(1) [of x] s'(1) by (simp add: stream_count_def)
  have "vp_cover s' x \<le> vp_cover s x \<and> (c \<longrightarrow> vp_cover s' x = vp_cover s x)"
  proof (cases "x \<in> (\<Union>t\<in>set back. held_set L t)")
    case True
    then obtain t where "t \<in> set back" "x \<in> cidr_set t" by (auto simp: held_set_def split: if_splits)
    then have "0 < held_count back x" by (rule held_count_member)
    then show ?thesis using u m(2) [of x] s'(2) True by (simp add: vp_cover_def)
  next
    case False
    have "held_count back x = 0" if c
    proof -
      have "x \<notin> cidr_set t" if "t \<in> set back" for t
        using m(1) [of ts t] \<open>c\<close> that False gb(2) assms(2,3) nth_mem [OF assms(2)] by (auto simp: held_set_def)
      then show ?thesis by (simp add: held_count_def)
    qed
    then show ?thesis using u s'(2) False by (auto simp: vp_cover_def)
  qed
  then show "vp_cover s' x \<le> vp_cover s x" "c \<Longrightarrow> vp_cover s' x = vp_cover s x" by simp_all
qed

lemma set_update_streams: "Some us \<in> set (xs[i := o1]) \<Longrightarrow> Some us \<in> set xs \<or> o1 = Some us"
  using set_update_subset_insert [of xs i o1] by auto

lemma give_back_inv:
  assumes "vp_inv c L b N s" "i < length (streams s)" "streams s ! i = Some ts" "vp_pool s = Some main"
    and gb: "\<And>x. held_count ts x = held_count back x + stream_count x o1" "set back \<subseteq> set ts" "\<And>us. o1 = Some us \<Longrightarrow> set us \<subseteq> set ts"
  shows "\<exists>main'. addAll back main = Some main' \<and> vp_inv c L b N (s\<lparr>vp_pool := Some main', streams := (streams s)[i := o1]\<rparr>)"
proof -
  have m: "pool_inv main" "ipLength main = L" "blocky b (pool_set main)" "spare_set s = pool_set main"
    "\<And>ts t. Some ts \<in> set (streams s) \<Longrightarrow> t \<in> set ts \<Longrightarrow> blocky b (cidr_set t) \<and> (c \<longrightarrow> cidr_family t = Some L)"
    using assms(4) by (auto intro: vp_invE [OF assms(1)])
  have ts: "Some ts \<in> set (streams s)" using assms(2,3) nth_mem [OF assms(2)] by simp
  have "\<forall>t\<in>set back. blocky b (cidr_set t)" using m(5) [OF ts] gb(2) by blast
  from addAll_spec [OF m(1,3) this] obtain main' where a: "addAll back main = Some main'" "pool_inv main'" "ipLength main' = L"
    "blocky b (pool_set main')" "pool_set main' = pool_set main \<union> (\<Union>t\<in>set back. held_set L t)" using m(2) by auto
  let ?s = "s\<lparr>vp_pool := Some main', streams := (streams s)[i := o1]\<rparr>"
  have sp: "streams ?s = (streams s)[i := o1]" "spare_set ?s = spare_set s \<union> (\<Union>t\<in>set back. held_set L t)"
    using a(5) m(4) by (simp_all add: spare_set_def)
  note cov = give_back_cover [OF assms(1-3) sp gb(1,2)]
  have "vp_inv c L b N ?s"
  proof (rule vp_inv_move [OF assms(1), where main = main'])
    fix us t
    assume "Some us \<in> set (streams ?s)" "t \<in> set us"
    then show "blocky b (cidr_set t) \<and> (c \<longrightarrow> cidr_family t = Some L)"
      using set_update_streams [of us "streams s" i o1] m(5) [OF ts] m(5) [of us t] gb(3) by auto
  qed (use a cov in auto)
  then show ?thesis using a(1) by blast
qed

lemma disconnect_inv:
  assumes "vp_inv c L b N s" "i < length (streams s)" "streams s ! i = Some ts"
  shows "\<exists>s'. vp_disconnect i ts s = Some s' \<and> vp_inv c L b N s'"
proof -
  obtain main where main: "vp_pool s = Some main" by (rule vp_invE [OF assms(1)]) (rule that)
  obtain main' where "addAll ts main = Some main'" "vp_inv c L b N (s\<lparr>vp_pool := Some main', streams := (streams s)[i := None]\<rparr>)"
    using give_back_inv [OF assms main, of ts None] by (auto simp: stream_count_def)
  moreover have "s\<lparr>vp_pool := Some main', streams := (streams s)[i := None]\<rparr> = s\<lparr>streams := (streams s)[i := None]\<rparr>" if "ts = []"
    using that main \<open>addAll ts main = Some main'\<close> by simp
  ultimately show ?thesis using main by (cases "ts = []") (simp_all add: vp_disconnect_def)
qed

lemma disconnect_held: "vp_disconnect i ts (s\<lparr>streams := (streams s)[i := o1]\<rparr>) = vp_disconnect i ts s"
  by (simp add: vp_disconnect_def)

lemma allocate_inv:
  assumes "vp_inv c L b N s" "i < length (streams s)" "streams s ! i = Some ts"
    "blocky b (cidr_set t)" "c \<longrightarrow> t = [] \<or> cidr_family t = Some L"
  obtains r s' where "vp_allocate t es s = Some (r, s')" "\<And>e. r = Inl e \<Longrightarrow> s' = s"
    "\<And>u rest. r = Inr (u, rest) \<Longrightarrow> streams s' = streams s \<and> vp_inv c L b N (s'\<lparr>streams := (streams s)[i := Some (ts @ [u])]\<rparr>)"
proof -
  obtain r s' where a: "vp_allocate t es s = Some (r, s')" "\<And>e. r = Inl e \<Longrightarrow> s' = s"
    "\<And>u rest. r = Inr (u, rest) \<Longrightarrow> blocky b (cidr_set u) \<and> (c \<longrightarrow> cidr_family u = Some L) \<and> cidr_set u \<subseteq> spare_set s \<and>
      (\<exists>p. s' = s\<lparr>vp_pool := Some p\<rparr> \<and> pool_inv p \<and> ipLength p = L \<and> pool_set p = spare_set s - cidr_set u)"
    by (rule allocate_prefix [OF assms(1,4,5), of es]) (rule that)
  have step: "streams s' = streams s \<and> vp_inv c L b N (s'\<lparr>streams := (streams s)[i := Some (ts @ [u])]\<rparr>)" if r: "r = Inr (u, rest)" for u rest
  proof -
    obtain p where p: "blocky b (cidr_set u)" "c \<longrightarrow> cidr_family u = Some L" "cidr_set u \<subseteq> spare_set s"
      "s' = s\<lparr>vp_pool := Some p\<rparr>" "pool_inv p" "ipLength p = L" "pool_set p = spare_set s - cidr_set u"
      using a(3) [OF r] by blast
    obtain main where m: "blocky b (pool_set main)" "spare_set s = pool_set main"
      "\<And>ts t. Some ts \<in> set (streams s) \<Longrightarrow> t \<in> set ts \<Longrightarrow> blocky b (cidr_set t) \<and> (c \<longrightarrow> cidr_family t = Some L)"
      by (rule vp_invE [OF assms(1)]) (rule that)
    let ?s = "s'\<lparr>streams := (streams s)[i := Some (ts @ [u])]\<rparr>"
    have ts: "Some ts \<in> set (streams s)" using assms(2,3) nth_mem [OF assms(2)] by simp
    have "sum_list (map (stream_count x) (streams ?s)) = sum_list (map (stream_count x) (streams s)) + of_bool (x \<in> cidr_set u)" for x
      using stream_update [OF assms(2), of x "Some (ts @ [u])"] assms(3) by (simp add: stream_count_def)
    moreover have "spare_set ?s = spare_set s - cidr_set u" using p(4,7) by (simp add: spare_set_def)
    ultimately have cov: "vp_cover ?s x = vp_cover s x" for x using p(3) by (auto simp: vp_cover_def)
    have "vp_inv c L b N ?s"
    proof (rule vp_inv_move [OF assms(1), where main = p])
      show "blocky b (pool_set p)" unfolding p(7) m(2) by (rule blocky_Diff [OF m(1) p(1)])
      fix us v
      assume "Some us \<in> set (streams ?s)" "v \<in> set us"
      then show "blocky b (cidr_set v) \<and> (c \<longrightarrow> cidr_family v = Some L)"
        using set_update_streams [of us "streams s" i "Some (ts @ [u])"] m(3) [OF ts, of v] m(3) [of us v] p(1,2) by auto
    qed (use p cov in auto)
    then show ?thesis using p(4) by simp
  qed
  show ?thesis by (rule that [OF a(1)]) (erule a(2), erule step)
qed

text \<open>
  The requests the property is about: prefixes that are asked for by name are of whole blocks. With \<open>c\<close>, of the
  family of the pool too, and no request is without a type.
\<close>

fun request_ok :: "bool \<Rightarrow> nat \<Rightarrow> nat \<Rightarrow> prefix_request \<Rightarrow> bool" where
  "request_ok c L b UNDEFINED \<longleftrightarrow> \<not> c"
| "request_ok c L b (ALLOCATE t es) \<longleftrightarrow> blocky b (cidr_set t) \<and> (c \<longrightarrow> t = [] \<or> cidr_family t = Some L)"
| "request_ok c L b (DELETE t) \<longleftrightarrow> True"

fun event_ok :: "bool \<Rightarrow> nat \<Rightarrow> nat \<Rightarrow> stream_event \<Rightarrow> bool" where
  "event_ok c L b (Receive i sent r) \<longleftrightarrow> request_ok c L b r"
| "event_ok c L b _ \<longleftrightarrow> True"

lemma drop_stream_inv:
  assumes "vp_inv False L b N s" "i < length (streams s)" "streams s ! i = Some ts"
  shows "vp_inv False L b N (s\<lparr>streams := (streams s)[i := None]\<rparr>)"
proof -
  let ?s = "s\<lparr>streams := (streams s)[i := None]\<rparr>"
  obtain main where m: "vp_pool s = Some main" "pool_inv main" "ipLength main = L" "blocky b (pool_set main)"
    "\<And>ts t. Some ts \<in> set (streams s) \<Longrightarrow> t \<in> set ts \<Longrightarrow> blocky b (cidr_set t) \<and> (False \<longrightarrow> cidr_family t = Some L)"
    by (rule vp_invE [OF assms(1)]) (rule that)
  have "sum_list (map (stream_count x) (streams ?s)) \<le> sum_list (map (stream_count x) (streams s))" for x
    using stream_update [OF assms(2), of x None] by (simp add: stream_count_def [of x None])
  then have cov: "vp_cover ?s x \<le> vp_cover s x" for x by (simp add: vp_cover_def spare_set_def)
  show ?thesis
  proof (rule vp_inv_move [OF assms(1), where main = main])
    fix us t
    assume "Some us \<in> set (streams ?s)" "t \<in> set us"
    then show "blocky b (cidr_set t) \<and> (False \<longrightarrow> cidr_family t = Some L)"
      using set_update_streams [of us "streams s" i None] m(5) by auto
  qed (use m cov in auto)
qed

lemma receive_inv:
  assumes "vp_inv c L b N s" "i < length (streams s)" "request_ok c L b r"
  shows "\<exists>s'. ManagePrefixes_recv i sent r s = Some s' \<and> vp_inv c L b N s'"
proof (cases "streams s ! i")
  case None
  then show ?thesis using assms(1) by (simp add: ManagePrefixes_recv_def)
next
  case (Some ts)
  show ?thesis
  proof (cases r)
    case UNDEFINED
    then have c: "c = False" using assms(3) by simp
    show ?thesis
      using drop_stream_inv [OF assms(1) [unfolded c] assms(2) Some] UNDEFINED Some c by (simp add: ManagePrefixes_recv_def)
  next
    case (ALLOCATE t es)
    then have t: "blocky b (cidr_set t)" "c \<longrightarrow> t = [] \<or> cidr_family t = Some L" using assms(3) by simp_all
    obtain q s1 where a: "vp_allocate t es s = Some (q, s1)" "\<And>e. q = Inl e \<Longrightarrow> s1 = s"
      "\<And>u rest. q = Inr (u, rest) \<Longrightarrow> streams s1 = streams s \<and> vp_inv c L b N (s1\<lparr>streams := (streams s)[i := Some (ts @ [u])]\<rparr>)"
      by (rule allocate_inv [OF assms(1,2) Some t, of es]) (rule that)
    show ?thesis
    proof (cases q)
      case (Inl e)
      then show ?thesis
        using disconnect_inv [OF assms(1,2) Some] a(1,2) ALLOCATE Some by (simp add: ManagePrefixes_recv_def)
    next
      case (Inr ur)
      obtain u rest where ur: "ur = (u, rest)" by (cases ur)
      let ?s = "s1\<lparr>streams := (streams s)[i := Some (ts @ [u])]\<rparr>"
      have s: "streams s1 = streams s" "vp_inv c L b N ?s" using a(3) Inr ur by simp_all
      obtain s2 where d: "vp_disconnect i (ts @ [u]) ?s = Some s2" "vp_inv c L b N s2"
        using disconnect_inv [OF s(2), of i "ts @ [u]"] assms(2) by auto
      have "vp_disconnect i (ts @ [u]) s1 = Some s2"
        using d(1) disconnect_held [of i "ts @ [u]" s1 "Some (ts @ [u])"] s(1) by simp
      then show ?thesis using a(1) ALLOCATE Some Inr ur s d(2) by (simp add: ManagePrefixes_recv_def)
    qed
  next
    case (DELETE t)
    show ?thesis
    proof (cases "t \<in> set ts")
      case False
      then show ?thesis using assms(1) DELETE Some by (simp add: ManagePrefixes_recv_def)
    next
      case True
      obtain main where main: "vp_pool s = Some main" by (rule vp_invE [OF assms(1)]) (rule that)
      obtain main' where m: "addAll [t] main = Some main'"
        "vp_inv c L b N (s\<lparr>vp_pool := Some main', streams := (streams s)[i := Some (remove1 t ts)]\<rparr>)"
        using give_back_inv [OF assms(1,2) Some main, of "[t]" "Some (remove1 t ts)"] True set_remove1_subset [of t ts]
        by (auto simp: stream_count_def held_count_remove1 [OF True])
      then show ?thesis using True DELETE Some main by (auto simp: ManagePrefixes_recv_def vp_delete_def bind_eq_Some_conv)
    qed
  qed
qed

lemma vp_step_inv:
  assumes "vp_inv c L b N s" "event_ok c L b ev"
  shows "\<exists>s'. vp_step ev s = Some s' \<and> vp_inv c L b N s'"
proof (cases ev)
  case Connect
  obtain main where m: "vp_pool s = Some main" "pool_inv main" "ipLength main = L" "blocky b (pool_set main)"
    "\<And>ts t. Some ts \<in> set (streams s) \<Longrightarrow> t \<in> set ts \<Longrightarrow> blocky b (cidr_set t) \<and> (c \<longrightarrow> cidr_family t = Some L)"
    by (rule vp_invE [OF assms(1)]) (rule that)
  have "vp_inv c L b N (s\<lparr>streams := streams s @ [Some []]\<rparr>)"
    by (rule vp_inv_move [OF assms(1), where main = main]) (use m in \<open>auto simp: vp_cover_def stream_count_def spare_set_def\<close>)
  then show ?thesis using Connect by (simp add: vp_step_def)
next
  case (Receive i sent r)
  then show ?thesis using receive_inv [OF assms(1), of i r sent] assms by (simp add: vp_step_def)
next
  case (Disconnect i)
  then show ?thesis using disconnect_inv [OF assms(1), of i] assms(1)
    by (auto simp: vp_step_def ManagePrefixes_end_def split: option.splits)
qed

lemma vp_run_inv:
  "vp_inv c L b N s \<Longrightarrow> list_all (event_ok c L b) evs \<Longrightarrow> \<exists>s'. vp_run evs s = Some s' \<and> vp_inv c L b N s'"
proof (induction evs arbitrary: s)
  case (Cons ev evs)
  then obtain s1 where "vp_step ev s = Some s1" "vp_inv c L b N s1" using vp_step_inv [of c L b N s ev] by auto
  then show ?case using Cons.IH [of s1] Cons.prems by simp
qed simp

text \<open>A network the server can be made for, with prefixes of the given length.\<close>

definition prefix_network :: "IPNet \<Rightarrow> nat \<Rightarrow> bool" where
  "prefix_network n plen \<longleftrightarrow> plen \<le> 8 * length (IP n) \<and> (\<forall>x\<in>net_set n. of_family (length (IP n)) x) \<and>
     blocky (8 * length (IP n) - plen) (net_set n)"

lemma new_inv:
  assumes "ParseCIDR prefix = Some (ip, n)" "prefix_network n plen"
  obtains s where "NewIPAMServer prefix plen = Some s" "streams s = []" "\<And>c. vp_inv c (length (IP n)) (8 * length (IP n) - plen) (net_set n) s"
proof -
  have v: "valid_IPNet n" "length (IP n) \<in> {IPv4len, IPv6len}" using ParseCIDR_valid [OF assms(1)] ParseCIDR_shape [OF assms(1)] by auto
  obtain p where p: "NewWithNet n = Some p" "pool_inv p" "pool_set p = net_set n" "ipLength p = length (IP n)"
    using NewWithNet_correct [OF v(1)] by blast
  let ?s = "\<lparr>vp_pool = Some p, vp_excludedPrefixes = [], initalSize = plen, streams = []\<rparr>"
  have "NewIPAMServer prefix plen = Some ?s" using assms(1) p(1) by (simp add: NewIPAMServer_def NewWithNetString_def)
  moreover have "vp_inv c (length (IP n)) (8 * length (IP n) - plen) (net_set n) ?s" for c
    using assms(2) p v(2) by (auto simp: vp_inv_def prefix_network_def vp_cover_def spare_set_def)
  ultimately show ?thesis using that [of ?s] by simp
qed


section \<open>Witness\<close>

lemma net30_prefixes: "prefix_network net30 31"
proof -
  have "blocky 1 {281470849515520..<281470849515520 + 2 ^ 2}" by (rule blocky_block) simp_all
  then show ?thesis using net30_ok(2) by (auto simp: prefix_network_def net30_set net30_def [THEN arg_cong, of "\<lambda>n. length (IP n)"])
qed


end
