(* ===== verification/Next_Chain.thy ===== *)
theory Next_Chain
  imports NSM_Api Registry_Api "HOL-Library.Monad_Syntax"
begin

text \<open>
  How chain elements call each other (\<^verbatim>\<open>src/pkg/networkservice/core/next\<close>, \<^verbatim>\<open>src/pkg/registry/core/next\<close>). A chain is
  a list of elements, which may be chains again; the element that is called finds the one to call next
  in its context. The six chains of the source (network service servers and clients, and those of the two
  registries) have one structure and differ in their handlers, so the structure is modelled once.
\<close>

section \<open>Servers and contexts\<close>

text \<open>
  A server is an element, the tail, or a position in a list of servers with the server that follows the list
  (\<^verbatim>\<open>nextParent\<close>, nil in a new chain). Of a context only the value under \<^verbatim>\<open>nextServerKey\<close> matters here.
\<close>

datatype 'e server =
  Element 'e
| TailServer
| NextServer "'e server option" "'e server list" nat

type_synonym 'e next_context = "'e server option"

definition next_NewWrappedServer :: "('e server \<Rightarrow> 'e server) \<Rightarrow> 'e server list \<Rightarrow> 'e server" where
  "next_NewWrappedServer wrapper ss = NextServer None (map wrapper ss) 0"

definition next_NewServer :: "'e server list \<Rightarrow> 'e server" where
  "next_NewServer ss = next_NewWrappedServer (\<lambda>server. server) ss"

definition withNextServer :: "'e next_context \<Rightarrow> 'e server option \<Rightarrow> 'e next_context" where
  "withNextServer ctx n = n"

definition Server :: "'e next_context \<Rightarrow> 'e server" where
  "Server ctx = (case ctx of None \<Rightarrow> TailServer | Some rv \<Rightarrow> rv)"

definition getServerAndContext ::
  "'e server option \<Rightarrow> 'e server list \<Rightarrow> nat \<Rightarrow> 'e next_context \<Rightarrow> 'e server \<times> 'e next_context" where
  "getServerAndContext parent ss i ctx =
     (let nextParent = (if i = 0 then Some (Server ctx) else parent) in
      if i = 0 \<and> ss = [] then (Server ctx, ctx)
      else if i + 1 < length ss then (ss ! i, withNextServer ctx (Some (NextServer nextParent ss (i + 1))))
      else (ss ! i, withNextServer ctx nextParent))"

section \<open>Calls\<close>

text \<open>
  A handler takes a request and the state of the world; \<open>None\<close> is a panic, or a call that has not come back
  within the given number of nested calls. \<open>sem\<close> is what an element does, given the handler of the
  server it finds in its context; \<open>tail\<close> is what the tail does.
\<close>

type_synonym ('r, 's, 'a) handler = "'r \<Rightarrow> 's \<Rightarrow> ('a \<times> 's) option"

fun serve ::
  "('e \<Rightarrow> ('r, 's, 'a) handler \<Rightarrow> ('r, 's, 'a) handler) \<Rightarrow> ('r, 's, 'a) handler \<Rightarrow> nat \<Rightarrow> 'e server \<Rightarrow> 'e next_context \<Rightarrow> ('r, 's, 'a) handler" where
  "serve sem tail 0 server ctx = (\<lambda>r s. None)"
| "serve sem tail (Suc n) (Element e) ctx = sem e (serve sem tail n (Server ctx) ctx)"
| "serve sem tail (Suc n) TailServer ctx = tail"
| "serve sem tail (Suc n) (NextServer p ss i) ctx =
     (let (server, ctx) = getServerAndContext p ss i ctx in serve sem tail n server ctx)"

section \<open>The handlers\<close>

text \<open>
  What the tails answer: a request gets its connection back (nil if it has none), a registration what it
  registers, a search nothing.
\<close>

type_synonym 's request_handler = "(NetworkServiceRequest, 's, nsm_error + Connection option) handler"
type_synonym ('r, 's) ack_handler = "('r, 's, nsm_error + unit) handler"
type_synonym ('r, 's) echo_handler = "('r, 's, nsm_error + 'r) handler"
type_synonym ('q, 's, 'a) find_handler = "('q, 's, nsm_error + 'a list) handler"

definition tailServer_Request :: "'s request_handler" where
  "tailServer_Request request s = Some (Inr (req_connection request), s)"

definition tailServer_Close :: "(Connection, 's) ack_handler" where
  "tailServer_Close conn s = Some (Inr (), s)"

definition tailClient_Request :: "'s request_handler" where
  "tailClient_Request request s = Some (Inr (req_connection request), s)"

definition tailClient_Close :: "(Connection, 's) ack_handler" where
  "tailClient_Close conn s = Some (Inr (), s)"

text \<open>
  A server's search sends what it finds to the stream, which is part of the state; a client's search
  returns the stream, which is over (\<^verbatim>\<open>io.EOF\<close>) at the tail.
\<close>

definition tailNSServer_Register :: "(NetworkServiceMsg, 's) echo_handler" where
  "tailNSServer_Register r s = Some (Inr r, s)"

definition tailNSServer_Find :: "('q, 's) ack_handler" where
  "tailNSServer_Find query s = Some (Inr (), s)"

definition tailNSServer_Unregister :: "(NetworkServiceMsg, 's) ack_handler" where
  "tailNSServer_Unregister r s = Some (Inr (), s)"

definition tailNSClient_Register :: "(NetworkServiceMsg, 's) echo_handler" where
  "tailNSClient_Register r s = Some (Inr r, s)"

definition tailNSClient_Find :: "('q, 's, 'a) find_handler" where
  "tailNSClient_Find query s = Some (Inr [], s)"

definition tailNSClient_Unregister :: "(NetworkServiceMsg, 's) ack_handler" where
  "tailNSClient_Unregister r s = Some (Inr (), s)"

definition tailNSEServer_Register :: "(NetworkServiceEndpoint, 's) echo_handler" where
  "tailNSEServer_Register r s = Some (Inr r, s)"

definition tailNSEServer_Find :: "('q, 's) ack_handler" where
  "tailNSEServer_Find query s = Some (Inr (), s)"

definition tailNSEServer_Unregister :: "(NetworkServiceEndpoint, 's) ack_handler" where
  "tailNSEServer_Unregister r s = Some (Inr (), s)"

definition tailNSEClient_Register :: "(NetworkServiceEndpoint, 's) echo_handler" where
  "tailNSEClient_Register r s = Some (Inr r, s)"

definition tailNSEClient_Find :: "('q, 's, 'a) find_handler" where
  "tailNSEClient_Find query s = Some (Inr [], s)"

definition tailNSEClient_Unregister :: "(NetworkServiceEndpoint, 's) ack_handler" where
  "tailNSEClient_Unregister r s = Some (Inr (), s)"

text \<open>The methods of a position in a chain: the server to call and its context, then the same method of that server.\<close>

definition nextServer_Request ::
  "('e \<Rightarrow> 's request_handler \<Rightarrow> 's request_handler) \<Rightarrow> nat \<Rightarrow> 'e server option \<Rightarrow> 'e server list \<Rightarrow> nat \<Rightarrow> 'e next_context \<Rightarrow> 's request_handler" where
  "nextServer_Request sem n p ss i ctx = (let (server, ctx) = getServerAndContext p ss i ctx in serve sem tailServer_Request n server ctx)"

definition nextServer_Close ::
  "('e \<Rightarrow> (Connection, 's) ack_handler \<Rightarrow> (Connection, 's) ack_handler) \<Rightarrow> nat \<Rightarrow> 'e server option \<Rightarrow> 'e server list \<Rightarrow> nat \<Rightarrow> 'e next_context \<Rightarrow> (Connection, 's) ack_handler" where
  "nextServer_Close sem n p ss i ctx = (let (server, ctx) = getServerAndContext p ss i ctx in serve sem tailServer_Close n server ctx)"

definition nextClient_Request ::
  "('e \<Rightarrow> 's request_handler \<Rightarrow> 's request_handler) \<Rightarrow> nat \<Rightarrow> 'e server option \<Rightarrow> 'e server list \<Rightarrow> nat \<Rightarrow> 'e next_context \<Rightarrow> 's request_handler" where
  "nextClient_Request sem n p ss i ctx = (let (server, ctx) = getServerAndContext p ss i ctx in serve sem tailClient_Request n server ctx)"

definition nextClient_Close ::
  "('e \<Rightarrow> (Connection, 's) ack_handler \<Rightarrow> (Connection, 's) ack_handler) \<Rightarrow> nat \<Rightarrow> 'e server option \<Rightarrow> 'e server list \<Rightarrow> nat \<Rightarrow> 'e next_context \<Rightarrow> (Connection, 's) ack_handler" where
  "nextClient_Close sem n p ss i ctx = (let (server, ctx) = getServerAndContext p ss i ctx in serve sem tailClient_Close n server ctx)"

definition nextNSServer_Register ::
  "('e \<Rightarrow> (NetworkServiceMsg, 's) echo_handler \<Rightarrow> (NetworkServiceMsg, 's) echo_handler) \<Rightarrow> nat \<Rightarrow> 'e server option \<Rightarrow> 'e server list \<Rightarrow> nat \<Rightarrow> 'e next_context \<Rightarrow> (NetworkServiceMsg, 's) echo_handler" where
  "nextNSServer_Register sem n p ss i ctx = (let (server, ctx) = getServerAndContext p ss i ctx in serve sem tailNSServer_Register n server ctx)"

definition nextNSServer_Find ::
  "('e \<Rightarrow> ('q, 's) ack_handler \<Rightarrow> ('q, 's) ack_handler) \<Rightarrow> nat \<Rightarrow> 'e server option \<Rightarrow> 'e server list \<Rightarrow> nat \<Rightarrow> 'e next_context \<Rightarrow> ('q, 's) ack_handler" where
  "nextNSServer_Find sem n p ss i ctx = (let (server, ctx) = getServerAndContext p ss i ctx in serve sem tailNSServer_Find n server ctx)"

definition nextNSServer_Unregister ::
  "('e \<Rightarrow> (NetworkServiceMsg, 's) ack_handler \<Rightarrow> (NetworkServiceMsg, 's) ack_handler) \<Rightarrow> nat \<Rightarrow> 'e server option \<Rightarrow> 'e server list \<Rightarrow> nat \<Rightarrow> 'e next_context \<Rightarrow> (NetworkServiceMsg, 's) ack_handler" where
  "nextNSServer_Unregister sem n p ss i ctx = (let (server, ctx) = getServerAndContext p ss i ctx in serve sem tailNSServer_Unregister n server ctx)"

definition nextNSClient_Register ::
  "('e \<Rightarrow> (NetworkServiceMsg, 's) echo_handler \<Rightarrow> (NetworkServiceMsg, 's) echo_handler) \<Rightarrow> nat \<Rightarrow> 'e server option \<Rightarrow> 'e server list \<Rightarrow> nat \<Rightarrow> 'e next_context \<Rightarrow> (NetworkServiceMsg, 's) echo_handler" where
  "nextNSClient_Register sem n p ss i ctx = (let (server, ctx) = getServerAndContext p ss i ctx in serve sem tailNSClient_Register n server ctx)"

definition nextNSClient_Find ::
  "('e \<Rightarrow> ('q, 's, 'a) find_handler \<Rightarrow> ('q, 's, 'a) find_handler) \<Rightarrow> nat \<Rightarrow> 'e server option \<Rightarrow> 'e server list \<Rightarrow> nat \<Rightarrow> 'e next_context \<Rightarrow> ('q, 's, 'a) find_handler" where
  "nextNSClient_Find sem n p ss i ctx = (let (server, ctx) = getServerAndContext p ss i ctx in serve sem tailNSClient_Find n server ctx)"

definition nextNSClient_Unregister ::
  "('e \<Rightarrow> (NetworkServiceMsg, 's) ack_handler \<Rightarrow> (NetworkServiceMsg, 's) ack_handler) \<Rightarrow> nat \<Rightarrow> 'e server option \<Rightarrow> 'e server list \<Rightarrow> nat \<Rightarrow> 'e next_context \<Rightarrow> (NetworkServiceMsg, 's) ack_handler" where
  "nextNSClient_Unregister sem n p ss i ctx = (let (server, ctx) = getServerAndContext p ss i ctx in serve sem tailNSClient_Unregister n server ctx)"

definition nextNSEServer_Register ::
  "('e \<Rightarrow> (NetworkServiceEndpoint, 's) echo_handler \<Rightarrow> (NetworkServiceEndpoint, 's) echo_handler) \<Rightarrow> nat \<Rightarrow> 'e server option \<Rightarrow> 'e server list \<Rightarrow> nat \<Rightarrow> 'e next_context \<Rightarrow> (NetworkServiceEndpoint, 's) echo_handler" where
  "nextNSEServer_Register sem n p ss i ctx = (let (server, ctx) = getServerAndContext p ss i ctx in serve sem tailNSEServer_Register n server ctx)"

definition nextNSEServer_Find ::
  "('e \<Rightarrow> ('q, 's) ack_handler \<Rightarrow> ('q, 's) ack_handler) \<Rightarrow> nat \<Rightarrow> 'e server option \<Rightarrow> 'e server list \<Rightarrow> nat \<Rightarrow> 'e next_context \<Rightarrow> ('q, 's) ack_handler" where
  "nextNSEServer_Find sem n p ss i ctx = (let (server, ctx) = getServerAndContext p ss i ctx in serve sem tailNSEServer_Find n server ctx)"

definition nextNSEServer_Unregister ::
  "('e \<Rightarrow> (NetworkServiceEndpoint, 's) ack_handler \<Rightarrow> (NetworkServiceEndpoint, 's) ack_handler) \<Rightarrow> nat \<Rightarrow> 'e server option \<Rightarrow> 'e server list \<Rightarrow> nat \<Rightarrow> 'e next_context \<Rightarrow> (NetworkServiceEndpoint, 's) ack_handler" where
  "nextNSEServer_Unregister sem n p ss i ctx = (let (server, ctx) = getServerAndContext p ss i ctx in serve sem tailNSEServer_Unregister n server ctx)"

definition nextNSEClient_Register ::
  "('e \<Rightarrow> (NetworkServiceEndpoint, 's) echo_handler \<Rightarrow> (NetworkServiceEndpoint, 's) echo_handler) \<Rightarrow> nat \<Rightarrow> 'e server option \<Rightarrow> 'e server list \<Rightarrow> nat \<Rightarrow> 'e next_context \<Rightarrow> (NetworkServiceEndpoint, 's) echo_handler" where
  "nextNSEClient_Register sem n p ss i ctx = (let (server, ctx) = getServerAndContext p ss i ctx in serve sem tailNSEClient_Register n server ctx)"

definition nextNSEClient_Find ::
  "('e \<Rightarrow> ('q, 's, 'a) find_handler \<Rightarrow> ('q, 's, 'a) find_handler) \<Rightarrow> nat \<Rightarrow> 'e server option \<Rightarrow> 'e server list \<Rightarrow> nat \<Rightarrow> 'e next_context \<Rightarrow> ('q, 's, 'a) find_handler" where
  "nextNSEClient_Find sem n p ss i ctx = (let (server, ctx) = getServerAndContext p ss i ctx in serve sem tailNSEClient_Find n server ctx)"

definition nextNSEClient_Unregister ::
  "('e \<Rightarrow> (NetworkServiceEndpoint, 's) ack_handler \<Rightarrow> (NetworkServiceEndpoint, 's) ack_handler) \<Rightarrow> nat \<Rightarrow> 'e server option \<Rightarrow> 'e server list \<Rightarrow> nat \<Rightarrow> 'e next_context \<Rightarrow> (NetworkServiceEndpoint, 's) ack_handler" where
  "nextNSEClient_Unregister sem n p ss i ctx = (let (server, ctx) = getServerAndContext p ss i ctx in serve sem tailNSEClient_Unregister n server ctx)"

section \<open>What a chain does\<close>

text \<open>
  The reference: an element is its body, and a chain is the composition of its elements, the last of which
  goes on with whatever follows the chain.
\<close>

fun follow :: "('e \<Rightarrow> 'h \<Rightarrow> 'h) \<Rightarrow> 'e server \<Rightarrow> 'h \<Rightarrow> 'h" where
  "follow sem (Element e) k = sem e k"
| "follow sem TailServer k = k"
| "follow sem (NextServer p ss i) k = foldr (\<lambda>s k. follow sem s k) ss k"

text \<open>What follows in a context.\<close>

fun rest_of :: "('e \<Rightarrow> 'h \<Rightarrow> 'h) \<Rightarrow> 'h \<Rightarrow> 'e server \<Rightarrow> 'h" where
  "rest_of sem tail (NextServer (Some p) ss i) = foldr (follow sem) (drop i ss) (rest_of sem tail p)"
| "rest_of sem tail _ = tail"

text \<open>A server that was built from elements, and a server that a chain put into a context.\<close>

fun built :: "'e server \<Rightarrow> bool" where
  "built (Element e) \<longleftrightarrow> True"
| "built TailServer \<longleftrightarrow> False"
| "built (NextServer p ss i) \<longleftrightarrow> p = None \<and> i = 0 \<and> list_all built ss"

fun waiting :: "'e server \<Rightarrow> bool" where
  "waiting (NextServer (Some p) ss i) \<longleftrightarrow> 0 < i \<and> i < length ss \<and> list_all built ss \<and> waiting p"
| "waiting TailServer \<longleftrightarrow> True"
| "waiting _ \<longleftrightarrow> False"

text \<open>The nested calls that are enough.\<close>

fun calls :: "'e server \<Rightarrow> nat" where
  "calls (NextServer p ss i) = Suc (sum_list (map (\<lambda>s. Suc (calls s)) ss))"
| "calls _ = 1"

fun rest_calls :: "'e server \<Rightarrow> nat" where
  "rest_calls (NextServer (Some p) ss i) = sum_list (map (\<lambda>s. Suc (calls s)) (drop i ss)) + rest_calls p"
| "rest_calls _ = 1"

definition in_context :: "'e next_context \<Rightarrow> bool" where
  "in_context ctx \<longleftrightarrow> waiting (Server ctx)"

lemma calls_pos: "0 < calls s"
  by (cases s) auto

lemma rest_calls_pos: "waiting s \<Longrightarrow> 0 < rest_calls s"
proof (induction s rule: waiting.induct)
  case (1 p ss i)
  then show ?case by (simp add: trans_less_add2)
qed auto

text \<open>One step of a chain: the server it calls, and the context it gives it.\<close>

lemma getServerAndContext_step:
  assumes "i < length ss" "if i = 0 then q = Server ctx else p = Some q" "waiting q" "list_all built ss"
  obtains ctx' where "getServerAndContext p ss i ctx = (ss ! i, ctx')" "waiting (Server ctx')"
    "rest_of sem tail (Server ctx') = foldr (follow sem) (drop (Suc i) ss) (rest_of sem tail q)"
    "rest_calls (Server ctx') = sum_list (map (\<lambda>s. Suc (calls s)) (drop (Suc i) ss)) + rest_calls q"
proof (cases "Suc i < length ss")
  case True
  have "getServerAndContext p ss i ctx = (ss ! i, Some (NextServer (Some q) ss (Suc i)))"
    using assms(1,2) True by (auto simp: getServerAndContext_def withNextServer_def Let_def split: if_splits)
  then show ?thesis using that [of "Some (NextServer (Some q) ss (Suc i))"] assms(3,4) True by (simp add: Server_def)
next
  case False
  then have "getServerAndContext p ss i ctx = (ss ! i, Some q)"
    using assms(1,2) by (auto simp: getServerAndContext_def withNextServer_def Let_def split: if_splits)
  then show ?thesis using that [of "Some q"] assms(3) False by (simp add: Server_def)
qed

lemma serve_follow:
  "(built s \<and> in_context ctx \<and> calls s + rest_calls (Server ctx) \<le> n \<longrightarrow>
     serve sem tail n s ctx = follow sem s (rest_of sem tail (Server ctx))) \<and>
   (waiting s \<and> rest_calls s \<le> n \<longrightarrow> serve sem tail n s ctx = rest_of sem tail s)"
proof (induction n arbitrary: s ctx)
  case 0
  then show ?case using calls_pos [of s] rest_calls_pos [of s] by auto
next
  case (Suc n)
  note b = Suc [THEN conjunct1, rule_format] and w = Suc [THEN conjunct2, rule_format]
  show ?case
  proof (intro conjI impI; elim conjE)
    assume a: "built s" "in_context ctx" "calls s + rest_calls (Server ctx) \<le> Suc n"
    show "serve sem tail (Suc n) s ctx = follow sem s (rest_of sem tail (Server ctx))"
    proof (cases s)
      case (Element e)
      then show ?thesis using a w [of "Server ctx" ctx] by (simp add: in_context_def)
    next
      case TailServer
      then show ?thesis using a(1) by simp
    next
      case (NextServer p ss i)
      then have p: "p = None" "i = 0" "list_all built ss" using a(1) by auto
      show ?thesis
      proof (cases ss)
        case Nil
        then show ?thesis using NextServer p a w [of "Server ctx" ctx] by (simp add: getServerAndContext_def in_context_def)
      next
        case (Cons t ts)
        obtain ctx' where c: "getServerAndContext p ss i ctx = (ss ! i, ctx')" "waiting (Server ctx')"
          "rest_of sem tail (Server ctx') = foldr (follow sem) (drop (Suc i) ss) (rest_of sem tail (Server ctx))"
          "rest_calls (Server ctx') = sum_list (map (\<lambda>s. Suc (calls s)) (drop (Suc i) ss)) + rest_calls (Server ctx)"
          by (rule getServerAndContext_step [of i ss "Server ctx" ctx p sem tail])
            (use p Cons a(2) in \<open>simp_all add: in_context_def\<close>)
        have "serve sem tail n t ctx' = follow sem t (rest_of sem tail (Server ctx'))"
          by (rule b) (use c p Cons NextServer a(3) in \<open>simp_all add: in_context_def\<close>)
        then show ?thesis using NextServer Cons c p by simp
      qed
    qed
  next
    assume a: "waiting s" "rest_calls s \<le> Suc n"
    show "serve sem tail (Suc n) s ctx = rest_of sem tail s"
    proof (cases s rule: waiting.cases)
      case (1 p ss i)
      then have i: "0 < i" "i < length ss" "list_all built ss" "waiting p" using a(1) by auto
      obtain ctx' where c: "getServerAndContext (Some p) ss i ctx = (ss ! i, ctx')" "waiting (Server ctx')"
        "rest_of sem tail (Server ctx') = foldr (follow sem) (drop (Suc i) ss) (rest_of sem tail p)"
        "rest_calls (Server ctx') = sum_list (map (\<lambda>s. Suc (calls s)) (drop (Suc i) ss)) + rest_calls p"
        by (rule getServerAndContext_step [of i ss p ctx "Some p" sem tail]) (use i in simp_all)
      have d: "drop i ss = ss ! i # drop (Suc i) ss" using i(2) by (simp add: Cons_nth_drop_Suc)
      have "serve sem tail n (ss ! i) ctx' = follow sem (ss ! i) (rest_of sem tail (Server ctx'))"
        by (rule b) (use c i a(2) 1 d in \<open>simp_all add: in_context_def list_all_length\<close>)
      then show ?thesis using 1 c d by simp
    qed (use a in auto)
  qed
qed

section \<open>Chains of chains\<close>

text \<open>The elements of a server, in the order of the source text.\<close>

fun elements :: "'e server \<Rightarrow> 'e list" where
  "elements (Element e) = [e]"
| "elements TailServer = []"
| "elements (NextServer p ss i) = concat (map elements ss)"

lemma foldr_follow:
  "(\<And>s k. s \<in> set ss \<Longrightarrow> follow sem s k = foldr sem (elements s) k) \<Longrightarrow>
    foldr (follow sem) ss k = foldr sem (concat (map elements ss)) k"
  by (induction ss) simp_all

lemma follow_elements: "follow sem s k = foldr sem (elements s) k"
proof (induction s arbitrary: k)
  case (NextServer p ss i)
  then show ?case using foldr_follow [of ss sem k] by simp
qed simp_all

text \<open>The body of a chain is that of the flat list of its elements, so chains may be nested and cut anywhere.\<close>

definition composed :: "('e \<Rightarrow> 'h \<Rightarrow> 'h) \<Rightarrow> 'e server list \<Rightarrow> 'h \<Rightarrow> 'h" where
  "composed sem ss k = foldr sem (concat (map elements ss)) k"

definition enough_calls :: "'e server list \<Rightarrow> nat" where
  "enough_calls ss = sum_list (map (\<lambda>s. Suc (calls s)) ss) + 1"

lemma chain_body:
  assumes "list_all built ss" "in_context ctx" "calls (next_NewServer ss) + rest_calls (Server ctx) \<le> n"
  shows "serve sem tail n (next_NewServer ss) ctx = composed sem ss (rest_of sem tail (Server ctx))"
proof -
  let ?c = "next_NewServer ss"
  have "built ?c" using assms(1) by (simp add: next_NewServer_def next_NewWrappedServer_def)
  then have "serve sem tail n ?c ctx = follow sem ?c (rest_of sem tail (Server ctx))"
    using serve_follow [of ?c ctx n sem tail] assms(2,3) by blast
  then show ?thesis unfolding follow_elements composed_def
    by (simp add: next_NewServer_def next_NewWrappedServer_def)
qed

text \<open>A method call on a new chain, from outside any other.\<close>

lemma chain_method:
  assumes "list_all built ss" "enough_calls ss \<le> n"
  shows "(let (server, ctx) = getServerAndContext None ss 0 None in serve sem tail n server ctx) = composed sem ss tail"
proof -
  have "serve sem tail (Suc n) (next_NewServer ss) None = composed sem ss (rest_of sem tail TailServer)"
    using chain_body [OF assms(1), of None "Suc n" sem tail] assms(2)
    by (simp add: in_context_def Server_def next_NewServer_def next_NewWrappedServer_def enough_calls_def)
  then show ?thesis by (simp add: next_NewServer_def next_NewWrappedServer_def)
qed

end
