(* ===== verification/Chain_Theorems.thy ===== *)
theory Chain_Theorems
  imports Next_Chain
begin

text \<open>The properties of chains: a chain runs its elements in order, however it is nested.\<close>

lemmas next_network_service_defs = nextServer_Request_def nextServer_Close_def nextClient_Request_def nextClient_Close_def
lemmas next_registry_defs = nextNSServer_Register_def
  nextNSServer_Find_def
  nextNSServer_Unregister_def
  nextNSClient_Register_def
  nextNSClient_Find_def
  nextNSClient_Unregister_def
  nextNSEServer_Register_def
  nextNSEServer_Find_def
  nextNSEServer_Unregister_def
  nextNSEClient_Register_def
  nextNSEClient_Find_def
  nextNSEClient_Unregister_def

text \<open>
  C7. A call of a chain of network service servers or clients comes back after at most the given number of nested calls, and
  does what its elements do in the order they were listed, with nested chains taken apart, and then the tail.
\<close>

theorem chains_compose:
  assumes "list_all built ss" "enough_calls ss \<le> n"
  shows "nextServer_Request request n None ss 0 None = composed request ss tailServer_Request \<and>
    nextServer_Close close n None ss 0 None = composed close ss tailServer_Close \<and>
    nextClient_Request client_request n None ss 0 None = composed client_request ss tailClient_Request \<and>
    nextClient_Close client_close n None ss 0 None = composed client_close ss tailClient_Close"
  unfolding next_network_service_defs by (intro conjI chain_method assms)

text \<open>
  The same of the chains of both registries: registering, searching and unregistering go through the elements in order.
\<close>

lemma registry_chains_compose:
  assumes "list_all built ss" "enough_calls ss \<le> n"
  shows "nextNSServer_Register s0 n None ss 0 None = composed s0 ss tailNSServer_Register \<and>
    nextNSServer_Find s1 n None ss 0 None = composed s1 ss tailNSServer_Find \<and>
    nextNSServer_Unregister s2 n None ss 0 None = composed s2 ss tailNSServer_Unregister \<and>
    nextNSClient_Register s3 n None ss 0 None = composed s3 ss tailNSClient_Register \<and>
    nextNSClient_Find s4 n None ss 0 None = composed s4 ss tailNSClient_Find \<and>
    nextNSClient_Unregister s5 n None ss 0 None = composed s5 ss tailNSClient_Unregister \<and>
    nextNSEServer_Register s6 n None ss 0 None = composed s6 ss tailNSEServer_Register \<and>
    nextNSEServer_Find s7 n None ss 0 None = composed s7 ss tailNSEServer_Find \<and>
    nextNSEServer_Unregister s8 n None ss 0 None = composed s8 ss tailNSEServer_Unregister \<and>
    nextNSEClient_Register s9 n None ss 0 None = composed s9 ss tailNSEClient_Register \<and>
    nextNSEClient_Find s10 n None ss 0 None = composed s10 ss tailNSEClient_Find \<and>
    nextNSEClient_Unregister s11 n None ss 0 None = composed s11 ss tailNSEClient_Unregister"
  unfolding next_registry_defs by (intro conjI chain_method assms)

text \<open>
  Chains may be cut into chains anywhere, and be called from inside other chains: what follows
  in the context comes after the chain.
\<close>

lemma nested_chain_flat:
  assumes "list_all built (xs @ ys @ zs)" "in_context ctx"
    "calls (next_NewServer (xs @ [next_NewServer ys] @ zs)) + calls (next_NewServer (xs @ ys @ zs)) + rest_calls (Server ctx) \<le> n"
  shows "serve sem tail n (next_NewServer (xs @ [next_NewServer ys] @ zs)) ctx = serve sem tail n (next_NewServer (xs @ ys @ zs)) ctx"
proof -
  have b: "list_all built (xs @ [next_NewServer ys] @ zs)"
    using assms(1) by (simp add: next_NewServer_def next_NewWrappedServer_def)
  have "composed sem (xs @ [next_NewServer ys] @ zs) k = composed sem (xs @ ys @ zs) k" for k
    by (simp add: composed_def next_NewServer_def next_NewWrappedServer_def)
  then show ?thesis using chain_body [OF b assms(2), of n sem tail] chain_body [OF assms(1,2), of n sem tail] assms(3) by simp
qed

section \<open>Witnesses\<close>

text \<open>Elements that leave their number in the state, in the order they are called.\<close>

definition marks :: "nat \<Rightarrow> ('r \<Rightarrow> nat list \<Rightarrow> ('a \<times> nat list) option) \<Rightarrow> 'r \<Rightarrow> nat list \<Rightarrow> ('a \<times> nat list) option" where
  "marks e k r s = k r (s @ [e])"

definition sample_chain :: "nat server list" where
  "sample_chain = [Element 1, next_NewServer [Element 2, next_NewServer [], Element 3], Element 4]"

lemmas sample_simps = sample_chain_def next_NewServer_def next_NewWrappedServer_def composed_def marks_def enough_calls_def

lemma chains_compose_witness:
  "\<forall>r. nextServer_Request marks 20 None sample_chain 0 None r [] = Some (Inr (req_connection r), [1, 2, 3, 4])"
proof -
  have "list_all built sample_chain" "enough_calls sample_chain \<le> 20" by (simp_all add: sample_simps)
  from chains_compose [OF this, of marks marks marks marks] have
    "nextServer_Request marks 20 None sample_chain 0 None = composed marks sample_chain tailServer_Request" by blast
  then show ?thesis by (simp add: sample_simps tailServer_Request_def)
qed

lemma registry_chains_compose_witness:
  "\<forall>r. nextNSEServer_Register marks 20 None sample_chain 0 None r [] = Some (Inr r, [1, 2, 3, 4])"
proof -
  have "list_all built sample_chain" "enough_calls sample_chain \<le> 20" by (simp_all add: sample_simps)
  from registry_chains_compose [OF this, of marks marks marks marks marks marks marks marks marks marks marks marks] have
    "nextNSEServer_Register marks 20 None sample_chain 0 None = composed marks sample_chain tailNSEServer_Register" by blast
  then show ?thesis by (simp add: sample_simps tailNSEServer_Register_def)
qed

end
