(* ===== verification/Discover_Select.thy ===== *)
theory Discover_Select
  imports Match_Utils
begin

text \<open>
  Choosing the endpoint of a request: \<^verbatim>\<open>common/discover\<close> asks the registry for the endpoints that provide the
  requested network service, \<^verbatim>\<open>common/roundrobin\<close> calls them one after the other until one accepts. The registry
  clients, the templates of \<^verbatim>\<open>matchutils\<close>, Go's URL parser and the clock are arguments.
\<close>

section \<open>The values of the context\<close>

record 'u call_ctx =
  ClientURL :: "'u option"
  Candidates :: "(NetworkServiceMsg \<times> NetworkServiceEndpoint list) option"

type_synonym ('u, 's) ctx_request_chain = "'u call_ctx \<Rightarrow> 's request_chain"
type_synonym ('u, 's) ctx_close_chain = "'u call_ctx \<Rightarrow> 's close_chain"

definition WithClientURL :: "'u call_ctx \<Rightarrow> 'u \<Rightarrow> 'u call_ctx" where
  "WithClientURL parent clientURL = parent\<lparr>ClientURL := Some clientURL\<rparr>"

definition WithCandidates :: "'u call_ctx \<Rightarrow> NetworkServiceEndpoint list \<Rightarrow> NetworkServiceMsg \<Rightarrow> 'u call_ctx" where
  "WithCandidates parent candidates service = parent\<lparr>Candidates := Some (service, candidates)\<rparr>"

section \<open>Discovery\<close>

text \<open>What the server was made with: \<^verbatim>\<open>Find\<close> of both registries, read to the end of the stream, and the environment.\<close>

record 'u discoverCandidatesServer =
  nseClient :: "NetworkServiceEndpoint \<Rightarrow> nsm_error + NetworkServiceEndpoint list"
  nsClient :: "NetworkServiceMsg \<Rightarrow> nsm_error + NetworkServiceMsg list"
  url_Parse :: "string \<Rightarrow> 'u option"
  clock_Now :: int
  templates :: template

definition empty_nse :: NetworkServiceEndpoint where
  "empty_nse = \<lparr>nse_name = [], NetworkServiceNames = None, NetworkServiceLabels = None, Url = [], ExpirationTime = None, nse_PathIds = []\<rparr>"

definition empty_ns :: NetworkServiceMsg where
  "empty_ns = \<lparr>ns_name = [], Payload = [], Matches = [], ns_PathIds = []\<rparr>"

definition validateExpirationTime :: "int \<Rightarrow> NetworkServiceEndpoint list \<Rightarrow> NetworkServiceEndpoint list" where
  "validateExpirationTime now nses = filter (\<lambda>nse. case ExpirationTime nse of None \<Rightarrow> True | Some t \<Rightarrow> now < t) nses"

definition discoverNetworkServiceEndpoint ::
  "'u discoverCandidatesServer \<Rightarrow> string \<Rightarrow> nsm_error + NetworkServiceEndpoint" where
  "discoverNetworkServiceEndpoint d nseName =
     (case nseClient d (empty_nse\<lparr>nse_name := nseName\<rparr>) of
        Inl e \<Rightarrow> Inl e
      | Inr nseList \<Rightarrow>
          (case find (\<lambda>nse. nse_name nse = nseName) nseList of
             None \<Rightarrow> Inl (Err ''network service endpoint not found'')
           | Some nse \<Rightarrow> Inr nse))"

definition discoverNetworkServiceEndpoints ::
  "'u discoverCandidatesServer \<Rightarrow> NetworkServiceMsg \<Rightarrow> labels \<Rightarrow> nsm_error + NetworkServiceEndpoint list" where
  "discoverNetworkServiceEndpoints d ns nsLabels =
     (case nseClient d (empty_nse\<lparr>NetworkServiceNames := Some [ns_name ns]\<rparr>) of
        Inl e \<Rightarrow> Inl e
      | Inr nseList \<Rightarrow>
          (let result = MatchEndpoint (templates d) nsLabels ns (validateExpirationTime (clock_Now d) nseList)
           in if result \<noteq> [] then Inr result else Inl (Err ''network service endpoint candidates not found'')))"

definition discoverNetworkService ::
  "'u discoverCandidatesServer \<Rightarrow> string \<Rightarrow> string \<Rightarrow> nsm_error + NetworkServiceMsg" where
  "discoverNetworkService d name payload =
     (case nsClient d (empty_ns\<lparr>ns_name := name, Payload := payload\<rparr>) of
        Inl e \<Rightarrow> Inl e
      | Inr nsList \<Rightarrow>
          (case find (\<lambda>ns. ns_name ns = name) nsList of
             None \<Rightarrow> Inl (Err ''network service is not found'')
           | Some ns \<Rightarrow> Inr ns))"

text \<open>The payload is written to the connection, which must not be nil by then.\<close>

definition discover_Request ::
  "'u discoverCandidatesServer \<Rightarrow> ('u, 's) ctx_request_chain \<Rightarrow> ('u, 's) ctx_request_chain" where
  "discover_Request d nxt ctx request s =
     (if ClientURL ctx \<noteq> None then nxt ctx request s
      else
        let conn = conn_of request; nseName = NetworkServiceEndpointName conn in
        if nseName \<noteq> [] then
          (case discoverNetworkServiceEndpoint d nseName of
             Inl e \<Rightarrow> (Inl e, s)
           | Inr nse \<Rightarrow>
               (case url_Parse d (Url nse) of
                  None \<Rightarrow> (Inl (Err ''failed to parse url''), s)
                | Some u \<Rightarrow> nxt (WithClientURL ctx u) request s))
        else
          (case discoverNetworkService d (NetworkService conn) (conn_Payload conn) of
             Inl e \<Rightarrow> (Inl e, s)
           | Inr ns \<Rightarrow>
               (case discoverNetworkServiceEndpoints d ns (Labels conn) of
                  Inl e \<Rightarrow> (Inl e, s)
                | Inr nses \<Rightarrow>
                    (case req_connection request of
                       None \<Rightarrow> (Inl Panic, s)
                     | Some conn \<Rightarrow>
                         nxt (WithCandidates ctx nses ns)
                           (request\<lparr>req_connection := Some (conn\<lparr>conn_Payload := Payload ns\<rparr>)\<rparr>) s))))"

definition discover_Close ::
  "'u discoverCandidatesServer \<Rightarrow> ('u, 's) ctx_close_chain \<Rightarrow> ('u, 's) ctx_close_chain" where
  "discover_Close d nxt ctx conn s =
     (if ClientURL ctx \<noteq> None then nxt ctx conn s
      else
        let nseName = NetworkServiceEndpointName conn in
        if nseName = [] then nxt ctx conn s
        else
          (case discoverNetworkServiceEndpoint d nseName of
             Inl e \<Rightarrow> nxt ctx conn s
           | Inr nse \<Rightarrow>
               (case url_Parse d (Url nse) of
                  None \<Rightarrow> nxt ctx conn s
                | Some u \<Rightarrow> nxt (WithClientURL ctx u) conn s)))"

section \<open>Round robin\<close>

text \<open>The selector counts the calls of every network service; a Go \<^verbatim>\<open>int\<close> does not run over in practice.\<close>

type_synonym roundRobinSelector = "string \<Rightarrow> nat"

definition newRoundRobinSelector :: roundRobinSelector where
  "newRoundRobinSelector = (\<lambda>_. 0)"

definition selectEndpoint ::
  "NetworkServiceMsg \<Rightarrow> NetworkServiceEndpoint list \<Rightarrow> roundRobinSelector \<Rightarrow> NetworkServiceEndpoint option \<times> roundRobinSelector" where
  "selectEndpoint ns nses rr =
     (if nses = [] then (None, rr)
      else (Some (nses ! (rr (ns_name ns) mod length nses)), rr(ns_name ns := rr (ns_name ns) + 1)))"

text \<open>
  The selector is shared by all requests, so it is part of the state the rest of the chain is called with: other
  requests may move it while a candidate is being called.
\<close>

fun selectLoop ::
  "(string \<Rightarrow> 'u option) \<Rightarrow> ('u, roundRobinSelector \<times> 's) ctx_request_chain \<Rightarrow> NetworkServiceMsg \<Rightarrow> NetworkServiceEndpoint list \<Rightarrow>
   nat \<Rightarrow> ('u, roundRobinSelector \<times> 's) ctx_request_chain" where
  "selectLoop parse nxt ns nses 0 ctx request (rr, s) = (Inl (Err ''all candidates have failed''), rr, s)"
| "selectLoop parse nxt ns nses (Suc n) ctx request (rr, s) =
     (case selectEndpoint ns nses rr of
        (None, rr) \<Rightarrow> (Inl (Err ''failed to select endpoint''), rr, s)
      | (Some endpoint, rr) \<Rightarrow>
          (case parse (Url endpoint) of
             None \<Rightarrow> (Inl (Err ''failed to parse url''), rr, s)
           | Some u \<Rightarrow>
               (case req_connection request of
                  None \<Rightarrow> (Inl Panic, rr, s)
                | Some conn \<Rightarrow>
                    let ctx = WithClientURL ctx u;
                        request = request\<lparr>req_connection := Some (conn\<lparr>NetworkServiceEndpointName := nse_name endpoint\<rparr>)\<rparr>
                    in (case nxt ctx request (rr, s) of
                          (Inr resp, st) \<Rightarrow> (Inr resp, st)
                        | (Inl Panic, st) \<Rightarrow> (Inl Panic, st)
                        | (Inl (Err e), st) \<Rightarrow> selectLoop parse nxt ns nses n ctx request st))))"

definition roundrobin_Request ::
  "(string \<Rightarrow> 'u option) \<Rightarrow> ('u, roundRobinSelector \<times> 's) ctx_request_chain \<Rightarrow> ('u, roundRobinSelector \<times> 's) ctx_request_chain" where
  "roundrobin_Request parse nxt ctx request st =
     (if ClientURL ctx \<noteq> None then nxt ctx request st
      else case Candidates ctx of
        None \<Rightarrow> (Inl Panic, st)
      | Some (ns, nses) \<Rightarrow> selectLoop parse nxt ns nses (length nses) ctx request st)"

definition roundrobin_Close :: "('u, roundRobinSelector \<times> 's) ctx_close_chain \<Rightarrow> ('u, roundRobinSelector \<times> 's) ctx_close_chain" where
  "roundrobin_Close nxt ctx conn st = nxt ctx conn st"

section \<open>The candidates are tried in turn\<close>

text \<open>The reference: call each of a list until one accepts.\<close>

fun try_each :: "('e \<Rightarrow> 's \<Rightarrow> (nsm_error + 'a) \<times> 's) \<Rightarrow> 'e list \<Rightarrow> 's \<Rightarrow> (nsm_error + 'a) \<times> 's" where
  "try_each call [] st = (Inl (Err ''all candidates have failed''), st)"
| "try_each call (e # es) st =
     (case call e st of (Inl (Err m), st) \<Rightarrow> try_each call es st | r \<Rightarrow> r)"

text \<open>The call of one candidate.\<close>

definition call_endpoint ::
  "(string \<Rightarrow> 'u option) \<Rightarrow> ('u, roundRobinSelector \<times> 's) ctx_request_chain \<Rightarrow> NetworkServiceMsg \<Rightarrow> 'u call_ctx \<Rightarrow> NetworkServiceRequest \<Rightarrow>
   Connection \<Rightarrow> NetworkServiceEndpoint \<Rightarrow> roundRobinSelector \<times> 's \<Rightarrow> (nsm_error + Connection) \<times> roundRobinSelector \<times> 's" where
  "call_endpoint parse nxt ns ctx request conn endpoint st =
     nxt (ctx\<lparr>ClientURL := parse (Url endpoint)\<rparr>)
       (request\<lparr>req_connection := Some (conn\<lparr>NetworkServiceEndpointName := nse_name endpoint\<rparr>)\<rparr>)
       ((fst st)(ns_name ns := fst st (ns_name ns) + 1), snd st)"

text \<open>The rest of the chain leaves the selector alone: no other request of the service runs meanwhile.\<close>

definition undisturbed :: "('u, roundRobinSelector \<times> 's) ctx_request_chain \<Rightarrow> bool" where
  "undisturbed nxt \<longleftrightarrow> (\<forall>ctx request rr s. fst (snd (nxt ctx request (rr, s))) = rr)"

lemma rotate_step: "n < length xs \<Longrightarrow> take (Suc n) (rotate k xs) = xs ! (k mod length xs) # take n (rotate (Suc k) xs)"
proof -
  assume n: "n < length xs"
  then have ne: "rotate k xs \<noteq> []" by auto
  have "hd (rotate k xs) = xs ! (k mod length xs)" using n by (intro hd_rotate_conv_nth) auto
  then obtain ys where ys: "rotate k xs = xs ! (k mod length xs) # ys" using ne by (cases "rotate k xs") auto
  have l: "length ys = length xs - 1" using arg_cong [OF ys, of length] by simp
  have "rotate (Suc k) xs = rotate1 (rotate k xs)" by (simp add: rotate_def)
  then have "rotate (Suc k) xs = ys @ [xs ! (k mod length xs)]" using ys by simp
  then show ?thesis using ys l n by simp
qed

lemma selectLoop_tries:
  assumes "undisturbed nxt" "\<forall>e\<in>set nses. parse (Url e) \<noteq> None" "n \<le> length nses" "req_connection request = Some conn"
  shows "selectLoop parse nxt ns nses n ctx request (rr, s) =
    try_each (call_endpoint parse nxt ns ctx request conn) (take n (rotate (rr (ns_name ns)) nses)) (rr, s)"
  using assms(3,4)
proof (induction n arbitrary: ctx request conn rr s)
  case (Suc n)
  let ?k = "rr (ns_name ns)"
  let ?e = "nses ! (?k mod length nses)" and ?rr = "rr(ns_name ns := ?k + 1)"
  have ne: "nses \<noteq> []" using Suc.prems(1) by auto
  then have "?e \<in> set nses" by simp
  then obtain u where u: "parse (Url ?e) = Some u" using assms(2) by blast
  let ?ctx = "WithClientURL ctx u" and ?conn = "conn\<lparr>NetworkServiceEndpointName := nse_name ?e\<rparr>"
  let ?request = "request\<lparr>req_connection := Some ?conn\<rparr>"
  obtain r rr1 s1 where r: "nxt ?ctx ?request (?rr, s) = (r, rr1, s1)" by (metis prod_cases3)
  have rr1: "rr1 = ?rr" using assms(1) r unfolding undisturbed_def by (metis fst_conv snd_conv)
  have call: "call_endpoint parse nxt ns ctx request conn ?e (rr, s) = (r, rr1, s1)"
    using r u by (simp add: call_endpoint_def WithClientURL_def)
  have same: "call_endpoint parse nxt ns ?ctx ?request ?conn = call_endpoint parse nxt ns ctx request conn"
    by (simp add: call_endpoint_def WithClientURL_def fun_eq_iff)
  have le: "n \<le> length nses" and rq: "req_connection ?request = Some ?conn" and e: "?rr (ns_name ns) = Suc ?k"
    using Suc.prems(1) by simp_all
  have ih: "selectLoop parse nxt ns nses n ?ctx ?request (?rr, s1) =
      try_each (call_endpoint parse nxt ns ctx request conn) (take n (rotate (Suc ?k) nses)) (?rr, s1)"
    using Suc.IH [OF le rq, of ?ctx ?rr s1] unfolding same e .
  have t: "take (Suc n) (rotate ?k nses) = ?e # take n (rotate (Suc ?k) nses)"
    using Suc.prems(1) by (intro rotate_step) simp
  have "selectLoop parse nxt ns nses (Suc n) ctx request (rr, s) =
      (case r of Inl (Err m) \<Rightarrow> selectLoop parse nxt ns nses n ?ctx ?request (rr1, s1) | _ \<Rightarrow> (r, rr1, s1))"
    using ne u Suc.prems(2) r unfolding selectLoop.simps selectEndpoint_def
    by (simp only: if_False option.case prod.case Let_def) (simp split: sum.split nsm_error.split)
  also have "\<dots> = (case (r, rr1, s1) of
      (Inl (Err m), st) \<Rightarrow> try_each (call_endpoint parse nxt ns ctx request conn) (take n (rotate (Suc ?k) nses)) st | q \<Rightarrow> q)"
    unfolding rr1 ih by (simp split: sum.split nsm_error.split)
  finally show ?case unfolding t try_each.simps call .
qed simp

text \<open>The property of discovery and selection together.\<close>


text \<open>A close is always passed on, with the URL of the endpoint if it is found.\<close>

lemma discover_Close_calls_next: "\<exists>u. discover_Close d nxt ctx conn s = nxt (ctx\<lparr>ClientURL := u\<rparr>) conn s"
proof -
  have "nxt ctx = nxt (ctx\<lparr>ClientURL := ClientURL ctx\<rparr>)" by simp
  then have "\<exists>u. nxt ctx conn s = nxt (ctx\<lparr>ClientURL := u\<rparr>) conn s" by metis
  then show ?thesis by (auto simp: discover_Close_def WithClientURL_def Let_def split: sum.split option.split)
qed

section \<open>Witness\<close>

definition two_nses :: "NetworkServiceEndpoint list" where
  "two_nses = [empty_nse\<lparr>nse_name := ''a'', Url := ''tcp://a'', NetworkServiceNames := Some [''ns'']\<rparr>,
     empty_nse\<lparr>nse_name := ''old'', Url := ''tcp://o'', ExpirationTime := Some 3, NetworkServiceNames := Some [''ns'']\<rparr>,
     empty_nse\<lparr>nse_name := ''b'', Url := ''tcp://b'', NetworkServiceNames := Some [''ns'']\<rparr>]"

definition small_registry :: "string discoverCandidatesServer" where
  "small_registry = \<lparr>nseClient = (\<lambda>_. Inr two_nses), nsClient = (\<lambda>_. Inr [empty_ns\<lparr>ns_name := ''ns'', Payload := ''IP''\<rparr>]),
     url_Parse = Some, clock_Now = 5, templates = (\<lambda>_ _. None)\<rparr>"

text \<open>Only \<^verbatim>\<open>a\<close> accepts; it is the turn of the second candidate.\<close>

definition picky :: "(string, roundRobinSelector \<times> string list) ctx_request_chain" where
  "picky ctx request st = (case ClientURL ctx of
     None \<Rightarrow> (Inl (Err ''no url''), st)
   | Some u \<Rightarrow> (if u = ''tcp://a'' then Inr (conn_of request) else Inl (Err ''no''), fst st, snd st @ [u]))"


end
