(* ===== verification/Excluded_Prefixes.thy ===== *)
theory Excluded_Prefixes
  imports P2P_Props Discover_Select
begin

text \<open>
  \<^verbatim>\<open>common/excludedprefixes\<close>: the client keeps connections of one application apart. It asks every new connection not
  to use the prefixes the others were given, checks the answer, and remembers what the connection got. Groups of
  network services that know of each other may share prefixes. The server adds configured prefixes.
\<close>

section \<open>Lists of prefixes\<close>

fun removeDuplicates_loop :: "string list \<Rightarrow> string list \<Rightarrow> string list" where
  "removeDuplicates_loop encountered [] = []"
| "removeDuplicates_loop encountered (e # es) =
     (if e \<in> set encountered then removeDuplicates_loop encountered es
      else e # removeDuplicates_loop (e # encountered) es)"

definition removeDuplicates :: "string list \<Rightarrow> string list" where
  "removeDuplicates es = removeDuplicates_loop [] es"

text \<open>The loop removes in place; the index stays where it is after a removal.\<close>

function exclude_at :: "string set \<Rightarrow> nat \<Rightarrow> string list \<Rightarrow> string list" where
  "exclude_at excludeMap i source =
     (if i < length source then
        if source ! i \<in> excludeMap then exclude_at excludeMap i (take i source @ drop (i + 1) source)
        else exclude_at excludeMap (i + 1) source
      else source)"
  by pat_completeness auto
termination by (relation "measure (\<lambda>(m, i, source). length source - i)") auto

declare exclude_at.simps [simp del]

definition exclude :: "string list \<Rightarrow> string list \<Rightarrow> string list" where
  "exclude source es = exclude_at (set es) 0 source"

lemma removeDuplicates_set [simp]: "set (removeDuplicates es) = set es"
proof -
  have "set (removeDuplicates_loop seen es) = set es - set seen" for seen
    by (induction seen es rule: removeDuplicates_loop.induct) auto
  then show ?thesis by (simp add: removeDuplicates_def)
qed

lemma removeDuplicates_distinct [simp]: "distinct (removeDuplicates es)"
proof -
  have "distinct (removeDuplicates_loop seen es) \<and> set (removeDuplicates_loop seen es) \<inter> set seen = {}" for seen
    by (induction seen es rule: removeDuplicates_loop.induct) auto
  then show ?thesis by (simp add: removeDuplicates_def)
qed

lemma exclude_at_filter: "exclude_at m i source = take i source @ filter (\<lambda>s. s \<notin> m) (drop i source)"
proof (induction m i source rule: exclude_at.induct)
  case (1 m i source)
  show ?case
  proof (cases "i < length source")
    case True
    then have d: "drop i source = source ! i # drop (i + 1) source" by (simp add: Cons_nth_drop_Suc)
    have t: "take (i + 1) source = take i source @ [source ! i]" using True by (simp add: take_Suc_conv_app_nth)
    show ?thesis
    proof (cases "source ! i \<in> m")
      case True
      then show ?thesis using 1(1) \<open>i < length source\<close> d
        by (simp add: exclude_at.simps [of m i source])
    next
      case False
      then show ?thesis using 1(2) \<open>i < length source\<close> d t
        by (simp add: exclude_at.simps [of m i source])
    qed
  next
    case False
    then show ?thesis by (simp add: exclude_at.simps [of m i source])
  qed
qed

lemma exclude_filter: "exclude source es = filter (\<lambda>s. s \<notin> set es) source"
  by (simp add: exclude_def exclude_at_filter)

section \<open>The name of a network service\<close>

text \<open>The URL of a request: the parts of \<^verbatim>\<open>url.URL\<close> that are set. \<^verbatim>\<open>ToLower\<close> is that of ASCII text.\<close>

record NSURL =
  Host :: string
  Scheme :: string
  url_Path :: string
  RawQuery :: string

definition to_lower :: "char \<Rightarrow> char" where
  "to_lower c = (if of_char c \<ge> (65 :: nat) \<and> of_char c \<le> (90 :: nat) then char_of (of_char c + 32 :: nat) else c)"

definition unreserved :: "char \<Rightarrow> bool" where
  "unreserved c \<longleftrightarrow> (let n = of_char c :: nat in 48 \<le> n \<and> n \<le> 57 \<or> 65 \<le> n \<and> n \<le> 90 \<or> 97 \<le> n \<and> n \<le> 122 \<or> c \<in> set ''-_.~'')"

definition hex_upper :: "nat \<Rightarrow> char" where
  "hex_upper d = char_of (if d < 10 then 48 + d else 55 + d)"

definition QueryEscape :: "string \<Rightarrow> string" where
  "QueryEscape s = concat (map (\<lambda>c. if unreserved c then [c] else if c = CHR '' '' then ''+''
     else CHR ''%'' # [hex_upper (of_char c div 16), hex_upper (of_char c mod 16)]) s)"

fun join_query :: "string list \<Rightarrow> string" where
  "join_query [] = []"
| "join_query [p] = p"
| "join_query (p # ps) = p @ ''&'' @ join_query ps"

definition query_Encode :: "labels \<Rightarrow> string" where
  "query_Encode ls = join_query (map (\<lambda>(k, v). QueryEscape k @ ''='' @ QueryEscape v) ls)"

text \<open>What the API module provides: the key of the interface's name, and the network of a route.\<close>

record epc_env =
  InterfaceNameKey :: string
  GetPrefixIPNet :: "Route \<Rightarrow> IPNet option"

definition getNSURL :: "epc_env \<Rightarrow> NetworkServiceRequest \<Rightarrow> NSURL" where
  "getNSURL env request =
     (let conn = conn_of request;
          mechanism = (case Mechanism conn of Some m \<Rightarrow> Some m
            | None \<Rightarrow> (case MechanismPreferences request of [] \<Rightarrow> None | m # _ \<Rightarrow> Some m));
          type = (case mechanism of None \<Rightarrow> [] | Some m \<Rightarrow> mech_Type m);
          iface = (case mechanism of None \<Rightarrow> [] | Some m \<Rightarrow> lbl (case Parameters m of None \<Rightarrow> [] | Some ps \<Rightarrow> ps) (InterfaceNameKey env))
      in \<lparr>Host = NetworkService conn, Scheme = map to_lower type,
          url_Path = (if iface \<noteq> [] then CHR ''/'' # iface else []), RawQuery = query_Encode (Labels conn)\<rparr>)"

section \<open>The client\<close>

record awarenessGroup =
  NSUrlSet :: "NSURL set"
  ExcludedPrfixes :: "string list"
  ConnectionCounter :: "32 word"

record excludedPrefixesClient =
  epc_excludedPrefixes :: "string list"
  awarenessGroups :: "awarenessGroup list"

definition WithAwarenessGroups :: "NSURL set list \<Rightarrow> excludedPrefixesClient \<Rightarrow> excludedPrefixesClient" where
  "WithAwarenessGroups gs epc =
     epc\<lparr>awarenessGroups := map (\<lambda>g. \<lparr>NSUrlSet = g, ExcludedPrfixes = [], ConnectionCounter = 0\<rparr>) gs\<rparr>"

definition epc_NewClient :: "(excludedPrefixesClient \<Rightarrow> excludedPrefixesClient) list \<Rightarrow> excludedPrefixesClient" where
  "epc_NewClient opts = foldl (\<lambda>c opt. opt c) \<lparr>epc_excludedPrefixes = [], awarenessGroups = []\<rparr> opts"

fun checkAwarenessGroups :: "NSURL \<Rightarrow> awarenessGroup list \<Rightarrow> nat option" where
  "checkAwarenessGroups nsurl [] = None"
| "checkAwarenessGroups nsurl (g # gs) =
     (if nsurl \<in> NSUrlSet g then Some 0 else map_option Suc (checkAwarenessGroups nsurl gs))"

text \<open>A route without a network is a nil dereference.\<close>

fun getRoutePrefixes :: "epc_env \<Rightarrow> Route list \<Rightarrow> string list option" where
  "getRoutePrefixes env [] = Some []"
| "getRoutePrefixes env (r # rs) = do {
     n \<leftarrow> GetPrefixIPNet env r;
     ps \<leftarrow> getRoutePrefixes env rs;
     let (ones, bits) = Mask_Size (Mask n);
     Some (if ones \<noteq> bits then ps else Prefix r # ps) }"

fun hostPools :: "string list \<Rightarrow> IPPool \<Rightarrow> IPPool \<Rightarrow> (nsm_error + IPPool \<times> IPPool) option" where
  "hostPools [] ip4Pool ip6Pool = Some (Inr (ip4Pool, ip6Pool))"
| "hostPools (prefix # ps) ip4Pool ip6Pool =
     (case ParseCIDR prefix of
        None \<Rightarrow> Some (Inl (Err ''failed to parse as CIDR''))
      | Some (_, ipNet) \<Rightarrow>
          (let (prefixLen, maxLen) = Mask_Size (Mask ipNet) in
           if prefixLen \<noteq> maxLen then hostPools ps ip4Pool ip6Pool
           else do {
             ip4Pool \<leftarrow> AddNet ip4Pool (Some ipNet);
             ip6Pool \<leftarrow> AddNet ip6Pool (Some ipNet);
             hostPools ps ip4Pool ip6Pool }))"

fun checkIPs :: "string list \<Rightarrow> IPPool \<Rightarrow> IPPool \<Rightarrow> (nsm_error + unit) option" where
  "checkIPs [] ip4Pool ip6Pool = Some (Inr ())"
| "checkIPs (prefix # ps) ip4Pool ip6Pool =
     (case ParseCIDR prefix of
        None \<Rightarrow> Some (Inl (Err ''failed to parse as CIDR''))
      | Some (ip, _) \<Rightarrow> do {
          b4 \<leftarrow> Contains ip4Pool ip;
          b \<leftarrow> (if b4 then Some True else Contains ip6Pool ip);
          if b then Some (Inl (Err ''IP is excluded, but it was found in response IPs''))
          else checkIPs ps ip4Pool ip6Pool })"

definition validateIPs :: "IPContext \<Rightarrow> string list \<Rightarrow> (nsm_error + unit) option" where
  "validateIPs ipContext excludedPrefixes = do {
     r \<leftarrow> hostPools excludedPrefixes (New IPv4len) (New IPv6len);
     case r of
       Inl e \<Rightarrow> Some (Inl e)
     | Inr (ip4Pool, ip6Pool) \<Rightarrow> checkIPs (SrcIpAddrs ipContext @ DstIpAddrs ipContext) ip4Pool ip6Pool }"

definition ip_context :: "Connection \<Rightarrow> IPContext" where
  "ip_context conn = (case Context conn of None \<Rightarrow> empty_ip_context
     | Some ctx \<Rightarrow> (case IpContext ctx of None \<Rightarrow> empty_ip_context | Some c \<Rightarrow> c))"

definition with_ip_context :: "IPContext \<Rightarrow> Connection \<Rightarrow> Connection" where
  "with_ip_context c conn =
     conn\<lparr>Context := Some ((case Context conn of None \<Rightarrow> empty_context | Some ctx \<Rightarrow> ctx)\<lparr>IpContext := Some c\<rparr>)\<rparr>"

text \<open>The prefixes of the other groups.\<close>

definition otherGroups :: "nat option \<Rightarrow> awarenessGroup list \<Rightarrow> string list" where
  "otherGroups groupIndex gs = concat (map (\<lambda>i. if Some i \<noteq> groupIndex then ExcludedPrfixes (gs ! i) else []) [0..<length gs])"

text \<open>What an accepted connection adds.\<close>

definition remember :: "epc_env \<Rightarrow> nat option \<Rightarrow> IPContext \<Rightarrow> excludedPrefixesClient \<Rightarrow> excludedPrefixesClient option" where
  "remember env groupIndex resp epc = do {
     src \<leftarrow> getRoutePrefixes env (SrcRoutes resp);
     dst \<leftarrow> getRoutePrefixes env (DstRoutes resp);
     let ps = SrcIpAddrs resp @ DstIpAddrs resp @ src @ dst;
     Some (case groupIndex of
       Some i \<Rightarrow> epc\<lparr>awarenessGroups := (awarenessGroups epc)[i := (awarenessGroups epc ! i)\<lparr>
           ExcludedPrfixes := removeDuplicates (ExcludedPrfixes (awarenessGroups epc ! i) @ ps),
           ConnectionCounter := ConnectionCounter (awarenessGroups epc ! i) + 1\<rparr>]\<rparr>
     | None \<Rightarrow> epc\<lparr>epc_excludedPrefixes := removeDuplicates (epc_excludedPrefixes epc @ ps @ ExcludedPrefixes resp)\<rparr>) }"

text \<open>
  The client's lists are read and written under its executor, before and after the rest of the chain is called, which
  may change them through other requests. The context of the request gets its own list back at the end; the
  answer is a message of its own.
\<close>

definition newExcluded :: "excludedPrefixesClient \<Rightarrow> nat option \<Rightarrow> IPContext \<Rightarrow> string list" where
  "newExcluded epc groupIndex ipCtx =
     (let others = otherGroups groupIndex (awarenessGroups epc) in
      if epc_excludedPrefixes epc \<noteq> [] \<or> others \<noteq> [] then
        exclude (removeDuplicates (ExcludedPrefixes ipCtx @ epc_excludedPrefixes epc @ others)) (SrcIpAddrs ipCtx @ DstIpAddrs ipCtx)
      else [])"

text \<open>What is done with the answer: checked, and remembered or closed again.\<close>

definition epc_settle ::
  "epc_env \<Rightarrow> (excludedPrefixesClient \<times> 's) close_chain \<Rightarrow> nat option \<Rightarrow> string list \<Rightarrow> Connection \<Rightarrow>
   (nsm_error + Connection) \<times> excludedPrefixesClient \<times> 's \<Rightarrow> ((nsm_error + Connection) \<times> excludedPrefixesClient \<times> 's) option" where
  "epc_settle env cls groupIndex newExcludedPrefixes conn answer =
     (case answer of
        (Inl e, st) \<Rightarrow> Some (Inl e, st)
      | (Inr resp, st) \<Rightarrow> do {
          v \<leftarrow> validateIPs (ip_context resp) newExcludedPrefixes;
          case v of
            Inl e \<Rightarrow> Some (Inl e, snd (cls conn st))
          | Inr _ \<Rightarrow> do {
              epc \<leftarrow> remember env groupIndex (ip_context resp) (fst st);
              Some (Inr resp, epc, snd st) } })"

definition epc_Request ::
  "epc_env \<Rightarrow> (excludedPrefixesClient \<times> 's) request_chain \<Rightarrow> (excludedPrefixesClient \<times> 's) close_chain \<Rightarrow>
   NetworkServiceRequest \<Rightarrow> excludedPrefixesClient \<times> 's \<Rightarrow> ((nsm_error + Connection) \<times> excludedPrefixesClient \<times> 's) option" where
  "epc_Request env nxt cls request st =
     (let epc = fst st in do {
        conn \<leftarrow> req_connection request;
        let ipCtx = ip_context conn;
        let groupIndex = checkAwarenessGroups (getNSURL env request) (awarenessGroups epc);
        let newExcludedPrefixes = newExcluded epc groupIndex ipCtx;
        let conn = with_ip_context (if epc_excludedPrefixes epc \<noteq> [] \<or> otherGroups groupIndex (awarenessGroups epc) \<noteq> []
            then ipCtx\<lparr>ExcludedPrefixes := newExcludedPrefixes\<rparr> else ipCtx) conn;
        epc_settle env cls groupIndex newExcludedPrefixes conn (nxt (request\<lparr>req_connection := Some conn\<rparr>) st) })"

definition forget :: "epc_env \<Rightarrow> Connection \<Rightarrow> excludedPrefixesClient \<Rightarrow> excludedPrefixesClient option" where
  "forget env conn epc = do {
     let ipCtx = ip_context conn;
     src \<leftarrow> getRoutePrefixes env (SrcRoutes ipCtx);
     dst \<leftarrow> getRoutePrefixes env (DstRoutes ipCtx);
     let es = exclude (epc_excludedPrefixes epc) (SrcIpAddrs ipCtx);
     let es = exclude (exclude es (DstIpAddrs ipCtx)) src;
     let es = exclude (exclude es dst) (ExcludedPrefixes ipCtx);
     let epc = epc\<lparr>epc_excludedPrefixes := es\<rparr>;
     Some (case checkAwarenessGroups (getNSURL env \<lparr>req_connection = Some conn, MechanismPreferences = []\<rparr>) (awarenessGroups epc) of
       None \<Rightarrow> epc
     | Some i \<Rightarrow>
         let g = awarenessGroups epc ! i; n = ConnectionCounter g - 1 in
         epc\<lparr>awarenessGroups := (awarenessGroups epc)[i := g\<lparr>ConnectionCounter := n,
           ExcludedPrfixes := (if n = 0 then [] else ExcludedPrfixes g)\<rparr>]\<rparr>) }"

definition epc_Close ::
  "epc_env \<Rightarrow> (excludedPrefixesClient \<times> 's) close_chain \<Rightarrow> Connection \<Rightarrow> excludedPrefixesClient \<times> 's \<Rightarrow>
   ((nsm_error + unit) \<times> excludedPrefixesClient \<times> 's) option" where
  "epc_Close env nxt conn st = do {
     epc \<leftarrow> forget env conn (fst st);
     Some (nxt conn (epc, snd st)) }"

section \<open>The server\<close>

text \<open>A file update: its content, nil if the file is gone. The YAML parser is an argument.\<close>

definition updatePrefixes :: "(string \<Rightarrow> string list option) \<Rightarrow> string option \<Rightarrow> PrefixPool \<Rightarrow> PrefixPool option" where
  "updatePrefixes unmarshal bytes pool = do {
     zero \<leftarrow> NewPool [];
     let pool = (case bytes of None \<Rightarrow> (case zero of Inl _ \<Rightarrow> pool | Inr z \<Rightarrow> z) | Some _ \<Rightarrow> pool);
     case unmarshal (case bytes of None \<Rightarrow> [] | Some b \<Rightarrow> b) of
       None \<Rightarrow> Some pool
     | Some ps \<Rightarrow> do {
         r \<leftarrow> NewPool ps;
         Some (case r of Inl e \<Rightarrow> pool | Inr p \<Rightarrow> p) } }"

definition eps_Request :: "'s request_chain \<Rightarrow> PrefixPool \<Rightarrow> NetworkServiceRequest \<Rightarrow> 's \<Rightarrow> ((nsm_error + Connection) \<times> 's) option" where
  "eps_Request nxt pool request s = do {
     conn \<leftarrow> req_connection request;
     let ipCtx = ip_context conn;
     let conn = with_ip_context (ipCtx\<lparr>ExcludedPrefixes :=
       removeDuplicates (ExcludedPrefixes ipCtx @ PrefixPool_GetPrefixes pool)\<rparr>) conn;
     Some (nxt (request\<lparr>req_connection := Some conn\<rparr>) s) }"

definition eps_Close :: "'s close_chain \<Rightarrow> Connection \<Rightarrow> 's \<Rightarrow> (nsm_error + unit) \<times> 's" where
  "eps_Close nxt conn s = nxt conn s"

text \<open>The server adds what is configured.\<close>

lemma eps_Request_adds:
  assumes "req_connection request = Some conn"
  shows "\<exists>conn'. eps_Request nxt pool request s = Some (nxt (request\<lparr>req_connection := Some conn'\<rparr>) s) \<and>
    set (ExcludedPrefixes (ip_context conn')) = set (ExcludedPrefixes (ip_context conn)) \<union> set (PrefixPool_GetPrefixes pool)"
proof -
  have "ip_context (with_ip_context c conn) = c" for c by (simp add: ip_context_def with_ip_context_def)
  then show ?thesis using assms
    by (intro exI [of _ "with_ip_context ((ip_context conn)\<lparr>ExcludedPrefixes :=
       removeDuplicates (ExcludedPrefixes (ip_context conn) @ PrefixPool_GetPrefixes pool)\<rparr>) conn"])
      (simp add: eps_Request_def Let_def)
qed

end
