(* ===== verification/Excluded_Theorems.thy ===== *)
theory Excluded_Theorems
  imports Excluded_Prefixes
begin

text \<open>The property of the excluded prefixes: connections of one application are kept apart.\<close>

section \<open>The check of an answer\<close>

text \<open>A text that names one address.\<close>

definition host_text :: "string \<Rightarrow> bool" where
  "host_text p \<longleftrightarrow> (case ParseCIDR p of None \<Rightarrow> False | Some (_, n) \<Rightarrow> (let (ones, bits) = Mask_Size (Mask n) in ones = bits))"

definition host_set :: "string list \<Rightarrow> nat set" where
  "host_set ps = (\<Union>p\<in>set (filter host_text ps). cidr_set p)"

lemma hostPools_spec:
  assumes "pool_inv p4" "pool_inv p6" "ipLength p4 = IPv4len" "ipLength p6 = IPv6len"
  shows "\<exists>r. hostPools ps p4 p6 = Some r \<and> (isl r \<longleftrightarrow> (\<exists>p\<in>set ps. ParseCIDR p = None)) \<and>
    (\<forall>q4 q6. r = Inr (q4, q6) \<longrightarrow> pool_inv q4 \<and> pool_inv q6 \<and> pool_set q4 \<union> pool_set q6 = pool_set p4 \<union> pool_set p6 \<union> host_set ps)"
  using assms
proof (induction ps arbitrary: p4 p6)
  case Nil
  then show ?case by (simp add: host_set_def)
next
  case (Cons p ps)
  show ?case
  proof (cases "ParseCIDR p")
    case None
    then show ?thesis by simp
  next
    case (Some ipn)
    obtain ip n where n: "ipn = (ip, n)" by (cases ipn)
    obtain ones bits where m: "Mask_Size (Mask n) = (ones, bits)" by (cases "Mask_Size (Mask n)")
    have h: "host_text p \<longleftrightarrow> ones = bits" using Some n m by (simp add: host_text_def)
    show ?thesis
    proof (cases "ones = bits")
      case False
      then have "host_set (p # ps) = host_set ps" using h by (simp add: host_set_def)
      then show ?thesis using Cons.IH [OF Cons.prems] Some n m False by simp
    next
      case True
      have v: "valid_IPNet n" "length (IP n) \<in> {IPv4len, IPv6len}"
        using ParseCIDR_valid [of p ip n] ParseCIDR_shape [of p ip n] Some n by auto
      obtain q4 where q4: "AddNet p4 (Some n) = Some q4" "pool_inv q4" "ipLength q4 = IPv4len"
        "pool_set q4 = (if length (IP n) = IPv4len then pool_set p4 \<union> net_set n else pool_set p4)"
        using AddNet_correct [OF Cons.prems(1) v(1)] Cons.prems(3) by auto
      obtain q6 where q6: "AddNet p6 (Some n) = Some q6" "pool_inv q6" "ipLength q6 = IPv6len"
        "pool_set q6 = (if length (IP n) = IPv6len then pool_set p6 \<union> net_set n else pool_set p6)"
        using AddNet_correct [OF Cons.prems(2) v(1)] Cons.prems(4) by auto
      have "pool_set q4 \<union> pool_set q6 = pool_set p4 \<union> pool_set p6 \<union> net_set n" using q4(4) q6(4) v(2) by auto
      moreover have "host_set (p # ps) = net_set n \<union> host_set ps"
        using h True Some n by (simp add: host_set_def cidr_set_def)
      ultimately have e: "pool_set q4 \<union> pool_set q6 \<union> host_set ps = pool_set p4 \<union> pool_set p6 \<union> host_set (p # ps)" by blast
      have "hostPools (p # ps) p4 p6 = hostPools ps q4 q6" using Some n m True q4(1) q6(1) by simp
      then show ?thesis using Cons.IH [OF q4(2) q6(2) q4(3) q6(3)] Some unfolding e by simp
    qed
  qed
qed

lemma checkIPs_spec:
  assumes "pool_inv p4" "pool_inv p6"
  shows "\<exists>r. checkIPs ps p4 p6 = Some r \<and>
    (r = Inr () \<longleftrightarrow> (\<forall>p\<in>set ps. \<exists>ip n. ParseCIDR p = Some (ip, n) \<and> ip_val ip \<notin> pool_set p4 \<union> pool_set p6))"
proof (induction ps)
  case (Cons p ps)
  show ?case
  proof (cases "ParseCIDR p")
    case (Some ipn)
    obtain ip n where n: "ipn = (ip, n)" by (cases ipn)
    have v: "valid_IP ip" using ParseCIDR_valid [of p ip n] Some n by simp
    have c: "Contains p4 ip = Some (ip_val ip \<in> pool_set p4)" "Contains p6 ip = Some (ip_val ip \<in> pool_set p6)"
      by (rule Contains_correct [OF assms(1) v], rule Contains_correct [OF assms(2) v])
    show ?thesis using Cons.IH Some n by (auto simp: c)
  qed simp
qed simp

text \<open>An answer passes if every prefix is well-formed and none of its addresses is an excluded one.\<close>

lemma validateIPs_iff:
  "\<exists>r. validateIPs c es = Some r \<and> (r = Inr () \<longleftrightarrow> (\<forall>p\<in>set es. ParseCIDR p \<noteq> None) \<and>
    (\<forall>q\<in>set (SrcIpAddrs c @ DstIpAddrs c). \<exists>ip n. ParseCIDR q = Some (ip, n) \<and> ip_val ip \<notin> host_set es))"
proof -
  have new: "pool_inv (New n)" "pool_set (New n) = {}" "ipLength (New n) = n" for n by simp_all (simp add: New_def)
  obtain r where r: "hostPools es (New IPv4len) (New IPv6len) = Some r" "isl r \<longleftrightarrow> (\<exists>p\<in>set es. ParseCIDR p = None)"
    "\<forall>q4 q6. r = Inr (q4, q6) \<longrightarrow> pool_inv q4 \<and> pool_inv q6 \<and> pool_set q4 \<union> pool_set q6 = pool_set (New IPv4len) \<union> pool_set (New IPv6len) \<union> host_set es"
    using hostPools_spec [OF new(1) new(1) new(3) new(3), of es] by blast
  show ?thesis
  proof (cases r)
    case (Inl e)
    then have "\<not> (\<forall>p\<in>set es. ParseCIDR p \<noteq> None)" using r(2) by (simp del: not_None_eq)
    then show ?thesis using r(1) Inl by (simp add: validateIPs_def del: not_None_eq)
  next
    case (Inr qs)
    obtain q4 q6 where q: "r = Inr (q4, q6)" using Inr by (cases qs) simp
    then have i: "pool_inv q4" "pool_inv q6" and s: "pool_set q4 \<union> pool_set q6 = host_set es" using r(3) new(2) by auto
    show ?thesis using checkIPs_spec [OF i, of "SrcIpAddrs c @ DstIpAddrs c"] r(1,2) q unfolding s
      by (auto simp: validateIPs_def)
  qed
qed

section \<open>Runs of the client\<close>

datatype epc_event = Ask NetworkServiceRequest | Drop Connection

fun epc_run ::
  "epc_env \<Rightarrow> (excludedPrefixesClient \<times> 's) request_chain \<Rightarrow> (excludedPrefixesClient \<times> 's) close_chain \<Rightarrow> epc_event list \<Rightarrow>
   excludedPrefixesClient \<times> 's \<Rightarrow> (excludedPrefixesClient \<times> 's) option" where
  "epc_run env nxt cls [] st = Some st"
| "epc_run env nxt cls (Ask request # evs) st = do { (_, st) \<leftarrow> epc_Request env nxt cls request st; epc_run env nxt cls evs st }"
| "epc_run env nxt cls (Drop conn # evs) st = do { (_, st) \<leftarrow> epc_Close env cls conn st; epc_run env nxt cls evs st }"

text \<open>The texts a closed connection takes out of the client's list.\<close>

definition texts :: "IPContext \<Rightarrow> string set" where
  "texts c = set (SrcIpAddrs c) \<union> set (DstIpAddrs c) \<union> Prefix ` set (SrcRoutes c) \<union> Prefix ` set (DstRoutes c) \<union> set (ExcludedPrefixes c)"

definition closed_texts :: "epc_event list \<Rightarrow> string set" where
  "closed_texts evs = (\<Union>ev\<in>set evs. case ev of Ask _ \<Rightarrow> {} | Drop conn \<Rightarrow> texts (ip_context conn))"

text \<open>The calls come one after the other: the rest of the chain leaves the client alone.\<close>

definition sequential ::
  "(excludedPrefixesClient \<times> 's) request_chain \<Rightarrow> (excludedPrefixesClient \<times> 's) close_chain \<Rightarrow> bool" where
  "sequential nxt cls \<longleftrightarrow> (\<forall>request st. fst (snd (nxt request st)) = fst st) \<and> (\<forall>conn st. fst (snd (cls conn st)) = fst st)"

lemma getRoutePrefixes_texts: "getRoutePrefixes env rs = Some ps \<Longrightarrow> set ps \<subseteq> Prefix ` set rs"
proof (induction rs arbitrary: ps)
  case (Cons r rs)
  then obtain n qs where n: "GetPrefixIPNet env r = Some n" "getRoutePrefixes env rs = Some qs" by (auto simp: bind_eq_Some_conv)
  then have "ps = qs \<or> ps = Prefix r # qs" using Cons.prems by (cases "Mask_Size (Mask n)") (auto split: if_splits)
  then show ?case using Cons.IH [OF n(2)] by auto
qed simp

lemma remember_keeps:
  "remember env g c epc = Some epc' \<Longrightarrow> set (epc_excludedPrefixes epc) \<subseteq> set (epc_excludedPrefixes epc')"
  by (auto simp: remember_def bind_eq_Some_conv Let_def split: option.splits)

lemma remember_adds:
  "remember env None c epc = Some epc' \<Longrightarrow> set (SrcIpAddrs c @ DstIpAddrs c) \<subseteq> set (epc_excludedPrefixes epc')"
  by (auto simp: remember_def bind_eq_Some_conv Let_def)

lemma forget_keeps:
  "forget env conn epc = Some epc' \<Longrightarrow> set (epc_excludedPrefixes epc) - texts (ip_context conn) \<subseteq> set (epc_excludedPrefixes epc')"
proof -
  assume f: "forget env conn epc = Some epc'"
  let ?c = "ip_context conn"
  obtain src dst where r: "getRoutePrefixes env (SrcRoutes ?c) = Some src" "getRoutePrefixes env (DstRoutes ?c) = Some dst"
    using f by (auto simp: forget_def bind_eq_Some_conv Let_def)
  have "epc_excludedPrefixes epc' = exclude (exclude (exclude (exclude (exclude (epc_excludedPrefixes epc) (SrcIpAddrs ?c)) (DstIpAddrs ?c)) src) dst) (ExcludedPrefixes ?c)"
    using f r by (auto simp: forget_def Let_def split: option.splits)
  then show ?thesis using getRoutePrefixes_texts [OF r(1)] getRoutePrefixes_texts [OF r(2)] by (auto simp: exclude_filter texts_def)
qed

text \<open>Every request is a settled answer of the rest of the chain, which leaves the client as it was.\<close>

lemma epc_Request_settles:
  assumes "epc_Request env nxt cls request st = Some out" "sequential nxt cls"
  obtains conn conn' a s where "req_connection request = Some conn"
    "epc_settle env cls (checkAwarenessGroups (getNSURL env request) (awarenessGroups (fst st)))
      (newExcluded (fst st) (checkAwarenessGroups (getNSURL env request) (awarenessGroups (fst st))) (ip_context conn)) conn' (a, fst st, s) = Some out"
proof -
  obtain conn where c: "req_connection request = Some conn" using assms(1) by (auto simp: epc_Request_def bind_eq_Some_conv Let_def)
  obtain conn' q where e: "epc_settle env cls (checkAwarenessGroups (getNSURL env request) (awarenessGroups (fst st)))
      (newExcluded (fst st) (checkAwarenessGroups (getNSURL env request) (awarenessGroups (fst st))) (ip_context conn)) conn' (nxt q st) = Some out"
    using assms(1) c unfolding epc_Request_def Let_def by simp
  have "fst (snd (nxt q st)) = fst st" using assms(2) unfolding sequential_def by blast
  then have "nxt q st = (fst (nxt q st), fst st, snd (snd (nxt q st)))" by (metis prod.collapse)
  then show ?thesis using that [OF c] e by metis
qed

text \<open>The three ways an answer is settled.\<close>

lemma epc_settleE:
  assumes "epc_settle env cls g new conn (a, st) = Some (r, st')"
  obtains (refused) e where "a = Inl e" "r = Inl e" "st' = st"
  | (closed) resp e where "a = Inr resp" "r = Inl e" "st' = snd (cls conn st)"
  | (kept) resp v where "a = Inr resp" "r = Inr resp" "validateIPs (ip_context resp) new = Some (Inr v)"
      "remember env g (ip_context resp) (fst st) = Some (fst st')"
proof (cases a)
  case (Inl e)
  then show ?thesis using assms by (intro refused [of e]) (simp_all add: epc_settle_def)
next
  case (Inr resp)
  obtain v where v: "validateIPs (ip_context resp) new = Some v" using validateIPs_iff by blast
  show ?thesis
  proof (cases v)
    case (Inl e)
    then show ?thesis using assms \<open>a = Inr resp\<close> v by (intro closed [of resp e]) (simp_all add: epc_settle_def)
  next
    case (Inr u)
    then show ?thesis using assms kept \<open>a = Inr resp\<close> v by (auto simp: epc_settle_def bind_eq_Some_conv)
  qed
qed

lemma epc_Request_Inr:
  assumes "epc_Request env nxt cls request st = Some (Inr resp, st')" "sequential nxt cls"
  obtains conn v where "req_connection request = Some conn"
    "validateIPs (ip_context resp) (newExcluded (fst st) (checkAwarenessGroups (getNSURL env request) (awarenessGroups (fst st))) (ip_context conn)) = Some (Inr v)"
    "remember env (checkAwarenessGroups (getNSURL env request) (awarenessGroups (fst st))) (ip_context resp) (fst st) = Some (fst st')"
proof (rule epc_Request_settles [OF assms])
  fix conn conn' a s
  let ?g = "checkAwarenessGroups (getNSURL env request) (awarenessGroups (fst st))"
  let ?new = "newExcluded (fst st) ?g (ip_context conn)"
  assume c: "req_connection request = Some conn" and e: "epc_settle env cls ?g ?new conn' (a, fst st, s) = Some (Inr resp, st')"
  from e show ?thesis by (rule epc_settleE) (use that [OF c] in auto)
qed

lemma epc_Request_keeps:
  assumes "epc_Request env nxt cls request st = Some (r, st')" "sequential nxt cls"
  shows "set (epc_excludedPrefixes (fst st)) \<subseteq> set (epc_excludedPrefixes (fst st'))"
proof -
  have c: "fst (snd (cls q st1)) = fst st1" for q st1 using assms(2) unfolding sequential_def by blast
  show ?thesis
  proof (rule epc_Request_settles [OF assms])
    fix conn conn' a s
    assume "epc_settle env cls (checkAwarenessGroups (getNSURL env request) (awarenessGroups (fst st)))
      (newExcluded (fst st) (checkAwarenessGroups (getNSURL env request) (awarenessGroups (fst st))) (ip_context conn)) conn' (a, fst st, s) = Some (r, st')"
    then show ?thesis
    proof (rule epc_settleE)
      show ?thesis if "st' = snd (cls conn' (fst st, s))" using that c [of conn' "(fst st, s)"] by simp
    qed (auto dest: remember_keeps)
  qed
qed

lemma epc_run_keeps:
  "epc_run env nxt cls evs st = Some st' \<Longrightarrow> sequential nxt cls \<Longrightarrow> p \<in> set (epc_excludedPrefixes (fst st)) \<Longrightarrow> p \<notin> closed_texts evs \<Longrightarrow>
    p \<in> set (epc_excludedPrefixes (fst st'))"
proof (induction env nxt cls evs st rule: epc_run.induct)
  case (2 env nxt cls request evs st)
  then obtain r st1 where r: "epc_Request env nxt cls request st = Some (r, st1)" "epc_run env nxt cls evs st1 = Some st'"
    by (auto simp: bind_eq_Some_conv)
  have "p \<in> set (epc_excludedPrefixes (fst st1))" using epc_Request_keeps [OF r(1) 2(3)] 2(4) by blast
  then show ?case using 2(1) [OF r(1) refl r(2) 2(3)] 2(5) by (auto simp: closed_texts_def)
next
  case (3 env nxt cls conn evs st)
  then obtain r st1 where r: "epc_Close env cls conn st = Some (r, st1)" "epc_run env nxt cls evs st1 = Some st'"
    by (auto simp: bind_eq_Some_conv)
  then obtain epc where e: "forget env conn (fst st) = Some epc" "cls conn (epc, snd st) = (r, st1)"
    by (auto simp: epc_Close_def bind_eq_Some_conv)
  have "fst st1 = epc" using 3(3) e(2) unfolding sequential_def by (metis fst_conv snd_conv)
  then have "p \<in> set (epc_excludedPrefixes (fst st1))"
    using forget_keeps [OF e(1)] 3(4,5) by (auto simp: closed_texts_def)
  then show ?case using 3(1) [OF r(1) refl r(2) 3(3)] 3(5) by (auto simp: closed_texts_def)
qed simp


section \<open>Witness\<close>

definition host_net :: "u8 \<Rightarrow> IPNet" where
  "host_net d = \<lparr>IP = [10, 0, 0, d], Mask = cidr_bytes (8 * IPv4len) IPv4len\<rparr>"

abbreviation host_name_of :: "u8 \<Rightarrow> string" where
  "host_name_of d \<equiv> IPNet_String (host_net d)"

lemma host_parse: "ParseCIDR (host_name_of d) = Some (To16 [10, 0, 0, d], host_net d)"
proof -
  have "canonical_net (host_net d)"
    unfolding canonical_net_def host_net_def using cidr_bytes_ones [of "[10, 0, 0, d]" IPv4len]
    by (intro exI [of _ "8 * IPv4len"] exI [of _ IPv4len]) simp
  from ParseCIDR_IPNet_String [OF this] show ?thesis by (simp add: host_net_def)
qed

lemma one_host_set: "cidr_set (host_name_of d) = {ip_val [10, 0, 0, d]}"
  unfolding cidr_set_def host_parse by (simp add: host_net_def net_set_host [of "[10, 0, 0, d]" IPv4len, simplified])

lemma one_host_text: "host_text (host_name_of d)"
  unfolding host_text_def host_parse using simpleMaskLength_cidr [of 32 IPv4len] by (simp add: Mask_Size_def host_net_def)

lemma host_differs: "ip_val (To16 [10, 0, 0, 2]) \<noteq> ip_val [10, 0, 0, 1]"
  by (simp add: ip_val_def To16_def v4InV6Prefix_def)

text \<open>A chain that gives out addresses from a list.\<close>

definition giver :: "(excludedPrefixesClient \<times> string list) request_chain" where
  "giver request st = (Inr (with_ip_context (empty_ip_context\<lparr>SrcIpAddrs := [hd (snd st)]\<rparr>) (conn_of request)), fst st, tl (snd st))"

definition no_routes :: epc_env where
  "no_routes = \<lparr>InterfaceNameKey = ''name'', GetPrefixIPNet = (\<lambda>_. None)\<rparr>"

definition new_request :: NetworkServiceRequest where
  "new_request = \<lparr>req_connection = Some empty_connection, MechanismPreferences = []\<rparr>"

lemma new_request_context: "ip_context (conn_of new_request) = empty_ip_context" "ip_context empty_connection = empty_ip_context"
  by (simp_all add: new_request_def conn_of_def ip_context_def empty_connection_def)

lemma giver_answer:
  assumes "validateIPs (empty_ip_context\<lparr>SrcIpAddrs := [a]\<rparr>) (newExcluded epc None empty_ip_context) = Some (Inr ())" "awarenessGroups epc = []"
  shows "\<exists>conn. ip_context conn = empty_ip_context\<lparr>SrcIpAddrs := [a]\<rparr> \<and>
    epc_Request no_routes giver (\<lambda>c st. (Inr (), st)) new_request (epc, a # as) =
      Some (Inr conn, epc\<lparr>epc_excludedPrefixes := removeDuplicates (epc_excludedPrefixes epc @ [a])\<rparr>, as)"
  using assms
  by (simp add: epc_Request_def new_request_def giver_def ip_context_def with_ip_context_def empty_connection_def conn_of_def
      empty_ip_context_def epc_settle_def remember_def)


end
