(* ===== verification/Mechanism_Choice.thy ===== *)
theory Mechanism_Choice
  imports Discover_Select
begin

text \<open>
  Choosing the mechanism of a connection (\<^verbatim>\<open>src/pkg/networkservice/common\<close>): \<^verbatim>\<open>filtermechanisms\<close> and
  \<^verbatim>\<open>mechanismpriority\<close> prepare the preferences of a request, \<^verbatim>\<open>mechanisms\<close> offers the request to the servers or
  clients of the preferred types in turn, \<^verbatim>\<open>mechanismtranslation\<close> keeps the mechanisms of the two sides of a
  forwarder apart. The chains of the single mechanism types and the constants of the API are arguments.
\<close>

section \<open>Metrics\<close>

definition getInterfaceDetails :: "string \<Rightarrow> string \<Rightarrow> string" where
  "getInterfaceDetails interfaceType interfaceName = interfaceType @ ''/'' @ interfaceName"

text \<open>
  The interface is noted in the current segment of the path once; \<^verbatim>\<open>None\<close> is the index out of range. A mechanism
  without parameters (or no mechanism) has an unknown name.
\<close>

definition storeMetrics :: "Connection \<Rightarrow> Mechanism option \<Rightarrow> bool \<Rightarrow> Connection option" where
  "storeMetrics conn mechanism isClient =
     (case conn_path conn of
        None \<Rightarrow> Some conn
      | Some path \<Rightarrow>
          (let segments = PathSegments path; i = unat (Index path) in
           if segments = [] then Some conn
           else if i \<ge> length segments then None
           else
             let params = Option.bind mechanism Parameters;
                 name = (case params of None \<Rightarrow> ''unknown''
                         | Some ps \<Rightarrow> (case map_of ps ''name'' of None \<Rightarrow> [] | Some v \<Rightarrow> v));
                 typ = (case mechanism of None \<Rightarrow> [] | Some m \<Rightarrow> mech_Type m);
                 metricKey = (if isClient then ''client_interface'' else ''server_interface'');
                 segment = segments ! i
             in if seg_Metrics segment metricKey = None
                then Some (conn\<lparr>conn_path := Some (path\<lparr>PathSegments := segments[i := segment\<lparr>seg_Metrics :=
                       (seg_Metrics segment)(metricKey \<mapsto> getInterfaceDetails typ name)\<rparr>]\<rparr>)\<rparr>)
                else Some conn))"

section \<open>Mechanisms\<close>

text \<open>Errors pile up: \<^verbatim>\<open>errors.Wrap(err, respErr.Error())\<close> puts the message of the last failure first.\<close>

definition Wrap :: "string \<Rightarrow> string \<Rightarrow> string" where
  "Wrap err message = message @ '': '' @ err"

definition GetType :: "Mechanism option \<Rightarrow> string" where
  "GetType m = (case m of None \<Rightarrow> [] | Some m \<Rightarrow> mech_Type m)"

text \<open>The server passes every try a copy of the request with the mechanism set.\<close>

fun mechanismsServer_loop ::
  "(string \<rightharpoonup> 's request_chain) \<Rightarrow> NetworkServiceRequest \<Rightarrow> Mechanism list \<Rightarrow> string \<Rightarrow> 's \<Rightarrow> (nsm_error + Connection) \<times> 's" where
  "mechanismsServer_loop ms request [] err s = (Inl (Err err), s)"
| "mechanismsServer_loop ms request (mechanism # prefs) err s =
     (case ms (mech_Type mechanism) of
        None \<Rightarrow> mechanismsServer_loop ms request prefs err s
      | Some srv \<Rightarrow>
          (case req_connection request of
             None \<Rightarrow> (Inl Panic, s)
           | Some conn \<Rightarrow>
               (case srv (request\<lparr>req_connection := Some (conn\<lparr>Mechanism := Some mechanism\<rparr>)\<rparr>) s of
                  (Inr resp, s) \<Rightarrow>
                    (case storeMetrics resp (Mechanism resp) False of
                       None \<Rightarrow> (Inl Panic, s)
                     | Some resp \<Rightarrow> (Inr resp, s))
                | (Inl Panic, s) \<Rightarrow> (Inl Panic, s)
                | (Inl (Err respErr), s) \<Rightarrow> mechanismsServer_loop ms request prefs (Wrap err respErr) s)))"

definition errCannotSupportMech :: string where
  "errCannotSupportMech = ''cannot support any of the requested mechanism''"

definition errUnsupportedMech :: string where
  "errUnsupportedMech = ''unsupported mechanism''"

definition mechanismsServer_Request :: "(string \<rightharpoonup> 's request_chain) \<Rightarrow> 's request_chain" where
  "mechanismsServer_Request ms request s =
     (case Mechanism (conn_of request) of
        Some mech \<Rightarrow>
          (case ms (mech_Type mech) of
             Some srv \<Rightarrow>
               (case storeMetrics (conn_of request) (Some mech) False of
                  None \<Rightarrow> (Inl Panic, s)
                | Some conn \<Rightarrow> srv (request\<lparr>req_connection := Some conn\<rparr>) s)
           | None \<Rightarrow> (Inl (Err errUnsupportedMech), s))
      | None \<Rightarrow> mechanismsServer_loop ms request (MechanismPreferences request) errCannotSupportMech s)"

definition mechanismsServer_Close :: "(string \<rightharpoonup> 's close_chain) \<Rightarrow> 's close_chain" where
  "mechanismsServer_Close ms conn s =
     (case ms (GetType (Mechanism conn)) of
        Some srv \<Rightarrow>
          (case storeMetrics conn (Mechanism conn) False of
             None \<Rightarrow> (Inl Panic, s)
           | Some conn \<Rightarrow> srv conn s)
      | None \<Rightarrow> (Inl (Err errCannotSupportMech), s))"

text \<open>The client leaves the mechanism of the copies unset: the preferred one only names the client to call.\<close>

fun mechanismsClient_loop ::
  "(string \<rightharpoonup> 's request_chain) \<Rightarrow> NetworkServiceRequest \<Rightarrow> Mechanism list \<Rightarrow> string \<Rightarrow> 's \<Rightarrow> (nsm_error + Connection) \<times> 's" where
  "mechanismsClient_loop ms request [] err s = (Inl (Err err), s)"
| "mechanismsClient_loop ms request (mechanism # prefs) err s =
     (case ms (mech_Type mechanism) of
        None \<Rightarrow> mechanismsClient_loop ms request prefs err s
      | Some cm \<Rightarrow>
          (case (case req_connection request of
                   None \<Rightarrow> Some request
                 | Some conn \<Rightarrow> map_option (\<lambda>conn. request\<lparr>req_connection := Some conn\<rparr>) (storeMetrics conn (Some mechanism) True)) of
             None \<Rightarrow> (Inl Panic, s)
           | Some req \<Rightarrow>
               (case cm req s of
                  (Inr resp, s) \<Rightarrow> (Inr resp, s)
                | (Inl Panic, s) \<Rightarrow> (Inl Panic, s)
                | (Inl (Err respErr), s) \<Rightarrow> mechanismsClient_loop ms request prefs (Wrap err respErr) s)))"

definition mechanismsClient_Request :: "(string \<rightharpoonup> 's request_chain) \<Rightarrow> 's request_chain" where
  "mechanismsClient_Request ms request s =
     (case Mechanism (conn_of request) of
        Some mech \<Rightarrow>
          (case ms (mech_Type mech) of
             Some srv \<Rightarrow>
               (case storeMetrics (conn_of request) (Some mech) True of
                  None \<Rightarrow> (Inl Panic, s)
                | Some conn \<Rightarrow> srv (request\<lparr>req_connection := Some conn\<rparr>) s)
           | None \<Rightarrow> (Inl (Err errUnsupportedMech), s))
      | None \<Rightarrow> mechanismsClient_loop ms request (MechanismPreferences request) errCannotSupportMech s)"

definition mechanismsClient_Close :: "(string \<rightharpoonup> 's close_chain) \<Rightarrow> 's close_chain" where
  "mechanismsClient_Close ms conn s =
     (case ms (GetType (Mechanism conn)) of
        Some c \<Rightarrow>
          (case storeMetrics conn (Mechanism conn) True of
             None \<Rightarrow> (Inl Panic, s)
           | Some conn \<Rightarrow> c conn s)
      | None \<Rightarrow> (Inl (Err errCannotSupportMech), s))"

section \<open>Filter\<close>

definition filterMechanismsByCls :: "Mechanism list \<Rightarrow> string \<Rightarrow> Mechanism list" where
  "filterMechanismsByCls mechanisms mechanismCls = filter (\<lambda>m. Cls m = mechanismCls) mechanisms"

text \<open>The scheme of a URL and the two classes \<^verbatim>\<open>cls.LOCAL\<close> and \<^verbatim>\<open>cls.REMOTE\<close> are arguments; there has to be a URL.\<close>

definition filterMechanismsClient_Request ::
  "('u \<Rightarrow> string) \<Rightarrow> string \<Rightarrow> string \<Rightarrow> ('u, 's) ctx_request_chain \<Rightarrow> ('u, 's) ctx_request_chain" where
  "filterMechanismsClient_Request Scheme LOCAL REMOTE nxt ctx request s =
     (case ClientURL ctx of
        None \<Rightarrow> (Inl Panic, s)
      | Some u \<Rightarrow>
          (let c = (if Scheme u = ''inode'' \<or> Scheme u = ''unix'' then LOCAL else REMOTE) in
           nxt ctx (request\<lparr>MechanismPreferences := filterMechanismsByCls (MechanismPreferences request) c\<rparr>) s))"

definition filterMechanismsClient_Close :: "('u, 's) ctx_close_chain \<Rightarrow> ('u, 's) ctx_close_chain" where
  "filterMechanismsClient_Close nxt ctx conn s = nxt ctx conn s"

section \<open>Priorities\<close>

text \<open>\<^verbatim>\<open>strings.ToUpper\<close>, of the ASCII letters. A type that is listed twice has the later index.\<close>

definition ToUpper :: "string \<Rightarrow> string" where
  "ToUpper = map (\<lambda>c. let n = of_char c :: nat in if 97 \<le> n \<and> n \<le> 122 then char_of (n - 32) else c)"

definition mechanismPriority_NewClient :: "string list \<Rightarrow> string \<rightharpoonup> nat" where
  "mechanismPriority_NewClient ps = foldl (\<lambda>m (i, p). m(ToUpper p \<mapsto> i)) Map.empty (enumerate 0 ps)"

text \<open>The loop: a mechanism without a priority goes to the end of the slice.\<close>

fun splitByPriority :: "(string \<rightharpoonup> nat) \<Rightarrow> nat \<Rightarrow> nat \<Rightarrow> Mechanism list \<Rightarrow> nat \<times> Mechanism list" where
  "splitByPriority priorities 0 tailIndex ms = (tailIndex, ms)"
| "splitByPriority priorities (Suc n) tailIndex ms =
     (if priorities (mech_Type (ms ! tailIndex)) \<noteq> None then splitByPriority priorities n (tailIndex + 1) ms
      else splitByPriority priorities n tailIndex (take tailIndex ms @ drop (tailIndex + 1) ms @ [ms ! tailIndex]))"

text \<open>\<^verbatim>\<open>sort.SliceStable\<close> is the library's stable sort by a key.\<close>

definition prioritizeMechanismsByType :: "Mechanism list \<Rightarrow> (string \<rightharpoonup> nat) \<Rightarrow> Mechanism list" where
  "prioritizeMechanismsByType mechanisms priorities =
     (let (tailIndex, ms) = splitByPriority priorities (length mechanisms) 0 mechanisms in
      sort_key (\<lambda>m. the (priorities (mech_Type m))) (take tailIndex ms) @ drop tailIndex ms)"

definition mechanismPriorityClient_Request :: "(string \<rightharpoonup> nat) \<Rightarrow> 's request_chain \<Rightarrow> 's request_chain" where
  "mechanismPriorityClient_Request priorities nxt request s =
     nxt (request\<lparr>MechanismPreferences := prioritizeMechanismsByType (MechanismPreferences request) priorities\<rparr>) s"

definition mechanismPriorityClient_Close :: "'s close_chain \<Rightarrow> 's close_chain" where
  "mechanismPriorityClient_Close nxt conn s = nxt conn s"

section \<open>Translation\<close>

text \<open>
  The metadata of the connection holds the mechanism of the other side; the two functions read and write the slot
  (\<^verbatim>\<open>None\<close>: no entry, or a nil one).
\<close>

definition mechanismTranslation_Request ::
  "('s \<Rightarrow> Mechanism option) \<Rightarrow> (Mechanism option \<Rightarrow> 's \<Rightarrow> 's) \<Rightarrow> 's request_chain \<Rightarrow> 's request_chain" where
  "mechanismTranslation_Request load store nxt request s =
     (case req_connection request of
        None \<Rightarrow> (Inl Panic, s)
      | Some conn \<Rightarrow>
          (case nxt (request\<lparr>MechanismPreferences := [], req_connection := Some (conn\<lparr>Mechanism := load s\<rparr>)\<rparr>) s of
             (Inl e, s) \<Rightarrow> (Inl e, s)
           | (Inr clientConn, s) \<Rightarrow> (Inr (clientConn\<lparr>Mechanism := Mechanism conn\<rparr>), store (Mechanism clientConn) s)))"

definition mechanismTranslation_Close ::
  "('s \<Rightarrow> Mechanism option) \<Rightarrow> (Mechanism option \<Rightarrow> 's \<Rightarrow> 's) \<Rightarrow> 's close_chain \<Rightarrow> 's close_chain" where
  "mechanismTranslation_Close load store nxt conn s = nxt (conn\<lparr>Mechanism := load s\<rparr>) (store None s)"

text \<open>The properties of the choice of mechanisms.\<close>

section \<open>Priorities\<close>

definition ranked :: "(string \<rightharpoonup> nat) \<Rightarrow> Mechanism \<Rightarrow> bool" where
  "ranked pr m \<longleftrightarrow> pr (mech_Type m) \<noteq> None"

lemma splitByPriority_spec:
  "splitByPriority pr (length bs) (length as) (as @ bs @ cs) =
     (length as + length (filter (ranked pr) bs), as @ filter (ranked pr) bs @ cs @ filter (\<lambda>m. \<not> ranked pr m) bs)"
proof (induction bs arbitrary: as cs)
  case (Cons b bs)
  show ?case
  proof (cases "ranked pr b")
    case True
    then show ?thesis using Cons.IH [of "as @ [b]" cs] by (simp add: ranked_def)
  next
    case False
    then show ?thesis using Cons.IH [of as "cs @ [b]"] by (simp add: ranked_def)
  qed
qed simp

text \<open>The reference: the ranked mechanisms by rank, in the order given among equals, then the others as given.\<close>

definition by_rank :: "(string \<rightharpoonup> nat) \<Rightarrow> Mechanism list \<Rightarrow> Mechanism list" where
  "by_rank pr ms = sort_key (\<lambda>m. the (pr (mech_Type m))) (filter (ranked pr) ms) @ filter (\<lambda>m. \<not> ranked pr m) ms"

lemma prioritizeMechanismsByType_spec: "prioritizeMechanismsByType ms pr = by_rank pr ms"
  using splitByPriority_spec [of pr ms "[]" "[]"] by (simp add: prioritizeMechanismsByType_def by_rank_def)

lemma filter_by_rank: "filter P (by_rank pr ms) = by_rank pr (filter P ms)"
proof -
  have "filter P (filter Q ms) = filter Q (filter P ms)" for Q
    by (simp add: conj_commute)
  then show ?thesis by (simp add: by_rank_def filter_sort)
qed

section \<open>Trying in turn\<close>

text \<open>The reference: offer something to one after the other until one accepts, and pile up the errors.\<close>

fun offer_each :: "('m \<Rightarrow> 's \<Rightarrow> (nsm_error + 'a) \<times> 's) \<Rightarrow> 'm list \<Rightarrow> string \<Rightarrow> 's \<Rightarrow> (nsm_error + 'a) \<times> 's" where
  "offer_each call [] err s = (Inl (Err err), s)"
| "offer_each call (m # ms) err s =
     (case call m s of (Inl (Err e), s) \<Rightarrow> offer_each call ms (Wrap err e) s | r \<Rightarrow> r)"

definition call_client ::
  "(string \<rightharpoonup> 's request_chain) \<Rightarrow> NetworkServiceRequest \<Rightarrow> Connection \<Rightarrow> Mechanism \<Rightarrow> 's \<Rightarrow> (nsm_error + Connection) \<times> 's" where
  "call_client ms request conn m s =
     (case storeMetrics conn (Some m) True of
        None \<Rightarrow> (Inl Panic, s)
      | Some c \<Rightarrow> the (ms (mech_Type m)) (request\<lparr>req_connection := Some c\<rparr>) s)"

definition call_server ::
  "(string \<rightharpoonup> 's request_chain) \<Rightarrow> NetworkServiceRequest \<Rightarrow> Connection \<Rightarrow> Mechanism \<Rightarrow> 's \<Rightarrow> (nsm_error + Connection) \<times> 's" where
  "call_server ms request conn m s =
     (case the (ms (mech_Type m)) (request\<lparr>req_connection := Some (conn\<lparr>Mechanism := Some m\<rparr>)\<rparr>) s of
        (Inl e, s) \<Rightarrow> (Inl e, s)
      | (Inr resp, s) \<Rightarrow> (case storeMetrics resp (Mechanism resp) False of None \<Rightarrow> (Inl Panic, s) | Some resp \<Rightarrow> (Inr resp, s)))"

definition supported :: "(string \<rightharpoonup> 'c) \<Rightarrow> Mechanism \<Rightarrow> bool" where
  "supported ms m \<longleftrightarrow> ms (mech_Type m) \<noteq> None"

lemma mechanismsClient_loop_offers:
  assumes "req_connection request = Some conn"
  shows "mechanismsClient_loop ms request prefs err s = offer_each (call_client ms request conn) (filter (supported ms) prefs) err s"
proof (induction prefs arbitrary: err s)
  case (Cons m prefs)
  then show ?case using assms
    by (auto simp: supported_def call_client_def split: option.splits prod.splits sum.splits nsm_error.splits)
qed simp

lemma mechanismsServer_loop_offers:
  assumes "req_connection request = Some conn"
  shows "mechanismsServer_loop ms request prefs err s = offer_each (call_server ms request conn) (filter (supported ms) prefs) err s"
proof (induction prefs arbitrary: err s)
  case (Cons m prefs)
  then show ?case using assms
    by (auto simp: supported_def call_server_def split: option.splits prod.splits sum.splits nsm_error.splits)
qed simp

text \<open>
  C12. A new connection that goes through the filter, the priorities and the mechanisms of a client is offered to the
  clients of exactly those preferences that are of the class that fits the URL and that have a client: the ranked ones first, by rank
  and in the order given among equals, then the others in the order given, until one accepts; otherwise the errors are returned
  together.
\<close>

theorem mechanisms_by_priority:
  assumes "ClientURL ctx = Some u" "req_connection request = Some conn" "Mechanism conn = None"
  shows "filterMechanismsClient_Request Scheme LOCAL REMOTE
      (\<lambda>ctx. mechanismPriorityClient_Request priorities (mechanismsClient_Request ms)) ctx request s =
    (let wanted = (if Scheme u \<in> {''inode'', ''unix''} then LOCAL else REMOTE);
         usable = filter (\<lambda>m. Cls m = wanted \<and> supported ms m) (MechanismPreferences request);
         preferences = by_rank priorities (filter (\<lambda>m. Cls m = wanted) (MechanismPreferences request))
     in offer_each (call_client ms (request\<lparr>MechanismPreferences := preferences\<rparr>) conn) (by_rank priorities usable)
          errCannotSupportMech s)"
proof -
  have f: "filter (\<lambda>m. Cls m = c \<and> supported ms m) xs = filter (supported ms) (filter (\<lambda>m. Cls m = c) xs)" for c xs
    by (simp add: conj_commute)
  show ?thesis using assms
    by (simp add: filterMechanismsClient_Request_def mechanismPriorityClient_Request_def mechanismsClient_Request_def conn_of_def
        filterMechanismsByCls_def prioritizeMechanismsByType_spec mechanismsClient_loop_offers Let_def f filter_by_rank
        del: filter_filter)
qed

text \<open>The server does the same with its servers, in the order of the preferences.\<close>

lemma mechanismsServer_offers:
  assumes "req_connection request = Some conn" "Mechanism conn = None"
  shows "mechanismsServer_Request ms request s =
    offer_each (call_server ms request conn) (filter (supported ms) (MechanismPreferences request)) errCannotSupportMech s"
  using assms by (simp add: mechanismsServer_Request_def conn_of_def mechanismsServer_loop_offers)

section \<open>Translation\<close>

text \<open>The two sides of a forwarder: a refresh goes out with the mechanism the last answer had, and comes back with the client's own.\<close>

lemma mechanismTranslation_keeps_sides:
  assumes "\<And>m s. load (store m s) = m" "req_connection request = Some conn" "mechanismTranslation_Request load store nxt request s = (Inr c, s')"
  shows "Mechanism c = Mechanism conn"
    and "\<exists>c' s1. nxt (request\<lparr>MechanismPreferences := [], req_connection := Some (conn\<lparr>Mechanism := load s\<rparr>)\<rparr>) s = (Inr c', s1) \<and>
      load s' = Mechanism c'"
  using assms by (auto simp: mechanismTranslation_Request_def split: prod.splits sum.splits)

section \<open>Witness\<close>

definition mech_of :: "string \<Rightarrow> string \<Rightarrow> Mechanism" where
  "mech_of c t = \<lparr>Cls = c, mech_Type = t, Parameters = None\<rparr>"

text \<open>A kernel client that refuses and a memif client that accepts; the state is the list of the clients that were called.\<close>

definition two_clients :: "string \<rightharpoonup> string list request_chain" where
  "two_clients = [''KERNEL'' \<mapsto> (\<lambda>r s. (Inl (Err ''no''), s @ [''KERNEL''])), ''MEMIF'' \<mapsto> (\<lambda>r s. (Inr (conn_of r), s @ [''MEMIF'']))]"

lemma mechanisms_by_priority_witness:
  "snd (filterMechanismsClient_Request id ''LOCAL'' ''REMOTE''
      (\<lambda>ctx. mechanismPriorityClient_Request (mechanismPriority_NewClient [''kernel'', ''wireguard'']) (mechanismsClient_Request two_clients))
      \<lparr>ClientURL = Some ''unix'', Candidates = None\<rparr>
      \<lparr>req_connection = Some empty_connection, MechanismPreferences =
         [mech_of ''LOCAL'' ''MEMIF'', mech_of ''REMOTE'' ''KERNEL'', mech_of ''LOCAL'' ''KERNEL'', mech_of ''LOCAL'' ''VFIO'']\<rparr> []) =
   [''KERNEL'', ''MEMIF'']"
proof -
  let ?ctx = "\<lparr>ClientURL = Some ''unix'', Candidates = None\<rparr>"
  let ?r = "\<lparr>req_connection = Some empty_connection, MechanismPreferences =
     [mech_of ''LOCAL'' ''MEMIF'', mech_of ''REMOTE'' ''KERNEL'', mech_of ''LOCAL'' ''KERNEL'', mech_of ''LOCAL'' ''VFIO'']\<rparr>"
  have p: "mechanismPriority_NewClient [''kernel'', ''wireguard''] = [''KERNEL'' \<mapsto> 0, ''WIREGUARD'' \<mapsto> 1]"
  proof -
    have "ToUpper ''kernel'' = ''KERNEL''" "ToUpper ''wireguard'' = ''WIREGUARD''" by code_simp+
    then show ?thesis by (simp add: mechanismPriority_NewClient_def)
  qed
  have 1: "ClientURL ?ctx = Some ''unix''" and 2: "req_connection ?r = Some empty_connection" and 3: "Mechanism empty_connection = None"
    by (simp_all add: empty_connection_def)
  show ?thesis unfolding p mechanisms_by_priority [OF 1 2 3]
    by (simp add: by_rank_def ranked_def supported_def two_clients_def mech_of_def call_client_def storeMetrics_def empty_connection_def Let_def)
qed

end
