(* ===== verification/Mechanism_Pools.thy ===== *)
theory Mechanism_Pools
  imports Mechanism_Choice Go_Net_Text Address_Ledger
begin

text \<open>
  Servers that complete the parameters of a mechanism (\<^verbatim>\<open>src/pkg/networkservice/common/mechanisms\<close>): the kernel
  server names the interface, the VLAN server allocates VLAN ids, the VNI server allocates network identifiers of vxlan
  tunnels. Mechanisms of the API module, bitmaps and random numbers are arguments, with what is relied on stated in
  \<open>vlan_api_ok\<close>, \<open>bitmap_ok\<close> and \<open>vni_api_ok\<close>.
\<close>

definition set_mechanism :: "Mechanism \<Rightarrow> NetworkServiceRequest \<Rightarrow> NetworkServiceRequest" where
  "set_mechanism m request = request\<lparr>req_connection := map_option (\<lambda>c. c\<lparr>Mechanism := Some m\<rparr>) (req_connection request)\<rparr>"

section \<open>Kernel interfaces\<close>

text \<open>\<open>is_kernel\<close> stands for \<^verbatim>\<open>kernelmech.ToMechanism\<close> not returning nil; the setters change the mechanism in place.\<close>

record kernel_api =
  is_kernel :: "Mechanism \<Rightarrow> bool"
  GetInterfaceName :: "Mechanism \<Rightarrow> string"
  SetInterfaceName :: "string \<Rightarrow> Mechanism \<Rightarrow> Mechanism"
  SetNetNSURL :: "string \<Rightarrow> Mechanism \<Rightarrow> Mechanism"
  LinuxIfMaxLength :: nat

record kernelMechanismServer =
  interfaceName :: string
  interfaceNameGenerator :: "string \<Rightarrow> nsm_error + string"

definition netNSURL :: string where
  "netNSURL = ''file:///proc/thread-self/ns/net''"

definition limitName :: "kernel_api \<Rightarrow> string \<Rightarrow> string" where
  "limitName K name = (if length name > LinuxIfMaxLength K then take (LinuxIfMaxLength K) name else name)"

definition WithInterfaceName :: "kernel_api \<Rightarrow> string \<Rightarrow> kernelMechanismServer \<Rightarrow> kernelMechanismServer" where
  "WithInterfaceName K name srv = srv\<lparr>interfaceName := limitName K name\<rparr>"

definition WithInterfaceNameGenerator :: "(string \<Rightarrow> nsm_error + string) \<Rightarrow> kernelMechanismServer \<Rightarrow> kernelMechanismServer" where
  "WithInterfaceNameGenerator g srv = srv\<lparr>interfaceNameGenerator := g\<rparr>"

text \<open>\<^verbatim>\<open>nanoid.GenerateLinuxInterfaceName\<close> is the generator unless an option gives another.\<close>

definition kernel_NewServer ::
  "(string \<Rightarrow> nsm_error + string) \<Rightarrow> (kernelMechanismServer \<Rightarrow> kernelMechanismServer) list \<Rightarrow> kernelMechanismServer" where
  "kernel_NewServer gen opts = foldl (\<lambda>srv opt. opt srv) \<lparr>interfaceName = [], interfaceNameGenerator = gen\<rparr> opts"

definition kernel_Request :: "kernel_api \<Rightarrow> kernelMechanismServer \<Rightarrow> 's request_chain \<Rightarrow> 's request_chain" where
  "kernel_Request K srv nxt request s =
     (case Mechanism (conn_of request) of
        None \<Rightarrow> nxt request s
      | Some m \<Rightarrow>
          if \<not> is_kernel K m then nxt request s
          else
            let m = SetNetNSURL K netNSURL m in
            if GetInterfaceName K m \<noteq> [] then nxt (set_mechanism m request) s
            else if interfaceName srv \<noteq> [] then nxt (set_mechanism (SetInterfaceName K (interfaceName srv) m) request) s
            else case interfaceNameGenerator srv (NetworkService (conn_of request)) of
              Inl e \<Rightarrow> (Inl e, s)
            | Inr ifname \<Rightarrow> nxt (set_mechanism (SetInterfaceName K ifname m) request) s)"

definition kernel_Close :: "'s close_chain \<Rightarrow> 's close_chain" where
  "kernel_Close nxt conn s = nxt conn s"

section \<open>VLAN ids\<close>

record 'b bitmap_api =
  bm_New :: 'b
  bm_AddRange :: "u32 \<Rightarrow> u32 \<Rightarrow> 'b \<Rightarrow> 'b"
  bm_IsEmpty :: "'b \<Rightarrow> bool"
  bm_Minimum :: "'b \<Rightarrow> u32"
  bm_Remove :: "u32 \<Rightarrow> 'b \<Rightarrow> 'b"
  bm_Add :: "u32 \<Rightarrow> 'b \<Rightarrow> 'b"

record vlan_api =
  vlan_kernel :: "Mechanism \<Rightarrow> bool"
  SupportsVLAN :: "Mechanism \<Rightarrow> bool"
  GetVLAN :: "Mechanism \<Rightarrow> u32"
  SetVLAN :: "u32 \<Rightarrow> Mechanism \<Rightarrow> Mechanism"

definition vlan_NewServer :: "'b bitmap_api \<Rightarrow> 'b" where
  "vlan_NewServer B = bm_AddRange B 1 4095 (bm_New B)"

text \<open>
  The first half of a request takes the least free id if the mechanism has none; the flag says that it had one, or
  needs none. The free ids are shared by all requests, so they are in the state of the rest of the chain.
\<close>

definition vlan_take ::
  "'b bitmap_api \<Rightarrow> vlan_api \<Rightarrow> 'b \<Rightarrow> NetworkServiceRequest \<Rightarrow> nsm_error + NetworkServiceRequest \<times> bool \<times> 'b" where
  "vlan_take B V freeVLANs request =
     (case Mechanism (conn_of request) of
        None \<Rightarrow> Inr (request, True, freeVLANs)
      | Some m \<Rightarrow>
          if vlan_kernel V m \<and> SupportsVLAN V m \<and> GetVLAN V m = 0 then
            if bm_IsEmpty B freeVLANs then Inl (Err ''vlan id not available for allocation'')
            else let vlanID = bm_Minimum B freeVLANs
                 in Inr (set_mechanism (SetVLAN V vlanID m) request, False, bm_Remove B vlanID freeVLANs)
          else Inr (request, True, freeVLANs))"

definition releaseVLANID :: "'b bitmap_api \<Rightarrow> vlan_api \<Rightarrow> 'b \<Rightarrow> Mechanism option \<Rightarrow> 'b" where
  "releaseVLANID B V freeVLANs m = (case m of None \<Rightarrow> freeVLANs | Some m \<Rightarrow> bm_Add B (GetVLAN V m) freeVLANs)"

definition vlanServer_Request :: "'b bitmap_api \<Rightarrow> vlan_api \<Rightarrow> ('b \<times> 's) request_chain \<Rightarrow> ('b \<times> 's) request_chain" where
  "vlanServer_Request B V nxt request st =
     (case vlan_take B V (fst st) request of
        Inl e \<Rightarrow> (Inl e, st)
      | Inr (request, isEstablished, freeVLANs) \<Rightarrow>
          (case nxt request (freeVLANs, snd st) of
             (Inl (Err e), freeVLANs, s) \<Rightarrow>
               (Inl (Err e), if \<not> isEstablished then releaseVLANID B V freeVLANs (Mechanism (conn_of request)) else freeVLANs, s)
           | r \<Rightarrow> r))"

definition vlan_release_closed :: "'b bitmap_api \<Rightarrow> vlan_api \<Rightarrow> Connection \<Rightarrow> 'b \<Rightarrow> 'b" where
  "vlan_release_closed B V conn freeVLANs =
     (case Mechanism conn of
        None \<Rightarrow> freeVLANs
      | Some m \<Rightarrow>
          if vlan_kernel V m \<and> SupportsVLAN V m \<and> GetVLAN V m > 0 then releaseVLANID B V freeVLANs (Some m) else freeVLANs)"

definition vlanServer_Close :: "'b bitmap_api \<Rightarrow> vlan_api \<Rightarrow> ('b \<times> 's) close_chain \<Rightarrow> ('b \<times> 's) close_chain" where
  "vlanServer_Close B V nxt conn st = nxt conn (vlan_release_closed B V conn (fst st), snd st)"

text \<open>What the server relies on: a bitmap is a set of 32-bit numbers, the setter of a mechanism sets.\<close>

definition bitmap_ok :: "'b bitmap_api \<Rightarrow> ('b \<Rightarrow> u32 set) \<Rightarrow> bool" where
  "bitmap_ok B S \<longleftrightarrow> S (bm_New B) = {} \<and> (\<forall>a b x. S (bm_AddRange B a b x) = S x \<union> {a..<b}) \<and>
     (\<forall>x. bm_IsEmpty B x \<longleftrightarrow> S x = {}) \<and> (\<forall>x. S x \<noteq> {} \<longrightarrow> bm_Minimum B x = Min (S x)) \<and>
     (\<forall>a x. S (bm_Remove B a x) = S x - {a}) \<and> (\<forall>a x. S (bm_Add B a x) = insert a (S x))"

definition vlan_api_ok :: "vlan_api \<Rightarrow> bool" where
  "vlan_api_ok V \<longleftrightarrow> (\<forall>v m. GetVLAN V (SetVLAN V v m) = v \<and> vlan_kernel V (SetVLAN V v m) = vlan_kernel V m \<and>
     SupportsVLAN V (SetVLAN V v m) = SupportsVLAN V m)"

section \<open>VNIs\<close>

text \<open>\<open>SrcIP\<close> may be nil; \<open>set_dst\<close> is \<^verbatim>\<open>SetDstIP\<close> and \<^verbatim>\<open>SetDstPort\<close> with the addresses of the tunnel.\<close>

record vni_api =
  is_vxlan :: "Mechanism \<Rightarrow> bool"
  SetDstIP :: "IP \<Rightarrow> Mechanism \<Rightarrow> Mechanism"
  SetDstPort :: "16 word \<Rightarrow> Mechanism \<Rightarrow> Mechanism"
  SetSrcIP :: "IP \<Rightarrow> Mechanism \<Rightarrow> Mechanism"
  SetSrcPort :: "16 word \<Rightarrow> Mechanism \<Rightarrow> Mechanism"
  SrcIP :: "Mechanism \<Rightarrow> IP option"
  VNI :: "Mechanism \<Rightarrow> u32"
  SetVNI :: "u32 \<Rightarrow> Mechanism \<Rightarrow> Mechanism"

text \<open>The options of both sides; a port of zero is ignored.\<close>

record vni_tunnel =
  tunnelIP :: IP
  tunnelPort :: "16 word"

definition WithTunnelPort :: "16 word \<Rightarrow> vni_tunnel \<Rightarrow> vni_tunnel" where
  "WithTunnelPort port t = (if port \<noteq> 0 then t\<lparr>tunnelPort := port\<rparr> else t)"

definition vni_NewServer :: "IP \<Rightarrow> (vni_tunnel \<Rightarrow> vni_tunnel) list \<Rightarrow> vni_tunnel" where
  "vni_NewServer ip opts = foldl (\<lambda>t opt. opt t) \<lparr>tunnelIP = ip, tunnelPort = 4789\<rparr> opts"

definition vni_NewClient :: "IP \<Rightarrow> (vni_tunnel \<Rightarrow> vni_tunnel) list \<Rightarrow> vni_tunnel" where
  "vni_NewClient ip opts = foldl (\<lambda>t opt. opt t) \<lparr>tunnelIP = ip, tunnelPort = 4789\<rparr> opts"

definition vniClient_Request :: "vni_api \<Rightarrow> vni_tunnel \<Rightarrow> 's request_chain \<Rightarrow> 's request_chain" where
  "vniClient_Request A t nxt request s =
     nxt (request\<lparr>MechanismPreferences := map (\<lambda>m. if is_vxlan A m then SetSrcPort A (tunnelPort t) (SetSrcIP A (tunnelIP t) m) else m)
       (MechanismPreferences request)\<rparr>) s"

definition vniClient_Close :: "'s close_chain \<Rightarrow> 's close_chain" where
  "vniClient_Close nxt conn s = nxt conn s"

text \<open>
  The server's map of the identifiers in use (its values repeat the keys), and the identifier each connection
  has in its metadata.
\<close>

type_synonym vniKey = "string \<times> u32"

record vniServer =
  vni_map :: "vniKey set"
  vni_meta :: "string \<rightharpoonup> u32"

definition srcIPString :: "vni_api \<Rightarrow> Mechanism \<Rightarrow> string" where
  "srcIPString A m = (case SrcIP A m of None \<Rightarrow> ''<nil>'' | Some ip \<Rightarrow> IP_String ip)"

text \<open>The metadata of a connection, \<^verbatim>\<open>metadata.Map(ctx, isClient)\<close> of its id.\<close>

definition meta_store :: "string \<Rightarrow> u32 \<Rightarrow> vniServer \<Rightarrow> vniServer" where
  "meta_store c vni st = st\<lparr>vni_meta := (vni_meta st)(c \<mapsto> vni)\<rparr>"

definition meta_delete :: "string \<Rightarrow> vniServer \<Rightarrow> vniServer" where
  "meta_delete c st = st\<lparr>vni_meta := (vni_meta st)(c := None)\<rparr>"

definition meta_load :: "string \<Rightarrow> vniServer \<Rightarrow> u32 option" where
  "meta_load c st = vni_meta st c"

definition meta_loadOrStore :: "string \<Rightarrow> u32 \<Rightarrow> vniServer \<Rightarrow> bool \<times> vniServer" where
  "meta_loadOrStore c vni st = (if vni_meta st c \<noteq> None then (True, st) else (False, meta_store c vni st))"

text \<open>
  Random identifiers are drawn until one is new for the source address: \<open>rnd n\<close> is the result of the
  \<open>n\<close>-th draw. The loop may go on for ever.
\<close>

partial_function (option) vni_generate :: "(nat \<Rightarrow> nsm_error + u32) \<Rightarrow> vniKey set \<Rightarrow> string \<Rightarrow> nat \<Rightarrow> (nsm_error + u32) option" where
  "vni_generate rnd used src n =
     (case rnd n of
        Inl e \<Rightarrow> Some (Inl e)
      | Inr vni \<Rightarrow> if (src, vni) \<in> used then vni_generate rnd used src (n + 1) else Some (Inr vni))"

text \<open>
  The part of a request before the rest of the chain is called: the mechanism gets its identifier. The result has
  the key and whether the metadata had an identifier before.
\<close>

definition vni_start ::
  "vni_api \<Rightarrow> (nat \<Rightarrow> nsm_error + u32) \<Rightarrow> string \<Rightarrow> Mechanism \<Rightarrow> vniServer \<Rightarrow> (nsm_error + Mechanism \<times> vniKey \<times> bool \<times> vniServer) option" where
  "vni_start A rnd c m st =
     (let src = srcIPString A m; vni = VNI A m in
      if vni \<noteq> 0 \<and> SrcIP A m \<noteq> None then
        (let st = st\<lparr>vni_map := insert (src, vni) (vni_map st)\<rparr>; (loaded, st) = meta_loadOrStore c vni st
         in Some (Inr (m, (src, vni), loaded, st)))
      else case meta_load c st of
        Some vni' \<Rightarrow> Some (Inr (SetVNI A vni' m, (src, vni), True, st))
      | None \<Rightarrow>
          (case vni_generate rnd (vni_map st) src 0 of
             None \<Rightarrow> None
           | Some (Inl e) \<Rightarrow> Some (Inl e)
           | Some (Inr v) \<Rightarrow> Some (Inr (SetVNI A v m, (src, v), False, meta_store c v (st\<lparr>vni_map := insert (src, v) (vni_map st)\<rparr>)))))"

text \<open>After a failure of the rest of the chain.\<close>

definition vni_undo :: "string \<Rightarrow> vniKey \<Rightarrow> bool \<Rightarrow> vniServer \<Rightarrow> vniServer" where
  "vni_undo c k loaded st = (if \<not> loaded then (meta_delete c st)\<lparr>vni_map := vni_map st - {k}\<rparr> else st)"

text \<open>\<open>c\<close> is the identifier the metadata is kept under.\<close>

definition vniServer_Request ::
  "vni_api \<Rightarrow> vni_tunnel \<Rightarrow> (nat \<Rightarrow> nsm_error + u32) \<Rightarrow> string \<Rightarrow> (vniServer \<times> 's) request_chain \<Rightarrow>
   NetworkServiceRequest \<Rightarrow> vniServer \<times> 's \<Rightarrow> ((nsm_error + Connection) \<times> vniServer \<times> 's) option" where
  "vniServer_Request A t rnd c nxt request st =
     (case Mechanism (conn_of request) of
        None \<Rightarrow> Some (nxt request st)
      | Some m \<Rightarrow>
          if \<not> is_vxlan A m then Some (nxt request st)
          else
            let m = SetDstPort A (tunnelPort t) (SetDstIP A (tunnelIP t) m) in
            case vni_start A rnd c m (fst st) of
              None \<Rightarrow> None
            | Some (Inl e) \<Rightarrow> Some (Inl e, st)
            | Some (Inr (m, k, loaded, vs)) \<Rightarrow>
                (case nxt (set_mechanism m request) (vs, snd st) of
                   (Inl (Err e), vs, s) \<Rightarrow> Some (Inl (Err e), vni_undo c k loaded vs, s)
                 | r \<Rightarrow> Some r))"

definition vni_forget :: "vni_api \<Rightarrow> string \<Rightarrow> Connection \<Rightarrow> vniServer \<Rightarrow> vniServer" where
  "vni_forget A c conn st =
     (case Mechanism conn of
        None \<Rightarrow> st
      | Some m \<Rightarrow>
          if is_vxlan A m \<and> VNI A m \<noteq> 0 \<and> SrcIP A m \<noteq> None
          then (meta_delete c st)\<lparr>vni_map := vni_map st - {(srcIPString A m, VNI A m)}\<rparr>
          else st)"

definition vniServer_Close :: "vni_api \<Rightarrow> string \<Rightarrow> (vniServer \<times> 's) close_chain \<Rightarrow> (vniServer \<times> 's) close_chain" where
  "vniServer_Close A c nxt conn st = nxt conn (vni_forget A c conn (fst st), snd st)"

text \<open>What the server relies on: setting an identifier sets it and keeps the source address.\<close>

definition vni_api_ok :: "vni_api \<Rightarrow> bool" where
  "vni_api_ok A \<longleftrightarrow> (\<forall>v m. VNI A (SetVNI A v m) = v \<and> SrcIP A (SetVNI A v m) = SrcIP A m \<and> is_vxlan A (SetVNI A v m) = is_vxlan A m)"

end
