(* ===== verification/Mechanism_Pool_Theorems.thy ===== *)
theory Mechanism_Pool_Theorems
  imports Mechanism_Pools
begin

text \<open>
  The allocators of VLAN ids and VNIs over interleaved calls: a call allocates, runs the rest of the chain, and gives back
  if that fails; other calls may do the same in between. Both are clients of the address ledger.
\<close>

text \<open>Two ends of a chain.\<close>

definition accepts :: "'s request_chain" where
  "accepts request s = (Inr (conn_of request), s)"

definition refuses :: "'s request_chain" where
  "refuses request s = (Inl (Err ''refused''), s)"

section \<open>VLAN ids\<close>

text \<open>
  The state: the free ids, and the connections that hold one, with their mechanism and whether their request has been
  accepted yet.
\<close>

record 'b vlan_system =
  freeIds :: 'b
  vlan_conns :: "string \<rightharpoonup> bool \<times> Mechanism"

text \<open>
  Requests of new connections come without an id; a refresh and a close carry the one the connection has. A refresh takes
  nothing and, if it fails, releases nothing.
\<close>

inductive vlan_step :: "'b bitmap_api \<Rightarrow> vlan_api \<Rightarrow> 'b vlan_system \<Rightarrow> 'b vlan_system \<Rightarrow> bool" for B V where
  take: "vlan_conns \<sigma> c = None \<Longrightarrow> vlan_take B V (freeIds \<sigma>) request = Inr (request', False, bm) \<Longrightarrow>
    Mechanism (conn_of request') = Some m \<Longrightarrow>
    vlan_step B V \<sigma> \<lparr>freeIds = bm, vlan_conns = (vlan_conns \<sigma>)(c \<mapsto> (False, m))\<rparr>"
| accept: "vlan_conns \<sigma> c = Some (False, m) \<Longrightarrow> vlan_step B V \<sigma> (\<sigma>\<lparr>vlan_conns := (vlan_conns \<sigma>)(c \<mapsto> (True, m))\<rparr>)"
| reject: "vlan_conns \<sigma> c = Some (False, m) \<Longrightarrow>
    vlan_step B V \<sigma> \<lparr>freeIds = releaseVLANID B V (freeIds \<sigma>) (Some m), vlan_conns = (vlan_conns \<sigma>)(c := None)\<rparr>"
| refresh: "vlan_conns \<sigma> c = Some (True, m) \<Longrightarrow> Mechanism (conn_of request) = Some m \<Longrightarrow>
    vlan_take B V (freeIds \<sigma>) request = Inr (request', isEstablished, bm) \<Longrightarrow>
    vlan_step B V \<sigma> (\<sigma>\<lparr>freeIds := if isEstablished then bm else releaseVLANID B V bm (Mechanism (conn_of request'))\<rparr>)"
| close: "vlan_conns \<sigma> c = Some (True, m) \<Longrightarrow> Mechanism conn = Some m \<Longrightarrow>
    vlan_step B V \<sigma> \<lparr>freeIds = vlan_release_closed B V conn (freeIds \<sigma>), vlan_conns = (vlan_conns \<sigma>)(c := None)\<rparr>"

definition vlan_ledger :: "vlan_api \<Rightarrow> ('b \<Rightarrow> u32 set) \<Rightarrow> 'b vlan_system \<Rightarrow> (unit, u32) ledger" where
  "vlan_ledger V S \<sigma> = \<lparr>spare = (\<lambda>_. S (freeIds \<sigma>)), held = (\<lambda>c. map_option (\<lambda>(e, m). ((), {GetVLAN V m})) (vlan_conns \<sigma> c))\<rparr>"

definition vlan_inv :: "'b bitmap_api \<Rightarrow> vlan_api \<Rightarrow> ('b \<Rightarrow> u32 set) \<Rightarrow> 'b vlan_system \<Rightarrow> bool" where
  "vlan_inv B V S \<sigma> \<longleftrightarrow> bitmap_ok B S \<and> vlan_api_ok V \<and> S (freeIds \<sigma>) \<subseteq> {1..<4095} \<and>
     (\<forall>c e m. vlan_conns \<sigma> c = Some (e, m) \<longrightarrow> vlan_kernel V m \<and> SupportsVLAN V m \<and> GetVLAN V m \<in> {1..<4095})"

lemma vlan_take_new:
  assumes "vlan_inv B V S \<sigma>" "vlan_take B V (freeIds \<sigma>) request = Inr (request', False, bm)" "Mechanism (conn_of request') = Some m"
  shows "GetVLAN V m \<in> S (freeIds \<sigma>) \<and> S bm = S (freeIds \<sigma>) - {GetVLAN V m} \<and> vlan_kernel V m \<and> SupportsVLAN V m"
proof -
  obtain m0 where m0: "Mechanism (conn_of request) = Some m0" "vlan_kernel V m0" "SupportsVLAN V m0" "\<not> bm_IsEmpty B (freeIds \<sigma>)"
    "request' = set_mechanism (SetVLAN V (bm_Minimum B (freeIds \<sigma>)) m0) request" "bm = bm_Remove B (bm_Minimum B (freeIds \<sigma>)) (freeIds \<sigma>)"
    using assms(2) by (auto simp: vlan_take_def Let_def split: option.splits if_splits)
  have "req_connection request \<noteq> None" using m0(1) by (auto simp: conn_of_def empty_connection_def split: option.splits)
  then have m: "m = SetVLAN V (bm_Minimum B (freeIds \<sigma>)) m0"
    using assms(3) m0(5) by (auto simp: set_mechanism_def conn_of_def)
  have S: "S (freeIds \<sigma>) \<noteq> {}" "bm_Minimum B (freeIds \<sigma>) = Min (S (freeIds \<sigma>))" "S bm = S (freeIds \<sigma>) - {bm_Minimum B (freeIds \<sigma>)}"
    using assms(1) m0(4,6) by (auto simp: vlan_inv_def bitmap_ok_def)
  then have "bm_Minimum B (freeIds \<sigma>) \<in> S (freeIds \<sigma>)" using Min_in [of "S (freeIds \<sigma>)"] by simp
  then show ?thesis using S m m0 assms(1) by (auto simp: vlan_inv_def vlan_api_ok_def)
qed

lemma vlan_step_ledger:
  assumes "vlan_inv B V S \<sigma>" "vlan_step B V \<sigma> \<sigma>'"
  shows "vlan_inv B V S \<sigma>' \<and> ledger_step\<^sup>*\<^sup>* (vlan_ledger V S \<sigma>) (vlan_ledger V S \<sigma>')"
  using assms(2,1)
proof (induction rule: vlan_step.induct)
  case (take \<sigma> c request request' bm m)
  note n = vlan_take_new [OF take(4,2,3)]
  let ?L = "vlan_ledger V S \<sigma>" and ?L' = "vlan_ledger V S \<lparr>freeIds = bm, vlan_conns = (vlan_conns \<sigma>)(c \<mapsto> (False, m))\<rparr>"
  have "ledger_step ?L \<lparr>spare = (spare ?L)(() := spare ?L () - {GetVLAN V m}), held = (held ?L)(c \<mapsto> ((), {GetVLAN V m}))\<rparr>"
    by (rule ledger_step.grant) (use take(1) n in \<open>simp_all add: vlan_ledger_def\<close>)
  also have "\<lparr>spare = (spare ?L)(() := spare ?L () - {GetVLAN V m}), held = (held ?L)(c \<mapsto> ((), {GetVLAN V m}))\<rparr> = ?L'"
    using n by (simp add: vlan_ledger_def fun_eq_iff)
  finally show ?case using take n by (auto simp: vlan_inv_def)
next
  case (accept \<sigma> c m)
  then have "vlan_ledger V S (\<sigma>\<lparr>vlan_conns := (vlan_conns \<sigma>)(c \<mapsto> (True, m))\<rparr>) = vlan_ledger V S \<sigma>"
    by (simp add: vlan_ledger_def fun_eq_iff)
  then show ?case using accept by (auto simp: vlan_inv_def)
next
  case (reject \<sigma> c m)
  let ?L = "vlan_ledger V S \<sigma>"
  have "ledger_step ?L \<lparr>spare = (spare ?L)(() := spare ?L () \<union> {GetVLAN V m}), held = (held ?L)(c := None)\<rparr>"
    by (rule ledger_step.give_back) (use reject(1) in \<open>simp add: vlan_ledger_def\<close>)
  also have "\<lparr>spare = (spare ?L)(() := spare ?L () \<union> {GetVLAN V m}), held = (held ?L)(c := None)\<rparr> =
      vlan_ledger V S \<lparr>freeIds = releaseVLANID B V (freeIds \<sigma>) (Some m), vlan_conns = (vlan_conns \<sigma>)(c := None)\<rparr>"
    using reject(2) by (simp add: vlan_ledger_def fun_eq_iff releaseVLANID_def vlan_inv_def bitmap_ok_def)
  finally show ?case using reject by (auto simp: vlan_inv_def releaseVLANID_def bitmap_ok_def)
next
  case (refresh \<sigma> c m request request' isEstablished bm)
  then have "GetVLAN V m \<in> {1..<4095}" by (simp add: vlan_inv_def)
  then have "GetVLAN V m \<noteq> 0" by auto
  then have "isEstablished \<and> bm = freeIds \<sigma>" using refresh(2,3) by (simp add: vlan_take_def)
  then show ?case using refresh(4) by simp
next
  case (close \<sigma> c m conn)
  let ?L = "vlan_ledger V S \<sigma>"
  have m: "vlan_kernel V m" "SupportsVLAN V m" "GetVLAN V m \<in> {1..<4095}" using close(1,3) by (auto simp: vlan_inv_def)
  then have "GetVLAN V m > 0" using word_coorder.not_eq_extremum [of "GetVLAN V m"] by auto
  then have r: "vlan_release_closed B V conn (freeIds \<sigma>) = bm_Add B (GetVLAN V m) (freeIds \<sigma>)"
    using m close(2) by (simp add: vlan_release_closed_def releaseVLANID_def)
  have "ledger_step ?L \<lparr>spare = (spare ?L)(() := spare ?L () \<union> {GetVLAN V m}), held = (held ?L)(c := None)\<rparr>"
    by (rule ledger_step.give_back) (use close(1) in \<open>simp add: vlan_ledger_def\<close>)
  also have "\<lparr>spare = (spare ?L)(() := spare ?L () \<union> {GetVLAN V m}), held = (held ?L)(c := None)\<rparr> =
      vlan_ledger V S \<lparr>freeIds = vlan_release_closed B V conn (freeIds \<sigma>), vlan_conns = (vlan_conns \<sigma>)(c := None)\<rparr>"
    using close(3) by (simp add: vlan_ledger_def fun_eq_iff r vlan_inv_def bitmap_ok_def)
  finally show ?case using close m by (auto simp: vlan_inv_def r bitmap_ok_def)
qed

interpretation vlan_ids: ledger_client "vlan_inv B V S" "vlan_ledger V S" "vlan_step B V" for B V S
  by unfold_locales (simp_all add: vlan_step_ledger)

definition vlan_start :: "'b bitmap_api \<Rightarrow> 'b vlan_system" where
  "vlan_start B = \<lparr>freeIds = vlan_NewServer B, vlan_conns = Map.empty\<rparr>"


text \<open>A bitmap as a set, and the mechanisms of a small API that writes the id in unary.\<close>

definition set_bitmap :: "u32 set bitmap_api" where
  "set_bitmap = \<lparr>bm_New = {}, bm_AddRange = (\<lambda>a b x. x \<union> {a..<b}), bm_IsEmpty = (\<lambda>x. x = {}), bm_Minimum = Min,
     bm_Remove = (\<lambda>a x. x - {a}), bm_Add = insert\<rparr>"

definition unary :: "string \<Rightarrow> Mechanism \<Rightarrow> u32" where
  "unary key m = (case Parameters m of None \<Rightarrow> 0 | Some ps \<Rightarrow> (case map_of ps key of None \<Rightarrow> 0 | Some v \<Rightarrow> of_nat (length v)))"

definition set_unary :: "string \<Rightarrow> u32 \<Rightarrow> Mechanism \<Rightarrow> Mechanism" where
  "set_unary key v m = m\<lparr>Parameters := Some ((key, replicate (unat v) CHR ''x'') # (case Parameters m of None \<Rightarrow> [] | Some ps \<Rightarrow> ps))\<rparr>"

lemma unary_set [simp]: "unary key (set_unary key v m) = v" "mech_Type (set_unary key v m) = mech_Type m"
  by (simp_all add: unary_def set_unary_def)

definition unary_vlan :: vlan_api where
  "unary_vlan = \<lparr>vlan_kernel = (\<lambda>m. mech_Type m = ''KERNEL''), SupportsVLAN = (\<lambda>m. mech_Type m = ''KERNEL''),
     GetVLAN = unary ''vlan'', SetVLAN = set_unary ''vlan''\<rparr>"

lemma small_apis_ok: "bitmap_ok set_bitmap (\<lambda>x. x)" "vlan_api_ok unary_vlan"
  by (simp_all add: bitmap_ok_def set_bitmap_def vlan_api_ok_def unary_vlan_def)

definition kernel_mech :: Mechanism where
  "kernel_mech = \<lparr>Cls = ''LOCAL'', mech_Type = ''KERNEL'', Parameters = None\<rparr>"

definition mech_request :: "Mechanism \<Rightarrow> NetworkServiceRequest" where
  "mech_request m = \<lparr>req_connection = Some (empty_connection\<lparr>Mechanism := Some m\<rparr>), MechanismPreferences = []\<rparr>"

lemma Min_vlans: "Min {1..<4095 :: u32} = 1"
proof (rule Min_eqI)
  show "1 \<in> {1..<4095 :: u32}" by (simp add: word_less_nat_alt)
qed auto

lemma first_vlan:
  "vlan_take set_bitmap unary_vlan (vlan_NewServer set_bitmap) (mech_request kernel_mech) =
    Inr (mech_request (set_unary ''vlan'' 1 kernel_mech), False, {1..<4095} - {1})"
proof -
  have "{1..<4095 :: u32} \<noteq> {}" by (auto simp: word_less_nat_alt intro!: exI [of _ 1])
  then show ?thesis
    by (simp add: vlan_take_def mech_request_def conn_of_def kernel_mech_def unary_vlan_def unary_def set_bitmap_def
        vlan_NewServer_def Min_vlans set_mechanism_def Let_def)
qed


text \<open>
  C2. A server does not take the id a request brings out of the free ones. After a restart of the server the first connection
  refreshes with id 1, and the next new connection gets id 1 as well.
\<close>

theorem vlan_restart_shares:
  assumes "bitmap_ok B S" "vlan_api_ok V"
    and "Mechanism conn_a = Some m" "vlan_kernel V m" "SupportsVLAN V m" "GetVLAN V m = 1"
    and "Mechanism conn_b = Some m'" "vlan_kernel V m'" "SupportsVLAN V m'" "GetVLAN V m' = 0"
  shows "\<exists>st c. vlanServer_Request B V accepts \<lparr>req_connection = Some conn_a, MechanismPreferences = []\<rparr> (vlan_NewServer B, ()) =
      (Inr conn_a, st) \<and> fst (vlanServer_Request B V accepts \<lparr>req_connection = Some conn_b, MechanismPreferences = []\<rparr> st) = Inr c \<and>
      map_option (GetVLAN V) (Mechanism c) = Some 1"
proof -
  have S: "S (vlan_NewServer B) = {1..<4095}" using assms(1) by (simp add: bitmap_ok_def vlan_NewServer_def)
  have "{1..<4095 :: u32} \<noteq> {}" by (auto simp: word_less_nat_alt intro!: exI [of _ 1])
  then have "\<not> bm_IsEmpty B (vlan_NewServer B)" "bm_Minimum B (vlan_NewServer B) = 1"
    using assms(1) S Min_vlans by (simp_all add: bitmap_ok_def)
  then show ?thesis using assms(2-10)
    by (intro exI [of _ "(vlan_NewServer B, ())"])
      (simp add: accepts_def vlanServer_Request_def vlan_take_def conn_of_def set_mechanism_def vlan_api_ok_def Let_def)
qed

lemma vlan_restart_shares_witness:
  "\<exists>c (st :: u32 set \<times> unit). fst (vlanServer_Request set_bitmap unary_vlan accepts (mech_request kernel_mech) st) = Inr c \<and>
    unary ''vlan'' (the (Mechanism c)) = 1"
proof -
  let ?m = "set_unary ''vlan'' 1 kernel_mech"
  let ?a = "empty_connection\<lparr>Mechanism := Some ?m\<rparr>" and ?b = "empty_connection\<lparr>Mechanism := Some kernel_mech\<rparr>"
  have m: "Mechanism ?a = Some ?m" "vlan_kernel unary_vlan ?m" "SupportsVLAN unary_vlan ?m" "GetVLAN unary_vlan ?m = 1"
    by (simp, simp add: unary_vlan_def kernel_mech_def, simp add: unary_vlan_def kernel_mech_def, simp add: unary_vlan_def)
  have n: "Mechanism ?b = Some kernel_mech" "vlan_kernel unary_vlan kernel_mech" "SupportsVLAN unary_vlan kernel_mech"
    "GetVLAN unary_vlan kernel_mech = 0"
    by (simp, simp add: unary_vlan_def kernel_mech_def, simp add: unary_vlan_def kernel_mech_def, simp add: unary_vlan_def kernel_mech_def unary_def)
  obtain st :: "u32 set \<times> unit" and c where c: "fst (vlanServer_Request set_bitmap unary_vlan accepts (mech_request kernel_mech) st) = Inr c"
    "map_option (GetVLAN unary_vlan) (Mechanism c) = Some 1"
    using vlan_restart_shares [OF small_apis_ok m n] unfolding mech_request_def by blast
  have "unary ''vlan'' (the (Mechanism c)) = 1" using c(2) by (auto simp: unary_vlan_def)
  then show ?thesis using c(1) by blast
qed

section \<open>VNIs\<close>

text \<open>The drawing ends as soon as a draw fails or is new.\<close>

lemma vni_generate_ends:
  "n \<le> k \<Longrightarrow> rnd k = Inl e \<or> (\<exists>v. rnd k = Inr v \<and> (src, v) \<notin> used) \<Longrightarrow>
    \<exists>r. vni_generate rnd used src n = Some r \<and> (\<forall>v. r = Inr v \<longrightarrow> (src, v) \<notin> used \<and> (\<exists>j. rnd j = Inr v))"
proof (induction "k - n" arbitrary: n)
  case 0
  then have "n = k" by simp
  then show ?case using 0(3) by (subst vni_generate.simps) auto
next
  case (Suc d)
  show ?case
  proof (cases "rnd n = Inl e \<or> (\<exists>v. rnd n = Inr v \<and> (src, v) \<notin> used)")
    case True
    then show ?thesis by (subst vni_generate.simps) auto
  next
    case False
    have "n \<noteq> k" using False Suc.prems(2) by blast
    then have d: "d = k - (n + 1)" "n + 1 \<le> k" using Suc.hyps(2) Suc.prems(1) by simp_all
    obtain r where "vni_generate rnd used src (n + 1) = Some r" "\<forall>v. r = Inr v \<longrightarrow> (src, v) \<notin> used \<and> (\<exists>j. rnd j = Inr v)"
      using Suc.hyps(1) [OF d Suc.prems(2)] by blast
    then show ?thesis by (subst vni_generate.simps) (auto split: sum.split)
  qed
qed

lemma vni_generate_new:
  assumes "vni_generate rnd used src n = Some r"
  shows "(\<forall>v. r = Inr v \<longrightarrow> (src, v) \<notin> used) \<and> (\<exists>j. rnd j = r)"
proof (rule vni_generate.raw_induct [OF _ assms])
  fix g rnd used src n and r :: "nsm_error + u32"
  assume "\<And>rnd used src n r. g rnd used src n = Some r \<Longrightarrow> (\<forall>v. r = Inr v \<longrightarrow> (src, v) \<notin> used) \<and> (\<exists>j. rnd j = r)"
    and "(case rnd n of Inl e \<Rightarrow> Some (Inl e) | Inr vni \<Rightarrow> if (src, vni) \<in> used then g rnd used src (n + 1) else Some (Inr vni)) = Some r"
  then show "(\<forall>v. r = Inr v \<longrightarrow> (src, v) \<notin> used) \<and> (\<exists>j. rnd j = r)" by (fastforce split: sum.splits if_splits)
qed

text \<open>
  The state: the server, and the connections that hold an identifier, with their mechanism and whether their request has been
  accepted yet. Clients set the source address (\<^verbatim>\<open>vniClient\<close>), bring no identifier of their own with a new connection,
  and bring the one they have, from the same address, with a refresh. Draws are not zero.
\<close>

record vni_system =
  vni_server :: vniServer
  vni_conns :: "string \<rightharpoonup> bool \<times> Mechanism"

inductive vni_step :: "vni_api \<Rightarrow> vni_system \<Rightarrow> vni_system \<Rightarrow> bool" for A where
  start: "vni_conns \<sigma> c = None \<Longrightarrow> is_vxlan A m \<Longrightarrow> SrcIP A m \<noteq> None \<Longrightarrow> VNI A m = 0 \<Longrightarrow> (\<forall>n v. rnd n = Inr v \<longrightarrow> v \<noteq> 0) \<Longrightarrow>
    vni_start A rnd c m (vni_server \<sigma>) = Some (Inr (m', k, loaded, st)) \<Longrightarrow>
    vni_step A \<sigma> \<lparr>vni_server = st, vni_conns = (vni_conns \<sigma>)(c \<mapsto> (False, m'))\<rparr>"
| accept: "vni_conns \<sigma> c = Some (False, m) \<Longrightarrow> vni_step A \<sigma> (\<sigma>\<lparr>vni_conns := (vni_conns \<sigma>)(c \<mapsto> (True, m))\<rparr>)"
| reject: "vni_conns \<sigma> c = Some (False, m) \<Longrightarrow>
    vni_step A \<sigma> \<lparr>vni_server = vni_undo c (srcIPString A m, VNI A m) False (vni_server \<sigma>), vni_conns = (vni_conns \<sigma>)(c := None)\<rparr>"
| refresh: "vni_conns \<sigma> c = Some (True, m) \<Longrightarrow> is_vxlan A m1 \<Longrightarrow> SrcIP A m1 = SrcIP A m \<Longrightarrow> VNI A m1 \<in> {0, VNI A m} \<Longrightarrow>
    vni_start A rnd c m1 (vni_server \<sigma>) = Some (Inr (m', k, loaded, st)) \<Longrightarrow>
    vni_step A \<sigma> \<lparr>vni_server = (if accepted then st else vni_undo c k loaded st), vni_conns = (vni_conns \<sigma>)(c \<mapsto> (True, m'))\<rparr>"
| close: "vni_conns \<sigma> c = Some (True, m) \<Longrightarrow> Mechanism conn = Some m \<Longrightarrow>
    vni_step A \<sigma> \<lparr>vni_server = vni_forget A c conn (vni_server \<sigma>), vni_conns = (vni_conns \<sigma>)(c := None)\<rparr>"

definition vni_ledger :: "vni_api \<Rightarrow> vni_system \<Rightarrow> (string, u32) ledger" where
  "vni_ledger A \<sigma> = \<lparr>spare = (\<lambda>src. {v. (src, v) \<notin> vni_map (vni_server \<sigma>)}),
     held = (\<lambda>c. map_option (\<lambda>(e, m). (srcIPString A m, {VNI A m})) (vni_conns \<sigma> c))\<rparr>"

definition vni_inv :: "vni_api \<Rightarrow> vni_system \<Rightarrow> bool" where
  "vni_inv A \<sigma> \<longleftrightarrow> vni_api_ok A \<and>
     (\<forall>c e m. vni_conns \<sigma> c = Some (e, m) \<longrightarrow> is_vxlan A m \<and> SrcIP A m \<noteq> None \<and> VNI A m \<noteq> 0 \<and>
        (srcIPString A m, VNI A m) \<in> vni_map (vni_server \<sigma>) \<and> vni_meta (vni_server \<sigma>) c = Some (VNI A m)) \<and>
     (\<forall>c. vni_conns \<sigma> c = None \<longrightarrow> vni_meta (vni_server \<sigma>) c = None)"

lemma srcIPString_SetVNI: "vni_api_ok A \<Longrightarrow> srcIPString A (SetVNI A v m) = srcIPString A m"
  by (simp add: srcIPString_def vni_api_ok_def)

lemma vni_start_new:
  assumes "vni_api_ok A" "VNI A m = 0" "vni_meta st c = None" "vni_start A rnd c m st = Some (Inr (m', k, loaded, st'))"
  shows "\<exists>v j. rnd j = Inr v \<and> (srcIPString A m, v) \<notin> vni_map st \<and> m' = SetVNI A v m \<and> k = (srcIPString A m, v) \<and> \<not> loaded \<and>
    st' = \<lparr>vni_map = insert (srcIPString A m, v) (vni_map st), vni_meta = (vni_meta st)(c \<mapsto> v)\<rparr>"
  using assms(2-4) vni_generate_new [of rnd "vni_map st" "srcIPString A m" 0]
  by (auto simp: vni_start_def Let_def meta_load_def meta_store_def split: option.splits sum.splits)

lemma vni_start_again:
  assumes "vni_api_ok A" "vni_meta st c = Some v" "v \<noteq> 0" "(srcIPString A m, v) \<in> vni_map st" "SrcIP A m \<noteq> None" "VNI A m \<in> {0, v}"
    "vni_start A rnd c m st = Some (Inr (m', k, loaded, st'))"
  shows "loaded \<and> st' = st \<and> VNI A m' = v \<and> SrcIP A m' = SrcIP A m \<and> is_vxlan A m' = is_vxlan A m"
  using assms by (auto simp: vni_start_def Let_def meta_load_def meta_loadOrStore_def vni_api_ok_def insert_absorb)

lemma vni_give_back:
  assumes "vni_inv A \<sigma>" "vni_conns \<sigma> c = Some (e, m)"
    "st = (meta_delete c (vni_server \<sigma>))\<lparr>vni_map := vni_map (vni_server \<sigma>) - {(srcIPString A m, VNI A m)}\<rparr>"
    "\<sigma>' = \<lparr>vni_server = st, vni_conns = (vni_conns \<sigma>)(c := None)\<rparr>" "exclusive (vni_ledger A \<sigma>)"
  shows "vni_inv A \<sigma>' \<and> ledger_step (vni_ledger A \<sigma>) (vni_ledger A \<sigma>')"
proof -
  let ?L = "vni_ledger A \<sigma>"
  let ?s = "srcIPString A m" and ?v = "VNI A m"
  have "ledger_step ?L \<lparr>spare = (spare ?L)(?s := spare ?L ?s \<union> {?v}), held = (held ?L)(c := None)\<rparr>"
    by (rule ledger_step.give_back) (use assms(2) in \<open>simp add: vni_ledger_def\<close>)
  also have "\<lparr>spare = (spare ?L)(?s := spare ?L ?s \<union> {?v}), held = (held ?L)(c := None)\<rparr> = vni_ledger A \<sigma>'"
    unfolding assms(3,4) by (auto simp: vni_ledger_def fun_eq_iff meta_delete_def)
  finally have "ledger_step ?L (vni_ledger A \<sigma>')" .
  moreover have "(srcIPString A m', VNI A m') \<noteq> (?s, ?v)" if "vni_conns \<sigma> d = Some (f, m')" "d \<noteq> c" for d f m'
    using exclusive_held [OF assms(5), of c ?s "{?v}" d "{VNI A m'}" ?v] that assms(2) by (auto simp: vni_ledger_def)
  ultimately show ?thesis using assms(1,2) unfolding assms(3,4) by (auto simp: vni_inv_def meta_delete_def)
qed

text \<open>The exclusiveness of the ledger is part of the invariant here: an undo removes a key that no other connection may have.\<close>

definition vni_safe :: "vni_api \<Rightarrow> vni_system \<Rightarrow> bool" where
  "vni_safe A \<sigma> \<longleftrightarrow> vni_inv A \<sigma> \<and> exclusive (vni_ledger A \<sigma>)"

lemma vni_step_ledger:
  assumes "vni_step A \<sigma> \<sigma>'" "vni_safe A \<sigma>"
  shows "vni_safe A \<sigma>' \<and> ledger_step\<^sup>*\<^sup>* (vni_ledger A \<sigma>) (vni_ledger A \<sigma>')"
proof -
  have x: "exclusive (vni_ledger A \<sigma>)" and i: "vni_inv A \<sigma>" using assms(2) by (simp_all add: vni_safe_def)
  have fin: "vni_safe A \<sigma>' \<and> ledger_step\<^sup>*\<^sup>* (vni_ledger A \<sigma>) (vni_ledger A \<sigma>')"
    if "vni_inv A \<sigma>'" "ledger_step\<^sup>*\<^sup>* (vni_ledger A \<sigma>) (vni_ledger A \<sigma>')"
    using that ledger_steps_exclusive [OF that(2) x] by (simp add: vni_safe_def)
  have ok: "vni_api_ok A" using i by (simp add: vni_inv_def)
  show ?thesis using assms(1)
  proof cases
    case (start c m rnd m' k loaded st)
    have "vni_meta (vni_server \<sigma>) c = None" using i start(2) by (simp add: vni_inv_def)
    then obtain v j where v: "rnd j = Inr v" "(srcIPString A m, v) \<notin> vni_map (vni_server \<sigma>)" "m' = SetVNI A v m"
      "st = \<lparr>vni_map = insert (srcIPString A m, v) (vni_map (vni_server \<sigma>)), vni_meta = (vni_meta (vni_server \<sigma>))(c \<mapsto> v)\<rparr>"
      using vni_start_new [OF ok start(5) _ start(7)] by blast
    let ?L = "vni_ledger A \<sigma>" and ?s = "srcIPString A m"
    have "ledger_step ?L \<lparr>spare = (spare ?L)(?s := spare ?L ?s - {v}), held = (held ?L)(c \<mapsto> (?s, {v}))\<rparr>"
      by (rule ledger_step.grant) (use start(2) v(2) in \<open>simp_all add: vni_ledger_def\<close>)
    also have "\<lparr>spare = (spare ?L)(?s := spare ?L ?s - {v}), held = (held ?L)(c \<mapsto> (?s, {v}))\<rparr> = vni_ledger A \<sigma>'"
      using ok unfolding start(1) v(3,4) by (auto simp: vni_ledger_def fun_eq_iff srcIPString_SetVNI vni_api_ok_def)
    finally have "ledger_step ?L (vni_ledger A \<sigma>')" .
    moreover have "vni_inv A \<sigma>'"
      using i ok start(2-6) v(1) unfolding start(1) v(3,4) by (auto simp: vni_inv_def srcIPString_SetVNI vni_api_ok_def)
    ultimately show ?thesis by (intro fin) auto
  next
    case (accept c m)
    then have "vni_ledger A \<sigma>' = vni_ledger A \<sigma>" by (auto simp: vni_ledger_def fun_eq_iff)
    moreover have "vni_inv A \<sigma>'" using i accept by (auto simp: vni_inv_def)
    ultimately show ?thesis by (intro fin) auto
  next
    case (reject c m)
    have "vni_inv A \<sigma>' \<and> ledger_step (vni_ledger A \<sigma>) (vni_ledger A \<sigma>')"
      by (rule vni_give_back [OF i reject(2) refl _ x]) (simp add: reject(1) vni_undo_def)
    then show ?thesis by (intro fin) auto
  next
    case (refresh c m m1 rnd m' k loaded st accepted)
    have c: "is_vxlan A m" "SrcIP A m \<noteq> None" "VNI A m \<noteq> 0" "(srcIPString A m, VNI A m) \<in> vni_map (vni_server \<sigma>)"
      "vni_meta (vni_server \<sigma>) c = Some (VNI A m)" using i refresh(2) by (auto simp: vni_inv_def)
    have s: "srcIPString A m1 = srcIPString A m" using refresh(4) by (simp add: srcIPString_def)
    have a: "loaded \<and> st = vni_server \<sigma> \<and> VNI A m' = VNI A m \<and> SrcIP A m' = SrcIP A m1 \<and> is_vxlan A m' = is_vxlan A m1"
      by (rule vni_start_again [OF ok c(5,3) _ _ refresh(5,6)]) (use c s refresh(4) in simp_all)
    then have s': "srcIPString A m' = srcIPString A m" using refresh(4) by (simp add: srcIPString_def)
    have \<sigma>': "\<sigma>' = \<lparr>vni_server = vni_server \<sigma>, vni_conns = (vni_conns \<sigma>)(c \<mapsto> (True, m'))\<rparr>"
      unfolding refresh(1) using a by (simp add: vni_undo_def)
    have "vni_ledger A \<sigma>' = vni_ledger A \<sigma>" unfolding \<sigma>' using refresh(2) a s' by (auto simp: vni_ledger_def fun_eq_iff)
    moreover have "vni_inv A \<sigma>'" unfolding \<sigma>' using i a c s' refresh(3,4) by (auto simp: vni_inv_def)
    ultimately show ?thesis by (intro fin) auto
  next
    case (close c m conn)
    have "is_vxlan A m" "SrcIP A m \<noteq> None" "VNI A m \<noteq> 0" using i close(2) by (auto simp: vni_inv_def)
    then have "vni_inv A \<sigma>' \<and> ledger_step (vni_ledger A \<sigma>) (vni_ledger A \<sigma>')"
      by (intro vni_give_back [OF i close(2) refl _ x]) (simp add: close(1,3) vni_forget_def)
    then show ?thesis by (intro fin) auto
  qed
qed

interpretation vnis: ledger_client "vni_safe A" "vni_ledger A" "vni_step A" for A
  by unfold_locales (simp_all add: vni_step_ledger)

definition vni_system_start :: vni_system where
  "vni_system_start = \<lparr>vni_server = \<lparr>vni_map = {}, vni_meta = Map.empty\<rparr>, vni_conns = Map.empty\<rparr>"

lemma vni_safe_start: "vni_api_ok A \<Longrightarrow> vni_safe A vni_system_start"
  by (simp add: vni_safe_def vni_inv_def vni_system_start_def exclusive_def vni_ledger_def)


text \<open>
  C40. The server draws for a connection without an identifier for ever exactly when no draw fails and every draw is in use with the
  source address; the map does not bound the number of draws.
\<close>

theorem vni_drawing_ends:
  assumes "Mechanism (conn_of request) = Some m" "is_vxlan A m" "VNI A m = 0" "vni_meta st c = None"
    and "\<And>x. VNI A (SetDstPort A (tunnelPort t) (SetDstIP A (tunnelIP t) x)) = VNI A x"
    and "\<And>x. SrcIP A (SetDstPort A (tunnelPort t) (SetDstIP A (tunnelIP t) x)) = SrcIP A x"
  shows "vniServer_Request A t rnd c nxt request (st, s) \<noteq> None \<longleftrightarrow>
    (\<exists>n. \<forall>v. rnd n = Inr v \<longrightarrow> (srcIPString A m, v) \<notin> vni_map st)"
proof -
  let ?used = "vni_map st" and ?src = "srcIPString A m"
  let ?m = "SetDstPort A (tunnelPort t) (SetDstIP A (tunnelIP t) m)"
  have src: "srcIPString A ?m = ?src" using assms(6) by (simp add: srcIPString_def)
  have "vniServer_Request A t rnd c nxt request (st, s) \<noteq> None \<longleftrightarrow> vni_start A rnd c ?m st \<noteq> None"
    using assms(1,2) by (auto simp: vniServer_Request_def Let_def split: option.splits sum.splits prod.splits nsm_error.splits)
  also have "\<dots> \<longleftrightarrow> vni_generate rnd ?used ?src 0 \<noteq> None"
    using assms(3-5) src by (auto simp: vni_start_def Let_def meta_load_def split: option.splits sum.splits)
  also have "\<dots> \<longleftrightarrow> (\<exists>n. \<forall>v. rnd n = Inr v \<longrightarrow> (?src, v) \<notin> ?used)"
  proof
    assume "vni_generate rnd ?used ?src 0 \<noteq> None"
    then obtain r where "vni_generate rnd ?used ?src 0 = Some r" by blast
    then show "\<exists>n. \<forall>v. rnd n = Inr v \<longrightarrow> (?src, v) \<notin> ?used" using vni_generate_new by blast
  next
    assume "\<exists>n. \<forall>v. rnd n = Inr v \<longrightarrow> (?src, v) \<notin> ?used"
    then obtain n where n: "\<forall>v. rnd n = Inr v \<longrightarrow> (?src, v) \<notin> ?used" by blast
    obtain e where "rnd n = Inl e \<or> (\<exists>v. rnd n = Inr v \<and> (?src, v) \<notin> ?used)" using n by (cases "rnd n") blast+
    then show "vni_generate rnd ?used ?src 0 \<noteq> None" using vni_generate_ends [of 0 n rnd e ?src ?used] by auto
  qed
  finally show ?thesis .
qed

text \<open>
  C5. The identifier a request brings is not checked. A new connection that brings the VNI of another one gets it if the rest of
  the chain accepts; if it rejects, the key is deleted, and the VNI can be drawn again while the other connection has it.
\<close>

theorem vni_foreign_identifier:
  assumes "vni_inv A \<sigma>" "vni_conns \<sigma> a = Some (True, m)" "vni_conns \<sigma> b = None"
    and "Mechanism (conn_of request) = Some m" "SetDstPort A (tunnelPort t) (SetDstIP A (tunnelIP t) m) = m"
  shows "(\<exists>st. vniServer_Request A t rnd b accepts request (vni_server \<sigma>, ()) = Some (Inr (conn_of request), st)) \<and>
    (\<exists>st. vniServer_Request A t rnd b refuses request (vni_server \<sigma>, ()) = Some (Inl (Err ''refused''), st) \<and>
      (srcIPString A m, VNI A m) \<notin> vni_map (fst st))"
proof -
  have m: "is_vxlan A m" "SrcIP A m \<noteq> None" "VNI A m \<noteq> 0" "vni_meta (vni_server \<sigma>) b = None"
    using assms(1-3) by (auto simp: vni_inv_def)
  have r: "conn_of (set_mechanism m request) = conn_of request"
    using assms(4) by (auto simp: set_mechanism_def conn_of_def empty_connection_def split: option.splits)
  have "\<exists>st. vniServer_Request A t rnd b accepts request (vni_server \<sigma>, ()) = Some (Inr (conn_of request), st)"
    using m assms(4,5) r by (auto simp: vniServer_Request_def vni_start_def meta_loadOrStore_def accepts_def Let_def split: option.splits)
  moreover have "\<exists>st. vniServer_Request A t rnd b refuses request (vni_server \<sigma>, ()) = Some (Inl (Err ''refused''), st) \<and>
      (srcIPString A m, VNI A m) \<notin> vni_map (fst st)"
    using m assms(4,5) by (auto simp: vniServer_Request_def vni_start_def meta_loadOrStore_def meta_store_def refuses_def vni_undo_def meta_delete_def Let_def)
  ultimately show ?thesis ..
qed

section \<open>Witnesses\<close>

definition unary_vni :: vni_api where
  "unary_vni = \<lparr>is_vxlan = (\<lambda>m. mech_Type m = ''VXLAN''), SetDstIP = (\<lambda>_ m. m), SetDstPort = (\<lambda>_ m. m), SetSrcIP = (\<lambda>_ m. m),
     SetSrcPort = (\<lambda>_ m. m), SrcIP = (\<lambda>_. Some [10, 0, 0, 1]), VNI = unary ''vni'', SetVNI = set_unary ''vni''\<rparr>"

definition vxlan_mech :: Mechanism where
  "vxlan_mech = \<lparr>Cls = ''REMOTE'', mech_Type = ''VXLAN'', Parameters = None\<rparr>"

lemma unary_vni_simps [simp]:
  "VNI unary_vni m = unary ''vni'' m" "is_vxlan unary_vni m \<longleftrightarrow> mech_Type m = ''VXLAN''" "SetVNI unary_vni = set_unary ''vni''"
  "SrcIP unary_vni m = Some [10, 0, 0, 1]" "SetDstPort unary_vni p m = m" "SetDstIP unary_vni i m = m"
  by (simp_all add: unary_vni_def)

lemma unary_vni_ok: "vni_api_ok unary_vni" by (simp add: vni_api_ok_def)

lemma vxlan_mech_simps [simp]: "unary ''vni'' vxlan_mech = 0" "mech_Type vxlan_mech = ''VXLAN''"
  by (simp_all add: vxlan_mech_def unary_def)


text \<open>Two draws of an identifier in use do not keep the third from ending the loop.\<close>

lemma vni_drawing_ends_witness:
  "vniServer_Request unary_vni \<lparr>tunnelIP = [10, 0, 0, 2], tunnelPort = 4789\<rparr> (\<lambda>n. Inr (if n < 2 then 7 else 9)) ''b'' accepts
     (mech_request vxlan_mech) (\<lparr>vni_map = {(srcIPString unary_vni vxlan_mech, 7)}, vni_meta = [''a'' \<mapsto> 7]\<rparr>, ()) \<noteq> None"
proof -
  let ?t = "\<lparr>tunnelIP = [10, 0, 0, 2], tunnelPort = 4789\<rparr>"
  let ?st = "\<lparr>vni_map = {(srcIPString unary_vni vxlan_mech, 7)}, vni_meta = [''a'' \<mapsto> 7]\<rparr>"
  have m: "Mechanism (conn_of (mech_request vxlan_mech)) = Some vxlan_mech" by (simp add: mech_request_def conn_of_def)
  have c: "vni_meta ?st ''b'' = None" by simp
  show ?thesis
    by (subst vni_drawing_ends [OF m _ _ c]) (auto intro!: exI [of _ 2])
qed

end
