(* ===== verification/Element_Timers.thy ===== *)
theory Element_Timers
  imports NSM_Api Registry_Api
begin

text \<open>
  Timers of connections and endpoints: \<^verbatim>\<open>networkservice/common/timeout\<close>, \<^verbatim>\<open>registry/common/expire\<close>,
  \<^verbatim>\<open>networkservice/common/refresh\<close> and \<^verbatim>\<open>registry/common/refresh\<close> start a goroutine for every accepted request. It waits for a time or
  for its cancellation, which the next request or the close calls, and then fires an event of \<^verbatim>\<open>begin\<close> that does nothing if
  it has been cancelled by the time its turn comes.
\<close>

section \<open>Durations\<close>

text \<open>
  Times and durations count nanoseconds. Go's durations have 64 bits: the difference of two times saturates, the
  difference of two durations wraps around.
\<close>

definition int64 :: "int \<Rightarrow> int" where
  "int64 x = sint (word_of_int x :: 64 word)"

definition Until :: "int \<Rightarrow> int \<Rightarrow> int" where
  "Until now t = max (- (2 ^ 63)) (min (2 ^ 63 - 1) (t - now))"

text \<open>The zero \<^verbatim>\<open>time.Time\<close>, and \<^verbatim>\<open>AsTime()\<close> of a timestamp, which is the start of 1970 for nil.\<close>

definition zero_time :: int where
  "zero_time = - 62135596800000000000"

definition AsTime :: "int option \<Rightarrow> int" where
  "AsTime t = (case t of None \<Rightarrow> 0 | Some t \<Rightarrow> t)"

section \<open>Goroutines that wait\<close>

text \<open>
  \<open>slots\<close> has the cancel function of each connection or endpoint: the number of its goroutine. \<open>started\<close> lists all goroutines
  with their owner and the time they wait for; \<open>waiting\<close> are those in their \<^verbatim>\<open>select\<close>, \<open>events\<close> those whose event is in the
  executor of \<^verbatim>\<open>begin\<close>.
\<close>

record timers =
  clock :: int
  slots :: "string \<rightharpoonup> nat"
  started :: "(string \<times> int) list"
  cancelled :: "nat set"
  waiting :: "nat set"
  events :: "nat set"

definition no_timers :: "int \<Rightarrow> timers" where
  "no_timers now = \<lparr>clock = now, slots = Map.empty, started = [], cancelled = {}, waiting = {}, events = {}\<rparr>"

text \<open>\<^verbatim>\<open>if oldCancel, loaded := loadAndDelete(...); loaded { oldCancel() }\<close>\<close>

definition disarm :: "string \<Rightarrow> timers \<Rightarrow> timers" where
  "disarm c T = (case slots T c of None \<Rightarrow> T | Some t \<Rightarrow> T\<lparr>slots := (slots T)(c := None), cancelled := insert t (cancelled T)\<rparr>)"

text \<open>The old goroutine is cancelled, the new one stored, and started if there is something to wait for.\<close>

definition arm :: "string \<Rightarrow> int option \<Rightarrow> timers \<Rightarrow> timers" where
  "arm c d T =
     (let T = disarm c T; t = length (started T) in
      T\<lparr>slots := (slots T)(c \<mapsto> t),
        started := started T @ [(c, case d of None \<Rightarrow> 0 | Some d \<Rightarrow> clock T + d)],
        waiting := (case d of None \<Rightarrow> waiting T | Some d \<Rightarrow> insert t (waiting T))\<rparr>)"

section \<open>Timeout of connections\<close>

text \<open>
  \<open>prev\<close> is \<^verbatim>\<open>GetPrevPathSegment\<close> of the API; \<open>deadline\<close> is that of the context of the request. The part of the request after
  the rest of the chain has answered:
\<close>

definition timeout_settle ::
  "(Connection \<Rightarrow> PathSegment option) \<Rightarrow> string \<Rightarrow> int \<Rightarrow> Connection \<Rightarrow> timers \<Rightarrow> (nsm_error + Connection) \<times> timers" where
  "timeout_settle prev c requestTimeout conn T =
     (case Option.bind (prev conn) seg_Expires of
        None \<Rightarrow> (Inl (Err ''expiration for the previous path segment cannot be nil''), T)
      | Some expirationTime \<Rightarrow> (Inr conn, arm c (Some (int64 (Until (clock T) expirationTime - requestTimeout))) T))"

definition timeoutServer_Request ::
  "(Connection \<Rightarrow> PathSegment option) \<Rightarrow> int option \<Rightarrow> string \<Rightarrow> (timers \<times> 's) request_chain \<Rightarrow> (timers \<times> 's) request_chain" where
  "timeoutServer_Request prev deadline c nxt request st =
     (let requestTimeout = (case deadline of None \<Rightarrow> 0 | Some d \<Rightarrow> Until (clock (fst st)) d) in
      case nxt request st of
        (Inl e, st) \<Rightarrow> (Inl e, st)
      | (Inr conn, T, s) \<Rightarrow> (case timeout_settle prev c requestTimeout conn T of (r, T) \<Rightarrow> (r, T, s)))"

text \<open>\<open>timed_out\<close> tells the errors that are \<^verbatim>\<open>context.DeadlineExceeded\<close> or \<^verbatim>\<open>context.Canceled\<close>.\<close>

definition timeout_closed :: "(nsm_error \<Rightarrow> bool) \<Rightarrow> string \<Rightarrow> nsm_error + unit \<Rightarrow> timers \<Rightarrow> timers" where
  "timeout_closed timed_out c res T =
     (case res of Inl e \<Rightarrow> if timed_out e then T else disarm c T | Inr _ \<Rightarrow> disarm c T)"

definition timeoutServer_Close ::
  "(nsm_error \<Rightarrow> bool) \<Rightarrow> string \<Rightarrow> (timers \<times> 's) close_chain \<Rightarrow> (timers \<times> 's) close_chain" where
  "timeoutServer_Close timed_out c nxt conn st =
     (case nxt conn st of (res, T, s) \<Rightarrow> (res, if res = Inl Panic then T else timeout_closed timed_out c res T, s))"

section \<open>Expiration of endpoints\<close>

type_synonym 's register_chain = "NetworkServiceEndpoint \<Rightarrow> 's \<Rightarrow> (nsm_error + NetworkServiceEndpoint) \<times> 's"
type_synonym 's unregister_chain = "NetworkServiceEndpoint \<Rightarrow> 's \<Rightarrow> (nsm_error + unit) \<times> 's"

definition earlier :: "int option \<Rightarrow> int option \<Rightarrow> int option" where
  "earlier old new = (case (old, new) of (_, None) \<Rightarrow> old | (None, Some t) \<Rightarrow> Some t | (Some u, Some t) \<Rightarrow> if t < u then Some t else Some u)"

text \<open>The token's and the peer's expiration are in the context; a default of zero is none. \<^verbatim>\<open>None\<close>: nothing was selected.\<close>

definition selectMinExpirationTime :: "int \<Rightarrow> int \<Rightarrow> int option \<Rightarrow> int option \<Rightarrow> int option" where
  "selectMinExpirationTime defaultExpiration now tokenExpiration peerExpiration =
     (let expirationTime = earlier tokenExpiration peerExpiration in
      if defaultExpiration \<noteq> 0 then earlier expirationTime (Some (now + defaultExpiration)) else expirationTime)"

definition expire_prepare :: "int option \<Rightarrow> NetworkServiceEndpoint \<Rightarrow> NetworkServiceEndpoint" where
  "expire_prepare selected nse =
     (case selected of
        None \<Rightarrow> nse
      | Some t \<Rightarrow> if ExpirationTime nse = None \<or> t < AsTime (ExpirationTime nse) then nse\<lparr>ExpirationTime := Some t\<rparr> else nse)"

text \<open>The time the endpoint expires, once the rest of the chain has answered.\<close>

definition expire_time :: "int option \<Rightarrow> NetworkServiceEndpoint \<Rightarrow> int" where
  "expire_time selected resp =
     (case selected of
        None \<Rightarrow> zero_time
      | Some t \<Rightarrow> if AsTime (ExpirationTime resp) < t then AsTime (ExpirationTime resp) else t)"

definition expire_settle :: "string \<Rightarrow> int option \<Rightarrow> int \<Rightarrow> NetworkServiceEndpoint \<Rightarrow> timers \<Rightarrow> timers" where
  "expire_settle n selected requestTimeout resp T =
     arm n (Some (int64 (Until (clock T) (expire_time selected resp) - requestTimeout))) T"

definition expireNSE_Register ::
  "int \<Rightarrow> int option \<Rightarrow> int option \<Rightarrow> int option \<Rightarrow> (timers \<times> 's) register_chain \<Rightarrow> (timers \<times> 's) register_chain" where
  "expireNSE_Register defaultExpiration deadline tokenExpiration peerExpiration nxt nse st =
     (let now = clock (fst st);
          requestTimeout = (case deadline of None \<Rightarrow> 0 | Some d \<Rightarrow> Until now d);
          selected = selectMinExpirationTime defaultExpiration now tokenExpiration peerExpiration
      in case nxt (expire_prepare selected nse) st of
           (Inl e, st) \<Rightarrow> (Inl e, st)
         | (Inr resp, T, s) \<Rightarrow> (Inr resp, expire_settle (nse_name nse) selected requestTimeout resp T, s))"

definition expireNSE_Unregister :: "(timers \<times> 's) unregister_chain \<Rightarrow> (timers \<times> 's) unregister_chain" where
  "expireNSE_Unregister nxt nse st = nxt nse (disarm (nse_name nse) (fst st), snd st)"

section \<open>Refreshing\<close>

text \<open>
  The client refreshes after a part of the shortest time to an expiration in the path, at once if there is none left.
  \<open>scaled d (i, n)\<close> stands for the float arithmetic that takes the part of \<open>d\<close> for place \<open>i\<close> of \<open>n\<close>, a third for a path of one.
\<close>

definition minTimeout :: "int \<Rightarrow> PathSegment list \<Rightarrow> int option" where
  "minTimeout now segs = foldl (\<lambda>m seg. let timeout = Until now (AsTime (seg_Expires seg)) in
      case m of None \<Rightarrow> Some timeout | Some u \<Rightarrow> if timeout < u then Some timeout else Some u) None segs"

definition refresh_after :: "(int \<Rightarrow> u32 \<times> nat \<Rightarrow> int) \<Rightarrow> int \<Rightarrow> Connection \<Rightarrow> int" where
  "refresh_after scaled now conn =
     (let (ix, segs) = (case conn_path conn of None \<Rightarrow> (0, []) | Some p \<Rightarrow> (Index p, PathSegments p)) in
      case minTimeout now segs of
        None \<Rightarrow> 1
      | Some d \<Rightarrow> if d \<le> 0 then 1 else scaled d (ix, length segs))"

definition refresh_settle :: "(int \<Rightarrow> u32 \<times> nat \<Rightarrow> int) \<Rightarrow> string \<Rightarrow> Connection \<Rightarrow> timers \<Rightarrow> timers" where
  "refresh_settle scaled c conn T = arm c (Some (refresh_after scaled (clock T) conn)) T"

definition refreshClient_Request ::
  "(int \<Rightarrow> u32 \<times> nat \<Rightarrow> int) \<Rightarrow> string \<Rightarrow> (timers \<times> 's) request_chain \<Rightarrow> (timers \<times> 's) request_chain" where
  "refreshClient_Request scaled c nxt request st =
     (case nxt request st of
        (Inl e, st) \<Rightarrow> (Inl e, st)
      | (Inr conn, T, s) \<Rightarrow> (Inr conn, refresh_settle scaled c conn T, s))"

definition refreshClient_Close :: "string \<Rightarrow> (timers \<times> 's) close_chain \<Rightarrow> (timers \<times> 's) close_chain" where
  "refreshClient_Close c nxt conn st = nxt conn (disarm c (fst st), snd st)"

text \<open>After a failed refresh the goroutine waits another 200 milliseconds.\<close>

definition refresh_again :: "nat \<Rightarrow> timers \<Rightarrow> timers" where
  "refresh_again t T = T\<lparr>started := (started T)[t := (fst (started T ! t), clock T + 200000000)], waiting := insert t (waiting T)\<rparr>"

text \<open>An endpoint is refreshed after two thirds of its time; one that does not expire is not. \<^verbatim>\<open>quot\<close> is Go's division.\<close>

definition refreshNSE_settle :: "string \<Rightarrow> NetworkServiceEndpoint \<Rightarrow> timers \<Rightarrow> timers" where
  "refreshNSE_settle n resp T =
     arm n (map_option (\<lambda>t. let d = int64 (2 * Until (clock T) t) in sgn d * (\<bar>d\<bar> div 3)) (ExpirationTime resp)) T"

definition refreshNSE_Register :: "(timers \<times> 's) register_chain \<Rightarrow> (timers \<times> 's) register_chain" where
  "refreshNSE_Register nxt nse st =
     (case nxt nse st of
        (Inl e, st) \<Rightarrow> (Inl e, st)
      | (Inr resp, T, s) \<Rightarrow> (Inr resp, refreshNSE_settle (nse_name nse) resp T, s))"

definition refreshNSE_Unregister :: "(timers \<times> 's) unregister_chain \<Rightarrow> (timers \<times> 's) unregister_chain" where
  "refreshNSE_Unregister nxt nse st = nxt nse (disarm (nse_name nse) (fst st), snd st)"

end
