(* ===== verification/Timer_Theorems.thy ===== *)
theory Timer_Theorems
  imports Element_Timers
begin

text \<open>
  What timers promise: an event that still counts when its turn comes belongs to the last accepted request of its
  owner, and its time has come; and as long as something is agreed, a goroutine waits for it or its event is on the way.
\<close>

section \<open>The life of goroutines\<close>

text \<open>
  \<open>agreed\<close> is the time each owner was given by its last accepted request. \<open>spent\<close> are goroutines that ended, or never started,
  without being cancelled: they leave a cancel function that cancels nothing.
\<close>

record timer_system =
  tm :: timers
  agreed :: "string \<rightharpoonup> int"
  spent :: "nat set"

definition owner :: "timers \<Rightarrow> nat \<Rightarrow> string" where
  "owner T t = fst (started T ! t)"

definition due :: "timers \<Rightarrow> nat \<Rightarrow> int" where
  "due T t = snd (started T ! t)"

text \<open>What goes on without the element: time passes, goroutines fire or stop, cancelled events are skipped.\<close>

inductive clockwork :: "timers \<Rightarrow> timers \<Rightarrow> bool" where
  tick: "clock T \<le> n \<Longrightarrow> clockwork T (T\<lparr>clock := n\<rparr>)"
| fire: "t \<in> waiting T \<Longrightarrow> due T t \<le> clock T \<Longrightarrow> clockwork T (T\<lparr>waiting := waiting T - {t}, events := insert t (events T)\<rparr>)"
| stop: "t \<in> waiting T \<Longrightarrow> t \<in> cancelled T \<Longrightarrow> clockwork T (T\<lparr>waiting := waiting T - {t}\<rparr>)"
| skip: "t \<in> events T \<Longrightarrow> t \<in> cancelled T \<Longrightarrow> clockwork T (T\<lparr>events := events T - {t}\<rparr>)"

definition take_event :: "nat \<Rightarrow> timers \<Rightarrow> timers" where
  "take_event t T = T\<lparr>events := events T - {t}\<rparr>"

text \<open>The moves of all elements with timers. \<open>cut\<close> is an event whose call leaves everything as it was.\<close>

inductive timer_step :: "timer_system \<Rightarrow> timer_system \<Rightarrow> bool" where
  time: "clockwork (tm \<sigma>) T \<Longrightarrow> timer_step \<sigma> (\<sigma>\<lparr>tm := T\<rparr>)"
| renew: "timer_step \<sigma> (\<sigma>\<lparr>tm := arm c (Some d) (tm \<sigma>), agreed := (agreed \<sigma>)(c \<mapsto> clock (tm \<sigma>) + d)\<rparr>)"
| idle: "timer_step \<sigma> \<lparr>tm = arm c None (tm \<sigma>), agreed = (agreed \<sigma>)(c := None), spent = insert (length (started (tm \<sigma>))) (spent \<sigma>)\<rparr>"
| drop: "timer_step \<sigma> (\<sigma>\<lparr>tm := disarm c (tm \<sigma>), agreed := (agreed \<sigma>)(c := None)\<rparr>)"
| run: "t \<in> events (tm \<sigma>) \<Longrightarrow> t \<notin> cancelled (tm \<sigma>) \<Longrightarrow>
    timer_step \<sigma> (\<sigma>\<lparr>tm := disarm (owner (tm \<sigma>) t) (take_event t (tm \<sigma>)), agreed := (agreed \<sigma>)(owner (tm \<sigma>) t := None)\<rparr>)"
| cut: "t \<in> events (tm \<sigma>) \<Longrightarrow> t \<notin> cancelled (tm \<sigma>) \<Longrightarrow> timer_step \<sigma> (\<sigma>\<lparr>tm := take_event t (tm \<sigma>), spent := insert t (spent \<sigma>)\<rparr>)"
| again: "t \<in> events (tm \<sigma>) \<Longrightarrow> t \<notin> cancelled (tm \<sigma>) \<Longrightarrow> timer_step \<sigma> (\<sigma>\<lparr>tm := refresh_again t (take_event t (tm \<sigma>))\<rparr>)"

definition timer_inv :: "timer_system \<Rightarrow> bool" where
  "timer_inv \<sigma> \<longleftrightarrow> (let T = tm \<sigma>; n = length (started T) in
     (\<forall>c t. slots T c = Some t \<longrightarrow> t < n \<and> owner T t = c \<and> t \<notin> cancelled T) \<and>
     (\<forall>t. t < n \<longrightarrow> t \<notin> cancelled T \<longrightarrow> slots T (owner T t) = Some t) \<and>
     waiting T \<union> events T \<union> cancelled T \<union> spent \<sigma> \<subseteq> {..<n} \<and>
     (waiting T \<union> events T) \<inter> spent \<sigma> = {} \<and> waiting T \<inter> events T = {} \<and>
     (\<forall>t\<in>events T. due T t \<le> clock T) \<and>
     (\<forall>t. t < n \<longrightarrow> t \<notin> cancelled T \<longrightarrow> t \<notin> spent \<sigma> \<longrightarrow>
        t \<in> waiting T \<union> events T \<and> (\<exists>d. agreed \<sigma> (owner T t) = Some d \<and> d \<le> due T t)) \<and>
     (\<forall>c. agreed \<sigma> c \<noteq> None \<longrightarrow> slots T c \<noteq> None))"

lemma timer_inv_facts:
  assumes "timer_inv \<sigma>"
  shows "slots (tm \<sigma>) c = Some t \<Longrightarrow> t < length (started (tm \<sigma>)) \<and> owner (tm \<sigma>) t = c \<and> t \<notin> cancelled (tm \<sigma>)"
    and "t < length (started (tm \<sigma>)) \<Longrightarrow> t \<notin> cancelled (tm \<sigma>) \<Longrightarrow> slots (tm \<sigma>) (owner (tm \<sigma>) t) = Some t"
    and "t \<in> waiting (tm \<sigma>) \<or> t \<in> events (tm \<sigma>) \<or> t \<in> cancelled (tm \<sigma>) \<or> t \<in> spent \<sigma> \<Longrightarrow> t < length (started (tm \<sigma>))"
    and "t \<in> events (tm \<sigma>) \<Longrightarrow> t \<notin> waiting (tm \<sigma>) \<and> t \<notin> spent \<sigma> \<and> due (tm \<sigma>) t \<le> clock (tm \<sigma>)"
    and "t < length (started (tm \<sigma>)) \<Longrightarrow> t \<notin> cancelled (tm \<sigma>) \<Longrightarrow> t \<notin> spent \<sigma> \<Longrightarrow>
      (t \<in> waiting (tm \<sigma>) \<or> t \<in> events (tm \<sigma>)) \<and> (\<exists>d. agreed \<sigma> (owner (tm \<sigma>) t) = Some d \<and> d \<le> due (tm \<sigma>) t)"
    and "agreed \<sigma> c \<noteq> None \<Longrightarrow> slots (tm \<sigma>) c \<noteq> None"
    and "t \<in> waiting (tm \<sigma>) \<Longrightarrow> t \<notin> spent \<sigma>"
  using assms unfolding timer_inv_def Let_def by blast+

lemma timer_invI:
  assumes "\<And>c t. slots (tm \<sigma>) c = Some t \<Longrightarrow> t < length (started (tm \<sigma>)) \<and> owner (tm \<sigma>) t = c \<and> t \<notin> cancelled (tm \<sigma>)"
    and "\<And>t. t < length (started (tm \<sigma>)) \<Longrightarrow> t \<notin> cancelled (tm \<sigma>) \<Longrightarrow> slots (tm \<sigma>) (owner (tm \<sigma>) t) = Some t"
    and "\<And>t. t \<in> waiting (tm \<sigma>) \<or> t \<in> events (tm \<sigma>) \<or> t \<in> cancelled (tm \<sigma>) \<or> t \<in> spent \<sigma> \<Longrightarrow> t < length (started (tm \<sigma>))"
    and "\<And>t. t \<in> events (tm \<sigma>) \<Longrightarrow> t \<notin> waiting (tm \<sigma>) \<and> t \<notin> spent \<sigma> \<and> due (tm \<sigma>) t \<le> clock (tm \<sigma>)"
    and "\<And>t. t < length (started (tm \<sigma>)) \<Longrightarrow> t \<notin> cancelled (tm \<sigma>) \<Longrightarrow> t \<notin> spent \<sigma> \<Longrightarrow>
      (t \<in> waiting (tm \<sigma>) \<or> t \<in> events (tm \<sigma>)) \<and> (\<exists>d. agreed \<sigma> (owner (tm \<sigma>) t) = Some d \<and> d \<le> due (tm \<sigma>) t)"
    and "\<And>c. agreed \<sigma> c \<noteq> None \<Longrightarrow> slots (tm \<sigma>) c \<noteq> None"
    and "\<And>t. t \<in> waiting (tm \<sigma>) \<Longrightarrow> t \<notin> spent \<sigma>"
  shows "timer_inv \<sigma>"
  using assms unfolding timer_inv_def Let_def by blast

definition timer_start :: "int \<Rightarrow> timer_system" where
  "timer_start now = \<lparr>tm = no_timers now, agreed = Map.empty, spent = {}\<rparr>"

lemma timer_inv_start: "timer_inv (timer_start now)"
  by (simp add: timer_inv_def timer_start_def no_timers_def)

lemma timer_inv_disarm:
  assumes "timer_inv \<sigma>"
  shows "timer_inv (\<sigma>\<lparr>tm := disarm c (tm \<sigma>), agreed := (agreed \<sigma>)(c := None)\<rparr>)"
proof (cases "slots (tm \<sigma>) c")
  case None
  then have "agreed \<sigma> c = None" using assms by (auto simp: timer_inv_def Let_def)
  then have "(agreed \<sigma>)(c := None) = agreed \<sigma>" by auto
  then show ?thesis using assms None by (simp add: disarm_def)
next
  case (Some t)
  let ?T = "tm \<sigma>"
  have own: "owner ?T u = c \<Longrightarrow> u < length (started ?T) \<Longrightarrow> u \<notin> cancelled ?T \<Longrightarrow> u = t" for u
    using assms Some unfolding timer_inv_def Let_def by (metis option.inject)
  have o: "owner (?T\<lparr>slots := s, cancelled := x\<rparr>) = owner ?T" "due (?T\<lparr>slots := s, cancelled := x\<rparr>) = due ?T" for s x
    by (simp_all add: owner_def due_def fun_eq_iff)
  show ?thesis using assms Some own unfolding timer_inv_def Let_def disarm_def by (simp add: o) (metis option.inject)
qed

text \<open>Starting a goroutine for an owner without one.\<close>

definition arm_new :: "string \<Rightarrow> int option \<Rightarrow> timers \<Rightarrow> timers" where
  "arm_new c d T = T\<lparr>slots := (slots T)(c \<mapsto> length (started T)),
     started := started T @ [(c, case d of None \<Rightarrow> 0 | Some d \<Rightarrow> clock T + d)],
     waiting := (case d of None \<Rightarrow> waiting T | Some d \<Rightarrow> insert (length (started T)) (waiting T))\<rparr>"

lemma arm_arm_new: "arm c d T = arm_new c d (disarm c T)"
  by (simp add: arm_def arm_new_def Let_def)

lemma started_disarm [simp]: "started (disarm c T) = started T" "clock (disarm c T) = clock T" "slots (disarm c T) c = None"
  by (simp_all add: disarm_def split: option.split)

lemma arm_new_simps [simp]:
  "started (arm_new c d T) = started T @ [(c, case d of None \<Rightarrow> 0 | Some d \<Rightarrow> clock T + d)]" "clock (arm_new c d T) = clock T"
  "slots (arm_new c d T) = (slots T)(c \<mapsto> length (started T))" "cancelled (arm_new c d T) = cancelled T" "events (arm_new c d T) = events T"
  "waiting (arm_new c d T) = (case d of None \<Rightarrow> waiting T | Some d \<Rightarrow> insert (length (started T)) (waiting T))"
  by (simp_all add: arm_new_def)

lemma owner_arm_new:
  "t < length (started T) \<Longrightarrow> owner (arm_new c d T) t = owner T t" "t < length (started T) \<Longrightarrow> due (arm_new c d T) t = due T t"
  "owner (arm_new c d T) (length (started T)) = c" "due (arm_new c (Some e) T) (length (started T)) = clock T + e"
  by (simp_all add: owner_def due_def nth_append)

lemma timer_inv_arm_new:
  assumes "timer_inv \<sigma>" "slots (tm \<sigma>) c = None"
  shows "timer_inv (\<sigma>\<lparr>tm := arm_new c d (tm \<sigma>), agreed := (agreed \<sigma>)(c := map_option (\<lambda>d. clock (tm \<sigma>) + d) d),
    spent := (case d of None \<Rightarrow> insert (length (started (tm \<sigma>))) (spent \<sigma>) | Some _ \<Rightarrow> spent \<sigma>)\<rparr>)"
proof -
  let ?T = "tm \<sigma>"
  let ?n = "length (started ?T)"
  have i: "\<forall>c t. slots ?T c = Some t \<longrightarrow> t < ?n \<and> owner ?T t = c \<and> t \<notin> cancelled ?T"
    "\<forall>t. t < ?n \<longrightarrow> t \<notin> cancelled ?T \<longrightarrow> slots ?T (owner ?T t) = Some t"
    "waiting ?T \<union> events ?T \<union> cancelled ?T \<union> spent \<sigma> \<subseteq> {..<?n}" "(waiting ?T \<union> events ?T) \<inter> spent \<sigma> = {} \<and> waiting ?T \<inter> events ?T = {}"
    "\<forall>t\<in>events ?T. due ?T t \<le> clock ?T"
    "\<forall>t. t < ?n \<longrightarrow> t \<notin> cancelled ?T \<longrightarrow> t \<notin> spent \<sigma> \<longrightarrow> t \<in> waiting ?T \<union> events ?T \<and> (\<exists>d. agreed \<sigma> (owner ?T t) = Some d \<and> d \<le> due ?T t)"
    "\<forall>c. agreed \<sigma> c \<noteq> None \<longrightarrow> slots ?T c \<noteq> None"
    using assms(1) unfolding timer_inv_def Let_def by blast+
  have lt: "t < ?n" if "t \<in> waiting ?T \<or> t \<in> events ?T \<or> t \<in> cancelled ?T \<or> t \<in> spent \<sigma>" for t using i(3) that by auto
  have oth: "owner ?T t \<noteq> c" if "t < ?n" "t \<notin> cancelled ?T" for t using i(2) that assms(2) by fastforce
  let ?\<sigma> = "\<sigma>\<lparr>tm := arm_new c d ?T, agreed := (agreed \<sigma>)(c := map_option (\<lambda>d. clock ?T + d) d),
    spent := (case d of None \<Rightarrow> insert ?n (spent \<sigma>) | Some _ \<Rightarrow> spent \<sigma>)\<rparr>"
  let ?U = "arm_new c d ?T"
  have 1: "\<forall>c' t. slots ?U c' = Some t \<longrightarrow> t < length (started ?U) \<and> owner ?U t = c' \<and> t \<notin> cancelled ?U"
    using i(1) lt by (auto simp: owner_arm_new less_Suc_eq)
  have 2: "\<forall>t. t < length (started ?U) \<longrightarrow> t \<notin> cancelled ?U \<longrightarrow> slots ?U (owner ?U t) = Some t"
    using i(2) oth by (auto simp: owner_arm_new less_Suc_eq)
  have 3: "waiting ?U \<union> events ?U \<union> cancelled ?U \<union> spent ?\<sigma> \<subseteq> {..<length (started ?U)}" using lt by (auto simp: less_Suc_eq split: option.splits)
  have 4: "(waiting ?U \<union> events ?U) \<inter> spent ?\<sigma> = {} \<and> waiting ?U \<inter> events ?U = {}" using i(4) lt by (auto split: option.splits)
  have 5: "\<forall>t\<in>events ?U. due ?U t \<le> clock ?U" using i(5) lt by (auto simp: owner_arm_new)
  have 6: "\<forall>t. t < length (started ?U) \<longrightarrow> t \<notin> cancelled ?U \<longrightarrow> t \<notin> spent ?\<sigma> \<longrightarrow>
      t \<in> waiting ?U \<union> events ?U \<and> (\<exists>d. agreed ?\<sigma> (owner ?U t) = Some d \<and> d \<le> due ?U t)"
    using i(6) oth by (auto simp: owner_arm_new less_Suc_eq split: option.splits)
  have 7: "\<forall>c'. agreed ?\<sigma> c' \<noteq> None \<longrightarrow> slots ?U c' \<noteq> None" using i(7) by auto
  show ?thesis unfolding timer_inv_def Let_def using 1 2 3 4 5 6 7 by simp
qed

lemma timer_inv_arm:
  assumes "timer_inv \<sigma>"
  shows "timer_inv (\<sigma>\<lparr>tm := arm c d (tm \<sigma>), agreed := (agreed \<sigma>)(c := map_option (\<lambda>d. clock (tm \<sigma>) + d) d),
    spent := (case d of None \<Rightarrow> insert (length (started (tm \<sigma>))) (spent \<sigma>) | Some _ \<Rightarrow> spent \<sigma>)\<rparr>)"
  using timer_inv_arm_new [OF timer_inv_disarm [OF assms, of c], of c d] by (cases d) (simp_all add: arm_arm_new)

lemma timer_inv_clockwork:
  assumes "timer_inv \<sigma>" "clockwork (tm \<sigma>) T"
  shows "timer_inv (\<sigma>\<lparr>tm := T\<rparr>)"
  using assms(2,1)
proof cases
  case (tick n)
  then have o: "owner T = owner (tm \<sigma>)" "due T = due (tm \<sigma>)" by (simp_all add: owner_def due_def fun_eq_iff)
  note f = timer_inv_facts [OF assms(1)]
  have "t \<in> events (tm \<sigma>) \<Longrightarrow> due (tm \<sigma>) t \<le> n" for t using f(4) [of t] tick(2) by simp
  then show ?thesis by (intro timer_invI) (use f tick o in \<open>auto\<close>)
next
  case (fire t)
  then have "owner T = owner (tm \<sigma>)" "due T = due (tm \<sigma>)" by (simp_all add: owner_def due_def fun_eq_iff)
  then show ?thesis using assms(1) fire unfolding timer_inv_def Let_def by (auto simp: subset_iff)
next
  case (stop t)
  then have "owner T = owner (tm \<sigma>)" "due T = due (tm \<sigma>)" by (simp_all add: owner_def due_def fun_eq_iff)
  then show ?thesis using assms(1) stop unfolding timer_inv_def Let_def by (auto simp: subset_iff)
next
  case (skip t)
  then have "owner T = owner (tm \<sigma>)" "due T = due (tm \<sigma>)" by (simp_all add: owner_def due_def fun_eq_iff)
  then show ?thesis using assms(1) skip unfolding timer_inv_def Let_def by (auto simp: subset_iff)
qed

text \<open>Taking an event that counts, on the way to a close, to nothing, or to another wait.\<close>

lemma owner_take_event [simp]: "owner (take_event t T) = owner T" "due (take_event t T) = due T"
  by (simp_all add: owner_def due_def fun_eq_iff take_event_def)

lemma take_event_simps [simp]:
  "slots (take_event t T) = slots T" "started (take_event t T) = started T" "cancelled (take_event t T) = cancelled T"
  "clock (take_event t T) = clock T" "waiting (take_event t T) = waiting T" "events (take_event t T) = events T - {t}"
  by (simp_all add: take_event_def)

lemma timer_inv_cut:
  assumes "timer_inv \<sigma>" "t \<in> events (tm \<sigma>)"
  shows "timer_inv (\<sigma>\<lparr>tm := take_event t (tm \<sigma>), spent := insert t (spent \<sigma>)\<rparr>)"
proof (rule timer_invI, goal_cases)
  case (1 c u) then show ?case using timer_inv_facts(1) [OF assms(1)] by simp
next
  case (2 u) then show ?case using timer_inv_facts(2) [OF assms(1)] by simp
next
  case (3 u) then show ?case using timer_inv_facts(3) [OF assms(1)] assms(2) by auto
next
  case (4 u) then show ?case using timer_inv_facts(4) [OF assms(1)] by simp
next
  case (5 u) then show ?case using timer_inv_facts(5) [OF assms(1), of u] by simp
next
  case (6 c) then show ?case using timer_inv_facts(6) [OF assms(1)] by simp
next
  case (7 u) then show ?case using timer_inv_facts(4,7) [OF assms(1)] assms(2) by auto
qed

text \<open>A cancelled event may be taken away.\<close>

lemma timer_inv_skip:
  assumes "timer_inv \<sigma>" "t \<in> cancelled (tm \<sigma>)"
  shows "timer_inv (\<sigma>\<lparr>tm := take_event t (tm \<sigma>)\<rparr>)"
proof (rule timer_invI, goal_cases)
  case (1 c u) then show ?case using timer_inv_facts(1) [OF assms(1)] by simp
next
  case (2 u) then show ?case using timer_inv_facts(2) [OF assms(1)] by simp
next
  case (3 u) then show ?case using timer_inv_facts(3) [OF assms(1)] by auto
next
  case (4 u) then show ?case using timer_inv_facts(4) [OF assms(1)] by simp
next
  case (5 u) then show ?case using timer_inv_facts(5) [OF assms(1), of u] assms(2) by auto
next
  case (6 c) then show ?case using timer_inv_facts(6) [OF assms(1)] by simp
next
  case (7 u) then show ?case using timer_inv_facts(7) [OF assms(1)] by simp
qed

lemma timer_inv_run:
  assumes "timer_inv \<sigma>" "t \<in> events (tm \<sigma>)" "t \<notin> cancelled (tm \<sigma>)"
  shows "timer_inv (\<sigma>\<lparr>tm := disarm (owner (tm \<sigma>) t) (take_event t (tm \<sigma>)), agreed := (agreed \<sigma>)(owner (tm \<sigma>) t := None)\<rparr>)"
proof -
  let ?c = "owner (tm \<sigma>) t" and ?\<sigma> = "\<sigma>\<lparr>tm := disarm (owner (tm \<sigma>) t) (tm \<sigma>), agreed := (agreed \<sigma>)(owner (tm \<sigma>) t := None)\<rparr>"
  have "slots (tm \<sigma>) ?c = Some t" using timer_inv_facts(2,3) [OF assms(1)] assms(2,3) by blast
  then have "t \<in> cancelled (tm ?\<sigma>)" by (simp add: disarm_def)
  then have "timer_inv (?\<sigma>\<lparr>tm := take_event t (tm ?\<sigma>)\<rparr>)" by (rule timer_inv_skip [OF timer_inv_disarm [OF assms(1)]])
  moreover have "disarm ?c (take_event t (tm \<sigma>)) = take_event t (disarm ?c (tm \<sigma>))"
    by (simp add: disarm_def take_event_def split: option.split)
  ultimately show ?thesis by (cases \<sigma>) simp
qed

lemma timer_inv_again:
  assumes "timer_inv \<sigma>" "t \<in> events (tm \<sigma>)"
  shows "timer_inv (\<sigma>\<lparr>tm := refresh_again t (take_event t (tm \<sigma>))\<rparr>)"
proof -
  let ?T = "tm \<sigma>" and ?U = "refresh_again t (take_event t (tm \<sigma>))"
  have t: "t < length (started ?T)" "due ?T t \<le> clock ?T" using timer_inv_facts(3,4) [OF assms(1)] assms(2) by blast+
  have o: "owner ?U = owner ?T" "u \<noteq> t \<Longrightarrow> due ?U u = due ?T u" "due ?U t = clock ?T + 200000000" for u
    using t(1) by (simp_all add: owner_def due_def refresh_again_def take_event_def fun_eq_iff nth_list_update)
  have le: "due ?T u \<le> due ?U u" for u using o t(2) by (cases "u = t") auto
  have s: "slots ?U = slots ?T" "length (started ?U) = length (started ?T)" "cancelled ?U = cancelled ?T" "clock ?U = clock ?T"
    "waiting ?U = insert t (waiting ?T)" "events ?U = events ?T - {t}"
    by (simp_all add: refresh_again_def)
  show ?thesis
  proof (rule timer_invI, goal_cases)
    case (1 c u) then show ?case using timer_inv_facts(1) [OF assms(1)] s o by simp
  next
    case (2 u) then show ?case using timer_inv_facts(2) [OF assms(1)] s o by simp
  next
    case (3 u) then show ?case using timer_inv_facts(3) [OF assms(1)] assms(2) s by auto
  next
    case (4 u) then show ?case using timer_inv_facts(4) [OF assms(1)] s o by simp
  next
    case (5 u)
    then have "(u \<in> waiting ?T \<or> u \<in> events ?T) \<and> (\<exists>d. agreed \<sigma> (owner ?T u) = Some d \<and> d \<le> due ?T u)"
      using timer_inv_facts(5) [OF assms(1), of u] s by simp
    then show ?case using s o(1) le [of u] by (auto intro: order_trans)
  next
    case (6 c) then show ?case using timer_inv_facts(6) [OF assms(1)] s by simp
  next
    case (7 u) then show ?case using timer_inv_facts(4,7) [OF assms(1)] assms(2) s by auto
  qed
qed

lemma timer_inv_step: "timer_step \<sigma> \<sigma>' \<Longrightarrow> timer_inv \<sigma> \<Longrightarrow> timer_inv \<sigma>'"
proof (induction rule: timer_step.induct)
  case (renew \<sigma> c d)
  then show ?case using timer_inv_arm [of \<sigma> "Some d" c] by simp
next
  case (idle \<sigma> c)
  then show ?case using timer_inv_arm [of \<sigma> None c] by (cases \<sigma>) simp
qed (simp_all add: timer_inv_clockwork timer_inv_disarm timer_inv_cut timer_inv_run timer_inv_again)

lemma timer_inv_steps: "timer_step\<^sup>*\<^sup>* \<sigma> \<sigma>' \<Longrightarrow> timer_inv \<sigma> \<Longrightarrow> timer_inv \<sigma>'"
  by (induction rule: rtranclp_induct) (auto intro: timer_inv_step)

section \<open>Elements with timers\<close>

locale timed =
  fixes step :: "timer_system \<Rightarrow> timer_system \<Rightarrow> bool"
  assumes step_timer: "step \<sigma> \<sigma>' \<Longrightarrow> timer_step\<^sup>*\<^sup>* \<sigma> \<sigma>'"
begin

lemma timers_inv: "step\<^sup>*\<^sup>* (timer_start now) \<sigma> \<Longrightarrow> timer_inv \<sigma>"
  by (induction rule: rtranclp_induct) (auto intro: timer_inv_start timer_inv_steps step_timer)

lemma not_early:
  assumes "step\<^sup>*\<^sup>* (timer_start now) \<sigma>" "t \<in> events (tm \<sigma>)" "t \<notin> cancelled (tm \<sigma>)"
  shows "\<exists>d. agreed \<sigma> (owner (tm \<sigma>) t) = Some d \<and> d \<le> clock (tm \<sigma>)"
proof -
  have "t < length (started (tm \<sigma>))" "t \<notin> spent \<sigma>" "due (tm \<sigma>) t \<le> clock (tm \<sigma>)"
    using timers_inv [OF assms(1)] assms(2) unfolding timer_inv_def Let_def by auto
  then show ?thesis using timers_inv [OF assms(1)] assms(3) unfolding timer_inv_def Let_def by (metis order_trans)
qed

end

text \<open>An element that leaves no goroutine behind does not lose an owner either.\<close>

locale timed_live = timed +
  assumes step_spent: "step \<sigma> \<sigma>' \<Longrightarrow> spent \<sigma>' = spent \<sigma>"
begin

lemma never_lost:
  assumes "step\<^sup>*\<^sup>* (timer_start now) \<sigma>" "agreed \<sigma> c = Some d"
  shows "\<exists>t. slots (tm \<sigma>) c = Some t \<and> owner (tm \<sigma>) t = c \<and> t \<notin> cancelled (tm \<sigma>) \<and> t \<in> waiting (tm \<sigma>) \<union> events (tm \<sigma>)"
proof -
  have "spent \<sigma> = {}" using assms(1)
    by (induction rule: rtranclp_induct) (simp_all add: timer_start_def step_spent)
  moreover obtain t where "slots (tm \<sigma>) c = Some t"
    using timers_inv [OF assms(1)] assms(2) unfolding timer_inv_def Let_def by blast
  moreover from this have "t < length (started (tm \<sigma>))" "owner (tm \<sigma>) t = c" "t \<notin> cancelled (tm \<sigma>)"
    using timers_inv [OF assms(1)] unfolding timer_inv_def Let_def by blast+
  ultimately show ?thesis using timers_inv [OF assms(1)] unfolding timer_inv_def Let_def by blast
qed

end

section \<open>Timeout\<close>

definition cut_short :: "(nsm_error \<Rightarrow> bool) \<Rightarrow> nsm_error + unit \<Rightarrow> bool" where
  "cut_short timed_out res \<longleftrightarrow> (\<exists>e. res = Inl e \<and> timed_out e)"

lemma timeout_closed_cut: "timeout_closed timed_out c res T = (if cut_short timed_out res then T else disarm c T)"
  by (auto simp: timeout_closed_def cut_short_def split: sum.split)

text \<open>
  The calls of \<^verbatim>\<open>begin\<close> on one connection do not overlap, so a step is the part of a request or a close after the rest of the chain;
  a request the element answers with an error changes nothing. \<open>closes\<close> is the event that closes the connection.
\<close>

inductive timeout_step :: "(Connection \<Rightarrow> PathSegment option) \<Rightarrow> (nsm_error \<Rightarrow> bool) \<Rightarrow> timer_system \<Rightarrow> timer_system \<Rightarrow> bool"
  for prev timed_out where
  time: "clockwork (tm \<sigma>) T \<Longrightarrow> timeout_step prev timed_out \<sigma> (\<sigma>\<lparr>tm := T\<rparr>)"
| request: "timeout_settle prev c requestTimeout conn (tm \<sigma>) = (Inr conn', T) \<Longrightarrow> Option.bind (prev conn) seg_Expires = Some expires \<Longrightarrow>
    timeout_step prev timed_out \<sigma>
      (\<sigma>\<lparr>tm := T, agreed := (agreed \<sigma>)(c \<mapsto> clock (tm \<sigma>) + int64 (Until (clock (tm \<sigma>)) expires - requestTimeout))\<rparr>)"
| close: "timeout_step prev timed_out \<sigma>
    (\<sigma>\<lparr>tm := timeout_closed timed_out c res (tm \<sigma>), agreed := if cut_short timed_out res then agreed \<sigma> else (agreed \<sigma>)(c := None)\<rparr>)"
| closes: "t \<in> events (tm \<sigma>) \<Longrightarrow> t \<notin> cancelled (tm \<sigma>) \<Longrightarrow> c = owner (tm \<sigma>) t \<Longrightarrow>
    timeout_step prev timed_out \<sigma> (\<sigma>\<lparr>tm := timeout_closed timed_out c res (take_event t (tm \<sigma>)),
      agreed := if cut_short timed_out res then agreed \<sigma> else (agreed \<sigma>)(c := None),
      spent := if cut_short timed_out res then insert t (spent \<sigma>) else spent \<sigma>\<rparr>)"

lemma timeout_step_timer: "timeout_step prev timed_out \<sigma> \<sigma>' \<Longrightarrow> timer_step\<^sup>*\<^sup>* \<sigma> \<sigma>'"
proof (induction rule: timeout_step.induct)
  case (time \<sigma> T)
  then show ?case by (blast intro: timer_step.time)
next
  case (request c requestTimeout conn \<sigma> conn' T expires)
  then have T: "T = arm c (Some (int64 (Until (clock (tm \<sigma>)) expires - requestTimeout))) (tm \<sigma>)" by (simp add: timeout_settle_def)
  show ?case unfolding T by (intro r_into_rtranclp timer_step.renew)
next
  case (close \<sigma> res c)
  show ?case by (cases "cut_short timed_out res") (auto simp: timeout_closed_cut intro!: r_into_rtranclp timer_step.drop)
next
  case (closes t \<sigma> c res)
  show ?case
  proof (cases "cut_short timed_out res")
    case True
    then show ?thesis using timer_step.cut [OF closes(1,2)] by (simp add: timeout_closed_cut)
  next
    case False
    then show ?thesis using timer_step.run [OF closes(1,2)] by (simp add: timeout_closed_cut closes(3))
  qed
qed

interpretation timeout: timed "timeout_step prev timed_out" for prev timed_out
  by unfold_locales (rule timeout_step_timer)

interpretation timeout_live: timed_live "timeout_step prev (\<lambda>_. False)" for prev
  by unfold_locales (auto elim!: timeout_step.cases simp: cut_short_def)

text \<open>
  C27. The event that times a connection out closes it, when its turn comes and it was not cancelled, only if the last accepted
  request of the connection has run out: the expiration of the previous path segment, less the time the request had left to its deadline.
\<close>

theorem timeout_not_early:
  assumes "(timeout_step prev timed_out)\<^sup>*\<^sup>* (timer_start now) \<sigma>" "t \<in> events (tm \<sigma>)" "t \<notin> cancelled (tm \<sigma>)"
  shows "\<exists>d. agreed \<sigma> (owner (tm \<sigma>) t) = Some d \<and> d \<le> clock (tm \<sigma>)"
  by (rule timeout.not_early [OF assms])

text \<open>If no close is cut short, no connection is forgotten.\<close>

lemma timeout_never_lost:
  assumes "(timeout_step prev (\<lambda>_. False))\<^sup>*\<^sup>* (timer_start now) \<sigma>" "agreed \<sigma> c = Some d"
  shows "\<exists>t. slots (tm \<sigma>) c = Some t \<and> owner (tm \<sigma>) t = c \<and> t \<notin> cancelled (tm \<sigma>) \<and> t \<in> waiting (tm \<sigma>) \<union> events (tm \<sigma>)"
  by (rule timeout_live.never_lost [OF assms])

section \<open>Expiration\<close>

inductive expire_step :: "timer_system \<Rightarrow> timer_system \<Rightarrow> bool" where
  time: "clockwork (tm \<sigma>) T \<Longrightarrow> expire_step \<sigma> (\<sigma>\<lparr>tm := T\<rparr>)"
| register: "expire_step \<sigma> (\<sigma>\<lparr>tm := expire_settle n selected requestTimeout resp (tm \<sigma>),
    agreed := (agreed \<sigma>)(n \<mapsto> clock (tm \<sigma>) + int64 (Until (clock (tm \<sigma>)) (expire_time selected resp) - requestTimeout))\<rparr>)"
| unregister: "expire_step \<sigma> (\<sigma>\<lparr>tm := disarm n (tm \<sigma>), agreed := (agreed \<sigma>)(n := None)\<rparr>)"
| expires: "t \<in> events (tm \<sigma>) \<Longrightarrow> t \<notin> cancelled (tm \<sigma>) \<Longrightarrow> n = owner (tm \<sigma>) t \<Longrightarrow>
    expire_step \<sigma> (\<sigma>\<lparr>tm := disarm n (take_event t (tm \<sigma>)), agreed := (agreed \<sigma>)(n := None)\<rparr>)"

lemma expire_step_timer: "expire_step \<sigma> \<sigma>' \<Longrightarrow> timer_step\<^sup>*\<^sup>* \<sigma> \<sigma>'"
proof (induction rule: expire_step.induct)
  case (time \<sigma> T)
  then show ?case by (intro r_into_rtranclp timer_step.time)
next
  case (register \<sigma> n selected resp requestTimeout)
  show ?case unfolding expire_settle_def by (intro r_into_rtranclp timer_step.renew)
next
  case (unregister \<sigma> n)
  show ?case by (intro r_into_rtranclp timer_step.drop)
next
  case (expires t \<sigma> n)
  show ?case unfolding expires(3) by (intro r_into_rtranclp timer_step.run [OF expires(1,2)])
qed

interpretation expire: timed_live expire_step
  by unfold_locales (rule expire_step_timer, assumption, auto elim!: expire_step.cases)


lemma int64_small: "- (2 ^ 63) \<le> x \<Longrightarrow> x < 2 ^ 63 \<Longrightarrow> int64 x = x"
proof -
  assume x: "- (2 ^ 63) \<le> x" "x < 2 ^ 63"
  have "int64 x = signed_take_bit 63 x" unfolding int64_def by (simp add: sint_sbintrunc')
  then show ?thesis using x by (simp add: signed_take_bit_int_eq_self_iff)
qed

lemma int64_wraps: "- (2 ^ 64) < x \<Longrightarrow> x < - (2 ^ 63) \<Longrightarrow> int64 x = x + 2 ^ 64"
proof -
  assume x: "- (2 ^ 64) < x" "x < - (2 ^ 63)"
  have "(word_of_int x :: 64 word) = word_of_int (x + 2 ^ 64)" by transfer (simp add: take_bit_eq_mod)
  then have "int64 x = int64 (x + 2 ^ 64)" by (simp only: int64_def)
  then show ?thesis using int64_small [of "x + 2 ^ 64"] x by simp
qed

text \<open>
  If neither a token nor a default gives a registration a time, the zero time is used. An endpoint registered by a request without a
  deadline then expires at once; with a deadline the duration wraps around and the endpoint does not expire for 292 years,
  less the time to the deadline.
\<close>

lemma expire_without_time:
  assumes "0 \<le> clock T" "\<And>n T s. nxt n (T, s) = (Inr (answer n), T, s)" "clock T < d" "d < clock T + 2 ^ 63"
  shows "(\<exists>T' s'. expireNSE_Register 0 None None None nxt nse (T, s) = (Inr (answer nse), T', s') \<and>
      due T' (the (slots T' (nse_name nse))) < clock T) \<and>
    (\<exists>T' s'. expireNSE_Register 0 (Some d) None None nxt nse (T, s) = (Inr (answer nse), T', s') \<and>
      due T' (the (slots T' (nse_name nse))) = clock T + 2 ^ 63 - (d - clock T))"
proof -
  have z: "Until (clock T) zero_time = - (2 ^ 63)" using assms(1) by (simp add: Until_def zero_time_def)
  have a: "due (arm c (Some e) T) (the (slots (arm c (Some e) T) c)) = clock T + e" for c e
    by (simp add: arm_arm_new due_def)
  have "\<exists>T' s'. expireNSE_Register 0 None None None nxt nse (T, s) = (Inr (answer nse), T', s') \<and>
      due T' (the (slots T' (nse_name nse))) < clock T"
    using z by (simp add: expireNSE_Register_def selectMinExpirationTime_def earlier_def expire_prepare_def assms(2) expire_settle_def
        expire_time_def a int64_small del: power_numeral)
  moreover have "Until (clock T) d = d - clock T" using assms(3,4) by (simp add: Until_def)
  moreover have "int64 (- (2 ^ 63) - (d - clock T)) = 2 ^ 63 - (d - clock T)" using assms(3,4) by (subst int64_wraps) simp_all
  ultimately show ?thesis using z
    by (simp add: expireNSE_Register_def selectMinExpirationTime_def earlier_def expire_prepare_def assms(2) expire_settle_def
        expire_time_def a del: power_numeral)
qed

section \<open>Refreshing\<close>

text \<open>A refresh is due before the first token of the path expires, if the arithmetic takes a part of the time.\<close>

lemma minTimeout_least:
  "minTimeout now segs = Some d \<Longrightarrow> (\<forall>seg\<in>set segs. d \<le> Until now (AsTime (seg_Expires seg))) \<and>
    (\<exists>seg\<in>set segs. d = Until now (AsTime (seg_Expires seg)))"
proof (induction segs arbitrary: d rule: rev_induct)
  case (snoc seg segs)
  let ?t = "Until now (AsTime (seg_Expires seg))"
  have m: "minTimeout now (segs @ [seg]) = (case minTimeout now segs of None \<Rightarrow> Some ?t | Some u \<Rightarrow> if ?t < u then Some ?t else Some u)"
    by (simp add: minTimeout_def Let_def)
  show ?case
  proof (cases "minTimeout now segs")
    case None
    then have "segs = []" by (cases segs rule: rev_cases) (auto simp: minTimeout_def Let_def split: option.splits if_splits)
    then show ?thesis using snoc.prems by (auto simp: minTimeout_def Let_def)
  next
    case (Some u)
    then show ?thesis using snoc.IH [OF Some] snoc.prems m by (auto split: if_splits)
  qed
qed (simp add: minTimeout_def)

lemma refresh_before_expiry:
  assumes "\<And>d p. 0 < d \<Longrightarrow> 0 < scaled d p \<and> scaled d p \<le> d" "conn_path conn = Some p" "seg \<in> set (PathSegments p)"
    and "0 < Until now (AsTime (seg_Expires seg))"
  shows "refresh_after scaled now conn \<le> Until now (AsTime (seg_Expires seg))"
proof (cases "minTimeout now (PathSegments p)")
  case None
  then show ?thesis using assms(2,4) by (simp add: refresh_after_def)
next
  case (Some d)
  then have "d \<le> Until now (AsTime (seg_Expires seg))" using minTimeout_least assms(3) by blast
  moreover have "0 < d \<Longrightarrow> scaled d (Index p, length (PathSegments p)) \<le> d" using assms(1) by blast
  ultimately show ?thesis using Some assms(2,4) by (auto simp: refresh_after_def intro: order_trans)
qed

text \<open>The goroutines of both refreshing clients; an event that is ignored, or a refresh of an endpoint, ends its goroutine.\<close>

inductive refresh_step :: "(int \<Rightarrow> u32 \<times> nat \<Rightarrow> int) \<Rightarrow> timer_system \<Rightarrow> timer_system \<Rightarrow> bool" for scaled where
  time: "clockwork (tm \<sigma>) T \<Longrightarrow> refresh_step scaled \<sigma> (\<sigma>\<lparr>tm := T\<rparr>)"
| request: "refresh_step scaled \<sigma> (\<sigma>\<lparr>tm := refresh_settle scaled c conn (tm \<sigma>),
    agreed := (agreed \<sigma>)(c \<mapsto> clock (tm \<sigma>) + refresh_after scaled (clock (tm \<sigma>)) conn)\<rparr>)"
| close: "refresh_step scaled \<sigma> (\<sigma>\<lparr>tm := disarm c (tm \<sigma>), agreed := (agreed \<sigma>)(c := None)\<rparr>)"
| refreshed: "t \<in> events (tm \<sigma>) \<Longrightarrow> t \<notin> cancelled (tm \<sigma>) \<Longrightarrow> c = owner (tm \<sigma>) t \<Longrightarrow>
    refresh_step scaled \<sigma> (\<sigma>\<lparr>tm := refresh_settle scaled c conn (take_event t (tm \<sigma>)),
      agreed := (agreed \<sigma>)(c \<mapsto> clock (tm \<sigma>) + refresh_after scaled (clock (tm \<sigma>)) conn)\<rparr>)"
| failed: "t \<in> events (tm \<sigma>) \<Longrightarrow> t \<notin> cancelled (tm \<sigma>) \<Longrightarrow> refresh_step scaled \<sigma> (\<sigma>\<lparr>tm := refresh_again t (take_event t (tm \<sigma>))\<rparr>)"
| ignored: "t \<in> events (tm \<sigma>) \<Longrightarrow> t \<notin> cancelled (tm \<sigma>) \<Longrightarrow>
    refresh_step scaled \<sigma> (\<sigma>\<lparr>tm := take_event t (tm \<sigma>), spent := insert t (spent \<sigma>)\<rparr>)"

lemma disarm_twice [simp]: "disarm c (disarm c T) = disarm c T"
  by (simp add: disarm_def split: option.split)

text \<open>An accepted refresh is a close followed by a request, as far as goroutines go.\<close>

lemma timer_step_refreshed:
  assumes "t \<in> events (tm \<sigma>)" "t \<notin> cancelled (tm \<sigma>)" "c = owner (tm \<sigma>) t"
  shows "timer_step\<^sup>*\<^sup>* \<sigma> (\<sigma>\<lparr>tm := arm c (Some d) (take_event t (tm \<sigma>)), agreed := (agreed \<sigma>)(c \<mapsto> clock (tm \<sigma>) + d)\<rparr>)"
proof -
  let ?\<sigma> = "\<sigma>\<lparr>tm := disarm c (take_event t (tm \<sigma>)), agreed := (agreed \<sigma>)(c := None)\<rparr>"
  have "timer_step \<sigma> ?\<sigma>" using timer_step.run [OF assms(1,2)] assms(3) by simp
  moreover have "timer_step ?\<sigma> (?\<sigma>\<lparr>tm := arm c (Some d) (tm ?\<sigma>), agreed := (agreed ?\<sigma>)(c \<mapsto> clock (tm ?\<sigma>) + d)\<rparr>)"
    by (rule timer_step.renew)
  moreover have "?\<sigma>\<lparr>tm := arm c (Some d) (tm ?\<sigma>), agreed := (agreed ?\<sigma>)(c \<mapsto> clock (tm ?\<sigma>) + d)\<rparr> =
      \<sigma>\<lparr>tm := arm c (Some d) (take_event t (tm \<sigma>)), agreed := (agreed \<sigma>)(c \<mapsto> clock (tm \<sigma>) + d)\<rparr>"
    by (cases \<sigma>) (simp add: arm_arm_new)
  ultimately show ?thesis by (metis rtranclp.simps)
qed

lemma refresh_step_timer: "refresh_step scaled \<sigma> \<sigma>' \<Longrightarrow> timer_step\<^sup>*\<^sup>* \<sigma> \<sigma>'"
proof (induction rule: refresh_step.induct)
  case (time \<sigma> T)
  then show ?case by (intro r_into_rtranclp timer_step.time)
next
  case (request \<sigma> c conn)
  show ?case unfolding refresh_settle_def by (intro r_into_rtranclp timer_step.renew)
next
  case (close \<sigma> c)
  show ?case by (intro r_into_rtranclp timer_step.drop)
next
  case (refreshed t \<sigma> c conn)
  then show ?case using timer_step_refreshed [OF refreshed] by (simp add: refresh_settle_def)
next
  case (failed t \<sigma>)
  then show ?case by (intro r_into_rtranclp timer_step.again)
next
  case (ignored t \<sigma>)
  then show ?case by (intro r_into_rtranclp timer_step.cut)
qed

interpretation refresh: timed "refresh_step scaled" for scaled
  by unfold_locales (rule refresh_step_timer)

lemma refresh_not_early:
  assumes "(refresh_step scaled)\<^sup>*\<^sup>* (timer_start now) \<sigma>" "t \<in> events (tm \<sigma>)" "t \<notin> cancelled (tm \<sigma>)"
  shows "\<exists>d. agreed \<sigma> (owner (tm \<sigma>) t) = Some d \<and> d \<le> clock (tm \<sigma>)"
  by (rule refresh.not_early [OF assms])

inductive refreshNSE_step :: "timer_system \<Rightarrow> timer_system \<Rightarrow> bool" where
  time: "clockwork (tm \<sigma>) T \<Longrightarrow> refreshNSE_step \<sigma> (\<sigma>\<lparr>tm := T\<rparr>)"
| register: "ExpirationTime resp = Some e \<Longrightarrow> d = (let x = int64 (2 * Until (clock (tm \<sigma>)) e) in sgn x * (\<bar>x\<bar> div 3)) \<Longrightarrow>
    refreshNSE_step \<sigma> (\<sigma>\<lparr>tm := refreshNSE_settle n resp (tm \<sigma>), agreed := (agreed \<sigma>)(n \<mapsto> clock (tm \<sigma>) + d)\<rparr>)"
| register_for_ever: "ExpirationTime resp = None \<Longrightarrow>
    refreshNSE_step \<sigma> \<lparr>tm = refreshNSE_settle n resp (tm \<sigma>), agreed = (agreed \<sigma>)(n := None), spent = insert (length (started (tm \<sigma>))) (spent \<sigma>)\<rparr>"
| unregister: "refreshNSE_step \<sigma> (\<sigma>\<lparr>tm := disarm n (tm \<sigma>), agreed := (agreed \<sigma>)(n := None)\<rparr>)"
| failed: "t \<in> events (tm \<sigma>) \<Longrightarrow> t \<notin> cancelled (tm \<sigma>) \<Longrightarrow>
    refreshNSE_step \<sigma> (\<sigma>\<lparr>tm := take_event t (tm \<sigma>), spent := insert t (spent \<sigma>)\<rparr>)"
| refreshed: "t \<in> events (tm \<sigma>) \<Longrightarrow> t \<notin> cancelled (tm \<sigma>) \<Longrightarrow> n = owner (tm \<sigma>) t \<Longrightarrow> ExpirationTime resp = Some e \<Longrightarrow>
    d = (let x = int64 (2 * Until (clock (tm \<sigma>)) e) in sgn x * (\<bar>x\<bar> div 3)) \<Longrightarrow>
    refreshNSE_step \<sigma> (\<sigma>\<lparr>tm := refreshNSE_settle n resp (take_event t (tm \<sigma>)), agreed := (agreed \<sigma>)(n \<mapsto> clock (tm \<sigma>) + d)\<rparr>)"

lemma refreshNSE_step_timer: "refreshNSE_step \<sigma> \<sigma>' \<Longrightarrow> timer_step\<^sup>*\<^sup>* \<sigma> \<sigma>'"
proof (induction rule: refreshNSE_step.induct)
  case (time \<sigma> T)
  then show ?case by (intro r_into_rtranclp timer_step.time)
next
  case (register resp e d \<sigma> n)
  then have "refreshNSE_settle n resp (tm \<sigma>) = arm n (Some d) (tm \<sigma>)" by (simp add: refreshNSE_settle_def Let_def)
  then show ?case using timer_step.renew [of \<sigma> n d] by simp
next
  case (register_for_ever resp \<sigma> n)
  then show ?case using timer_step.idle [of \<sigma> n] by (simp add: refreshNSE_settle_def)
next
  case (unregister \<sigma> n)
  show ?case by (intro r_into_rtranclp timer_step.drop)
next
  case (failed t \<sigma>)
  then show ?case by (intro r_into_rtranclp timer_step.cut)
next
  case (refreshed t \<sigma> n resp e d)
  then have "refreshNSE_settle n resp (take_event t (tm \<sigma>)) = arm n (Some d) (take_event t (tm \<sigma>))" by (simp add: refreshNSE_settle_def Let_def)
  then show ?case using timer_step_refreshed [OF refreshed(1-3), of d] by simp
qed

interpretation refreshNSE: timed refreshNSE_step
  by unfold_locales (rule refreshNSE_step_timer)

lemma refreshNSE_not_early:
  assumes "refreshNSE_step\<^sup>*\<^sup>* (timer_start now) \<sigma>" "t \<in> events (tm \<sigma>)" "t \<notin> cancelled (tm \<sigma>)"
  shows "\<exists>d. agreed \<sigma> (owner (tm \<sigma>) t) = Some d \<and> d \<le> clock (tm \<sigma>)"
  by (rule refreshNSE.not_early [OF assms])

section \<open>Witnesses\<close>

text \<open>A connection accepted at time 0 that expires at 100; the clock goes to 120, and its goroutine fires.\<close>

definition prev_100 :: "Connection \<Rightarrow> PathSegment option" where
  "prev_100 conn = Some ((new_segment ''nsc'' ''1'')\<lparr>seg_Expires := Some 100\<rparr>)"

definition armed :: "int \<Rightarrow> timer_system" where
  "armed now = \<lparr>tm = \<lparr>clock = now, slots = [''a'' \<mapsto> 0], started = [(''a'', 100)], cancelled = {}, waiting = {0}, events = {}\<rparr>,
     agreed = [''a'' \<mapsto> 100], spent = {}\<rparr>"

definition fired :: timer_system where
  "fired = (armed 120)\<lparr>tm := (tm (armed 120))\<lparr>waiting := {}, events := {0}\<rparr>\<rparr>"

lemma arm_first: "arm ''a'' (Some 100) (no_timers 0) = tm (armed 0)"
  by (simp add: arm_def disarm_def no_timers_def armed_def)

lemma armed_fires: "clockwork (tm (armed 0)) (tm (armed 120))" "clockwork (tm (armed 120)) (tm fired)"
proof -
  show "clockwork (tm (armed 0)) (tm (armed 120))" using clockwork.tick [of "tm (armed 0)" 120] by (simp add: armed_def)
  show "clockwork (tm (armed 120)) (tm fired)" using clockwork.fire [of 0 "tm (armed 120)"] by (simp add: armed_def fired_def due_def)
qed

lemma Until_100: "int64 (Until 0 100 - 0) = 100"
  by (simp add: Until_def int64_small)

lemma timeout_not_early_witness:
  "\<exists>d. agreed fired (owner (tm fired) 0) = Some d \<and> d \<le> clock (tm fired)"
proof -
  let ?step = "timeout_step prev_100 (\<lambda>_. True)"
  have "timeout_settle prev_100 ''a'' 0 empty_connection (tm (timer_start 0)) = (Inr empty_connection, tm (armed 0))"
    using arm_first Until_100 by (simp add: timeout_settle_def prev_100_def timer_start_def) (simp add: no_timers_def)
  then have "?step (timer_start 0) (timer_start 0\<lparr>tm := tm (armed 0),
      agreed := (agreed (timer_start 0))(''a'' \<mapsto> clock (tm (timer_start 0)) + int64 (Until (clock (tm (timer_start 0))) 100 - 0))\<rparr>)"
    by (rule timeout_step.request) (simp add: prev_100_def)
  then have 1: "?step (timer_start 0) (armed 0)"
    using Until_100 by (simp add: timer_start_def no_timers_def armed_def)
  have 2: "?step (armed 0) (armed 120)" using timeout_step.time [OF armed_fires(1)] by (simp add: armed_def)
  have 3: "?step (armed 120) fired" using timeout_step.time [OF armed_fires(2)] by (simp add: armed_def fired_def)
  have "?step\<^sup>*\<^sup>* (timer_start 0) (armed 0)" using 1 by (rule r_into_rtranclp)
  then have "?step\<^sup>*\<^sup>* (timer_start 0) (armed 120)" using 2 by (rule rtranclp.rtrancl_into_rtrancl)
  then have "?step\<^sup>*\<^sup>* (timer_start 0) fired" using 3 by (rule rtranclp.rtrancl_into_rtrancl)
  then show ?thesis by (rule timeout_not_early) (simp_all add: fired_def armed_def)
qed


lemma expire_without_time_witness:
  "\<exists>T' s'. expireNSE_Register 0 (Some 5) None None (\<lambda>n st. (Inr n, st)) \<lparr>nse_name = ''a'', NetworkServiceNames = None,
      NetworkServiceLabels = None, Url = [], ExpirationTime = Some 100, nse_PathIds = []\<rparr> (no_timers 0, ()) =
     (Inr \<lparr>nse_name = ''a'', NetworkServiceNames = None, NetworkServiceLabels = None, Url = [], ExpirationTime = Some 100, nse_PathIds = []\<rparr>, T', s') \<and>
     due T' (the (slots T' ''a'')) = 2 ^ 63 - 5"
  using expire_without_time [of "no_timers 0" "\<lambda>n st. (Inr n, st)" "\<lambda>n. n" 5 "\<lparr>nse_name = ''a'', NetworkServiceNames = None,
      NetworkServiceLabels = None, Url = [], ExpirationTime = Some 100, nse_PathIds = []\<rparr>" "()"]
  by (simp add: no_timers_def)

end
