(* ===== verification/Idle_Retry.thy ===== *)
theory Idle_Retry
  imports Element_Timers
begin

text \<open>
  \<^verbatim>\<open>networkservice/common/onidle\<close>, which notifies when an endpoint has had no connection for a while, and the retrying clients
  of \<^verbatim>\<open>networkservice/common/retry\<close> and \<^verbatim>\<open>registry/common/retry\<close>.
\<close>

section \<open>Idle endpoints\<close>

text \<open>
  \<open>timerAt\<close> is the time the timer is set to, \<open>callbacks\<close> counts its callbacks that have started and not got the lock yet,
  \<open>notified\<close> the calls of \<^verbatim>\<open>notify\<close>. A server with a timeout of zero is the null server and keeps no state.
\<close>

record onIdleServer =
  timerAt :: "int option"
  callbacks :: nat
  timerFired :: bool
  activeConns :: "string set"
  notified :: nat
  idle_now :: int
  idle_ctx_done :: bool

definition onidle_NewServer :: "int \<Rightarrow> int \<Rightarrow> onIdleServer option" where
  "onidle_NewServer now timeout =
     (if timeout = 0 then None
      else Some \<lparr>timerAt = Some (now + timeout), callbacks = 0, timerFired = False, activeConns = {}, notified = 0,
        idle_now = now, idle_ctx_done = False\<rparr>)"

text \<open>The callback of the timer, once it has the lock; the notification follows at once.\<close>

definition onidle_callback :: "onIdleServer \<Rightarrow> onIdleServer" where
  "onidle_callback t =
     (if timerFired t \<or> activeConns t \<noteq> {} then t else t\<lparr>timerFired := True, notified := notified t + 1\<rparr>)"

text \<open>The result says whether the connection was there before, and whether the timer has fired.\<close>

definition addConnection :: "string \<Rightarrow> onIdleServer \<Rightarrow> bool \<times> bool \<times> onIdleServer" where
  "addConnection c t =
     (if timerFired t then (False, True, t)
      else if c \<notin> activeConns t then (False, False, t\<lparr>activeConns := insert c (activeConns t), timerAt := None\<rparr>)
      else (True, False, t))"

definition removeConnection :: "int \<Rightarrow> string \<Rightarrow> onIdleServer \<Rightarrow> onIdleServer" where
  "removeConnection timeout c t =
     (if c \<in> activeConns t then
        let t = t\<lparr>activeConns := activeConns t - {c}\<rparr> in
        if activeConns t = {} \<and> \<not> idle_ctx_done t then t\<lparr>timerAt := Some (idle_now t + timeout)\<rparr> else t
      else t)"

definition onidle_Request :: "int \<Rightarrow> (onIdleServer \<times> 's) request_chain \<Rightarrow> (onIdleServer \<times> 's) request_chain" where
  "onidle_Request timeout nxt request st =
     (let c = Id (conn_of request) in
      case addConnection c (fst st) of (isRefresh, expired, t) \<Rightarrow>
        if expired then (Inl (Err ''endpoint expired''), t, snd st)
        else case nxt request (t, snd st) of
          (Inl (Err e), t, s) \<Rightarrow> (Inl (Err e), if \<not> isRefresh then removeConnection timeout c t else t, s)
        | r \<Rightarrow> r)"

definition onidle_Close :: "int \<Rightarrow> (onIdleServer \<times> 's) close_chain \<Rightarrow> (onIdleServer \<times> 's) close_chain" where
  "onidle_Close timeout nxt conn st = nxt conn (removeConnection timeout (Id conn) (fst st), snd st)"

section \<open>Retrying\<close>

text \<open>
  One loop for all methods: \<open>stop\<close> is the loop condition with the error the method then returns, \<open>pause\<close> the \<^verbatim>\<open>select\<close> after a
  failed attempt, which ends with an error or lets the loop go on. The loop may go on for ever.
\<close>

partial_function (option) retry_loop ::
  "('s \<Rightarrow> nsm_error option) \<Rightarrow> ('s \<Rightarrow> nsm_error option \<times> 's) \<Rightarrow> ('s \<Rightarrow> (nsm_error + 'a) \<times> 's) \<Rightarrow> 's \<Rightarrow> ((nsm_error + 'a) \<times> 's) option" where
  "retry_loop stop pause attempt s =
     (case stop s of
        Some e \<Rightarrow> Some (Inl e, s)
      | None \<Rightarrow>
          (case attempt s of
             (Inr resp, s) \<Rightarrow> Some (Inr resp, s)
           | (Inl Panic, s) \<Rightarrow> Some (Inl Panic, s)
           | (Inl (Err _), s) \<Rightarrow>
               (case pause s of
                  (Some e, s) \<Rightarrow> Some (Inl e, s)
                | (None, s) \<Rightarrow> retry_loop stop pause attempt s)))"

text \<open>
  The two contexts, the one of the call and the one of the application, and the \<^verbatim>\<open>select\<close>: the call's context is done, the
  application's is, or the interval is over.
\<close>

datatype wake = CtxDone string | ChainDone string | Elapsed

record 's retry_env =
  ctx_Err :: "'s \<Rightarrow> string option"
  chain_Err :: "'s \<Rightarrow> string option"
  select_wait :: "'s \<Rightarrow> wake \<times> 's"
  sleep :: "'s \<Rightarrow> 's"

definition wrap_error :: "string \<Rightarrow> string \<Rightarrow> nsm_error" where
  "wrap_error message e = Err (message @ '': '' @ e)"

text \<open>The client of network services knows one context; \<open>select_wait\<close> does not say \<open>ChainDone\<close> there.\<close>

definition retryClient_pause :: "'s retry_env \<Rightarrow> 's \<Rightarrow> nsm_error option \<times> 's" where
  "retryClient_pause E s = (case select_wait E s of (CtxDone e, s) \<Rightarrow> (Some (Err e), s) | (ChainDone e, s) \<Rightarrow> (Some (Err e), s) | (Elapsed, s) \<Rightarrow> (None, s))"

definition retryClient_Request ::
  "'s retry_env \<Rightarrow> 's request_chain \<Rightarrow> NetworkServiceRequest \<Rightarrow> 's \<Rightarrow> ((nsm_error + Connection) \<times> 's) option" where
  "retryClient_Request E nxt request s =
     retry_loop (\<lambda>s. map_option Err (ctx_Err E s)) (retryClient_pause E) (nxt request) s"

definition retryClient_Close :: "'s retry_env \<Rightarrow> 's close_chain \<Rightarrow> Connection \<Rightarrow> 's \<Rightarrow> ((nsm_error + unit) \<times> 's) option" where
  "retryClient_Close E nxt conn s =
     retry_loop (\<lambda>s. map_option Err (ctx_Err E s)) (retryClient_pause E) (nxt conn) s"

text \<open>The registry clients name what is done in their errors; \<open>what\<close> is the method.\<close>

definition registry_pause :: "'s retry_env \<Rightarrow> string \<Rightarrow> 's \<Rightarrow> nsm_error option \<times> 's" where
  "registry_pause E what s =
     (case select_wait E s of
        (CtxDone e, s) \<Rightarrow> (Some (wrap_error (what @ '' context is done'') e), s)
      | (ChainDone e, s) \<Rightarrow> (Some (wrap_error ''application context is done'' e), s)
      | (Elapsed, s) \<Rightarrow> (None, s))"

definition stop_both :: "'s retry_env \<Rightarrow> string \<Rightarrow> 's \<Rightarrow> nsm_error option" where
  "stop_both E what s =
     (case chain_Err E s of
        Some e \<Rightarrow> Some (wrap_error ''application context has an error'' e)
      | None \<Rightarrow> map_option (wrap_error (what @ '' context has an error'')) (ctx_Err E s))"

definition stop_ctx :: "'s retry_env \<Rightarrow> string \<Rightarrow> 's \<Rightarrow> nsm_error option" where
  "stop_ctx E what s = map_option (wrap_error (what @ '' context has an error'')) (ctx_Err E s)"

definition retryNS_Register ::
  "'s retry_env \<Rightarrow> (NetworkServiceMsg \<Rightarrow> 's \<Rightarrow> (nsm_error + NetworkServiceMsg) \<times> 's) \<Rightarrow> NetworkServiceMsg \<Rightarrow> 's \<Rightarrow> ((nsm_error + NetworkServiceMsg) \<times> 's) option" where
  "retryNS_Register E nxt ns s = retry_loop (stop_both E ''register'') (registry_pause E ''register'') (nxt ns) s"

definition retryNS_Unregister ::
  "'s retry_env \<Rightarrow> (NetworkServiceMsg \<Rightarrow> 's \<Rightarrow> (nsm_error + unit) \<times> 's) \<Rightarrow> NetworkServiceMsg \<Rightarrow> 's \<Rightarrow> ((nsm_error + unit) \<times> 's) option" where
  "retryNS_Unregister E nxt ns s = retry_loop (stop_both E ''unregister'') (registry_pause E ''unregister'') (nxt ns) s"

text \<open>\<^verbatim>\<open>Find\<close> sleeps through the interval.\<close>

definition retryNS_Find :: "'s retry_env \<Rightarrow> ('q \<Rightarrow> 's \<Rightarrow> (nsm_error + 'a) \<times> 's) \<Rightarrow> 'q \<Rightarrow> 's \<Rightarrow> ((nsm_error + 'a) \<times> 's) option" where
  "retryNS_Find E nxt query s = retry_loop (stop_both E ''find'') (\<lambda>s. (None, sleep E s)) (nxt query) s"

definition retryNSE_Register ::
  "'s retry_env \<Rightarrow> 's register_chain \<Rightarrow> NetworkServiceEndpoint \<Rightarrow> 's \<Rightarrow> ((nsm_error + NetworkServiceEndpoint) \<times> 's) option" where
  "retryNSE_Register E nxt nse s = retry_loop (stop_ctx E ''register'') (registry_pause E ''register'') (nxt nse) s"

definition retryNSE_Unregister ::
  "'s retry_env \<Rightarrow> 's unregister_chain \<Rightarrow> NetworkServiceEndpoint \<Rightarrow> 's \<Rightarrow> ((nsm_error + unit) \<times> 's) option" where
  "retryNSE_Unregister E nxt nse s = retry_loop (stop_ctx E ''unregister'') (registry_pause E ''unregister'') (nxt nse) s"

definition retryNSE_Find :: "'s retry_env \<Rightarrow> ('q \<Rightarrow> 's \<Rightarrow> (nsm_error + 'a) \<times> 's) \<Rightarrow> 'q \<Rightarrow> 's \<Rightarrow> ((nsm_error + 'a) \<times> 's) option" where
  "retryNSE_Find E nxt query s = retry_loop (stop_both E ''find'') (\<lambda>s. (None, sleep E s)) (nxt query) s"

text \<open>An idle endpoint is noticed, once, and takes no connection afterwards; retrying returns the first answer.\<close>

section \<open>Idle endpoints\<close>

text \<open>
  The steps: the parts of requests and closes under the lock, the timer, its callbacks (a callback that sees the context done
  returns), time and the end of the context. Requests in the rest of the chain are between their steps.
\<close>

inductive onidle_step :: "int \<Rightarrow> onIdleServer \<Rightarrow> onIdleServer \<Rightarrow> bool" for timeout where
  tick: "idle_now t \<le> n \<Longrightarrow> onidle_step timeout t (t\<lparr>idle_now := n\<rparr>)"
| expire: "timerAt t = Some d \<Longrightarrow> d \<le> idle_now t \<Longrightarrow> onidle_step timeout t (t\<lparr>timerAt := None, callbacks := callbacks t + 1\<rparr>)"
| callback: "0 < callbacks t \<Longrightarrow> onidle_step timeout t (onidle_callback (t\<lparr>callbacks := callbacks t - 1\<rparr>))"
| callback_done: "0 < callbacks t \<Longrightarrow> idle_ctx_done t \<Longrightarrow> onidle_step timeout t (t\<lparr>callbacks := callbacks t - 1\<rparr>)"
| request: "onidle_step timeout t (snd (snd (addConnection c t)))"
| remove: "onidle_step timeout t (removeConnection timeout c t)"
| context_done: "onidle_step timeout t (t\<lparr>idle_ctx_done := True\<rparr>)"
| stop: "idle_ctx_done t \<Longrightarrow> onidle_step timeout t (t\<lparr>timerAt := None\<rparr>)"

definition onidle_inv :: "onIdleServer \<Rightarrow> bool" where
  "onidle_inv t \<longleftrightarrow> notified t = (if timerFired t then 1 else 0) \<and>
     (timerFired t \<longrightarrow> activeConns t = {}) \<and>
     (activeConns t \<noteq> {} \<longrightarrow> timerAt t = None) \<and>
     (\<not> timerFired t \<longrightarrow> activeConns t = {} \<longrightarrow> \<not> idle_ctx_done t \<longrightarrow> timerAt t \<noteq> None \<or> 0 < callbacks t)"

lemma onidle_step_inv: "onidle_step timeout t t' \<Longrightarrow> onidle_inv t \<Longrightarrow> onidle_inv t'"
proof (induction rule: onidle_step.induct)
  case (callback t)
  then show ?case by (auto simp: onidle_inv_def onidle_callback_def)
next
  case (request t c)
  then show ?case by (auto simp: onidle_inv_def addConnection_def)
next
  case (remove t c)
  then show ?case by (auto simp: onidle_inv_def removeConnection_def Let_def)
qed (auto simp: onidle_inv_def)

lemma onidle_reachable:
  assumes "onidle_NewServer now timeout = Some t0" "(onidle_step timeout)\<^sup>*\<^sup>* t0 t"
  shows "onidle_inv t"
  using assms(2)
proof (induction rule: rtranclp_induct)
  case base
  then show ?case using assms(1) by (auto simp: onidle_NewServer_def onidle_inv_def split: if_splits)
qed (rule onidle_step_inv)


text \<open>
  A callback that waits for the lock while a connection comes and goes notifies as soon as that connection is gone, not a
  timeout later.
\<close>

lemma onidle_early:
  assumes "0 < timeout" "onidle_NewServer now timeout = Some t0"
  shows "\<exists>t t'. (onidle_step timeout)\<^sup>*\<^sup>* t0 t \<and> timerAt t = Some (idle_now t + timeout) \<and> onidle_step timeout t t' \<and> notified t' = 1"
proof -
  let ?t = "\<lambda>d n A. \<lparr>timerAt = d, callbacks = n, timerFired = False, activeConns = A, notified = 0, idle_now = now + timeout, idle_ctx_done = False\<rparr>"
  have t0: "t0 = (?t (Some (now + timeout)) 0 {})\<lparr>idle_now := now\<rparr>" using assms by (simp add: onidle_NewServer_def)
  have "onidle_step timeout t0 (?t (Some (now + timeout)) 0 {})"
    using onidle_step.tick [of t0 "now + timeout" timeout] assms(1) by (simp add: t0)
  then have "(onidle_step timeout)\<^sup>*\<^sup>* t0 (?t (Some (now + timeout)) 0 {})" by (rule r_into_rtranclp)
  moreover have "onidle_step timeout (?t (Some (now + timeout)) 0 {}) (?t None 1 {})"
    using onidle_step.expire [of "?t (Some (now + timeout)) 0 {}" "now + timeout" timeout] by simp
  ultimately have "(onidle_step timeout)\<^sup>*\<^sup>* t0 (?t None 1 {})" by (rule rtranclp.rtrancl_into_rtrancl)
  moreover have "onidle_step timeout (?t None 1 {}) (?t None 1 {''a''})"
    using onidle_step.request [of timeout "?t None 1 {}" "''a''"] by (simp add: addConnection_def)
  ultimately have "(onidle_step timeout)\<^sup>*\<^sup>* t0 (?t None 1 {''a''})" by (rule rtranclp.rtrancl_into_rtrancl)
  moreover have "onidle_step timeout (?t None 1 {''a''}) (?t (Some (now + timeout + timeout)) 1 {})"
    using onidle_step.remove [of timeout "?t None 1 {''a''}" "''a''"] by (simp add: removeConnection_def Let_def)
  ultimately have r: "(onidle_step timeout)\<^sup>*\<^sup>* t0 (?t (Some (now + timeout + timeout)) 1 {})" by (rule rtranclp.rtrancl_into_rtrancl)
  have s: "onidle_step timeout (?t (Some (now + timeout + timeout)) 1 {})
      (onidle_callback ((?t (Some (now + timeout + timeout)) 1 {})\<lparr>callbacks := callbacks (?t (Some (now + timeout + timeout)) 1 {}) - 1\<rparr>))"
    by (rule onidle_step.callback) simp
  show ?thesis by (intro exI conjI, rule r, simp, rule s) (simp add: onidle_callback_def)
qed

section \<open>Retrying\<close>

text \<open>
  Retrying goes on as long as attempts fail and the contexts are not done, and returns the first answer: if \<open>k\<close> attempts fail,
  the waits in between end by the interval, and attempt \<open>k\<close> is accepted, that answer is returned.
\<close>

lemma retry_returns:
  assumes "\<And>i. i < k \<Longrightarrow> ctx_Err E (\<sigma> i) = None \<and> nxt request (\<sigma> i) = (Inl (Err (m i)), \<tau> i) \<and> select_wait E (\<tau> i) = (Elapsed, \<sigma> (Suc i))"
    and "ctx_Err E (\<sigma> k) = None" "nxt request (\<sigma> k) = (Inr resp, s)"
  shows "retryClient_Request E nxt request (\<sigma> 0) = Some (Inr resp, s)"
proof -
  have "j \<le> k \<Longrightarrow> retryClient_Request E nxt request (\<sigma> (k - j)) = Some (Inr resp, s)" for j
  proof (induction j)
    case 0
    then show ?case using assms(2,3) unfolding retryClient_Request_def by (subst retry_loop.simps) simp
  next
    case (Suc j)
    let ?i = "k - Suc j"
    have "ctx_Err E (\<sigma> ?i) = None" "nxt request (\<sigma> ?i) = (Inl (Err (m ?i)), \<tau> ?i)" "select_wait E (\<tau> ?i) = (Elapsed, \<sigma> (Suc ?i))"
      using assms(1) [of ?i] Suc.prems by auto
    moreover have "Suc ?i = k - j" using Suc.prems by simp
    ultimately show ?case using Suc unfolding retryClient_Request_def by (subst retry_loop.simps) (simp add: retryClient_pause_def)
  qed
  from this [of k] show ?thesis by simp
qed

text \<open>Any loop of these returns an answer of the chain, or an error of a context (or a panic), never a failure of an attempt.\<close>

lemma retry_loop_result:
  assumes "retry_loop stop pause attempt s = Some r"
  shows "(\<exists>s'. attempt s' = r \<and> (\<forall>e. fst r \<noteq> Inl (Err e))) \<or> (\<exists>s' e. stop s' = Some e \<and> fst r = Inl e) \<or> (\<exists>s' e t. pause s' = (Some e, t) \<and> fst r = Inl e)"
proof (rule retry_loop.raw_induct [OF _ assms], goal_cases)
  case (1 g stop pause attempt s r)
  note g = 1(1) and r = 1(2)
  show ?case
  proof (cases "stop s")
    case None
    obtain a s1 where a: "attempt s = (a, s1)" by fastforce
    show ?thesis
    proof (cases "\<exists>e. a = Inl (Err e)")
      case True
      obtain p s2 where p: "pause s1 = (p, s2)" by fastforce
      show ?thesis
      proof (cases p)
        case None' : None
        then have "g stop pause attempt s2 = Some r" using r None a p True by auto
        then show ?thesis by (rule g)
      next
        case (Some e)
        then have "r = (Inl e, s2)" using r None a p True by auto
        then show ?thesis using p Some by auto
      qed
    next
      case False
      then have "r = (a, s1)" using r None a by (auto split: sum.splits nsm_error.splits)
      then show ?thesis using a False by auto
    qed
  next
    case (Some e)
    then have "r = (Inl e, s)" using r by simp
    then show ?thesis using Some by auto
  qed
qed

section \<open>Witnesses\<close>


text \<open>The first attempt fails, the second is accepted.\<close>

definition patient :: "nat retry_env" where
  "patient = \<lparr>ctx_Err = (\<lambda>_. None), chain_Err = (\<lambda>_. None), select_wait = (\<lambda>s. (Elapsed, s + 1)), sleep = Suc\<rparr>"

lemma retry_returns_witness:
  "retryClient_Request patient (\<lambda>r s. (if s = 0 then Inl (Err ''no'') else Inr (conn_of r), s)) \<lparr>req_connection = None, MechanismPreferences = []\<rparr> 0 =
     Some (Inr empty_connection, 1)"
  using retry_returns [of 1 patient "\<lambda>i. i" "\<lambda>r s. (if s = 0 then Inl (Err ''no'') else Inr (conn_of r), s)"
      "\<lparr>req_connection = None, MechanismPreferences = []\<rparr>" "\<lambda>_. ''no''" "\<lambda>i. i" empty_connection 1]
  by (simp add: patient_def conn_of_def)

end
