(* ===== verification/Connection_Monitor.thy ===== *)
theory Connection_Monitor
  imports NSM_Api "HOL-Library.AList"
begin

text \<open>
  Monitoring of connections: the monitor server of \<^verbatim>\<open>networkservice/common/monitor\<close>, which keeps the connections and sends their
  changes to the streams of its clients, the chain element that feeds it, and the filters through which \<^verbatim>\<open>monitor\<close>,
  \<^verbatim>\<open>heal\<close> and \<^verbatim>\<open>upstreamrefresh\<close> watch one connection.
\<close>

section \<open>Events\<close>

datatype event_type = INITIAL_STATE_TRANSFER | UPDATE | DELETE

text \<open>The connections of an event with their keys, in the order the map is iterated.\<close>

record ConnectionEvent =
  ev_Type :: event_type
  ev_Connections :: "(string \<times> Connection) list"

section \<open>The server\<close>

text \<open>
  A client's stream: its selector, the tasks of its filter's executor, whether the client has gone, whether a send failed, and the events
  sent. The server's executor adds a filter, hands out an event, or removes a filter.
\<close>

record 'sel monitor_stream =
  selector :: 'sel
  tasks :: "ConnectionEvent list"
  gone :: bool
  broken :: bool
  sent :: "ConnectionEvent list"

datatype monitor_task = AddFilter nat | HandOut ConnectionEvent | RemoveFilter nat

record 'sel monitorConnectionServer =
  connections :: "(string \<times> Connection) list"
  filters :: "nat set"
  mon_executor :: "monitor_task list"
  streams :: "nat \<rightharpoonup> 'sel monitor_stream"

definition newMonitorConnectionServer :: "'sel monitorConnectionServer" where
  "newMonitorConnectionServer = \<lparr>connections = [], filters = {}, mon_executor = [], streams = Map.empty\<rparr>"

text \<open>\<^verbatim>\<open>FilterMapOnManagerScopeSelector\<close> of the API keeps what the selector matches; \<open>matches\<close> is an argument.\<close>

definition FilterMap :: "('sel \<Rightarrow> Connection \<Rightarrow> bool) \<Rightarrow> 'sel \<Rightarrow> (string \<times> Connection) list \<Rightarrow> (string \<times> Connection) list" where
  "FilterMap matches sel m = filter (\<lambda>(k, c). matches sel c) m"

text \<open>\<^verbatim>\<open>monitorFilter.Send\<close>: the event that goes out, if any.\<close>

definition monitorFilter_Send :: "('sel \<Rightarrow> Connection \<Rightarrow> bool) \<Rightarrow> 'sel \<Rightarrow> ConnectionEvent \<Rightarrow> ConnectionEvent option" where
  "monitorFilter_Send matches sel event =
     (let rv = event\<lparr>ev_Connections := FilterMap matches sel (ev_Connections event)\<rparr> in
      if ev_Type rv = INITIAL_STATE_TRANSFER \<or> ev_Connections rv \<noteq> [] then Some rv else None)"

definition MonitorConnections :: "nat \<Rightarrow> 'sel \<Rightarrow> 'sel monitorConnectionServer \<Rightarrow> 'sel monitorConnectionServer" where
  "MonitorConnections i sel m =
     m\<lparr>streams := (streams m)(i \<mapsto> \<lparr>selector = sel, tasks = [], gone = False, broken = False, sent = []\<rparr>),
       mon_executor := mon_executor m @ [AddFilter i]\<rparr>"

definition monitor_Send :: "ConnectionEvent \<Rightarrow> 'sel monitorConnectionServer \<Rightarrow> 'sel monitorConnectionServer" where
  "monitor_Send event m = m\<lparr>mon_executor := mon_executor m @ [HandOut event]\<rparr>"

definition change_connections :: "ConnectionEvent \<Rightarrow> (string \<times> Connection) list \<Rightarrow> (string \<times> Connection) list" where
  "change_connections event m =
     (case ev_Type event of
        UPDATE \<Rightarrow> fold (\<lambda>(k, c). AList.update (Id c) c) (ev_Connections event) m
      | DELETE \<Rightarrow> fold (\<lambda>(k, c). AList.delete (Id c)) (ev_Connections event) m
      | INITIAL_STATE_TRANSFER \<Rightarrow> m)"

text \<open>A closure of the server's executor. Sending an event of the initial type is not permitted.\<close>

definition run_monitor_task ::
  "('sel \<Rightarrow> Connection \<Rightarrow> bool) \<Rightarrow> monitor_task \<Rightarrow> 'sel monitorConnectionServer \<Rightarrow> 'sel monitorConnectionServer" where
  "run_monitor_task matches t m =
     (case t of
        AddFilter i \<Rightarrow>
          (case streams m i of
             None \<Rightarrow> m
           | Some st \<Rightarrow>
               m\<lparr>filters := insert i (filters m),
                 streams := (streams m)(i \<mapsto> st\<lparr>tasks := tasks st @
                   [\<lparr>ev_Type = INITIAL_STATE_TRANSFER, ev_Connections = FilterMap matches (selector st) (connections m)\<rparr>]\<rparr>)\<rparr>)
      | HandOut event \<Rightarrow>
          if ev_Type event = INITIAL_STATE_TRANSFER then m
          else m\<lparr>connections := change_connections event (connections m),
                 streams := (\<lambda>i. map_option (\<lambda>st. if i \<in> filters m then st\<lparr>tasks := tasks st @ [event]\<rparr> else st) (streams m i))\<rparr>
      | RemoveFilter i \<Rightarrow> m\<lparr>filters := filters m - {i}\<rparr>)"

text \<open>
  A closure of the executor of a filter; \<open>ok\<close> is the result of the send, if there is one. The initial transfer is tried even if the client has
  gone, and its failure is ignored.
\<close>

definition run_filter_task ::
  "('sel \<Rightarrow> Connection \<Rightarrow> bool) \<Rightarrow> bool \<Rightarrow> nat \<Rightarrow> 'sel monitor_stream \<Rightarrow> ConnectionEvent \<Rightarrow> 'sel monitorConnectionServer \<Rightarrow> 'sel monitorConnectionServer" where
  "run_filter_task matches ok i st event m =
     (let initial = (ev_Type event = INITIAL_STATE_TRANSFER); put = (\<lambda>st m. m\<lparr>streams := (streams m)(i \<mapsto> st)\<rparr>);
          remove = (\<lambda>m. m\<lparr>mon_executor := mon_executor m @ [RemoveFilter i]\<rparr>) in
      if \<not> initial \<and> gone st then remove (put st m)
      else case monitorFilter_Send matches (selector st) event of
        None \<Rightarrow> put st m
      | Some rv \<Rightarrow>
          if ok then put (st\<lparr>sent := sent st @ [rv]\<rparr>) m
          else if initial then put (st\<lparr>broken := True\<rparr>) m
          else remove (put (st\<lparr>broken := True\<rparr>) m))"

section \<open>The chain element\<close>

text \<open>
  \<open>event_loop\<close> is the cancel function of the connection's event loop, in its metadata, and \<open>start\<close> starts a new loop if there is a client
  connection (\<open>None\<close> if not). \<open>close\<close> is \<^verbatim>\<open>next.Client(ctx).Close\<close>, as the code has it. What is sent to the monitor server is put into
  \<open>outbox\<close>.
\<close>

record ('l, 's) monitor_state =
  event_loop :: "'l option"
  outbox :: "ConnectionEvent list"
  cancelled_loops :: "'l list"
  rest :: 's

definition one_event :: "event_type \<Rightarrow> Connection \<Rightarrow> ConnectionEvent" where
  "one_event t c = \<lparr>ev_Type = t, ev_Connections = [(Id c, c)]\<rparr>"

definition cancel_loop :: "('l, 's) monitor_state \<Rightarrow> ('l, 's) monitor_state" where
  "cancel_loop st = (case event_loop st of None \<Rightarrow> st
     | Some l \<Rightarrow> st\<lparr>event_loop := None, cancelled_loops := cancelled_loops st @ [l]\<rparr>)"

definition monitorServer_Request ::
  "(Connection \<Rightarrow> 's \<Rightarrow> ((nsm_error + 'l) \<times> 's) option) \<Rightarrow> (Connection \<Rightarrow> 's \<Rightarrow> 's) \<Rightarrow> ('l, 's) monitor_state request_chain \<Rightarrow> ('l, 's) monitor_state request_chain" where
  "monitorServer_Request start close nxt request st =
     (let loaded = event_loop st \<noteq> None; st = cancel_loop st; clonedConn = conn_of request in
      case nxt request st of
        (Inl Panic, st) \<Rightarrow> (Inl Panic, st)
      | (Inl (Err e), st) \<Rightarrow>
          (Inl (Err e), if loaded then st\<lparr>outbox := outbox st @ [one_event UPDATE (clonedConn\<lparr>State := DOWN\<rparr>)]\<rparr> else st)
      | (Inr conn, st) \<Rightarrow>
          (let st = st\<lparr>outbox := outbox st @ [one_event UPDATE conn]\<rparr> in
           case start conn (rest st) of
             None \<Rightarrow> (Inr conn, st)
           | Some (Inl e, s) \<Rightarrow> (Inl (Err ''unable to monitor''), st\<lparr>rest := close conn s\<rparr>)
           | Some (Inr l, s) \<Rightarrow> (Inr conn, st\<lparr>event_loop := Some l, rest := s\<rparr>)))"

definition monitorServer_Close :: "('l, 's) monitor_state close_chain \<Rightarrow> ('l, 's) monitor_state close_chain" where
  "monitorServer_Close nxt conn st =
     (case nxt conn (cancel_loop st) of
        (Inl Panic, st) \<Rightarrow> (Inl Panic, st)
      | (r, st) \<Rightarrow> (r, st\<lparr>outbox := outbox st @ [one_event DELETE conn]\<rparr>))"

section \<open>Watching one connection\<close>

text \<open>
  One connection of an incoming event: the connection to send, or nothing. \<open>None\<close> is a nil dereference or an index out of range.
  \<open>equals\<close> is \<^verbatim>\<open>Equals\<close> of the API. The three filters differ in the events they look at: one passes over events of some types, one over
  initial states that are known.
\<close>

record watch_kind =
  considers :: "event_type \<Rightarrow> bool"
  changed_state :: "event_type \<Rightarrow> Connection \<Rightarrow> Connection \<Rightarrow> bool"

definition filter_conn ::
  "(Connection \<Rightarrow> Connection \<Rightarrow> bool) \<Rightarrow> watch_kind \<Rightarrow> event_type \<Rightarrow> Connection \<Rightarrow> Connection \<Rightarrow> Connection option option" where
  "filter_conn equals wanted t connIn conn =
     (let index = (case conn_path conn of None \<Rightarrow> 0 | Some p \<Rightarrow> Index p);
          (indexIn, segsIn) = (case conn_path connIn of None \<Rightarrow> (0, []) | Some p \<Rightarrow> (Index p, PathSegments p)) in
      if \<not> considers wanted t then Some None
      else if length segsIn < unat (index + 1) then Some None
      else if length segsIn \<le> unat index then None
      else if seg_id (segsIn ! unat index) \<noteq> Id conn then Some None
      else if indexIn \<noteq> index \<and> indexIn \<noteq> index + 1 then Some None
      else if \<not> changed_state wanted t connIn conn then Some None
      else case conn_path connIn of
        None \<Rightarrow> None
      | Some path \<Rightarrow>
          (let connOut = conn\<lparr>conn_path := Some (path\<lparr>Index := index\<rparr>), Context := Context connIn,
                 State := (if t = DELETE then DOWN else State connIn)\<rparr>
           in if equals connOut conn then Some None else Some (Some connOut)))"

fun filter_conns ::
  "(Connection \<Rightarrow> Connection \<Rightarrow> bool) \<Rightarrow> watch_kind \<Rightarrow> event_type \<Rightarrow> Connection list \<Rightarrow> Connection \<Rightarrow>
   (string \<times> Connection) list \<Rightarrow> ((string \<times> Connection) list \<times> Connection) option" where
  "filter_conns equals wanted t [] conn out = Some (out, conn)"
| "filter_conns equals wanted t (c # cs) conn out =
     (case filter_conn equals wanted t c conn of
        None \<Rightarrow> None
      | Some None \<Rightarrow> filter_conns equals wanted t cs conn out
      | Some (Some connOut) \<Rightarrow> filter_conns equals wanted t cs connOut (AList.update (Id connOut) connOut out))"

text \<open>
  \<^verbatim>\<open>Recv\<close>, on the events that come in until the stream ends: the next event with something to tell, the connection as last told and
  the events left; \<open>Inl\<close> is the end of the stream, \<open>None\<close> a panic.
\<close>

fun clientFilter_Recv ::
  "(Connection \<Rightarrow> Connection \<Rightarrow> bool) \<Rightarrow> watch_kind \<Rightarrow> ConnectionEvent list \<Rightarrow> Connection \<Rightarrow>
   (nsm_error + ConnectionEvent \<times> Connection \<times> ConnectionEvent list) option" where
  "clientFilter_Recv equals wanted [] conn = Some (Inl (Err ''MonitorConnections client failed to receive an event''))"
| "clientFilter_Recv equals wanted (eventIn # es) conn =
     (case filter_conns equals wanted (ev_Type eventIn) (map snd (ev_Connections eventIn)) conn [] of
        None \<Rightarrow> None
      | Some (out, conn) \<Rightarrow>
          if out \<noteq> [] then Some (Inr (\<lparr>ev_Type = UPDATE, ev_Connections = out\<rparr>, conn, es)) else clientFilter_Recv equals wanted es conn)"

definition monitor_wanted :: watch_kind where
  "monitor_wanted = \<lparr>considers = (\<lambda>_. True),
     changed_state = (\<lambda>t connIn conn. \<not> (t = INITIAL_STATE_TRANSFER \<and> State connIn = State conn))\<rparr>"

definition heal_wanted :: watch_kind where
  "heal_wanted = \<lparr>considers = (\<lambda>_. True), changed_state = (\<lambda>_ _ _. True)\<rparr>"

definition upstream_wanted :: watch_kind where
  "upstream_wanted = \<lparr>considers = (\<lambda>t. t = UPDATE \<or> t = INITIAL_STATE_TRANSFER), changed_state = (\<lambda>_ _ _. True)\<rparr>"

text \<open>The event loop of \<^verbatim>\<open>monitor\<close>: what it passes on until the stream ends; then it reports the connection it was started for as down.\<close>

function monitor_eventLoop ::
  "(Connection \<Rightarrow> Connection \<Rightarrow> bool) \<Rightarrow> Connection \<Rightarrow> ConnectionEvent list \<Rightarrow> Connection \<Rightarrow> ConnectionEvent list option" where
  "monitor_eventLoop equals loop_conn es conn =
     (case clientFilter_Recv equals monitor_wanted es conn of
        None \<Rightarrow> None
      | Some (Inl _) \<Rightarrow> Some [one_event UPDATE (loop_conn\<lparr>State := DOWN\<rparr>)]
      | Some (Inr (ev, conn, es')) \<Rightarrow> map_option ((#) ev) (monitor_eventLoop equals loop_conn es' conn))"
  by pat_completeness auto

lemma clientFilter_Recv_shorter: "clientFilter_Recv equals wanted es conn = Some (Inr (ev, conn', es')) \<Longrightarrow> length es' < length es"
  by (induction es arbitrary: conn) (fastforce split: option.splits if_splits)+

termination monitor_eventLoop
  by (relation "measure (\<lambda>(equals, loop_conn, es, conn). length es)") (auto dest: clientFilter_Recv_shorter)

end
