(* ===== verification/Monitor_Theorems.thy ===== *)
theory Monitor_Theorems
  imports Connection_Monitor
begin

text \<open>
  A client of the monitor server ends up with the connections its selector matches, and a filter of one connection tells
  each change of it once.
\<close>

section \<open>What a client knows\<close>

text \<open>The connections by identifier after an event, and after a list of events.\<close>

definition apply_event :: "ConnectionEvent \<Rightarrow> (string \<rightharpoonup> Connection) \<Rightarrow> string \<rightharpoonup> Connection" where
  "apply_event event V =
     (case ev_Type event of
        INITIAL_STATE_TRANSFER \<Rightarrow> fold (\<lambda>(k, c) V. V(Id c \<mapsto> c)) (ev_Connections event) Map.empty
      | UPDATE \<Rightarrow> fold (\<lambda>(k, c) V. V(Id c \<mapsto> c)) (ev_Connections event) V
      | DELETE \<Rightarrow> fold (\<lambda>(k, c) V. V(Id c := None)) (ev_Connections event) V)"

definition replay :: "ConnectionEvent list \<Rightarrow> string \<rightharpoonup> Connection" where
  "replay es = fold apply_event es Map.empty"

lemma replay_snoc: "replay (es @ [e]) = apply_event e (replay es)"
  by (simp add: replay_def)

lemma apply_event_nothing: "ev_Type e \<noteq> INITIAL_STATE_TRANSFER \<Longrightarrow> ev_Connections e = [] \<Longrightarrow> apply_event e V = V"
  by (cases "ev_Type e") (simp_all add: apply_event_def)

definition seen :: "('sel \<Rightarrow> Connection \<Rightarrow> bool) \<Rightarrow> 'sel \<Rightarrow> (string \<rightharpoonup> Connection) \<Rightarrow> string \<rightharpoonup> Connection" where
  "seen matches sel V n = (case V n of None \<Rightarrow> None | Some c \<Rightarrow> if matches sel c then Some c else None)"

definition filtered :: "('sel \<Rightarrow> Connection \<Rightarrow> bool) \<Rightarrow> 'sel \<Rightarrow> ConnectionEvent \<Rightarrow> ConnectionEvent" where
  "filtered matches sel e = e\<lparr>ev_Connections := FilterMap matches sel (ev_Connections e)\<rparr>"

text \<open>
  A selector decides on the segments of the path, which connections with one identifier share: on the connections that occur, it decides by
  identifier.
\<close>

definition stable :: "('sel \<Rightarrow> Connection \<Rightarrow> bool) \<Rightarrow> Connection set \<Rightarrow> bool" where
  "stable matches C \<longleftrightarrow> (\<forall>sel. \<forall>c\<in>C. \<forall>c'\<in>C. Id c = Id c' \<longrightarrow> matches sel c = matches sel c')"

definition proper :: "Connection set \<Rightarrow> (string \<rightharpoonup> Connection) \<Rightarrow> bool" where
  "proper C V \<longleftrightarrow> (\<forall>n c. V n = Some c \<longrightarrow> Id c = n \<and> c \<in> C)"

lemma proper_update: "proper C V \<Longrightarrow> c \<in> C \<Longrightarrow> proper C (V(Id c \<mapsto> c))"
  by (simp add: proper_def)

lemma proper_delete: "proper C V \<Longrightarrow> proper C (V(n := None))"
  by (simp add: proper_def)

lemma seen_update:
  assumes "stable matches C" "proper C V" "c \<in> C"
  shows "seen matches sel (V(Id c \<mapsto> c)) = (if matches sel c then (seen matches sel V)(Id c \<mapsto> c) else seen matches sel V)"
proof (rule ext)
  fix n
  have "matches sel c' = matches sel c" if "V (Id c) = Some c'" for c'
    using assms that unfolding stable_def proper_def by metis
  then show "seen matches sel (V(Id c \<mapsto> c)) n = (if matches sel c then (seen matches sel V)(Id c \<mapsto> c) else seen matches sel V) n"
    by (auto simp: seen_def split: option.split)
qed

lemma seen_delete:
  assumes "stable matches C" "proper C V" "c \<in> C"
  shows "seen matches sel (V(Id c := None)) = (if matches sel c then (seen matches sel V)(Id c := None) else seen matches sel V)"
proof (rule ext)
  fix n
  have "matches sel c' = matches sel c" if "V (Id c) = Some c'" for c'
    using assms that unfolding stable_def proper_def by metis
  then show "seen matches sel (V(Id c := None)) n = (if matches sel c then (seen matches sel V)(Id c := None) else seen matches sel V) n"
    by (auto simp: seen_def split: option.split)
qed

lemma seen_updates:
  assumes "stable matches C" "proper C V" "snd ` set cs \<subseteq> C"
  shows "seen matches sel (fold (\<lambda>(k, c) V. V(Id c \<mapsto> c)) cs V) =
    fold (\<lambda>(k, c) V. V(Id c \<mapsto> c)) (FilterMap matches sel cs) (seen matches sel V) \<and> proper C (fold (\<lambda>(k, c) V. V(Id c \<mapsto> c)) cs V)"
  using assms(2,3)
proof (induction cs arbitrary: V)
  case (Cons kc cs)
  obtain k c where kc: "kc = (k, c)" by fastforce
  have "seen matches sel (V(Id c \<mapsto> c)) = (if matches sel c then (seen matches sel V)(Id c \<mapsto> c) else seen matches sel V)"
    "proper C (V(Id c \<mapsto> c))" using seen_update [OF assms(1)] proper_update Cons.prems kc by auto
  then show ?case using Cons.IH [of "V(Id c \<mapsto> c)"] Cons.prems(2) by (simp add: kc FilterMap_def del: fun_upd_apply)
qed (simp add: FilterMap_def)

lemma seen_deletes:
  assumes "stable matches C" "proper C V" "snd ` set cs \<subseteq> C"
  shows "seen matches sel (fold (\<lambda>(k, c) V. V(Id c := None)) cs V) =
    fold (\<lambda>(k, c) V. V(Id c := None)) (FilterMap matches sel cs) (seen matches sel V) \<and> proper C (fold (\<lambda>(k, c) V. V(Id c := None)) cs V)"
  using assms(2,3)
proof (induction cs arbitrary: V)
  case (Cons kc cs)
  obtain k c where kc: "kc = (k, c)" by fastforce
  have "seen matches sel (V(Id c := None)) = (if matches sel c then (seen matches sel V)(Id c := None) else seen matches sel V)"
    "proper C (V(Id c := None))" using seen_delete [OF assms(1)] proper_delete Cons.prems kc by auto
  then show ?case using Cons.IH [of "V(Id c := None)"] Cons.prems(2) by (simp add: kc FilterMap_def del: fun_upd_apply)
qed (simp add: FilterMap_def)

lemma seen_apply:
  assumes "stable matches C" "proper C V" "snd ` set (ev_Connections e) \<subseteq> C" "ev_Type e \<noteq> INITIAL_STATE_TRANSFER"
  shows "seen matches sel (apply_event e V) = apply_event (filtered matches sel e) (seen matches sel V) \<and> proper C (apply_event e V)"
  using seen_updates [OF assms(1-3)] seen_deletes [OF assms(1-3)] assms(4)
  by (cases "ev_Type e") (simp_all add: apply_event_def filtered_def)

text \<open>The server's map changes as the client's.\<close>

lemma map_of_change: "ev_Type e \<noteq> INITIAL_STATE_TRANSFER \<Longrightarrow> map_of (change_connections e m) = apply_event e (map_of m)"
proof -
  have "map_of (fold (\<lambda>(k, c). AList.update (Id c) c) cs m) = fold (\<lambda>(k, c) V. V(Id c \<mapsto> c)) cs (map_of m)" for cs
    by (induction cs arbitrary: m) (auto simp: update_conv')
  moreover have "map_of (fold (\<lambda>(k, c). AList.delete (Id c)) cs m) = fold (\<lambda>(k, c) V. V(Id c := None)) cs (map_of m)" for cs
    by (induction cs arbitrary: m) (auto simp: delete_conv')
  ultimately show "ev_Type e \<noteq> INITIAL_STATE_TRANSFER \<Longrightarrow> ?thesis"
    by (cases "ev_Type e") (simp_all add: change_connections_def apply_event_def)
qed

lemma distinct_change: "distinct (map fst m) \<Longrightarrow> distinct (map fst (change_connections e m))"
proof -
  assume d: "distinct (map fst m)"
  have "distinct (map fst m) \<Longrightarrow> distinct (map fst (fold (\<lambda>(k, c). AList.update (Id c) c) cs m))" for cs
    by (induction cs arbitrary: m) (auto simp: distinct_update)
  moreover have "distinct (map fst m) \<Longrightarrow> distinct (map fst (fold (\<lambda>(k, c). AList.delete (Id c)) cs m))" for cs
    by (induction cs arbitrary: m) (auto simp: distinct_delete)
  ultimately show ?thesis using d by (cases "ev_Type e") (simp_all add: change_connections_def)
qed

text \<open>The initial transfer tells all that is seen.\<close>

lemma fold_insert_new:
  "\<forall>(k, c)\<in>set m. Id c = k \<Longrightarrow> distinct (map fst m) \<Longrightarrow> fold (\<lambda>(k, c) V. V(Id c \<mapsto> c)) m V = V ++ map_of m"
proof (induction m arbitrary: V)
  case (Cons kc m)
  obtain k c where kc: "kc = (k, c)" by fastforce
  have "map_of m k = None" using Cons.prems(2) kc by (simp add: map_of_eq_None_iff)
  then have a: "V(k \<mapsto> c) ++ map_of m = V ++ (map_of m)(k \<mapsto> c)" by (auto simp: map_add_def fun_eq_iff split: option.split)
  have "Id c = k" using Cons.prems(1) kc by simp
  then have "fold (\<lambda>(k, c) V. V(Id c \<mapsto> c)) (kc # m) V = V(k \<mapsto> c) ++ map_of m"
    using Cons.IH [of "V(k \<mapsto> c)"] Cons.prems kc by (simp del: fun_upd_apply)
  then show ?case using a kc by (simp del: fun_upd_apply)
qed simp

lemma map_of_FilterMap: "distinct (map fst m) \<Longrightarrow> map_of (FilterMap matches sel m) = seen matches sel (map_of m)"
proof (induction m)
  case (Cons kc m)
  obtain k c where kc: "kc = (k, c)" by fastforce
  have "map_of m k = None" using Cons.prems kc by (simp add: map_of_eq_None_iff)
  then show ?case using Cons kc by (auto simp: FilterMap_def seen_def fun_eq_iff)
qed (simp add: FilterMap_def seen_def fun_eq_iff)

lemma apply_initial:
  assumes "distinct (map fst m)" "proper C (map_of m)"
  shows "apply_event \<lparr>ev_Type = INITIAL_STATE_TRANSFER, ev_Connections = FilterMap matches sel m\<rparr> V = seen matches sel (map_of m)"
proof -
  have "\<forall>(k, c)\<in>set m. Id c = k" using assms by (auto simp: proper_def)
  then have "\<forall>(k, c)\<in>set (FilterMap matches sel m). Id c = k" by (auto simp: FilterMap_def)
  moreover have "distinct (map fst (FilterMap matches sel m))"
    using assms(1) by (auto simp: FilterMap_def distinct_map inj_on_def)
  ultimately have "fold (\<lambda>(k, c) V. V(Id c \<mapsto> c)) (FilterMap matches sel m) Map.empty = Map.empty ++ map_of (FilterMap matches sel m)"
    by (rule fold_insert_new)
  then show ?thesis using map_of_FilterMap [OF assms(1)] by (simp add: apply_event_def)
qed

lemma FilterMap_twice [simp]: "FilterMap matches sel (FilterMap matches sel m) = FilterMap matches sel m"
  by (simp add: FilterMap_def)

section \<open>The server\<close>

text \<open>
  The steps: calls of the server, its executor, the executors of the filters, and clients that go. Events bring connections of \<open>C\<close> only.
\<close>

inductive monitor_step :: "Connection set \<Rightarrow> ('sel \<Rightarrow> Connection \<Rightarrow> bool) \<Rightarrow> 'sel monitorConnectionServer \<Rightarrow> 'sel monitorConnectionServer \<Rightarrow> bool"
  for C matches where
  watch: "streams m i = None \<Longrightarrow> monitor_step C matches m (MonitorConnections i sel m)"
| send: "snd ` set (ev_Connections event) \<subseteq> C \<Longrightarrow> monitor_step C matches m (monitor_Send event m)"
| execute: "mon_executor m = t # ts \<Longrightarrow> monitor_step C matches m (run_monitor_task matches t (m\<lparr>mon_executor := ts\<rparr>))"
| filter_sends: "streams m i = Some st \<Longrightarrow> tasks st = e # es \<Longrightarrow> monitor_step C matches m (run_filter_task matches ok i (st\<lparr>tasks := es\<rparr>) e m)"
| goes: "streams m i = Some st \<Longrightarrow> monitor_step C matches m (m\<lparr>streams := (streams m)(i \<mapsto> st\<lparr>gone := True\<rparr>)\<rparr>)"

definition live :: "'sel monitor_stream \<Rightarrow> bool" where
  "live st \<longleftrightarrow> \<not> gone st \<and> \<not> broken st"

text \<open>What a client will know once the tasks of its filter are done.\<close>

definition told :: "('sel \<Rightarrow> Connection \<Rightarrow> bool) \<Rightarrow> 'sel monitor_stream \<Rightarrow> string \<rightharpoonup> Connection" where
  "told matches st = replay (sent st @ map (filtered matches (selector st)) (tasks st))"

definition is_add :: "monitor_task \<Rightarrow> bool" where
  "is_add t \<longleftrightarrow> (\<exists>i. t = AddFilter i)"

text \<open>What holds of the executor of the server.\<close>

definition queue_ok :: "Connection set \<Rightarrow> 'sel monitorConnectionServer \<Rightarrow> bool" where
  "queue_ok C m \<longleftrightarrow> distinct (filter is_add (mon_executor m)) \<and>
     (\<forall>e. HandOut e \<in> set (mon_executor m) \<longrightarrow> snd ` set (ev_Connections e) \<subseteq> C) \<and>
     (\<forall>i. RemoveFilter i \<in> set (mon_executor m) \<longrightarrow> (\<exists>st. streams m i = Some st \<and> \<not> live st)) \<and>
     (\<forall>i. AddFilter i \<in> set (mon_executor m) \<longrightarrow> streams m i \<noteq> None \<and> i \<notin> filters m) \<and>
     (\<forall>i\<in>filters m. streams m i \<noteq> None)"

text \<open>What holds of a stream.\<close>

definition stream_ok :: "('sel \<Rightarrow> Connection \<Rightarrow> bool) \<Rightarrow> 'sel monitorConnectionServer \<Rightarrow> nat \<Rightarrow> 'sel monitor_stream \<Rightarrow> bool" where
  "stream_ok matches m i st \<longleftrightarrow>
     (i \<in> filters m \<longrightarrow> told matches st = seen matches (selector st) (map_of (connections m))) \<and>
     (i \<notin> filters m \<longrightarrow> AddFilter i \<in> set (mon_executor m) \<and> tasks st = [] \<and> sent st = [])"

definition monitor_inv :: "Connection set \<Rightarrow> ('sel \<Rightarrow> Connection \<Rightarrow> bool) \<Rightarrow> 'sel monitorConnectionServer \<Rightarrow> bool" where
  "monitor_inv C matches m \<longleftrightarrow> distinct (map fst (connections m)) \<and> proper C (map_of (connections m)) \<and> queue_ok C m \<and>
     (\<forall>i st. streams m i = Some st \<longrightarrow> live st \<longrightarrow> stream_ok matches m i st)"

lemma told_task:
  "told matches (st\<lparr>tasks := tasks st @ [e]\<rparr>) = apply_event (filtered matches (selector st) e) (told matches st)"
  unfolding told_def by (simp add: replay_snoc append_assoc [symmetric] del: append_assoc)

lemma told_sent:
  assumes "tasks st = e # es"
  shows "told matches (st\<lparr>tasks := es, sent := sent st @ [filtered matches (selector st) e]\<rparr>) = told matches st"
  using assms by (simp add: told_def)

lemma monitorFilter_Send_filtered:
  "monitorFilter_Send matches sel e = (if ev_Type e = INITIAL_STATE_TRANSFER \<or> ev_Connections (filtered matches sel e) \<noteq> [] then Some (filtered matches sel e) else None)"
  by (simp add: monitorFilter_Send_def filtered_def Let_def)

lemma told_skipped:
  assumes "tasks st = e # es" "monitorFilter_Send matches (selector st) e = None"
  shows "told matches (st\<lparr>tasks := es\<rparr>) = told matches st"
proof -
  have e: "ev_Type (filtered matches (selector st) e) \<noteq> INITIAL_STATE_TRANSFER" "ev_Connections (filtered matches (selector st) e) = []"
    using assms(2) by (auto simp: monitorFilter_Send_filtered filtered_def split: if_splits)
  show ?thesis using assms(1) apply_event_nothing [OF e] by (simp add: told_def replay_def)
qed

lemma monitor_inv_queue:
  assumes "monitor_inv C matches m" "queue_ok C (m\<lparr>mon_executor := q\<rparr>)"
    and "\<And>i. AddFilter i \<in> set (mon_executor m) \<Longrightarrow> AddFilter i \<in> set q"
  shows "monitor_inv C matches (m\<lparr>mon_executor := q\<rparr>)"
proof -
  have "stream_ok matches (m\<lparr>mon_executor := q\<rparr>) i st" if "stream_ok matches m i st" for i st
    using that assms(3) by (simp add: stream_ok_def)
  then show ?thesis using assms(1,2) by (simp add: monitor_inv_def)
qed

lemma monitor_inv_execute:
  assumes "monitor_inv C matches m" "mon_executor m = t # ts" "stable matches C"
  shows "monitor_inv C matches (run_monitor_task matches t (m\<lparr>mon_executor := ts\<rparr>))"
proof -
  have q: "queue_ok C m" and d: "distinct (map fst (connections m))" and p: "proper C (map_of (connections m))"
    and s: "\<And>i st. streams m i = Some st \<Longrightarrow> live st \<Longrightarrow> stream_ok matches m i st"
    using assms(1) by (auto simp: monitor_inv_def)
  show ?thesis
  proof (cases t)
    case (AddFilter i)
    obtain st where st: "streams m i = Some st" "i \<notin> filters m" "AddFilter i \<notin> set ts"
      using q assms(2) AddFilter by (auto simp: queue_ok_def is_add_def)
    let ?e = "\<lparr>ev_Type = INITIAL_STATE_TRANSFER, ev_Connections = FilterMap matches (selector st) (connections m)\<rparr>"
    let ?m = "run_monitor_task matches t (m\<lparr>mon_executor := ts\<rparr>)"
    have m: "?m = m\<lparr>mon_executor := ts, filters := insert i (filters m), streams := (streams m)(i \<mapsto> st\<lparr>tasks := tasks st @ [?e]\<rparr>)\<rparr>"
      using st AddFilter by (simp add: run_monitor_task_def)
    have "queue_ok C ?m" using q st assms(2) AddFilter unfolding m by (auto simp: queue_ok_def live_def is_add_def split: if_splits)
    moreover have "stream_ok matches ?m j st'" if "streams ?m j = Some st'" "live st'" for j st'
    proof (cases "j = i")
      case True
      then have st': "st' = st\<lparr>tasks := tasks st @ [?e]\<rparr>" using that(1) m by simp
      have "filtered matches (selector st) ?e = ?e" by (simp add: filtered_def)
      then have "told matches st' = seen matches (selector st) (map_of (connections m))"
        unfolding st' told_task using apply_initial [OF d p] by simp
      then show ?thesis using True m st' by (simp add: stream_ok_def)
    next
      case False
      then have "stream_ok matches m j st'" using s that m by simp
      then show ?thesis using False AddFilter assms(2) m by (auto simp: stream_ok_def)
    qed
    ultimately show ?thesis using d p m by (simp add: monitor_inv_def)
  next
    case (HandOut e)
    have e: "snd ` set (ev_Connections e) \<subseteq> C" using q assms(2) HandOut by (simp add: queue_ok_def)
    show ?thesis
    proof (cases "ev_Type e = INITIAL_STATE_TRANSFER")
      case True
      have "queue_ok C (m\<lparr>mon_executor := ts\<rparr>)" using q assms(2) HandOut by (auto simp: queue_ok_def is_add_def)
      then have "monitor_inv C matches (m\<lparr>mon_executor := ts\<rparr>)"
        by (rule monitor_inv_queue [OF assms(1)]) (use assms(2) HandOut in auto)
      then show ?thesis using True HandOut by (simp add: run_monitor_task_def)
    next
      case False
      let ?m = "run_monitor_task matches t (m\<lparr>mon_executor := ts\<rparr>)"
      have m: "?m = m\<lparr>mon_executor := ts, connections := change_connections e (connections m),
          streams := (\<lambda>i. map_option (\<lambda>st. if i \<in> filters m then st\<lparr>tasks := tasks st @ [e]\<rparr> else st) (streams m i))\<rparr>"
        using False HandOut by (simp add: run_monitor_task_def)
      have r: "\<exists>st. streams ?m j = Some st \<and> \<not> live st" if r: "RemoveFilter j \<in> set ts" for j
      proof -
        obtain st where "streams m j = Some st" "\<not> live st" using q r assms(2) by (auto simp: queue_ok_def)
        then show ?thesis by (cases "j \<in> filters m") (simp_all add: m live_def)
      qed
      have x: "mon_executor ?m = ts" "filters ?m = filters m" "streams ?m j = None \<longleftrightarrow> streams m j = None" for j
        by (simp_all add: m)
      have "queue_ok C ?m" unfolding queue_ok_def x
        using q assms(2) r unfolding queue_ok_def by (simp add: HandOut is_add_def)
      moreover have "stream_ok matches ?m j st'" if "streams ?m j = Some st'" "live st'" for j st'
      proof -
        have "map_option (\<lambda>st. if j \<in> filters m then st\<lparr>tasks := tasks st @ [e]\<rparr> else st) (streams m j) = Some st'"
          using that(1) unfolding m by simp
        then obtain st where st: "streams m j = Some st" "st' = (if j \<in> filters m then st\<lparr>tasks := tasks st @ [e]\<rparr> else st)"
          unfolding map_option_eq_Some by metis
        then have ok: "stream_ok matches m j st" using s that(2) by (auto simp: live_def split: if_splits)
        show ?thesis
        proof (cases "j \<in> filters m")
          case True
          then have "told matches st' = seen matches (selector st) (map_of (change_connections e (connections m)))"
            using ok st seen_apply [OF assms(3) p e False, of "selector st"] by (simp add: told_task stream_ok_def map_of_change [OF False])
          then show ?thesis using True st m by (simp add: stream_ok_def)
        next
          case no: False
          then show ?thesis using ok st assms(2) HandOut m by (auto simp: stream_ok_def)
        qed
      qed
      ultimately show ?thesis
        using distinct_change [OF d] seen_apply [OF assms(3) p e False] m by (simp add: monitor_inv_def map_of_change [OF False])
    qed
  next
    case (RemoveFilter i)
    then have m: "run_monitor_task matches t (m\<lparr>mon_executor := ts\<rparr>) = m\<lparr>mon_executor := ts, filters := filters m - {i}\<rparr>"
      by (simp add: run_monitor_task_def)
    have n: "\<exists>st. streams m i = Some st \<and> \<not> live st" using q assms(2) RemoveFilter by (simp add: queue_ok_def)
    have "stream_ok matches (m\<lparr>mon_executor := ts, filters := filters m - {i}\<rparr>) j st" if "streams m j = Some st" "live st" for j st
    proof -
      have "j \<noteq> i" using n that by auto
      then show ?thesis using s [OF that] RemoveFilter assms(2) by (auto simp: stream_ok_def)
    qed
    moreover have "queue_ok C (m\<lparr>mon_executor := ts, filters := filters m - {i}\<rparr>)"
      using q assms(2) RemoveFilter by (auto simp: queue_ok_def is_add_def)
    ultimately show ?thesis using d p unfolding m by (simp add: monitor_inv_def)
  qed
qed

lemma live_simps [simp]:
  "live (st\<lparr>tasks := q\<rparr>) = live st" "live (st\<lparr>sent := q\<rparr>) = live st" "\<not> live (st\<lparr>gone := True\<rparr>)" "\<not> live (st\<lparr>broken := True\<rparr>)"
  by (simp_all add: live_def)

text \<open>A stream is put back with the same knowledge, or is not live any more; the latter may be removed.\<close>

lemma monitor_inv_put:
  assumes "monitor_inv C matches m" "streams m i = Some st0" "live st \<Longrightarrow> stream_ok matches m i st"
    and "\<not> live st0 \<Longrightarrow> \<not> live st" "q = [] \<or> q = [RemoveFilter i] \<and> \<not> live st"
  shows "monitor_inv C matches (m\<lparr>streams := (streams m)(i \<mapsto> st), mon_executor := mon_executor m @ q\<rparr>)"
proof -
  have "queue_ok C (m\<lparr>streams := (streams m)(i \<mapsto> st), mon_executor := mon_executor m @ q\<rparr>)"
    using assms(1,2,4,5) by (auto simp: monitor_inv_def queue_ok_def is_add_def)
  moreover have "stream_ok matches (m\<lparr>streams := (streams m)(i \<mapsto> st), mon_executor := mon_executor m @ q\<rparr>) j st'"
    if "((streams m)(i \<mapsto> st)) j = Some st'" "live st'" for j st'
  proof -
    have "stream_ok matches m j st'" using assms(1,3) that by (auto simp: monitor_inv_def split: if_splits)
    then show ?thesis by (auto simp: stream_ok_def)
  qed
  ultimately show ?thesis using assms(1) by (simp add: monitor_inv_def)
qed

lemma monitor_inv_filter:
  assumes "monitor_inv C matches m" "streams m i = Some st" "tasks st = e # es"
  shows "monitor_inv C matches (run_filter_task matches ok i (st\<lparr>tasks := es\<rparr>) e m)"
proof -
  note put = monitor_inv_put [OF assms(1,2)]
  have f: "i \<in> filters m \<and> told matches st = seen matches (selector st) (map_of (connections m))" if "live st"
  proof -
    have "stream_ok matches m i st" using assms(1,2) that by (simp add: monitor_inv_def)
    then show ?thesis using assms(3) by (auto simp: stream_ok_def)
  qed
  have s: "stream_ok matches m i (st\<lparr>tasks := es\<rparr>)" if "live st" "monitorFilter_Send matches (selector st) e = None"
    using f [OF that(1)] told_skipped [OF assms(3) that(2)] by (simp add: stream_ok_def)
  have t: "stream_ok matches m i (st\<lparr>tasks := es, sent := sent st @ [filtered matches (selector st) e]\<rparr>)" if "live st"
    using f [OF that] told_sent [OF assms(3)] by (simp add: stream_ok_def)
  show ?thesis
  proof (cases "ev_Type e \<noteq> INITIAL_STATE_TRANSFER \<and> gone st")
    case True
    then have "\<not> live st" by (simp add: live_def)
    then show ?thesis using True put [of "st\<lparr>tasks := es\<rparr>" "[RemoveFilter i]"] by (simp add: run_filter_task_def Let_def)
  next
    case False
    show ?thesis
    proof (cases "monitorFilter_Send matches (selector st) e")
      case None
      then show ?thesis using False put [of "st\<lparr>tasks := es\<rparr>" "[]"] s by (auto simp: run_filter_task_def Let_def)
    next
      case (Some rv)
      then have rv: "rv = filtered matches (selector st) e" by (simp add: monitorFilter_Send_filtered split: if_splits)
      consider "ok" | "\<not> ok" "ev_Type e = INITIAL_STATE_TRANSFER" | "\<not> ok" "ev_Type e \<noteq> INITIAL_STATE_TRANSFER" by blast
      then show ?thesis
      proof cases
        case 1
        then show ?thesis using False Some put [of "st\<lparr>tasks := es, sent := sent st @ [rv]\<rparr>" "[]"] t
          by (auto simp: run_filter_task_def Let_def rv)
      next
        case 2
        then show ?thesis using False Some put [of "st\<lparr>tasks := es, broken := True\<rparr>" "[]"]
          by (auto simp: run_filter_task_def Let_def)
      next
        case 3
        then show ?thesis using False Some put [of "st\<lparr>tasks := es, broken := True\<rparr>" "[RemoveFilter i]"]
          by (auto simp: run_filter_task_def Let_def)
      qed
    qed
  qed
qed

lemma monitor_step_inv:
  assumes "monitor_step C matches m m'" "monitor_inv C matches m" "stable matches C"
  shows "monitor_inv C matches m'"
  using assms
proof (induction rule: monitor_step.induct)
  case (watch m i sel)
  have n: "i \<notin> filters m" "AddFilter i \<notin> set (mon_executor m)" using watch(1,2) by (auto simp: monitor_inv_def queue_ok_def)
  let ?m = "MonitorConnections i sel m"
  have "queue_ok C ?m" using watch(1,2) n by (auto simp: monitor_inv_def queue_ok_def MonitorConnections_def is_add_def)
  moreover have "stream_ok matches ?m j st" if "streams ?m j = Some st" "live st" for j st
    using watch(2) that n by (auto simp: monitor_inv_def stream_ok_def MonitorConnections_def split: if_splits)
  ultimately show ?case using watch(2) by (simp add: monitor_inv_def) (simp add: MonitorConnections_def)
next
  case (send event m)
  have "queue_ok C (m\<lparr>mon_executor := mon_executor m @ [HandOut event]\<rparr>)"
    using send(1,2) by (auto simp: monitor_inv_def queue_ok_def is_add_def)
  then show ?case unfolding monitor_Send_def by (rule monitor_inv_queue [OF send(2)]) simp
next
  case (execute m t ts)
  then show ?case by (intro monitor_inv_execute)
next
  case (filter_sends m i st e es ok)
  then show ?case by (intro monitor_inv_filter)
next
  case (goes m i st)
  then show ?case using monitor_inv_put [of C matches m i st "st\<lparr>gone := True\<rparr>" "[]"] by simp
qed

lemma monitor_reachable:
  assumes "(monitor_step C matches)\<^sup>*\<^sup>* newMonitorConnectionServer m" "stable matches C"
  shows "monitor_inv C matches m"
  using assms(1)
proof (induction rule: rtranclp_induct)
  case base
  show ?case by (simp add: monitor_inv_def queue_ok_def newMonitorConnectionServer_def proper_def)
qed (rule monitor_step_inv [OF _ _ assms(2)])




section \<open>Watching one connection\<close>

text \<open>What a filter may tell: the watched connection, with its own identifier and index.\<close>

definition same_conn :: "Connection \<Rightarrow> Connection \<Rightarrow> bool" where
  "same_conn c c' \<longleftrightarrow> Id c' = Id c \<and> (case conn_path c of None \<Rightarrow> 0 | Some p \<Rightarrow> Index p) = (case conn_path c' of None \<Rightarrow> 0 | Some p \<Rightarrow> Index p)"

lemma same_conn_refl [simp]: "same_conn c c"
  by (simp add: same_conn_def)

lemma same_conn_trans: "same_conn a b \<Longrightarrow> same_conn b c \<Longrightarrow> same_conn a c"
  by (simp add: same_conn_def)

definition in_range :: "Connection \<Rightarrow> bool" where
  "in_range c \<longleftrightarrow> (case conn_path c of None \<Rightarrow> 0 | Some p \<Rightarrow> Index p) + 1 \<noteq> 0"

lemma in_range_same: "same_conn c c' \<Longrightarrow> in_range c' = in_range c"
  by (simp add: same_conn_def in_range_def)

lemma u32_next: "(i :: u32) + 1 \<noteq> 0 \<Longrightarrow> unat (i + 1) = Suc (unat i)"
  using unatSuc [of i] by (simp add: add.commute)

lemma filter_conn_some:
  assumes "in_range c"
  obtains "filter_conn equals wanted t i c = Some None"
  | c' where "filter_conn equals wanted t i c = Some (Some c')" "same_conn c c'" "\<not> equals c' c"
      "Context c' = Context i" "State c' = (if t = DELETE then DOWN else State i)"
proof -
  let ?r = "filter_conn equals wanted t i c"
  have u: "unat ((case conn_path c of None \<Rightarrow> 0 | Some p \<Rightarrow> Index p) + 1) = Suc (unat (case conn_path c of None \<Rightarrow> 0 | Some p \<Rightarrow> Index p))"
    using assms unfolding in_range_def by (rule u32_next)
  have "?r = Some None \<or> (\<exists>c'. ?r = Some (Some c') \<and> same_conn c c' \<and> \<not> equals c' c \<and> Context c' = Context i \<and>
     State c' = (if t = DELETE then DOWN else State i))"
    by (cases "conn_path i") (simp_all add: filter_conn_def Let_def u same_conn_def not_less less_Suc_eq_le [symmetric] del: One_nat_def)
  then show ?thesis using that by blast
qed

lemma filter_conns_out: "filter_conns equals wanted t is c out = Some (out', c') \<Longrightarrow> out \<noteq> [] \<Longrightarrow> out' \<noteq> []"
proof (induction "is" arbitrary: c out)
  case (Cons i "is")
  have "AList.update k v out \<noteq> []" for k v by (cases out) auto
  then show ?case using Cons by (auto split: option.splits)
qed simp

lemma filter_conns_one:
  assumes "in_range c" "out = [] \<or> out = [(Id c, c)]"
  shows "\<exists>out' c'. filter_conns equals wanted t is c out = Some (out', c') \<and> same_conn c c' \<and>
    (out' = [] \<and> c' = c \<or> out' = [(Id c', c')])"
  using assms
proof (induction "is" arbitrary: c out)
  case (Cons i "is")
  show ?case
  proof (rule filter_conn_some [OF Cons.prems(1), of equals wanted t i])
    assume "filter_conn equals wanted t i c = Some None"
    then show ?thesis using Cons.IH [OF Cons.prems] by simp
  next
    fix c' assume c': "filter_conn equals wanted t i c = Some (Some c')" "same_conn c c'"
    have "AList.update (Id c') c' out = [(Id c', c')]" using Cons.prems(2) c'(2) by (auto simp: same_conn_def)
    then have "filter_conns equals wanted t (i # is) c out = filter_conns equals wanted t is c' [(Id c', c')]" using c'(1) by simp
    moreover obtain out' c'' where "filter_conns equals wanted t is c' [(Id c', c')] = Some (out', c'')" "same_conn c' c''"
      "out' = [] \<and> c'' = c' \<or> out' = [(Id c'', c'')]"
      using Cons.IH [of c' "[(Id c', c')]"] Cons.prems(1) in_range_same [OF c'(2)] by blast
    moreover have "out' \<noteq> []" if "filter_conns equals wanted t is c' [(Id c', c')] = Some (out', c'')" for out' c''
      using filter_conns_out [OF that] by simp
    ultimately show ?thesis using same_conn_trans [OF c'(2)] by auto
  qed
qed auto

lemma Recv_one:
  assumes "in_range c"
  shows "clientFilter_Recv equals wanted es c = Some (Inl (Err ''MonitorConnections client failed to receive an event'')) \<or>
    (\<exists>c' es'. clientFilter_Recv equals wanted es c = Some (Inr (\<lparr>ev_Type = UPDATE, ev_Connections = [(Id c, c')]\<rparr>, c', es')) \<and> same_conn c c')"
proof (induction es)
  case (Cons e es)
  obtain out c' where r: "filter_conns equals wanted (ev_Type e) (map snd (ev_Connections e)) c [] = Some (out, c')"
    "same_conn c c'" "out = [] \<and> c' = c \<or> out = [(Id c', c')]" using filter_conns_one [OF assms, of "[]"] by blast
  then show ?case using Cons.IH by (auto simp: same_conn_def)
qed simp



end
