(* ===== verification/Heal_Loop.thy ===== *)
theory Heal_Loop
  imports Connection_Monitor
begin

text \<open>
  \<^verbatim>\<open>networkservice/common/heal\<close>: the client element that watches the control plane and the data plane of a connection in an event loop
  and requests the connection again when one of them is down.
\<close>

section \<open>The event loop\<close>

text \<open>
  What \<^verbatim>\<open>Recv\<close> returns: an event, or an error with the information whether its status code is \<^verbatim>\<open>Canceled\<close>. A monitoring goroutine
  puts a value into its channel to say that healing has to stop, or closes it empty to start it.
\<close>

datatype recv_result = Received ConnectionEvent | Failed bool

datatype verdict = Stop | Heal

definition reported_state :: "string \<Rightarrow> ConnectionEvent \<Rightarrow> conn_state" where
  "reported_state n ev = (case map_of (ev_Connections ev) n of None \<Rightarrow> UP | Some c \<Rightarrow> State c)"

text \<open>
  \<^verbatim>\<open>monitorCtrlPlane\<close> on what it receives, each with the information whether one of the contexts is done by then; \<open>None\<close> while it waits.
\<close>

fun monitorCtrlPlane :: "string \<Rightarrow> (recv_result \<times> bool) list \<Rightarrow> verdict option" where
  "monitorCtrlPlane n [] = None"
| "monitorCtrlPlane n ((r, ctx_done) # rs) =
     (if ctx_done then Some Stop
      else case r of
        Failed canceled \<Rightarrow> Some (if canceled then Stop else Heal)
      | Received ev \<Rightarrow> if reported_state n ev = DOWN then Some Heal else monitorCtrlPlane n rs)"

text \<open>\<^verbatim>\<open>monitorDataPlane\<close> on the results of its checks, until the loop is cancelled.\<close>

datatype tick = Tick bool | Cancelled

fun monitorDataPlane :: "tick list \<Rightarrow> verdict option" where
  "monitorDataPlane [] = None"
| "monitorDataPlane (Cancelled # ts) = Some Stop"
| "monitorDataPlane (Tick alive # ts) = (if alive then monitorDataPlane ts else Some Heal)"

text \<open>
  What the \<^verbatim>\<open>select\<close> of \<^verbatim>\<open>waitForEvents\<close> took. The results say whether the loop is cancelled, whether to select the endpoint again, and what
  the channel \<^verbatim>\<open>healingStartedCh\<close> held before it was closed. \<open>has_check\<close>: there is a liveness check, and so a data plane channel.
\<close>

datatype ready = CtrlPlane verdict | DataPlane verdict | ContextDone

definition waitForEvents :: "bool \<Rightarrow> ready \<Rightarrow> bool \<times> bool \<times> bool option" where
  "waitForEvents has_check r =
     (case r of
        CtrlPlane Stop \<Rightarrow> (True, False, None)
      | CtrlPlane Heal \<Rightarrow> (False, \<not> has_check, Some True)
      | DataPlane Stop \<Rightarrow> (True, False, None)
      | DataPlane Heal \<Rightarrow> (False, True, Some True)
      | ContextDone \<Rightarrow> (True, False, None))"

text \<open>
  The rounds of healing, over a state of the world that says whether the context of the chain is done, whether the connection is alive
  and how a request ends. The result has the options to reselect of the requests made. A nil liveness check that is called is a panic.
\<close>

datatype heal_end = Healed | ChainDone | HealPanic

definition force_check :: "('s \<Rightarrow> bool \<times> 's) option \<Rightarrow> bool \<times> 's \<Rightarrow> bool \<times> 's" where
  "force_check livenessCheck = (\<lambda>(reselect, s). if reselect then (True, s) else case the livenessCheck s of (alive, s) \<Rightarrow> (\<not> alive, s))"

partial_function (option) heal_rounds ::
  "('s \<Rightarrow> bool) \<Rightarrow> ('s \<Rightarrow> bool \<times> 's) option \<Rightarrow> (bool \<Rightarrow> 's \<Rightarrow> nsm_error option \<times> 's) \<Rightarrow> bool \<Rightarrow> 's \<Rightarrow> (heal_end \<times> bool list \<times> 's) option" where
  "heal_rounds chain_done livenessCheck request reselect s =
     (if chain_done s then Some (ChainDone, [], s)
      else if \<not> reselect \<and> livenessCheck = None then Some (HealPanic, [], s)
      else
        (let (reselect, s) = force_check livenessCheck (reselect, s) in
         case request reselect s of
           (None, s) \<Rightarrow> Some (Healed, [reselect], s)
         | (Some e, s) \<Rightarrow>
             Option.bind (heal_rounds chain_done livenessCheck request reselect s) (\<lambda>(e, made, s). Some (e, reselect # made, s))))"

definition heal_eventLoop ::
  "('s \<Rightarrow> bool) \<Rightarrow> ('s \<Rightarrow> bool \<times> 's) option \<Rightarrow> (bool \<Rightarrow> 's \<Rightarrow> nsm_error option \<times> 's) \<Rightarrow> ready \<Rightarrow> 's \<Rightarrow> (heal_end \<times> bool list \<times> 's) option option" where
  "heal_eventLoop chain_done livenessCheck request r s =
     (case waitForEvents (livenessCheck \<noteq> None) r of
        (True, _) \<Rightarrow> None
      | (False, reselect, _) \<Rightarrow> Some (heal_rounds chain_done livenessCheck request reselect s))"

section \<open>The client\<close>

text \<open>
  The handle of an event loop in the metadata of the connection; without an event factory there is no loop and its channel is nil. Loops are numbered in
  the order they were started and have the connection they watch.
\<close>

record heal_client =
  handle :: "nat option option"
  loops :: "Connection list"
  cancelled :: "nat set"

definition heal_init :: heal_client where
  "heal_init = \<lparr>handle = None, loops = [], cancelled = {}\<rparr>"

text \<open>
  The environment: whether there is a client connection, an event factory, and whether the monitor client can be opened; the
  last two depend on the state of the world.
\<close>

record 's heal_env =
  has_clientconn :: "'s \<Rightarrow> bool"
  has_factory :: bool
  opens_monitor :: "Connection \<Rightarrow> 's \<Rightarrow> bool"

definition startEventLoop :: "'s heal_env \<Rightarrow> Connection \<Rightarrow> heal_client \<Rightarrow> 's \<Rightarrow> (nsm_error + unit) \<times> heal_client" where
  "startEventLoop env conn h s =
     (if \<not> has_clientconn env s then (Inr (), h)
      else if \<not> has_factory env then (Inr (), h\<lparr>handle := Some None\<rparr>)
      else if \<not> opens_monitor env conn s then (Inl (Err ''failed get MonitorConnections client''), h)
      else (Inr (), h\<lparr>handle := Some (Some (length (loops h))), loops := loops h @ [conn]\<rparr>))"

definition cancel_handle :: "heal_client \<Rightarrow> heal_client" where
  "cancel_handle h = (case handle h of
     None \<Rightarrow> h
   | Some None \<Rightarrow> h\<lparr>handle := None\<rparr>
   | Some (Some l) \<Rightarrow> h\<lparr>handle := None, cancelled := insert l (cancelled h)\<rparr>)"

text \<open>
  \<open>started l\<close> tells whether loop \<open>l\<close> had begun to heal when it was cancelled. \<open>None\<close>: the request waits on a nil channel for ever.
\<close>

definition heal_Request ::
  "'s heal_env \<Rightarrow> (nat \<Rightarrow> bool) \<Rightarrow> (Connection \<Rightarrow> 's \<Rightarrow> 's) \<Rightarrow> 's request_chain \<Rightarrow> NetworkServiceRequest \<Rightarrow> heal_client \<times> 's \<Rightarrow>
   ((nsm_error + Connection) \<times> heal_client \<times> 's) option" where
  "heal_Request env started close nxt request = (\<lambda>(h, s).
     case handle h of
       Some None \<Rightarrow> None
     | loopHandle \<Rightarrow>
         (let loaded = loopHandle \<noteq> None; healingStarted = (case loopHandle of Some (Some l) \<Rightarrow> started l | _ \<Rightarrow> False); h = cancel_handle h in
          Some (case nxt request s of
            (Inl Panic, s) \<Rightarrow> (Inl Panic, h, s)
          | (Inl (Err e), s) \<Rightarrow>
              if loaded \<and> \<not> healingStarted then
                (case startEventLoop env (conn_of request) h s of
                   (Inr _, h) \<Rightarrow> (Inl (Err e), h, s)
                 | (Inl _, h) \<Rightarrow> (Inl (Err e), h, close (conn_of request) s))
              else (Inl (Err e), h, s)
          | (Inr conn, s) \<Rightarrow>
              (case startEventLoop env conn h s of
                 (Inl e, h) \<Rightarrow> (Inl e, h, close conn s)
               | (Inr _, h) \<Rightarrow> (Inr conn, h, s)))))"

definition heal_Close :: "'s close_chain \<Rightarrow> Connection \<Rightarrow> heal_client \<times> 's \<Rightarrow> (nsm_error + unit) \<times> heal_client \<times> 's" where
  "heal_Close nxt conn = (\<lambda>(h, s). case nxt conn s of (r, s) \<Rightarrow> (r, cancel_handle h, s))"

section \<open>Healing\<close>

text \<open>Once a round has decided to reselect, the later ones do; there is no panic where there is a check or reselection from the start.\<close>

definition heal_ok :: "('s \<Rightarrow> bool) \<Rightarrow> bool \<Rightarrow> heal_end \<times> bool list \<times> 's \<Rightarrow> bool" where
  "heal_ok chain_done reselect = (\<lambda>(e, made, s). e \<noteq> HealPanic \<and> (\<exists>k m. made = replicate k False @ replicate m True \<and> (reselect \<longrightarrow> k = 0)) \<and>
     (e = Healed \<longrightarrow> made \<noteq> []) \<and> (e = ChainDone \<longrightarrow> chain_done s))"

lemma force_check_reselects: "force_check livenessCheck (reselect, s) = (r, s') \<Longrightarrow> reselect \<Longrightarrow> r"
  by (simp add: force_check_def)

lemma heal_ok_round: "heal_ok chain_done r (e, made, s) \<Longrightarrow> (reselect \<longrightarrow> r) \<Longrightarrow> heal_ok chain_done reselect (e, r # made, s)"
proof -
  assume ok: "heal_ok chain_done r (e, made, s)" and r: "reselect \<longrightarrow> r"
  then obtain k m where "made = replicate k False @ replicate m True" "r \<longrightarrow> k = 0" by (auto simp: heal_ok_def)
  then have "r # made = replicate (if r then 0 else Suc k) False @ replicate (if r then Suc m else m) True" by auto
  then have "\<exists>k m. r # made = replicate k False @ replicate m True \<and> (reselect \<longrightarrow> k = 0)" using r by metis
  then show ?thesis using ok by (auto simp: heal_ok_def)
qed

lemma heal_rounds_ok:
  assumes "heal_rounds chain_done livenessCheck request reselect s = Some y" "reselect \<or> livenessCheck \<noteq> None"
  shows "heal_ok chain_done reselect y"
proof -
  have "(reselect \<or> livenessCheck \<noteq> None) \<longrightarrow> heal_ok chain_done reselect y"
  proof (rule heal_rounds.raw_induct [OF _ assms(1)], goal_cases)
    case (1 g chain_done livenessCheck request reselect s y)
    obtain r s1 where f: "force_check livenessCheck (reselect, s) = (r, s1)" by fastforce
    obtain o2 s2 where q: "request r s1 = (o2, s2)" by fastforce
    show ?case
    proof (cases "chain_done s \<or> (\<not> reselect \<and> livenessCheck = None)")
      case True
      then show ?thesis using 1(2) by (auto simp: heal_ok_def split: if_splits)
    next
      case False
      show ?thesis
      proof (cases o2)
        case None
        have y: "y = (Healed, [r], s2)" using 1(2) False f q None by (auto split: if_splits)
        have "[r] = replicate (if r then 0 else 1) False @ replicate (if r then 1 else 0) True" by simp
        then have "\<exists>k m. [r] = replicate k False @ replicate m True \<and> (reselect \<longrightarrow> k = 0)" using force_check_reselects [OF f] by metis
        then show ?thesis by (simp add: heal_ok_def y)
      next
        case (Some e)
        then obtain e' made s' where g: "g chain_done livenessCheck request r s2 = Some (e', made, s')" "y = (e', r # made, s')"
          using 1(2) False f q Some by (auto simp: bind_eq_Some_iff split: if_splits)
        have "r \<or> livenessCheck \<noteq> None" using False force_check_reselects [OF f] by auto
        then have "heal_ok chain_done r (e', made, s')" using 1(1) [OF g(1)] by simp
        then have "heal_ok chain_done reselect (e', r # made, s')" by (rule heal_ok_round) (use force_check_reselects [OF f] in simp)
        then show ?thesis using g(2) by simp
      qed
    qed
  qed
  then show ?thesis using assms(2) by (cases reselect) auto
qed

text \<open>The world before each round, as long as the requests fail.\<close>

fun heal_world :: "('s \<Rightarrow> bool \<times> 's) option \<Rightarrow> (bool \<Rightarrow> 's \<Rightarrow> nsm_error option \<times> 's) \<Rightarrow> bool \<times> 's \<Rightarrow> nat \<Rightarrow> bool \<times> 's" where
  "heal_world livenessCheck request w 0 = w"
| "heal_world livenessCheck request w (Suc n) =
     heal_world livenessCheck request (case force_check livenessCheck w of (r, s) \<Rightarrow> (r, snd (request r s))) n"

lemma heal_rounds_succeed:
  assumes "reselect \<or> livenessCheck \<noteq> None"
    and "\<forall>i\<le>n. \<not> chain_done (snd (heal_world livenessCheck request (reselect, s) i))"
    and "\<forall>i<n. \<exists>e. fst (case force_check livenessCheck (heal_world livenessCheck request (reselect, s) i) of (r, s) \<Rightarrow> request r s) = Some e"
    and "fst (case force_check livenessCheck (heal_world livenessCheck request (reselect, s) n) of (r, s) \<Rightarrow> request r s) = None"
  shows "\<exists>made s'. heal_rounds chain_done livenessCheck request reselect s = Some (Healed, made, s') \<and> length made = Suc n"
  using assms
proof (induction n arbitrary: reselect s)
  case 0
  then show ?case by (subst heal_rounds.simps) (auto split: prod.splits)
next
  case (Suc n)
  obtain r s1 where f: "force_check livenessCheck (reselect, s) = (r, s1)" by fastforce
  obtain e s2 where q: "request r s1 = (Some e, s2)" using Suc.prems(3)[rule_format, of 0] f by (cases "request r s1") auto
  have w: "heal_world livenessCheck request (reselect, s) (Suc i) = heal_world livenessCheck request (r, s2) i" for i using f q by simp
  have "r \<or> livenessCheck \<noteq> None" using Suc.prems(1) force_check_reselects [OF f] by auto
  then obtain made s' where "heal_rounds chain_done livenessCheck request r s2 = Some (Healed, made, s')" "length made = Suc n"
    using Suc.IH [of r s2] Suc.prems(2-4) unfolding w [symmetric] by (metis Suc_le_mono Suc_less_eq)
  moreover have "\<not> chain_done s" using Suc.prems(2)[rule_format, of 0] by simp
  ultimately show ?case using Suc.prems(1) f q by (subst heal_rounds.simps) simp
qed


text \<open>The request of a round.\<close>

definition heal_attempt :: "('s \<Rightarrow> bool \<times> 's) option \<Rightarrow> (bool \<Rightarrow> 's \<Rightarrow> nsm_error option \<times> 's) \<Rightarrow> bool \<times> 's \<Rightarrow> nat \<Rightarrow> nsm_error option" where
  "heal_attempt livenessCheck request w n = fst (case force_check livenessCheck (heal_world livenessCheck request w n) of (r, s) \<Rightarrow> request r s)"

lemma waits_for_check: "waitForEvents (livenessCheck \<noteq> None) r = (False, reselect, x) \<Longrightarrow> reselect \<or> livenessCheck \<noteq> None"
  by (auto simp: waitForEvents_def split: ready.splits verdict.splits)

text \<open>However healing ends, it does so for a reason.\<close>

lemma heal_eventLoop_ok:
  assumes "heal_eventLoop chain_done livenessCheck request r s = Some (Some y)"
  shows "heal_ok chain_done False y"
proof -
  obtain reselect x where w: "waitForEvents (livenessCheck \<noteq> None) r = (False, reselect, x)" "heal_rounds chain_done livenessCheck request reselect s = Some y"
    using assms by (auto simp: heal_eventLoop_def split: prod.splits bool.splits)
  show ?thesis using heal_rounds_ok [OF w(2) waits_for_check [OF w(1)]] by (cases y) (auto simp: heal_ok_def)
qed



section \<open>Loops of a connection\<close>

text \<open>The loops of a connection that are not cancelled: at most the one of the handle.\<close>

definition watching :: "heal_client \<Rightarrow> nat set" where
  "watching h = {l. l < length (loops h) \<and> l \<notin> cancelled h}"

definition heal_inv :: "heal_client \<Rightarrow> bool" where
  "heal_inv h \<longleftrightarrow> watching h = (case handle h of Some (Some l) \<Rightarrow> {l} | _ \<Rightarrow> {}) \<and>
     cancelled h \<subseteq> {..<length (loops h)}"

lemma heal_inv_cancel: "heal_inv h \<Longrightarrow> heal_inv (cancel_handle h) \<and> handle (cancel_handle h) = None \<and> loops (cancel_handle h) = loops h"
proof -
  assume i: "heal_inv h"
  show ?thesis
  proof (cases "handle h")
    case (Some l)
    then show ?thesis using i by (cases l) (auto simp: heal_inv_def watching_def cancel_handle_def)
  qed (use i in \<open>auto simp: heal_inv_def watching_def cancel_handle_def\<close>)
qed

lemma heal_inv_start:
  assumes "heal_inv h" "handle h = None"
  shows "heal_inv (snd (startEventLoop env conn h s))"
proof -
  have "{l. l < Suc (length (loops h)) \<and> l \<notin> cancelled h} = {length (loops h)}" "cancelled h \<subseteq> {..<Suc (length (loops h))}"
    using assms by (auto simp: heal_inv_def watching_def less_Suc_eq)
  then show ?thesis using assms by (simp add: startEventLoop_def heal_inv_def watching_def)
qed

lemma heal_inv_Request:
  assumes "heal_inv h" "heal_Request env started close nxt request (h, s) = Some (r, h', s')"
  shows "heal_inv h'"
proof -
  note c = heal_inv_cancel [OF assms(1)]
  note st = heal_inv_start [OF conjunct1 [OF c] conjunct1 [OF conjunct2 [OF c]]]
  have *: "heal_inv h2" if "startEventLoop env conn (cancel_handle h) s2 = (x, h2)" for conn s2 x h2 using st [of env conn s2] that by simp
  show ?thesis using assms(2) c
    by (auto simp: heal_Request_def Let_def split: option.splits prod.splits sum.splits nsm_error.splits if_splits dest: *)
qed


text \<open>The requests and closes of one connection, as its element serves them, with any rest of the chain each time.\<close>

inductive heal_calls :: "'s heal_env \<Rightarrow> heal_client \<Rightarrow> bool" for env where
  init: "heal_calls env heal_init"
| request: "heal_calls env h \<Longrightarrow> heal_Request env started close nxt request (h, s) = Some (r, h', s') \<Longrightarrow> heal_calls env h'"
| close: "heal_calls env h \<Longrightarrow> heal_Close cnxt conn (h, s :: 's) = (r, h', s') \<Longrightarrow> heal_calls env h'"

text \<open>
  C17. After any requests and closes, at most one event loop of the connection is not cancelled, the one its handle names; after a close none is.
\<close>

theorem heal_one_loop:
  assumes "heal_calls env h" "heal_Close nxt conn (h, s) = (r, h', s')"
  shows "watching h = (case handle h of Some (Some l) \<Rightarrow> {l} | _ \<Rightarrow> {}) \<and> watching h' = {}"
proof -
  have i: "heal_inv h"
    using assms(1)
  proof induction
    case init
    show ?case by (simp add: heal_inv_def heal_init_def watching_def)
  next
    case (request h)
    then show ?case by (auto intro: heal_inv_Request)
  next
    case (close h)
    then show ?case using heal_inv_cancel by (auto simp: heal_Close_def split: prod.splits)
  qed
  then show ?thesis using heal_inv_cancel [OF i] assms(2) by (auto simp: heal_inv_def heal_Close_def split: prod.splits)
qed

text \<open>A connection is requested and refreshed: the loop of the refresh is watching, and a close ends it.\<close>

lemma heal_one_loop_witness:
  "\<exists>h. heal_calls \<lparr>has_clientconn = \<lambda>_ :: unit. True, has_factory = True, opens_monitor = \<lambda>_ _. True\<rparr> h \<and> watching h = {1} \<and>
     watching (fst (snd (heal_Close (\<lambda>_ s. (Inr (), s)) empty_connection (h, ())))) = {}"
proof -
  let ?env = "\<lparr>has_clientconn = \<lambda>_ :: unit. True, has_factory = True, opens_monitor = \<lambda>_ _. True\<rparr>"
  let ?req = "\<lparr>req_connection = None, MechanismPreferences = []\<rparr>" and ?nxt = "\<lambda>_ s. (Inr empty_connection, s)"
  let ?h1 = "\<lparr>handle = Some (Some 0), loops = [empty_connection], cancelled = {}\<rparr>"
  let ?h2 = "\<lparr>handle = Some (Some 1), loops = [empty_connection, empty_connection], cancelled = {0}\<rparr>"
  have "heal_calls ?env ?h1"
    by (rule heal_calls.request [OF heal_calls.init, of _ "\<lambda>_. False" "\<lambda>_ s. s" ?nxt ?req "()" "Inr empty_connection" _ "()"])
      (simp add: heal_Request_def heal_init_def startEventLoop_def cancel_handle_def Let_def)
  then have h2: "heal_calls ?env ?h2"
    by (rule heal_calls.request [of _ _ "\<lambda>_. False" "\<lambda>_ s. s" ?nxt ?req "()" "Inr empty_connection" _ "()"])
      (simp add: heal_Request_def startEventLoop_def cancel_handle_def Let_def)
  obtain r h' s' where c: "heal_Close (\<lambda>_ s. (Inr (), s)) empty_connection (?h2, ()) = (r, h', s')" using prod_cases3 by blast
  show ?thesis using heal_one_loop [OF h2 c] h2 c by (intro exI [of _ ?h2]) simp
qed

text \<open>A failed refresh goes on watching the connection, and a request without an event factory makes the next one wait for ever.\<close>

lemma heal_failed_refresh:
  assumes "handle h = Some (Some l)" "\<not> started l" "nxt request s = (Inl (Err e), s')"
    and "has_clientconn env s'" "has_factory env" "opens_monitor env (conn_of request) s'"
  shows "\<exists>h'. heal_Request env started close nxt request (h, s) = Some (Inl (Err e), h', s') \<and> handle h' = Some (Some (length (loops h))) \<and>
    loops h' = loops h @ [conn_of request]"
  using assms by (simp add: heal_Request_def Let_def startEventLoop_def cancel_handle_def)

lemma heal_waits_forever:
  assumes "handle h = None" "nxt request s = (Inr conn, s')" "has_clientconn env s'" "\<not> has_factory env"
  shows "\<exists>h'. heal_Request env started close nxt request (h, s) = Some (Inr conn, h', s') \<and>
    heal_Request env started' close' nxt' request' (h', s'') = None"
  using assms by (simp add: heal_Request_def Let_def startEventLoop_def cancel_handle_def)

end
