(* ===== verification/Cleanup_Client.thy ===== *)
theory Cleanup_Client
  imports NSM_Api
begin

text \<open>
  \<^verbatim>\<open>networkservice/common/cleanup\<close>: the client element that closes its connections when the context of the chain is done, and closes a channel
  when it has done so. The goroutines of its requests, the goroutine that waits for the context, and the executor are interleaved step by step.
\<close>

section \<open>The client\<close>

text \<open>
  A goroutine waits, has fired the close of its connection, has counted down and still has to look at the counter, or has finished.
  \<open>cancels\<close> and \<open>marks\<close> are the metadata of the connections, \<open>clientconns\<close> those that have a client connection, and
  \<open>closings\<close> counts the closures in the executor. The channel is nil, open (\<open>Some False\<close>) or closed.
\<close>

datatype cleanup_pc = Waiting | Closing | Deciding | Finished

record cleanupClient =
  ccClose :: bool
  doneCh :: "bool option"
  activeConns :: u32
  goroutines :: "(string \<times> cleanup_pc) list"
  cleanup_cancelled :: "nat set"
  cancels :: "string \<rightharpoonup> nat"
  marks :: "string set"
  clientconns :: "string set"
  chain_done :: bool
  watched :: bool
  closings :: nat

definition cleanup_NewClient :: "bool \<Rightarrow> bool \<Rightarrow> string set \<Rightarrow> cleanupClient" where
  "cleanup_NewClient close_cc has_done ccs =
     \<lparr>ccClose = close_cc, doneCh = (if has_done then Some False else None), activeConns = 0, goroutines = [], cleanup_cancelled = {},
      cancels = Map.empty, marks = {}, clientconns = ccs, chain_done = False, watched = False, closings = 0\<rparr>"

text \<open>Loading the counter: the last one asks the executor to close the channel.\<close>

definition close_if_last :: "cleanupClient \<Rightarrow> cleanupClient" where
  "close_if_last c = (if activeConns c = 0 \<and> doneCh c \<noteq> None then c\<lparr>closings := closings c + 1\<rparr> else c)"

definition cancel_stored :: "string \<Rightarrow> cleanupClient \<Rightarrow> cleanupClient" where
  "cancel_stored n c = (case cancels c n of None \<Rightarrow> c
     | Some g \<Rightarrow> c\<lparr>cancels := (cancels c)(n := None), cleanup_cancelled := insert g (cleanup_cancelled c)\<rparr>)"

text \<open>A request of the chain that has succeeded; one that fails changes nothing.\<close>

definition cleanup_Request :: "string \<Rightarrow> cleanupClient \<Rightarrow> cleanupClient" where
  "cleanup_Request n c =
     (let c = cancel_stored n (c\<lparr>activeConns := activeConns c + 1\<rparr>); g = length (goroutines c) in
      c\<lparr>cancels := (cancels c)(n \<mapsto> g), goroutines := goroutines c @ [(n, Waiting)]\<rparr>)"

definition cleanup_Close :: "string \<Rightarrow> cleanupClient \<Rightarrow> cleanupClient" where
  "cleanup_Close n c =
     (case cancels c n of None \<Rightarrow> c
      | Some g \<Rightarrow> cancel_stored n (if n \<in> marks c then c\<lparr>marks := marks c - {n}, clientconns := clientconns c - {n}\<rparr> else c))"

definition set_pc :: "nat \<Rightarrow> cleanup_pc \<Rightarrow> cleanupClient \<Rightarrow> cleanupClient" where
  "set_pc g pc c = c\<lparr>goroutines := (goroutines c)[g := (fst (goroutines c ! g), pc)]\<rparr>"

datatype cleanup_action =
  Request string | Close string | Chain_done | Watch | Take_chain nat | Closed nat | Decide nat | Take_cancel nat | Execute

definition pc_of :: "nat \<Rightarrow> cleanupClient \<Rightarrow> cleanup_pc option" where
  "pc_of g c = (if g < length (goroutines c) then Some (snd (goroutines c ! g)) else None)"

text \<open>
  One step; \<open>None\<close> if it is not enabled. The close a goroutine fires runs through the chain as \<open>Close\<close> before it returns, unless
  the connection has been closed before.
\<close>

fun cleanup_step :: "cleanup_action \<Rightarrow> cleanupClient \<Rightarrow> cleanupClient option" where
  "cleanup_step (Request n) c = Some (cleanup_Request n c)"
| "cleanup_step (Close n) c = Some (cleanup_Close n c)"
| "cleanup_step Chain_done c = Some (c\<lparr>chain_done := True\<rparr>)"
| "cleanup_step Watch c = (if chain_done c \<and> \<not> watched c then Some (close_if_last (c\<lparr>watched := True\<rparr>)) else None)"
| "cleanup_step (Take_chain g) c =
     (if pc_of g c = Some Waiting \<and> chain_done c
      then Some (set_pc g Closing (if ccClose c then c\<lparr>marks := insert (fst (goroutines c ! g)) (marks c)\<rparr> else c)) else None)"
| "cleanup_step (Closed g) c =
     (if pc_of g c = Some Closing \<and> g \<in> cleanup_cancelled c then Some (set_pc g Deciding (c\<lparr>activeConns := activeConns c - 1\<rparr>)) else None)"
| "cleanup_step (Decide g) c = (if pc_of g c = Some Deciding then Some (close_if_last (set_pc g Finished c)) else None)"
| "cleanup_step (Take_cancel g) c =
     (if pc_of g c = Some Waiting \<and> g \<in> cleanup_cancelled c then Some (set_pc g Finished (c\<lparr>activeConns := activeConns c - 1\<rparr>)) else None)"
| "cleanup_step Execute c =
     (if closings c > 0 then Some (c\<lparr>closings := closings c - 1, doneCh := map_option (\<lambda>_. True) (doneCh c)\<rparr>) else None)"

fun cleanup_run :: "cleanup_action list \<Rightarrow> cleanupClient \<Rightarrow> cleanupClient option" where
  "cleanup_run [] c = Some c"
| "cleanup_run (a # as) c = Option.bind (cleanup_step a c) (cleanup_run as)"

section \<open>The counter\<close>

definition holds :: "cleanup_pc \<Rightarrow> bool" where
  "holds pc \<longleftrightarrow> pc = Waiting \<or> pc = Closing"

definition held :: "cleanupClient \<Rightarrow> nat" where
  "held c = length (filter (holds \<circ> snd) (goroutines c))"

definition cleanup_inv :: "cleanupClient \<Rightarrow> bool" where
  "cleanup_inv c \<longleftrightarrow> activeConns c = of_nat (held c) \<and> (closings c > 0 \<or> doneCh c = Some True \<longrightarrow> chain_done c \<and> doneCh c \<noteq> None) \<and>
     (\<forall>n pc. (n, pc) \<in> set (goroutines c) \<longrightarrow> pc = Closing \<or> pc = Deciding \<longrightarrow> chain_done c) \<and>
     (\<forall>n g. cancels c n = Some g \<longrightarrow> g < length (goroutines c))"

lemma held_set_pc:
  assumes "g < length gs"
  shows "length (filter (holds \<circ> snd) (gs[g := (n, pc)])) + (if holds (snd (gs ! g)) then 1 else 0) =
    length (filter (holds \<circ> snd) gs) + (if holds pc then 1 else 0)"
proof -
  have "gs = take g gs @ gs ! g # drop (Suc g) gs" using assms by (simp add: id_take_nth_drop)
  then have "length (filter (holds \<circ> snd) gs) = length (filter (holds \<circ> snd) (take g gs @ gs ! g # drop (Suc g) gs))" by simp
  then show ?thesis using assms by (simp add: upd_conv_take_nth_drop)
qed

lemma held_moved:
  assumes "pc_of g c = Some pc0"
  shows "held (set_pc g pc c) + (if holds pc0 then 1 else 0) = held c + (if holds pc then 1 else 0)"
  using assms held_set_pc [of g "goroutines c" "fst (goroutines c ! g)" pc]
  by (auto simp: held_def set_pc_def pc_of_def split: if_splits)

lemma count_down: "Suc m = n \<Longrightarrow> of_nat m = (of_nat n :: u32) - 1"
  by auto

lemma in_set_update: "x \<in> set (xs[i := y]) \<Longrightarrow> x \<in> set xs \<or> x = y"
  using set_update_subset_insert by fastforce

lemma cleanup_inv_pc:
  assumes "cleanup_inv c" "pc_of g c = Some pc0" "pc = Closing \<or> pc = Deciding \<longrightarrow> chain_done c"
  shows "cleanup_inv ((set_pc g pc c)\<lparr>activeConns := of_nat (held (set_pc g pc c))\<rparr>)"
  using assms unfolding cleanup_inv_def set_pc_def held_def by (fastforce dest!: in_set_update)

lemma cleanup_inv_last: "cleanup_inv c \<Longrightarrow> chain_done c \<Longrightarrow> cleanup_inv (close_if_last c)"
  by (auto simp: close_if_last_def cleanup_inv_def held_def)

lemma cleanup_inv_decide: "cleanup_inv c \<Longrightarrow> chain_done (close_if_last c) = chain_done c"
  by (simp add: close_if_last_def)

lemma pc_chain_done: "cleanup_inv c \<Longrightarrow> pc_of g c = Some Deciding \<or> pc_of g c = Some Closing \<Longrightarrow> chain_done c"
  by (auto simp: cleanup_inv_def pc_of_def split: if_splits) (metis nth_mem prod.collapse)+

lemma cleanup_inv_frame: "cleanup_inv c \<Longrightarrow> cleanup_inv (c\<lparr>marks := m\<rparr>)" "cleanup_inv c \<Longrightarrow> cleanup_inv (c\<lparr>marks := m, clientconns := k\<rparr>)"
    "cleanup_inv c \<Longrightarrow> cleanup_inv (c\<lparr>chain_done := True\<rparr>)" "cleanup_inv c \<Longrightarrow> cleanup_inv (c\<lparr>watched := True\<rparr>)"
    "cleanup_inv c \<Longrightarrow> cleanup_inv (cancel_stored n c)"
  by (auto simp: cleanup_inv_def held_def cancel_stored_def split: option.splits)

lemma cleanup_inv_step:
  assumes "cleanup_step a c = Some c'" "cleanup_inv c"
  shows "cleanup_inv c'"
proof (cases a)
  case (Request n)
  have "cleanup_inv c'" if "c' = (let g = length (goroutines d) in d\<lparr>activeConns := activeConns d + 1, cancels := (cancels d)(n \<mapsto> g), goroutines := goroutines d @ [(n, Waiting)]\<rparr>)"
    "cleanup_inv d" for d
    using that by (auto simp: cleanup_inv_def held_def holds_def Let_def intro: less_SucI split: if_splits)
  moreover have "c' = (let g = length (goroutines (cancel_stored n c)) in (cancel_stored n c)\<lparr>activeConns := activeConns (cancel_stored n c) + 1,
      cancels := (cancels (cancel_stored n c))(n \<mapsto> g), goroutines := goroutines (cancel_stored n c) @ [(n, Waiting)]\<rparr>)"
    using assms(1) Request by (cases c) (auto simp: cleanup_Request_def cancel_stored_def Let_def split: option.splits)
  ultimately show ?thesis using cleanup_inv_frame(5) assms(2) by blast
next
  case (Close n)
  then show ?thesis using assms cleanup_inv_frame by (auto simp: cleanup_Close_def split: option.splits if_splits)
next
  case Chain_done
  then show ?thesis using assms cleanup_inv_frame by auto
next
  case Watch
  then show ?thesis using assms cleanup_inv_frame cleanup_inv_last by (auto split: if_splits)
next
  case (Take_chain g)
  then have p: "pc_of g c = Some Waiting" "chain_done c" using assms(1) by (auto split: if_splits)
  let ?d = "if ccClose c then c\<lparr>marks := insert (fst (goroutines c ! g)) (marks c)\<rparr> else c"
  have d: "cleanup_inv ?d" "pc_of g ?d = Some Waiting" "chain_done ?d" using assms(2) p cleanup_inv_frame by (auto simp: pc_of_def split: if_splits)
  have "held (set_pc g Closing ?d) = held ?d" using held_moved [OF d(2), of Closing] by (simp add: holds_def)
  then have "(set_pc g Closing ?d)\<lparr>activeConns := of_nat (held (set_pc g Closing ?d))\<rparr> = set_pc g Closing ?d"
    using d(1) by (simp add: cleanup_inv_def set_pc_def)
  then show ?thesis using cleanup_inv_pc [OF d(1,2), of Closing] d(3) Take_chain assms(1) p by simp
next
  case (Closed g)
  then have p: "pc_of g c = Some Closing" "chain_done c" using assms pc_chain_done by (auto split: if_splits)
  have "of_nat (held (set_pc g Deciding c)) = activeConns c - 1"
    using count_down [of "held (set_pc g Deciding c)" "held c"] held_moved [OF p(1), of Deciding] assms(2) by (simp add: holds_def cleanup_inv_def)
  then have "c' = (set_pc g Deciding c)\<lparr>activeConns := of_nat (held (set_pc g Deciding c))\<rparr>"
    using Closed assms(1) by (auto simp: set_pc_def split: if_splits)
  then show ?thesis using cleanup_inv_pc [OF assms(2) p(1), of Deciding] p(2) by simp
next
  case (Decide g)
  then have p: "pc_of g c = Some Deciding" "chain_done c" using assms pc_chain_done by (auto split: if_splits)
  have "held (set_pc g Finished c) = held c" using held_moved [OF p(1), of Finished] by (simp add: holds_def)
  then have "(set_pc g Finished c)\<lparr>activeConns := of_nat (held (set_pc g Finished c))\<rparr> = set_pc g Finished c"
    using assms(2) by (simp add: cleanup_inv_def set_pc_def)
  then have "cleanup_inv (set_pc g Finished c)" using cleanup_inv_pc [OF assms(2) p(1), of Finished] by simp
  moreover have "chain_done (set_pc g Finished c)" using p(2) by (simp add: set_pc_def)
  ultimately show ?thesis using cleanup_inv_last Decide assms(1) by (auto split: if_splits)
next
  case (Take_cancel g)
  then have p: "pc_of g c = Some Waiting" using assms by (auto split: if_splits)
  have "of_nat (held (set_pc g Finished c)) = activeConns c - 1"
    using count_down [of "held (set_pc g Finished c)" "held c"] held_moved [OF p, of Finished] assms(2) by (simp add: holds_def cleanup_inv_def)
  then have "c' = (set_pc g Finished c)\<lparr>activeConns := of_nat (held (set_pc g Finished c))\<rparr>"
    using Take_cancel assms(1) by (auto simp: set_pc_def split: if_splits)
  then show ?thesis using cleanup_inv_pc [OF assms(2) p, of Finished] by simp
next
  case Execute
  then show ?thesis using assms by (auto simp: cleanup_inv_def held_def split: if_splits)
qed

lemma cleanup_inv_run: "cleanup_run as c = Some c' \<Longrightarrow> cleanup_inv c \<Longrightarrow> cleanup_inv c'"
  by (induction as arbitrary: c) (auto simp: bind_eq_Some_iff intro: cleanup_inv_step)

text \<open>
  In every interleaving the counter is the number of goroutines that have not counted down, and the channel is closed only after
  the context of the chain is done.
\<close>

lemma cleanup_counter:
  assumes "cleanup_run as (cleanup_NewClient close_cc has_done ccs) = Some c"
  shows "activeConns c = of_nat (held c) \<and> (doneCh c = Some True \<longrightarrow> chain_done c)"
proof -
  have "cleanup_inv (cleanup_NewClient close_cc has_done ccs)" by (simp add: cleanup_inv_def cleanup_NewClient_def held_def)
  then show ?thesis using cleanup_inv_run [OF assms] by (simp add: cleanup_inv_def)
qed

text \<open>
  The channel may stay open for ever: if the last connection is closed by its user and its goroutine counts down after the context of the
  chain is done, nobody looks at the counter again. All goroutines have then finished, none is counted, and only new
  requests or closes can happen, none of which closes the channel.
\<close>

lemma cleanup_never_done:
  "\<exists>as c. cleanup_run as (cleanup_NewClient close_cc True ccs) = Some c \<and> activeConns c = 0 \<and> chain_done c \<and>
     doneCh c = Some False \<and> {c'. \<exists>a. a \<notin> range Request \<and> cleanup_step a c = Some c'} = {c}"
proof -
  let ?as = "[Request ''id'', Close ''id'', Chain_done, Watch, Take_cancel 0]"
  let ?c = "(cleanup_NewClient close_cc True ccs)\<lparr>goroutines := [(''id'', Finished)], cleanup_cancelled := {0}, chain_done := True, watched := True\<rparr>"
  have r: "cleanup_run ?as (cleanup_NewClient close_cc True ccs) = Some ?c"
    by (simp add: cleanup_NewClient_def cleanup_Request_def cleanup_Close_def cancel_stored_def close_if_last_def set_pc_def pc_of_def Let_def fun_eq_iff)
  have "c' = ?c" if "a \<notin> range Request" "cleanup_step a ?c = Some c'" for a c'
    using that by (cases a) (auto simp: cleanup_NewClient_def cleanup_Close_def pc_of_def split: if_splits)
  moreover have "cleanup_step Chain_done ?c = Some ?c" "Chain_done \<notin> range Request" by auto
  ultimately have "{c'. \<exists>a. a \<notin> range Request \<and> cleanup_step a ?c = Some c'} = {?c}" by blast
  then show ?thesis using r by (intro exI [of _ ?as] exI [of _ ?c]) (simp add: cleanup_NewClient_def)
qed

end
