(* ===== verification/Upstream_Refresh.thy ===== *)
theory Upstream_Refresh
  imports NSM_Api
begin

text \<open>
  \<^verbatim>\<open>networkservice/common/upstreamrefresh\<close>: the client element that refreshes a connection when the other side asks for it, and then, through
  a notifier all connections share, the other connections of the client. Requests, event loops and the executor of the notifier are interleaved step by step.
\<close>

section \<open>The state\<close>

text \<open>
  The closures in the executor of the notifier, the first of which is running: those of \<^verbatim>\<open>unsubscribe\<close>, \<^verbatim>\<open>subscribe\<close>, \<^verbatim>\<open>get\<close> (for an event loop)
  and \<^verbatim>\<open>Notify\<close> (of an event loop, with the channels it still has to send to once it runs).
\<close>

datatype up_task = Unsubscribe string | Subscribe string | Get nat | Notify nat "nat list option"

text \<open>
  Where an event loop is: at its calls of \<^verbatim>\<open>get\<close>, at its \<^verbatim>\<open>select\<close> with its local channel, about to request a refresh or waiting for it (\<open>True\<close>: asked for from upstream,
  so it will notify), notifying, or at its end.
\<close>

datatype loop_pc = Get_first | Get_second | Selecting "nat option" | Wants bool | Waits bool | Notifying | Ended

text \<open>Where the request or close of a connection is; the begin element runs one of them at a time. \<open>Some l\<close>: event loop \<open>l\<close> requested it.\<close>

datatype call_pc = Unsubscribing | Forwarding | Subscribing | Starting | Closing

record upstream =
  channels :: "string \<rightharpoonup> nat"
  closed_chs :: "nat set"
  fresh_ch :: nat
  up_queue :: "up_task list"
  up_loops :: "(string \<times> loop_pc) list"
  up_cancelled :: "nat set"
  up_stored :: "string \<rightharpoonup> nat"
  up_calls :: "string \<rightharpoonup> call_pc \<times> nat option"

definition upstream_init :: upstream where
  "upstream_init = \<lparr>channels = Map.empty, closed_chs = {}, fresh_ch = 0, up_queue = [], up_loops = [], up_cancelled = {},
     up_stored = Map.empty, up_calls = Map.empty\<rparr>"

definition loop_at :: "upstream \<Rightarrow> nat \<Rightarrow> (string \<times> loop_pc) option" where
  "loop_at \<sigma> l = (if l < length (up_loops \<sigma>) then Some (up_loops \<sigma> ! l) else None)"

definition set_loop :: "nat \<Rightarrow> loop_pc \<Rightarrow> upstream \<Rightarrow> upstream" where
  "set_loop l pc \<sigma> = \<sigma>\<lparr>up_loops := (up_loops \<sigma>)[l := (fst (up_loops \<sigma> ! l), pc)]\<rparr>"

definition enqueue :: "up_task \<Rightarrow> upstream \<Rightarrow> upstream" where
  "enqueue t \<sigma> = \<sigma>\<lparr>up_queue := up_queue \<sigma> @ [t]\<rparr>"

definition cancel_loop_of :: "string \<Rightarrow> upstream \<Rightarrow> upstream" where
  "cancel_loop_of n \<sigma> = (case up_stored \<sigma> n of None \<Rightarrow> \<sigma>
     | Some l \<Rightarrow> \<sigma>\<lparr>up_stored := (up_stored \<sigma>)(n := None), up_cancelled := insert l (up_cancelled \<sigma>)\<rparr>)"

section \<open>The notifier\<close>

definition notifier_subscribe :: "string \<Rightarrow> upstream \<Rightarrow> upstream" where
  "notifier_subscribe n \<sigma> = \<sigma>\<lparr>channels := (channels \<sigma>)(n \<mapsto> fresh_ch \<sigma>), fresh_ch := fresh_ch \<sigma> + 1\<rparr>"

definition notifier_unsubscribe :: "string \<Rightarrow> upstream \<Rightarrow> upstream" where
  "notifier_unsubscribe n \<sigma> =
     (case channels \<sigma> n of None \<Rightarrow> \<sigma>
      | Some c \<Rightarrow> \<sigma>\<lparr>channels := (channels \<sigma>)(n := None), closed_chs := insert c (closed_chs \<sigma>)\<rparr>)"

text \<open>The channels a notification goes to, in any order.\<close>

definition notifies :: "upstream \<Rightarrow> nat \<Rightarrow> nat list \<Rightarrow> bool" where
  "notifies \<sigma> l cs \<longleftrightarrow> distinct cs \<and> set cs = ran ((channels \<sigma>)(fst (up_loops \<sigma> ! l) := None))"

section \<open>Requests and closes\<close>

text \<open>The loop that asked for a refresh goes on: with the notification, if upstream had asked.\<close>

definition refreshed :: "nat option \<Rightarrow> upstream \<Rightarrow> upstream" where
  "refreshed i \<sigma> =
     (case i of None \<Rightarrow> \<sigma>
      | Some l \<Rightarrow>
          if snd (up_loops \<sigma> ! l) = Waits True then enqueue (Notify l None) (set_loop l Notifying \<sigma>) else set_loop l Ended \<sigma>)"

definition end_call :: "string \<Rightarrow> upstream \<Rightarrow> upstream" where
  "end_call n \<sigma> = (case up_calls \<sigma> n of None \<Rightarrow> \<sigma> | Some (_, i) \<Rightarrow> refreshed i (\<sigma>\<lparr>up_calls := (up_calls \<sigma>)(n := None)\<rparr>))"

definition set_call :: "string \<Rightarrow> call_pc \<Rightarrow> upstream \<Rightarrow> upstream" where
  "set_call n pc \<sigma> = \<sigma>\<lparr>up_calls := (up_calls \<sigma>)(n := map_option (\<lambda>(_, i). (pc, i)) (up_calls \<sigma> n))\<rparr>"

definition upstream_Request :: "string \<Rightarrow> nat option \<Rightarrow> upstream \<Rightarrow> upstream" where
  "upstream_Request n i \<sigma> = enqueue (Unsubscribe n) ((cancel_loop_of n \<sigma>)\<lparr>up_calls := (up_calls \<sigma>)(n \<mapsto> (Unsubscribing, i))\<rparr>)"

definition upstream_Close :: "string \<Rightarrow> upstream \<Rightarrow> upstream" where
  "upstream_Close n \<sigma> = enqueue (Unsubscribe n) (\<sigma>\<lparr>up_calls := (up_calls \<sigma>)(n \<mapsto> (Closing, None))\<rparr>)"

text \<open>After the subscription: an event loop is started, or there is none to start (\<open>False\<close>: no client connection, or monitoring failed).\<close>

definition upstream_newEventLoop :: "string \<Rightarrow> bool \<Rightarrow> upstream \<Rightarrow> upstream" where
  "upstream_newEventLoop n starts \<sigma> =
     (if starts
      then end_call n (enqueue (Get (length (up_loops \<sigma>)))
        (\<sigma>\<lparr>up_loops := up_loops \<sigma> @ [(n, Get_first)], up_stored := (up_stored \<sigma>)(n \<mapsto> length (up_loops \<sigma>))\<rparr>))
      else end_call n \<sigma>)"

section \<open>Steps\<close>

datatype up_action =
  Request string "nat option" | Close string | Forward string bool | Start string bool
| Upstream nat | Upstream_end nat | Local_closed nat | Cancelled nat | Skip nat
| Execute | Begin_notify "nat list" | Deliver nat

definition pop :: "upstream \<Rightarrow> upstream" where
  "pop \<sigma> = \<sigma>\<lparr>up_queue := tl (up_queue \<sigma>)\<rparr>"

text \<open>The first closure runs, if it is not a notification.\<close>

definition upstream_execute :: "upstream \<Rightarrow> upstream option" where
  "upstream_execute \<sigma> =
     (case up_queue \<sigma> of
        Unsubscribe n # _ \<Rightarrow>
          (let \<sigma> = notifier_unsubscribe n (pop \<sigma>) in
           Some (case up_calls \<sigma> n of
             Some (Closing, _) \<Rightarrow> end_call n (cancel_loop_of n \<sigma>)
           | _ \<Rightarrow> set_call n Forwarding \<sigma>))
      | Subscribe n # _ \<Rightarrow> Some (set_call n Starting (notifier_subscribe n (pop \<sigma>)))
      | Get l # _ \<Rightarrow>
          (let \<sigma> = pop \<sigma>; (n, pc) = up_loops \<sigma> ! l in
           Some (if pc = Get_first \<and> channels \<sigma> n \<noteq> None then enqueue (Get l) (set_loop l Get_second \<sigma>)
                 else set_loop l (Selecting (channels \<sigma> n)) \<sigma>))
      | Notify l (Some []) # _ \<Rightarrow> Some (set_loop l Ended (pop \<sigma>))
      | _ \<Rightarrow> None)"

text \<open>
  \<open>Skip\<close> is a refresh the begin element does not make because the connection is gone. A send on a channel is taken by an event loop that selects on it;
  channels are not buffered.
\<close>

fun upstream_step :: "up_action \<Rightarrow> upstream \<Rightarrow> upstream option" where
  "upstream_step (Request n i) \<sigma> =
     (if up_calls \<sigma> n \<noteq> None then None
      else case i of
        None \<Rightarrow> Some (upstream_Request n None \<sigma>)
      | Some l \<Rightarrow>
          (case loop_at \<sigma> l of Some (n', Wants b) \<Rightarrow> if n' = n then Some (upstream_Request n i (set_loop l (Waits b) \<sigma>)) else None | _ \<Rightarrow> None))"
| "upstream_step (Close n) \<sigma> = (if up_calls \<sigma> n \<noteq> None then None else Some (upstream_Close n \<sigma>))"
| "upstream_step (Forward n ok) \<sigma> =
     (case up_calls \<sigma> n of
        Some (Forwarding, _) \<Rightarrow> Some (if ok then enqueue (Subscribe n) (set_call n Subscribing \<sigma>) else end_call n \<sigma>)
      | _ \<Rightarrow> None)"
| "upstream_step (Start n starts) \<sigma> = (case up_calls \<sigma> n of Some (Starting, _) \<Rightarrow> Some (upstream_newEventLoop n starts \<sigma>) | _ \<Rightarrow> None)"
| "upstream_step (Upstream l) \<sigma> = (case loop_at \<sigma> l of Some (_, Selecting _) \<Rightarrow> Some (set_loop l (Wants True) \<sigma>) | _ \<Rightarrow> None)"
| "upstream_step (Upstream_end l) \<sigma> = (case loop_at \<sigma> l of Some (_, Selecting _) \<Rightarrow> Some (set_loop l Ended \<sigma>) | _ \<Rightarrow> None)"
| "upstream_step (Local_closed l) \<sigma> =
     (case loop_at \<sigma> l of Some (_, Selecting (Some c)) \<Rightarrow> if c \<in> closed_chs \<sigma> then Some (set_loop l Ended \<sigma>) else None | _ \<Rightarrow> None)"
| "upstream_step (Cancelled l) \<sigma> =
     (case loop_at \<sigma> l of Some (_, Selecting _) \<Rightarrow> if l \<in> up_cancelled \<sigma> then Some (set_loop l Ended \<sigma>) else None | _ \<Rightarrow> None)"
| "upstream_step (Skip l) \<sigma> = (case loop_at \<sigma> l of Some (_, Wants b) \<Rightarrow> Some (refreshed (Some l) (set_loop l (Waits b) \<sigma>)) | _ \<Rightarrow> None)"
| "upstream_step Execute \<sigma> = upstream_execute \<sigma>"
| "upstream_step (Begin_notify cs) \<sigma> =
     (case up_queue \<sigma> of Notify l None # ts \<Rightarrow> if notifies \<sigma> l cs then Some (\<sigma>\<lparr>up_queue := Notify l (Some cs) # ts\<rparr>) else None | _ \<Rightarrow> None)"
| "upstream_step (Deliver k) \<sigma> =
     (case up_queue \<sigma> of
        Notify l (Some (c # cs)) # ts \<Rightarrow>
          (case loop_at \<sigma> k of
             Some (_, Selecting (Some c')) \<Rightarrow>
               if c' = c then Some (set_loop k (Wants False) (\<sigma>\<lparr>up_queue := Notify l (Some cs) # ts\<rparr>)) else None
           | _ \<Rightarrow> None)
      | _ \<Rightarrow> None)"

fun upstream_run :: "up_action list \<Rightarrow> upstream \<Rightarrow> upstream option" where
  "upstream_run [] \<sigma> = Some \<sigma>"
| "upstream_run (a # as) \<sigma> = Option.bind (upstream_step a \<sigma>) (upstream_run as)"

section \<open>Channels\<close>

text \<open>The channels of subscriptions are open and distinct, and so are those a running notification has still to send to.\<close>

definition sends_to :: "upstream \<Rightarrow> nat set" where
  "sends_to \<sigma> = (case up_queue \<sigma> of Notify l (Some cs) # _ \<Rightarrow> set cs | _ \<Rightarrow> {})"

definition waiting_tasks :: "up_task list \<Rightarrow> bool" where
  "waiting_tasks ts \<longleftrightarrow> (\<forall>t\<in>set ts. \<forall>l cs. t \<noteq> Notify l (Some cs))"

definition chan_inv :: "upstream \<Rightarrow> bool" where
  "chan_inv \<sigma> \<longleftrightarrow> ran (channels \<sigma>) \<inter> closed_chs \<sigma> = {} \<and> ran (channels \<sigma>) \<union> closed_chs \<sigma> \<subseteq> {..<fresh_ch \<sigma>} \<and>
     inj_on (channels \<sigma>) (dom (channels \<sigma>)) \<and> sends_to \<sigma> \<subseteq> ran (channels \<sigma>) \<and> waiting_tasks (tl (up_queue \<sigma>))"

text \<open>What does not change channels and at most adds a closure, or takes away from those to send to, keeps this.\<close>

lemma chan_inv_same:
  assumes "chan_inv \<sigma>" "channels \<sigma>' = channels \<sigma>" "closed_chs \<sigma>' = closed_chs \<sigma>" "fresh_ch \<sigma>' = fresh_ch \<sigma>"
    and "sends_to \<sigma>' \<subseteq> sends_to \<sigma>" "waiting_tasks (tl (up_queue \<sigma>'))"
  shows "chan_inv \<sigma>'"
  using assms by (auto simp: chan_inv_def)

definition frame :: "upstream \<Rightarrow> upstream \<Rightarrow> bool" where
  "frame \<sigma> \<sigma>' \<longleftrightarrow> channels \<sigma>' = channels \<sigma> \<and> closed_chs \<sigma>' = closed_chs \<sigma> \<and> fresh_ch \<sigma>' = fresh_ch \<sigma> \<and>
     (\<exists>ts. up_queue \<sigma>' = up_queue \<sigma> @ ts \<and> waiting_tasks ts)"

lemma waiting_tasks_simps [simp]: "waiting_tasks []" "waiting_tasks (t # ts) \<longleftrightarrow> (\<forall>l cs. t \<noteq> Notify l (Some cs)) \<and> waiting_tasks ts"
    "waiting_tasks (ts @ ts') \<longleftrightarrow> waiting_tasks ts \<and> waiting_tasks ts'"
  by (auto simp: waiting_tasks_def)

lemma waiting_tl: "waiting_tasks ts \<Longrightarrow> waiting_tasks (tl ts)"
  by (cases ts) auto

lemma chan_inv_frame: "chan_inv \<sigma> \<Longrightarrow> frame \<sigma> \<sigma>' \<Longrightarrow> chan_inv \<sigma>'"
proof -
  assume c: "chan_inv \<sigma>" and "frame \<sigma> \<sigma>'"
  then obtain ts where f: "channels \<sigma>' = channels \<sigma>" "closed_chs \<sigma>' = closed_chs \<sigma>" "fresh_ch \<sigma>' = fresh_ch \<sigma>"
    "up_queue \<sigma>' = up_queue \<sigma> @ ts" "waiting_tasks ts" by (auto simp: frame_def)
  have "sends_to \<sigma>' \<subseteq> sends_to \<sigma>" using f(4,5) by (cases "up_queue \<sigma>"; cases ts) (auto simp: sends_to_def split: up_task.splits option.splits)
  moreover have "waiting_tasks (tl (up_queue \<sigma>'))" using c f(4,5) by (cases "up_queue \<sigma>") (auto simp: chan_inv_def waiting_tl)
  ultimately show ?thesis by (rule chan_inv_same [OF c f(1-3)])
qed

lemma frame_refl [simp]: "frame \<sigma> \<sigma>"
  by (simp add: frame_def)

lemma frame_trans [trans]: "frame a b \<Longrightarrow> frame b c \<Longrightarrow> frame a c"
  by (auto simp: frame_def)

lemma frame_intros [simp]: "frame \<sigma> (set_loop l pc \<sigma>)" "(\<forall>l cs. t \<noteq> Notify l (Some cs)) \<Longrightarrow> frame \<sigma> (enqueue t \<sigma>)" "frame \<sigma> (cancel_loop_of n \<sigma>)"
    "frame \<sigma> (set_call n pc' \<sigma>)" "frame \<sigma> (\<sigma>\<lparr>up_calls := cs\<rparr>)" "frame \<sigma> (\<sigma>\<lparr>up_loops := ls, up_stored := st\<rparr>)"
  by (auto simp: frame_def set_loop_def enqueue_def cancel_loop_of_def set_call_def split: option.splits)

lemma frame_refreshed [simp]: "frame \<sigma> (refreshed i \<sigma>)"
proof -
  have "frame \<sigma> (enqueue (Notify l None) (set_loop l Notifying \<sigma>))" for l by (rule frame_trans [OF frame_intros(1) frame_intros(2)]) simp
  then show ?thesis by (cases i) (simp_all add: refreshed_def)
qed

lemma frame_end_call [simp]: "frame \<sigma> (end_call n \<sigma>)"
  using frame_trans [OF frame_intros(5) frame_refreshed] by (simp add: end_call_def split: option.splits prod.splits)

lemma frame_calls: "frame \<sigma> (upstream_Request n i \<sigma>)" "frame \<sigma> (upstream_Close n \<sigma>)" "frame \<sigma> (upstream_newEventLoop n starts \<sigma>)"
proof -
  show "frame \<sigma> (upstream_Request n i \<sigma>)" unfolding upstream_Request_def
    by (rule frame_trans [OF frame_intros(3) frame_trans [OF frame_intros(5) frame_intros(2)]]) simp
  show "frame \<sigma> (upstream_Close n \<sigma>)" unfolding upstream_Close_def
    by (rule frame_trans [OF frame_intros(5) frame_intros(2)]) simp
  have "frame \<sigma> (end_call n (enqueue (Get m) (\<sigma>\<lparr>up_loops := ls, up_stored := st\<rparr>)))" for m ls st
    by (rule frame_trans [OF frame_intros(6) frame_trans [OF frame_intros(2) frame_end_call]]) simp
  then show "frame \<sigma> (upstream_newEventLoop n starts \<sigma>)" by (simp add: upstream_newEventLoop_def)
qed

text \<open>Every step but those of the executor is framed.\<close>

lemma frame_step:
  assumes "upstream_step a \<sigma> = Some \<sigma>'" "a \<noteq> Execute" "\<forall>cs. a \<noteq> Begin_notify cs" "\<forall>k. a \<noteq> Deliver k"
  shows "frame \<sigma> \<sigma>'"
  using assms
proof (cases a)
  case (Request n i)
  then show ?thesis using assms(1) frame_calls(1) frame_trans [OF frame_intros(1) frame_calls(1)]
    by (auto split: if_splits option.splits prod.splits loop_pc.splits)
next
  case (Forward n ok)
  have "frame \<sigma> (enqueue (Subscribe n) (set_call n Subscribing \<sigma>))" by (rule frame_trans [OF frame_intros(4) frame_intros(2)]) simp
  then show ?thesis using assms(1) Forward by (auto split: if_splits option.splits prod.splits call_pc.splits)
next
  case (Skip l)
  have "frame \<sigma> (refreshed (Some l) (set_loop l pc \<sigma>))" for pc by (rule frame_trans [OF frame_intros(1) frame_refreshed])
  then show ?thesis using assms(1) Skip by (auto split: option.splits prod.splits loop_pc.splits)
qed (use frame_calls in \<open>auto split: if_splits option.splits prod.splits call_pc.splits loop_pc.splits\<close>)

lemma ran_upd_None: "inj_on m (dom m) \<Longrightarrow> m n = Some c \<Longrightarrow> ran (m(n := None)) = ran m - {c}"
proof -
  assume m: "inj_on m (dom m)" "m n = Some c"
  have "m a \<noteq> Some c" if "a \<noteq> n" for a using inj_onD [OF m(1), of a n] m(2) that by auto
  then have "(\<exists>a. a \<noteq> n \<and> m a = Some x) \<longleftrightarrow> (\<exists>a. m a = Some x) \<and> x \<noteq> c" for x using m(2) by (metis option.inject)
  moreover have "x \<in> ran (m(n := None)) \<longleftrightarrow> (\<exists>a. a \<noteq> n \<and> m a = Some x)" for x by (auto simp: ran_def)
  ultimately show ?thesis by (auto simp: ran_def)
qed

lemma chan_inv_pop: "chan_inv \<sigma> \<Longrightarrow> chan_inv (pop \<sigma>)"
proof -
  assume c: "chan_inv \<sigma>"
  have "sends_to (pop \<sigma>) = {}" using c
    by (cases "tl (up_queue \<sigma>)") (auto simp: sends_to_def pop_def chan_inv_def split: up_task.splits option.splits)
  then show ?thesis using c by (auto simp: chan_inv_def pop_def waiting_tl)
qed

lemma sends_to_pop: "chan_inv \<sigma> \<Longrightarrow> sends_to (pop \<sigma>) = {}"
  by (cases "tl (up_queue \<sigma>)") (auto simp: sends_to_def pop_def chan_inv_def split: up_task.splits option.splits)

lemma chan_inv_unsubscribe:
  assumes "chan_inv \<sigma>" "sends_to \<sigma> = {}"
  shows "chan_inv (notifier_unsubscribe n \<sigma>)"
proof (cases "channels \<sigma> n")
  case (Some c)
  have i: "inj_on (channels \<sigma>) (dom (channels \<sigma>))" using assms(1) by (simp add: chan_inv_def)
  have "inj_on ((channels \<sigma>)(n := None)) (dom (channels \<sigma>) - {n})" using i by (auto simp: inj_on_def)
  moreover have "c < fresh_ch \<sigma>" using assms(1) Some by (auto simp: chan_inv_def ran_def)
  ultimately show ?thesis using assms Some ran_upd_None [OF i Some]
    by (auto simp: notifier_unsubscribe_def chan_inv_def sends_to_def)
qed (use assms in \<open>simp add: notifier_unsubscribe_def\<close>)

lemma chan_inv_subscribe:
  assumes "chan_inv \<sigma>" "sends_to \<sigma> = {}"
  shows "chan_inv (notifier_subscribe n \<sigma>)"
proof -
  have "ran ((channels \<sigma>)(n \<mapsto> fresh_ch \<sigma>)) \<subseteq> insert (fresh_ch \<sigma>) (ran (channels \<sigma>))" by (auto simp: ran_def)
  moreover have "fresh_ch \<sigma> \<notin> ran (channels \<sigma>) \<union> closed_chs \<sigma>" using assms(1) by (auto simp: chan_inv_def)
  moreover have "inj_on ((channels \<sigma>)(n \<mapsto> fresh_ch \<sigma>)) (dom ((channels \<sigma>)(n \<mapsto> fresh_ch \<sigma>)))"
    using assms(1) \<open>fresh_ch \<sigma> \<notin> _\<close> by (auto simp: chan_inv_def inj_on_def ran_def split: if_splits)
  ultimately show ?thesis using assms by (fastforce simp: notifier_subscribe_def chan_inv_def sends_to_def)
qed

lemma chan_inv_execute:
  assumes "upstream_execute \<sigma> = Some \<sigma>'" "chan_inv \<sigma>"
  shows "chan_inv \<sigma>'"
proof -
  note p = chan_inv_pop [OF assms(2)] sends_to_pop [OF assms(2)]
  note u = chan_inv_unsubscribe [OF p] chan_inv_subscribe [OF p]
  obtain t ts where q: "up_queue \<sigma> = t # ts" using assms(1) by (cases "up_queue \<sigma>") (auto simp: upstream_execute_def)
  show ?thesis
  proof (cases t)
    case (Unsubscribe n)
    have "frame (notifier_unsubscribe n (pop \<sigma>)) (end_call n (cancel_loop_of n (notifier_unsubscribe n (pop \<sigma>))))"
      by (rule frame_trans [OF frame_intros(3) frame_end_call])
    then have "frame (notifier_unsubscribe n (pop \<sigma>)) \<sigma>'" using assms(1) q Unsubscribe
      by (auto simp: upstream_execute_def Let_def split: option.splits prod.splits call_pc.splits)
    then show ?thesis using chan_inv_frame u(1) by blast
  next
    case (Subscribe n)
    then show ?thesis using assms(1) q chan_inv_frame [OF u(2) frame_intros(4)] by (auto simp: upstream_execute_def)
  next
    case (Get l)
    have "frame (pop \<sigma>) (enqueue (Get l) (set_loop l Get_second (pop \<sigma>)))" by (rule frame_trans [OF frame_intros(1) frame_intros(2)]) simp
    then have "frame (pop \<sigma>) \<sigma>'" using assms(1) q Get by (auto simp: upstream_execute_def Let_def split: prod.splits if_splits)
    then show ?thesis using chan_inv_frame p(1) by blast
  next
    case (Notify l cs)
    then have "\<sigma>' = set_loop l Ended (pop \<sigma>)" using assms(1) q by (auto simp: upstream_execute_def split: option.splits list.splits)
    then show ?thesis using chan_inv_frame [OF p(1) frame_intros(1)] by simp
  qed
qed

lemma chan_inv_step:
  assumes "upstream_step a \<sigma> = Some \<sigma>'" "chan_inv \<sigma>"
  shows "chan_inv \<sigma>'"
proof -
  consider "a = Execute" | cs where "a = Begin_notify cs" | k where "a = Deliver k" | "a \<noteq> Execute" "\<forall>cs. a \<noteq> Begin_notify cs" "\<forall>k. a \<noteq> Deliver k" by blast
  then show ?thesis
  proof cases
    case 1
    then show ?thesis using assms chan_inv_execute by simp
  next
    case (2 cs)
    then obtain l ts where q: "up_queue \<sigma> = Notify l None # ts" "notifies \<sigma> l cs" "\<sigma>' = \<sigma>\<lparr>up_queue := Notify l (Some cs) # ts\<rparr>"
      using assms(1) by (auto split: list.splits up_task.splits option.splits if_splits)
    have "set cs \<subseteq> ran (channels \<sigma>)" using q(2) by (auto simp: notifies_def ran_def split: if_splits)
    then show ?thesis using assms(2) q(1,3) by (auto simp: chan_inv_def sends_to_def)
  next
    case (3 k)
    then obtain l c cs ts where q: "up_queue \<sigma> = Notify l (Some (c # cs)) # ts" "\<sigma>' = set_loop k (Wants False) (\<sigma>\<lparr>up_queue := Notify l (Some cs) # ts\<rparr>)"
      using assms(1) by (auto split: list.splits up_task.splits option.splits if_splits prod.splits loop_pc.splits)
    have "chan_inv (\<sigma>\<lparr>up_queue := Notify l (Some cs) # ts\<rparr>)" using assms(2) q(1) by (auto simp: chan_inv_def sends_to_def)
    then show ?thesis using chan_inv_frame q(2) by simp
  next
    case 4
    then show ?thesis using frame_step [OF assms(1)] assms(2) chan_inv_frame by blast
  qed
qed

lemma chan_inv_run: "upstream_run as \<sigma> = Some \<sigma>' \<Longrightarrow> chan_inv \<sigma> \<Longrightarrow> chan_inv \<sigma>'"
  by (induction as arbitrary: \<sigma>) (auto simp: bind_eq_Some_iff intro: chan_inv_step)

text \<open>In every interleaving, the channels a running notification has still to send to are open: it never sends on a closed channel, which would panic.\<close>

lemma notify_open:
  assumes "upstream_run as upstream_init = Some \<sigma>" "up_queue \<sigma> = Notify l (Some cs) # ts"
  shows "set cs \<inter> closed_chs \<sigma> = {}"
proof -
  have "chan_inv upstream_init" by (simp add: chan_inv_def upstream_init_def sends_to_def)
  then show ?thesis using chan_inv_run [OF assms(1)] assms(2) by (auto simp: chan_inv_def sends_to_def)
qed

section \<open>Waiting for ever\<close>

text \<open>A notification sends to a channel on which no event loop selects, while a request waits for the executor.\<close>

definition blocked :: "up_task \<Rightarrow> string \<Rightarrow> call_pc \<times> nat option \<Rightarrow> upstream \<Rightarrow> bool" where
  "blocked t n cl \<sigma> \<longleftrightarrow> (\<exists>l c cs. t = Notify l (Some (c # cs)) \<and> (\<forall>k m. loop_at \<sigma> k \<noteq> Some (m, Selecting (Some c)))) \<and>
     (\<exists>ts. up_queue \<sigma> = t # ts) \<and> fst cl = Unsubscribing \<and> up_calls \<sigma> n = Some cl"

definition no_new_select :: "upstream \<Rightarrow> upstream \<Rightarrow> bool" where
  "no_new_select \<sigma> \<sigma>' \<longleftrightarrow> (\<forall>k m x. loop_at \<sigma>' k = Some (m, Selecting x) \<longrightarrow> loop_at \<sigma> k = Some (m, Selecting x))"

lemma no_new_select_loops: "up_loops \<sigma>' = up_loops \<sigma> \<Longrightarrow> no_new_select \<sigma> \<sigma>'"
  by (simp add: no_new_select_def loop_at_def)

lemma no_new_select_trans [trans]: "no_new_select a b \<Longrightarrow> no_new_select b c \<Longrightarrow> no_new_select a c"
  by (auto simp: no_new_select_def)

lemma no_new_select_set: "\<forall>x. pc \<noteq> Selecting x \<Longrightarrow> no_new_select \<sigma> (set_loop l pc \<sigma>)"
  unfolding no_new_select_def
proof (intro allI impI)
  fix k m x assume "\<forall>x. pc \<noteq> Selecting x" "loop_at (set_loop l pc \<sigma>) k = Some (m, Selecting x)"
  then show "loop_at \<sigma> k = Some (m, Selecting x)" by (cases "k = l") (auto simp: loop_at_def set_loop_def split: if_splits)
qed

lemma loops_unchanged [simp]: "up_loops (enqueue t \<sigma>) = up_loops \<sigma>" "up_loops (cancel_loop_of n \<sigma>) = up_loops \<sigma>" "up_loops (set_call n pc \<sigma>) = up_loops \<sigma>"
    "up_calls (enqueue t \<sigma>) = up_calls \<sigma>" "up_calls (cancel_loop_of n \<sigma>) = up_calls \<sigma>" "up_calls (set_loop l lpc \<sigma>) = up_calls \<sigma>"
  by (simp_all add: enqueue_def cancel_loop_of_def set_call_def set_loop_def split: option.splits)

lemma refreshed_selects: "no_new_select \<sigma> (refreshed i \<sigma>)" "up_calls (refreshed i \<sigma>) = up_calls \<sigma>"
proof -
  have "no_new_select \<sigma> (enqueue t (set_loop l Notifying \<sigma>))" for t l
    by (rule no_new_select_trans [OF no_new_select_set no_new_select_loops]) simp_all
  then show "no_new_select \<sigma> (refreshed i \<sigma>)" by (cases i) (auto simp: refreshed_def no_new_select_set no_new_select_loops)
  show "up_calls (refreshed i \<sigma>) = up_calls \<sigma>" by (cases i) (auto simp: refreshed_def)
qed

lemma end_call_selects: "no_new_select \<sigma> (end_call n \<sigma>)" "n' \<noteq> n \<Longrightarrow> up_calls (end_call n \<sigma>) n' = up_calls \<sigma> n'"
proof -
  have "no_new_select \<sigma> (refreshed i (\<sigma>\<lparr>up_calls := cs\<rparr>))" for i cs
    by (rule no_new_select_trans [OF no_new_select_loops refreshed_selects(1)]) simp
  then show "no_new_select \<sigma> (end_call n \<sigma>)" by (simp add: end_call_def no_new_select_loops split: option.splits prod.splits)
  show "n' \<noteq> n \<Longrightarrow> up_calls (end_call n \<sigma>) n' = up_calls \<sigma> n'" by (simp add: end_call_def refreshed_selects(2) split: option.splits prod.splits)
qed

lemma new_loop_selects: "no_new_select \<sigma> (\<sigma>\<lparr>up_loops := up_loops \<sigma> @ [(n, Get_first)], up_stored := st\<rparr>)"
  by (auto simp: no_new_select_def loop_at_def nth_append split: if_splits)

lemma newEventLoop_selects: "no_new_select \<sigma> (upstream_newEventLoop n starts \<sigma>)" "n' \<noteq> n \<Longrightarrow> up_calls (upstream_newEventLoop n starts \<sigma>) n' = up_calls \<sigma> n'"
proof -
  have "no_new_select \<sigma> (end_call n (enqueue t (\<sigma>\<lparr>up_loops := up_loops \<sigma> @ [(n, Get_first)], up_stored := st\<rparr>)))" for t st
    by (rule no_new_select_trans [OF new_loop_selects no_new_select_trans [OF no_new_select_loops end_call_selects(1)]]) simp
  then show "no_new_select \<sigma> (upstream_newEventLoop n starts \<sigma>)" by (simp add: upstream_newEventLoop_def end_call_selects)
  show "n' \<noteq> n \<Longrightarrow> up_calls (upstream_newEventLoop n starts \<sigma>) n' = up_calls \<sigma> n'" by (simp add: upstream_newEventLoop_def end_call_selects)
qed

lemma step_selects:
  assumes "upstream_step a \<sigma> = Some \<sigma>'" "a \<noteq> Execute" "\<forall>cs. a \<noteq> Begin_notify cs" "\<forall>k. a \<noteq> Deliver k" "up_calls \<sigma> n = Some (Unsubscribing, i)"
  shows "no_new_select \<sigma> \<sigma>' \<and> up_calls \<sigma>' n = Some (Unsubscribing, i)"
proof -
  have r: "no_new_select \<sigma> (upstream_Request m j \<sigma>)" "m \<noteq> n \<Longrightarrow> up_calls (upstream_Request m j \<sigma>) n = up_calls \<sigma> n" for m j \<sigma>
    by (simp_all add: upstream_Request_def no_new_select_loops)
  show ?thesis
  proof (cases a)
    case (Request m j)
    have "no_new_select \<sigma> (upstream_Request m j (set_loop l (Waits b) \<sigma>))" for l b by (rule no_new_select_trans [OF no_new_select_set r(1)]) simp
    moreover have "m \<noteq> n" using assms(1,5) Request by (auto split: if_splits)
    ultimately show ?thesis using assms Request r by (auto split: if_splits option.splits prod.splits loop_pc.splits)
  next
    case (Close m)
    then show ?thesis using assms by (auto simp: upstream_Close_def no_new_select_loops split: if_splits)
  next
    case (Forward m ok)
    have "no_new_select \<sigma> (enqueue (Subscribe m) (set_call m Subscribing \<sigma>))" by (rule no_new_select_loops) simp
    moreover have "m \<noteq> n" using assms(1,5) Forward by auto
    ultimately show ?thesis using assms(1,5) Forward end_call_selects
      by (auto simp: set_call_def split: if_splits option.splits prod.splits call_pc.splits)
  next
    case (Start m starts)
    moreover have "m \<noteq> n" using assms(1,5) Start by auto
    ultimately show ?thesis using assms(1,5) newEventLoop_selects by (auto split: option.splits prod.splits call_pc.splits)
  next
    case (Skip l)
    have "no_new_select \<sigma> (refreshed (Some l) (set_loop l (Waits b) \<sigma>))" for b by (rule no_new_select_trans [OF no_new_select_set refreshed_selects(1)]) simp
    then show ?thesis using assms(1,5) Skip refreshed_selects(2) by (auto split: option.splits prod.splits loop_pc.splits)
  qed (use assms no_new_select_set in \<open>auto split: if_splits option.splits prod.splits loop_pc.splits\<close>)
qed

lemma blocked_step:
  assumes "upstream_step a \<sigma> = Some \<sigma>'" "blocked t n cl \<sigma>"
  shows "blocked t n cl \<sigma>'"
proof -
  obtain l c cs ts i where t: "t = Notify l (Some (c # cs))" "up_queue \<sigma> = t # ts" "cl = (Unsubscribing, i)" "up_calls \<sigma> n = Some cl"
    and no: "\<forall>k m. loop_at \<sigma> k \<noteq> Some (m, Selecting (Some c))" using assms(2) by (cases cl) (auto simp: blocked_def)
  have a: "a \<noteq> Execute" "\<forall>cs. a \<noteq> Begin_notify cs" using assms(1) t(1,2) by (auto simp: upstream_execute_def)
  have d: "\<forall>k. a \<noteq> Deliver k" using assms(1) t(1,2) no by (auto split: option.splits prod.splits loop_pc.splits if_splits)
  obtain ts' where "up_queue \<sigma>' = t # ts'" using frame_step [OF assms(1) a d] t(2) by (auto simp: frame_def)
  moreover have "no_new_select \<sigma> \<sigma>'" "up_calls \<sigma>' n = Some cl" using step_selects [OF assms(1) a d] t(3,4) by auto
  moreover have "\<forall>k m. loop_at \<sigma>' k \<noteq> Some (m, Selecting (Some c))" using no \<open>no_new_select \<sigma> \<sigma>'\<close> unfolding no_new_select_def by blast
  ultimately show ?thesis using t by (auto simp: blocked_def)
qed

lemma blocked_run: "upstream_run as \<sigma> = Some \<sigma>' \<Longrightarrow> blocked t n cl \<sigma> \<Longrightarrow> blocked t n cl \<sigma>'"
  by (induction as arbitrary: \<sigma>) (auto simp: bind_eq_Some_iff intro: blocked_step)

lemma blocked_forever:
  assumes "blocked t n cl \<sigma>"
  shows "{(hd (up_queue \<sigma>'), up_calls \<sigma>' n) | \<sigma>'. \<exists>as'. upstream_run as' \<sigma> = Some \<sigma>'} = {(t, Some cl)}"
proof (intro set_eqI iffI)
  fix x assume "x \<in> {(hd (up_queue \<sigma>'), up_calls \<sigma>' n) | \<sigma>'. \<exists>as'. upstream_run as' \<sigma> = Some \<sigma>'}"
  then obtain as' \<sigma>' where x: "x = (hd (up_queue \<sigma>'), up_calls \<sigma>' n)" "upstream_run as' \<sigma> = Some \<sigma>'" by blast
  then show "x \<in> {(t, Some cl)}" using blocked_run [OF x(2) assms] by (auto simp: blocked_def)
next
  fix x assume "x \<in> {(t, Some cl)}"
  then have "x = (hd (up_queue \<sigma>), up_calls \<sigma> n)" "upstream_run [] \<sigma> = Some \<sigma>" using assms by (auto simp: blocked_def)
  then show "x \<in> {(hd (up_queue \<sigma>'), up_calls \<sigma>' n) | \<sigma>'. \<exists>as'. upstream_run as' \<sigma> = Some \<sigma>'}" by blast
qed


end
