(* ===== verification/Authorize.thy ===== *)
theory Authorize
  imports Registry_Path Update_Path
begin

text \<open>
  Authorization: the elements of \<^verbatim>\<open>registry/common/authorize\<close> and \<^verbatim>\<open>networkservice/common/authorize\<close>, the monitor server of
  \<^verbatim>\<open>tools/monitorconnection/authorize\<close>, and the two policies of \<^verbatim>\<open>tools/opa/policies\<close> that decide on their maps. A policy is a function from its
  input; nil policies are passed over. Logging and peers in the context are left out.
\<close>

section \<open>Policies\<close>

text \<open>\<^verbatim>\<open>policiesList.check\<close> of the three packages: the first policy that fails ends it.\<close>

type_synonym 'i policies = "('i \<Rightarrow> bool) option list"

fun policies_check :: "'i policies \<Rightarrow> 'i \<Rightarrow> (nsm_error + unit)" where
  "policies_check [] input = Inr ()"
| "policies_check (None # ps) input = policies_check ps input"
| "policies_check (Some policy # ps) input =
     (if policy input then policies_check ps input else Inl (Err ''an error occurred during authorization policy check''))"

record RegistryOpaInput =
  ResourceID :: string
  ResourceName :: string
  ResourcePathIdsMap :: "string \<rightharpoonup> string list"
  in_PathSegments :: "TokenSegment list"
  in_Index :: u32

text \<open>\<^verbatim>\<open>registry/client_allowed.rego\<close>: the name is new, or its first path id is the caller's.\<close>

definition client_allowed :: "RegistryOpaInput \<Rightarrow> bool" where
  "client_allowed input =
     (case ResourcePathIdsMap input (ResourceName input) of
        None \<Rightarrow> True
      | Some ids \<Rightarrow> ids \<noteq> [] \<and> hd ids = ResourceID input)"

section \<open>The registry\<close>

text \<open>The identity in the token of the first segment; every failure leaves the zero identity.\<close>

definition getSpiffeIDFromPath :: "jwt \<Rightarrow> RegistryPath \<Rightarrow> string" where
  "getSpiffeIDFromPath J path = (if rp_PathSegments path = [] then [] else idString J (Token (hd (rp_PathSegments path))))"

text \<open>
  \<^verbatim>\<open>path.PathSegments[:path.Index+1]\<close>; a slice that ends behind the segments is a panic here. In the chains of the registry
  \<^verbatim>\<open>updatepath\<close> comes before and leaves the index inside.
\<close>

definition getLeftSideOfPath :: "RegistryPath \<Rightarrow> RegistryPath option" where
  "getLeftSideOfPath path =
     (if rp_PathSegments path = [] then Some \<lparr>rp_Index = 0, rp_PathSegments = []\<rparr>
      else if unat (rp_Index path + 1) > length (rp_PathSegments path) then None
      else Some \<lparr>rp_Index = rp_Index path, rp_PathSegments = take (unat (rp_Index path + 1)) (rp_PathSegments path)\<rparr>)"

definition opa_input :: "jwt \<Rightarrow> RegistryPath \<Rightarrow> string \<Rightarrow> (string \<rightharpoonup> string list) \<Rightarrow> RegistryPath \<Rightarrow> RegistryOpaInput" where
  "opa_input J path name rawMap side =
     \<lparr>ResourceID = getSpiffeIDFromPath J path, ResourceName = name, ResourcePathIdsMap = rawMap,
      in_PathSegments = rp_PathSegments side, in_Index = rp_Index side\<rparr>"

text \<open>
  The servers of endpoints and of network services have the same bodies, over the name and the path ids of the resource; the map is theirs
  and may be shared. The state is the map and that of the rest of the chain.
\<close>

type_synonym ('r, 's) register = "'r \<Rightarrow> (string \<rightharpoonup> string list) \<times> 's \<Rightarrow> (nsm_error + 'r) \<times> (string \<rightharpoonup> string list) \<times> 's"
type_synonym ('r, 's) unregister = "'r \<Rightarrow> (string \<rightharpoonup> string list) \<times> 's \<Rightarrow> (nsm_error + unit) \<times> (string \<rightharpoonup> string list) \<times> 's"

definition authorize_Register ::
  "('r \<Rightarrow> string) \<Rightarrow> ('r \<Rightarrow> string list) \<Rightarrow> jwt \<Rightarrow> RegistryOpaInput policies \<Rightarrow> RegistryPath \<Rightarrow> ('r, 's) register \<Rightarrow> ('r, 's) register" where
  "authorize_Register name pids J policies path nxt r st =
     (if policies = [] then nxt r st
      else case getLeftSideOfPath path of
        None \<Rightarrow> (Inl Panic, st)
      | Some leftSide \<Rightarrow>
          (case policies_check policies (opa_input J path (name r) (fst st) leftSide) of
             Inl e \<Rightarrow> (Inl e, st)
           | Inr _ \<Rightarrow>
               (case nxt r st of
                  (Inl e, st) \<Rightarrow> (Inl e, st)
                | (Inr r, m, s) \<Rightarrow> (Inr r, m(name r \<mapsto> pids r), s))))"

definition authorize_Unregister ::
  "('r \<Rightarrow> string) \<Rightarrow> jwt \<Rightarrow> RegistryOpaInput policies \<Rightarrow> RegistryPath \<Rightarrow> ('r, 's) unregister \<Rightarrow> ('r, 's) unregister" where
  "authorize_Unregister name J policies path nxt r st =
     (if policies = [] then nxt r st
      else case getLeftSideOfPath path of
        None \<Rightarrow> (Inl Panic, st)
      | Some leftSide \<Rightarrow>
          (case policies_check policies (opa_input J path (name r) (fst st) leftSide) of
             Inl e \<Rightarrow> (Inl e, st)
           | Inr _ \<Rightarrow> nxt r ((fst st)(name r := None), snd st)))"

definition authorizeNSEServer_Register ::
  "jwt \<Rightarrow> RegistryOpaInput policies \<Rightarrow> RegistryPath \<Rightarrow> (NetworkServiceEndpoint, 's) register \<Rightarrow> (NetworkServiceEndpoint, 's) register" where
  "authorizeNSEServer_Register = authorize_Register nse_name nse_PathIds"

definition authorizeNSEServer_Unregister ::
  "jwt \<Rightarrow> RegistryOpaInput policies \<Rightarrow> RegistryPath \<Rightarrow> (NetworkServiceEndpoint, 's) unregister \<Rightarrow> (NetworkServiceEndpoint, 's) unregister" where
  "authorizeNSEServer_Unregister = authorize_Unregister nse_name"

definition authorizeNSServer_Register ::
  "jwt \<Rightarrow> RegistryOpaInput policies \<Rightarrow> RegistryPath \<Rightarrow> (NetworkServiceMsg, 's) register \<Rightarrow> (NetworkServiceMsg, 's) register" where
  "authorizeNSServer_Register = authorize_Register ns_name ns_PathIds"

definition authorizeNSServer_Unregister ::
  "jwt \<Rightarrow> RegistryOpaInput policies \<Rightarrow> RegistryPath \<Rightarrow> (NetworkServiceMsg, 's) unregister \<Rightarrow> (NetworkServiceMsg, 's) unregister" where
  "authorizeNSServer_Unregister = authorize_Unregister ns_name"

text \<open>
  The clients check what came back, on the whole path, which the rest of the chain shares and may change: \<open>path\<close> is the path afterwards. A new
  resource that is refused is unregistered again.
\<close>

definition authorizeClient_Register ::
  "('r \<Rightarrow> string) \<Rightarrow> ('r \<Rightarrow> string list) \<Rightarrow> jwt \<Rightarrow> RegistryOpaInput policies \<Rightarrow> ('s \<Rightarrow> RegistryPath) \<Rightarrow> ('r, 's) register \<Rightarrow> ('r, 's) unregister \<Rightarrow> ('r, 's) register" where
  "authorizeClient_Register name pids J policies path nxt unregister r st =
     (if policies = [] then nxt r st
      else case nxt r st of
        (Inl e, st) \<Rightarrow> (Inl e, st)
      | (Inr resp, st) \<Rightarrow>
          (let p = path (snd st) in
           case policies_check policies (opa_input J p (name resp) (fst st) p) of
             Inl e \<Rightarrow>
               (if fst st (name resp) = None then
                  (case unregister resp st of
                     (Inl Panic, st) \<Rightarrow> (Inl Panic, st)
                   | (Inl (Err _), st) \<Rightarrow> (Inl (Err ''unregistered with error''), st)
                   | (Inr _, st) \<Rightarrow> (Inl e, st))
                else (Inl e, st))
           | Inr _ \<Rightarrow> (Inr resp, (fst st)(name resp \<mapsto> pids resp), snd st)))"

definition authorizeClient_Unregister ::
  "('r \<Rightarrow> string) \<Rightarrow> jwt \<Rightarrow> RegistryOpaInput policies \<Rightarrow> ('s \<Rightarrow> RegistryPath) \<Rightarrow> ('r, 's) unregister \<Rightarrow> ('r, 's) unregister" where
  "authorizeClient_Unregister name J policies path nxt r st =
     (if policies = [] then nxt r st
      else case nxt r st of
        (Inl e, st) \<Rightarrow> (Inl e, st)
      | (Inr resp, st) \<Rightarrow>
          (let p = path (snd st) in
           case policies_check policies (opa_input J p (name r) (fst st) p) of
             Inl e \<Rightarrow> (Inl e, st)
           | Inr _ \<Rightarrow> (Inr resp, (fst st)(name r := None), snd st)))"

definition authorizeNSEClient_Register ::
  "jwt \<Rightarrow> RegistryOpaInput policies \<Rightarrow> ('s \<Rightarrow> RegistryPath) \<Rightarrow> (NetworkServiceEndpoint, 's) register \<Rightarrow> (NetworkServiceEndpoint, 's) unregister \<Rightarrow> (NetworkServiceEndpoint, 's) register" where
  "authorizeNSEClient_Register = authorizeClient_Register nse_name nse_PathIds"

definition authorizeNSEClient_Unregister ::
  "jwt \<Rightarrow> RegistryOpaInput policies \<Rightarrow> ('s \<Rightarrow> RegistryPath) \<Rightarrow> (NetworkServiceEndpoint, 's) unregister \<Rightarrow> (NetworkServiceEndpoint, 's) unregister" where
  "authorizeNSEClient_Unregister = authorizeClient_Unregister nse_name"

definition authorizeNSClient_Register ::
  "jwt \<Rightarrow> RegistryOpaInput policies \<Rightarrow> ('s \<Rightarrow> RegistryPath) \<Rightarrow> (NetworkServiceMsg, 's) register \<Rightarrow> (NetworkServiceMsg, 's) unregister \<Rightarrow> (NetworkServiceMsg, 's) register" where
  "authorizeNSClient_Register = authorizeClient_Register ns_name ns_PathIds"

definition authorizeNSClient_Unregister ::
  "jwt \<Rightarrow> RegistryOpaInput policies \<Rightarrow> ('s \<Rightarrow> RegistryPath) \<Rightarrow> (NetworkServiceMsg, 's) unregister \<Rightarrow> (NetworkServiceMsg, 's) unregister" where
  "authorizeNSClient_Unregister = authorizeClient_Unregister ns_name"

section \<open>Network services\<close>

text \<open>
  The map of the identities of the callers to the identifiers of their connections, shared with the monitor server. \<open>has_peer\<close>: the context has a peer;
  \<open>spiffe\<close> is the peer's identity, if it can be read.
\<close>

type_synonym spiffe_map = "string \<rightharpoonup> string set"

definition path_index :: "Connection \<Rightarrow> u32" where
  "path_index c = (case conn_path c of None \<Rightarrow> 0 | Some p \<Rightarrow> Index p)"

definition path_segments :: "Connection \<Rightarrow> PathSegment list" where
  "path_segments c = (case conn_path c of None \<Rightarrow> [] | Some p \<Rightarrow> PathSegments p)"

text \<open>The left side of the path, and the identifier of the connection of the segment before; both may be out of range.\<close>

definition left_side :: "Connection \<Rightarrow> Path option" where
  "left_side c =
     (if unat (path_index c + 1) > length (path_segments c) then None
      else Some \<lparr>Index = path_index c, PathSegments = take (unat (path_index c + 1)) (path_segments c)\<rparr>)"

definition previous_id :: "Connection \<Rightarrow> string option" where
  "previous_id c =
     (let i = unat (path_index c - 1) in if i < length (path_segments c) then Some (seg_id (path_segments c ! i)) else None)"

definition add_id :: "string \<Rightarrow> string \<Rightarrow> spiffe_map \<Rightarrow> spiffe_map" where
  "add_id sid cid m = m(sid \<mapsto> insert cid (case m sid of None \<Rightarrow> {} | Some ids \<Rightarrow> ids))"

definition remove_id :: "string \<Rightarrow> string \<Rightarrow> spiffe_map \<Rightarrow> spiffe_map" where
  "remove_id sid cid m =
     (let ids = (case m sid of None \<Rightarrow> {} | Some ids \<Rightarrow> ids - {cid}) in if ids = {} then m(sid := None) else m(sid \<mapsto> ids))"

definition authorizeServer_Request ::
  "Path policies \<Rightarrow> bool \<Rightarrow> string option \<Rightarrow> (spiffe_map \<times> 's) request_chain \<Rightarrow> (spiffe_map \<times> 's) request_chain" where
  "authorizeServer_Request policies has_peer spiffe nxt request st =
     (let conn = conn_of request in
      case left_side conn of
        None \<Rightarrow> (Inl Panic, st)
      | Some leftSide \<Rightarrow>
          (case (if has_peer then policies_check policies leftSide else Inr ()) of
             Inl e \<Rightarrow> (Inl e, st)
           | Inr _ \<Rightarrow>
               (case spiffe of
                  None \<Rightarrow> nxt request st
                | Some sid \<Rightarrow>
                    (case previous_id conn of
                       None \<Rightarrow> (Inl Panic, st)
                     | Some connID \<Rightarrow>
                         (case nxt request (add_id sid connID (fst st), snd st) of
                            (Inl Panic, st) \<Rightarrow> (Inl Panic, st)
                          | (Inl (Err e), m, s) \<Rightarrow> (Inl (Err e), m(sid := None), s)
                          | r \<Rightarrow> r)))))"

definition authorizeServer_Close ::
  "Path policies \<Rightarrow> bool \<Rightarrow> string option \<Rightarrow> (spiffe_map \<times> 's) close_chain \<Rightarrow> (spiffe_map \<times> 's) close_chain" where
  "authorizeServer_Close policies has_peer spiffe nxt conn st =
     (case left_side conn of
        None \<Rightarrow> (Inl Panic, st)
      | Some leftSide \<Rightarrow>
          (let checked = (\<lambda>st. case (if has_peer then policies_check policies leftSide else Inr ()) of
                 Inl e \<Rightarrow> (Inl e, st)
               | Inr _ \<Rightarrow> nxt conn st) in
           case spiffe of
             None \<Rightarrow> checked st
           | Some sid \<Rightarrow>
               (case previous_id conn of
                  None \<Rightarrow> (Inl Panic, st)
                | Some connID \<Rightarrow> checked (remove_id sid connID (fst st), snd st))))"

text \<open>
  The client: a flag in the metadata tells whether the connection has been authorized before; the path checked is that of the answer.
\<close>

definition authorizeClient_Request ::
  "Path option policies \<Rightarrow> (bool \<times> 's) close_chain \<Rightarrow> (bool \<times> 's) request_chain \<Rightarrow> (bool \<times> 's) request_chain" where
  "authorizeClient_Request policies close nxt request st =
     (case nxt request st of
        (Inl e, st) \<Rightarrow> (Inl e, st)
      | (Inr conn, st) \<Rightarrow>
          (case policies_check policies (conn_path conn) of
             Inl e \<Rightarrow>
               (if fst st then (Inl e, st)
                else (case close conn st of
                    (Inl Panic, st) \<Rightarrow> (Inl Panic, st)
                  | (Inl (Err _), st) \<Rightarrow> (Inl (Err ''connection closed with error''), st)
                  | (Inr _, st) \<Rightarrow> (Inl e, st)))
           | Inr _ \<Rightarrow> (Inr conn, True, snd st)))"

definition authorizeClient_Close ::
  "Path option policies \<Rightarrow> (bool \<times> 's) close_chain \<Rightarrow> (bool \<times> 's) close_chain" where
  "authorizeClient_Close policies nxt conn st =
     (let st = (False, snd st) in
      case policies_check policies (conn_path conn) of Inl e \<Rightarrow> (Inl e, st) | Inr _ \<Rightarrow> nxt conn st)"

section \<open>Monitoring\<close>

record MonitorOpaInput =
  SpiffeIDConnectionMap :: spiffe_map
  SelectorConnectionIds :: "string set"
  ServiceSpiffeID :: string

text \<open>\<^verbatim>\<open>monitor/service_connection.rego\<close>: one of the connections asked for is the caller's.\<close>

definition service_connection :: "MonitorOpaInput \<Rightarrow> bool" where
  "service_connection input =
     (let conn_ids = (case SpiffeIDConnectionMap input (ServiceSpiffeID input) of None \<Rightarrow> {} | Some ids \<Rightarrow> ids) in
      SelectorConnectionIds input \<noteq> {} \<and> conn_ids \<noteq> {} \<and> conn_ids \<inter> SelectorConnectionIds input \<noteq> {})"

text \<open>An identity without connections is not in the map the policy gets. \<open>spiffe\<close> is empty if there is none; \<open>ids\<close> are the identifiers the selector names.\<close>

definition authorize_MonitorConnections ::
  "MonitorOpaInput policies \<Rightarrow> string \<Rightarrow> string list \<Rightarrow> spiffe_map \<Rightarrow> (nsm_error + unit)" where
  "authorize_MonitorConnections policies spiffe ids m =
     policies_check policies
       \<lparr>SpiffeIDConnectionMap = (\<lambda>sid. case m sid of None \<Rightarrow> None | Some c \<Rightarrow> if c = {} then None else Some c),
        SelectorConnectionIds = set ids, ServiceSpiffeID = spiffe\<rparr>"

end
