(* ===== verification/Authorize_Theorems.thy ===== *)
theory Authorize_Theorems
  imports Authorize
begin

text \<open>
  Who registers a name first keeps it, and what the map of connections means for monitoring.
\<close>

section \<open>Names of the registry\<close>

lemma policies_check_all: "policies_check ps input = Inr () \<longleftrightarrow> (\<forall>p. Some p \<in> set ps \<longrightarrow> p input)"
  by (induction ps input rule: policies_check.induct) auto

lemma policies_check_refused: "Some p \<in> set ps \<Longrightarrow> \<not> p input \<Longrightarrow> \<exists>e. policies_check ps input = Inl (Err e)"
  by (induction ps input rule: policies_check.induct) auto

text \<open>A caller that is not the owner of a name is refused, whatever the rest of the chain is: it is not called.\<close>

definition owned :: "(string \<rightharpoonup> string list) \<Rightarrow> string \<Rightarrow> string \<Rightarrow> bool" where
  "owned m n p \<longleftrightarrow> (\<exists>ps. m n = Some (p # ps))"

lemma not_allowed:
  assumes "owned m n p" "getSpiffeIDFromPath J path \<noteq> p"
  shows "\<not> client_allowed (opa_input J path n m side)"
  using assms by (auto simp: owned_def client_allowed_def opa_input_def)

lemma Register_refused:
  assumes "Some client_allowed \<in> set ps" "owned (fst st) (name r) p" "getSpiffeIDFromPath J path \<noteq> p"
  shows "\<exists>e. authorize_Register name pids J ps path nxt r st = (Inl e, st)"
proof (cases "getLeftSideOfPath path")
  case (Some l)
  obtain e where "policies_check ps (opa_input J path (name r) (fst st) l) = Inl (Err e)"
    using policies_check_refused [OF assms(1) not_allowed [OF assms(2,3)]] by blast
  then show ?thesis using Some assms(1) by (auto simp: authorize_Register_def)
qed (use assms(1) in \<open>auto simp: authorize_Register_def\<close>)

lemma Unregister_refused:
  assumes "Some client_allowed \<in> set ps" "owned (fst st) (name r) p" "getSpiffeIDFromPath J path \<noteq> p"
  shows "\<exists>e. authorize_Unregister name J ps path nxt r st = (Inl e, st)"
proof (cases "getLeftSideOfPath path")
  case (Some l)
  obtain e where "policies_check ps (opa_input J path (name r) (fst st) l) = Inl (Err e)"
    using policies_check_refused [OF assms(1) not_allowed [OF assms(2,3)]] by blast
  then show ?thesis using Some assms(1) by (auto simp: authorize_Unregister_def)
qed (use assms(1) in \<open>auto simp: authorize_Unregister_def\<close>)

text \<open>
  Calls that are not the owner's of name \<open>n\<close>: of another name, or by another identity. The rest of the chain keeps the name of what it registers
  and the entry of \<open>n\<close>; other calls are steps of their own.
\<close>

definition keeps_entry :: "('r \<Rightarrow> string) \<Rightarrow> string \<Rightarrow> ('r \<Rightarrow> (string \<rightharpoonup> string list) \<times> 's \<Rightarrow> (nsm_error + 'a) \<times> (string \<rightharpoonup> string list) \<times> 's) \<Rightarrow> bool" where
  "keeps_entry name n nxt \<longleftrightarrow> (\<forall>r st. fst (snd (nxt r st)) n = fst st n)"

definition keeps_name :: "('r \<Rightarrow> string) \<Rightarrow> ('r, 's) register \<Rightarrow> bool" where
  "keeps_name name nxt \<longleftrightarrow> (\<forall>r st r' st'. nxt r st = (Inr r', st') \<longrightarrow> name r' = name r)"

inductive foreign_call :: "('r \<Rightarrow> string) \<Rightarrow> ('r \<Rightarrow> string list) \<Rightarrow> jwt \<Rightarrow> RegistryOpaInput policies \<Rightarrow> string \<Rightarrow> string \<Rightarrow>
    (string \<rightharpoonup> string list) \<times> 's \<Rightarrow> (string \<rightharpoonup> string list) \<times> 's \<Rightarrow> bool"
  for name pids J ps n p where
  register: "keeps_entry name n nxt \<Longrightarrow> keeps_name name nxt \<Longrightarrow> name r \<noteq> n \<or> getSpiffeIDFromPath J path \<noteq> p \<Longrightarrow>
    foreign_call name pids J ps n p st (snd (authorize_Register name pids J ps path nxt r st))"
| unregister: "keeps_entry name n nxt \<Longrightarrow> name r \<noteq> n \<or> getSpiffeIDFromPath J path \<noteq> p \<Longrightarrow>
    foreign_call name pids J ps n p st (snd (authorize_Unregister name J ps path nxt r st))"

lemma foreign_call_keeps:
  assumes "foreign_call name pids J ps n p st st'" "Some client_allowed \<in> set ps" "owned (fst st) n p"
  shows "fst st' n = fst st n"
  using assms
proof induction
  case (register nxt r path st)
  note reg = register
  show ?case
  proof (cases "name r = n")
    case True
    then obtain e where "authorize_Register name pids J ps path nxt r st = (Inl e, st)"
      using Register_refused [OF reg(4), of st name r p J path pids nxt] reg(3,5) by auto
    then show ?thesis by simp
  next
    case False
    obtain x m s where nx: "nxt r st = (x, m, s)" using prod_cases3 by blast
    moreover have "fst (snd (nxt r st)) n = fst st n" using reg(1) unfolding keeps_entry_def by blast
    ultimately have "m n = fst st n" by simp
    moreover have "name r' = name r" if "x = Inr r'" for r' using reg(2) nx that unfolding keeps_name_def by blast
    ultimately show ?thesis using False nx by (auto simp: authorize_Register_def split: option.split sum.split)
  qed
next
  case (unregister nxt r path st)
  note un = unregister
  show ?case
  proof (cases "name r = n")
    case True
    then obtain e where "authorize_Unregister name J ps path nxt r st = (Inl e, st)"
      using Unregister_refused [OF un(3), of st name r p J path nxt] un(2,4) by auto
    then show ?thesis by simp
  next
    case False
    have "fst (snd (nxt r st2)) n = fst st2 n" for st2 using un(1) unfolding keeps_entry_def by blast
    then show ?thesis using False by (auto simp: authorize_Unregister_def split: option.split sum.split)
  qed
qed

lemma foreign_calls_keep:
  assumes "(foreign_call name pids J ps n p)\<^sup>*\<^sup>* st st'" "Some client_allowed \<in> set ps" "owned (fst st) n p"
  shows "fst st' n = fst st n"
  using assms(1)
proof (induction rule: rtranclp_induct)
  case (step st1 st2)
  then show ?case using foreign_call_keeps [OF step(2) assms(2)] assms(3) by (simp add: owned_def)
qed simp

text \<open>
  C4. With the policy \<^verbatim>\<open>client_allowed\<close>, a name that is registered with its owner's identity first keeps its entry through any calls of others
  and on other names, and every call of another identity on it is refused before it reaches the registry.
\<close>

theorem registered_name_protected:
  assumes "(foreign_call nse_name nse_PathIds J ps n p)\<^sup>*\<^sup>* st st'" "Some client_allowed \<in> set ps" "fst st n = Some (p # qs)"
    and "nse_name nse = n" "getSpiffeIDFromPath J path \<noteq> p"
  shows "fst st' n = Some (p # qs) \<and> (\<exists>e. authorizeNSEServer_Register J ps path nxt nse st' = (Inl e, st')) \<and>
    (\<exists>e. authorizeNSEServer_Unregister J ps path unxt nse st' = (Inl e, st'))"
proof -
  have o: "owned (fst st) n p" using assms(3) by (auto simp: owned_def)
  have k: "fst st' n = fst st n" by (rule foreign_calls_keep [OF assms(1,2) o])
  then have o': "owned (fst st') (nse_name nse) p" using o assms(4) by (simp add: owned_def)
  show ?thesis
    unfolding authorizeNSEServer_Register_def authorizeNSEServer_Unregister_def
    using k assms(3) Register_refused [where name = nse_name and st = st' and r = nse, OF assms(2) o' assms(5)]
      Unregister_refused [where name = nse_name and st = st' and r = nse, OF assms(2) o' assms(5)] by simp
qed

text \<open>Another endpoint is registered meanwhile, by the identity that is refused then.\<close>

lemma registered_name_protected_witness:
  "\<exists>e. authorizeNSEServer_Register \<lparr>ParseUnverified = (\<lambda>t. Some [(''sub'', ClaimString t)]), spiffeid_FromString = Inr\<rparr> [Some client_allowed]
     \<lparr>rp_Index = 0, rp_PathSegments = [\<lparr>Token = ''eve''\<rparr>]\<rparr> (\<lambda>r st. (Inr r, st))
     \<lparr>nse_name = ''a'', NetworkServiceNames = None, NetworkServiceLabels = None, Url = [], ExpirationTime = None, nse_PathIds = []\<rparr>
     ([''a'' \<mapsto> [''alice''], ''b'' \<mapsto> []], ()) = (Inl e, [''a'' \<mapsto> [''alice''], ''b'' \<mapsto> []], ())"
proof -
  let ?J = "\<lparr>ParseUnverified = (\<lambda>t. Some [(''sub'', ClaimString t)]), spiffeid_FromString = Inr\<rparr>"
  let ?path = "\<lparr>rp_Index = 0, rp_PathSegments = [\<lparr>Token = ''eve''\<rparr>]\<rparr>"
  let ?nse = "\<lambda>n. \<lparr>nse_name = n, NetworkServiceNames = None, NetworkServiceLabels = None, Url = [], ExpirationTime = None, nse_PathIds = []\<rparr>"
  let ?nxt = "\<lambda>(r :: NetworkServiceEndpoint) (st :: (string \<rightharpoonup> string list) \<times> unit). (Inr r, st)" and ?st = "([''a'' \<mapsto> [''alice'']] :: string \<rightharpoonup> string list, ())"
  have id: "getSpiffeIDFromPath ?J ?path = ''eve''" by (simp add: getSpiffeIDFromPath_def idString_def getIDFromToken_def)
  have "keeps_entry nse_name ''a'' ?nxt" "keeps_name nse_name ?nxt" by (auto simp: keeps_entry_def keeps_name_def)
  then have "foreign_call (nse_name :: NetworkServiceEndpoint \<Rightarrow> string) nse_PathIds ?J [Some client_allowed] ''a'' ''alice'' ?st
      (snd (authorize_Register nse_name nse_PathIds ?J [Some client_allowed] ?path ?nxt (?nse ''b'') ?st))"
    using foreign_call.register [of nse_name "''a''" ?nxt "?nse ''b''" ?J ?path "''alice''" nse_PathIds "[Some client_allowed]" ?st] by (simp add: id)
  also have "snd (authorize_Register nse_name nse_PathIds ?J [Some client_allowed] ?path ?nxt (?nse ''b'') ?st) = ([''a'' \<mapsto> [''alice''], ''b'' \<mapsto> []], ())"
    by (simp add: authorize_Register_def getLeftSideOfPath_def client_allowed_def opa_input_def)
  finally have "(foreign_call (nse_name :: NetworkServiceEndpoint \<Rightarrow> string) nse_PathIds ?J [Some client_allowed] ''a'' ''alice'')\<^sup>*\<^sup>* ?st ([''a'' \<mapsto> [''alice''], ''b'' \<mapsto> []], ())" by (rule r_into_rtranclp)
  from registered_name_protected [OF this, of "[]" "?nse ''a''" ?path ?nxt "\<lambda>_ st. (Inr (), st)"] show ?thesis by (simp add: id)
qed

section \<open>Connections and their monitors\<close>

text \<open>A monitor is admitted exactly for a selector that names a connection of the caller.\<close>

lemma monitor_admitted:
  "authorize_MonitorConnections [Some service_connection] sid ids m = Inr () \<longleftrightarrow> (\<exists>c\<in>set ids. \<exists>cs. m sid = Some cs \<and> c \<in> cs)"
  by (auto simp: authorize_MonitorConnections_def service_connection_def Let_def split: option.splits)

text \<open>An admitted request makes its caller's connection known, and a close takes only this one away.\<close>

lemma request_admits_monitor:
  assumes "left_side (conn_of request) = Some l" "policies_check ps l = Inr ()" "previous_id (conn_of request) = Some c"
    and "nxt request (add_id sid c m, s) = (Inr conn, add_id sid c m, s')"
  shows "\<exists>m'. authorizeServer_Request ps True (Some sid) nxt request (m, s) = (Inr conn, m', s') \<and>
    authorize_MonitorConnections [Some service_connection] sid [c] m' = Inr ()"
  using assms unfolding monitor_admitted by (simp add: authorizeServer_Request_def Let_def add_id_def)

lemma close_keeps_others:
  assumes "c' \<noteq> c" "authorize_MonitorConnections [Some service_connection] sid [c'] m = Inr ()"
  shows "authorize_MonitorConnections [Some service_connection] sid [c'] (remove_id sid c m) = Inr ()"
  using assms unfolding monitor_admitted by (auto simp: remove_id_def Let_def)

text \<open>
  If one request of a caller fails behind the element, every monitor of that caller is refused from then on, of its other connections that are
  established too: the element forgets all of them.
\<close>

lemma failed_request_forgets:
  assumes "left_side (conn_of request) = Some l" "policies_check ps l = Inr ()" "previous_id (conn_of request) = Some c"
    and "nxt request (add_id sid c m, s) = (Inl (Err e), m', s')" "m sid = Some cs" "c' \<in> cs"
  shows "authorize_MonitorConnections [Some service_connection] sid [c'] m = Inr () \<and>
    (\<exists>m'' x. authorizeServer_Request ps True (Some sid) nxt request (m, s) = (Inl (Err e), m'', s') \<and>
      authorize_MonitorConnections [Some service_connection] sid [c'] m'' = Inl (Err x))"
proof -
  have r: "authorizeServer_Request ps True (Some sid) nxt request (m, s) = (Inl (Err e), m'(sid := None), s')"
    using assms(1-4) by (simp add: authorizeServer_Request_def Let_def)
  have "\<exists>x. authorize_MonitorConnections [Some service_connection] sid [c'] (m'(sid := None)) = Inl (Err x)"
    by (simp add: authorize_MonitorConnections_def service_connection_def)
  then show ?thesis using r assms(5,6) monitor_admitted [of sid "[c']" m] by auto
qed

text \<open>A caller with a connection \<open>x\<close> requests another, which fails.\<close>

lemma failed_request_forgets_witness:
  "\<exists>m'' x. authorizeServer_Request [] True (Some ''alice'') (\<lambda>_ st. (Inl (Err ''no endpoint''), st))
     \<lparr>req_connection = Some (empty_connection\<lparr>conn_path := Some \<lparr>Index = 1, PathSegments = [new_segment ''client'' ''y'', new_segment ''nsmgr'' ''z'']\<rparr>\<rparr>), MechanismPreferences = []\<rparr>
     ([''alice'' \<mapsto> {''x''}], ()) = (Inl (Err ''no endpoint''), m'', ()) \<and>
     authorize_MonitorConnections [Some service_connection] ''alice'' [''x''] m'' = Inl (Err x)"
  using failed_request_forgets [of "\<lparr>req_connection = Some (empty_connection\<lparr>conn_path := Some \<lparr>Index = 1, PathSegments = [new_segment ''client'' ''y'', new_segment ''nsmgr'' ''z'']\<rparr>\<rparr>), MechanismPreferences = []\<rparr>"
      _ "[]" "''y''" "\<lambda>_ st. (Inl (Err ''no endpoint''), st)" "''alice''" "[''alice'' \<mapsto> {''x''}]" "()" "''no endpoint''" _ "()" "{''x''}" "''x''"]
  by (simp add: left_side_def previous_id_def path_index_def path_segments_def conn_of_def)

text \<open>A caller at the first segment of the path makes the element panic if the policies let it through; the one on signed tokens does not.\<close>

lemma first_segment_panics:
  assumes "path_index (conn_of request) = 0" "length (path_segments (conn_of request)) < 2 ^ 32 - 1" "path_segments (conn_of request) \<noteq> []"
    and "policies_check ps (the (left_side (conn_of request))) = Inr ()"
  shows "authorizeServer_Request ps True (Some sid) nxt request st = (Inl Panic, st)"
proof -
  have "unat (- 1 :: u32) = 2 ^ 32 - 1" by (simp add: unsigned_minus_1_eq_mask mask_eq_exp_minus_1)
  then have "previous_id (conn_of request) = None" using assms(1,2) by (simp add: previous_id_def)
  moreover obtain l where "left_side (conn_of request) = Some l" using assms(1,3) by (cases "path_segments (conn_of request)") (simp_all add: left_side_def)
  ultimately show ?thesis using assms(4) by (simp add: authorizeServer_Request_def Let_def)
qed

end
