(* ===== verification/Single_Ipam.thy ===== *)
theory Single_Ipam
  imports P2P_Refine
begin

text \<open>
  The other address managers of \<^verbatim>\<open>networkservice/ipam\<close>: \<^verbatim>\<open>singlepointipam\<close>, which gives every connection one address and answers for all of them
  with its own, and \<^verbatim>\<open>strictipam\<close>, which resets what a request brings along. As in the point-to-point manager a pool is named by its place,
  and \<open>None\<close> is a panic of a pool operation.
\<close>

section \<open>The state\<close>

record singlePIpam =
  sp_infos :: "string \<rightharpoonup> connectionInfo"
  sp_pools :: "IPPool list"
  sp_prefixes :: "IPNet option list"
  myIPs :: "string list"
  masks :: "string list"
  sp_once :: bool
  sp_initErr :: bool

definition single_NewServer :: "IPNet option list \<Rightarrow> singlePIpam" where
  "single_NewServer ps = \<lparr>sp_infos = Map.empty, sp_pools = [], sp_prefixes = ps, myIPs = [], masks = [], sp_once = False, sp_initErr = False\<rparr>"

text \<open>\<^verbatim>\<open>cidr.BroadcastAddress\<close> on an IPv4 network, in 32-bit arithmetic; a shift by the width or more gives zero.\<close>

definition NetworkAddress :: "IPNet \<Rightarrow> IP" where
  "NetworkAddress n = IP_Mask (IP n) (Mask n)"

definition BroadcastAddress :: "IPNet \<Rightarrow> IP option" where
  "BroadcastAddress n =
     (let first = To4 (NetworkAddress n); (ones, bits) = Mask_Size (Mask n) in
      if first = [] then None
      else Some (be_bytes 4 (unat (of_nat (bytes_val first) + push_bit (bits - ones) 1 - 1 :: u32))))"

fun single_initLoop :: "IPNet option list \<Rightarrow> singlePIpam \<Rightarrow> singlePIpam option" where
  "single_initLoop [] s = Some s"
| "single_initLoop (None # ps) s = Some (s\<lparr>sp_initErr := True\<rparr>)"
| "single_initLoop (Some prefix # ps) s = do {
     let s = s\<lparr>masks := masks s @ [CHR ''/'' # print_nat (fst (Mask_Size (Mask prefix)))]\<rparr>;
     p \<leftarrow> NewWithNet prefix;
     (p, ok) \<leftarrow> (if To4 (IP prefix) \<noteq> [] then do {
                     ip \<leftarrow> BroadcastAddress prefix;
                     (r, p) \<leftarrow> PullIP p ip [];
                     Some (p, case r of Inl _ \<Rightarrow> False | Inr _ \<Rightarrow> True) }
                   else Some (p, True));
     if ok then single_initLoop ps (s\<lparr>sp_pools := sp_pools s @ [p]\<rparr>) else Some (s\<lparr>sp_initErr := True\<rparr>) }"

definition single_init :: "singlePIpam \<Rightarrow> singlePIpam option" where
  "single_init s = (if sp_prefixes s = [] then Some (s\<lparr>sp_initErr := True\<rparr>) else single_initLoop (sp_prefixes s) s)"

definition single_once :: "singlePIpam \<Rightarrow> singlePIpam option" where
  "single_once s = (if sp_once s then Some s else single_init (s\<lparr>sp_once := True\<rparr>))"

section \<open>Taking and giving back\<close>

definition setMyIP :: "nat \<Rightarrow> singlePIpam \<Rightarrow> (nsm_error option \<times> singlePIpam) option" where
  "setMyIP i s = do {
     (r, p) \<leftarrow> Pull (sp_pools s ! i);
     Some (case r of
       Inl _ \<Rightarrow> (Some (Err ''IPPool is empty''), s\<lparr>sp_pools := (sp_pools s)[i := p]\<rparr>)
     | Inr ip \<Rightarrow>
         (let t = IP_String ip @ masks s ! i; s = s\<lparr>sp_pools := (sp_pools s)[i := p]\<rparr> in
          (None, if i \<ge> length (myIPs s) then s\<lparr>myIPs := myIPs s @ [t]\<rparr> else s\<lparr>myIPs := (myIPs s)[i := t]\<rparr>))) }"

definition excluded_ip :: "IPPool \<Rightarrow> IPPool \<Rightarrow> IP \<Rightarrow> bool option" where
  "excluded_ip ex4 ex6 ip = do {
     a \<leftarrow> ContainsString ex4 (IP_String ip);
     if a then Some True else ContainsString ex6 (IP_String ip) }"

text \<open>
  The loops of \<^verbatim>\<open>getAddrs\<close> at prefix \<open>i\<close>: the manager's own address is changed until it is not excluded; then addresses are pulled until one is
  not excluded. An address that is pulled and not used does not go back.
\<close>

partial_function (option) ownLoop ::
  "nat \<Rightarrow> IPPool \<Rightarrow> IPPool \<Rightarrow> singlePIpam \<Rightarrow> ((nsm_error + IP) \<times> singlePIpam) option" where
  "ownLoop i ex4 ex6 s =
     (if i \<ge> length (myIPs s) then Some (Inl Panic, s)
      else let myIP = (case ParseCIDR (myIPs s ! i) of None \<Rightarrow> [] | Some (ip, _) \<Rightarrow> ip) in
        Option.bind (excluded_ip ex4 ex6 myIP) (\<lambda>b.
          if \<not> b then Some (Inr myIP, s)
          else Option.bind (setMyIP i s) (\<lambda>(e, s).
            case e of Some e \<Rightarrow> Some (Inl e, s) | None \<Rightarrow> ownLoop i ex4 ex6 s)))"

partial_function (option) srcLoop ::
  "nat \<Rightarrow> IP option \<Rightarrow> IPPool \<Rightarrow> IPPool \<Rightarrow> singlePIpam \<Rightarrow> ((nsm_error + connectionInfo) \<times> singlePIpam) option" where
  "srcLoop i dst ex4 ex6 s =
     Option.bind (Pull (sp_pools s ! i)) (\<lambda>(r, p).
       let s = s\<lparr>sp_pools := (sp_pools s)[i := p]\<rparr> in
       case r of
         Inl _ \<Rightarrow> Some (Inl (Err ''IPPool is empty''), s)
       | Inr ip \<Rightarrow>
           Option.bind (excluded_ip ex4 ex6 ip) (\<lambda>b.
             case dst of
               Some d \<Rightarrow>
                 if \<not> b then Some (Inr \<lparr>ci_ipPool = i, srcAddr = IP_String ip @ masks s ! i, dstAddr = IP_String d @ masks s ! i\<rparr>, s)
                 else srcLoop i dst ex4 ex6 s
             | None \<Rightarrow> srcLoop i dst ex4 ex6 s))"

text \<open>The prefixes in turn, from place \<open>i\<close> on, \<open>n\<close> of them; the last error is returned.\<close>

fun single_getAddrs :: "nat \<Rightarrow> nat \<Rightarrow> nsm_error \<Rightarrow> IPPool \<Rightarrow> IPPool \<Rightarrow> singlePIpam \<Rightarrow> ((nsm_error + connectionInfo) \<times> singlePIpam) option" where
  "single_getAddrs i 0 err ex4 ex6 s = Some (Inl err, s)"
| "single_getAddrs i (Suc n) err ex4 ex6 s = do {
     (e, s) \<leftarrow> (if i \<ge> length (myIPs s) then setMyIP i s else Some (None, s));
     case e of
       Some e \<Rightarrow> single_getAddrs (Suc i) n e ex4 ex6 s
     | None \<Rightarrow> do {
         (dst, s) \<leftarrow> ownLoop i ex4 ex6 s;
         if dst = Inl Panic then Some (Inl Panic, s)
         else do {
           (r, s) \<leftarrow> srcLoop i (case dst of Inl _ \<Rightarrow> None | Inr d \<Rightarrow> Some d) ex4 ex6 s;
           case r of Inr info \<Rightarrow> Some (Inr info, s) | Inl e \<Rightarrow> single_getAddrs (Suc i) n e ex4 ex6 s } } }"

definition addMaskIP :: "IP \<Rightarrow> string" where
  "addMaskIP ip = (if To4 ip \<noteq> [] then IP_String ip @ ''/32'' else IP_String ip @ ''/128'')"

definition single_free :: "connectionInfo \<Rightarrow> singlePIpam \<Rightarrow> singlePIpam option" where
  "single_free info s =
     (case ParseCIDR (srcAddr info) of
        None \<Rightarrow> Some s
      | Some (ip, _) \<Rightarrow>
          map_option (\<lambda>p. s\<lparr>sp_pools := (sp_pools s)[ci_ipPool info := p]\<rparr>) (AddNetString (sp_pools s ! ci_ipPool info) (addMaskIP ip)))"

section \<open>The handlers\<close>

definition single_load :: "string \<Rightarrow> IPPool \<Rightarrow> IPPool \<Rightarrow> IPContext \<Rightarrow> singlePIpam \<Rightarrow> (connectionInfo option \<times> IPContext \<times> singlePIpam) option" where
  "single_load i ex4 ex6 ipc s =
     (case sp_infos s i of
        None \<Rightarrow> Some (None, ipc, s)
      | Some info \<Rightarrow> do {
          a \<leftarrow> shouldUpdate info ex4;
          b \<leftarrow> (if a then Some True else shouldUpdate info ex6);
          if b then do {
            s \<leftarrow> single_free info s;
            Some (None, ipc\<lparr>DstIpAddrs := deleteAddr (DstIpAddrs ipc) (dstAddr info), SrcIpAddrs := deleteAddr (SrcIpAddrs ipc) (srcAddr info)\<rparr>, s) }
          else Some (Some info, ipc, s) })"

definition single_Request ::
  "'w request_chain \<Rightarrow> NetworkServiceRequest \<Rightarrow> singlePIpam \<Rightarrow> 'w \<Rightarrow> ((nsm_error + Connection) \<times> singlePIpam \<times> 'w) option" where
  "single_Request nxt request s w = do {
     s \<leftarrow> single_once s;
     if sp_initErr s then Some (Inl (Err ''failed to init IPAM server during request''), s, w)
     else do {
       conn \<leftarrow> req_connection request;
       let ctx = (case Context conn of None \<Rightarrow> empty_context | Some c \<Rightarrow> c);
       let ipc = (case IpContext ctx of None \<Rightarrow> empty_ip_context | Some c \<Rightarrow> c);
       (ex4, ex6) \<leftarrow> p2p_exclude (ExcludedPrefixes ipc);
       (keep, ipc, s) \<leftarrow> single_load (Id conn) ex4 ex6 ipc s;
       (info, s) \<leftarrow> (case keep of
           Some info \<Rightarrow> Some (Inr info, s)
         | None \<Rightarrow> do {
             (r, s) \<leftarrow> single_getAddrs 0 (length (sp_prefixes s)) (Err []) ex4 ex6 s;
             case r of
               Inl e \<Rightarrow> Some (Inl e, s)
             | Inr info \<Rightarrow> Some (Inr info, s\<lparr>sp_infos := (sp_infos s)(Id conn \<mapsto> info)\<rparr>) });
       case info of
         Inl e \<Rightarrow> Some (Inl e, s, w)
       | Inr info \<Rightarrow>
           let conn = conn\<lparr>Context := Some (ctx\<lparr>IpContext := Some (ipc\<lparr>SrcIpAddrs := addAddr (SrcIpAddrs ipc) (srcAddr info)\<rparr>)\<rparr>)\<rparr> in
           (case nxt (request\<lparr>req_connection := Some conn\<rparr>) w of
              (Inr conn, w) \<Rightarrow> Some (Inr conn, s, w)
            | (Inl Panic, w) \<Rightarrow> Some (Inl Panic, s, w)
            | (Inl e, w) \<Rightarrow>
                if keep = None then do { s \<leftarrow> single_free info s; Some (Inl e, s, w) }
                else Some (Inl e, s, w)) } }"

definition single_Close ::
  "'w close_chain \<Rightarrow> Connection \<Rightarrow> singlePIpam \<Rightarrow> 'w \<Rightarrow> ((nsm_error + unit) \<times> singlePIpam \<times> 'w) option" where
  "single_Close nxt conn s w = do {
     s \<leftarrow> single_once s;
     if sp_initErr s then Some (Inl (Err ''failed to init IPAM server during close''), s, w)
     else do {
       s \<leftarrow> (case sp_infos s (Id conn) of None \<Rightarrow> Some s | Some info \<Rightarrow> single_free info s);
       let (res, w) = nxt conn w;
       Some (res, s, w) } }"

section \<open>The strict manager\<close>

definition strict_pool :: "IPNet list \<Rightarrow> IPPool option" where
  "strict_pool ps = fold (\<lambda>n p. Option.bind p (\<lambda>p. AddNet p (Some n))) ps (Some (New IPv6len))"

fun strict_areAddressesValid :: "IPPool \<Rightarrow> string list \<Rightarrow> bool option" where
  "strict_areAddressesValid p [] = Some True"
| "strict_areAddressesValid p (srcIP # as) = do { b \<leftarrow> ContainsString p srcIP; if b then strict_areAddressesValid p as else Some False }"

definition strict_ipam_Request :: "IPPool \<Rightarrow> 's request_chain \<Rightarrow> NetworkServiceRequest \<Rightarrow> 's \<Rightarrow> ((nsm_error + Connection) \<times> 's) option" where
  "strict_ipam_Request pool nxt request s =
     (let conn = conn_of request; ipc = (case Context conn of None \<Rightarrow> empty_ip_context | Some c \<Rightarrow> case IpContext c of None \<Rightarrow> empty_ip_context | Some i \<Rightarrow> i) in
      do {
        a \<leftarrow> strict_areAddressesValid pool (SrcIpAddrs ipc);
        b \<leftarrow> (if a then strict_areAddressesValid pool (DstIpAddrs ipc) else Some False);
        Some (if b then nxt request s
              else case Context conn of
                None \<Rightarrow> (Inl Panic, s)
              | Some c \<Rightarrow> nxt (request\<lparr>req_connection := Some (conn\<lparr>Context := Some (c\<lparr>IpContext := Some empty_ip_context\<rparr>)\<rparr>)\<rparr>) s) })"

text \<open>
  What the single-address manager does with an address that was given back, and what the strict manager resets.
\<close>

section \<open>Addresses as text\<close>

lemma IP_String_pulled:
  assumes "length ip = IPv6len" "of_family L (ip_val ip)" "aval a = ip_val ip"
  shows "IP_String (ipFromIPAddress a L) = IP_String ip"
proof -
  have v: "valid_IP ip" using assms(1) by (simp add: valid_IP_def)
  obtain b where b: "ipAddressFromIP ip = Some b" "aval b = ip_val ip"
    using ipAddressFromIP_Some [OF v] unfolding ip_val_def by metis
  have "b = a" using b(2) assms(3) aval_inject by metis
  then have w: "ipFromIPAddress a L = (if L = IPv4len then To4 ip else ip)"
    using words_bytes [OF b(1)] assms(1) by (simp add: ipFromIPAddress_def Let_def To16_def)
  show ?thesis
  proof (cases "L = IPv4len")
    case True
    then have "length (To4 ip) = IPv4len" using To4_of_v4 [OF v] assms(2) by (simp add: of_family_def)
    then show ?thesis using w True assms(1) by (auto simp: IP_String_def To4_def v4InV6Prefix_def)
  qed (simp add: w)
qed

lemma addMaskIP_names:
  assumes "length ip = IPv6len" "of_family L (ip_val ip)"
  shows "host_name L (addMaskIP ip) (ip_val ip)"
proof -
  have v: "valid_IP ip" using assms(1) by (simp add: valid_IP_def)
  have L: "L \<in> {IPv4len, IPv6len}" using assms(2) by (auto simp: of_family_def)
  have t: "To4 ip \<noteq> [] \<longleftrightarrow> L = IPv4len"
  proof
    assume n: "To4 ip \<noteq> []"
    then have "take 12 ip = v4InV6Prefix" using assms(1) by (auto simp: To4_def split: if_splits)
    then have "ip_val ip = 0xFFFF00000000 + bytes_val (drop 12 ip)"
      using bytes_val_v4 [of "drop 12 ip"] assms(1) v4_mapped_split by (simp add: ip_val_def To16_def)
    moreover have "bytes_val (drop 12 ip) < 256 ^ 4" using bytes_val_bound [of "drop 12 ip"] assms(1) by simp
    ultimately show "L = IPv4len" using assms(2) by (auto simp: of_family_def v4_block_def)
  qed (use To4_of_v4(1) [OF v] assms(2) in \<open>auto simp: of_family_def\<close>)
  have s: "IP_String (To4 ip) = IP_String ip" if "To4 ip \<noteq> []"
    using that assms(1) by (auto simp: IP_String_def To4_def v4InV6Prefix_def split: if_splits)
  have m: "simpleMaskLength (cidr_bytes 32 IPv4len) = Some 32" "simpleMaskLength (cidr_bytes 128 IPv6len) = Some 128"
    "print_nat 32 = ''32''" "print_nat 128 = ''128''" by code_simp+
  have "addMaskIP ip = IPNet_String (hostNet (New L) ip)"
    using t s m full_mask [OF L] assms(1) L
    by (auto simp: addMaskIP_def hostNet_def New_def IPNet_String_def networkNumberAndMask_def Let_def cidr_bytes_def To4_def v4InV6Prefix_def)
  then show ?thesis using host_name_hostNet [of "New L" L ip] v assms(2) by (simp add: New_def)
qed

section \<open>One pool\<close>

definition plain_conn :: "string \<Rightarrow> Connection" where
  "plain_conn i = empty_connection\<lparr>Id := i\<rparr>"

definition plain_req :: "string \<Rightarrow> NetworkServiceRequest" where
  "plain_req i = \<lparr>req_connection = Some (plain_conn i), MechanismPreferences = []\<rparr>"

definition given :: "string \<Rightarrow> string \<Rightarrow> Connection" where
  "given i t = (plain_conn i)\<lparr>Context := Some (empty_context\<lparr>IpContext := Some (empty_ip_context\<lparr>SrcIpAddrs := [t]\<rparr>)\<rparr>)\<rparr>"

definition one_pool :: "IPPool \<Rightarrow> string \<Rightarrow> singlePIpam \<Rightarrow> bool" where
  "one_pool p m s \<longleftrightarrow> sp_once s \<and> \<not> sp_initErr s \<and> length (sp_prefixes s) = 1 \<and> sp_pools s = [p] \<and> masks s = [m] \<and>
     length (myIPs s) = 1 \<and> pool_ok p"

lemma ContainsString_New [simp]: "ContainsString (New n) t = Some False"
proof -
  have "ParseIP_nil t = [] \<or> valid_IP (ParseIP_nil t)"
    using ParseIP_length [of t] by (auto simp: ParseIP_nil_def valid_IP_def split: option.splits)
  then show ?thesis
    using Contains_correct [of "New n" "ParseIP_nil t"] pool_inv_New [of n]
    by (auto simp: ContainsString_def Contains_def New_def)
qed

lemma no_excludes [simp]:
  "p2p_exclude [] = Some (New IPv4len, New IPv6len)" "excluded_ip (New n) (New k) ip = Some False"
  "shouldUpdate info (New n) = Some False"
  by (simp_all add: p2p_exclude_def excluded_ip_def shouldUpdate_def addrExcluded_def split: option.split)

definition echo :: "NetworkServiceRequest \<Rightarrow> 'w \<Rightarrow> (nsm_error + Connection) \<times> 'w" where
  "echo r w = (Inr (conn_of r), w)"

text \<open>A connection in the map is answered from it, whatever happened to its address since.\<close>

lemma single_again:
  assumes "sp_once s" "\<not> sp_initErr s" "sp_infos s i = Some info"
  shows "single_Request echo (plain_req i) s w = Some (Inr (given i (srcAddr info)), s, w)"
  using assms
  by (simp add: single_Request_def single_once_def plain_req_def plain_conn_def given_def single_load_def echo_def conn_of_def
      empty_connection_def empty_ip_context_def empty_context_def addAddr_def Let_def)

lemma single_new:
  assumes "one_pool p m s" "sp_infos s i = None" "length ip = IPv6len" "of_family (ipLength p) (ip_val ip)"
    and "ip_val ip \<in> pool_set p" "\<forall>x\<in>pool_set p. ip_val ip \<le> x"
  obtains s' dst where "single_Request echo (plain_req i) s w = Some (Inr (given i (IP_String ip @ m)), s', w)"
    "sp_once s'" "\<not> sp_initErr s'" "sp_infos s' = (sp_infos s)(i \<mapsto> \<lparr>ci_ipPool = 0, srcAddr = IP_String ip @ m, dstAddr = dst\<rparr>)"
proof -
  have s: "sp_once s" "\<not> sp_initErr s" "length (sp_prefixes s) = Suc 0" "sp_pools s = [p]" "masks s = [m]" "length (myIPs s) = 1" "pool_inv p"
    using assms(1) by (simp_all add: one_pool_def pool_ok_def)
  obtain a p' where a: "Pull p = Some (Inr (ipFromIPAddress a (ipLength p)), p')" "aval a \<in> pool_set p" "\<forall>n\<in>pool_set p. aval a \<le> n"
  proof -
    obtain r p' where r: "Pull p = Some (r, p')" "case r of Inl e \<Rightarrow> e = PoolEmpty \<and> pool_set p = {} \<and> p' = p
        | Inr ip \<Rightarrow> \<exists>a. ip = ipFromIPAddress a (ipLength p) \<and> aval a \<in> pool_set p \<and> (\<forall>n\<in>pool_set p. aval a \<le> n) \<and>
            pool_set p' = pool_set p - {aval a}"
      using Pull_correct [OF s(7)] by (elim exE conjE) (rule that)
    show ?thesis
    proof (cases r)
      case (Inr x)
      then obtain a where "x = ipFromIPAddress a (ipLength p)" "aval a \<in> pool_set p" "\<forall>n\<in>pool_set p. aval a \<le> n" using r(2) by auto
      then show ?thesis using that [of a p'] r(1) Inr by simp
    qed (use r(2) assms(5) in simp)
  qed
  have "aval a = ip_val ip" using a(2,3) assms(5,6) by (meson le_antisym)
  then have t: "IP_String (ipFromIPAddress a (ipLength p)) = IP_String ip" using IP_String_pulled assms(3,4) by blast
  let ?d = "case ParseCIDR (myIPs s ! 0) of None \<Rightarrow> [] | Some (ip, n) \<Rightarrow> ip"
  have own: "ownLoop 0 (New IPv4len) (New IPv6len) s = Some (Inr ?d, s)"
    using s(6) by (subst ownLoop.simps) (simp add: Let_def)
  have src: "srcLoop 0 (Some ?d) (New IPv4len) (New IPv6len) s =
    Some (Inr \<lparr>ci_ipPool = 0, srcAddr = IP_String ip @ m, dstAddr = IP_String ?d @ m\<rparr>, s\<lparr>sp_pools := [p']\<rparr>)"
    using a(1) s(4,5) t by (subst srcLoop.simps) (simp add: Let_def)
  show ?thesis
    by (rule that [of "s\<lparr>sp_pools := [p'], sp_infos := (sp_infos s)(i \<mapsto> \<lparr>ci_ipPool = 0, srcAddr = IP_String ip @ m, dstAddr = IP_String ?d @ m\<rparr>)\<rparr>"
          "IP_String ?d @ m"])
      (use s own src assms(2) in \<open>simp_all add: single_Request_def single_once_def plain_req_def plain_conn_def given_def single_load_def
        echo_def conn_of_def empty_connection_def empty_ip_context_def empty_context_def addAddr_def Let_def\<close>)
qed

lemma single_close_gives_back:
  assumes "one_pool p m s" "sp_infos s c = Some info" "ci_ipPool info = 0"
    and "ParseCIDR (srcAddr info) = Some (ip, n)" "of_family (ipLength p) (ip_val ip)"
  obtains p' where "single_Close (\<lambda>c w. (Inr (), w)) (plain_conn c) s w = Some (Inr (), s\<lparr>sp_pools := [p']\<rparr>, w)"
    "one_pool p' m (s\<lparr>sp_pools := [p']\<rparr>)" "ipLength p' = ipLength p" "pool_set p' = insert (ip_val ip) (pool_set p)"
proof -
  have s: "sp_once s" "\<not> sp_initErr s" "sp_pools s = [p]" "pool_inv p" "\<forall>x\<in>pool_set p. of_family (ipLength p) x"
    using assms(1) by (simp_all add: one_pool_def pool_ok_def)
  have h: "host_name (ipLength p) (addMaskIP ip) (ip_val ip)"
    using addMaskIP_names ParseCIDR_shape(1) [OF assms(4)] assms(5) by blast
  obtain p' where p': "AddNetString p (addMaskIP ip) = Some p'" "pool_inv p'" "ipLength p' = ipLength p"
    "pool_set p' = insert (ip_val ip) (pool_set p)"
    using AddNetString_correct [OF s(4), of "addMaskIP ip"] host_name_cidr [OF h] by auto
  show ?thesis
    by (rule that [of p']) (use s p' assms in \<open>simp_all add: single_Close_def single_once_def single_free_def plain_conn_def one_pool_def pool_ok_def\<close>)
qed

section \<open>An address given to two connections\<close>

text \<open>
  The manager keeps the entry of a connection that is closed: \<^verbatim>\<open>Close\<close> loads it from the map and does not delete it, while the address goes
  back to its pool. A request of a new connection gets the address, and a request of the closed connection is then answered with it as well, so
  two live connections have one address. This holds whenever the address is the least spare one, which is the next to be pulled.
\<close>

lemma single_close_shares:
  assumes "one_pool p m s" "sp_infos s c = Some info" "sp_infos s d = None" "ci_ipPool info = 0"
    and "ParseCIDR (srcAddr info) = Some (ip, n)" "srcAddr info = IP_String ip @ m"
    and "of_family (ipLength p) (ip_val ip)" "\<forall>x\<in>pool_set p. ip_val ip < x"
  shows "\<exists>s1 s2. single_Close (\<lambda>c w. (Inr (), w)) (plain_conn c) s w = Some (Inr (), s1, w) \<and>
    single_Request echo (plain_req d) s1 w = Some (Inr (given d (srcAddr info)), s2, w) \<and>
    single_Request echo (plain_req c) s2 w = Some (Inr (given c (srcAddr info)), s2, w)"
proof -
  obtain p' where p': "single_Close (\<lambda>c w. (Inr (), w)) (plain_conn c) s w = Some (Inr (), s\<lparr>sp_pools := [p']\<rparr>, w)"
    "one_pool p' m (s\<lparr>sp_pools := [p']\<rparr>)" "ipLength p' = ipLength p" "pool_set p' = insert (ip_val ip) (pool_set p)"
    using single_close_gives_back [OF assms(1,2,4,5,7)] .
  obtain s2 dst where s2: "single_Request echo (plain_req d) (s\<lparr>sp_pools := [p']\<rparr>) w = Some (Inr (given d (IP_String ip @ m)), s2, w)"
    "sp_once s2" "\<not> sp_initErr s2" "sp_infos s2 = (sp_infos s)(d \<mapsto> \<lparr>ci_ipPool = 0, srcAddr = IP_String ip @ m, dstAddr = dst\<rparr>)"
  proof (rule single_new [OF p'(2), of d ip w])
    show "\<forall>x\<in>pool_set p'. ip_val ip \<le> x" using p'(4) assms(8) by auto
  qed (use ParseCIDR_shape(1) [OF assms(5)] assms(3,7) p'(3,4) that in simp_all)
  have "c \<noteq> d" using assms(2,3) by auto
  then have "sp_infos s2 c = Some info" using s2(4) assms(2) by simp
  note again = single_again [OF s2(2,3) this, of w]
  show ?thesis by (rule exI, rule exI, intro conjI) (rule p'(1), use s2(1) assms(6) in simp, rule again)
qed


text \<open>The manager of \<open>10.0.0.0/30\<close> when all is given out: the first address is its own, \<open>c\<close> and \<open>e\<close> have the next two.\<close>

definition single_full :: singlePIpam where
  "single_full = \<lparr>sp_infos = [''c'' \<mapsto> \<lparr>ci_ipPool = 0, srcAddr = ''10.0.0.1/30'', dstAddr = ''10.0.0.0/30''\<rparr>,
       ''e'' \<mapsto> \<lparr>ci_ipPool = 0, srcAddr = ''10.0.0.2/30'', dstAddr = ''10.0.0.0/30''\<rparr>],
     sp_pools = [New IPv4len], sp_prefixes = [Some \<lparr>IP = [10, 0, 0, 0], Mask = [255, 255, 255, 252]\<rparr>],
     myIPs = [''10.0.0.0/30''], masks = [''/30''], sp_once = True, sp_initErr = False\<rparr>"

lemma single_close_shares_witness:
  "\<exists>s1 s2. single_Close (\<lambda>c w. (Inr (), w)) (plain_conn ''c'') single_full () = Some (Inr (), s1, ()) \<and>
    single_Request echo (plain_req ''d'') s1 () = Some (Inr (given ''d'' ''10.0.0.1/30''), s2, ()) \<and>
    single_Request echo (plain_req ''c'') s2 () = Some (Inr (given ''c'' ''10.0.0.1/30''), s2, ())"
proof -
  let ?ip = "v4InV6Prefix @ [10, 0, 0, 1]"
  have o: "one_pool (New IPv4len) ''/30'' single_full"
    using pool_inv_New [of IPv4len] by (simp add: one_pool_def single_full_def pool_ok_def New_def)
  have c: "IPNet_String \<lparr>IP = [10, 0, 0, 1], Mask = cidr_bytes 30 IPv4len\<rparr> = ''10.0.0.1/30''" by code_simp
  obtain n where p: "ParseCIDR ''10.0.0.1/30'' = Some (?ip, n)"
    using ParseCIDR_host [of "[10, 0, 0, 1]" IPv4len 30] unfolding c by (simp add: To16_def)
  have v: "ip_val ?ip = 0xFFFF0A000001" by (simp add: ip_val_def To16_def v4InV6Prefix_def)
  have t: "''10.0.0.1/30'' = IP_String ?ip @ ''/30''" by code_simp
  have e: "pool_set (New IPv4len) = {}" using pool_inv_New [of IPv4len] by (simp add: New_def)
  let ?i = "\<lparr>ci_ipPool = 0, srcAddr = ''10.0.0.1/30'', dstAddr = ''10.0.0.0/30''\<rparr>"
  have f: "sp_infos single_full ''c'' = Some ?i" "sp_infos single_full ''d'' = None" "of_family (ipLength (New IPv4len)) (ip_val ?ip)"
    by (simp_all add: single_full_def v of_family_def v4_block_def New_def)
  have "srcAddr ?i = IP_String ?ip @ ''/30''" using t by simp
  note r = single_close_shares [OF o f(1,2) _ _ this f(3), of n "()"]
  show ?thesis using r p e by simp
qed

text \<open>
  A second prefix is of no use once the first is exhausted before the manager had an address of its own there: \<^verbatim>\<open>setMyIP(1)\<close> appends at the end
  of the list, at place 0, and the loop then reads place 1.
\<close>

lemma second_prefix_panics:
  assumes "sp_pools s = [p, q]" "masks s = [m, n]" "myIPs s = []" "Pull p = Some (Inl e, p)" "Pull q = Some (Inr ip, q')"
  shows "single_getAddrs 0 2 err ex4 ex6 s = Some (Inl Panic, s\<lparr>sp_pools := [p, q'], myIPs := [IP_String ip @ n]\<rparr>)"
  using assms by (simp add: numeral_2_eq_2 setMyIP_def ownLoop.simps)

section \<open>The strict manager\<close>

lemma parseIPv4Fields_slash: "CHR ''/'' \<in> set t \<Longrightarrow> parseIPv4Fields fs v l t = None"
proof (induction fs v l t rule: parseIPv4Fields.induct)
  case (2 fs v l c t)
  then show ?case by (auto simp: is_digit_def)
qed simp

text \<open>
  The strict manager tests addresses that carry their prefix length, which are no addresses to \<^verbatim>\<open>net.ParseIP\<close>: a request that comes back with the
  IPv4 addresses it was given is reset, whatever pool the manager watches, and what else the context of addresses held goes with them.
\<close>

lemma strict_resets_own_answers:
  assumes "SrcIpAddrs i = a # as" "firstSep a = Some (CHR ''.'')" "CHR ''/'' \<in> set a"
    and "req_connection request = Some conn" "Context conn = Some ctx" "IpContext ctx = Some i"
  shows "strict_ipam_Request pool nxt request s =
    Some (nxt (request\<lparr>req_connection := Some (conn\<lparr>Context := Some (ctx\<lparr>IpContext := Some empty_ip_context\<rparr>)\<rparr>)\<rparr>) s)"
proof -
  have "ParseIP a = None"
    using assms(2,3) parseIPv4Fields_slash by (simp add: ParseIP_def parseIPv4_def del: firstSep.simps)
  then have "ContainsString pool a = Some False" by (simp add: ContainsString_def ParseIP_nil_def Contains_def)
  then show ?thesis using assms by (simp add: strict_ipam_Request_def conn_of_def)
qed

text \<open>The manager's pool is made for IPv6 addresses and passes IPv4 prefixes over: it stays empty with them, and every address is refused.\<close>

lemma strict_pool_v4: "(\<And>n. n \<in> set ps \<Longrightarrow> length (IP n) = IPv4len) \<Longrightarrow> strict_pool ps = Some (New IPv6len)"
proof -
  have "fold (\<lambda>n p. Option.bind p (\<lambda>p. AddNet p (Some n))) ps (Some (New IPv6len)) = Some (New IPv6len)"
    if "\<forall>n\<in>set ps. length (IP n) = IPv4len"
    using that by (induction ps) (simp_all add: AddNet_def New_def)
  then show "(\<And>n. n \<in> set ps \<Longrightarrow> length (IP n) = IPv4len) \<Longrightarrow> strict_pool ps = Some (New IPv6len)" by (simp add: strict_pool_def)
qed

end
