(* ===== verification/Metadata_Store.thy ===== *)
theory Metadata_Store
  imports Registry_Api
begin

text \<open>
  Metadata of connections and registrations (\<^verbatim>\<open>networkservice/utils/metadata\<close>, \<^verbatim>\<open>registry/utils/metadata\<close>). Elements keep what belongs to one
  connection in a cell that the metadata element puts into the context of the call. A cell is a place of the heap; the context holds its address,
  if any. Elements store under keys of their own; a cell has a half for clients and one for servers.
\<close>

section \<open>Cells and contexts\<close>

record 'v metaData =
  md_client :: "string \<rightharpoonup> 'v"
  md_server :: "string \<rightharpoonup> 'v"

type_synonym 'v md_heap = "'v metaData list"

definition empty_cell :: "'v metaData" where
  "empty_cell = \<lparr>md_client = Map.empty, md_server = Map.empty\<rparr>"

definition md_new :: "'v md_heap \<Rightarrow> nat \<times> 'v md_heap" where
  "md_new h = (length h, h @ [empty_cell])"

text \<open>A context that has a cell already, from a metadata element further out, is passed on as it is.\<close>

definition md_store :: "nat option \<Rightarrow> string \<Rightarrow> (string \<rightharpoonup> nat) \<Rightarrow> 'v md_heap \<Rightarrow> nat option \<times> (string \<rightharpoonup> nat) \<times> 'v md_heap" where
  "md_store parent i m h =
     (case parent of
        Some a \<Rightarrow> (Some a, m, h)
      | None \<Rightarrow>
          (case m i of
             Some a \<Rightarrow> (Some a, m, h)
           | None \<Rightarrow> let (a, h) = md_new h in (Some a, m(i \<mapsto> a), h)))"

definition md_load :: "nat option \<Rightarrow> string \<Rightarrow> (string \<rightharpoonup> nat) \<Rightarrow> nat option" where
  "md_load parent i m = (case parent of Some a \<Rightarrow> Some a | None \<Rightarrow> m i)"

definition md_del :: "nat option \<Rightarrow> string \<Rightarrow> (string \<rightharpoonup> nat) \<Rightarrow> 'v md_heap \<Rightarrow> nat option \<times> (string \<rightharpoonup> nat) \<times> 'v md_heap" where
  "md_del parent i m h =
     (case parent of
        Some a \<Rightarrow> (Some a, m, h)
      | None \<Rightarrow>
          (case m i of
             Some a \<Rightarrow> (Some a, m(i := None), h)
           | None \<Rightarrow> let (a, h) = md_new h in (Some a, m, h)))"

text \<open>What an element gets from its context; \<open>None\<close> is the panic without a metadata element.\<close>

definition metadata_Map :: "nat option \<Rightarrow> bool \<Rightarrow> 'v md_heap \<Rightarrow> (string \<rightharpoonup> 'v) option" where
  "metadata_Map parent isClient h = map_option (\<lambda>a. if isClient then md_client (h ! a) else md_server (h ! a)) parent"

section \<open>The elements\<close>

text \<open>
  All elements have the same two bodies, over the key of their message. The rest of the chain gets the context with the cell and may write to the
  heap. The state is the map of the element, the heap, and the rest of the world.
\<close>

type_synonym ('r, 'a, 'v, 's) md_chain = "nat option \<Rightarrow> 'r \<Rightarrow> 'v md_heap \<times> 's \<Rightarrow> (nsm_error + 'a) \<times> 'v md_heap \<times> 's"
type_synonym ('r, 'a, 'v, 's) md_element =
  "nat option \<Rightarrow> 'r \<Rightarrow> (string \<rightharpoonup> nat) \<times> 'v md_heap \<times> 's \<Rightarrow> (nsm_error + 'a) \<times> (string \<rightharpoonup> nat) \<times> 'v md_heap \<times> 's"

definition md_open :: "('r \<Rightarrow> string) \<Rightarrow> ('r, 'a, 'v, 's) md_chain \<Rightarrow> ('r, 'a, 'v, 's) md_element" where
  "md_open key nxt ctx r = (\<lambda>(m, h, s).
     let i = key r; isEstablished = (m i \<noteq> None); (c, m, h) = md_store ctx i m h in
     case nxt c r (h, s) of
       (Inr a, h, s) \<Rightarrow> (Inr a, m, h, s)
     | (Inl Panic, h, s) \<Rightarrow> (Inl Panic, m, h, s)
     | (Inl e, h, s) \<Rightarrow>
         if isEstablished then (Inl e, m, h, s)
         else let (c, m, h) = md_del ctx i m h in (Inl e, m, h, s))"

definition md_shut :: "('r \<Rightarrow> string) \<Rightarrow> ('r, 'a, 'v, 's) md_chain \<Rightarrow> ('r, 'a, 'v, 's) md_element" where
  "md_shut key nxt ctx r = (\<lambda>(m, h, s).
     let (c, m, h) = md_del ctx (key r) m h; (res, h, s) = nxt c r (h, s) in (res, m, h, s))"

definition md_find :: "('r \<Rightarrow> string) \<Rightarrow> ('r, 'a, 'v, 's) md_chain \<Rightarrow> ('r, 'a, 'v, 's) md_element" where
  "md_find key nxt ctx r = (\<lambda>(m, h, s). let (res, h, s) = nxt (md_load ctx (key r) m) r (h, s) in (res, m, h, s))"

definition metadataServer_Request :: "(NetworkServiceRequest, Connection, 'v, 's) md_chain \<Rightarrow> (NetworkServiceRequest, Connection, 'v, 's) md_element" where
  "metadataServer_Request = md_open (\<lambda>r. Id (conn_of r))"

definition metadataServer_Close :: "(Connection, unit, 'v, 's) md_chain \<Rightarrow> (Connection, unit, 'v, 's) md_element" where
  "metadataServer_Close = md_shut Id"

definition metaDataClient_Request :: "(NetworkServiceRequest, Connection, 'v, 's) md_chain \<Rightarrow> (NetworkServiceRequest, Connection, 'v, 's) md_element" where
  "metaDataClient_Request = md_open (\<lambda>r. Id (conn_of r))"

definition metaDataClient_Close :: "(Connection, unit, 'v, 's) md_chain \<Rightarrow> (Connection, unit, 'v, 's) md_element" where
  "metaDataClient_Close = md_shut Id"

definition metadataNSServer_Register :: "(NetworkServiceMsg, NetworkServiceMsg, 'v, 's) md_chain \<Rightarrow> (NetworkServiceMsg, NetworkServiceMsg, 'v, 's) md_element" where
  "metadataNSServer_Register = md_open ns_name"

definition metadataNSServer_Unregister :: "(NetworkServiceMsg, unit, 'v, 's) md_chain \<Rightarrow> (NetworkServiceMsg, unit, 'v, 's) md_element" where
  "metadataNSServer_Unregister = md_shut ns_name"

definition metaDataNSClient_Register :: "(NetworkServiceMsg, NetworkServiceMsg, 'v, 's) md_chain \<Rightarrow> (NetworkServiceMsg, NetworkServiceMsg, 'v, 's) md_element" where
  "metaDataNSClient_Register = md_open ns_name"

definition metaDataNSClient_Unregister :: "(NetworkServiceMsg, unit, 'v, 's) md_chain \<Rightarrow> (NetworkServiceMsg, unit, 'v, 's) md_element" where
  "metaDataNSClient_Unregister = md_shut ns_name"

text \<open>A query of network services is the service it asks for.\<close>

definition metadataNSServer_Find :: "(NetworkServiceMsg, 'a, 'v, 's) md_chain \<Rightarrow> (NetworkServiceMsg, 'a, 'v, 's) md_element" where
  "metadataNSServer_Find = md_find ns_name"

definition metaDataNSClient_Find :: "(NetworkServiceMsg, 'a, 'v, 's) md_chain \<Rightarrow> (NetworkServiceMsg, 'a, 'v, 's) md_element" where
  "metaDataNSClient_Find = md_find ns_name"

definition metadataNSEServer_Register :: "(NetworkServiceEndpoint, NetworkServiceEndpoint, 'v, 's) md_chain \<Rightarrow> (NetworkServiceEndpoint, NetworkServiceEndpoint, 'v, 's) md_element" where
  "metadataNSEServer_Register = md_open nse_name"

definition metadataNSEServer_Unregister :: "(NetworkServiceEndpoint, unit, 'v, 's) md_chain \<Rightarrow> (NetworkServiceEndpoint, unit, 'v, 's) md_element" where
  "metadataNSEServer_Unregister = md_shut nse_name"

definition metadataNSEServer_Find :: "(NSEQuery, 'a, 'v, 's) md_chain \<Rightarrow> (NSEQuery, 'a, 'v, 's) md_element" where
  "metadataNSEServer_Find = md_find (\<lambda>q. nse_name (q_nse q))"

definition metaDataNSEClient_Register :: "(NetworkServiceEndpoint, NetworkServiceEndpoint, 'v, 's) md_chain \<Rightarrow> (NetworkServiceEndpoint, NetworkServiceEndpoint, 'v, 's) md_element" where
  "metaDataNSEClient_Register = md_open nse_name"

definition metaDataNSEClient_Unregister :: "(NetworkServiceEndpoint, unit, 'v, 's) md_chain \<Rightarrow> (NetworkServiceEndpoint, unit, 'v, 's) md_element" where
  "metaDataNSEClient_Unregister = md_shut nse_name"

definition metaDataNSEClient_Find :: "(NSEQuery, 'a, 'v, 's) md_chain \<Rightarrow> (NSEQuery, 'a, 'v, 's) md_element" where
  "metaDataNSEClient_Find = md_find (\<lambda>q. nse_name (q_nse q))"

text \<open>
  The life of a metadata cell. One call at a time: a connection keeps its cell from the first request that succeeds to its close. In any interleaving
  of calls no two connections get the same cell, over the whole history.
\<close>

section \<open>One call\<close>

lemma md_refresh:
  assumes "m (key r) = Some a"
  shows "md_open key nxt None r (m, h, s) = (case nxt (Some a) r (h, s) of (res, h, s) \<Rightarrow> (res, m, h, s))"
  using assms by (auto simp: md_open_def md_store_def Let_def split: sum.splits prod.splits nsm_error.splits)

lemma md_first:
  assumes "m (key r) = None" "nxt (Some (length h)) r (h @ [empty_cell], s) = (Inr x, h', s')"
  shows "md_open key nxt None r (m, h, s) = (Inr x, m(key r \<mapsto> length h), h', s')"
  using assms by (simp add: md_open_def md_store_def md_new_def Let_def)

lemma md_first_fails:
  assumes "m (key r) = None" "nxt (Some (length h)) r (h @ [empty_cell], s) = (Inl (Err e), h', s')"
  shows "md_open key nxt None r (m, h, s) = (Inl (Err e), m, h', s')"
  using assms by (simp add: md_open_def md_store_def md_del_def md_new_def Let_def fun_upd_idem)

lemma md_close:
  assumes "m (key r) = Some a"
  shows "md_shut key nxt None r (m, h, s) = (case nxt (Some a) r (h, s) of (res, h, s) \<Rightarrow> (res, m(key r := None), h, s))"
  using assms by (simp add: md_shut_def md_del_def split: prod.splits)

text \<open>Behind another metadata element the map of this one stays as it is, and its chain gets the cell of the outer one.\<close>

lemma md_nested:
  "md_open key nxt (Some a) r (m, h, s) = (case nxt (Some a) r (h, s) of (res, h, s) \<Rightarrow> (res, m, h, s))"
  "md_shut key nxt (Some a) r (m, h, s) = (case nxt (Some a) r (h, s) of (res, h, s) \<Rightarrow> (res, m, h, s))"
  by (auto simp: md_open_def md_shut_def md_store_def md_del_def Let_def split: sum.splits prod.splits nsm_error.splits)

text \<open>A search for a name that is not registered here passes on a context without a cell, where elements that look for theirs panic.\<close>

lemma md_find_unregistered:
  "m (key r) = None \<Longrightarrow> md_find key nxt None r (m, h, s) = (case nxt None r (h, s) of (res, h, s) \<Rightarrow> (res, m, h, s))"
  "metadata_Map None isClient h = None"
  by (simp_all add: md_find_def md_load_def metadata_Map_def split: prod.splits)

section \<open>Interleaved calls\<close>

text \<open>
  Where a call is: it has looked whether the connection is established; it is in the rest of the chain with its cell; it is closing. Calls have
  numbers; \<open>handed\<close> records every cell that was put into a context, with the connection.
\<close>

datatype md_pc = Looked string bool | Inside string bool nat | Closing string nat

record 'v md_world =
  w_Map :: "string \<rightharpoonup> nat"
  w_heap :: "'v md_heap"
  w_calls :: "nat \<rightharpoonup> md_pc"
  handed :: "(string \<times> nat) set"

definition md_start :: "'v md_world" where
  "md_start = \<lparr>w_Map = Map.empty, w_heap = [], w_calls = Map.empty, handed = {}\<rparr>"

inductive md_step :: "'v md_world \<Rightarrow> 'v md_world \<Rightarrow> bool" where
  look: "w_calls w t = None \<Longrightarrow> md_step w (w\<lparr>w_calls := (w_calls w)(t \<mapsto> Looked i (w_Map w i \<noteq> None))\<rparr>)"
| enter: "w_calls w t = Some (Looked i e) \<Longrightarrow> md_store None i (w_Map w) (w_heap w) = (Some a, m, h) \<Longrightarrow>
    md_step w \<lparr>w_Map = m, w_heap = h, w_calls = (w_calls w)(t \<mapsto> Inside i e a), handed = insert (i, a) (handed w)\<rparr>"
| put: "w_calls w t \<in> {Some (Inside i e a), Some (Closing i a)} \<Longrightarrow> md_step w (w\<lparr>w_heap := (w_heap w)[a := c]\<rparr>)"
| accept: "w_calls w t = Some (Inside i e a) \<Longrightarrow> md_step w (w\<lparr>w_calls := (w_calls w)(t := None)\<rparr>)"
| reject: "w_calls w t = Some (Inside i False a) \<Longrightarrow> md_del None i (w_Map w) (w_heap w) = (c, m, h) \<Longrightarrow>
    md_step w (w\<lparr>w_Map := m, w_heap := h, w_calls := (w_calls w)(t := None)\<rparr>)"
| shut: "w_calls w t = None \<Longrightarrow> md_del None i (w_Map w) (w_heap w) = (Some a, m, h) \<Longrightarrow>
    md_step w \<lparr>w_Map = m, w_heap = h, w_calls = (w_calls w)(t \<mapsto> Closing i a), handed = insert (i, a) (handed w)\<rparr>"
| closed: "w_calls w t = Some (Closing i a) \<Longrightarrow> md_step w (w\<lparr>w_calls := (w_calls w)(t := None)\<rparr>)"

definition md_inv :: "'v md_world \<Rightarrow> bool" where
  "md_inv w \<longleftrightarrow> (\<forall>i a. w_Map w i = Some a \<longrightarrow> (i, a) \<in> handed w) \<and> (\<forall>i a. (i, a) \<in> handed w \<longrightarrow> a < length (w_heap w)) \<and>
     (\<forall>i j a. (i, a) \<in> handed w \<longrightarrow> (j, a) \<in> handed w \<longrightarrow> i = j)"

text \<open>A cell that is put into the context of a connection is its own or a new one.\<close>

lemma md_inv_hand:
  assumes "md_inv w" "w_Map w i = Some a \<and> h = w_heap w \<or> (a, h) = md_new (w_heap w)"
    and "\<And>j b. m j = Some b \<Longrightarrow> w_Map w j = Some b \<or> (j, b) = (i, a)"
  shows "md_inv \<lparr>w_Map = m, w_heap = h, w_calls = cs, handed = insert (i, a) (handed w)\<rparr>"
proof -
  note inv = assms(1) [unfolded md_inv_def]
  have own: "w_Map w i = Some a \<Longrightarrow> (i, a) \<in> handed w" using inv by blast
  have new: "(a, h) = md_new (w_heap w) \<Longrightarrow> a = length (w_heap w) \<and> length h = Suc a" by (simp add: md_new_def)
  have low: "\<And>j b. (j, b) \<in> handed w \<Longrightarrow> b < length (w_heap w)" using inv by blast
  have one: "\<And>j k b. (j, b) \<in> handed w \<Longrightarrow> (k, b) \<in> handed w \<Longrightarrow> j = k" using inv by blast
  have mp: "\<And>j b. w_Map w j = Some b \<Longrightarrow> (j, b) \<in> handed w" using inv by blast
  show ?thesis unfolding md_inv_def
  proof (intro conjI allI impI, goal_cases)
    case (1 j b)
    then show ?case using assms(3) mp by auto
  next
    case (2 j b)
    then show ?case using assms(2) own new low by fastforce
  next
    case (3 j k b)
    then show ?case using assms(2) own new low one by fastforce
  qed
qed

lemma md_step_inv: "md_step w w' \<Longrightarrow> md_inv w \<Longrightarrow> md_inv w'"
proof (induction rule: md_step.induct)
  case (enter w t i e a m h)
  show ?case by (rule md_inv_hand [OF enter(3)]) (use enter(2) in \<open>auto simp: md_store_def Let_def split: option.splits prod.splits if_splits\<close>)
next
  case (shut w t i a m h)
  show ?case by (rule md_inv_hand [OF shut(3)]) (use shut(2) in \<open>auto simp: md_del_def Let_def split: option.splits prod.splits if_splits\<close>)
next
  case (reject w t i a c m h)
  then have "(\<forall>j b. m j = Some b \<longrightarrow> w_Map w j = Some b) \<and> length (w_heap w) \<le> length h"
    by (auto simp: md_del_def md_new_def Let_def split: option.splits if_splits)
  then show ?case using reject(3) unfolding md_inv_def by simp (meson order_less_le_trans)
qed (auto simp: md_inv_def)

text \<open>
  C15. The metadata of different connections never mixes: whatever calls for whatever connections are in the chain at a time and however they end, a cell
  that was once put into the context of a call of one connection is never put into that of another, not even after the first connection was closed.
\<close>

theorem metadata_isolated:
  assumes "md_step\<^sup>*\<^sup>* md_start w" "(i, a) \<in> handed w" "(j, a) \<in> handed w"
  shows "i = j"
proof -
  have "md_inv w" using assms(1)
    by (induction rule: rtranclp_induct) (auto simp: md_start_def md_inv_def dest: md_step_inv [unfolded md_inv_def])
  then show ?thesis using assms(2,3) by (auto simp: md_inv_def)
qed

definition md_run :: "unit md_world list" where
  "md_run = (let w0 = md_start;
     w1 = w0\<lparr>w_calls := [0 \<mapsto> Looked ''c'' False]\<rparr>;
     w2 = w1\<lparr>w_calls := (w_calls w1)(1 \<mapsto> Looked ''d'' False)\<rparr>;
     w3 = \<lparr>w_Map = [''d'' \<mapsto> 0], w_heap = [empty_cell], w_calls = (w_calls w2)(1 \<mapsto> Inside ''d'' False 0), handed = {(''d'', 0)}\<rparr>;
     w4 = \<lparr>w_Map = [''d'' \<mapsto> 0, ''c'' \<mapsto> 1], w_heap = [empty_cell, empty_cell], w_calls = (w_calls w3)(0 \<mapsto> Inside ''c'' False 1),
       handed = {(''c'', 1), (''d'', 0)}\<rparr> in [w0, w1, w2, w3, w4])"

lemma metadata_isolated_witness:
  "\<exists>w :: unit md_world. md_step\<^sup>*\<^sup>* md_start w \<and> (''c'', 1) \<in> handed w \<and> (''d'', 0) \<in> handed w \<and> (''d'', 1) \<notin> handed w"
proof -
  have s: "md_step (md_run ! 0) (md_run ! 1)" "md_step (md_run ! 1) (md_run ! 2)"
    unfolding md_run_def Let_def using md_step.look [of "md_run ! 0" 0 "''c''"] md_step.look [of "md_run ! 1" 1 "''d''"]
    by (simp_all add: md_run_def md_start_def)
  have e: "md_step (md_run ! 2) (md_run ! 3)" "md_step (md_run ! 3) (md_run ! 4)"
    unfolding md_run_def Let_def
    using md_step.enter [of "md_run ! 2" 1 "''d''" False 0 "[''d'' \<mapsto> 0]" "[empty_cell]"]
      md_step.enter [of "md_run ! 3" 0 "''c''" False 1 "[''d'' \<mapsto> 0, ''c'' \<mapsto> 1]" "[empty_cell, empty_cell]"]
    by (simp_all add: md_run_def md_start_def md_store_def md_new_def)
  have r: "md_step\<^sup>*\<^sup>* (md_run ! 0) (md_run ! 4)"
    using rtranclp.rtrancl_into_rtrancl [OF rtranclp.rtrancl_into_rtrancl [OF rtranclp.rtrancl_into_rtrancl [OF r_into_rtranclp [of md_step, OF s(1)] s(2)] e(1)] e(2)] .
  have z: "md_run ! 0 = md_start" by (simp add: md_run_def)
  have h: "handed (md_run ! 4) = {(''c'', 1), (''d'', 0)}" by (simp add: md_run_def Let_def)
  have "(''d'', 1) \<notin> handed (md_run ! 4)"
    using metadata_isolated [OF r [unfolded z], of "''d''" 1 "''c''"] h by auto
  then show ?thesis using r [unfolded z] h by (intro exI [of _ "md_run ! 4"]) simp
qed

end
