(* ===== verification/Client_Links.thy ===== *)
theory Client_Links
  imports Registry_Api
begin

text \<open>
  How a client reaches the next application: the elements \<^verbatim>\<open>clienturl\<close>, \<^verbatim>\<open>clientconn\<close>, \<^verbatim>\<open>dial\<close> and \<^verbatim>\<open>connect\<close> of both sides. A call has a URL in its
  context; dialing it gives a gRPC connection, which is kept with the connection or registration until that is closed. The dialing itself and
  the remote application are arguments.
\<close>

section \<open>Connections and dialers\<close>

text \<open>
  A gRPC connection that was opened, to a target. A dialer has the URL it dialed last, the connection it made, and the connection that its
  \<^verbatim>\<open>cleanupCancel\<close> closes; the goroutine that does so is not delayed. Dialers and connections are named by their places. \<open>Foreign\<close> is a connection that
  the application brought along.
\<close>

record gconn =
  gc_target :: string
  gc_open :: bool

record dialer =
  clientURL :: "string option"
  ClientConn :: "nat option"
  cleanupCancel :: "nat option"

datatype grpc_conn = Foreign string | Dialer nat

record 'k links =
  opened :: "gconn list"
  dialers :: "dialer list"
  ccs :: "'k \<rightharpoonup> grpc_conn"

definition newDialer :: "'k links \<Rightarrow> nat \<times> 'k links" where
  "newDialer L = (length (dialers L), L\<lparr>dialers := dialers L @ [\<lparr>clientURL = None, ClientConn = None, cleanupCancel = None\<rparr>]\<rparr>)"

text \<open>Closing a dialer closes the connection it made last; a new dial does so first.\<close>

definition dialer_Close :: "nat \<Rightarrow> 'k links \<Rightarrow> 'k links" where
  "dialer_Close a L =
     (case cleanupCancel (dialers L ! a) of
        None \<Rightarrow> L
      | Some c \<Rightarrow> L\<lparr>opened := (opened L)[c := (opened L ! c)\<lparr>gc_open := False\<rparr>]\<rparr>)"

text \<open>The target of a URL: the host if the scheme is \<^verbatim>\<open>tcp\<close> (URLs carry no user), the whole URL otherwise; empty without one.\<close>

definition URLToTarget :: "string option \<Rightarrow> string" where
  "URLToTarget u =
     (case u of
        None \<Rightarrow> []
      | Some u \<Rightarrow> if take 6 u = ''tcp://'' then takeWhile (\<lambda>c. c \<noteq> CHR ''/'') (drop 6 u) else u)"

definition Dial :: "(string \<Rightarrow> bool) \<Rightarrow> nat \<Rightarrow> string option \<Rightarrow> 'k links \<Rightarrow> bool \<times> 'k links" where
  "Dial reach a u L =
     (let L = dialer_Close a L; d = (dialers L ! a)\<lparr>clientURL := u\<rparr>; n = length (opened L) in
      if reach (URLToTarget u) then
        (True, L\<lparr>opened := opened L @ [\<lparr>gc_target = URLToTarget u, gc_open = True\<rparr>],
                 dialers := (dialers L)[a := d\<lparr>ClientConn := Some n, cleanupCancel := Some n\<rparr>]\<rparr>)
      else (False, L\<lparr>dialers := (dialers L)[a := d]\<rparr>))"

section \<open>Where a connection is kept\<close>

text \<open>
  On the side of network services the key is the metadata cell of the connection. The registry keeps a map by name: the name of the call, else its
  URL; an empty name keeps nothing.
\<close>

definition nameFromContext :: "string option \<Rightarrow> string option \<Rightarrow> string" where
  "nameFromContext name url = (case name of Some n \<Rightarrow> n | None \<Rightarrow> case url of Some u \<Rightarrow> u | None \<Rightarrow> [])"

definition registry_key :: "string option \<Rightarrow> string option \<Rightarrow> string option" where
  "registry_key name url = (let k = nameFromContext name url in if k = [] then None else Some k)"

definition cc_Load :: "'k option \<Rightarrow> 'k links \<Rightarrow> grpc_conn option" where
  "cc_Load k L = (case k of None \<Rightarrow> None | Some k \<Rightarrow> ccs L k)"

definition cc_Store :: "'k option \<Rightarrow> grpc_conn \<Rightarrow> 'k links \<Rightarrow> 'k links" where
  "cc_Store k cc L = (case k of None \<Rightarrow> L | Some k \<Rightarrow> L\<lparr>ccs := (ccs L)(k \<mapsto> cc)\<rparr>)"

definition cc_Delete :: "'k option \<Rightarrow> 'k links \<Rightarrow> 'k links" where
  "cc_Delete k L = (case k of None \<Rightarrow> L | Some k \<Rightarrow> L\<lparr>ccs := (ccs L)(k := None)\<rparr>)"

definition cc_LoadOrStore :: "'k option \<Rightarrow> grpc_conn \<Rightarrow> 'k links \<Rightarrow> grpc_conn \<times> bool \<times> 'k links" where
  "cc_LoadOrStore k cc L = (case cc_Load k L of Some v \<Rightarrow> (v, True, L) | None \<Rightarrow> (cc, False, cc_Store k cc L))"

definition cc_LoadAndDelete :: "'k option \<Rightarrow> 'k links \<Rightarrow> grpc_conn option \<times> 'k links" where
  "cc_LoadAndDelete k L = (cc_Load k L, cc_Delete k L)"

section \<open>Elements\<close>

text \<open>
  The rest of a chain gets the URL of its context, the message, the connections and the state of the world; it may change the latter only. The
  state of an element is the connections and the world.
\<close>

type_synonym ('r, 'a, 'k, 's) link_chain = "string option \<Rightarrow> 'r \<Rightarrow> 'k links \<Rightarrow> 's \<Rightarrow> (nsm_error + 'a) \<times> 's"
type_synonym ('r, 'a, 'k, 's) link_call = "'r \<Rightarrow> 'k links \<times> 's \<Rightarrow> (nsm_error + 'a) \<times> 'k links \<times> 's"

definition keeps_links :: "(nsm_error + 'a) \<times> 's \<Rightarrow> 'k links \<Rightarrow> (nsm_error + 'a) \<times> 'k links \<times> 's" where
  "keeps_links res L = (fst res, L, snd res)"

text \<open>\<^verbatim>\<open>clienturl\<close>: the client of network services leaves the context alone when it has no URL; the other elements set it in any case.\<close>

definition clientURLClient_call :: "string option \<Rightarrow> (string option \<Rightarrow> 'b) \<Rightarrow> string option \<Rightarrow> 'b" where
  "clientURLClient_call u nxt url = nxt (if u \<noteq> None then u else url)"

definition clientURLServer_call :: "string option \<Rightarrow> (string option \<Rightarrow> 'b) \<Rightarrow> string option \<Rightarrow> 'b" where
  "clientURLServer_call u nxt url = nxt u"

text \<open>\<^verbatim>\<open>clientconn\<close> of network services: puts a given connection in, unless there is one, and takes only this one out again.\<close>

definition clientConnClient_Request ::
  "string option \<Rightarrow> 'k option \<Rightarrow> ('r, 'a, 'k, 's) link_call \<Rightarrow> ('r, 'a, 'k, 's) link_call" where
  "clientConnClient_Request cc k nxt r = (\<lambda>(L, s).
     case cc of None \<Rightarrow> nxt r (L, s) | Some c \<Rightarrow> let (v, l, L) = cc_LoadOrStore k (Foreign c) L in nxt r (L, s))"

definition clientConnClient_Close :: "string option \<Rightarrow> 'k option \<Rightarrow> ('r, 'a, 'k, 's) link_call \<Rightarrow> ('r, 'a, 'k, 's) link_call" where
  "clientConnClient_Close cc k nxt r = (\<lambda>(L, s).
     let (res, L, s) = nxt r (L, s) in
     case cc of
       None \<Rightarrow> (res, L, s)
     | Some c \<Rightarrow>
         (let (v, L) = cc_LoadAndDelete k L in
          case v of
            None \<Rightarrow> (res, L, s)
          | Some v \<Rightarrow> if v \<noteq> Foreign c then (res, cc_Store k v L, s) else (res, L, s)))"

text \<open>In the registry the element provides the map and the name, for a search a name of its own.\<close>

definition clientConn_registry_call :: "string \<Rightarrow> string option \<Rightarrow> (string option \<Rightarrow> 'b) \<Rightarrow> 'b" where
  "clientConn_registry_call name url nxt = nxt (registry_key (Some name) url)"

section \<open>Dialing\<close>

text \<open>
  The first part of a request: a dialer that was used for another URL dials that again, so that the rest of the chain closes there what it had. An
  error ends the request.
\<close>

definition close_old ::
  "('s \<Rightarrow> string \<Rightarrow> bool) \<Rightarrow> ('c, 'b, 'k, 's) link_chain \<Rightarrow> 'k option \<Rightarrow> nat \<Rightarrow> string \<Rightarrow> 'c \<Rightarrow> 'k links \<Rightarrow> 's \<Rightarrow> nsm_error option \<times> 'k links \<times> 's" where
  "close_old net nxt_close k a u c L s =
     (case clientURL (dialers L ! a) of
        None \<Rightarrow> (None, L, s)
      | Some old \<Rightarrow>
          if old = u then (None, L, s)
          else
            (let (ok, L) = Dial (net s) a (Some old) L in
             if \<not> ok then (Some (Err ''failed to dial''), cc_Delete k L, s)
             else let (res, s) = nxt_close (Some old) c L s in (if res = Inl Panic then Some Panic else None, L, s)))"

definition dialClient_Request ::
  "('s \<Rightarrow> string \<Rightarrow> bool) \<Rightarrow> ('r \<Rightarrow> 'c) \<Rightarrow> ('c, 'b, 'k, 's) link_chain \<Rightarrow> ('r, 'a, 'k, 's) link_chain \<Rightarrow> string option \<Rightarrow> 'k option \<Rightarrow> ('r, 'a, 'k, 's) link_call" where
  "dialClient_Request net connection nxt_close nxt url k r = (\<lambda>(L, s).
     case url of
       None \<Rightarrow> keeps_links (nxt None r L s) L
     | Some u \<Rightarrow>
         (let (n, L) = newDialer L; (cc, loaded, L) = cc_LoadOrStore k (Dialer n) L in
          case cc of
            Foreign c \<Rightarrow> keeps_links (nxt (Some u) r L s) L
          | Dialer a \<Rightarrow>
              (case close_old net nxt_close k a u (connection r) L s of
                 (Some e, L, s) \<Rightarrow> (Inl e, L, s)
               | (None, L, s) \<Rightarrow>
                   (let (ok, L) = Dial (net s) a (Some u) L in
                    if \<not> ok then (Inl (Err ''failed to dial''), if loaded then L else cc_Delete k (dialer_Close a L), s)
                    else case nxt (Some u) r L s of
                      (Inr x, s) \<Rightarrow> (Inr x, L, s)
                    | (Inl Panic, s) \<Rightarrow> (Inl Panic, L, s)
                    | (Inl e, s) \<Rightarrow> (Inl e, if loaded then L else cc_Delete k (dialer_Close a L), s)))))"

definition dialClient_Close ::
  "('s \<Rightarrow> string \<Rightarrow> bool) \<Rightarrow> ('c, 'b, 'k, 's) link_chain \<Rightarrow> string option \<Rightarrow> 'k option \<Rightarrow> ('c, 'b, 'k, 's) link_call" where
  "dialClient_Close net nxt url k c = (\<lambda>(L, s).
     case cc_Load k L of
       Some (Dialer a) \<Rightarrow>
         (let u = (case url of None \<Rightarrow> clientURL (dialers L ! a) | Some u \<Rightarrow> Some u); (ok, L) = Dial (net s) a u L; (res, s) = nxt url c L s in
          (res, cc_Delete k (dialer_Close a L), s))
     | _ \<Rightarrow> keeps_links (nxt url c L s) L)"

text \<open>The clients of the registry: after an error the dialer stays, closed; after a failed dial it does not.\<close>

definition dial_Register ::
  "('s \<Rightarrow> string \<Rightarrow> bool) \<Rightarrow> ('r, 'b, 'k, 's) link_chain \<Rightarrow> ('r, 'a, 'k, 's) link_chain \<Rightarrow> string option \<Rightarrow> 'k option \<Rightarrow> ('r, 'a, 'k, 's) link_call" where
  "dial_Register net nxt_unregister nxt url k r = (\<lambda>(L, s).
     case url of
       None \<Rightarrow> keeps_links (nxt None r L s) L
     | Some u \<Rightarrow>
         (let (n, L) = newDialer L; (cc, loaded, L) = cc_LoadOrStore k (Dialer n) L in
          case cc of
            Foreign c \<Rightarrow> keeps_links (nxt (Some u) r L s) L
          | Dialer a \<Rightarrow>
              (case close_old net nxt_unregister k a u r L s of
                 (Some e, L, s) \<Rightarrow> (Inl e, L, s)
               | (None, L, s) \<Rightarrow>
                   (let (ok, L) = Dial (net s) a (Some u) L in
                    if \<not> ok then (Inl (Err ''failed to dial''), cc_Delete k L, s)
                    else case nxt (Some u) r L s of
                      (Inr x, s) \<Rightarrow> (Inr x, L, s)
                    | (Inl Panic, s) \<Rightarrow> (Inl Panic, L, s)
                    | (Inl e, s) \<Rightarrow> (Inl e, dialer_Close a L, s)))))"

definition dialNSClient_Unregister ::
  "('s \<Rightarrow> string \<Rightarrow> bool) \<Rightarrow> ('r, 'b, 'k, 's) link_chain \<Rightarrow> string option \<Rightarrow> 'k option \<Rightarrow> ('r, 'b, 'k, 's) link_call" where
  "dialNSClient_Unregister net nxt url k r = (\<lambda>(L, s).
     case url of
       None \<Rightarrow> keeps_links (nxt None r L s) L
     | Some u \<Rightarrow>
         (case cc_Load k L of
            Some (Dialer a) \<Rightarrow>
              (let (ok, L) = Dial (net s) a (Some u) L; (res, s) = nxt (Some u) r L s in (res, cc_Delete k (dialer_Close a L), s))
          | _ \<Rightarrow> keeps_links (nxt (Some u) r L s) L))"

definition dialNSEClient_Unregister ::
  "('s \<Rightarrow> string \<Rightarrow> bool) \<Rightarrow> ('r, 'b, 'k, 's) link_chain \<Rightarrow> string option \<Rightarrow> 'k option \<Rightarrow> ('r, 'b, 'k, 's) link_call" where
  "dialNSEClient_Unregister net nxt url k r = (\<lambda>(L, s).
     case url of
       None \<Rightarrow> keeps_links (nxt None r L s) L
     | Some u \<Rightarrow>
         (let (n, L) = newDialer L; (cc, loaded, L) = cc_LoadOrStore k (Dialer n) L in
          case cc of
            Foreign c \<Rightarrow> keeps_links (nxt (Some u) r L s) L
          | Dialer a \<Rightarrow>
              (let (ok, L) = Dial (net s) a (Some u) L in
               if \<not> ok \<and> \<not> loaded then (Inl (Err ''failed to dial''), cc_Delete k (dialer_Close a L), s)
               else let (res, s) = nxt (Some u) r L s in (res, cc_Delete k (dialer_Close a L), s))))"

text \<open>
  A search dials for itself; when the stream of answers ends its connection is cleaned up. The result is the answer with the cleanup, by the place
  of the dialer.
\<close>

definition find_cleanup :: "'k option \<Rightarrow> nat \<Rightarrow> 'k links \<Rightarrow> 'k links" where
  "find_cleanup k a L = dialer_Close a (cc_Delete k L)"

definition dial_Find ::
  "('s \<Rightarrow> string \<Rightarrow> bool) \<Rightarrow> ('r, 'a, 'k, 's) link_chain \<Rightarrow> string option \<Rightarrow> 'k option \<Rightarrow> ('r, 'a \<times> nat option, 'k, 's) link_call" where
  "dial_Find net nxt url k r = (\<lambda>(L, s).
     case url of
       None \<Rightarrow> (case nxt None r L s of (Inl e, s) \<Rightarrow> (Inl e, L, s) | (Inr x, s) \<Rightarrow> (Inr (x, None), L, s))
     | Some u \<Rightarrow>
         (let (a, L) = newDialer L; (ok, L) = Dial (net s) a (Some u) L in
          if \<not> ok then (Inl (Err ''failed to dial''), L, s)
          else
            (let L = cc_Store k (Dialer a) L in
             case nxt (Some u) r L s of
               (Inl Panic, s) \<Rightarrow> (Inl Panic, L, s)
             | (Inl e, s) \<Rightarrow> (Inl e, find_cleanup k a L, s)
             | (Inr x, s) \<Rightarrow> (Inr (x, Some a), L, s))))"

section \<open>The end of a client chain\<close>

text \<open>
  \<^verbatim>\<open>connect\<close>: the client calls the remote application through the connection that is kept; a dialer without one fails, and so does gRPC on a closed one. The
  remote application is a function of its target.
\<close>

definition Invoke :: "(string \<Rightarrow> 'r \<Rightarrow> 's \<Rightarrow> (nsm_error + 'a) \<times> 's) \<Rightarrow> grpc_conn \<Rightarrow> 'k links \<Rightarrow> 'r \<Rightarrow> 's \<Rightarrow> (nsm_error + 'a) \<times> 's" where
  "Invoke remote cc L r s =
     (case cc of
        Foreign c \<Rightarrow> remote c r s
      | Dialer a \<Rightarrow>
          (case ClientConn (dialers L ! a) of
             None \<Rightarrow> (Inl (Err ''no dialer.ClientConn found''), s)
           | Some n \<Rightarrow>
               if gc_open (opened L ! n) then remote (gc_target (opened L ! n)) r s
               else (Inl (Err ''the client connection is closing''), s)))"

definition connectClient_call ::
  "(string \<Rightarrow> 'r \<Rightarrow> 's \<Rightarrow> (nsm_error + 'a) \<times> 's) \<Rightarrow> 'k option \<Rightarrow> ('r, 'a, 'k, 's) link_chain" where
  "connectClient_call remote k url r L s =
     (case cc_Load k L of
        None \<Rightarrow> (Inl (Err ''no grpc.ClientConnInterface provided''), s)
      | Some cc \<Rightarrow> Invoke remote cc L r s)"

text \<open>The server asks its client chain first and gives the answer to the rest of its own chain; if that fails it closes what the client got.\<close>

definition connectServer_Request ::
  "'s request_chain \<Rightarrow> 's close_chain \<Rightarrow> 's request_chain \<Rightarrow> 's request_chain" where
  "connectServer_Request client client_Close nxt request s =
     (case client request s of
        (Inl e, s) \<Rightarrow> (Inl e, s)
      | (Inr clientConn, s) \<Rightarrow>
          (case nxt (request\<lparr>req_connection := Some clientConn\<rparr>) s of
             (Inr c, s) \<Rightarrow> (Inr c, s)
           | (Inl Panic, s) \<Rightarrow> (Inl Panic, s)
           | (Inl e, s) \<Rightarrow> (case client_Close clientConn s of (Inl Panic, s) \<Rightarrow> (Inl Panic, s) | (_, s) \<Rightarrow> (Inl e, s))))"

definition close_both :: "(nsm_error + unit) \<Rightarrow> (nsm_error + unit) \<Rightarrow> nsm_error + unit" where
  "close_both clientErr serverErr =
     (case (clientErr, serverErr) of
        (Inl _, Inl Panic) \<Rightarrow> Inl Panic
      | (Inl _, Inl e) \<Rightarrow> Inl (Err ''errors during client close'')
      | (Inl _, Inr _) \<Rightarrow> Inl (Err ''errors during client close'')
      | (Inr _, r) \<Rightarrow> r)"

definition connectServer_Close :: "'s close_chain \<Rightarrow> 's close_chain \<Rightarrow> 's close_chain" where
  "connectServer_Close client_Close nxt conn s =
     (case client_Close conn s of
        (Inl Panic, s) \<Rightarrow> (Inl Panic, s)
      | (c, s) \<Rightarrow> let (r, s) = nxt conn s in (close_both c r, s))"

text \<open>
  The servers of the registry. They unregister through their client chain and then through \<^verbatim>\<open>next.NetworkServiceRegistryClient\<close>, which in a chain of servers
  finds no client: \<open>client_next\<close>.
\<close>

definition connect_Register ::
  "('r \<Rightarrow> 's \<Rightarrow> (nsm_error + 'r) \<times> 's) \<Rightarrow> ('r \<Rightarrow> 's \<Rightarrow> (nsm_error + unit) \<times> 's) \<Rightarrow> ('r \<Rightarrow> 's \<Rightarrow> (nsm_error + 'r) \<times> 's) \<Rightarrow> 'r \<Rightarrow> 's \<Rightarrow> (nsm_error + 'r) \<times> 's" where
  "connect_Register client client_Unregister nxt r s =
     (case client r s of
        (Inl e, s) \<Rightarrow> (Inl e, s)
      | (Inr clientResp, s) \<Rightarrow>
          (case nxt clientResp s of
             (Inr x, s) \<Rightarrow> (Inr x, s)
           | (Inl Panic, s) \<Rightarrow> (Inl Panic, s)
           | (Inl e, s) \<Rightarrow> (case client_Unregister clientResp s of (Inl Panic, s) \<Rightarrow> (Inl Panic, s) | (_, s) \<Rightarrow> (Inl e, s))))"

definition connect_Unregister ::
  "('r \<Rightarrow> 's \<Rightarrow> (nsm_error + unit) \<times> 's) \<Rightarrow> ('r \<Rightarrow> 's \<Rightarrow> (nsm_error + unit) \<times> 's) \<Rightarrow> 'r \<Rightarrow> 's \<Rightarrow> (nsm_error + unit) \<times> 's" where
  "connect_Unregister client_Unregister client_next r s =
     (case client_Unregister r s of
        (Inl Panic, s) \<Rightarrow> (Inl Panic, s)
      | (c, s) \<Rightarrow> let (n, s) = client_next r s in (close_both c n, s))"

text \<open>A search sends on what the client chain finds, until a send fails, and then asks the rest of the chain.\<close>

fun send_all :: "('x \<Rightarrow> 's \<Rightarrow> bool \<times> 's) \<Rightarrow> 'x list \<Rightarrow> 's \<Rightarrow> bool \<times> 's" where
  "send_all send [] s = (True, s)"
| "send_all send (x # xs) s = (let (ok, s) = send x s in if ok then send_all send xs s else (False, s))"

definition connect_Find ::
  "('q \<Rightarrow> 's \<Rightarrow> (nsm_error + 'x list) \<times> 's) \<Rightarrow> ('x \<Rightarrow> 's \<Rightarrow> bool \<times> 's) \<Rightarrow> ('q \<Rightarrow> 's \<Rightarrow> (nsm_error + unit) \<times> 's) \<Rightarrow> 'q \<Rightarrow> 's \<Rightarrow> (nsm_error + unit) \<times> 's" where
  "connect_Find client send nxt q s =
     (case client q s of
        (Inl e, s) \<Rightarrow> (Inl e, s)
      | (Inr xs, s) \<Rightarrow>
          let (ok, s) = send_all send xs s in if ok then nxt q s else (Inl (Err ''find server failed to send a response''), s))"

end
