(* ===== verification/Links_Theorems.thy ===== *)
theory Links_Theorems
  imports Client_Links
begin

text \<open>
  Every gRPC connection that a client opened is closed again, unless it is the current one of a connection that is kept; and a request with another URL
  closes at the old application before it asks the new one.
\<close>

section \<open>The invariant\<close>

definition link_of :: "'k links \<Rightarrow> 'k \<Rightarrow> nat \<Rightarrow> bool" where
  "link_of L k n \<longleftrightarrow> (\<exists>a. ccs L k = Some (Dialer a) \<and> ClientConn (dialers L ! a) = Some n)"

definition dialers_ok :: "'k links \<Rightarrow> bool" where
  "dialers_ok L \<longleftrightarrow>
     (\<forall>a<length (dialers L). cleanupCancel (dialers L ! a) = ClientConn (dialers L ! a)) \<and>
     (\<forall>a<length (dialers L). \<forall>n. ClientConn (dialers L ! a) = Some n \<longrightarrow> n < length (opened L)) \<and>
     (\<forall>a<length (dialers L). \<forall>b<length (dialers L). \<forall>n. ClientConn (dialers L ! a) = Some n \<longrightarrow> ClientConn (dialers L ! b) = Some n \<longrightarrow> a = b)"

definition entries_ok :: "'k links \<Rightarrow> bool" where
  "entries_ok L \<longleftrightarrow> (\<forall>k a. ccs L k = Some (Dialer a) \<longrightarrow> a < length (dialers L)) \<and>
     (\<forall>k k' a. ccs L k = Some (Dialer a) \<longrightarrow> ccs L k' = Some (Dialer a) \<longrightarrow> k = k')"

text \<open>The dialers that have an open connection; all of them are kept, except those in \<open>X\<close>.\<close>

definition live :: "'k links \<Rightarrow> nat \<Rightarrow> bool" where
  "live L a \<longleftrightarrow> a < length (dialers L) \<and> (\<exists>n<length (opened L). ClientConn (dialers L ! a) = Some n \<and> gc_open (opened L ! n))"

definition owned :: "'k links \<Rightarrow> bool" where
  "owned L \<longleftrightarrow> (\<forall>n<length (opened L). gc_open (opened L ! n) \<longrightarrow> (\<exists>a<length (dialers L). ClientConn (dialers L ! a) = Some n))"

definition kept :: "nat set \<Rightarrow> 'k links \<Rightarrow> bool" where
  "kept X L \<longleftrightarrow> (\<forall>a. live L a \<longrightarrow> a \<in> X \<or> (\<exists>k. ccs L k = Some (Dialer a)))"

definition link_inv :: "nat set \<Rightarrow> 'k links \<Rightarrow> bool" where
  "link_inv X L \<longleftrightarrow> dialers_ok L \<and> entries_ok L \<and> owned L \<and> kept X L"

lemma dialers_okD:
  assumes "dialers_ok L" "a < length (dialers L)"
  shows "cleanupCancel (dialers L ! a) = ClientConn (dialers L ! a)"
    and "ClientConn (dialers L ! a) = Some n \<Longrightarrow> n < length (opened L)"
    and "b < length (dialers L) \<Longrightarrow> ClientConn (dialers L ! a) = Some n \<Longrightarrow> ClientConn (dialers L ! b) = Some n \<Longrightarrow> a = b"
  using assms unfolding dialers_ok_def by (simp, simp, metis)

subsection \<open>Closing\<close>

lemma dialer_Close_same [simp]: "dialers (dialer_Close a L) = dialers L" "ccs (dialer_Close a L) = ccs L"
  "length (opened (dialer_Close a L)) = length (opened L)"
  by (simp_all add: dialer_Close_def split: option.split)

lemma dialer_Close_open:
  assumes "dialers_ok L" "a < length (dialers L)" "n < length (opened L)"
  shows "gc_open (opened (dialer_Close a L) ! n) \<longleftrightarrow> gc_open (opened L ! n) \<and> ClientConn (dialers L ! a) \<noteq> Some n"
  using assms dialers_okD(1) [OF assms(1,2)] by (cases "ClientConn (dialers L ! a) = Some n") (auto simp: dialer_Close_def nth_list_update split: option.split if_splits)

lemma dialer_Close_live:
  assumes "dialers_ok L" "a < length (dialers L)"
  shows "live (dialer_Close a L) b \<longleftrightarrow> live L b \<and> b \<noteq> a"
  using dialer_Close_open [OF assms] dialers_okD(3) [OF assms(1)] assms(2) unfolding live_def by (metis dialer_Close_same(1,3))

lemma link_inv_Close:
  assumes "link_inv X L" "a < length (dialers L)"
  shows "link_inv (X - {a}) (dialer_Close a L)"
proof -
  have d: "dialers_ok L" using assms(1) by (simp add: link_inv_def)
  have "owned (dialer_Close a L)" using assms dialer_Close_open [OF d assms(2)] by (simp add: link_inv_def owned_def)
  moreover have "kept (X - {a}) (dialer_Close a L)"
    using assms(1) dialer_Close_live [OF d assms(2)] by (auto simp: link_inv_def kept_def)
  ultimately show ?thesis using assms(1) by (simp add: link_inv_def dialers_ok_def entries_ok_def)
qed

subsection \<open>Entries\<close>

lemma link_inv_Delete:
  assumes "link_inv X L" "\<And>a. ccs L k = Some (Dialer a) \<Longrightarrow> a \<in> X \<or> \<not> live L a"
  shows "link_inv X (cc_Delete (Some k) L)"
proof -
  have "kept X (cc_Delete (Some k) L)"
    unfolding kept_def
  proof (intro allI impI)
    fix a assume "live (cc_Delete (Some k) L) a"
    then have l: "live L a" by (simp add: live_def cc_Delete_def)
    then consider "a \<in> X" | k' where "ccs L k' = Some (Dialer a)" using assms(1) by (auto simp: link_inv_def kept_def)
    then show "a \<in> X \<or> (\<exists>k'. ccs (cc_Delete (Some k) L) k' = Some (Dialer a))"
    proof cases
      case (2 k')
      then show ?thesis using assms(2) [of a] l by (cases "k' = k") (auto simp: cc_Delete_def)
    qed simp
  qed
  then show ?thesis
    using assms(1) by (auto simp: link_inv_def cc_Delete_def entries_ok_def dialers_ok_def owned_def)
qed

lemma close_delete_commute: "cc_Delete k (dialer_Close a L) = dialer_Close a (cc_Delete k L)"
  by (simp add: cc_Delete_def dialer_Close_def split: option.split)

lemma link_inv_drop:
  assumes "link_inv {} L" "ccs L k = Some (Dialer a)"
  shows "link_inv {} (cc_Delete (Some k) (dialer_Close a L))"
proof -
  have "a < length (dialers L)" using assms by (simp add: link_inv_def entries_ok_def)
  then have i: "link_inv {} (dialer_Close a L)" "\<not> live (dialer_Close a L) a"
    using link_inv_Close [of "{}" L a] dialer_Close_live [of L a a] assms(1) by (simp_all add: link_inv_def)
  show ?thesis by (rule link_inv_Delete [OF i(1)]) (use i(2) assms(2) in simp)
qed

lemma link_inv_new:
  assumes "link_inv {} L" "newDialer L = (n, L')"
  shows "link_inv {} L'" "n < length (dialers L')" "\<not> live L' n" "ccs L' = ccs L" "\<And>k. ccs L k \<noteq> Some (Dialer n)"
    "clientURL (dialers L' ! n) = None"
proof -
  have n: "n = length (dialers L)" "L' = L\<lparr>dialers := dialers L @ [\<lparr>clientURL = None, ClientConn = None, cleanupCancel = None\<rparr>]\<rparr>"
    using assms(2) by (simp_all add: newDialer_def)
  have e: "a < length (dialers L)" if "ccs L k = Some (Dialer a)" for k a using assms(1) that by (simp add: link_inv_def entries_ok_def)
  show "n < length (dialers L')" "\<not> live L' n" "ccs L' = ccs L" "clientURL (dialers L' ! n) = None" unfolding n(2) by (simp_all add: n(1) live_def)
  show "\<And>k. ccs L k \<noteq> Some (Dialer n)" using e n(1) by blast
  have l: "live L' a \<Longrightarrow> live L a" for a unfolding n(2) live_def by (auto simp: nth_append split: if_splits)
  have "dialers_ok L'" using assms(1) unfolding n(2) link_inv_def dialers_ok_def by (auto simp: nth_append less_Suc_eq)
  moreover have "owned L'" using assms(1) unfolding n(2) link_inv_def owned_def by (fastforce simp: nth_append)
  moreover have "entries_ok L'" using assms(1) e unfolding n(2) link_inv_def entries_ok_def by (auto simp: less_SucI)
  moreover have "kept {} L'" using assms(1) l unfolding link_inv_def kept_def n(2) by simp
  ultimately show "link_inv {} L'" by (simp add: link_inv_def)
qed

lemma link_inv_LoadOrStore:
  assumes "link_inv {} L" "n < length (dialers L)" "\<not> live L n" "\<And>k. ccs L k \<noteq> Some (Dialer n)"
    and "cc_LoadOrStore (Some k) (Dialer n) L = (cc, loaded, L')"
  shows "link_inv {} L'" "ccs L' k = Some cc" "dialers L' = dialers L" "loaded \<longleftrightarrow> ccs L k \<noteq> None" "\<not> loaded \<Longrightarrow> cc = Dialer n"
    "\<And>j. j \<noteq> k \<Longrightarrow> ccs L' j = ccs L j"
proof -
  show "link_inv {} L'"
  proof (cases "ccs L k")
    case None
    then have L': "L' = L\<lparr>ccs := (ccs L)(k \<mapsto> Dialer n)\<rparr>" using assms(5) by (auto simp: cc_LoadOrStore_def cc_Load_def cc_Store_def)
    have "kept {} L'" unfolding kept_def
    proof (intro allI impI)
      fix a assume "live L' a"
      then have l: "live L a" unfolding L' by (simp add: live_def)
      then obtain j where j: "ccs L j = Some (Dialer a)" using assms(1) by (auto simp: link_inv_def kept_def)
      then have "ccs L' j = Some (Dialer a)" using None unfolding L' by auto
      then show "a \<in> {} \<or> (\<exists>j. ccs L' j = Some (Dialer a))" by blast
    qed
    moreover have "entries_ok L'" using assms(1,2,4) unfolding L' by (auto simp: link_inv_def entries_ok_def)
    ultimately show ?thesis using assms(1) unfolding L' by (simp add: link_inv_def dialers_ok_def owned_def)
  qed (use assms(1,5) in \<open>simp add: cc_LoadOrStore_def cc_Load_def\<close>)
  show "ccs L' k = Some cc" "dialers L' = dialers L" "loaded \<longleftrightarrow> ccs L k \<noteq> None" "\<not> loaded \<Longrightarrow> cc = Dialer n" "\<And>j. j \<noteq> k \<Longrightarrow> ccs L' j = ccs L j"
    using assms(5) by (auto simp: cc_LoadOrStore_def cc_Load_def cc_Store_def split: option.splits)
qed

subsection \<open>Dialing\<close>

lemma Dial_keeps:
  assumes "link_inv {} L" "ccs L k = Some (Dialer a)" "Dial reach a u L = (ok, L')"
  shows "link_inv {} L'" "ccs L' = ccs L" "ok = reach (URLToTarget u)" "\<not> ok \<Longrightarrow> \<not> live L' a" "clientURL (dialers L' ! a) = u"
    "length (dialers L') = length (dialers L)"
    "ok \<Longrightarrow> \<exists>n<length (opened L'). ClientConn (dialers L' ! a) = Some n \<and> opened L' ! n = \<lparr>gc_target = URLToTarget u, gc_open = True\<rparr>"
proof -
  let ?C = "dialer_Close a L" and ?n = "length (opened L)"
  have a: "a < length (dialers L)" using assms(1,2) by (simp add: link_inv_def entries_ok_def)
  have i: "link_inv {} ?C" "\<not> live ?C a" using link_inv_Close [OF assms(1) a] dialer_Close_live [of L a a] a assms(1) by (simp_all add: link_inv_def)
  have d: "dialers_ok ?C" "owned ?C" "kept {} ?C" "entries_ok ?C" using i(1) by (simp_all add: link_inv_def)
  have "link_inv {} L' \<and> ccs L' = ccs L \<and> ok = reach (URLToTarget u) \<and> (\<not> ok \<longrightarrow> \<not> live L' a) \<and> clientURL (dialers L' ! a) = u \<and>
    length (dialers L') = length (dialers L) \<and>
    (ok \<longrightarrow> (\<exists>n<length (opened L'). ClientConn (dialers L' ! a) = Some n \<and> opened L' ! n = \<lparr>gc_target = URLToTarget u, gc_open = True\<rparr>))"
  proof (cases "reach (URLToTarget u)")
    case True
    then have L': "ok" "L' = ?C\<lparr>opened := opened ?C @ [\<lparr>gc_target = URLToTarget u, gc_open = True\<rparr>],
        dialers := (dialers L)[a := (dialers L ! a)\<lparr>clientURL := u, ClientConn := Some ?n, cleanupCancel := Some ?n\<rparr>]\<rparr>"
      using assms(3) by (auto simp: Dial_def Let_def)
    have low: "ClientConn (dialers L ! b) \<noteq> Some ?n" if "b < length (dialers L)" for b
      using dialers_okD(2) [OF d(1), of b ?n] that by auto
    have "dialers_ok L'"
      unfolding dialers_ok_def
    proof (intro conjI allI impI, goal_cases)
      case (1 b)
      then show ?case using dialers_okD(1) [OF d(1), of b] a unfolding L'(2) by (cases "b = a") (simp_all add: nth_list_update)
    next
      case (2 b n)
      then show ?case using dialers_okD(2) [OF d(1), of b n] a unfolding L'(2) by (cases "b = a") (auto simp: nth_list_update)
    next
      case (3 b c n)
      then show ?case using dialers_okD(3) [OF d(1), of b c n] low a unfolding L'(2) by (cases "b = a"; cases "c = a") (auto simp: nth_list_update)
    qed
    moreover have "live ?C b" if "live L' b" "b \<noteq> a" for b
      using that low unfolding L'(2) live_def by (auto simp: nth_list_update nth_append less_Suc_eq split: if_splits)
    then have "kept {} L'" using d(3) assms(2) unfolding kept_def L'(2) by fastforce
    moreover have "owned L'" unfolding owned_def
    proof (intro allI impI)
      fix n assume n: "n < length (opened L')" "gc_open (opened L' ! n)"
      show "\<exists>b<length (dialers L'). ClientConn (dialers L' ! b) = Some n"
      proof (cases "n = ?n")
        case True
        then show ?thesis using a unfolding L'(2) by (intro exI [of _ a]) simp
      next
        case False
        then have n': "n < length (opened ?C)" "gc_open (opened ?C ! n)" using n unfolding L'(2) by (simp_all add: nth_append split: if_splits)
        then obtain b where b: "b < length (dialers L)" "ClientConn (dialers L ! b) = Some n" using d(2) by (auto simp: owned_def)
        have "b \<noteq> a" using dialer_Close_open [of L a n] n' b a assms(1) by (auto simp: link_inv_def)
        then show ?thesis using b unfolding L'(2) by (intro exI [of _ b]) simp
      qed
    qed
    moreover have "entries_ok L'" using d(4) unfolding L'(2) by (simp add: entries_ok_def)
    ultimately show ?thesis using True a L'(1) unfolding link_inv_def by (simp add: L'(2) nth_append)
  next
    case False
    then have L': "\<not> ok" "L' = ?C\<lparr>dialers := (dialers L)[a := (dialers L ! a)\<lparr>clientURL := u\<rparr>]\<rparr>" using assms(3) by (auto simp: Dial_def Let_def)
    have c: "ClientConn (dialers L' ! b) = ClientConn (dialers ?C ! b)" "cleanupCancel (dialers L' ! b) = cleanupCancel (dialers ?C ! b)" for b
      unfolding L'(2) using a by (auto simp: nth_list_update)
    have s: "length (dialers L') = length (dialers ?C)" "opened L' = opened ?C" "ccs L' = ccs ?C" unfolding L'(2) by simp_all
    have l: "live L' b \<longleftrightarrow> live ?C b" for b unfolding live_def c s ..
    have "link_inv {} L'" using d unfolding link_inv_def dialers_ok_def owned_def kept_def entries_ok_def l unfolding c s by blast
    then show ?thesis using False L'(1) i(2) l a s by (simp add: L'(2))
  qed
  then show "link_inv {} L'" "ccs L' = ccs L" "ok = reach (URLToTarget u)" "\<not> ok \<Longrightarrow> \<not> live L' a" "clientURL (dialers L' ! a) = u"
    "length (dialers L') = length (dialers L)"
    "ok \<Longrightarrow> \<exists>n<length (opened L'). ClientConn (dialers L' ! a) = Some n \<and> opened L' ! n = \<lparr>gc_target = URLToTarget u, gc_open = True\<rparr>"
    by blast+
qed

lemma Dial_closes:
  assumes "dialers_ok L" "a < length (dialers L)" "Dial reach a u L = (ok, L')" "m < length (opened L)"
    and "ClientConn (dialers L ! a) = Some m \<or> \<not> gc_open (opened L ! m)"
  shows "\<not> gc_open (opened L' ! m)" "m < length (opened L')"
proof -
  have "\<not> gc_open (opened (dialer_Close a L) ! m)" using dialer_Close_open [OF assms(1,2,4)] assms(5) by blast
  then show "\<not> gc_open (opened L' ! m)" "m < length (opened L')"
    using assms(3,4) by (auto simp: Dial_def Let_def nth_append split: if_splits)
qed

section \<open>The elements keep it\<close>

lemma close_old_spec:
  assumes "link_inv {} L" "ccs L k = Some (Dialer a)" "close_old net nxtc (Some k) a u c L s = (e, L', s')"
  shows "link_inv {} L'" "ccs L' = (if e = None \<or> e = Some Panic then ccs L else (ccs L)(k := None))"
proof -
  have "link_inv {} L' \<and> ccs L' = (if e = None \<or> e = Some Panic then ccs L else (ccs L)(k := None))"
  proof (cases "clientURL (dialers L ! a)")
    case (Some old)
    obtain ok L1 where d: "Dial (net s) a (Some old) L = (ok, L1)" by fastforce
    note D = Dial_keeps [OF assms(1,2) d]
    have "link_inv {} (cc_Delete (Some k) L1)" if "\<not> ok"
      by (rule link_inv_Delete [OF D(1)]) (use D(2,4) that assms(2) in simp)
    moreover have "ccs (cc_Delete (Some k) L1) = (ccs L)(k := None)" using D(2) by (simp add: cc_Delete_def)
    ultimately show ?thesis using assms(1,3) D(1,2) Some d by (auto simp: close_old_def Let_def split: if_splits prod.splits)
  qed (use assms in \<open>simp add: close_old_def\<close>)
  then show "link_inv {} L'" "ccs L' = (if e = None \<or> e = Some Panic then ccs L else (ccs L)(k := None))" by blast+
qed

lemma dialClient_Request_inv:
  assumes "link_inv {} L" "dialClient_Request net cn nxtc nxt url (Some k) r (L, s) = (res, L', s')"
  shows "link_inv {} L'"
proof (cases url)
  case None
  then show ?thesis using assms by (simp add: dialClient_Request_def keeps_links_def)
next
  case (Some u)
  obtain n L1 where n: "newDialer L = (n, L1)" by fastforce
  note N = link_inv_new [OF assms(1) n]
  obtain cc loaded L2 where l: "cc_LoadOrStore (Some k) (Dialer n) L1 = (cc, loaded, L2)" using prod_cases3 by blast
  note S = link_inv_LoadOrStore [OF N(1,2,3) _ l, unfolded N(4), OF N(5)]
  show ?thesis
  proof (cases cc)
    case (Foreign c)
    then show ?thesis using assms(2) S(1) Some n l by (simp add: dialClient_Request_def keeps_links_def)
  next
    case (Dialer a)
    obtain e L3 s3 where c: "close_old net nxtc (Some k) a u (cn r) L2 s = (e, L3, s3)" using prod_cases3 by blast
    note C = close_old_spec [OF S(1) S(2) [unfolded Dialer] c]
    show ?thesis
    proof (cases e)
      case (Some x)
      then show ?thesis using assms(2) C(1) \<open>url = Some u\<close> n l c Dialer by (simp add: dialClient_Request_def)
    next
      case None
      then have k: "ccs L3 k = Some (Dialer a)" using C(2) S(2) Dialer by simp
      obtain ok L4 where d: "Dial (net s3) a (Some u) L3 = (ok, L4)" by fastforce
      note D = Dial_keeps [OF C(1) k d]
      have "link_inv {} (cc_Delete (Some k) (dialer_Close a L4))" by (rule link_inv_drop [OF D(1)]) (use D(2) k in simp)
      then show ?thesis using assms(2) D(1) \<open>url = Some u\<close> n l c Dialer None d
        by (auto simp: dialClient_Request_def split: if_splits prod.splits sum.splits nsm_error.splits)
    qed
  qed
qed

lemma dialClient_Close_inv:
  assumes "link_inv {} L" "dialClient_Close net nxt url (Some k) c (L, s) = (res, L', s')"
  shows "link_inv {} L'" "\<And>n. \<not> link_of L' k n"
proof -
  have "link_inv {} L' \<and> (\<forall>a. ccs L' k \<noteq> Some (Dialer a))"
  proof (cases "\<exists>a. ccs L k = Some (Dialer a)")
    case True
    then obtain a where k: "ccs L k = Some (Dialer a)" by blast
    let ?u = "case url of None \<Rightarrow> clientURL (dialers L ! a) | Some u \<Rightarrow> Some u"
    obtain ok L1 where d: "Dial (net s) a ?u L = (ok, L1)" by fastforce
    note D = Dial_keeps [OF assms(1) k d]
    have "link_inv {} (cc_Delete (Some k) (dialer_Close a L1))" by (rule link_inv_drop [OF D(1)]) (use D(2) k in simp)
    moreover have "L' = cc_Delete (Some k) (dialer_Close a L1)"
      using assms(2) k d by (auto simp: dialClient_Close_def cc_Load_def Let_def split: prod.splits)
    ultimately show ?thesis by (simp add: cc_Delete_def)
  next
    case False
    then have "L' = L" using assms(2) by (auto simp: dialClient_Close_def cc_Load_def keeps_links_def split: option.splits grpc_conn.splits)
    then show ?thesis using assms(1) False by blast
  qed
  then show "link_inv {} L'" "\<And>n. \<not> link_of L' k n" by (auto simp: link_of_def)
qed

lemma dial_Register_inv:
  assumes "link_inv {} L" "dial_Register net nxtu nxt url (Some k) r (L, s) = (res, L', s')"
  shows "link_inv {} L'"
proof (cases url)
  case None
  then show ?thesis using assms by (simp add: dial_Register_def keeps_links_def)
next
  case (Some u)
  obtain n L1 where n: "newDialer L = (n, L1)" by fastforce
  note N = link_inv_new [OF assms(1) n]
  obtain cc loaded L2 where l: "cc_LoadOrStore (Some k) (Dialer n) L1 = (cc, loaded, L2)" using prod_cases3 by blast
  note S = link_inv_LoadOrStore [OF N(1,2,3) _ l, unfolded N(4), OF N(5)]
  show ?thesis
  proof (cases cc)
    case (Foreign c)
    then show ?thesis using assms(2) S(1) Some n l by (simp add: dial_Register_def keeps_links_def)
  next
    case (Dialer a)
    obtain e L3 s3 where c: "close_old net nxtu (Some k) a u r L2 s = (e, L3, s3)" using prod_cases3 by blast
    note C = close_old_spec [OF S(1) S(2) [unfolded Dialer] c]
    show ?thesis
    proof (cases e)
      case (Some x)
      then show ?thesis using assms(2) C(1) \<open>url = Some u\<close> n l c Dialer by (simp add: dial_Register_def)
    next
      case None
      then have k: "ccs L3 k = Some (Dialer a)" using C(2) S(2) Dialer by simp
      obtain ok L4 where d: "Dial (net s3) a (Some u) L3 = (ok, L4)" by fastforce
      note D = Dial_keeps [OF C(1) k d]
      have a: "a < length (dialers L4)" using D(1,2) k by (simp add: link_inv_def entries_ok_def)
      have "link_inv {} (cc_Delete (Some k) L4)" if "\<not> ok" by (rule link_inv_Delete [OF D(1)]) (use D(2,4) that k in simp)
      moreover have "link_inv {} (dialer_Close a L4)" using link_inv_Close [OF D(1) a] by simp
      ultimately show ?thesis using assms(2) D(1) \<open>url = Some u\<close> n l c Dialer None d
        by (auto simp: dial_Register_def split: if_splits prod.splits sum.splits nsm_error.splits)
    qed
  qed
qed

section \<open>Properties\<close>

text \<open>
  Calls of connections one after the other, each with its own key and with any rest of the chain; which URLs can be dialed may change with the world.
\<close>

inductive link_step :: "('s \<Rightarrow> string \<Rightarrow> bool) \<Rightarrow> 'k links \<times> 's \<Rightarrow> 'k links \<times> 's \<Rightarrow> bool" for net where
  request: "dialClient_Request net conn_of (nxtc :: (Connection, unit, 'k, 's) link_chain) nxt url (Some k) request (L, s) = (res :: nsm_error + Connection, L', s') \<Longrightarrow> link_step net (L, s) (L', s')"
| shut: "dialClient_Close net nxtc url (Some k) (conn :: Connection) (L, s) = (res :: nsm_error + unit, L', s') \<Longrightarrow> link_step net (L, s) (L', s')"
| world: "link_step net (L, s) (L, s')"

definition no_links :: "'k links" where
  "no_links = \<lparr>opened = [], dialers = [], ccs = Map.empty\<rparr>"

lemma no_links_inv: "link_inv {} no_links"
  by (simp add: link_inv_def no_links_def dialers_ok_def entries_ok_def owned_def kept_def live_def)

lemma link_step_inv: "link_step net p q \<Longrightarrow> link_inv {} (fst p) \<Longrightarrow> link_inv {} (fst q)"
proof (induction rule: link_step.induct)
  case (request nxtc nxt url k r L s res L' s')
  show ?case using dialClient_Request_inv [OF request(2) [unfolded fst_conv] request(1)] by simp
next
  case (shut nxtc url k conn L s res L' s')
  show ?case using dialClient_Close_inv(1) [OF shut(2) [unfolded fst_conv] shut(1)] by simp
qed simp

lemma link_inv_link:
  assumes "link_inv {} L" "n < length (opened L)" "gc_open (opened L ! n)"
  shows "\<exists>!k. link_of L k n"
proof -
  obtain a where a: "a < length (dialers L)" "ClientConn (dialers L ! a) = Some n" using assms by (auto simp: link_inv_def owned_def)
  then have "live L a" using assms(2,3) by (auto simp: live_def)
  then obtain k where k: "ccs L k = Some (Dialer a)" using assms(1) by (auto simp: link_inv_def kept_def)
  have "j = k" if "link_of L j n" for j
  proof -
    obtain b where b: "ccs L j = Some (Dialer b)" "ClientConn (dialers L ! b) = Some n" using \<open>link_of L j n\<close> by (auto simp: link_of_def)
    have "b < length (dialers L)" using b(1) assms(1) by (simp add: link_inv_def entries_ok_def)
    then have "b = a" using dialers_okD(3) [of L b a n] a b(2) assms(1) by (simp add: link_inv_def)
    then show ?thesis using b(1) k assms(1) unfolding link_inv_def entries_ok_def by blast
  qed
  moreover have "link_of L k n" using k a by (auto simp: link_of_def)
  ultimately show ?thesis by blast
qed

text \<open>
  C14. No connection to another application is leaked: after any requests and closes, successful or not, with any URLs and any outcome of dialing, an open gRPC
  connection is the current one of exactly one connection that is kept; so there are at most as many as connections, and a closed connection has none.
\<close>

theorem dial_one_link:
  assumes "(link_step net)\<^sup>*\<^sup>* (no_links, s0) (L, s)" "n < length (opened L)" "gc_open (opened L ! n)"
  shows "\<exists>!k. link_of L k n"
proof -
  have "link_inv {} (fst (L, s))"
    using assms(1) by (induction rule: rtranclp_induct) (simp_all add: no_links_inv link_step_inv)
  then show ?thesis using link_inv_link [OF _ assms(2,3)] by simp
qed

definition reached :: "nat links" where
  "reached = \<lparr>opened = [\<lparr>gc_target = ''m'', gc_open = True\<rparr>],
     dialers = [\<lparr>clientURL = Some ''tcp://m'', ClientConn = Some 0, cleanupCancel = Some 0\<rparr>], ccs = [7 \<mapsto> Dialer 0]\<rparr>"

lemma reached_step: "link_step (\<lambda>_ _. True) (no_links, ()) (reached, ())"
proof (rule link_step.request [where nxtc = "\<lambda>u c L s. (Inr (), s)" and nxt = "\<lambda>u r L s. (Inr empty_connection, s)" and url = "Some ''tcp://m''" and k = 7])
  show "dialClient_Request (\<lambda>_ _. True) conn_of (\<lambda>u c L s. (Inr (), s)) (\<lambda>u r L s. (Inr empty_connection, s)) (Some ''tcp://m'') (Some 7)
      \<lparr>req_connection = None, MechanismPreferences = []\<rparr> (no_links, ()) = (Inr empty_connection, reached, ())"
    by (simp add: dialClient_Request_def no_links_def newDialer_def cc_LoadOrStore_def cc_Load_def cc_Store_def close_old_def Dial_def dialer_Close_def
        reached_def URLToTarget_def)
qed

lemma dial_one_link_witness: "\<exists>!k. link_of reached k 0"
  using dial_one_link [OF r_into_rtranclp [of "link_step (\<lambda>_ _. True)", OF reached_step], of 0] by (simp add: reached_def)

text \<open>
  A request whose URL is not the one that was dialed before (the next application died, say, and discovery chose another) closes the connection at the old
  application first, over a fresh gRPC connection to it, then asks the new one; afterwards the old gRPC connection is closed and the kept one is open to the new
  URL.
\<close>

lemma dial_connect_moves:
  assumes "link_inv {} L" "ccs L k = Some (Dialer a)" "clientURL (dialers L ! a) = Some v" "v \<noteq> u" "net s (URLToTarget (Some v))"
    and "remote_Close (URLToTarget (Some v)) (conn_of request) s = (x, s1)" "x \<noteq> Inl Panic" "net s1 (URLToTarget (Some u))" "remote_Request (URLToTarget (Some u)) request s1 = (Inr conn, s2)"
  shows "\<exists>L' n. dialClient_Request net conn_of (connectClient_call remote_Close (Some k)) (connectClient_call remote_Request (Some k)) (Some u) (Some k)
      request (L, s) = (Inr conn, L', s2) \<and> link_of L' k n \<and> opened L' ! n = \<lparr>gc_target = URLToTarget (Some u), gc_open = True\<rparr> \<and>
      (\<forall>m. link_of L k m \<longrightarrow> \<not> gc_open (opened L' ! m))"
proof -
  obtain n L1 where n: "newDialer L = (n, L1)" by fastforce
  note N = link_inv_new [OF assms(1) n]
  have k1: "ccs L1 k = Some (Dialer a)" using N(4) assms(2) by simp
  then have l: "cc_LoadOrStore (Some k) (Dialer n) L1 = (Dialer a, True, L1)" by (simp add: cc_LoadOrStore_def cc_Load_def)
  have a: "a < length (dialers L)" using assms(1,2) by (simp add: link_inv_def entries_ok_def)
  have v: "clientURL (dialers L1 ! a) = Some v" using n a assms(3) by (auto simp: newDialer_def nth_append)
  obtain ok L2 where d: "Dial (net s) a (Some v) L1 = (ok, L2)" by fastforce
  note D = Dial_keeps [OF N(1) k1 d]
  have ok: "ok" using D(3) assms(5) by simp
  obtain m where m: "m < length (opened L2)" "ClientConn (dialers L2 ! a) = Some m" "opened L2 ! m = \<lparr>gc_target = URLToTarget (Some v), gc_open = True\<rparr>"
    using D(7) ok by auto
  have k2: "ccs L2 k = Some (Dialer a)" using D(2) k1 by simp
  have c: "connectClient_call remote_Close (Some k) (Some v) (conn_of request) L2 s = (x, s1)"
    using k2 m assms(6) by (simp add: connectClient_call_def cc_Load_def Invoke_def)
  obtain ok' L3 where d': "Dial (net s1) a (Some u) L2 = (ok', L3)" by fastforce
  note D' = Dial_keeps [OF D(1) k2 d']
  have ok': "ok'" using D'(3) assms(8) by simp
  obtain m' where m': "m' < length (opened L3)" "ClientConn (dialers L3 ! a) = Some m'" "opened L3 ! m' = \<lparr>gc_target = URLToTarget (Some u), gc_open = True\<rparr>"
    using D'(7) ok' by auto
  have k3: "ccs L3 k = Some (Dialer a)" using D'(2) k2 by simp
  have r: "connectClient_call remote_Request (Some k) (Some u) request L3 s1 = (Inr conn, s2)"
    using k3 m' assms(9) by (simp add: connectClient_call_def cc_Load_def Invoke_def)
  have "close_old net (connectClient_call remote_Close (Some k)) (Some k) a u (conn_of request) L1 s = (None, L2, s1)"
    using v assms(4,7) d ok c by (simp add: close_old_def)
  then have "dialClient_Request net conn_of (connectClient_call remote_Close (Some k)) (connectClient_call remote_Request (Some k)) (Some u) (Some k)
      request (L, s) = (Inr conn, L3, s2)"
    using n l d' ok' r by (simp add: dialClient_Request_def)
  moreover have "\<not> gc_open (opened L3 ! j)" if "link_of L k j" for j
  proof -
    have j: "ClientConn (dialers L1 ! a) = Some j" "j < length (opened L1)" "a < length (dialers L1)"
      using that n a assms(1,2) dialers_okD(2) [of L a j] by (auto simp: link_of_def newDialer_def nth_append link_inv_def)
    have o: "dialers_ok L1" "dialers_ok L2" using N(1) D(1) by (simp_all add: link_inv_def)
    note c1 = Dial_closes [OF o(1) j(3) d j(2), OF disjI1, OF j(1)]
    show ?thesis using Dial_closes(1) [OF o(2) _ d' c1(2)] c1(1) D(6) j(3) by simp
  qed
  moreover have "link_of L3 k m'" using k3 m'(2) by (simp add: link_of_def)
  ultimately show ?thesis using m'(3) by blast
qed

lemma dial_connect_moves_witness:
  "\<exists>L' n. dialClient_Request (\<lambda>s u. True) conn_of (connectClient_call (\<lambda>u c log. (Inr (), log @ [''close '' @ u])) (Some 7))
      (connectClient_call (\<lambda>u r log. (Inr empty_connection, log @ [''request '' @ u])) (Some 7)) (Some ''tcp://n'') (Some 7)
      \<lparr>req_connection = None, MechanismPreferences = []\<rparr> (reached, []) = (Inr empty_connection, L', [''close m'', ''request n'']) \<and>
      link_of L' 7 n \<and> opened L' ! n = \<lparr>gc_target = ''n'', gc_open = True\<rparr> \<and> (\<forall>m. link_of reached 7 m \<longrightarrow> \<not> gc_open (opened L' ! m))"
proof -
  have i: "link_inv {} reached"
    using link_step_inv [OF reached_step] no_links_inv by simp
  show ?thesis
    using dial_connect_moves [OF i, of 7 0 "''tcp://m''" "''tcp://n''" "\<lambda>s u. True" "[] :: string list"
        "\<lambda>u c log. (Inr (), log @ [''close '' @ u])" "\<lparr>req_connection = None, MechanismPreferences = []\<rparr>" "Inr ()" "[''close m'']"
        "\<lambda>u r log. (Inr empty_connection, log @ [''request '' @ u])" empty_connection "[''close m'', ''request n'']"]
    by (simp add: reached_def URLToTarget_def)
qed

text \<open>
  The servers of the registry do not hand an unregistration on to the rest of their own chain: in a chain of servers the client that they look up is the tail, which
  answers and does nothing, so the world afterwards is the one the client chain left.
\<close>

lemma connect_Unregister_ends:
  "client_Unregister r s = (Inr (), s') \<Longrightarrow> connect_Unregister client_Unregister (\<lambda>r s. (Inr (), s)) r s = (Inr (), s')"
  by (simp add: connect_Unregister_def close_both_def)

end
