(* ===== verification/Registry_Elements.thy ===== *)
theory Registry_Elements
  imports Memory_Handlers
begin

text \<open>
  Elements of the registry that rewrite what passes through: \<^verbatim>\<open>localbypass\<close>, \<^verbatim>\<open>interdomainbypass\<close>, \<^verbatim>\<open>swapip\<close>, \<^verbatim>\<open>clusterinfo\<close>, \<^verbatim>\<open>clientinfo\<close>, \<^verbatim>\<open>endpointurls\<close>,
  \<^verbatim>\<open>setregistrationtime\<close>, \<^verbatim>\<open>setpayload\<close> and \<^verbatim>\<open>switchcase\<close>. Go's parser and printer of URLs are arguments. A search hands its answers to a function \<open>send\<close>; the
  elements wrap it.
\<close>

type_synonym ('r, 's) reg_call = "'r \<Rightarrow> 's \<Rightarrow> (nsm_error + 'r) \<times> 's"
type_synonym ('r, 's) unreg_call = "'r \<Rightarrow> 's \<Rightarrow> (nsm_error + unit) \<times> 's"
type_synonym 's nse_send = "NSEResponse \<Rightarrow> 's \<Rightarrow> nsm_error option \<times> 's"
type_synonym 's nse_find = "'s nse_send \<Rightarrow> NSEQuery \<Rightarrow> 's \<Rightarrow> nsm_error option \<times> 's"

section \<open>Endpoints of this manager\<close>

text \<open>
  \<^verbatim>\<open>localbypass\<close>: the manager registers its endpoints under its own URL and remembers theirs. The state is the map of URLs and that of the rest of the chain.
\<close>

definition localBypass_Register ::
  "(string \<Rightarrow> 'u option) \<Rightarrow> ('u \<Rightarrow> string) \<Rightarrow> string \<Rightarrow> (NetworkServiceEndpoint, 's) reg_call \<Rightarrow> NetworkServiceEndpoint \<Rightarrow> (string \<rightharpoonup> 'u) \<times> 's \<Rightarrow>
     (nsm_error + NetworkServiceEndpoint) \<times> (string \<rightharpoonup> 'u) \<times> 's" where
  "localBypass_Register parse url_String nsmgrURL nxt nse = (\<lambda>(nseURLs, s).
     let loaded = (nseURLs (nse_name nse) \<noteq> None);
         parsed = (case nseURLs (nse_name nse) of
                     Some u \<Rightarrow> if url_String u = Url nse then Some (u, nseURLs)
                       else (case parse (Url nse) of None \<Rightarrow> None | Some u \<Rightarrow> if url_String u = [] then None else Some (u, nseURLs(nse_name nse \<mapsto> u)))
                   | None \<Rightarrow> (case parse (Url nse) of None \<Rightarrow> None | Some u \<Rightarrow> if url_String u = [] then None else Some (u, nseURLs(nse_name nse \<mapsto> u)))) in
     case parsed of
       None \<Rightarrow> (Inl (Err ''cannot register NSE with passed URL''), nseURLs, s)
     | Some (u, nseURLs) \<Rightarrow>
         (case nxt (nse\<lparr>Url := nsmgrURL\<rparr>) s of
            (Inl Panic, s) \<Rightarrow> (Inl Panic, nseURLs, s)
          | (Inl e, s) \<Rightarrow> (Inl e, if loaded then nseURLs else nseURLs(nse_name nse := None), s)
          | (Inr reg, s) \<Rightarrow> (Inr (reg\<lparr>Url := url_String u\<rparr>), nseURLs(nse_name reg \<mapsto> u), s)))"

definition localBypass_Send :: "('u \<Rightarrow> string) \<Rightarrow> string \<Rightarrow> ((string \<rightharpoonup> 'u) \<times> 's) nse_send \<Rightarrow> ((string \<rightharpoonup> 'u) \<times> 's) nse_send" where
  "localBypass_Send url_String nsmgrURL send resp = (\<lambda>(nseURLs, s).
     let nse = (case nseURLs (nse_name (r_nse resp)) of Some u \<Rightarrow> (r_nse resp)\<lparr>Url := url_String u\<rparr> | None \<Rightarrow> r_nse resp) in
     if Url nse = nsmgrURL \<and> \<not> Deleted resp then (None, nseURLs, s) else send (resp\<lparr>r_nse := nse\<rparr>) (nseURLs, s))"

definition localBypass_Find :: "('u \<Rightarrow> string) \<Rightarrow> string \<Rightarrow> ((string \<rightharpoonup> 'u) \<times> 's) nse_find \<Rightarrow> ((string \<rightharpoonup> 'u) \<times> 's) nse_find" where
  "localBypass_Find url_String nsmgrURL nxt send = nxt (localBypass_Send url_String nsmgrURL send)"

definition localBypass_Unregister ::
  "string \<Rightarrow> (NetworkServiceEndpoint, 's) unreg_call \<Rightarrow> NetworkServiceEndpoint \<Rightarrow> (string \<rightharpoonup> 'u) \<times> 's \<Rightarrow> (nsm_error + unit) \<times> (string \<rightharpoonup> 'u) \<times> 's" where
  "localBypass_Unregister nsmgrURL nxt nse = (\<lambda>(nseURLs, s).
     if nseURLs (nse_name nse) = None then (Inr (), nseURLs, s)
     else case nxt (nse\<lparr>Url := nsmgrURL\<rparr>) s of
       (Inl e, s) \<Rightarrow> (Inl e, nseURLs, s)
     | (Inr x, s) \<Rightarrow> (Inr (), nseURLs(nse_name nse := None), s))"

section \<open>Between domains\<close>

text \<open>
  \<^verbatim>\<open>interdomainbypass\<close>: the manager proxy announces endpoints under the URL it listens on and remembers where they are. A URL that does not parse is remembered as
  nil. The map is shared with the element for network services.
\<close>

type_synonym 'u url_map = "string \<rightharpoonup> 'u option"

definition interdomainBypass_Register ::
  "(string \<Rightarrow> 'u option) \<Rightarrow> string \<Rightarrow> (NetworkServiceEndpoint, 's) reg_call \<Rightarrow> NetworkServiceEndpoint \<Rightarrow> 'u url_map \<times> 's \<Rightarrow>
     (nsm_error + NetworkServiceEndpoint) \<times> 'u url_map \<times> 's" where
  "interdomainBypass_Register parse u nxt service = (\<lambda>(m, s).
     case nxt (service\<lparr>Url := u\<rparr>) s of
       (Inl e, s) \<Rightarrow> (Inl e, m, s)
     | (Inr resp, s) \<Rightarrow> (Inr (resp\<lparr>Url := Url service\<rparr>), m(nse_name service \<mapsto> parse (Url service)), s))"

definition interdomainBypass_Send :: "(string \<Rightarrow> 'u option) \<Rightarrow> string \<Rightarrow> ('u url_map \<times> 's) nse_send \<Rightarrow> ('u url_map \<times> 's) nse_send" where
  "interdomainBypass_Send parse u send resp = (\<lambda>(m, s).
     case parse (Url (r_nse resp)) of
       None \<Rightarrow> (Some (Err ''failed to parse url''), m, s)
     | Some v \<Rightarrow>
         send (resp\<lparr>r_nse := (r_nse resp)\<lparr>Url := u\<rparr>\<rparr>)
           (if m (nse_name (r_nse resp)) = None then m(nse_name (r_nse resp) \<mapsto> Some v) else m, s))"

definition interdomainBypass_Find :: "(string \<Rightarrow> 'u option) \<Rightarrow> string \<Rightarrow> ('u url_map \<times> 's) nse_find \<Rightarrow> ('u url_map \<times> 's) nse_find" where
  "interdomainBypass_Find parse u nxt send = nxt (interdomainBypass_Send parse u send)"

definition interdomainBypass_Unregister ::
  "string \<Rightarrow> (NetworkServiceEndpoint, 's) unreg_call \<Rightarrow> NetworkServiceEndpoint \<Rightarrow> 'u url_map \<times> 's \<Rightarrow> (nsm_error + unit) \<times> 'u url_map \<times> 's" where
  "interdomainBypass_Unregister u nxt service = (\<lambda>(m, s).
     let (res, s) = nxt (service\<lparr>Url := u\<rparr>) s in (res, m(nse_name service := None), s))"

section \<open>Addresses of a URL\<close>

text \<open>Go's \<^verbatim>\<open>net.SplitHostPort\<close> and \<^verbatim>\<open>net.JoinHostPort\<close>: the port is behind the last colon; a host with colons stands in brackets.\<close>

definition last_colon :: "string \<Rightarrow> nat option" where
  "last_colon s = (if CHR '':'' \<in> set s then Some (length s - 1 - length (takeWhile (\<lambda>c. c \<noteq> CHR '':'') (rev s))) else None)"

definition SplitHostPort :: "string \<Rightarrow> (string \<times> string) option" where
  "SplitHostPort hostport =
     (case last_colon hostport of
        None \<Rightarrow> None
      | Some i \<Rightarrow>
          let port = drop (Suc i) hostport in
          if hd hostport = CHR ''['' then
            (let end1 = length (takeWhile (\<lambda>c. c \<noteq> CHR '']'') hostport) in
             if CHR '']'' \<notin> set hostport \<or> Suc end1 \<noteq> i \<or> CHR ''['' \<in> set (drop 1 hostport) \<or> CHR '']'' \<in> set (drop (Suc end1) hostport) then None
             else Some (drop 1 (take end1 hostport), port))
          else
            (let host = take i hostport in
             if CHR '':'' \<in> set host \<or> CHR ''['' \<in> set hostport \<or> CHR '']'' \<in> set hostport then None else Some (host, port)))"

definition JoinHostPort :: "string \<Rightarrow> string \<Rightarrow> string" where
  "JoinHostPort host port = (if CHR '':'' \<in> set host then ''['' @ host @ '']:'' @ port else host @ '':'' @ port)"

text \<open>\<^verbatim>\<open>swapip\<close> replaces the host of a URL by the one that the map has for it. How a host is read from and put into a URL are arguments.\<close>

record 'u url_ops =
  u_Parse :: "string \<Rightarrow> 'u option"
  u_String :: "'u \<Rightarrow> string"
  u_Host :: "'u \<Rightarrow> string"
  u_withHost :: "string \<Rightarrow> 'u \<Rightarrow> 'u"

definition trySwapIP :: "'u url_ops \<Rightarrow> (string \<rightharpoonup> string) \<Rightarrow> NetworkServiceEndpoint \<Rightarrow> NetworkServiceEndpoint" where
  "trySwapIP U ipMap nse =
     (case u_Parse U (Url nse) of
        None \<Rightarrow> nse
      | Some u \<Rightarrow>
          (case SplitHostPort (u_Host U u) of
             None \<Rightarrow> nse
           | Some (h, p) \<Rightarrow>
               (case ipMap h of None \<Rightarrow> nse | Some v \<Rightarrow> nse\<lparr>Url := u_String U (u_withHost U (JoinHostPort v p) u)\<rparr>)))"

definition swapIP_Register :: "'u url_ops \<Rightarrow> (string \<rightharpoonup> string) \<Rightarrow> (NetworkServiceEndpoint, 's) reg_call \<Rightarrow> (NetworkServiceEndpoint, 's) reg_call" where
  "swapIP_Register U m nxt nse s =
     (case nxt (trySwapIP U m nse) s of (Inl e, s) \<Rightarrow> (Inl e, s) | (Inr resp, s) \<Rightarrow> (Inr (trySwapIP U m resp), s))"

definition swapIP_Send :: "'u url_ops \<Rightarrow> (string \<rightharpoonup> string) \<Rightarrow> 's nse_send \<Rightarrow> 's nse_send" where
  "swapIP_Send U m send resp s =
     (case send (resp\<lparr>r_nse := trySwapIP U m (r_nse resp)\<rparr>) s of
        (Some e, s) \<Rightarrow> (Some (Err ''find server failed to send a response''), s)
      | (None, s) \<Rightarrow> (None, s))"

definition swapIP_Find :: "'u url_ops \<Rightarrow> (string \<rightharpoonup> string) \<Rightarrow> 's nse_find \<Rightarrow> 's nse_find" where
  "swapIP_Find U m nxt send query = nxt (swapIP_Send U m send) (query\<lparr>q_nse := trySwapIP U m (q_nse query)\<rparr>)"

definition swapIP_Unregister :: "'u url_ops \<Rightarrow> (string \<rightharpoonup> string) \<Rightarrow> (NetworkServiceEndpoint, 's) unreg_call \<Rightarrow> (NetworkServiceEndpoint, 's) unreg_call" where
  "swapIP_Unregister U m nxt nse = nxt (trySwapIP U m nse)"

section \<open>Labels, times, URLs and payloads\<close>

text \<open>Setting a label keeps the keys of a map distinct and in ascending order.\<close>

fun str_less :: "string \<Rightarrow> string \<Rightarrow> bool" where
  "str_less _ [] = False"
| "str_less [] (_ # _) = True"
| "str_less (a # as) (b # bs) = (if a = b then str_less as bs else (of_char a :: nat) < of_char b)"

fun put_label :: "string \<Rightarrow> string \<Rightarrow> labels \<Rightarrow> labels" where
  "put_label k v [] = [(k, v)]"
| "put_label k v ((l, w) # m) = (if k = l then (k, v) # m else if str_less k l then (k, v) # (l, w) # m else (l, w) # put_label k v m)"

text \<open>The cluster's values, read from a file at every call, go into the labels of every service of the endpoint and replace what is there.\<close>

definition set_labels :: "labels \<Rightarrow> labels \<Rightarrow> labels" where
  "set_labels values m = fold (\<lambda>(k, v). put_label k v) values m"

definition clusterinfoNSE_Register :: "labels \<Rightarrow> (NetworkServiceEndpoint, 's) reg_call \<Rightarrow> (NetworkServiceEndpoint, 's) reg_call" where
  "clusterinfoNSE_Register m nxt nse =
     nxt (nse\<lparr>NetworkServiceLabels := map_option (map (\<lambda>(ns, l). (ns, set_labels m l))) (NetworkServiceLabels nse)\<rparr>)"

text \<open>\<^verbatim>\<open>tools/clientinfo\<close>: the names of node, pod and cluster, where the environment has them and the labels do not.\<close>

definition AddClientInfo :: "(string \<rightharpoonup> string) \<Rightarrow> labels \<Rightarrow> labels" where
  "AddClientInfo env m =
     fold (\<lambda>(envName, labelName) m.
       case env envName of
         None \<Rightarrow> m
       | Some v \<Rightarrow> if map_of m labelName \<noteq> None then m else put_label labelName v m)
     [(''NODE_NAME'', ''nodeName''), (''POD_NAME'', ''podName''), (''CLUSTER_NAME'', ''clusterName'')] m"

definition clientInfo_Register :: "(string \<rightharpoonup> string) \<Rightarrow> (NetworkServiceEndpoint, 's) reg_call \<Rightarrow> (NetworkServiceEndpoint, 's) reg_call" where
  "clientInfo_Register env nxt nse =
     nxt (nse\<lparr>NetworkServiceLabels := map_option (map (\<lambda>(ns, l). (ns, AddClientInfo env l))) (NetworkServiceLabels nse)\<rparr>)"

text \<open>\<^verbatim>\<open>endpointurls\<close> keeps the names of endpoints by URL, whatever the rest of the chain says.\<close>

definition endpointURLs_Register ::
  "(string \<Rightarrow> 'u option) \<Rightarrow> (NetworkServiceEndpoint, 's) reg_call \<Rightarrow> NetworkServiceEndpoint \<Rightarrow> ('u \<rightharpoonup> string) \<times> 's \<Rightarrow>
     (nsm_error + NetworkServiceEndpoint) \<times> ('u \<rightharpoonup> string) \<times> 's" where
  "endpointURLs_Register parse nxt endpoint = (\<lambda>(nses, s).
     let (res, s) = nxt endpoint s in (res, case parse (Url endpoint) of None \<Rightarrow> nses | Some u \<Rightarrow> nses(u \<mapsto> nse_name endpoint), s))"

definition endpointURLs_Unregister ::
  "(string \<Rightarrow> 'u option) \<Rightarrow> (NetworkServiceEndpoint, 's) unreg_call \<Rightarrow> NetworkServiceEndpoint \<Rightarrow> ('u \<rightharpoonup> string) \<times> 's \<Rightarrow>
     (nsm_error + unit) \<times> ('u \<rightharpoonup> string) \<times> 's" where
  "endpointURLs_Unregister parse nxt endpoint = (\<lambda>(nses, s).
     let (res, s) = nxt endpoint s in (res, case parse (Url endpoint) of None \<Rightarrow> nses | Some u \<Rightarrow> nses(u := None), s))"

text \<open>\<^verbatim>\<open>setregistrationtime\<close>: the first registration fixes the time, in the metadata of the endpoint.\<close>

record dated_nse = NetworkServiceEndpoint +
  InitialRegistrationTime :: "int option"

definition setregtime_Register :: "int \<Rightarrow> (dated_nse, 's) reg_call \<Rightarrow> dated_nse \<Rightarrow> int option \<times> 's \<Rightarrow> (nsm_error + dated_nse) \<times> int option \<times> 's" where
  "setregtime_Register now nxt nse = (\<lambda>(stored, s).
     let t = (case stored of Some v \<Rightarrow> v | None \<Rightarrow> case InitialRegistrationTime nse of None \<Rightarrow> now | Some t \<Rightarrow> t);
         (res, s) = nxt (nse\<lparr>InitialRegistrationTime := Some t\<rparr>) s in
     (res, Some t, s))"

definition setregtime_Unregister :: "(dated_nse, 's) unreg_call \<Rightarrow> dated_nse \<Rightarrow> int option \<times> 's \<Rightarrow> (nsm_error + unit) \<times> int option \<times> 's" where
  "setregtime_Unregister nxt nse = (\<lambda>(stored, s). let (res, s) = nxt nse s in (res, None, s))"

definition setPayload_Register :: "string \<Rightarrow> (NetworkServiceMsg, 's) reg_call \<Rightarrow> (NetworkServiceMsg, 's) reg_call" where
  "setPayload_Register defaultPayload nxt ns = nxt (if Payload ns = [] then ns\<lparr>Payload := defaultPayload\<rparr> else ns)"

section \<open>Switches\<close>

text \<open>The first case whose condition holds acts, else the rest of the chain. The elements of both sides and for network services have this body for each operation.\<close>

fun switchCase :: "(('r \<Rightarrow> bool) \<times> ('r \<Rightarrow> 'b)) list \<Rightarrow> ('r \<Rightarrow> 'b) \<Rightarrow> 'r \<Rightarrow> 'b" where
  "switchCase [] nxt r = nxt r"
| "switchCase ((condition, act) # cs) nxt r = (if condition r then act r else switchCase cs nxt r)"

definition switchCase_query :: "((NetworkServiceEndpoint \<Rightarrow> bool) \<times> (NSEQuery \<Rightarrow> 'b)) list \<Rightarrow> (NSEQuery \<Rightarrow> 'b) \<Rightarrow> NSEQuery \<Rightarrow> 'b" where
  "switchCase_query cs = switchCase (map (\<lambda>(c, f). (\<lambda>q. c (q_nse q), f)) cs)"

text \<open>The clients register through \<^verbatim>\<open>next.NetworkServiceRegistryServer\<close> when no case applies; the other operations use the client.\<close>

definition switchCaseClient_Register ::
  "(('r \<Rightarrow> bool) \<times> ('r \<Rightarrow> 'b)) list \<Rightarrow> ('r \<Rightarrow> 'b) \<Rightarrow> ('r \<Rightarrow> 'b) \<Rightarrow> 'r \<Rightarrow> 'b" where
  "switchCaseClient_Register cs nextClient nextServer = switchCase cs nextServer"

end
