(* ===== verification/Connection_Elements.thy ===== *)
theory Connection_Elements
  imports Registry_Elements Discover_Select Go_Net_Text
begin

text \<open>
  Elements of network services that rewrite what passes through: \<^verbatim>\<open>interdomainbypass\<close> with the names of \<^verbatim>\<open>tools/interdomain\<close>, \<^verbatim>\<open>swapip\<close>, \<^verbatim>\<open>externalips\<close>,
  \<^verbatim>\<open>switchcase\<close>, \<^verbatim>\<open>clusterinfo\<close>, \<^verbatim>\<open>clientinfo\<close>, \<^verbatim>\<open>setextracontext\<close> and \<^verbatim>\<open>passthrough\<close>.
\<close>

section \<open>Names with a domain\<close>

definition interdomain_Is :: "string \<Rightarrow> bool" where
  "interdomain_Is s \<longleftrightarrow> CHR ''@'' \<in> set s"

fun interdomain_Join :: "string list \<Rightarrow> string" where
  "interdomain_Join [] = []"
| "interdomain_Join [s] = s"
| "interdomain_Join (s # t # ss) = s @ ''@'' @ interdomain_Join (t # ss)"

definition interdomain_Target :: "string \<Rightarrow> string" where
  "interdomain_Target s = takeWhile (\<lambda>c. c \<noteq> CHR ''@'') s"

definition interdomain_Domain :: "string \<Rightarrow> string" where
  "interdomain_Domain s = drop 1 (dropWhile (\<lambda>c. c \<noteq> CHR ''@'') s)"

text \<open>
  A connection to an endpoint that the registry side of the element knows goes to its URL. Any other goes on with the names cut at the domain, and the answer gets
  the full names back.
\<close>

definition interdomainBypass_Request ::
  "'u url_map \<Rightarrow> ('u, 's) ctx_request_chain \<Rightarrow> 'u call_ctx \<Rightarrow> NetworkServiceRequest \<Rightarrow> 's \<Rightarrow> (nsm_error + Connection) \<times> 's" where
  "interdomainBypass_Request m nxt ctx request s =
     (case req_connection request of
        None \<Rightarrow> (Inl Panic, s)
      | Some conn \<Rightarrow>
          (case m (NetworkServiceEndpointName conn) of
             Some u \<Rightarrow> nxt (ctx\<lparr>ClientURL := u\<rparr>) request s
           | None \<Rightarrow>
               (case nxt ctx (request\<lparr>req_connection := Some (conn\<lparr>NetworkServiceEndpointName := interdomain_Target (NetworkServiceEndpointName conn),
                       NetworkService := interdomain_Target (NetworkService conn)\<rparr>)\<rparr>) s of
                  (Inl e, s) \<Rightarrow> (Inl e, s)
                | (Inr resp, s) \<Rightarrow>
                    (Inr (resp\<lparr>NetworkServiceEndpointName := NetworkServiceEndpointName conn, NetworkService := NetworkService conn\<rparr>), s))))"

definition interdomainBypass_Close ::
  "'u url_map \<Rightarrow> ('u, 's) ctx_close_chain \<Rightarrow> 'u call_ctx \<Rightarrow> Connection \<Rightarrow> 's \<Rightarrow> (nsm_error + unit) \<times> 's" where
  "interdomainBypass_Close m nxt ctx conn s =
     (case m (NetworkServiceEndpointName conn) of
        Some u \<Rightarrow> nxt (ctx\<lparr>ClientURL := u\<rparr>) conn s
      | None \<Rightarrow> nxt ctx (conn\<lparr>NetworkServiceEndpointName := interdomain_Target (NetworkServiceEndpointName conn),
                NetworkService := interdomain_Target (NetworkService conn)\<rparr>) s)"

section \<open>Addresses of tunnels\<close>

text \<open>
  \<^verbatim>\<open>swapip\<close>: parameters of a mechanism hold the addresses of the tunnel's ends. Their keys are those of the API module. A lookup of an absent key gives the empty
  string, in the map of addresses too.
\<close>

record ip_keys =
  SrcIPKey :: string
  SrcOriginalIPKey :: string
  DstIPKey :: string
  DstOriginalIPKey :: string

definition look_up :: "(string \<rightharpoonup> string) \<Rightarrow> string \<Rightarrow> string" where
  "look_up m k = (case m k of None \<Rightarrow> [] | Some v \<Rightarrow> v)"

text \<open>What a loop does to a mechanism, and whether it counts: only those with parameters that have a source address.\<close>

definition with_srcIP :: "ip_keys \<Rightarrow> (labels \<Rightarrow> labels) \<Rightarrow> Mechanism \<Rightarrow> Mechanism" where
  "with_srcIP K f m =
     (case Parameters m of
        None \<Rightarrow> m
      | Some ps \<Rightarrow> if map_of ps (SrcIPKey K) = None then m else m\<lparr>Parameters := Some (f ps)\<rparr>)"

definition source_side :: "ip_keys \<Rightarrow> Mechanism \<Rightarrow> bool option" where
  "source_side K m =
     (case Parameters m of
        None \<Rightarrow> None
      | Some ps \<Rightarrow> if map_of ps (SrcIPKey K) = None then None else Some (lbl ps (SrcOriginalIPKey K) = []))"

definition all_mechanisms :: "NetworkServiceRequest \<Rightarrow> Mechanism list" where
  "all_mechanisms request =
     MechanismPreferences request @ (case req_connection request of None \<Rightarrow> [] | Some c \<Rightarrow> case Mechanism c of None \<Rightarrow> [] | Some m \<Rightarrow> [m])"

text \<open>The variable \<^verbatim>\<open>isSourceSide\<close> after the loop: the last mechanism decides; false if none counts.\<close>

definition isSourceSide :: "ip_keys \<Rightarrow> NetworkServiceRequest \<Rightarrow> bool" where
  "isSourceSide K request = fold (\<lambda>m b. case source_side K m of None \<Rightarrow> b | Some c \<Rightarrow> c) (all_mechanisms request) False"

definition map_mechanisms :: "(Mechanism \<Rightarrow> Mechanism) \<Rightarrow> NetworkServiceRequest \<Rightarrow> NetworkServiceRequest" where
  "map_mechanisms f request =
     \<lparr>req_connection = map_option (\<lambda>c. c\<lparr>Mechanism := map_option f (Mechanism c)\<rparr>) (req_connection request),
      MechanismPreferences = map f (MechanismPreferences request)\<rparr>"

definition in_answer :: "(labels \<Rightarrow> labels) \<Rightarrow> Connection \<Rightarrow> Connection" where
  "in_answer f resp =
     (case Mechanism resp of
        None \<Rightarrow> resp
      | Some m \<Rightarrow> (case Parameters m of None \<Rightarrow> resp | Some ps \<Rightarrow> resp\<lparr>Mechanism := Some (m\<lparr>Parameters := Some (f ps)\<rparr>)\<rparr>))"

definition swapIPClient_Request :: "ip_keys \<Rightarrow> (string \<rightharpoonup> string) \<Rightarrow> 's request_chain \<Rightarrow> 's request_chain" where
  "swapIPClient_Request K internalToExternal nxt request s =
     (let swap = (\<lambda>ps. if lbl ps (SrcOriginalIPKey K) = [] then
                         put_label (SrcOriginalIPKey K) (lbl ps (SrcIPKey K)) (put_label (SrcIPKey K) (look_up internalToExternal (lbl ps (SrcIPKey K))) ps)
                       else ps) in
      case nxt (map_mechanisms (with_srcIP K swap) request) s of
        (Inl e, s) \<Rightarrow> (Inl e, s)
      | (Inr resp, s) \<Rightarrow>
          (Inr (if isSourceSide K request then
                  in_answer (\<lambda>ps. put_label (SrcOriginalIPKey K) [] (put_label (SrcIPKey K) (lbl ps (SrcOriginalIPKey K)) ps)) resp
                else resp), s))"

definition swapIPServer_Request :: "ip_keys \<Rightarrow> (string \<rightharpoonup> string) \<Rightarrow> 's request_chain \<Rightarrow> 's request_chain" where
  "swapIPServer_Request K internalToExternal nxt request s =
     (let reset = (\<lambda>ps. if lbl ps (SrcOriginalIPKey K) \<noteq> [] then put_label (DstIPKey K) [] (put_label (DstOriginalIPKey K) [] ps) else ps) in
      case nxt (map_mechanisms (with_srcIP K reset) request) s of
        (Inl e, s) \<Rightarrow> (Inl e, s)
      | (Inr resp, s) \<Rightarrow>
          (Inr (if isSourceSide K request then resp
                else in_answer (\<lambda>ps. put_label (DstOriginalIPKey K) (lbl ps (DstIPKey K))
                        (put_label (DstIPKey K) (look_up internalToExternal (lbl ps (DstIPKey K))) ps)) resp), s))"

section \<open>External addresses\<close>

text \<open>\<^verbatim>\<open>externalips\<close>: two maps of address texts, rebuilt together from a list of pairs in the order the map is visited, if all of them are addresses.\<close>

record externalIPs =
  internalToExternalMap :: "string \<rightharpoonup> string"
  externalToInternalMap :: "string \<rightharpoonup> string"

definition externalIPs_build :: "(string \<times> string) list \<Rightarrow> externalIPs \<Rightarrow> (nsm_error option \<times> externalIPs)" where
  "externalIPs_build ips e =
     (if list_ex (\<lambda>(k, v). ParseIP k = None \<or> ParseIP v = None) ips then (Some (Err ''is not IP''), e)
      else (None, \<lparr>internalToExternalMap = fold (\<lambda>(k, v) m. m(k \<mapsto> v)) ips Map.empty,
                   externalToInternalMap = fold (\<lambda>(k, v) m. m(v \<mapsto> k)) ips Map.empty\<rparr>))"

definition replaceFunc :: "(string \<rightharpoonup> string) \<Rightarrow> IP \<Rightarrow> IP" where
  "replaceFunc m ip = (case ParseIP (look_up m (IP_String ip)) of None \<Rightarrow> [] | Some ip \<Rightarrow> ip)"

text \<open>What elements behind it call, with the replacer of the context; without the element they get nil.\<close>

definition FromInternal :: "externalIPs option \<Rightarrow> IP \<Rightarrow> IP" where
  "FromInternal ctx ip = (case ctx of None \<Rightarrow> [] | Some e \<Rightarrow> replaceFunc (internalToExternalMap e) ip)"

definition ToInternal :: "externalIPs option \<Rightarrow> IP \<Rightarrow> IP" where
  "ToInternal ctx ip = (case ctx of None \<Rightarrow> [] | Some e \<Rightarrow> replaceFunc (externalToInternalMap e) ip)"

section \<open>Labels and switches\<close>

definition clusterinfo_Request :: "labels \<Rightarrow> 's request_chain \<Rightarrow> 's request_chain" where
  "clusterinfo_Request m nxt request s =
     (case req_connection request of
        None \<Rightarrow> (Inl Panic, s)
      | Some conn \<Rightarrow> nxt (request\<lparr>req_connection := Some (conn\<lparr>Labels := set_labels m (Labels conn)\<rparr>)\<rparr>) s)"

definition clientInfo_Request :: "(string \<rightharpoonup> string) \<Rightarrow> 's request_chain \<Rightarrow> 's request_chain" where
  "clientInfo_Request env nxt request s =
     nxt (request\<lparr>req_connection := Some ((conn_of request)\<lparr>Labels := AddClientInfo env (Labels (conn_of request))\<rparr>)\<rparr>) s"

definition setExtraContext_Request :: "labels \<Rightarrow> 's request_chain \<Rightarrow> 's request_chain" where
  "setExtraContext_Request vals nxt request s =
     (let conn = conn_of request; ctx = (case Context conn of None \<Rightarrow> empty_context | Some c \<Rightarrow> c) in
      nxt (request\<lparr>req_connection := Some (conn\<lparr>Context := Some (ctx\<lparr>ExtraContext := set_labels vals (ExtraContext ctx)\<rparr>)\<rparr>)\<rparr>) s)"

text \<open>The conditions of a switch look at the connection of a request.\<close>

definition switch_Request :: "((Connection \<Rightarrow> bool) \<times> 's request_chain) list \<Rightarrow> 's request_chain \<Rightarrow> 's request_chain" where
  "switch_Request cs = switchCase (map (\<lambda>(c, f). (\<lambda>r. c (conn_of r), f)) cs)"

definition switch_Close :: "((Connection \<Rightarrow> bool) \<times> 's close_chain) list \<Rightarrow> 's close_chain \<Rightarrow> 's close_chain" where
  "switch_Close = switchCase"

section \<open>Passing a connection on\<close>

text \<open>
  \<^verbatim>\<open>passthrough\<close>: an application that passes connections on shows the other side its own labels (\<^verbatim>\<open>replacelabels\<close>) and the endpoint that was selected there
  before (\<^verbatim>\<open>replacensename\<close>), which it remembers in the metadata of the connection, and its client what the client asked for.
\<close>

definition replaceLabelsClient_Request :: "labels \<Rightarrow> 's request_chain \<Rightarrow> 's request_chain" where
  "replaceLabelsClient_Request ls nxt request s =
     (case req_connection request of
        None \<Rightarrow> (Inl Panic, s)
      | Some conn \<Rightarrow>
          (case nxt (request\<lparr>req_connection := Some (conn\<lparr>Labels := ls\<rparr>)\<rparr>) s of
             (Inl e, s) \<Rightarrow> (Inl e, s)
           | (Inr resp, s) \<Rightarrow> (Inr (resp\<lparr>Labels := Labels conn\<rparr>), s)))"

definition replaceLabelsClient_Close :: "labels \<Rightarrow> 's close_chain \<Rightarrow> 's close_chain" where
  "replaceLabelsClient_Close ls nxt conn = nxt (conn\<lparr>Labels := ls\<rparr>)"

definition replaceNSEClient_Request :: "'s request_chain \<Rightarrow> (string option \<times> 's) request_chain" where
  "replaceNSEClient_Request nxt request = (\<lambda>(name, s).
     case req_connection request of
       None \<Rightarrow> (Inl Panic, name, s)
     | Some conn \<Rightarrow>
         (case nxt (request\<lparr>req_connection := Some (conn\<lparr>NetworkServiceEndpointName := (case name of None \<Rightarrow> [] | Some n \<Rightarrow> n)\<rparr>)\<rparr>) s of
            (Inl e, s) \<Rightarrow> (Inl e, name, s)
          | (Inr resp, s) \<Rightarrow>
              (Inr (resp\<lparr>NetworkServiceEndpointName := NetworkServiceEndpointName conn\<rparr>), Some (NetworkServiceEndpointName resp), s)))"

definition replaceNSEClient_Close :: "'s close_chain \<Rightarrow> (string option \<times> 's) close_chain" where
  "replaceNSEClient_Close nxt conn = (\<lambda>(name, s).
     case nxt (conn\<lparr>NetworkServiceEndpointName := (case name of None \<Rightarrow> [] | Some n \<Rightarrow> n)\<rparr>) s of (res, s) \<Rightarrow> (res, None, s))"

definition passthrough_Request :: "labels \<Rightarrow> 's request_chain \<Rightarrow> (string option \<times> 's) request_chain" where
  "passthrough_Request ls nxt = replaceLabelsClient_Request ls (replaceNSEClient_Request nxt)"

definition passthrough_Close :: "labels \<Rightarrow> 's close_chain \<Rightarrow> (string option \<times> 's) close_chain" where
  "passthrough_Close ls nxt = replaceLabelsClient_Close ls (replaceNSEClient_Close nxt)"

text \<open>
  Both sides are kept apart: the client's labels and endpoint never leave the application, and the close goes to the endpoint of the last request that succeeded.
\<close>

lemma passthrough_keeps_apart:
  assumes "passthrough_Request ls nxt request (name, s) = (Inr resp, name', s')"
  shows "\<exists>conn answer. req_connection request = Some conn \<and>
    nxt (request\<lparr>req_connection := Some (conn\<lparr>Labels := ls, NetworkServiceEndpointName := (case name of None \<Rightarrow> [] | Some n \<Rightarrow> n)\<rparr>)\<rparr>) s = (Inr answer, s') \<and>
    name' = Some (NetworkServiceEndpointName answer) \<and>
    resp = answer\<lparr>NetworkServiceEndpointName := NetworkServiceEndpointName conn, Labels := Labels conn\<rparr> \<and>
    passthrough_Close ls cls resp (name', s') =
      (case cls (answer\<lparr>Labels := ls\<rparr>) s' of (res, t) \<Rightarrow> (res, None, t))"
proof (cases "req_connection request")
  case None
  then show ?thesis using assms by (simp add: passthrough_Request_def replaceLabelsClient_Request_def)
next
  case (Some conn)
  note defs = passthrough_Request_def passthrough_Close_def replaceLabelsClient_Request_def replaceLabelsClient_Close_def
    replaceNSEClient_Request_def replaceNSEClient_Close_def
  let ?r = "request\<lparr>req_connection := Some (conn\<lparr>Labels := ls, NetworkServiceEndpointName := (case name of None \<Rightarrow> [] | Some n \<Rightarrow> n)\<rparr>)\<rparr>"
  obtain answer where a: "nxt ?r s = (Inr answer, s')" using assms Some by (auto simp: defs split: prod.splits sum.splits)
  then show ?thesis using assms Some by (intro exI [of _ conn] exI [of _ answer]) (auto simp: defs split: prod.split)
qed

end
