(* ===== verification/Element_Theorems.thy ===== *)
theory Element_Theorems
  imports Connection_Elements
begin

text \<open>
  What the rewriting elements of both sides achieve together: addresses are exchanged and restored, endpoints that were announced under another URL are found again.
\<close>

section \<open>Labels\<close>

lemma map_of_put_label [simp]: "map_of (put_label k v m) = (map_of m)(k \<mapsto> v)"
  by (induction k v m rule: put_label.induct) (auto simp: fun_eq_iff)

lemma lbl_put_label [simp]: "lbl (put_label k v m) k' = (if k' = k then v else lbl m k')"
  by (simp add: lbl_def)

lemma set_labels_values:
  "distinct (map fst vals) \<Longrightarrow> map_of (set_labels vals m) = map_of m ++ map_of vals"
proof (induction vals arbitrary: m)
  case (Cons kv vals)
  obtain k v where kv: "kv = (k, v)" by fastforce
  have "map_of vals k = None" using Cons.prems kv by (simp add: map_of_eq_None_iff)
  then have "(map_of m)(k \<mapsto> v) ++ map_of vals = map_of m ++ (map_of vals)(k \<mapsto> v)"
    by (auto simp: fun_eq_iff map_add_def split: option.split)
  moreover have "set_labels (kv # vals) m = set_labels vals (put_label k v m)" by (simp add: set_labels_def kv)
  moreover have "distinct (map fst vals)" using Cons.prems by simp
  ultimately show ?case using Cons.IH [of "put_label k v m"] unfolding kv map_of_put_label by (simp only: map_of.simps fst_conv snd_conv)
qed (simp add: set_labels_def)

section \<open>Exchange of addresses\<close>

lemma fold_all_true:
  "(\<forall>m\<in>set ms. f m = None \<or> f m = Some c) \<Longrightarrow> fold (\<lambda>m b. case f m of None \<Rightarrow> b | Some c \<Rightarrow> c) ms b = (if \<exists>m\<in>set ms. f m \<noteq> None then c else b)"
  by (induction ms arbitrary: b) auto

lemma all_mechanisms_map [simp]: "all_mechanisms (map_mechanisms f r) = map f (all_mechanisms r)"
  by (simp add: all_mechanisms_def map_mechanisms_def split: option.split)

lemma map_mechanisms_twice: "map_mechanisms f (map_mechanisms g r) = map_mechanisms (f \<circ> g) r"
  by (simp add: map_mechanisms_def option.map_comp o_def)

lemma source_side_with: "source_side K (with_srcIP K f m) =
    (case Parameters m of None \<Rightarrow> None | Some ps \<Rightarrow> if map_of ps (SrcIPKey K) = None then None else source_side K (m\<lparr>Parameters := Some (f ps)\<rparr>))"
  by (simp add: source_side_def with_srcIP_def split: option.split)

lemma in_answer_twice: "in_answer f (in_answer g c) = in_answer (f \<circ> g) c"
  by (simp add: in_answer_def split: option.split)

definition own_address :: "ip_keys \<Rightarrow> Mechanism \<Rightarrow> bool" where
  "own_address K m \<longleftrightarrow>
     (\<exists>ps. Parameters m = Some ps \<and> map_of ps (SrcIPKey K) \<noteq> None \<and> lbl ps (SrcIPKey K) \<noteq> [] \<and> lbl ps (SrcOriginalIPKey K) = [])"

lemma with_srcIP_none: "source_side K m = None \<Longrightarrow> with_srcIP K f m = m"
  by (auto simp: source_side_def with_srcIP_def split: option.splits if_splits)

lemma with_srcIP_own:
  assumes "Parameters m = Some ps" "map_of ps (SrcIPKey K) \<noteq> None"
  shows "with_srcIP K f m = m\<lparr>Parameters := Some (f ps)\<rparr>"
  using assms by (cases "map_of ps (SrcIPKey K)") (simp_all add: with_srcIP_def)

text \<open>What the endpoint's side gets for parameters, and what the client gets back.\<close>

definition sent_params :: "ip_keys \<Rightarrow> (string \<rightharpoonup> string) \<Rightarrow> labels \<Rightarrow> labels" where
  "sent_params K m1 ps =
     (let a = lbl ps (SrcIPKey K) in
      put_label (DstIPKey K) [] (put_label (DstOriginalIPKey K) [] (put_label (SrcOriginalIPKey K) a (put_label (SrcIPKey K) (look_up m1 a) ps))))"

definition returned_params :: "ip_keys \<Rightarrow> (string \<rightharpoonup> string) \<Rightarrow> labels \<Rightarrow> labels" where
  "returned_params K m2 qs =
     (let b = lbl qs (DstIPKey K) in
      put_label (SrcOriginalIPKey K) [] (put_label (SrcIPKey K) (lbl qs (SrcOriginalIPKey K)) (put_label (DstOriginalIPKey K) b (put_label (DstIPKey K) (look_up m2 b) qs))))"

definition ip_keys_ok :: "ip_keys \<Rightarrow> bool" where
  "ip_keys_ok K \<longleftrightarrow> distinct [SrcIPKey K, SrcOriginalIPKey K, DstIPKey K, DstOriginalIPKey K]"

text \<open>
  A request that leaves one cluster through the client element and enters another through the server element: the endpoint's side sees the client's external
  address, with the internal one beside it and no address of its own from before; the client gets its own internal address back, none beside it, and the external
  address of the endpoint with the internal one beside it. As the source mark is gone from the answer, a refresh with the answered mechanism is exchanged in the same
  way.
\<close>

lemma swapip_exchange:
  assumes "ip_keys_ok K" "\<forall>m\<in>set (all_mechanisms request). source_side K m = None \<or> own_address K m" "\<exists>m\<in>set (all_mechanisms request). own_address K m"
  shows "swapIPClient_Request K m1 (swapIPServer_Request K m2 nxt) request s =
    (case nxt (map_mechanisms (with_srcIP K (sent_params K m1)) request) s of
       (Inl e, s) \<Rightarrow> (Inl e, s)
     | (Inr resp, s) \<Rightarrow> (Inr (in_answer (returned_params K m2) resp), s))"
proof -
  let ?out = "\<lambda>ps. if lbl ps (SrcOriginalIPKey K) = [] then
      put_label (SrcOriginalIPKey K) (lbl ps (SrcIPKey K)) (put_label (SrcIPKey K) (look_up m1 (lbl ps (SrcIPKey K))) ps) else ps"
  let ?reset = "\<lambda>ps. if lbl ps (SrcOriginalIPKey K) \<noteq> [] then put_label (DstIPKey K) [] (put_label (DstOriginalIPKey K) [] ps) else ps"
  have d: "SrcIPKey K \<noteq> SrcOriginalIPKey K" "DstIPKey K \<noteq> SrcOriginalIPKey K" "DstOriginalIPKey K \<noteq> SrcOriginalIPKey K"
    "DstIPKey K \<noteq> SrcIPKey K" "DstOriginalIPKey K \<noteq> SrcIPKey K" "DstOriginalIPKey K \<noteq> DstIPKey K"
    using assms(1) by (auto simp: ip_keys_ok_def)
  have own: "source_side K m = Some True" if "own_address K m" for m using that by (auto simp: own_address_def source_side_def)
  have "isSourceSide K request"
    unfolding isSourceSide_def using assms(2,3) own by (subst fold_all_true [of _ _ True]) auto
  moreover have side: "source_side K (with_srcIP K ?out m) = (if own_address K m then Some False else None)" if m: "m \<in> set (all_mechanisms request)" for m
  proof (cases "own_address K m")
    case True
    then obtain ps where ps: "Parameters m = Some ps" "map_of ps (SrcIPKey K) \<noteq> None" "lbl ps (SrcIPKey K) \<noteq> []" "lbl ps (SrcOriginalIPKey K) = []"
      by (auto simp: own_address_def)
    show ?thesis using True ps d unfolding with_srcIP_own [OF ps(1,2)] by (simp add: source_side_def)
  next
    case False
    then have "source_side K m = None" using assms(2) m by blast
    then show ?thesis using False by (simp add: with_srcIP_none)
  qed
  then have "\<not> isSourceSide K (map_mechanisms (with_srcIP K ?out) request)"
    unfolding isSourceSide_def using assms(3) by (subst fold_all_true [of _ _ False]) auto
  moreover have "with_srcIP K ?reset (with_srcIP K ?out m) = with_srcIP K (sent_params K m1) m" if m: "m \<in> set (all_mechanisms request)" for m
  proof (cases "own_address K m")
    case True
    then obtain ps where ps: "Parameters m = Some ps" "map_of ps (SrcIPKey K) \<noteq> None" "lbl ps (SrcIPKey K) \<noteq> []" "lbl ps (SrcOriginalIPKey K) = []"
      by (auto simp: own_address_def)
    show ?thesis using ps d unfolding with_srcIP_own [OF ps(1,2)] by (simp add: with_srcIP_def sent_params_def Let_def)
  next
    case False
    then have "source_side K m = None" using assms(2) m by blast
    then show ?thesis by (simp add: with_srcIP_none)
  qed
  then have "map_mechanisms (with_srcIP K ?reset) (map_mechanisms (with_srcIP K ?out) request) = map_mechanisms (with_srcIP K (sent_params K m1)) request"
    by (auto simp: map_mechanisms_twice map_mechanisms_def all_mechanisms_def map_option_case split: option.splits)
  moreover have "(\<lambda>ps. put_label (SrcOriginalIPKey K) [] (put_label (SrcIPKey K) (lbl ps (SrcOriginalIPKey K)) ps)) \<circ>
      (\<lambda>ps. put_label (DstOriginalIPKey K) (lbl ps (DstIPKey K)) (put_label (DstIPKey K) (look_up m2 (lbl ps (DstIPKey K))) ps)) = returned_params K m2"
    using d by (auto simp: fun_eq_iff returned_params_def Let_def)
  ultimately show ?thesis
    by (simp add: swapIPClient_Request_def swapIPServer_Request_def Let_def in_answer_twice split: prod.split sum.split)
qed

lemma sent_returned_params:
  assumes "ip_keys_ok K"
  shows "lbl (sent_params K m1 ps) (SrcIPKey K) = look_up m1 (lbl ps (SrcIPKey K))" "lbl (sent_params K m1 ps) (SrcOriginalIPKey K) = lbl ps (SrcIPKey K)"
    "lbl (sent_params K m1 ps) (DstIPKey K) = []" "lbl (sent_params K m1 ps) (DstOriginalIPKey K) = []"
    "lbl (returned_params K m2 qs) (SrcIPKey K) = lbl qs (SrcOriginalIPKey K)" "lbl (returned_params K m2 qs) (SrcOriginalIPKey K) = []"
    "lbl (returned_params K m2 qs) (DstIPKey K) = look_up m2 (lbl qs (DstIPKey K))" "lbl (returned_params K m2 qs) (DstOriginalIPKey K) = lbl qs (DstIPKey K)"
  using assms by (auto simp: ip_keys_ok_def sent_params_def returned_params_def Let_def)

definition tunnel_keys :: ip_keys where
  "tunnel_keys = \<lparr>SrcIPKey = ''src'', SrcOriginalIPKey = ''srcO'', DstIPKey = ''dst'', DstOriginalIPKey = ''dstO''\<rparr>"

definition tunnel_request :: NetworkServiceRequest where
  "tunnel_request = \<lparr>req_connection = Some empty_connection,
     MechanismPreferences = [\<lparr>Cls = ''REMOTE'', mech_Type = ''VXLAN'', Parameters = Some [(''src'', ''10.0.0.1'')]\<rparr>]\<rparr>"

lemma swapip_exchange_witness:
  "swapIPClient_Request tunnel_keys [''10.0.0.1'' \<mapsto> ''1.1.1.1''] (swapIPServer_Request tunnel_keys [''10.1.0.1'' \<mapsto> ''2.2.2.2'']
      (\<lambda>r s. (Inr (empty_connection\<lparr>Mechanism := map_option (\<lambda>m. m\<lparr>Parameters := map_option (put_label ''dst'' ''10.1.0.1'') (Parameters m)\<rparr>)
        (Some (hd (MechanismPreferences r)))\<rparr>), s))) tunnel_request () =
    (Inr (empty_connection\<lparr>Mechanism := Some \<lparr>Cls = ''REMOTE'', mech_Type = ''VXLAN'',
      Parameters = Some [(''dst'', ''2.2.2.2''), (''dstO'', ''10.1.0.1''), (''src'', ''10.0.0.1''), (''srcO'', [])]\<rparr>\<rparr>), ())"
proof -
  have k: "ip_keys_ok tunnel_keys" by (simp add: ip_keys_ok_def tunnel_keys_def)
  have o: "\<forall>m\<in>set (all_mechanisms tunnel_request). source_side tunnel_keys m = None \<or> own_address tunnel_keys m"
    "\<exists>m\<in>set (all_mechanisms tunnel_request). own_address tunnel_keys m"
    by (simp_all add: all_mechanisms_def tunnel_request_def empty_connection_def own_address_def tunnel_keys_def lbl_def)
  show ?thesis
    unfolding swapip_exchange [OF k o]
    by (simp add: tunnel_request_def tunnel_keys_def empty_connection_def map_mechanisms_def with_srcIP_def sent_params_def returned_params_def Let_def
        in_answer_def lbl_def look_up_def)
qed

text \<open>An address that the map does not have is replaced by the empty one, and the remote side gets no address at all.\<close>

lemma unmapped_address_lost: "m1 (lbl ps (SrcIPKey K)) = None \<Longrightarrow> ip_keys_ok K \<Longrightarrow> lbl (sent_params K m1 ps) (SrcIPKey K) = []"
  by (simp add: sent_returned_params look_up_def)

section \<open>Endpoints of this manager\<close>

text \<open>
  An endpoint that registered successfully is found under the URL that it registered with, whatever URL the registry has for it. What the registry has under the
  manager's URL and is not known here is not handed on.
\<close>

lemma localBypass_roundtrip:
  assumes "localBypass_Register parse url_show nsmgr nxt nse (m, s) = (Inr reg, m', s')" "nse_name (r_nse resp) = nse_name reg"
    and "Url reg \<noteq> nsmgr"
  shows "localBypass_Send url_show nsmgr send resp (m', t) = send (resp\<lparr>r_nse := (r_nse resp)\<lparr>Url := Url reg\<rparr>\<rparr>) (m', t)"
proof -
  obtain u where "m' (nse_name reg) = Some u" "Url reg = url_show u"
    using assms(1) unfolding localBypass_Register_def
    by (auto simp: Let_def split: option.splits if_splits prod.splits sum.splits nsm_error.splits)
  then show ?thesis using assms(2,3) by (simp add: localBypass_Send_def)
qed

lemma localBypass_hides_unknown:
  "m (nse_name (r_nse resp)) = None \<Longrightarrow> Url (r_nse resp) = nsmgr \<Longrightarrow> \<not> Deleted resp \<Longrightarrow> localBypass_Send url_show nsmgr send resp (m, t) = (None, m, t)"
  by (simp add: localBypass_Send_def)

text \<open>A registration of a known endpoint with another URL that the registry refuses leaves the new URL behind, under which the endpoint is found from then on.\<close>

lemma localBypass_refused_stays:
  assumes "m (nse_name nse) = Some old" "url_show old \<noteq> Url nse" "parse (Url nse) = Some u" "url_show u \<noteq> []" "nxt (nse\<lparr>Url := nsmgr\<rparr>) s = (Inl (Err e), s')"
  shows "localBypass_Register parse url_show nsmgr nxt nse (m, s) = (Inl (Err e), m(nse_name nse \<mapsto> u), s')"
  using assms by (simp add: localBypass_Register_def Let_def)

section \<open>Between domains\<close>

lemma interdomain_parts:
  assumes "CHR ''@'' \<notin> set name"
  shows "interdomain_Target (interdomain_Join [name, domain]) = name" "interdomain_Domain (interdomain_Join [name, domain]) = domain"
    "interdomain_Is (interdomain_Join [name, domain])"
  using assms by (simp_all add: interdomain_Target_def interdomain_Domain_def interdomain_Is_def takeWhile_append dropWhile_append)

text \<open>
  An endpoint that a search through the proxy shows for the first time is shown under the proxy's URL, and the request that comes back with its name is sent to the URL
  it had. A later search that shows the endpoint elsewhere does not change that.
\<close>

definition collect_resp :: "NSEResponse \<Rightarrow> 'u url_map \<times> NSEResponse list \<Rightarrow> nsm_error option \<times> 'u url_map \<times> NSEResponse list" where
  "collect_resp resp = (\<lambda>(m, rs). (None, m, rs @ [resp]))"

lemma interdomain_follows:
  assumes "interdomainBypass_Find parse own (\<lambda>send q. send resp) collect_resp q (m, []) = (None, m', rs)" "parse (Url (r_nse resp)) = Some u"
    and "req_connection request = Some conn" "NetworkServiceEndpointName conn = nse_name (r_nse resp)"
  shows "rs = [resp\<lparr>r_nse := (r_nse resp)\<lparr>Url := own\<rparr>\<rparr>] \<and>
    interdomainBypass_Request m' nxt ctx request w =
      nxt (ctx\<lparr>ClientURL := (case m (nse_name (r_nse resp)) of None \<Rightarrow> Some u | Some v \<Rightarrow> v)\<rparr>) request w"
  using assms by (auto simp: interdomainBypass_Find_def interdomainBypass_Send_def collect_resp_def interdomainBypass_Request_def split: if_splits option.splits)

section \<open>External addresses\<close>

lemma fold_upd_inj:
  assumes "distinct (map fst ips)"
  shows "fold (\<lambda>(k, v) m. m(k \<mapsto> v)) ips m k = (case map_of ips k of None \<Rightarrow> m k | Some v \<Rightarrow> Some v)"
  using assms
proof (induction ips arbitrary: m)
  case (Cons kv ips)
  obtain l v where kv: "kv = (l, v)" by fastforce
  have "map_of ips l = None" using Cons.prems kv by (simp add: map_of_eq_None_iff)
  then show ?case using Cons.IH [of "m(l \<mapsto> v)"] Cons.prems kv by (auto split: option.split)
qed simp

text \<open>
  Replacing an internal address by the external one and back gives it again, if the addresses are written the way they are printed and no two internal ones have the same
  external one.
\<close>

lemma external_internal:
  assumes "externalIPs_build ips e0 = (None, e)" "distinct (map fst ips)" "distinct (map snd ips)" "(IP_String i, IP_String x) \<in> set ips"
    and "ParseIP (IP_String x) = Some x" "ParseIP (IP_String i) = Some i"
  shows "FromInternal (Some e) i = x \<and> ToInternal (Some e) x = i"
proof -
  have e: "e = \<lparr>internalToExternalMap = fold (\<lambda>(k, v) m. m(k \<mapsto> v)) ips Map.empty, externalToInternalMap = fold (\<lambda>(k, v) m. m(v \<mapsto> k)) ips Map.empty\<rparr>"
    using assms(1) by (simp add: externalIPs_build_def split: if_splits)
  have "fold (\<lambda>(k, v) m. m(v \<mapsto> k)) ips = fold (\<lambda>(k, v) m. m(k \<mapsto> v)) (map (\<lambda>(k, v). (v, k)) ips)"
    by (simp add: fold_map o_def case_prod_unfold)
  moreover have "map fst (map (\<lambda>(k, v). (v, k)) ips) = map snd ips" by (simp add: case_prod_unfold)
  moreover have "(IP_String x, IP_String i) \<in> set (map (\<lambda>(k, v). (v, k)) ips)" using assms(4) by force
  ultimately have d: "fold (\<lambda>(k, v) m. m(v \<mapsto> k)) ips = fold (\<lambda>(k, v) m. m(k \<mapsto> v)) (map (\<lambda>(k, v). (v, k)) ips)"
    "distinct (map fst (map (\<lambda>(k, v). (v, k)) ips))" "(IP_String x, IP_String i) \<in> set (map (\<lambda>(k, v). (v, k)) ips)"
    using assms(3) by (simp_all only:)
  have "externalToInternalMap e (IP_String x) = Some (IP_String i)"
    unfolding e d(1) using fold_upd_inj [OF d(2), of Map.empty "IP_String x"] map_of_is_SomeI [OF d(2,3)] by (simp del: map_map)
  moreover have "internalToExternalMap e (IP_String i) = Some (IP_String x)"
    using fold_upd_inj [OF assms(2)] assms(2,4) by (simp add: e)
  ultimately show ?thesis using assms(5,6) by (simp add: FromInternal_def ToInternal_def replaceFunc_def look_up_def)
qed

section \<open>Hosts and ports\<close>

lemma last_colon_append: "CHR '':'' \<notin> set p \<Longrightarrow> last_colon (h @ CHR '':'' # p) = Some (length h)"
  by (simp add: last_colon_def takeWhile_append)

lemma SplitHostPort_JoinHostPort:
  assumes "set h \<inter> {CHR ''['', CHR '']''} = {}" "set p \<inter> {CHR ''['', CHR '']'', CHR '':''} = {}"
  shows "SplitHostPort (JoinHostPort h p) = Some (h, p)"
proof (cases "CHR '':'' \<in> set h")
  case True
  have l: "last_colon (CHR ''['' # h @ CHR '']'' # CHR '':'' # p) = Some (Suc (Suc (length h)))"
    using last_colon_append [of p "CHR ''['' # h @ [CHR '']'']"] assms(2) by auto
  have w: "takeWhile (\<lambda>c. c \<noteq> CHR '']'') (h @ CHR '']'' # CHR '':'' # p) = h"
    using assms(1) by (induction h) auto
  show ?thesis using True assms by (auto simp: JoinHostPort_def SplitHostPort_def l w Let_def)
next
  case False
  have l: "last_colon (h @ CHR '':'' # p) = Some (length h)" using last_colon_append [of p h] assms(2) by auto
  have h: "hd (h @ CHR '':'' # p) \<noteq> CHR ''[''" using assms(1) by (cases h) auto
  show ?thesis using False assms h by (auto simp: JoinHostPort_def SplitHostPort_def l Let_def)
qed

end
