(* ===== verification/Query_Cache.thy ===== *)
theory Query_Cache
  imports Memory_Registry
begin

text \<open>
  \<^verbatim>\<open>registry/common/querycache\<close>: a client that answers searches for one endpoint by name from memory. Every endpoint that a search found gets an entry, and a goroutine that
  watches it in the registry and keeps the entry up to date. Searches, watches, the registry behind and the clock are interleaved step by step; every step is executable.
\<close>

section \<open>The state\<close>

text \<open>An entry names its watch, by place. A goroutine opens its watch, reads it, and leaves; whether it has read an event for its endpoint is recorded.\<close>

record cacheEntry =
  ce_nse :: NetworkServiceEndpoint
  expirationTime :: int
  ce_watch :: nat

datatype watch_pc = Opening | Watching | Leaving | Gone

record cache_watch =
  cw_pc :: watch_pc
  cw_name :: string
  cw_stream :: "NSEResponse list"
  cw_seen :: bool

text \<open>
  The entries are keyed by the query (its text); \<open>cancelled\<close> are the watches whose cleanup has run. \<open>storing\<close> are the endpoints that searches have found and not stored
  yet. \<open>registered\<close> is the registry behind.
\<close>

record querycache =
  entries :: "NSEQuery \<rightharpoonup> cacheEntry"
  watches :: "cache_watch list"
  cancelled :: "nat set"
  storing :: "NetworkServiceEndpoint list list"
  now :: int
  expireTimeout :: int
  registered :: "string \<rightharpoonup> NetworkServiceEndpoint"

definition newCache :: "int \<Rightarrow> (string \<rightharpoonup> NetworkServiceEndpoint) \<Rightarrow> querycache" where
  "newCache timeout nses = \<lparr>entries = Map.empty, watches = [], cancelled = {}, storing = [], now = 0, expireTimeout = timeout, registered = nses\<rparr>"

definition name_query :: "string \<Rightarrow> bool \<Rightarrow> NSEQuery" where
  "name_query n w =
     \<lparr>q_nse = \<lparr>nse_name = n, NetworkServiceNames = None, NetworkServiceLabels = None, Url = [], ExpirationTime = None, nse_PathIds = []\<rparr>, Watch = w\<rparr>"

section \<open>The cache\<close>

text \<open>The cleanup of an entry runs once.\<close>

definition cleanup :: "NSEQuery \<Rightarrow> nat \<Rightarrow> querycache \<Rightarrow> querycache" where
  "cleanup key i c = (if i \<in> cancelled c then c else c\<lparr>entries := (entries c)(key := None), cancelled := insert i (cancelled c)\<rparr>)"

definition cache_Load :: "NSEQuery \<Rightarrow> querycache \<Rightarrow> NetworkServiceEndpoint option \<times> querycache" where
  "cache_Load key c =
     (case entries c key of
        None \<Rightarrow> (None, c)
      | Some e \<Rightarrow>
          if expirationTime e - now c < 0 then (None, cleanup key (ce_watch e) c)
          else (Some (ce_nse e), c\<lparr>entries := (entries c)(key \<mapsto> e\<lparr>expirationTime := now c + expireTimeout c\<rparr>)\<rparr>))"

text \<open>\<^verbatim>\<open>storeInCache\<close>: a new entry comes with a goroutine; an entry that is there stays.\<close>

definition storeInCache :: "NetworkServiceEndpoint \<Rightarrow> querycache \<Rightarrow> querycache" where
  "storeInCache nse c =
     (let key = name_query (nse_name nse) False in
      if entries c key \<noteq> None then c
      else c\<lparr>entries := (entries c)(key \<mapsto> \<lparr>ce_nse = nse, expirationTime = now c + expireTimeout c, ce_watch = length (watches c)\<rparr>),
             watches := watches c @ [\<lparr>cw_pc = Opening, cw_name = nse_name nse, cw_stream = [], cw_seen = False\<rparr>]\<rparr>)"

definition cache_Update :: "string \<Rightarrow> nat \<Rightarrow> NetworkServiceEndpoint \<Rightarrow> querycache \<Rightarrow> querycache" where
  "cache_Update n i nse c =
     (let key = name_query n False in
      case entries c key of
        None \<Rightarrow> c
      | Some e \<Rightarrow> if ce_watch e = i then c\<lparr>entries := (entries c)(key \<mapsto> e\<lparr>ce_nse := nse\<rparr>)\<rparr> else c)"

text \<open>The ticker cleans up every entry that has expired; which entries are visited is the list of keys.\<close>

definition cache_tick :: "NSEQuery list \<Rightarrow> querycache \<Rightarrow> querycache" where
  "cache_tick ks c =
     fold (\<lambda>key c. case entries c key of None \<Rightarrow> c | Some e \<Rightarrow> if expirationTime e - now c < 0 then cleanup key (ce_watch e) c else c) ks c"

section \<open>Steps\<close>

definition set_watch :: "nat \<Rightarrow> (cache_watch \<Rightarrow> cache_watch) \<Rightarrow> querycache \<Rightarrow> querycache" where
  "set_watch i f c = c\<lparr>watches := (watches c)[i := f (watches c ! i)]\<rparr>"

definition in_state :: "nat \<Rightarrow> watch_pc \<Rightarrow> querycache \<Rightarrow> bool" where
  "in_state i pc c \<longleftrightarrow> i < length (watches c) \<and> cw_pc (watches c ! i) = pc"

text \<open>What the registry sends to the open watches when an endpoint changes.\<close>

definition tell_watches :: "NSEResponse \<Rightarrow> querycache \<Rightarrow> querycache" where
  "tell_watches r c =
     c\<lparr>watches := map (\<lambda>w. if cw_pc w = Watching \<and> matching (name_query (cw_name w) True) (r_nse r) then w\<lparr>cw_stream := cw_stream w @ [r]\<rparr> else w) (watches c)\<rparr>"

datatype cache_action =
  Registers NetworkServiceEndpoint | Unregisters string | Passes int | Ticks "NSEQuery list"
| Searches NSEQuery "NetworkServiceEndpoint list" | Stores nat
| Opens nat "NetworkServiceEndpoint list" | OpenFails nat | Receives nat | Breaks nat | Leaves nat

text \<open>
  A search that does not watch asks the cache, then the registry, whose answer is in some order; its results are stored one after the other. A watch that opens gets the
  endpoints that match; it breaks when it was cancelled or the registry ends it.
\<close>

fun cache_step :: "cache_action \<Rightarrow> querycache \<Rightarrow> querycache option" where
  "cache_step (Registers nse) c = Some (tell_watches \<lparr>r_nse = nse, Deleted = False\<rparr> (c\<lparr>registered := (registered c)(nse_name nse \<mapsto> nse)\<rparr>))"
| "cache_step (Unregisters n) c =
     (case registered c n of
        None \<Rightarrow> None
      | Some nse \<Rightarrow> Some (tell_watches \<lparr>r_nse = nse, Deleted = True\<rparr> (c\<lparr>registered := (registered c)(n := None)\<rparr>)))"
| "cache_step (Passes d) c = (if d < 0 then None else Some (c\<lparr>now := now c + d\<rparr>))"
| "cache_step (Ticks ks) c = Some (cache_tick ks c)"
| "cache_step (Searches q found) c =
     (if Watch q then Some c
      else case cache_Load q c of
        (Some nse, c) \<Rightarrow> Some c
      | (None, c) \<Rightarrow>
          if set found = {nse \<in> ran (registered c). matching q nse} \<and> distinct found then Some (c\<lparr>storing := storing c @ [found]\<rparr>) else None)"
| "cache_step (Stores i) c =
     (if i < length (storing c) then
        (case storing c ! i of
           [] \<Rightarrow> None
         | nse # nses \<Rightarrow> Some (storeInCache nse (c\<lparr>storing := (storing c)[i := nses]\<rparr>)))
      else None)"
| "cache_step (Opens i found) c =
     (if in_state i Opening c \<and> set found = {nse \<in> ran (registered c). matching (name_query (cw_name (watches c ! i)) True) nse} \<and> distinct found then
        Some (set_watch i (\<lambda>w. w\<lparr>cw_pc := Watching, cw_stream := map (\<lambda>nse. \<lparr>r_nse = nse, Deleted = False\<rparr>) found\<rparr>) c)
      else None)"
| "cache_step (OpenFails i) c = (if in_state i Opening c then Some (set_watch i (\<lambda>w. w\<lparr>cw_pc := Leaving\<rparr>) c) else None)"
| "cache_step (Receives i) c =
     (if in_state i Watching c then
        (case cw_stream (watches c ! i) of
           [] \<Rightarrow> None
         | r # rs \<Rightarrow>
             let n = cw_name (watches c ! i); c = set_watch i (\<lambda>w. w\<lparr>cw_stream := rs\<rparr>) c in
             if nse_name (r_nse r) \<noteq> n then Some c
             else if Deleted r then Some (set_watch i (\<lambda>w. w\<lparr>cw_pc := Leaving, cw_seen := True\<rparr>) c)
             else Some (cache_Update n i (r_nse r) (set_watch i (\<lambda>w. w\<lparr>cw_seen := True\<rparr>) c)))
      else None)"
| "cache_step (Breaks i) c = (if in_state i Watching c then Some (set_watch i (\<lambda>w. w\<lparr>cw_pc := Leaving\<rparr>) c) else None)"
| "cache_step (Leaves i) c =
     (if in_state i Leaving c then Some (cleanup (name_query (cw_name (watches c ! i)) False) i (set_watch i (\<lambda>w. w\<lparr>cw_pc := Gone\<rparr>) c)) else None)"

fun cache_run :: "cache_action list \<Rightarrow> querycache \<Rightarrow> querycache option" where
  "cache_run [] c = Some c"
| "cache_run (a # as) c = Option.bind (cache_step a c) (cache_run as)"

end
