(* ===== verification/Query_Cache_Theorems.thy ===== *)
theory Query_Cache_Theorems
  imports Query_Cache
begin

text \<open>
  What the cache promises: an entry whose watch has told something and is drained is the endpoint as it is registered. Until the watch opens there is no promise, and
  an endpoint that goes away in between stays in the cache as long as it is asked for.
\<close>

section \<open>The invariant\<close>

definition own_events :: "cache_watch \<Rightarrow> NSEResponse list" where
  "own_events w = filter (\<lambda>r. nse_name (r_nse r) = cw_name w) (cw_stream w)"

definition after_events :: "NSEResponse list \<Rightarrow> NetworkServiceEndpoint option \<Rightarrow> NetworkServiceEndpoint option" where
  "after_events rs v = fold (\<lambda>r v. if Deleted r then None else Some (r_nse r)) rs v"

lemma after_events_simps [simp]:
  "after_events [] v = v" "after_events (r # rs) v = after_events rs (if Deleted r then None else Some (r_nse r))"
  "after_events (rs @ [r]) v = (if Deleted r then None else Some (r_nse r))"
  by (simp_all add: after_events_def)

lemma after_events_any: "rs \<noteq> [] \<Longrightarrow> after_events rs v = after_events rs v'"
  by (cases rs) simp_all

definition names_ok :: "querycache \<Rightarrow> bool" where
  "names_ok c \<longleftrightarrow> (\<forall>n nse. registered c n = Some nse \<longrightarrow> nse_name nse = n)"

definition entries_of :: "querycache \<Rightarrow> bool" where
  "entries_of c \<longleftrightarrow> (\<forall>key e. entries c key = Some e \<longrightarrow>
     ce_watch e < length (watches c) \<and> key = name_query (cw_name (watches c ! ce_watch e)) False)"

definition follows :: "querycache \<Rightarrow> nat \<Rightarrow> cacheEntry \<Rightarrow> bool" where
  "follows c i e \<longleftrightarrow> (let w = watches c ! i in
     cw_pc w = Watching \<longrightarrow> cw_seen w \<or> own_events w \<noteq> [] \<longrightarrow> after_events (own_events w) (Some (ce_nse e)) = registered c (cw_name w))"

definition unopened :: "querycache \<Rightarrow> bool" where
  "unopened c \<longleftrightarrow> (\<forall>w\<in>set (watches c). cw_pc w = Opening \<longrightarrow> \<not> cw_seen w)"

definition cache_inv :: "querycache \<Rightarrow> bool" where
  "cache_inv c \<longleftrightarrow> names_ok c \<and> entries_of c \<and> unopened c \<and> (\<forall>key e. entries c key = Some e \<longrightarrow> follows c (ce_watch e) e)"

lemma name_query_inject [simp]: "name_query n w = name_query n' w' \<longleftrightarrow> n = n' \<and> w = w'"
  by (auto simp: name_query_def)

lemma matching_name: "matching (name_query n w) nse \<longleftrightarrow> n = [] \<or> nse_name nse = n"
  by (simp add: matching_def name_query_def MatchNetworkServiceEndpoints_def)

text \<open>Taking entries away, or changing only their times, keeps it.\<close>

lemma cache_inv_fewer:
  assumes "cache_inv c" "watches c' = watches c" "registered c' = registered c"
    and "\<And>key e'. entries c' key = Some e' \<Longrightarrow> \<exists>e. entries c key = Some e \<and> ce_watch e' = ce_watch e \<and> ce_nse e' = ce_nse e"
  shows "cache_inv c'"
proof -
  have f: "follows c' i e' \<longleftrightarrow> follows c i e" if "ce_nse e' = ce_nse e" for i e e'
    using that assms(2,3) by (simp add: follows_def)
  have "entries_of c'" unfolding entries_of_def
  proof (intro allI impI)
    fix key e' assume "entries c' key = Some e'"
    then obtain e where "entries c key = Some e" "ce_watch e' = ce_watch e" using assms(4) by blast
    then show "ce_watch e' < length (watches c') \<and> key = name_query (cw_name (watches c' ! ce_watch e')) False"
      using assms(1,2) by (simp add: cache_inv_def entries_of_def)
  qed
  moreover have "follows c' (ce_watch e') e'" if e': "entries c' key = Some e'" for key e'
  proof -
    obtain e where e: "entries c key = Some e" "ce_watch e' = ce_watch e" "ce_nse e' = ce_nse e" using assms(4) [OF e'] by blast
    then have "follows c (ce_watch e) e" using assms(1) by (simp add: cache_inv_def)
    then show ?thesis using f [OF e(3)] e(2) by simp
  qed
  ultimately show ?thesis using assms(1-3) by (simp add: cache_inv_def names_ok_def unopened_def)
qed

lemma cleanup_inv: "cache_inv c \<Longrightarrow> cache_inv (cleanup key i c)"
  by (rule cache_inv_fewer [of c]) (auto simp: cleanup_def split: if_splits)

lemma cleanup_same [simp]: "watches (cleanup key i c) = watches c" "registered (cleanup key i c) = registered c"
  by (simp_all add: cleanup_def)

lemma cache_tick_inv: "cache_inv c \<Longrightarrow> cache_inv (cache_tick ks c)"
proof (induction ks arbitrary: c)
  case (Cons k ks)
  show ?case using Cons.IH [of "case entries c k of None \<Rightarrow> c | Some e \<Rightarrow> if expirationTime e - now c < 0 then cleanup k (ce_watch e) c else c"]
      Cons.prems cleanup_inv by (simp add: cache_tick_def split: option.splits)
qed (simp add: cache_tick_def)

lemma cache_Load_inv: "cache_Load key c = (r, c') \<Longrightarrow> cache_inv c \<Longrightarrow> cache_inv c'"
  by (rule cache_inv_fewer [of c]) (auto simp: cache_Load_def cleanup_def split: option.splits if_splits)

lemma storeInCache_inv:
  assumes "cache_inv c"
  shows "cache_inv (storeInCache nse c)"
proof (cases "entries c (name_query (nse_name nse) False) = None")
  case True
  let ?w = "\<lparr>cw_pc = Opening, cw_name = nse_name nse, cw_stream = [], cw_seen = False\<rparr>"
  let ?e = "\<lparr>ce_nse = nse, expirationTime = now c + expireTimeout c, ce_watch = length (watches c)\<rparr>"
  have c': "storeInCache nse c = c\<lparr>entries := (entries c)(name_query (nse_name nse) False \<mapsto> ?e), watches := watches c @ [?w]\<rparr>"
    using True by (simp add: storeInCache_def)
  have l: "ce_watch e < length (watches c)" if "entries c key = Some e" for key e using assms that by (simp add: cache_inv_def entries_of_def)
  have "follows (storeInCache nse c) (ce_watch e) e" if "entries (storeInCache nse c) key = Some e" for key e
  proof (cases "key = name_query (nse_name nse) False")
    case False
    then have e: "entries c key = Some e" using that unfolding c' by simp
    then have "follows c (ce_watch e) e" using assms by (simp add: cache_inv_def)
    then show ?thesis using l [OF e] unfolding c' follows_def by (simp add: nth_append)
  next
    case True
    then have "e = ?e" using that unfolding c' by simp
    then show ?thesis unfolding c' follows_def by (simp add: nth_append)
  qed
  moreover have "entries_of (storeInCache nse c)"
    using assms unfolding c' cache_inv_def entries_of_def by (auto simp: nth_append less_SucI)
  moreover have "unopened (storeInCache nse c)" using assms unfolding c' by (simp add: cache_inv_def unopened_def)
  ultimately show ?thesis using assms by (simp add: cache_inv_def names_ok_def c')
qed (use assms in \<open>simp add: storeInCache_def Let_def\<close>)

text \<open>Changing one watch so that its entry still follows keeps it.\<close>

lemma set_watch_inv:
  assumes "cache_inv c" "i < length (watches c)" "\<And>w. cw_name (f w) = cw_name w" "\<not> (cw_pc (f (watches c ! i)) = Opening \<and> cw_seen (f (watches c ! i)))"
    and "\<And>e. entries c (name_query (cw_name (watches c ! i)) False) = Some e \<Longrightarrow> ce_watch e = i \<Longrightarrow> follows (set_watch i f c) i e"
  shows "cache_inv (set_watch i f c)"
proof -
  have n: "cw_name (watches (set_watch i f c) ! j) = cw_name (watches c ! j)" for j
    using assms(2,3) by (cases "j = i") (simp_all add: set_watch_def)
  have "follows (set_watch i f c) (ce_watch e) e" if e: "entries c key = Some e" for key e
  proof (cases "ce_watch e = i")
    case True
    then have "key = name_query (cw_name (watches c ! i)) False" using assms(1) e by (auto simp: cache_inv_def entries_of_def)
    then show ?thesis using assms(5) e True by simp
  next
    case False
    then have "follows c (ce_watch e) e \<longleftrightarrow> follows (set_watch i f c) (ce_watch e) e" by (simp add: follows_def set_watch_def)
    then show ?thesis using assms(1) e by (simp add: cache_inv_def)
  qed
  moreover have "entries_of (set_watch i f c)" using assms(1) n by (simp add: cache_inv_def entries_of_def set_watch_def)
  moreover have "unopened (set_watch i f c)" using assms(1,2,4) unfolding cache_inv_def unopened_def set_watch_def
    by (auto simp: in_set_conv_nth nth_list_update split: if_splits)
  ultimately show ?thesis using assms(1) by (simp add: cache_inv_def names_ok_def set_watch_def)
qed


section \<open>Every step keeps it\<close>

definition told :: "NSEResponse \<Rightarrow> cache_watch \<Rightarrow> cache_watch" where
  "told r w = (if cw_pc w = Watching \<and> matching (name_query (cw_name w) True) (r_nse r) then w\<lparr>cw_stream := cw_stream w @ [r]\<rparr> else w)"

lemma told_same [simp]: "cw_name (told r w) = cw_name w" "cw_pc (told r w) = cw_pc w" "cw_seen (told r w) = cw_seen w"
  by (simp_all add: told_def)

lemma told_own: "own_events (told r w) = (if cw_pc w = Watching \<and> cw_name w = nse_name (r_nse r) then own_events w @ [r] else own_events w)"
  by (auto simp: told_def own_events_def matching_name)

lemma tell_watches_told: "tell_watches r c = c\<lparr>watches := map (told r) (watches c)\<rparr>"
  by (simp add: tell_watches_def told_def [abs_def])

lemma tell_watches_inv:
  assumes "cache_inv c" "nse_name nse = n" "registered c' = (registered c)(n := if d then None else Some nse)" "entries c' = entries c" "watches c' = watches c"
  shows "cache_inv (tell_watches \<lparr>r_nse = nse, Deleted = d\<rparr> c')"
proof -
  let ?r = "\<lparr>r_nse = nse, Deleted = d\<rparr>"
  have "follows (c'\<lparr>watches := map (told ?r) (watches c)\<rparr>) (ce_watch e) e" if e: "entries c key = Some e" for key e
  proof -
    let ?w = "watches c ! ce_watch e"
    have i: "ce_watch e < length (watches c)" "follows c (ce_watch e) e" using assms(1) e by (auto simp: cache_inv_def entries_of_def)
    show ?thesis
    proof (cases "cw_name ?w = n")
      case True
      then show ?thesis using i(1) assms(2,3) by (simp add: follows_def Let_def told_own)
    next
      case False
      then show ?thesis using i assms(2,3) by (simp add: follows_def Let_def told_own)
    qed
  qed
  moreover have "entries_of (c'\<lparr>watches := map (told ?r) (watches c)\<rparr>)" using assms(1,4) by (auto simp: cache_inv_def entries_of_def)
  moreover have "names_ok (c'\<lparr>watches := map (told ?r) (watches c)\<rparr>)" using assms(1,2,3) by (simp add: cache_inv_def names_ok_def)
  moreover have "unopened (c'\<lparr>watches := map (told ?r) (watches c)\<rparr>)" using assms(1) by (simp add: cache_inv_def unopened_def)
  ultimately show ?thesis using assms(4,5) by (simp add: cache_inv_def tell_watches_told)
qed

lemma cache_Update_inv:
  assumes "cache_inv c" "i < length (watches c)" "cw_name (watches c ! i) = n" "cw_pc (watches c ! i) = Watching"
    and "after_events (own_events (watches c ! i)) (Some nse) = registered c n"
  shows "cache_inv (cache_Update n i nse c)"
proof (cases "\<exists>e. entries c (name_query n False) = Some e \<and> ce_watch e = i")
  case True
  then obtain e where e: "entries c (name_query n False) = Some e" "ce_watch e = i" by blast
  let ?c = "c\<lparr>entries := (entries c)(name_query n False \<mapsto> e\<lparr>ce_nse := nse\<rparr>)\<rparr>"
  have u: "cache_Update n i nse c = ?c" using e by (simp add: cache_Update_def)
  have f: "follows ?c j x \<longleftrightarrow> follows c j x" for j x by (simp add: follows_def)
  have "follows c i (e\<lparr>ce_nse := nse\<rparr>)" using assms(3,5) by (simp add: follows_def Let_def)
  then have "follows ?c (ce_watch x) x" if "entries ?c key = Some x" for key x
    using that assms(1) e(2) unfolding f by (auto simp: cache_inv_def split: if_splits)
  then show ?thesis using assms(1,2,3) e unfolding u by (auto simp: cache_inv_def names_ok_def entries_of_def unopened_def split: if_splits)
next
  case False
  then have "cache_Update n i nse c = c" by (simp add: cache_Update_def Let_def split: option.split)
  then show ?thesis using assms(1) by simp
qed

lemma cache_inv_other [simp]: "cache_inv (c\<lparr>storing := x\<rparr>) \<longleftrightarrow> cache_inv c" "cache_inv (c\<lparr>now := t\<rparr>) \<longleftrightarrow> cache_inv c"
  by (simp_all add: cache_inv_def names_ok_def entries_of_def unopened_def follows_def)

lemma cache_Update_set_watch: "cache_Update n i nse (set_watch j f c) = set_watch j f (cache_Update n i nse c)"
  by (simp add: cache_Update_def set_watch_def Let_def split: option.split)

lemma cache_Update_watches [simp]: "watches (cache_Update n i nse c) = watches c" "registered (cache_Update n i nse c) = registered c"
  by (simp_all add: cache_Update_def Let_def split: option.split)

lemma cache_Update_entry:
  assumes "entries (cache_Update n i nse c) (name_query n False) = Some e" "ce_watch e = i"
  shows "ce_nse e = nse \<and> (\<exists>e0. entries c (name_query n False) = Some e0 \<and> ce_watch e0 = i)"
proof (cases "entries c (name_query n False)")
  case (Some e0)
  then show ?thesis using assms by (cases "ce_watch e0 = i") (auto simp: cache_Update_def)
qed (use assms in \<open>simp add: cache_Update_def\<close>)

lemma set_watch_nth [simp]: "i < length (watches c) \<Longrightarrow> watches (set_watch i f c) ! i = f (watches c ! i)" "registered (set_watch i f c) = registered c"
  "length (watches (set_watch i f c)) = length (watches c)"
  by (simp_all add: set_watch_def)

lemma after_same: "(\<And>r. r \<in> set rs \<Longrightarrow> r = r0) \<Longrightarrow> rs \<noteq> [] \<Longrightarrow> \<not> Deleted r0 \<Longrightarrow> after_events rs v = Some (r_nse r0)"
proof (induction rs arbitrary: v)
  case (Cons r rs)
  then show ?case by (cases rs) auto
qed simp

lemma Opens_inv:
  assumes "cache_inv c" "in_state i Opening c" "set found = {nse \<in> ran (registered c). matching (name_query (cw_name (watches c ! i)) True) nse}"
  shows "cache_inv (set_watch i (\<lambda>w. w\<lparr>cw_pc := Watching, cw_stream := map (\<lambda>nse. \<lparr>r_nse = nse, Deleted = False\<rparr>) found\<rparr>) c)" (is "cache_inv (set_watch i ?f c)")
proof (rule set_watch_inv [OF assms(1)])
  let ?w = "watches c ! i"
  show i: "i < length (watches c)" using assms(2) by (simp add: in_state_def)
  fix e assume "entries c (name_query (cw_name (watches c ! i)) False) = Some e" "ce_watch e = i"
  have s: "\<not> cw_seen ?w" using assms(1,2) by (simp add: cache_inv_def unopened_def in_state_def)
  have "after_events (own_events (?f ?w)) (Some (ce_nse e)) = registered c (cw_name ?w)" if ne: "own_events (?f ?w) \<noteq> []"
  proof -
    have n: "registered c (cw_name ?w) = Some (r_nse r) \<and> \<not> Deleted r" if "r \<in> set (own_events (?f ?w))" for r
    proof -
      have r: "\<not> Deleted r" "r_nse r \<in> ran (registered c)" "nse_name (r_nse r) = cw_name ?w"
        using that unfolding own_events_def by (auto simp: assms(3))
      then obtain k where k: "registered c k = Some (r_nse r)" by (auto simp: ran_def)
      then have "nse_name (r_nse r) = k" using assms(1) by (simp add: cache_inv_def names_ok_def)
      then show ?thesis using k r(1,3) by simp
    qed
    obtain r0 where r0: "r0 \<in> set (own_events (?f ?w))" using ne by (meson last_in_set)
    have "r = r0" if "r \<in> set (own_events (?f ?w))" for r using n [OF that] n [OF r0] by (cases r; cases r0) simp
    then show ?thesis using after_same [of "own_events (?f ?w)" r0] ne n [OF r0] by simp
  qed
  then show "follows (set_watch i ?f c) i e" using i s by (simp add: follows_def Let_def)
qed (simp_all)

lemma Receives_inv:
  assumes "cache_inv c" "cache_step (Receives i) c = Some c'"
  shows "cache_inv c'"
proof -
  let ?w = "watches c ! i"
  let ?n = "cw_name ?w"
  have st: "in_state i Watching c" using assms(2) by (simp split: if_splits)
  then have i: "i < length (watches c)" "cw_pc ?w = Watching" by (simp_all add: in_state_def)
  obtain r rs where rs: "cw_stream ?w = r # rs" using assms(2) st by (cases "cw_stream ?w") simp_all
  have fol: "follows c i e" if "entries c (name_query ?n False) = Some e" "ce_watch e = i" for e
    using assms(1) that unfolding cache_inv_def by metis
  consider "nse_name (r_nse r) \<noteq> ?n" | "nse_name (r_nse r) = ?n" "Deleted r" | "nse_name (r_nse r) = ?n" "\<not> Deleted r" by blast
  then show ?thesis
  proof cases
    case 1
    then have c': "c' = set_watch i (\<lambda>w. w\<lparr>cw_stream := rs\<rparr>) c" using assms(2) st rs by (simp add: Let_def)
    have "own_events (?w\<lparr>cw_stream := rs\<rparr>) = own_events ?w" using rs 1 by (simp add: own_events_def)
    then show ?thesis unfolding c' using fol i by (intro set_watch_inv [OF assms(1) i(1)]) (simp_all add: follows_def Let_def)
  next
    case 2
    then have c': "c' = set_watch i (\<lambda>w. w\<lparr>cw_pc := Leaving, cw_seen := True\<rparr>) (set_watch i (\<lambda>w. w\<lparr>cw_stream := rs\<rparr>) c)"
      using assms(2) st rs by (simp add: Let_def)
    have "c' = set_watch i (\<lambda>w. w\<lparr>cw_stream := rs, cw_pc := Leaving, cw_seen := True\<rparr>) c" unfolding c' using i(1) by (simp add: set_watch_def)
    moreover have "cache_inv (set_watch i (\<lambda>w. w\<lparr>cw_stream := rs, cw_pc := Leaving, cw_seen := True\<rparr>) c)"
      by (rule set_watch_inv [OF assms(1) i(1)]) (use i(1) in \<open>simp_all add: follows_def\<close>)
    ultimately show ?thesis by simp
  next
    case 3
    let ?f = "\<lambda>w. w\<lparr>cw_stream := rs, cw_seen := True\<rparr>"
    have "c' = cache_Update ?n i (r_nse r) (set_watch i (\<lambda>w. w\<lparr>cw_seen := True\<rparr>) (set_watch i (\<lambda>w. w\<lparr>cw_stream := rs\<rparr>) c))"
      using assms(2) st rs 3 by (simp add: Let_def)
    moreover have "set_watch i (\<lambda>w. w\<lparr>cw_seen := True\<rparr>) (set_watch i (\<lambda>w. w\<lparr>cw_stream := rs\<rparr>) c) = set_watch i ?f c" using i(1) by (simp add: set_watch_def)
    ultimately have c': "c' = set_watch i ?f (cache_Update ?n i (r_nse r) c)" by (simp add: cache_Update_set_watch)
    have own: "own_events ?w = r # own_events (?f ?w)" using rs 3 by (simp add: own_events_def)
    have told: "after_events (own_events (?f ?w)) (Some (r_nse r)) = registered c ?n"
      if "entries c (name_query ?n False) = Some e" "ce_watch e = i" for e
      using fol [OF that] i(2) 3 unfolding follows_def Let_def own by simp
    have u: "cache_inv (cache_Update ?n i (r_nse r) c)"
    proof (cases "\<exists>e. entries c (name_query ?n False) = Some e \<and> ce_watch e = i")
      case True
      then show ?thesis using told own 3 by (intro cache_Update_inv [OF assms(1) i(1) _ i(2)]) auto
    next
      case False
      then have "cache_Update ?n i (r_nse r) c = c" by (simp add: cache_Update_def Let_def split: option.split)
      then show ?thesis using assms(1) by simp
    qed
    show ?thesis unfolding c'
    proof (rule set_watch_inv [OF u])
      fix e assume e: "entries (cache_Update ?n i (r_nse r) c) (name_query (cw_name (watches (cache_Update ?n i (r_nse r) c) ! i)) False) = Some e" "ce_watch e = i"
      then have "entries (cache_Update ?n i (r_nse r) c) (name_query ?n False) = Some e" by simp
      then have v: "ce_nse e = r_nse r" "\<exists>e. entries c (name_query ?n False) = Some e \<and> ce_watch e = i"
        using cache_Update_entry e(2) by blast+
      then obtain e0 where "entries c (name_query ?n False) = Some e0" "ce_watch e0 = i" by blast
      then show "follows (set_watch i ?f (cache_Update ?n i (r_nse r) c)) i e" using told i v(1) by (simp add: follows_def Let_def)
    qed (use i in simp_all)
  qed
qed

lemma cache_step_inv: "cache_step a c = Some c' \<Longrightarrow> cache_inv c \<Longrightarrow> cache_inv c'"
proof (induction a c rule: cache_step.induct)
  case (1 nse c)
  then show ?case using tell_watches_inv [of c nse "nse_name nse" "c\<lparr>registered := (registered c)(nse_name nse \<mapsto> nse)\<rparr>" False] by auto
next
  case (2 n c)
  then obtain nse where "registered c n = Some nse" by (auto split: option.splits)
  moreover from this have "nse_name nse = n" using 2(2) by (simp add: cache_inv_def names_ok_def)
  ultimately show ?case using 2 tell_watches_inv [of c nse n "c\<lparr>registered := (registered c)(n := None)\<rparr>" True] by auto
next
  case (5 q found c)
  then show ?case by (auto split: if_splits prod.splits option.splits dest: cache_Load_inv)
next
  case (6 i c)
  then show ?case by (auto split: if_splits list.splits intro!: storeInCache_inv)
next
  case (7 i found c)
  then show ?case using Opens_inv by (auto split: if_splits)
next
  case (8 i c)
  then show ?case by (auto simp: in_state_def follows_def split: if_splits intro!: set_watch_inv)
next
  case (9 i c)
  then show ?case using Receives_inv by blast
next
  case (10 i c)
  then show ?case by (auto simp: in_state_def follows_def split: if_splits intro!: set_watch_inv)
next
  case (11 i c)
  then show ?case by (auto simp: in_state_def follows_def split: if_splits intro!: set_watch_inv cleanup_inv)
qed (auto simp: cache_tick_inv split: if_splits)

lemma cache_run_inv: "cache_run as c = Some c' \<Longrightarrow> cache_inv c \<Longrightarrow> cache_inv c'"
  by (induction as arbitrary: c) (auto simp: bind_eq_Some_conv dest: cache_step_inv)

lemma newCache_inv: "(\<And>n nse. nses n = Some nse \<Longrightarrow> nse_name nse = n) \<Longrightarrow> cache_inv (newCache t nses)"
  by (simp add: newCache_def cache_inv_def names_ok_def entries_of_def unopened_def)

section \<open>Properties\<close>

text \<open>
  C24. A cached answer is the truth once the watch behind it has told something: in every interleaving of searches, changes of the registry, watches and expirations, an entry
  whose watch is open, has delivered an event and has no other one of its endpoint on the way holds the endpoint as it is registered now; an endpoint that was unregistered
  has no such entry.
\<close>

theorem cache_fresh:
  assumes "cache_run as (newCache t nses) = Some c" "\<And>n nse. nses n = Some nse \<Longrightarrow> nse_name nse = n"
    and "entries c (name_query n False) = Some e" "cw_pc (watches c ! ce_watch e) = Watching" "cw_seen (watches c ! ce_watch e)"
    and "\<forall>r\<in>set (cw_stream (watches c ! ce_watch e)). nse_name (r_nse r) \<noteq> n"
  shows "registered c n = Some (ce_nse e)"
proof -
  have "cache_inv c" using cache_run_inv [OF assms(1)] newCache_inv assms(2) by blast
  then have "follows c (ce_watch e) e" "name_query n False = name_query (cw_name (watches c ! ce_watch e)) False"
    using assms(3) unfolding cache_inv_def entries_of_def by blast+
  then have f: "follows c (ce_watch e) e" "cw_name (watches c ! ce_watch e) = n" by simp_all
  have "own_events (watches c ! ce_watch e) = []" using assms(6) f(2) by (auto simp: own_events_def)
  then show ?thesis using f assms(4,5) by (simp add: follows_def Let_def)
qed

definition cached_nse :: "string \<Rightarrow> NetworkServiceEndpoint" where
  "cached_nse u = \<lparr>nse_name = ''nse'', NetworkServiceNames = None, NetworkServiceLabels = None, Url = u, ExpirationTime = None, nse_PathIds = []\<rparr>"

lemma matching_cached [simp]: "matching (name_query ''nse'' w) (cached_nse u)"
  by (simp add: matching_name cached_nse_def)

lemma cache_fresh_witness:
  "\<exists>c e. cache_run [Registers (cached_nse ''u''), Searches (name_query ''nse'' False) [cached_nse ''u''], Stores 0, Registers (cached_nse ''v''),
      Opens 0 [cached_nse ''v''], Receives 0] (newCache 60 Map.empty) = Some c \<and> entries c (name_query ''nse'' False) = Some e \<and>
    registered c ''nse'' = Some (ce_nse e) \<and> ce_nse e = cached_nse ''v''"
proof -
  have n: "nse_name (cached_nse u) = ''nse''" for u by (simp add: cached_nse_def)
  have q: "\<not> Watch (name_query ''nse'' False)" by (simp add: name_query_def)
  let ?as = "[Registers (cached_nse ''u''), Searches (name_query ''nse'' False) [cached_nse ''u''], Stores 0, Registers (cached_nse ''v''),
      Opens 0 [cached_nse ''v''], Receives 0]"
  let ?e = "\<lparr>ce_nse = cached_nse ''v'', expirationTime = 60, ce_watch = 0\<rparr>"
  obtain c where c: "cache_run ?as (newCache 60 Map.empty) = Some c" "entries c (name_query ''nse'' False) = Some ?e"
      "watches c = [\<lparr>cw_pc = Watching, cw_name = ''nse'', cw_stream = [], cw_seen = True\<rparr>]"
    by (simp add: newCache_def tell_watches_def n q cache_Load_def Collect_conv_if storeInCache_def in_state_def set_watch_def cache_Update_def Let_def)
  then show ?thesis using cache_fresh [OF c(1), of "''nse''" ?e] by (intro exI [of _ c] exI [of _ ?e]) simp
qed

text \<open>
  Asking again and again: each round lets time pass, lets the ticker look at all entries and searches by name; the answers from the cache are collected, \<open>None\<close> for one that the
  registry has to give.
\<close>

fun ask_again :: "string \<Rightarrow> int list \<Rightarrow> querycache \<Rightarrow> NetworkServiceEndpoint option list" where
  "ask_again n [] c = []"
| "ask_again n (d # ds) c =
     (let key = name_query n False; (r, c) = cache_Load key (cache_tick [key] (c\<lparr>now := now c + d\<rparr>)) in r # ask_again n ds c)"

text \<open>
  An endpoint that was unregistered after a search found it and before its watch opened is served for ever: the watch shows it neither at the start nor as deleted, and every
  answer from the cache puts the expiration off, as long as it is asked for more often than the time to expire.
\<close>

lemma cache_stale:
  assumes "nse_name nse = n" "0 \<le> t" "\<forall>d\<in>set ds. 0 \<le> d \<and> d \<le> t" "n \<noteq> []"
  shows "\<exists>c. cache_run [Registers nse, Searches (name_query n False) [nse], Unregisters n, Stores 0, Opens 0 []] (newCache t Map.empty) = Some c \<and>
    registered c n = None \<and> ask_again n ds c = replicate (length ds) (Some nse)"
proof -
  have m: "matching (name_query n w) nse" for w using assms(1) by (simp add: matching_name)
  have q: "\<not> Watch (name_query n False)" by (simp add: name_query_def)
  let ?e = "\<lparr>ce_nse = nse, expirationTime = t, ce_watch = 0\<rparr>"
  let ?w = "\<lparr>cw_pc = Watching, cw_name = n, cw_stream = [], cw_seen = False\<rparr>"
  let ?c = "\<lparr>entries = [name_query n False \<mapsto> ?e], watches = [?w], cancelled = {}, storing = [[]], now = 0, expireTimeout = t, registered = Map.empty\<rparr>"
  have r: "cache_run [Registers nse, Searches (name_query n False) [nse], Unregisters n, Stores 0, Opens 0 []] (newCache t Map.empty) = Some ?c"
    using assms(1) m q
    by (simp add: newCache_def tell_watches_def cache_Load_def Collect_conv_if storeInCache_def in_state_def set_watch_def Let_def)
  have "ask_again n ds c = replicate (length ds) (Some nse)"
    if "entries c (name_query n False) = Some e" "ce_nse e = nse" "expirationTime e = now c + t" "expireTimeout c = t" "\<forall>d\<in>set ds. 0 \<le> d \<and> d \<le> t" for c e
    using that
  proof (induction ds arbitrary: c e)
    case (Cons d ds)
    let ?key = "name_query n False" and ?e = "e\<lparr>expirationTime := now c + d + t\<rparr>"
    let ?c = "c\<lparr>now := now c + d, entries := (entries c)(?key \<mapsto> ?e)\<rparr>"
    have "cache_Load ?key (cache_tick [?key] (c\<lparr>now := now c + d\<rparr>)) = (Some nse, ?c)"
      using Cons.prems by (simp add: cache_tick_def cache_Load_def)
    moreover have "ask_again n ds ?c = replicate (length ds) (Some nse)"
      by (rule Cons.IH [of ?c ?e]) (use Cons.prems in simp_all)
    ultimately show ?case by simp
  qed simp
  from this [of ?c ?e] show ?thesis using r assms(3) by (intro exI [of _ ?c]) simp
qed

lemma cache_stale_witness:
  "\<exists>c. cache_run [Registers (cached_nse ''u''), Searches (name_query ''nse'' False) [cached_nse ''u''], Unregisters ''nse'', Stores 0, Opens 0 []] (newCache 60 Map.empty) = Some c \<and>
    registered c ''nse'' = None \<and> ask_again ''nse'' [59, 60, 1, 60] c = replicate (length [59, 60, 1, 60 :: int]) (Some (cached_nse ''u''))"
  by (rule cache_stale) (simp_all add: cached_nse_def)

end
