(* ===== verification/Discover_Forwarder.thy ===== *)
theory Discover_Forwarder
  imports Discover_Select
begin

text \<open>
  Choosing the forwarder of a connection (\<^verbatim>\<open>common/discoverforwarder\<close>): the manager asks the registry for the forwarders, offers
  the request to those the network service's matches select, one after the other, and remembers in the metadata of the
  connection the one that took it. The calls of one connection come one at a time (\<^verbatim>\<open>begin\<close>), so the remembered name is a state
  that the rest of the chain does not touch; no name and the empty name are the same for the code.
\<close>

section \<open>The element\<close>

record 'u discoverForwarderServer =
  fw_nseClient :: "NetworkServiceEndpoint \<Rightarrow> nsm_error + NetworkServiceEndpoint list"
  fw_nsClient :: "NetworkServiceMsg \<Rightarrow> nsm_error + NetworkServiceMsg list"
  forwarderServiceName :: string
  nsmgrURL :: string
  fw_Parse :: "string \<Rightarrow> 'u option"
  fw_templates :: template

definition newForwarderServer ::
  "(NetworkServiceMsg \<Rightarrow> nsm_error + NetworkServiceMsg list) \<Rightarrow> (NetworkServiceEndpoint \<Rightarrow> nsm_error + NetworkServiceEndpoint list) \<Rightarrow>
   (string \<Rightarrow> 'u option) \<Rightarrow> template \<Rightarrow> ('u discoverForwarderServer \<Rightarrow> 'u discoverForwarderServer) list \<Rightarrow> 'u discoverForwarderServer" where
  "newForwarderServer ns nse parse tmpl opts =
     fold (\<lambda>opt d. opt d) opts
       \<lparr>fw_nseClient = nse, fw_nsClient = ns, forwarderServiceName = ''forwarder'', nsmgrURL = [], fw_Parse = parse, fw_templates = tmpl\<rparr>"

definition WithForwarderServiceName :: "string \<Rightarrow> 'u discoverForwarderServer \<Rightarrow> 'u discoverForwarderServer" where
  "WithForwarderServiceName serviceName d = d\<lparr>forwarderServiceName := serviceName\<rparr>"

definition WithNSMgrURL :: "string \<Rightarrow> 'u discoverForwarderServer \<Rightarrow> 'u discoverForwarderServer" where
  "WithNSMgrURL u d = d\<lparr>nsmgrURL := u\<rparr>"

definition loadForwarderName :: "string option \<Rightarrow> string" where
  "loadForwarderName stored = (case stored of None \<Rightarrow> [] | Some v \<Rightarrow> v)"

definition forwarder_discoverNetworkService :: "'u discoverForwarderServer \<Rightarrow> string \<Rightarrow> string \<Rightarrow> nsm_error + NetworkServiceMsg" where
  "forwarder_discoverNetworkService d name payload =
     (case fw_nsClient d (empty_ns\<lparr>ns_name := name, Payload := payload\<rparr>) of
        Inl e \<Rightarrow> Inl e
      | Inr nsList \<Rightarrow>
          (case find (\<lambda>ns. ns_name ns = name) nsList of
             None \<Rightarrow> Inl (Err ''network service is not found'')
           | Some ns \<Rightarrow> Inr ns))"

text \<open>Services are read from a stream, where an empty map of labels arrives as nil.\<close>

definition forwarderMatchLabels :: "Match \<Rightarrow> labels" where
  "forwarderMatchLabels m = (case Metadata m of Some (l # ls) \<Rightarrow> l # ls | _ \<Rightarrow> [(''p2p'', ''true'')])"

definition forwarderFits :: "'u discoverForwarderServer \<Rightarrow> labels \<Rightarrow> Match \<Rightarrow> NetworkServiceEndpoint \<Rightarrow> bool" where
  "forwarderFits d nsLabels m nse =
     (case NetworkServiceLabels nse of
        None \<Rightarrow> False
      | Some l \<Rightarrow> (case map_of l (forwarderServiceName d) of
                    None \<Rightarrow> False
                  | Some forwarderLabels \<Rightarrow> IsSubset (fw_templates d) forwarderLabels (forwarderMatchLabels m) nsLabels))"

fun matchForwardersLoop ::
  "'u discoverForwarderServer \<Rightarrow> labels \<Rightarrow> Match list \<Rightarrow> NetworkServiceEndpoint list \<Rightarrow> NetworkServiceEndpoint list" where
  "matchForwardersLoop d nsLabels [] nses = []"
| "matchForwardersLoop d nsLabels (m # ms) nses =
     (if \<not> IsSubset (fw_templates d) nsLabels (SourceSelector m) nsLabels then matchForwardersLoop d nsLabels ms nses
      else let result = filter (forwarderFits d nsLabels m) nses in
        if Fallthrough m \<and> result = [] then matchForwardersLoop d nsLabels ms nses else result)"

definition matchForwarders ::
  "'u discoverForwarderServer \<Rightarrow> labels \<Rightarrow> NetworkServiceMsg \<Rightarrow> NetworkServiceEndpoint list \<Rightarrow> NetworkServiceEndpoint list" where
  "matchForwarders d nsLabels ns nses =
     (if Matches ns = [] then nses else matchForwardersLoop d nsLabels (Matches ns) nses)"

text \<open>The candidate with a name changes places with the first one.\<close>

definition swapToFront :: "string \<Rightarrow> NetworkServiceEndpoint list \<Rightarrow> NetworkServiceEndpoint list" where
  "swapToFront name nses =
     (let i = length (takeWhile (\<lambda>c. nse_name c \<noteq> name) nses)
      in if i < length nses then nses[0 := nses ! i, i := nses ! 0] else nses)"

text \<open>The name of the path segment after this element's. Without a path the index is a nil dereference (\<open>None\<close>).\<close>

definition nextSegmentName :: "Path option \<Rightarrow> string option option" where
  "nextSegmentName path =
     (case path of
        None \<Rightarrow> None
      | Some p \<Rightarrow> Some (if unat (Index p) + 1 < length (PathSegments p)
                        then Some (seg_name (PathSegments p ! (unat (Index p) + 1))) else None))"

fun forwardLoop ::
  "(string \<Rightarrow> 'u option) \<Rightarrow> ('u, 's) ctx_request_chain \<Rightarrow> string \<Rightarrow> NetworkServiceEndpoint list \<Rightarrow>
   ('u, string option \<times> 's) ctx_request_chain" where
  "forwardLoop parse nxt forwarderName [] ctx request (stored, s) = (Inl (Err ''all forwarders have failed''), stored, s)"
| "forwardLoop parse nxt forwarderName (candidate # nses) ctx request (stored, s) =
     (case parse (Url candidate) of
        None \<Rightarrow> forwardLoop parse nxt forwarderName nses ctx request (stored, s)
      | Some u \<Rightarrow>
          (case nxt (WithClientURL ctx u) request s of
             (Inr resp, s) \<Rightarrow> (Inr resp, if forwarderName = [] then Some (nse_name candidate) else stored, s)
           | (Inl Panic, s) \<Rightarrow> (Inl Panic, stored, s)
           | (Inl (Err e), s) \<Rightarrow> forwardLoop parse nxt forwarderName nses ctx request (stored, s)))"

definition forwarder_Request ::
  "'u discoverForwarderServer \<Rightarrow> ('u, 's) ctx_request_chain \<Rightarrow> ('u, string option \<times> 's) ctx_request_chain" where
  "forwarder_Request d nxt ctx request st =
     (case req_connection request of
        None \<Rightarrow> (Inl Panic, st)
      | Some conn \<Rightarrow>
          let forwarderName = (if State conn = RESELECT_REQUESTED then [] else loadForwarderName (fst st)) in
          case forwarder_discoverNetworkService d (NetworkService conn) (conn_Payload conn) of
            Inl e \<Rightarrow> (Inl e, st)
          | Inr ns \<Rightarrow>
              (case fw_nseClient d (empty_nse\<lparr>NetworkServiceNames := Some [forwarderServiceName d], nse_name := forwarderName, Url := nsmgrURL d\<rparr>) of
                 Inl e \<Rightarrow> (Inl e, st)
               | Inr stream \<Rightarrow>
                   let nses = matchForwarders d (Labels conn) ns stream in
                   if nses = [] then
                     (Inl (Err (if forwarderName \<noteq> [] then ''forwarder is not available'' else ''no candidates found'')), st)
                   else if forwarderName = [] \<and> State conn \<noteq> RESELECT_REQUESTED then
                     (case nextSegmentName (conn_path conn) of
                        None \<Rightarrow> (Inl Panic, st)
                      | Some seg \<Rightarrow>
                          forwardLoop (fw_Parse d) nxt forwarderName
                            (case seg of None \<Rightarrow> nses | Some n \<Rightarrow> swapToFront n nses) ctx request st)
                   else forwardLoop (fw_Parse d) nxt forwarderName nses ctx request st))"

definition forwarder_Close ::
  "'u discoverForwarderServer \<Rightarrow> ('u, 's) ctx_close_chain \<Rightarrow> string option \<Rightarrow> ('u, 's) ctx_close_chain" where
  "forwarder_Close d nxt stored ctx conn s =
     (let stored = loadForwarderName stored in
      case (if stored = [] then nextSegmentName (conn_path conn) else Some (Some stored)) of
        None \<Rightarrow> (Inl Panic, s)
      | Some name \<Rightarrow>
          let forwarderName = (case name of None \<Rightarrow> [] | Some n \<Rightarrow> n) in
          if forwarderName = [] then nxt ctx conn s
          else
            (case fw_nseClient d (empty_nse\<lparr>nse_name := forwarderName, Url := nsmgrURL d\<rparr>) of
               Inl e \<Rightarrow> nxt ctx conn s
             | Inr [] \<Rightarrow> nxt ctx conn s
             | Inr (nse # _) \<Rightarrow>
                 (case fw_Parse d (Url nse) of
                    None \<Rightarrow> nxt ctx conn s
                  | Some u \<Rightarrow> nxt (WithClientURL ctx u) conn s)))"

section \<open>Lemmas\<close>

lemma matchForwardersLoop_subset: "set (matchForwardersLoop d ls ms nses) \<subseteq> set nses"
  by (induction ms) (auto simp: Let_def)

lemma matchForwarders_subset: "set (matchForwarders d ls ns nses) \<subseteq> set nses"
  using matchForwardersLoop_subset [of d ls "Matches ns" nses] by (simp add: matchForwarders_def)

text \<open>The first match that applies selects, and only it.\<close>

lemma matchForwardersLoop_first:
  "matchForwardersLoop d ls ms nses =
    (case find (\<lambda>m. IsSubset (fw_templates d) ls (SourceSelector m) ls \<and> \<not> (Fallthrough m \<and> filter (forwarderFits d ls m) nses = [])) ms of
       None \<Rightarrow> [] | Some m \<Rightarrow> filter (forwarderFits d ls m) nses)"
  by (induction ms) (auto simp: Let_def)

lemma mset_swap: "i < length xs \<Longrightarrow> set (xs[0 := xs ! i, i := xs ! 0]) = set xs"
  by (metis bot_nat_0.extremum_strict length_greater_0_conv list.size(3) set_swap)

lemma swapToFront_set [simp]: "set (swapToFront n nses) = set nses"
  by (simp add: swapToFront_def Let_def mset_swap)

text \<open>The candidate that the path names is the first to be tried.\<close>

lemma swapToFront_hd:
  assumes "nse_name e = n" "e \<in> set nses"
  shows "nse_name (hd (swapToFront n nses)) = n"
proof -
  let ?i = "length (takeWhile (\<lambda>c. nse_name c \<noteq> n) nses)"
  have i: "?i < length nses" using assms by (induction nses) auto
  then have "nse_name (nses ! ?i) = n" using nth_length_takeWhile [OF i] by simp
  moreover have "hd (nses[0 := nses ! ?i, ?i := nses ! 0]) = nses ! ?i"
    using i by (cases nses) (auto simp: hd_conv_nth nth_list_update)
  ultimately show ?thesis using i by (simp add: swapToFront_def Let_def)
qed

text \<open>The loop tries the candidates whose URL parses in turn; the call of one keeps the state of the metadata.\<close>

definition call_forwarder ::
  "(string \<Rightarrow> 'u option) \<Rightarrow> ('u, 's) ctx_request_chain \<Rightarrow> 'u call_ctx \<Rightarrow> NetworkServiceRequest \<Rightarrow> NetworkServiceEndpoint \<Rightarrow> 's \<Rightarrow>
   (nsm_error + Connection \<times> string) \<times> 's" where
  "call_forwarder parse nxt ctx request c s =
     (case nxt (ctx\<lparr>ClientURL := parse (Url c)\<rparr>) request s of
        (Inr resp, s) \<Rightarrow> (Inr (resp, nse_name c), s) | (Inl e, s) \<Rightarrow> (Inl e, s))"

lemma forwardLoop_tries:
  "forwardLoop parse nxt name nses ctx request (stored, s) =
    (case try_each (call_forwarder parse nxt ctx request) (filter (\<lambda>c. parse (Url c) \<noteq> None) nses) s of
       (Inr (resp, n), s) \<Rightarrow> (Inr resp, if name = [] then Some n else stored, s)
     | (Inl (Err e), s) \<Rightarrow> (Inl (Err ''all forwarders have failed''), stored, s)
     | (Inl Panic, s) \<Rightarrow> (Inl Panic, stored, s))"
proof (induction nses arbitrary: s)
  case (Cons c nses)
  show ?case
  proof (cases "parse (Url c)")
    case (Some u)
    obtain r s1 where r: "nxt (ctx\<lparr>ClientURL := Some u\<rparr>) request s = (r, s1)" by fastforce
    show ?thesis using r Some Cons [of s1]
      by (auto simp: call_forwarder_def WithClientURL_def split: sum.split nsm_error.split)
  qed (simp add: Cons)
qed simp

section \<open>A connection stays with its forwarder\<close>

text \<open>Requests of one connection, one after the other; the chain behind keeps a log of the URLs it is called with.\<close>

definition logged :: "('u, 's) ctx_request_chain \<Rightarrow> ('u, 'u option list \<times> 's) ctx_request_chain" where
  "logged nxt ctx request st =
     (case nxt ctx request (snd st) of (r, s) \<Rightarrow> (r, fst st @ [ClientURL ctx], s))"

fun forwarder_run ::
  "'u discoverForwarderServer \<Rightarrow> ('u, 's) ctx_request_chain \<Rightarrow> ('u call_ctx \<times> NetworkServiceRequest) list \<Rightarrow>
   string option \<times> 's \<Rightarrow> string option \<times> 's" where
  "forwarder_run d nxt [] st = st"
| "forwarder_run d nxt ((ctx, request) # rs) st = forwarder_run d nxt rs (snd (forwarder_Request d nxt ctx request st))"

text \<open>A URL under which the registry has announced an endpoint of the name.\<close>

definition announced :: "'u discoverForwarderServer \<Rightarrow> string \<Rightarrow> 'u \<Rightarrow> bool" where
  "announced d name u \<longleftrightarrow>
     (\<exists>q es e. fw_nseClient d q = Inr es \<and> e \<in> set es \<and> nse_name e = name \<and> fw_Parse d (Url e) = Some u)"

lemma forwardLoop_logged:
  assumes "name \<noteq> []" "\<forall>e\<in>set nses. \<forall>u. fw_Parse d (Url e) = Some u \<longrightarrow> announced d n u"
  shows "\<exists>new s'. snd (forwardLoop (fw_Parse d) (logged nxt) name nses ctx request (stored, l, s)) = (stored, l @ map Some new, s') \<and>
    (\<forall>u\<in>set new. announced d n u)"
  using assms(2)
proof (induction nses arbitrary: l s)
  case (Cons c nses)
  show ?case
  proof (cases "fw_Parse d (Url c)")
    case (Some u)
    obtain r s1 where r: "nxt (WithClientURL ctx u) request s = (r, s1)" by fastforce
    have u: "announced d n u" using Cons.prems Some by simp
    have one: "\<exists>new s'. (stored, l @ [Some u], s1) = (stored, l @ map Some new, s') \<and> (\<forall>u\<in>set new. announced d n u)"
      by (rule exI [of _ "[u]"]) (simp add: u)
    obtain new s2 where ih: "snd (forwardLoop (fw_Parse d) (logged nxt) name nses ctx request (stored, l @ [Some u], s1)) =
        (stored, (l @ [Some u]) @ map Some new, s2)" "\<forall>u\<in>set new. announced d n u"
      using Cons.IH [of "l @ [Some u]" s1] Cons.prems by auto
    have rest: "\<exists>new s'. snd (forwardLoop (fw_Parse d) (logged nxt) name nses ctx request (stored, l @ [Some u], s1)) =
        (stored, l @ map Some new, s') \<and> (\<forall>u\<in>set new. announced d n u)"
      by (rule exI [of _ "u # new"]) (use ih u in simp)
    have "logged nxt (WithClientURL ctx u) request (l, s) = (r, l @ [Some u], s1)" using r by (simp add: logged_def WithClientURL_def)
    then show ?thesis using Some one rest assms(1) by (auto split: sum.split nsm_error.split)
  next
    case None
    then show ?thesis using Cons.IH [of l s] Cons.prems by simp
  qed
qed simp

lemma forwarder_Request_sticky:
  assumes reg: "\<forall>q es. fw_nseClient d q = Inr es \<longrightarrow> nse_name q \<noteq> [] \<longrightarrow> (\<forall>e\<in>set es. nse_name e = nse_name q)"
    and n: "n \<noteq> []" and st: "State (conn_of request) \<noteq> RESELECT_REQUESTED"
  shows "\<exists>new s'. snd (forwarder_Request d (logged nxt) ctx request (Some n, l, s)) = (Some n, l @ map Some new, s') \<and>
    (\<forall>u\<in>set new. announced d n u)"
proof (cases "req_connection request")
  case (Some conn)
  have stay: "\<exists>new s'. (Some n, l, s) = (Some n, l @ map Some new, s') \<and> (\<forall>u\<in>set new. announced d n u)"
    by (rule exI [of _ "[]"]) simp
  let ?q = "empty_nse\<lparr>NetworkServiceNames := Some [forwarderServiceName d], nse_name := n, Url := nsmgrURL d\<rparr>"
  have loop: "\<exists>new s'. snd (forwardLoop (fw_Parse d) (logged nxt) n (matchForwarders d (Labels conn) ns es) ctx request (Some n, l, s)) =
      (Some n, l @ map Some new, s') \<and> (\<forall>u\<in>set new. announced d n u)" if "fw_nseClient d ?q = Inr es" for es ns
  proof (rule forwardLoop_logged [OF n], intro ballI allI impI)
    fix e u assume "e \<in> set (matchForwarders d (Labels conn) ns es)" "fw_Parse d (Url e) = Some u"
    moreover have "nse_name e = n" if "e \<in> set es" using reg that \<open>fw_nseClient d ?q = Inr es\<close> n by fastforce
    ultimately show "announced d n u" using that matchForwarders_subset unfolding announced_def by blast
  qed
  show ?thesis using Some st n stay loop
    by (auto simp: forwarder_Request_def conn_of_def loadForwarderName_def Let_def split: sum.split)
qed (auto simp: forwarder_Request_def)


text \<open>
  A request that had to choose remembers the forwarder that accepted; the candidates are tried in the order of the matches, from
  the one the path names.
\<close>

lemma forwarder_Request_chooses:
  assumes "req_connection request = Some conn" "loadForwarderName stored = []" "State conn \<noteq> RESELECT_REQUESTED"
    and "forwarder_discoverNetworkService d (NetworkService conn) (conn_Payload conn) = Inr ns"
    and "fw_nseClient d (empty_nse\<lparr>NetworkServiceNames := Some [forwarderServiceName d], Url := nsmgrURL d\<rparr>) = Inr es"
    and "nses = matchForwarders d (Labels conn) ns es" "nses \<noteq> []" "nextSegmentName (conn_path conn) = Some seg"
  shows "forwarder_Request d nxt ctx request (stored, s) =
    (case try_each (call_forwarder (fw_Parse d) nxt ctx request)
        (filter (\<lambda>c. fw_Parse d (Url c) \<noteq> None) (case seg of None \<Rightarrow> nses | Some n \<Rightarrow> swapToFront n nses)) s of
       (Inr (resp, n), s) \<Rightarrow> (Inr resp, Some n, s)
     | (Inl (Err e), s) \<Rightarrow> (Inl (Err ''all forwarders have failed''), stored, s)
     | (Inl Panic, s) \<Rightarrow> (Inl Panic, stored, s))"
proof -
  have q: "empty_nse\<lparr>NetworkServiceNames := N, nse_name := [], Url := U\<rparr> = empty_nse\<lparr>NetworkServiceNames := N, Url := U\<rparr>" for N U
    by (simp add: empty_nse_def)
  show ?thesis using assms
    by (auto simp: forwarder_Request_def q forwardLoop_tries Let_def split: option.split sum.split prod.split nsm_error.split)
qed

text \<open>A close is passed on in every case but one: with no forwarder remembered and no path it is a nil dereference.\<close>

lemma forwarder_Close_calls_next:
  assumes "loadForwarderName stored \<noteq> [] \<or> conn_path conn \<noteq> None"
  shows "\<exists>u. forwarder_Close d nxt stored ctx conn s = nxt (ctx\<lparr>ClientURL := u\<rparr>) conn s"
proof -
  have "nxt ctx = nxt (ctx\<lparr>ClientURL := ClientURL ctx\<rparr>)" by simp
  then have "\<exists>u. nxt ctx conn s = nxt (ctx\<lparr>ClientURL := u\<rparr>) conn s" by metis
  then show ?thesis using assms
    by (auto simp: forwarder_Close_def nextSegmentName_def WithClientURL_def Let_def split: sum.split option.split list.split)
qed

lemma forwarder_Close_panics:
  "conn_path conn = None \<Longrightarrow> forwarder_Close d nxt None ctx conn s = (Inl Panic, s)"
  by (simp add: forwarder_Close_def nextSegmentName_def loadForwarderName_def)

section \<open>Witness\<close>

text \<open>Two forwarders; the connection is with the second, which refuses.\<close>

definition two_forwarders :: "string discoverForwarderServer" where
  "two_forwarders = newForwarderServer (\<lambda>_. Inr [empty_ns\<lparr>ns_name := ''ns''\<rparr>])
     (\<lambda>q. Inr (filter (\<lambda>e. nse_name q = [] \<or> nse_name e = nse_name q)
        [empty_nse\<lparr>nse_name := ''f1'', Url := ''tcp://1''\<rparr>, empty_nse\<lparr>nse_name := ''f2'', Url := ''tcp://2''\<rparr>]))
     Some (\<lambda>_ _. None) []"

definition refresh_call :: "string call_ctx \<times> NetworkServiceRequest" where
  "refresh_call = (\<lparr>ClientURL = None, Candidates = None\<rparr>,
     \<lparr>req_connection = Some (empty_connection\<lparr>NetworkService := ''ns''\<rparr>), MechanismPreferences = []\<rparr>)"

definition refusing :: "(string, unit) ctx_request_chain" where
  "refusing ctx request s = (Inl (Err ''no''), s)"

lemma refusing_run: "forwarder_run two_forwarders (logged refusing) [refresh_call, refresh_call] (Some ''f2'', [], ()) =
   (Some ''f2'', [Some ''tcp://2'', Some ''tcp://2''], ())"
  by (simp add: refresh_call_def forwarder_Request_def two_forwarders_def newForwarderServer_def forwarder_discoverNetworkService_def
      empty_connection_def empty_ns_def empty_nse_def loadForwarderName_def matchForwarders_def refusing_def logged_def WithClientURL_def Let_def)


end
