(* ===== verification/Dns_Handlers.thy ===== *)
theory Dns_Handlers
  imports Next_Chain Go_Net_Roundtrip "HOL-Library.Multiset"
begin

text \<open>
  The DNS handlers of \<^verbatim>\<open>tools/dnsutils\<close>. A handler takes a context, a writer and a query and may call the handlers after it, which
  are an argument. What it writes is the list of messages in the order of its calls of \<^verbatim>\<open>WriteMsg\<close>; the writer \<open>rw\<close> says which of
  these succeed. \<open>None\<close> is a panic, or a call that does not come back. Messages and the functions of the library
  \<^verbatim>\<open>miekg/dns\<close> are reduced to the fields and the four functions that the source uses; the functions are an argument. Messages are
  values: the flags that \<^verbatim>\<open>norecursion\<close> clears in place, which show in the failure an earlier handler writes, and the
  question that \<^verbatim>\<open>searches\<close> puts into an answer, also a cached one, stay with the message passed on.
\<close>

section \<open>Messages and the library\<close>

record dns_question =
  qn_Name :: string
  Qtype :: nat
  Qclass :: nat

datatype rdata = A_data IP | AAAA_data IP | PTR_data string | Other_data string

record dns_rr =
  rr_Name :: string
  Ttl :: u32
  rr_data :: rdata

record dns_msg =
  msg_Id :: "16 word"
  Rcode :: nat
  Authoritative :: bool
  RecursionDesired :: bool
  RecursionAvailable :: bool
  Question :: "dns_question list"
  Answer :: "dns_rr list"

abbreviation (input) RcodeSuccess :: nat where "RcodeSuccess \<equiv> 0"
abbreviation (input) TypeA :: nat where "TypeA \<equiv> 1"
abbreviation (input) TypePTR :: nat where "TypePTR \<equiv> 12"
abbreviation (input) TypeAAAA :: nat where "TypeAAAA \<equiv> 28"

record dns_library =
  SetReply :: "dns_msg \<Rightarrow> dns_msg"
  SetRcode :: "dns_msg \<Rightarrow> nat \<Rightarrow> dns_msg"
  HandleFailed :: "dns_msg \<Rightarrow> dns_msg"
  Fqdn :: "string \<Rightarrow> string"

record dns_ctx =
  ClientURLs :: "(string \<times> string) list"
  SearchDomains_ctx :: "string list"

type_synonym dns_writer = "dns_msg \<Rightarrow> bool"
type_synonym 's dns_handler = "(dns_ctx \<times> dns_writer \<times> dns_msg, 's, dns_msg list) handler"

text \<open>The two values of the context; a scheme and a host stand for a URL.\<close>

definition WithClientURLs :: "dns_ctx \<Rightarrow> (string \<times> string) list \<Rightarrow> dns_ctx" where
  "WithClientURLs parent urls = parent\<lparr>ClientURLs := urls\<rparr>"

definition WithSearchDomains :: "dns_ctx \<Rightarrow> string list \<Rightarrow> dns_ctx" where
  "WithSearchDomains parent domains = parent\<lparr>SearchDomains_ctx := domains\<rparr>"

text \<open>A message is written; if that fails, a failure is written.\<close>

definition write_or_fail :: "dns_library \<Rightarrow> dns_writer \<Rightarrow> dns_msg \<Rightarrow> dns_msg \<Rightarrow> dns_msg list" where
  "write_or_fail lib rw m q = (if rw m then [m] else [m, HandleFailed lib q])"

section \<open>Chains\<close>

definition tail_ServeDNS :: "'s dns_handler" where
  "tail_ServeDNS q s = Some ([], s)"

definition nextDNSHandler_ServeDNS ::
  "('e \<Rightarrow> 's dns_handler \<Rightarrow> 's dns_handler) \<Rightarrow> nat \<Rightarrow> 'e server option \<Rightarrow> 'e server list \<Rightarrow> nat \<Rightarrow> 'e next_context \<Rightarrow> 's dns_handler" where
  "nextDNSHandler_ServeDNS sem n p ss i ctx =
     (let (server, ctx) = getServerAndContext p ss i ctx in serve sem tail_ServeDNS n server ctx)"

text \<open>A chain of handlers runs them in order, like the other chains.\<close>

lemma dns_chain_composes:
  "list_all built ss \<Longrightarrow> enough_calls ss \<le> n \<Longrightarrow> nextDNSHandler_ServeDNS sem n None ss 0 None = composed sem ss tail_ServeDNS"
  unfolding nextDNSHandler_ServeDNS_def by (intro chain_method)

section \<open>Checks, loops and recursion\<close>

definition checkMsg_ServeDNS ::
  "dns_library \<Rightarrow> dns_msg \<Rightarrow> 's dns_handler \<Rightarrow> dns_ctx \<times> dns_writer \<times> dns_msg option \<Rightarrow> 's \<Rightarrow> (dns_msg list \<times> 's) option" where
  "checkMsg_ServeDNS lib empty_msg nxt q s =
     (case q of (ctx, rw, m) \<Rightarrow>
        (case m of None \<Rightarrow> Some ([HandleFailed lib empty_msg], s) | Some m \<Rightarrow> nxt (ctx, rw, m) s))"

definition norecursion_ServeDNS :: "'s dns_handler \<Rightarrow> 's dns_handler" where
  "norecursion_ServeDNS nxt q s =
     (case q of (ctx, rw, m) \<Rightarrow> nxt (ctx, rw, m\<lparr>RecursionDesired := False, RecursionAvailable := False\<rparr>) s)"

text \<open>The ids of the queries in progress are shared by all calls.\<close>

definition noloop_ServeDNS :: "dns_library \<Rightarrow> (16 word set \<times> 's) dns_handler \<Rightarrow> (16 word set \<times> 's) dns_handler" where
  "noloop_ServeDNS lib nxt q st =
     (case (q, st) of ((ctx, rw, m), ids, s) \<Rightarrow>
        if msg_Id m \<in> ids then Some ([HandleFailed lib m], ids, s)
        else map_option (\<lambda>(ms, ids, s). (ms, ids - {msg_Id m}, s)) (nxt q (insert (msg_Id m) ids, s)))"

text \<open>A query that comes back while it is in progress is refused and not passed on; so is another query with its id.\<close>

lemma noloop_refuses:
  "noloop_ServeDNS lib (\<lambda>q st. noloop_ServeDNS lib nxt (ctx, rw', m') st) (ctx, rw, m) (ids, s) = Some ([HandleFailed lib m'], ids, s)"
  if "msg_Id m' = msg_Id m" "msg_Id m \<notin> ids"
  using that by (simp add: noloop_ServeDNS_def)

section \<open>Search domains\<close>

definition searches_query :: "dns_library \<Rightarrow> string \<Rightarrow> dns_msg \<Rightarrow> dns_msg" where
  "searches_query lib d m = m\<lparr>Question := (hd (Question m))\<lparr>qn_Name := Fqdn lib (qn_Name (hd (Question m)) @ d)\<rparr> # tl (Question m)\<rparr>"

fun searches_loop :: "dns_library \<Rightarrow> 's dns_handler \<Rightarrow> string list \<Rightarrow> 's dns_handler" where
  "searches_loop lib nxt [] (ctx, rw, m) s = Some ([HandleFailed lib m], s)"
| "searches_loop lib nxt (d # ds) (ctx, rw, m) s =
     (if Question m = [] then None
      else case nxt (ctx, \<lambda>_. True, searches_query lib d m) s of
        None \<Rightarrow> None
      | Some (written, s) \<Rightarrow>
          if written \<noteq> [] \<and> Rcode (last written) = RcodeSuccess then
            let r = (last written)\<lparr>Question := Question m\<rparr> in Some (write_or_fail lib rw r r, s)
          else searches_loop lib nxt ds (ctx, rw, m) s)"

definition searches_ServeDNS :: "dns_library \<Rightarrow> 's dns_handler \<Rightarrow> 's dns_handler" where
  "searches_ServeDNS lib nxt q = searches_loop lib nxt ([] # SearchDomains_ctx (fst q)) q"

section \<open>DNS configurations\<close>

text \<open>
  The configurations of all connections, in the order in which the map is gone through. A nil configuration is a nil dereference.
  The handlers after this one find the servers in the context, first over UDP and, if nothing was written, over TCP.
\<close>

definition config_values :: "(string \<times> DNSConfig option list) list \<Rightarrow> DNSConfig list option" where
  "config_values configs =
     (let vs = concat (map snd configs) in if None \<in> set vs then None else Some (map the vs))"

definition dnsConfigs_ServeDNS :: "dns_library \<Rightarrow> (string \<times> DNSConfig option list) list \<Rightarrow> 's dns_handler \<Rightarrow> 's dns_handler" where
  "dnsConfigs_ServeDNS lib configs nxt q s =
     (case q of (ctx, rw, m) \<Rightarrow>
      case config_values configs of
        None \<Rightarrow> None
      | Some confs \<Rightarrow>
          let ips = concat (map DnsServerIps confs);
              call = (\<lambda>scheme. nxt (WithSearchDomains (WithClientURLs ctx (map (Pair scheme) ips)) (concat (map SearchDomains confs)), \<lambda>_. True, m))
          in case call ''udp'' s of
               None \<Rightarrow> None
             | Some (written, s) \<Rightarrow>
                 if written \<noteq> [] then Some (write_or_fail lib rw (last written) (last written), s)
                 else (case call ''tcp'' s of
                         None \<Rightarrow> None
                       | Some (written, s) \<Rightarrow>
                           if written \<noteq> [] then Some (write_or_fail lib rw (last written) (last written), s)
                           else Some ([HandleFailed lib m], s)))"

section \<open>Records in memory\<close>

fun split_on :: "char \<Rightarrow> string \<Rightarrow> string list" where
  "split_on c [] = [[]]"
| "split_on c (x # xs) =
     (if x = c then [] # split_on c xs else (case split_on c xs of [] \<Rightarrow> [[x]] | w # ws \<Rightarrow> (x # w) # ws))"

fun join_with :: "string \<Rightarrow> string list \<Rightarrow> string" where
  "join_with sep [] = []"
| "join_with sep [w] = w"
| "join_with sep (w # ws) = w @ sep @ join_with sep ws"

definition has_suffix :: "string \<Rightarrow> string \<Rightarrow> bool" where
  "has_suffix s suf \<longleftrightarrow> length suf \<le> length s \<and> drop (length s - length suf) s = suf"

definition ip_Equal :: "IP \<Rightarrow> IP \<Rightarrow> bool" where
  "ip_Equal ip x \<longleftrightarrow>
     (if length ip = length x then ip = x
      else if length ip = IPv4len \<and> length x = IPv6len then take 12 x = v4InV6Prefix \<and> ip = drop 12 x
      else if length ip = IPv6len \<and> length x = IPv4len then take 12 ip = v4InV6Prefix \<and> drop 12 ip = x
      else False)"

definition defaultTTL :: u32 where
  "defaultTTL = 3600"

type_synonym dns_records = "(string \<times> IP list) list"

definition records_of :: "dns_records \<Rightarrow> string \<Rightarrow> IP list" where
  "records_of records domain = (case map_of records domain of None \<Rightarrow> [] | Some ips \<Rightarrow> ips)"

definition memory_a :: "dns_records \<Rightarrow> string \<Rightarrow> dns_rr list" where
  "memory_a records domain =
     map (\<lambda>ip. \<lparr>rr_Name = domain, Ttl = defaultTTL, rr_data = A_data ip\<rparr>) (filter (\<lambda>ip. To4 ip \<noteq> []) (records_of records domain))"

definition memory_aaaa :: "dns_records \<Rightarrow> string \<Rightarrow> dns_rr list" where
  "memory_aaaa records domain =
     map (\<lambda>ip. \<lparr>rr_Name = domain, Ttl = defaultTTL, rr_data = AAAA_data ip\<rparr>) (filter (\<lambda>ip. To4 ip = []) (records_of records domain))"

text \<open>The nibbles of an address, a colon after every four.\<close>

fun join_nibbles :: "nat \<Rightarrow> string list \<Rightarrow> string" where
  "join_nibbles i [] = []"
| "join_nibbles i (w # ws) = (if i mod 4 = 0 \<and> i \<noteq> 0 then '':'' else []) @ w @ join_nibbles (i + 1) ws"

text \<open>Cutting a slice past its capacity is a panic; \<^verbatim>\<open>strings.Split\<close> allocates as many elements as it returns.\<close>

definition slice_to :: "nat \<Rightarrow> 'a list \<Rightarrow> 'a list option" where
  "slice_to n xs = (if n \<le> length xs then Some (take n xs) else None)"

definition memory_ptr :: "dns_records \<Rightarrow> string \<Rightarrow> dns_rr list option" where
  "memory_ptr records domain =
     (case (if has_suffix domain ''.in-addr.arpa.'' then slice_to 4 (split_on CHR ''.'' domain)
            else if has_suffix domain ''.ip6.arpa.'' then slice_to 32 (split_on CHR ''.'' domain) else Some []) of
        None \<Rightarrow> None
      | Some labels \<Rightarrow>
          if labels = [] then Some []
          else
            let labels = rev labels;
                parsed = (if 4 < length labels then ParseIP (join_nibbles 0 labels) else ParseIP (join_with ''.'' labels));
                requestedIP = (case parsed of None \<Rightarrow> [] | Some ip \<Rightarrow> ip)
            in Some (map (\<lambda>(name, _). \<lparr>rr_Name = domain, Ttl = defaultTTL, rr_data = PTR_data name\<rparr>)
                 (filter (\<lambda>(_, ips). list_ex (\<lambda>v. ip_Equal v requestedIP) ips) records)))"

text \<open>The map of records is shared with its owner, and read as it is when the query comes.\<close>

definition memory_ServeDNS :: "dns_library \<Rightarrow> dns_records \<Rightarrow> 's dns_handler \<Rightarrow> 's dns_handler" where
  "memory_ServeDNS lib records nxt q s =
     (case q of (ctx, rw, m) \<Rightarrow>
      case Question m of
        [] \<Rightarrow> Some ([HandleFailed lib m], s)
      | qn # _ \<Rightarrow>
          let name = qn_Name qn in
          (case (if Qtype qn = TypeAAAA then Some (memory_aaaa records name) else if Qtype qn = TypeA then Some (memory_a records name)
                 else if Qtype qn = TypePTR then memory_ptr records name else Some []) of
             None \<Rightarrow> None
           | Some answers \<Rightarrow>
               let resp = (SetReply lib m)\<lparr>Authoritative := True\<rparr>; resp = resp\<lparr>Answer := Answer resp @ answers\<rparr> in
               if Answer resp \<noteq> [] then Some (write_or_fail lib rw resp m, s)
               else if map_of records name \<noteq> None then Some ([SetRcode lib m RcodeSuccess], s)
               else map_option (\<lambda>(written, s). (if written = [] then [HandleFailed lib m] else written, s)) (nxt q s)))"

section \<open>The cache\<close>

text \<open>Times in nanoseconds.\<close>

type_synonym dns_cache = "(dns_question \<rightharpoonup> dns_msg) \<times> int"

definition age_rr :: "u32 \<Rightarrow> dns_rr \<Rightarrow> dns_rr" where
  "age_rr diff r = r\<lparr>Ttl := (if Ttl r < diff then 0 else Ttl r - diff)\<rparr>"

definition updateTTL :: "int \<Rightarrow> dns_cache \<Rightarrow> dns_cache" where
  "updateTTL now c =
     (case c of (cache, lastTTLUpdate) \<Rightarrow>
        let diff = word_of_int ((now - lastTTLUpdate) div 1000000000) in
        if diff = 0 then c
        else (\<lambda>q. map_option (\<lambda>m. m\<lparr>Answer := map (age_rr diff) (Answer m)\<rparr>) (cache q), now))"

definition validateMsg :: "dns_msg \<Rightarrow> bool" where
  "validateMsg m \<longleftrightarrow> Answer m \<noteq> [] \<and> list_all (\<lambda>answer. 0 < Ttl answer) (Answer m)"

text \<open>The wrapper of the writer stores successful messages; one without a question is an index out of range.\<close>

fun store_written :: "dns_msg list \<Rightarrow> (dns_question \<rightharpoonup> dns_msg) \<Rightarrow> (dns_question \<rightharpoonup> dns_msg) option" where
  "store_written [] cache = Some cache"
| "store_written (m # ms) cache =
     (if Rcode m = RcodeSuccess then (case Question m of [] \<Rightarrow> None | qn # _ \<Rightarrow> store_written ms (cache(qn \<mapsto> m)))
      else store_written ms cache)"

definition cache_ServeDNS :: "dns_library \<Rightarrow> int \<Rightarrow> 's dns_handler \<Rightarrow> (dns_cache \<times> 's) dns_handler" where
  "cache_ServeDNS lib now nxt q st =
     (case (q, updateTTL now (fst st)) of ((ctx, rw, m), cache, lastUpdate) \<Rightarrow>
      case Question m of
        [] \<Rightarrow> None
      | qn # _ \<Rightarrow>
          let pass = (\<lambda>cache. case nxt q (snd st) of
                None \<Rightarrow> None
              | Some (written, s) \<Rightarrow> map_option (\<lambda>cache. (written, (cache, lastUpdate), s)) (store_written written cache)) in
          (case cache qn of
             None \<Rightarrow> pass cache
           | Some v \<Rightarrow>
               if validateMsg v then
                 let v = v\<lparr>msg_Id := msg_Id m\<rparr> in Some (write_or_fail lib rw v v, (cache, lastUpdate), snd st)
               else pass (cache(qn := None))))"

section \<open>Asking several servers\<close>

definition url_Port :: "string \<Rightarrow> string" where
  "url_Port host =
     (let port = rev (takeWhile (\<lambda>c. c \<noteq> CHR '':'') (rev host))
      in if CHR '':'' \<in> set host \<and> list_all is_digit port then port else [])"

definition bracketHost :: "string \<Rightarrow> string" where
  "bracketHost host =
     (if 2 \<le> length (filter (\<lambda>c. c = CHR '':'') host) \<and> take 1 host \<noteq> ''['' \<and> CHR '']'' \<notin> set host
      then ''['' @ host @ '']'' else host)"

definition fanout_address :: "nat \<Rightarrow> string \<Rightarrow> string" where
  "fanout_address dnsPort host =
     (let host = bracketHost host in if url_Port host = [] then host @ '':'' @ print_nat dnsPort else host)"

text \<open>
  What the waiting loop sees: the response of one of the servers (none if the exchange failed), or the end of the context. Without more
  events it goes on waiting (\<open>None\<close>).
\<close>

datatype fanout_event = Response "dns_msg option" | CtxDone

fun waitResponse :: "nat \<Rightarrow> fanout_event list \<Rightarrow> dns_msg option option" where
  "waitResponse respCount [] = None"
| "waitResponse respCount (CtxDone # es) = Some None"
| "waitResponse respCount (Response None # es) = (if respCount = 1 then Some None else waitResponse (respCount - 1) es)"
| "waitResponse respCount (Response (Some resp) # es) =
     (if Rcode resp = RcodeSuccess then Some (Some resp)
      else if respCount = 1 then Some None else waitResponse (respCount - 1) es)"

text \<open>
  The exchange of a query with the server at an address over a network, and the order in which the answers and the end of the context
  arrive at so many servers, are arguments: an arrival is the number of a server, or none.
\<close>

definition fanout_ServeDNS ::
  "dns_library \<Rightarrow> nat \<Rightarrow> (string \<Rightarrow> string \<Rightarrow> dns_msg \<Rightarrow> dns_msg option) \<Rightarrow> (nat \<Rightarrow> nat option list) \<Rightarrow> 's dns_handler \<Rightarrow> 's dns_handler" where
  "fanout_ServeDNS lib dnsPort exchange arrivals nxt q s =
     (case q of (ctx, rw, m) \<Rightarrow>
        let connectTO = ClientURLs ctx;
            event = (\<lambda>a. case a of None \<Rightarrow> CtxDone
                         | Some i \<Rightarrow> Response (exchange (fst (connectTO ! i)) (fanout_address dnsPort (snd (connectTO ! i))) m))
        in if connectTO = [] then Some ([HandleFailed lib m], s)
           else (case waitResponse (length connectTO) (map event (arrivals (length connectTO))) of
                   None \<Rightarrow> None
                 | Some None \<Rightarrow> Some ([HandleFailed lib m], s)
                 | Some (Some resp) \<Rightarrow>
                     if rw resp then map_option (\<lambda>(written, s). (resp # written, s)) (nxt q s)
                     else Some ([resp, HandleFailed lib m], s)))"

section \<open>Equal configurations\<close>

fun count_up :: "string list \<Rightarrow> (string \<rightharpoonup> nat) \<Rightarrow> string \<rightharpoonup> nat" where
  "count_up [] diff = diff"
| "count_up (v # vs) diff = count_up vs (diff(v \<mapsto> (case diff v of None \<Rightarrow> 0 | Some n \<Rightarrow> n) + 1))"

fun count_down :: "string list \<Rightarrow> (string \<rightharpoonup> nat) \<Rightarrow> (string \<rightharpoonup> nat) option" where
  "count_down [] diff = Some diff"
| "count_down (v # vs) diff =
     (case diff v of None \<Rightarrow> None | Some n \<Rightarrow> count_down vs (if n = 1 then diff(v := None) else diff(v \<mapsto> n - 1)))"

text \<open>The map is empty at the end if none of the strings counted first is left in it.\<close>

definition dns_equal :: "string list \<Rightarrow> string list \<Rightarrow> bool" where
  "dns_equal a b =
     (if length a \<noteq> length b then False
      else (case count_down b (count_up a Map.empty) of None \<Rightarrow> False | Some diff \<Rightarrow> list_all (\<lambda>v. diff v = None) a))"

definition ContainsDNSConfig :: "DNSConfig list \<Rightarrow> DNSConfig \<Rightarrow> bool" where
  "ContainsDNSConfig array value \<longleftrightarrow>
     list_ex (\<lambda>c. dns_equal (DnsServerIps c) (DnsServerIps value) \<and> dns_equal (SearchDomains c) (SearchDomains value)) array"

section \<open>Configurations are compared as multisets\<close>

definition count_map :: "string multiset \<Rightarrow> string \<rightharpoonup> nat" where
  "count_map M = (\<lambda>v. if v \<in># M then Some (count M v) else None)"

lemma count_up_mset: "count_up vs (count_map M) = count_map (M + mset vs)"
proof (induction vs arbitrary: M)
  case (Cons v vs)
  have "(count_map M)(v \<mapsto> (case count_map M v of None \<Rightarrow> 0 | Some n \<Rightarrow> n) + 1) = count_map (add_mset v M)"
    by (auto simp: count_map_def fun_eq_iff not_in_iff)
  then show ?case using Cons [of "add_mset v M"] by simp
qed simp

lemma count_down_mset: "count_down vs (count_map M) = (if mset vs \<subseteq># M then Some (count_map (M - mset vs)) else None)"
proof (induction vs arbitrary: M)
  case (Cons v vs)
  show ?case
  proof (cases "v \<in># M")
    case True
    then obtain n where c: "count M v = Suc n" by (metis count_eq_zero_iff not0_implies_Suc)
    have "(if count M v = 1 then (count_map M)(v := None) else (count_map M)(v \<mapsto> count M v - 1)) = count_map (M - {#v#})"
      using c by (auto simp: count_map_def fun_eq_iff in_diff_count)
    moreover have "count_map M v = Some (count M v)" using True by (simp add: count_map_def)
    ultimately have "count_down (v # vs) (count_map M) = count_down vs (count_map (M - {#v#}))" by (simp only: count_down.simps option.case)
    moreover have "mset vs \<subseteq># M - {#v#} \<longleftrightarrow> mset (v # vs) \<subseteq># M"
      using True by (metis insert_subset_eq_iff mset.simps(2))
    ultimately show ?thesis using Cons [of "M - {#v#}"] by simp
  next
    case False
    then show ?thesis by (auto simp: count_map_def dest: mset_subset_eqD)
  qed
qed simp

text \<open>Two lists of servers or domains are equal for the code exactly if they are the same up to order.\<close>

lemma dns_equal_mset: "dns_equal a b \<longleftrightarrow> mset a = mset b"
proof -
  have up: "count_up a Map.empty = count_map (mset a)" using count_up_mset [of a "{#}"] by (simp add: count_map_def)
  show ?thesis
  proof (cases "mset b \<subseteq># mset a \<and> length a = length b")
    case True
    then have "mset a = mset b" by (metis size_mset mset_subset_size subset_mset.le_less less_irrefl)
    then show ?thesis using True unfolding dns_equal_def up count_down_mset by (simp add: list_all_iff count_map_def)
  next
    case False
    then show ?thesis unfolding dns_equal_def up count_down_mset by (auto dest: mset_eq_length)
  qed
qed

section \<open>Which answer a fanout returns\<close>

lemma waitResponse_first:
  assumes "\<forall>e\<in>set es. e \<noteq> CtxDone" "length es = n" "0 < n"
  shows "waitResponse n es =
    Some (find (\<lambda>m. Rcode m = RcodeSuccess) (List.map_filter (\<lambda>e. case e of Response r \<Rightarrow> r | CtxDone \<Rightarrow> None) es))"
  using assms
proof (induction n es rule: waitResponse.induct)
  case (3 n es)
  show ?case
  proof (cases "n = 1")
    case False
    then have "length es = n - 1" "0 < n - 1" using 3(3,4) by auto
    then show ?thesis using 3(1) [OF False] 3(2) False by (simp add: map_filter_def)
  qed (use 3(3) in \<open>simp add: map_filter_def\<close>)
next
  case (4 n resp es)
  show ?case
  proof (cases "Rcode resp = RcodeSuccess \<or> n = 1")
    case False
    then have "length es = n - 1" "0 < n - 1" using 4(3,4) by auto
    then show ?thesis using 4(1) False 4(2) by (simp add: map_filter_def)
  qed (use 4(3) in \<open>auto simp: map_filter_def\<close>)
qed auto

section \<open>The fallback to TCP\<close>

text \<open>A fanout writes in every case in which it returns, a failure if no server has answered.\<close>

lemma fanout_writes: "fanout_ServeDNS lib port exchange arrivals nxt q s = Some (written, s') \<Longrightarrow> written \<noteq> []"
  by (auto simp: fanout_ServeDNS_def Let_def split: prod.splits if_splits option.splits)

text \<open>
  Behind the handler of the configurations, a fanout is asked over UDP only: whatever handlers it is called through, if each of them writes
  when the ones after it write, the outcome does not depend on what would happen over TCP. A server that can be reached over TCP only, and an answer
  too long for UDP, are not found.
\<close>

lemma tcp_never_tried:
  assumes "\<And>q s written s'. nxt q s = Some (written, s') \<Longrightarrow> written \<noteq> []"
    and "\<And>ctx rw m s. (\<forall>u\<in>set (ClientURLs ctx). fst u = ''udp'') \<Longrightarrow> nxt' (ctx, rw, m) s = nxt (ctx, rw, m) s"
  shows "dnsConfigs_ServeDNS lib configs nxt' q s = dnsConfigs_ServeDNS lib configs nxt q s"
proof -
  obtain ctx rw m where q: "q = (ctx, rw, m)" by (cases q) auto
  have udp: "nxt' (WithSearchDomains (WithClientURLs ctx (map (Pair ''udp'') ips)) ds, rw', m') s = nxt (WithSearchDomains (WithClientURLs ctx (map (Pair ''udp'') ips)) ds, rw', m') s"
    for ips ds rw' m' s
    by (rule assms(2)) (auto simp: WithSearchDomains_def WithClientURLs_def)
  show ?thesis unfolding dnsConfigs_ServeDNS_def q
    by (auto simp: udp Let_def split: option.split dest: assms(1))
qed

section \<open>How long a cached answer lives\<close>

text \<open>The seconds that an update counts: the whole ones, while the fraction is dropped with the time of the last update.\<close>

fun counted :: "int list \<Rightarrow> int \<Rightarrow> int" where
  "counted [] t = 0"
| "counted (now # ts) t =
     (let d = (now - t) div 1000000000 in d + counted ts (if d = 0 then t else now))"

lemma age_rr_ttl: "unat (Ttl (age_rr diff r)) = unat (Ttl r) - unat diff"
  by (auto simp: age_rr_def word_less_nat_alt unat_sub word_le_nat_alt not_less)

lemma updateTTL_answer:
  assumes "cache q = Some m" "0 \<le> now - t" "(now - t) div 1000000000 < 4294967296"
  shows "\<exists>m'. fst (updateTTL now (cache, t)) q = Some m' \<and>
    map (unat \<circ> Ttl) (Answer m') = map ((\<lambda>n. n - nat ((now - t) div 1000000000)) \<circ> (unat \<circ> Ttl)) (Answer m) \<and>
    snd (updateTTL now (cache, t)) = (if (now - t) div 1000000000 = 0 then t else now)"
proof -
  let ?d = "(now - t) div 1000000000"
  have d: "0 \<le> ?d" using assms(2) by simp
  then have u: "unat (word_of_int ?d :: u32) = nat ?d" using assms(3) by (simp add: unsigned_of_int take_bit_int_eq_self)
  then have z: "(word_of_int ?d :: u32) = 0 \<longleftrightarrow> ?d = 0" using d by (metis nat_0_iff order_antisym unat_eq_0)
  show ?thesis using assms(1) u z by (auto simp: updateTTL_def Let_def age_rr_ttl)
qed

lemma counted_half: "sorted (t # ts) \<Longrightarrow> 0 \<le> counted ts t \<and> last (t # ts) - t < 2 * 1000000000 * counted ts t + 1000000000"
proof (induction ts arbitrary: t)
  case (Cons now ts)
  let ?d = "(now - t) div 1000000000"
  have e: "now - t = ?d * 1000000000 + (now - t) mod 1000000000" "0 \<le> (now - t) mod 1000000000" "(now - t) mod 1000000000 < 1000000000" by simp_all
  have d: "0 \<le> ?d" using Cons.prems by (simp add: pos_imp_zdiv_nonneg_iff)
  show ?case
  proof (cases "?d = 0")
    case True
    have s: "sorted (t # ts)" using Cons.prems by (auto intro: order_trans)
    have "last (t # now # ts) = (if ts = [] then now else last (t # ts))" by simp
    then show ?thesis using Cons.IH [OF s] True e by (cases "ts = []") (auto simp: Let_def)
  next
    case False
    have s: "sorted (now # ts)" using Cons.prems by simp
    have "last (t # now # ts) - t = (last (now # ts) - now) + (now - t)" by simp
    then show ?thesis using Cons.IH [OF s] False e d by (auto simp: Let_def)
  qed
qed simp

lemma updateTTL_run:
  assumes "sorted (t # ts)" "last (t # ts) - t < 4294967296 * 1000000000" "cache q = Some m"
  shows "\<exists>m'. fst (foldl (\<lambda>c now. updateTTL now c) (cache, t) ts) q = Some m' \<and>
    map (unat \<circ> Ttl) (Answer m') = map ((\<lambda>n. n - nat (counted ts t)) \<circ> (unat \<circ> Ttl)) (Answer m)"
  using assms
proof (induction ts arbitrary: t cache m)
  case (Cons now ts)
  let ?d = "(now - t) div 1000000000" and ?t = "if (now - t) div 1000000000 = 0 then t else now"
  have le: "t \<le> now" "now \<le> last (now # ts)" "sorted (now # ts)" using Cons.prems(1) by auto
  have lt: "?d < 4294967296" using Cons.prems(2) le by auto
  obtain m1 where m1: "fst (updateTTL now (cache, t)) q = Some m1"
      "map (unat \<circ> Ttl) (Answer m1) = map ((\<lambda>n. n - nat ?d) \<circ> (unat \<circ> Ttl)) (Answer m)" "snd (updateTTL now (cache, t)) = ?t"
    using updateTTL_answer [of cache q m now t] Cons.prems(3) le(1) lt by auto
  define c1 where "c1 = fst (updateTTL now (cache, t))"
  have c1: "updateTTL now (cache, t) = (c1, ?t)" "c1 q = Some m1" using m1(1,3) unfolding c1_def by (simp_all add: prod_eq_iff)
  have s: "sorted (?t # ts)" using Cons.prems(1) by auto
  have l: "last (?t # ts) - ?t < 4294967296 * 1000000000" using Cons.prems(2) le by (cases "ts = []") auto
  obtain m2 where m2: "fst (foldl (\<lambda>c now. updateTTL now c) (c1, ?t) ts) q = Some m2"
      "map (unat \<circ> Ttl) (Answer m2) = map ((\<lambda>n. n - nat (counted ts ?t)) \<circ> (unat \<circ> Ttl)) (Answer m1)"
    using Cons.IH [of ?t c1 m1, OF s l c1(2)] by blast
  have d: "0 \<le> ?d" "0 \<le> counted ts ?t" using le(1) counted_half [OF s] by (simp_all add: pos_imp_zdiv_nonneg_iff)
  have "map (unat \<circ> Ttl) (Answer m2) = map (\<lambda>n. n - nat (counted ts ?t)) (map (unat \<circ> Ttl) (Answer m1))" using m2(2) by simp
  also have "\<dots> = map ((\<lambda>n. n - nat (counted (now # ts) t)) \<circ> (unat \<circ> Ttl)) (Answer m)"
    unfolding m1(2) using d by (simp add: Let_def nat_add_distrib)
  finally show ?case using m2(1) by (simp add: c1(1) comp_def del: counted.simps)
qed simp

text \<open>
  An answer that the cache still serves has been there for less than twice its time to live, however many updates there were. (The factor
  is attained: \<open>cache_outlives_ttl\<close>.)
\<close>

lemma cache_answer_bound:
  assumes "sorted (t # ts)" "last (t # ts) - t < 4294967296 * 1000000000" "cache q = Some m" "r \<in> set (Answer m)"
    and "fst (foldl (\<lambda>c now. updateTTL now c) (cache, t) ts) q = Some m'" "validateMsg m'"
  shows "last (t # ts) - t < 2 * 1000000000 * int (unat (Ttl r))"
proof -
  have m': "map (unat \<circ> Ttl) (Answer m') = map ((\<lambda>n. n - nat (counted ts t)) \<circ> (unat \<circ> Ttl)) (Answer m)"
    using updateTTL_run [of t ts cache q m, OF assms(1-3)] assms(5) by auto
  have "unat (Ttl r) - nat (counted ts t) \<in> set (map (unat \<circ> Ttl) (Answer m'))" unfolding m' using assms(4) by force
  then obtain r' where "r' \<in> set (Answer m')" "unat (Ttl r') = unat (Ttl r) - nat (counted ts t)" by auto
  moreover from this(1) have "0 < unat (Ttl r')" using assms(6) by (auto simp: validateMsg_def list_all_iff word_less_nat_alt)
  ultimately have "counted ts t < int (unat (Ttl r))" using counted_half [OF assms(1)] by linarith
  then show ?thesis using counted_half [OF assms(1)] by linarith
qed

text \<open>Queries every 1.9 seconds: the answer with a time to live of 2 seconds is still valid after 1.9 seconds, that of 10 seconds after 17.\<close>

definition one_answer :: "u32 \<Rightarrow> dns_msg" where
  "one_answer ttl = \<lparr>msg_Id = 1, Rcode = 0, Authoritative = False, RecursionDesired = False, RecursionAvailable = False, Question = [],
     Answer = [\<lparr>rr_Name = ''a.'', Ttl = ttl, rr_data = A_data [10, 0, 0, 1]\<rparr>]\<rparr>"

lemma cache_outlives_ttl:
  "map_option validateMsg (fst (foldl (\<lambda>c now. updateTTL now c) (\<lambda>_. Some (one_answer 10), 0) (map (\<lambda>i. int i * 1900000000) [1..<10])) q) = Some True"
  by (simp add: updateTTL_def one_answer_def age_rr_def validateMsg_def upt_rec)

section \<open>Names of addresses\<close>

lemma split_on_word: "c \<notin> set w \<Longrightarrow> split_on c (w @ c # r) = w # split_on c r"
  by (induction w) auto

definition reverse_name4 :: "u8 \<Rightarrow> u8 \<Rightarrow> u8 \<Rightarrow> u8 \<Rightarrow> string" where
  "reverse_name4 a b c d = print_nat (unat d) @ ''.'' @ print_nat (unat c) @ ''.'' @ print_nat (unat b) @ ''.'' @ print_nat (unat a) @ ''.in-addr.arpa.''"

lemma has_suffix_append: "has_suffix (p @ suf) suf"
  by (simp add: has_suffix_def)

lemma no_dot: "CHR ''.'' \<notin> set (print_nat n)"
proof
  assume "CHR ''.'' \<in> set (print_nat n)"
  then obtain d where "d < 10" "CHR ''.'' = digit_char d" using print_nat_digits by blast
  then show False using is_digit_char [of d] is_digit_sep by simp
qed

text \<open>A query for the name of an IPv4 address is answered with exactly the names that have it.\<close>

lemma memory_ptr_v4:
  "memory_ptr records (reverse_name4 a b c d) =
    Some (map (\<lambda>(name, _). \<lparr>rr_Name = reverse_name4 a b c d, Ttl = defaultTTL, rr_data = PTR_data name\<rparr>)
      (filter (\<lambda>(_, ips). list_ex (\<lambda>v. ip_Equal v (To16 [a, b, c, d])) ips) records))"
proof -
  let ?p = "\<lambda>x :: u8. print_nat (unat x)" and ?s = "''.in-addr.arpa.''"
  have "reverse_name4 a b c d = (?p d @ ''.'' @ ?p c @ ''.'' @ ?p b @ ''.'' @ ?p a) @ ?s" by (simp add: reverse_name4_def)
  then have "has_suffix (reverse_name4 a b c d) ?s" by (simp only: has_suffix_append)
  moreover have "split_on CHR ''.'' (reverse_name4 a b c d) = [?p d, ?p c, ?p b, ?p a, ''in-addr'', ''arpa'', []]"
    using split_on_word [OF no_dot] by (simp add: reverse_name4_def)
  moreover have "ParseIP (join_with ''.'' [?p a, ?p b, ?p c, ?p d]) = Some (To16 [a, b, c, d])"
    using ParseIP_IP_String [of "[a, b, c, d]"] by (simp add: IP_String_def To4_def print_IPv4_4)
  ultimately show ?thesis by (simp add: memory_ptr_def slice_to_def)
qed

text \<open>A query for a name under \<^verbatim>\<open>ip6.arpa.\<close> with too few labels is a panic, and nothing in the handlers recovers.\<close>

lemma memory_ptr_panics:
  assumes "Question m = [\<lparr>qn_Name = ''1.ip6.arpa.'', Qtype = TypePTR, Qclass = 1\<rparr>]"
  shows "memory_ServeDNS lib records nxt (ctx, rw, m) s = None"
  using assms by (simp add: memory_ServeDNS_def memory_ptr_def has_suffix_def slice_to_def)

text \<open>A nil configuration stops every query.\<close>

lemma nil_config_panics: "None \<in> set confs \<Longrightarrow> dnsConfigs_ServeDNS lib ((i, confs) # configs) nxt q s = None"
  by (cases q) (auto simp: dnsConfigs_ServeDNS_def config_values_def Let_def)

section \<open>Witnesses\<close>

lemma cache_answer_served: "(1900000000 :: int) < 2 * 1000000000 * int (unat (2 :: u32))"
proof -
  have 1: "fst (foldl (\<lambda>c now. updateTTL now c) (\<lambda>_. Some (one_answer 2), 0) [1900000000]) q =
      Some (one_answer 1)" for q
    by (simp add: updateTTL_def one_answer_def age_rr_def)
  have 2: "validateMsg (one_answer 1)" by (simp add: validateMsg_def one_answer_def)
  show ?thesis using cache_answer_bound [OF _ _ _ _ 1 2, where m = "one_answer 2" and r = "hd (Answer (one_answer 2))"] by (simp add: one_answer_def)
qed

end
