(* ===== verification/Dns_Context.thy ===== *)
theory Dns_Context
  imports Dns_Handlers IP_Host "HOL-Library.AList" "HOL-Library.Monad_Syntax"
begin

text \<open>
  DNS for connections: the server and the client of \<^verbatim>\<open>connectioncontext/dnscontext\<close>, with the client's changes of \<^verbatim>\<open>/etc/resolv.conf\<close>, and
  those of \<^verbatim>\<open>dnscontext/vl3dns\<close>, which give the clients of a vL3 network names. The file is a string (none if it cannot be read), the parser of
  \<^verbatim>\<open>miekg/dns\<close>, the templates of names and the getters of the API module are arguments.
\<close>

section \<open>The server of DNS configurations\<close>

definition conn_dns :: "Connection \<Rightarrow> DNSConfig list option" where
  "conn_dns conn = Option.bind (Context conn) DnsContext"

definition set_dns :: "DNSConfig list \<Rightarrow> ConnectionContext \<Rightarrow> Connection \<Rightarrow> Connection" where
  "set_dns configs ctx conn = conn\<lparr>Context := Some (ctx\<lparr>DnsContext := Some configs\<rparr>)\<rparr>"

definition addConfig :: "DNSConfig list \<Rightarrow> DNSConfig \<Rightarrow> DNSConfig list" where
  "addConfig configs config = (if ContainsDNSConfig configs config then configs else configs @ [config])"

text \<open>A connection without a context is a nil dereference if there is no DNS context to read.\<close>

definition dnsContextServer_Request :: "DNSConfig list \<Rightarrow> 's request_chain \<Rightarrow> 's request_chain" where
  "dnsContextServer_Request configs nxt request s =
     (case Option.bind (req_connection request) (\<lambda>conn. map_option (Pair conn) (Context conn)) of
        None \<Rightarrow> (Inl Panic, s)
      | Some (conn, ctx) \<Rightarrow>
          let present = (case DnsContext ctx of None \<Rightarrow> [] | Some cs \<Rightarrow> cs) in
          nxt (request\<lparr>req_connection := Some (set_dns (foldl addConfig present configs) ctx conn)\<rparr>) s)"

definition dnsContextServer_Close :: "'s close_chain \<Rightarrow> 's close_chain" where
  "dnsContextServer_Close nxt conn s = nxt conn s"

section \<open>The resolver's file\<close>

abbreviation (input) newline :: char where "newline \<equiv> CHR 0x0A"

definition file_lines :: "string \<Rightarrow> string list" where
  "file_lines = split_on newline"

definition unlines :: "string list \<Rightarrow> string" where
  "unlines = join_with [newline]"

type_synonym properties = "(string \<times> string list) list"

definition is_comment :: "string \<Rightarrow> bool" where
  "is_comment l \<longleftrightarrow> take 1 l = ''#''"

text \<open>The properties of a file: the words behind the first one of every line that is no comment; a later line with the same first word replaces an earlier one.\<close>

fun read_lines :: "string list \<Rightarrow> properties \<Rightarrow> properties" where
  "read_lines [] ps = ps"
| "read_lines (l # ls) ps =
     read_lines ls (if is_comment l then ps
       else (case split_on CHR '' '' l of w # v # vs \<Rightarrow> AList.update w (v # vs) ps | _ \<Rightarrow> ps))"

definition openResolveConfig :: "string option \<Rightarrow> properties option" where
  "openResolveConfig file = map_option (\<lambda>b. read_lines (file_lines b) []) file"

definition rc_Value :: "properties \<Rightarrow> string \<Rightarrow> string list" where
  "rc_Value ps k = (case map_of ps k of None \<Rightarrow> [] | Some v \<Rightarrow> v)"

definition rc_SetValue :: "string \<Rightarrow> string list \<Rightarrow> properties \<Rightarrow> properties" where
  "rc_SetValue k values ps = (if values = [] then AList.delete k ps else AList.update k values ps)"

text \<open>The properties as text, in the order in which the map is gone through.\<close>

definition rc_String :: "properties \<Rightarrow> string" where
  "rc_String ps = unlines (map (\<lambda>(k, v). join_with '' '' (k # v)) ps)"

definition containsNameserver :: "string list \<Rightarrow> string \<Rightarrow> bool" where
  "containsNameserver servers value = list_ex (\<lambda>x. x = value) servers"

section \<open>The client of DNS configurations\<close>

text \<open>
  The environment: what \<^verbatim>\<open>ClientConfigFromReader\<close> reads as name servers from a text, the order of a map with the given entries, and whether
  the file can be written.
\<close>

record resolv_env =
  parse_servers :: "string \<Rightarrow> string list"
  map_order :: "properties \<Rightarrow> properties"
  writable :: bool
  defaultNameServerIP :: string

definition write_file :: "resolv_env \<Rightarrow> string \<Rightarrow> string option \<Rightarrow> string option" where
  "write_file env text file = (if writable env then Some text else file)"

definition commentedPart :: "string \<Rightarrow> string" where
  "commentedPart b = unlines (map (drop 1) (filter is_comment (file_lines b)))"

definition restoreResolvConf :: "resolv_env \<Rightarrow> string option \<Rightarrow> string option" where
  "restoreResolvConf env file =
     (case file of
        None \<Rightarrow> None
      | Some b \<Rightarrow> if parse_servers env (commentedPart b) = [] then file else write_file env (commentedPart b) file)"

definition commented :: "string \<Rightarrow> string" where
  "commented b = unlines (map ((@) ''#'') (file_lines b)) @ [newline, newline]"

definition storeOriginalResolvConf :: "resolv_env \<Rightarrow> string option \<Rightarrow> string option" where
  "storeOriginalResolvConf env file = (case file of None \<Rightarrow> None | Some b \<Rightarrow> write_file env (commented b) file)"

definition appendResolvConf :: "resolv_env \<Rightarrow> string \<Rightarrow> string option \<Rightarrow> string option" where
  "appendResolvConf env conf file = (case file of None \<Rightarrow> None | Some b \<Rightarrow> write_file env (b @ conf) file)"

text \<open>The file and the configuration that the original file stands for, none if it already names the default server or cannot be read.\<close>

definition dns_initialize :: "resolv_env \<Rightarrow> string option \<Rightarrow> string option \<times> DNSConfig option" where
  "dns_initialize env file =
     (let file = restoreResolvConf env file in
      case openResolveConfig file of
        None \<Rightarrow> (file, None)
      | Some ps \<Rightarrow>
          let file = storeOriginalResolvConf env file;
              nameserver = rc_Value ps ''nameserver'';
              config = (if containsNameserver nameserver (defaultNameServerIP env) then None
                        else Some \<lparr>DnsServerIps = nameserver, SearchDomains = rc_Value ps ''search''\<rparr>);
              ps = rc_SetValue ''search'' [] (rc_SetValue ''nameserver'' [defaultNameServerIP env] ps)
          in (appendResolvConf env (rc_String (map_order env ps)) file, config))"

text \<open>The state is the map of configurations, shared with the handlers.\<close>

type_synonym dns_configs = "string \<rightharpoonup> DNSConfig option list"

definition dnsContextClient_Request :: "DNSConfig option \<Rightarrow> 's request_chain \<Rightarrow> (dns_configs \<times> 's) request_chain" where
  "dnsContextClient_Request resolvconfDNSConfig nxt request st =
     (let conn = (case req_connection request of None \<Rightarrow> empty_connection | Some c \<Rightarrow> c);
          ctx = (case Context conn of None \<Rightarrow> empty_context | Some ctx \<Rightarrow> ctx);
          ctx = (if DnsContext ctx = None then ctx\<lparr>DnsContext := Some []\<rparr> else ctx)
      in case nxt (request\<lparr>req_connection := Some (conn\<lparr>Context := Some ctx\<rparr>)\<rparr>) (snd st) of
           (Inl e, s) \<Rightarrow> (Inl e, fst st, s)
         | (Inr rv, s) \<Rightarrow>
             (case conn_dns rv of
                None \<Rightarrow> (Inl Panic, fst st, s)
              | Some configs \<Rightarrow> (Inr rv, (fst st)(Id rv \<mapsto> map Some configs @ [resolvconfDNSConfig]), s)))"

definition dnsContextClient_Close :: "'s close_chain \<Rightarrow> (dns_configs \<times> 's) close_chain" where
  "dnsContextClient_Close nxt conn st = (case nxt conn (snd st) of (r, s) \<Rightarrow> (r, (fst st)(Id conn := None), s))"

section \<open>The client of a vL3 network\<close>

definition vl3DNSClient_Request :: "string \<Rightarrow> 's request_chain \<Rightarrow> ((string \<rightharpoonup> DNSConfig list) \<times> 's) request_chain" where
  "vl3DNSClient_Request dnsServerIP nxt request st =
     (let conn = (case req_connection request of None \<Rightarrow> empty_connection | Some c \<Rightarrow> c);
          ctx = (case Context conn of None \<Rightarrow> empty_context | Some ctx \<Rightarrow> ctx);
          conn = set_dns [\<lparr>DnsServerIps = [dnsServerIP], SearchDomains = []\<rparr>] ctx conn
      in case nxt (request\<lparr>req_connection := Some conn\<rparr>) (snd st) of
           (Inl e, s) \<Rightarrow> (Inl e, fst st, s)
         | (Inr resp, s) \<Rightarrow>
             let configs = filter (\<lambda>c. dnsServerIP \<notin> set (DnsServerIps c)) (case conn_dns resp of None \<Rightarrow> [] | Some cs \<Rightarrow> cs)
             in (Inr resp, (fst st)(Id resp \<mapsto> configs), s))"

definition vl3DNSClient_Close :: "'s close_chain \<Rightarrow> ((string \<rightharpoonup> DNSConfig list) \<times> 's) close_chain" where
  "vl3DNSClient_Close nxt conn st = (case nxt conn (snd st) of (r, s) \<Rightarrow> (r, (fst st)(Id conn := None), s))"

section \<open>The server of a vL3 network\<close>

record vl3DNSServer =
  dnsServerRecords :: "string \<rightharpoonup> IP list"
  dnsConfigs :: "string \<rightharpoonup> DNSConfig list"
  dnsServerIP :: "IP option"

text \<open>What it was made with, and the getters: the templates of names, the source networks of a context, and the name of the current path segment.\<close>

record vl3dns_env =
  domainSchemeTemplates :: "(Connection \<Rightarrow> string option) list"
  GetSrcIPNets :: "IPContext \<Rightarrow> IPNet list"
  currentSegmentName :: "Connection \<Rightarrow> string option"

fun removeDupDots :: "string \<Rightarrow> string" where
  "removeDupDots (c # d # s) = (if c = CHR ''.'' \<and> d = CHR ''.'' then removeDupDots (d # s) else c # removeDupDots (d # s))"
| "removeDupDots s = s"

fun buildSrcDNSRecords :: "(Connection \<Rightarrow> string option) list \<Rightarrow> Connection \<Rightarrow> string list option" where
  "buildSrcDNSRecords [] c = Some []"
| "buildSrcDNSRecords (t # ts) c =
     (case t c of
        None \<Rightarrow> None
      | Some name \<Rightarrow> map_option ((#) (removeDupDots name)) (buildSrcDNSRecords ts c))"

definition trim_dots :: "string \<Rightarrow> string" where
  "trim_dots s = rev (dropWhile (\<lambda>c. c = CHR ''.'') (rev (dropWhile (\<lambda>c. c = CHR ''.'') s)))"

text \<open>What is left behind each dot.\<close>

fun after_dots :: "string \<Rightarrow> string list" where
  "after_dots [] = []"
| "after_dots (c # s) = (if c = CHR ''.'' then s # after_dots s else after_dots s)"

definition searchDomainsOf :: "string list \<Rightarrow> string list" where
  "searchDomainsOf dnsRecords = concat (map (\<lambda>r. after_dots (trim_dots r)) dnsRecords)"

text \<open>
  The configurations with the one of this server, and its address; the request of the endpoint itself is let through while there is no address. \<open>None\<close> is a
  panic: no path segment.
\<close>

definition addDNSContext ::
  "vl3dns_env \<Rightarrow> IP option \<Rightarrow> Connection \<Rightarrow> DNSConfig list \<Rightarrow> string list \<Rightarrow> (nsm_error + DNSConfig list \<times> string) option" where
  "addDNSContext env ip c configs dnsRecords =
     (case ip of
        Some ip \<Rightarrow>
          Some (Inr (addConfig configs \<lparr>DnsServerIps = [IP_String ip], SearchDomains = searchDomainsOf dnsRecords\<rparr>, IP_String ip))
      | None \<Rightarrow>
          (case (case conn_path c of None \<Rightarrow> [] | Some p \<Rightarrow> PathSegments p) of
             [] \<Rightarrow> None
           | seg # _ \<Rightarrow>
               (case currentSegmentName env c of
                  None \<Rightarrow> None
                | Some n \<Rightarrow> Some (if seg_name seg = n then Inr (configs, []) else Inl (Err ''DNS address is initializing'')))))"

definition dns_withinPrefix :: "string \<Rightarrow> string \<Rightarrow> bool option" where
  "dns_withinPrefix ipAddr prefix =
     (case ParseCIDR prefix of
        None \<Rightarrow> Some False
      | Some (_, ipNet) \<Rightarrow> do { pool \<leftarrow> NewWithNet ipNet; ContainsString pool ipAddr })"

definition getSrcIPs :: "vl3dns_env \<Rightarrow> Connection \<Rightarrow> IP list" where
  "getSrcIPs env c =
     map IP (GetSrcIPNets env (case Option.bind (Context c) IpContext of None \<Rightarrow> empty_ip_context | Some i \<Rightarrow> i))"

text \<open>The servers of the client that lie in the last source prefix; a configuration comes once for each of these.\<close>

fun fanoutServers :: "string \<Rightarrow> string \<Rightarrow> (DNSConfig \<times> string) list \<Rightarrow> DNSConfig list option" where
  "fanoutServers self lastPrefix [] = Some []"
| "fanoutServers self lastPrefix ((config, serverIP) # cs) =
     (if self = serverIP then fanoutServers self lastPrefix cs
      else do { within \<leftarrow> dns_withinPrefix serverIP lastPrefix; rest \<leftarrow> fanoutServers self lastPrefix cs;
                Some (if within then config # rest else rest) })"

definition fanoutConfigs :: "string \<Rightarrow> Connection \<Rightarrow> DNSConfig list \<Rightarrow> DNSConfig list option" where
  "fanoutConfigs self resp clientsConfigs =
     (case Option.bind (Context resp) IpContext of
        None \<Rightarrow> Some []
      | Some i \<Rightarrow>
          if SrcRoutes i = [] then Some []
          else fanoutServers self (Prefix (last (SrcRoutes i))) (concat (map (\<lambda>c. map (Pair c) (DnsServerIps c)) clientsConfigs)))"

text \<open>
  The names of the connection are kept in its metadata, the middle component of the state: they are taken out before the rest of the chain is called and
  stored again after an accepted request that has addresses.
\<close>

type_synonym 's vl3dns_state = "vl3DNSServer \<times> string list option \<times> 's"

definition vl3DNSServer_Request :: "vl3dns_env \<Rightarrow> 's request_chain \<Rightarrow> 's vl3dns_state request_chain" where
  "vl3DNSServer_Request env nxt request st =
     (case st of (n, names, s) \<Rightarrow>
      case Option.bind (req_connection request) (\<lambda>conn. map_option (Pair conn) (Context conn)) of
        None \<Rightarrow> (Inl Panic, st)
      | Some (conn, ctx) \<Rightarrow>
          let clientsConfigs = (case DnsContext ctx of None \<Rightarrow> [] | Some cs \<Rightarrow> cs) in
          case buildSrcDNSRecords (domainSchemeTemplates env) (set_dns clientsConfigs ctx conn) of
            None \<Rightarrow> (Inl (Err ''error occurred executing the template''), st)
          | Some recordNames \<Rightarrow>
              let previous = (case names of None \<Rightarrow> [] | Some p \<Rightarrow> if p = recordNames then [] else p);
                  n = n\<lparr>dnsServerRecords := dnsServerRecords n |` (- set previous)\<rparr>
              in case addDNSContext env (dnsServerIP n) conn clientsConfigs recordNames of
                   None \<Rightarrow> (Inl Panic, n, None, s)
                 | Some (Inl e) \<Rightarrow> (Inl e, n, None, s)
                 | Some (Inr (configs, self)) \<Rightarrow>
                     (case nxt (request\<lparr>req_connection := Some (set_dns configs ctx conn)\<rparr>) s of
                        (Inl e, s) \<Rightarrow> (Inl e, n, None, s)
                      | (Inr resp, s) \<Rightarrow>
                          let ips = getSrcIPs env resp;
                              n = (if ips = [] then n
                                   else n\<lparr>dnsServerRecords := foldl (\<lambda>m name. m(name \<mapsto> ips)) (dnsServerRecords n) recordNames\<rparr>);
                              names = (if ips = [] then None else Some recordNames)
                          in case fanoutConfigs self resp clientsConfigs of
                               None \<Rightarrow> (Inl Panic, n, names, s)
                             | Some cs \<Rightarrow> (Inr resp, n\<lparr>dnsConfigs := (dnsConfigs n)(Id resp \<mapsto> cs)\<rparr>, names, s)))"

definition vl3DNSServer_Close :: "'s close_chain \<Rightarrow> 's vl3dns_state close_chain" where
  "vl3DNSServer_Close nxt conn st =
     (case st of (n, names, s) \<Rightarrow>
        let gone = (case names of None \<Rightarrow> [] | Some p \<Rightarrow> p);
            n = n\<lparr>dnsConfigs := (dnsConfigs n)(Id conn := None), dnsServerRecords := dnsServerRecords n |` (- set gone)\<rparr>
        in case nxt conn s of (r, s) \<Rightarrow> (r, n, None, s))"

text \<open>The handlers of its DNS server, in order.\<close>

datatype vl3dns_handler = DnsConfigsHandler | NoLoopHandler | NoRecursionHandler | MemoryHandler | FanoutHandler

definition vl3dns_handlers :: "vl3dns_handler server list" where
  "vl3dns_handlers = map Element [DnsConfigsHandler, NoLoopHandler, NoRecursionHandler, MemoryHandler, FanoutHandler]"

definition vl3dns_sem ::
  "dns_library \<Rightarrow> (string \<times> DNSConfig option list) list \<Rightarrow> dns_records \<Rightarrow> nat \<Rightarrow> (string \<Rightarrow> string \<Rightarrow> dns_msg \<Rightarrow> dns_msg option) \<Rightarrow> (nat \<Rightarrow> nat option list) \<Rightarrow>
   vl3dns_handler \<Rightarrow> (16 word set \<times> 's) dns_handler \<Rightarrow> (16 word set \<times> 's) dns_handler" where
  "vl3dns_sem lib configs records dnsPort exchange arrivals h nxt =
     (case h of
        DnsConfigsHandler \<Rightarrow> dnsConfigs_ServeDNS lib configs nxt
      | NoLoopHandler \<Rightarrow> noloop_ServeDNS lib nxt
      | NoRecursionHandler \<Rightarrow> norecursion_ServeDNS nxt
      | MemoryHandler \<Rightarrow> memory_ServeDNS lib records nxt
      | FanoutHandler \<Rightarrow> fanout_ServeDNS lib dnsPort exchange arrivals nxt)"

section \<open>Lines and words\<close>

lemma split_on_not_Nil [simp]: "split_on c s \<noteq> []"
  by (induction s) (auto split: list.split)

lemma split_on_append: "split_on c (a @ c # b) = split_on c a @ split_on c b"
proof (induction a)
  case (Cons x a)
  then show ?case using split_on_not_Nil [of c a] by (cases "split_on c a") auto
qed simp

lemma split_on_clean: "c \<notin> set w \<Longrightarrow> split_on c w = [w]"
  by (induction w) auto

lemma split_on_parts: "w \<in> set (split_on c s) \<Longrightarrow> c \<notin> set w \<and> set w \<subseteq> set s"
proof (induction s arbitrary: w)
  case (Cons x s)
  obtain v vs where v: "split_on c s = v # vs" using split_on_not_Nil by (cases "split_on c s") auto
  have "w = [] \<or> w \<in> set (v # vs) \<or> x \<noteq> c \<and> w = x # v" using Cons.prems v by (auto split: if_splits)
  then show ?case
  proof (elim disjE conjE)
    assume "w \<in> set (v # vs)"
    then show ?thesis using Cons.IH [of w] v by auto
  next
    assume "x \<noteq> c" "w = x # v"
    then show ?thesis using Cons.IH [of v] v by auto
  qed simp
qed simp

lemma join_with_Cons: "ws \<noteq> [] \<Longrightarrow> join_with sep (w # ws) = w @ sep @ join_with sep ws"
  by (cases ws) auto

lemma split_join: "ws \<noteq> [] \<Longrightarrow> \<forall>w\<in>set ws. c \<notin> set w \<Longrightarrow> split_on c (join_with [c] ws) = ws"
proof (induction ws)
  case (Cons w ws)
  show ?case
  proof (cases "ws = []")
    case False
    then show ?thesis using Cons by (simp add: join_with_Cons split_on_append split_on_clean)
  qed (use Cons in \<open>simp add: split_on_clean\<close>)
qed simp

lemma join_split: "join_with [c] (split_on c s) = s"
proof (induction s)
  case (Cons x s)
  obtain w ws where w: "split_on c s = w # ws" by (cases "split_on c s") auto
  have "join_with [c] ((x # w) # ws) = x # join_with [c] (w # ws)" by (cases ws) auto
  then show ?case using Cons w by (auto simp: join_with_Cons)
qed simp

lemma join_with_set: "set (join_with sep ws) \<subseteq> \<Union> (set (map set ws)) \<union> set sep"
  by (induction sep ws rule: join_with.induct) auto

section \<open>A restarted client finds its file\<close>

text \<open>Lines that the properties of a file are written as.\<close>

definition clean_properties :: "properties \<Rightarrow> bool" where
  "clean_properties ps \<longleftrightarrow>
     (\<forall>(k, v)\<in>set ps. v \<noteq> [] \<and> take 1 k \<noteq> ''#'' \<and> (\<forall>w\<in>set (k # v). newline \<notin> set w))"

lemma AList_update_set: "set (AList.update k v ps) \<subseteq> insert (k, v) (set ps)"
  by (induction ps) auto

lemma read_lines_clean:
  "clean_properties ps \<Longrightarrow> \<forall>l\<in>set ls. newline \<notin> set l \<Longrightarrow> clean_properties (read_lines ls ps)"
proof (induction ls arbitrary: ps)
  case (Cons l ls)
  have "clean_properties (AList.update w (v # vs) ps)" if "\<not> is_comment l" "split_on CHR '' '' l = w # v # vs" for w v vs
  proof -
    have nl: "newline \<notin> set u" if "u \<in> set (w # v # vs)" for u
      using split_on_parts [of u "CHR '' ''" l] that \<open>split_on _ l = _\<close> Cons.prems(2) by (metis list.set_intros(1) subset_iff)
    have "take 1 w \<noteq> ''#''"
    proof
      assume "take 1 w = ''#''"
      then obtain w' where "w = CHR ''#'' # w'" by (cases w) auto
      moreover have "l = join_with '' '' (w # v # vs)" using join_split [of "CHR '' ''" l] that(2) by simp
      ultimately show False using that(1) by (simp add: is_comment_def)
    qed
    with nl have "case (w, v # vs) of (k, v) \<Rightarrow> v \<noteq> [] \<and> take 1 k \<noteq> ''#'' \<and> (\<forall>u\<in>set (k # v). newline \<notin> set u)" by simp
    then show ?thesis using Cons.prems(1) AList_update_set [of w "v # vs" ps] unfolding clean_properties_def by blast
  qed
  then have "clean_properties (if is_comment l then ps
      else (case split_on CHR '' '' l of w # v # vs \<Rightarrow> AList.update w (v # vs) ps | _ \<Rightarrow> ps))"
    using Cons.prems(1) by (auto split: list.split)
  then show ?case using Cons.IH Cons.prems(2) by simp
qed simp

lemma clean_line:
  assumes "v \<noteq> []" "take 1 k \<noteq> ''#''" "\<forall>w\<in>set (k # v). newline \<notin> set w"
  shows "\<not> is_comment (join_with '' '' (k # v)) \<and> newline \<notin> set (join_with '' '' (k # v))"
proof
  show "\<not> is_comment (join_with '' '' (k # v))" using assms(1,2) by (cases k) (auto simp: is_comment_def join_with_Cons)
  show "newline \<notin> set (join_with '' '' (k # v))" using join_with_set [of "'' ''" "k # v"] assms(3) by auto
qed

lemma rc_String_no_comment:
  assumes "clean_properties ps"
  shows "filter is_comment (file_lines (rc_String ps)) = []"
proof (cases "ps = []")
  case True
  then show ?thesis by (simp add: rc_String_def unlines_def file_lines_def is_comment_def)
next
  case False
  let ?ls = "map (\<lambda>(k, v). join_with '' '' (k # v)) ps"
  have l: "\<not> is_comment l \<and> newline \<notin> set l" if "l \<in> set ?ls" for l
    using that assms clean_line unfolding clean_properties_def by (auto simp del: join_with.simps)
  then have "file_lines (rc_String ps) = ?ls"
    unfolding rc_String_def unlines_def file_lines_def using False by (intro split_join) auto
  then show ?thesis using l by (simp add: filter_empty_conv)
qed

lemma commentedPart_commented:
  assumes "filter is_comment (file_lines conf) = []"
  shows "commentedPart (commented b @ conf) = b"
proof -
  let ?ls = "map ((@) ''#'') (file_lines b)"
  have ne: "?ls \<noteq> []" by (simp add: file_lines_def)
  have clean: "\<forall>l\<in>set ?ls. newline \<notin> set l" using split_on_parts by (fastforce simp: file_lines_def)
  have "file_lines (commented b @ conf) = split_on newline (unlines ?ls) @ [] # file_lines conf"
    by (simp add: commented_def file_lines_def split_on_append)
  also have "split_on newline (unlines ?ls) = ?ls" unfolding unlines_def by (rule split_join [OF ne clean])
  finally have "filter is_comment (file_lines (commented b @ conf)) = filter is_comment ?ls"
    using assms by (simp add: is_comment_def)
  also have "\<dots> = ?ls" by (simp add: filter_id_conv is_comment_def)
  finally show ?thesis by (simp add: commentedPart_def comp_def unlines_def file_lines_def join_split)
qed


text \<open>A file whose only comment is an old name server loses its active lines.\<close>

definition some_resolv_env :: resolv_env where
  "some_resolv_env = \<lparr>parse_servers = (\<lambda>t. rc_Value (read_lines (file_lines t) []) ''nameserver''), map_order = (\<lambda>ps. ps), writable = True,
     defaultNameServerIP = ''127.0.0.1''\<rparr>"

lemma commented_server_wins:
  "restoreResolvConf some_resolv_env (Some (''#nameserver 1.1.1.1'' @ newline # ''nameserver 10.0.0.1'')) = Some ''nameserver 1.1.1.1''"
  by (simp add: restoreResolvConf_def some_resolv_env_def commentedPart_def file_lines_def unlines_def is_comment_def rc_Value_def write_file_def)

section \<open>The records of a connection\<close>

text \<open>Requests of one connection that are all accepted and answered with addresses.\<close>

fun vl3dns_run :: "vl3dns_env \<Rightarrow> 's request_chain \<Rightarrow> NetworkServiceRequest list \<Rightarrow> 's vl3dns_state \<Rightarrow> 's vl3dns_state option" where
  "vl3dns_run env nxt [] st = Some st"
| "vl3dns_run env nxt (r # rs) st =
     (case vl3DNSServer_Request env nxt r st of
        (Inl e, st) \<Rightarrow> None
      | (Inr resp, st) \<Rightarrow> if getSrcIPs env resp = [] then None else vl3dns_run env nxt rs st)"

text \<open>Away from the names in the metadata the records are those of the beginning, or gone.\<close>

definition own_names :: "(string \<rightharpoonup> IP list) \<Rightarrow> vl3DNSServer \<Rightarrow> string list option \<Rightarrow> bool" where
  "own_names before n names \<longleftrightarrow>
     (\<forall>x. x \<notin> set (case names of None \<Rightarrow> [] | Some p \<Rightarrow> p) \<longrightarrow> dnsServerRecords n x \<in> {before x, None})"

lemma foldl_updates: "foldl (\<lambda>m name. m(name \<mapsto> v)) m names x = (if x \<in> set names then Some v else m x)"
  by (induction names arbitrary: m) auto

lemma vl3dns_accepted:
  assumes "vl3DNSServer_Request env nxt request (n, names, s) = (Inr resp, n1, names1, s1)" "getSrcIPs env resp \<noteq> []"
    and "own_names before n names"
  shows "own_names before n1 names1"
proof -
  let ?restricted = "\<lambda>previous. dnsServerRecords n |` (- set previous)"
  have keep: "?restricted (case names of None \<Rightarrow> [] | Some p \<Rightarrow> if p = new then [] else p) x \<in> {before x, None}" if "x \<notin> set new" for x new
    using assms(3) that by (auto simp: own_names_def restrict_map_def split: option.splits if_splits)
  obtain new m where "names1 = Some new"
      "dnsServerRecords n1 = foldl (\<lambda>m name. m(name \<mapsto> getSrcIPs env resp)) (?restricted (case names of None \<Rightarrow> [] | Some p \<Rightarrow> if p = new then [] else p)) new"
    using assms(1,2)
    by (auto simp: vl3DNSServer_Request_def Let_def dest!: sym [of "Some _"] split: option.splits sum.splits prod.splits)
  then show ?thesis using keep by (auto simp: own_names_def foldl_updates)
qed

lemma vl3dns_run_own:
  "vl3dns_run env nxt rs (n, names, s) = Some (n1, names1, s1) \<Longrightarrow> own_names before n names \<Longrightarrow> own_names before n1 names1"
proof (induction rs arbitrary: n names s)
  case (Cons r rs)
  obtain resp n2 names2 s2 where r: "vl3DNSServer_Request env nxt r (n, names, s) = (Inr resp, n2, names2, s2)" "getSrcIPs env resp \<noteq> []"
      "vl3dns_run env nxt rs (n2, names2, s2) = Some (n1, names1, s1)"
    using Cons.prems(1) by (auto split: sum.splits prod.splits if_splits)
  show ?case by (rule Cons.IH [OF r(3) vl3dns_accepted [OF r(1,2) Cons.prems(2)]])
qed simp


text \<open>A refresh that fails in the rest of the chain takes the names out of the metadata and leaves the records: no close deletes them.\<close>

lemma failed_refresh_leaks:
  assumes "vl3DNSServer_Request env nxt request (n, Some names, s) = (Inl (Err e), n1, names1, s1)"
    and "req_connection request = Some conn" "Context conn = Some ctx"
    and "buildSrcDNSRecords (domainSchemeTemplates env)
      (set_dns (case DnsContext ctx of None \<Rightarrow> [] | Some cs \<Rightarrow> cs) ctx conn) = Some names"
  shows "vl3DNSServer_Close nxt' c (n1, names1, s1) = (r, n2, names2, s2) \<Longrightarrow> dnsServerRecords n2 = dnsServerRecords n"
  using assms
  by (auto simp: vl3DNSServer_Request_def vl3DNSServer_Close_def Let_def split: option.splits sum.splits prod.splits)

section \<open>The DNS server of a vL3 network\<close>

lemma built_handlers: "list_all built vl3dns_handlers" "enough_calls vl3dns_handlers = 11"
  by (simp_all add: vl3dns_handlers_def enough_calls_def)

lemma memory_writes:
  assumes "\<And>q s written s'. nxt q s = Some (written, s') \<Longrightarrow> written \<noteq> []" "memory_ServeDNS lib records nxt q s = Some (written, s')"
  shows "written \<noteq> []"
  using assms(2)
  by (auto simp: memory_ServeDNS_def write_or_fail_def Let_def split: prod.splits list.splits option.splits if_splits)

lemma noloop_writes:
  assumes "\<And>q s written s'. nxt q s = Some (written, s') \<Longrightarrow> written \<noteq> []" "noloop_ServeDNS lib nxt q s = Some (written, s')"
  shows "written \<noteq> []"
  using assms(2) by (auto simp: noloop_ServeDNS_def split: prod.splits if_splits dest!: assms(1))

lemma norec_writes:
  assumes "\<And>q s written s'. nxt q s = Some (written, s') \<Longrightarrow> written \<noteq> []" "norecursion_ServeDNS nxt q s = Some (written, s')"
  shows "written \<noteq> []"
  using assms by (auto simp: norecursion_ServeDNS_def split: prod.splits)

lemma memory_cong: "nxt q s = nxt' q s \<Longrightarrow> memory_ServeDNS lib records nxt q s = memory_ServeDNS lib records nxt' q s"
  by (auto simp: memory_ServeDNS_def Let_def split: prod.split list.split option.split)

lemma norecursion_cong:
  "(\<And>m. nxt (ctx, rw, m) s = nxt' (ctx, rw, m) s) \<Longrightarrow> norecursion_ServeDNS nxt (ctx, rw, m) s = norecursion_ServeDNS nxt' (ctx, rw, m) s"
  by (simp add: norecursion_ServeDNS_def)

lemma noloop_cong:
  "(\<And>s. nxt q s = nxt' q s) \<Longrightarrow> noloop_ServeDNS lib nxt q s = noloop_ServeDNS lib nxt' q s"
  by (cases q) (simp add: noloop_ServeDNS_def split: prod.split)

lemma fanout_same:
  assumes "\<forall>u\<in>set (ClientURLs ctx). \<forall>address m. exchange (fst u) address m = exchange' (fst u) address m" "\<And>n i. Some i \<in> set (arrivals n) \<Longrightarrow> i < n"
  shows "fanout_ServeDNS lib port exchange arrivals nxt (ctx, rw, m) s = fanout_ServeDNS lib port exchange' arrivals nxt (ctx, rw, m) s"
proof -
  let ?event = "\<lambda>e a. case a of None \<Rightarrow> CtxDone
      | Some i \<Rightarrow> Response (e (fst (ClientURLs ctx ! i)) (fanout_address port (snd (ClientURLs ctx ! i))) m)"
  have "map (?event exchange) (arrivals (length (ClientURLs ctx))) = map (?event exchange') (arrivals (length (ClientURLs ctx)))"
    using assms by (auto split: option.split)
  then show ?thesis unfolding fanout_ServeDNS_def by (simp only: prod.case Let_def)
qed

text \<open>
  C20. The DNS server of a vL3 network asks other servers over UDP only: two networks that answer the same over UDP give the same outcome, though the
  handlers are written to ask over TCP what they could not learn over UDP.
\<close>

theorem vl3dns_udp_only:
  fixes s :: "16 word set \<times> 's"
  assumes "\<And>address m. exchange ''udp'' address m = exchange' ''udp'' address m" "\<And>n i. Some i \<in> set (arrivals n) \<Longrightarrow> i < n"
    and "enough_calls vl3dns_handlers \<le> k"
  shows "nextDNSHandler_ServeDNS (vl3dns_sem lib configs records port exchange arrivals) k None vl3dns_handlers 0 None q s =
    nextDNSHandler_ServeDNS (vl3dns_sem lib configs records port exchange' arrivals) k None vl3dns_handlers 0 None q s"
proof -
  let ?behind = "\<lambda>e. noloop_ServeDNS lib (norecursion_ServeDNS (memory_ServeDNS lib records (fanout_ServeDNS lib port e arrivals tail_ServeDNS)))"
  have chain: "nextDNSHandler_ServeDNS (vl3dns_sem lib configs records port e arrivals) k None vl3dns_handlers 0 None =
      dnsConfigs_ServeDNS lib configs (?behind e)" for e
    unfolding dns_chain_composes [OF built_handlers(1) assms(3)] by (simp add: composed_def vl3dns_handlers_def vl3dns_sem_def)
  have same: "fanout_ServeDNS lib port exchange arrivals tail_ServeDNS (ctx, rw, m) s =
      fanout_ServeDNS lib port exchange' arrivals tail_ServeDNS (ctx, rw, m) s"
    if "\<forall>u\<in>set (ClientURLs ctx). fst u = ''udp''" for ctx :: dns_ctx and rw m and s :: "16 word set \<times> 's"
    by (rule fanout_same) (use that assms(1,2) in auto)
  have "?behind exchange (ctx, rw, m) s = ?behind exchange' (ctx, rw, m) s"
    if "\<forall>u\<in>set (ClientURLs ctx). fst u = ''udp''" for ctx rw m and s :: "16 word set \<times> 's"
    by (intro noloop_cong norecursion_cong memory_cong same [OF that])
  moreover have "written \<noteq> []" if "?behind exchange' q s = Some (written, s')" for q written s' and s :: "16 word set \<times> 's"
    using that by (elim noloop_writes [rotated] memory_writes [rotated] fanout_writes norec_writes [rotated])
  ultimately show ?thesis unfolding chain by (intro tcp_never_tried)
qed

section \<open>Other facts\<close>

text \<open>The server adds each of its configurations once: a refresh with the answer of a request changes nothing.\<close>

lemma addConfig_present:
  "ContainsDNSConfig configs c \<Longrightarrow> ContainsDNSConfig (addConfig configs d) c"
  "ContainsDNSConfig (addConfig configs c) c"
  by (auto simp: addConfig_def ContainsDNSConfig_def dns_equal_mset)

lemma addConfigs_idempotent: "foldl addConfig (foldl addConfig present configs) configs = foldl addConfig present configs"
proof -
  have keep: "ContainsDNSConfig (foldl addConfig p cs) c" if "ContainsDNSConfig p c" for p cs c
    using that by (induction cs arbitrary: p) (auto intro: addConfig_present)
  have all: "\<forall>c\<in>set configs. ContainsDNSConfig (foldl addConfig present configs) c"
    by (induction configs arbitrary: present) (auto intro: keep addConfig_present)
  have "foldl addConfig p cs = p" if "\<forall>c\<in>set cs. ContainsDNSConfig p c" for p cs
    using that by (induction cs) (auto simp: addConfig_def)
  with all show ?thesis by blast
qed

text \<open>The search domains of a name are the domains around it.\<close>

lemma searchDomains_example: "searchDomainsOf [''target.d1.d2.d3.''] = [''d1.d2.d3'', ''d2.d3'', ''d3'']"
  by (simp add: searchDomainsOf_def trim_dots_def)

text \<open>
  A client whose resolver already names the default server stores a nil configuration with the first connection, which stops
  the handler of the configurations at the next query.
\<close>

lemma nil_config_stored:
  assumes "nxt (request\<lparr>req_connection := Some (c\<lparr>Context := Some (ctx\<lparr>DnsContext := Some cs\<rparr>)\<rparr>)\<rparr>) s = (Inr rv, s')" "conn_dns rv = Some configs"
    and "req_connection request = Some (c\<lparr>Context := Some (ctx\<lparr>DnsContext := Some cs\<rparr>)\<rparr>)"
  shows "\<exists>m. fst (snd (dnsContextClient_Request None nxt request (m0, s))) = m \<and> m (Id rv) = Some (map Some configs @ [None]) \<and>
    dnsConfigs_ServeDNS lib [(Id rv, map Some configs @ [None])] nxt' q s'' = None"
  using assms by (simp add: dnsContextClient_Request_def Let_def nil_config_panics)

section \<open>Witnesses\<close>

definition small_file :: string where
  "small_file = ''nameserver 8.8.4.4'' @ newline # ''search example.com'' @ [newline]"


definition vl3_env :: vl3dns_env where
  "vl3_env = \<lparr>domainSchemeTemplates = [\<lambda>c. Some (Id c @ ''.vl3.'')], GetSrcIPNets = (\<lambda>i. [\<lparr>IP = [10, 0, 0, 1], Mask = [255, 255, 255, 255]\<rparr>]),
     currentSegmentName = (\<lambda>c. Some [])\<rparr>"

definition vl3_call :: NetworkServiceRequest where
  "vl3_call = \<lparr>req_connection = Some (empty_connection\<lparr>Id := ''c'', Context := Some empty_context\<rparr>), MechanismPreferences = []\<rparr>"

definition vl3_echo :: "unit request_chain" where
  "vl3_echo request s = (Inr (conn_of request), s)"


text \<open>A network in which every exchange over TCP succeeds and none over UDP.\<close>

definition tcp_only :: "string \<Rightarrow> string \<Rightarrow> dns_msg \<Rightarrow> dns_msg option" where
  "tcp_only net address m = (if net = ''tcp'' then Some (m\<lparr>Rcode := 0\<rparr>) else None)"

definition no_network :: "string \<Rightarrow> string \<Rightarrow> dns_msg \<Rightarrow> dns_msg option" where
  "no_network net address m = None"

definition small_dns :: dns_library where
  "small_dns = \<lparr>SetReply = (\<lambda>m. m), SetRcode = (\<lambda>m n. m\<lparr>Rcode := n\<rparr>), HandleFailed = (\<lambda>m. m\<lparr>Rcode := 2\<rparr>), Fqdn = (\<lambda>n. n)\<rparr>"

definition some_query :: "dns_ctx \<times> dns_writer \<times> dns_msg" where
  "some_query = (\<lparr>ClientURLs = [], SearchDomains_ctx = []\<rparr>, \<lambda>_. True,
     \<lparr>msg_Id = 7, Rcode = 0, Authoritative = False, RecursionDesired = True, RecursionAvailable = False,
      Question = [\<lparr>qn_Name = ''a.b.'', Qtype = 1, Qclass = 1\<rparr>], Answer = []\<rparr>)"

definition small_vl3dns :: "(string \<Rightarrow> string \<Rightarrow> dns_msg \<Rightarrow> dns_msg option) \<Rightarrow> vl3dns_handler \<Rightarrow> (16 word set \<times> unit) dns_handler \<Rightarrow> (16 word set \<times> unit) dns_handler" where
  "small_vl3dns e = vl3dns_sem small_dns [(''c'', [Some \<lparr>DnsServerIps = [''8.8.8.8''], SearchDomains = []\<rparr>])] [] 53 e (\<lambda>n. map Some [0..<n])"

lemma small_vl3dns_fails: "map_option (map Rcode \<circ> fst)
   (nextDNSHandler_ServeDNS (small_vl3dns no_network) 11 None vl3dns_handlers 0 None some_query ({}, ())) = Some [2]"
  unfolding dns_chain_composes [OF built_handlers(1) order_refl, unfolded built_handlers(2)]
  by (simp add: small_vl3dns_def composed_def vl3dns_handlers_def vl3dns_sem_def some_query_def dnsConfigs_ServeDNS_def config_values_def noloop_ServeDNS_def
      norecursion_ServeDNS_def memory_ServeDNS_def memory_a_def records_of_def small_dns_def fanout_ServeDNS_def no_network_def WithSearchDomains_def
      WithClientURLs_def write_or_fail_def)

lemma vl3dns_udp_only_witness: "map_option (map Rcode \<circ> fst)
   (nextDNSHandler_ServeDNS (small_vl3dns tcp_only) 11 None vl3dns_handlers 0 None some_query ({}, ())) = Some [2]"
proof -
  have "nextDNSHandler_ServeDNS (small_vl3dns tcp_only) 11 None vl3dns_handlers 0 None some_query ({}, ()) =
      nextDNSHandler_ServeDNS (small_vl3dns no_network) 11 None vl3dns_handlers 0 None some_query ({}, ())"
    unfolding small_vl3dns_def by (rule vl3dns_udp_only) (auto simp: tcp_only_def no_network_def built_handlers)
  then show ?thesis using small_vl3dns_fails by simp
qed

end
