(* ===== verification/Vl3_Mtu.thy ===== *)
theory Vl3_Mtu
  imports NSM_Api
begin

text \<open>
  The smallest MTU of a virtual L3 network (\<^verbatim>\<open>connectioncontext/mtu/vl3mtu\<close>). The server caps the MTU of a request, lowers the minimum
  when an answer has a smaller one, and asks the other connections to refresh. Its state is changed by closures of a serial
  executor only, so an interleaving of requests and closes is a list of closures in the order in which they run.
\<close>

section \<open>The server\<close>

definition jumboFrameSize :: u32 where
  "jumboFrameSize = 9000"

record vl3MtuServer =
  mtu_connections :: "string \<rightharpoonup> Connection"
  mtu_min :: u32

definition newMtuServer :: vl3MtuServer where
  "newMtuServer = \<lparr>mtu_connections = Map.empty, mtu_min = jumboFrameSize\<rparr>"

text \<open>A connection without a context gets an empty one before its MTU is read.\<close>

definition conn_context :: "Connection \<Rightarrow> ConnectionContext" where
  "conn_context conn = (case Context conn of None \<Rightarrow> empty_context | Some c \<Rightarrow> c)"

definition with_MTU :: "u32 \<Rightarrow> Connection \<Rightarrow> Connection" where
  "with_MTU m conn = conn\<lparr>Context := Some (conn_context conn\<lparr>MTU := m\<rparr>)\<rparr>"

text \<open>The closure of a request that caps its MTU.\<close>

definition capMTU :: "vl3MtuServer \<Rightarrow> Connection \<Rightarrow> Connection" where
  "capMTU v conn =
     (let m = MTU (conn_context conn) in with_MTU (if mtu_min v < m \<or> m = 0 then mtu_min v else m) conn)"

text \<open>
  The closure that runs after an accepted request: \<open>None\<close> is the nil dereference for an answer without a context. The second component is the event
  for the event consumer, one that holds the other connections with the new MTU.
\<close>

definition refreshEvent :: "vl3MtuServer \<Rightarrow> string \<Rightarrow> u32 \<Rightarrow> string \<rightharpoonup> Connection" where
  "refreshEvent v i m =
     (\<lambda>j. if j = i then None else map_option (\<lambda>c. (with_MTU m c)\<lparr>State := REFRESH_REQUESTED\<rparr>) (mtu_connections v j))"

definition recordMTU :: "Connection \<Rightarrow> vl3MtuServer \<Rightarrow> (vl3MtuServer \<times> (string \<rightharpoonup> Connection) option) option" where
  "recordMTU conn v =
     (case Context conn of
        None \<Rightarrow> None
      | Some ctx \<Rightarrow>
          (let lower = MTU ctx < mtu_min v; m = (if lower then MTU ctx else mtu_min v)
           in Some (\<lparr>mtu_connections = (mtu_connections v)(Id conn \<mapsto> conn), mtu_min = m\<rparr>,
                    if lower then Some (refreshEvent v (Id conn) m) else None)))"

definition dropMTU :: "string \<Rightarrow> vl3MtuServer \<Rightarrow> vl3MtuServer" where
  "dropMTU i v = v\<lparr>mtu_connections := (mtu_connections v)(i := None)\<rparr>"

text \<open>
  A request whose closures run one right after the other. A request without a connection is a nil dereference.
  The event goes to the consumer \<open>send\<close> of the metadata, part of the world the chain runs in.
\<close>

definition mtuServer_Request ::
  "((string \<rightharpoonup> Connection) \<Rightarrow> 's \<Rightarrow> 's) \<Rightarrow> 's request_chain \<Rightarrow> (vl3MtuServer \<times> 's) request_chain" where
  "mtuServer_Request send nxt request st =
     (case req_connection request of
        None \<Rightarrow> (Inl Panic, st)
      | Some conn \<Rightarrow>
          (case nxt (request\<lparr>req_connection := Some (capMTU (fst st) conn)\<rparr>) (snd st) of
             (Inl e, s) \<Rightarrow> (Inl e, fst st, s)
           | (Inr ret, s) \<Rightarrow>
               (case recordMTU ret (fst st) of
                  None \<Rightarrow> (Inl Panic, fst st, s)
                | Some (v, None) \<Rightarrow> (Inr ret, v, s)
                | Some (v, Some e) \<Rightarrow> (Inr ret, v, send e s))))"

definition mtuServer_Close :: "'s close_chain \<Rightarrow> (vl3MtuServer \<times> 's) close_chain" where
  "mtuServer_Close nxt conn st =
     (case nxt conn (snd st) of (r, s) \<Rightarrow> (r, dropMTU (Id conn) (fst st), s))"

section \<open>The client\<close>

definition updateMinMTU :: "Connection \<Rightarrow> u32 \<Rightarrow> bool \<times> u32" where
  "updateMinMTU conn minMtu =
     (let m = MTU (conn_context conn) in if minMtu \<le> m then (False, minMtu) else (True, m))"

text \<open>The notifier of the metadata, if any, is asked to refresh the other connections of the application.\<close>

definition mtuClient_Request ::
  "(string \<Rightarrow> 's \<Rightarrow> 's) option \<Rightarrow> 's request_chain \<Rightarrow> (u32 \<times> 's) request_chain" where
  "mtuClient_Request notifier nxt request st =
     (case req_connection request of
        None \<Rightarrow> (Inl Panic, st)
      | Some conn \<Rightarrow>
          let m = MTU (conn_context conn); minMTU = fst st;
              conn = with_MTU (if minMTU < m \<or> m = 0 then minMTU else m) conn in
          (case nxt (request\<lparr>req_connection := Some conn\<rparr>) (snd st) of
             (Inl e, s) \<Rightarrow> (Inl e, fst st, s)
           | (Inr ret, s) \<Rightarrow>
               (case updateMinMTU ret (fst st) of
                  (False, m) \<Rightarrow> (Inr ret, m, s)
                | (True, m) \<Rightarrow> (Inr ret, m, case notifier of None \<Rightarrow> s | Some notify \<Rightarrow> notify (Id ret) s))))"

definition mtuClient_Close :: "'s close_chain \<Rightarrow> (u32 \<times> 's) close_chain" where
  "mtuClient_Close nxt conn st = (case nxt conn (snd st) of (r, s) \<Rightarrow> (r, fst st, s))"

text \<open>With the minimum an answer leaves, no later request of the client has a larger MTU.\<close>

lemma updateMinMTU_min: "snd (updateMinMTU conn m) = min m (MTU (conn_context conn))"
  by (auto simp: updateMinMTU_def Let_def min_def)

section \<open>What the connected clients know\<close>

text \<open>
  The closures, and the MTU each connected client was last told: with the answer to its request, or with an event, which
  makes it refresh.
\<close>

datatype mtu_closure = Recorded Connection | Dropped string

type_synonym mtu_world = "vl3MtuServer \<times> (string \<rightharpoonup> u32)"

definition run_closure :: "mtu_closure \<Rightarrow> mtu_world \<Rightarrow> mtu_world option" where
  "run_closure c w =
     (case c of
        Dropped i \<Rightarrow> Some (dropMTU i (fst w), (snd w)(i := None))
      | Recorded conn \<Rightarrow>
          map_option (\<lambda>(v, event).
            (v, (case event of None \<Rightarrow> snd w
                 | Some e \<Rightarrow> snd w ++ (\<lambda>i. map_option (\<lambda>c. MTU (conn_context c)) (e i)))(Id conn \<mapsto> MTU (conn_context conn))))
            (recordMTU conn (fst w)))"

fun run_closures :: "mtu_closure list \<Rightarrow> mtu_world \<Rightarrow> mtu_world option" where
  "run_closures [] w = Some w"
| "run_closures (c # cs) w = (case run_closure c w of None \<Rightarrow> None | Some w \<Rightarrow> run_closures cs w)"

text \<open>Every answer is recorded while the minimum is not below its MTU: nobody lowered it since the request was capped.\<close>

fun in_time :: "mtu_closure list \<Rightarrow> mtu_world \<Rightarrow> bool" where
  "in_time [] w = True"
| "in_time (c # cs) w =
     ((case c of Recorded conn \<Rightarrow> MTU (conn_context conn) \<le> mtu_min (fst w) | Dropped _ \<Rightarrow> True) \<and>
      (case run_closure c w of None \<Rightarrow> True | Some w \<Rightarrow> in_time cs w))"

definition recorded :: "mtu_closure list \<Rightarrow> u32 list" where
  "recorded cs = concat (map (\<lambda>c. case c of Recorded conn \<Rightarrow> [MTU (conn_context conn)] | Dropped _ \<Rightarrow> []) cs)"

definition told :: "mtu_world \<Rightarrow> bool" where
  "told w \<longleftrightarrow> (\<forall>i. snd w i = map_option (\<lambda>_. mtu_min (fst w)) (mtu_connections (fst w) i))"

lemma run_closure_min:
  "run_closure c w = Some w' \<Longrightarrow> mtu_min (fst w') = foldl min (mtu_min (fst w)) (recorded [c])"
  by (cases c) (auto simp: run_closure_def recordMTU_def recorded_def dropMTU_def conn_context_def Let_def min_def split: option.splits)

lemma run_closures_min:
  "run_closures cs w = Some w' \<Longrightarrow> mtu_min (fst w') = foldl min (mtu_min (fst w)) (recorded cs)"
proof (induction cs arbitrary: w)
  case (Cons c cs)
  obtain w1 where w1: "run_closure c w = Some w1" "run_closures cs w1 = Some w'" using Cons.prems by (auto split: option.splits)
  have "recorded (c # cs) = recorded [c] @ recorded cs" by (simp add: recorded_def)
  then show ?case using Cons.IH [OF w1(2)] run_closure_min [OF w1(1)] by simp
qed (simp add: recorded_def)

lemma run_closure_told:
  assumes "run_closure c w = Some w'" "told w" "in_time [c] w"
  shows "told w'"
proof (cases c)
  case (Dropped i)
  then show ?thesis using assms(1,2) by (auto simp: run_closure_def dropMTU_def told_def split: if_splits)
next
  case (Recorded conn)
  then obtain ctx where ctx: "Context conn = Some ctx" using assms(1) by (auto simp: run_closure_def recordMTU_def split: option.splits)
  have le: "MTU ctx \<le> mtu_min (fst w)" using assms(1,3) Recorded ctx by (simp add: conn_context_def)
  show ?thesis
  proof (cases "MTU ctx < mtu_min (fst w)")
    case True
    then show ?thesis using assms(1,2) Recorded ctx
      by (auto simp: run_closure_def recordMTU_def told_def refreshEvent_def with_MTU_def conn_context_def map_add_def dom_def Let_def
          split: option.splits)
  next
    case False
    then have "MTU ctx = mtu_min (fst w)" using le by simp
    then show ?thesis using assms(1,2) Recorded ctx
      by (auto simp: run_closure_def recordMTU_def told_def conn_context_def Let_def split: option.splits)
  qed
qed

text \<open>
  C22. For any sequence of requests and closes in which every answer is recorded while the minimum is not below its MTU, the minimum is the
  least of 9000 and all MTUs ever recorded, and every connected client was last told exactly this minimum.
\<close>

theorem mtu_told:
  assumes "run_closures cs (newMtuServer, Map.empty) = Some w" "in_time cs (newMtuServer, Map.empty)"
  shows "mtu_min (fst w) = foldl min 9000 (recorded cs) \<and> dom (snd w) = dom (mtu_connections (fst w)) \<and>
    (\<forall>i\<in>dom (snd w). snd w i = Some (mtu_min (fst w)))"
proof -
  have "told w" if "run_closures cs v = Some w" "in_time cs v" "told v" for cs v
    using that
  proof (induction cs arbitrary: v)
    case (Cons c cs)
    obtain v1 where v1: "run_closure c v = Some v1" "run_closures cs v1 = Some w" using Cons.prems(1) by (auto split: option.splits)
    have "in_time [c] v" "in_time cs v1" using Cons.prems(2) v1 by (auto split: option.splits)
    then show ?case using Cons.IH [OF v1(2)] run_closure_told [OF v1(1) Cons.prems(3)] by simp
  qed simp
  moreover have "told (newMtuServer, Map.empty)" by (simp add: told_def newMtuServer_def)
  ultimately have "told w" using assms by blast
  then show ?thesis using run_closures_min [OF assms(1)] by (auto simp: told_def newMtuServer_def jumboFrameSize_def)
qed

text \<open>The condition holds for a request of its own whose answer has at most the MTU that was asked for.\<close>

lemma capMTU_le: "MTU (conn_context (capMTU v conn)) \<le> mtu_min v"
  by (auto simp: capMTU_def with_MTU_def conn_context_def Let_def)

lemma answer_in_time:
  assumes "MTU (conn_context answer) \<le> MTU (conn_context (capMTU (fst w) conn))"
  shows "in_time [Recorded answer] w"
  using order_trans [OF assms capMTU_le] by (simp split: option.split)

text \<open>
  Without it a client is not told: the first request is capped by 9000, the second lowers the minimum to 1500 before the answer
  of the first is recorded, and the first client keeps 9000.
\<close>

definition mtu_conn :: "string \<Rightarrow> u32 \<Rightarrow> Connection" where
  "mtu_conn i m = with_MTU m (empty_connection\<lparr>Id := i\<rparr>)"

lemma late_answer_not_told:
  "MTU (conn_context (capMTU newMtuServer (mtu_conn ''a'' 0))) = 9000 \<and>
   (\<exists>w. run_closures [Recorded (mtu_conn ''b'' 1500), Recorded (mtu_conn ''a'' 9000)] (newMtuServer, Map.empty) = Some w \<and>
     snd w ''a'' = Some 9000 \<and> mtu_min (fst w) = 1500)"
  by (simp add: capMTU_def with_MTU_def conn_context_def newMtuServer_def jumboFrameSize_def mtu_conn_def run_closure_def recordMTU_def
      empty_connection_def empty_context_def refreshEvent_def Let_def)

text \<open>An answer with an MTU of 0, which stands for none, makes 0 the minimum for good: every later request is capped to 0.\<close>

lemma zero_MTU_sticks:
  assumes "run_closures cs w = Some w'" "mtu_min (fst w) = 0"
  shows "mtu_min (fst w') = 0 \<and> MTU (conn_context (capMTU (fst w') conn)) = 0"
proof -
  have z: "foldl min (0 :: u32) xs = 0" for xs by (induction xs) (simp_all add: min_def)
  show ?thesis using run_closures_min [OF assms(1)] assms(2) capMTU_le [of "fst w'" conn] by (simp add: z)
qed

lemma zero_MTU_recorded:
  "Context conn = Some c \<Longrightarrow> MTU c = 0 \<Longrightarrow> recordMTU conn v = Some (v', e) \<Longrightarrow> mtu_min v' = 0"
  by (auto simp: recordMTU_def Let_def word_gt_0)

text \<open>An answer without a context stops the executor with a nil dereference.\<close>

lemma no_context_panics: "Context conn = None \<Longrightarrow> recordMTU conn v = None"
  by (simp add: recordMTU_def)

section \<open>Witness\<close>

lemma mtu_told_witness:
  "map_option (\<lambda>w. snd w ''a'') (run_closures [Recorded (mtu_conn ''a'' 9000), Recorded (mtu_conn ''b'' 1500)] (newMtuServer, Map.empty)) = Some (Some 1500)"
proof -
  let ?cs = "[Recorded (mtu_conn ''a'' 9000), Recorded (mtu_conn ''b'' 1500)]"
  note defs = with_MTU_def conn_context_def newMtuServer_def jumboFrameSize_def mtu_conn_def run_closure_def recordMTU_def
      empty_connection_def empty_context_def refreshEvent_def Let_def
  obtain w where w: "run_closures ?cs (newMtuServer, Map.empty) = Some w" by (simp add: defs)
  have t: "in_time ?cs (newMtuServer, Map.empty)" by (simp add: defs)
  have "''a'' \<in> dom (snd w)" using w by (auto simp: defs)
  moreover have "foldl min 9000 (recorded ?cs) = (1500 :: u32)" by (simp add: recorded_def mtu_conn_def with_MTU_def conn_context_def min_def)
  ultimately show ?thesis using mtu_told [OF w t] w by simp
qed

end
