(* ===== verification/Chain_Adapters.thy ===== *)
theory Chain_Adapters
  imports Next_Chain
begin

text \<open>
  Adapters between clients and servers (\<^verbatim>\<open>networkservice/core/adapters\<close>, \<^verbatim>\<open>registry/core/adapters\<close>) and the streams over channels they use
  (\<^verbatim>\<open>registry/core/streamchannel\<close>, \<^verbatim>\<open>networkservice/core/eventchannel\<close>). An adapter runs the element of the other kind in a chain of two, the second of
  which calls what follows in the context.
\<close>

section \<open>Calls\<close>

text \<open>
  An element is what it does to the handler of the elements after it, so the chain of two has elements of this type. The second element
  leaves its own context aside.
\<close>

definition callNext :: "'h \<Rightarrow> 'h \<Rightarrow> 'h" where
  "callNext following k = following"

definition pair_chain :: "('h \<Rightarrow> 'h) \<Rightarrow> 'h \<Rightarrow> ('h \<Rightarrow> 'h) server list" where
  "pair_chain element following = [Element element, Element (callNext following)]"

definition clientToServer_Request :: "nat \<Rightarrow> ('s request_handler \<Rightarrow> 's request_handler) \<Rightarrow> 's request_handler \<Rightarrow> 's request_handler" where
  "clientToServer_Request n client following = nextClient_Request (\<lambda>e. e) n None (pair_chain client following) 0 None"

definition clientToServer_Close :: "nat \<Rightarrow> ((Connection, 's) ack_handler \<Rightarrow> (Connection, 's) ack_handler) \<Rightarrow> (Connection, 's) ack_handler \<Rightarrow> (Connection, 's) ack_handler" where
  "clientToServer_Close n client following = nextClient_Close (\<lambda>e. e) n None (pair_chain client following) 0 None"

definition serverToClient_Request :: "nat \<Rightarrow> ('s request_handler \<Rightarrow> 's request_handler) \<Rightarrow> 's request_handler \<Rightarrow> 's request_handler" where
  "serverToClient_Request n server following = nextServer_Request (\<lambda>e. e) n None (pair_chain server following) 0 None"

definition serverToClient_Close :: "nat \<Rightarrow> ((Connection, 's) ack_handler \<Rightarrow> (Connection, 's) ack_handler) \<Rightarrow> (Connection, 's) ack_handler \<Rightarrow> (Connection, 's) ack_handler" where
  "serverToClient_Close n server following = nextServer_Close (\<lambda>e. e) n None (pair_chain server following) 0 None"

definition nsClientToServer_Register ::
  "nat \<Rightarrow> ((NetworkServiceMsg, 's) echo_handler \<Rightarrow> (NetworkServiceMsg, 's) echo_handler) \<Rightarrow> (NetworkServiceMsg, 's) echo_handler \<Rightarrow> (NetworkServiceMsg, 's) echo_handler" where
  "nsClientToServer_Register n client following = nextNSClient_Register (\<lambda>e. e) n None (pair_chain client following) 0 None"

definition nsClientToServer_Unregister ::
  "nat \<Rightarrow> ((NetworkServiceMsg, 's) ack_handler \<Rightarrow> (NetworkServiceMsg, 's) ack_handler) \<Rightarrow> (NetworkServiceMsg, 's) ack_handler \<Rightarrow> (NetworkServiceMsg, 's) ack_handler" where
  "nsClientToServer_Unregister n client following = nextNSClient_Unregister (\<lambda>e. e) n None (pair_chain client following) 0 None"

definition nsServerToClient_Register ::
  "nat \<Rightarrow> ((NetworkServiceMsg, 's) echo_handler \<Rightarrow> (NetworkServiceMsg, 's) echo_handler) \<Rightarrow> (NetworkServiceMsg, 's) echo_handler \<Rightarrow> (NetworkServiceMsg, 's) echo_handler" where
  "nsServerToClient_Register n server following = nextNSServer_Register (\<lambda>e. e) n None (pair_chain server following) 0 None"

definition nsServerToClient_Unregister ::
  "nat \<Rightarrow> ((NetworkServiceMsg, 's) ack_handler \<Rightarrow> (NetworkServiceMsg, 's) ack_handler) \<Rightarrow> (NetworkServiceMsg, 's) ack_handler \<Rightarrow> (NetworkServiceMsg, 's) ack_handler" where
  "nsServerToClient_Unregister n server following = nextNSServer_Unregister (\<lambda>e. e) n None (pair_chain server following) 0 None"

definition nseClientToServer_Register ::
  "nat \<Rightarrow> ((NetworkServiceEndpoint, 's) echo_handler \<Rightarrow> (NetworkServiceEndpoint, 's) echo_handler) \<Rightarrow> (NetworkServiceEndpoint, 's) echo_handler \<Rightarrow> (NetworkServiceEndpoint, 's) echo_handler" where
  "nseClientToServer_Register n client following = nextNSEClient_Register (\<lambda>e. e) n None (pair_chain client following) 0 None"

definition nseClientToServer_Unregister ::
  "nat \<Rightarrow> ((NetworkServiceEndpoint, 's) ack_handler \<Rightarrow> (NetworkServiceEndpoint, 's) ack_handler) \<Rightarrow> (NetworkServiceEndpoint, 's) ack_handler \<Rightarrow> (NetworkServiceEndpoint, 's) ack_handler" where
  "nseClientToServer_Unregister n client following = nextNSEClient_Unregister (\<lambda>e. e) n None (pair_chain client following) 0 None"

definition nseServerToClient_Register ::
  "nat \<Rightarrow> ((NetworkServiceEndpoint, 's) echo_handler \<Rightarrow> (NetworkServiceEndpoint, 's) echo_handler) \<Rightarrow> (NetworkServiceEndpoint, 's) echo_handler \<Rightarrow> (NetworkServiceEndpoint, 's) echo_handler" where
  "nseServerToClient_Register n server following = nextNSEServer_Register (\<lambda>e. e) n None (pair_chain server following) 0 None"

definition nseServerToClient_Unregister ::
  "nat \<Rightarrow> ((NetworkServiceEndpoint, 's) ack_handler \<Rightarrow> (NetworkServiceEndpoint, 's) ack_handler) \<Rightarrow> (NetworkServiceEndpoint, 's) ack_handler \<Rightarrow> (NetworkServiceEndpoint, 's) ack_handler" where
  "nseServerToClient_Unregister n server following = nextNSEServer_Unregister (\<lambda>e. e) n None (pair_chain server following) 0 None"

section \<open>Streams over channels\<close>

text \<open>
  A bounded channel is the list of what it holds. Sending has a choice between the channel and the end of the context where both are ready; receiving ends
  when the channel is closed and empty. An operation may wait.
\<close>

datatype 'a chan_result = Done 'a | Failed | Waits

definition findServer_Send :: "nat \<Rightarrow> bool \<Rightarrow> bool \<Rightarrow> 'a \<Rightarrow> 'a list \<Rightarrow> 'a list chan_result" where
  "findServer_Send capacity ctx_done prefer_done x ch =
     (if ctx_done \<and> (prefer_done \<or> capacity \<le> length ch) then Failed
      else if length ch < capacity then Done (ch @ [x]) else Waits)"

definition findClient_Recv :: "bool \<Rightarrow> 'a list \<Rightarrow> ('a \<times> 'a list) chan_result" where
  "findClient_Recv closed ch = (case ch of x # xs \<Rightarrow> Done (x, xs) | [] \<Rightarrow> if closed then Failed else Waits)"

text \<open>The client of monitored events also ends with its context.\<close>

definition monitorClient_Recv :: "bool \<Rightarrow> bool \<Rightarrow> bool \<Rightarrow> 'a list \<Rightarrow> ('a \<times> 'a list) chan_result" where
  "monitorClient_Recv ctx_done prefer_done closed ch =
     (if ctx_done \<and> (prefer_done \<or> ch = [] \<and> \<not> closed) then Failed else findClient_Recv closed ch)"

definition channelSize :: nat where
  "channelSize = 100"

text \<open>
  A search of the server sends its answers one by one and stops at the first that fails; \<open>ctx_done\<close> tells whether the context is done at each of them. The
  call of a search that does not watch returns the stream only when the search is over: nobody receives meanwhile. \<open>None\<close> if it never returns.
\<close>

fun send_all :: "nat \<Rightarrow> (nat \<Rightarrow> bool) \<Rightarrow> 'a list \<Rightarrow> 'a list \<Rightarrow> (nsm_error + 'a list) option" where
  "send_all capacity ctx_done [] ch = Some (Inr ch)"
| "send_all capacity ctx_done (x # xs) ch =
     (case findServer_Send capacity (ctx_done (length xs)) False x ch of
        Done ch \<Rightarrow> send_all capacity ctx_done xs ch
      | Failed \<Rightarrow> Some (Inl (Err ''application context is done''))
      | Waits \<Rightarrow> None)"

definition findServerToClient :: "(nat \<Rightarrow> bool) \<Rightarrow> 'a list \<Rightarrow> nsm_error option \<Rightarrow> (nsm_error + 'a list) option" where
  "findServerToClient ctx_done answers err =
     (case send_all channelSize ctx_done answers [] of
        None \<Rightarrow> None
      | Some (Inl e) \<Rightarrow> Some (Inl e)
      | Some (Inr ch) \<Rightarrow> Some (case err of Some e \<Rightarrow> Inl e | None \<Rightarrow> Inr ch))"

text \<open>The other way the answers of the client's stream are sent on until it is over; other errors of receiving and errors of sending are returned.\<close>

datatype 'a stream_event = Msg 'a | EOF | RecvError

fun findClientToServer :: "('a \<Rightarrow> 's \<Rightarrow> nsm_error option \<times> 's) \<Rightarrow> (nat \<Rightarrow> bool) \<Rightarrow> 'a stream_event list \<Rightarrow> 's \<Rightarrow> (nsm_error option \<times> 's) option" where
  "findClientToServer send ctx_done [] s = None"
| "findClientToServer send ctx_done (e # es) s =
     (if ctx_done (length es) then Some (None, s)
      else case e of
        EOF \<Rightarrow> Some (None, s)
      | RecvError \<Rightarrow> Some (Some (Err ''failed to get a message''), s)
      | Msg m \<Rightarrow> (case send m s of (None, s) \<Rightarrow> findClientToServer send ctx_done es s | (Some e, s) \<Rightarrow> Some (Some e, s)))"

text \<open>A search that watches sends from a goroutine of its own while the client receives.\<close>

record 'a watch_pipe =
  unsent :: "'a list"
  buffer :: "'a list"
  received :: "'a list"

inductive pipe_step :: "'a watch_pipe \<Rightarrow> 'a watch_pipe \<Rightarrow> bool" where
  pipe_send: "unsent p = x # xs \<Longrightarrow> findServer_Send channelSize False False x (buffer p) = Done ch \<Longrightarrow> pipe_step p (p\<lparr>unsent := xs, buffer := ch\<rparr>)"
| pipe_recv: "findClient_Recv False (buffer p) = Done (x, ch) \<Longrightarrow> pipe_step p (p\<lparr>buffer := ch, received := received p @ [x]\<rparr>)"

text \<open>
  Monitoring a server as a client starts the server in a goroutine and waits, without looking at the context or at the end of the server, until the channel holds
  its first event: \<open>None\<close> if it waits for ever.
\<close>

definition monitorServerToClient :: "'a list \<Rightarrow> 'a list option" where
  "monitorServerToClient events = (if events = [] then None else Some (take 1 events))"

text \<open>The other way events are sent on until receiving or sending fails; it always returns an error.\<close>

fun monitorClientToServer :: "('a \<Rightarrow> 's \<Rightarrow> nsm_error option \<times> 's) \<Rightarrow> 'a option list \<Rightarrow> 's \<Rightarrow> (nsm_error \<times> 's) option" where
  "monitorClientToServer send [] s = None"
| "monitorClientToServer send (None # es) s = Some (Err ''failed to receive a monitor connections event'', s)"
| "monitorClientToServer send (Some e # es) s =
     (case send e s of (None, s) \<Rightarrow> monitorClientToServer send es s | (Some err, s) \<Rightarrow> Some (Err ''failed to send a monitor connections event'', s))"

section \<open>Adapted elements are the elements\<close>

lemma pair_chain_method:
  assumes "5 \<le> n"
  shows "(let (server, ctx) = getServerAndContext None (pair_chain e f) 0 None in serve (\<lambda>e. e) tail n server ctx) = e f"
proof -
  have "list_all built (pair_chain e f)" "enough_calls (pair_chain e f) \<le> n" using assms by (simp_all add: pair_chain_def enough_calls_def)
  then show ?thesis by (simp add: chain_method composed_def pair_chain_def callNext_def)
qed

lemma adapters_transparent:
  assumes "5 \<le> n"
  shows "clientToServer_Request n c1 k1 = c1 k1 \<and> clientToServer_Close n c2 k2 = c2 k2 \<and>
    serverToClient_Request n s1 k3 = s1 k3 \<and> serverToClient_Close n s2 k4 = s2 k4"
  unfolding clientToServer_Request_def clientToServer_Close_def serverToClient_Request_def serverToClient_Close_def
    nextClient_Request_def nextClient_Close_def nextServer_Request_def nextServer_Close_def
  by (intro conjI pair_chain_method assms)

lemma registry_adapters_transparent:
  assumes "5 \<le> n"
  shows "nsClientToServer_Register n c1 k1 = c1 k1 \<and> nsClientToServer_Unregister n c2 k2 = c2 k2 \<and>
    nsServerToClient_Register n s1 k3 = s1 k3 \<and> nsServerToClient_Unregister n s2 k4 = s2 k4 \<and>
    nseClientToServer_Register n c3 k5 = c3 k5 \<and> nseClientToServer_Unregister n c4 k6 = c4 k6 \<and>
    nseServerToClient_Register n s3 k7 = s3 k7 \<and> nseServerToClient_Unregister n s4 k8 = s4 k8"
  unfolding nsClientToServer_Register_def nsClientToServer_Unregister_def nsServerToClient_Register_def nsServerToClient_Unregister_def
    nseClientToServer_Register_def nseClientToServer_Unregister_def nseServerToClient_Register_def nseServerToClient_Unregister_def
    nextNSClient_Register_def nextNSClient_Unregister_def nextNSServer_Register_def nextNSServer_Unregister_def
    nextNSEClient_Register_def nextNSEClient_Unregister_def nextNSEServer_Register_def nextNSEServer_Unregister_def
  by (intro conjI pair_chain_method assms)

section \<open>Searching through an adapter\<close>

lemma send_all_free:
  "send_all capacity (\<lambda>_. False) xs ch = (if length ch + length xs \<le> capacity \<or> xs = [] then Some (Inr (ch @ xs)) else None)"
  by (induction xs arbitrary: ch) (auto simp: findServer_Send_def)

text \<open>
  A search that does not watch, through the adapter of a registry server, returns its answers if there are at most 100 of them, and otherwise waits for a
  reader that cannot come, until its context is done.
\<close>

lemma find_adapter_blocks:
  "findServerToClient (\<lambda>_. False) answers None = (if length answers \<le> 100 then Some (Inr answers) else None)"
  by (auto simp: findServerToClient_def send_all_free channelSize_def)

text \<open>The search ends with the context, with an error.\<close>

lemma find_adapter_deadline:
  assumes "100 < length answers" "\<forall>i<length answers - 100. ctx_done i"
    and "\<forall>i. length answers - 100 \<le> i \<longrightarrow> \<not> ctx_done i"
  shows "findServerToClient ctx_done answers None = Some (Inl (Err ''application context is done''))"
proof -
  have "send_all 100 ctx_done xs ch = Some (Inl (Err ''application context is done''))"
    if "length ch + length xs = length answers" "length ch \<le> 100" "xs \<noteq> []" for xs ch
    using that
  proof (induction xs arbitrary: ch)
    case (Cons x xs)
    show ?case
    proof (cases "length ch = 100")
      case True
      then have "length xs < length answers - 100" using Cons.prems(1) by simp
      then have "ctx_done (length xs)" using assms(2) by blast
      then show ?thesis using True by (simp add: findServer_Send_def)
    next
      case False
      then have l: "length ch < 100" using Cons.prems(2) by simp
      have ne: "xs \<noteq> []" using Cons.prems(1) l assms(1) by auto
      have "length answers - 100 \<le> length xs" using Cons.prems(1) l by simp
      then have "\<not> ctx_done (length xs)" using assms(3) by blast
      then show ?thesis using l ne Cons.IH [of "ch @ [x]"] Cons.prems(1) by (simp add: findServer_Send_def)
    qed
  qed simp
  from this [of "[]" answers] have "answers \<noteq> [] \<Longrightarrow> send_all 100 ctx_done answers [] = Some (Inl (Err ''application context is done''))" by simp
  moreover have "answers \<noteq> []" using assms(1) by auto
  ultimately show ?thesis by (simp add: findServerToClient_def channelSize_def)
qed

text \<open>
  A search that watches gets every answer in order, however many there are: nothing is lost between its two ends, and as long as something is missing one of them
  can go on.
\<close>

lemma pipe_fifo:
  assumes "pipe_step\<^sup>*\<^sup>* \<lparr>unsent = xs, buffer = [], received = []\<rparr> p"
  shows "received p @ buffer p @ unsent p = xs \<and> length (buffer p) \<le> channelSize"
  using assms
proof (induction rule: rtranclp_induct)
  case (step p q)
  from step.hyps(2) step.IH show ?case
    by (cases rule: pipe_step.cases) (auto simp: findServer_Send_def findClient_Recv_def split: if_splits list.splits)
qed simp

lemma pipe_progress: "unsent p \<noteq> [] \<or> buffer p \<noteq> [] \<Longrightarrow> \<exists>q. pipe_step p q"
proof -
  assume a: "unsent p \<noteq> [] \<or> buffer p \<noteq> []"
  show ?thesis
  proof (cases "buffer p")
    case (Cons x ch)
    then have "findClient_Recv False (buffer p) = Done (x, ch)" by (simp add: findClient_Recv_def)
    then show ?thesis by (blast intro: pipe_recv)
  next
    case Nil
    then obtain x xs where "unsent p = x # xs" using a by (cases "unsent p") auto
    moreover have "findServer_Send channelSize False False x (buffer p) = Done [x]" using Nil by (simp add: findServer_Send_def channelSize_def)
    ultimately show ?thesis by (blast intro: pipe_send)
  qed
qed

definition pipe_left :: "'a watch_pipe \<Rightarrow> nat" where
  "pipe_left p = 2 * length (unsent p) + length (buffer p)"

lemma pipe_ends: "pipe_step p q \<Longrightarrow> pipe_left q < pipe_left p"
  by (cases rule: pipe_step.cases) (auto simp: pipe_left_def findServer_Send_def findClient_Recv_def split: if_splits list.splits)

text \<open>A server that refuses to be monitored sends nothing, and the call never comes back.\<close>

lemma refused_monitor_hangs: "monitorServerToClient [] = None"
  by (simp add: monitorServerToClient_def)

end
