(* ===== verification/Dns_Resolve.thy ===== *)
theory Dns_Resolve
  imports Connection_Elements "HOL-Library.AList"
begin

text \<open>
  Names of other domains in the registry (\<^verbatim>\<open>registry/common/dnsresolve\<close>): the part of a name behind \<^verbatim>\<open>@\<close> is a domain, which is looked up in the DNS; the call goes
  to the registry found there with the names cut, and the answer gets them back. The resolver and Go's URL parser are arguments. In this theory the order of a map
  of labels does not matter.
\<close>

section \<open>Looking up a domain\<close>

text \<open>The resolver gives ports of services and addresses of hosts; the parser gives the host and the port of a URL.\<close>

record 'u dns_resolver =
  LookupSRV :: "string \<Rightarrow> nsm_error + nat list"
  LookupIPAddr :: "string \<Rightarrow> nsm_error + IP list"
  url_hostport :: "string \<Rightarrow> (string \<times> string) option"
  url_parse :: "string \<Rightarrow> 'u option"

definition parseIPPort :: "'u dns_resolver \<Rightarrow> string \<Rightarrow> (IP \<times> string) option" where
  "parseIPPort r domain =
     (case url_hostport r domain of
        None \<Rightarrow> None
      | Some (host, port) \<Rightarrow> (case ParseIP host of None \<Rightarrow> None | Some ip \<Rightarrow> if port = [] then None else Some (ip, port)))"

definition urlText :: "string \<Rightarrow> string \<Rightarrow> string" where
  "urlText ip port =
     (if 2 \<le> length (filter (\<lambda>c. c = CHR '':'') ip) then ''tcp://['' @ ip @ '']:'' @ port else ''tcp://'' @ ip @ '':'' @ port)"

definition formatURL :: "'u dns_resolver \<Rightarrow> string \<Rightarrow> string \<Rightarrow> nsm_error + 'u" where
  "formatURL r ip port = (case url_parse r (urlText ip port) of None \<Rightarrow> Inl (Err ''failed to parse url'') | Some u \<Rightarrow> Inr u)"

definition resolveDomain :: "string \<Rightarrow> string \<Rightarrow> 'u dns_resolver \<Rightarrow> nsm_error + 'u" where
  "resolveDomain service domain r =
     (case parseIPPort r domain of
        Some (ip, port) \<Rightarrow> formatURL r (IP_String ip) port
      | None \<Rightarrow>
          let serviceDomain = service @ ''.'' @ domain in
          (case LookupSRV r serviceDomain of
             Inl e \<Rightarrow> Inl e
           | Inr [] \<Rightarrow> Inl (Err ''resolver.LookupSERV return empty result'')
           | Inr (port # _) \<Rightarrow>
               (case LookupIPAddr r serviceDomain of
                  Inl e \<Rightarrow> Inl e
                | Inr [] \<Rightarrow> Inl (Err ''resolver.LookupIPAddr return empty result'')
                | Inr (ip # _) \<Rightarrow> formatURL r (IP_String ip) (print_nat port))))"

section \<open>Network services\<close>

text \<open>The rest of the chain is called with the URL that was found. The server and the client of the source do the same.\<close>

definition DefaultRegistryService :: string where
  "DefaultRegistryService = ''registry.nsm-system''"

definition DefaultNsmgrProxyService :: string where
  "DefaultNsmgrProxyService = ''nsmgr-proxy.nsm-system''"

definition dnsNS_Register ::
  "string \<Rightarrow> 'u dns_resolver \<Rightarrow> ('u \<Rightarrow> (NetworkServiceMsg, 's) reg_call) \<Rightarrow> (NetworkServiceMsg, 's) reg_call" where
  "dnsNS_Register service r nxt ns s =
     (let domain = interdomain_Domain (ns_name ns) in
      case resolveDomain service domain r of
        Inl e \<Rightarrow> (Inl e, s)
      | Inr u \<Rightarrow>
          (case nxt u (ns\<lparr>ns_name := interdomain_Target (ns_name ns)\<rparr>) s of
             (Inl e, s) \<Rightarrow> (Inl e, s)
           | (Inr resp, s) \<Rightarrow> (Inr (resp\<lparr>ns_name := interdomain_Join [ns_name resp, domain]\<rparr>), s)))"

definition dnsNS_Unregister ::
  "string \<Rightarrow> 'u dns_resolver \<Rightarrow> ('u \<Rightarrow> (NetworkServiceMsg, 's) unreg_call) \<Rightarrow> (NetworkServiceMsg, 's) unreg_call" where
  "dnsNS_Unregister service r nxt ns s =
     (case resolveDomain service (interdomain_Domain (ns_name ns)) r of
        Inl e \<Rightarrow> (Inl e, s)
      | Inr u \<Rightarrow> nxt u (ns\<lparr>ns_name := interdomain_Target (ns_name ns)\<rparr>) s)"

text \<open>A search hands every answer on with its full name.\<close>

type_synonym 's ns_send = "NetworkServiceMsg \<Rightarrow> 's \<Rightarrow> nsm_error option \<times> 's"
type_synonym 's ns_find = "'s ns_send \<Rightarrow> NetworkServiceMsg \<Rightarrow> 's \<Rightarrow> nsm_error option \<times> 's"

definition dnsFindNS_Send :: "string \<Rightarrow> 's ns_send \<Rightarrow> 's ns_send" where
  "dnsFindNS_Send domain send resp = send (resp\<lparr>ns_name := interdomain_Join [ns_name resp, domain]\<rparr>)"

definition dnsNS_Find :: "string \<Rightarrow> 'u dns_resolver \<Rightarrow> ('u \<Rightarrow> 's ns_find) \<Rightarrow> 's ns_find" where
  "dnsNS_Find service r nxt send q s =
     (let domain = interdomain_Domain (ns_name q) in
      if domain = [] then (Some (Err ''domain cannot be empty''), s)
      else (case resolveDomain service domain r of
              Inl e \<Rightarrow> (Some e, s)
            | Inr u \<Rightarrow> nxt u (dnsFindNS_Send domain send) (q\<lparr>ns_name := interdomain_Target (ns_name q)\<rparr>) s))"

section \<open>Endpoints\<close>

text \<open>The names and the services of an endpoint are translated, and the labels move with the names of their services.\<close>

fun translateServices ::
  "(string \<Rightarrow> string) \<Rightarrow> string list \<Rightarrow> (string \<times> labels) list option \<Rightarrow> (string \<times> labels) list option" where
  "translateServices translator [] m = m"
| "translateServices translator (service # ss) m =
     translateServices translator ss
       (case Option.bind m (\<lambda>l. map_of l service) of
          None \<Rightarrow> m
        | Some x \<Rightarrow> map_option (\<lambda>l. AList.update (translator service) x (AList.delete service l)) m)"

definition service_names :: "NetworkServiceEndpoint \<Rightarrow> string list" where
  "service_names nse = (case NetworkServiceNames nse of None \<Rightarrow> [] | Some ns \<Rightarrow> ns)"

definition translateNSE :: "(string \<Rightarrow> string) \<Rightarrow> NetworkServiceEndpoint \<Rightarrow> NetworkServiceEndpoint" where
  "translateNSE translator nse =
     nse\<lparr>nse_name := translator (nse_name nse), NetworkServiceNames := map_option (map translator) (NetworkServiceNames nse),
         NetworkServiceLabels := translateServices translator (service_names nse) (NetworkServiceLabels nse)\<rparr>"

text \<open>The domain of the first name that has one.\<close>

definition resolveNSE :: "NetworkServiceEndpoint \<Rightarrow> string" where
  "resolveNSE nse = (case find interdomain_Is (nse_name nse # service_names nse) of None \<Rightarrow> [] | Some name \<Rightarrow> interdomain_Domain name)"

definition join_domain :: "string \<Rightarrow> string \<Rightarrow> string" where
  "join_domain domain s = interdomain_Join [s, domain]"

definition dnsNSE_Register ::
  "string \<Rightarrow> 'u dns_resolver \<Rightarrow> ('u \<Rightarrow> (NetworkServiceEndpoint, 's) reg_call) \<Rightarrow> (NetworkServiceEndpoint, 's) reg_call" where
  "dnsNSE_Register service r nxt nse s =
     (let domain = resolveNSE nse in
      case resolveDomain service domain r of
        Inl e \<Rightarrow> (Inl e, s)
      | Inr u \<Rightarrow>
          (case nxt u (translateNSE interdomain_Target nse) s of
             (Inl e, s) \<Rightarrow> (Inl e, s)
           | (Inr resp, s) \<Rightarrow> (Inr (translateNSE (join_domain domain) resp), s)))"

definition dnsNSEServer_Unregister ::
  "string \<Rightarrow> 'u dns_resolver \<Rightarrow> ('u \<Rightarrow> (NetworkServiceEndpoint, 's) unreg_call) \<Rightarrow> (NetworkServiceEndpoint, 's) unreg_call" where
  "dnsNSEServer_Unregister service r nxt nse s =
     (case resolveDomain service (resolveNSE nse) r of
        Inl e \<Rightarrow> (Inl e, s)
      | Inr u \<Rightarrow> nxt u (translateNSE interdomain_Target nse) s)"

text \<open>
  The client looks for the element after it among the servers of the context, not among the clients: \<open>client\<close> is the rest of the chain of clients, \<open>server\<close> that of
  the servers (the tail if there is none).
\<close>

definition dnsNSEClient_Unregister ::
  "string \<Rightarrow> 'u dns_resolver \<Rightarrow> ('u \<Rightarrow> (NetworkServiceEndpoint, 's) unreg_call) \<Rightarrow> ('u \<Rightarrow> (NetworkServiceEndpoint, 's) unreg_call) \<Rightarrow>
   (NetworkServiceEndpoint, 's) unreg_call" where
  "dnsNSEClient_Unregister service r client server nse s =
     (case resolveDomain service (resolveNSE nse) r of
        Inl e \<Rightarrow> (Inl e, s)
      | Inr u \<Rightarrow> server u (translateNSE interdomain_Target nse) s)"

text \<open>A search of the server also gives the endpoints the URL of the domain's manager proxy, if that can be looked up.\<close>

definition dnsFindNSE_Send :: "('u \<Rightarrow> string) \<Rightarrow> string \<Rightarrow> 'u option \<Rightarrow> 's nse_send \<Rightarrow> 's nse_send" where
  "dnsFindNSE_Send url_String domain nseURL send resp =
     (let nse = translateNSE (join_domain domain) (r_nse resp)
      in send (resp\<lparr>r_nse := (case nseURL of None \<Rightarrow> nse | Some u \<Rightarrow> nse\<lparr>Url := url_String u\<rparr>)\<rparr>))"

definition dnsNSEServer_Find ::
  "('u \<Rightarrow> string) \<Rightarrow> string \<Rightarrow> string \<Rightarrow> 'u dns_resolver \<Rightarrow> ('u \<Rightarrow> 's nse_find) \<Rightarrow> 's nse_find" where
  "dnsNSEServer_Find url_String service proxyService r nxt send q s =
     (let domain = resolveNSE (q_nse q) in
      case resolveDomain service domain r of
        Inl e \<Rightarrow> (Some e, s)
      | Inr u \<Rightarrow>
          let proxy = (case resolveDomain proxyService domain r of Inl e \<Rightarrow> None | Inr p \<Rightarrow> Some p)
          in nxt u (dnsFindNSE_Send url_String domain proxy send) (q\<lparr>q_nse := translateNSE interdomain_Target (q_nse q)\<rparr>) s)"

definition dnsNSEClient_Find :: "string \<Rightarrow> 'u dns_resolver \<Rightarrow> ('u \<Rightarrow> 's nse_find) \<Rightarrow> 's nse_find" where
  "dnsNSEClient_Find service r nxt send q s =
     (let domain = resolveNSE (q_nse q) in
      case resolveDomain service domain r of
        Inl e \<Rightarrow> (Some e, s)
      | Inr u \<Rightarrow>
          nxt u (\<lambda>resp. send (resp\<lparr>r_nse := translateNSE (join_domain domain) (r_nse resp)\<rparr>)) (q\<lparr>q_nse := translateNSE interdomain_Target (q_nse q)\<rparr>) s)"

section \<open>Cutting and restoring names\<close>

lemma join_Target: "interdomain_Is s \<Longrightarrow> join_domain (interdomain_Domain s) (interdomain_Target s) = s"
proof -
  assume "interdomain_Is s"
  then obtain a b where s: "s = a @ CHR ''@'' # b" "CHR ''@'' \<notin> set a" unfolding interdomain_Is_def by (metis split_list_first)
  then show ?thesis by (simp add: join_domain_def interdomain_Domain_def interdomain_Target_def takeWhile_append dropWhile_append)
qed

lemma Target_no_domain: "\<not> interdomain_Is (interdomain_Target s)"
  by (auto simp: interdomain_Is_def interdomain_Target_def dest: set_takeWhileD)

lemma join_domain_Is: "interdomain_Is (join_domain d s)"
  by (simp add: join_domain_def interdomain_Is_def)

text \<open>Labels as a map; a nil map has none.\<close>

definition labels_map :: "(string \<times> labels) list option \<Rightarrow> string \<rightharpoonup> labels" where
  "labels_map m k = Option.bind m (\<lambda>l. map_of l k)"

lemma labels_map_step:
  "labels_map (case labels_map m s of None \<Rightarrow> m | Some x \<Rightarrow> map_option (\<lambda>l. AList.update (f s) x (AList.delete s l)) m) =
    (case labels_map m s of None \<Rightarrow> labels_map m | Some x \<Rightarrow> (labels_map m)(s := None, f s \<mapsto> x))"
  by (cases m) (auto simp: labels_map_def fun_eq_iff update_conv' delete_conv' split: option.split)

text \<open>If the translation keeps the services apart and away from the old names, the labels move with the names.\<close>

lemma translateServices_map:
  assumes "inj_on f (set ss)" "f ` set ss \<inter> set ss = {}" "distinct ss"
  shows "(\<forall>s\<in>set ss. labels_map (translateServices f ss m) s = None) \<and>
    (\<forall>s\<in>set ss. labels_map (translateServices f ss m) (f s) = (case labels_map m s of None \<Rightarrow> labels_map m (f s) | Some l \<Rightarrow> Some l)) \<and>
    (\<forall>k. k \<notin> set ss \<union> f ` set ss \<longrightarrow> labels_map (translateServices f ss m) k = labels_map m k)"
  using assms
proof (induction ss arbitrary: m)
  case (Cons s ss)
  let ?m = "case labels_map m s of None \<Rightarrow> m | Some x \<Rightarrow> map_option (\<lambda>l. AList.update (f s) x (AList.delete s l)) m"
  have m: "labels_map ?m = (case labels_map m s of None \<Rightarrow> labels_map m | Some x \<Rightarrow> (labels_map m)(s := None, f s \<mapsto> x))" by (rule labels_map_step)
  have ne: "f s \<noteq> s" "f s \<notin> set ss" "s \<notin> set ss" "s \<notin> f ` set ss" "f s \<notin> f ` set ss" using Cons.prems by (auto simp: inj_on_def)
  have other: "labels_map ?m t = labels_map m t" if "t \<noteq> s" "t \<noteq> f s" for t using that m by (auto split: option.split)
  have own: "labels_map ?m s = None" "labels_map ?m (f s) = (case labels_map m s of None \<Rightarrow> labels_map m (f s) | Some l \<Rightarrow> Some l)"
    using ne(1) m by (auto split: option.split)
  have step: "translateServices f (s # ss) m = translateServices f ss ?m" by (simp add: labels_map_def)
  have ih: "\<forall>t\<in>set ss. labels_map (translateServices f ss ?m) t = None"
      "\<forall>t\<in>set ss. labels_map (translateServices f ss ?m) (f t) = (case labels_map ?m t of None \<Rightarrow> labels_map ?m (f t) | Some l \<Rightarrow> Some l)"
      "\<forall>k. k \<notin> set ss \<union> f ` set ss \<longrightarrow> labels_map (translateServices f ss ?m) k = labels_map ?m k"
    using Cons.IH [of ?m] Cons.prems by auto
  have keep: "labels_map ?m t = labels_map m t" "labels_map ?m (f t) = labels_map m (f t)" if "t \<in> set ss" for t
  proof -
    have "f t \<noteq> f s" "f t \<noteq> s" using that ne(4,5) by (metis imageI)+
    moreover have "t \<noteq> s" "t \<noteq> f s" using that ne(2,3) by auto
    ultimately show "labels_map ?m t = labels_map m t" "labels_map ?m (f t) = labels_map m (f t)" by (simp_all only: other not_False_eq_True)
  qed
  have "labels_map (translateServices f ss ?m) (f t) = (case labels_map m t of None \<Rightarrow> labels_map m (f t) | Some l \<Rightarrow> Some l)" if "t \<in> set ss" for t
    using ih(2) that unfolding keep [OF that, symmetric] by blast
  with ih(1,3) ne other own show ?case unfolding step by auto
qed simp

text \<open>
  C26. An endpoint whose name and services are all of one domain is registered there with its names cut, and a registry that answers with what it was
  given gives back the names and the labels the endpoint had.
\<close>

theorem dnsNSE_roundtrip:
  assumes "\<forall>n\<in>set (nse_name nse # service_names nse). interdomain_Is n \<and> interdomain_Domain n = d" "distinct (service_names nse)"
    and "dom (labels_map (NetworkServiceLabels nse)) \<subseteq> set (service_names nse)"
    and "resolveDomain service d r = Inr u"
    and "nxt u (translateNSE interdomain_Target nse) s = (Inr (translateNSE interdomain_Target nse), s')"
  shows "\<exists>resp. dnsNSE_Register service r nxt nse s = (Inr resp, s') \<and> nse_name resp = nse_name nse \<and>
    NetworkServiceNames resp = NetworkServiceNames nse \<and> labels_map (NetworkServiceLabels resp) = labels_map (NetworkServiceLabels nse)"
proof -
  let ?ss = "service_names nse" and ?T = interdomain_Target and ?J = "join_domain d" and ?m = "NetworkServiceLabels nse"
  let ?x = "translateNSE ?T nse" and ?m1 = "translateServices ?T ?ss ?m"
  let ?m2 = "translateServices ?J (map ?T ?ss) ?m1"
  have d: "resolveNSE nse = d" using assms(1) by (simp add: resolveNSE_def)
  have whole: "?J (?T n) = n" if "n \<in> set (nse_name nse # ?ss)" for n using assms(1) that join_Target by metis
  have x: "service_names ?x = map ?T ?ss" "NetworkServiceLabels ?x = ?m1"
    by (simp_all add: translateNSE_def service_names_def split: option.split)
  have inj: "inj_on ?T (set ?ss)" by (rule inj_on_inverseI [of _ ?J]) (use whole in simp)
  have apart: "?T ` set ?ss \<inter> set ?ss = {}" using assms(1) Target_no_domain by auto
  have injJ: "inj_on ?J (set (map ?T ?ss))" by (rule inj_on_inverseI [of _ ?T]) (use whole in auto)
  have apartJ: "?J ` set (map ?T ?ss) \<inter> set (map ?T ?ss) = {}" using join_domain_Is Target_no_domain by (auto, metis)
  have dist: "distinct (map ?T ?ss)" using assms(2) inj by (simp add: distinct_map)
  note first = translateServices_map [OF inj apart assms(2), of ?m] and second = translateServices_map [OF injJ apartJ dist, of ?m1]
  have "labels_map ?m2 k = labels_map ?m k" for k
  proof (cases "k \<in> set ?ss")
    case True
    then have k: "?T k \<in> set (map ?T ?ss)" "?J (?T k) = k" using whole by auto
    have none: "labels_map ?m (?T k) = None" using assms(3) apart True by auto
    have "labels_map ?m1 k = None" "labels_map ?m1 (?T k) = labels_map ?m k" using first True none by (auto split: option.split)
    then show ?thesis using second k by (force split: option.split)
  next
    case False
    then have none: "labels_map ?m k = None" using assms(3) by blast
    show ?thesis
    proof (cases "k \<in> ?T ` set ?ss")
      case True
      then show ?thesis using second none by auto
    next
      case kT: False
      have "?J ` set (map ?T ?ss) = set ?ss" using whole by force
      then have "labels_map ?m2 k = labels_map ?m1 k" using second False kT by auto
      then show ?thesis using first False kT by auto
    qed
  qed
  then have labels: "labels_map ?m2 = labels_map ?m" by (rule ext)
  let ?resp = "translateNSE ?J ?x"
  have names: "nse_name ?resp = nse_name nse" "NetworkServiceNames ?resp = NetworkServiceNames nse"
    using whole by (cases "NetworkServiceNames nse"; auto simp: translateNSE_def service_names_def comp_def intro!: map_idI)+
  have "NetworkServiceLabels ?resp = ?m2" using x by (simp add: translateNSE_def)
  then show ?thesis using d assms(4,5) names labels by (simp add: dnsNSE_Register_def)
qed

text \<open>The client never reaches the clients after it when it unregisters: what they would do does not matter.\<close>

lemma dnsNSEClient_skips_clients:
  "dnsNSEClient_Unregister service r client server = dnsNSEClient_Unregister service r client' server"
  by (simp add: dnsNSEClient_Unregister_def fun_eq_iff)

text \<open>A network service is registered, found and unregistered at the same registry, and shown under its full name.\<close>

lemma dnsNS_Register_name:
  assumes "interdomain_Is (ns_name ns)" "dnsNS_Register service r nxt ns s = (Inr resp, s')" "\<And>u x s y s'. nxt u x s = (Inr y, s') \<Longrightarrow> ns_name y = ns_name x"
  shows "ns_name resp = ns_name ns"
  using assms join_Target [OF assms(1)]
  by (auto simp: dnsNS_Register_def join_domain_def Let_def split: sum.splits prod.splits)

section \<open>Witness\<close>

definition one_host :: "string dns_resolver" where
  "one_host = \<lparr>LookupSRV = (\<lambda>_. Inr [80]), LookupIPAddr = (\<lambda>_. Inr [[10, 0, 0, 1]]), url_hostport = (\<lambda>_. None), url_parse = Some\<rparr>"

definition far_nse :: NetworkServiceEndpoint where
  "far_nse = empty_nse\<lparr>nse_name := ''e@d.x'', NetworkServiceNames := Some [''a@d.x'', ''b@d.x''], NetworkServiceLabels := Some [(''a@d.x'', [(''k'', ''v'')])]\<rparr>"

lemma one_host_url: "resolveDomain ''registry'' ''d.x'' one_host = Inr ''tcp://10.0.0.1:80''"
  by code_simp

lemma dnsNSE_roundtrip_witness:
  "\<exists>resp. dnsNSE_Register ''registry'' one_host (\<lambda>u x s. (Inr x, s @ [u])) far_nse [] = (Inr resp, [''tcp://10.0.0.1:80'']) \<and> nse_name resp = ''e@d.x''"
proof -
  have 1: "\<forall>n\<in>set (nse_name far_nse # service_names far_nse). interdomain_Is n \<and> interdomain_Domain n = ''d.x''"
    by (simp add: far_nse_def service_names_def interdomain_Is_def interdomain_Domain_def)
  have 2: "distinct (service_names far_nse)" "dom (labels_map (NetworkServiceLabels far_nse)) \<subseteq> set (service_names far_nse)"
    by (auto simp: far_nse_def service_names_def labels_map_def split: if_splits)
  show ?thesis
    using dnsNSE_roundtrip [OF 1 2 one_host_url, of "\<lambda>u x s. (Inr x, s @ [u])" "[]" "[''tcp://10.0.0.1:80'']"] by (auto simp: far_nse_def)
qed

end
