(* ===== verification/Registry_Heal.thy ===== *)
theory Registry_Heal
  imports Registry_Api "HOL-Library.Multiset"
begin

text \<open>
  Healing of registrations and searches (\<^verbatim>\<open>registry/common/heal\<close>). A registered endpoint or service is watched, and registered again when its watch
  breaks; a search that watches opens a new stream when its stream breaks. The elements for endpoints and for network services differ in the message
  only.
\<close>

section \<open>Watched registrations\<close>

text \<open>
  The contexts of the watches are numbered. \<open>watch\<close> is the map of cancel functions, \<open>receiving\<close> the goroutines that wait on a stream, each with its
  context and the registration of the call that started it; \<open>again\<close> what they asked \<^verbatim>\<open>begin\<close> to register again.
\<close>

record 'r heal_registry =
  watch :: "string \<rightharpoonup> nat"
  ended :: "nat set"
  receiving :: "(nat \<times> 'r) list"
  again :: "(nat \<times> 'r) list"
  next_ctx :: nat

definition newHealClient :: "'r heal_registry" where
  "newHealClient = \<lparr>watch = Map.empty, ended = {}, receiving = [], again = [], next_ctx = 0\<rparr>"

definition cancel_watch :: "string \<Rightarrow> 'r heal_registry \<Rightarrow> 'r heal_registry" where
  "cancel_watch name h =
     (case watch h name of None \<Rightarrow> h | Some i \<Rightarrow> h\<lparr>watch := (watch h)(name := None), ended := insert i (ended h)\<rparr>)"

text \<open>The search that opens the stream is given the context and the name, and may fail.\<close>

definition heal_Register ::
  "('r \<Rightarrow> string) \<Rightarrow> ('r \<Rightarrow> 's \<Rightarrow> (nsm_error + 'r) \<times> 's) \<Rightarrow> (nat \<Rightarrow> string \<Rightarrow> 's \<Rightarrow> nsm_error option \<times> 's) \<Rightarrow>
   'r \<Rightarrow> 'r heal_registry \<times> 's \<Rightarrow> (nsm_error + 'r) \<times> 'r heal_registry \<times> 's" where
  "heal_Register key nxt search r = (\<lambda>(h, s).
     case nxt r s of
       (Inl e, s) \<Rightarrow> (Inl e, h, s)
     | (Inr resp, s) \<Rightarrow>
         let h = cancel_watch (key r) h; i = next_ctx h; h = h\<lparr>next_ctx := i + 1\<rparr> in
         (case search i (key r) s of
            (Some e, s) \<Rightarrow> (Inl e, h\<lparr>ended := insert i (ended h)\<rparr>, s)
          | (None, s) \<Rightarrow> (Inr resp, h\<lparr>watch := (watch h)(key r \<mapsto> i), receiving := receiving h @ [(i, r)]\<rparr>, s)))"

definition heal_Unregister ::
  "('r \<Rightarrow> string) \<Rightarrow> ('r \<Rightarrow> 's \<Rightarrow> (nsm_error + unit) \<times> 's) \<Rightarrow> 'r \<Rightarrow> 'r heal_registry \<times> 's \<Rightarrow> (nsm_error + unit) \<times> 'r heal_registry \<times> 's" where
  "heal_Unregister key nxt r = (\<lambda>(h, s). let h = cancel_watch (key r) h in case nxt r s of (res, s) \<Rightarrow> (res, h, s))"

text \<open>A stream breaks, of itself or because its context ended: the goroutine asks for a registration and ends.\<close>

definition stream_broken :: "nat \<times> 'r \<Rightarrow> 'r heal_registry \<Rightarrow> 'r heal_registry" where
  "stream_broken w h = h\<lparr>receiving := remove1 w (receiving h), again := again h @ [w]\<rparr>"

text \<open>\<^verbatim>\<open>begin\<close> drops an event whose context has ended.\<close>

definition effective :: "'r heal_registry \<Rightarrow> nat \<times> 'r \<Rightarrow> bool" where
  "effective h w \<longleftrightarrow> fst w \<notin> ended h"

section \<open>One watch for each name\<close>

text \<open>Any calls with any outcomes, breaks of streams and changes of the world, in any order.\<close>

inductive heal_step ::
  "('r \<Rightarrow> string) \<Rightarrow> ('r \<Rightarrow> 's \<Rightarrow> (nsm_error + 'r) \<times> 's) \<Rightarrow> (nat \<Rightarrow> string \<Rightarrow> 's \<Rightarrow> nsm_error option \<times> 's) \<Rightarrow> ('r \<Rightarrow> 's \<Rightarrow> (nsm_error + unit) \<times> 's) \<Rightarrow>
   'r heal_registry \<times> 's \<Rightarrow> 'r heal_registry \<times> 's \<Rightarrow> bool" for key nxt search unreg where
  register: "heal_Register key nxt search r st = (res, st') \<Longrightarrow> heal_step key nxt search unreg st st'"
| unregister: "heal_Unregister key unreg r st = (res, st') \<Longrightarrow> heal_step key nxt search unreg st st'"
| broken: "w \<in> set (receiving h) \<Longrightarrow> heal_step key nxt search unreg (h, s) (stream_broken w h, s)"
| world: "heal_step key nxt search unreg (h, s) (h, s')"

definition goroutines :: "'r heal_registry \<Rightarrow> (nat \<times> 'r) list" where
  "goroutines h = receiving h @ again h"

definition heal_inv :: "('r \<Rightarrow> string) \<Rightarrow> 'r heal_registry \<Rightarrow> bool" where
  "heal_inv key h \<longleftrightarrow>
     distinct (map fst (goroutines h)) \<and> (\<forall>i\<in>ended h \<union> fst ` set (goroutines h). i < next_ctx h) \<and>
     (\<forall>(i, r)\<in>set (goroutines h). i \<in> ended h \<or> watch h (key r) = Some i) \<and>
     (\<forall>n i. watch h n = Some i \<longrightarrow> i \<notin> ended h \<and> (\<exists>r. key r = n \<and> (i, r) \<in> set (goroutines h)))"

lemma heal_invD:
  assumes "heal_inv key h"
  shows "distinct (map fst (goroutines h))" "i \<in> ended h \<Longrightarrow> i < next_ctx h" "(i, r) \<in> set (goroutines h) \<Longrightarrow> i < next_ctx h"
    "(i, r) \<in> set (goroutines h) \<Longrightarrow> i \<notin> ended h \<Longrightarrow> watch h (key r) = Some i"
    "watch h n = Some i \<Longrightarrow> i \<notin> ended h" "watch h n = Some i \<Longrightarrow> \<exists>r. key r = n \<and> (i, r) \<in> set (goroutines h)"
  using assms unfolding heal_inv_def by force+

lemma cancel_watch_fields [simp]:
  "receiving (cancel_watch n h) = receiving h" "again (cancel_watch n h) = again h" "next_ctx (cancel_watch n h) = next_ctx h"
  "goroutines (cancel_watch n h) = goroutines h" "watch (cancel_watch n h) = (watch h)(n := None)"
  "ended (cancel_watch n h) = ended h \<union> set_option (watch h n)"
  by (auto simp: cancel_watch_def goroutines_def split: option.split)

lemma cancel_watch_inv:
  assumes "heal_inv key h"
  shows "heal_inv key (cancel_watch n h)"
proof -
  note h = heal_invD [OF assms]
  have same: "m = n" if w: "watch h m = Some i" "watch h n = Some i" for m i
  proof -
    obtain r q where "key r = m" "(i, r) \<in> set (goroutines h)" "key q = n" "(i, q) \<in> set (goroutines h)" using h(6) w by blast
    then show ?thesis using h(1) by (metis eq_key_imp_eq_value)
  qed
  show ?thesis unfolding heal_inv_def cancel_watch_fields
  proof (intro conjI ballI allI impI)
    fix i assume "i \<in> ended h \<union> set_option (watch h n) \<union> fst ` set (goroutines h)"
    then show "i < next_ctx h" using h(2,3,6) by fastforce
  next
    fix w assume "w \<in> set (goroutines h)"
    then show "case w of (i, r) \<Rightarrow> i \<in> ended h \<union> set_option (watch h n) \<or> ((watch h)(n := None)) (key r) = Some i"
      using h(4) by (cases w) auto
  next
    fix m i assume m: "((watch h)(n := None)) m = Some i"
    then show "i \<notin> ended h \<union> set_option (watch h n)" using h(5) same by (auto split: if_splits)
    show "\<exists>r. key r = m \<and> (i, r) \<in> set (goroutines h)" using h(6) m by (auto split: if_splits)
  qed (rule h(1))
qed

lemma new_watch_inv:
  assumes "heal_inv key h" "watch h (key r) = None"
  shows "heal_inv key (h\<lparr>next_ctx := next_ctx h + 1, ended := insert (next_ctx h) (ended h)\<rparr>)"
    "heal_inv key (h\<lparr>next_ctx := next_ctx h + 1, watch := (watch h)(key r \<mapsto> next_ctx h), receiving := receiving h @ [(next_ctx h, r)]\<rparr>)"
proof -
  note h = heal_invD [OF assms(1)]
  have fresh: "next_ctx h \<notin> ended h" "next_ctx h \<notin> fst ` set (goroutines h)" using h(2,3) by force+
  have used: "watch h n = Some i \<Longrightarrow> i \<noteq> next_ctx h" for n i using h(6) fresh(2) by force
  have own: "(i, q) \<in> set (receiving h) \<Longrightarrow> key q = key r \<Longrightarrow> i \<in> ended h" "(i, q) \<in> set (again h) \<Longrightarrow> key q = key r \<Longrightarrow> i \<in> ended h"
    for i q using h(4) [of i q] assms(2) by (auto simp: goroutines_def)
  have less: "\<forall>i\<in>ended h \<union> fst ` set (goroutines h). i < next_ctx h" using h(2,3) by auto
  show "heal_inv key (h\<lparr>next_ctx := next_ctx h + 1, ended := insert (next_ctx h) (ended h)\<rparr>)"
    using h used less unfolding heal_inv_def goroutines_def by (auto simp: less_Suc_eq)
  show "heal_inv key (h\<lparr>next_ctx := next_ctx h + 1, watch := (watch h)(key r \<mapsto> next_ctx h), receiving := receiving h @ [(next_ctx h, r)]\<rparr>)"
    using h used less fresh assms(2) unfolding heal_inv_def goroutines_def by (auto simp: less_Suc_eq dest: own)
qed

lemma broken_inv:
  assumes "heal_inv key h" "w \<in> set (receiving h)"
  shows "heal_inv key (stream_broken w h)"
proof -
  have "mset (goroutines (stream_broken w h)) = mset (goroutines h)" using assms(2) by (simp add: goroutines_def stream_broken_def)
  then have "set (goroutines (stream_broken w h)) = set (goroutines h)"
      "distinct (map fst (goroutines (stream_broken w h))) = distinct (map fst (goroutines h))"
    by (auto dest: mset_eq_setD) (metis mset_map mset_eq_imp_distinct_iff)+
  then show ?thesis using assms(1) unfolding heal_inv_def by (simp add: stream_broken_def)
qed

lemma distinct_singleton: "distinct xs \<Longrightarrow> set xs = {x} \<Longrightarrow> xs = [x]"
  by (cases xs; cases "tl xs") auto

lemma heal_step_inv:
  assumes "heal_step key nxt search unreg st st'" "heal_inv key (fst st)"
  shows "heal_inv key (fst st')"
  using assms
proof (cases rule: heal_step.cases)
  case (register r res)
  obtain h s where st: "st = (h, s)" by fastforce
  have c: "heal_inv key (cancel_watch (key r) h)" using cancel_watch_inv assms(2) st by simp
  have "watch (cancel_watch (key r) h) (key r) = None" by simp
  note new = new_watch_inv [OF c this]
  show ?thesis using register st assms(2) new
    by (auto simp: heal_Register_def Let_def simp del: cancel_watch_fields(5,6) split: sum.splits prod.splits option.splits)
next
  case (unregister r res)
  then show ?thesis using assms(2) cancel_watch_inv by (cases st) (auto simp: heal_Unregister_def Let_def split: prod.splits)
next
  case (broken w h s)
  then show ?thesis using assms(2) broken_inv by simp
qed auto


text \<open>Removing a name ends its watch. A registration whose watch cannot be opened stands, but is reported as failed and is not watched.\<close>

lemma unregister_ends_watch: "heal_Unregister key unreg r (h, s) = (res, h', s') \<Longrightarrow> watch h' (key r) = None"
  by (auto simp: heal_Unregister_def Let_def split: prod.splits)

lemma unwatched_registration:
  assumes "nxt r s = (Inr resp, s1)" "search (next_ctx h) (key r) s1 = (Some e, s2)"
  shows "\<exists>h'. heal_Register key nxt search r (h, s) = (Inl e, h', s2) \<and> watch h' (key r) = None"
  using assms by (simp add: heal_Register_def Let_def)

section \<open>Healed searches\<close>

text \<open>
  A stream is the list of what it gives before it breaks. The outcomes of the attempts to open a new one, each with whether the context is done afterwards, are
  an argument; while they last the client goes on trying.
\<close>

record 'm healFindClient =
  find_err :: bool
  stream :: "'m list"

fun open_stream :: "('m list option \<times> bool) list \<Rightarrow> ((nsm_error + 'm) \<times> 'm healFindClient \<times> ('m list option \<times> bool) list) option" where
  "open_stream [] = None"
| "open_stream ((outcome, done) # env) =
     (if done then Some (Inl (Err ''context is done''), \<lparr>find_err = True, stream = []\<rparr>, env)
      else case outcome of
        Some (m # ms) \<Rightarrow> Some (Inr m, \<lparr>find_err = False, stream = ms\<rparr>, env)
      | _ \<Rightarrow> open_stream env)"

definition healFind_Recv ::
  "'m healFindClient \<Rightarrow> ('m list option \<times> bool) list \<Rightarrow> ((nsm_error + 'm) \<times> 'm healFindClient \<times> ('m list option \<times> bool) list) option" where
  "healFind_Recv c env =
     (if find_err c then Some (Inl (Err ''context is done''), c, env)
      else case stream c of
        m # ms \<Rightarrow> Some (Inr m, c\<lparr>stream := ms\<rparr>, env)
      | [] \<Rightarrow> open_stream env)"

text \<open>
  The search itself: one that does not watch, or comes from the healing of another such element, gets the stream of the rest of the chain as it is; the context
  of the searches that heal is marked.
\<close>

definition withFindHealing :: "string \<Rightarrow> string set \<Rightarrow> string set" where
  "withFindHealing key ctx = insert key ctx"

definition isFindHealing :: "string \<Rightarrow> string set \<Rightarrow> bool" where
  "isFindHealing key ctx \<longleftrightarrow> key \<in> ctx"

datatype 'm find_stream = Plain "'m list" | Healed "'m healFindClient"

definition heal_Find ::
  "string \<Rightarrow> (string set \<Rightarrow> 's \<Rightarrow> (nsm_error + 'm list) \<times> 's) \<Rightarrow> bool \<Rightarrow> string set \<Rightarrow> 's \<Rightarrow> (nsm_error + 'm find_stream) \<times> 's" where
  "heal_Find key nxt watching ctx s =
     (case nxt ctx s of
        (Inl e, s) \<Rightarrow> (Inl e, s)
      | (Inr ms, s) \<Rightarrow> (Inr (if \<not> watching \<or> isFindHealing key ctx then Plain ms else Healed \<lparr>find_err = False, stream = ms\<rparr>), s))"

lemma healing_is_not_healed: "fst (heal_Find key nxt True (withFindHealing key ctx) s) \<noteq> Inr (Healed c)"
  by (simp add: heal_Find_def isFindHealing_def withFindHealing_def split: prod.split sum.split)

text \<open>What is still to come, if the context is never done.\<close>

definition given :: "('m list option \<times> bool) list \<Rightarrow> 'm list" where
  "given env = concat (map (\<lambda>(outcome, _). case outcome of None \<Rightarrow> [] | Some ms \<Rightarrow> ms) env)"

definition to_come :: "'m healFindClient \<Rightarrow> ('m list option \<times> bool) list \<Rightarrow> 'm list" where
  "to_come c env = stream c @ given env"

lemma given_simps [simp]: "given [] = []" "given ((None, b) # env) = given env" "given ((Some ms, b) # env) = ms @ given env"
  by (simp_all add: given_def)

lemma healFind_delivers:
  assumes "\<not> find_err c" "\<forall>(_, done)\<in>set env. \<not> done"
  shows "case healFind_Recv c env of
      None \<Rightarrow> to_come c env = []
    | Some (r, c', env') \<Rightarrow> \<not> find_err c' \<and> (\<exists>m. r = Inr m \<and> to_come c env = m # to_come c' env') \<and> (\<forall>(_, done)\<in>set env'. \<not> done)"
proof (cases "stream c")
  case Nil
  have "case open_stream env of
      None \<Rightarrow> given env = []
    | Some (r, c', env') \<Rightarrow> \<not> find_err c' \<and>
        (\<exists>m. r = Inr m \<and> given env = m # to_come c' env') \<and>
        (\<forall>(_, done)\<in>set env'. \<not> done)"
    using assms(2)
  proof (induction env rule: open_stream.induct)
    case (2 outcome over env)
    have "\<not> over" "\<forall>(_, b)\<in>set env. \<not> b" using 2(3) by auto
    then show ?case using 2(1,2) by (cases outcome; cases "the outcome") (simp_all add: to_come_def cong del: option.case_cong_weak)
  qed simp
  moreover have "to_come c env = given env" using Nil by (simp add: to_come_def)
  ultimately show ?thesis using Nil assms(1) by (simp add: healFind_Recv_def cong del: option.case_cong_weak)
qed (use assms in \<open>simp add: healFind_Recv_def to_come_def\<close>)

text \<open>
  The new stream starts with what is registered then. What was removed while there was no stream is never reported as removed: the names a client believes to be
  there keep it.
\<close>

fun believed :: "(string \<times> bool) list \<Rightarrow> string set \<Rightarrow> string set" where
  "believed [] names = names"
| "believed ((n, deleted) # ms) names = believed ms (if deleted then names - {n} else insert n names)"

lemma missed_removal:
  "believed (to_come \<lparr>find_err = False, stream = [(''nse'', False)]\<rparr> [(Some [(''other'', False)], False)]) {} = {''nse'', ''other''}"
  by (simp add: to_come_def insert_commute)

section \<open>Witness\<close>

definition heal_run_result :: "string heal_registry" where
  "heal_run_result = \<lparr>watch = [''a'' \<mapsto> 1], ended = {0}, receiving = [(1, ''a'')], again = [(0, ''a'')], next_ctx = 2\<rparr>"

text \<open>A name is registered, registered again, and the first stream breaks.\<close>

lemma heal_run: "(heal_step (\<lambda>r. r) (\<lambda>r s. (Inr r, s)) (\<lambda>i n s. (None, s)) (\<lambda>r s. (Inr (), s)))\<^sup>*\<^sup>* (newHealClient, ()) (heal_run_result, ())"
  (is "?step\<^sup>*\<^sup>* _ _")
proof -
  let ?h1 = "\<lparr>watch = [''a'' \<mapsto> 0], ended = {}, receiving = [(0, ''a'')], again = [], next_ctx = 1\<rparr>"
  let ?h2 = "\<lparr>watch = [''a'' \<mapsto> 1], ended = {0}, receiving = [(0, ''a''), (1, ''a'')], again = [], next_ctx = 2\<rparr>"
  have 1: "?step (newHealClient, ()) (?h1, ())"
    by (rule heal_step.register [of _ _ _ "''a''" _ "Inr ''a''"]) (simp add: heal_Register_def newHealClient_def cancel_watch_def)
  have 2: "?step (?h1, ()) (?h2, ())"
    by (rule heal_step.register [of _ _ _ "''a''" _ "Inr ''a''"]) (simp add: heal_Register_def cancel_watch_def)
  have "?step (?h2, ()) (stream_broken (0, ''a'') ?h2, ())" by (rule heal_step.broken) simp
  then have 3: "?step (?h2, ()) (heal_run_result, ())" by (simp add: stream_broken_def heal_run_result_def)
  show ?thesis
    by (rule converse_rtranclp_into_rtranclp, rule 1, rule converse_rtranclp_into_rtranclp, rule 2, rule r_into_rtranclp, rule 3)
qed


end
