(* ===== verification/Service_Monitor.thy ===== *)
theory Service_Monitor
  imports Element_Timers Match_Utils
begin

text \<open>
  \<^verbatim>\<open>networkservice/common/netsvcmonitor\<close>: for every connection a goroutine watches its network service in the registry, and asks \<^verbatim>\<open>begin\<close> to close the connection
  when its endpoint does not match the service any more.
\<close>

section \<open>One monitor\<close>

text \<open>
  What the goroutine meets, in order: its context is done before it searches, the search fails, or a stream opens. A stream brings services, each with the answer to
  the search for the connection's endpoint that follows it, until it closes, the context is done, or nothing more has come so far.
\<close>

datatype stream_end = StreamCloses | StreamDone | StillOpen

datatype monitor_attempt =
  ContextDone | FindFails | FindOpens "(NetworkServiceMsg \<times> (nsm_error + NetworkServiceEndpoint list)) list" stream_end

datatype monitor_outcome = Watching | Gone | CloseAsked

fun watch_events :: "template \<Rightarrow> Connection \<Rightarrow> (NetworkServiceMsg \<times> (nsm_error + NetworkServiceEndpoint list)) list \<Rightarrow> bool" where
  "watch_events tmpl conn [] = False"
| "watch_events tmpl conn ((netsvc, found) # es) =
     (case found of
        Inl _ \<Rightarrow> watch_events tmpl conn es
      | Inr nses \<Rightarrow>
          if nses = [] then watch_events tmpl conn es
          else if MatchEndpoint tmpl (Labels conn) netsvc nses = [] then True
          else watch_events tmpl conn es)"

fun monitorNetworkService :: "template \<Rightarrow> Connection \<Rightarrow> monitor_attempt list \<Rightarrow> monitor_outcome" where
  "monitorNetworkService tmpl conn [] = Watching"
| "monitorNetworkService tmpl conn (ContextDone # as) = Gone"
| "monitorNetworkService tmpl conn (FindFails # as) = monitorNetworkService tmpl conn as"
| "monitorNetworkService tmpl conn (FindOpens es e # as) =
     (if watch_events tmpl conn es then CloseAsked
      else case e of StreamCloses \<Rightarrow> monitorNetworkService tmpl conn as | StreamDone \<Rightarrow> Gone | StillOpen \<Rightarrow> Watching)"

text \<open>The services it hears of; one of them makes it ask for the close exactly if the endpoint is there and does not match.\<close>

fun heard :: "monitor_attempt list \<Rightarrow> (NetworkServiceMsg \<times> (nsm_error + NetworkServiceEndpoint list)) list" where
  "heard [] = []"
| "heard (ContextDone # as) = []"
| "heard (FindFails # as) = heard as"
| "heard (FindOpens es e # as) = es @ (if e = StreamCloses then heard as else [])"

lemma watch_events_iff:
  "watch_events tmpl conn es \<longleftrightarrow>
    (\<exists>(netsvc, found)\<in>set es. \<exists>nses. found = Inr nses \<and> nses \<noteq> [] \<and> MatchEndpoint tmpl (Labels conn) netsvc nses = [])"
  by (induction es) (auto split: sum.splits if_splits)

lemma monitor_asks_iff:
  "monitorNetworkService tmpl conn as = CloseAsked \<longleftrightarrow>
    (\<exists>(netsvc, found)\<in>set (heard as). \<exists>nses. found = Inr nses \<and> nses \<noteq> [] \<and> MatchEndpoint tmpl (Labels conn) netsvc nses = [])"
proof -
  have "monitorNetworkService tmpl conn as = CloseAsked \<longleftrightarrow> watch_events tmpl conn (heard as)"
    by (induction as rule: heard.induct) (auto simp: watch_events_iff split: stream_end.split)
  then show ?thesis by (simp only: watch_events_iff)
qed

text \<open>A service without matches never closes a connection, and neither does an endpoint that has gone.\<close>

lemma no_matches_no_close: "\<forall>(netsvc, found)\<in>set (heard as). Matches netsvc = [] \<or> found = Inr [] \<Longrightarrow> monitorNetworkService tmpl conn as \<noteq> CloseAsked"
  by (fastforce simp: monitor_asks_iff MatchEndpoint_def)

section \<open>The server\<close>

text \<open>
  Monitors are numbered; each has its connection and the time its context ends. The metadata of a connection hold the number of its monitor, and keep it
  after the cancellation.
\<close>

record monitorServer =
  stored :: "string \<rightharpoonup> nat"
  monitors :: "(string \<times> Connection \<times> int option) list"
  cancelled :: "nat set"

definition new_monitorServer :: monitorServer where
  "new_monitorServer = \<lparr>stored = Map.empty, monitors = [], cancelled = {}\<rparr>"

definition earliest_of :: "int \<Rightarrow> PathSegment \<Rightarrow> int" where
  "earliest_of minT seg = (let t = AsTime (seg_Expires seg) in if minT > t \<or> minT = zero_time then t else minT)"

definition minExpires :: "PathSegment list \<Rightarrow> int" where
  "minExpires segs = foldl earliest_of zero_time segs"

definition monitor_deadline :: "int \<Rightarrow> Connection \<Rightarrow> int option" where
  "monitor_deadline now conn =
     (let minT = minExpires (case conn_path conn of None \<Rightarrow> [] | Some p \<Rightarrow> PathSegments p)
      in if minT = zero_time then None else Some (now + Until now minT))"

definition cancel_monitor :: "string \<Rightarrow> monitorServer \<Rightarrow> monitorServer" where
  "cancel_monitor c M = (case stored M c of None \<Rightarrow> M | Some i \<Rightarrow> M\<lparr>cancelled := insert i (cancelled M)\<rparr>)"

definition netsvcmonitor_Request ::
  "int \<Rightarrow> string \<Rightarrow> 's request_chain \<Rightarrow> NetworkServiceRequest \<Rightarrow> monitorServer \<times> 's \<Rightarrow> (nsm_error + Connection) \<times> monitorServer \<times> 's" where
  "netsvcmonitor_Request now c nxt request = (\<lambda>(M, s).
     let M = cancel_monitor c M in
     case nxt request s of
       (Inl e, s) \<Rightarrow> (Inl e, M, s)
     | (Inr resp, s) \<Rightarrow>
         (Inr resp, M\<lparr>stored := (stored M)(c \<mapsto> length (monitors M)), monitors := monitors M @ [(c, resp, monitor_deadline now resp)]\<rparr>, s))"

definition netsvcmonitor_Close :: "string \<Rightarrow> 's close_chain \<Rightarrow> Connection \<Rightarrow> monitorServer \<times> 's \<Rightarrow> (nsm_error + unit) \<times> monitorServer \<times> 's" where
  "netsvcmonitor_Close c nxt conn = (\<lambda>(M, s). let M = cancel_monitor c M in case nxt conn s of (res, s) \<Rightarrow> (res, M, s))"

text \<open>The calls of all connections in any order, with any outcomes, while the world changes.\<close>

inductive netsvcmonitor_step :: "monitorServer \<times> 's \<Rightarrow> monitorServer \<times> 's \<Rightarrow> bool" where
  request: "netsvcmonitor_Request now c nxt r st = (res, st') \<Longrightarrow> netsvcmonitor_step st st'"
| close: "netsvcmonitor_Close c nxt conn st = (res, st') \<Longrightarrow> netsvcmonitor_step st st'"

definition monitor_inv :: "monitorServer \<Rightarrow> bool" where
  "monitor_inv M \<longleftrightarrow>
     (\<forall>c i. stored M c = Some i \<longrightarrow> i < length (monitors M) \<and> fst (monitors M ! i) = c) \<and>
     (\<forall>i<length (monitors M). i \<in> cancelled M \<or> stored M (fst (monitors M ! i)) = Some i)"

lemma cancel_monitor_inv: "monitor_inv M \<Longrightarrow> monitor_inv (cancel_monitor c M)"
  by (auto simp: monitor_inv_def cancel_monitor_def split: option.split)

lemma monitor_live: "monitor_inv M \<Longrightarrow> i < length (monitors M) \<Longrightarrow> i \<notin> cancelled M \<Longrightarrow> stored M (fst (monitors M ! i)) = Some i"
  unfolding monitor_inv_def by blast

lemma cancel_monitor_all:
  assumes "monitor_inv M" "i < length (monitors M)" "fst (monitors M ! i) = c"
  shows "i \<in> cancelled (cancel_monitor c M)"
  using monitor_live [OF assms(1,2)] assms(3) by (cases "i \<in> cancelled M") (simp_all add: cancel_monitor_def split: option.split)

lemma cancel_monitor_fields [simp]: "stored (cancel_monitor c M) = stored M" "monitors (cancel_monitor c M) = monitors M"
  by (simp_all add: cancel_monitor_def split: option.split)

lemma new_monitor_inv:
  assumes "monitor_inv M" "\<And>i. i < length (monitors M) \<Longrightarrow> fst (monitors M ! i) = c \<Longrightarrow> i \<in> cancelled M"
  shows "monitor_inv (M\<lparr>stored := (stored M)(c \<mapsto> length (monitors M)), monitors := monitors M @ [(c, x)]\<rparr>)"
  using assms by (auto simp: monitor_inv_def nth_append less_Suc_eq split: if_splits)

lemma netsvcmonitor_step_inv: "netsvcmonitor_step st st' \<Longrightarrow> monitor_inv (fst st) \<Longrightarrow> monitor_inv (fst st')"
proof (induction rule: netsvcmonitor_step.induct)
  case (request now c nxt r st res st')
  have inv: "monitor_inv (cancel_monitor c (fst st))" by (rule cancel_monitor_inv) fact
  have "i \<in> cancelled (cancel_monitor c (fst st))" if "i < length (monitors (cancel_monitor c (fst st)))"
    "fst (monitors (cancel_monitor c (fst st)) ! i) = c" for i
    using that by (intro cancel_monitor_all [OF request.prems]) simp_all
  note new = new_monitor_inv [OF inv this]
  show ?case using request.hyps inv new
    by (cases st) (auto simp: netsvcmonitor_Request_def Let_def split: prod.splits sum.splits)
next
  case (close c nxt conn st res st')
  then show ?case using cancel_monitor_inv
    by (cases st) (auto simp: netsvcmonitor_Close_def Let_def split: prod.splits)
qed

text \<open>
  A connection has at most one monitor whose context is not cancelled, the one stored last; a close leaves none.
\<close>

lemma one_monitor:
  assumes "netsvcmonitor_step\<^sup>*\<^sup>* (new_monitorServer, s0) (M, s)"
    and "i < length (monitors M)" "j < length (monitors M)" "i \<notin> cancelled M" "j \<notin> cancelled M" "fst (monitors M ! i) = fst (monitors M ! j)"
  shows "i = j"
proof -
  have "monitor_inv (fst (new_monitorServer, s0))" by (simp add: monitor_inv_def new_monitorServer_def)
  with assms(1) have "monitor_inv (fst (M, s))" by (induction rule: rtranclp_induct) (blast intro: netsvcmonitor_step_inv)+
  then have inv: "monitor_inv M" by simp
  have "stored M (fst (monitors M ! i)) = Some i" "stored M (fst (monitors M ! j)) = Some j"
    using monitor_live [OF inv] assms(2-5) by blast+
  then show ?thesis unfolding assms(6) by (metis option.inject)
qed

text \<open>
  A failed refresh cancels the monitor of a connection that is still there, and starts no other. A path with a segment without an expiration gives a
  monitor whose time is over when it starts.
\<close>

lemma failed_refresh_unmonitored:
  assumes "monitor_inv M" "nxt r s = (Inl e, s')"
  shows "\<exists>M'. netsvcmonitor_Request now c nxt r (M, s) = (Inl e, M', s') \<and> (\<forall>i<length (monitors M'). fst (monitors M' ! i) = c \<longrightarrow> i \<in> cancelled M')"
  using assms cancel_monitor_all [OF assms(1)] by (simp add: netsvcmonitor_Request_def)

lemma minExpires_le:
  assumes "\<forall>seg\<in>set segs. zero_time < AsTime (seg_Expires seg)" "seg \<in> set segs"
  shows "zero_time < minExpires segs \<and> minExpires segs \<le> AsTime (seg_Expires seg)"
  using assms
proof (induction segs arbitrary: seg rule: rev_induct)
  case (snoc x xs)
  have last: "minExpires (xs @ [x]) = earliest_of (minExpires xs) x" by (simp add: minExpires_def)
  show ?case
  proof (cases "xs = []")
    case True
    then show ?thesis using snoc.prems by (simp add: minExpires_def earliest_of_def)
  next
    case False
    then obtain y where "y \<in> set xs" by (cases xs) auto
    then have "zero_time < minExpires xs" using snoc.IH snoc.prems by auto
    moreover have "minExpires xs \<le> AsTime (seg_Expires seg)" if "seg \<in> set xs" using snoc.IH [OF _ that] snoc.prems(1) by simp
    ultimately show ?thesis using snoc.prems unfolding last by (fastforce simp: earliest_of_def Let_def)
  qed
qed simp

lemma no_expiration_no_monitor:
  assumes "conn_path conn = Some p" "\<forall>seg\<in>set (PathSegments p). zero_time < AsTime (seg_Expires seg)" "seg \<in> set (PathSegments p)"
    and "seg_Expires seg = None" "0 \<le> now"
  shows "\<exists>d. monitor_deadline now conn = Some d \<and> d \<le> now"
proof -
  have "zero_time < minExpires (PathSegments p) \<and> minExpires (PathSegments p) \<le> 0" using minExpires_le [OF assms(2,3)] assms(4) by (simp add: AsTime_def)
  then show ?thesis using assms(1,5) by (simp add: monitor_deadline_def Until_def)
qed

end
