(* ===== verification/Spec2Isabelle.thy ===== *)
theory Spec2Isabelle
  imports IP_Pool_Theorems Go_Net_Roundtrip Path_Theorems Registry_Theorems Begin_Theorems Ipam_Theorems
    Prefix_Pool_Theorems Vl3_Prefixes_Theorems Chain_Theorems Discover_Select Excluded_Theorems
    Mechanism_Choice Mechanism_Pool_Theorems Timer_Theorems Idle_Retry
    Monitor_Theorems Heal_Loop Cleanup_Client Upstream_Refresh Authorize_Theorems Single_Ipam Metadata_Store Links_Theorems
    Element_Theorems Query_Cache_Theorems Discover_Forwarder
    Dns_Context Vl3_Mtu Chain_Adapters Dns_Resolve Registry_Heal Service_Monitor
begin

text \<open>
  A verification library of the Network Service Mesh SDK (Go, under \<^verbatim>\<open>src/pkg\<close>).

  \<^bold>\<open>The program.\<close> The SDK is a kit of chain elements. A network service request travels from a client through
  managers to an endpoint; each of these applications is a chain of elements, and each element does one thing to the
  request (numbers the path, picks an endpoint, gives out addresses) before it calls the next one and to the answer
  afterwards. The registry, where endpoints are announced, is built the same way. Elements keep their state per
  connection and share pools of addresses between connections.

  \<^bold>\<open>How elements are modelled.\<close> An element's method is a function that takes the rest of its chain, the message and its
  state. The rest of the chain (\<^verbatim>\<open>next.Server(ctx)\<close> and its variants) is an argument, a function from a message and the
  state of the world to an answer and a new state, so every property holds for whatever follows. Values an element
  finds in the context of a call (metadata, candidates, the URL to call) are arguments too. Messages of the API module
  are records (NSM_Api, Registry_Api). A returned error is \<open>Inl\<close>; a panic (nil dereference, index out of range, method on
  a nil pool) is \<open>Inl Panic\<close> or, in the components over pools, \<open>None\<close>. Words of 32 and 64 bits wrap as in Go; Go maps are
  functions or association lists, and where their iteration order matters it is an argument.

  \<^bold>\<open>Theories and code.\<close>
  \<^item> NSM_Prelude: integer widths, lemma collections, facts on lists, options and words.
  \<^item> Go_Net, Go_Net_Text, Go_Net_Roundtrip: what the source uses of Go's package \<^verbatim>\<open>net\<close> (addresses, masks, parsing and printing
    of networks). Printing then parsing a canonical network gives it back.
  \<^item> IP_Range, IP_Host, IP_Convert, IP_Prefixes(\_Props): addresses of two 64-bit words, ranges, and the prefixes of a range
    (\<^verbatim>\<open>tools/ippool/types.go\<close>, \<^verbatim>\<open>tools.go\<close>). RB_Tree, RB_Invariants: the red-black tree with zippers for parent pointers.
    IP_Pool(\_Ops, \_Props, \_Text): the pool of \<^verbatim>\<open>ippool.go\<close> and the two-family pool of \<^verbatim>\<open>prefixpool.go\<close>. IP_Pool_Theorems: a pool
    is the set of its addresses (\<open>pool_set\<close>), and every operation is the set operation it is named after, keeps the tree's
    invariants and never panics; also height, listing and the texts.
  \<^item> Prefix_Pool, Prefix_Pool_Extract, Prefix_Pool_Ops, Prefix_Pool_Release, Prefix_Pool_Props, Prefix_Pool_Theorems: \<^verbatim>\<open>tools/prefixpool\<close>. The pool is a list of prefixes described by how often each address
    is covered; extracting, excluding and releasing keep the cover apart from the addresses they name, and releasing
    undoes extracting for every iteration order of the maps.
  \<^item> Address_Ledger: what an address manager promises, as a ledger of spare and held addresses, with the locale
    \<open>ledger_client\<close>. P2P_Ipam, P2P_Props, P2P_Refine, Ipam_Theorems: \<^verbatim>\<open>networkservice/ipam/point2pointipam\<close>, a client of the ledger.
    Vl3_Ipam, Vl3_Theorems: the manager and the server of \<^verbatim>\<open>connectioncontext/ipcontext/vl3\<close> and \<^verbatim>\<open>ipam/strictvl3ipam\<close>,
    another client. Vl3_Prefixes, Vl3_Prefixes_Theorems: the prefix server of \<^verbatim>\<open>ipam/vl3ipam\<close> over interleaved streams.
  \<^item> Single_Ipam: \<^verbatim>\<open>ipam/singlepointipam\<close> and \<^verbatim>\<open>ipam/strictipam\<close>. Closing a connection keeps its entry, so its address is given out
    twice; the strict manager resets what it gave out itself.
  \<^item> Excluded_Prefixes, Excluded_Theorems: \<^verbatim>\<open>common/excludedprefixes\<close>, which keeps the addresses of an application's connections apart.
  \<^item> Next_Chain, Chain_Theorems: \<^verbatim>\<open>core/next\<close> of both sides, how a chain finds the next element in the context. A chain, nested in
    any way, is the composition of its elements. Chain_Adapters: \<^verbatim>\<open>core/adapters\<close> of both sides, which make clients of servers and servers of
    clients, with the channels their streams run over: calls go through unchanged, and a search with too many answers blocks.
  \<^item> Begin_Core, Begin_Elements, Begin_Theorems: \<^verbatim>\<open>common/begin\<close> of both sides, which serializes the events of a
    connection. An interpreter with explicit program points interleaves the callers; the six elements instantiate it.
  \<^item> Update_Path, Registry_Path, Path_Theorems: \<^verbatim>\<open>updatepath\<close> of both sides and \<^verbatim>\<open>trimpath\<close>.
  \<^item> Match_Utils: \<^verbatim>\<open>tools/matchutils\<close>. Memory_Registry, Memory_Watch, Memory_Handlers, Registry_Theorems: the registries of
    \<^verbatim>\<open>registry/common/memory\<close>, with executor, bounded event channels and watchers as a step relation.
  \<^item> Discover_Select: \<^verbatim>\<open>common/discover\<close> and \<^verbatim>\<open>common/roundrobin\<close> together. Discover_Forwarder: \<^verbatim>\<open>common/discoverforwarder\<close>,
    how a manager chooses the forwarder of a connection and stays with it.
  \<^item> Mechanism_Choice: how a connection gets its mechanism (\<^verbatim>\<open>filtermechanisms\<close>, \<^verbatim>\<open>mechanismpriority\<close>,
    \<^verbatim>\<open>mechanisms\<close>, \<^verbatim>\<open>mechanismtranslation\<close>). Mechanism_Pools, Mechanism_Pool_Theorems: the servers of \<^verbatim>\<open>mechanisms/kernel\<close>,
    \<^verbatim>\<open>kernel/vlan\<close> and \<^verbatim>\<open>vxlan/vni\<close>; the allocators of VLAN ids and VNIs are clients of the ledger in every interleaving.
  \<^item> Element_Timers, Timer_Theorems: \<^verbatim>\<open>timeout\<close>, \<^verbatim>\<open>expire\<close> and \<^verbatim>\<open>refresh\<close> of both sides, the goroutines that wait for a time or a
    cancellation and fire an event of \<^verbatim>\<open>begin\<close>. The locale \<open>timed\<close> collects what they share. Idle_Retry:
    \<^verbatim>\<open>onidle\<close> and the \<^verbatim>\<open>retry\<close> clients.
  \<^item> Connection_Monitor, Monitor_Theorems: \<^verbatim>\<open>common/monitor\<close>, its server over executors and streams as a step relation, and the filters
    through which \<^verbatim>\<open>monitor\<close>, \<^verbatim>\<open>heal\<close> and \<^verbatim>\<open>upstreamrefresh\<close> watch one connection.
  \<^item> Heal_Loop: \<^verbatim>\<open>common/heal\<close>, the event loop that requests a connection again when its control plane or data plane is down. Cleanup_Client:
    \<^verbatim>\<open>common/cleanup\<close>, which closes connections when the chain ends. Upstream_Refresh: \<^verbatim>\<open>common/upstreamrefresh\<close>. The last two are machines of
    executable single steps that interleave goroutines and executors. Service_Monitor: \<^verbatim>\<open>common/netsvcmonitor\<close>, which closes connections whose endpoint no
    longer matches their network service.
  \<^item> Authorize, Authorize_Theorems: the authorization elements of both sides and of the monitor server, with the policies on their
    maps (\<^verbatim>\<open>tools/opa/policies\<close>): who registers a name keeps it.
  \<^item> Metadata_Store: \<^verbatim>\<open>utils/metadata\<close> of both sides, the cells in which elements keep what belongs to one connection,
    with interleaved calls. Client_Links, Links_Theorems: \<^verbatim>\<open>clienturl\<close>, \<^verbatim>\<open>clientconn\<close>, \<^verbatim>\<open>dial\<close> and \<^verbatim>\<open>connect\<close> of both sides, how a client opens and
    closes its gRPC connections; gRPC and the remote application are arguments.
  \<^item> Registry_Elements, Connection_Elements, Element_Theorems: the small elements of both sides that rewrite URLs, names, labels and tunnel addresses
    (\<^verbatim>\<open>localbypass\<close>, \<^verbatim>\<open>interdomainbypass\<close>, \<^verbatim>\<open>swapip\<close>, \<^verbatim>\<open>externalips\<close>, \<^verbatim>\<open>switchcase\<close>, \<^verbatim>\<open>clusterinfo\<close>, \<^verbatim>\<open>clientinfo\<close> and others).
  \<^item> Dns_Handlers, Dns_Context: the DNS handlers of \<^verbatim>\<open>tools/dnsutils\<close> (chains of them are the chains of Next_Chain), and the elements of
    \<^verbatim>\<open>connectioncontext/dnscontext\<close> and \<^verbatim>\<open>dnscontext/vl3dns\<close> that give connections DNS configurations and names, with the client's changes of the
    resolver's file. Vl3_Mtu: \<^verbatim>\<open>connectioncontext/mtu/vl3mtu\<close>, the least MTU of a vL3 network, and which clients know it.
  \<^item> Query_Cache, Query_Cache_Theorems: \<^verbatim>\<open>registry/common/querycache\<close>, whose entries follow the registry behind through watches, as a step
    relation over finds, watches, the clock and changes of the registry.
  \<^item> Registry_Heal: \<^verbatim>\<open>registry/common/heal\<close>, which registers again what it watches, and searches that go on over broken streams.
  \<^item> Dns_Resolve: \<^verbatim>\<open>registry/common/dnsresolve\<close>, calls to the registry of another domain, whose names are cut on the way there and restored on the
    way back.

  \<^bold>\<open>Fuel and bounds.\<close> Loops recurse structurally or with a measure. The call of a chain counts nested calls: \<open>enough_calls\<close> adds
  two for each element and nested chain and one for the tail, and the theorem shows that this is enough. The joining loop of
  the prefix pool ends because every round that changes something joins two prefixes. The drawing of
  VNIs and the retrying of calls have no bound in the source and are partial functions. Interleavings are unbounded lists of steps.

  \<^bold>\<open>Not modelled.\<close> The chains that only list elements with options; contexts and the streams of the gRPC runtime; tracing,
  logging and metrics; the policies on tokens, which the OPA library evaluates, and the signing of tokens; gRPC itself,
  file descriptors; the DNS library and its sockets; test helpers. The manifest lists them with reasons.
\<close>

end
